(* ===== verification/Prelude.thy ===== *)
theory Prelude
  imports Complex_Main "HOL-Library.AList" "HOL-Library.Word" "HOL-Library.Multiset"
begin

text \<open>
  Shared vocabulary of the development: the type names of the model, the generic
  facts about association lists, ordered maps and insertion-ordered sets that the
  component theories use, and the conventions for times.

  Representation conventions.

  \<^item> A \<^verbatim>\<open>std::unordered_map\<close> or \<^verbatim>\<open>std::unordered_set\<close> whose iteration order the code
    observes is a list of entries (elements) in iteration order. The order is
    unspecified in C++, so no theorem assumes anything about it.
  \<^item> A \<^verbatim>\<open>std::map\<close> whose order the code observes is a list of entries sorted by key
    (\<open>omap_set\<close> below); one that is only looked up is a HOL map.
  \<^item> A \<^verbatim>\<open>std::chrono\<close> time point is the number of nanoseconds since the epoch and a
    \<^verbatim>\<open>microseconds\<close> duration the number of microseconds, both as \<open>int\<close>: adding to them
    beyond 64 bits is undefined behaviour in C++, and the model follows the code as
    long as that does not happen.
  \<^item> \<open>None\<close> as the result of an operation is a failed \<^verbatim>\<open>XASSERT\<close> (the process aborts).
\<close>

named_theorems omap_simps \<open>lookup in and keys of an ordered map\<close>
named_theorems oset_simps \<open>elements of an insertion-ordered set\<close>

type_synonym xhandle = "64 word"
type_synonym xdevice = "64 word"
type_synonym pid = int
type_synonym time_ns = int

section \<open>Times\<close>

definition us_to_ns :: "int \<Rightarrow> int" where
  "us_to_ns us = us * 1000"

text \<open>Division that truncates towards zero, as C++ integer division does.\<close>

definition tdiv :: "int \<Rightarrow> int \<Rightarrow> int" where
  "tdiv a b = (if b = 0 then 0 else sgn a * sgn b * (\<bar>a\<bar> div \<bar>b\<bar>))"

text \<open>\<^verbatim>\<open>duration_cast<microseconds>\<close> of a nanosecond difference.\<close>

definition ns_to_us :: "int \<Rightarrow> int" where
  "ns_to_us ns = tdiv ns 1000"

definition time_max :: time_ns where
  "time_max = 9223372036854775807"

definition time_min :: time_ns where
  "time_min = - 9223372036854775808"

lemma us_to_ns_mono [simp]: "us_to_ns a \<le> us_to_ns b \<longleftrightarrow> a \<le> b"
  by (simp add: us_to_ns_def)

lemma tdiv_nonneg: "0 \<le> a \<Longrightarrow> 0 < b \<Longrightarrow> tdiv a b = a div b"
  by (cases "a = 0") (simp_all add: tdiv_def)

lemma tdiv_nonneg_ge [intro]: "0 \<le> a \<Longrightarrow> 0 < b \<Longrightarrow> 0 \<le> tdiv a b"
  by (simp add: tdiv_nonneg pos_imp_zdiv_nonneg_iff)

lemma tdiv_le: "0 \<le> a \<Longrightarrow> 0 < b \<Longrightarrow> tdiv a b \<le> a"
  by (simp add: tdiv_nonneg) (smt (verit) int_div_less_self div_by_1 zdiv_mono2)

lemma ns_to_us_nonneg: "0 \<le> ns \<Longrightarrow> 0 \<le> ns_to_us ns"
  by (auto simp: ns_to_us_def)

lemma ns_to_us_us [simp]: "ns_to_us (us_to_ns u) = u"
  by (simp add: ns_to_us_def us_to_ns_def tdiv_def abs_mult sgn_mult sgn_if)

section \<open>Association lists\<close>

lemma map_of_update [simp]:
  "map_of (AList.update k v xs) = (map_of xs)(k \<mapsto> v)"
  by (rule update_conv')

lemma map_of_delete_upd [simp]:
  "map_of (AList.delete k xs) = (map_of xs)(k := None)"
  by (rule delete_conv')

lemma keys_update [simp]:
  "fst ` set (AList.update k v xs) = insert k (fst ` set xs)"
  by (simp add: dom_update)

lemma keys_map_entry [simp]:
  "map fst (AList.map_entry k f xs) = map fst xs"
  by (induction xs) auto

lemma map_of_map_entry_upd:
  "map_of (AList.map_entry k f xs) k' =
     (if k' = k then map_option f (map_of xs k) else map_of xs k')"
  by (induction xs) auto

lemma map_of_in_set: "map_of xs k = Some v \<Longrightarrow> (k, v) \<in> set xs"
  by (rule map_of_SomeD)

declare map_of_eq_Some_iff [simp del] map_of_is_SomeI [simp del] Some_eq_map_of_iff [simp del]

lemma in_set_map_of:
  "distinct (map fst xs) \<Longrightarrow> (k, v) \<in> set xs \<longleftrightarrow> map_of xs k = Some v"
  by (auto simp: map_of_eq_Some_iff)

lemma distinct_filter_keys:
  "distinct (map fst xs) \<Longrightarrow> distinct (map fst (filter P xs))"
  by (rule distinct_map_filter)

lemma map_of_filter_key:
  "map_of (filter (\<lambda>(k, v). P k) xs) = (map_of xs) |` {k. P k}"
  by (induction xs) (auto simp: restrict_map_def fun_eq_iff)

section \<open>Ordered maps\<close>

text \<open>A \<^verbatim>\<open>std::map\<close>: \<open>omap_set\<close> is the assignment \<^verbatim>\<open>m[k] = v\<close>, which keeps the keys
  sorted; \<open>omap_erase\<close> is \<^verbatim>\<open>m.erase(k)\<close>.\<close>

fun omap_set :: "'k::linorder \<Rightarrow> 'v \<Rightarrow> ('k \<times> 'v) list \<Rightarrow> ('k \<times> 'v) list" where
  "omap_set k v [] = [(k, v)]"
| "omap_set k v ((k', v') # xs) =
     (if k < k' then (k, v) # (k', v') # xs
      else if k = k' then (k, v) # xs
      else (k', v') # omap_set k v xs)"

definition omap_erase :: "'k \<Rightarrow> ('k \<times> 'v) list \<Rightarrow> ('k \<times> 'v) list" where
  "omap_erase k xs = filter (\<lambda>(k', _). k' \<noteq> k) xs"

abbreviation omap_ok :: "('k::linorder \<times> 'v) list \<Rightarrow> bool" where
  "omap_ok xs \<equiv> sorted_wrt (<) (map fst xs)"

lemma omap_ok_distinct: "omap_ok xs \<Longrightarrow> distinct (map fst xs)"
  using strict_sorted_iff by blast

lemma omap_set_keys [omap_simps]: "fst ` set (omap_set k v xs) = insert k (fst ` set xs)"
  by (induction k v xs rule: omap_set.induct) auto

lemma omap_set_ok [omap_simps]: "omap_ok xs \<Longrightarrow> omap_ok (omap_set k v xs)"
proof (induction k v xs rule: omap_set.induct)
  case (2 k v k' v' xs)
  then show ?case
    by (auto simp: omap_set_keys)
qed simp

lemma omap_set_lookup [omap_simps]:
  "omap_ok xs \<Longrightarrow> map_of (omap_set k v xs) = (map_of xs)(k \<mapsto> v)"
proof (induction k v xs rule: omap_set.induct)
  case (2 k v k' v' xs)
  then show ?case by (auto simp: fun_eq_iff)
qed simp

lemma omap_erase_ok [omap_simps]: "omap_ok xs \<Longrightarrow> omap_ok (omap_erase k xs)"
  by (induction xs) (auto simp: omap_erase_def)

lemma omap_erase_keys [omap_simps]: "fst ` set (omap_erase k xs) = fst ` set xs - {k}"
  by (auto simp: omap_erase_def)

lemma omap_erase_lookup [omap_simps]:
  "map_of (omap_erase k xs) = (map_of xs)(k := None)"
  by (induction xs) (auto simp: omap_erase_def fun_eq_iff)

lemma omap_filter_ok [omap_simps]: "omap_ok xs \<Longrightarrow> omap_ok (filter P xs)"
  by (induction xs) auto

section \<open>Insertion-ordered sets\<close>

text \<open>\<^verbatim>\<open>unordered_set::insert\<close> and \<^verbatim>\<open>unordered_set::erase\<close> on the list of elements.\<close>

definition oset_insert :: "'a \<Rightarrow> 'a list \<Rightarrow> 'a list" where
  "oset_insert x xs = (if x \<in> set xs then xs else xs @ [x])"

definition oset_erase :: "'a \<Rightarrow> 'a list \<Rightarrow> 'a list" where
  "oset_erase x xs = filter (\<lambda>y. y \<noteq> x) xs"

lemma oset_insert_set [simp, oset_simps]: "set (oset_insert x xs) = insert x (set xs)"
  by (auto simp: oset_insert_def)

lemma oset_insert_distinct [simp, oset_simps]:
  "distinct (oset_insert x xs) \<longleftrightarrow> distinct xs"
  by (auto simp: oset_insert_def)

lemma oset_erase_set [simp, oset_simps]: "set (oset_erase x xs) = set xs - {x}"
  by (auto simp: oset_erase_def)

lemma oset_erase_distinct [simp, oset_simps]: "distinct xs \<Longrightarrow> distinct (oset_erase x xs)"
  by (simp add: oset_erase_def)

section \<open>Searching lists\<close>

lemma find_SomeD: "find P xs = Some x \<Longrightarrow> x \<in> set xs \<and> P x"
  by (induction xs) (auto split: if_splits)

lemma find_NoneD: "find P xs = None \<Longrightarrow> x \<in> set xs \<Longrightarrow> \<not> P x"
  by (induction xs) (auto split: if_splits)

lemma find_append:
  "find P (xs @ ys) = (case find P xs of Some x \<Rightarrow> Some x | None \<Rightarrow> find P ys)"
  by (induction xs) auto

lemma in_set_tlD: "x \<in> set (tl xs) \<Longrightarrow> x \<in> set xs"
  by (cases xs) auto

section \<open>Folds over lists of optional updates\<close>

lemma foldl_invariant:
  assumes "P s" "\<And>s x. x \<in> set xs \<Longrightarrow> P s \<Longrightarrow> P (f s x)"
  shows "P (foldl f s xs)"
  using assms by (induction xs arbitrary: s) auto

lemma fold_invariant_list:
  assumes "P s" "\<And>s x. x \<in> set xs \<Longrightarrow> P s \<Longrightarrow> P (f x s)"
  shows "P (fold f xs s)"
  using assms by (induction xs arbitrary: s) auto

lemma foldl_max_ge:
  fixes f :: "'a \<Rightarrow> 'b::linorder"
  shows "m \<le> foldl (\<lambda>m x. if P x \<and> m < f x then f x else m) m xs
       \<and> (\<forall>x\<in>set xs. P x \<longrightarrow> f x \<le> foldl (\<lambda>m x. if P x \<and> m < f x then f x else m) m xs)"
  by (induction xs arbitrary: m) (auto, (meson less_imp_le order.trans not_le)+)

lemma foldl_max_attained:
  fixes f :: "'a \<Rightarrow> 'b::linorder"
  shows "foldl (\<lambda>m x. if P x \<and> m < f x then f x else m) m xs = m
       \<or> (\<exists>x\<in>set xs. P x \<and> foldl (\<lambda>m x. if P x \<and> m < f x then f x else m) m xs = f x)"
proof (induction xs arbitrary: m)
  case (Cons x xs)
  show ?case
    using Cons.IH [of "f x"] Cons.IH [of m] by (cases "P x \<and> m < f x") (simp_all, blast+)
qed simp

end
