(* ===== verification/XTypes.thy ===== *)
theory XTypes
  imports Prelude
begin

text \<open>
  The public vocabulary of \<^verbatim>\<open>include/xsched/types.h\<close> and \<^verbatim>\<open>protocol/\<close>: result codes, the
  enumerations with their numbers, the ranges of the scheduling parameters, the packing
  of a device into 64 bits (\<^verbatim>\<open>protocol/src/device.cpp\<close>) and the name tables
  (\<^verbatim>\<open>protocol/src/names.cpp\<close>).
\<close>

unbundle bit_operations_syntax

section \<open>Result codes\<close>

datatype xresult =
    kXSchedSuccess
  | kXSchedErrorHardware
  | kXSchedErrorInvalidValue
  | kXSchedErrorNotFound
  | kXSchedErrorNotAllowed
  | kXSchedErrorNotSupported
  | kXSchedErrorBadResponse
  | kXSchedErrorUnknown

fun xresult_code :: "xresult \<Rightarrow> int" where
  "xresult_code kXSchedSuccess = 0"
| "xresult_code kXSchedErrorHardware = 1"
| "xresult_code kXSchedErrorInvalidValue = 2"
| "xresult_code kXSchedErrorNotFound = 3"
| "xresult_code kXSchedErrorNotAllowed = 4"
| "xresult_code kXSchedErrorNotSupported = 5"
| "xresult_code kXSchedErrorBadResponse = 6"
| "xresult_code kXSchedErrorUnknown = 999"

section \<open>Enumerations\<close>

datatype xplatform =
    kPlatformUnknown | kPlatformVPI | kPlatformCUDA | kPlatformCUDLA
  | kPlatformHIP | kPlatformAscend | kPlatformOpenCL | kPlatformLevelZero

datatype xdevice_type =
    kDeviceTypeUnknown | kDeviceTypeCPU | kDeviceTypeGPU | kDeviceTypeNPU
  | kDeviceTypeFPGA | kDeviceTypeASIC | kDeviceTypeMCA

fun xdevice_type_code :: "xdevice_type \<Rightarrow> 32 word" where
  "xdevice_type_code kDeviceTypeUnknown = 0"
| "xdevice_type_code kDeviceTypeCPU = 1"
| "xdevice_type_code kDeviceTypeGPU = 2"
| "xdevice_type_code kDeviceTypeNPU = 3"
| "xdevice_type_code kDeviceTypeFPGA = 4"
| "xdevice_type_code kDeviceTypeASIC = 5"
| "xdevice_type_code kDeviceTypeMCA = 6"

text \<open>The preemption level travels as a plain C enum through events, configuration and
  JSON, where any integer can turn up; the model keeps its number.\<close>

abbreviation (input) kPreemptLevelUnknown :: int where "kPreemptLevelUnknown \<equiv> 0"
abbreviation (input) kPreemptLevelBlock :: int where "kPreemptLevelBlock \<equiv> 1"
abbreviation (input) kPreemptLevelDeactivate :: int where "kPreemptLevelDeactivate \<equiv> 2"
abbreviation (input) kPreemptLevelInterrupt :: int where "kPreemptLevelInterrupt \<equiv> 3"
abbreviation (input) kPreemptLevelMax :: int where "kPreemptLevelMax \<equiv> 4"

datatype xqueue_state = kQueueStateUnknown | kQueueStateIdle | kQueueStateReady

datatype xscheduler_type =
    kSchedulerUnknown | kSchedulerAppManaged | kSchedulerLocal | kSchedulerGlobal

datatype xpolicy_type =
    kPolicyUnknown
  | kPolicyHighestPriorityFirst
  | kPolicyHeterogeneousHighestPriorityFirst
  | kPolicyUtilizationPartition
  | kPolicyProcessUtilizationPartition
  | kPolicyKEarliestDeadlineFirst
  | kPolicyLaxity
  | kPolicyActiveWindowFirst
  | kPolicyCPUHighestPriorityFirst
  | kPolicyCompletelyFairScheduler
  | kPolicyMultiLevelFeedbackQueue
  | kPolicySLOAdaptive
  | kPolicyInterferenceAwareHeterogeneous
  | kPolicyMax

fun xpolicy_code :: "xpolicy_type \<Rightarrow> int" where
  "xpolicy_code kPolicyUnknown = 0"
| "xpolicy_code kPolicyHighestPriorityFirst = 1"
| "xpolicy_code kPolicyHeterogeneousHighestPriorityFirst = 2"
| "xpolicy_code kPolicyUtilizationPartition = 3"
| "xpolicy_code kPolicyProcessUtilizationPartition = 4"
| "xpolicy_code kPolicyKEarliestDeadlineFirst = 5"
| "xpolicy_code kPolicyLaxity = 6"
| "xpolicy_code kPolicyActiveWindowFirst = 7"
| "xpolicy_code kPolicyCPUHighestPriorityFirst = 8"
| "xpolicy_code kPolicyCompletelyFairScheduler = 9"
| "xpolicy_code kPolicyMultiLevelFeedbackQueue = 10"
| "xpolicy_code kPolicySLOAdaptive = 11"
| "xpolicy_code kPolicyInterferenceAwareHeterogeneous = 12"
| "xpolicy_code kPolicyMax = 13"

lemma xpolicy_code_inj [simp]: "xpolicy_code a = xpolicy_code b \<longleftrightarrow> a = b"
  by (cases a; cases b) simp_all

section \<open>Ranges of the scheduling parameters\<close>

abbreviation (input) PRIORITY_NO_EXECUTE :: int where "PRIORITY_NO_EXECUTE \<equiv> - 256"
abbreviation (input) PRIORITY_MIN :: int where "PRIORITY_MIN \<equiv> - 255"
abbreviation (input) PRIORITY_DEFAULT :: int where "PRIORITY_DEFAULT \<equiv> 0"
abbreviation (input) PRIORITY_MAX :: int where "PRIORITY_MAX \<equiv> 255"
abbreviation (input) UTILIZATION_MIN :: int where "UTILIZATION_MIN \<equiv> 0"
abbreviation (input) UTILIZATION_DEFAULT :: int where "UTILIZATION_DEFAULT \<equiv> 100"
abbreviation (input) UTILIZATION_MAX :: int where "UTILIZATION_MAX \<equiv> 100"
abbreviation (input) TIMESLICE_MIN :: int where "TIMESLICE_MIN \<equiv> 100"
abbreviation (input) TIMESLICE_DEFAULT :: int where "TIMESLICE_DEFAULT \<equiv> 5000"
abbreviation (input) TIMESLICE_MAX :: int where "TIMESLICE_MAX \<equiv> 100000"
abbreviation (input) NO_LAXITY :: int where "NO_LAXITY \<equiv> - 1"
abbreviation (input) NO_DEADLINE :: int where "NO_DEADLINE \<equiv> - 1"

section \<open>Devices\<close>

definition GetDeviceId :: "xdevice \<Rightarrow> 32 word" where
  "GetDeviceId dev = (ucast dev :: 32 word) AND 0xFFFFFFFF"

text \<open>\<^verbatim>\<open>GetDeviceType(XDevice)\<close> casts the upper half to the enum, whatever it holds.\<close>

definition GetDeviceTypeOf :: "xdevice \<Rightarrow> 32 word" where
  "GetDeviceTypeOf dev = ucast (drop_bit 32 dev)"

definition MakeDevice :: "32 word \<Rightarrow> 32 word \<Rightarrow> xdevice" where
  "MakeDevice t i = push_bit 32 (ucast t) OR ucast i"

lemma GetDeviceId_ucast: "GetDeviceId dev = ucast dev"
proof -
  have "(0xFFFFFFFF :: 32 word) = - 1" by simp
  then show ?thesis unfolding GetDeviceId_def by (metis and.right_neutral)
qed

lemma make_device_id: "GetDeviceId (MakeDevice t i) = i"
  by (rule bit_word_eqI) (auto simp: GetDeviceId_ucast MakeDevice_def bit_simps)

lemma make_device_type: "GetDeviceTypeOf (MakeDevice t i) = t"
  by (rule bit_word_eqI)
     (auto simp: GetDeviceTypeOf_def MakeDevice_def bit_simps dest: bit_imp_le_length)

lemma make_device_inverse: "MakeDevice (GetDeviceTypeOf d) (GetDeviceId d) = d"
  by (rule bit_word_eqI)
     (auto simp: GetDeviceTypeOf_def GetDeviceId_ucast MakeDevice_def bit_simps)

section \<open>Names\<close>

text \<open>\<^verbatim>\<open>SEARCH_NAME\<close> and \<^verbatim>\<open>SEARCH_KEY\<close>.\<close>

definition unknown_name :: string where "unknown_name = ''Unknown''"

definition search_name :: "('k \<times> string) list \<Rightarrow> 'k \<Rightarrow> string" where
  "search_name m k = (case map_of m k of Some s \<Rightarrow> s | None \<Rightarrow> unknown_name)"

fun search_key :: "('k \<times> string) list \<Rightarrow> string \<Rightarrow> 'k \<Rightarrow> 'k" where
  "search_key [] v unk = unk"
| "search_key ((k, s) # m) v unk = (if s = v then k else search_key m v unk)"

lemma search_key_name:
  assumes "distinct (map fst m)" "distinct (map snd m)" "k \<in> fst ` set m"
  shows "search_key m (search_name m k) unk = k"
  using assms
proof (induction m)
  case (Cons e m)
  obtain k' s where e: "e = (k', s)" by (cases e)
  show ?case
  proof (cases "k = k'")
    case False
    with Cons.prems(3) e have "k \<in> fst ` set m" by simp
    then obtain v where v: "map_of m k = Some v"
      by (cases "map_of m k") (auto simp: map_of_eq_None_iff)
    hence "v \<in> snd ` set m" by (force dest: map_of_in_set)
    with Cons.prems e have "s \<noteq> v" by auto
    moreover have "k \<in> fst ` set m" using v by (force dest: map_of_in_set)
    ultimately show ?thesis
      using Cons e False v by (simp add: search_name_def)
  qed (simp add: e search_name_def)
qed simp

definition PlatformNames :: "(xplatform \<times> string) list" where
  "PlatformNames =
    [(kPlatformUnknown, unknown_name), (kPlatformVPI, ''VPI''), (kPlatformCUDA, ''CUDA''),
     (kPlatformCUDLA, ''cuDLA''), (kPlatformHIP, ''HIP''), (kPlatformAscend, ''Ascend''),
     (kPlatformOpenCL, ''OpenCL''), (kPlatformLevelZero, ''LevelZero'')]"

definition DeviceTypeNames :: "(xdevice_type \<times> string) list" where
  "DeviceTypeNames =
    [(kDeviceTypeUnknown, unknown_name), (kDeviceTypeCPU, ''CPU''), (kDeviceTypeGPU, ''GPU''),
     (kDeviceTypeNPU, ''NPU''), (kDeviceTypeFPGA, ''FPGA''), (kDeviceTypeASIC, ''ASIC'')]"

definition PreemptLevelNames :: "(int \<times> string) list" where
  "PreemptLevelNames =
    [(kPreemptLevelUnknown, unknown_name), (kPreemptLevelBlock, ''Block''),
     (kPreemptLevelDeactivate, ''Deactivate''), (kPreemptLevelInterrupt, ''Interrupt'')]"

definition SchedulerNames :: "(xscheduler_type \<times> string) list" where
  "SchedulerNames =
    [(kSchedulerUnknown, unknown_name), (kSchedulerAppManaged, ''APP''),
     (kSchedulerLocal, ''LCL''), (kSchedulerGlobal, ''GLB'')]"

definition PolicyNames :: "(xpolicy_type \<times> string) list" where
  "PolicyNames =
    [(kPolicyUnknown, unknown_name),
     (kPolicyHighestPriorityFirst, ''HPF''),
     (kPolicyHeterogeneousHighestPriorityFirst, ''HHPF''),
     (kPolicyUtilizationPartition, ''UP''),
     (kPolicyProcessUtilizationPartition, ''PUP''),
     (kPolicyKEarliestDeadlineFirst, ''KEDF''),
     (kPolicyLaxity, ''LAX''),
     (kPolicyActiveWindowFirst, ''AWF''),
     (kPolicyCPUHighestPriorityFirst, ''CHPF''),
     (kPolicyCompletelyFairScheduler, ''CFS''),
     (kPolicyMultiLevelFeedbackQueue, ''MLFQ''),
     (kPolicySLOAdaptive, ''SLO''),
     (kPolicyInterferenceAwareHeterogeneous, ''IAH'')]"

definition GetPlatform :: "string \<Rightarrow> xplatform" where
  "GetPlatform name = search_key PlatformNames name kPlatformUnknown"

definition GetPlatformName :: "xplatform \<Rightarrow> string" where
  "GetPlatformName p = search_name PlatformNames p"

definition GetDeviceType :: "string \<Rightarrow> xdevice_type" where
  "GetDeviceType name = search_key DeviceTypeNames name kDeviceTypeUnknown"

definition GetDeviceTypeName :: "xdevice_type \<Rightarrow> string" where
  "GetDeviceTypeName t = search_name DeviceTypeNames t"

definition GetPreemptLevel :: "string \<Rightarrow> int" where
  "GetPreemptLevel name = search_key PreemptLevelNames name kPreemptLevelUnknown"

definition GetPreemptLevelName :: "int \<Rightarrow> string" where
  "GetPreemptLevelName l = search_name PreemptLevelNames l"

definition GetSchedulerType :: "string \<Rightarrow> xscheduler_type" where
  "GetSchedulerType name = search_key SchedulerNames name kSchedulerUnknown"

definition GetSchedulerTypeName :: "xscheduler_type \<Rightarrow> string" where
  "GetSchedulerTypeName t = search_name SchedulerNames t"

definition GetPolicyType :: "string \<Rightarrow> xpolicy_type" where
  "GetPolicyType name = search_key PolicyNames name kPolicyUnknown"

definition GetPolicyTypeName :: "xpolicy_type \<Rightarrow> string" where
  "GetPolicyTypeName t = search_name PolicyNames t"

lemmas name_tables = PlatformNames_def DeviceTypeNames_def PreemptLevelNames_def
  SchedulerNames_def PolicyNames_def unknown_name_def

lemma platform_name_roundtrip: "GetPlatform (GetPlatformName p) = p"
  unfolding GetPlatform_def GetPlatformName_def
  by (rule search_key_name) (cases p; simp add: name_tables)+

lemma scheduler_name_roundtrip: "GetSchedulerType (GetSchedulerTypeName t) = t"
  unfolding GetSchedulerType_def GetSchedulerTypeName_def
  by (rule search_key_name) (cases t; simp add: name_tables)+

lemma policy_name_cases:
  "GetPolicyType (GetPolicyTypeName t) = (if t = kPolicyMax then kPolicyUnknown else t)"
  by (cases t) (simp_all add: GetPolicyType_def GetPolicyTypeName_def search_name_def name_tables)

lemma device_type_name_cases:
  "GetDeviceType (GetDeviceTypeName t) = (if t = kDeviceTypeMCA then kDeviceTypeUnknown else t)"
  by (cases t) (simp_all add: GetDeviceType_def GetDeviceTypeName_def search_name_def name_tables)

end
