(* ===== verification/Wire.thy ===== *)
theory Wire
  imports Prelude
begin

text \<open>
  Byte-level layout of the structs that cross a process boundary. Hints, events and
  operations are sent as the raw bytes of a C struct on a little-endian 64-bit Linux
  target; the receiver casts the buffer back. \<open>le_bytes\<close> and \<open>le_uint\<close> are the bytes of
  an integer field and the integer of some bytes, \<open>sx\<close> reinterprets a field as signed,
  and \<open>rd\<close> and \<open>flds\<close> read the fields of a struct at their offsets. A read that leaves
  the buffer is the value \<open>None\<close>: in the code it would be an out-of-bounds access.
\<close>

type_synonym bytes = "8 word list"

fun le_bytes :: "nat \<Rightarrow> int \<Rightarrow> bytes" where
  "le_bytes 0 x = []"
| "le_bytes (Suc n) x = word_of_int (x mod 256) # le_bytes n (x div 256)"

fun le_uint :: "bytes \<Rightarrow> int" where
  "le_uint [] = 0"
| "le_uint (b # bs) = uint b + 256 * le_uint bs"

definition sx :: "nat \<Rightarrow> int \<Rightarrow> int" where
  "sx n u = (if u < 2 ^ (8 * n - 1) then u else u - 2 ^ (8 * n))"

definition rd :: "nat \<Rightarrow> nat \<Rightarrow> bytes \<Rightarrow> int option" where
  "rd off n bs = (if off + n \<le> length bs then Some (le_uint (take n (drop off bs))) else None)"

definition flds :: "(nat \<times> nat) list \<Rightarrow> bytes \<Rightarrow> int list option" where
  "flds spec bs = those (map (\<lambda>(off, n). rd off n bs) spec)"

named_theorems wire_simps \<open>reading back the fields of an encoded struct\<close>

lemma length_le_bytes [simp, wire_simps]: "length (le_bytes n x) = n"
  by (induction n arbitrary: x) auto

lemma take_le_bytes [simp, wire_simps]: "take n (le_bytes n x) = le_bytes n x"
  by simp

lemma le_uint_le_bytes [simp, wire_simps]: "le_uint (le_bytes n x) = x mod 256 ^ n"
proof (induction n arbitrary: x)
  case (Suc n)
  have "x mod 256 + 256 * (x div 256 mod 256 ^ n) = x mod (256 * 256 ^ n)"
    using zmod_zmult2_eq [of "256 ^ n" x 256] by simp
  then show ?case using Suc by (simp add: unsigned_of_int take_bit_eq_mod)
qed simp

lemma le_uint_nonneg: "0 \<le> le_uint bs"
  by (induction bs) auto

lemma le_uint_less: "le_uint bs < 256 ^ length bs"
proof (induction bs)
  case (Cons b bs)
  have "uint b < 256" using uint_lt2p [of b] by simp
  then show ?case using Cons by simp
qed simp

lemma le_uint_append: "le_uint (xs @ ys) = le_uint xs + 256 ^ length xs * le_uint ys"
  by (induction xs) (auto simp: algebra_simps)

lemma le_bytes_inverse: "le_bytes (length bs) (le_uint bs) = bs"
proof (induction bs)
  case (Cons b bs)
  have b: "uint b < 256" "0 \<le> uint b" using uint_lt2p [of b] by simp_all
  have "(uint b + 256 * le_uint bs) mod 256 = uint b"
    using b by (simp add: mod_pos_pos_trivial)
  moreover have "(uint b + 256 * le_uint bs) div 256 = le_uint bs"
    using b by simp
  ultimately show ?case using Cons by (simp del: uint_lt2p)
qed simp

abbreviation in_signed :: "nat \<Rightarrow> int \<Rightarrow> bool" where
  "in_signed n x \<equiv> - (2 ^ (8 * n - 1)) \<le> x \<and> x < 2 ^ (8 * n - 1)"

abbreviation in_unsigned :: "nat \<Rightarrow> int \<Rightarrow> bool" where
  "in_unsigned n x \<equiv> 0 \<le> x \<and> x < 2 ^ (8 * n)"

lemma pow256: "(256 :: int) ^ n = 2 ^ (8 * n)"
  by (simp add: power_mult)

lemma sx_mod:
  assumes "0 < n" "in_signed n x"
  shows "sx n (x mod 2 ^ (8 * n)) = x"
proof -
  obtain m where m: "8 * n = Suc m" using assms(1) by (cases "8 * n") auto
  have p: "(2 :: int) ^ (8 * n) = 2 * 2 ^ m" by (simp add: m)
  have b: "- (2 ^ m) \<le> x" "x < 2 ^ m" using assms(2) m by simp_all
  show ?thesis
  proof (cases "0 \<le> x")
    case True
    then have "x mod 2 ^ (8 * n) = x" using b p by simp
    then show ?thesis using b by (simp add: sx_def m)
  next
    case False
    have "x mod 2 ^ (8 * n) = (x + 2 ^ (8 * n)) mod 2 ^ (8 * n)" by simp
    also have "\<dots> = x + 2 ^ (8 * n)" using False b p by (intro mod_pos_pos_trivial) auto
    finally show ?thesis using False b p by (simp add: sx_def m)
  qed
qed

lemma sx4 [wire_simps]: "- 2147483648 \<le> x \<Longrightarrow> x < 2147483648 \<Longrightarrow> sx 4 (x mod 4294967296) = x"
  using sx_mod [of 4 x] by simp

lemma sx8 [wire_simps]:
  "- 9223372036854775808 \<le> x \<Longrightarrow> x < 9223372036854775808
    \<Longrightarrow> sx 8 (x mod 18446744073709551616) = x"
  using sx_mod [of 8 x] by simp

lemma word64_of_field [simp, wire_simps]:
  "word_of_int (uint (w :: 64 word) mod 18446744073709551616) = w"
proof -
  have "uint w < 18446744073709551616" using uint_lt2p [of w] by simp
  then show ?thesis by simp
qed

lemma rd_within [wire_simps]:
  "off + n \<le> length bs \<Longrightarrow> rd off n bs = Some (le_uint (take n (drop off bs)))"
  by (simp add: rd_def)

lemma rd_append_left:
  "off + n \<le> length xs \<Longrightarrow> rd off n (xs @ ys) = rd off n xs"
  by (simp add: rd_def)

lemma rd_append_right:
  "length xs \<le> off \<Longrightarrow> rd off n (xs @ ys) = rd (off - length xs) n ys"
  by (auto simp: rd_def)

lemma rd_0_le_bytes [wire_simps]:
  "rd 0 n (le_bytes n x @ ys) = Some (x mod 256 ^ n)"
  by (simp add: rd_def)

lemma rd_0_le_bytes_all [wire_simps]:
  "rd 0 n (le_bytes n x) = Some (x mod 256 ^ n)"
  by (simp add: rd_def)

lemma rd_skip [wire_simps]:
  "m \<le> off \<Longrightarrow> rd off n (le_bytes m x @ ys) = rd (off - m) n ys"
  using rd_append_right [of "le_bytes m x" off n ys] by simp

lemma flds_Nil [wire_simps]: "flds [] bs = Some []"
  by (simp add: flds_def)

lemma flds_Cons [wire_simps]:
  "flds ((off, n) # spec) bs =
     (case rd off n bs of None \<Rightarrow> None | Some x \<Rightarrow> map_option ((#) x) (flds spec bs))"
  by (auto simp: flds_def split: option.splits)

lemma rd_range: "rd off n bs = Some u \<Longrightarrow> 0 \<le> u \<and> u < 2 ^ (8 * n)"
proof -
  assume "rd off n bs = Some u"
  then have u: "u = le_uint (take n (drop off bs))" "length (take n (drop off bs)) = n"
    by (auto simp: rd_def split: if_splits)
  show ?thesis
    using le_uint_nonneg [of "take n (drop off bs)"] le_uint_less [of "take n (drop off bs)"]
    unfolding u(2) pow256 by (simp add: u(1))
qed

lemma sx_range:
  assumes "0 < n" "0 \<le> u" "u < 2 ^ (8 * n)"
  shows "in_signed n (sx n u)"
proof -
  obtain m where m: "8 * n = Suc m" using assms(1) by (cases "8 * n") auto
  show ?thesis using assms(2,3) by (simp add: sx_def m)
qed

lemma sx_range4: "rd off 4 bs = Some u \<Longrightarrow> - 2147483648 \<le> sx 4 u \<and> sx 4 u < 2147483648"
  using rd_range [of off 4 bs u] sx_range [of 4 u] by simp

lemma sx_range8:
  "rd off 8 bs = Some u \<Longrightarrow> - 9223372036854775808 \<le> sx 8 u \<and> sx 8 u < 9223372036854775808"
  using rd_range [of off 8 bs u] sx_range [of 8 u] by simp

text \<open>Reads inside the first \<open>n\<close> bytes do not depend on what follows them.\<close>

lemma flds_append:
  "\<forall>(off, k) \<in> set spec. off + k \<le> length bs \<Longrightarrow> flds spec (bs @ junk) = flds spec bs"
  by (induction spec) (auto simp: wire_simps rd_append_left)

text \<open>A buffer is the bytes of the fields that are read from it, and what follows them.\<close>

lemma le_bytes_mod: "le_bytes n (x mod 256 ^ n) = le_bytes n x"
  using le_bytes_inverse [of "le_bytes n x"] by simp

lemma le_bytes_sx [simp]: "le_bytes n (sx n u) = le_bytes n u"
proof -
  have "(u - 2 ^ (8 * n)) mod 256 ^ n = u mod 256 ^ n" by (simp add: pow256)
  then show ?thesis using le_bytes_mod [of n u] le_bytes_mod [of n "sx n u"] by (auto simp: sx_def)
qed

lemma le_bytes_word [simp]: "le_bytes 8 (uint (word_of_int u :: 64 word)) = le_bytes 8 u"
  using le_bytes_mod [of 8 u] by (simp add: unsigned_of_int take_bit_eq_mod)

lemma le_bytes_le_uint: "n \<le> length bs \<Longrightarrow> le_bytes n (le_uint (take n bs)) = take n bs"
  using le_bytes_inverse [of "take n bs"] by simp

fun field_bytes :: "nat list \<Rightarrow> bytes \<Rightarrow> bytes" where
  "field_bytes [] bs = bs"
| "field_bytes (n # ns) bs = le_bytes n (le_uint (take n bs)) @ field_bytes ns (drop n bs)"

lemma split_fields: "sum_list ns \<le> length bs \<Longrightarrow> bs = field_bytes ns bs"
proof (induction ns arbitrary: bs)
  case (Cons n ns)
  then have "drop n bs = field_bytes ns (drop n bs)" by simp
  moreover have "le_bytes n (le_uint (take n bs)) = take n bs" using Cons.prems by (intro le_bytes_le_uint) simp
  ultimately show ?case by (metis append_take_drop_id field_bytes.simps(2))
qed simp

datatype wire_error = UnknownType int | OutOfBounds

end
