(* ===== verification/Hints.thy ===== *)
theory Hints
  imports XTypes Wire
begin

text \<open>
  Scheduling hints (\<^verbatim>\<open>sched/include/xsched/sched/protocol/hint.h\<close>,
  \<^verbatim>\<open>sched/src/protocol/hint.cpp\<close>): one constructor per hint class with its data fields,
  \<open>hint_data\<close> the struct each class sends (\<^verbatim>\<open>Data()\<close>; the bytes of the padding are what
  the memory happens to hold, an argument here), \<open>hint_size\<close> its \<^verbatim>\<open>Size()\<close> and
  \<open>hint_copy\<close> the \<^verbatim>\<open>CopyConstructor\<close>. The intensity of a \<^verbatim>\<open>MemoryIntensityHint\<close> is a
  double and is kept as its 64 bits.
\<close>

datatype hint =
    PriorityHint (hint_handle: xhandle) (hint_prio: int)
  | UtilizationHint (hint_pid: pid) (hint_handle: xhandle) (hint_util: int)
  | TimesliceHint (hint_ts: int)
  | DeadlineHint (hint_handle: xhandle) (hint_ddl: int)
  | KDeadlineHint (hint_k: "64 word")
  | LaxityHint (hint_handle: xhandle) (hint_lax: int) (hint_lax_prio: int) (hint_crit_prio: int)
  | WindowActiveHint (hint_pid: pid) (hint_display: "64 word")
  | MemoryIntensityHint (hint_device: xdevice) (hint_intensity: "64 word")

abbreviation (input) kHintTypeUnknown :: int where "kHintTypeUnknown \<equiv> 0"
abbreviation (input) kHintTypePriority :: int where "kHintTypePriority \<equiv> 1"
abbreviation (input) kHintTypeUtilization :: int where "kHintTypeUtilization \<equiv> 2"
abbreviation (input) kHintTypeTimeslice :: int where "kHintTypeTimeslice \<equiv> 3"
abbreviation (input) kHintTypeDeadline :: int where "kHintTypeDeadline \<equiv> 4"
abbreviation (input) kHintTypeKDeadline :: int where "kHintTypeKDeadline \<equiv> 5"
abbreviation (input) kHintTypeLaxity :: int where "kHintTypeLaxity \<equiv> 6"
abbreviation (input) kHintTypeWindowActive :: int where "kHintTypeWindowActive \<equiv> 7"
abbreviation (input) kHintTypeMemoryIntensity :: int where "kHintTypeMemoryIntensity \<equiv> 8"

fun hint_type :: "hint \<Rightarrow> int" where
  "hint_type (PriorityHint _ _) = kHintTypePriority"
| "hint_type (UtilizationHint _ _ _) = kHintTypeUtilization"
| "hint_type (TimesliceHint _) = kHintTypeTimeslice"
| "hint_type (DeadlineHint _ _) = kHintTypeDeadline"
| "hint_type (KDeadlineHint _) = kHintTypeKDeadline"
| "hint_type (LaxityHint _ _ _ _) = kHintTypeLaxity"
| "hint_type (WindowActiveHint _ _) = kHintTypeWindowActive"
| "hint_type (MemoryIntensityHint _ _) = kHintTypeMemoryIntensity"

text \<open>The fields have the widths of \<^verbatim>\<open>Priority\<close>, \<^verbatim>\<open>Utilization\<close> and \<^verbatim>\<open>PID\<close> (32 bits) and
  \<^verbatim>\<open>Timeslice\<close>, \<^verbatim>\<open>Deadline\<close> and \<^verbatim>\<open>Laxity\<close> (64 bits).\<close>

fun wf_hint :: "hint \<Rightarrow> bool" where
  "wf_hint (PriorityHint _ p) = in_signed 4 p"
| "wf_hint (UtilizationHint pd _ u) = (in_signed 4 pd \<and> in_signed 4 u)"
| "wf_hint (TimesliceHint ts) = in_signed 8 ts"
| "wf_hint (DeadlineHint _ d) = in_signed 8 d"
| "wf_hint (KDeadlineHint _) = True"
| "wf_hint (LaxityHint _ l lp cp) = (in_signed 8 l \<and> in_signed 4 lp \<and> in_signed 4 cp)"
| "wf_hint (WindowActiveHint pd _) = in_signed 4 pd"
| "wf_hint (MemoryIntensityHint _ _) = True"

text \<open>Each class has its \<^verbatim>\<open>struct HintData\<close>: the constructor from values lays the fields
  out, the constructor from \<^verbatim>\<open>const void *\<close> reads them back at their offsets. It copies the whole
  struct, so that the padding at its end must be in the buffer too.\<close>

definition PriorityHint_data :: "int \<Rightarrow> int \<Rightarrow> xhandle \<Rightarrow> int \<Rightarrow> bytes" where
  "PriorityHint_data p1 p2 h p =
     le_bytes 4 kHintTypePriority @ le_bytes 4 p1 @ le_bytes 8 (uint h)
     @ le_bytes 4 p @ le_bytes 4 p2"

definition PriorityHint_read :: "bytes \<Rightarrow> wire_error + hint" where
  "PriorityHint_read bs =
     (case flds [(8, 8), (16, 4), (20, 4)] bs of
        Some [h, p, _] \<Rightarrow> Inr (PriorityHint (word_of_int h) (sx 4 p))
      | _ \<Rightarrow> Inl OutOfBounds)"

definition UtilizationHint_data :: "int \<Rightarrow> int \<Rightarrow> pid \<Rightarrow> xhandle \<Rightarrow> int \<Rightarrow> bytes" where
  "UtilizationHint_data p1 p2 pd h u =
     le_bytes 4 kHintTypeUtilization @ le_bytes 4 pd @ le_bytes 8 (uint h)
     @ le_bytes 4 u @ le_bytes 4 p2"

definition UtilizationHint_read :: "bytes \<Rightarrow> wire_error + hint" where
  "UtilizationHint_read bs =
     (case flds [(4, 4), (8, 8), (16, 4), (20, 4)] bs of
        Some [pd, h, u, _] \<Rightarrow> Inr (UtilizationHint (sx 4 pd) (word_of_int h) (sx 4 u))
      | _ \<Rightarrow> Inl OutOfBounds)"

definition TimesliceHint_data :: "int \<Rightarrow> int \<Rightarrow> int \<Rightarrow> bytes" where
  "TimesliceHint_data p1 p2 ts =
     le_bytes 4 kHintTypeTimeslice @ le_bytes 4 p1 @ le_bytes 8 ts"

definition TimesliceHint_read :: "bytes \<Rightarrow> wire_error + hint" where
  "TimesliceHint_read bs =
     (case flds [(8, 8)] bs of
        Some [ts] \<Rightarrow> Inr (TimesliceHint (sx 8 ts)) | _ \<Rightarrow> Inl OutOfBounds)"

definition DeadlineHint_data :: "int \<Rightarrow> int \<Rightarrow> xhandle \<Rightarrow> int \<Rightarrow> bytes" where
  "DeadlineHint_data p1 p2 h d =
     le_bytes 4 kHintTypeDeadline @ le_bytes 4 p1 @ le_bytes 8 (uint h) @ le_bytes 8 d"

definition DeadlineHint_read :: "bytes \<Rightarrow> wire_error + hint" where
  "DeadlineHint_read bs =
     (case flds [(8, 8), (16, 8)] bs of
        Some [h, d] \<Rightarrow> Inr (DeadlineHint (word_of_int h) (sx 8 d))
      | _ \<Rightarrow> Inl OutOfBounds)"

definition KDeadlineHint_data :: "int \<Rightarrow> int \<Rightarrow> 64 word \<Rightarrow> bytes" where
  "KDeadlineHint_data p1 p2 k =
     le_bytes 4 kHintTypeKDeadline @ le_bytes 4 p1 @ le_bytes 8 (uint k)"

definition KDeadlineHint_read :: "bytes \<Rightarrow> wire_error + hint" where
  "KDeadlineHint_read bs =
     (case flds [(8, 8)] bs of
        Some [k] \<Rightarrow> Inr (KDeadlineHint (word_of_int k)) | _ \<Rightarrow> Inl OutOfBounds)"

definition LaxityHint_data :: "int \<Rightarrow> int \<Rightarrow> xhandle \<Rightarrow> int \<Rightarrow> int \<Rightarrow> int \<Rightarrow> bytes" where
  "LaxityHint_data p1 p2 h l lp cp =
     le_bytes 4 kHintTypeLaxity @ le_bytes 4 p1 @ le_bytes 8 (uint h) @ le_bytes 8 l
     @ le_bytes 4 lp @ le_bytes 4 cp"

definition LaxityHint_read :: "bytes \<Rightarrow> wire_error + hint" where
  "LaxityHint_read bs =
     (case flds [(8, 8), (16, 8), (24, 4), (28, 4)] bs of
        Some [h, l, lp, cp] \<Rightarrow> Inr (LaxityHint (word_of_int h) (sx 8 l) (sx 4 lp) (sx 4 cp))
      | _ \<Rightarrow> Inl OutOfBounds)"

definition WindowActiveHint_data :: "int \<Rightarrow> int \<Rightarrow> pid \<Rightarrow> 64 word \<Rightarrow> bytes" where
  "WindowActiveHint_data p1 p2 pd d =
     le_bytes 4 kHintTypeWindowActive @ le_bytes 4 pd @ le_bytes 8 (uint d)"

definition WindowActiveHint_read :: "bytes \<Rightarrow> wire_error + hint" where
  "WindowActiveHint_read bs =
     (case flds [(4, 4), (8, 8)] bs of
        Some [pd, d] \<Rightarrow> Inr (WindowActiveHint (sx 4 pd) (word_of_int d))
      | _ \<Rightarrow> Inl OutOfBounds)"

definition MemoryIntensityHint_data :: "int \<Rightarrow> int \<Rightarrow> xdevice \<Rightarrow> 64 word \<Rightarrow> bytes" where
  "MemoryIntensityHint_data p1 p2 d i =
     le_bytes 4 kHintTypeMemoryIntensity @ le_bytes 4 p1 @ le_bytes 8 (uint d)
     @ le_bytes 8 (uint i)"

definition MemoryIntensityHint_read :: "bytes \<Rightarrow> wire_error + hint" where
  "MemoryIntensityHint_read bs =
     (case flds [(8, 8), (16, 8)] bs of
        Some [d, i] \<Rightarrow> Inr (MemoryIntensityHint (word_of_int d) (word_of_int i))
      | _ \<Rightarrow> Inl OutOfBounds)"

lemmas hint_class_defs =
  PriorityHint_data_def PriorityHint_read_def
  UtilizationHint_data_def UtilizationHint_read_def
  TimesliceHint_data_def TimesliceHint_read_def
  DeadlineHint_data_def DeadlineHint_read_def
  KDeadlineHint_data_def KDeadlineHint_read_def
  LaxityHint_data_def LaxityHint_read_def
  WindowActiveHint_data_def WindowActiveHint_read_def
  MemoryIntensityHint_data_def MemoryIntensityHint_read_def

fun hint_data :: "int \<Rightarrow> int \<Rightarrow> hint \<Rightarrow> bytes" where
  "hint_data p1 p2 (PriorityHint h p) = PriorityHint_data p1 p2 h p"
| "hint_data p1 p2 (UtilizationHint pd h u) = UtilizationHint_data p1 p2 pd h u"
| "hint_data p1 p2 (TimesliceHint ts) = TimesliceHint_data p1 p2 ts"
| "hint_data p1 p2 (DeadlineHint h d) = DeadlineHint_data p1 p2 h d"
| "hint_data p1 p2 (KDeadlineHint k) = KDeadlineHint_data p1 p2 k"
| "hint_data p1 p2 (LaxityHint h l lp cp) = LaxityHint_data p1 p2 h l lp cp"
| "hint_data p1 p2 (WindowActiveHint pd d) = WindowActiveHint_data p1 p2 pd d"
| "hint_data p1 p2 (MemoryIntensityHint d i) = MemoryIntensityHint_data p1 p2 d i"

fun hint_size :: "hint \<Rightarrow> nat" where
  "hint_size (PriorityHint _ _) = 24"
| "hint_size (UtilizationHint _ _ _) = 24"
| "hint_size (TimesliceHint _) = 16"
| "hint_size (DeadlineHint _ _) = 24"
| "hint_size (KDeadlineHint _) = 16"
| "hint_size (LaxityHint _ _ _ _) = 32"
| "hint_size (WindowActiveHint _ _) = 16"
| "hint_size (MemoryIntensityHint _ _) = 24"

text \<open>\<^verbatim>\<open>Hint::CopyConstructor\<close>: dispatch on the leading type.\<close>

definition hint_copy :: "bytes \<Rightarrow> wire_error + hint" where
  "hint_copy bs =
    (case rd 0 4 bs of None \<Rightarrow> Inl OutOfBounds
     | Some t \<Rightarrow>
       if t = kHintTypePriority then PriorityHint_read bs
       else if t = kHintTypeUtilization then UtilizationHint_read bs
       else if t = kHintTypeTimeslice then TimesliceHint_read bs
       else if t = kHintTypeDeadline then DeadlineHint_read bs
       else if t = kHintTypeKDeadline then KDeadlineHint_read bs
       else if t = kHintTypeLaxity then LaxityHint_read bs
       else if t = kHintTypeWindowActive then WindowActiveHint_read bs
       else if t = kHintTypeMemoryIntensity then MemoryIntensityHint_read bs
       else Inl (UnknownType t))"

lemma hint_data_length [simp]: "length (hint_data p1 p2 h) = hint_size h"
  by (cases h) (simp_all add: hint_class_defs)

lemma hint_size_bounds: "16 \<le> hint_size h" "hint_size h \<le> 32"
  by (cases h; simp)+

text \<open>The receiver reads only bytes the sender wrote, whatever follows them in the
  buffer, and rebuilds the same hint.\<close>

lemma hint_copy_data:
  assumes "wf_hint h"
  shows "hint_copy (hint_data p1 p2 h @ junk) = Inr h"
  using assms by (cases h) (simp_all add: hint_copy_def hint_class_defs wire_simps)

lemma hint_copy_unknown:
  assumes "rd 0 4 bs = Some t" "t < 1 \<or> 8 < t"
  shows "hint_copy bs = Inl (UnknownType t)"
  using assms by (auto simp: hint_copy_def)

text \<open>A hint that is accepted is the one whose bytes are at the start of the buffer.\<close>

lemma hint_copy_bytes:
  assumes "hint_copy bs = Inr ht"
  shows "\<exists>p1 p2 junk. bs = hint_data p1 p2 ht @ junk"
proof -
  note S = split_fields [of "[4, 4, 8, 4, 4]" bs] split_fields [of "[4, 4, 8]" bs]
    split_fields [of "[4, 4, 8, 8]" bs] split_fields [of "[4, 4, 8, 8, 4, 4]" bs]
  note D = hint_class_defs flds_Cons flds_Nil rd_def
  from assms obtain t where t: "rd 0 4 bs = Some t" by (auto simp: hint_copy_def split: option.splits)
  then have u: "t = le_uint (take 4 bs)" by (auto simp: rd_def split: if_splits)
  from assms t consider "t = 1" "PriorityHint_read bs = Inr ht" | "t = 2" "UtilizationHint_read bs = Inr ht"
    | "t = 3" "TimesliceHint_read bs = Inr ht" | "t = 4" "DeadlineHint_read bs = Inr ht"
    | "t = 5" "KDeadlineHint_read bs = Inr ht" | "t = 6" "LaxityHint_read bs = Inr ht"
    | "t = 7" "WindowActiveHint_read bs = Inr ht" | "t = 8" "MemoryIntensityHint_read bs = Inr ht"
    by (auto simp: hint_copy_def split: if_splits)
  then show ?thesis
  proof cases
    case 1 then show ?thesis using S(1) u by (auto simp: D split: if_splits; blast)
  next
    case 2 then show ?thesis using S(1) u by (auto simp: D split: if_splits; blast)
  next
    case 3 then show ?thesis using S(2) u by (auto simp: D split: if_splits; blast)
  next
    case 4 then show ?thesis using S(3) u by (auto simp: D split: if_splits; blast)
  next
    case 5 then show ?thesis using S(2) u by (auto simp: D split: if_splits; blast)
  next
    case 6 then show ?thesis using S(4) u by (auto simp: D split: if_splits; blast)
  next
    case 7 then show ?thesis using S(2) u by (auto simp: D split: if_splits; blast)
  next
    case 8 then show ?thesis using S(3) u by (auto simp: D split: if_splits; blast)
  qed
qed

text \<open>Whatever bytes arrive, a hint that is accepted has fields of their C widths.\<close>

lemma hint_copy_wf:
  assumes "hint_copy bs = Inr ht"
  shows "wf_hint ht"
  using assms
  by (auto simp: hint_copy_def hint_class_defs flds_Cons flds_Nil sx_range4 sx_range8
      split: option.splits if_splits dest!: sx_range4 sx_range8)

end
