(* ===== verification/Status.thy ===== *)
theory Status
  imports Hints
begin

text \<open>
  The scheduler's view of the system (\<^verbatim>\<open>sched/include/xsched/sched/protocol/status.h\<close>) and
  the three callbacks a policy acts through (\<^verbatim>\<open>LocalScheduler::Suspend\<close>,
  \<^verbatim>\<open>LocalScheduler::Resume\<close>, \<^verbatim>\<open>LocalScheduler::AddTimer\<close> in
  \<^verbatim>\<open>sched/src/scheduler/local.cpp\<close>). A policy's run is the list of the callbacks it makes;
  \<open>run_actions\<close> applies them in order. \<open>wf_status\<close> is the invariant of the two tables:
  every XQueue is listed by its process, on the side its \<open>suspended\<close> flag says.
\<close>

section \<open>Tables\<close>

record xqueue_status =
  xs_handle :: xhandle
  xs_device :: xdevice
  xs_level :: int
  xs_pid :: pid
  xs_threshold :: int
  xs_batch_size :: int
  xs_ready :: bool
  xs_suspended :: bool
  xs_ready_time :: time_ns

record process_info =
  pi_pid :: pid
  pi_cmdline :: string

record process_status =
  ps_info :: process_info
  ps_running :: "xhandle list"
  ps_suspended :: "xhandle list"

record status =
  st_xqueues :: "(xhandle \<times> xqueue_status) list"
  st_procs :: "(pid \<times> process_status) list"

abbreviation xq_of :: "status \<Rightarrow> xhandle \<Rightarrow> xqueue_status option" where
  "xq_of st h \<equiv> map_of (st_xqueues st) h"

abbreviation proc_of :: "status \<Rightarrow> pid \<Rightarrow> process_status option" where
  "proc_of st p \<equiv> map_of (st_procs st) p"

definition empty_status :: status where
  "empty_status = \<lparr> st_xqueues = [], st_procs = [] \<rparr>"

section \<open>The callbacks of a policy\<close>

datatype action = Suspend xhandle | Resume xhandle | AddTimer time_ns

definition sched_suspend :: "xhandle \<Rightarrow> status \<Rightarrow> status" where
  "sched_suspend h st =
    (case xq_of st h of None \<Rightarrow> st
     | Some q \<Rightarrow>
       let st1 = st\<lparr> st_xqueues :=
             AList.map_entry h (xs_suspended_update (\<lambda>_. True)) (st_xqueues st) \<rparr> in
       (case proc_of st1 (xs_pid q) of None \<Rightarrow> st1
        | Some _ \<Rightarrow> st1\<lparr> st_procs := AList.map_entry (xs_pid q)
            (\<lambda>p. p\<lparr> ps_running := oset_erase h (ps_running p),
                     ps_suspended := oset_insert h (ps_suspended p) \<rparr>) (st_procs st1) \<rparr>))"

definition sched_resume :: "xhandle \<Rightarrow> status \<Rightarrow> status" where
  "sched_resume h st =
    (case xq_of st h of None \<Rightarrow> st
     | Some q \<Rightarrow>
       let st1 = st\<lparr> st_xqueues :=
             AList.map_entry h (xs_suspended_update (\<lambda>_. False)) (st_xqueues st) \<rparr> in
       (case proc_of st1 (xs_pid q) of None \<Rightarrow> st1
        | Some _ \<Rightarrow> st1\<lparr> st_procs := AList.map_entry (xs_pid q)
            (\<lambda>p. p\<lparr> ps_running := oset_insert h (ps_running p),
                     ps_suspended := oset_erase h (ps_suspended p) \<rparr>) (st_procs st1) \<rparr>))"

definition sched_add_timer :: "time_ns \<Rightarrow> time_ns list \<Rightarrow> time_ns list" where
  "sched_add_timer t timers = timers @ [t]"

fun apply_action :: "action \<Rightarrow> status \<times> time_ns list \<Rightarrow> status \<times> time_ns list" where
  "apply_action (Suspend h) (st, ts) = (sched_suspend h st, ts)"
| "apply_action (Resume h) (st, ts) = (sched_resume h st, ts)"
| "apply_action (AddTimer t) (st, ts) = (st, sched_add_timer t ts)"

definition run_actions :: "action list \<Rightarrow> status \<times> time_ns list \<Rightarrow> status \<times> time_ns list" where
  "run_actions acts s = fold apply_action acts s"

text \<open>The last word a list of callbacks has on an XQueue: \<open>Some True\<close> is a suspension.\<close>

fun decision :: "action list \<Rightarrow> xhandle \<Rightarrow> bool option" where
  "decision [] h = None"
| "decision (a # acts) h =
    (case decision acts h of Some b \<Rightarrow> Some b
     | None \<Rightarrow> (case a of Suspend h' \<Rightarrow> if h' = h then Some True else None
                      | Resume h' \<Rightarrow> if h' = h then Some False else None
                      | AddTimer _ \<Rightarrow> None))"

fun timers_of :: "action list \<Rightarrow> time_ns list" where
  "timers_of [] = []"
| "timers_of (AddTimer t # acts) = t # timers_of acts"
| "timers_of (_ # acts) = timers_of acts"

section \<open>The invariant of the tables\<close>

definition wf_queue :: "status \<Rightarrow> xhandle \<Rightarrow> xqueue_status \<Rightarrow> bool" where
  "wf_queue st h q \<longleftrightarrow> xs_handle q = h \<and>
     (case proc_of st (xs_pid q) of None \<Rightarrow> False
      | Some p \<Rightarrow> (h \<in> set (ps_running p) \<longleftrightarrow> \<not> xs_suspended q)
               \<and> (h \<in> set (ps_suspended p) \<longleftrightarrow> xs_suspended q))"

definition wf_proc :: "status \<Rightarrow> pid \<Rightarrow> process_status \<Rightarrow> bool" where
  "wf_proc st pd p \<longleftrightarrow> pi_pid (ps_info p) = pd
     \<and> distinct (ps_running p) \<and> distinct (ps_suspended p)
     \<and> (\<forall>h \<in> set (ps_running p @ ps_suspended p).
          map_option xs_pid (xq_of st h) = Some pd)"

definition wf_status :: "status \<Rightarrow> bool" where
  "wf_status st \<longleftrightarrow>
     distinct (map fst (st_xqueues st)) \<and> distinct (map fst (st_procs st))
     \<and> (\<forall>(h, q) \<in> set (st_xqueues st). wf_queue st h q)
     \<and> (\<forall>(pd, p) \<in> set (st_procs st). wf_proc st pd p)"

text \<open>The same invariant over lookups, which is the form the proofs use.\<close>

lemma wf_statusI:
  assumes "distinct (map fst (st_xqueues st))" "distinct (map fst (st_procs st))"
    and "\<And>h q. xq_of st h = Some q \<Longrightarrow> wf_queue st h q"
    and "\<And>pd p. proc_of st pd = Some p \<Longrightarrow> wf_proc st pd p"
  shows "wf_status st"
  using assms by (auto simp: wf_status_def in_set_map_of)

lemma wf_status_keys:
  "wf_status st \<Longrightarrow> distinct (map fst (st_xqueues st))"
  "wf_status st \<Longrightarrow> distinct (map fst (st_procs st))"
  by (auto simp: wf_status_def)

lemma wf_status_queue: "wf_status st \<Longrightarrow> xq_of st h = Some q \<Longrightarrow> wf_queue st h q"
  by (auto simp: wf_status_def dest: map_of_SomeD)

lemma wf_status_proc: "wf_status st \<Longrightarrow> proc_of st pd = Some p \<Longrightarrow> wf_proc st pd p"
  by (auto simp: wf_status_def dest: map_of_SomeD)

lemma st_queue_iff:
  "wf_status st \<Longrightarrow> (h, q) \<in> set (st_xqueues st) \<longleftrightarrow> xq_of st h = Some q"
  by (simp add: in_set_map_of wf_status_keys)

lemma bex_queue:
  "wf_status st \<Longrightarrow> (\<exists>(h, q) \<in> set (st_xqueues st). P h q)
     \<longleftrightarrow> (\<exists>h q. xq_of st h = Some q \<and> P h q)"
  by (auto simp: Bex_def st_queue_iff)

lemma ball_queue:
  "wf_status st \<Longrightarrow> (\<forall>(h, q) \<in> set (st_xqueues st). P h q)
     \<longleftrightarrow> (\<forall>h q. xq_of st h = Some q \<longrightarrow> P h q)"
  by (auto simp: Ball_def st_queue_iff)

lemma xq_of_key: "xq_of st h = Some q \<Longrightarrow> h \<in> fst ` set (st_xqueues st)"
  by (drule map_of_SomeD) force

lemma wf_handle: "wf_status st \<Longrightarrow> xq_of st h = Some q \<Longrightarrow> xs_handle q = h"
  by (auto dest: wf_status_queue simp: wf_queue_def)

lemma st_proc_iff:
  "wf_status st \<Longrightarrow> (pd, p) \<in> set (st_procs st) \<longleftrightarrow> proc_of st pd = Some p"
  by (simp add: in_set_map_of wf_status_keys)

lemma wf_status_queue_proc:
  assumes "wf_status st" "xq_of st h = Some q"
  obtains p where "proc_of st (xs_pid q) = Some p" "xs_handle q = h"
    "h \<in> set (ps_running p) \<longleftrightarrow> \<not> xs_suspended q"
    "h \<in> set (ps_suspended p) \<longleftrightarrow> xs_suspended q"
  using wf_status_queue [OF assms] by (auto simp: wf_queue_def split: option.splits)

lemma wf_empty [simp]: "wf_status empty_status"
  by (simp add: wf_status_def empty_status_def)

section \<open>Effect of the callbacks\<close>

lemma sched_suspend_xqueues:
  "xq_of (sched_suspend h st) h' =
     (if h' = h then map_option (xs_suspended_update (\<lambda>_. True)) (xq_of st h) else xq_of st h')"
  by (auto simp: sched_suspend_def Let_def map_of_map_entry_upd split: option.splits)

lemma sched_resume_xqueues:
  "xq_of (sched_resume h st) h' =
     (if h' = h then map_option (xs_suspended_update (\<lambda>_. False)) (xq_of st h) else xq_of st h')"
  by (auto simp: sched_resume_def Let_def map_of_map_entry_upd split: option.splits)

lemma sched_ops_keys [simp]:
  "map fst (st_xqueues (sched_suspend h st)) = map fst (st_xqueues st)"
  "map fst (st_xqueues (sched_resume h st)) = map fst (st_xqueues st)"
  "map fst (st_procs (sched_suspend h st)) = map fst (st_procs st)"
  "map fst (st_procs (sched_resume h st)) = map fst (st_procs st)"
  by (auto simp: sched_suspend_def sched_resume_def Let_def split: option.splits)

lemma sched_suspend_procs:
  "proc_of (sched_suspend h st) pd =
     (case xq_of st h of
        Some q \<Rightarrow> if xs_pid q = pd
           then map_option (\<lambda>p. p\<lparr> ps_running := oset_erase h (ps_running p),
                                   ps_suspended := oset_insert h (ps_suspended p) \<rparr>)
                  (proc_of st pd)
           else proc_of st pd
      | None \<Rightarrow> proc_of st pd)"
  by (auto simp: sched_suspend_def Let_def map_of_map_entry_upd split: option.splits)

lemma sched_resume_procs:
  "proc_of (sched_resume h st) pd =
     (case xq_of st h of
        Some q \<Rightarrow> if xs_pid q = pd
           then map_option (\<lambda>p. p\<lparr> ps_running := oset_insert h (ps_running p),
                                   ps_suspended := oset_erase h (ps_suspended p) \<rparr>)
                  (proc_of st pd)
           else proc_of st pd
      | None \<Rightarrow> proc_of st pd)"
  by (auto simp: sched_resume_def Let_def map_of_map_entry_upd split: option.splits)

lemma sched_ops_pid [simp]:
  "map_option xs_pid (xq_of (sched_suspend h st) h') = map_option xs_pid (xq_of st h')"
  "map_option xs_pid (xq_of (sched_resume h st) h') = map_option xs_pid (xq_of st h')"
  by (simp_all add: sched_suspend_xqueues sched_resume_xqueues option.map_comp comp_def)

lemma wf_sched_suspend: assumes wf: "wf_status st" shows "wf_status (sched_suspend h st)"
proof (rule wf_statusI)
  fix h' q assume q: "xq_of (sched_suspend h st) h' = Some q"
  show "wf_queue (sched_suspend h st) h' q"
  proof (cases "h' = h")
    case True
    then obtain q0 where q0: "xq_of st h = Some q0" "q = q0\<lparr>xs_suspended := True\<rparr>"
      using q by (auto simp: sched_suspend_xqueues)
    then show ?thesis using wf_status_queue [OF wf q0(1)] True
      by (auto simp: wf_queue_def sched_suspend_procs split: option.splits)
  next
    case False
    then have "xq_of st h' = Some q" using q by (simp add: sched_suspend_xqueues)
    then show ?thesis using wf_status_queue [OF wf] False
      by (fastforce simp: wf_queue_def sched_suspend_procs split: option.splits)
  qed
next
  fix pd p assume "proc_of (sched_suspend h st) pd = Some p"
  then show "wf_proc (sched_suspend h st) pd p"
    by (cases "xq_of st h")
       (auto simp: wf_proc_def sched_suspend_procs dest!: wf_status_proc [OF wf] split: if_splits)
qed (use wf in \<open>simp_all add: wf_status_keys\<close>)

lemma wf_sched_resume: assumes wf: "wf_status st" shows "wf_status (sched_resume h st)"
proof (rule wf_statusI)
  fix h' q assume q: "xq_of (sched_resume h st) h' = Some q"
  show "wf_queue (sched_resume h st) h' q"
  proof (cases "h' = h")
    case True
    then obtain q0 where q0: "xq_of st h = Some q0" "q = q0\<lparr>xs_suspended := False\<rparr>"
      using q by (auto simp: sched_resume_xqueues)
    then show ?thesis using wf_status_queue [OF wf q0(1)] True
      by (auto simp: wf_queue_def sched_resume_procs split: option.splits)
  next
    case False
    then have "xq_of st h' = Some q" using q by (simp add: sched_resume_xqueues)
    then show ?thesis using wf_status_queue [OF wf] False
      by (fastforce simp: wf_queue_def sched_resume_procs split: option.splits)
  qed
next
  fix pd p assume "proc_of (sched_resume h st) pd = Some p"
  then show "wf_proc (sched_resume h st) pd p"
    by (cases "xq_of st h")
       (auto simp: wf_proc_def sched_resume_procs dest!: wf_status_proc [OF wf] split: if_splits)
qed (use wf in \<open>simp_all add: wf_status_keys\<close>)

lemma run_actions_Nil [simp]: "run_actions [] s = s"
  by (simp add: run_actions_def)

lemma run_actions_Cons: "run_actions (a # acts) s = run_actions acts (apply_action a s)"
  by (simp add: run_actions_def)

lemma run_actions_append: "run_actions (xs @ ys) s = run_actions ys (run_actions xs s)"
  by (simp add: run_actions_def)

lemma wf_run_actions: "wf_status st \<Longrightarrow> wf_status (fst (run_actions acts (st, ts)))"
proof (induction acts arbitrary: st ts)
  case (Cons a acts)
  then show ?case
    by (cases a) (simp_all add: run_actions_Cons wf_sched_suspend wf_sched_resume)
qed simp

lemma run_actions_keys [simp]:
  "map fst (st_xqueues (fst (run_actions acts (st, ts)))) = map fst (st_xqueues st)"
  "map fst (st_procs (fst (run_actions acts (st, ts)))) = map fst (st_procs st)"
proof (induction acts arbitrary: st ts)
  case (Cons a acts)
  { case 1 show ?case using Cons by (cases a) (simp_all add: run_actions_Cons) }
  { case 2 show ?case using Cons by (cases a) (simp_all add: run_actions_Cons) }
qed simp_all

lemma run_actions_timers: "snd (run_actions acts (st, ts)) = ts @ timers_of acts"
proof (induction acts arbitrary: st ts)
  case (Cons a acts)
  then show ?case by (cases a) (simp_all add: run_actions_Cons sched_add_timer_def)
qed simp

text \<open>After a run of callbacks, an XQueue is suspended iff the last callback on it was a
  suspension, or it had been suspended and there was none; nothing else changes.\<close>

lemma run_actions_xqueue:
  "xq_of (fst (run_actions acts (st, ts))) h =
     map_option (\<lambda>q. q\<lparr> xs_suspended :=
        (case decision acts h of Some b \<Rightarrow> b | None \<Rightarrow> xs_suspended q) \<rparr>) (xq_of st h)"
proof (induction acts arbitrary: st ts)
  case Nil
  show ?case by (cases "xq_of st h") simp_all
next
  case (Cons a acts)
  show ?case
    by (cases a; cases "xq_of st h")
       (auto simp: run_actions_Cons Cons.IH sched_suspend_xqueues sched_resume_xqueues
         split: option.splits)
qed

lemma decision_append:
  "decision (xs @ ys) h = (case decision ys h of Some b \<Rightarrow> Some b | None \<Rightarrow> decision xs h)"
  by (induction xs) (auto split: option.splits)

lemma decision_not_mentioned:
  "(\<And>a. a \<in> set acts \<Longrightarrow> a \<noteq> Suspend h \<and> a \<noteq> Resume h) \<Longrightarrow> decision acts h = None"
  by (induction acts) (auto split: action.splits option.splits)

text \<open>A policy that decides every XQueue of the table once, by a predicate.\<close>

definition decide_all :: "(xhandle \<Rightarrow> xqueue_status \<Rightarrow> bool) \<Rightarrow> status \<Rightarrow> action list" where
  "decide_all sus st =
     map (\<lambda>(h, q). if sus h q then Suspend h else Resume h) (st_xqueues st)"

lemma decision_map_decide:
  assumes "distinct (map fst qs)"
  shows "decision (map (\<lambda>(h, q). if sus h q then Suspend h else Resume h) qs) h =
           map_option (sus h) (map_of qs h)"
  using assms
proof (induction qs)
  case (Cons e qs)
  obtain k q where e: "e = (k, q)" by (cases e)
  have "h = k \<Longrightarrow> map_of qs h = None"
    using Cons.prems by (auto simp: e map_of_eq_None_iff)
  then show ?case using Cons by (auto simp: e split: option.splits)
qed simp

lemma decision_decide_all:
  "wf_status st \<Longrightarrow> decision (decide_all sus st) h = map_option (sus h) (xq_of st h)"
  by (simp add: decide_all_def decision_map_decide wf_status_keys)

lemma timers_decide_all [simp]: "timers_of (decide_all sus st) = []"
proof -
  have "timers_of (map (\<lambda>(h, q). if sus h q then Suspend h else Resume h) qs) = []" for qs
    by (induction qs) auto
  then show ?thesis by (simp add: decide_all_def)
qed

lemma timers_of_append [simp]: "timers_of (xs @ ys) = timers_of xs @ timers_of ys"
  by (induction xs rule: timers_of.induct) auto

section \<open>Example tables\<close>

text \<open>Two ready XQueues of two processes on one device, and the priority-free record they
  share; the witnesses of the policy theorems run on them.\<close>

definition ex_queue :: "xhandle \<Rightarrow> pid \<Rightarrow> bool \<Rightarrow> time_ns \<Rightarrow> xqueue_status" where
  "ex_queue h pd rdy t =
     \<lparr> xs_handle = h, xs_device = 7, xs_level = 1, xs_pid = pd, xs_threshold = 16,
       xs_batch_size = 8, xs_ready = rdy, xs_suspended = False, xs_ready_time = t \<rparr>"

definition ex_proc :: "pid \<Rightarrow> xhandle list \<Rightarrow> process_status" where
  "ex_proc pd hs = \<lparr> ps_info = \<lparr> pi_pid = pd, pi_cmdline = ''app'' \<rparr>,
     ps_running = hs, ps_suspended = [] \<rparr>"

definition ex_status :: "bool \<Rightarrow> bool \<Rightarrow> status" where
  "ex_status r1 r2 =
     \<lparr> st_xqueues = [(1, ex_queue 1 10 r1 1000), (2, ex_queue 2 20 r2 2000)],
       st_procs = [(10, ex_proc 10 [1]), (20, ex_proc 20 [2])] \<rparr>"

lemmas ex_defs = ex_status_def ex_queue_def ex_proc_def

lemma wf_ex_status [simp]: "wf_status (ex_status r1 r2)"
  by (simp add: wf_status_def wf_queue_def wf_proc_def ex_defs)

end
