(* ===== verification/Float64.thy ===== *)
theory Float64
  imports Prelude
begin

text \<open>
  IEEE 754 binary64 arithmetic with rounding to nearest, ties to even: the doubles the
  scheduling policies compute with. A finite double is the rational number it stands for;
  every operation is the exact rational operation followed by \<open>fl\<close>, the rounding to 53
  significant bits (fewer below the normal range, infinity beyond the largest double).
  Comparisons with a NaN are false. The two zeros are one value: the code never divides
  by a negative zero or prints one.
\<close>

datatype f64 = Fin rat | PInf | NInf | NaN

section \<open>Rounding\<close>

definition pow2 :: "int \<Rightarrow> rat" where
  "pow2 e = (if 0 \<le> e then 2 ^ nat e else 1 / 2 ^ nat (- e))"

text \<open>Rounding a rational to an integer, to nearest, ties to even.\<close>

definition rne :: "rat \<Rightarrow> int" where
  "rne x = (let f = \<lfloor>x\<rfloor>; d = x - of_int f in
     if d < 1 / 2 then f else if 1 / 2 < d then f + 1 else if even f then f else f + 1)"

text \<open>The number of bits of a positive integer, and from it the exponent of the leading bit
  of a positive rational.\<close>

function blen :: "int \<Rightarrow> int" where
  "blen n = (if n \<le> 0 then 0 else 1 + blen (n div 2))"
  by pat_completeness auto
termination by (relation "measure nat") auto

declare blen.simps [simp del]

definition flog2 :: "rat \<Rightarrow> int" where
  "flog2 x = (let (p, q) = quotient_of x; e = blen p - blen q in
     if pow2 e \<le> x then e else e - 1)"

definition ulp_exp :: "rat \<Rightarrow> int" where
  "ulp_exp x = max (flog2 \<bar>x\<bar> - 52) (- 1074)"

definition fl_rat :: "rat \<Rightarrow> rat" where
  "fl_rat x = (if x = 0 then 0 else of_int (rne (x / pow2 (ulp_exp x))) * pow2 (ulp_exp x))"

text \<open>Two to the 1024, where the exponent range ends.\<close>

definition f_overflow :: rat where
  "f_overflow = pow2 1024"

definition fl :: "rat \<Rightarrow> f64" where
  "fl x = (let r = fl_rat x in
     if f_overflow \<le> r then PInf else if r \<le> - f_overflow then NInf else Fin r)"

section \<open>Operations\<close>

definition f_of_int :: "int \<Rightarrow> f64" where
  "f_of_int n = fl (of_int n)"

definition f_signed_inf :: "bool \<Rightarrow> f64" where
  "f_signed_inf neg = (if neg then NInf else PInf)"

fun f_neg :: "f64 \<Rightarrow> f64" where
  "f_neg (Fin a) = Fin (- a)"
| "f_neg PInf = NInf"
| "f_neg NInf = PInf"
| "f_neg NaN = NaN"

fun f_add :: "f64 \<Rightarrow> f64 \<Rightarrow> f64" where
  "f_add (Fin a) (Fin b) = fl (a + b)"
| "f_add NaN _ = NaN"
| "f_add _ NaN = NaN"
| "f_add PInf NInf = NaN"
| "f_add NInf PInf = NaN"
| "f_add PInf _ = PInf"
| "f_add _ PInf = PInf"
| "f_add NInf _ = NInf"
| "f_add _ NInf = NInf"

definition f_sub :: "f64 \<Rightarrow> f64 \<Rightarrow> f64" where
  "f_sub a b = f_add a (f_neg b)"

fun f_sign_neg :: "f64 \<Rightarrow> bool" where
  "f_sign_neg (Fin a) = (a < 0)"
| "f_sign_neg NInf = True"
| "f_sign_neg _ = False"

fun f_mul :: "f64 \<Rightarrow> f64 \<Rightarrow> f64" where
  "f_mul (Fin a) (Fin b) = fl (a * b)"
| "f_mul NaN _ = NaN"
| "f_mul _ NaN = NaN"
| "f_mul (Fin a) y = (if a = 0 then NaN else f_signed_inf ((a < 0) \<noteq> f_sign_neg y))"
| "f_mul x (Fin b) = (if b = 0 then NaN else f_signed_inf ((b < 0) \<noteq> f_sign_neg x))"
| "f_mul x y = f_signed_inf (f_sign_neg x \<noteq> f_sign_neg y)"

fun f_div :: "f64 \<Rightarrow> f64 \<Rightarrow> f64" where
  "f_div (Fin a) (Fin b) =
     (if b = 0 then (if a = 0 then NaN else f_signed_inf (a < 0)) else fl (a / b))"
| "f_div NaN _ = NaN"
| "f_div _ NaN = NaN"
| "f_div (Fin a) _ = Fin 0"
| "f_div x (Fin b) = f_signed_inf (f_sign_neg x \<noteq> (b < 0))"
| "f_div _ _ = NaN"

fun f_lt :: "f64 \<Rightarrow> f64 \<Rightarrow> bool" where
  "f_lt (Fin a) (Fin b) = (a < b)"
| "f_lt NaN _ = False"
| "f_lt _ NaN = False"
| "f_lt PInf _ = False"
| "f_lt _ NInf = False"
| "f_lt _ _ = True"

fun f_eq :: "f64 \<Rightarrow> f64 \<Rightarrow> bool" where
  "f_eq (Fin a) (Fin b) = (a = b)"
| "f_eq PInf PInf = True"
| "f_eq NInf NInf = True"
| "f_eq _ _ = False"

definition f_le :: "f64 \<Rightarrow> f64 \<Rightarrow> bool" where
  "f_le a b = (f_lt a b \<or> f_eq a b)"

text \<open>Conversion to an integer truncates; out of range it is undefined in C++ and here
  simply the integer.\<close>

fun f_to_int :: "f64 \<Rightarrow> int" where
  "f_to_int (Fin a) = (if 0 \<le> a then \<lfloor>a\<rfloor> else \<lceil>a\<rceil>)"
| "f_to_int _ = 0"

text \<open>The double with the given 64 bits.\<close>

definition f_of_bits :: "64 word \<Rightarrow> f64" where
  "f_of_bits w =
     (let n = uint w; neg = (n div 2 ^ 63 = 1); ex = n div 2 ^ 52 mod 2048; m = n mod 2 ^ 52;
          s = (if neg then - 1 else 1 :: rat) in
      if ex = 2047 then (if m = 0 then f_signed_inf neg else NaN)
      else if ex = 0 then Fin (s * of_int m * pow2 (- 1074))
      else Fin (s * of_int (2 ^ 52 + m) * pow2 (ex - 1075)))"

section \<open>Powers of two\<close>

lemma pow2_pos [simp]: "0 < pow2 e"
  by (simp add: pow2_def)

lemma pow2_nonzero [simp]: "pow2 e \<noteq> 0"
  using pow2_pos [of e] by linarith

lemma pow2_powi: "pow2 e = 2 powi e"
  by (simp add: pow2_def power_int_def field_simps)

lemma pow2_add: "pow2 (a + b) = pow2 a * pow2 b"
  by (simp add: pow2_powi power_int_add)

lemma pow2_mono: "a \<le> b \<Longrightarrow> pow2 a \<le> pow2 b"
  by (simp add: pow2_powi power_int_increasing)

lemma pow2_strict_mono: "a < b \<Longrightarrow> pow2 a < pow2 b"
  by (simp add: pow2_powi power_int_strict_increasing)

lemma pow2_nat: "pow2 (int n) = 2 ^ n"
  by (simp add: pow2_def)

lemma pow2_0 [simp]: "pow2 0 = 1"
  by (simp add: pow2_def)

section \<open>Rounding to an integer\<close>

lemma rne_of_int [simp]: "rne (of_int n) = n"
  by (simp add: rne_def)

lemma rne_bounds: "of_int (rne x) \<le> x + 1 / 2 \<and> x - 1 / 2 \<le> of_int (rne x)"
proof -
  have "of_int \<lfloor>x\<rfloor> \<le> x" "x < of_int \<lfloor>x\<rfloor> + 1" using floor_correct [of x] by simp_all
  then show ?thesis by (simp add: rne_def Let_def) linarith
qed

lemma rne_mono:
  assumes "x \<le> y"
  shows "rne x \<le> rne y"
proof (rule ccontr)
  assume "\<not> rne x \<le> rne y"
  then have gt: "rne y + 1 \<le> rne x" by simp
  have b: "rne x \<le> \<lfloor>x\<rfloor> + 1" "\<lfloor>x\<rfloor> \<le> rne x" "rne y \<le> \<lfloor>y\<rfloor> + 1" "\<lfloor>y\<rfloor> \<le> rne y"
    by (auto simp: rne_def Let_def)
  have "\<lfloor>x\<rfloor> \<le> \<lfloor>y\<rfloor>" using assms by (rule floor_mono)
  with gt b have "\<lfloor>x\<rfloor> = \<lfloor>y\<rfloor>" by linarith
  with gt b have "rne x = \<lfloor>y\<rfloor> + 1" "rne y = \<lfloor>y\<rfloor>" "\<lfloor>x\<rfloor> = \<lfloor>y\<rfloor>" by linarith+
  with assms show False by (auto simp: rne_def Let_def split: if_splits)
qed

lemma rne_minus: "rne (- x) = - rne x"
proof -
  let ?f = "\<lfloor>x\<rfloor>" and ?d = "x - of_int \<lfloor>x\<rfloor>"
  have d: "0 \<le> ?d" "?d < 1" using floor_correct [of x] by linarith+
  show ?thesis
  proof (cases "?d = 0")
    case True
    then have "x = of_int ?f" by linarith
    then show ?thesis by (metis of_int_minus rne_of_int)
  next
    case False
    have "\<lfloor>- x\<rfloor> = - ?f - 1"
      using False d by (intro floor_unique) (simp_all, linarith)
    then show ?thesis using False d by (auto simp: rne_def Let_def) 
  qed
qed

section \<open>The leading bit\<close>

lemma pow2_Suc: "pow2 (1 + e) = 2 * pow2 e"
  by (simp add: pow2_add) (simp add: pow2_def)

lemma blen_pow2:
  "0 < p \<Longrightarrow> pow2 (blen p - 1) \<le> of_int p \<and> of_int p < pow2 (blen p)"
proof (induction p rule: blen.induct)
  case (1 p)
  show ?case
  proof (cases "p = 1")
    case True
    then show ?thesis by (simp add: blen.simps [of 1] blen.simps [of 0]) (simp add: pow2_def)
  next
    case False
    then have h: "0 < p div 2" using 1(2) by auto
    note IH = 1(1) [OF _ h]
    have b: "blen p = 1 + blen (p div 2)" using 1(2) by (simp add: blen.simps [of p])
    have "2 * (p div 2) \<le> p" "p < 2 * (p div 2) + 2" by linarith+
    then have "(of_int (2 * (p div 2)) :: rat) \<le> of_int p" by (simp only: of_int_le_iff)
    then have lo: "2 * (of_int (p div 2) :: rat) \<le> of_int p" by simp
    have "pow2 (blen (p div 2) - 1) \<le> of_int (p div 2)" using IH 1(2) by simp
    then have "pow2 (blen p - 1) \<le> of_int p"
      using lo pow2_Suc [of "blen (p div 2) - 1"] by (simp add: b)
    moreover have "of_int p < pow2 (blen p)"
    proof (cases "0 \<le> blen (p div 2)")
      case True
      have "pow2 (blen (p div 2)) = of_int (2 ^ nat (blen (p div 2)))"
        using True by (simp add: pow2_def)
      then have "p div 2 + 1 \<le> 2 ^ nat (blen (p div 2))" using IH 1(2) by simp
      then have "p < 2 ^ nat (blen p)" using True b by (simp add: nat_add_distrib)
      then have "(of_int p :: rat) < of_int (2 ^ nat (blen p))" by (simp only: of_int_less_iff)
      then show ?thesis using True b by (simp add: pow2_def)
    next
      case False
      then have "pow2 (blen (p div 2)) < 1" using pow2_strict_mono [of _ 0] by fastforce
      moreover have "(1 :: rat) \<le> of_int (p div 2)" using h by simp
      ultimately show ?thesis using IH 1(2) by simp
    qed
    ultimately show ?thesis by simp
  qed
qed

lemma flog2_bounds:
  assumes "0 < x"
  shows "pow2 (flog2 x) \<le> x \<and> x < pow2 (flog2 x + 1)"
proof -
  obtain p q where pq: "quotient_of x = (p, q)" by fastforce
  have q: "0 < q" using quotient_of_denom_pos [OF pq] .
  have x: "x = of_int p / of_int q" using quotient_of_div [OF pq] .
  have p: "0 < p" using assms q by (simp add: x zero_less_divide_iff)
  let ?a = "blen p" and ?b = "blen q"
  note A' = conjunct1 [OF blen_pow2 [OF p]] conjunct2 [OF blen_pow2 [OF p]]
  note B' = conjunct1 [OF blen_pow2 [OF q]] conjunct2 [OF blen_pow2 [OF q]]
  let ?e = "?a - ?b"
  have q': "(0 :: rat) < of_int q" using q by simp
  have up: "x < pow2 (?e + 1)"
  proof -
    have "of_int p < pow2 (?e + 1) * pow2 (?b - 1)"
      using A'(2) by (simp add: pow2_add [symmetric])
    also have "\<dots> \<le> pow2 (?e + 1) * of_int q" using B'(1) by simp
    finally show ?thesis using q' by (simp add: x pos_divide_less_eq)
  qed
  have lo: "pow2 (?e - 1) \<le> x"
  proof -
    have "pow2 (?e - 1) * of_int q \<le> pow2 (?e - 1) * pow2 ?b" using B'(2) by simp
    also have "\<dots> = pow2 (?a - 1)" by (simp add: pow2_add [symmetric])
    also have "\<dots> \<le> of_int p" by (rule A'(1))
    finally show ?thesis using q' by (simp add: x pos_le_divide_eq)
  qed
  show ?thesis using up lo by (auto simp: flog2_def pq Let_def)
qed

lemma flog2_unique:
  assumes "pow2 e \<le> x" "x < pow2 (e + 1)"
  shows "flog2 x = e"
proof -
  have "0 < x" using assms(1) pow2_pos [of e] by linarith
  note b = flog2_bounds [OF this]
  have "\<not> flog2 x < e" using b assms pow2_mono [of "flog2 x + 1" e] by force
  moreover have "\<not> e < flog2 x" using b assms pow2_mono [of "e + 1" "flog2 x"] by force
  ultimately show ?thesis by simp
qed

lemma flog2_mono: "0 < x \<Longrightarrow> x \<le> y \<Longrightarrow> flog2 x \<le> flog2 y"
  using flog2_bounds [of x] flog2_bounds [of y] pow2_mono [of "flog2 y + 1" "flog2 x"] by force

section \<open>Rounding to a double\<close>

lemma ulp_exp_mono:
  assumes "0 < x" "x \<le> y"
  shows "ulp_exp x \<le> ulp_exp y"
  using flog2_mono [OF assms] assms by (simp add: ulp_exp_def)

lemma less_pow2_ulp: "0 < x \<Longrightarrow> x < pow2 (ulp_exp x + 53)"
  using flog2_bounds [of x] pow2_mono [of "flog2 x + 1" "ulp_exp x + 53"]
  by (force simp: ulp_exp_def)

lemma pow2_ulp_le: "0 < x \<Longrightarrow> - 1074 < ulp_exp x \<Longrightarrow> pow2 (ulp_exp x + 52) \<le> x"
  using flog2_bounds [of x] by (auto simp: ulp_exp_def max_def split: if_splits)

lemma fl_rat_0 [simp]: "fl_rat 0 = 0"
  by (simp add: fl_rat_def)

lemma fl_rat_minus: "fl_rat (- x) = - fl_rat x"
  by (simp add: fl_rat_def ulp_exp_def rne_minus)

lemma fl_rat_nonneg: "0 \<le> x \<Longrightarrow> 0 \<le> fl_rat x"
  using rne_mono [of 0 "x / pow2 (ulp_exp x)"] rne_of_int [of 0]
  by (simp add: fl_rat_def divide_nonneg_pos less_imp_le)

lemma fl_rat_le_pow2:
  assumes "0 < x"
  shows "fl_rat x \<le> pow2 (ulp_exp x + 53)"
proof -
  have "x / pow2 (ulp_exp x) \<le> of_int (2 ^ 53)"
    using less_pow2_ulp [OF assms]
    by (simp add: pow2_add pos_divide_le_eq mult.commute pow2_nat [of 53, simplified])
  then have "rne (x / pow2 (ulp_exp x)) \<le> 2 ^ 53" using rne_mono rne_of_int by metis
  then have "(of_int (rne (x / pow2 (ulp_exp x))) :: rat) \<le> of_int (2 ^ 53)"
    by (simp only: of_int_le_iff)
  then show ?thesis
    using assms by (simp add: fl_rat_def pow2_add mult.commute pow2_nat [of 53, simplified])
qed

lemma pow2_le_fl_rat:
  assumes "0 < x" "- 1074 < ulp_exp x"
  shows "pow2 (ulp_exp x + 52) \<le> fl_rat x"
proof -
  have "of_int (2 ^ 52) \<le> x / pow2 (ulp_exp x)"
    using pow2_ulp_le [OF assms]
    by (simp add: pow2_add pos_le_divide_eq mult.commute pow2_nat [of 52, simplified])
  then have "2 ^ 52 \<le> rne (x / pow2 (ulp_exp x))" using rne_mono rne_of_int by metis
  then have "(of_int (2 ^ 52) :: rat) \<le> of_int (rne (x / pow2 (ulp_exp x)))"
    by (simp only: of_int_le_iff)
  then show ?thesis
    using assms by (simp add: fl_rat_def pow2_add mult.commute pow2_nat [of 52, simplified])
qed

lemma fl_rat_mono_pos:
  assumes "0 < x" "x \<le> y"
  shows "fl_rat x \<le> fl_rat y"
proof (cases "ulp_exp x = ulp_exp y")
  case True
  have "rne (x / pow2 (ulp_exp y)) \<le> rne (y / pow2 (ulp_exp y))"
    by (rule rne_mono) (simp add: divide_right_mono less_imp_le assms)
  then show ?thesis using assms by (simp add: fl_rat_def True mult_right_mono less_imp_le)
next
  case False
  with ulp_exp_mono [OF assms] have lt: "ulp_exp x < ulp_exp y" by simp
  have "- 1074 \<le> ulp_exp x" by (simp add: ulp_exp_def)
  then have "pow2 (ulp_exp y + 52) \<le> fl_rat y" using lt assms by (intro pow2_le_fl_rat) auto
  moreover have "fl_rat x \<le> pow2 (ulp_exp x + 53)" using assms by (intro fl_rat_le_pow2)
  moreover have "pow2 (ulp_exp x + 53) \<le> pow2 (ulp_exp y + 52)" using lt by (intro pow2_mono) simp
  ultimately show ?thesis by simp
qed

lemma fl_rat_mono:
  assumes "x \<le> y"
  shows "fl_rat x \<le> fl_rat y"
proof -
  consider "0 < x" | "y < 0" | "x \<le> 0" "0 \<le> y" by linarith
  then show ?thesis
  proof cases
    case 1 then show ?thesis using assms by (rule fl_rat_mono_pos)
  next
    case 2
    then have "fl_rat (- y) \<le> fl_rat (- x)" using assms by (intro fl_rat_mono_pos) auto
    then show ?thesis by (simp add: fl_rat_minus)
  next
    case 3
    have "0 \<le> fl_rat (- x)" "0 \<le> fl_rat y" using 3 by (simp_all add: fl_rat_nonneg)
    then show ?thesis by (simp add: fl_rat_minus)
  qed
qed

text \<open>A number of the form \<open>m * 2 ^ e\<close> with at most 53 bits is a double.\<close>

lemma fl_rat_exact:
  assumes "\<bar>m\<bar> \<le> 2 ^ 53" "- 1074 \<le> e"
  shows "fl_rat (of_int m * pow2 e) = of_int m * pow2 e"
proof -
  have pos: "fl_rat (of_int m * pow2 e) = of_int m * pow2 e" if m: "0 < m" "m \<le> 2 ^ 53" for m
  proof -
    let ?x = "of_int m * pow2 e"
    have x: "0 < ?x" using m by simp
    show ?thesis
    proof (cases "ulp_exp ?x \<le> e")
      case True
      define u where "u = ulp_exp ?x"
      define k where "k = nat (e - u)"
      have e: "pow2 e = 2 ^ k * pow2 u"
      proof -
        have "e = int k + u" using True by (simp add: k_def u_def)
        then have "pow2 e = pow2 (int k) * pow2 u" by (metis pow2_add)
        then show ?thesis by (simp add: pow2_nat)
      qed
      have "?x / pow2 u = of_int (m * 2 ^ k)" by (simp add: e)
      then have "rne (?x / pow2 u) = m * 2 ^ k" by (simp only: rne_of_int)
      then have "fl_rat ?x = of_int (m * 2 ^ k) * pow2 u"
        using x unfolding fl_rat_def u_def by simp
      then show ?thesis by (simp add: e)
    next
      case False
      then have gt: "e < ulp_exp ?x" "- 1074 < ulp_exp ?x" using assms(2) by auto
      have "pow2 (ulp_exp ?x + 52) \<le> ?x" by (rule pow2_ulp_le [OF x gt(2)])
      moreover have "?x \<le> 2 ^ 53 * pow2 e"
      proof -
        have "(of_int m :: rat) \<le> of_int (2 ^ 53)" using m(2) by (simp only: of_int_le_iff)
        then show ?thesis by (intro mult_right_mono) (simp_all add: less_imp_le)
      qed
      moreover have "2 ^ 53 * pow2 e = pow2 (e + 53)"
        using pow2_nat [of 53] by (simp add: pow2_add)
      moreover have "pow2 (e + 53) \<le> pow2 (ulp_exp ?x + 52)" using gt by (intro pow2_mono) simp
      ultimately have eq: "?x = pow2 (e + 53)" "pow2 (e + 53) = pow2 (ulp_exp ?x + 52)"
        by linarith+
      define u where "u = ulp_exp ?x"
      have "?x = pow2 (u + 52)" using eq by (simp only: u_def)
      also have "\<dots> = pow2 u * 2 ^ 52" using pow2_nat [of 52] by (simp add: pow2_add)
      finally have "?x / pow2 u = of_int (2 ^ 52)" by simp
      then have "?x / pow2 (ulp_exp ?x) = of_int (2 ^ 52)" by (simp only: u_def)
      then have "rne (?x / pow2 (ulp_exp ?x)) = 2 ^ 52" using rne_of_int by metis
      then have "fl_rat ?x = pow2 (ulp_exp ?x + 52)"
        using m(1) pow2_nat [of 52] by (simp add: fl_rat_def pow2_add)
      also have "\<dots> = pow2 (e + 53)" by (rule eq(2) [symmetric])
      also have "\<dots> = ?x" by (rule eq(1) [symmetric])
      finally show ?thesis .
    qed
  qed
  consider "m = 0" | "0 < m" | "0 < - m" by linarith
  then show ?thesis
  proof cases
    case 3
    then have "fl_rat (of_int (- m) * pow2 e) = of_int (- m) * pow2 e"
      using assms(1) by (intro pos) auto
    then show ?thesis by (simp add: fl_rat_minus)
  qed (use pos assms(1) in auto)
qed

lemma fl_rat_of_int: "\<bar>m\<bar> \<le> 2 ^ 53 \<Longrightarrow> fl_rat (of_int m) = of_int m"
  using fl_rat_exact [of m 0] by simp

lemma fl_rat_pow2: "- 1074 \<le> e \<Longrightarrow> fl_rat (pow2 e) = pow2 e"
  using fl_rat_exact [of 1 e] by simp

text \<open>Rounding twice is rounding once.\<close>

lemma fl_rat_idem [simp]: "fl_rat (fl_rat x) = fl_rat x"
proof -
  have pos: "fl_rat (fl_rat x) = fl_rat x" if x: "0 < x" for x
  proof -
    let ?m = "rne (x / pow2 (ulp_exp x))"
    have "fl_rat x \<le> pow2 (ulp_exp x + 53)" "0 \<le> fl_rat x"
      using x by (simp_all add: fl_rat_le_pow2 fl_rat_nonneg)
    moreover have fx: "fl_rat x = of_int ?m * pow2 (ulp_exp x)" using x by (simp add: fl_rat_def)
    moreover have "pow2 (ulp_exp x + 53) = of_int (2 ^ 53) * pow2 (ulp_exp x)"
      using pow2_nat [of 53] by (simp add: pow2_add)
    ultimately have le: "(of_int ?m :: rat) * pow2 (ulp_exp x) \<le> of_int (2 ^ 53) * pow2 (ulp_exp x)"
      and ge: "0 \<le> (of_int ?m :: rat) * pow2 (ulp_exp x)" by (simp_all only:)
    have "(of_int ?m :: rat) \<le> of_int (2 ^ 53)"
      using le by (simp only: mult_le_cancel_right_pos [OF pow2_pos])
    moreover have "(0 :: rat) \<le> of_int ?m"
      using ge pow2_pos [of "ulp_exp x"] by (metis not_le zero_le_mult_iff)
    ultimately
    have "\<bar>?m\<bar> \<le> 2 ^ 53" by (simp only: of_int_le_iff of_int_0_le_iff)
    moreover have "- 1074 \<le> ulp_exp x" by (simp add: ulp_exp_def)
    ultimately show ?thesis unfolding fx by (rule fl_rat_exact)
  qed
  consider "x = 0" | "0 < x" | "0 < - x" by linarith
  then show ?thesis
  proof cases
    case 3 then show ?thesis using pos [of "- x"] by (simp add: fl_rat_minus)
  qed (use pos in auto)
qed

text \<open>Below the overflow threshold a rounded value is a finite double.\<close>

lemma fl_Fin:
  assumes "\<bar>x\<bar> \<le> pow2 e" "- 1074 \<le> e" "e < 1024"
  shows "fl x = Fin (fl_rat x)" "\<bar>fl_rat x\<bar> \<le> pow2 e"
proof -
  have "fl_rat x \<le> fl_rat (pow2 e)" "fl_rat (- pow2 e) \<le> fl_rat x"
    using assms(1) by (intro fl_rat_mono; linarith)+
  then show b: "\<bar>fl_rat x\<bar> \<le> pow2 e"
    by (simp add: fl_rat_minus fl_rat_pow2 [OF assms(2)])
  have "pow2 e < pow2 1024"
    using assms(3) by (rule pow2_strict_mono)
  then show "fl x = Fin (fl_rat x)" using b by (auto simp: fl_def Let_def f_overflow_def)
qed

lemma fl_of_int: "\<bar>m\<bar> \<le> 2 ^ 53 \<Longrightarrow> f_of_int m = Fin (of_int m)"
proof -
  assume m: "\<bar>m\<bar> \<le> 2 ^ 53"
  have "(of_int \<bar>m\<bar> :: rat) \<le> of_int (2 ^ 53)" using m by (simp only: of_int_le_iff)
  then have "\<bar>of_int m :: rat\<bar> \<le> pow2 53" using pow2_nat [of 53] by simp
  then show ?thesis
    using fl_Fin(1) [of "of_int m" 53] by (simp add: f_of_int_def fl_rat_of_int [OF m])
qed

lemma fl_nan_free: "fl x \<noteq> NaN"
  by (simp add: fl_def Let_def)

lemma f_lt_NaN [simp]: "\<not> f_lt a NaN" "\<not> f_lt NaN a"
  by (cases a; simp)+

lemma f_lt_irrefl [simp]: "\<not> f_lt a a"
  by (cases a) auto

lemma f_lt_trans: "f_lt a b \<Longrightarrow> f_lt b c \<Longrightarrow> f_lt a c"
  by (cases a; cases b; cases c) auto

lemma f_not_lt: "a \<noteq> NaN \<Longrightarrow> b \<noteq> NaN \<Longrightarrow> \<not> f_lt a b \<longleftrightarrow> f_le b a"
  by (cases a; cases b) (auto simp: f_le_def)

end
