(* ===== verification/Policy.thy ===== *)
theory Policy
  imports Status Float64
begin

text \<open>
  The interface between the scheduler and its policies
  (\<^verbatim>\<open>sched/include/xsched/sched/policy/policy.h\<close>, \<^verbatim>\<open>sched/src/policy/policy.cpp\<close>). A policy
  has a state, a \<^verbatim>\<open>Sched\<close> that reads the status and makes a list of callbacks, and a
  \<^verbatim>\<open>RecvHint\<close>. What \<^verbatim>\<open>Sched\<close> reads besides (clocks, procfs, \<^verbatim>\<open>std::pow\<close>) is in
  \<open>sched_env\<close>. The locale \<open>policy_iface\<close> states what \<^verbatim>\<open>LocalScheduler\<close> relies on, and
  \<open>wc_policy\<close> adds work conservation; every policy is an interpretation of the first in
  its own theory, the work-conserving ones of the second.
\<close>

record sched_env =
  env_now :: time_ns
    \<comment> \<open>the first \<^verbatim>\<open>system_clock::now()\<close> of the run\<close>
  env_now2 :: time_ns
    \<comment> \<open>the second one, where the code reads the clock again\<close>
  env_clk :: "xhandle \<Rightarrow> time_ns"
    \<comment> \<open>the clock when the record of a new XQueue is created\<close>
  env_procfs :: "pid \<Rightarrow> string list"
    \<comment> \<open>the lines of \<^verbatim>\<open>/proc/<pid>/sched\<close>, empty if it cannot be read\<close>
  env_uninit :: "pid \<Rightarrow> int"
    \<comment> \<open>what an uninitialised local holds\<close>
  env_tie :: "xhandle \<Rightarrow> nat"
    \<comment> \<open>how \<^verbatim>\<open>std::sort\<close>, which is not stable, orders XQueues with equal keys\<close>
  env_pow :: "int \<Rightarrow> f64"
    \<comment> \<open>\<^verbatim>\<open>std::pow(1.2, n)\<close>, whose rounding the C++ standard leaves open\<close>

definition ex_env :: sched_env where
  "ex_env = \<lparr> env_now = 0, env_now2 = 0, env_clk = (\<lambda>_. 0), env_procfs = (\<lambda>_. []),
     env_uninit = (\<lambda>_. 0), env_tie = unat, env_pow = (\<lambda>_. Fin 1) \<rparr>"

section \<open>One run of a policy on the scheduler's tables\<close>

type_synonym 'p policy_sched = "sched_env \<Rightarrow> 'p \<Rightarrow> status \<Rightarrow> ('p \<times> action list) option"

definition policy_run ::
    "'p policy_sched \<Rightarrow> sched_env \<Rightarrow> 'p \<Rightarrow> status \<times> time_ns list
      \<Rightarrow> ('p \<times> status \<times> time_ns list) option" where
  "policy_run sched e p s =
     (case sched e p (fst s) of None \<Rightarrow> None
      | Some (p', acts) \<Rightarrow> Some (p', run_actions acts s))"

lemma policy_runE:
  assumes "policy_run sched e p (st, ts) = Some (p', st', ts')"
  obtains acts where "sched e p st = Some (p', acts)"
    "st' = fst (run_actions acts (st, ts))" "ts' = ts @ timers_of acts"
proof -
  obtain acts where a: "sched e p st = Some (p', acts)" "run_actions acts (st, ts) = (st', ts')"
    using assms by (auto simp: policy_run_def split: option.splits)
  have "st' = fst (run_actions acts (st, ts))" "ts' = ts @ timers_of acts"
    using a(2) run_actions_timers [of acts st ts] by simp_all
  with a(1) that show ?thesis by blast
qed

text \<open>Whether an XQueue is left suspended by a run.\<close>

definition left_suspended :: "status \<Rightarrow> action list \<Rightarrow> xhandle \<Rightarrow> bool" where
  "left_suspended st acts h =
     (case decision acts h of Some b \<Rightarrow> b
      | None \<Rightarrow> (case xq_of st h of Some q \<Rightarrow> xs_suspended q | None \<Rightarrow> False))"

lemma run_actions_left_suspended:
  assumes "xq_of st h = Some q"
  shows "xq_of (fst (run_actions acts (st, ts))) h =
           Some (q\<lparr> xs_suspended := left_suspended st acts h \<rparr>)"
  using assms by (auto simp: run_actions_xqueue left_suspended_def split: option.splits)

lemma run_actions_cases:
  assumes "xq_of (fst (run_actions acts (st, ts))) h = Some q'"
  obtains q where "xq_of st h = Some q" "q' = q\<lparr> xs_suspended := left_suspended st acts h \<rparr>"
proof -
  obtain q where q: "xq_of st h = Some q"
    using assms by (cases "xq_of st h") (auto simp: run_actions_xqueue)
  with that assms show ?thesis by (simp add: run_actions_left_suspended)
qed

lemma left_suspended_Nil: "xq_of st h = Some q \<Longrightarrow> left_suspended st [] h = xs_suspended q"
  by (simp add: left_suspended_def)

lemma left_suspended_timer: "left_suspended st (AddTimer t # acts) h = left_suspended st acts h"
  by (simp add: left_suspended_def split: option.splits)

lemma left_suspended_decide_all:
  assumes "wf_status st" "xq_of st h = Some q"
  shows "left_suspended st (decide_all sus st) h \<longleftrightarrow> sus h q"
  using assms by (simp add: left_suspended_def decision_decide_all)

definition some_ready :: "status \<Rightarrow> bool" where
  "some_ready st \<longleftrightarrow> (\<exists>(h, q) \<in> set (st_xqueues st). xs_ready q)"

lemma some_readyI: "xq_of st h = Some q \<Longrightarrow> xs_ready q \<Longrightarrow> some_ready st"
  unfolding some_ready_def by (auto dest: map_of_SomeD)

lemma some_readyE:
  assumes "some_ready st" "wf_status st"
  obtains h q where "xq_of st h = Some q" "xs_ready q"
proof -
  obtain h q where "(h, q) \<in> set (st_xqueues st)" "xs_ready q"
    using assms(1) by (auto simp: some_ready_def)
  with that show ?thesis by (simp add: st_queue_iff [OF assms(2)])
qed

section \<open>The contract of a policy\<close>

text \<open>Clocks are 64-bit counts of nanoseconds.\<close>

definition time_ok :: "time_ns \<Rightarrow> bool" where
  "time_ok t \<longleftrightarrow> time_min \<le> t \<and> t \<le> time_max"

definition env_ok :: "sched_env \<Rightarrow> bool" where
  "env_ok e \<longleftrightarrow> time_ok (env_now e) \<and> time_ok (env_now2 e) \<and> (\<forall>h. time_ok (env_clk e h))"

lemma time_ok_0 [simp]: "time_ok 0"
  by (simp add: time_ok_def time_min_def time_max_def)

lemma env_ok_ex [simp]: "env_ok ex_env"
  by (simp add: env_ok_def ex_env_def)

text \<open>Between two runs the scheduler may add, remove and update XQueues, but suspends none.\<close>

definition suspends_less :: "status \<Rightarrow> status \<Rightarrow> bool" where
  "suspends_less st st' \<longleftrightarrow>
     (\<forall>h q'. xq_of st' h = Some q' \<longrightarrow> xs_suspended q'
        \<longrightarrow> (\<exists>q. xq_of st h = Some q \<and> xs_suspended q \<and> xs_pid q = xs_pid q'))"

locale policy_iface =
  fixes sched :: "sched_env \<Rightarrow> 'p \<Rightarrow> status \<Rightarrow> ('p \<times> action list) option"
    and recv_hint :: "sched_env \<Rightarrow> 'p \<Rightarrow> hint \<Rightarrow> 'p"
    and pinv :: "'p \<Rightarrow> status \<Rightarrow> bool"
  assumes sched_total:
      "wf_status st \<Longrightarrow> pinv p st \<Longrightarrow> \<exists>p' acts. sched e p st = Some (p', acts)"
    and sched_inv:
      "env_ok e \<Longrightarrow> wf_status st \<Longrightarrow> pinv p st \<Longrightarrow> sched e p st = Some (p', acts)
        \<Longrightarrow> pinv p' (fst (run_actions acts (st, ts)))"
    and hint_inv: "env_ok e \<Longrightarrow> pinv p st \<Longrightarrow> wf_hint ht \<Longrightarrow> pinv (recv_hint e p ht) st"
    and pinv_less: "pinv p st \<Longrightarrow> suspends_less st st' \<Longrightarrow> pinv p st'"
    and sched_known:
      "wf_status st \<Longrightarrow> pinv p st \<Longrightarrow> sched e p st = Some (p', acts)
        \<Longrightarrow> decision acts h = Some b \<Longrightarrow> h \<in> fst ` set (st_xqueues st)"
begin

text \<open>Rescheduling never aborts, keeps the tables consistent and changes nothing of an
  XQueue but its suspension.\<close>

lemma run_total:
  assumes "env_ok e" "wf_status st" "pinv p st"
  obtains p' st' ts' where "policy_run sched e p (st, ts) = Some (p', st', ts')"
    "pinv p' st'" "wf_status st'"
proof -
  obtain p' acts where s: "sched e p st = Some (p', acts)"
    using sched_total [OF assms(2,3)] by blast
  obtain st' ts' where r: "run_actions acts (st, ts) = (st', ts')" by fastforce
  have "wf_status st'" using wf_run_actions [OF assms(2), of acts ts] r by simp
  moreover have "pinv p' st'" using sched_inv [OF assms s, of ts] r by simp
  ultimately show ?thesis using s r that by (auto simp: policy_run_def)
qed

lemma run_keys:
  assumes "policy_run sched e p (st, ts) = Some (p', st', ts')"
  shows "map fst (st_xqueues st') = map fst (st_xqueues st)"
    and "map fst (st_procs st') = map fst (st_procs st)"
  using assms by (auto elim!: policy_runE)

lemma run_frame:
  assumes "policy_run sched e p (st, ts) = Some (p', st', ts')" "xq_of st h = Some q"
  shows "\<exists>b. xq_of st' h = Some (q\<lparr> xs_suspended := b \<rparr>)"
  using assms(1) by (auto elim!: policy_runE simp: run_actions_left_suspended [OF assms(2)])

lemma run_timers_grow:
  assumes "policy_run sched e p (st, ts) = Some (p', st', ts')"
  shows "\<exists>new. ts' = ts @ new"
  using assms by (auto elim!: policy_runE)

end

locale wc_policy = policy_iface sched recv_hint pinv
  for sched :: "sched_env \<Rightarrow> 'p \<Rightarrow> status \<Rightarrow> ('p \<times> action list) option"
    and recv_hint :: "sched_env \<Rightarrow> 'p \<Rightarrow> hint \<Rightarrow> 'p"
    and pinv :: "'p \<Rightarrow> status \<Rightarrow> bool" +
  assumes conserves:
    "env_ok e \<Longrightarrow> wf_status st \<Longrightarrow> pinv p st \<Longrightarrow> sched e p st = Some (p', acts)
      \<Longrightarrow> some_ready st
      \<Longrightarrow> \<exists>h q. xq_of st h = Some q \<and> xs_ready q \<and> \<not> left_suspended st acts h"
begin

text \<open>While some XQueue has work, some XQueue with work is running after the run.\<close>

lemma run_conserves:
  assumes "env_ok e" "wf_status st" "pinv p st" "some_ready st"
    "policy_run sched e p (st, ts) = Some (p', st', ts')"
  shows "\<exists>h q. xq_of st' h = Some q \<and> xs_ready q \<and> \<not> xs_suspended q"
proof -
  obtain acts where s: "sched e p st = Some (p', acts)"
    and st': "st' = fst (run_actions acts (st, ts))"
    using assms(5) by (auto elim: policy_runE)
  from conserves [OF assms(1,2,3) s assms(4)] obtain h q
    where "xq_of st h = Some q" "xs_ready q" "\<not> left_suspended st acts h" by blast
  then show ?thesis
    using run_actions_left_suspended [of st h q acts ts] st' by fastforce
qed

end

section \<open>Highest priority among the ready XQueues\<close>

text \<open>The first loop of HPF and CHPF: the highest priority among the ready XQueues of each
  device, in a \<^verbatim>\<open>std::map<XDevice, Priority>\<close> that is only looked up afterwards.\<close>

definition device_prio_max ::
    "(xqueue_status \<Rightarrow> int) \<Rightarrow> (xhandle \<times> xqueue_status) list \<Rightarrow> xdevice \<Rightarrow> int option" where
  "device_prio_max prio qs =
     foldl (\<lambda>m (_, q).
        if \<not> xs_ready q then m
        else (case m (xs_device q) of
                None \<Rightarrow> m(xs_device q \<mapsto> prio q)
              | Some v \<Rightarrow> if prio q > v then m(xs_device q \<mapsto> prio q) else m))
       Map.empty qs"

lemma device_prio_max_snoc:
  "device_prio_max prio (qs @ [(k, q)]) d =
     (if xs_ready q \<and> xs_device q = d
      then (case device_prio_max prio qs d of None \<Rightarrow> Some (prio q)
            | Some v \<Rightarrow> Some (max v (prio q)))
      else device_prio_max prio qs d)"
  by (auto simp: device_prio_max_def max_def split: option.splits)

lemma device_prio_max_Nil: "device_prio_max prio [] d = None"
  by (simp add: device_prio_max_def)

lemma device_prio_max_None:
  "device_prio_max prio qs d = None \<longleftrightarrow> (\<forall>(k, q) \<in> set qs. xs_ready q \<longrightarrow> xs_device q \<noteq> d)"
proof (induction qs rule: rev_induct)
  case (snoc e qs)
  obtain k q where e: "e = (k, q)" by (cases e)
  show ?case
    by (cases "device_prio_max prio qs d") (use snoc in \<open>auto simp: e device_prio_max_snoc\<close>)
qed (simp add: device_prio_max_Nil)

lemma device_prio_max_ge:
  "device_prio_max prio qs d = Some m \<Longrightarrow> (k, q) \<in> set qs \<Longrightarrow> xs_ready q
    \<Longrightarrow> xs_device q = d \<Longrightarrow> prio q \<le> m"
proof (induction qs arbitrary: m rule: rev_induct)
  case (snoc e qs)
  obtain k' q' where e: "e = (k', q')" by (cases e)
  show ?case
  proof (cases "device_prio_max prio qs d")
    case None
    then have "\<forall>(k, q) \<in> set qs. xs_ready q \<longrightarrow> xs_device q \<noteq> d"
      by (simp add: device_prio_max_None)
    then show ?thesis
      using snoc.prems e None by (auto simp: device_prio_max_snoc split: if_splits)
  next
    case (Some v)
    then show ?thesis
      using snoc.IH [OF Some] snoc.prems e
      by (auto simp: device_prio_max_snoc max_def split: if_splits)
  qed
qed simp

lemma device_prio_max_attained:
  "device_prio_max prio qs d = Some m
    \<Longrightarrow> \<exists>(k, q) \<in> set qs. xs_ready q \<and> xs_device q = d \<and> prio q = m"
proof (induction qs arbitrary: m rule: rev_induct)
  case (snoc e qs)
  obtain k' q' where e: "e = (k', q')" by (cases e)
  show ?case
    using snoc e
    by (cases "device_prio_max prio qs d")
       (fastforce simp: device_prio_max_snoc max_def split: if_splits)+
qed (simp add: device_prio_max_Nil)

text \<open>Being below the maximum is being outranked by a ready XQueue of the device.\<close>

lemma below_device_prio_max:
  assumes "dflt \<le> c"
  shows "c < (case device_prio_max prio qs d of Some m \<Rightarrow> m | None \<Rightarrow> dflt)
     \<longleftrightarrow> (\<exists>(k, q) \<in> set qs. xs_ready q \<and> xs_device q = d \<and> c < prio q)"
proof (cases "device_prio_max prio qs d")
  case None
  then have "\<not> (\<exists>(k, q) \<in> set qs. xs_ready q \<and> xs_device q = d)"
    by (auto simp: device_prio_max_None)
  then show ?thesis using assms None by auto
next
  case (Some m)
  then show ?thesis
    using device_prio_max_ge [OF Some] device_prio_max_attained [OF Some]
    by (auto intro: less_le_trans)
qed

section \<open>Loops that treat every XQueue by itself\<close>

text \<open>Several policies keep a node per XQueue in a map and have loops over the status whose
  body reads and writes only the node of its XQueue and makes callbacks only on it.
  \<open>each_queue\<close> is such a body: \<open>upd\<close> is what it does to the node (\<open>None\<close> is an absent one),
  \<open>emit\<close> the callbacks.\<close>

definition each_queue ::
    "(xqueue_status \<Rightarrow> 'n option \<Rightarrow> 'n option) \<Rightarrow> (xqueue_status \<Rightarrow> 'n option \<Rightarrow> action list)
      \<Rightarrow> (xhandle \<rightharpoonup> 'n) \<times> action list \<Rightarrow> xhandle \<times> xqueue_status
      \<Rightarrow> (xhandle \<rightharpoonup> 'n) \<times> action list" where
  "each_queue upd emit s x =
     (let (m, acts) = s; q = snd x; h = xs_handle q in
      (m(h := upd q (m h)), acts @ emit q (m h)))"

lemma each_queue_fold_aux:
  assumes "distinct (map fst qs)" "\<forall>(k, q) \<in> set qs. xs_handle q = k"
  shows "foldl (each_queue upd emit) (m, acts) qs =
     ((\<lambda>h. case map_of qs h of None \<Rightarrow> m h | Some q \<Rightarrow> upd q (m h)),
      acts @ concat (map (\<lambda>(k, q). emit q (m k)) qs))"
  using assms
proof (induction qs arbitrary: m acts)
  case (Cons x qs)
  obtain k q where x: "x = (k, q)" by (cases x)
  have k: "k \<notin> fst ` set qs" "xs_handle q = k" and pr: "distinct (map fst qs)"
    "\<forall>(k, q) \<in> set qs. xs_handle q = k"
    using Cons.prems by (auto simp: x)
  have mk: "map_of qs k = None" using k(1) by (simp add: map_of_eq_None_iff)
  have ne: "emit q' ((m(k := upd q (m k))) k') = emit q' (m k')" if "(k', q') \<in> set qs" for k' q'
  proof -
    have "k' \<noteq> k" using that k(1) by force
    then show ?thesis by simp
  qed
  have mp: "map (\<lambda>(k', q'). emit q' ((m(k := upd q (m k))) k')) qs = map (\<lambda>(k', q'). emit q' (m k')) qs"
    by (rule map_cong) (auto simp: ne simp del: fun_upd_apply)
  have mpf: "(\<lambda>h. case map_of qs h of None \<Rightarrow> (m(k := upd q (m k))) h
         | Some r \<Rightarrow> upd r ((m(k := upd q (m k))) h)) =
    (\<lambda>h. case map_of (x # qs) h of None \<Rightarrow> m h | Some r \<Rightarrow> upd r (m h))"
    using mk by (auto simp: x fun_eq_iff split: option.splits)
  have "foldl (each_queue upd emit) (m, acts) (x # qs) =
      foldl (each_queue upd emit) (m(k := upd q (m k)), acts @ emit q (m k)) qs"
    by (simp add: x each_queue_def k(2))
  then show ?case
    unfolding Cons.IH [OF pr] mp mpf by (simp only: x list.map concat.simps prod.case append.assoc)
qed (simp add: fun_eq_iff)

lemma each_queue_fold:
  assumes "wf_status st"
  shows "foldl (each_queue upd emit) (m, acts) (st_xqueues st) =
     ((\<lambda>h. case xq_of st h of None \<Rightarrow> m h | Some q \<Rightarrow> upd q (m h)),
      acts @ concat (map (\<lambda>(k, q). emit q (m k)) (st_xqueues st)))"
  by (rule each_queue_fold_aux) (auto simp: wf_status_keys [OF assms] st_queue_iff [OF assms]
      wf_handle [OF assms])

definition mentions_only :: "xhandle \<Rightarrow> action list \<Rightarrow> bool" where
  "mentions_only h acts \<longleftrightarrow> (\<forall>h' \<noteq> h. decision acts h' = None)"

lemma decision_concat_own:
  assumes "distinct (map fst qs)" "\<And>k q. (k, q) \<in> set qs \<Longrightarrow> mentions_only k (E k q)"
  shows "decision (concat (map (\<lambda>(k, q). E k q) qs)) h =
     (case map_of qs h of None \<Rightarrow> None | Some q \<Rightarrow> decision (E h q) h)"
  using assms
proof (induction qs)
  case (Cons x qs)
  obtain k q where x: "x = (k, q)" by (cases x)
  have k: "k \<notin> fst ` set qs" and d: "distinct (map fst qs)" using Cons.prems(1) by (auto simp: x)
  have IH: "decision (concat (map (\<lambda>(k, q). E k q) qs)) h =
      (case map_of qs h of None \<Rightarrow> None | Some q \<Rightarrow> decision (E h q) h)"
    by (rule Cons.IH [OF d]) (use Cons.prems(2) in auto)
  have own: "mentions_only k (E k q)" using Cons.prems(2) by (simp add: x)
  show ?case
  proof (cases "h = k")
    case True
    then have "map_of qs h = None" using k by (simp add: map_of_eq_None_iff)
    then show ?thesis using True IH by (simp add: x decision_append)
  next
    case False
    then have "decision (E k q) h = None" using own by (simp add: mentions_only_def)
    then show ?thesis using False IH by (simp add: x decision_append split: option.splits)
  qed
qed simp

lemma decision_each:
  assumes "wf_status st" "\<And>k q. xq_of st k = Some q \<Longrightarrow> mentions_only k (E k q)"
  shows "decision (concat (map (\<lambda>(k, q). E k q) (st_xqueues st))) h =
     (case xq_of st h of None \<Rightarrow> None | Some q \<Rightarrow> decision (E h q) h)"
  by (rule decision_concat_own)
     (auto simp: wf_status_keys [OF assms(1)] st_queue_iff [OF assms(1)] assms(2))

lemma mentions_only_simps [simp]:
  "mentions_only h []"
  "mentions_only h (Suspend h # acts) \<longleftrightarrow> mentions_only h acts"
  "mentions_only h (Resume h # acts) \<longleftrightarrow> mentions_only h acts"
  by (auto simp: mentions_only_def split: option.splits)

lemma mentions_only_append [simp]:
  "mentions_only h xs \<Longrightarrow> mentions_only h ys \<Longrightarrow> mentions_only h (xs @ ys)"
  by (auto simp: mentions_only_def decision_append)

end
