(* ===== verification/PriorityPolicies.thy ===== *)
theory PriorityPolicies
  imports Policy
begin

text \<open>
  The two highest-priority-first policies: HPF ranks the XQueues of each device against
  each other (\<^verbatim>\<open>sched/src/policy/hpf.cpp\<close>), HHPF those of the whole system
  (\<^verbatim>\<open>sched/src/policy/hhpf.cpp\<close>). Both hold one table of priorities set by hints and
  clamped to the legal range. The lemmas characterise exactly which XQueues a run
  suspends and show that the highest-priority ready work always keeps running.
\<close>

section \<open>State and hints\<close>

record hpf =
  hpf_priorities :: "xhandle \<rightharpoonup> int"

definition hpf_init :: hpf where
  "hpf_init = \<lparr> hpf_priorities = Map.empty \<rparr>"

definition hpf_GetPriority :: "hpf \<Rightarrow> xhandle \<Rightarrow> int" where
  "hpf_GetPriority p h =
     (case hpf_priorities p h of Some v \<Rightarrow> v | None \<Rightarrow> PRIORITY_DEFAULT)"

definition clamp_priority :: "int \<Rightarrow> int" where
  "clamp_priority v =
     (let v1 = (if v < PRIORITY_MIN then PRIORITY_MIN else v) in
      if v1 > PRIORITY_MAX then PRIORITY_MAX else v1)"

definition hpf_RecvHint :: "hpf \<Rightarrow> hint \<Rightarrow> hpf" where
  "hpf_RecvHint p ht =
     (case ht of
        PriorityHint h v \<Rightarrow> p\<lparr> hpf_priorities := (hpf_priorities p)(h \<mapsto> clamp_priority v) \<rparr>
      | _ \<Rightarrow> p)"

definition hpf_inv :: "hpf \<Rightarrow> bool" where
  "hpf_inv p \<longleftrightarrow> (\<forall>v \<in> ran (hpf_priorities p). PRIORITY_MIN \<le> v \<and> v \<le> PRIORITY_MAX)"

section \<open>HPF\<close>

definition hpf_Sched :: "hpf \<Rightarrow> status \<Rightarrow> action list" where
  "hpf_Sched p st =
     (let running_prio_max =
            device_prio_max (\<lambda>q. hpf_GetPriority p (xs_handle q)) (st_xqueues st) in
      map (\<lambda>(_, q).
         let handle = xs_handle q;
             priority = hpf_GetPriority p handle;
             prio_max = (case running_prio_max (xs_device q) of
                           None \<Rightarrow> PRIORITY_MIN | Some m \<Rightarrow> m) in
         if priority < prio_max then Suspend handle else Resume handle)
        (st_xqueues st))"

section \<open>HHPF\<close>

definition hhpf_GetPriority :: "hpf \<Rightarrow> xhandle \<Rightarrow> int" where
  "hhpf_GetPriority p h =
     (case hpf_priorities p h of Some v \<Rightarrow> v | None \<Rightarrow> PRIORITY_DEFAULT)"

definition hhpf_prio_max :: "hpf \<Rightarrow> status \<Rightarrow> int" where
  "hhpf_prio_max p st =
     foldl (\<lambda>m (_, q).
        if \<not> xs_ready q then m
        else let priority = hhpf_GetPriority p (xs_handle q) in
             if priority > m then priority else m)
       PRIORITY_MIN (st_xqueues st)"

definition hhpf_Sched :: "hpf \<Rightarrow> status \<Rightarrow> action list" where
  "hhpf_Sched p st =
     (let prio_max = hhpf_prio_max p st in
      map (\<lambda>(_, q).
         let handle = xs_handle q; priority = hhpf_GetPriority p handle in
         if priority < prio_max then Suspend handle else Resume handle)
        (st_xqueues st))"

definition hhpf_RecvHint :: "hpf \<Rightarrow> hint \<Rightarrow> hpf" where
  "hhpf_RecvHint p ht =
     (case ht of
        PriorityHint h v \<Rightarrow> p\<lparr> hpf_priorities := (hpf_priorities p)(h \<mapsto> clamp_priority v) \<rparr>
      | _ \<Rightarrow> p)"

section \<open>Lemmas\<close>

lemma clamp_priority_range [simp]:
  "PRIORITY_MIN \<le> clamp_priority v" "clamp_priority v \<le> PRIORITY_MAX"
  by (simp_all add: clamp_priority_def Let_def)

lemma clamp_priority_id: "PRIORITY_MIN \<le> v \<Longrightarrow> v \<le> PRIORITY_MAX \<Longrightarrow> clamp_priority v = v"
  by (simp add: clamp_priority_def)

lemma hpf_init_inv [simp]: "hpf_inv hpf_init"
  by (simp add: hpf_inv_def hpf_init_def)

lemma hpf_inv_lookup:
  "hpf_inv p \<Longrightarrow> hpf_priorities p h = Some v \<Longrightarrow> PRIORITY_MIN \<le> v \<and> v \<le> PRIORITY_MAX"
  unfolding hpf_inv_def by (blast intro: ranI)

lemma hpf_inv_hint:
  assumes "hpf_inv p"
  shows "hpf_inv (hpf_RecvHint p ht)"
proof (cases ht)
  case (PriorityHint h v)
  have "w \<in> insert (clamp_priority v) (ran (hpf_priorities p))"
    if "w \<in> ran ((hpf_priorities p)(h \<mapsto> clamp_priority v))" for w
    using that by (auto simp: ran_def split: if_splits)
  then show ?thesis
    using assms clamp_priority_range [of v]
    unfolding PriorityHint hpf_RecvHint_def hpf_inv_def by fastforce
qed (use assms in \<open>simp_all add: hpf_RecvHint_def\<close>)

lemma hpf_GetPriority_ge: "hpf_inv p \<Longrightarrow> PRIORITY_MIN \<le> hpf_GetPriority p h"
  unfolding hpf_GetPriority_def
  by (cases "hpf_priorities p h") (auto dest: hpf_inv_lookup)

lemma hhpf_GetPriority_eq [simp]: "hhpf_GetPriority = hpf_GetPriority"
  by (simp add: fun_eq_iff hhpf_GetPriority_def hpf_GetPriority_def)

lemma hhpf_RecvHint_eq [simp]: "hhpf_RecvHint = hpf_RecvHint"
  by (simp add: fun_eq_iff hhpf_RecvHint_def hpf_RecvHint_def)

text \<open>In consistent tables the handle stored in a status is its key, so both policies
  decide every XQueue by a predicate.\<close>

lemma decide_by_handle:
  assumes "wf_status st"
    and "\<And>h q. xq_of st h = Some q \<Longrightarrow> f (h, q) = (if sus h q then Suspend h else Resume h)"
  shows "map f (st_xqueues st) = decide_all sus st"
  unfolding decide_all_def
  by (rule map_cong) (auto simp: st_queue_iff [OF assms(1)] assms(2))

lemma hpf_Sched_decide:
  assumes "wf_status st"
  shows "hpf_Sched p st = decide_all (\<lambda>h q. hpf_GetPriority p h <
     (case device_prio_max (\<lambda>q. hpf_GetPriority p (xs_handle q)) (st_xqueues st) (xs_device q) of
        Some m \<Rightarrow> m | None \<Rightarrow> PRIORITY_MIN)) st"
  unfolding hpf_Sched_def Let_def
  by (rule decide_by_handle [OF assms]) (auto simp: wf_handle [OF assms] split: option.splits)

lemma hpf_left_suspended:
  assumes "wf_status st" "hpf_inv p" "xq_of st h = Some q"
  shows "left_suspended st (hpf_Sched p st) h \<longleftrightarrow>
     (\<exists>h' q'. xq_of st h' = Some q' \<and> xs_ready q' \<and> xs_device q' = xs_device q
            \<and> hpf_GetPriority p h < hpf_GetPriority p h')"
proof -
  have "left_suspended st (hpf_Sched p st) h \<longleftrightarrow>
     (\<exists>(h', q') \<in> set (st_xqueues st). xs_ready q' \<and> xs_device q' = xs_device q
        \<and> hpf_GetPriority p h < hpf_GetPriority p (xs_handle q'))"
    unfolding hpf_Sched_decide [OF assms(1)] left_suspended_decide_all [OF assms(1,3)]
    by (rule below_device_prio_max [OF hpf_GetPriority_ge [OF assms(2)]])
  also have "\<dots> \<longleftrightarrow> (\<exists>h' q'. xq_of st h' = Some q' \<and> xs_ready q' \<and> xs_device q' = xs_device q
        \<and> hpf_GetPriority p h < hpf_GetPriority p (xs_handle q'))"
    by (rule bex_queue [OF assms(1)])
  finally show ?thesis using wf_handle [OF assms(1)] by metis
qed

lemma hhpf_prio_max_fold:
  "hhpf_prio_max p st = foldl (\<lambda>m x. if xs_ready (snd x) \<and> m < hpf_GetPriority p (xs_handle (snd x))
      then hpf_GetPriority p (xs_handle (snd x)) else m) PRIORITY_MIN (st_xqueues st)"
proof -
  have "(\<lambda>m (_, q). if \<not> xs_ready q then m
        else let priority = hhpf_GetPriority p (xs_handle q) in
             if priority > m then priority else m) =
    (\<lambda>m x. if xs_ready (snd x) \<and> m < hpf_GetPriority p (xs_handle (snd x))
      then hpf_GetPriority p (xs_handle (snd x)) else m)"
    by (auto simp: fun_eq_iff Let_def)
  then show ?thesis unfolding hhpf_prio_max_def by (rule arg_cong)
qed

lemma hhpf_Sched_decide:
  assumes "wf_status st"
  shows "hhpf_Sched p st = decide_all (\<lambda>h q. hpf_GetPriority p h < hhpf_prio_max p st) st"
  unfolding hhpf_Sched_def Let_def
  by (rule decide_by_handle [OF assms]) (auto simp: wf_handle [OF assms])

lemma decide_all_cong:
  assumes "wf_status st" "\<And>h q. xq_of st h = Some q \<Longrightarrow> f h q = g h q"
  shows "decide_all f st = decide_all g st"
  unfolding decide_all_def by (rule map_cong) (auto simp: st_queue_iff [OF assms(1)] assms(2))

lemma hhpf_left_suspended:
  assumes "wf_status st" "hpf_inv p" "xq_of st h = Some q"
  shows "left_suspended st (hhpf_Sched p st) h \<longleftrightarrow>
     (\<exists>h' q'. xq_of st h' = Some q' \<and> xs_ready q'
            \<and> hpf_GetPriority p h < hpf_GetPriority p h')"
proof -
  let ?m = "hhpf_prio_max p st"
  have *: "left_suspended st (hhpf_Sched p st) h \<longleftrightarrow> hpf_GetPriority p h < ?m"
    by (simp add: hhpf_Sched_decide [OF assms(1)] left_suspended_decide_all [OF assms(1,3)])
  have ge: "hpf_GetPriority p h' \<le> ?m" if "xq_of st h' = Some q'" "xs_ready q'" for h' q'
    using foldl_max_ge [of PRIORITY_MIN "\<lambda>x. xs_ready (snd x)"
        "\<lambda>x. hpf_GetPriority p (xs_handle (snd x))" "st_xqueues st"]
      map_of_SomeD [OF that(1)] that(2) wf_handle [OF assms(1) that(1)]
    unfolding hhpf_prio_max_fold by force
  have att: "?m = PRIORITY_MIN \<or> (\<exists>h' q'. xq_of st h' = Some q' \<and> xs_ready q'
      \<and> ?m = hpf_GetPriority p h')"
    using foldl_max_attained [of "\<lambda>x. xs_ready (snd x)"
        "\<lambda>x. hpf_GetPriority p (xs_handle (snd x))" PRIORITY_MIN "st_xqueues st"]
    unfolding hhpf_prio_max_fold
    by (auto simp: st_queue_iff [OF assms(1)] wf_handle [OF assms(1)]) blast+
  show ?thesis unfolding *
  proof
    assume lt: "hpf_GetPriority p h < ?m"
    then have "?m \<noteq> PRIORITY_MIN" using hpf_GetPriority_ge [OF assms(2), of h] by linarith
    then show "\<exists>h' q'. xq_of st h' = Some q' \<and> xs_ready q'
        \<and> hpf_GetPriority p h < hpf_GetPriority p h'"
      using att lt by (elim disjE) (simp, metis)
  qed (use ge in \<open>auto intro: less_le_trans\<close>)
qed

text \<open>A ready XQueue of maximal priority among those satisfying a condition exists.\<close>

lemma max_ready_exists:
  fixes prio :: "xhandle \<Rightarrow> int"
  assumes wf: "wf_status st" and ex: "xq_of st h0 = Some q0" "xs_ready q0" "C q0"
  shows "\<exists>h q. xq_of st h = Some q \<and> xs_ready q \<and> C q
     \<and> (\<forall>h' q'. xq_of st h' = Some q' \<longrightarrow> xs_ready q' \<longrightarrow> C q' \<longrightarrow> prio h' \<le> prio h)"
proof -
  let ?S = "{h. \<exists>q. xq_of st h = Some q \<and> xs_ready q \<and> C q}"
  have "?S \<subseteq> dom (map_of (st_xqueues st))" by auto
  then have fin: "finite ?S" by (rule finite_subset) (rule finite_dom_map_of)
  have ne: "?S \<noteq> {}" using ex by blast
  have "Max (prio ` ?S) \<in> prio ` ?S" using fin ne by simp
  then obtain h where h: "prio h = Max (prio ` ?S)" "h \<in> ?S" by (elim imageE) simp
  have "prio h' \<le> prio h" if "h' \<in> ?S" for h'
    unfolding h(1) by (rule Max_ge [OF finite_imageI [OF fin] imageI [OF that]])
  with h(2) show ?thesis by blast
qed

lemma hpf_device_conserves:
  assumes "wf_status st" "hpf_inv p" "xq_of st h0 = Some q0" "xs_ready q0"
  shows "\<exists>h q. xq_of st h = Some q \<and> xs_ready q \<and> xs_device q = xs_device q0
     \<and> \<not> left_suspended st (hpf_Sched p st) h"
proof -
  obtain h q where hq: "xq_of st h = Some q" "xs_ready q" "xs_device q = xs_device q0"
    "\<And>h' q'. xq_of st h' = Some q' \<Longrightarrow> xs_ready q' \<Longrightarrow> xs_device q' = xs_device q0
      \<Longrightarrow> hpf_GetPriority p h' \<le> hpf_GetPriority p h"
    using max_ready_exists [OF assms(1,3,4), of "\<lambda>q. xs_device q = xs_device q0"
        "hpf_GetPriority p"] by auto
  then have "\<not> left_suspended st (hpf_Sched p st) h"
    by (auto simp: hpf_left_suspended [OF assms(1,2) hq(1)] not_less)
  with hq show ?thesis by blast
qed

section \<open>The policies meet the contract\<close>

definition hpf_policy :: "sched_env \<Rightarrow> hpf \<Rightarrow> status \<Rightarrow> (hpf \<times> action list) option" where
  "hpf_policy e p st = Some (p, hpf_Sched p st)"

definition hhpf_policy :: "sched_env \<Rightarrow> hpf \<Rightarrow> status \<Rightarrow> (hpf \<times> action list) option" where
  "hhpf_policy e p st = Some (p, hhpf_Sched p st)"

lemma decide_all_known:
  "wf_status st \<Longrightarrow> decision (decide_all sus st) h = Some b \<Longrightarrow> h \<in> fst ` set (st_xqueues st)"
  by (auto simp: decision_decide_all intro: xq_of_key)

interpretation hpf_pol: wc_policy hpf_policy "\<lambda>_. hpf_RecvHint" "\<lambda>p _. hpf_inv p"
proof unfold_locales
  fix e p p' st acts assume *: "wf_status st" "hpf_inv p" "hpf_policy e p st = Some (p', acts)"
  { assume "some_ready st"
    then obtain h0 q0 where "xq_of st h0 = Some q0" "xs_ready q0"
      using * by (auto elim: some_readyE)
    from hpf_device_conserves [OF *(1,2) this] *(3)
    show "\<exists>h q. xq_of st h = Some q \<and> xs_ready q \<and> \<not> left_suspended st acts h"
      by (auto simp: hpf_policy_def) }
  { fix h b assume "decision acts h = Some b"
    with * show "h \<in> fst ` set (st_xqueues st)"
      by (auto simp: hpf_policy_def hpf_Sched_decide intro: decide_all_known) }
qed (auto simp: hpf_policy_def hpf_inv_hint)

interpretation hhpf_pol: wc_policy hhpf_policy "\<lambda>_. hpf_RecvHint" "\<lambda>p _. hpf_inv p"
proof unfold_locales
  fix e p p' st acts assume *: "wf_status st" "hpf_inv p" "hhpf_policy e p st = Some (p', acts)"
  { assume "some_ready st"
    then obtain h0 q0 where q0: "xq_of st h0 = Some q0" "xs_ready q0"
      using * by (auto elim: some_readyE)
    obtain h q where hq: "xq_of st h = Some q" "xs_ready q"
      "\<And>h' q'. xq_of st h' = Some q' \<Longrightarrow> xs_ready q'
        \<Longrightarrow> hpf_GetPriority p h' \<le> hpf_GetPriority p h"
      using max_ready_exists [OF *(1) q0, of "\<lambda>_. True" "hpf_GetPriority p"] by auto
    then have "\<not> left_suspended st (hhpf_Sched p st) h"
      by (auto simp: hhpf_left_suspended [OF *(1,2) hq(1)] not_less)
    with hq *(3) show "\<exists>h q. xq_of st h = Some q \<and> xs_ready q \<and> \<not> left_suspended st acts h"
      by (auto simp: hhpf_policy_def) }
  { fix h b assume "decision acts h = Some b"
    with * show "h \<in> fst ` set (st_xqueues st)"
      by (auto simp: hhpf_policy_def hhpf_Sched_def Let_def
          decide_by_handle [where sus = "\<lambda>h q. hpf_GetPriority p h < hhpf_prio_max p st"]
          wf_handle intro: decide_all_known) }
qed (auto simp: hhpf_policy_def hpf_inv_hint)

section \<open>Properties\<close>

text \<open>C6: A run of HPF leaves an XQueue suspended exactly when a ready XQueue of the same
  device has a strictly higher priority, and changes nothing else of it.\<close>

theorem hpf_suspends_iff_outranked:
  assumes "wf_status st" "hpf_inv p" "xq_of st h = Some q"
  shows "xq_of (fst (run_actions (hpf_Sched p st) (st, ts))) h =
     Some (q\<lparr> xs_suspended :=
       (\<exists>h' q'. xq_of st h' = Some q' \<and> xs_ready q' \<and> xs_device q' = xs_device q
              \<and> hpf_GetPriority p h < hpf_GetPriority p h') \<rparr>)"
  by (simp add: run_actions_left_suspended [OF assms(3)] hpf_left_suspended [OF assms])

theorem hpf_suspends_iff_outranked_witness:
  "\<exists>q. xq_of (fst (run_actions (hpf_Sched (hpf_RecvHint hpf_init (PriorityHint 2 5))
          (ex_status True True)) (ex_status True True, []))) 1 = Some q \<and> xs_suspended q"
proof -
  let ?p = "hpf_RecvHint hpf_init (PriorityHint 2 5)"
  have q1: "xq_of (ex_status True True) 1 = Some (ex_queue 1 10 True 1000)"
    and q2: "xq_of (ex_status True True) 2 = Some (ex_queue 2 20 True 2000)"
    by (simp_all add: ex_status_def)
  have "\<exists>h' q'. xq_of (ex_status True True) h' = Some q' \<and> xs_ready q'
      \<and> xs_device q' = xs_device (ex_queue 1 10 True 1000)
      \<and> hpf_GetPriority ?p 1 < hpf_GetPriority ?p h'"
    by (rule exI [of _ 2], rule exI [of _ "ex_queue 2 20 True 2000"])
       (simp add: q2 ex_queue_def hpf_GetPriority_def hpf_RecvHint_def hpf_init_def
         clamp_priority_def)
  then show ?thesis
    using hpf_suspends_iff_outranked
      [OF wf_ex_status hpf_inv_hint [OF hpf_init_inv] q1, of "PriorityHint 2 5" "[]"]
    by simp
qed

text \<open>A run of HHPF leaves an XQueue suspended exactly when some ready XQueue of any
  device has a strictly higher priority.\<close>

theorem hhpf_suspends_iff_outranked:
  assumes "wf_status st" "hpf_inv p" "xq_of st h = Some q"
  shows "xq_of (fst (run_actions (hhpf_Sched p st) (st, ts))) h =
     Some (q\<lparr> xs_suspended :=
       (\<exists>h' q'. xq_of st h' = Some q' \<and> xs_ready q'
              \<and> hpf_GetPriority p h < hpf_GetPriority p h') \<rparr>)"
  by (simp add: run_actions_left_suspended [OF assms(3)] hhpf_left_suspended [OF assms])

theorem hhpf_suspends_iff_outranked_witness:
  "\<exists>q. xq_of (fst (run_actions (hhpf_Sched hpf_init (ex_status True True))
          (ex_status True True, []))) 1 = Some q \<and> \<not> xs_suspended q"
  using hhpf_suspends_iff_outranked
    [OF wf_ex_status hpf_init_inv, of True True 1 "ex_queue 1 10 True 1000" "[]"]
  by (simp add: ex_status_def hpf_GetPriority_def hpf_init_def)

text \<open>On a system with one device the two policies are the same: they issue the same actions in the
  same order.\<close>

theorem hhpf_is_hpf_on_one_device:
  assumes wf: "wf_status st" and inv: "hpf_inv p"
    and one: "\<And>h q. xq_of st h = Some q \<Longrightarrow> xs_device q = d"
  shows "hhpf_Sched p st = hpf_Sched p st"
proof -
  have "hhpf_Sched p st = decide_all (\<lambda>h q. hpf_GetPriority p h < hhpf_prio_max p st) st"
    by (rule hhpf_Sched_decide [OF wf])
  also have "\<dots> = hpf_Sched p st"
    unfolding hpf_Sched_decide [OF wf]
  proof (rule decide_all_cong [OF wf])
    fix h q assume q: "xq_of st h = Some q"
    show "hpf_GetPriority p h < hhpf_prio_max p st \<longleftrightarrow> hpf_GetPriority p h <
       (case device_prio_max (\<lambda>q. hpf_GetPriority p (xs_handle q)) (st_xqueues st) (xs_device q) of
          Some m \<Rightarrow> m | None \<Rightarrow> PRIORITY_MIN)"
      using hpf_left_suspended [OF wf inv q] hhpf_left_suspended [OF wf inv q] one
      unfolding hpf_Sched_decide [OF wf] hhpf_Sched_decide [OF wf] left_suspended_decide_all [OF wf q]
      by (metis q)
  qed
  finally show ?thesis .
qed

lemma hhpf_is_hpf_on_one_device_witness:
  "hhpf_Sched hpf_init (ex_status True True) = hpf_Sched hpf_init (ex_status True True)"
  by (rule hhpf_is_hpf_on_one_device [OF wf_ex_status hpf_init_inv, where d = 7])
    (auto simp: ex_defs split: if_splits)

end
