(* ===== verification/ProcfsPolicy.thy ===== *)
theory ProcfsPolicy
  imports PriorityPolicies
begin

text \<open>
  CHPF (\<^verbatim>\<open>sched/src/policy/chpf.cpp\<close>): HPF with the Linux priority of the process, read
  from the text of \<^verbatim>\<open>/proc/<pid>/sched\<close>, instead of hints. The text processing is modelled:
  \<^verbatim>\<open>line.find\<close>, the whitespace-separated extraction of \<^verbatim>\<open>stringstream\<close> and the parsing of
  an \<^verbatim>\<open>int\<close> with its saturation. The contents of procfs is an input (\<open>env_procfs\<close>).
\<close>

section \<open>Text\<close>

fun contains :: "string \<Rightarrow> string \<Rightarrow> bool" where
  "contains pat [] = (pat = [])"
| "contains pat (c # s) = (take (length pat) (c # s) = pat \<or> contains pat s)"

definition is_space :: "char \<Rightarrow> bool" where
  "is_space c \<longleftrightarrow> c \<in> set [CHR '' '', CHR 0x09, CHR 0x0A, CHR 0x0B, CHR 0x0C, CHR 0x0D]"

definition is_digit :: "char \<Rightarrow> bool" where
  "is_digit c \<longleftrightarrow> 48 \<le> (of_char c :: nat) \<and> (of_char c :: nat) \<le> 57"

text \<open>One \<^verbatim>\<open>sin >> word\<close>: skip white space, take a non-empty run of other characters.\<close>

definition next_word :: "string \<Rightarrow> (string \<times> string) option" where
  "next_word s =
     (let t = dropWhile is_space s in
      if t = [] then None
      else Some (takeWhile (\<lambda>c. \<not> is_space c) t, dropWhile (\<lambda>c. \<not> is_space c) t))"

definition digits_value :: "string \<Rightarrow> int" where
  "digits_value ds = foldl (\<lambda>n d. 10 * n + (of_char d - 48)) 0 ds"

definition clamp_int32 :: "int \<Rightarrow> int" where
  "clamp_int32 v = max (- 2147483648) (min 2147483647 v)"

text \<open>\<^verbatim>\<open>sin >> prio\<close>: nothing left keeps the old value (\<open>None\<close>); no digit stores 0.\<close>

definition next_int :: "string \<Rightarrow> int option" where
  "next_int s =
     (case dropWhile is_space s of
        [] \<Rightarrow> None
      | c # t \<Rightarrow>
          if c = CHR ''-'' then Some (clamp_int32 (- digits_value (takeWhile is_digit t)))
          else if c = CHR ''+'' then Some (clamp_int32 (digits_value (takeWhile is_digit t)))
          else Some (clamp_int32 (digits_value (takeWhile is_digit (c # t)))))"

text \<open>\<^verbatim>\<open>sin >> dummy >> dummy >> prio\<close> on one line; \<open>None\<close> leaves \<^verbatim>\<open>prio\<close> unassigned.\<close>

definition third_int :: "string \<Rightarrow> int option" where
  "third_int line =
     (case next_word line of None \<Rightarrow> None
      | Some (_, r1) \<Rightarrow>
        (case next_word r1 of None \<Rightarrow> None
         | Some (_, r2) \<Rightarrow> next_int r2))"

section \<open>The policy\<close>

text \<open>The loop over the lines of one file: the first line that contains \<^verbatim>\<open>prio\<close> counts.\<close>

fun chpf_scan :: "int \<Rightarrow> string list \<Rightarrow> int option" where
  "chpf_scan uninit [] = None"
| "chpf_scan uninit (line # lines) =
     (if \<not> contains ''prio'' line then chpf_scan uninit lines
      else let prio = (case third_int line of Some v \<Rightarrow> v | None \<Rightarrow> uninit) in
           Some (if prio \<ge> 100 then - prio else prio))"

definition chpf_pid_prio :: "sched_env \<Rightarrow> status \<Rightarrow> pid \<Rightarrow> int option" where
  "chpf_pid_prio e st =
     foldl (\<lambda>m (pd, _). case chpf_scan (env_uninit e pd) (env_procfs e pd) of
              Some v \<Rightarrow> m(pd \<mapsto> v) | None \<Rightarrow> m)
       Map.empty (st_procs st)"

text \<open>\<^verbatim>\<open>pid_prio[pid]\<close> on a \<^verbatim>\<open>std::map\<close> is 0 for an unknown process.\<close>

definition chpf_prio :: "sched_env \<Rightarrow> status \<Rightarrow> pid \<Rightarrow> int" where
  "chpf_prio e st pd = (case chpf_pid_prio e st pd of Some v \<Rightarrow> v | None \<Rightarrow> 0)"

definition chpf_Sched :: "sched_env \<Rightarrow> status \<Rightarrow> action list" where
  "chpf_Sched e st =
     (let running_prio_max =
            device_prio_max (\<lambda>q. chpf_prio e st (xs_pid q)) (st_xqueues st) in
      map (\<lambda>(_, q).
         let handle = xs_handle q;
             priority = chpf_prio e st (xs_pid q);
             prio_max = (case running_prio_max (xs_device q) of
                           None \<Rightarrow> PRIORITY_MIN | Some m \<Rightarrow> m) in
         if priority < prio_max then Suspend handle else Resume handle)
        (st_xqueues st))"

definition chpf_RecvHint :: "unit \<Rightarrow> hint \<Rightarrow> unit" where
  "chpf_RecvHint p ht = p"

definition chpf_policy :: "sched_env \<Rightarrow> unit \<Rightarrow> status \<Rightarrow> (unit \<times> action list) option" where
  "chpf_policy e p st = Some (p, chpf_Sched e st)"

section \<open>Lemmas\<close>

lemma chpf_pid_prio_lookup:
  "distinct (map fst ps) \<Longrightarrow>
   foldl (\<lambda>m (pd, _). case chpf_scan (u pd) (f pd) of Some v \<Rightarrow> m(pd \<mapsto> v) | None \<Rightarrow> m) m0 ps pd =
     (if pd \<in> fst ` set ps then
        (case chpf_scan (u pd) (f pd) of Some v \<Rightarrow> Some v | None \<Rightarrow> m0 pd)
      else m0 pd)"
  by (induction ps arbitrary: m0) (auto split: option.splits)

lemma chpf_prio_eq:
  assumes "wf_status st" "xq_of st h = Some q"
  shows "chpf_prio e st (xs_pid q) =
     (case chpf_scan (env_uninit e (xs_pid q)) (env_procfs e (xs_pid q)) of
        Some v \<Rightarrow> v | None \<Rightarrow> 0)"
proof -
  obtain p where p: "proc_of st (xs_pid q) = Some p"
    using wf_status_queue_proc [OF assms] by blast
  have "xs_pid q \<in> fst ` set (st_procs st)"
    using map_of_SomeD [OF p] by force
  then show ?thesis
    by (simp add: chpf_prio_def chpf_pid_prio_def chpf_pid_prio_lookup wf_status_keys [OF assms(1)]
        split: option.splits)
qed

lemma chpf_Sched_decide:
  assumes "wf_status st"
  shows "chpf_Sched e st = decide_all (\<lambda>h q. chpf_prio e st (xs_pid q) <
     (case device_prio_max (\<lambda>q. chpf_prio e st (xs_pid q)) (st_xqueues st) (xs_device q) of
        Some m \<Rightarrow> m | None \<Rightarrow> PRIORITY_MIN)) st"
  unfolding chpf_Sched_def Let_def
  by (rule decide_by_handle [OF assms]) (auto simp: wf_handle [OF assms] split: option.splits)

lemma chpf_left_suspended_ready:
  assumes "wf_status st" "xq_of st h = Some q" "xs_ready q"
  shows "left_suspended st (chpf_Sched e st) h \<longleftrightarrow>
     (\<exists>h' q'. xq_of st h' = Some q' \<and> xs_ready q' \<and> xs_device q' = xs_device q
            \<and> chpf_prio e st (xs_pid q) < chpf_prio e st (xs_pid q'))"
proof -
  obtain m where m: "device_prio_max (\<lambda>q. chpf_prio e st (xs_pid q)) (st_xqueues st)
      (xs_device q) = Some m"
    using assms map_of_SomeD [OF assms(2)]
    by (cases "device_prio_max (\<lambda>q. chpf_prio e st (xs_pid q)) (st_xqueues st) (xs_device q)")
       (auto simp: device_prio_max_None)
  have "left_suspended st (chpf_Sched e st) h \<longleftrightarrow> chpf_prio e st (xs_pid q) < m"
    by (simp add: chpf_Sched_decide [OF assms(1)] left_suspended_decide_all [OF assms(1,2)] m)
  also have "\<dots> \<longleftrightarrow> (\<exists>(h', q') \<in> set (st_xqueues st). xs_ready q' \<and> xs_device q' = xs_device q
            \<and> chpf_prio e st (xs_pid q) < chpf_prio e st (xs_pid q'))"
    using device_prio_max_ge [OF m] device_prio_max_attained [OF m] by fastforce
  also have "\<dots> \<longleftrightarrow> (\<exists>h' q'. xq_of st h' = Some q' \<and> xs_ready q' \<and> xs_device q' = xs_device q
            \<and> chpf_prio e st (xs_pid q) < chpf_prio e st (xs_pid q'))"
    by (rule bex_queue [OF assms(1)])
  finally show ?thesis .
qed

lemma chpf_device_conserves:
  assumes "wf_status st" "xq_of st h0 = Some q0" "xs_ready q0"
  shows "\<exists>h q. xq_of st h = Some q \<and> xs_ready q \<and> xs_device q = xs_device q0
     \<and> \<not> left_suspended st (chpf_Sched e st) h"
proof -
  obtain m where m: "device_prio_max (\<lambda>q. chpf_prio e st (xs_pid q)) (st_xqueues st)
      (xs_device q0) = Some m"
    using assms map_of_SomeD [OF assms(2)]
    by (cases "device_prio_max (\<lambda>q. chpf_prio e st (xs_pid q)) (st_xqueues st) (xs_device q0)")
       (auto simp: device_prio_max_None)
  obtain h q where hq: "(h, q) \<in> set (st_xqueues st)" "xs_ready q" "xs_device q = xs_device q0"
    "chpf_prio e st (xs_pid q) = m"
    using device_prio_max_attained [OF m] by auto
  then have q: "xq_of st h = Some q" by (simp add: st_queue_iff [OF assms(1)])
  have "\<not> left_suspended st (chpf_Sched e st) h"
    using hq m by (simp add: chpf_Sched_decide [OF assms(1)] left_suspended_decide_all [OF assms(1) q])
  with q hq show ?thesis by blast
qed

interpretation chpf_pol: wc_policy chpf_policy "\<lambda>_. chpf_RecvHint" "\<lambda>_ _. True"
proof unfold_locales
  fix e p p' st acts assume *: "wf_status st" "chpf_policy e p st = Some (p', acts)"
  { assume "some_ready st"
    then obtain h0 q0 where "xq_of st h0 = Some q0" "xs_ready q0"
      using * by (auto elim: some_readyE)
    from chpf_device_conserves [OF *(1) this, of e] *(2)
    show "\<exists>h q. xq_of st h = Some q \<and> xs_ready q \<and> \<not> left_suspended st acts h"
      by (fastforce simp: chpf_policy_def) }
  { fix h b assume "decision acts h = Some b"
    with * show "h \<in> fst ` set (st_xqueues st)"
      by (auto simp: chpf_policy_def chpf_Sched_decide intro: decide_all_known) }
qed (auto simp: chpf_policy_def)

text \<open>The kernel's own line: \<^verbatim>\<open>prio : 120\<close> is a static priority and becomes -120.\<close>

lemma chpf_scan_static:
  "chpf_scan u [''prio                                         :                  120''] = Some (- 120)"
  by code_simp

lemma chpf_scan_rt:
  "chpf_scan u [''prio                                         :                   10''] = Some 10"
  by code_simp

section \<open>Properties\<close>

text \<open>On the XQueues of one device CHPF lets only the processes of the highest
  priority it read run: a ready XQueue is left suspended exactly when a ready XQueue of its
  device belongs to a process with a larger value.\<close>

theorem chpf_suspends_iff_outranked:
  assumes "wf_status st" "xq_of st h = Some q" "xs_ready q"
  shows "xq_of (fst (run_actions (chpf_Sched e st) (st, ts))) h =
     Some (q\<lparr> xs_suspended :=
       (\<exists>h' q'. xq_of st h' = Some q' \<and> xs_ready q' \<and> xs_device q' = xs_device q
              \<and> chpf_prio e st (xs_pid q) < chpf_prio e st (xs_pid q')) \<rparr>)"
  by (simp add: run_actions_left_suspended [OF assms(2)] chpf_left_suspended_ready [OF assms])

theorem chpf_suspends_iff_outranked_witness:
  "\<exists>q. xq_of (fst (run_actions (chpf_Sched
            (ex_env\<lparr>
              env_procfs := (\<lambda>pd. if pd = 10 then [''prio : 130''] else [''prio : 120'']) \<rparr>) (ex_status True True)) (ex_status True True, []))) 1 = Some q
       \<and> xs_suspended q"
proof -
  let ?e = "ex_env\<lparr>
              env_procfs := (\<lambda>pd. if pd = 10 then [''prio : 130''] else [''prio : 120'']) \<rparr>"
  let ?st = "ex_status True True"
  have q1: "xq_of ?st 1 = Some (ex_queue 1 10 True 1000)"
    and q2: "xq_of ?st 2 = Some (ex_queue 2 20 True 2000)"
    by (simp_all add: ex_status_def)
  have s: "chpf_scan 0 [''prio : 130''] = Some (- 130)" "chpf_scan 0 [''prio : 120''] = Some (- 120)"
    by code_simp+
  have p: "chpf_prio ?e ?st 10 = - 130" "chpf_prio ?e ?st 20 = - 120"
    by (simp_all add: chpf_prio_def chpf_pid_prio_def ex_status_def ex_env_def s del: chpf_scan.simps)
  have "\<exists>h' q'. xq_of ?st h' = Some q' \<and> xs_ready q'
      \<and> xs_device q' = xs_device (ex_queue 1 10 True 1000)
      \<and> chpf_prio ?e ?st (xs_pid (ex_queue 1 10 True 1000)) < chpf_prio ?e ?st (xs_pid q')"
    by (rule exI [of _ 2], rule exI [of _ "ex_queue 2 20 True 2000"])
       (simp add: q2 ex_queue_def p)
  then show ?thesis
    using chpf_suspends_iff_outranked [OF wf_ex_status q1, of "?e" "[]"]
    by (simp add: ex_queue_def)
qed

text \<open>The first line of \<^verbatim>\<open>/proc/<pid>/sched\<close> carries the name of the command, so a
  process whose name contains \<^verbatim>\<open>prio\<close> gets the value of that line and not of the
  \<^verbatim>\<open>prio\<close> line: whatever its real priority, it is 0, above every ordinary process.\<close>

theorem chpf_name_spoofs_priority:
  "chpf_scan u (''prioritize (4711, #threads: 1)'' # lines) = Some 0"
proof -
  have c: "contains ''prio'' ''prioritize (4711, #threads: 1)''" by code_simp
  have t: "third_int ''prioritize (4711, #threads: 1)'' = Some 0" by code_simp
  show ?thesis by (simp add: c t)
qed

end
