(* ===== verification/WindowPolicy.thy ===== *)
theory WindowPolicy
  imports PriorityPolicies
begin

text \<open>
  AWF (\<^verbatim>\<open>sched/src/policy/awf.cpp\<close>): the processes that own the active window of some
  display run, the others are suspended while an active process has work. The hash set
  and the map of the policy are only looked up and are a set and a map here.
\<close>

record awf =
  awf_active_pids :: "pid set"
  awf_display_active :: "64 word \<rightharpoonup> pid"

definition awf_init :: awf where
  "awf_init = \<lparr> awf_active_pids = {}, awf_display_active = Map.empty \<rparr>"

definition awf_Sched :: "awf \<Rightarrow> status \<Rightarrow> action list" where
  "awf_Sched p st =
     (let active_process_ready =
            list_ex (\<lambda>(_, q). xs_ready q \<and> xs_pid q \<in> awf_active_pids p) (st_xqueues st) in
      if \<not> active_process_ready then map (\<lambda>(h, _). Resume h) (st_xqueues st)
      else map (\<lambda>(h, q). if xs_pid q \<in> awf_active_pids p then Resume h else Suspend h)
             (st_xqueues st))"

definition awf_RecvHint :: "awf \<Rightarrow> hint \<Rightarrow> awf" where
  "awf_RecvHint p ht =
     (case ht of
        WindowActiveHint pd display \<Rightarrow>
          if pd = 0 then p
          else (case awf_display_active p display of
                  None \<Rightarrow> p\<lparr> awf_active_pids := insert pd (awf_active_pids p),
                             awf_display_active := (awf_display_active p)(display \<mapsto> pd) \<rparr>
                | Some old \<Rightarrow>
                    p\<lparr> awf_active_pids := insert pd (awf_active_pids p - {old}),
                       awf_display_active := (awf_display_active p)(display \<mapsto> pd) \<rparr>)
      | _ \<Rightarrow> p)"

text \<open>Every active process owns some display.\<close>

definition awf_inv :: "awf \<Rightarrow> bool" where
  "awf_inv p \<longleftrightarrow> awf_active_pids p \<subseteq> ran (awf_display_active p)"

definition awf_policy :: "sched_env \<Rightarrow> awf \<Rightarrow> status \<Rightarrow> (awf \<times> action list) option" where
  "awf_policy e p st = Some (p, awf_Sched p st)"

section \<open>Lemmas\<close>

lemma awf_init_inv [simp]: "awf_inv awf_init"
  by (simp add: awf_inv_def awf_init_def)

lemma ran_upd_old:
  "m k = Some old \<Longrightarrow> x \<in> ran m \<Longrightarrow> x \<noteq> old \<Longrightarrow> x \<in> ran (m(k \<mapsto> v))"
  by (auto simp: ran_def) (metis option.inject)

lemma awf_inv_hint:
  assumes "awf_inv p"
  shows "awf_inv (awf_RecvHint p ht)"
proof (cases ht)
  case (WindowActiveHint pd d)
  show ?thesis
  proof (cases "awf_display_active p d")
    case None
    then show ?thesis using assms
      by (auto simp: WindowActiveHint awf_RecvHint_def awf_inv_def ran_map_upd)
  next
    case (Some old)
    have "pd \<in> ran ((awf_display_active p)(d \<mapsto> pd))" by (auto simp: ran_def)
    then show ?thesis using assms Some
      by (auto simp: WindowActiveHint awf_RecvHint_def awf_inv_def intro!: ran_upd_old)
  qed
qed (use assms in \<open>simp_all add: awf_RecvHint_def\<close>)

definition awf_active_ready :: "awf \<Rightarrow> status \<Rightarrow> bool" where
  "awf_active_ready p st \<longleftrightarrow>
     (\<exists>h q. xq_of st h = Some q \<and> xs_ready q \<and> xs_pid q \<in> awf_active_pids p)"

lemma awf_Sched_decide:
  assumes "wf_status st"
  shows "awf_Sched p st =
     decide_all (\<lambda>h q. awf_active_ready p st \<and> xs_pid q \<notin> awf_active_pids p) st"
proof -
  have "list_ex (\<lambda>(_, q). xs_ready q \<and> xs_pid q \<in> awf_active_pids p) (st_xqueues st)
      \<longleftrightarrow> awf_active_ready p st"
    unfolding awf_active_ready_def list_ex_iff
    by (rule bex_queue [OF assms, of "\<lambda>h q. xs_ready q \<and> xs_pid q \<in> awf_active_pids p"])
  then show ?thesis by (auto simp: awf_Sched_def decide_all_def Let_def)
qed

lemma awf_left_suspended:
  assumes "wf_status st" "xq_of st h = Some q"
  shows "left_suspended st (awf_Sched p st) h \<longleftrightarrow>
     awf_active_ready p st \<and> xs_pid q \<notin> awf_active_pids p"
  by (simp add: awf_Sched_decide [OF assms(1)] left_suspended_decide_all [OF assms])

interpretation awf_pol: wc_policy awf_policy "\<lambda>_. awf_RecvHint" "\<lambda>p _. awf_inv p"
proof unfold_locales
  fix e p p' st acts assume *: "wf_status st" "awf_inv p" "awf_policy e p st = Some (p', acts)"
  { assume r: "some_ready st"
    show "\<exists>h q. xq_of st h = Some q \<and> xs_ready q \<and> \<not> left_suspended st acts h"
    proof (cases "awf_active_ready p st")
      case True
      then obtain h q where q: "xq_of st h = Some q" "xs_ready q" "xs_pid q \<in> awf_active_pids p"
        by (auto simp: awf_active_ready_def)
      then have "\<not> left_suspended st (awf_Sched p st) h"
        by (simp add: awf_left_suspended [OF *(1) q(1)])
      with q *(3) show ?thesis unfolding awf_policy_def by blast
    next
      case False
      obtain h q where q: "xq_of st h = Some q" "xs_ready q"
        using some_readyE [OF r *(1)] .
      then have "\<not> left_suspended st (awf_Sched p st) h"
        using False by (simp add: awf_left_suspended [OF *(1) q(1)])
      with q *(3) show ?thesis unfolding awf_policy_def by blast
    qed }
  { fix h b assume "decision acts h = Some b"
    with * show "h \<in> fst ` set (st_xqueues st)"
      by (auto simp: awf_policy_def awf_Sched_decide intro: decide_all_known) }
qed (auto simp: awf_policy_def awf_inv_hint)

section \<open>Properties\<close>

text \<open>While a process with an active window has ready work, exactly the XQueues of the
  processes without one are suspended; otherwise none is.\<close>

theorem awf_suspends_background:
  assumes "wf_status st" "xq_of st h = Some q"
  shows "xq_of (fst (run_actions (awf_Sched p st) (st, ts))) h =
     Some (q\<lparr> xs_suspended := (awf_active_ready p st \<and> xs_pid q \<notin> awf_active_pids p) \<rparr>)"
  by (simp add: run_actions_left_suspended [OF assms(2)] awf_left_suspended [OF assms])

theorem awf_suspends_background_witness:
  "\<exists>q. xq_of (fst (run_actions (awf_Sched (awf_RecvHint awf_init (WindowActiveHint 20 1))
          (ex_status True True)) (ex_status True True, []))) 1 = Some q \<and> xs_suspended q"
proof -
  let ?p = "awf_RecvHint awf_init (WindowActiveHint 20 1)"
  have "awf_active_ready ?p (ex_status True True)"
    unfolding awf_active_ready_def
    by (rule exI [of _ 2], rule exI [of _ "ex_queue 2 20 True 2000"])
       (simp add: ex_defs awf_RecvHint_def awf_init_def)
  then show ?thesis
    using awf_suspends_background [OF wf_ex_status, of True True 1 "ex_queue 1 10 True 1000" ?p "[]"]
    by (simp add: ex_defs awf_RecvHint_def awf_init_def)
qed

text \<open>The active processes are those that own a display as long as no process owns two:
  once a process is active on two displays and another window takes one of them over, it
  loses its status although the other display still shows it.\<close>

theorem awf_loses_second_display:
  assumes "pd \<noteq> 0" "pd' \<noteq> 0" "pd \<noteq> pd'" "d1 \<noteq> d2"
  shows "let p = foldl awf_RecvHint awf_init
           [WindowActiveHint pd d1, WindowActiveHint pd d2, WindowActiveHint pd' d1] in
         awf_display_active p d2 = Some pd \<and> pd \<notin> awf_active_pids p"
  using assms by (simp add: awf_RecvHint_def awf_init_def)

theorem awf_loses_second_display_witness:
  "let p = foldl awf_RecvHint awf_init
       [WindowActiveHint 5 1, WindowActiveHint 5 2, WindowActiveHint 6 1] in
   awf_display_active p 2 = Some 5 \<and> 5 \<notin> awf_active_pids p"
  by (rule awf_loses_second_display) simp_all

end
