(* ===== verification/DeadlinePolicies.thy ===== *)
theory DeadlinePolicies
  imports PriorityPolicies
begin

text \<open>
  The two deadline-driven policies: KEDF resumes the \<open>k\<close> XQueues with the earliest
  deadlines (\<^verbatim>\<open>sched/src/policy/kedf.cpp\<close>); LAX switches an XQueue from its laxity priority
  to its critical priority when its laxity runs out, and asks for a timer at the next such
  moment (\<^verbatim>\<open>sched/src/policy/lax.cpp\<close>). The order \<^verbatim>\<open>std::sort\<close> gives to equal deadlines is
  arbitrary: \<open>env_tie\<close> ranges over all of them, since the handles are distinct.
\<close>

section \<open>KEDF\<close>

record kedf =
  kedf_k :: nat
  kedf_deadlines :: "xhandle \<rightharpoonup> int"

definition kedf_init :: kedf where
  "kedf_init = \<lparr> kedf_k = 1, kedf_deadlines = Map.empty \<rparr>"

definition kedf_deadline :: "kedf \<Rightarrow> xqueue_status \<Rightarrow> time_ns" where
  "kedf_deadline p q =
     (if \<not> xs_ready q then time_max
      else (case kedf_deadlines p (xs_handle q) of
              None \<Rightarrow> time_max
            | Some d \<Rightarrow> xs_ready_time q + us_to_ns d))"

definition kedf_entries :: "kedf \<Rightarrow> status \<Rightarrow> (xhandle \<times> time_ns) list" where
  "kedf_entries p st = map (\<lambda>(_, q). (xs_handle q, kedf_deadline p q)) (st_xqueues st)"

definition kedf_sorted :: "(xhandle \<Rightarrow> nat) \<Rightarrow> kedf \<Rightarrow> status \<Rightarrow> xhandle list" where
  "kedf_sorted tie p st =
     map fst (sort_key snd (sort_key (\<lambda>e. tie (fst e)) (kedf_entries p st)))"

definition kedf_Sched :: "sched_env \<Rightarrow> kedf \<Rightarrow> status \<Rightarrow> action list" where
  "kedf_Sched e p st =
     (let ddls = kedf_sorted (env_tie e) p st in
      map Resume (take (kedf_k p) ddls) @ map Suspend (drop (kedf_k p) ddls))"

definition kedf_RecvHint :: "kedf \<Rightarrow> hint \<Rightarrow> kedf" where
  "kedf_RecvHint p ht =
     (case ht of
        DeadlineHint h d \<Rightarrow> p\<lparr> kedf_deadlines := (kedf_deadlines p)(h \<mapsto> d) \<rparr>
      | KDeadlineHint k \<Rightarrow> (if unat k < 1 then p else p\<lparr> kedf_k := unat k \<rparr>)
      | _ \<Rightarrow> p)"

definition kedf_inv :: "kedf \<Rightarrow> bool" where
  "kedf_inv p \<longleftrightarrow> 1 \<le> kedf_k p"

definition kedf_policy :: "sched_env \<Rightarrow> kedf \<Rightarrow> status \<Rightarrow> (kedf \<times> action list) option" where
  "kedf_policy e p st = Some (p, kedf_Sched e p st)"

lemma kedf_inv_init [simp]: "kedf_inv kedf_init"
  by (simp add: kedf_inv_def kedf_init_def)

lemma kedf_inv_hint: "kedf_inv p \<Longrightarrow> kedf_inv (kedf_RecvHint p ht)"
  by (cases ht) (auto simp: kedf_inv_def kedf_RecvHint_def)

lemma kedf_entries_handles:
  assumes "wf_status st"
  shows "map fst (kedf_entries p st) = map fst (st_xqueues st)"
  by (auto simp: kedf_entries_def st_queue_iff [OF assms] wf_handle [OF assms])

lemma kedf_sorted_set:
  assumes "wf_status st"
  shows "set (kedf_sorted tie p st) = fst ` set (st_xqueues st)"
proof -
  have "set (kedf_sorted tie p st) = set (map fst (kedf_entries p st))"
    by (simp add: kedf_sorted_def)
  then show ?thesis by (simp add: kedf_entries_handles [OF assms])
qed

lemma kedf_sorted_distinct:
  assumes "wf_status st"
  shows "distinct (kedf_sorted tie p st)"
proof -
  have "mset (kedf_sorted tie p st) = mset (map fst (kedf_entries p st))"
    by (simp add: kedf_sorted_def)
  then show ?thesis
    using wf_status_keys(1) [OF assms]
    by (metis kedf_entries_handles [OF assms] mset_eq_imp_distinct_iff)
qed

lemma kedf_sorted_length [simp]: "length (kedf_sorted tie p st) = length (st_xqueues st)"
  by (simp add: kedf_sorted_def kedf_entries_def)

lemma kedf_entry:
  assumes "wf_status st" "(h, d) \<in> set (kedf_entries p st)" "xq_of st h = Some q"
  shows "d = kedf_deadline p q"
  using assms by (auto simp: kedf_entries_def st_queue_iff [OF assms(1)] dest: wf_handle)

lemma kedf_sorted_order:
  assumes wf: "wf_status st" and ij: "i < j" "j < length (st_xqueues st)"
    and q: "xq_of st (kedf_sorted tie p st ! i) = Some q"
           "xq_of st (kedf_sorted tie p st ! j) = Some q'"
  shows "kedf_deadline p q \<le> kedf_deadline p q'"
proof -
  let ?s = "sort_key snd (sort_key (\<lambda>e. tie (fst e)) (kedf_entries p st))"
  have len: "length ?s = length (st_xqueues st)" by (simp add: kedf_entries_def)
  have mem: "?s ! k \<in> set (kedf_entries p st)" if "k < length (st_xqueues st)" for k
    using that len by (metis nth_mem set_sort)
  have *: "snd (?s ! k) = kedf_deadline p r"
    if "k < length (st_xqueues st)" "xq_of st (kedf_sorted tie p st ! k) = Some r" for k r
    using that len mem [OF that(1)]
    by (intro kedf_entry [OF wf, of "fst (?s ! k)"]) (simp_all add: kedf_sorted_def)
  have "snd (?s ! i) \<le> snd (?s ! j)"
    using sorted_nth_mono [OF sorted_sort_key [of snd "sort_key (\<lambda>e. tie (fst e)) (kedf_entries p st)"],
        of i j] ij len by simp
  then show ?thesis using * ij q by simp
qed

lemma decision_resume: "decision (map Resume hs) h = (if h \<in> set hs then Some False else None)"
  by (induction hs) auto

lemma decision_suspend: "decision (map Suspend hs) h = (if h \<in> set hs then Some True else None)"
  by (induction hs) auto

lemma kedf_decision:
  assumes "wf_status st" "xq_of st h = Some q"
  shows "left_suspended st (kedf_Sched e p st) h \<longleftrightarrow>
     h \<in> set (drop (kedf_k p) (kedf_sorted (env_tie e) p st))"
proof -
  let ?s = "kedf_sorted (env_tie e) p st"
  have "h \<in> set ?s"
    using xq_of_key [OF assms(2)] by (simp add: kedf_sorted_set [OF assms(1)])
  then have "h \<in> set (take (kedf_k p) ?s) \<or> h \<in> set (drop (kedf_k p) ?s)"
    by (metis Un_iff append_take_drop_id set_append)
  then show ?thesis
    by (auto simp: left_suspended_def kedf_Sched_def Let_def decision_append decision_resume
        decision_suspend)
qed

lemma kedf_known:
  assumes "wf_status st" "decision (kedf_Sched e p st) h = Some b"
  shows "h \<in> fst ` set (st_xqueues st)"
proof -
  have "h \<in> set (kedf_sorted (env_tie e) p st)"
    using assms(2)
    by (auto simp: kedf_Sched_def Let_def decision_append decision_resume decision_suspend
        split: option.splits if_splits dest: in_set_takeD in_set_dropD)
  then show ?thesis by (simp add: kedf_sorted_set [OF assms(1)])
qed

interpretation kedf_pol: policy_iface kedf_policy "\<lambda>_. kedf_RecvHint" "\<lambda>p _. kedf_inv p"
  by unfold_locales (auto simp: kedf_policy_def kedf_inv_hint intro: kedf_known)

section \<open>LAX\<close>

record laxity_info =
  li_lax :: int
  li_lax_prio :: int
  li_crit_prio :: int

record lax =
  lax_infos :: "xhandle \<rightharpoonup> laxity_info"

definition lax_init :: lax where
  "lax_init = \<lparr> lax_infos = Map.empty \<rparr>"

definition lax_moment :: "xqueue_status \<Rightarrow> laxity_info \<Rightarrow> time_ns" where
  "lax_moment q i = xs_ready_time q + us_to_ns (li_lax i)"

text \<open>The first loop, with its three locals.\<close>

definition lax_scan :: "lax \<Rightarrow> time_ns \<Rightarrow> (xhandle \<times> xqueue_status) list
    \<Rightarrow> int \<times> bool \<times> time_ns" where
  "lax_scan p now qs =
     foldl (\<lambda>(highest, has_laxity, earliest) (_, q).
        if \<not> xs_ready q then (highest, has_laxity, earliest)
        else (case lax_infos p (xs_handle q) of
                None \<Rightarrow> (if PRIORITY_DEFAULT > highest then PRIORITY_DEFAULT else highest,
                         has_laxity, earliest)
              | Some i \<Rightarrow>
                  let laxity = lax_moment q i;
                      prio = (if now < laxity then li_lax_prio i else li_crit_prio i);
                      highest' = (if prio > highest then prio else highest) in
                  if now < laxity \<and> laxity < earliest then (highest', True, laxity)
                  else (highest', has_laxity, earliest)))
       (PRIORITY_MIN, False, time_max) qs"

definition lax_prio :: "lax \<Rightarrow> time_ns \<Rightarrow> xqueue_status \<Rightarrow> int" where
  "lax_prio p now q =
     (case lax_infos p (xs_handle q) of
        None \<Rightarrow> PRIORITY_DEFAULT
      | Some i \<Rightarrow> if \<not> xs_ready q \<or> now < lax_moment q i then li_lax_prio i else li_crit_prio i)"

definition lax_Sched :: "sched_env \<Rightarrow> lax \<Rightarrow> status \<Rightarrow> action list" where
  "lax_Sched e p st =
     (let now = env_now e;
          (highest, has_laxity, earliest) = lax_scan p now (st_xqueues st) in
      map (\<lambda>(_, q). if lax_prio p now q < highest then Suspend (xs_handle q)
                    else Resume (xs_handle q)) (st_xqueues st)
      @ (if has_laxity then [AddTimer earliest] else []))"

definition lax_RecvHint :: "lax \<Rightarrow> hint \<Rightarrow> lax" where
  "lax_RecvHint p ht =
     (case ht of
        LaxityHint h l lp cp \<Rightarrow>
          p\<lparr> lax_infos := (lax_infos p)(h \<mapsto>
               \<lparr> li_lax = (if l < 0 then NO_LAXITY else l), li_lax_prio = lp, li_crit_prio = cp \<rparr>) \<rparr>
      | _ \<Rightarrow> p)"

definition lax_policy :: "sched_env \<Rightarrow> lax \<Rightarrow> status \<Rightarrow> (lax \<times> action list) option" where
  "lax_policy e p st = Some (p, lax_Sched e p st)"

lemma lax_scan_Nil: "lax_scan p now [] = (PRIORITY_MIN, False, time_max)"
  by (simp add: lax_scan_def)

lemma lax_scan_snoc:
  "lax_scan p now (qs @ [(k, q)]) =
     (case lax_scan p now qs of (highest, has_laxity, earliest) \<Rightarrow>
        if \<not> xs_ready q then (highest, has_laxity, earliest)
        else (case lax_infos p (xs_handle q) of
                None \<Rightarrow> (max highest PRIORITY_DEFAULT, has_laxity, earliest)
              | Some i \<Rightarrow>
                  if now < lax_moment q i \<and> lax_moment q i < earliest
                  then (max highest (lax_prio p now q), True, lax_moment q i)
                  else (max highest (lax_prio p now q), has_laxity, earliest)))"
  by (auto simp: lax_scan_def Let_def lax_prio_def max_def split: option.splits prod.splits)

lemma lax_highest_bounds:
  "PRIORITY_MIN \<le> fst (lax_scan p now qs)
   \<and> (\<forall>(k, q) \<in> set qs. xs_ready q \<longrightarrow> lax_prio p now q \<le> fst (lax_scan p now qs))"
proof (induction qs rule: rev_induct)
  case (snoc e qs)
  obtain k q where e: "e = (k, q)" by (cases e)
  obtain a b c where s: "lax_scan p now qs = (a, b, c)" by (metis prod_cases3)
  show ?case using snoc
    by (cases "lax_infos p (xs_handle q)")
       (auto simp: e lax_scan_snoc s lax_prio_def max_def split: if_splits)
qed (simp add: lax_scan_Nil)

lemma lax_highest_attained:
  "fst (lax_scan p now qs) = PRIORITY_MIN
   \<or> (\<exists>(k, q) \<in> set qs. xs_ready q \<and> lax_prio p now q = fst (lax_scan p now qs))"
proof (induction qs rule: rev_induct)
  case (snoc e qs)
  obtain k q where e: "e = (k, q)" by (cases e)
  obtain a b c where s: "lax_scan p now qs = (a, b, c)" by (metis prod_cases3)
  show ?case using snoc
    by (cases "lax_infos p (xs_handle q)")
       (auto simp: e lax_scan_snoc s lax_prio_def max_def split: if_splits)
qed (simp add: lax_scan_Nil)

text \<open>The moments at which some ready XQueue turns critical.\<close>

definition lax_future :: "lax \<Rightarrow> time_ns \<Rightarrow> (xhandle \<times> xqueue_status) list \<Rightarrow> time_ns set" where
  "lax_future p now qs =
     {lax_moment q i | k q i. (k, q) \<in> set qs \<and> xs_ready q \<and> lax_infos p (xs_handle q) = Some i
        \<and> now < lax_moment q i \<and> lax_moment q i < time_max}"

lemma lax_future_Nil [simp]: "lax_future p now [] = {}"
  by (simp add: lax_future_def)

lemma lax_future_snoc:
  "lax_future p now (qs @ [(k, q)]) = lax_future p now qs \<union>
     (case lax_infos p (xs_handle q) of
        Some i \<Rightarrow> if xs_ready q \<and> now < lax_moment q i \<and> lax_moment q i < time_max
                 then {lax_moment q i} else {}
      | None \<Rightarrow> {})"
  by (auto simp: lax_future_def split: option.splits)

lemma lax_scan_earliest:
  assumes "lax_scan p now qs = (highest, has, earliest)"
  shows "(has \<longleftrightarrow> lax_future p now qs \<noteq> {})
       \<and> (has \<longrightarrow> earliest \<in> lax_future p now qs)
       \<and> (\<forall>t \<in> lax_future p now qs. earliest \<le> t) \<and> earliest \<le> time_max
       \<and> (\<not> has \<longrightarrow> earliest = time_max)"
  using assms
proof (induction qs arbitrary: highest has earliest rule: rev_induct)
  case (snoc e qs)
  obtain k q where e: "e = (k, q)" by (cases e)
  obtain a b c where s: "lax_scan p now qs = (a, b, c)" by (metis prod_cases3)
  note IH = snoc.IH [OF s]
  show ?case
  proof (cases "lax_infos p (xs_handle q)")
    case None
    then show ?thesis using snoc.prems IH
      by (auto simp: e lax_scan_snoc s lax_future_snoc split: if_splits)
  next
    case (Some i)
    then show ?thesis using snoc.prems IH
      by (auto simp: e lax_scan_snoc s lax_future_snoc split: if_splits)
  qed
qed (auto simp: lax_scan_Nil)

lemma lax_Sched_split:
  assumes "wf_status st"
  shows "\<exists>tm. lax_Sched e p st = decide_all (\<lambda>h q. lax_prio p (env_now e) q
       < fst (lax_scan p (env_now e) (st_xqueues st))) st @ tm
     \<and> (\<forall>h. decision tm h = None)"
proof -
  obtain a b c where s: "lax_scan p (env_now e) (st_xqueues st) = (a, b, c)"
    by (metis prod_cases3)
  have m: "map (\<lambda>(_, q). if lax_prio p (env_now e) q < a then Suspend (xs_handle q)
      else Resume (xs_handle q)) (st_xqueues st)
    = decide_all (\<lambda>h q. lax_prio p (env_now e) q < a) st"
    by (rule decide_by_handle [OF assms]) (auto simp: wf_handle [OF assms])
  show ?thesis
    by (rule exI [of _ "if b then [AddTimer c] else []"]) (simp add: lax_Sched_def s m)
qed

lemma lax_left_suspended:
  assumes "wf_status st" "xq_of st h = Some q"
  shows "left_suspended st (lax_Sched e p st) h \<longleftrightarrow>
     lax_prio p (env_now e) q < fst (lax_scan p (env_now e) (st_xqueues st))"
proof -
  obtain tm where tm: "lax_Sched e p st = decide_all (\<lambda>h q. lax_prio p (env_now e) q
       < fst (lax_scan p (env_now e) (st_xqueues st))) st @ tm" "\<forall>h. decision tm h = None"
    using lax_Sched_split [OF assms(1)] by blast
  then show ?thesis
    using left_suspended_decide_all [OF assms] by (simp add: left_suspended_def decision_append)
qed

lemma lax_known:
  assumes "wf_status st" "decision (lax_Sched e p st) h = Some b"
  shows "h \<in> fst ` set (st_xqueues st)"
proof -
  obtain tm sus where tm: "lax_Sched e p st = decide_all sus st @ tm" "\<forall>h. decision tm h = None"
    using lax_Sched_split [OF assms(1)] by blast
  then show ?thesis using assms by (auto simp: decision_append intro: decide_all_known)
qed

interpretation lax_pol: policy_iface lax_policy "\<lambda>_. lax_RecvHint" "\<lambda>_ _. True"
  by unfold_locales (auto simp: lax_policy_def intro: lax_known)

section \<open>Properties\<close>

text \<open>After a run of KEDF exactly the first \<open>min k n\<close> of the \<open>n\<close> XQueues run, and no
  running XQueue has a later deadline than a suspended one.\<close>

theorem kedf_runs_k_earliest:
  assumes "wf_status st"
  shows "card {h. \<exists>q. xq_of (fst (run_actions (kedf_Sched e p st) (st, ts))) h = Some q
                    \<and> \<not> xs_suspended q} = min (kedf_k p) (length (st_xqueues st))
    \<and> (\<forall>h h' q q'. xq_of st h = Some q \<longrightarrow> xq_of st h' = Some q'
        \<longrightarrow> \<not> left_suspended st (kedf_Sched e p st) h
        \<longrightarrow> left_suspended st (kedf_Sched e p st) h'
        \<longrightarrow> kedf_deadline p q \<le> kedf_deadline p q')"
proof -
  let ?s = "kedf_sorted (env_tie e) p st"
  let ?R = "{h. \<exists>q. xq_of (fst (run_actions (kedf_Sched e p st) (st, ts))) h = Some q
                    \<and> \<not> xs_suspended q}"
  have set_s: "h \<in> set ?s \<longleftrightarrow> (\<exists>q. xq_of st h = Some q)" for h
    using kedf_sorted_set [OF assms, of "env_tie e" p] by (metis domD domI dom_map_of_conv_image_fst)
  have disj: "set (take (kedf_k p) ?s) \<inter> set (drop (kedf_k p) ?s) = {}"
    by (rule set_take_disj_set_drop_if_distinct) (simp_all add: kedf_sorted_distinct [OF assms])
  have un: "set ?s = set (take (kedf_k p) ?s) \<union> set (drop (kedf_k p) ?s)"
    by (metis append_take_drop_id set_append)
  have run: "h \<in> set (take (kedf_k p) ?s) \<longleftrightarrow>
      (\<exists>q. xq_of st h = Some q) \<and> \<not> left_suspended st (kedf_Sched e p st) h" for h
    using kedf_decision [OF assms, of h _ e p] disj un set_s [of h] by blast
  have "?R = set (take (kedf_k p) ?s)"
  proof (rule set_eqI)
    fix h show "h \<in> ?R \<longleftrightarrow> h \<in> set (take (kedf_k p) ?s)"
      unfolding run by (cases "xq_of st h")
        (simp_all add: run_actions_left_suspended, simp add: run_actions_xqueue)
  qed
  then have "card ?R = min (kedf_k p) (length (st_xqueues st))"
    by (simp add: distinct_card kedf_sorted_distinct [OF assms] min.commute)
  moreover have "kedf_deadline p q \<le> kedf_deadline p q'"
    if q: "xq_of st h = Some q" "xq_of st h' = Some q'"
      and s: "\<not> left_suspended st (kedf_Sched e p st) h" "left_suspended st (kedf_Sched e p st) h'"
    for h h' q q'
  proof -
    have "h \<in> set (take (kedf_k p) ?s)" using run q s by blast
    then obtain i where i: "i < kedf_k p" "i < length (st_xqueues st)" "?s ! i = h"
      by (auto simp: in_set_conv_nth)
    have "h' \<in> set (drop (kedf_k p) ?s)" using s kedf_decision [OF assms q(2)] by blast
    then obtain j where j: "j < length (st_xqueues st) - kedf_k p" "?s ! (kedf_k p + j) = h'"
      by (auto simp: in_set_conv_nth)
    show ?thesis
      by (rule kedf_sorted_order [OF assms, of i "kedf_k p + j"]) (use i j q in auto)
  qed
  ultimately show ?thesis by blast
qed

theorem kedf_runs_k_earliest_witness:
  "card {h. \<exists>q. xq_of (fst (run_actions (kedf_Sched ex_env kedf_init (ex_status True True))
        (ex_status True True, []))) h = Some q \<and> \<not> xs_suspended q} = 1"
  using kedf_runs_k_earliest [OF wf_ex_status, of ex_env kedf_init True True "[]"]
  by (simp add: kedf_init_def ex_status_def)

text \<open>KEDF gives an idle XQueue the same latest deadline as a ready one without a
  deadline, so with one slot it can suspend the only XQueue that has work and leave the
  device to one that has none.\<close>

theorem kedf_idle_queue_takes_slot:
  "kedf_Sched ex_env kedf_init (ex_status False True) = [Resume 1, Suspend 2]"
proof -
  have "kedf_entries kedf_init (ex_status False True) = [(1, time_max), (2, time_max)]"
    by (simp add: kedf_entries_def ex_defs kedf_deadline_def kedf_init_def)
  then show ?thesis
    by (simp add: kedf_Sched_def kedf_sorted_def ex_env_def kedf_init_def)
qed

text \<open>LAX suspends an XQueue exactly when its current priority (critical once its
  laxity is over) is below the threshold, which is the highest current priority of a ready
  XQueue, or the minimum priority if that is higher.\<close>

theorem lax_suspends_below_highest:
  assumes "wf_status st" "xq_of st h = Some q"
  shows "xq_of (fst (run_actions (lax_Sched e p st) (st, ts))) h =
     Some (q\<lparr> xs_suspended :=
       (lax_prio p (env_now e) q < PRIORITY_MIN
        \<or> (\<exists>h' q'. xq_of st h' = Some q' \<and> xs_ready q'
             \<and> lax_prio p (env_now e) q < lax_prio p (env_now e) q')) \<rparr>)"
proof -
  let ?m = "fst (lax_scan p (env_now e) (st_xqueues st))"
  have "lax_prio p (env_now e) q < ?m \<longleftrightarrow> lax_prio p (env_now e) q < PRIORITY_MIN
     \<or> (\<exists>(h', q') \<in> set (st_xqueues st). xs_ready q'
          \<and> lax_prio p (env_now e) q < lax_prio p (env_now e) q')"
    using lax_highest_bounds [of p "env_now e" "st_xqueues st"]
      lax_highest_attained [of p "env_now e" "st_xqueues st"] by fastforce
  also have "(\<exists>(h', q') \<in> set (st_xqueues st). xs_ready q'
          \<and> lax_prio p (env_now e) q < lax_prio p (env_now e) q')
      \<longleftrightarrow> (\<exists>h' q'. xq_of st h' = Some q' \<and> xs_ready q'
             \<and> lax_prio p (env_now e) q < lax_prio p (env_now e) q')"
    by (rule bex_queue [OF assms(1)])
  finally show ?thesis
    by (simp add: run_actions_left_suspended [OF assms(2)] lax_left_suspended [OF assms])
qed

theorem lax_suspends_below_highest_witness:
  "\<exists>q. xq_of (fst (run_actions (lax_Sched ex_env
          (lax_RecvHint lax_init (LaxityHint 1 10 PRIORITY_NO_EXECUTE 255))
          (ex_status True False)) (ex_status True False, []))) 1 = Some q \<and> xs_suspended q"
  using lax_suspends_below_highest [OF wf_ex_status,
      of True False 1 "ex_queue 1 10 True 1000" ex_env
      "lax_RecvHint lax_init (LaxityHint 1 10 PRIORITY_NO_EXECUTE 255)" "[]"]
  by (simp add: ex_defs lax_prio_def lax_RecvHint_def lax_init_def lax_moment_def ex_env_def
      us_to_ns_def)

text \<open>LAX asks for one timer, at the earliest moment a ready XQueue turns critical, and
  for none if there is no such moment.\<close>

theorem lax_timer_is_next_critical_moment:
  "timers_of (lax_Sched e p st) =
     (let F = lax_future p (env_now e) (st_xqueues st) in if F = {} then [] else [Min F])"
proof -
  let ?F = "lax_future p (env_now e) (st_xqueues st)"
  obtain a b c where s: "lax_scan p (env_now e) (st_xqueues st) = (a, b, c)"
    by (metis prod_cases3)
  have nt: "timers_of (map (\<lambda>(_, q). if lax_prio p (env_now e) q < a then Suspend (xs_handle q)
      else Resume (xs_handle q)) qs) = []" for qs :: "(xhandle \<times> xqueue_status) list"
    by (induction qs) auto
  have fin: "finite (lax_future p (env_now e) qs)" for qs :: "(xhandle \<times> xqueue_status) list"
  proof (induction qs rule: rev_induct)
    case (snoc x xs)
    then show ?case by (cases x) (auto simp: lax_future_snoc split: option.splits)
  qed simp
  note E = lax_scan_earliest [OF s]
  have "b \<Longrightarrow> c = Min ?F" using E fin by (metis Min_eqI)
  then show ?thesis using E by (cases b) (simp_all add: lax_Sched_def s nt Let_def)
qed

end
