(* ===== verification/UtilizationPolicy.thy ===== *)
theory UtilizationPolicy
  imports PriorityPolicies
begin

text \<open>
  UP (\<^verbatim>\<open>sched/src/policy/up.cpp\<close>): the XQueues that were given a utilization take turns;
  each turn lasts its share of the time slice. The table of utilizations is a
  \<^verbatim>\<open>std::map\<close> whose order is the order of the turns. The lemmas show that the assertion of
  the code never fails, that a switch leaves exactly the chosen XQueue running, and that
  the turn goes to the next ready XQueue in cyclic order.
\<close>

record up =
  up_cur_running :: xhandle
  up_cur_end :: time_ns
  up_utils :: "(xhandle \<times> int) list"
  up_timeslice :: int

definition up_init :: up where
  "up_init = \<lparr> up_cur_running = 0, up_cur_end = 0, up_utils = [],
     up_timeslice = TIMESLICE_DEFAULT \<rparr>"

section \<open>Operations\<close>

definition up_GetBudget :: "up \<Rightarrow> int \<Rightarrow> int" where
  "up_GetBudget p util =
     (let total_util = sum_list (map snd (up_utils p)); totalUs = up_timeslice p in
      if total_util = 0 then TIMESLICE_DEFAULT else tdiv (totalUs * util) total_util)"

text \<open>\<^verbatim>\<open>SwitchToAny\<close>: the loop over the status with the flag \<^verbatim>\<open>selected\<close>.\<close>

fun up_any_step :: "sched_env \<Rightarrow> up \<times> bool \<times> action list \<Rightarrow> xhandle \<times> xqueue_status
    \<Rightarrow> up \<times> bool \<times> action list" where
  "up_any_step e (p, selected, acts) (h, q) =
     (if selected \<or> \<not> xs_ready q then (p, selected, acts @ [Suspend h])
      else (case map_of (up_utils p) h of
              None \<Rightarrow> (p, selected, acts @ [Suspend h])
            | Some u \<Rightarrow>
                (let t_end = env_now2 e + us_to_ns (up_GetBudget p u) in
                 (p\<lparr> up_cur_running := h, up_cur_end := t_end \<rparr>, True,
                  acts @ [Resume h, AddTimer t_end]))))"

definition up_SwitchToAny :: "sched_env \<Rightarrow> up \<Rightarrow> status \<Rightarrow> up \<times> action list" where
  "up_SwitchToAny e p st =
     (let (p', _, acts) =
            foldl (up_any_step e) (p\<lparr> up_cur_running := 0 \<rparr>, False, []) (st_xqueues st)
      in (p', acts))"

definition up_SwitchTo ::
    "sched_env \<Rightarrow> up \<Rightarrow> xhandle \<Rightarrow> int \<Rightarrow> status \<Rightarrow> up \<times> action list" where
  "up_SwitchTo e p h util st =
     (let t_end = env_now2 e + us_to_ns (up_GetBudget p util) in
      (p\<lparr> up_cur_running := h, up_cur_end := t_end \<rparr>,
       map (\<lambda>(h', _). Suspend h') (filter (\<lambda>(h', _). h' \<noteq> h) (st_xqueues st))
         @ [Resume h, AddTimer t_end]))"

text \<open>One of the two search loops of \<^verbatim>\<open>Sched\<close> over a stretch of the table: it erases the
  entries of vanished XQueues on its way and stops at the first ready one.\<close>

fun up_scan :: "status \<Rightarrow> (xhandle \<times> int) list \<Rightarrow> xhandle list \<times> (xhandle \<times> int) option" where
  "up_scan st [] = ([], None)"
| "up_scan st ((h, u) # rest) =
     (case xq_of st h of
        None \<Rightarrow> (let (er, r) = up_scan st rest in (h # er, r))
      | Some q \<Rightarrow> if \<not> xs_ready q then up_scan st rest else ([], Some (h, u)))"

definition up_erase :: "xhandle list \<Rightarrow> up \<Rightarrow> up" where
  "up_erase hs p = p\<lparr> up_utils := filter (\<lambda>(h, _). h \<notin> set hs) (up_utils p) \<rparr>"

definition up_Sched :: "sched_env \<Rightarrow> up \<Rightarrow> status \<Rightarrow> (up \<times> action list) option" where
  "up_Sched e p0 st =
     (let known = (\<lambda>h. xq_of st h \<noteq> None);
          p1 = p0\<lparr> up_utils := filter (\<lambda>(h, _). known h) (up_utils p0) \<rparr>;
          p = (if up_cur_running p1 \<noteq> 0 \<and> \<not> known (up_cur_running p1)
               then p1\<lparr> up_cur_running := 0 \<rparr> else p1);
          cur = up_cur_running p in
      if up_utils p = [] then Some (p, [])
      else if cur = 0 then Some (up_SwitchToAny e p st)
      else (case xq_of st cur of
          None \<Rightarrow>
            (case map_of (up_utils p) cur of None \<Rightarrow> None
             | Some _ \<Rightarrow> Some (up_SwitchToAny e (up_erase [cur] p) st))
        | Some q \<Rightarrow>
            if env_now e < up_cur_end p \<and> xs_ready q then Some (p, [])
            else (case map_of (up_utils p) cur of None \<Rightarrow> None
             | Some _ \<Rightarrow>
               (let (er1, r1) = up_scan st (tl (dropWhile (\<lambda>(h, _). h \<noteq> cur) (up_utils p)));
                    p2 = up_erase er1 p in
                case r1 of Some (h, u) \<Rightarrow> Some (up_SwitchTo e p2 h u st)
                | None \<Rightarrow>
                  (let (er2, r2) = up_scan st (takeWhile (\<lambda>(h, _). h \<noteq> cur) (up_utils p2));
                       p3 = up_erase er2 p2 in
                   case r2 of Some (h, u) \<Rightarrow> Some (up_SwitchTo e p3 h u st)
                   | None \<Rightarrow> Some (p3\<lparr> up_cur_running := 0 \<rparr>, []))))))"

definition up_RecvHint :: "up \<Rightarrow> hint \<Rightarrow> up" where
  "up_RecvHint p ht =
     (case ht of
        UtilizationHint _ h util \<Rightarrow>
          if util < UTILIZATION_MIN \<or> util > UTILIZATION_MAX then p
          else p\<lparr> up_utils := omap_set h util (up_utils p) \<rparr>
      | TimesliceHint ts \<Rightarrow> p\<lparr> up_timeslice := ts \<rparr>
      | _ \<Rightarrow> p)"

section \<open>Invariant\<close>

definition up_inv :: "up \<Rightarrow> bool" where
  "up_inv p \<longleftrightarrow> omap_ok (up_utils p)
     \<and> (\<forall>(h, u) \<in> set (up_utils p). UTILIZATION_MIN \<le> u \<and> u \<le> UTILIZATION_MAX)
     \<and> (up_cur_running p \<noteq> 0 \<longrightarrow> up_cur_running p \<in> fst ` set (up_utils p))"

lemma up_init_inv [simp]: "up_inv up_init"
  by (simp add: up_inv_def up_init_def)

lemma omap_set_set: "set (omap_set k v xs) \<subseteq> insert (k, v) (set xs)"
  by (induction k v xs rule: omap_set.induct) auto

lemma up_inv_hint:
  assumes "up_inv p"
  shows "up_inv (up_RecvHint p ht)"
proof (cases ht)
  case (UtilizationHint pd h u)
  show ?thesis
  proof (cases "u < UTILIZATION_MIN \<or> u > UTILIZATION_MAX")
    case False
    have "UTILIZATION_MIN \<le> u' \<and> u' \<le> UTILIZATION_MAX"
      if "(h', u') \<in> set (omap_set h u (up_utils p))" for h' u'
      using that omap_set_set [of h u "up_utils p"] assms False by (auto simp: up_inv_def)
    then show ?thesis
      using assms False by (auto simp: UtilizationHint up_RecvHint_def up_inv_def omap_simps)
  qed (use assms in \<open>simp add: UtilizationHint up_RecvHint_def\<close>)
qed (use assms in \<open>auto simp: up_RecvHint_def up_inv_def\<close>)

text \<open>The table after the purge of vanished XQueues.\<close>

definition up_purge :: "status \<Rightarrow> up \<Rightarrow> up" where
  "up_purge st p0 =
     (let p1 = p0\<lparr> up_utils := filter (\<lambda>(h, _). xq_of st h \<noteq> None) (up_utils p0) \<rparr> in
      if up_cur_running p1 \<noteq> 0 \<and> \<not> xq_of st (up_cur_running p1) \<noteq> None
      then p1\<lparr> up_cur_running := 0 \<rparr> else p1)"

lemma up_purge_inv:
  assumes "up_inv p"
  shows "up_inv (up_purge st p)"
proof -
  have "up_cur_running p \<in> fst ` {x \<in> set (up_utils p). case x of (h, _) \<Rightarrow> xq_of st h \<noteq> None}"
    if "up_cur_running p \<noteq> 0" "xq_of st (up_cur_running p) \<noteq> None"
    using assms that by (force simp: up_inv_def)
  then show ?thesis
    using assms by (auto simp: up_inv_def up_purge_def Let_def omap_simps)
qed

lemma up_purge_known:
  "(h, u) \<in> set (up_utils (up_purge st p)) \<Longrightarrow> \<exists>q. xq_of st h = Some q"
  by (auto simp: up_purge_def Let_def split: if_splits)

text \<open>After the purge the search loops erase nothing.\<close>

lemma up_scan_known:
  assumes "\<And>h u. (h, u) \<in> set us \<Longrightarrow> \<exists>q. xq_of st h = Some q"
  shows "up_scan st us = ([], find (\<lambda>(h, _). \<exists>q. xq_of st h = Some q \<and> xs_ready q) us)"
  using assms
proof (induction us)
  case (Cons e us)
  obtain h u where e: "e = (h, u)" by (cases e)
  obtain q where q: "xq_of st h = Some q" using Cons.prems [of h u] by (auto simp: e)
  have "up_scan st us = ([], find (\<lambda>(h, _). \<exists>q. xq_of st h = Some q \<and> xs_ready q) us)"
    by (rule Cons.IH) (use Cons.prems in auto)
  then show ?case by (simp add: e q)
qed simp

lemma up_erase_Nil [simp]: "up_erase [] p = p"
  by (simp add: up_erase_def)

text \<open>The order of the turns after the current XQueue.\<close>

definition up_turns :: "up \<Rightarrow> (xhandle \<times> int) list" where
  "up_turns p = tl (dropWhile (\<lambda>(h, _). h \<noteq> up_cur_running p) (up_utils p))
     @ takeWhile (\<lambda>(h, _). h \<noteq> up_cur_running p) (up_utils p)"

definition up_next :: "status \<Rightarrow> up \<Rightarrow> (xhandle \<times> int) option" where
  "up_next st p = find (\<lambda>(h, _). \<exists>q. xq_of st h = Some q \<and> xs_ready q) (up_turns p)"

text \<open>What \<^verbatim>\<open>Sched\<close> does, once the purge is done: the assertions hold and the two loops are
  one search in the order of the turns.\<close>

lemma up_Sched_eq:
  assumes "up_inv p0"
  shows "up_Sched e p0 st =
     (let p = up_purge st p0; cur = up_cur_running p in
      if up_utils p = [] then Some (p, [])
      else if cur = 0 then Some (up_SwitchToAny e p st)
      else if env_now e < up_cur_end p \<and> (\<exists>q. xq_of st cur = Some q \<and> xs_ready q) then Some (p, [])
      else (case up_next st p of
              Some (h, u) \<Rightarrow> Some (up_SwitchTo e p h u st)
            | None \<Rightarrow> Some (p\<lparr> up_cur_running := 0 \<rparr>, [])))"
proof -
  let ?p = "up_purge st p0"
  let ?cur = "up_cur_running ?p"
  have inv: "up_inv ?p" by (rule up_purge_inv [OF assms])
  have def: "up_Sched e p0 st =
     (let p = ?p; cur = up_cur_running p in
      if up_utils p = [] then Some (p, [])
      else if cur = 0 then Some (up_SwitchToAny e p st)
      else (case xq_of st cur of
          None \<Rightarrow>
            (case map_of (up_utils p) cur of None \<Rightarrow> None
             | Some _ \<Rightarrow> Some (up_SwitchToAny e (up_erase [cur] p) st))
        | Some q \<Rightarrow>
            if env_now e < up_cur_end p \<and> xs_ready q then Some (p, [])
            else (case map_of (up_utils p) cur of None \<Rightarrow> None
             | Some _ \<Rightarrow>
               (let (er1, r1) = up_scan st (tl (dropWhile (\<lambda>(h, _). h \<noteq> cur) (up_utils p)));
                    p2 = up_erase er1 p in
                case r1 of Some (h, u) \<Rightarrow> Some (up_SwitchTo e p2 h u st)
                | None \<Rightarrow>
                  (let (er2, r2) = up_scan st (takeWhile (\<lambda>(h, _). h \<noteq> cur) (up_utils p2));
                       p3 = up_erase er2 p2 in
                   case r2 of Some (h, u) \<Rightarrow> Some (up_SwitchTo e p3 h u st)
                   | None \<Rightarrow> Some (p3\<lparr> up_cur_running := 0 \<rparr>, []))))))"
    unfolding up_Sched_def up_purge_def Let_def by (rule refl)
  show ?thesis
  proof (cases "up_utils ?p = [] \<or> ?cur = 0")
    case True
    then show ?thesis by (auto simp: def Let_def)
  next
    case False
    then have "?cur \<in> fst ` set (up_utils ?p)" using inv by (simp add: up_inv_def)
    then obtain u where u: "(?cur, u) \<in> set (up_utils ?p)" by auto
    then obtain q where q: "xq_of st ?cur = Some q" using up_purge_known by blast
    have ne: "map_of (up_utils ?p) ?cur \<noteq> None"
      using u by (metis eq_fst_iff image_iff map_of_eq_None_iff)
    then obtain v where v: "map_of (up_utils ?p) ?cur = Some v" by blast
    have k1: "\<exists>q. xq_of st h = Some q"
      if "(h, w) \<in> set (tl (dropWhile (\<lambda>(h, _). h \<noteq> ?cur) (up_utils ?p)))" for h w
      using that set_dropWhileD [of "(h, w)"]
      by (intro up_purge_known [of h w st p0]) (auto dest: in_set_tlD)
    have k2: "\<exists>q. xq_of st h = Some q"
      if "(h, w) \<in> set (takeWhile (\<lambda>(h, _). h \<noteq> ?cur) (up_utils ?p))" for h w
      using that by (intro up_purge_known [of h w st p0]) (rule set_takeWhileD [THEN conjunct1])
    show ?thesis
      using False
      by (simp add: def Let_def q v up_scan_known [OF k1] up_scan_known [OF k2]
          up_next_def up_turns_def find_append split: option.splits)
  qed
qed

section \<open>Effect of a switch\<close>

lemma up_any_selected:
  "foldl (up_any_step e) (p, True, acts) qs = (p, True, acts @ map (\<lambda>(h, _). Suspend h) qs)"
  by (induction qs arbitrary: acts) auto

definition up_one :: "xhandle \<Rightarrow> time_ns \<Rightarrow> (xhandle \<times> xqueue_status) list \<Rightarrow> action list" where
  "up_one h t qs =
     concat (map (\<lambda>(h', _). if h' = h then [Resume h, AddTimer t] else [Suspend h']) qs)"

lemma up_one_other: "h \<notin> fst ` set qs \<Longrightarrow> up_one h t qs = map (\<lambda>(h', _). Suspend h') qs"
  by (induction qs) (auto simp: up_one_def)

definition up_eligible :: "up \<Rightarrow> xhandle \<times> xqueue_status \<Rightarrow> bool" where
  "up_eligible p x \<longleftrightarrow> xs_ready (snd x) \<and> map_of (up_utils p) (fst x) \<noteq> None"

lemma up_any_fold:
  assumes "distinct (map fst qs)"
  shows "foldl (up_any_step e) (p, False, acts) qs =
     (case find (up_eligible p) qs of
        None \<Rightarrow> (p, False, acts @ map (\<lambda>(h, _). Suspend h) qs)
      | Some (h, q) \<Rightarrow>
          let t = env_now2 e + us_to_ns (up_GetBudget p (the (map_of (up_utils p) h))) in
          (p\<lparr> up_cur_running := h, up_cur_end := t \<rparr>, True, acts @ up_one h t qs))"
  using assms
proof (induction qs arbitrary: acts)
  case (Cons x qs)
  obtain h q where x: "x = (h, q)" by (cases x)
  have h: "h \<notin> fst ` set qs" and d: "distinct (map fst qs)" using Cons.prems by (auto simp: x)
  show ?case
  proof (cases "up_eligible p x")
    case True
    then obtain u where "map_of (up_utils p) h = Some u" "xs_ready q"
      by (auto simp: up_eligible_def x)
    then show ?thesis
      using True up_one_other [OF h]
      by (simp add: x Let_def up_any_selected) (simp add: up_one_def)
  next
    case False
    then have st: "up_any_step e (p, False, acts) x = (p, False, acts @ [Suspend h])"
      by (auto simp: x up_eligible_def split: option.splits)
    have "fst y \<noteq> h" if "find (up_eligible p) qs = Some y" for y
      using find_SomeD [OF that] h by (metis image_eqI)
    moreover have "foldl (up_any_step e) (p, False, acts) (x # qs) =
        foldl (up_any_step e) (p, False, acts @ [Suspend h]) qs"
      by (simp only: foldl.simps st)
    ultimately show ?thesis
      unfolding Cons.IH [OF d] using False
      by (cases "find (up_eligible p) qs")
         (auto simp: x up_one_def Let_def simp del: foldl.simps split: prod.splits)
  qed
qed simp

lemma up_one_decision:
  "decision (up_one h t qs) k = (if k \<in> fst ` set qs then Some (k \<noteq> h) else None)"
  by (induction qs) (auto simp: up_one_def decision_append split: option.splits)

lemma suspend_others_decision:
  "decision (map (\<lambda>(h', _). Suspend h') (filter (\<lambda>(h', _). h' \<noteq> h) qs)) k =
     (if k \<in> fst ` set qs \<and> k \<noteq> h then Some True else None)"
  by (induction qs) (auto split: option.splits)

lemma suspend_all_decision:
  "decision (map (\<lambda>(h, _). Suspend h) qs) k = (if k \<in> fst ` set qs then Some True else None)"
  by (induction qs) (auto split: option.splits)

text \<open>A switch: \<open>SwitchToAny\<close> runs an eligible XQueue if there is one and suspends the rest;
  \<open>SwitchTo\<close> runs the given one and suspends the rest.\<close>

lemma up_SwitchToAny_effect:
  assumes "wf_status st" "up_SwitchToAny e p st = (p', acts)"
  shows "up_utils p' = up_utils p"
    and "up_cur_running p' \<noteq> 0 \<Longrightarrow> up_cur_running p' \<in> fst ` set (up_utils p)"
    and "k \<in> fst ` set (st_xqueues st) \<Longrightarrow>
      decision acts k = Some (case find (up_eligible p) (st_xqueues st) of
                                None \<Rightarrow> True | Some (h, _) \<Rightarrow> k \<noteq> h)"
    and "k \<notin> fst ` set (st_xqueues st) \<Longrightarrow> decision acts k = None"
    and "find (up_eligible p) (st_xqueues st) = Some (h, q) \<Longrightarrow> up_cur_running p' = h"
    and "find (up_eligible p) (st_xqueues st) = None \<Longrightarrow> up_cur_running p' = 0"
proof -
  have elig: "up_eligible (p\<lparr> up_cur_running := 0 \<rparr>) = up_eligible p"
    by (auto simp: fun_eq_iff up_eligible_def)
  note F = up_any_fold [OF wf_status_keys(1) [OF assms(1)], of e "p\<lparr> up_cur_running := 0 \<rparr>" "[]",
      unfolded elig]
  have none: "p' = p\<lparr> up_cur_running := 0 \<rparr> \<and> acts = map (\<lambda>(h, _). Suspend h) (st_xqueues st)"
    if "find (up_eligible p) (st_xqueues st) = None"
    using assms(2) by (simp add: up_SwitchToAny_def F that)
  have some: "\<exists>t. p' = p\<lparr> up_cur_running := h, up_cur_end := t \<rparr>
      \<and> acts = up_one h t (st_xqueues st)"
    if "find (up_eligible p) (st_xqueues st) = Some (h, q)" for h q
    using assms(2) by (auto simp: up_SwitchToAny_def F that Let_def)
  have "up_utils p' = up_utils p
    \<and> (up_cur_running p' \<noteq> 0 \<longrightarrow> up_cur_running p' \<in> fst ` set (up_utils p))
    \<and> (\<forall>k. decision acts k = (if k \<in> fst ` set (st_xqueues st)
          then Some (case find (up_eligible p) (st_xqueues st) of
                       None \<Rightarrow> True | Some (h, _) \<Rightarrow> k \<noteq> h) else None))"
  proof (cases "find (up_eligible p) (st_xqueues st)")
    case None
    then show ?thesis using none by (simp add: suspend_all_decision)
  next
    case (Some x)
    obtain h' q' where x: "x = (h', q')" by (cases x)
    obtain t where t: "p' = p\<lparr> up_cur_running := h', up_cur_end := t \<rparr>"
      "acts = up_one h' t (st_xqueues st)"
      using some [of h' q'] Some x by blast
    have "map_of (up_utils p) h' \<noteq> None"
      using find_SomeD [OF Some] by (simp add: x up_eligible_def)
    then have "h' \<in> fst ` set (up_utils p)" by (simp add: map_of_eq_None_iff)
    then show ?thesis using t Some x by (simp add: up_one_decision)
  qed
  then show "up_utils p' = up_utils p"
    and "up_cur_running p' \<noteq> 0 \<Longrightarrow> up_cur_running p' \<in> fst ` set (up_utils p)"
    and "k \<in> fst ` set (st_xqueues st) \<Longrightarrow>
      decision acts k = Some (case find (up_eligible p) (st_xqueues st) of
                                None \<Rightarrow> True | Some (h, _) \<Rightarrow> k \<noteq> h)"
    and "k \<notin> fst ` set (st_xqueues st) \<Longrightarrow> decision acts k = None"
    by simp_all
  show "up_cur_running p' = h" if "find (up_eligible p) (st_xqueues st) = Some (h, q)"
    using some [OF that] by auto
  show "up_cur_running p' = 0" if "find (up_eligible p) (st_xqueues st) = None"
    using none [OF that] by simp
qed

lemma up_SwitchTo_effect:
  assumes "up_SwitchTo e p h u st = (p', acts)" "h \<in> fst ` set (st_xqueues st)"
  shows "up_utils p' = up_utils p" "up_cur_running p' = h"
    and "k \<in> fst ` set (st_xqueues st) \<Longrightarrow> decision acts k = Some (k \<noteq> h)"
    and "k \<notin> fst ` set (st_xqueues st) \<Longrightarrow> decision acts k = None"
proof -
  let ?t = "env_now2 e + us_to_ns (up_GetBudget p u)"
  have p': "p' = p\<lparr> up_cur_running := h, up_cur_end := ?t \<rparr>"
    and acts: "acts = map (\<lambda>(h', _). Suspend h') (filter (\<lambda>(h', _). h' \<noteq> h) (st_xqueues st))
       @ [Resume h, AddTimer ?t]"
    using assms(1) by (simp_all add: up_SwitchTo_def Let_def)
  show "up_utils p' = up_utils p" "up_cur_running p' = h" by (simp_all add: p')
  have d: "decision acts k = (if k = h then Some False
      else if k \<in> fst ` set (st_xqueues st) then Some True else None)"
    by (simp add: acts decision_append suspend_others_decision)
  show "decision acts k = Some (k \<noteq> h)" if "k \<in> fst ` set (st_xqueues st)"
    unfolding d by (simp add: that)
  show "decision acts k = None" if "k \<notin> fst ` set (st_xqueues st)"
  proof -
    have "k \<noteq> h" using that assms(2) by metis
    then show ?thesis unfolding d using that by simp
  qed
qed

lemma up_next_eligible:
  assumes "up_next st p = Some (h, u)"
  shows "(h, u) \<in> set (up_utils p)" "\<exists>q. xq_of st h = Some q \<and> xs_ready q"
proof -
  have "(h, u) \<in> set (up_turns p)" and r: "\<exists>q. xq_of st h = Some q \<and> xs_ready q"
    using find_SomeD [OF assms [unfolded up_next_def]] by simp_all
  then show "(h, u) \<in> set (up_utils p)"
    by (auto simp: up_turns_def dest!: in_set_tlD dest: set_dropWhileD set_takeWhileD)
  show "\<exists>q. xq_of st h = Some q \<and> xs_ready q" by (rule r)
qed

section \<open>The contract\<close>

lemma up_Sched_inv:
  assumes "wf_status st" "up_inv p0" "up_Sched e p0 st = Some (p', acts)"
  shows "up_inv p'" and "decision acts k = Some b \<Longrightarrow> k \<in> fst ` set (st_xqueues st)"
proof -
  let ?p = "up_purge st p0"
  have inv: "up_inv ?p" by (rule up_purge_inv [OF assms(2)])
  from assms(3) consider
      "p' = ?p" "acts = []"
    | "up_SwitchToAny e ?p st = (p', acts)"
    | h u where "up_next st ?p = Some (h, u)" "up_SwitchTo e ?p h u st = (p', acts)"
    | "p' = ?p\<lparr> up_cur_running := 0 \<rparr>" "acts = []"
    by (auto simp: up_Sched_eq [OF assms(2)] Let_def split: if_splits option.splits)
  then have "up_inv p' \<and> (\<forall>k b. decision acts k = Some b \<longrightarrow> k \<in> fst ` set (st_xqueues st))"
  proof cases
    case 2
    note E = up_SwitchToAny_effect [OF assms(1) 2]
    have "k \<in> fst ` set (st_xqueues st)" if "decision acts k = Some b" for k b
      using E(4) [of k] that by (metis option.distinct(1))
    then show ?thesis using inv E(1,2) by (auto simp: up_inv_def)
  next
    case 3
    have "h \<in> fst ` set (st_xqueues st)"
      using up_next_eligible(2) [OF 3(1)] xq_of_key by blast
    note E = up_SwitchTo_effect [OF 3(2) this]
    have "k \<in> fst ` set (st_xqueues st)" if "decision acts k = Some b" for k b
      using E(4) [of k] that by (metis option.distinct(1))
    moreover have "h \<in> fst ` set (up_utils ?p)" using up_next_eligible(1) [OF 3(1)] by force
    ultimately show ?thesis using inv E(1,2) by (auto simp: up_inv_def)
  qed (use inv in \<open>auto simp: up_inv_def\<close>)
  then show "up_inv p'" "decision acts k = Some b \<Longrightarrow> k \<in> fst ` set (st_xqueues st)" by auto
qed

lemma up_Sched_total: "up_inv p \<Longrightarrow> \<exists>p' acts. up_Sched e p st = Some (p', acts)"
  by (simp add: up_Sched_eq Let_def split: option.splits)

interpretation up_pol: policy_iface up_Sched "\<lambda>_. up_RecvHint" "\<lambda>p _. up_inv p"
  by unfold_locales (auto intro: up_Sched_total up_inv_hint dest: up_Sched_inv)

section \<open>Properties\<close>

lemma up_Sched_cases:
  assumes "up_inv p0" "up_Sched e p0 st = Some (p', acts)"
  obtains (stay) "p' = up_purge st p0" "acts = []"
    | (any) "up_SwitchToAny e (up_purge st p0) st = (p', acts)"
    | (next_turn) h u where "up_next st (up_purge st p0) = Some (h, u)"
        "up_SwitchTo e (up_purge st p0) h u st = (p', acts)"
    | (none) "p' = (up_purge st p0)\<lparr> up_cur_running := 0 \<rparr>" "acts = []"
  using assms(2)
  by (auto simp: up_Sched_eq [OF assms(1)] Let_def split: if_splits option.splits)

text \<open>When a run of UP changes anything it leaves exactly its current XQueue running and
  every other one suspended (all of them if there is no current one).\<close>

theorem up_switch_runs_only_current:
  assumes "wf_status st" "up_inv p" "up_Sched e p st = Some (p', acts)" "acts \<noteq> []"
    and "xq_of st k = Some q" "k \<noteq> 0"
  shows "xq_of (fst (run_actions acts (st, ts))) k =
     Some (q\<lparr> xs_suspended := (k \<noteq> up_cur_running p') \<rparr>)"
proof -
  have k: "k \<in> fst ` set (st_xqueues st)" by (rule xq_of_key [OF assms(5)])
  have "decision acts k = Some (k \<noteq> up_cur_running p')"
    using assms(2,3)
  proof (cases rule: up_Sched_cases)
    case any
    note E = up_SwitchToAny_effect [OF assms(1) any]
    show ?thesis
      using E(3) [OF k] E(5,6) assms(6)
      by (cases "find (up_eligible (up_purge st p)) (st_xqueues st)") auto
  next
    case (next_turn h u)
    have "h \<in> fst ` set (st_xqueues st)"
      using up_next_eligible(2) [OF next_turn(1)] xq_of_key by blast
    from up_SwitchTo_effect [OF next_turn(2) this] k show ?thesis by simp
  qed (use assms(4) in simp_all)
  then show ?thesis
    by (simp add: run_actions_left_suspended [OF assms(5)] left_suspended_def)
qed

definition ex_up :: up where
  "ex_up = foldl up_RecvHint up_init [UtilizationHint 0 1 30, UtilizationHint 0 2 70]"

lemma ex_up_simp: "ex_up = \<lparr> up_cur_running = 0, up_cur_end = 0, up_utils = [(1, 30), (2, 70)],
    up_timeslice = 5000 \<rparr>"
  by (simp add: ex_up_def up_RecvHint_def up_init_def)

lemma ex_up_inv [simp]: "up_inv ex_up"
  by (simp add: ex_up_simp up_inv_def)

lemma ex_up_run:
  "up_Sched ex_env ex_up (ex_status True True) =
     Some (ex_up\<lparr> up_cur_running := 1, up_cur_end := 1500000 \<rparr>,
           [Resume 1, AddTimer 1500000, Suspend 2])"
  by (simp add: up_Sched_def ex_up_simp ex_defs up_SwitchToAny_def up_GetBudget_def ex_env_def
      us_to_ns_def tdiv_def sgn_if)

theorem up_switch_runs_only_current_witness:
  "xq_of (fst (run_actions [Resume 1, AddTimer 1500000, Suspend 2] (ex_status True True, []))) 2 =
     Some ((ex_queue 2 20 True 2000)\<lparr> xs_suspended := True \<rparr>)"
  using up_switch_runs_only_current [OF wf_ex_status ex_up_inv ex_up_run,
      of 2 "ex_queue 2 20 True 2000" "[]"]
  by (simp add: ex_status_def)

text \<open>The turn goes to the next ready XQueue in the cyclic order of the table, for its
  share of the time slice: the ones it skips have no work.\<close>

theorem up_turn_goes_to_next_ready:
  assumes "up_inv p" "\<forall>(h', u') \<in> set (up_utils p). xq_of st h' \<noteq> None"
    and "up_cur_running p \<noteq> 0"
    and "env_now e \<ge> up_cur_end p \<or> xq_of st (up_cur_running p) = Some q \<and> \<not> xs_ready q"
    and "up_turns p = before @ (h, u) # after"
    and "\<forall>(h', u') \<in> set before. \<forall>q'. xq_of st h' = Some q' \<longrightarrow> \<not> xs_ready q'"
    and "xq_of st h = Some qh" "xs_ready qh"
  shows "\<exists>acts. up_Sched e p st =
     Some (p\<lparr> up_cur_running := h,
             up_cur_end := env_now2 e + us_to_ns (up_GetBudget p u) \<rparr>, acts)"
proof -
  have filt: "filter (\<lambda>(h, _). xq_of st h \<noteq> None) (up_utils p) = up_utils p"
    using assms(2) by (auto simp: filter_id_conv)
  have cur: "xq_of st (up_cur_running p) \<noteq> None"
    using assms(1,2,3) by (auto simp: up_inv_def)
  have purge: "up_purge st p = p"
    using filt cur by (simp add: up_purge_def Let_def)
  have "find (\<lambda>(h, _). \<exists>q. xq_of st h = Some q \<and> xs_ready q) before = None"
    using assms(6) by (auto simp: find_None_iff)
  then have nx: "up_next st p = Some (h, u)"
    unfolding up_next_def assms(5) find_append using assms(7,8) by simp
  have "up_utils p \<noteq> []" using assms(1,3) by (auto simp: up_inv_def)
  moreover have over: "(env_now e < up_cur_end p
      \<and> (\<exists>q. xq_of st (up_cur_running p) = Some q \<and> xs_ready q)) = False"
    using assms(4) by auto
  ultimately show ?thesis
    using assms(3) by (simp add: up_Sched_eq [OF assms(1)] purge Let_def nx up_SwitchTo_def over
      del: ex_simps)
qed

theorem up_turn_goes_to_next_ready_witness:
  "\<exists>acts. up_Sched (ex_env\<lparr> env_now := 2000000, env_now2 := 2000000 \<rparr>)
       (ex_up\<lparr> up_cur_running := 1, up_cur_end := 1500000 \<rparr>) (ex_status True True) =
     Some (ex_up\<lparr> up_cur_running := 2, up_cur_end := 5500000 \<rparr>, acts)"
  using up_turn_goes_to_next_ready
    [of "ex_up\<lparr> up_cur_running := 1, up_cur_end := 1500000 \<rparr>" "ex_status True True"
        "ex_env\<lparr> env_now := 2000000, env_now2 := 2000000 \<rparr>" "ex_queue 1 10 True 1000"
        "[]" 2 70 "[]" "ex_queue 2 20 True 2000"]
  by (simp add: ex_up_simp ex_status_def ex_queue_def up_inv_def up_turns_def up_GetBudget_def us_to_ns_def
      tdiv_def sgn_if)

text \<open>The turns of one round fit into the time slice: every budget is between 0 and
  the time slice, and their sum does not exceed it.\<close>

theorem up_budgets_fit_timeslice:
  assumes "up_inv p" "0 \<le> up_timeslice p" "sum_list (map snd (up_utils p)) \<noteq> 0"
  shows "sum_list (map (\<lambda>(_, u). up_GetBudget p u) (up_utils p)) \<le> up_timeslice p
     \<and> (\<forall>(h, u) \<in> set (up_utils p). 0 \<le> up_GetBudget p u \<and> up_GetBudget p u \<le> up_timeslice p)"
proof -
  let ?T = "up_timeslice p" and ?S = "sum_list (map snd (up_utils p))"
  have nn: "\<And>u. u \<in> snd ` set (up_utils p) \<Longrightarrow> 0 \<le> u" using assms(1) by (auto simp: up_inv_def)
  have "0 \<le> ?S" by (rule sum_list_nonneg) (use nn in auto)
  then have S: "0 < ?S" using assms(3) by simp
  have b: "up_GetBudget p u = ?T * u div ?S" if "0 \<le> u" for u
    using assms(2,3) S that by (simp add: up_GetBudget_def Let_def tdiv_nonneg)
  have le: "?S * sum_list (map (\<lambda>(_, u). up_GetBudget p u) us) \<le> ?T * sum_list (map snd us)"
    if "\<And>u. u \<in> snd ` set us \<Longrightarrow> 0 \<le> u" for us :: "(xhandle \<times> int) list"
    using that
  proof (induction us)
    case (Cons x us)
    have "?S * up_GetBudget p (snd x) \<le> ?T * snd x"
      using Cons.prems [of "snd x"] by (simp add: b) (metis S mult.commute mult_div_mod_eq
          add.commute le_add_same_cancel1 pos_mod_sign)
    then show ?case using Cons by (simp add: distrib_left split_beta)
  qed simp
  have "?S * sum_list (map (\<lambda>(_, u). up_GetBudget p u) (up_utils p)) \<le> ?S * ?T"
    using le [OF nn] by (simp add: mult.commute)
  then have sum: "sum_list (map (\<lambda>(_, u). up_GetBudget p u) (up_utils p)) \<le> ?T"
    using S by simp
  have "0 \<le> up_GetBudget p u \<and> up_GetBudget p u \<le> ?T" if "(h, u) \<in> set (up_utils p)" for h u
  proof -
    have u0: "0 \<le> u" using nn that by force
    have "u \<le> ?S" by (rule member_le_sum_list) (use that nn in force)+
    then have "?T * u \<le> ?T * ?S" using assms(2) by (rule mult_left_mono)
    then have "?T * u div ?S \<le> ?T * ?S div ?S" using S by (rule zdiv_mono1)
    then show ?thesis
      using S u0 assms(2) by (simp add: b pos_imp_zdiv_nonneg_iff)
  qed
  with sum show ?thesis by auto
qed

theorem up_budgets_fit_timeslice_witness:
  "up_GetBudget ex_up 30 + up_GetBudget ex_up 70 \<le> 5000"
  using up_budgets_fit_timeslice [OF ex_up_inv] by (simp add: ex_up_simp)

text \<open>UP never resumes an XQueue that has no utilization of its own, whatever else is
  ready: as soon as one XQueue was given a utilization, the default utilization of the
  others (documented as full) is not used.\<close>

theorem up_never_resumes_unlisted:
  assumes "wf_status st" "up_inv p" "up_Sched e p st = Some (p', acts)"
    and "map_of (up_utils p) k = None"
  shows "decision acts k \<noteq> Some False"
  using assms(2,3)
proof (cases rule: up_Sched_cases)
  case any
  note E = up_SwitchToAny_effect [OF assms(1) any]
  have nk: "map_of (up_utils (up_purge st p)) k = None"
    using assms(4) by (auto simp: up_purge_def Let_def map_of_eq_None_iff)
  show ?thesis
  proof (cases "find (up_eligible (up_purge st p)) (st_xqueues st)")
    case None
    then show ?thesis using E(3,4) [of k] by (cases "k \<in> fst ` set (st_xqueues st)") auto
  next
    case (Some x)
    then have "fst x \<noteq> k" using find_SomeD [OF Some] nk by (auto simp: up_eligible_def)
    then show ?thesis
      using E(3,4) [of k] Some by (cases "k \<in> fst ` set (st_xqueues st)") (auto split: prod.splits)
  qed
next
  case (next_turn h u)
  have "(h, u) \<in> set (up_utils p)"
    using up_next_eligible(1) [OF next_turn(1)] by (auto simp: up_purge_def Let_def split: if_splits)
  then have ne: "k \<noteq> h" using assms(4) by (force simp: map_of_eq_None_iff)
  have "h \<in> fst ` set (st_xqueues st)"
    using up_next_eligible(2) [OF next_turn(1)] xq_of_key by blast
  from up_SwitchTo_effect(3,4) [OF next_turn(2) this, of k] ne show ?thesis
    by (cases "k \<in> fst ` set (st_xqueues st)") auto
qed simp_all

theorem up_never_resumes_unlisted_witness:
  "decision [Suspend 1, Suspend 2] 2 \<noteq> Some False"
proof -
  let ?p = "up_RecvHint up_init (UtilizationHint 0 1 30)"
  have run: "up_Sched ex_env ?p (ex_status False True) = Some (?p, [Suspend 1, Suspend 2])"
    by (simp add: up_Sched_def up_RecvHint_def up_init_def ex_defs up_SwitchToAny_def)
  show ?thesis
    by (rule up_never_resumes_unlisted [OF wf_ex_status up_inv_hint [OF up_init_inv] run])
       (simp add: up_RecvHint_def up_init_def)
qed

end
