(* ===== verification/ProcessPolicy.thy ===== *)
theory ProcessPolicy
  imports PriorityPolicies
begin

text \<open>
  PUP (\<^verbatim>\<open>sched/src/policy/pup.cpp\<close>): processes take turns in a run queue; a process that
  is not ready when its turn comes keeps its time as a budget, which decays by a factor
  of 0.9 computed in doubles. The search loop for the next ready process is a partial
  function, and the lemmas show that it ends whenever some process is ready, which the
  code has checked before. A switch leaves exactly the XQueues of one process running.
\<close>

record run_entry =
  re_pid :: pid
  re_ready :: bool
  re_running :: bool
  re_budget :: int

record pup =
  pup_run_queue :: "run_entry list"
  pup_utils :: "pid \<rightharpoonup> int"
  pup_pids :: "pid set"
  pup_end :: time_ns
  pup_slice :: int

definition pup_init :: pup where
  "pup_init = \<lparr> pup_run_queue = [], pup_utils = Map.empty, pup_pids = {},
     pup_end = time_min, pup_slice = TIMESLICE_DEFAULT \<rparr>"

section \<open>Operations\<close>

definition pup_ProcessReady :: "pid \<Rightarrow> status \<Rightarrow> bool option" where
  "pup_ProcessReady pd st =
     (case proc_of st pd of None \<Rightarrow> None
      | Some ps \<Rightarrow> Some (list_ex (\<lambda>h. case xq_of st h of Some q \<Rightarrow> xs_ready q | None \<Rightarrow> False)
                          (ps_running ps @ ps_suspended ps)))"

text \<open>\<^verbatim>\<open>GetBudgetUs\<close>: \<^verbatim>\<open>size()\<close> is unsigned, so the product is taken modulo \<open>2 ^ 64\<close>.\<close>

definition pup_util :: "pup \<Rightarrow> pid \<Rightarrow> int" where
  "pup_util p pd = (case pup_utils p pd of None \<Rightarrow> UTILIZATION_DEFAULT | Some u \<Rightarrow> u)"

definition pup_GetBudgetUs :: "pup \<Rightarrow> run_entry list \<Rightarrow> pid \<Rightarrow> int" where
  "pup_GetBudgetUs p rq pd =
     (let total_util = sum_list (map (\<lambda>en. pup_util p (re_pid en)) rq) in
      if total_util = 0 then 0
      else sx 8 ((pup_slice p * int (length rq) * pup_util p pd) mod 2 ^ 64 div total_util))"

definition pup_decay :: "int \<Rightarrow> int \<Rightarrow> int" where
  "pup_decay new_budget budget =
     (if budget > new_budget
      then f_to_int (f_add (f_of_int new_budget) (f_mul (f_of_int (budget - new_budget)) (fl (9 / 10))))
      else budget)"

definition pup_has_xqueues :: "process_status \<Rightarrow> bool" where
  "pup_has_xqueues ps \<longleftrightarrow> \<not> (ps_running ps = [] \<and> ps_suspended ps = [])"

text \<open>The loop that drops processes that are gone or have no XQueue, and refreshes the
  readiness of the others; it also returns the processes it dropped.\<close>

fun pup_prune :: "status \<Rightarrow> run_entry list \<Rightarrow> (run_entry list \<times> pid list) option" where
  "pup_prune st [] = Some ([], [])"
| "pup_prune st (en # es) =
     (case proc_of st (re_pid en) of
        None \<Rightarrow> map_option (\<lambda>(es', er). (es', re_pid en # er)) (pup_prune st es)
      | Some ps \<Rightarrow>
          if \<not> pup_has_xqueues ps
          then map_option (\<lambda>(es', er). (es', re_pid en # er)) (pup_prune st es)
          else (case pup_ProcessReady (re_pid en) st of
                  None \<Rightarrow> None
                | Some r \<Rightarrow> map_option (\<lambda>(es', er). (en\<lparr> re_ready := r \<rparr> # es', er))
                              (pup_prune st es)))"

text \<open>The loop that appends the processes not yet in the run queue.\<close>

fun pup_admit :: "status \<Rightarrow> (pid \<times> process_status) list \<Rightarrow> pid set
    \<Rightarrow> (run_entry list \<times> pid set) option" where
  "pup_admit st [] pids = Some ([], pids)"
| "pup_admit st ((pd, ps) # rest) pids =
     (if \<not> pup_has_xqueues ps then pup_admit st rest pids
      else if pd \<in> pids then pup_admit st rest pids
      else (case pup_ProcessReady pd st of
              None \<Rightarrow> None
            | Some r \<Rightarrow>
                map_option (\<lambda>(es, pids').
                   (\<lparr> re_pid = pd, re_ready = r, re_running = False, re_budget = 0 \<rparr> # es, pids'))
                  (pup_admit st rest (insert pd pids))))"

text \<open>\<^verbatim>\<open>while (!run_queue_.front().ready)\<close>: rotate, crediting the process that is passed by.\<close>

partial_function (option) pup_rotate :: "pup \<Rightarrow> run_entry list \<Rightarrow> run_entry list option" where
  "pup_rotate p rq =
     (case rq of [] \<Rightarrow> None
      | en # rest \<Rightarrow>
          if re_ready en then Some rq
          else let new_budget = pup_GetBudgetUs p rq (re_pid en);
                   budget = pup_decay new_budget (re_budget en) + new_budget in
               pup_rotate p (rest @ [\<lparr> re_pid = re_pid en, re_ready = False,
                                       re_running = False, re_budget = budget \<rparr>]))"

definition pup_switch_of :: "pid \<Rightarrow> status \<Rightarrow> pid \<Rightarrow> action list" where
  "pup_switch_of pd st pd' =
     (case proc_of st pd' of None \<Rightarrow> []
      | Some ps \<Rightarrow> if pd' = pd then map Resume (ps_suspended ps)
                  else map Suspend (ps_running ps))"

definition pup_SwitchProcess ::
    "pid \<Rightarrow> status \<Rightarrow> run_entry list \<Rightarrow> run_entry list \<times> action list" where
  "pup_SwitchProcess pd st rq =
     (map (\<lambda>en. case proc_of st (re_pid en) of None \<Rightarrow> en
              | Some _ \<Rightarrow> en\<lparr> re_running := (re_pid en = pd) \<rparr>) rq,
      concat (map (\<lambda>en. pup_switch_of pd st (re_pid en)) rq))"

text \<open>The end of \<^verbatim>\<open>Sched\<close>: find the next ready process, fix the end of its turn, switch.\<close>

definition pup_run_next ::
    "time_ns \<Rightarrow> status \<Rightarrow> pup \<Rightarrow> run_entry list \<Rightarrow> (pup \<times> action list) option" where
  "pup_run_next now st p rq =
     (case pup_rotate p rq of None \<Rightarrow> None
      | Some rq' \<Rightarrow>
          (let en = hd rq';
               new_budget = pup_GetBudgetUs p rq' (re_pid en);
               budget = pup_decay new_budget (re_budget en) + new_budget;
               t_end = now + us_to_ns budget;
               (rq'', acts) = pup_SwitchProcess (re_pid en) st rq' in
           Some (p\<lparr> pup_run_queue := rq'', pup_end := t_end \<rparr>, AddTimer t_end # acts)))"

definition pup_Sched :: "sched_env \<Rightarrow> pup \<Rightarrow> status \<Rightarrow> (pup \<times> action list) option" where
  "pup_Sched e p0 st =
     (let now = env_now e;
          utils = (\<lambda>pd. if proc_of st pd = None then None else pup_utils p0 pd) in
      case pup_prune st (pup_run_queue p0) of None \<Rightarrow> None
      | Some (kept, erased) \<Rightarrow>
      (case pup_admit st (st_procs st) (pup_pids p0 - set erased) of None \<Rightarrow> None
      | Some (new, pids) \<Rightarrow>
         (let rq = kept @ new;
              any_ready = list_ex re_ready rq;
              p = p0\<lparr> pup_utils := utils, pup_pids := pids, pup_run_queue := rq \<rparr> in
          if rq = [] then Some (p, [])
          else if \<not> any_ready then Some (p, [])
          else (let en = hd rq in
            if re_running en then
              (let ts_remain = (pup_end p > now) in
               if ts_remain \<and> re_ready en then Some (p, [])
               else pup_run_next now st p
                 (tl rq @ [\<lparr> re_pid = re_pid en, re_ready = re_ready en, re_running = False,
                            re_budget = (if ts_remain then ns_to_us (pup_end p - now) else 0) \<rparr>]))
            else pup_run_next now st p rq))))"

definition pup_RecvHint :: "pup \<Rightarrow> hint \<Rightarrow> pup" where
  "pup_RecvHint p ht =
     (case ht of
        UtilizationHint pd _ util \<Rightarrow>
          if pd = 0 then p
          else if util < UTILIZATION_MIN \<or> util > UTILIZATION_MAX then p
          else p\<lparr> pup_utils := (pup_utils p)(pd \<mapsto> util) \<rparr>
      | TimesliceHint ts \<Rightarrow>
          if ts < TIMESLICE_MIN \<or> ts > TIMESLICE_MAX then p else p\<lparr> pup_slice := ts \<rparr>
      | _ \<Rightarrow> p)"

section \<open>The search ends\<close>

lemma pup_rotate_ready:
  assumes "\<forall>x \<in> set pre. \<not> re_ready x" "re_ready en"
  shows "\<exists>pre'. pup_rotate p (pre @ en # post) = Some (en # post @ pre')
     \<and> map re_pid pre' = map re_pid pre \<and> (\<forall>x \<in> set pre'. \<not> re_running x)"
  using assms
proof (induction pre arbitrary: post)
  case Nil
  then show ?case by (simp add: pup_rotate.simps)
next
  case (Cons x pre)
  let ?x = "\<lparr> re_pid = re_pid x, re_ready = False, re_running = False,
     re_budget = pup_decay (pup_GetBudgetUs p ((x # pre) @ en # post) (re_pid x)) (re_budget x)
       + pup_GetBudgetUs p ((x # pre) @ en # post) (re_pid x) \<rparr>"
  have "pup_rotate p ((x # pre) @ en # post) = pup_rotate p (pre @ en # (post @ [?x]))"
    using Cons.prems by (subst pup_rotate.simps) (simp add: Let_def)
  moreover obtain pre' where "pup_rotate p (pre @ en # (post @ [?x])) = Some (en # (post @ [?x]) @ pre')"
      "map re_pid pre' = map re_pid pre" "\<forall>y \<in> set pre'. \<not> re_running y"
    using Cons.IH [of "post @ [?x]"] Cons.prems by auto
  ultimately show ?case by (intro exI [of _ "?x # pre'"]) simp
qed

lemma split_first_ready:
  "list_ex P xs \<Longrightarrow> \<exists>pre x post. xs = pre @ x # post \<and> (\<forall>y \<in> set pre. \<not> P y) \<and> P x"
  using split_list_first_prop [of xs P] unfolding list_ex_iff by blast

lemma pup_rotate_total:
  assumes "list_ex re_ready rq"
  shows "\<exists>rq'. pup_rotate p rq = Some rq' \<and> rq' \<noteq> [] \<and> re_ready (hd rq')
     \<and> mset (map re_pid rq') = mset (map re_pid rq)
     \<and> ((\<forall>x \<in> set rq. \<not> re_running x) \<longrightarrow> (\<forall>x \<in> set rq'. \<not> re_running x))"
proof -
  obtain pre en post where rq: "rq = pre @ en # post" "\<forall>x \<in> set pre. \<not> re_ready x" "re_ready en"
    using split_first_ready [OF assms] by blast
  obtain pre' where r: "pup_rotate p rq = Some (en # post @ pre')" "map re_pid pre' = map re_pid pre"
      "\<forall>x \<in> set pre'. \<not> re_running x"
    using pup_rotate_ready [OF rq(2,3), of p post] rq(1) by blast
  have "mset (map re_pid pre') = mset (map re_pid pre)" by (simp only: r(2))
  then have m: "mset (map re_pid (en # post @ pre')) = mset (map re_pid rq)"
    by (simp add: rq(1))
  show ?thesis
    by (rule exI [of _ "en # post @ pre'"], intro conjI)
       (use r(1,3) m rq in \<open>auto simp del: mset_map\<close>)
qed

section \<open>The two preparatory loops\<close>

definition pup_ready :: "status \<Rightarrow> pid \<Rightarrow> bool" where
  "pup_ready st pd \<longleftrightarrow> (\<exists>h q. xq_of st h = Some q \<and> xs_pid q = pd \<and> xs_ready q)"

definition pup_listed :: "status \<Rightarrow> pid \<Rightarrow> bool" where
  "pup_listed st pd \<longleftrightarrow> (\<exists>ps. proc_of st pd = Some ps \<and> pup_has_xqueues ps)"

lemma pup_ProcessReady_eq:
  assumes "wf_status st" "proc_of st pd = Some ps"
  shows "pup_ProcessReady pd st = Some (pup_ready st pd)"
proof -
  have P: "wf_proc st pd ps" by (rule wf_status_proc [OF assms])
  have mem: "h \<in> set (ps_running ps @ ps_suspended ps) \<longleftrightarrow> (\<exists>q. xq_of st h = Some q \<and> xs_pid q = pd)"
    for h
  proof
    assume "h \<in> set (ps_running ps @ ps_suspended ps)"
    with P have "map_option xs_pid (xq_of st h) = Some pd" by (simp add: wf_proc_def)
    then show "\<exists>q. xq_of st h = Some q \<and> xs_pid q = pd" by auto
  next
    assume "\<exists>q. xq_of st h = Some q \<and> xs_pid q = pd"
    then obtain q where q: "xq_of st h = Some q" "xs_pid q = pd" by blast
    then show "h \<in> set (ps_running ps @ ps_suspended ps)"
      using wf_status_queue_proc [OF assms(1) q(1)] assms(2) by (cases "xs_suspended q") auto
  qed
  have "list_ex (\<lambda>h. case xq_of st h of Some q \<Rightarrow> xs_ready q | None \<Rightarrow> False)
      (ps_running ps @ ps_suspended ps) \<longleftrightarrow> pup_ready st pd"
    unfolding list_ex_iff pup_ready_def using mem
    by (auto split: option.splits simp del: set_append) (metis option.inject)+
  then show ?thesis by (simp add: pup_ProcessReady_def assms(2))
qed

lemma pup_prune_eq:
  assumes "wf_status st"
  shows "pup_prune st es =
     Some (map (\<lambda>en. en\<lparr> re_ready := pup_ready st (re_pid en) \<rparr>)
             (filter (\<lambda>en. pup_listed st (re_pid en)) es),
           map re_pid (filter (\<lambda>en. \<not> pup_listed st (re_pid en)) es))"
  by (induction es)
     (auto simp: pup_listed_def pup_ProcessReady_eq [OF assms] split: option.splits)

lemma pup_admit_spec:
  assumes "wf_status st" "\<forall>(pd, ps) \<in> set xs. proc_of st pd = Some ps"
  shows "\<exists>new. pup_admit st xs pids = Some (new, pids \<union> re_pid ` set new)
     \<and> distinct (map re_pid new) \<and> re_pid ` set new \<inter> pids = {}
     \<and> (\<forall>en \<in> set new. \<not> re_running en \<and> re_ready en = pup_ready st (re_pid en))
     \<and> re_pid ` set new = {pd. pd \<in> fst ` set xs \<and> pup_listed st pd} - pids"
  using assms(2)
proof (induction xs arbitrary: pids)
  case (Cons x xs)
  obtain pd ps where x: "x = (pd, ps)" by (cases x)
  have ps: "proc_of st pd = Some ps" using Cons.prems by (auto simp: x)
  have pr: "\<forall>(pd, ps) \<in> set xs. proc_of st pd = Some ps" using Cons.prems by simp
  have l: "pup_listed st pd \<longleftrightarrow> pup_has_xqueues ps" by (simp add: pup_listed_def ps)
  show ?case
  proof (cases "pup_has_xqueues ps \<and> pd \<notin> pids")
    case False
    obtain new where "pup_admit st xs pids = Some (new, pids \<union> re_pid ` set new)"
      "distinct (map re_pid new)" "re_pid ` set new \<inter> pids = {}"
      "\<forall>en \<in> set new. \<not> re_running en \<and> re_ready en = pup_ready st (re_pid en)"
      "re_pid ` set new = {pd. pd \<in> fst ` set xs \<and> pup_listed st pd} - pids"
      using Cons.IH [OF pr, of pids] by blast
    then show ?thesis using False l by (intro exI [of _ new]) (auto simp: x)
  next
    case True
    obtain new where n: "pup_admit st xs (insert pd pids) = Some (new, insert pd pids \<union> re_pid ` set new)"
      "distinct (map re_pid new)" "re_pid ` set new \<inter> insert pd pids = {}"
      "\<forall>en \<in> set new. \<not> re_running en \<and> re_ready en = pup_ready st (re_pid en)"
      "re_pid ` set new = {pd'. pd' \<in> fst ` set xs \<and> pup_listed st pd'} - insert pd pids"
      using Cons.IH [OF pr, of "insert pd pids"] by blast
    let ?en = "\<lparr> re_pid = pd, re_ready = pup_ready st pd, re_running = False, re_budget = 0 \<rparr>"
    have "pup_admit st (x # xs) pids = Some (?en # new, pids \<union> re_pid ` set (?en # new))"
      using True n(1) by (simp add: x pup_ProcessReady_eq [OF assms(1) ps])
    moreover have "re_pid ` set (?en # new) =
        {pd'. pd' \<in> fst ` set (x # xs) \<and> pup_listed st pd'} - pids"
      using n(5) True l by (auto simp: x)
    ultimately show ?thesis using n(2-4) True by (intro exI [of _ "?en # new"]) (auto simp: x)
  qed
qed simp

section \<open>Effect of a switch\<close>

lemma pup_switch_other:
  assumes "wf_status st" "xq_of st h = Some q" "pd' \<noteq> xs_pid q"
  shows "decision (pup_switch_of pd st pd') h = None"
proof (cases "proc_of st pd'")
  case (Some ps)
  have "map_option xs_pid (xq_of st h) = Some pd'" if "h \<in> set (ps_running ps @ ps_suspended ps)"
    using wf_status_proc [OF assms(1) Some] that unfolding wf_proc_def by blast
  then have "h \<notin> set (ps_running ps @ ps_suspended ps)" using assms(2,3) by auto
  then show ?thesis
    by (auto simp: pup_switch_of_def Some intro!: decision_not_mentioned)
qed (simp add: pup_switch_of_def)

lemma decision_map_Resume: "decision (map Resume hs) h = (if h \<in> set hs then Some False else None)"
  by (induction hs) auto

lemma decision_map_Suspend: "decision (map Suspend hs) h = (if h \<in> set hs then Some True else None)"
  by (induction hs) auto

lemma pup_switch_own:
  assumes "wf_status st" "xq_of st h = Some q"
  shows "decision (pup_switch_of pd st (xs_pid q)) h =
     (if xs_pid q = pd then (if xs_suspended q then Some False else None)
      else (if xs_suspended q then None else Some True))"
proof -
  obtain ps where "proc_of st (xs_pid q) = Some ps"
    "h \<in> set (ps_running ps) \<longleftrightarrow> \<not> xs_suspended q" "h \<in> set (ps_suspended ps) \<longleftrightarrow> xs_suspended q"
    using wf_status_queue_proc [OF assms] by metis
  then show ?thesis by (simp add: pup_switch_of_def decision_map_Resume decision_map_Suspend)
qed

lemma pup_switch_decision:
  assumes "wf_status st" "xq_of st h = Some q"
  shows "decision (concat (map (\<lambda>en. pup_switch_of pd st (re_pid en)) rq)) h =
     (if xs_pid q \<in> re_pid ` set rq then decision (pup_switch_of pd st (xs_pid q)) h else None)"
proof (induction rq)
  case (Cons en rq)
  show ?case
  proof (cases "re_pid en = xs_pid q")
    case True
    then show ?thesis by (auto simp: decision_append Cons split: option.splits)
  next
    case False
    then show ?thesis
      using pup_switch_other [OF assms False, of pd]
      by (auto simp: decision_append Cons split: option.splits)
  qed
qed simp

lemma pup_switch_left_suspended:
  assumes "wf_status st" "xq_of st h = Some q" "xs_pid q \<in> re_pid ` set rq"
  shows "left_suspended st (snd (pup_SwitchProcess pd st rq)) h \<longleftrightarrow> xs_pid q \<noteq> pd"
  using assms(3) pup_switch_own [OF assms(1,2), of pd]
  by (auto simp: left_suspended_def pup_SwitchProcess_def pup_switch_decision [OF assms(1,2)]
      assms(2))

lemma pup_switch_known:
  assumes "wf_status st" "decision (snd (pup_SwitchProcess pd st rq)) h = Some b"
  shows "h \<in> fst ` set (st_xqueues st)"
proof (rule ccontr)
  assume n: "h \<notin> fst ` set (st_xqueues st)"
  have "decision (pup_switch_of pd st pd') h = None" for pd'
  proof (cases "proc_of st pd'")
    case (Some ps)
    have "map_option xs_pid (xq_of st h) = Some pd'" if "h \<in> set (ps_running ps @ ps_suspended ps)"
      using wf_status_proc [OF assms(1) Some] that unfolding wf_proc_def by blast
    then have "h \<notin> set (ps_running ps @ ps_suspended ps)" using n xq_of_key [of st h] by fastforce
    then show ?thesis by (auto simp: pup_switch_of_def Some intro!: decision_not_mentioned)
  qed (simp add: pup_switch_of_def)
  then have "decision (concat (map (\<lambda>en. pup_switch_of pd st (re_pid en)) rq)) h = None"
    by (induction rq) (auto simp: decision_append)
  with assms(2) show False by (simp add: pup_SwitchProcess_def)
qed

section \<open>Invariant\<close>

definition pup_inv :: "pup \<Rightarrow> status \<Rightarrow> bool" where
  "pup_inv p st \<longleftrightarrow> distinct (map re_pid (pup_run_queue p))
     \<and> pup_pids p = re_pid ` set (pup_run_queue p)
     \<and> (\<forall>en \<in> set (tl (pup_run_queue p)). \<not> re_running en)
     \<and> (\<forall>en \<in> set (pup_run_queue p). re_running en \<longrightarrow>
          (\<forall>h q. xq_of st h = Some q \<longrightarrow> xs_pid q = re_pid en \<longrightarrow> \<not> xs_suspended q))"

lemma pup_inv_init [simp]: "pup_inv pup_init st"
  by (simp add: pup_inv_def pup_init_def)

lemma pup_inv_hint: "pup_inv p st \<Longrightarrow> pup_inv (pup_RecvHint p ht) st"
  by (cases ht) (simp_all add: pup_inv_def pup_RecvHint_def)

lemma pup_inv_less: "pup_inv p st \<Longrightarrow> suspends_less st st' \<Longrightarrow> pup_inv p st'"
  unfolding pup_inv_def suspends_less_def by metis

text \<open>The run queue after the two loops.\<close>

definition pup_fresh :: "status \<Rightarrow> run_entry list \<Rightarrow> bool" where
  "pup_fresh st rq \<longleftrightarrow> distinct (map re_pid rq)
     \<and> (\<forall>en \<in> set (tl rq). \<not> re_running en)
     \<and> (\<forall>en \<in> set rq. re_ready en = pup_ready st (re_pid en))
     \<and> re_pid ` set rq = {pd. pup_listed st pd}
     \<and> (\<forall>en \<in> set rq. re_running en \<longrightarrow>
          (\<forall>h q. xq_of st h = Some q \<longrightarrow> xs_pid q = re_pid en \<longrightarrow> \<not> xs_suspended q))"

lemma set_tl_filter: "x \<in> set (tl (filter P xs)) \<Longrightarrow> x \<in> set (tl xs)"
  by (cases xs) (auto split: if_splits dest: in_set_tlD)

lemma pup_prepare:
  assumes "wf_status st" "pup_inv p st"
  shows "\<exists>kept erased new pids. pup_prune st (pup_run_queue p) = Some (kept, erased)
     \<and> pup_admit st (st_procs st) (pup_pids p - set erased) = Some (new, pids)
     \<and> pids = re_pid ` set (kept @ new) \<and> pup_fresh st (kept @ new)
     \<and> kept = map (\<lambda>en. en\<lparr> re_ready := pup_ready st (re_pid en) \<rparr>)
                (filter (\<lambda>en. pup_listed st (re_pid en)) (pup_run_queue p))
     \<and> re_pid ` set new = {pd. pup_listed st pd} - re_pid ` set (pup_run_queue p)
     \<and> (\<forall>en \<in> set new. \<not> re_running en)"
proof -
  let ?R = "pup_run_queue p" and ?L = "\<lambda>en. pup_listed st (re_pid en)"
  let ?kept = "map (\<lambda>en. en\<lparr> re_ready := pup_ready st (re_pid en) \<rparr>) (filter ?L ?R)"
  let ?erased = "map re_pid (filter (\<lambda>en. \<not> ?L en) ?R)"
  have d: "distinct (map re_pid ?R)" and pids: "pup_pids p = re_pid ` set ?R"
    using assms(2) by (auto simp: pup_inv_def)
  have kp: "map re_pid ?kept = map re_pid (filter ?L ?R)" by simp
  then have kps: "re_pid ` set ?kept = re_pid ` set (filter ?L ?R)"
    by (metis list.set_map)
  have left: "pup_pids p - set ?erased = re_pid ` set ?kept"
    unfolding kps pids by auto
  have "\<forall>(pd, ps) \<in> set (st_procs st). proc_of st pd = Some ps"
    by (auto simp: st_proc_iff [OF assms(1)])
  from pup_admit_spec [OF assms(1) this, of "re_pid ` set ?kept"] obtain new
    where n: "pup_admit st (st_procs st) (re_pid ` set ?kept)
          = Some (new, re_pid ` set ?kept \<union> re_pid ` set new)"
      "distinct (map re_pid new)" "re_pid ` set new \<inter> re_pid ` set ?kept = {}"
      "\<forall>en \<in> set new. \<not> re_running en \<and> re_ready en = pup_ready st (re_pid en)"
      "re_pid ` set new = {pd. pd \<in> fst ` set (st_procs st) \<and> pup_listed st pd}
          - re_pid ` set ?kept"
    by blast
  have listed_known: "pd \<in> fst ` set (st_procs st)" if "pup_listed st pd" for pd
    using that by (auto simp: pup_listed_def dest!: map_of_SomeD intro: rev_image_eqI)
  have "distinct (map re_pid ?kept)" unfolding kp using d by (rule distinct_map_filter)
  then have "distinct (map re_pid (?kept @ new))"
    using n(2,3) unfolding map_append distinct_append list.set_map by blast
  moreover have "\<not> re_running en" if "en \<in> set (tl (?kept @ new))" for en
  proof (cases "filter ?L ?R")
    case Nil
    then show ?thesis using that n(4) by (auto dest: in_set_tlD)
  next
    case (Cons a as)
    have "\<not> re_running x" if "x \<in> set as" for x
      using set_tl_filter [of x ?L ?R] that Cons assms(2) by (auto simp: pup_inv_def)
    then show ?thesis using that n(4) Cons by auto
  qed
  moreover have "re_ready en = pup_ready st (re_pid en)" if "en \<in> set (?kept @ new)" for en
    using that n(4) by auto
  moreover have "re_pid ` set (?kept @ new) = {pd. pup_listed st pd}"
    using n(5) listed_known unfolding set_append image_Un kps by auto
  moreover have "\<not> xs_suspended q"
    if "en \<in> set (?kept @ new)" "re_running en" "xq_of st h = Some q" "xs_pid q = re_pid en" for en h q
    using that n(4) assms(2) by (fastforce simp: pup_inv_def)
  ultimately have fresh: "pup_fresh st (?kept @ new)" unfolding pup_fresh_def by blast
  have "re_pid ` set new = {pd. pup_listed st pd} - re_pid ` set ?R"
    using n(5) listed_known unfolding kps by auto
  moreover have "pup_prune st ?R = Some (?kept, ?erased)" by (rule pup_prune_eq [OF assms(1)])
  moreover have "pup_admit st (st_procs st) (pup_pids p - set ?erased) = Some (new, re_pid ` set (?kept @ new))"
    using n(1) unfolding left set_append image_Un .
  moreover have "\<forall>en \<in> set new. \<not> re_running en" using n(4) by blast
  ultimately show ?thesis using fresh by blast
qed

lemma pup_queue_listed:
  assumes "wf_status st" "xq_of st h = Some q"
  shows "pup_listed st (xs_pid q)"
proof -
  obtain ps where "proc_of st (xs_pid q) = Some ps"
    "h \<in> set (ps_running ps) \<longleftrightarrow> \<not> xs_suspended q" "h \<in> set (ps_suspended ps) \<longleftrightarrow> xs_suspended q"
    using wf_status_queue_proc [OF assms] by metis
  then show ?thesis
    by (cases "xs_suspended q") (auto simp: pup_listed_def pup_has_xqueues_def)
qed

lemma pup_any_ready:
  assumes "wf_status st" "pup_fresh st rq"
  shows "list_ex re_ready rq \<longleftrightarrow> some_ready st"
proof
  assume "list_ex re_ready rq"
  then obtain en where "en \<in> set rq" "re_ready en" by (auto simp: list_ex_iff)
  then have "pup_ready st (re_pid en)" using assms(2) by (auto simp: pup_fresh_def)
  then show "some_ready st" by (auto simp: pup_ready_def intro: some_readyI)
next
  assume "some_ready st"
  then obtain h q where q: "xq_of st h = Some q" "xs_ready q" using assms(1) by (auto elim: some_readyE)
  then have r: "pup_ready st (xs_pid q)" by (auto simp: pup_ready_def)
  have "pup_listed st (xs_pid q)"
    by (rule pup_queue_listed [OF assms(1) q(1)])
  then have "xs_pid q \<in> re_pid ` set rq" using assms(2) by (simp add: pup_fresh_def)
  then obtain en where "en \<in> set rq" "re_pid en = xs_pid q" by auto
  then show "list_ex re_ready rq" using assms(2) r by (auto simp: list_ex_iff pup_fresh_def)
qed

text \<open>What running the next process does to a prepared run queue.\<close>

lemma find_append_Some:
  "find P (xs @ ys) = (case find P xs of None \<Rightarrow> find P ys | Some x \<Rightarrow> Some x)"
  by (induction xs) auto

lemma pup_run_next_effect:
  assumes "wf_status st" "distinct (map re_pid rq)" "re_pid ` set rq = {pd. pup_listed st pd}"
    and "list_ex re_ready rq" "\<forall>en \<in> set rq. \<not> re_running en"
    and "\<forall>en \<in> set rq. re_ready en = pup_ready st (re_pid en)"
    and "pup_pids p = re_pid ` set rq"
  shows "\<exists>p' acts pd. pup_run_next now st p rq = Some (p', acts)
     \<and> (\<forall>ts. pup_inv p' (fst (run_actions acts (st, ts)))) \<and> pup_ready st pd
     \<and> (\<forall>h q. xq_of st h = Some q \<longrightarrow> (left_suspended st acts h \<longleftrightarrow> xs_pid q \<noteq> pd))
     \<and> (\<forall>h b. decision acts h = Some b \<longrightarrow> h \<in> fst ` set (st_xqueues st))
     \<and> find (pup_ready st) (map re_pid rq) = Some pd
     \<and> re_pid (hd (pup_run_queue p')) = pd \<and> re_running (hd (pup_run_queue p'))
     \<and> AddTimer (pup_end p') \<in> set acts \<and> acts \<noteq> []"
proof -
  obtain rq' where r: "pup_rotate p rq = Some rq'" "rq' \<noteq> []" "re_ready (hd rq')"
    "mset (map re_pid rq') = mset (map re_pid rq)" "\<forall>x \<in> set rq'. \<not> re_running x"
    using pup_rotate_total [OF assms(4), of p] assms(5) by blast
  obtain en rest where rq': "rq' = en # rest" using r(2) by (cases rq') auto
  let ?pd = "re_pid en"
  have pidset: "re_pid ` set rq' = re_pid ` set rq"
    using arg_cong [OF r(4), of set_mset] by simp
  have d': "distinct (map re_pid rq')"
    using assms(2) r(4) by (metis mset_eq_imp_distinct_iff)
  have found: "\<exists>ps. proc_of st (re_pid x) = Some ps" if "x \<in> set rq'" for x
  proof -
    have "re_pid x \<in> {pd. pup_listed st pd}" using that pidset assms(3) by blast
    then show ?thesis by (auto simp: pup_listed_def)
  qed
  let ?nb = "pup_GetBudgetUs p rq' ?pd"
  let ?t = "now + us_to_ns (pup_decay ?nb (re_budget en) + ?nb)"
  let ?sw = "snd (pup_SwitchProcess ?pd st rq')"
  let ?p' = "p\<lparr> pup_run_queue := fst (pup_SwitchProcess ?pd st rq'), pup_end := ?t \<rparr>"
  have run: "pup_run_next now st p rq = Some (?p', AddTimer ?t # ?sw)"
    by (simp add: pup_run_next_def r(1) rq' Let_def split_beta)
  have newq: "fst (pup_SwitchProcess ?pd st rq') = map (\<lambda>x. x\<lparr> re_running := (re_pid x = ?pd) \<rparr>) rq'"
    unfolding pup_SwitchProcess_def fst_conv using found by (intro map_cong) fastforce+
  have newpids: "map re_pid (map (\<lambda>x. x\<lparr> re_running := (re_pid x = ?pd) \<rparr>) rq') = map re_pid rq'"
    by (simp add: comp_def)
  have listed: "xs_pid q \<in> re_pid ` set rq'" if "xq_of st h = Some q" for h q
    unfolding pidset assms(3) using pup_queue_listed [OF assms(1) that] by simp
  have ls: "left_suspended st (AddTimer ?t # ?sw) h \<longleftrightarrow> xs_pid q \<noteq> ?pd" if "xq_of st h = Some q" for h q
    unfolding left_suspended_timer
    by (rule pup_switch_left_suspended [OF assms(1) that listed [OF that]])
  have first: "find (pup_ready st) (map re_pid rq) = Some ?pd"
  proof -
    obtain pre x post where sp: "rq = pre @ x # post" "\<forall>y \<in> set pre. \<not> re_ready y" "re_ready x"
      using split_first_ready [OF assms(4)] by blast
    obtain pre' where "pup_rotate p rq = Some (x # post @ pre')"
      using pup_rotate_ready [OF sp(2,3), of p post] sp(1) by blast
    then have "x = en" using r(1) rq' by simp
    moreover have "find (pup_ready st) (map re_pid pre) = None"
      using sp(1,2) assms(6) by (auto simp: find_None_iff)
    moreover have "pup_ready st (re_pid x)" using sp(1,3) assms(6) by simp
    ultimately show ?thesis using sp(1) by (simp add: find_append_Some)
  qed
  then have "pup_ready st ?pd" by (auto simp: find_Some_iff)
  moreover have "pup_inv ?p' (fst (run_actions (AddTimer ?t # ?sw) (st, ts)))" for ts
  proof -
    have "\<not> xs_suspended q'"
      if "xq_of (fst (run_actions (AddTimer ?t # ?sw) (st, ts))) h = Some q'" "xs_pid q' = ?pd" for h q'
      using that ls by (elim run_actions_cases) auto
    moreover have "\<not> re_running x"
      if x: "x \<in> set (tl (map (\<lambda>x. x\<lparr> re_running := (re_pid x = ?pd) \<rparr>) rq'))" for x
    proof -
      obtain y where y: "y \<in> set rest" "x = y\<lparr> re_running := (re_pid y = ?pd) \<rparr>"
        using x by (auto simp: rq')
      moreover have "re_pid y \<noteq> ?pd"
      proof
        assume "re_pid y = ?pd"
        then have "?pd \<in> re_pid ` set rest" using y(1) by (metis imageI)
        then show False using d' by (simp add: rq')
      qed
      ultimately show ?thesis by simp
    qed
    moreover have pr: "pup_run_queue ?p' = map (\<lambda>x. x\<lparr> re_running := (re_pid x = ?pd) \<rparr>) rq'"
      and pp: "pup_pids ?p' = re_pid ` set rq'"
      using pidset assms(7) by (simp_all add: newq)
    ultimately show ?thesis
      unfolding pup_inv_def pr pp newpids using d' by (auto simp: image_image)
  qed
  moreover have "decision (AddTimer ?t # ?sw) h = Some b \<Longrightarrow> h \<in> fst ` set (st_xqueues st)" for h b
    using pup_switch_known [OF assms(1), of ?pd rq' h b] by (auto split: option.splits)
  moreover have "re_pid (hd (pup_run_queue ?p')) = ?pd \<and> re_running (hd (pup_run_queue ?p'))"
    using newq by (simp add: rq')
  moreover have "AddTimer (pup_end ?p') \<in> set (AddTimer ?t # ?sw) \<and> AddTimer ?t # ?sw \<noteq> []"
    by simp
  ultimately show ?thesis using run ls first by blast
qed

section \<open>The contract\<close>

text \<open>The processes that wait: all of the run queue but the current one, which is in front of it.\<close>

definition pup_waiting :: "pup \<Rightarrow> pid list" where
  "pup_waiting p = map re_pid (case pup_run_queue p of [] \<Rightarrow> []
     | en # rest \<Rightarrow> if re_running en then rest else en # rest)"

definition pup_in_time :: "time_ns \<Rightarrow> pup \<Rightarrow> status \<Rightarrow> bool" where
  "pup_in_time now p st \<longleftrightarrow> (\<exists>en rest. pup_run_queue p = en # rest \<and> re_running en
     \<and> pup_ready st (re_pid en) \<and> now < pup_end p)"

text \<open>The prepared run queue: who waits, then the processes that are new, then the current one.\<close>

definition pup_turns :: "pup \<Rightarrow> status \<Rightarrow> pid list \<Rightarrow> bool" where
  "pup_turns p st pds \<longleftrightarrow> (\<exists>new cur. pds = filter (pup_listed st) (pup_waiting p) @ new @ cur
     \<and> set new = {pd. pup_listed st pd} - re_pid ` set (pup_run_queue p)
     \<and> set cur \<subseteq> re_pid ` set (pup_run_queue p))"

lemma pup_in_time_ready: "pup_in_time now p st \<Longrightarrow> wf_status st \<Longrightarrow> some_ready st"
  by (auto simp: pup_in_time_def pup_ready_def intro: some_readyI)

lemma pup_ready_listed: "wf_status st \<Longrightarrow> pup_ready st pd \<Longrightarrow> pup_listed st pd"
  using pup_queue_listed unfolding pup_ready_def by blast

lemma find_filter_implied: "(\<And>x. P x \<Longrightarrow> Q x) \<Longrightarrow> find P (filter Q xs) = find P xs"
  by (induction xs) auto

lemma pup_turns_first:
  assumes "wf_status st" "pup_turns p st pds" "find (pup_ready st) pds = Some pd"
  shows "case find (pup_ready st) (pup_waiting p) of
      Some pd' \<Rightarrow> pd = pd'
    | None \<Rightarrow> (\<exists>pd'. pup_ready st pd' \<and> pd' \<notin> re_pid ` set (pup_run_queue p))
        \<longrightarrow> pd \<notin> re_pid ` set (pup_run_queue p)"
proof -
  obtain new cur where t: "pds = filter (pup_listed st) (pup_waiting p) @ new @ cur"
    "set new = {pd. pup_listed st pd} - re_pid ` set (pup_run_queue p)"
    using assms(2) by (auto simp: pup_turns_def)
  have w: "find (pup_ready st) (filter (pup_listed st) (pup_waiting p)) = find (pup_ready st) (pup_waiting p)"
    by (rule find_filter_implied) (rule pup_ready_listed [OF assms(1)])
  show ?thesis
  proof (cases "find (pup_ready st) (pup_waiting p)")
    case None
    have "pd \<in> set new" if "pup_ready st pd'" "pd' \<notin> re_pid ` set (pup_run_queue p)" for pd'
    proof -
      have "pd' \<in> set new" using that t(2) pup_ready_listed [OF assms(1)] by auto
      then have "find (pup_ready st) new \<noteq> None" using that(1) unfolding find_None_iff by blast
      then obtain x where "find (pup_ready st) new = Some x" by blast
      moreover from this have "x \<in> set new" by (auto simp: find_Some_iff)
      ultimately show ?thesis using assms(3) None by (simp add: t(1) find_append_Some w)
    qed
    then show ?thesis using None t(2) by auto
  qed (use assms(3) t(1) w in \<open>auto simp: find_append_Some\<close>)
qed

text \<open>The three outcomes of a run.\<close>

lemma pup_Sched_outcome:
  assumes "wf_status st" "pup_inv p st"
  obtains (idle) p1 where "pup_Sched e p st = Some (p1, [])" "pup_inv p1 st" "\<not> some_ready st"
  | (in_time) p1 where "pup_Sched e p st = Some (p1, [])" "pup_inv p1 st" "pup_in_time (env_now e) p st"
      "some_ready st" "pup_end p1 = pup_end p" "pup_ready st (re_pid (hd (pup_run_queue p)))"
      "\<forall>h q. xq_of st h = Some q \<longrightarrow> xs_pid q = re_pid (hd (pup_run_queue p)) \<longrightarrow> \<not> xs_suspended q"
  | (switch) p1 rq where "pup_Sched e p st = pup_run_next (env_now e) st p1 rq" "some_ready st"
      "\<not> pup_in_time (env_now e) p st" "pup_turns p st (map re_pid rq)"
      "distinct (map re_pid rq)" "re_pid ` set rq = {pd. pup_listed st pd}" "list_ex re_ready rq"
      "\<forall>en \<in> set rq. \<not> re_running en" "\<forall>en \<in> set rq. re_ready en = pup_ready st (re_pid en)"
      "pup_pids p1 = re_pid ` set rq"
proof -
  let ?f = "\<lambda>en. en\<lparr> re_ready := pup_ready st (re_pid en) \<rparr>" and ?L = "\<lambda>en. pup_listed st (re_pid en)"
  obtain kept erased new pids where prep: "pup_prune st (pup_run_queue p) = Some (kept, erased)"
    "pup_admit st (st_procs st) (pup_pids p - set erased) = Some (new, pids)"
    "pids = re_pid ` set (kept @ new)" "pup_fresh st (kept @ new)"
    "kept = map ?f (filter ?L (pup_run_queue p))"
    "re_pid ` set new = {pd. pup_listed st pd} - re_pid ` set (pup_run_queue p)"
    "\<forall>en \<in> set new. \<not> re_running en"
    using pup_prepare [OF assms] by blast
  define rq where "rq = kept @ new"
  define p1 where "p1 = p\<lparr> pup_utils := (\<lambda>pd. if proc_of st pd = None then None else pup_utils p pd),
     pup_pids := pids, pup_run_queue := rq \<rparr>"
  note fr = prep(4) [folded rq_def]
  have inv1: "pup_inv p1 st"
    using fr prep(3) by (simp add: p1_def rq_def pup_inv_def pup_fresh_def)
  have any: "list_ex re_ready rq \<longleftrightarrow> some_ready st" by (rule pup_any_ready [OF assms(1) fr])
  have tl_idle: "\<forall>x \<in> set (tl rq). \<not> re_running x" "\<forall>x \<in> set (tl (pup_run_queue p)). \<not> re_running x"
    using fr assms(2) by (simp_all add: pup_fresh_def pup_inv_def)
  have p1p: "pup_pids p1 = re_pid ` set rq" "pup_end p1 = pup_end p"
    using prep(3) by (simp_all add: p1_def rq_def)
  have kp: "map re_pid kept = filter (pup_listed st) (map re_pid (pup_run_queue p))"
    by (simp add: prep(5) filter_map comp_def)
  have def: "pup_Sched e p st =
     (if rq = [] then Some (p1, [])
      else if \<not> list_ex re_ready rq then Some (p1, [])
      else (let en = hd rq in
        if re_running en then
          (let ts_remain = (pup_end p1 > env_now e) in
           if ts_remain \<and> re_ready en then Some (p1, [])
           else pup_run_next (env_now e) st p1
             (tl rq @ [\<lparr> re_pid = re_pid en, re_ready = re_ready en, re_running = False,
                        re_budget = (if ts_remain then ns_to_us (pup_end p1 - env_now e) else 0) \<rparr>]))
        else pup_run_next (env_now e) st p1 rq))"
    using prep(1,2) by (simp add: pup_Sched_def Let_def p1_def rq_def)
  show thesis
  proof (cases "some_ready st")
    case False
    then have "pup_Sched e p st = Some (p1, [])" using any by (simp add: def)
    then show thesis using idle inv1 False by blast
  next
    case True
    then have ex: "list_ex re_ready rq" using any by simp
    then obtain en rest where rq: "rq = en # rest" by (cases rq) auto
    have fre: "re_ready en = pup_ready st (re_pid en)" using fr by (simp add: pup_fresh_def rq)
    show thesis
    proof (cases "re_running en")
      case False
      have notime: "\<not> pup_in_time (env_now e) p st"
        using False pup_ready_listed [OF assms(1)] rq prep(5) by (auto simp: pup_in_time_def rq_def)
      have w: "pup_waiting p = map re_pid (pup_run_queue p)
          \<or> (\<exists>x xs. pup_run_queue p = x # xs \<and> \<not> ?L x \<and> pup_waiting p = map re_pid xs)"
        using False rq prep(5) by (auto simp: pup_waiting_def rq_def split: list.split)
      have "filter (pup_listed st) (pup_waiting p) = filter (pup_listed st) (map re_pid (pup_run_queue p))"
        using w by (elim disjE exE conjE) simp_all
      then have "pup_turns p st (map re_pid rq)"
        unfolding pup_turns_def rq_def map_append kp
        by (intro exI [of _ "map re_pid new"] exI [of _ "[]"]) (simp add: prep(6))
      moreover have "pup_Sched e p st = pup_run_next (env_now e) st p1 rq"
        using ex False by (simp add: def rq)
      ultimately show thesis
        using switch True notime ex fr False tl_idle(1) p1p(1) by (auto simp: pup_fresh_def rq)
    next
      case run: True
      then have "en \<notin> set new" using prep(7) by blast
      then obtain x xs where q: "pup_run_queue p = x # xs" and x: "?L x" "en = ?f x" "re_running x"
        "rest = map ?f (filter ?L xs) @ new"
      proof (cases "filter ?L (pup_run_queue p)")
        case Nil
        then show thesis using rq \<open>en \<notin> set new\<close> by (auto simp: rq_def prep(5))
      next
        case (Cons y ys)
        then have y: "en = ?f y" "rest = map ?f ys @ new" using rq by (auto simp: rq_def prep(5))
        then have "re_running y" using run by simp
        have "y \<in> set (filter ?L (pup_run_queue p))" using Cons by simp
        then have l: "y \<in> set (pup_run_queue p)" "?L y" by simp_all
        with \<open>re_running y\<close> obtain zs where "pup_run_queue p = y # zs"
          using tl_idle(2) by (cases "pup_run_queue p") auto
        then show thesis using that y Cons l(2) \<open>re_running y\<close> by auto
      qed
      show thesis
      proof (cases "pup_end p > env_now e \<and> re_ready en")
        case t: True
        then have "pup_Sched e p st = Some (p1, [])" using ex run p1p by (simp add: def rq Let_def)
        moreover have "\<forall>h q. xq_of st h = Some q \<longrightarrow> xs_pid q = re_pid en \<longrightarrow> \<not> xs_suspended q"
          using fr run by (simp add: pup_fresh_def rq)
        moreover have "pup_in_time (env_now e) p st" using t fre x(2,3) q by (simp add: pup_in_time_def)
        ultimately show thesis using in_time inv1 t fre p1p True x(2) q by simp
      next
        case False
        let ?en = "\<lparr> re_pid = re_pid en, re_ready = re_ready en, re_running = False,
           re_budget = (if pup_end p > env_now e then ns_to_us (pup_end p - env_now e) else 0) \<rparr>"
        have "pup_Sched e p st = pup_run_next (env_now e) st p1 (rest @ [?en])"
          using ex False run p1p by (auto simp: def rq Let_def)
        moreover have "\<not> pup_in_time (env_now e) p st" using False fre x(2) q by (auto simp: pup_in_time_def)
        moreover have "map re_pid (rest @ [?en])
            = filter (pup_listed st) (pup_waiting p) @ map re_pid new @ [re_pid x]"
          using x q by (simp add: pup_waiting_def filter_map comp_def)
        then have "pup_turns p st (map re_pid (rest @ [?en]))"
          unfolding pup_turns_def using prep(6) q
          by (intro exI [of _ "map re_pid new"] exI [of _ "[re_pid x]"]) simp
        moreover have "re_pid ` set (rest @ [?en]) = re_pid ` set rq" by (simp add: rq)
        moreover have "distinct (map re_pid (rest @ [?en]))" using fr by (simp add: pup_fresh_def rq)
        moreover have "list_ex re_ready (rest @ [?en])" using ex by (auto simp: rq)
        moreover have "\<forall>x \<in> set (rest @ [?en]). \<not> re_running x" using tl_idle(1) by (simp add: rq)
        moreover have "\<forall>x \<in> set (rest @ [?en]). re_ready x = pup_ready st (re_pid x)"
          using fr fre by (simp add: pup_fresh_def rq)
        ultimately show thesis
          using switch [of p1 "rest @ [?en]"] True fr p1p(1) unfolding pup_fresh_def by metis
      qed
    qed
  qed
qed

lemma pup_Sched_cases:
  assumes "wf_status st" "pup_inv p st"
  shows "(\<exists>p'. pup_Sched e p st = Some (p', []) \<and> pup_inv p' st \<and> \<not> some_ready st)
     \<or> (\<exists>p' pd. pup_Sched e p st = Some (p', []) \<and> pup_inv p' st \<and> pup_ready st pd
          \<and> env_now e < pup_end p \<and> pup_end p' = pup_end p
          \<and> (\<forall>h q. xq_of st h = Some q \<longrightarrow> xs_pid q = pd \<longrightarrow> \<not> xs_suspended q))
     \<or> (\<exists>p' acts pd. pup_Sched e p st = Some (p', acts)
          \<and> (\<forall>ts. pup_inv p' (fst (run_actions acts (st, ts)))) \<and> pup_ready st pd
          \<and> (\<forall>h q. xq_of st h = Some q \<longrightarrow> (left_suspended st acts h \<longleftrightarrow> xs_pid q \<noteq> pd))
          \<and> (\<forall>h b. decision acts h = Some b \<longrightarrow> h \<in> fst ` set (st_xqueues st)))"
proof (rule pup_Sched_outcome [OF assms, where e = e], goal_cases idle in_time switch)
  case (in_time p1)
  then show ?thesis by (auto simp: pup_in_time_def)
next
  case (switch p1 rq)
  from pup_run_next_effect [OF assms(1) switch(5-10), of "env_now e"] switch(1)
  show ?thesis by (simp only:) blast
qed blast

interpretation pup_pol: wc_policy pup_Sched "\<lambda>_. pup_RecvHint" pup_inv
proof unfold_locales
  fix e p st assume *: "wf_status st" "pup_inv p st"
  show "\<exists>p' acts. pup_Sched e p st = Some (p', acts)"
    using pup_Sched_cases [OF *, of e] by blast
next
  fix e p st p' acts ts
  assume *: "wf_status st" "pup_inv p st" "pup_Sched e p st = Some (p', acts)"
  show "pup_inv p' (fst (run_actions acts (st, ts)))"
    using pup_Sched_cases [OF *(1,2), of e] *(3) by auto
next
  fix e p st p' acts h b
  assume *: "wf_status st" "pup_inv p st" "pup_Sched e p st = Some (p', acts)"
    "decision acts h = Some b"
  show "h \<in> fst ` set (st_xqueues st)"
    using pup_Sched_cases [OF *(1,2), of e] *(3,4) by auto
next
  fix e p st p' acts
  assume *: "wf_status st" "pup_inv p st" "pup_Sched e p st = Some (p', acts)" "some_ready st"
  from pup_Sched_cases [OF *(1,2), of e] *(3,4) obtain pd where pd: "pup_ready st pd"
    "\<forall>h q. xq_of st h = Some q \<longrightarrow> xs_pid q = pd \<longrightarrow> \<not> left_suspended st acts h"
    by (auto simp: left_suspended_Nil)
  then show "\<exists>h q. xq_of st h = Some q \<and> xs_ready q \<and> \<not> left_suspended st acts h"
    by (auto simp: pup_ready_def)
qed (auto intro: pup_inv_hint pup_inv_less)

section \<open>Properties\<close>

text \<open>C9: A run of PUP makes no callback exactly if nothing is ready, or if the current process is within
  its time and has ready work; then the XQueues of that process are not suspended, and those of
  other processes stay as they are. Otherwise it hands the device to one process that has ready
  work, the first one of those that wait, a process that is new only if none of them has ready
  work, and the current one only if no other has: afterwards exactly the XQueues of the other
  processes are suspended, this process is the current one, and there is a timer for the end
  of its time.\<close>

theorem pup_runs_one_ready_process:
  assumes "wf_status st" "pup_inv p st" "pup_Sched e p st = Some (p', acts)"
  shows "(acts = [] \<longleftrightarrow> (\<forall>pd. \<not> pup_ready st pd)
       \<or> (\<exists>en rest. pup_run_queue p = en # rest \<and> re_running en \<and> pup_ready st (re_pid en)
            \<and> env_now e < pup_end p))
    \<and> (acts = [] \<longrightarrow> (\<exists>pd. pup_ready st pd) \<longrightarrow>
         (\<forall>h q. xq_of st h = Some q \<longrightarrow> xs_pid q = re_pid (hd (pup_run_queue p)) \<longrightarrow> \<not> xs_suspended q))
    \<and> (acts \<noteq> [] \<longrightarrow> (\<exists>pd. pup_ready st pd
       \<and> (\<forall>h q. xq_of st h = Some q \<longrightarrow>
            xq_of (fst (run_actions acts (st, ts))) h = Some (q\<lparr> xs_suspended := (xs_pid q \<noteq> pd) \<rparr>))
       \<and> (case find (pup_ready st) (pup_waiting p) of Some pd' \<Rightarrow> pd = pd'
          | None \<Rightarrow> (\<exists>pd'. pup_ready st pd' \<and> pd' \<notin> re_pid ` set (pup_run_queue p))
               \<longrightarrow> pd \<notin> re_pid ` set (pup_run_queue p))
       \<and> re_pid (hd (pup_run_queue p')) = pd \<and> re_running (hd (pup_run_queue p'))
       \<and> AddTimer (pup_end p') \<in> set acts))"
proof (rule pup_Sched_outcome [OF assms(1,2), where e = e], goal_cases idle in_time switch)
  case (idle p1)
  then have "acts = []" "\<forall>pd. \<not> pup_ready st pd"
    using assms(3) by (auto simp: pup_ready_def intro: some_readyI)
  then show ?thesis by blast
next
  case (in_time p1)
  then have "acts = []" using assms(3) by simp
  then show ?thesis using in_time(3,7) unfolding pup_in_time_def by blast
next
  case (switch p1 rq)
  from pup_run_next_effect [OF assms(1) switch(5-10), of "env_now e"] switch(1) assms(3)
  obtain pd where pd: "pup_ready st pd" "find (pup_ready st) (map re_pid rq) = Some pd"
    "\<forall>h q. xq_of st h = Some q \<longrightarrow> (left_suspended st acts h \<longleftrightarrow> xs_pid q \<noteq> pd)"
    "re_pid (hd (pup_run_queue p')) = pd" "re_running (hd (pup_run_queue p'))"
    "AddTimer (pup_end p') \<in> set acts" "acts \<noteq> []" by auto
  have "\<forall>h q. xq_of st h = Some q \<longrightarrow>
      xq_of (fst (run_actions acts (st, ts))) h = Some (q\<lparr> xs_suspended := (xs_pid q \<noteq> pd) \<rparr>)"
    using pd(3) by (simp add: run_actions_left_suspended)
  then show ?thesis using pd(1,4-7) switch(3) pup_turns_first [OF assms(1) switch(4) pd(2)]
    unfolding pup_in_time_def by blast
qed

lemma ex_pup_run:
  "\<exists>p' acts. pup_Sched ex_env pup_init (ex_status True True) = Some (p', AddTimer 5000000 # acts)"
proof -
  have "pup_GetBudgetUs pup_init [\<lparr> re_pid = 10, re_ready = True, re_running = False, re_budget = 0 \<rparr>,
      \<lparr> re_pid = 20, re_ready = True, re_running = False, re_budget = 0 \<rparr>] 10 = 5000"
    by (simp add: pup_GetBudgetUs_def pup_util_def pup_init_def sx_def)
  then show ?thesis
    by (simp add: pup_Sched_def pup_init_def ex_defs ex_env_def pup_has_xqueues_def
        pup_ProcessReady_def pup_run_next_def pup_rotate.simps pup_decay_def us_to_ns_def Let_def
        split_beta pup_GetBudgetUs_def pup_util_def sx_def)
qed

theorem pup_runs_one_ready_process_witness:
  "\<exists>p' acts. pup_Sched ex_env pup_init (ex_status True True) = Some (p', acts)
     \<and> (\<exists>pd. pup_ready (ex_status True True) pd
         \<and> re_pid (hd (pup_run_queue p')) = pd \<and> AddTimer (pup_end p') \<in> set acts)"
proof -
  obtain p' acts where r: "pup_Sched ex_env pup_init (ex_status True True) = Some (p', acts)"
    "acts \<noteq> []"
    using ex_pup_run by blast
  from pup_runs_one_ready_process [OF wf_ex_status pup_inv_init r(1)] r show ?thesis by blast
qed

text \<open>While the current process is within its time a process that is new is not suspended: its
  XQueues, which the table has as not suspended from their creation, run beside those of the
  current one.\<close>

lemma pup_newcomer_runs_beside_current:
  assumes "wf_status st" "pup_inv p st" "pup_Sched e p st = Some (p', acts)" "pup_in_time (env_now e) p st"
    "xq_of st h = Some q" "xs_pid q \<notin> re_pid ` set (pup_run_queue p)" "\<not> xs_suspended q"
  shows "xq_of (fst (run_actions acts (st, ts))) h = Some q \<and> xs_pid q \<noteq> re_pid (hd (pup_run_queue p))"
proof (rule pup_Sched_outcome [OF assms(1,2), where e = e], goal_cases idle in_time switch)
  case (in_time p1)
  then have "acts = []" using assms(3) by simp
  moreover have "pup_run_queue p \<noteq> []" using assms(4) by (auto simp: pup_in_time_def)
  ultimately show ?thesis using assms(5,6) by (auto simp: run_actions_def)
qed (use assms(4) pup_in_time_ready [OF assms(4,1)] in blast)+

text \<open>C10: The loop that looks for the next ready process ends whenever some process of the
  run queue is ready, with a ready process in front and the same processes in the queue.\<close>

theorem pup_search_terminates:
  assumes "list_ex re_ready rq"
  shows "\<exists>rq'. pup_rotate p rq = Some rq' \<and> rq' \<noteq> [] \<and> re_ready (hd rq')
     \<and> mset (map re_pid rq') = mset (map re_pid rq)"
  using pup_rotate_total [OF assms, of p] by blast

theorem pup_search_terminates_witness:
  "\<exists>rq'. pup_rotate pup_init
      [\<lparr> re_pid = 10, re_ready = False, re_running = False, re_budget = 0 \<rparr>,
       \<lparr> re_pid = 20, re_ready = True, re_running = False, re_budget = 0 \<rparr>] = Some rq'
      \<and> re_ready (hd rq')"
  using pup_search_terminates
    [of "[\<lparr> re_pid = 10, re_ready = False, re_running = False, re_budget = 0 \<rparr>,
       \<lparr> re_pid = 20, re_ready = True, re_running = False, re_budget = 0 \<rparr>]" pup_init]
  by auto

end
