(* ===== verification/FairPolicy.thy ===== *)
theory FairPolicy
  imports PriorityPolicies
begin

text \<open>
  CFS (\<^verbatim>\<open>sched/src/policy/cfs.cpp\<close>): a virtual run time per XQueue, charged at a rate that
  falls with the weight of its priority; on every device the ready XQueue with the smallest
  virtual run time runs. All arithmetic is on doubles; \<^verbatim>\<open>std::pow(1.2, prio)\<close>, whose
  rounding the C++ standard does not fix, is \<open>env_pow\<close>.
\<close>

section \<open>State\<close>

record cfs_node =
  cn_weight :: f64
  cn_vruntime :: f64
  cn_last_resume :: time_ns
  cn_running :: bool
  cn_priority :: int

type_synonym cfs = "xhandle \<rightharpoonup> cfs_node"

definition cfs_new_node :: cfs_node where
  "cfs_new_node = \<lparr> cn_weight = Fin 1024, cn_vruntime = Fin 0, cn_last_resume = 0,
     cn_running = False, cn_priority = PRIORITY_DEFAULT \<rparr>"

definition cfs_time_slice :: int where
  "cfs_time_slice = 1000"

section \<open>Sched\<close>

text \<open>Charging the running XQueues for the time since they were resumed.\<close>

definition cfs_charge :: "time_ns \<Rightarrow> cfs_node \<Rightarrow> cfs_node" where
  "cfs_charge now n =
     (let delta_us = ns_to_us (now - cn_last_resume n) in
      n\<lparr> cn_vruntime := f_add (cn_vruntime n)
           (f_mul (f_of_int delta_us) (f_div (Fin 1024) (cn_weight n))) \<rparr>)"

definition cfs_charge_upd :: "time_ns \<Rightarrow> xqueue_status \<Rightarrow> cfs_node option \<Rightarrow> cfs_node option" where
  "cfs_charge_upd now q n =
     (case n of Some m \<Rightarrow> if cn_running m then Some (cfs_charge now m) else Some m | None \<Rightarrow> None)"

text \<open>The smallest virtual run time of each device among the XQueues already known.\<close>

definition cfs_min_vruntimes :: "cfs \<Rightarrow> (xhandle \<times> xqueue_status) list \<Rightarrow> xdevice \<Rightarrow> f64 option" where
  "cfs_min_vruntimes p qs =
     foldl (\<lambda>m (_, q).
        if \<not> xs_ready q then m
        else (case p (xs_handle q) of
                None \<Rightarrow> m
              | Some n \<Rightarrow>
                  (case m (xs_device q) of
                     None \<Rightarrow> m(xs_device q \<mapsto> cn_vruntime n)
                   | Some v \<Rightarrow> if f_lt (cn_vruntime n) v
                              then m(xs_device q \<mapsto> cn_vruntime n) else m)))
       Map.empty qs"

text \<open>New XQueues enter at the minimum of their device; the selection.\<close>

fun cfs_select_step :: "time_ns \<Rightarrow> cfs \<times> (xdevice \<rightharpoonup> f64) \<times> (xdevice \<rightharpoonup> xhandle)
    \<Rightarrow> xhandle \<times> xqueue_status \<Rightarrow> cfs \<times> (xdevice \<rightharpoonup> f64) \<times> (xdevice \<rightharpoonup> xhandle)" where
  "cfs_select_step now (p, minv, sel) (_, q) =
     (if \<not> xs_ready q then (p, minv, sel)
      else
        (let dev = xs_device q; h = xs_handle q;
             (p1, minv1) =
               (if p h = None then
                  (let v = (case minv dev of Some v \<Rightarrow> v | None \<Rightarrow> Fin 0) in
                   (p(h \<mapsto> cfs_new_node\<lparr> cn_last_resume := now, cn_vruntime := v \<rparr>),
                    if minv dev = None then minv(dev \<mapsto> v) else minv))
                else (p, minv));
             v = cn_vruntime (the (p1 h)) in
         case sel dev of
           None \<Rightarrow> (p1, minv1, sel(dev \<mapsto> h))
         | Some b \<Rightarrow> if f_lt v (cn_vruntime (the (p1 b))) then (p1, minv1, sel(dev \<mapsto> h))
                    else (p1, minv1, sel)))"

definition cfs_node_of :: "cfs_node option \<Rightarrow> cfs_node" where
  "cfs_node_of n = (case n of Some m \<Rightarrow> m | None \<Rightarrow> cfs_new_node)"

text \<open>The last loop: \<^verbatim>\<open>cfs_infos_[handle]\<close> creates a default node where there is none.\<close>

definition cfs_chosen :: "(xdevice \<rightharpoonup> xhandle) \<Rightarrow> xqueue_status \<Rightarrow> bool" where
  "cfs_chosen sel q \<longleftrightarrow> (case sel (xs_device q) of Some h \<Rightarrow> h | None \<Rightarrow> 0) = xs_handle q"

definition cfs_apply_upd :: "time_ns \<Rightarrow> (xdevice \<rightharpoonup> xhandle) \<Rightarrow> xqueue_status \<Rightarrow> cfs_node option
    \<Rightarrow> cfs_node option" where
  "cfs_apply_upd now sel q n =
     (let m = cfs_node_of n in
      if \<not> xs_ready q then Some (m\<lparr> cn_running := False \<rparr>)
      else if cfs_chosen sel q then
        (if \<not> cn_running m then Some (m\<lparr> cn_running := True, cn_last_resume := now \<rparr>)
         else Some (m\<lparr> cn_last_resume := now \<rparr>))
      else Some (m\<lparr> cn_running := False \<rparr>))"

definition cfs_apply_emit :: "(xdevice \<rightharpoonup> xhandle) \<Rightarrow> xqueue_status \<Rightarrow> cfs_node option
    \<Rightarrow> action list" where
  "cfs_apply_emit sel q n =
     (let m = cfs_node_of n in
      if \<not> xs_ready q then []
      else if cfs_chosen sel q then (if \<not> cn_running m then [Resume (xs_handle q)] else [])
      else [Suspend (xs_handle q)])"

definition cfs_Sched :: "sched_env \<Rightarrow> cfs \<Rightarrow> status \<Rightarrow> (cfs \<times> action list) option" where
  "cfs_Sched e p0 st =
     (let now = env_now e; qs = st_xqueues st;
          (p1, _) = foldl (each_queue (cfs_charge_upd now) (\<lambda>_ _. [])) (p0, []) qs;
          has_ready = list_ex (\<lambda>(_, q). xs_ready q) qs;
          minv = cfs_min_vruntimes p1 qs;
          (p2, _, sel) = foldl (cfs_select_step now) (p1, minv, Map.empty) qs;
          (p3, acts) = foldl (each_queue (cfs_apply_upd now sel) (cfs_apply_emit sel)) (p2, []) qs in
      Some (p3, acts @ (if has_ready then [AddTimer (now + us_to_ns cfs_time_slice)] else [])))"

definition cfs_RecvHint :: "sched_env \<Rightarrow> cfs \<Rightarrow> hint \<Rightarrow> cfs" where
  "cfs_RecvHint e p ht =
     (case ht of
        PriorityHint h prio \<Rightarrow>
          (let weight = f_mul (Fin 1024) (env_pow e prio);
               n = cfs_node_of (p h) in
           p(h \<mapsto> n\<lparr> cn_priority := prio, cn_weight := weight \<rparr>))
      | _ \<Rightarrow> p)"

section \<open>The selection\<close>

definition cfs_vr :: "cfs \<Rightarrow> xhandle \<Rightarrow> f64" where
  "cfs_vr p h = cn_vruntime (cfs_node_of (p h))"

text \<open>What the selection loop has established after the XQueues \<open>qs\<close>, starting from \<open>p\<close>.\<close>

definition cfs_sel_inv :: "cfs \<Rightarrow> (xhandle \<times> xqueue_status) list
    \<Rightarrow> cfs \<times> (xdevice \<rightharpoonup> f64) \<times> (xdevice \<rightharpoonup> xhandle) \<Rightarrow> bool" where
  "cfs_sel_inv p qs s \<longleftrightarrow> (case s of (p', minv, sel) \<Rightarrow>
     p \<subseteq>\<^sub>m p'
     \<and> (\<forall>h n. p' h = Some n \<longrightarrow> p h = None \<longrightarrow> \<not> cn_running n)
     \<and> (\<forall>(k, q) \<in> set qs. xs_ready q \<longrightarrow> p' k \<noteq> None \<and> sel (xs_device q) \<noteq> None)
     \<and> (\<forall>h. p' h \<noteq> None \<longrightarrow> p h = None \<longrightarrow> (\<exists>q. (h, q) \<in> set qs \<and> xs_ready q))
     \<and> (\<forall>d b. sel d = Some b \<longrightarrow> (\<exists>q. (b, q) \<in> set qs \<and> xs_ready q \<and> xs_device q = d)))"

lemma cfs_sel_inv_step:
  assumes "cfs_sel_inv p qs s" "xs_handle q = k"
  shows "cfs_sel_inv p (qs @ [(k, q)]) (cfs_select_step now s (k, q))"
proof -
  obtain p' minv sel where s: "s = (p', minv, sel)" by (metis prod_cases3)
  show ?thesis
  proof (cases "xs_ready q")
    case False
    then show ?thesis using assms by (simp add: s cfs_sel_inv_def) blast
  next
    case True
    show ?thesis
    proof (cases "p' k")
      case None
      then have "p k = None" using assms(1) by (auto simp: s cfs_sel_inv_def map_le_def dom_def)
      then show ?thesis
        using assms True None
        by (auto simp: s cfs_sel_inv_def Let_def map_le_def cfs_new_node_def split: option.splits) blast+
    next
      case (Some n)
      then show ?thesis
        using assms True
        by (auto simp: s cfs_sel_inv_def Let_def map_le_def split: option.splits) blast+
    qed
  qed
qed

lemma cfs_sel_inv_fold:
  assumes "\<forall>(k, q) \<in> set qs. xs_handle q = k"
  shows "cfs_sel_inv p qs (foldl (cfs_select_step now) (p, minv, Map.empty) qs)"
  using assms
proof (induction qs rule: rev_induct)
  case Nil
  show ?case by (simp add: cfs_sel_inv_def)
next
  case (snoc x qs)
  obtain k q where x: "x = (k, q)" by (cases x)
  show ?case
    using cfs_sel_inv_step [of p qs _ q k] snoc by (simp add: x)
qed

text \<open>Without NaNs the selected XQueue of a device has the smallest virtual run time.\<close>

lemma f_not_lt_trans:
  "\<not> f_lt b a \<Longrightarrow> \<not> f_lt c b \<Longrightarrow> b \<noteq> NaN \<Longrightarrow> a \<noteq> NaN \<Longrightarrow> c \<noteq> NaN \<Longrightarrow> \<not> f_lt c a"
  by (cases a; cases b; cases c) auto

definition cfs_no_nan :: "cfs \<Rightarrow> bool" where
  "cfs_no_nan p \<longleftrightarrow> (\<forall>h. cfs_vr p h \<noteq> NaN)"

definition cfs_min_inv :: "(xhandle \<times> xqueue_status) list
    \<Rightarrow> cfs \<times> (xdevice \<rightharpoonup> f64) \<times> (xdevice \<rightharpoonup> xhandle) \<Rightarrow> bool" where
  "cfs_min_inv qs s \<longleftrightarrow> (case s of (p', minv, sel) \<Rightarrow>
     cfs_no_nan p' \<and> (\<forall>d v. minv d = Some v \<longrightarrow> v \<noteq> NaN)
     \<and> (\<forall>d b. sel d = Some b \<longrightarrow> p' b \<noteq> None)
     \<and> (\<forall>k q b. (k, q) \<in> set qs \<longrightarrow> xs_ready q
          \<longrightarrow> p' k \<noteq> None \<and> sel (xs_device q) \<noteq> None
          \<and> (sel (xs_device q) = Some b \<longrightarrow> \<not> f_lt (cfs_vr p' k) (cfs_vr p' b))))"

lemma cfs_vr_Some: "p h = Some n \<Longrightarrow> cn_vruntime n = cfs_vr p h"
  by (simp add: cfs_vr_def cfs_node_of_def)

lemma cfs_vr_upd: "cfs_vr (p(h \<mapsto> n)) h' = (if h' = h then cn_vruntime n else cfs_vr p h')"
  by (simp add: cfs_vr_def cfs_node_of_def)

text \<open>The two halves of a selection step: entering a new node, and choosing.\<close>

lemma cfs_min_inv_enter:
  assumes "cfs_min_inv qs (p', minv, sel)" "p' k = None" "v \<noteq> NaN"
  shows "cfs_min_inv qs (p'(k \<mapsto> cfs_new_node\<lparr> cn_last_resume := now, cn_vruntime := v \<rparr>),
     minv(d \<mapsto> v), sel)"
    and "cfs_min_inv qs (p'(k \<mapsto> cfs_new_node\<lparr> cn_last_resume := now, cn_vruntime := v \<rparr>), minv, sel)"
proof -
  have "\<forall>d b. sel d = Some b \<longrightarrow> p' b \<noteq> None" using assms(1) by (simp add: cfs_min_inv_def)
  then have ns: "sel d' \<noteq> Some k" for d' using assms(2) by blast
  have "\<forall>k q. (k, q) \<in> set qs \<longrightarrow> xs_ready q \<longrightarrow> p' k \<noteq> None"
    using assms(1) unfolding cfs_min_inv_def prod.case by blast
  then have nq: "\<not> xs_ready q" if "(k, q) \<in> set qs" for q
    using assms(2) that by blast
  show "cfs_min_inv qs (p'(k \<mapsto> cfs_new_node\<lparr> cn_last_resume := now, cn_vruntime := v \<rparr>),
     minv(d \<mapsto> v), sel)"
    and "cfs_min_inv qs (p'(k \<mapsto> cfs_new_node\<lparr> cn_last_resume := now, cn_vruntime := v \<rparr>), minv, sel)"
    using assms ns nq by (auto simp: cfs_min_inv_def cfs_no_nan_def cfs_vr_upd)
qed

lemma cfs_min_inv_choose:
  assumes inv: "cfs_min_inv qs (p', minv, sel)" and k: "p' k = Some n" "xs_ready q"
  shows "cfs_min_inv (qs @ [(k, q)])
     (case sel (xs_device q) of
        None \<Rightarrow> (p', minv, sel(xs_device q \<mapsto> k))
      | Some b \<Rightarrow> if f_lt (cn_vruntime n) (cn_vruntime (the (p' b)))
                 then (p', minv, sel(xs_device q \<mapsto> k)) else (p', minv, sel))"
proof -
  have vn: "cn_vruntime n = cfs_vr p' k" using cfs_vr_Some [of p' k n] k(1) .
  have nn: "cfs_vr p' h \<noteq> NaN" for h using inv by (simp add: cfs_min_inv_def cfs_no_nan_def)
  show ?thesis
  proof (cases "sel (xs_device q)")
    case None
    have "sel (xs_device q') \<noteq> None" if "(k', q') \<in> set qs" "xs_ready q'" for k' q'
      using inv that unfolding cfs_min_inv_def prod.case by blast
    then have "xs_device q' \<noteq> xs_device q" if "(k', q') \<in> set qs" "xs_ready q'" for k' q'
      using None that by metis
    then show ?thesis using inv k None by (auto simp: cfs_min_inv_def)
  next
    case (Some b)
    then obtain m where m: "p' b = Some m" using inv by (fastforce simp: cfs_min_inv_def)
    then have vb: "cn_vruntime (the (p' b)) = cfs_vr p' b" using cfs_vr_Some [of p' b m] m by simp
    have old: "\<not> f_lt (cfs_vr p' k') (cfs_vr p' b)"
      if "(k', q') \<in> set qs" "xs_ready q'" "xs_device q' = xs_device q" for k' q'
      using inv that Some by (auto simp: cfs_min_inv_def)
    show ?thesis
    proof (cases "f_lt (cfs_vr p' k) (cfs_vr p' b)")
      case True
      have "\<not> f_lt (cfs_vr p' k') (cfs_vr p' k)"
        if "(k', q') \<in> set qs" "xs_ready q'" "xs_device q' = xs_device q" for k' q'
        using old [OF that] True by (metis f_lt_trans)
      then show ?thesis using inv k Some True by (auto simp: cfs_min_inv_def vn vb)
    next
      case False
      then show ?thesis using inv k Some by (auto simp: cfs_min_inv_def vn vb)
    qed
  qed
qed

lemma cfs_min_inv_step:
  assumes "cfs_min_inv qs s" "xs_handle q = k"
  shows "cfs_min_inv (qs @ [(k, q)]) (cfs_select_step now s (k, q))"
proof -
  obtain p' minv sel where s: "s = (p', minv, sel)" by (metis prod_cases3)
  show ?thesis
  proof (cases "xs_ready q")
    case False
    then show ?thesis using assms by (auto simp: s cfs_min_inv_def)
  next
    case ready: True
    show ?thesis
    proof (cases "p' k")
      case None
      let ?v = "case minv (xs_device q) of Some v \<Rightarrow> v | None \<Rightarrow> Fin 0"
      let ?n = "cfs_new_node\<lparr> cn_last_resume := now, cn_vruntime := ?v \<rparr>"
      let ?mv = "if minv (xs_device q) = None then minv(xs_device q \<mapsto> ?v) else minv"
      have "?v \<noteq> NaN" using assms(1) by (auto simp: s cfs_min_inv_def split: option.splits)
      then have inv: "cfs_min_inv qs (p'(k \<mapsto> ?n), ?mv, sel)"
        using cfs_min_inv_enter [OF assms(1) [unfolded s] None] by simp
      have k: "(p'(k \<mapsto> ?n)) k = Some ?n" by simp
      have "cfs_select_step now s (k, q) =
          (case sel (xs_device q) of
             None \<Rightarrow> (p'(k \<mapsto> ?n), ?mv, sel(xs_device q \<mapsto> k))
           | Some b \<Rightarrow> if f_lt (cn_vruntime ?n) (cn_vruntime (the ((p'(k \<mapsto> ?n)) b)))
                 then (p'(k \<mapsto> ?n), ?mv, sel(xs_device q \<mapsto> k)) else (p'(k \<mapsto> ?n), ?mv, sel))"
        unfolding s cfs_select_step.simps Let_def assms(2) using ready None
        by (simp only: if_True if_False not_True_eq_False simp_thms prod.case k option.sel)
      then show ?thesis using cfs_min_inv_choose [OF inv k ready] by (simp only:)
    next
      case (Some n)
      from cfs_min_inv_choose [OF assms(1) [unfolded s] Some ready]
      show ?thesis using ready Some assms(2) by (cases "sel (xs_device q)") (simp_all add: s Let_def)
    qed
  qed
qed

lemma cfs_min_vruntimes_nan:
  assumes "cfs_no_nan p" "cfs_min_vruntimes p qs d = Some v"
  shows "v \<noteq> NaN"
  using assms(2)
proof (induction qs arbitrary: v rule: rev_induct)
  case (snoc x qs)
  obtain k q where x: "x = (k, q)" by (cases x)
  have "cn_vruntime n \<noteq> NaN" if "p (xs_handle q) = Some n" for n
    using assms(1) cfs_vr_Some [of p "xs_handle q" n] that by (simp add: cfs_no_nan_def)
  then show ?case using snoc
    by (auto simp: cfs_min_vruntimes_def x split: option.splits if_splits)
qed (simp add: cfs_min_vruntimes_def)

lemma cfs_min_inv_fold:
  assumes "cfs_no_nan p" "\<forall>(k, q) \<in> set qs. xs_handle q = k"
    and "\<And>d v. minv d = Some v \<Longrightarrow> v \<noteq> NaN"
  shows "cfs_min_inv qs (foldl (cfs_select_step now) (p, minv, Map.empty) qs)"
  using assms(2)
proof (induction qs rule: rev_induct)
  case Nil
  show ?case using assms(1,3) by (auto simp: cfs_min_inv_def)
next
  case (snoc x qs)
  obtain k q where x: "x = (k, q)" by (cases x)
  show ?case using cfs_min_inv_step [of qs _ q k] snoc by (simp add: x)
qed

section \<open>A whole run\<close>

definition cfs_charged :: "time_ns \<Rightarrow> status \<Rightarrow> cfs \<Rightarrow> cfs" where
  "cfs_charged now st p =
     (\<lambda>h. case xq_of st h of None \<Rightarrow> p h | Some q \<Rightarrow> cfs_charge_upd now q (p h))"

definition cfs_selected :: "time_ns \<Rightarrow> status \<Rightarrow> cfs \<Rightarrow> cfs \<times> (xdevice \<rightharpoonup> f64) \<times> (xdevice \<rightharpoonup> xhandle)" where
  "cfs_selected now st p =
     (let p1 = cfs_charged now st p in
      foldl (cfs_select_step now) (p1, cfs_min_vruntimes p1 (st_xqueues st), Map.empty) (st_xqueues st))"

lemma cfs_Sched_eq:
  assumes "wf_status st"
  shows "cfs_Sched e p st =
     (let now = env_now e; s = cfs_selected now st p; p2 = fst s; sel = snd (snd s) in
      Some ((\<lambda>h. case xq_of st h of None \<Rightarrow> p2 h | Some q \<Rightarrow> cfs_apply_upd now sel q (p2 h)),
        concat (map (\<lambda>(k, q). cfs_apply_emit sel q (p2 k)) (st_xqueues st))
          @ (if list_ex (\<lambda>(_, q). xs_ready q) (st_xqueues st)
             then [AddTimer (now + us_to_ns cfs_time_slice)] else [])))"
  by (simp add: cfs_Sched_def each_queue_fold [OF assms] cfs_selected_def cfs_charged_def Let_def
      split_beta)

lemma cfs_emit_own: "xs_handle q = h \<Longrightarrow> mentions_only h (cfs_apply_emit sel q n)"
  by (simp add: cfs_apply_emit_def Let_def)

lemma cfs_Sched_decision:
  assumes "wf_status st" "cfs_Sched e p st = Some (p', acts)"
  shows "decision acts h =
     (case xq_of st h of None \<Rightarrow> None
      | Some q \<Rightarrow> decision (cfs_apply_emit (snd (snd (cfs_selected (env_now e) st p))) q
                   (fst (cfs_selected (env_now e) st p) h)) h)"
proof -
  let ?s = "cfs_selected (env_now e) st p"
  have a: "acts = concat (map (\<lambda>(k, q). cfs_apply_emit (snd (snd ?s)) q (fst ?s k)) (st_xqueues st))
      @ (if list_ex (\<lambda>(_, q). xs_ready q) (st_xqueues st)
         then [AddTimer (env_now e + us_to_ns cfs_time_slice)] else [])"
    using assms(2) by (simp add: cfs_Sched_eq [OF assms(1)] Let_def)
  have d: "decision (concat (map (\<lambda>(k, q). cfs_apply_emit (snd (snd ?s)) q (fst ?s k)) (st_xqueues st))) h
      = (case xq_of st h of None \<Rightarrow> None
         | Some q \<Rightarrow> decision (cfs_apply_emit (snd (snd ?s)) q (fst ?s h)) h)"
    by (rule decision_each [OF assms(1)]) (auto intro!: cfs_emit_own dest: wf_handle [OF assms(1)])
  show ?thesis by (simp add: a decision_append d)
qed

lemma cfs_selected_inv:
  assumes "wf_status st"
  shows "cfs_sel_inv (cfs_charged now st p) (st_xqueues st) (cfs_selected now st p)"
  unfolding cfs_selected_def Let_def
  by (rule cfs_sel_inv_fold) (auto simp: st_queue_iff [OF assms] wf_handle [OF assms])

definition cfs_inv :: "cfs \<Rightarrow> status \<Rightarrow> bool" where
  "cfs_inv p st \<longleftrightarrow> (\<forall>h n q. p h = Some n \<longrightarrow> cn_running n \<longrightarrow> xq_of st h = Some q
     \<longrightarrow> \<not> xs_suspended q)"

lemma cfs_charged_running:
  "cfs_charged now st p h = Some n \<Longrightarrow> \<exists>m. p h = Some m \<and> cn_running m = cn_running n"
  by (auto simp: cfs_charged_def cfs_charge_upd_def cfs_charge_def Let_def
      split: option.splits if_splits)

text \<open>A node that is running before the last loop was running before the run.\<close>

lemma cfs_selected_running:
  assumes "wf_status st" "fst (cfs_selected now st p) h = Some n" "cn_running n"
  shows "\<exists>m. p h = Some m \<and> cn_running m"
proof -
  obtain p2 minv sel where s: "cfs_selected now st p = (p2, minv, sel)" by (metis prod_cases3)
  note I = cfs_selected_inv [OF assms(1), of now p, unfolded s cfs_sel_inv_def prod.case]
  have "cfs_charged now st p h \<noteq> None" using I assms(2,3) s by auto
  then obtain m where m: "cfs_charged now st p h = Some m" by blast
  then have "p2 h = Some m" using I by (auto simp: map_le_def dom_def)
  then have "cn_running m" using assms(2,3) s by simp
  then show ?thesis using cfs_charged_running [OF m] by auto
qed

lemma cfs_left_suspended:
  assumes "wf_status st" "cfs_inv p st" "cfs_Sched e p st = Some (p', acts)"
    "xq_of st h = Some q" "xs_ready q"
  shows "left_suspended st acts h \<longleftrightarrow>
     snd (snd (cfs_selected (env_now e) st p)) (xs_device q) \<noteq> Some h"
proof -
  let ?s = "cfs_selected (env_now e) st p"
  obtain p2 minv sel where s: "?s = (p2, minv, sel)" by (metis prod_cases3)
  note I = cfs_selected_inv [OF assms(1), of "env_now e" p, unfolded s cfs_sel_inv_def prod.case]
  have "(h, q) \<in> set (st_xqueues st)" using assms(4) by (simp add: st_queue_iff [OF assms(1)])
  then obtain n b where n: "p2 h = Some n" and b: "sel (xs_device q) = Some b"
    using I assms(5) by fastforce
  have ch: "cfs_chosen sel q \<longleftrightarrow> b = h"
    by (simp add: cfs_chosen_def b wf_handle [OF assms(1,4)])
  have run: "cn_running n \<Longrightarrow> \<not> xs_suspended q"
    using cfs_selected_running [OF assms(1), of "env_now e" p h n] n s assms(2,4)
    by (auto simp: cfs_inv_def)
  show ?thesis
    using cfs_Sched_decision [OF assms(1,3), of h] run assms(4,5) b ch n
    by (auto simp: left_suspended_def s cfs_apply_emit_def Let_def cfs_node_of_def
        wf_handle [OF assms(1,4)])
qed

lemma cfs_Sched_inv:
  assumes "wf_status st" "cfs_inv p st" "cfs_Sched e p st = Some (p', acts)"
  shows "cfs_inv p' (fst (run_actions acts (st, ts)))"
  unfolding cfs_inv_def
proof (intro allI impI)
  fix h n q'
  assume h: "p' h = Some n" "cn_running n" "xq_of (fst (run_actions acts (st, ts))) h = Some q'"
  then obtain q where q: "xq_of st h = Some q" "q' = q\<lparr> xs_suspended := left_suspended st acts h \<rparr>"
    by (elim run_actions_cases)
  let ?s = "cfs_selected (env_now e) st p"
  have p': "p' h = cfs_apply_upd (env_now e) (snd (snd ?s)) q (fst ?s h)"
    using assms(3) q(1) by (auto simp: cfs_Sched_eq [OF assms(1)] Let_def)
  then have ready: "xs_ready q" and ch: "cfs_chosen (snd (snd ?s)) q"
    using h(1,2) by (auto simp: cfs_apply_upd_def Let_def split: if_splits)
  obtain p2 minv sel where s: "?s = (p2, minv, sel)" by (metis prod_cases3)
  note I = cfs_selected_inv [OF assms(1), of "env_now e" p, unfolded s cfs_sel_inv_def prod.case]
  have "(h, q) \<in> set (st_xqueues st)" using q(1) by (simp add: st_queue_iff [OF assms(1)])
  then obtain b where b: "sel (xs_device q) = Some b" using I ready by fastforce
  then have "sel (xs_device q) = Some h"
    using ch by (simp add: cfs_chosen_def s wf_handle [OF assms(1) q(1)])
  then show "\<not> xs_suspended q'"
    using cfs_left_suspended [OF assms q(1) ready] by (simp add: q(2) s)
qed

lemma cfs_conserves:
  assumes "wf_status st" "cfs_inv p st" "cfs_Sched e p st = Some (p', acts)"
    "xq_of st h0 = Some q0" "xs_ready q0"
  shows "\<exists>h q. xq_of st h = Some q \<and> xs_ready q \<and> xs_device q = xs_device q0
     \<and> \<not> left_suspended st acts h"
proof -
  let ?s = "cfs_selected (env_now e) st p"
  obtain p2 minv sel where s: "?s = (p2, minv, sel)" by (metis prod_cases3)
  note I = cfs_selected_inv [OF assms(1), of "env_now e" p, unfolded s cfs_sel_inv_def prod.case]
  have "(h0, q0) \<in> set (st_xqueues st)" using assms(4) by (simp add: st_queue_iff [OF assms(1)])
  then obtain b where b: "sel (xs_device q0) = Some b" using I assms(5) by fastforce
  then obtain q where q: "(b, q) \<in> set (st_xqueues st)" "xs_ready q" "xs_device q = xs_device q0"
    using I by metis
  then have qb: "xq_of st b = Some q" by (simp add: st_queue_iff [OF assms(1)])
  then have "\<not> left_suspended st acts b"
    using cfs_left_suspended [OF assms(1-3) qb q(2)] b q(3) by (simp add: s)
  then show ?thesis using qb q by blast
qed

interpretation cfs_pol: wc_policy cfs_Sched cfs_RecvHint cfs_inv
proof unfold_locales
  fix e p st assume *: "wf_status st" "cfs_inv p st"
  show "\<exists>p' acts. cfs_Sched e p st = Some (p', acts)"
    by (simp add: cfs_Sched_eq [OF *(1)] Let_def)
next
  fix e p st ht assume "cfs_inv p st"
  then show "cfs_inv (cfs_RecvHint e p ht) st"
    by (cases ht) (auto simp: cfs_inv_def cfs_RecvHint_def Let_def cfs_node_of_def cfs_new_node_def
        split: option.splits)
next
  fix p st st' assume "cfs_inv p st" "suspends_less st st'"
  then show "cfs_inv p st'" unfolding cfs_inv_def suspends_less_def by metis
next
  fix e p st p' acts h b
  assume *: "wf_status st" "cfs_Sched e p st = Some (p', acts)" "decision acts h = Some b"
  show "h \<in> fst ` set (st_xqueues st)"
    using cfs_Sched_decision [OF *(1,2), of h] *(3) by (auto split: option.splits intro: xq_of_key)
next
  fix e p st p' acts
  assume *: "wf_status st" "cfs_inv p st" "cfs_Sched e p st = Some (p', acts)" "some_ready st"
  obtain h0 q0 where "xq_of st h0 = Some q0" "xs_ready q0" using some_readyE [OF *(4,1)] .
  from cfs_conserves [OF *(1-3) this]
  show "\<exists>h q. xq_of st h = Some q \<and> xs_ready q \<and> \<not> left_suspended st acts h" by blast
qed (rule cfs_Sched_inv)

lemma cfs_apply_vruntime [simp]:
  "cn_vruntime (cfs_node_of (cfs_apply_upd now sel q n)) = cn_vruntime (cfs_node_of n)"
  by (simp add: cfs_apply_upd_def Let_def) (simp add: cfs_node_of_def)

section \<open>Properties\<close>

text \<open>C7: After a run of CFS exactly one ready XQueue of each device with ready work runs,
  and as long as no virtual run time is a NaN it has the smallest one on its device.\<close>

theorem cfs_runs_smallest_vruntime:
  assumes "wf_status st" "cfs_inv p st" "cfs_Sched e p st = Some (p', acts)"
    and "cfs_no_nan (cfs_charged (env_now e) st p)" "xq_of st h0 = Some q0" "xs_ready q0"
  shows "\<exists>h q. xq_of st h = Some q \<and> xs_ready q \<and> xs_device q = xs_device q0
     \<and> (\<forall>h' q'. xq_of st h' = Some q' \<longrightarrow> xs_ready q' \<longrightarrow> xs_device q' = xs_device q0 \<longrightarrow>
          xq_of (fst (run_actions acts (st, ts))) h' = Some (q'\<lparr> xs_suspended := (h' \<noteq> h) \<rparr>)
          \<and> f_le (cfs_vr p' h) (cfs_vr p' h'))"
proof -
  let ?s = "cfs_selected (env_now e) st p"
  obtain p2 minv sel where s: "?s = (p2, minv, sel)" by (metis prod_cases3)
  note I = cfs_selected_inv [OF assms(1), of "env_now e" p, unfolded s cfs_sel_inv_def prod.case]
  have keys: "\<forall>(k, q) \<in> set (st_xqueues st). xs_handle q = k"
    by (auto simp: st_queue_iff [OF assms(1)] wf_handle [OF assms(1)])
  have M: "cfs_min_inv (st_xqueues st) (p2, minv, sel)"
    using cfs_min_inv_fold [OF assms(4) keys, of "cfs_min_vruntimes (cfs_charged (env_now e) st p)
        (st_xqueues st)" "env_now e"] cfs_min_vruntimes_nan [OF assms(4)] s
    by (simp add: cfs_selected_def Let_def)
  have "(h0, q0) \<in> set (st_xqueues st)" using assms(5) by (simp add: st_queue_iff [OF assms(1)])
  then obtain b where b: "sel (xs_device q0) = Some b" using I assms(6) by fastforce
  then obtain q where q: "(b, q) \<in> set (st_xqueues st)" "xs_ready q" "xs_device q = xs_device q0"
    using I by metis
  have vr: "cfs_vr p' h' = cfs_vr p2 h'" for h'
    using assms(3)
    by (auto simp: cfs_Sched_eq [OF assms(1)] s Let_def cfs_vr_def split: option.split)
  have nn: "cfs_vr p2 h' \<noteq> NaN" for h' using M by (simp add: cfs_min_inv_def cfs_no_nan_def)
  have "xq_of (fst (run_actions acts (st, ts))) h' = Some (q'\<lparr> xs_suspended := (h' \<noteq> b) \<rparr>)
      \<and> f_le (cfs_vr p' b) (cfs_vr p' h')"
    if q': "xq_of st h' = Some q'" "xs_ready q'" "xs_device q' = xs_device q0" for h' q'
  proof -
    have "(h', q') \<in> set (st_xqueues st)" using q' by (simp add: st_queue_iff [OF assms(1)])
    then have "\<not> f_lt (cfs_vr p2 h') (cfs_vr p2 b)"
      using M q'(2,3) b by (simp add: cfs_min_inv_def)
    moreover have "left_suspended st acts h' \<longleftrightarrow> h' \<noteq> b"
      using cfs_left_suspended [OF assms(1-3) q'(1,2)] b q'(3) by (auto simp: s)
    ultimately show ?thesis
      by (simp add: run_actions_left_suspended [OF q'(1)] vr f_not_lt nn)
  qed
  then show ?thesis using q by (auto simp: st_queue_iff [OF assms(1)])
qed

lemma f_neq_NaN_Fin [simp]: "cfs_no_nan Map.empty"
  by (simp add: cfs_no_nan_def cfs_vr_def cfs_node_of_def cfs_new_node_def)

theorem cfs_runs_smallest_vruntime_witness:
  "\<exists>p' acts h. cfs_Sched ex_env Map.empty (ex_status True True) = Some (p', acts)
     \<and> xq_of (fst (run_actions acts (ex_status True True, []))) 1 =
         Some ((ex_queue 1 10 True 1000)\<lparr> xs_suspended := ((1 :: xhandle) \<noteq> h) \<rparr>)"
proof -
  obtain p' acts where r: "cfs_Sched ex_env Map.empty (ex_status True True) = Some (p', acts)"
    by (simp add: cfs_Sched_eq Let_def)
  have c: "cfs_charged (env_now ex_env) (ex_status True True) Map.empty = Map.empty"
    by (auto simp: cfs_charged_def cfs_charge_upd_def fun_eq_iff split: option.splits)
  have q: "xq_of (ex_status True True) 1 = Some (ex_queue 1 10 True 1000)"
    by (simp add: ex_status_def)
  have i: "cfs_inv Map.empty (ex_status True True)" by (simp add: cfs_inv_def)
  have rd: "xs_ready (ex_queue 1 10 True 1000)" by (simp add: ex_queue_def)
  have nn: "cfs_no_nan (cfs_charged (env_now ex_env) (ex_status True True) Map.empty)"
    unfolding c by simp
  obtain h where h: "\<forall>h' q'. xq_of (ex_status True True) h' = Some q' \<longrightarrow> xs_ready q'
      \<longrightarrow> xs_device q' = xs_device (ex_queue 1 10 True 1000) \<longrightarrow>
        xq_of (fst (run_actions acts (ex_status True True, []))) h' =
          Some (q'\<lparr> xs_suspended := (h' \<noteq> h) \<rparr>) \<and> f_le (cfs_vr p' h) (cfs_vr p' h')"
    using cfs_runs_smallest_vruntime [OF wf_ex_status i r nn q rd, of "[]"] by blast
  have "xq_of (fst (run_actions acts (ex_status True True, []))) 1 =
      Some ((ex_queue 1 10 True 1000)\<lparr> xs_suspended := ((1 :: xhandle) \<noteq> h) \<rparr>)"
    using h q rd by blast
  with r show ?thesis by blast
qed

text \<open>An XQueue that a run sees idle before it was ever ready gets a node with virtual
  run time 0, not the minimum of its device: the rule by which new work inherits the minimum
  does not reach it when it becomes ready.\<close>

theorem cfs_idle_newcomer_starts_at_zero:
  assumes "wf_status st" "cfs_Sched e p st = Some (p', acts)" "p h = None"
    and "xq_of st h = Some q" "\<not> xs_ready q"
  shows "p' h = Some cfs_new_node \<and> cfs_vr p' h = Fin 0"
proof -
  let ?s = "cfs_selected (env_now e) st p"
  obtain p2 minv sel where s: "?s = (p2, minv, sel)" by (metis prod_cases3)
  note I = cfs_selected_inv [OF assms(1), of "env_now e" p, unfolded s cfs_sel_inv_def prod.case]
  have c: "cfs_charged (env_now e) st p h = None"
    using assms(3,4) by (simp add: cfs_charged_def cfs_charge_upd_def)
  have "p2 h = None"
  proof (rule ccontr)
    assume "p2 h \<noteq> None"
    then obtain q' where "(h, q') \<in> set (st_xqueues st)" "xs_ready q'" using I c by blast
    then show False using assms(4,5) by (simp add: st_queue_iff [OF assms(1)])
  qed
  then have "p' h = Some cfs_new_node"
    using assms(2,4,5)
    by (auto simp: cfs_Sched_eq [OF assms(1)] s Let_def cfs_apply_upd_def cfs_node_of_def
        cfs_new_node_def)
  then show ?thesis by (simp add: cfs_vr_def cfs_node_of_def cfs_new_node_def)
qed

theorem cfs_idle_newcomer_starts_at_zero_witness:
  "\<exists>p' acts. cfs_Sched ex_env Map.empty (ex_status False True) = Some (p', acts)
     \<and> cfs_vr p' 1 = Fin 0"
proof -
  obtain p' acts where r: "cfs_Sched ex_env Map.empty (ex_status False True) = Some (p', acts)"
    by (simp add: cfs_Sched_eq Let_def)
  show ?thesis
    using cfs_idle_newcomer_starts_at_zero
      [OF wf_ex_status r, of 1 "ex_queue 1 10 False 1000"] r
    by (simp add: ex_status_def ex_queue_def)
qed

end
