(* ===== verification/InterferencePolicy.thy ===== *)
theory InterferencePolicy
  imports PriorityPolicies
begin

text \<open>
  IAH (\<^verbatim>\<open>sched/src/policy/iah.cpp\<close>): on every device only its best ready XQueue may run; it
  runs if no ready XQueue of the system has a higher priority, or if the device does not
  interfere with the device of the best one, judged by the sum of two memory intensities
  (doubles). Idle XQueues are left as they are.
\<close>

record iah =
  iah_priorities :: "xhandle \<rightharpoonup> int"
  iah_intensities :: "xdevice \<rightharpoonup> f64"

definition iah_init :: iah where
  "iah_init = \<lparr> iah_priorities = Map.empty, iah_intensities = Map.empty \<rparr>"

definition kIntensityDefault :: f64 where
  "kIntensityDefault = fl (1 / 2)"

definition kIntensityThreshold :: f64 where
  "kIntensityThreshold = fl (12 / 10)"

section \<open>Operations\<close>

definition iah_GetPriority :: "iah \<Rightarrow> xhandle \<Rightarrow> int" where
  "iah_GetPriority p h =
     (case iah_priorities p h of Some v \<Rightarrow> v | None \<Rightarrow> PRIORITY_DEFAULT)"

definition iah_GetDeviceIntensity :: "iah \<Rightarrow> xdevice \<Rightarrow> f64" where
  "iah_GetDeviceIntensity p d =
     (case iah_intensities p d of Some v \<Rightarrow> v | None \<Rightarrow> kIntensityDefault)"

definition iah_IsHighInterference :: "iah \<Rightarrow> xdevice \<Rightarrow> xdevice \<Rightarrow> bool" where
  "iah_IsHighInterference p a b =
     (if a = b then True
      else f_lt kIntensityThreshold
             (f_add (iah_GetDeviceIntensity p a) (iah_GetDeviceIntensity p b)))"

text \<open>Phase 1: the highest priority of a ready XQueue and the device of the first that has it.\<close>

definition iah_global :: "iah \<Rightarrow> (xhandle \<times> xqueue_status) list \<Rightarrow> int \<times> xdevice" where
  "iah_global p qs =
     foldl (\<lambda>(mx, dev) (_, q).
        if \<not> xs_ready q then (mx, dev)
        else let prio = iah_GetPriority p (xs_handle q) in
             if prio > mx then (prio, xs_device q) else (mx, dev))
       (PRIORITY_MIN, 0) qs"

text \<open>Phase 2: the best ready XQueue of each device.\<close>

definition iah_best :: "iah \<Rightarrow> (xhandle \<times> xqueue_status) list
    \<Rightarrow> (xdevice \<rightharpoonup> int) \<times> (xdevice \<rightharpoonup> xhandle)" where
  "iah_best p qs =
     foldl (\<lambda>(mx, best) (_, q).
        if \<not> xs_ready q then (mx, best)
        else let dev = xs_device q; handle = xs_handle q; prio = iah_GetPriority p handle in
             (case mx dev of
                None \<Rightarrow> (mx(dev \<mapsto> prio), best(dev \<mapsto> handle))
              | Some v \<Rightarrow> if prio > v then (mx(dev \<mapsto> prio), best(dev \<mapsto> handle))
                         else (mx, best)))
       (Map.empty, Map.empty) qs"

text \<open>Phase 3: the decision for one ready XQueue.\<close>

definition iah_should_run :: "iah \<Rightarrow> int \<times> xdevice \<Rightarrow> (xdevice \<rightharpoonup> xhandle) \<Rightarrow> xqueue_status \<Rightarrow> bool" where
  "iah_should_run p g best q =
     (let (gmax, gdev) = g; dev = xs_device q; handle = xs_handle q;
          prio = iah_GetPriority p handle in
      case best dev of
        None \<Rightarrow> False
      | Some b \<Rightarrow>
          if b = handle then
            (if prio \<ge> gmax then True
             else if gdev = dev then False
             else \<not> iah_IsHighInterference p dev gdev)
          else False)"

definition iah_Sched :: "iah \<Rightarrow> status \<Rightarrow> action list" where
  "iah_Sched p st =
     (let qs = st_xqueues st; g = iah_global p qs; best = snd (iah_best p qs) in
      concat (map (\<lambda>(_, q).
         if \<not> xs_ready q then []
         else if iah_should_run p g best q then [Resume (xs_handle q)]
         else [Suspend (xs_handle q)]) qs))"

definition iah_clamp :: "f64 \<Rightarrow> f64" where
  "iah_clamp v =
     (let v1 = (if f_lt v (Fin 0) then Fin 0 else v) in
      if f_lt (Fin 1) v1 then Fin 1 else v1)"

definition iah_RecvHint :: "iah \<Rightarrow> hint \<Rightarrow> iah" where
  "iah_RecvHint p ht =
     (case ht of
        PriorityHint h v \<Rightarrow> p\<lparr> iah_priorities := (iah_priorities p)(h \<mapsto> clamp_priority v) \<rparr>
      | MemoryIntensityHint d i \<Rightarrow>
          p\<lparr> iah_intensities := (iah_intensities p)(d \<mapsto> iah_clamp (f_of_bits i)) \<rparr>
      | _ \<Rightarrow> p)"

definition iah_policy :: "sched_env \<Rightarrow> iah \<Rightarrow> status \<Rightarrow> (iah \<times> action list) option" where
  "iah_policy e p st = Some (p, iah_Sched p st)"

definition iah_inv :: "iah \<Rightarrow> bool" where
  "iah_inv p \<longleftrightarrow> (\<forall>h v. iah_priorities p h = Some v \<longrightarrow> PRIORITY_MIN \<le> v \<and> v \<le> PRIORITY_MAX)"

lemma iah_inv_init [simp]: "iah_inv iah_init"
  by (simp add: iah_inv_def iah_init_def)

lemma iah_inv_hint: "iah_inv p \<Longrightarrow> iah_inv (iah_RecvHint p ht)"
  by (cases ht) (auto simp: iah_inv_def iah_RecvHint_def split: if_splits)

lemma iah_GetPriority_ge: "iah_inv p \<Longrightarrow> PRIORITY_MIN \<le> iah_GetPriority p h"
  unfolding iah_inv_def iah_GetPriority_def by (cases "iah_priorities p h") auto

section \<open>What the phases compute\<close>

text \<open>The first of the elements with the highest value.\<close>

definition first_max :: "('a \<Rightarrow> int) \<Rightarrow> 'a list \<Rightarrow> 'a option" where
  "first_max f xs = find (\<lambda>x. \<forall>y \<in> set xs. f y \<le> f x) xs"

lemma first_max_Some: "first_max f xs = Some x \<Longrightarrow> x \<in> set xs \<and> (\<forall>y \<in> set xs. f y \<le> f x)"
  by (auto simp: first_max_def find_Some_iff)

lemma first_max_in: "first_max f xs = Some x \<Longrightarrow> x \<in> set xs"
  and first_max_ge: "first_max f xs = Some x \<Longrightarrow> y \<in> set xs \<Longrightarrow> f y \<le> f x"
  using first_max_Some by fast+

lemma first_max_None: "first_max f xs = None \<longleftrightarrow> xs = []"
proof
  assume N: "first_max f xs = None"
  show "xs = []"
  proof (rule ccontr)
    assume "xs \<noteq> []"
    then have ne: "f ` set xs \<noteq> {}" and fin: "finite (f ` set xs)" by simp_all
    obtain x where x: "x \<in> set xs" "Max (f ` set xs) = f x" using Max_in [OF fin ne] by blast
    then have "\<forall>y \<in> set xs. f y \<le> f x" using Max_ge [OF fin] by fastforce
    with x(1) obtain x where "x \<in> set xs" "\<forall>y \<in> set xs. f y \<le> f x" by blast
    then show False using N by (auto simp: first_max_def find_None_iff)
  qed
qed (simp add: first_max_def)

lemma first_max_cong:
  assumes "\<And>x. x \<in> set xs \<Longrightarrow> f x = g x" shows "first_max f xs = first_max g xs"
  unfolding first_max_def by (rule find_cong) (use assms in auto)

lemma first_max_snoc:
  "first_max f (xs @ [x]) =
     (case first_max f xs of None \<Rightarrow> Some x | Some y \<Rightarrow> Some (if f x > f y then x else y))"
proof (cases "first_max f xs")
  case None
  then show ?thesis by (simp add: first_max_None) (simp add: first_max_def)
next
  case (Some y)
  note M = first_max_in [OF Some] first_max_ge [OF Some]
  have app: "find P (xs @ [x]) = (case find P xs of None \<Rightarrow> if P x then Some x else None | Some z \<Rightarrow> Some z)" for P
    by (induction xs) auto
  show ?thesis
  proof (cases "f x > f y")
    case True
    then have "find (\<lambda>z. \<forall>w \<in> set (xs @ [x]). f w \<le> f z) xs = None"
      using M(2) by (force simp: find_None_iff)
    moreover have "\<forall>w \<in> set (xs @ [x]). f w \<le> f x" using M(2) True by force
    ultimately show ?thesis unfolding first_max_def app using Some True by (simp add: first_max_def)
  next
    case False
    have "find (\<lambda>z. \<forall>w \<in> set (xs @ [x]). f w \<le> f z) xs = find (\<lambda>z. \<forall>w \<in> set xs. f w \<le> f z) xs"
      by (rule find_cong) (use M(1) False in force)+
    then show ?thesis unfolding first_max_def app using Some False by (simp add: first_max_def)
  qed
qed

abbreviation iah_prio :: "iah \<Rightarrow> xhandle \<times> xqueue_status \<Rightarrow> int" where
  "iah_prio p \<equiv> \<lambda>(_, q). iah_GetPriority p (xs_handle q)"

lemma iah_global_first_max:
  "iah_global p qs = (case first_max (iah_prio p) (filter (\<lambda>(_, q). xs_ready q) qs) of
     None \<Rightarrow> (PRIORITY_MIN, 0)
   | Some (k, q) \<Rightarrow> if iah_GetPriority p (xs_handle q) > PRIORITY_MIN
        then (iah_GetPriority p (xs_handle q), xs_device q) else (PRIORITY_MIN, 0))"
proof (induction qs rule: rev_induct)
  case (snoc x qs)
  obtain k q where x: "x = (k, q)" by (cases x)
  have "iah_global p (qs @ [x]) =
      (if xs_ready q \<and> iah_GetPriority p (xs_handle q) > fst (iah_global p qs)
       then (iah_GetPriority p (xs_handle q), xs_device q) else iah_global p qs)"
    by (simp add: iah_global_def x Let_def split_beta)
  then show ?case using snoc by (auto simp: x first_max_snoc split: option.splits)
qed (simp add: iah_global_def first_max_def)

lemma iah_best_first_max:
  "iah_best p qs =
     (\<lambda>d. map_option (iah_prio p) (first_max (iah_prio p) (filter (\<lambda>(_, q). xs_ready q \<and> xs_device q = d) qs)),
      \<lambda>d. map_option (\<lambda>(_, q). xs_handle q)
            (first_max (iah_prio p) (filter (\<lambda>(_, q). xs_ready q \<and> xs_device q = d) qs)))"
proof (induction qs rule: rev_induct)
  case (snoc x qs)
  obtain k q where x: "x = (k, q)" by (cases x)
  let ?d = "xs_device q" and ?h = "xs_handle q" and ?m = "iah_best p qs"
  let ?v = "iah_GetPriority p ?h"
  have step: "iah_best p (qs @ [x]) =
      (if xs_ready q \<and> (fst ?m ?d = None \<or> ?v > the (fst ?m ?d))
       then ((fst ?m)(?d \<mapsto> ?v), (snd ?m)(?d \<mapsto> ?h)) else ?m)"
    by (auto simp: iah_best_def x Let_def split_beta split: option.splits)
  show ?case unfolding step unfolding snoc
    by (auto simp: x first_max_snoc fun_eq_iff split: option.splits)
qed (simp add: iah_best_def first_max_def)

lemma first_max_by_key:
  assumes "wf_status st"
  shows "first_max (\<lambda>(k, _). iah_GetPriority p k) (filter P (st_xqueues st))
    = first_max (iah_prio p) (filter P (st_xqueues st))"
  by (rule first_max_cong) (use wf_handle [OF assms] in \<open>auto simp: st_queue_iff [OF assms]\<close>)

lemma iah_global_eq:
  assumes "wf_status st"
  shows "iah_global p (st_xqueues st) =
    (case first_max (\<lambda>(k, _). iah_GetPriority p k) (filter (\<lambda>(_, q). xs_ready q) (st_xqueues st)) of
       None \<Rightarrow> (PRIORITY_MIN, 0)
     | Some (k, q) \<Rightarrow> if iah_GetPriority p k > PRIORITY_MIN
          then (iah_GetPriority p k, xs_device q) else (PRIORITY_MIN, 0))"
  using wf_handle [OF assms] first_max_in [of "iah_prio p"]
  by (fastforce simp: iah_global_first_max first_max_by_key [OF assms] st_queue_iff [OF assms] split: option.splits)

lemma iah_best_iff:
  assumes "wf_status st" "xq_of st h = Some q"
  shows "snd (iah_best p (st_xqueues st)) d = Some h \<longleftrightarrow>
    first_max (\<lambda>(k, _). iah_GetPriority p k)
      (filter (\<lambda>(_, r). xs_ready r \<and> xs_device r = d) (st_xqueues st)) = Some (h, q)"
proof -
  let ?D = "filter (\<lambda>(_, r). xs_ready r \<and> xs_device r = d) (st_xqueues st)"
  have "(k, r) = (h, q) \<longleftrightarrow> xs_handle r = h" if "first_max (iah_prio p) ?D = Some (k, r)" for k r
    using first_max_in [OF that] assms(2) wf_handle [OF assms(1)] by (auto simp: st_queue_iff [OF assms(1)])
  then show ?thesis by (auto simp: iah_best_first_max first_max_by_key [OF assms(1)])
qed

lemma iah_should_run_eq:
  "iah_should_run p g best q \<longleftrightarrow> best (xs_device q) = Some (xs_handle q)
     \<and> (iah_GetPriority p (xs_handle q) \<ge> fst g
        \<or> snd g \<noteq> xs_device q \<and> \<not> iah_IsHighInterference p (xs_device q) (snd g))"
  by (auto simp: iah_should_run_def Let_def split_beta split: option.split)

lemma iah_global_bounds:
  "PRIORITY_MIN \<le> fst (iah_global p qs)
   \<and> (\<forall>(k, q) \<in> set qs. xs_ready q \<longrightarrow> iah_GetPriority p (xs_handle q) \<le> fst (iah_global p qs))
   \<and> (iah_global p qs = (PRIORITY_MIN, 0)
      \<or> (\<exists>(k, q) \<in> set qs. xs_ready q
           \<and> iah_global p qs = (iah_GetPriority p (xs_handle q), xs_device q)))"
proof (induction qs rule: rev_induct)
  case (snoc x qs)
  obtain k q where x: "x = (k, q)" by (cases x)
  obtain m d where g: "iah_global p qs = (m, d)" by fastforce
  have step: "iah_global p (qs @ [x]) =
      (if xs_ready q \<and> iah_GetPriority p (xs_handle q) > m
       then (iah_GetPriority p (xs_handle q), xs_device q) else (m, d))"
    using g by (simp add: iah_global_def x Let_def)
  show ?case using snoc unfolding step by (auto simp: x g)
qed (simp add: iah_global_def)

lemma iah_best_spec:
  "(\<forall>d. (fst (iah_best p qs) d = None) = (snd (iah_best p qs) d = None))
   \<and> (\<forall>(k, q) \<in> set qs. xs_ready q \<longrightarrow>
        (\<exists>m. fst (iah_best p qs) (xs_device q) = Some m \<and> iah_GetPriority p (xs_handle q) \<le> m))
   \<and> (\<forall>d b. snd (iah_best p qs) d = Some b \<longrightarrow>
        (\<exists>(k, q) \<in> set qs. xs_ready q \<and> xs_device q = d \<and> xs_handle q = b
           \<and> fst (iah_best p qs) d = Some (iah_GetPriority p b)))"
proof (induction qs rule: rev_induct)
  case (snoc x qs)
  obtain k q where x: "x = (k, q)" by (cases x)
  obtain mx best where g: "iah_best p qs = (mx, best)" by fastforce
  let ?d = "xs_device q" and ?h = "xs_handle q"
  let ?v = "iah_GetPriority p ?h"
  have step: "iah_best p (qs @ [x]) =
      (if xs_ready q \<and> (mx ?d = None \<or> ?v > the (mx ?d))
       then (mx(?d \<mapsto> ?v), best(?d \<mapsto> ?h)) else (mx, best))"
    using g by (auto simp: iah_best_def x Let_def split: option.splits)
  have IH1: "\<exists>m. mx (xs_device q') = Some m \<and> iah_GetPriority p (xs_handle q') \<le> m"
    if "(k', q') \<in> set qs" "xs_ready q'" for k' q'
    using snoc that by (auto simp: g)
  show ?case
  proof (cases "xs_ready q \<and> (mx ?d = None \<or> ?v > the (mx ?d))")
    case True
    have "\<exists>m. (mx(?d \<mapsto> ?v)) (xs_device q') = Some m \<and> iah_GetPriority p (xs_handle q') \<le> m"
      if kq: "(k', q') \<in> set qs" "xs_ready q'" for k' q'
    proof (cases "xs_device q' = ?d")
      case same: True
      obtain m where "mx ?d = Some m" "iah_GetPriority p (xs_handle q') \<le> m"
        using IH1 [OF kq] same by auto
      then show ?thesis using True same by auto
    next
      case False
      then show ?thesis using False IH1 [OF kq] by simp
    qed
    then show ?thesis using snoc True unfolding step by (fastforce simp: x g)
  next
    case False
    then have "\<exists>m. mx ?d = Some m \<and> ?v \<le> m" if "xs_ready q" using that by auto
    then show ?thesis using snoc False unfolding step by (fastforce simp: x g)
  qed
qed (simp add: iah_best_def)

lemma iah_Sched_decision:
  assumes "wf_status st"
  shows "decision (iah_Sched p st) h =
     (case xq_of st h of None \<Rightarrow> None
      | Some q \<Rightarrow> if \<not> xs_ready q then None
         else Some (\<not> iah_should_run p (iah_global p (st_xqueues st))
                        (snd (iah_best p (st_xqueues st))) q))"
proof -
  let ?E = "\<lambda>(k :: xhandle) q. if \<not> xs_ready q then []
         else if iah_should_run p (iah_global p (st_xqueues st)) (snd (iah_best p (st_xqueues st))) q
         then [Resume (xs_handle q)] else [Suspend (xs_handle q)]"
  have "decision (concat (map (\<lambda>(k, q). ?E k q) (st_xqueues st))) h =
      (case xq_of st h of None \<Rightarrow> None | Some q \<Rightarrow> decision (?E h q) h)"
    by (rule decision_each [OF assms]) (auto dest: wf_handle [OF assms])
  then show ?thesis
    by (auto simp: iah_Sched_def Let_def wf_handle [OF assms] split: option.splits)
qed

lemma iah_left_suspended:
  assumes "wf_status st" "xq_of st h = Some q" "xs_ready q"
  shows "left_suspended st (iah_Sched p st) h \<longleftrightarrow>
     \<not> iah_should_run p (iah_global p (st_xqueues st)) (snd (iah_best p (st_xqueues st))) q"
  by (simp add: left_suspended_def iah_Sched_decision [OF assms(1)] assms(2,3))

text \<open>An XQueue that is best on its device and of the globally highest priority exists.\<close>

lemma iah_conserves:
  assumes "wf_status st" "some_ready st" "iah_inv p"
  shows "\<exists>h q. xq_of st h = Some q \<and> xs_ready q \<and> \<not> left_suspended st (iah_Sched p st) h"
proof -
  obtain h0 q0 where q0: "xq_of st h0 = Some q0" "xs_ready q0" using some_readyE [OF assms(2,1)] .
  obtain h q where hq: "xq_of st h = Some q" "xs_ready q"
    "\<And>h' q'. xq_of st h' = Some q' \<Longrightarrow> xs_ready q'
      \<Longrightarrow> iah_GetPriority p h' \<le> iah_GetPriority p h"
    using max_ready_exists [OF assms(1) q0, of "\<lambda>_. True" "iah_GetPriority p"] by auto
  note B1 = conjunct1 [OF iah_best_spec [of p "st_xqueues st"]]
    and B2 = conjunct1 [OF conjunct2 [OF iah_best_spec [of p "st_xqueues st"]]]
    and B3 = conjunct2 [OF conjunct2 [OF iah_best_spec [of p "st_xqueues st"]]]
  have "(h, q) \<in> set (st_xqueues st)" using hq(1) by (simp add: st_queue_iff [OF assms(1)])
  then obtain m where m: "fst (iah_best p (st_xqueues st)) (xs_device q) = Some m"
      "iah_GetPriority p (xs_handle q) \<le> m"
    using bspec [OF B2] hq(2) by fastforce
  then obtain b where b: "snd (iah_best p (st_xqueues st)) (xs_device q) = Some b"
    using spec [OF B1, of "xs_device q"] by fastforce
  then obtain k r where r: "(k, r) \<in> set (st_xqueues st)" "xs_ready r" "xs_device r = xs_device q"
      "xs_handle r = b" "fst (iah_best p (st_xqueues st)) (xs_device q) = Some (iah_GetPriority p b)"
    using B3 [rule_format, OF b] by auto
  have kr: "xq_of st k = Some r" using r(1) by (simp add: st_queue_iff [OF assms(1)])
  have kb: "k = b" using wf_handle [OF assms(1) kr] r(4) by simp
  have ge: "iah_GetPriority p h \<le> iah_GetPriority p b"
    using m r(5) wf_handle [OF assms(1) hq(1)] by simp
  have "fst (iah_global p (st_xqueues st)) \<le> iah_GetPriority p b"
  proof -
    from iah_global_bounds [of p "st_xqueues st"]
    consider "iah_global p (st_xqueues st) = (PRIORITY_MIN, 0)"
      | k' q' where "(k', q') \<in> set (st_xqueues st)" "xs_ready q'"
          "iah_global p (st_xqueues st) = (iah_GetPriority p (xs_handle q'), xs_device q')"
      by auto
    then show ?thesis
    proof cases
      case 1
      then show ?thesis using iah_GetPriority_ge [OF assms(3), of b] by simp
    next
      case 2
      then have "xq_of st k' = Some q'" by (simp add: st_queue_iff [OF assms(1)])
      then show ?thesis using hq(3) [of k' q'] 2 ge wf_handle [OF assms(1)] by force
    qed
  qed
  moreover have "iah_GetPriority p b \<le> fst (iah_global p (st_xqueues st))"
    using iah_global_bounds [of p "st_xqueues st"] r by fastforce
  ultimately show ?thesis
    using iah_left_suspended [OF assms(1) kr r(2), of p] b r(3,4) kr r(2) kb
    by (intro exI [of _ k] exI [of _ r])
       (auto simp: iah_should_run_def Let_def split_beta iah_global_bounds)
qed

interpretation iah_pol: wc_policy iah_policy "\<lambda>_. iah_RecvHint" "\<lambda>p _. iah_inv p"
proof unfold_locales
  fix e p p' st acts assume *: "wf_status st" "iah_inv p" "iah_policy e p st = Some (p', acts)"
  { assume "some_ready st"
    then show "\<exists>h q. xq_of st h = Some q \<and> xs_ready q \<and> \<not> left_suspended st acts h"
      using iah_conserves [OF *(1) _ *(2)] *(3) by (auto simp: iah_policy_def) }
  { fix h b assume "decision acts h = Some b"
    with * show "h \<in> fst ` set (st_xqueues st)"
      by (auto simp: iah_policy_def iah_Sched_decision split: option.splits intro: xq_of_key) }
qed (auto simp: iah_policy_def iah_inv_hint)

section \<open>Properties\<close>

text \<open>C12: After a run of IAH a ready XQueue runs exactly when it is the best ready one of its
  device (the first in the table of those with the highest priority), and either no ready
  XQueue of the system has a higher priority, or the best ready one of the system is on
  another device and the memory intensities of the two devices do not sum up to more than
  1.2.\<close>

theorem iah_runs_iff_best_and_compatible:
  assumes "wf_status st" "iah_inv p" "xq_of st h = Some q" "xs_ready q"
  shows "xq_of (fst (run_actions (iah_Sched p st) (st, ts))) h =
    Some (q\<lparr> xs_suspended := \<not>
      (first_max (\<lambda>(k, _). iah_GetPriority p k)
         (filter (\<lambda>(_, r). xs_ready r \<and> xs_device r = xs_device q) (st_xqueues st)) = Some (h, q)
       \<and> ((\<forall>h' q'. xq_of st h' = Some q' \<longrightarrow> xs_ready q'
              \<longrightarrow> iah_GetPriority p h' \<le> iah_GetPriority p h)
          \<or> (\<exists>g r. first_max (\<lambda>(k, _). iah_GetPriority p k)
                      (filter (\<lambda>(_, r). xs_ready r) (st_xqueues st)) = Some (g, r)
               \<and> xs_device r \<noteq> xs_device q
               \<and> \<not> f_lt (fl (12 / 10)) (f_add (iah_GetDeviceIntensity p (xs_device q))
                                              (iah_GetDeviceIntensity p (xs_device r)))))) \<rparr>)"
proof -
  let ?qs = "st_xqueues st"
  let ?g = "iah_global p ?qs"
  let ?R = "filter (\<lambda>(_, r). xs_ready r) ?qs"
  let ?D = "filter (\<lambda>(_, r). xs_ready r \<and> xs_device r = xs_device q) ?qs"
  note W = first_max_by_key [OF assms(1)]
  have hq: "(h, q) \<in> set ?R" using assms(3,4) by (simp add: st_queue_iff [OF assms(1)])
  have best: "snd (iah_best p ?qs) (xs_device q) = Some h \<longleftrightarrow>
      first_max (\<lambda>(k, _). iah_GetPriority p k) ?D = Some (h, q)"
    by (rule iah_best_iff [OF assms(1,3)])
  obtain g r where gr: "first_max (\<lambda>(k, _). iah_GetPriority p k) ?R = Some (g, r)"
    using first_max_None [of _ ?R] hq by fastforce
  note M = first_max_in [OF gr] first_max_ge [OF gr]
  have g: "?g = (if iah_GetPriority p g > PRIORITY_MIN then (iah_GetPriority p g, xs_device r) else (PRIORITY_MIN, 0))"
    using iah_global_eq [OF assms(1), of p] gr by simp
  have min: "PRIORITY_MIN \<le> iah_GetPriority p h" by (rule iah_GetPriority_ge [OF assms(2)])
  have top: "iah_GetPriority p h \<ge> fst ?g \<longleftrightarrow> iah_GetPriority p g \<le> iah_GetPriority p h"
    using g min by (simp split: if_splits)
  have all: "iah_GetPriority p g \<le> iah_GetPriority p h \<longleftrightarrow>
      (\<forall>h' q'. xq_of st h' = Some q' \<longrightarrow> xs_ready q' \<longrightarrow> iah_GetPriority p h' \<le> iah_GetPriority p h)"
  proof
    assume le: "iah_GetPriority p g \<le> iah_GetPriority p h"
    show "\<forall>h' q'. xq_of st h' = Some q' \<longrightarrow> xs_ready q' \<longrightarrow> iah_GetPriority p h' \<le> iah_GetPriority p h"
    proof (intro allI impI)
      fix h' q' assume "xq_of st h' = Some q'" "xs_ready q'"
      then have "(h', q') \<in> set ?R" by (simp add: st_queue_iff [OF assms(1)])
      from M(2) [OF this] le show "iah_GetPriority p h' \<le> iah_GetPriority p h" by simp
    qed
  qed (use M(1) in \<open>auto simp: st_queue_iff [OF assms(1)]\<close>)
  have dev: "snd ?g = xs_device r" if "\<not> iah_GetPriority p g \<le> iah_GetPriority p h"
    using that g min by simp
  have "left_suspended st (iah_Sched p st) h \<longleftrightarrow>
     \<not> (first_max (\<lambda>(k, _). iah_GetPriority p k) ?D = Some (h, q)
       \<and> (iah_GetPriority p g \<le> iah_GetPriority p h
          \<or> xs_device r \<noteq> xs_device q \<and> \<not> iah_IsHighInterference p (xs_device q) (xs_device r)))"
    unfolding iah_left_suspended [OF assms(1,3,4)] iah_should_run_eq wf_handle [OF assms(1,3)]
      best top using dev by (cases "iah_GetPriority p g \<le> iah_GetPriority p h") auto
  then show ?thesis
    unfolding run_actions_left_suspended [OF assms(3)] gr all
    by (auto simp: iah_IsHighInterference_def kIntensityThreshold_def)
qed

theorem iah_runs_iff_best_and_compatible_witness:
  "\<exists>q. xq_of (fst (run_actions (iah_Sched iah_init (ex_status True True))
      (ex_status True True, []))) 2 = Some q \<and> xs_suspended q"
proof -
  have q: "xq_of (ex_status True True) 2 = Some (ex_queue 2 20 True 2000)" "xs_ready (ex_queue 2 20 True 2000)"
    by (simp_all add: ex_defs)
  have b: "map_option fst (first_max (\<lambda>(k, _). iah_GetPriority iah_init k)
      (filter (\<lambda>(_, r). xs_ready r \<and> xs_device r = xs_device (ex_queue 2 20 True 2000))
        (st_xqueues (ex_status True True)))) = Some 1"
    by (simp add: first_max_def ex_defs iah_GetPriority_def iah_init_def)
  then have b: "first_max (\<lambda>(k, _). iah_GetPriority iah_init k)
      (filter (\<lambda>(_, r). xs_ready r \<and> xs_device r = xs_device (ex_queue 2 20 True 2000))
        (st_xqueues (ex_status True True))) \<noteq> Some (2, ex_queue 2 20 True 2000)" by auto
  show ?thesis
    using iah_runs_iff_best_and_compatible [OF wf_ex_status iah_inv_init q, of "[]"] by (simp add: b)
qed

text \<open>A memory intensity that is not a number passes the clamping of the hint, and from
  then on the device never counts as interfering: its lower-priority work is always
  co-scheduled.\<close>

theorem iah_nan_intensity_disables_interference:
  assumes "f_of_bits i = NaN" "d \<noteq> d'"
  shows "\<not> iah_IsHighInterference (iah_RecvHint p (MemoryIntensityHint d i)) d d'"
  using assms
  by (simp add: iah_IsHighInterference_def iah_RecvHint_def iah_GetDeviceIntensity_def iah_clamp_def)

theorem iah_nan_intensity_disables_interference_witness:
  "\<not> iah_IsHighInterference (iah_RecvHint iah_init (MemoryIntensityHint 1 0x7FF8000000000000)) 1 2"
  by (rule iah_nan_intensity_disables_interference)
     (simp_all add: f_of_bits_def Let_def)

end
