(* ===== verification/FeedbackPolicy.thy ===== *)
theory FeedbackPolicy
  imports PriorityPolicies
begin

text \<open>
  MLFQ (\<^verbatim>\<open>sched/src/policy/mlfq.cpp\<close>): four priority levels, 0 the highest. An XQueue that
  uses up the time slice of its level sinks, one that waits long enough rises, with the
  waiting time discounted by the number of competitors (in doubles); on every device the
  ready XQueue of the highest level that has waited longest is chosen. The five loops of
  \<^verbatim>\<open>Sched\<close> are \<open>mlfq_edge\<close>, \<open>mlfq_count\<close>, \<open>mlfq_update\<close>, \<open>mlfq_best\<close> and \<open>mlfq_apply\<close>.
\<close>

section \<open>State\<close>

record mlfq_node =
  mn_priority :: int
  mn_running :: bool
  mn_was_ready :: bool
  mn_i_a :: time_ns
  mn_p_a :: time_ns
  mn_q_a :: time_ns
  mn_pending :: int
  mn_pending_start :: time_ns
  mn_slice_used :: int
  mn_resume_time :: time_ns

type_synonym mlfq = "xhandle \<rightharpoonup> mlfq_node"

definition mlfq_new_node :: "time_ns \<Rightarrow> mlfq_node" where
  "mlfq_new_node now = \<lparr> mn_priority = 0, mn_running = False, mn_was_ready = False,
     mn_i_a = now, mn_p_a = now, mn_q_a = now, mn_pending = 0, mn_pending_start = now,
     mn_slice_used = 0, mn_resume_time = now \<rparr>"

definition mlfq_max_priority :: int where "mlfq_max_priority = 3"
definition mlfq_recovery_threshold :: int where "mlfq_recovery_threshold = 100000"
definition mlfq_default_tick :: int where "mlfq_default_tick = 5000"

definition mlfq_get_time_slice :: "int \<Rightarrow> int" where
  "mlfq_get_time_slice prio = 10000 * 2 ^ nat prio"

section \<open>The loops of Sched\<close>

text \<open>Creation of missing nodes, and the two edges between idle and ready.\<close>

definition mlfq_edge :: "time_ns \<Rightarrow> xqueue_status \<Rightarrow> mlfq_node option \<Rightarrow> mlfq_node option" where
  "mlfq_edge now q n0 =
     (let n = (case n0 of Some m \<Rightarrow> m | None \<Rightarrow> mlfq_new_node now);
          n1 = (if xs_ready q \<and> \<not> mn_was_ready n then n\<lparr> mn_q_a := now, mn_pending_start := now \<rparr>
                else if \<not> xs_ready q \<and> mn_was_ready n then n\<lparr> mn_i_a := now \<rparr>
                else n) in
      Some (n1\<lparr> mn_was_ready := xs_ready q \<rparr>))"

definition mlfq_level :: "mlfq \<Rightarrow> xhandle \<Rightarrow> int" where
  "mlfq_level p h = (case p h of Some n \<Rightarrow> mn_priority n | None \<Rightarrow> 0)"

text \<open>\<^verbatim>\<open>N_count[device][prio]\<close>.\<close>

definition mlfq_count :: "mlfq \<Rightarrow> (xhandle \<times> xqueue_status) list \<Rightarrow> xdevice \<Rightarrow> int \<Rightarrow> int" where
  "mlfq_count p qs d prio =
     int (length (filter (\<lambda>(_, q). xs_ready q \<and> xs_device q = d
       \<and> mlfq_level p (xs_handle q) = prio) qs))"

text \<open>Pending and running time, recovery, demotion. \<open>mlfq_account\<close> is the bookkeeping,
  \<open>mlfq_recovers\<close> the test for a promotion, \<open>mlfq_exhausted\<close> the test for a demotion.\<close>

definition mlfq_account :: "time_ns \<Rightarrow> mlfq_node \<Rightarrow> mlfq_node" where
  "mlfq_account now n =
     (if \<not> mn_running n
      then n\<lparr> mn_pending := mn_pending n + ns_to_us (now - mn_pending_start n),
              mn_pending_start := now \<rparr>
      else n\<lparr> mn_slice_used := mn_slice_used n + ns_to_us (now - mn_resume_time n),
              mn_resume_time := now \<rparr>)"

definition mlfq_recovers :: "time_ns \<Rightarrow> int \<Rightarrow> mlfq_node \<Rightarrow> bool" where
  "mlfq_recovers now N n =
     (let R = (if N > 1 then f_div (fl (9 / 10)) (f_of_int N) else Fin 1);
          time_since_last_update = ns_to_us (now - mn_p_a n);
          discounted_pending = f_mul (f_of_int (mn_pending n)) R;
          effective_time = f_sub (f_of_int time_since_last_update) discounted_pending in
      f_lt (f_of_int mlfq_recovery_threshold) effective_time)"

definition mlfq_recover :: "time_ns \<Rightarrow> int \<Rightarrow> mlfq_node \<Rightarrow> mlfq_node" where
  "mlfq_recover now N n =
     (if mlfq_recovers now N n
      then n\<lparr> mn_priority := (if mn_priority n > 0 then mn_priority n - 1 else mn_priority n),
              mn_p_a := now, mn_pending := 0, mn_slice_used := 0 \<rparr>
      else n)"

definition mlfq_exhausted :: "mlfq_node \<Rightarrow> bool" where
  "mlfq_exhausted n \<longleftrightarrow> mn_running n \<and> mn_slice_used n \<ge> mlfq_get_time_slice (mn_priority n)"

definition mlfq_demote :: "time_ns \<Rightarrow> mlfq_node \<Rightarrow> mlfq_node" where
  "mlfq_demote now n =
     n\<lparr> mn_priority := (if mn_priority n < mlfq_max_priority then mn_priority n + 1 else mn_priority n),
        mn_p_a := now, mn_slice_used := 0, mn_pending := 0, mn_running := False,
        mn_pending_start := now \<rparr>"

definition mlfq_before_demotion :: "time_ns \<Rightarrow> (xdevice \<Rightarrow> int \<Rightarrow> int) \<Rightarrow> xqueue_status
    \<Rightarrow> mlfq_node \<Rightarrow> mlfq_node" where
  "mlfq_before_demotion now cnt q n =
     (let n1 = mlfq_account now n in
      mlfq_recover now (cnt (xs_device q) (mn_priority n1)) n1)"

definition mlfq_update :: "time_ns \<Rightarrow> (xdevice \<Rightarrow> int \<Rightarrow> int) \<Rightarrow> xqueue_status \<Rightarrow> mlfq_node option
    \<Rightarrow> mlfq_node option" where
  "mlfq_update now cnt q n0 =
     (let n = (case n0 of Some m \<Rightarrow> m | None \<Rightarrow> mlfq_new_node 0) in
      if \<not> xs_ready q then Some n
      else let n1 = mlfq_before_demotion now cnt q n in
           Some (if mlfq_exhausted n1 then mlfq_demote now n1 else n1))"

definition mlfq_update_emit :: "time_ns \<Rightarrow> (xdevice \<Rightarrow> int \<Rightarrow> int) \<Rightarrow> xqueue_status
    \<Rightarrow> mlfq_node option \<Rightarrow> action list" where
  "mlfq_update_emit now cnt q n0 =
     (let n = (case n0 of Some m \<Rightarrow> m | None \<Rightarrow> mlfq_new_node 0) in
      if xs_ready q \<and> mlfq_exhausted (mlfq_before_demotion now cnt q n)
      then [Suspend (xs_handle q)] else [])"

text \<open>The selection: \<^verbatim>\<open>best_prios\<close> and \<^verbatim>\<open>best_handles\<close>.\<close>

definition mlfq_pending :: "mlfq \<Rightarrow> xhandle \<Rightarrow> int" where
  "mlfq_pending p h = (case p h of Some n \<Rightarrow> mn_pending n | None \<Rightarrow> 0)"

definition mlfq_best_step :: "mlfq \<Rightarrow> (xdevice \<rightharpoonup> int \<times> xhandle) \<Rightarrow> xhandle \<times> xqueue_status
    \<Rightarrow> (xdevice \<rightharpoonup> int \<times> xhandle)" where
  "mlfq_best_step p best x =
     (let q = snd x; dev = xs_device q; h = xs_handle q; prio = mlfq_level p h in
      if \<not> xs_ready q then best
      else (case best dev of
              None \<Rightarrow> best(dev \<mapsto> (prio, h))
            | Some (bp, bh) \<Rightarrow>
                if prio < bp then best(dev \<mapsto> (prio, h))
                else if prio = bp then
                  (if mlfq_pending p h > mlfq_pending p bh then best(dev \<mapsto> (bp, h)) else best)
                else best))"

definition mlfq_best :: "mlfq \<Rightarrow> (xhandle \<times> xqueue_status) list \<Rightarrow> (xdevice \<rightharpoonup> int \<times> xhandle)" where
  "mlfq_best p qs = foldl (mlfq_best_step p) Map.empty qs"

definition mlfq_chosen :: "(xdevice \<rightharpoonup> int \<times> xhandle) \<Rightarrow> xqueue_status \<Rightarrow> bool" where
  "mlfq_chosen best q \<longleftrightarrow>
     (case best (xs_device q) of Some (_, h) \<Rightarrow> h | None \<Rightarrow> 0) = xs_handle q"

definition mlfq_apply :: "time_ns \<Rightarrow> (xdevice \<rightharpoonup> int \<times> xhandle) \<Rightarrow> xqueue_status
    \<Rightarrow> mlfq_node option \<Rightarrow> mlfq_node option" where
  "mlfq_apply now best q n0 =
     (let n = (case n0 of Some m \<Rightarrow> m | None \<Rightarrow> mlfq_new_node 0) in
      if \<not> xs_ready q then Some (n\<lparr> mn_running := False \<rparr>)
      else if mlfq_chosen best q then
        (if \<not> mn_running n
         then Some (n\<lparr> mn_running := True, mn_resume_time := now, mn_pending_start := now \<rparr>)
         else Some (n\<lparr> mn_resume_time := now \<rparr>))
      else (if mn_running n then Some (n\<lparr> mn_running := False, mn_pending_start := now \<rparr>)
            else Some n))"

definition mlfq_apply_emit :: "(xdevice \<rightharpoonup> int \<times> xhandle) \<Rightarrow> xqueue_status
    \<Rightarrow> mlfq_node option \<Rightarrow> action list" where
  "mlfq_apply_emit best q n0 =
     (let n = (case n0 of Some m \<Rightarrow> m | None \<Rightarrow> mlfq_new_node 0) in
      if \<not> xs_ready q then []
      else if mlfq_chosen best q then (if \<not> mn_running n then [Resume (xs_handle q)] else [])
      else (if mn_running n then [Suspend (xs_handle q)] else []))"

definition mlfq_Sched :: "sched_env \<Rightarrow> mlfq \<Rightarrow> status \<Rightarrow> (mlfq \<times> action list) option" where
  "mlfq_Sched e p0 st =
     (let now = env_now e; qs = st_xqueues st;
          (p1, _) = foldl (each_queue (mlfq_edge now) (\<lambda>_ _. [])) (p0, []) qs;
          cnt = mlfq_count p1 qs;
          (p2, acts2) = foldl (each_queue (mlfq_update now cnt) (mlfq_update_emit now cnt)) (p1, []) qs;
          has_ready = list_ex (\<lambda>(_, q). xs_ready q) qs;
          best = mlfq_best p2 qs;
          (p3, acts3) = foldl (each_queue (mlfq_apply now best) (mlfq_apply_emit best)) (p2, []) qs in
      Some (p3, acts2 @ acts3
        @ (if has_ready then [AddTimer (now + us_to_ns mlfq_default_tick)] else [])))"

definition mlfq_RecvHint :: "mlfq \<Rightarrow> hint \<Rightarrow> mlfq" where
  "mlfq_RecvHint p ht = p"

section \<open>The nodes after the first three loops\<close>

definition mlfq_edged :: "time_ns \<Rightarrow> status \<Rightarrow> mlfq \<Rightarrow> mlfq" where
  "mlfq_edged now st p = (\<lambda>h. case xq_of st h of None \<Rightarrow> p h | Some q \<Rightarrow> mlfq_edge now q (p h))"

definition mlfq_updated :: "time_ns \<Rightarrow> status \<Rightarrow> mlfq \<Rightarrow> mlfq" where
  "mlfq_updated now st p =
     (let p1 = mlfq_edged now st p; cnt = mlfq_count p1 (st_xqueues st) in
      (\<lambda>h. case xq_of st h of None \<Rightarrow> p1 h | Some q \<Rightarrow> mlfq_update now cnt q (p1 h)))"

definition mlfq_acts2 :: "time_ns \<Rightarrow> status \<Rightarrow> mlfq \<Rightarrow> action list" where
  "mlfq_acts2 now st p =
     (let p1 = mlfq_edged now st p; cnt = mlfq_count p1 (st_xqueues st) in
      concat (map (\<lambda>(k, q). mlfq_update_emit now cnt q (p1 k)) (st_xqueues st)))"

definition mlfq_selected :: "time_ns \<Rightarrow> status \<Rightarrow> mlfq \<Rightarrow> (xdevice \<rightharpoonup> int \<times> xhandle)" where
  "mlfq_selected now st p = mlfq_best (mlfq_updated now st p) (st_xqueues st)"

lemma mlfq_Sched_eq:
  assumes "wf_status st"
  shows "mlfq_Sched e p st =
     (let now = env_now e; p2 = mlfq_updated now st p; best = mlfq_selected now st p in
      Some ((\<lambda>h. case xq_of st h of None \<Rightarrow> p2 h | Some q \<Rightarrow> mlfq_apply now best q (p2 h)),
        mlfq_acts2 now st p
          @ concat (map (\<lambda>(k, q). mlfq_apply_emit best q (p2 k)) (st_xqueues st))
          @ (if list_ex (\<lambda>(_, q). xs_ready q) (st_xqueues st)
             then [AddTimer (now + us_to_ns mlfq_default_tick)] else [])))"
  by (simp add: mlfq_Sched_def each_queue_fold [OF assms] mlfq_edged_def mlfq_updated_def
      mlfq_acts2_def mlfq_selected_def Let_def)

definition mlfq_inv :: "mlfq \<Rightarrow> status \<Rightarrow> bool" where
  "mlfq_inv p st \<longleftrightarrow>
     (\<forall>h n. p h = Some n \<longrightarrow> 0 \<le> mn_priority n \<and> mn_priority n \<le> mlfq_max_priority
        \<and> (\<forall>q. mn_running n \<longrightarrow> xq_of st h = Some q \<longrightarrow> \<not> xs_suspended q))"

text \<open>Every XQueue of the table has a node after the first loop; only its own node counts.\<close>

lemma mlfq_edged_node:
  assumes "xq_of st h = Some q"
  obtains n where "mlfq_edged now st p h = Some n"
    "mn_running n = (case p h of Some m \<Rightarrow> mn_running m | None \<Rightarrow> False)"
    "mn_priority n = (case p h of Some m \<Rightarrow> mn_priority m | None \<Rightarrow> 0)"
proof -
  have "mlfq_edged now st p h = mlfq_edge now q (p h)" by (simp add: mlfq_edged_def assms)
  with that show ?thesis
    by (cases "p h") (auto simp: mlfq_edge_def Let_def mlfq_new_node_def split: if_splits)
qed

lemma mlfq_account_simps [simp]:
  "mn_running (mlfq_account now n) = mn_running n"
  "mn_priority (mlfq_account now n) = mn_priority n"
  by (simp_all add: mlfq_account_def)

lemma mlfq_before_demotion_simps [simp]:
  "mn_running (mlfq_before_demotion now cnt q n) = mn_running n"
  by (simp add: mlfq_before_demotion_def Let_def mlfq_recover_def)

lemma mlfq_before_demotion_priority:
  "0 \<le> mn_priority n \<Longrightarrow> 0 \<le> mn_priority (mlfq_before_demotion now cnt q n)"
  "mn_priority (mlfq_before_demotion now cnt q n) \<le> max 0 (mn_priority n)"
  by (auto simp: mlfq_before_demotion_def Let_def mlfq_recover_def)

lemma mlfq_updated_node:
  assumes "xq_of st h = Some q"
  obtains n1 n2 where "mlfq_edged now st p h = Some n1" "mlfq_updated now st p h = Some n2"
    "mn_running n1 = (case p h of Some m \<Rightarrow> mn_running m | None \<Rightarrow> False)"
    "mn_priority n1 = (case p h of Some m \<Rightarrow> mn_priority m | None \<Rightarrow> 0)"
    "mlfq_update now (mlfq_count (mlfq_edged now st p) (st_xqueues st)) q (Some n1) = Some n2"
proof -
  obtain n1 where n1: "mlfq_edged now st p h = Some n1"
    "mn_running n1 = (case p h of Some m \<Rightarrow> mn_running m | None \<Rightarrow> False)"
    "mn_priority n1 = (case p h of Some m \<Rightarrow> mn_priority m | None \<Rightarrow> 0)"
    using mlfq_edged_node [OF assms] .
  obtain n2 where "mlfq_update now (mlfq_count (mlfq_edged now st p) (st_xqueues st)) q (Some n1) = Some n2"
    unfolding mlfq_update_def Let_def by (cases "xs_ready q") simp_all
  with n1 that show ?thesis by (simp add: mlfq_updated_def Let_def assms)
qed

lemma mlfq_update_priority:
  assumes "mlfq_update now cnt q (Some n) = Some n'" "0 \<le> mn_priority n"
    "mn_priority n \<le> mlfq_max_priority"
  shows "0 \<le> mn_priority n' \<and> mn_priority n' \<le> mlfq_max_priority"
  using assms mlfq_before_demotion_priority [where n = n and now = now and cnt = cnt and q = q]
  by (auto simp: mlfq_update_def Let_def mlfq_demote_def mlfq_max_priority_def split: if_splits)

lemma mlfq_update_running:
  assumes "mlfq_update now cnt q (Some n) = Some n'"
  shows "mn_running n' \<longleftrightarrow> mn_running n
     \<and> \<not> (xs_ready q \<and> mlfq_exhausted (mlfq_before_demotion now cnt q n))"
  using assms by (auto simp: mlfq_update_def Let_def mlfq_demote_def split: if_splits)

section \<open>The selection\<close>

definition mlfq_better :: "mlfq \<Rightarrow> xhandle \<Rightarrow> xhandle \<Rightarrow> bool" where
  "mlfq_better p b h \<longleftrightarrow> mlfq_level p b < mlfq_level p h
     \<or> mlfq_level p b = mlfq_level p h \<and> mlfq_pending p h \<le> mlfq_pending p b"

lemma mlfq_better_refl [simp]: "mlfq_better p h h"
  by (simp add: mlfq_better_def)

lemma mlfq_better_trans: "mlfq_better p a b \<Longrightarrow> mlfq_better p b c \<Longrightarrow> mlfq_better p a c"
  by (auto simp: mlfq_better_def)

lemma mlfq_best_snoc:
  assumes "xs_handle q = k"
  shows "mlfq_best p (qs @ [(k, q)]) d =
     (if xs_ready q \<and> xs_device q = d
      then (case mlfq_best p qs d of
              None \<Rightarrow> Some (mlfq_level p k, k)
            | Some (bp, b) \<Rightarrow>
                if mlfq_level p k < bp \<or> mlfq_level p k = bp \<and> mlfq_pending p b < mlfq_pending p k
                then Some (mlfq_level p k, k) else Some (bp, b))
      else mlfq_best p qs d)"
  by (auto simp: mlfq_best_def mlfq_best_step_def Let_def assms split: option.splits)

lemma mlfq_best_attained:
  assumes "\<forall>(k, q) \<in> set qs. xs_handle q = k" "mlfq_best p qs d = Some (bp, b)"
  shows "bp = mlfq_level p b \<and> (\<exists>q. (b, q) \<in> set qs \<and> xs_ready q \<and> xs_device q = d)"
  using assms
proof (induction qs arbitrary: bp b rule: rev_induct)
  case (snoc x qs)
  obtain k q where x: "x = (k, q)" by (cases x)
  have k: "xs_handle q = k" and ks: "\<forall>(k, q) \<in> set qs. xs_handle q = k"
    using snoc.prems(1) by (auto simp: x)
  show ?case
  proof (cases "mlfq_best p qs d = Some (bp, b)")
    case True
    then show ?thesis using snoc.IH [OF ks True] by auto
  next
    case False
    then have "bp = mlfq_level p k" "b = k" "xs_ready q" "xs_device q = d"
      using snoc.prems(2) unfolding x mlfq_best_snoc [OF k] by (auto split: if_splits option.splits)
    then show ?thesis by (auto simp: x)
  qed
qed (simp add: mlfq_best_def)

lemma mlfq_best_ge:
  assumes "\<forall>(k, q) \<in> set qs. xs_handle q = k" "(k, q) \<in> set qs" "xs_ready q"
  shows "\<exists>bp b. mlfq_best p qs (xs_device q) = Some (bp, b) \<and> mlfq_better p b k"
  using assms
proof (induction qs rule: rev_induct)
  case (snoc x qs)
  obtain k1 q1 where x: "x = (k1, q1)" by (cases x)
  have k1: "xs_handle q1 = k1" and ks: "\<forall>(k, q) \<in> set qs. xs_handle q = k"
    using snoc.prems(1) by (auto simp: x)
  note st = mlfq_best_snoc [OF k1, of p qs]
  show ?case
  proof (cases "(k, q) \<in> set qs")
    case True
    obtain bp b where b: "mlfq_best p qs (xs_device q) = Some (bp, b)" "mlfq_better p b k"
      using snoc.IH [OF ks True snoc.prems(3)] by blast
    have "bp = mlfq_level p b" using mlfq_best_attained [OF ks b(1)] by simp
    then have "mlfq_level p k1 < bp \<or> mlfq_level p k1 = bp \<and> mlfq_pending p b < mlfq_pending p k1
        \<Longrightarrow> mlfq_better p k1 k"
      using b(2) by (auto simp: mlfq_better_def)
    then show ?thesis using b by (auto simp: x st)
  next
    case False
    then have e: "k = k1" "q = q1" using snoc.prems(2) by (auto simp: x)
    show ?thesis
    proof (cases "mlfq_best p qs (xs_device q)")
      case None
      then show ?thesis using snoc.prems(3) by (auto simp: x st e)
    next
      case (Some y)
      obtain bp b where y: "y = (bp, b)" by (cases y)
      have "bp = mlfq_level p b" using mlfq_best_attained [OF ks] Some by (simp add: y)
      then show ?thesis
        using snoc.prems(3) Some by (auto simp: x st e y mlfq_better_def)
    qed
  qed
qed simp

lemma mlfq_selected_spec:
  assumes "wf_status st"
  shows "xq_of st h = Some q \<Longrightarrow> xs_ready q \<Longrightarrow>
      \<exists>bp b. mlfq_selected now st p (xs_device q) = Some (bp, b)
        \<and> mlfq_better (mlfq_updated now st p) b h"
    and "mlfq_selected now st p d = Some (bp, b) \<Longrightarrow>
      \<exists>q. xq_of st b = Some q \<and> xs_ready q \<and> xs_device q = d"
proof -
  have keys: "\<forall>(k, q) \<in> set (st_xqueues st). xs_handle q = k"
    by (auto simp: st_queue_iff [OF assms] wf_handle [OF assms])
  note at = mlfq_best_attained [OF keys, of "mlfq_updated now st p", folded mlfq_selected_def]
  note ge = mlfq_best_ge [OF keys, of _ _ "mlfq_updated now st p", folded mlfq_selected_def]
  show "xq_of st h = Some q \<Longrightarrow> xs_ready q \<Longrightarrow>
      \<exists>bp b. mlfq_selected now st p (xs_device q) = Some (bp, b)
        \<and> mlfq_better (mlfq_updated now st p) b h"
    using ge by (simp add: st_queue_iff [OF assms])
  show "mlfq_selected now st p d = Some (bp, b) \<Longrightarrow>
      \<exists>q. xq_of st b = Some q \<and> xs_ready q \<and> xs_device q = d"
    using at by (simp add: st_queue_iff [OF assms])
qed

section \<open>What a run decides\<close>

lemma mlfq_emits_own:
  "xs_handle q = h \<Longrightarrow> mentions_only h (mlfq_update_emit now cnt q n)"
  "xs_handle q = h \<Longrightarrow> mentions_only h (mlfq_apply_emit best q n)"
  by (auto simp: mlfq_update_emit_def mlfq_apply_emit_def Let_def)

lemma mlfq_Sched_decision:
  assumes "wf_status st" "mlfq_Sched e p st = Some (p', acts)" "xq_of st h = Some q"
  shows "decision acts h =
     (case decision (mlfq_apply_emit (mlfq_selected (env_now e) st p) q
             (mlfq_updated (env_now e) st p h)) h of
        Some b \<Rightarrow> Some b
      | None \<Rightarrow> decision (mlfq_update_emit (env_now e)
           (mlfq_count (mlfq_edged (env_now e) st p) (st_xqueues st)) q
           (mlfq_edged (env_now e) st p h)) h)"
proof -
  let ?now = "env_now e"
  have d2: "decision (mlfq_acts2 ?now st p) h = decision (mlfq_update_emit ?now
           (mlfq_count (mlfq_edged ?now st p) (st_xqueues st)) q (mlfq_edged ?now st p h)) h"
    unfolding mlfq_acts2_def Let_def
    by (subst decision_each [OF assms(1)])
       (auto intro!: mlfq_emits_own dest: wf_handle [OF assms(1)] simp: assms(3))
  have d3: "decision (concat (map (\<lambda>(k, q). mlfq_apply_emit (mlfq_selected ?now st p) q
        (mlfq_updated ?now st p k)) (st_xqueues st))) h =
      decision (mlfq_apply_emit (mlfq_selected ?now st p) q (mlfq_updated ?now st p h)) h"
    by (subst decision_each [OF assms(1)])
       (auto intro!: mlfq_emits_own dest: wf_handle [OF assms(1)] simp: assms(3))
  show ?thesis
    using assms(2) by (auto simp: mlfq_Sched_eq [OF assms(1)] Let_def decision_append d2 d3
        split: option.split)
qed

lemma mlfq_Sched_unknown:
  assumes "wf_status st" "mlfq_Sched e p st = Some (p', acts)" "xq_of st h = None"
  shows "decision acts h = None"
proof -
  let ?now = "env_now e"
  have d2: "decision (mlfq_acts2 ?now st p) h = None"
    unfolding mlfq_acts2_def Let_def
    by (subst decision_each [OF assms(1)])
       (auto intro!: mlfq_emits_own dest: wf_handle [OF assms(1)] simp: assms(3))
  have d3: "decision (concat (map (\<lambda>(k, q). mlfq_apply_emit (mlfq_selected ?now st p) q
        (mlfq_updated ?now st p k)) (st_xqueues st))) h = None"
    by (subst decision_each [OF assms(1)])
       (auto intro!: mlfq_emits_own dest: wf_handle [OF assms(1)] simp: assms(3))
  show ?thesis
    using assms(2) by (auto simp: mlfq_Sched_eq [OF assms(1)] Let_def decision_append d2 d3)
qed

text \<open>The chosen XQueue of a device runs after the run.\<close>

lemma mlfq_chosen_runs:
  assumes "wf_status st" "mlfq_inv p st" "mlfq_Sched e p st = Some (p', acts)"
    "mlfq_selected (env_now e) st p d = Some (bp, b)"
  shows "\<not> left_suspended st acts b"
proof -
  let ?now = "env_now e" and ?cnt = "mlfq_count (mlfq_edged (env_now e) st p) (st_xqueues st)"
  obtain q where q: "xq_of st b = Some q" "xs_ready q" "xs_device q = d"
    using mlfq_selected_spec(2) [OF assms(1,4)] by blast
  obtain n1 n2 where n: "mlfq_edged ?now st p b = Some n1" "mlfq_updated ?now st p b = Some n2"
    "mn_running n1 = (case p b of Some m \<Rightarrow> mn_running m | None \<Rightarrow> False)"
    "mlfq_update ?now ?cnt q (Some n1) = Some n2"
    using mlfq_updated_node [OF q(1), of ?now p] by metis
  have ch: "mlfq_chosen (mlfq_selected ?now st p) q"
    using assms(4) q wf_handle [OF assms(1) q(1)] by (simp add: mlfq_chosen_def)
  note run = mlfq_update_running [OF n(4)]
  show ?thesis
  proof (cases "mn_running n2")
    case False
    then show ?thesis
      using mlfq_Sched_decision [OF assms(1,3) q(1)] ch q(2) n(2) wf_handle [OF assms(1) q(1)]
      by (simp add: mlfq_apply_emit_def left_suspended_def)
  next
    case True
    then have "mn_running n1" "\<not> mlfq_exhausted (mlfq_before_demotion ?now ?cnt q n1)"
      using run q(2) by auto
    moreover have "\<not> xs_suspended q"
      using calculation(1) n(3) assms(2) q(1) by (auto simp: mlfq_inv_def split: option.splits)
    ultimately show ?thesis
      using mlfq_Sched_decision [OF assms(1,3) q(1)] ch q(1,2) n(1,2) True
      by (simp add: mlfq_apply_emit_def mlfq_update_emit_def left_suspended_def)
  qed
qed

lemma mlfq_Sched_inv:
  assumes "wf_status st" "mlfq_inv p st" "mlfq_Sched e p st = Some (p', acts)"
  shows "mlfq_inv p' (fst (run_actions acts (st, ts)))"
  unfolding mlfq_inv_def
proof (intro allI impI conjI)
  fix h n assume pn: "p' h = Some n"
  let ?now = "env_now e" and ?cnt = "mlfq_count (mlfq_edged (env_now e) st p) (st_xqueues st)"
  let ?best = "mlfq_selected (env_now e) st p"
  have both: "0 \<le> mn_priority n \<and> mn_priority n \<le> mlfq_max_priority"
  proof (cases "xq_of st h")
    case None
    then have "p h = Some n"
      using pn assms(3) by (auto simp: mlfq_Sched_eq [OF assms(1)] Let_def mlfq_updated_def mlfq_edged_def)
    then show ?thesis using assms(2) by (auto simp: mlfq_inv_def)
  next
    case (Some q)
    obtain n1 n2 where k: "mlfq_updated ?now st p h = Some n2"
      "mn_priority n1 = (case p h of Some m \<Rightarrow> mn_priority m | None \<Rightarrow> 0)"
      "mlfq_update ?now ?cnt q (Some n1) = Some n2"
      using mlfq_updated_node [OF Some, of ?now p] by metis
    have "0 \<le> mn_priority n1 \<and> mn_priority n1 \<le> mlfq_max_priority"
      using k(2) assms(2) by (auto simp: mlfq_inv_def mlfq_max_priority_def split: option.splits)
    then have "0 \<le> mn_priority n2 \<and> mn_priority n2 \<le> mlfq_max_priority"
      using mlfq_update_priority [OF k(3)] by blast
    moreover have "mn_priority n = mn_priority n2"
      using pn assms(3) Some k(1)
      by (auto simp: mlfq_Sched_eq [OF assms(1)] Let_def mlfq_apply_def split: if_splits)
    ultimately show ?thesis by simp
  qed
  then show "0 \<le> mn_priority n" "mn_priority n \<le> mlfq_max_priority" by auto
  fix q' assume r: "mn_running n" "xq_of (fst (run_actions acts (st, ts))) h = Some q'"
  then obtain q where q: "xq_of st h = Some q" "q' = q\<lparr> xs_suspended := left_suspended st acts h \<rparr>"
    by (elim run_actions_cases)
  have p': "p' h = mlfq_apply ?now ?best q (mlfq_updated ?now st p h)"
    using assms(3) q(1) by (auto simp: mlfq_Sched_eq [OF assms(1)] Let_def)
  have ready: "xs_ready q" and ch: "mlfq_chosen ?best q"
    using pn r(1) unfolding p' by (auto simp: mlfq_apply_def Let_def split: if_splits)
  obtain bp b where "?best (xs_device q) = Some (bp, b)"
    using mlfq_selected_spec(1) [OF assms(1) q(1) ready] by blast
  moreover then have "b = h"
    using ch wf_handle [OF assms(1) q(1)] by (simp add: mlfq_chosen_def)
  ultimately have "\<not> left_suspended st acts h" using mlfq_chosen_runs [OF assms] by blast
  then show "\<not> xs_suspended q'" by (simp add: q(2))
qed

interpretation mlfq_pol: wc_policy mlfq_Sched "\<lambda>_. mlfq_RecvHint" mlfq_inv
proof unfold_locales
  fix e p st assume *: "wf_status st" "mlfq_inv p st"
  show "\<exists>p' acts. mlfq_Sched e p st = Some (p', acts)"
    by (simp add: mlfq_Sched_eq [OF *(1)] Let_def)
next
  fix p st ht assume "mlfq_inv p st"
  then show "mlfq_inv (mlfq_RecvHint p ht) st" by (simp add: mlfq_RecvHint_def)
next
  fix p st st' assume *: "mlfq_inv p st" "suspends_less st st'"
  show "mlfq_inv p st'" unfolding mlfq_inv_def
    using *(1) [unfolded mlfq_inv_def] *(2) [unfolded suspends_less_def] by metis
next
  fix e p st p' acts h b
  assume *: "wf_status st" "mlfq_Sched e p st = Some (p', acts)" "decision acts h = Some b"
  show "h \<in> fst ` set (st_xqueues st)"
    using mlfq_Sched_unknown [OF *(1,2), of h] *(3) by (cases "xq_of st h") (auto intro: xq_of_key)
next
  fix e p st p' acts
  assume *: "wf_status st" "mlfq_inv p st" "mlfq_Sched e p st = Some (p', acts)" "some_ready st"
  obtain h0 q0 where q0: "xq_of st h0 = Some q0" "xs_ready q0" using some_readyE [OF *(4,1)] .
  obtain bp b where b: "mlfq_selected (env_now e) st p (xs_device q0) = Some (bp, b)"
    using mlfq_selected_spec(1) [OF *(1) q0] by blast
  from mlfq_selected_spec(2) [OF *(1) b] mlfq_chosen_runs [OF *(1-3) b]
  show "\<exists>h q. xq_of st h = Some q \<and> xs_ready q \<and> \<not> left_suspended st acts h" by blast
qed (rule mlfq_Sched_inv)

section \<open>Properties\<close>

text \<open>C8: On every device with ready work MLFQ leaves running a ready XQueue of the highest
  level there, and among those of its level one that has waited longest; levels stay
  between 0 and 3.\<close>

theorem mlfq_runs_highest_level:
  assumes "wf_status st" "mlfq_inv p st" "mlfq_Sched e p st = Some (p', acts)"
    and "xq_of st h0 = Some q0" "xs_ready q0"
  shows "\<exists>b q. xq_of st b = Some q \<and> xs_ready q \<and> xs_device q = xs_device q0
     \<and> xq_of (fst (run_actions acts (st, ts))) b = Some (q\<lparr> xs_suspended := False \<rparr>)
     \<and> (\<forall>h' q'. xq_of st h' = Some q' \<longrightarrow> xs_ready q' \<longrightarrow> xs_device q' = xs_device q0
          \<longrightarrow> mlfq_better (mlfq_updated (env_now e) st p) b h')
     \<and> (\<forall>h n. p' h = Some n \<longrightarrow> 0 \<le> mn_priority n \<and> mn_priority n \<le> mlfq_max_priority)"
proof -
  obtain bp b where b: "mlfq_selected (env_now e) st p (xs_device q0) = Some (bp, b)"
    using mlfq_selected_spec(1) [OF assms(1,4,5)] by blast
  obtain q where q: "xq_of st b = Some q" "xs_ready q" "xs_device q = xs_device q0"
    using mlfq_selected_spec(2) [OF assms(1) b] by blast
  have "xq_of (fst (run_actions acts (st, ts))) b = Some (q\<lparr> xs_suspended := False \<rparr>)"
    using mlfq_chosen_runs [OF assms(1-3) b] by (simp add: run_actions_left_suspended [OF q(1)])
  moreover have "mlfq_better (mlfq_updated (env_now e) st p) b h'"
    if "xq_of st h' = Some q'" "xs_ready q'" "xs_device q' = xs_device q0" for h' q'
    using mlfq_selected_spec(1) [OF assms(1) that(1,2), of "env_now e" p] b that(3) by simp
  moreover have "0 \<le> mn_priority n \<and> mn_priority n \<le> mlfq_max_priority" if "p' h = Some n" for h n
    using mlfq_Sched_inv [OF assms(1-3), of ts] that by (auto simp: mlfq_inv_def)
  ultimately show ?thesis using q by blast
qed

lemma mlfq_inv_empty [simp]: "mlfq_inv Map.empty st"
  by (simp add: mlfq_inv_def)

theorem mlfq_runs_highest_level_witness:
  "\<exists>p' acts b q. mlfq_Sched ex_env Map.empty (ex_status True True) = Some (p', acts)
     \<and> xq_of (fst (run_actions acts (ex_status True True, []))) b = Some q \<and> \<not> xs_suspended q"
proof -
  obtain p' acts where r: "mlfq_Sched ex_env Map.empty (ex_status True True) = Some (p', acts)"
    by (simp add: mlfq_Sched_eq Let_def)
  have q: "xq_of (ex_status True True) 1 = Some (ex_queue 1 10 True 1000)" "xs_ready (ex_queue 1 10 True 1000)"
    by (simp_all add: ex_defs)
  from mlfq_runs_highest_level [OF wf_ex_status mlfq_inv_empty r q, of "[]"] obtain b q where
    "xq_of (fst (run_actions acts (ex_status True True, []))) b = Some (q\<lparr> xs_suspended := False \<rparr>)"
    by blast
  with r show ?thesis by (intro exI conjI) (assumption | simp)+
qed

text \<open>MLFQ suspends only XQueues its own records show as running, so an XQueue that is
  seen for the first time and is not chosen is not suspended: it keeps the device together
  with the chosen one although the policy counts it as waiting.\<close>

theorem mlfq_newcomer_not_suspended:
  assumes "wf_status st" "mlfq_Sched e p st = Some (p', acts)" "p h = None"
    and "xq_of st h = Some q" "\<not> xs_suspended q"
  shows "xq_of (fst (run_actions acts (st, ts))) h = Some q"
proof -
  let ?now = "env_now e" and ?cnt = "mlfq_count (mlfq_edged (env_now e) st p) (st_xqueues st)"
  obtain n1 n2 where n: "mlfq_edged ?now st p h = Some n1" "mlfq_updated ?now st p h = Some n2"
    "mn_running n1 = (case p h of Some m \<Rightarrow> mn_running m | None \<Rightarrow> False)"
    "mlfq_update ?now ?cnt q (Some n1) = Some n2"
    using mlfq_updated_node [OF assms(4), of ?now p] by metis
  have nr: "\<not> mn_running n1" "\<not> mn_running n2"
    using n(3) assms(3) mlfq_update_running [OF n(4)] by simp_all
  have "mlfq_update_emit ?now ?cnt q (Some n1) = []"
    using nr by (simp add: mlfq_update_emit_def Let_def mlfq_exhausted_def)
  then have "\<not> left_suspended st acts h"
    using mlfq_Sched_decision [OF assms(1,2,4)] n(1,2) nr assms(4,5)
    by (auto simp: mlfq_apply_emit_def left_suspended_def split: option.splits if_splits)
  then show ?thesis
    using assms(5) by (simp add: run_actions_left_suspended [OF assms(4)])
qed

theorem mlfq_newcomer_not_suspended_witness:
  "\<exists>p' acts. mlfq_Sched ex_env Map.empty (ex_status True True) = Some (p', acts)
     \<and> xq_of (fst (run_actions acts (ex_status True True, []))) 2 = Some (ex_queue 2 20 True 2000)"
proof -
  obtain p' acts where r: "mlfq_Sched ex_env Map.empty (ex_status True True) = Some (p', acts)"
    by (simp add: mlfq_Sched_eq Let_def)
  show ?thesis
    using mlfq_newcomer_not_suspended [OF wf_ex_status r, of 2 "ex_queue 2 20 True 2000" "[]"] r
    by (simp add: ex_defs)
qed

end
