(* ===== verification/SloPolicy.thy ===== *)
theory SloPolicy
  imports PriorityPolicies
begin

text \<open>
  SLO (\<^verbatim>\<open>sched/src/policy/slo.cpp\<close>): three classes of XQueues per device. An urgent one,
  whose deadline is at most one tick away, goes first, the least slack before the others;
  then the latency-sensitive ones by priority; then the batch ones by virtual run time.
  The record of an XQueue is created where it is first looked up, with the clock of that
  moment (\<open>env_clk\<close>).
\<close>

section \<open>State\<close>

record slo_info =
  si_priority :: int
  si_deadline :: int
  si_util :: int
  si_vruntime :: f64
  si_running :: bool
  si_last_resume :: time_ns

record slo =
  slo_infos :: "xhandle \<rightharpoonup> slo_info"
  slo_utils :: "pid \<rightharpoonup> int"
  slo_tick :: int

definition slo_init :: slo where
  "slo_init = \<lparr> slo_infos = Map.empty, slo_utils = Map.empty, slo_tick = TIMESLICE_DEFAULT \<rparr>"

section \<open>Operations\<close>

definition slo_GetInfo :: "sched_env \<Rightarrow> xhandle \<Rightarrow> slo_info option \<Rightarrow> slo_info" where
  "slo_GetInfo e h n =
     (case n of Some info \<Rightarrow> info
      | None \<Rightarrow> \<lparr> si_priority = PRIORITY_DEFAULT, si_deadline = NO_DEADLINE,
                  si_util = UTILIZATION_DEFAULT, si_vruntime = Fin 0, si_running = False,
                  si_last_resume = env_clk e h \<rparr>)"

definition slo_GetUtilization :: "(pid \<rightharpoonup> int) \<Rightarrow> xqueue_status \<Rightarrow> slo_info \<Rightarrow> int" where
  "slo_GetUtilization utils q info =
     (let util = (case utils (xs_pid q) of None \<Rightarrow> si_util info | Some u \<Rightarrow> u) in
      if util < UTILIZATION_MIN then UTILIZATION_MIN
      else if util > UTILIZATION_MAX then UTILIZATION_MAX else util)"

definition slo_IsLatencySensitive :: "slo_info \<Rightarrow> bool" where
  "slo_IsLatencySensitive info \<longleftrightarrow>
     si_deadline info \<noteq> NO_DEADLINE \<or> si_priority info > PRIORITY_DEFAULT"

definition slo_GetSlackUs :: "time_ns \<Rightarrow> xqueue_status \<Rightarrow> slo_info \<Rightarrow> f64" where
  "slo_GetSlackUs now q info =
     (if si_deadline info = NO_DEADLINE then PInf
      else f_sub (f_of_int (si_deadline info)) (f_of_int (ns_to_us (now - xs_ready_time q))))"

definition slo_charge :: "time_ns \<Rightarrow> int \<Rightarrow> slo_info \<Rightarrow> slo_info" where
  "slo_charge now util info =
     (let elapsed_us = ns_to_us (now - si_last_resume info) in
      if elapsed_us \<le> 0 then info
      else info\<lparr> si_vruntime := f_add (si_vruntime info)
                   (f_mul (f_of_int elapsed_us) (f_div (f_of_int UTILIZATION_DEFAULT) (f_of_int (max util 1)))),
                 si_last_resume := now \<rparr>)"

definition slo_update_upd :: "sched_env \<Rightarrow> (pid \<rightharpoonup> int) \<Rightarrow> xqueue_status \<Rightarrow> slo_info option
    \<Rightarrow> slo_info option" where
  "slo_update_upd e utils q n =
     (let info = slo_GetInfo e (xs_handle q) n in
      if \<not> si_running info then Some info
      else Some (slo_charge (env_now e) (slo_GetUtilization utils q info) info))"

definition slo_UpdateRuntime :: "sched_env \<Rightarrow> slo \<Rightarrow> status \<Rightarrow> slo" where
  "slo_UpdateRuntime e p st =
     p\<lparr> slo_infos := fst (foldl (each_queue (slo_update_upd e (slo_utils p)) (\<lambda>_ _. []))
                            (slo_infos p, []) (st_xqueues st)) \<rparr>"

text \<open>\<^verbatim>\<open>PickBestQueue\<close>: the loop keeps a best candidate of each class.\<close>

definition slo_urgent :: "slo \<Rightarrow> time_ns \<Rightarrow> xqueue_status \<Rightarrow> slo_info \<Rightarrow> bool" where
  "slo_urgent p now q info \<longleftrightarrow>
     si_deadline info \<noteq> NO_DEADLINE \<and> f_le (slo_GetSlackUs now q info) (f_of_int (slo_tick p))"

definition slo_less_slack :: "f64 \<times> int \<Rightarrow> f64 \<times> int \<Rightarrow> bool" where
  "slo_less_slack x best \<longleftrightarrow>
     f_lt (fst x) (fst best) \<or> (f_eq (fst x) (fst best) \<and> snd x > snd best)"

definition slo_more_prio :: "int \<times> f64 \<Rightarrow> int \<times> f64 \<Rightarrow> bool" where
  "slo_more_prio x best \<longleftrightarrow>
     fst x > fst best \<or> (fst x = fst best \<and> f_lt (snd x) (snd best))"

type_synonym slo_best = "(xhandle \<times> f64 \<times> int) \<times> (xhandle \<times> int \<times> f64) \<times> (xhandle \<times> f64)"

definition slo_pick_step :: "sched_env \<Rightarrow> slo \<Rightarrow> xdevice \<Rightarrow> slo_best \<Rightarrow> xhandle \<times> xqueue_status
    \<Rightarrow> slo_best" where
  "slo_pick_step e p d s x =
     (let (urg, lat, bat) = s; q = snd x; h = xs_handle q; now = env_now e in
      if \<not> xs_ready q \<or> xs_device q \<noteq> d then s
      else
       (let info = slo_GetInfo e h (slo_infos p h);
            slack = slo_GetSlackUs now q info;
            latency_sensitive = slo_IsLatencySensitive info;
            ukey = (slack, si_priority info); lkey = (si_priority info, slack) in
        (if slo_urgent p now q info \<and> slo_less_slack ukey (snd urg) then (h, ukey) else urg,
         if latency_sensitive \<and> slo_more_prio lkey (snd lat) then (h, lkey) else lat,
         if \<not> latency_sensitive \<and> f_lt (si_vruntime info) (snd bat)
         then (h, si_vruntime info) else bat)))"

definition slo_PickBestQueue :: "sched_env \<Rightarrow> slo \<Rightarrow> status \<Rightarrow> xdevice \<Rightarrow> xhandle" where
  "slo_PickBestQueue e p st d =
     (let (urg, lat, bat) = foldl (slo_pick_step e p d)
            ((0, PInf, PRIORITY_MIN), (0, PRIORITY_MIN, PInf), (0, PInf)) (st_xqueues st) in
      if fst urg \<noteq> 0 then fst urg else if fst lat \<noteq> 0 then fst lat else fst bat)"

definition slo_chosen :: "sched_env \<Rightarrow> slo \<Rightarrow> status \<Rightarrow> xdevice \<rightharpoonup> xhandle" where
  "slo_chosen e p st =
     foldl (\<lambda>chosen (_, q).
        if \<not> xs_ready q then chosen
        else if chosen (xs_device q) = None
             then chosen(xs_device q \<mapsto> slo_PickBestQueue e p st (xs_device q))
             else chosen)
       Map.empty (st_xqueues st)"

text \<open>The last loop.\<close>

definition slo_is_chosen :: "(xdevice \<rightharpoonup> xhandle) \<Rightarrow> xqueue_status \<Rightarrow> bool" where
  "slo_is_chosen chosen q \<longleftrightarrow>
     (case chosen (xs_device q) of Some h \<Rightarrow> h | None \<Rightarrow> 0) = xs_handle q"

definition slo_apply_upd :: "sched_env \<Rightarrow> (xdevice \<rightharpoonup> xhandle) \<Rightarrow> xqueue_status \<Rightarrow> slo_info option
    \<Rightarrow> slo_info option" where
  "slo_apply_upd e chosen q n =
     (let info = slo_GetInfo e (xs_handle q) n in
      if \<not> xs_ready q then Some (info\<lparr> si_running := False \<rparr>)
      else if slo_is_chosen chosen q
           then Some (info\<lparr> si_running := True, si_last_resume := env_now e \<rparr>)
      else Some (info\<lparr> si_running := False \<rparr>))"

definition slo_apply_emit :: "sched_env \<Rightarrow> (xdevice \<rightharpoonup> xhandle) \<Rightarrow> xqueue_status \<Rightarrow> slo_info option
    \<Rightarrow> action list" where
  "slo_apply_emit e chosen q n =
     (let info = slo_GetInfo e (xs_handle q) n in
      if \<not> xs_ready q then []
      else if slo_is_chosen chosen q
           then (if \<not> si_running info then [Resume (xs_handle q)] else [])
      else if si_running info \<or> \<not> xs_suspended q then [Suspend (xs_handle q)] else [])"

definition slo_Sched :: "sched_env \<Rightarrow> slo \<Rightarrow> status \<Rightarrow> (slo \<times> action list) option" where
  "slo_Sched e p0 st =
     (let now = env_now e; qs = st_xqueues st;
          p1 = slo_UpdateRuntime e p0 st;
          has_ready = list_ex (\<lambda>(_, q). xs_ready q) qs;
          chosen = slo_chosen e p1 st;
          (infos, acts) = foldl (each_queue (slo_apply_upd e chosen) (slo_apply_emit e chosen))
                            (slo_infos p1, []) qs in
      Some (p1\<lparr> slo_infos := infos \<rparr>,
        acts @ (if has_ready then [AddTimer (now + us_to_ns (slo_tick p1))] else [])))"

definition slo_set_info :: "sched_env \<Rightarrow> xhandle \<Rightarrow> (slo_info \<Rightarrow> slo_info) \<Rightarrow> slo \<Rightarrow> slo" where
  "slo_set_info e h f p =
     p\<lparr> slo_infos := (slo_infos p)(h \<mapsto> f (slo_GetInfo e h (slo_infos p h))) \<rparr>"

definition slo_RecvHint :: "sched_env \<Rightarrow> slo \<Rightarrow> hint \<Rightarrow> slo" where
  "slo_RecvHint e p ht =
     (case ht of
        PriorityHint h v \<Rightarrow>
          slo_set_info e h (si_priority_update (\<lambda>_. min (max v PRIORITY_MIN) PRIORITY_MAX)) p
      | DeadlineHint h d \<Rightarrow> slo_set_info e h (si_deadline_update (\<lambda>_. d)) p
      | UtilizationHint pd h u \<Rightarrow>
          (let util = min (max u UTILIZATION_MIN) UTILIZATION_MAX;
               p1 = (if h \<noteq> 0 then slo_set_info e h (si_util_update (\<lambda>_. util)) p else p) in
           if pd \<noteq> 0 then p1\<lparr> slo_utils := (slo_utils p1)(pd \<mapsto> util) \<rparr> else p1)
      | TimesliceHint ts \<Rightarrow>
          if ts \<ge> TIMESLICE_MIN \<and> ts \<le> TIMESLICE_MAX then p\<lparr> slo_tick := ts \<rparr> else p
      | _ \<Rightarrow> p)"

section \<open>The best candidate of a loop\<close>

text \<open>A loop that keeps the first best element by a strict order, starting below all.\<close>

lemma best_fold:
  fixes better :: "'k \<Rightarrow> 'k \<Rightarrow> bool"
  assumes trans: "\<And>a b c. better a b \<Longrightarrow> better b c \<Longrightarrow> better a c"
    and irrefl: "\<And>a. \<not> better a a"
    and init: "\<And>x. x \<in> set xs \<Longrightarrow> P x \<Longrightarrow> better (key x) k0"
  shows "(foldl (\<lambda>s x. if P x \<and> better (key x) (snd s) then (nm x, key x) else s) (n0, k0) xs = (n0, k0)
            \<and> (\<forall>x \<in> set xs. \<not> P x))
       \<or> (\<exists>x \<in> set xs. P x
            \<and> foldl (\<lambda>s x. if P x \<and> better (key x) (snd s) then (nm x, key x) else s) (n0, k0) xs = (nm x, key x)
            \<and> (\<forall>y \<in> set xs. P y \<longrightarrow> \<not> better (key y) (key x)))"
  using init
proof (induction xs rule: rev_induct)
  case (snoc y xs)
  let ?f = "\<lambda>s x. if P x \<and> better (key x) (snd s) then (nm x, key x) else s"
  have IH: "(foldl ?f (n0, k0) xs = (n0, k0) \<and> (\<forall>x \<in> set xs. \<not> P x))
       \<or> (\<exists>x \<in> set xs. P x \<and> foldl ?f (n0, k0) xs = (nm x, key x)
            \<and> (\<forall>y \<in> set xs. P y \<longrightarrow> \<not> better (key y) (key x)))"
    using snoc by auto
  show ?case
  proof (cases "P y")
    case False
    then show ?thesis using IH by auto
  next
    case True
    have y0: "better (key y) k0" using snoc.prems True by simp
    from IH show ?thesis
    proof
      assume "foldl ?f (n0, k0) xs = (n0, k0) \<and> (\<forall>x \<in> set xs. \<not> P x)"
      then show ?thesis using True y0 irrefl by auto
    next
      assume "\<exists>x \<in> set xs. P x \<and> foldl ?f (n0, k0) xs = (nm x, key x)
            \<and> (\<forall>y \<in> set xs. P y \<longrightarrow> \<not> better (key y) (key x))"
      then obtain x where x: "x \<in> set xs" "P x" "foldl ?f (n0, k0) xs = (nm x, key x)"
        "\<forall>y \<in> set xs. P y \<longrightarrow> \<not> better (key y) (key x)" by blast
      show ?thesis
      proof (cases "better (key y) (key x)")
        case b: True
        have "\<not> better (key z) (key y)" if "z \<in> set xs" "P z" for z
          using x(4) that trans b by blast
        then show ?thesis using x True b irrefl by auto
      next
        case False
        then show ?thesis using x True by auto
      qed
    qed
  qed
qed simp

lemma foldl_triple:
  "foldl (\<lambda>(a, b, c) x. (f a x, g b x, h c x)) (a, b, c) xs = (foldl f a xs, foldl g b xs, foldl h c xs)"
  by (induction xs arbitrary: a b c) simp_all

section \<open>What PickBestQueue returns\<close>

definition slo_slack :: "sched_env \<Rightarrow> slo \<Rightarrow> xqueue_status \<Rightarrow> f64" where
  "slo_slack e p q = slo_GetSlackUs (env_now e) q (slo_GetInfo e (xs_handle q) (slo_infos p (xs_handle q)))"

definition slo_info_of :: "sched_env \<Rightarrow> slo \<Rightarrow> xqueue_status \<Rightarrow> slo_info" where
  "slo_info_of e p q = slo_GetInfo e (xs_handle q) (slo_infos p (xs_handle q))"

definition slo_is_urgent :: "sched_env \<Rightarrow> slo \<Rightarrow> xqueue_status \<Rightarrow> bool" where
  "slo_is_urgent e p q \<longleftrightarrow> slo_urgent p (env_now e) q (slo_info_of e p q)"

abbreviation slo_ukey :: "sched_env \<Rightarrow> slo \<Rightarrow> xqueue_status \<Rightarrow> f64 \<times> int" where
  "slo_ukey e p q \<equiv> (slo_slack e p q, si_priority (slo_info_of e p q))"

abbreviation slo_lkey :: "sched_env \<Rightarrow> slo \<Rightarrow> xqueue_status \<Rightarrow> int \<times> f64" where
  "slo_lkey e p q \<equiv> (si_priority (slo_info_of e p q), slo_slack e p q)"

text \<open>The ready XQueues of a device.\<close>

definition slo_cand :: "xdevice \<Rightarrow> xhandle \<times> xqueue_status \<Rightarrow> bool" where
  "slo_cand d x \<longleftrightarrow> xs_ready (snd x) \<and> xs_device (snd x) = d"

definition slo_fold :: "('k \<Rightarrow> 'k \<Rightarrow> bool) \<Rightarrow> (xqueue_status \<Rightarrow> bool) \<Rightarrow> (xqueue_status \<Rightarrow> 'k) \<Rightarrow> 'k
    \<Rightarrow> xdevice \<Rightarrow> (xhandle \<times> xqueue_status) list \<Rightarrow> xhandle \<times> 'k" where
  "slo_fold better P key k0 d xs =
     foldl (\<lambda>s x. if (slo_cand d x \<and> P (snd x)) \<and> better (key (snd x)) (snd s)
              then (xs_handle (snd x), key (snd x)) else s) (0, k0) xs"

lemma slo_pick_fold:
  "foldl (slo_pick_step e p d)
       ((0, PInf, PRIORITY_MIN), (0, PRIORITY_MIN, PInf), (0, PInf)) xs =
     (slo_fold slo_less_slack (slo_is_urgent e p) (slo_ukey e p) (PInf, PRIORITY_MIN) d xs,
      slo_fold slo_more_prio (\<lambda>q. slo_IsLatencySensitive (slo_info_of e p q)) (slo_lkey e p)
        (PRIORITY_MIN, PInf) d xs,
      slo_fold f_lt (\<lambda>q. \<not> slo_IsLatencySensitive (slo_info_of e p q))
        (\<lambda>q. si_vruntime (slo_info_of e p q)) PInf d xs)"
proof -
  have "slo_pick_step e p d = (\<lambda>(a, b, c) x.
      (if (slo_cand d x \<and> slo_is_urgent e p (snd x)) \<and> slo_less_slack (slo_ukey e p (snd x)) (snd a)
       then (xs_handle (snd x), slo_ukey e p (snd x)) else a,
       if (slo_cand d x \<and> slo_IsLatencySensitive (slo_info_of e p (snd x)))
          \<and> slo_more_prio (slo_lkey e p (snd x)) (snd b)
       then (xs_handle (snd x), slo_lkey e p (snd x)) else b,
       if (slo_cand d x \<and> \<not> slo_IsLatencySensitive (slo_info_of e p (snd x)))
          \<and> f_lt (si_vruntime (slo_info_of e p (snd x))) (snd c)
       then (xs_handle (snd x), si_vruntime (slo_info_of e p (snd x))) else c))"
    by (auto simp: fun_eq_iff slo_pick_step_def slo_cand_def slo_is_urgent_def slo_info_of_def
        slo_slack_def Let_def)
  then show ?thesis by (simp only: foldl_triple slo_fold_def)
qed

lemma slo_less_slack_trans: "slo_less_slack a b \<Longrightarrow> slo_less_slack b c \<Longrightarrow> slo_less_slack a c"
  by (cases "fst a"; cases "fst b"; cases "fst c") (auto simp: slo_less_slack_def)

lemma slo_more_prio_trans: "slo_more_prio a b \<Longrightarrow> slo_more_prio b c \<Longrightarrow> slo_more_prio a c"
  using f_lt_trans by (auto simp: slo_more_prio_def)

lemma slo_order_irrefl: "\<not> slo_less_slack a a" "\<not> slo_more_prio b b"
  by (simp_all add: slo_less_slack_def slo_more_prio_def)

text \<open>What one of the three loops finds, given that every candidate beats the start.\<close>

lemma slo_fold_spec:
  assumes "\<And>a b c. better a b \<Longrightarrow> better b c \<Longrightarrow> better a c" "\<And>a. \<not> better a a"
    and "\<And>q. P q \<Longrightarrow> q \<in> snd ` set xs \<Longrightarrow> better (key q) k0"
  shows "(slo_fold better P key k0 d xs = (0, k0) \<and> (\<forall>x \<in> set xs. slo_cand d x \<longrightarrow> \<not> P (snd x)))
    \<or> (\<exists>x \<in> set xs. slo_cand d x \<and> P (snd x)
         \<and> slo_fold better P key k0 d xs = (xs_handle (snd x), key (snd x))
         \<and> (\<forall>y \<in> set xs. slo_cand d y \<longrightarrow> P (snd y) \<longrightarrow> \<not> better (key (snd y)) (key (snd x))))"
  using best_fold [of better xs "\<lambda>x. slo_cand d x \<and> P (snd x)" "\<lambda>x. key (snd x)" k0
      "\<lambda>x. xs_handle (snd x)" 0] assms unfolding slo_fold_def by blast

section \<open>The invariant\<close>

text \<open>Virtual run times stay finite: at \<open>2 ^ 200\<close> the largest charge is below half an ulp.\<close>

definition slo_info_ok :: "slo_info \<Rightarrow> bool" where
  "slo_info_ok info \<longleftrightarrow>
     (\<exists>r. si_vruntime info = Fin r \<and> 0 \<le> r \<and> r \<le> pow2 200)
     \<and> time_ok (si_last_resume info)
     \<and> PRIORITY_MIN \<le> si_priority info \<and> si_priority info \<le> PRIORITY_MAX
     \<and> in_signed 8 (si_deadline info)"

definition slo_inv :: "slo \<Rightarrow> status \<Rightarrow> bool" where
  "slo_inv p st \<longleftrightarrow>
     TIMESLICE_MIN \<le> slo_tick p \<and> slo_tick p \<le> TIMESLICE_MAX
     \<and> (\<forall>h info. slo_infos p h = Some info \<longrightarrow> slo_info_ok info
          \<and> (\<forall>q. si_running info \<longrightarrow> xq_of st h = Some q \<longrightarrow> \<not> xs_suspended q))"

lemma slo_GetInfo_ok:
  assumes "env_ok e" "\<And>info. n = Some info \<Longrightarrow> slo_info_ok info"
  shows "slo_info_ok (slo_GetInfo e h n)"
  using assms by (cases n) (auto simp: slo_GetInfo_def slo_info_ok_def env_ok_def less_imp_le)

lemma fl_rat_pow2_200: "fl_rat (pow2 200 + pow2 62) = pow2 200"
proof -
  let ?x = "pow2 200 + pow2 62"
  have lo: "pow2 200 \<le> ?x" and pos: "0 < ?x" using pow2_pos [of 62] pow2_pos [of 200] by linarith+
  have "pow2 62 < pow2 200" by (rule pow2_strict_mono) simp
  moreover have "pow2 (200 + 1) = 2 * pow2 200" using pow2_Suc [of 200] by (simp only: add.commute)
  ultimately have hi: "?x < pow2 (200 + 1)" by linarith
  have lg: "flog2 ?x = 200" by (rule flog2_unique [OF lo hi])
  have ue: "ulp_exp ?x = 148" using pos by (simp add: ulp_exp_def lg)
  have d: "?x / pow2 148 = of_int (2 ^ 52) + pow2 (- 86)"
  proof -
    have "pow2 200 = pow2 52 * pow2 148" "pow2 62 = pow2 (- 86) * pow2 148"
      using pow2_add [of 52 148] pow2_add [of "- 86" 148] by simp_all
    then show ?thesis using pow2_nat [of 52] by (simp add: add_divide_distrib)
  qed
  have small: "0 < pow2 (- 86)" "pow2 (- 86) < 1 / 2"
    using pow2_strict_mono [of "- 86" "- 1"] by (simp, simp add: pow2_def [of "- 1"])
  have fl: "\<lfloor>(of_int (2 ^ 52) :: rat) + pow2 (- 86)\<rfloor> = 2 ^ 52"
    by (intro floor_unique; use small in linarith)
  have "rne (?x / pow2 148) = 2 ^ 52"
    unfolding d rne_def fl Let_def using small by simp
  then have "fl_rat ?x = of_int (2 ^ 52) * pow2 148"
    using pos ue by (simp add: fl_rat_def)
  also have "\<dots> = pow2 200" using pow2_add [of 52 148] pow2_nat [of 52] by simp
  finally show ?thesis .
qed

lemma f_add_bounded:
  assumes "0 \<le> r" "r \<le> pow2 200" "0 \<le> d" "d \<le> pow2 62"
  shows "\<exists>r'. f_add (Fin r) (Fin d) = Fin r' \<and> 0 \<le> r' \<and> r' \<le> pow2 200"
proof -
  have "fl_rat (r + d) \<le> fl_rat (pow2 200 + pow2 62)" using assms by (intro fl_rat_mono) simp
  then have u: "fl_rat (r + d) \<le> pow2 200" by (simp only: fl_rat_pow2_200)
  have "\<bar>r + d\<bar> \<le> pow2 201"
    using assms pow2_Suc [of 200] pow2_mono [of 62 200] by simp
  then have "fl (r + d) = Fin (fl_rat (r + d))" by (rule fl_Fin) simp_all
  then show ?thesis using u fl_rat_nonneg [of "r + d"] assms by simp
qed

lemma fl_bounded:
  assumes "0 \<le> x" "x \<le> pow2 e" "- 1074 \<le> e" "e < 1024"
  shows "\<exists>r. fl x = Fin r \<and> 0 \<le> r \<and> r \<le> pow2 e"
  using fl_Fin [of x e] assms fl_rat_nonneg [of x] by (intro exI [of _ "fl_rat x"]) auto

lemma slo_charge_ok:
  assumes "slo_info_ok info" "time_ok now" "util \<le> 100"
  shows "slo_info_ok (slo_charge now util info)"
proof (cases "ns_to_us (now - si_last_resume info) \<le> 0")
  case True
  then show ?thesis using assms(1) by (simp add: slo_charge_def)
next
  case False
  let ?el = "ns_to_us (now - si_last_resume info)" and ?u = "max util 1"
  obtain r where r: "si_vruntime info = Fin r" "0 \<le> r" "r \<le> pow2 200"
    using assms(1) by (auto simp: slo_info_ok_def)
  have pos: "0 \<le> now - si_last_resume info"
    using False by (auto simp: ns_to_us_def tdiv_def sgn_if split: if_splits)
  have lim: "now - si_last_resume info \<le> 2 ^ 64"
    using assms(1,2) by (simp add: slo_info_ok_def time_ok_def time_max_def time_min_def)
  have "?el = (now - si_last_resume info) div 1000"
    using pos by (simp add: ns_to_us_def tdiv_nonneg)
  also have "\<dots> \<le> 2 ^ 64 div 1000" using lim by (rule zdiv_mono1) simp
  finally have "?el \<le> 2 ^ 55" by simp
  then have "(of_int ?el :: rat) \<le> of_int (2 ^ 55)" by (simp only: of_int_le_iff)
  then have "(of_int ?el :: rat) \<le> pow2 55" using pow2_nat [of 55] by simp
  moreover have "0 \<le> (of_int ?el :: rat)" using False by simp
  ultimately obtain x where x: "f_of_int ?el = Fin x" "0 \<le> x" "x \<le> pow2 55"
    using fl_bounded [of "of_int ?el" 55] by (auto simp: f_of_int_def)
  have u: "f_of_int ?u = Fin (of_int ?u)" using assms(3) by (intro fl_of_int) simp
  have h: "f_of_int 100 = Fin 100" using fl_of_int [of 100] by simp
  have "(100 :: rat) / of_int ?u \<le> 100" "0 \<le> (100 :: rat) / of_int ?u"
    by (simp_all add: pos_divide_le_eq)
  then obtain y where y: "fl (100 / of_int ?u) = Fin y" "0 \<le> y" "y \<le> pow2 7"
    using fl_bounded [of "100 / of_int ?u" 7] pow2_nat [of 7] by auto
  have nz: "(of_int ?u :: rat) \<noteq> 0" by simp
  have dv: "f_div (f_of_int 100) (f_of_int ?u) = Fin y"
    unfolding u h f_div.simps using y(1) nz by simp
  have "x * y \<le> pow2 55 * pow2 7" using x y pow2_pos [of 55] by (intro mult_mono) (auto intro: less_imp_le)
  then have "x * y \<le> pow2 62" using pow2_add [of 55 7] by simp
  then obtain d where d: "f_mul (Fin x) (Fin y) = Fin d" "0 \<le> d" "d \<le> pow2 62"
    using fl_bounded [of "x * y" 62] x y by auto
  obtain r' where r': "f_add (Fin r) (Fin d) = Fin r'" "0 \<le> r'" "r' \<le> pow2 200"
    using f_add_bounded [OF r(2,3) d(2,3)] by blast
  have "slo_charge now util info = info\<lparr> si_vruntime := Fin r', si_last_resume := now \<rparr>"
    using False by (simp only: slo_charge_def Let_def r(1) x(1) dv d(1) r'(1) if_False)
  then show ?thesis using assms(1,2) r' by (simp add: slo_info_ok_def)
qed

section \<open>A whole run\<close>

lemma slo_UpdateRuntime_eq:
  assumes "wf_status st"
  shows "slo_UpdateRuntime e p st =
     p\<lparr> slo_infos := (\<lambda>h. case xq_of st h of None \<Rightarrow> slo_infos p h
        | Some q \<Rightarrow> slo_update_upd e (slo_utils p) q (slo_infos p h)) \<rparr>"
  by (simp add: slo_UpdateRuntime_def each_queue_fold [OF assms])

lemma slo_Sched_eq:
  assumes "wf_status st"
  shows "slo_Sched e p st =
     (let p1 = slo_UpdateRuntime e p st; chosen = slo_chosen e p1 st in
      Some (p1\<lparr> slo_infos := (\<lambda>h. case xq_of st h of None \<Rightarrow> slo_infos p1 h
               | Some q \<Rightarrow> slo_apply_upd e chosen q (slo_infos p1 h)) \<rparr>,
        concat (map (\<lambda>(k, q). slo_apply_emit e chosen q (slo_infos p1 k)) (st_xqueues st))
          @ (if list_ex (\<lambda>(_, q). xs_ready q) (st_xqueues st)
             then [AddTimer (env_now e + us_to_ns (slo_tick p1))] else [])))"
  by (simp add: slo_Sched_def each_queue_fold [OF assms] Let_def)

lemma slo_GetUtilization_le: "slo_GetUtilization utils q info \<le> 100"
  by (auto simp: slo_GetUtilization_def Let_def)

lemma slo_updated_info:
  assumes "env_ok e" "wf_status st" "slo_inv p st" "slo_infos (slo_UpdateRuntime e p st) h = Some info"
  shows "slo_info_ok info \<and> (\<forall>q. si_running info \<longrightarrow> xq_of st h = Some q \<longrightarrow> \<not> xs_suspended q)"
proof (cases "xq_of st h")
  case None
  then show ?thesis using assms by (auto simp: slo_UpdateRuntime_eq slo_inv_def)
next
  case (Some q)
  let ?n = "slo_infos p h"
  define i0 where "i0 = slo_GetInfo e (xs_handle q) ?n"
  have ok: "slo_info_ok i0"
    unfolding i0_def using assms(1,3) by (intro slo_GetInfo_ok) (auto simp: slo_inv_def)
  have run: "\<not> xs_suspended q" if "si_running i0"
    using that Some assms(3) by (cases ?n) (auto simp: i0_def slo_GetInfo_def slo_inv_def)
  have i: "info = (if \<not> si_running i0 then i0
      else slo_charge (env_now e) (slo_GetUtilization (slo_utils p) q i0) i0)"
    using assms(4) Some by (auto simp: slo_UpdateRuntime_eq [OF assms(2)] slo_update_upd_def Let_def
        i0_def)
  have "si_running info = si_running i0" by (simp add: i slo_charge_def Let_def)
  moreover have "slo_info_ok info"
    using ok slo_charge_ok [OF ok _ slo_GetUtilization_le] assms(1) by (simp add: i env_ok_def)
  ultimately show ?thesis using run Some by simp
qed

lemma slo_UpdateRuntime_simps [simp]:
  "slo_tick (slo_UpdateRuntime e p st) = slo_tick p"
  "slo_utils (slo_UpdateRuntime e p st) = slo_utils p"
  by (simp_all add: slo_UpdateRuntime_def)

text \<open>The state in which \<^verbatim>\<open>PickBestQueue\<close> runs satisfies the invariant again.\<close>

lemma slo_updated_inv:
  assumes "env_ok e" "wf_status st" "slo_inv p st"
  shows "slo_inv (slo_UpdateRuntime e p st) st"
  using slo_updated_info [OF assms] assms(3) by (auto simp: slo_inv_def)

lemma slo_info_of_ok:
  assumes "env_ok e" "slo_inv p st"
  shows "slo_info_ok (slo_info_of e p q)"
  unfolding slo_info_of_def using assms by (intro slo_GetInfo_ok) (auto simp: slo_inv_def)

section \<open>The classes\<close>

lemma slo_urgent_below_start:
  assumes "slo_inv p st" "slo_is_urgent e p q"
  shows "slo_less_slack (slo_ukey e p q) (PInf, PRIORITY_MIN)"
proof -
  have "f_of_int (slo_tick p) = Fin (of_int (slo_tick p))"
    using assms(1) by (intro fl_of_int) (simp add: slo_inv_def)
  then have "f_le (slo_slack e p q) (Fin (of_int (slo_tick p)))"
    using assms(2) by (simp add: slo_is_urgent_def slo_urgent_def slo_slack_def slo_info_of_def)
  then have "f_lt (slo_slack e p q) PInf" by (cases "slo_slack e p q") (auto simp: f_le_def)
  then show ?thesis by (simp add: slo_less_slack_def)
qed

lemma slo_deadline_slack_finite:
  assumes "slo_info_ok info" "si_deadline info \<noteq> NO_DEADLINE" "time_ok now" "time_ok (xs_ready_time q)"
  shows "f_lt (slo_GetSlackUs now q info) PInf"
proof -
  let ?w = "ns_to_us (now - xs_ready_time q)"
  have "\<bar>now - xs_ready_time q\<bar> \<le> 2 ^ 64"
    using assms(3,4) by (simp add: time_ok_def time_max_def time_min_def) linarith
  moreover have "\<bar>?w\<bar> \<le> \<bar>now - xs_ready_time q\<bar>"
    by (simp add: ns_to_us_def tdiv_def abs_mult sgn_if) (smt (verit) div_by_1 zdiv_mono2)
  ultimately have "\<bar>?w\<bar> \<le> 2 ^ 64" by linarith
  then have "(of_int \<bar>?w\<bar> :: rat) \<le> of_int (2 ^ 64)" by (simp only: of_int_le_iff)
  then have "\<bar>of_int ?w :: rat\<bar> \<le> pow2 64" using pow2_nat [of 64] by simp
  then obtain w where w: "f_of_int ?w = Fin w" "\<bar>w\<bar> \<le> pow2 64"
    using fl_Fin [of "of_int ?w" 64] by (auto simp: f_of_int_def)
  have "\<bar>si_deadline info\<bar> \<le> 2 ^ 63" using assms(1) by (simp add: slo_info_ok_def) linarith
  then have "(of_int \<bar>si_deadline info\<bar> :: rat) \<le> of_int (2 ^ 63)" by (simp only: of_int_le_iff)
  then have "\<bar>of_int (si_deadline info) :: rat\<bar> \<le> pow2 63" using pow2_nat [of 63] by simp
  then obtain d where d: "f_of_int (si_deadline info) = Fin d" "\<bar>d\<bar> \<le> pow2 63"
    using fl_Fin [of "of_int (si_deadline info)" 63] by (auto simp: f_of_int_def)
  have "\<bar>d - w\<bar> \<le> pow2 65"
    using w(2) d(2) pow2_mono [of 63 64] pow2_Suc [of 64] by simp
  then have "fl (d - w) = Fin (fl_rat (d - w))" by (rule fl_Fin) simp_all
  then show ?thesis using assms(2) by (simp add: slo_GetSlackUs_def w(1) d(1) f_sub_def)
qed

lemma slo_latency_below_start:
  assumes "env_ok e" "slo_inv p st" "slo_IsLatencySensitive (slo_info_of e p q)"
    "time_ok (xs_ready_time q)"
  shows "slo_more_prio (slo_lkey e p q) (PRIORITY_MIN, PInf)"
proof (cases "si_deadline (slo_info_of e p q) = NO_DEADLINE")
  case True
  then show ?thesis using assms(3) by (simp add: slo_IsLatencySensitive_def slo_more_prio_def)
next
  case False
  have ok: "slo_info_ok (slo_info_of e p q)" using slo_info_of_ok [OF assms(1,2)] .
  have "f_lt (slo_slack e p q) PInf"
    using slo_deadline_slack_finite [OF ok False _ assms(4)] assms(1)
    by (simp add: slo_slack_def slo_info_of_def env_ok_def)
  then show ?thesis using ok by (auto simp: slo_more_prio_def slo_info_ok_def)
qed

lemma slo_batch_below_start:
  assumes "env_ok e" "slo_inv p st"
  shows "f_lt (si_vruntime (slo_info_of e p q)) PInf"
  using slo_info_of_ok [OF assms, of q] by (auto simp: slo_info_ok_def)

text \<open>The result is a ready XQueue of the device, of the highest class that is present, and
  the best of its class.\<close>

definition slo_ready_on :: "status \<Rightarrow> xdevice \<Rightarrow> xhandle \<Rightarrow> xqueue_status \<Rightarrow> bool" where
  "slo_ready_on st d h q \<longleftrightarrow> xq_of st h = Some q \<and> xs_ready q \<and> xs_device q = d"

definition slo_best_of :: "sched_env \<Rightarrow> slo \<Rightarrow> status \<Rightarrow> xdevice \<Rightarrow> xqueue_status \<Rightarrow> bool" where
  "slo_best_of e p st d q \<longleftrightarrow>
     (if \<exists>h r. slo_ready_on st d h r \<and> slo_is_urgent e p r
      then slo_is_urgent e p q
        \<and> (\<forall>h r. slo_ready_on st d h r \<longrightarrow> slo_is_urgent e p r
             \<longrightarrow> \<not> slo_less_slack (slo_ukey e p r) (slo_ukey e p q))
      else if \<exists>h r. slo_ready_on st d h r \<and> slo_IsLatencySensitive (slo_info_of e p r)
      then slo_IsLatencySensitive (slo_info_of e p q)
        \<and> (\<forall>h r. slo_ready_on st d h r \<longrightarrow> slo_IsLatencySensitive (slo_info_of e p r)
             \<longrightarrow> \<not> slo_more_prio (slo_lkey e p r) (slo_lkey e p q))
      else (\<forall>h r. slo_ready_on st d h r
             \<longrightarrow> \<not> f_lt (si_vruntime (slo_info_of e p r)) (si_vruntime (slo_info_of e p q))))"

text \<open>One loop in terms of lookups.\<close>

lemma slo_fold_lookup:
  assumes "wf_status st"
    and "\<And>a b c. better a b \<Longrightarrow> better b c \<Longrightarrow> better a c" "\<And>a. \<not> better a a"
    and "\<And>h q. xq_of st h = Some q \<Longrightarrow> P q \<Longrightarrow> better (key q) k0"
  obtains
    (none) "slo_fold better P key k0 d (st_xqueues st) = (0, k0)"
      "\<forall>h q. slo_ready_on st d h q \<longrightarrow> \<not> P q"
  | (some) h q where "slo_ready_on st d h q" "P q"
      "slo_fold better P key k0 d (st_xqueues st) = (h, key q)"
      "\<forall>h' r. slo_ready_on st d h' r \<longrightarrow> P r \<longrightarrow> \<not> better (key r) (key q)"
proof -
  have i: "better (key q) k0" if pq: "P q" and ran: "q \<in> snd ` set (st_xqueues st)" for q
  proof -
    obtain h where "(h, q) \<in> set (st_xqueues st)" using ran by force
    then show ?thesis using assms(4) pq by (simp add: st_queue_iff [OF assms(1)])
  qed
  note S = slo_fold_spec [of better P "st_xqueues st" key k0 d, OF assms(2,3) i]
  have C: "slo_cand d (h, q) \<and> (h, q) \<in> set (st_xqueues st) \<longleftrightarrow> slo_ready_on st d h q" for h q
    by (auto simp: slo_cand_def slo_ready_on_def st_queue_iff [OF assms(1)])
  from S show thesis
  proof
    assume a: "slo_fold better P key k0 d (st_xqueues st) = (0, k0)
        \<and> (\<forall>x \<in> set (st_xqueues st). slo_cand d x \<longrightarrow> \<not> P (snd x))"
    show thesis
    proof (rule none)
      show "\<forall>h q. slo_ready_on st d h q \<longrightarrow> \<not> P q" using a C by fastforce
    qed (use a in blast)
  next
    assume "\<exists>x \<in> set (st_xqueues st). slo_cand d x \<and> P (snd x)
         \<and> slo_fold better P key k0 d (st_xqueues st) = (xs_handle (snd x), key (snd x))
         \<and> (\<forall>y \<in> set (st_xqueues st). slo_cand d y \<longrightarrow> P (snd y) \<longrightarrow> \<not> better (key (snd y)) (key (snd x)))"
    then obtain h q where x: "(h, q) \<in> set (st_xqueues st)" "slo_cand d (h, q)" "P q"
      "slo_fold better P key k0 d (st_xqueues st) = (xs_handle q, key q)"
      "\<forall>y \<in> set (st_xqueues st). slo_cand d y \<longrightarrow> P (snd y) \<longrightarrow> \<not> better (key (snd y)) (key q)"
      by auto
    have r: "slo_ready_on st d h q" using x C by blast
    have hq: "xs_handle q = h" using r wf_handle [OF assms(1)] by (simp add: slo_ready_on_def)
    show thesis
    proof (rule some [OF r x(3)])
      show "slo_fold better P key k0 d (st_xqueues st) = (h, key q)" using x(4) hq by simp
      show "\<forall>h' r. slo_ready_on st d h' r \<longrightarrow> P r \<longrightarrow> \<not> better (key r) (key q)"
        using x(5) C by (metis snd_conv)
    qed
  qed
qed

lemma slo_PickBestQueue_spec:
  assumes "env_ok e" "wf_status st" "slo_inv p st" "slo_ready_on st d h0 q0"
    and times: "\<And>h q. xq_of st h = Some q \<Longrightarrow> time_ok (xs_ready_time q)"
    and nonzero: "xq_of st 0 = None"
  obtains q where "slo_ready_on st d (slo_PickBestQueue e p st d) q" "slo_best_of e p st d q"
proof -
  let ?P = "slo_PickBestQueue e p st d"
  let ?u = "slo_fold slo_less_slack (slo_is_urgent e p) (slo_ukey e p) (PInf, PRIORITY_MIN) d (st_xqueues st)"
  let ?L = "\<lambda>q. slo_IsLatencySensitive (slo_info_of e p q)"
  let ?l = "slo_fold slo_more_prio ?L (slo_lkey e p) (PRIORITY_MIN, PInf) d (st_xqueues st)"
  let ?b = "slo_fold f_lt (\<lambda>q. \<not> ?L q) (\<lambda>q. si_vruntime (slo_info_of e p q)) PInf d (st_xqueues st)"
  have P: "?P = (if fst ?u \<noteq> 0 then fst ?u else if fst ?l \<noteq> 0 then fst ?l else fst ?b)"
    by (simp add: slo_PickBestQueue_def slo_pick_fold)
  have nz: "h \<noteq> 0" if "slo_ready_on st d h q" for h q
    using that nonzero by (auto simp: slo_ready_on_def)
  show thesis
  proof (rule slo_fold_lookup [OF assms(2), of slo_less_slack "slo_is_urgent e p" "slo_ukey e p"
        "(PInf, PRIORITY_MIN)" d])
    fix h q assume s: "slo_ready_on st d h q" "slo_is_urgent e p q" "?u = (h, slo_ukey e p q)"
      "\<forall>h' r. slo_ready_on st d h' r \<longrightarrow> slo_is_urgent e p r
         \<longrightarrow> \<not> slo_less_slack (slo_ukey e p r) (slo_ukey e p q)"
    have "?P = h" using P s(3) nz [OF s(1)] by simp
    moreover have "slo_best_of e p st d q" unfolding slo_best_of_def using s by auto
    ultimately show thesis using that s(1) by simp
  next
    assume u: "?u = (0, PInf, PRIORITY_MIN)" "\<forall>h q. slo_ready_on st d h q \<longrightarrow> \<not> slo_is_urgent e p q"
    show thesis
    proof (rule slo_fold_lookup [OF assms(2), of slo_more_prio ?L "slo_lkey e p" "(PRIORITY_MIN, PInf)" d])
      fix h q assume s: "slo_ready_on st d h q" "?L q" "?l = (h, slo_lkey e p q)"
        "\<forall>h' r. slo_ready_on st d h' r \<longrightarrow> ?L r \<longrightarrow> \<not> slo_more_prio (slo_lkey e p r) (slo_lkey e p q)"
      have "?P = h" using P u(1) s(3) nz [OF s(1)] by simp
      moreover have "slo_best_of e p st d q" unfolding slo_best_of_def using s u(2) by auto
      ultimately show thesis using that s(1) by simp
    next
      assume l: "?l = (0, PRIORITY_MIN, PInf)" "\<forall>h q. slo_ready_on st d h q \<longrightarrow> \<not> ?L q"
      show thesis
      proof (rule slo_fold_lookup [OF assms(2), of f_lt "\<lambda>q. \<not> ?L q"
            "\<lambda>q. si_vruntime (slo_info_of e p q)" PInf d])
        fix h q assume s: "slo_ready_on st d h q" "?b = (h, si_vruntime (slo_info_of e p q))"
          "\<forall>h' r. slo_ready_on st d h' r \<longrightarrow> \<not> ?L r
             \<longrightarrow> \<not> f_lt (si_vruntime (slo_info_of e p r)) (si_vruntime (slo_info_of e p q))"
        have "?P = h" using P u(1) l(1) s(2) by simp
        moreover have "slo_best_of e p st d q" unfolding slo_best_of_def using s u(2) l(2) by auto
        ultimately show thesis using that s(1) by simp
      qed (use l(2) assms(4) f_lt_trans slo_batch_below_start [OF assms(1,3)] in auto)
    qed (use slo_more_prio_trans slo_order_irrefl slo_latency_below_start [OF assms(1,3)] times in auto)
  qed (use slo_less_slack_trans slo_order_irrefl slo_urgent_below_start [OF assms(3)] in auto)
qed

text \<open>The map of the chosen XQueues: one entry for every device with ready work.\<close>

lemma slo_chosen_lookup:
  "foldl (\<lambda>chosen (_, q).
        if \<not> xs_ready q then chosen
        else if chosen (xs_device q) = None then chosen(xs_device q \<mapsto> pick (xs_device q))
        else chosen) m qs d =
     (case m d of Some h \<Rightarrow> Some h
      | None \<Rightarrow> if \<exists>x \<in> set qs. slo_cand d x then Some (pick d) else None)"
proof (induction qs arbitrary: m)
  case (Cons x qs)
  obtain k q where x: "x = (k, q)" by (cases x)
  show ?case
    by (cases "m d") (auto simp: x Cons slo_cand_def split: option.splits)
qed (auto split: option.splits)

lemma slo_chosen_eq:
  assumes "wf_status st" "slo_ready_on st d h q"
  shows "slo_chosen e p st d = Some (slo_PickBestQueue e p st d)"
proof -
  have "(h, q) \<in> set (st_xqueues st)" "slo_cand d (h, q)"
    using assms by (auto simp: slo_ready_on_def slo_cand_def st_queue_iff)
  then show ?thesis unfolding slo_chosen_def slo_chosen_lookup by auto
qed

lemma slo_emit_own: "xs_handle q = h \<Longrightarrow> mentions_only h (slo_apply_emit e chosen q n)"
  by (simp add: slo_apply_emit_def Let_def)

lemma slo_Sched_decision:
  assumes "wf_status st" "slo_Sched e p st = Some (p', acts)"
  shows "decision acts h =
     (case xq_of st h of None \<Rightarrow> None
      | Some q \<Rightarrow> decision (slo_apply_emit e (slo_chosen e (slo_UpdateRuntime e p st) st) q
                   (slo_infos (slo_UpdateRuntime e p st) h)) h)"
proof -
  let ?p1 = "slo_UpdateRuntime e p st"
  let ?c = "slo_chosen e ?p1 st"
  have a: "acts = concat (map (\<lambda>(k, q). slo_apply_emit e ?c q (slo_infos ?p1 k)) (st_xqueues st))
      @ (if list_ex (\<lambda>(_, q). xs_ready q) (st_xqueues st)
         then [AddTimer (env_now e + us_to_ns (slo_tick ?p1))] else [])"
    using assms(2) by (simp add: slo_Sched_eq [OF assms(1)] Let_def)
  have d: "decision (concat (map (\<lambda>(k, q). slo_apply_emit e ?c q (slo_infos ?p1 k)) (st_xqueues st))) h
      = (case xq_of st h of None \<Rightarrow> None
         | Some q \<Rightarrow> decision (slo_apply_emit e ?c q (slo_infos ?p1 h)) h)"
    by (rule decision_each [OF assms(1)]) (auto intro!: slo_emit_own dest: wf_handle [OF assms(1)])
  show ?thesis by (simp add: a decision_append d)
qed

text \<open>Whether a ready XQueue is left suspended: it is not the one picked for its device.\<close>

lemma slo_left_suspended:
  assumes "env_ok e" "wf_status st" "slo_inv p st" "slo_Sched e p st = Some (p', acts)"
    "xq_of st h = Some q" "xs_ready q"
  shows "left_suspended st acts h \<longleftrightarrow>
     slo_PickBestQueue e (slo_UpdateRuntime e p st) st (xs_device q) \<noteq> h"
proof -
  let ?p1 = "slo_UpdateRuntime e p st"
  have c: "slo_chosen e ?p1 st (xs_device q) = Some (slo_PickBestQueue e ?p1 st (xs_device q))"
    by (rule slo_chosen_eq [OF assms(2), of _ h q]) (simp add: slo_ready_on_def assms(5,6))
  have run: "\<not> xs_suspended q" if "si_running (slo_GetInfo e (xs_handle q) (slo_infos ?p1 h))"
    using slo_updated_info [OF assms(1-3), of h] that assms(5)
    by (cases "slo_infos ?p1 h") (auto simp: slo_GetInfo_def)
  show ?thesis
    using slo_Sched_decision [OF assms(2,4), of h] assms(5,6) c run wf_handle [OF assms(2,5)]
    by (auto simp: left_suspended_def slo_apply_emit_def slo_is_chosen_def Let_def
        split: if_splits option.splits)
qed

lemma slo_Sched_inv:
  assumes "env_ok e" "wf_status st" "slo_inv p st" "slo_Sched e p st = Some (p', acts)"
  shows "slo_inv p' (fst (run_actions acts (st, ts)))"
  unfolding slo_inv_def
proof (intro conjI allI impI)
  let ?p1 = "slo_UpdateRuntime e p st"
  let ?c = "slo_chosen e ?p1 st"
  have p': "p' = ?p1\<lparr> slo_infos := (\<lambda>h. case xq_of st h of None \<Rightarrow> slo_infos ?p1 h
               | Some q \<Rightarrow> slo_apply_upd e ?c q (slo_infos ?p1 h)) \<rparr>"
    using assms(4) by (simp add: slo_Sched_eq [OF assms(2)] Let_def)
  show "TIMESLICE_MIN \<le> slo_tick p'" "slo_tick p' \<le> TIMESLICE_MAX"
    using assms(3) by (simp_all add: p' slo_inv_def)
  fix h info assume i: "slo_infos p' h = Some info"
  note old = slo_updated_info [OF assms(1-3), of h]
  have g: "slo_info_ok (slo_GetInfo e (xs_handle q) (slo_infos ?p1 h))" for q
    using old by (intro slo_GetInfo_ok [OF assms(1)]) blast
  show "slo_info_ok info"
  proof (cases "xq_of st h")
    case None
    then show ?thesis using old i by (simp add: p')
  next
    case (Some q)
    then show ?thesis using i g [of q] assms(1)
      by (auto simp: p' slo_apply_upd_def Let_def slo_info_ok_def env_ok_def split: if_splits)
  qed
  fix q' assume r: "si_running info" "xq_of (fst (run_actions acts (st, ts))) h = Some q'"
  then obtain q where q: "xq_of st h = Some q" "q' = q\<lparr> xs_suspended := left_suspended st acts h \<rparr>"
    by (elim run_actions_cases)
  have rdy: "xs_ready q" "slo_is_chosen ?c q"
    using i r(1) q(1) by (auto simp: p' slo_apply_upd_def Let_def split: if_splits)
  have "slo_chosen e ?p1 st (xs_device q) = Some (slo_PickBestQueue e ?p1 st (xs_device q))"
    by (rule slo_chosen_eq [OF assms(2), of _ h q]) (simp add: slo_ready_on_def q(1) rdy(1))
  then have "slo_PickBestQueue e ?p1 st (xs_device q) = h"
    using rdy(2) wf_handle [OF assms(2) q(1)] by (simp add: slo_is_chosen_def)
  then show "\<not> xs_suspended q'"
    using slo_left_suspended [OF assms q(1) rdy(1)] by (simp add: q(2))
qed

lemma slo_set_info_inv:
  assumes "env_ok e" "slo_inv p st"
    and "\<And>i. slo_info_ok i \<Longrightarrow> slo_info_ok (f i)" "\<And>i. si_running (f i) = si_running i"
  shows "slo_inv (slo_set_info e h f p) st"
proof -
  have "slo_info_ok (slo_GetInfo e h (slo_infos p h))"
    using assms(2) by (intro slo_GetInfo_ok [OF assms(1)]) (auto simp: slo_inv_def)
  moreover have "si_running (slo_GetInfo e h (slo_infos p h)) \<Longrightarrow> xq_of st h = Some q \<Longrightarrow> \<not> xs_suspended q" for q
    using assms(2) by (cases "slo_infos p h") (auto simp: slo_inv_def slo_GetInfo_def)
  ultimately show ?thesis using assms(2-4) by (auto simp: slo_inv_def slo_set_info_def)
qed

lemma slo_inv_utils [simp]: "slo_inv (p\<lparr> slo_utils := u \<rparr>) st = slo_inv p st"
  by (simp add: slo_inv_def)

lemma slo_hint_inv:
  assumes "env_ok e" "slo_inv p st" "wf_hint ht"
  shows "slo_inv (slo_RecvHint e p ht) st"
proof (cases ht)
  case (PriorityHint h v)
  then show ?thesis using assms
    by (auto simp: slo_RecvHint_def slo_info_ok_def intro!: slo_set_info_inv)
next
  case (DeadlineHint h d)
  then show ?thesis using assms
    by (auto simp: slo_RecvHint_def slo_info_ok_def intro!: slo_set_info_inv)
next
  case (UtilizationHint pd h u)
  have "slo_inv (slo_set_info e h (si_util_update (\<lambda>_. v)) p) st" for v
    using assms by (intro slo_set_info_inv) (auto simp: slo_info_ok_def)
  then show ?thesis using assms(2) by (simp add: slo_RecvHint_def UtilizationHint Let_def)
next
  case (TimesliceHint ts)
  then show ?thesis using assms(2) by (auto simp: slo_RecvHint_def slo_inv_def)
qed (use assms(2) in \<open>simp_all add: slo_RecvHint_def\<close>)

lemma slo_inv_init [simp]: "slo_inv slo_init st"
  by (simp add: slo_inv_def slo_init_def)

interpretation slo_pol: policy_iface slo_Sched slo_RecvHint slo_inv
proof unfold_locales
  fix e p st assume *: "wf_status st" "slo_inv p st"
  show "\<exists>p' acts. slo_Sched e p st = Some (p', acts)"
    by (simp add: slo_Sched_eq [OF *(1)] Let_def)
next
  fix p st st' assume *: "slo_inv p st" "suspends_less st st'"
  show "slo_inv p st'" unfolding slo_inv_def
    using *(1) [unfolded slo_inv_def] *(2) [unfolded suspends_less_def] by metis
next
  fix e p st p' acts h b
  assume *: "wf_status st" "slo_Sched e p st = Some (p', acts)" "decision acts h = Some b"
  show "h \<in> fst ` set (st_xqueues st)"
    using slo_Sched_decision [OF *(1,2), of h] *(3) by (cases "xq_of st h") (auto intro: xq_of_key)
qed (rule slo_Sched_inv slo_hint_inv; assumption)+

section \<open>Properties\<close>

text \<open>C11: After a run of SLO exactly one of the ready XQueues of a device is running: an
  urgent one of least slack if there is any, else a latency-sensitive one of highest
  priority, else a batch one of least virtual run time.\<close>

theorem slo_runs_best_of_highest_class:
  assumes "env_ok e" "wf_status st" "slo_inv p st" "slo_Sched e p st = Some (p', acts)"
    and "xq_of st h0 = Some q0" "xs_ready q0"
    and "\<forall>h q. xq_of st h = Some q \<longrightarrow> time_ok (xs_ready_time q)" "xq_of st 0 = None"
  shows "\<exists>b q. slo_ready_on st (xs_device q0) b q
     \<and> slo_best_of e (slo_UpdateRuntime e p st) st (xs_device q0) q
     \<and> (\<forall>h r. slo_ready_on st (xs_device q0) h r \<longrightarrow>
          xq_of (fst (run_actions acts (st, ts))) h = Some (r\<lparr> xs_suspended := (h \<noteq> b) \<rparr>))"
proof -
  let ?p1 = "slo_UpdateRuntime e p st"
  have r0: "slo_ready_on st (xs_device q0) h0 q0" using assms(5,6) by (simp add: slo_ready_on_def)
  obtain q where q: "slo_ready_on st (xs_device q0) (slo_PickBestQueue e ?p1 st (xs_device q0)) q"
    "slo_best_of e ?p1 st (xs_device q0) q"
    using assms(7) by (blast intro: slo_PickBestQueue_spec [OF assms(1,2) slo_updated_inv [OF assms(1-3)] r0 _ assms(8)])
  have "xq_of (fst (run_actions acts (st, ts))) h =
      Some (r\<lparr> xs_suspended := (h \<noteq> slo_PickBestQueue e ?p1 st (xs_device q0)) \<rparr>)"
    if rr: "slo_ready_on st (xs_device q0) h r" for h r
    using slo_left_suspended [OF assms(1-4), of h r] rr
    by (auto simp: slo_ready_on_def run_actions_left_suspended)
  then show ?thesis using q by blast
qed

theorem slo_runs_best_of_highest_class_witness:
  "\<exists>p' acts b q. slo_Sched ex_env slo_init (ex_status True True) = Some (p', acts)
     \<and> xq_of (fst (run_actions acts (ex_status True True, []))) b = Some q \<and> \<not> xs_suspended q"
proof -
  let ?st = "ex_status True True"
  obtain p' acts where r: "slo_Sched ex_env slo_init ?st = Some (p', acts)"
    by (simp add: slo_Sched_eq Let_def)
  have q: "xq_of ?st 1 = Some (ex_queue 1 10 True 1000)" "xs_ready (ex_queue 1 10 True 1000)"
    by (simp_all add: ex_defs)
  have t: "\<forall>h q. xq_of ?st h = Some q \<longrightarrow> time_ok (xs_ready_time q)"
    by (auto simp: ex_defs time_ok_def time_max_def time_min_def split: if_splits)
  have z: "xq_of ?st 0 = None" by (simp add: ex_defs)
  from slo_runs_best_of_highest_class [OF env_ok_ex wf_ex_status slo_inv_init r q t z, where ts = "[]"]
  obtain b q where b: "slo_ready_on ?st (xs_device (ex_queue 1 10 True 1000)) b q"
    "xq_of (fst (run_actions acts (?st, []))) b = Some (q\<lparr> xs_suspended := False \<rparr>)" by fastforce
  with r show ?thesis by (intro exI conjI) (assumption | simp)+
qed

end
