(* ===== verification/PolicySum.thy ===== *)
theory PolicySum
  imports ProcfsPolicy WindowPolicy DeadlinePolicies UtilizationPolicy ProcessPolicy FairPolicy
    InterferencePolicy FeedbackPolicy SloPolicy
begin

text \<open>
  The policy object of a scheduler: one of the twelve policies
  (\<^verbatim>\<open>std::unique_ptr<Policy>\<close>, \<^verbatim>\<open>CreatePolicy\<close> in \<^verbatim>\<open>sched/src/policy/policy.cpp\<close>) with its
  virtual functions, and the proof that whatever policy is behind it keeps the contract
  \<open>policy_iface\<close>.
\<close>

datatype policy =
    PolicyHPF hpf
  | PolicyHHPF hpf
  | PolicyUP up
  | PolicyPUP pup
  | PolicyKEDF kedf
  | PolicyLAX lax
  | PolicyAWF awf
  | PolicyCHPF unit
  | PolicyCFS cfs
  | PolicyMLFQ mlfq
  | PolicySLO slo
  | PolicyIAH iah

text \<open>An invalid type fails the assertion.\<close>

fun CreatePolicy :: "xpolicy_type \<Rightarrow> policy option" where
  "CreatePolicy kPolicyHighestPriorityFirst = Some (PolicyHPF hpf_init)"
| "CreatePolicy kPolicyHeterogeneousHighestPriorityFirst = Some (PolicyHHPF hpf_init)"
| "CreatePolicy kPolicyUtilizationPartition = Some (PolicyUP up_init)"
| "CreatePolicy kPolicyProcessUtilizationPartition = Some (PolicyPUP pup_init)"
| "CreatePolicy kPolicyKEarliestDeadlineFirst = Some (PolicyKEDF kedf_init)"
| "CreatePolicy kPolicyLaxity = Some (PolicyLAX lax_init)"
| "CreatePolicy kPolicyActiveWindowFirst = Some (PolicyAWF awf_init)"
| "CreatePolicy kPolicyCPUHighestPriorityFirst = Some (PolicyCHPF ())"
| "CreatePolicy kPolicyCompletelyFairScheduler = Some (PolicyCFS Map.empty)"
| "CreatePolicy kPolicyMultiLevelFeedbackQueue = Some (PolicyMLFQ Map.empty)"
| "CreatePolicy kPolicySLOAdaptive = Some (PolicySLO slo_init)"
| "CreatePolicy kPolicyInterferenceAwareHeterogeneous = Some (PolicyIAH iah_init)"
| "CreatePolicy kPolicyUnknown = None"
| "CreatePolicy kPolicyMax = None"

fun policy_Sched :: "sched_env \<Rightarrow> policy \<Rightarrow> status \<Rightarrow> (policy \<times> action list) option" where
  "policy_Sched e (PolicyHPF p) st = map_option (apfst PolicyHPF) (hpf_policy e p st)"
| "policy_Sched e (PolicyHHPF p) st = map_option (apfst PolicyHHPF) (hhpf_policy e p st)"
| "policy_Sched e (PolicyUP p) st = map_option (apfst PolicyUP) (up_Sched e p st)"
| "policy_Sched e (PolicyPUP p) st = map_option (apfst PolicyPUP) (pup_Sched e p st)"
| "policy_Sched e (PolicyKEDF p) st = map_option (apfst PolicyKEDF) (kedf_policy e p st)"
| "policy_Sched e (PolicyLAX p) st = map_option (apfst PolicyLAX) (lax_policy e p st)"
| "policy_Sched e (PolicyAWF p) st = map_option (apfst PolicyAWF) (awf_policy e p st)"
| "policy_Sched e (PolicyCHPF p) st = map_option (apfst PolicyCHPF) (chpf_policy e p st)"
| "policy_Sched e (PolicyCFS p) st = map_option (apfst PolicyCFS) (cfs_Sched e p st)"
| "policy_Sched e (PolicyMLFQ p) st = map_option (apfst PolicyMLFQ) (mlfq_Sched e p st)"
| "policy_Sched e (PolicySLO p) st = map_option (apfst PolicySLO) (slo_Sched e p st)"
| "policy_Sched e (PolicyIAH p) st = map_option (apfst PolicyIAH) (iah_policy e p st)"

fun policy_RecvHint :: "sched_env \<Rightarrow> policy \<Rightarrow> hint \<Rightarrow> policy" where
  "policy_RecvHint e (PolicyHPF p) ht = PolicyHPF (hpf_RecvHint p ht)"
| "policy_RecvHint e (PolicyHHPF p) ht = PolicyHHPF (hhpf_RecvHint p ht)"
| "policy_RecvHint e (PolicyUP p) ht = PolicyUP (up_RecvHint p ht)"
| "policy_RecvHint e (PolicyPUP p) ht = PolicyPUP (pup_RecvHint p ht)"
| "policy_RecvHint e (PolicyKEDF p) ht = PolicyKEDF (kedf_RecvHint p ht)"
| "policy_RecvHint e (PolicyLAX p) ht = PolicyLAX (lax_RecvHint p ht)"
| "policy_RecvHint e (PolicyAWF p) ht = PolicyAWF (awf_RecvHint p ht)"
| "policy_RecvHint e (PolicyCHPF p) ht = PolicyCHPF (chpf_RecvHint p ht)"
| "policy_RecvHint e (PolicyCFS p) ht = PolicyCFS (cfs_RecvHint e p ht)"
| "policy_RecvHint e (PolicyMLFQ p) ht = PolicyMLFQ (mlfq_RecvHint p ht)"
| "policy_RecvHint e (PolicySLO p) ht = PolicySLO (slo_RecvHint e p ht)"
| "policy_RecvHint e (PolicyIAH p) ht = PolicyIAH (iah_RecvHint p ht)"

fun policy_inv :: "policy \<Rightarrow> status \<Rightarrow> bool" where
  "policy_inv (PolicyHPF p) st = (hpf_inv p)"
| "policy_inv (PolicyHHPF p) st = (hpf_inv p)"
| "policy_inv (PolicyUP p) st = (up_inv p)"
| "policy_inv (PolicyPUP p) st = (pup_inv p st)"
| "policy_inv (PolicyKEDF p) st = (kedf_inv p)"
| "policy_inv (PolicyLAX p) st = (True)"
| "policy_inv (PolicyAWF p) st = (awf_inv p)"
| "policy_inv (PolicyCHPF p) st = (True)"
| "policy_inv (PolicyCFS p) st = (cfs_inv p st)"
| "policy_inv (PolicyMLFQ p) st = (mlfq_inv p st)"
| "policy_inv (PolicySLO p) st = (slo_inv p st)"
| "policy_inv (PolicyIAH p) st = (iah_inv p)"

lemma CreatePolicy_inv: "CreatePolicy t = Some pol \<Longrightarrow> policy_inv pol st"
  by (cases t) (auto simp: cfs_inv_def)

lemma CreatePolicy_total: "t \<noteq> kPolicyUnknown \<Longrightarrow> t \<noteq> kPolicyMax \<Longrightarrow> \<exists>pol. CreatePolicy t = Some pol"
  by (cases t) auto

lemmas policy_sched_total_laws =
  hpf_pol.sched_total hhpf_pol.sched_total up_pol.sched_total pup_pol.sched_total kedf_pol.sched_total lax_pol.sched_total awf_pol.sched_total chpf_pol.sched_total cfs_pol.sched_total mlfq_pol.sched_total slo_pol.sched_total iah_pol.sched_total

lemmas policy_sched_inv_laws =
  hpf_pol.sched_inv hhpf_pol.sched_inv up_pol.sched_inv pup_pol.sched_inv kedf_pol.sched_inv lax_pol.sched_inv awf_pol.sched_inv chpf_pol.sched_inv cfs_pol.sched_inv mlfq_pol.sched_inv slo_pol.sched_inv iah_pol.sched_inv

lemmas policy_hint_inv_laws =
  hpf_pol.hint_inv hhpf_pol.hint_inv up_pol.hint_inv pup_pol.hint_inv kedf_pol.hint_inv lax_pol.hint_inv awf_pol.hint_inv chpf_pol.hint_inv cfs_pol.hint_inv mlfq_pol.hint_inv slo_pol.hint_inv iah_pol.hint_inv

lemmas policy_pinv_less_laws =
  hpf_pol.pinv_less hhpf_pol.pinv_less up_pol.pinv_less pup_pol.pinv_less kedf_pol.pinv_less lax_pol.pinv_less awf_pol.pinv_less chpf_pol.pinv_less cfs_pol.pinv_less mlfq_pol.pinv_less slo_pol.pinv_less iah_pol.pinv_less

lemmas policy_sched_known_laws =
  hpf_pol.sched_known hhpf_pol.sched_known up_pol.sched_known pup_pol.sched_known kedf_pol.sched_known lax_pol.sched_known awf_pol.sched_known chpf_pol.sched_known cfs_pol.sched_known mlfq_pol.sched_known slo_pol.sched_known iah_pol.sched_known

interpretation any_pol: policy_iface policy_Sched policy_RecvHint policy_inv
proof unfold_locales
  fix e pol st assume *: "wf_status st" "policy_inv pol st"
  show "\<exists>p' acts. policy_Sched e pol st = Some (p', acts)"
    using * by (cases pol) (fastforce dest: policy_sched_total_laws)+
next
  fix e st pol pol' acts ts
  assume *: "env_ok e" "wf_status st" "policy_inv pol st" "policy_Sched e pol st = Some (pol', acts)"
  show "policy_inv pol' (fst (run_actions acts (st, ts)))"
    using * by (cases pol) (auto intro: policy_sched_inv_laws)
next
  fix e pol st ht assume *: "env_ok e" "policy_inv pol st" "wf_hint ht"
  show "policy_inv (policy_RecvHint e pol ht) st"
    using * by (cases pol) (auto intro: policy_hint_inv_laws)
next
  fix pol st st' assume *: "policy_inv pol st" "suspends_less st st'"
  show "policy_inv pol st'" using * by (cases pol) (auto intro: policy_pinv_less_laws)
next
  fix e pol st pol' acts h b
  assume *: "wf_status st" "policy_inv pol st" "policy_Sched e pol st = Some (pol', acts)"
    "decision acts h = Some b"
  show "h \<in> fst ` set (st_xqueues st)"
    using * by (cases pol) (auto intro: policy_sched_known_laws)
qed

end
