(* ===== verification/Events.thy ===== *)
theory Events
  imports Status
begin

text \<open>
  Events (\<^verbatim>\<open>sched/include/xsched/sched/protocol/event.h\<close>, \<^verbatim>\<open>sched/src/protocol/event.cpp\<close>):
  what client processes tell the scheduler. \<open>event\<close> has the event classes with the fields
  of their \<^verbatim>\<open>EventData\<close>; \<open>..._data\<close> is the struct a class sends (its padding is a
  parameter), \<open>..._read\<close> the constructor from a received buffer, and \<open>event_copy\<close>
  \<^verbatim>\<open>Event::CopyConstructor\<close>.
\<close>

abbreviation (input) kEventHint :: int where "kEventHint \<equiv> 0"
abbreviation (input) kEventSchedulerTerminate :: int where "kEventSchedulerTerminate \<equiv> 1"
abbreviation (input) kEventProcessCreate :: int where "kEventProcessCreate \<equiv> 2"
abbreviation (input) kEventProcessDestroy :: int where "kEventProcessDestroy \<equiv> 3"
abbreviation (input) kEventXQueueCreate :: int where "kEventXQueueCreate \<equiv> 4"
abbreviation (input) kEventXQueueDestroy :: int where "kEventXQueueDestroy \<equiv> 5"
abbreviation (input) kEventXQueueReady :: int where "kEventXQueueReady \<equiv> 6"
abbreviation (input) kEventXQueueIdle :: int where "kEventXQueueIdle \<equiv> 7"
abbreviation (input) kEventXQueueConfigUpdate :: int where "kEventXQueueConfigUpdate \<equiv> 8"
abbreviation (input) kEventXQueueQuery :: int where "kEventXQueueQuery \<equiv> 9"
abbreviation (input) kEventXQueueQueryAll :: int where "kEventXQueueQueryAll \<equiv> 10"

text \<open>The command line is the 256-byte array, a \<^verbatim>\<open>StatusQuery *\<close> its address, the ready time
  the number of microseconds.\<close>

datatype event =
    HintEvent (ev_pid: pid) (ev_hint_data: bytes)
  | SchedulerTerminateEvent (ev_pid: pid)
  | ProcessCreateEvent (ev_pid: pid) (ev_cmdline_array: bytes)
  | ProcessDestroyEvent (ev_pid: pid)
  | XQueueCreateEvent (ev_pid: pid) (ev_handle: xhandle) (ev_device: xdevice) (ev_level: int)
      (ev_threshold: int) (ev_batch_size: int)
  | XQueueDestroyEvent (ev_pid: pid) (ev_handle: xhandle)
  | XQueueReadyEvent (ev_pid: pid) (ev_handle: xhandle) (ev_ready_time_us: int)
  | XQueueIdleEvent (ev_pid: pid) (ev_handle: xhandle)
  | XQueueConfigUpdateEvent (ev_pid: pid) (ev_handle: xhandle) (ev_device: xdevice) (ev_level: int)
      (ev_threshold: int) (ev_batch_size: int)
  | XQueueQueryEvent (ev_pid: pid) (ev_handle: xhandle) (ev_query: "64 word")
  | XQueueQueryAllEvent (ev_pid: pid) (ev_query: "64 word")

fun event_type :: "event \<Rightarrow> int" where
  "event_type (HintEvent _ _) = kEventHint"
| "event_type (SchedulerTerminateEvent _) = kEventSchedulerTerminate"
| "event_type (ProcessCreateEvent _ _) = kEventProcessCreate"
| "event_type (ProcessDestroyEvent _) = kEventProcessDestroy"
| "event_type (XQueueCreateEvent _ _ _ _ _ _) = kEventXQueueCreate"
| "event_type (XQueueDestroyEvent _ _) = kEventXQueueDestroy"
| "event_type (XQueueReadyEvent _ _ _) = kEventXQueueReady"
| "event_type (XQueueIdleEvent _ _) = kEventXQueueIdle"
| "event_type (XQueueConfigUpdateEvent _ _ _ _ _ _) = kEventXQueueConfigUpdate"
| "event_type (XQueueQueryEvent _ _ _) = kEventXQueueQuery"
| "event_type (XQueueQueryAllEvent _ _) = kEventXQueueQueryAll"

section \<open>Construction from values\<close>

definition byte_of_char :: "char \<Rightarrow> 8 word" where
  "byte_of_char c = word_of_nat (of_char c)"

definition char_of_byte :: "8 word \<Rightarrow> char" where
  "char_of_byte b = char_of (unat b)"

text \<open>\<^verbatim>\<open>strncpy\<close> into the 256 bytes: up to the first NUL, padded with NULs, and the last byte
  forced to NUL.\<close>

definition c_string :: "bytes \<Rightarrow> bytes" where
  "c_string bs = takeWhile (\<lambda>b. b \<noteq> 0) bs"

definition cmdline_array :: "string \<Rightarrow> bytes" where
  "cmdline_array s =
     (let src = c_string (map byte_of_char s);
          cp = take 256 src @ replicate (256 - length src) 0 in
      cp[255 := 0])"

definition ProcessCreateEvent_new :: "pid \<Rightarrow> string \<Rightarrow> event" where
  "ProcessCreateEvent_new pd cmdline = ProcessCreateEvent pd (cmdline_array cmdline)"

text \<open>\<^verbatim>\<open>e->Cmdline()\<close> as a \<^verbatim>\<open>std::string\<close>.\<close>

definition Cmdline :: "bytes \<Rightarrow> string" where
  "Cmdline arr = map char_of_byte (c_string arr)"

definition HintEvent_new :: "pid \<Rightarrow> int \<Rightarrow> int \<Rightarrow> hint \<Rightarrow> event" where
  "HintEvent_new pd p1 p2 h = HintEvent pd (hint_data p1 p2 h)"

definition XQueueReadyEvent_new :: "pid \<Rightarrow> xhandle \<Rightarrow> time_ns \<Rightarrow> event" where
  "XQueueReadyEvent_new pd h ready_time = XQueueReadyEvent pd h (ns_to_us ready_time)"

definition ReadyTime :: "int \<Rightarrow> time_ns" where
  "ReadyTime ready_time_us = us_to_ns ready_time_us"

section \<open>The structs\<close>

definition EventMeta :: "int \<Rightarrow> pid \<Rightarrow> bytes" where
  "EventMeta t pd = le_bytes 4 t @ le_bytes 4 pd"

definition HintEvent_data :: "pid \<Rightarrow> bytes \<Rightarrow> bytes" where
  "HintEvent_data pd hb =
     EventMeta kEventHint pd @ le_bytes 8 (16 + int (length hb)) @ hb"

definition HintEvent_read :: "bytes \<Rightarrow> wire_error + event" where
  "HintEvent_read bs =
     (case flds [(4, 4), (8, 8)] bs of
        Some [pd, sz] \<Rightarrow>
          if sz \<le> int (length bs) \<and> 16 \<le> sz
          then Inr (HintEvent (sx 4 pd) (drop 16 (take (nat sz) bs))) else Inl OutOfBounds
      | _ \<Rightarrow> Inl OutOfBounds)"

definition SchedulerTerminateEvent_data :: "pid \<Rightarrow> bytes" where
  "SchedulerTerminateEvent_data pd = EventMeta kEventSchedulerTerminate pd"

definition SchedulerTerminateEvent_read :: "bytes \<Rightarrow> wire_error + event" where
  "SchedulerTerminateEvent_read bs =
     (case flds [(4, 4)] bs of Some [pd] \<Rightarrow> Inr (SchedulerTerminateEvent (sx 4 pd))
      | _ \<Rightarrow> Inl OutOfBounds)"

definition ProcessCreateEvent_data :: "pid \<Rightarrow> bytes \<Rightarrow> bytes" where
  "ProcessCreateEvent_data pd arr = EventMeta kEventProcessCreate pd @ arr"

definition ProcessCreateEvent_read :: "bytes \<Rightarrow> wire_error + event" where
  "ProcessCreateEvent_read bs =
     (case flds [(4, 4)] bs of
        Some [pd] \<Rightarrow> if 264 \<le> length bs
          then Inr (ProcessCreateEvent (sx 4 pd) (take 256 (drop 8 bs))) else Inl OutOfBounds
      | _ \<Rightarrow> Inl OutOfBounds)"

definition ProcessDestroyEvent_data :: "pid \<Rightarrow> bytes" where
  "ProcessDestroyEvent_data pd = EventMeta kEventProcessDestroy pd"

definition ProcessDestroyEvent_read :: "bytes \<Rightarrow> wire_error + event" where
  "ProcessDestroyEvent_read bs =
     (case flds [(4, 4)] bs of Some [pd] \<Rightarrow> Inr (ProcessDestroyEvent (sx 4 pd))
      | _ \<Rightarrow> Inl OutOfBounds)"

text \<open>\<^verbatim>\<open>XQueueCreateEvent\<close> and \<^verbatim>\<open>XQueueConfigUpdateEvent\<close> have the same fields.\<close>

definition XQueueCreateEvent_data ::
    "int \<Rightarrow> pid \<Rightarrow> xhandle \<Rightarrow> xdevice \<Rightarrow> int \<Rightarrow> int \<Rightarrow> int \<Rightarrow> bytes" where
  "XQueueCreateEvent_data pad pd h d lv th bt =
     EventMeta kEventXQueueCreate pd @ le_bytes 8 (uint h) @ le_bytes 8 (uint d)
     @ le_bytes 4 lv @ le_bytes 4 pad @ le_bytes 8 th @ le_bytes 8 bt"

definition XQueueCreateEvent_read :: "bytes \<Rightarrow> wire_error + event" where
  "XQueueCreateEvent_read bs =
     (case flds [(4, 4), (8, 8), (16, 8), (24, 4), (32, 8), (40, 8)] bs of
        Some [pd, h, d, lv, th, bt] \<Rightarrow>
          Inr (XQueueCreateEvent (sx 4 pd) (word_of_int h) (word_of_int d) (sx 4 lv) (sx 8 th) (sx 8 bt))
      | _ \<Rightarrow> Inl OutOfBounds)"

definition XQueueDestroyEvent_data :: "pid \<Rightarrow> xhandle \<Rightarrow> bytes" where
  "XQueueDestroyEvent_data pd h = EventMeta kEventXQueueDestroy pd @ le_bytes 8 (uint h)"

definition XQueueDestroyEvent_read :: "bytes \<Rightarrow> wire_error + event" where
  "XQueueDestroyEvent_read bs =
     (case flds [(4, 4), (8, 8)] bs of
        Some [pd, h] \<Rightarrow> Inr (XQueueDestroyEvent (sx 4 pd) (word_of_int h)) | _ \<Rightarrow> Inl OutOfBounds)"

definition XQueueReadyEvent_data :: "pid \<Rightarrow> xhandle \<Rightarrow> int \<Rightarrow> bytes" where
  "XQueueReadyEvent_data pd h us =
     EventMeta kEventXQueueReady pd @ le_bytes 8 (uint h) @ le_bytes 8 us"

definition XQueueReadyEvent_read :: "bytes \<Rightarrow> wire_error + event" where
  "XQueueReadyEvent_read bs =
     (case flds [(4, 4), (8, 8), (16, 8)] bs of
        Some [pd, h, us] \<Rightarrow> Inr (XQueueReadyEvent (sx 4 pd) (word_of_int h) (sx 8 us))
      | _ \<Rightarrow> Inl OutOfBounds)"

definition XQueueIdleEvent_data :: "pid \<Rightarrow> xhandle \<Rightarrow> bytes" where
  "XQueueIdleEvent_data pd h = EventMeta kEventXQueueIdle pd @ le_bytes 8 (uint h)"

definition XQueueIdleEvent_read :: "bytes \<Rightarrow> wire_error + event" where
  "XQueueIdleEvent_read bs =
     (case flds [(4, 4), (8, 8)] bs of
        Some [pd, h] \<Rightarrow> Inr (XQueueIdleEvent (sx 4 pd) (word_of_int h)) | _ \<Rightarrow> Inl OutOfBounds)"

definition XQueueConfigUpdateEvent_data ::
    "int \<Rightarrow> pid \<Rightarrow> xhandle \<Rightarrow> xdevice \<Rightarrow> int \<Rightarrow> int \<Rightarrow> int \<Rightarrow> bytes" where
  "XQueueConfigUpdateEvent_data pad pd h d lv th bt =
     EventMeta kEventXQueueConfigUpdate pd @ le_bytes 8 (uint h) @ le_bytes 8 (uint d)
     @ le_bytes 4 lv @ le_bytes 4 pad @ le_bytes 8 th @ le_bytes 8 bt"

definition XQueueConfigUpdateEvent_read :: "bytes \<Rightarrow> wire_error + event" where
  "XQueueConfigUpdateEvent_read bs =
     (case flds [(4, 4), (8, 8), (16, 8), (24, 4), (32, 8), (40, 8)] bs of
        Some [pd, h, d, lv, th, bt] \<Rightarrow>
          Inr (XQueueConfigUpdateEvent (sx 4 pd) (word_of_int h) (word_of_int d) (sx 4 lv) (sx 8 th) (sx 8 bt))
      | _ \<Rightarrow> Inl OutOfBounds)"

definition XQueueQueryEvent_data :: "pid \<Rightarrow> xhandle \<Rightarrow> 64 word \<Rightarrow> bytes" where
  "XQueueQueryEvent_data pd h qp =
     EventMeta kEventXQueueQuery pd @ le_bytes 8 (uint h) @ le_bytes 8 (uint qp)"

definition XQueueQueryEvent_read :: "bytes \<Rightarrow> wire_error + event" where
  "XQueueQueryEvent_read bs =
     (case flds [(4, 4), (8, 8), (16, 8)] bs of
        Some [pd, h, qp] \<Rightarrow> Inr (XQueueQueryEvent (sx 4 pd) (word_of_int h) (word_of_int qp))
      | _ \<Rightarrow> Inl OutOfBounds)"

definition XQueueQueryAllEvent_data :: "pid \<Rightarrow> 64 word \<Rightarrow> bytes" where
  "XQueueQueryAllEvent_data pd qp = EventMeta kEventXQueueQueryAll pd @ le_bytes 8 (uint qp)"

definition XQueueQueryAllEvent_read :: "bytes \<Rightarrow> wire_error + event" where
  "XQueueQueryAllEvent_read bs =
     (case flds [(4, 4), (8, 8)] bs of
        Some [pd, qp] \<Rightarrow> Inr (XQueueQueryAllEvent (sx 4 pd) (word_of_int qp)) | _ \<Rightarrow> Inl OutOfBounds)"

lemmas event_class_defs =
  HintEvent_data_def HintEvent_read_def
  SchedulerTerminateEvent_data_def SchedulerTerminateEvent_read_def
  ProcessCreateEvent_data_def ProcessCreateEvent_read_def
  ProcessDestroyEvent_data_def ProcessDestroyEvent_read_def
  XQueueCreateEvent_data_def XQueueCreateEvent_read_def
  XQueueDestroyEvent_data_def XQueueDestroyEvent_read_def
  XQueueReadyEvent_data_def XQueueReadyEvent_read_def
  XQueueIdleEvent_data_def XQueueIdleEvent_read_def
  XQueueConfigUpdateEvent_data_def XQueueConfigUpdateEvent_read_def
  XQueueQueryEvent_data_def XQueueQueryEvent_read_def
  XQueueQueryAllEvent_data_def XQueueQueryAllEvent_read_def
  EventMeta_def

text \<open>\<^verbatim>\<open>Data()\<close> of an event, with the bytes \<open>pad\<close> in the padding of its struct.\<close>

fun event_data :: "int \<Rightarrow> event \<Rightarrow> bytes" where
  "event_data pad (HintEvent pd hb) = HintEvent_data pd hb"
| "event_data pad (SchedulerTerminateEvent pd) = SchedulerTerminateEvent_data pd"
| "event_data pad (ProcessCreateEvent pd arr) = ProcessCreateEvent_data pd arr"
| "event_data pad (ProcessDestroyEvent pd) = ProcessDestroyEvent_data pd"
| "event_data pad (XQueueCreateEvent pd h d lv th bt) = XQueueCreateEvent_data pad pd h d lv th bt"
| "event_data pad (XQueueDestroyEvent pd h) = XQueueDestroyEvent_data pd h"
| "event_data pad (XQueueReadyEvent pd h us) = XQueueReadyEvent_data pd h us"
| "event_data pad (XQueueIdleEvent pd h) = XQueueIdleEvent_data pd h"
| "event_data pad (XQueueConfigUpdateEvent pd h d lv th bt) =
     XQueueConfigUpdateEvent_data pad pd h d lv th bt"
| "event_data pad (XQueueQueryEvent pd h qp) = XQueueQueryEvent_data pd h qp"
| "event_data pad (XQueueQueryAllEvent pd qp) = XQueueQueryAllEvent_data pd qp"

fun event_size :: "event \<Rightarrow> nat" where
  "event_size (HintEvent _ hb) = 16 + length hb"
| "event_size (SchedulerTerminateEvent _) = 8"
| "event_size (ProcessCreateEvent _ _) = 264"
| "event_size (ProcessDestroyEvent _) = 8"
| "event_size (XQueueCreateEvent _ _ _ _ _ _) = 48"
| "event_size (XQueueDestroyEvent _ _) = 16"
| "event_size (XQueueReadyEvent _ _ _) = 24"
| "event_size (XQueueIdleEvent _ _) = 16"
| "event_size (XQueueConfigUpdateEvent _ _ _ _ _ _) = 48"
| "event_size (XQueueQueryEvent _ _ _) = 24"
| "event_size (XQueueQueryAllEvent _ _) = 16"

definition event_copy :: "bytes \<Rightarrow> wire_error + event" where
  "event_copy bs =
     (case rd 0 4 bs of None \<Rightarrow> Inl OutOfBounds
      | Some t \<Rightarrow>
        if t = kEventHint then HintEvent_read bs
        else if t = kEventSchedulerTerminate then SchedulerTerminateEvent_read bs
        else if t = kEventProcessCreate then ProcessCreateEvent_read bs
        else if t = kEventProcessDestroy then ProcessDestroyEvent_read bs
        else if t = kEventXQueueCreate then XQueueCreateEvent_read bs
        else if t = kEventXQueueDestroy then XQueueDestroyEvent_read bs
        else if t = kEventXQueueReady then XQueueReadyEvent_read bs
        else if t = kEventXQueueIdle then XQueueIdleEvent_read bs
        else if t = kEventXQueueConfigUpdate then XQueueConfigUpdateEvent_read bs
        else if t = kEventXQueueQuery then XQueueQueryEvent_read bs
        else if t = kEventXQueueQueryAll then XQueueQueryAllEvent_read bs
        else Inl (UnknownType t))"

text \<open>The fields have the widths of their C types.\<close>

fun wf_event :: "event \<Rightarrow> bool" where
  "wf_event (HintEvent pd hb) \<longleftrightarrow> in_signed 4 pd \<and> length hb < 2 ^ 63"
| "wf_event (SchedulerTerminateEvent pd) \<longleftrightarrow> in_signed 4 pd"
| "wf_event (ProcessCreateEvent pd arr) \<longleftrightarrow> in_signed 4 pd \<and> length arr = 256"
| "wf_event (ProcessDestroyEvent pd) \<longleftrightarrow> in_signed 4 pd"
| "wf_event (XQueueCreateEvent pd h d lv th bt) \<longleftrightarrow>
     in_signed 4 pd \<and> in_signed 4 lv \<and> in_signed 8 th \<and> in_signed 8 bt"
| "wf_event (XQueueDestroyEvent pd h) \<longleftrightarrow> in_signed 4 pd"
| "wf_event (XQueueReadyEvent pd h us) \<longleftrightarrow> in_signed 4 pd \<and> in_signed 8 us"
| "wf_event (XQueueIdleEvent pd h) \<longleftrightarrow> in_signed 4 pd"
| "wf_event (XQueueConfigUpdateEvent pd h d lv th bt) \<longleftrightarrow>
     in_signed 4 pd \<and> in_signed 4 lv \<and> in_signed 8 th \<and> in_signed 8 bt"
| "wf_event (XQueueQueryEvent pd h qp) \<longleftrightarrow> in_signed 4 pd"
| "wf_event (XQueueQueryAllEvent pd qp) \<longleftrightarrow> in_signed 4 pd"

lemma event_data_length: "wf_event ev \<Longrightarrow> length (event_data pad ev) = event_size ev"
  by (cases ev) (simp_all add: event_class_defs)

lemma event_copy_data:
  assumes "wf_event ev"
  shows "event_copy (event_data pad ev @ junk) = Inr ev"
proof (cases ev)
  case (HintEvent pd hb)
  then have l: "16 + int (length hb) < 18446744073709551616" "in_signed 4 pd" using assms by simp_all
  have m: "(16 + int (length hb)) mod 18446744073709551616 = 16 + int (length hb)"
    using l(1) by (intro mod_pos_pos_trivial) auto
  have n: "nat (16 + int (length hb)) = 16 + length hb" by simp
  show ?thesis using l(2) HintEvent m n
    by (simp add: event_copy_def event_class_defs wire_simps)
qed (use assms in \<open>simp_all add: event_copy_def event_class_defs wire_simps\<close>)

lemma c_string_append_0: "c_string (xs @ 0 # ys) = c_string xs"
  by (induction xs) (simp_all add: c_string_def)

lemma c_string_id: "0 \<notin> set xs \<Longrightarrow> c_string xs = xs"
  unfolding c_string_def by (rule takeWhile_eq_all_conv [THEN iffD2]) auto

lemma cmdline_array_length [simp]: "length (cmdline_array s) = 256"
  by (simp add: cmdline_array_def Let_def)

lemma c_string_no_0: "0 \<notin> set (c_string xs)"
  by (auto simp: c_string_def dest: set_takeWhileD)

text \<open>A command line without NUL comes back cut to 255 characters.\<close>

lemma char_byte [simp]: "char_of_byte (byte_of_char c) = c"
proof -
  have "(of_char c :: nat) < 256" by (cases c) (simp add: of_char_Char horner_sum_simps)
  then show ?thesis by (simp add: char_of_byte_def byte_of_char_def unat_of_nat)
qed

lemma byte_of_char_0: "byte_of_char c = 0 \<longleftrightarrow> c = CHR 0x00"
proof -
  have "byte_of_char (CHR 0x00) = 0" by (simp add: byte_of_char_def)
  then show ?thesis by (metis char_byte)
qed

lemma Cmdline_array:
  assumes "CHR 0x00 \<notin> set s"
  shows "Cmdline (cmdline_array s) = take 255 s"
proof -
  let ?b = "map byte_of_char s"
  have z: "(0 :: 8 word) \<notin> set ?b" using assms byte_of_char_0 by force
  have src: "c_string ?b = ?b" using z by (rule c_string_id)
  define cp where "cp = take 256 ?b @ replicate (256 - length ?b) 0"
  have len: "length cp = 256" by (simp add: cp_def)
  have split: "cp[255 := 0] = take 255 cp @ 0 # drop 256 cp"
    using len by (simp add: upd_conv_take_nth_drop)
  have "c_string (take 255 cp) = take 255 ?b"
  proof (cases "length s \<le> 255")
    case True
    then have "take 255 cp = ?b @ replicate (255 - length s) 0" by (simp add: cp_def min_def)
    then show ?thesis
      using True src by (cases "255 - length s") (simp_all add: c_string_append_0)
  next
    case False
    then have "take 255 cp = take 255 ?b" by (simp add: cp_def)
    then show ?thesis using z by (simp add: c_string_id) (metis c_string_id in_set_takeD z)
  qed
  moreover have "c_string (cp[255 := 0]) = c_string (take 255 cp)"
    unfolding split by (rule c_string_append_0)
  moreover have "cmdline_array s = cp[255 := 0]"
    by (simp add: cmdline_array_def Let_def src cp_def)
  ultimately show ?thesis by (simp add: Cmdline_def take_map comp_def)
qed

end
