(* ===== verification/Operations.thy ===== *)
theory Operations
  imports Status
begin

text \<open>
  Operations (\<^verbatim>\<open>sched/include/xsched/sched/protocol/operation.h\<close>,
  \<^verbatim>\<open>sched/src/protocol/operation.cpp\<close>): what the scheduler tells a client process, and the
  executor that carries them out there (\<^verbatim>\<open>preempt/src/sched/executor.cpp\<close>). A
  \<^verbatim>\<open>SchedOperation\<close> is the decision for all XQueues of one process: first the handles to
  run, then those to suspend.
\<close>

abbreviation (input) kOperationTerminate :: int where "kOperationTerminate \<equiv> 0"
abbreviation (input) kOperationSched :: int where "kOperationSched \<equiv> 1"
abbreviation (input) kOperationConfig :: int where "kOperationConfig \<equiv> 2"

datatype operation =
    TerminateOperation (op_pid: pid)
  | SchedOperation (op_pid: pid) (op_running_cnt: nat) (op_suspended_cnt: nat)
      (op_handles: "xhandle list")
  | ConfigOperation (op_pid: pid) (op_handle: xhandle) (op_level: int) (op_threshold: int)
      (op_batch_size: int)

fun operation_type :: "operation \<Rightarrow> int" where
  "operation_type (TerminateOperation _) = kOperationTerminate"
| "operation_type (SchedOperation _ _ _ _) = kOperationSched"
| "operation_type (ConfigOperation _ _ _ _ _) = kOperationConfig"

definition SchedOperation_of :: "process_status \<Rightarrow> operation" where
  "SchedOperation_of ps =
     SchedOperation (pi_pid (ps_info ps)) (length (ps_running ps)) (length (ps_suspended ps))
       (ps_running ps @ ps_suspended ps)"

section \<open>The structs\<close>

definition OperationMeta :: "int \<Rightarrow> pid \<Rightarrow> bytes" where
  "OperationMeta t pd = le_bytes 4 t @ le_bytes 4 pd"

fun handles_bytes :: "xhandle list \<Rightarrow> bytes" where
  "handles_bytes [] = []"
| "handles_bytes (h # hs) = le_bytes 8 (uint h) @ handles_bytes hs"

function read_handles :: "bytes \<Rightarrow> xhandle list" where
  "read_handles bs =
     (if length bs < 8 then [] else word_of_int (le_uint (take 8 bs)) # read_handles (drop 8 bs))"
  by pat_completeness auto
termination by (relation "measure length") auto

declare read_handles.simps [simp del]

fun operation_data :: "int \<Rightarrow> operation \<Rightarrow> bytes" where
  "operation_data pad (TerminateOperation pd) = OperationMeta kOperationTerminate pd"
| "operation_data pad (SchedOperation pd r s hs) =
     OperationMeta kOperationSched pd @ le_bytes 8 (32 + 8 * int (length hs))
     @ le_bytes 8 (int r) @ le_bytes 8 (int s) @ handles_bytes hs"
| "operation_data pad (ConfigOperation pd h lv th bt) =
     OperationMeta kOperationConfig pd @ le_bytes 8 (uint h) @ le_bytes 4 lv @ le_bytes 4 pad
     @ le_bytes 8 th @ le_bytes 8 bt"

definition TerminateOperation_read :: "bytes \<Rightarrow> wire_error + operation" where
  "TerminateOperation_read bs =
     (case flds [(4, 4)] bs of Some [pd] \<Rightarrow> Inr (TerminateOperation (sx 4 pd))
      | _ \<Rightarrow> Inl OutOfBounds)"

definition SchedOperation_read :: "bytes \<Rightarrow> wire_error + operation" where
  "SchedOperation_read bs =
     (case flds [(4, 4), (8, 8), (16, 8), (24, 8)] bs of
        Some [pd, sz, r, s] \<Rightarrow>
          if sz \<le> int (length bs) \<and> 32 \<le> sz
          then Inr (SchedOperation (sx 4 pd) (nat r) (nat s) (read_handles (drop 32 (take (nat sz) bs))))
          else Inl OutOfBounds
      | _ \<Rightarrow> Inl OutOfBounds)"

definition ConfigOperation_read :: "bytes \<Rightarrow> wire_error + operation" where
  "ConfigOperation_read bs =
     (case flds [(4, 4), (8, 8), (16, 4), (24, 8), (32, 8)] bs of
        Some [pd, h, lv, th, bt] \<Rightarrow>
          Inr (ConfigOperation (sx 4 pd) (word_of_int h) (sx 4 lv) (sx 8 th) (sx 8 bt))
      | _ \<Rightarrow> Inl OutOfBounds)"

definition operation_copy :: "bytes \<Rightarrow> wire_error + operation" where
  "operation_copy bs =
     (case rd 0 4 bs of None \<Rightarrow> Inl OutOfBounds
      | Some t \<Rightarrow>
        if t = kOperationTerminate then TerminateOperation_read bs
        else if t = kOperationSched then SchedOperation_read bs
        else if t = kOperationConfig then ConfigOperation_read bs
        else Inl (UnknownType t))"

fun wf_operation :: "operation \<Rightarrow> bool" where
  "wf_operation (TerminateOperation pd) \<longleftrightarrow> in_signed 4 pd"
| "wf_operation (SchedOperation pd r s hs) \<longleftrightarrow>
     in_signed 4 pd \<and> length hs < 2 ^ 60 \<and> r < 2 ^ 60 \<and> s < 2 ^ 60"
| "wf_operation (ConfigOperation pd h lv th bt) \<longleftrightarrow>
     in_signed 4 pd \<and> in_signed 4 lv \<and> in_signed 8 th \<and> in_signed 8 bt"

lemma length_handles_bytes [simp]: "length (handles_bytes hs) = 8 * length hs"
  by (induction hs) simp_all

lemma read_handles_bytes: "read_handles (handles_bytes hs) = hs"
proof (induction hs)
  case Nil
  show ?case by (simp add: read_handles.simps)
next
  case (Cons h hs)
  then show ?case
    by (simp add: read_handles.simps [of "le_bytes 8 (uint h) @ handles_bytes hs"])
qed

lemma operation_copy_data:
  assumes "wf_operation opn"
  shows "operation_copy (operation_data pad opn @ junk) = Inr opn"
proof (cases opn)
  case (SchedOperation pd r s hs)
  have b: "in_signed 4 pd" "length hs < 2 ^ 60" "r < 2 ^ 60" "s < 2 ^ 60"
    using assms SchedOperation by simp_all
  have l: "int (length hs) < 2 ^ 60" "int r < 2 ^ 60" "int s < 2 ^ 60"
    using b(2-4) by (simp_all only: of_nat_less_iff [symmetric, where ?'a = int]) simp_all
  have m: "(32 + 8 * int (length hs)) mod 18446744073709551616 = 32 + 8 * int (length hs)"
    "int r mod 18446744073709551616 = int r" "int s mod 18446744073709551616 = int s"
    using l by (auto intro!: mod_pos_pos_trivial)
  have n: "nat (32 + 8 * int (length hs)) = 32 + 8 * length hs" by simp
  show ?thesis using b(1) SchedOperation m n read_handles_bytes [of hs]
    by (simp add: operation_copy_def SchedOperation_read_def OperationMeta_def wire_simps)
qed (use assms in \<open>simp_all add: operation_copy_def TerminateOperation_read_def
       ConfigOperation_read_def OperationMeta_def wire_simps\<close>)

section \<open>The executor of a client process\<close>

text \<open>The calls it makes on the XQueues of its process (\<open>known\<close> are the registered ones); a
  handle beyond the array would be an out-of-bounds read (\<open>None\<close>).\<close>

datatype xq_call =
    ResumeXQueue xhandle int
  | SuspendXQueue xhandle int
  | SetPreemptLevel xhandle int
  | SetLaunchConfig xhandle int int

abbreviation (input) kQueueResumeFlagNone :: int where "kQueueResumeFlagNone \<equiv> 0"
abbreviation (input) kQueueSuspendFlagNone :: int where "kQueueSuspendFlagNone \<equiv> 0"
abbreviation (input) kQueueSuspendFlagSyncHwQueue :: int where "kQueueSuspendFlagSyncHwQueue \<equiv> 1"

text \<open>\<^verbatim>\<open>XSCHED_SYNC_SUSPEND\<close> set, not empty and not starting with 0.\<close>

definition suspend_flags :: "string option \<Rightarrow> int" where
  "suspend_flags env =
     (case env of None \<Rightarrow> kQueueSuspendFlagNone
      | Some s \<Rightarrow> (case s of [] \<Rightarrow> kQueueSuspendFlagNone
          | c # _ \<Rightarrow> if c \<noteq> CHR ''0'' then kQueueSuspendFlagSyncHwQueue else kQueueSuspendFlagNone))"

definition ExecuteSchedOperation ::
    "string option \<Rightarrow> (xhandle \<Rightarrow> bool) \<Rightarrow> nat \<Rightarrow> nat \<Rightarrow> xhandle list \<Rightarrow> xq_call list option" where
  "ExecuteSchedOperation env known r s hs =
     (if r + s > length hs then None
      else Some (map (\<lambda>h. ResumeXQueue h kQueueResumeFlagNone)
                   (filter known (map ((!) hs) [0..<r]))
               @ map (\<lambda>h. SuspendXQueue h (suspend_flags env))
                   (filter known (map (\<lambda>i. hs ! (r + i)) [0..<s]))))"

definition ExecuteConfigOperation :: "xhandle \<Rightarrow> int \<Rightarrow> int \<Rightarrow> int \<Rightarrow> xq_call list" where
  "ExecuteConfigOperation h lv th bt =
     (if lv > kPreemptLevelUnknown then [SetPreemptLevel h lv] else [])
     @ (if th > 0 \<or> bt > 0 then [SetLaunchConfig h th bt] else [])"

text \<open>\<^verbatim>\<open>SchedExecutor::Execute\<close>; an unknown type aborts.\<close>

definition Execute :: "bool \<Rightarrow> string option \<Rightarrow> (xhandle \<Rightarrow> bool) \<Rightarrow> operation \<Rightarrow> xq_call list option" where
  "Execute executing env known opn =
     (if \<not> executing then Some []
      else (case opn of
              SchedOperation _ r s hs \<Rightarrow> ExecuteSchedOperation env known r s hs
            | ConfigOperation _ h lv th bt \<Rightarrow> Some (ExecuteConfigOperation h lv th bt)
            | TerminateOperation _ \<Rightarrow> None))"

lemma Execute_SchedOperation_of:
  "Execute True env known (SchedOperation_of ps) =
     Some (map (\<lambda>h. ResumeXQueue h 0) (filter known (ps_running ps))
         @ map (\<lambda>h. SuspendXQueue h (suspend_flags env)) (filter known (ps_suspended ps)))"
proof -
  let ?hs = "ps_running ps @ ps_suspended ps"
  have "map ((!) ?hs) [0..<length (ps_running ps)] = ps_running ps"
    by (rule nth_equalityI) (auto simp: nth_append)
  moreover have "map (\<lambda>i. ?hs ! (length (ps_running ps) + i)) [0..<length (ps_suspended ps)] = ps_suspended ps"
    by (rule nth_equalityI) auto
  ultimately show ?thesis
    by (simp add: Execute_def SchedOperation_of_def ExecuteSchedOperation_def)
qed

end
