(* ===== verification/LocalSched.thy ===== *)
theory LocalSched
  imports PolicySum Events Operations
begin

text \<open>
  The local scheduler (\<^verbatim>\<open>sched/src/scheduler/local.cpp\<close>), which also is the scheduler of the
  server: a worker thread that takes events from a queue, updates the status tables and
  runs the policy after every ready event, at the end of every batch and when a timer has
  expired; after each run it sends every process the decision for its XQueues. The
  operations of the worker are functions on \<open>lsched\<close>; \<open>lstep\<close> interleaves them with the
  arrival of events. \<open>None\<close> is a failed assertion.
\<close>

section \<open>State\<close>

record lsched =
  ls_type :: xpolicy_type
  ls_policy :: policy
  ls_status :: status
  ls_timers :: "time_ns list"
  ls_events :: "event list"

text \<open>What leaves the scheduler: operations for the executor, and answers to queries, which
  go to the \<^verbatim>\<open>StatusQuery\<close> at the given address.\<close>

datatype sched_output =
    Operation operation
  | Answer "64 word" "xqueue_status list" "process_info list"

fun LocalScheduler :: "xpolicy_type \<Rightarrow> lsched option" where
  "LocalScheduler t =
     map_option (\<lambda>pol. \<lparr> ls_type = t, ls_policy = pol, ls_status = empty_status, ls_timers = [],
                        ls_events = [] \<rparr>) (CreatePolicy t)"

definition RecvEvent :: "event \<Rightarrow> lsched \<Rightarrow> lsched" where
  "RecvEvent ev s = s\<lparr> ls_events := ls_events s @ [ev] \<rparr>"

section \<open>Rescheduling\<close>

definition ExecuteOperations :: "status \<Rightarrow> sched_output list" where
  "ExecuteOperations st =
     map (\<lambda>(_, ps). Operation (SchedOperation_of ps))
       (filter (\<lambda>(_, ps). \<not> (ps_running ps = [] \<and> ps_suspended ps = [])) (st_procs st))"

definition Reschedule :: "sched_env \<Rightarrow> lsched \<Rightarrow> (lsched \<times> sched_output list) option" where
  "Reschedule e s =
     (case policy_run policy_Sched e (ls_policy s) (ls_status s, ls_timers s) of
        None \<Rightarrow> None
      | Some (pol, st, ts) \<Rightarrow>
          Some (s\<lparr> ls_policy := pol, ls_status := st, ls_timers := ts \<rparr>, ExecuteOperations st))"

section \<open>Events\<close>

definition CreateXQueueStatus :: "pid \<Rightarrow> string \<Rightarrow> xhandle \<Rightarrow> xdevice \<Rightarrow> int \<Rightarrow> int \<Rightarrow> int
    \<Rightarrow> bool \<Rightarrow> time_ns \<Rightarrow> status \<Rightarrow> status" where
  "CreateXQueueStatus pd cmdline h d lv th bt rdy t st =
     (let q = \<lparr> xs_handle = h, xs_device = d, xs_level = lv, xs_pid = pd, xs_threshold = th,
                xs_batch_size = bt, xs_ready = rdy, xs_suspended = False, xs_ready_time = t \<rparr>;
          st1 = st\<lparr> st_xqueues := AList.update h q (st_xqueues st) \<rparr>;
          st2 = (case proc_of st1 pd of
                   Some _ \<Rightarrow> st1
                 | None \<Rightarrow> st1\<lparr> st_procs := AList.update pd
                     \<lparr> ps_info = \<lparr> pi_pid = pd, pi_cmdline = cmdline \<rparr>, ps_running = [],
                       ps_suspended = [] \<rparr> (st_procs st1) \<rparr>) in
      st2\<lparr> st_procs := AList.map_entry pd (\<lambda>p. p\<lparr> ps_running := oset_insert h (ps_running p) \<rparr>)
             (st_procs st2) \<rparr>)"

definition upd_queue :: "xhandle \<Rightarrow> (xqueue_status \<Rightarrow> xqueue_status) \<Rightarrow> status \<Rightarrow> status" where
  "upd_queue h f st = st\<lparr> st_xqueues := AList.map_entry h f (st_xqueues st) \<rparr>"

definition set_config :: "xdevice \<Rightarrow> int \<Rightarrow> int \<Rightarrow> int \<Rightarrow> xqueue_status \<Rightarrow> xqueue_status" where
  "set_config d lv th bt q =
     q\<lparr> xs_device := d, xs_level := lv, xs_threshold := th, xs_batch_size := bt \<rparr>"

definition on_process_create :: "pid \<Rightarrow> string \<Rightarrow> status \<Rightarrow> status" where
  "on_process_create pd cmdline st =
     (case proc_of st pd of
        Some _ \<Rightarrow> st\<lparr> st_procs := AList.map_entry pd
            (\<lambda>p. p\<lparr> ps_info := (ps_info p)\<lparr> pi_cmdline := cmdline \<rparr> \<rparr>) (st_procs st) \<rparr>
      | None \<Rightarrow> st\<lparr> st_procs := AList.update pd
            \<lparr> ps_info = \<lparr> pi_pid = pd, pi_cmdline = cmdline \<rparr>, ps_running = [], ps_suspended = [] \<rparr>
            (st_procs st) \<rparr>)"

definition on_process_destroy :: "pid \<Rightarrow> status \<Rightarrow> status" where
  "on_process_destroy pd st =
     (case proc_of st pd of None \<Rightarrow> st
      | Some p \<Rightarrow>
          (let hs = set (ps_running p) \<union> set (ps_suspended p) in
           st\<lparr> st_xqueues := filter (\<lambda>(h, _). h \<notin> hs) (st_xqueues st),
               st_procs := AList.delete pd (st_procs st) \<rparr>))"

definition on_config :: "time_ns \<Rightarrow> pid \<Rightarrow> xhandle \<Rightarrow> xdevice \<Rightarrow> int \<Rightarrow> int \<Rightarrow> int \<Rightarrow> status \<Rightarrow> status" where
  "on_config now pd h d lv th bt st =
     (case xq_of st h of
        None \<Rightarrow> CreateXQueueStatus pd [] h d lv th bt False now st
      | Some _ \<Rightarrow> upd_queue h (set_config d lv th bt) st)"

definition on_xqueue_destroy :: "pid \<Rightarrow> xhandle \<Rightarrow> status \<Rightarrow> status option" where
  "on_xqueue_destroy pd h st =
     (case xq_of st h of None \<Rightarrow> Some st
      | Some q \<Rightarrow>
          if pd \<noteq> xs_pid q then None
          else (case proc_of st (xs_pid q) of None \<Rightarrow> Some st
                | Some _ \<Rightarrow>
                    Some (st\<lparr> st_procs := AList.map_entry (xs_pid q)
                              (\<lambda>p. p\<lparr> ps_running := oset_erase h (ps_running p),
                                      ps_suspended := oset_erase h (ps_suspended p) \<rparr>) (st_procs st),
                            st_xqueues := AList.delete h (st_xqueues st) \<rparr>)))"

definition on_xqueue_ready :: "pid \<Rightarrow> xhandle \<Rightarrow> time_ns \<Rightarrow> status \<Rightarrow> status" where
  "on_xqueue_ready pd h t st =
     (case xq_of st h of
        None \<Rightarrow> CreateXQueueStatus pd [] h 0 kPreemptLevelUnknown 0 0 True t st
      | Some _ \<Rightarrow> upd_queue h (\<lambda>q. q\<lparr> xs_ready := True, xs_ready_time := t \<rparr>) st)"

definition on_xqueue_idle :: "time_ns \<Rightarrow> pid \<Rightarrow> xhandle \<Rightarrow> status \<Rightarrow> status" where
  "on_xqueue_idle now pd h st =
     (case xq_of st h of
        None \<Rightarrow> CreateXQueueStatus pd [] h 0 kPreemptLevelUnknown 0 0 False now st
      | Some _ \<Rightarrow> upd_queue h (xs_ready_update (\<lambda>_. False)) st)"

text \<open>\<^verbatim>\<open>QueryData()\<close> aborts on a null pointer and on an event of another process.\<close>

definition QueryData :: "pid \<Rightarrow> pid \<Rightarrow> 64 word \<Rightarrow> 64 word option" where
  "QueryData self pd qp = (if qp = 0 \<or> pd \<noteq> self then None else Some qp)"

definition answer_query :: "bool \<Rightarrow> 64 word \<Rightarrow> xhandle \<Rightarrow> status \<Rightarrow> sched_output" where
  "answer_query query_process qp h st =
     (case xq_of st h of
        None \<Rightarrow> Answer qp [] []
      | Some q \<Rightarrow>
          Answer qp [q]
            (if \<not> query_process then []
             else (case proc_of st (xs_pid q) of Some p \<Rightarrow> [ps_info p] | None \<Rightarrow> [])))"

definition answer_query_all :: "bool \<Rightarrow> 64 word \<Rightarrow> status \<Rightarrow> sched_output" where
  "answer_query_all query_process qp st =
     Answer qp (map snd (st_xqueues st))
       (if query_process then map (\<lambda>(_, p). ps_info p) (st_procs st) else [])"

text \<open>\<open>self\<close> is the process of the scheduler, \<open>qproc\<close> the \<^verbatim>\<open>kQueryProcess\<close> of a query.\<close>

fun UpdateStatus :: "pid \<Rightarrow> (64 word \<Rightarrow> bool) \<Rightarrow> sched_env \<Rightarrow> event \<Rightarrow> lsched
    \<Rightarrow> (lsched \<times> sched_output list) option" where
  "UpdateStatus self qproc e (HintEvent pd hb) s =
     (case hint_copy hb of Inl _ \<Rightarrow> None
      | Inr ht \<Rightarrow> Some (s\<lparr> ls_policy := policy_RecvHint e (ls_policy s) ht \<rparr>, []))"
| "UpdateStatus self qproc e (SchedulerTerminateEvent pd) s = Some (s, [])"
| "UpdateStatus self qproc e (ProcessCreateEvent pd arr) s =
     Some (s\<lparr> ls_status := on_process_create pd (Cmdline arr) (ls_status s) \<rparr>, [])"
| "UpdateStatus self qproc e (ProcessDestroyEvent pd) s =
     Some (s\<lparr> ls_status := on_process_destroy pd (ls_status s) \<rparr>, [])"
| "UpdateStatus self qproc e (XQueueCreateEvent pd h d lv th bt) s =
     Some (s\<lparr> ls_status := on_config (env_now e) pd h d lv th bt (ls_status s) \<rparr>, [])"
| "UpdateStatus self qproc e (XQueueDestroyEvent pd h) s =
     map_option (\<lambda>st. (s\<lparr> ls_status := st \<rparr>, [])) (on_xqueue_destroy pd h (ls_status s))"
| "UpdateStatus self qproc e (XQueueReadyEvent pd h us) s =
     Some (s\<lparr> ls_status := on_xqueue_ready pd h (ReadyTime us) (ls_status s) \<rparr>, [])"
| "UpdateStatus self qproc e (XQueueIdleEvent pd h) s =
     Some (s\<lparr> ls_status := on_xqueue_idle (env_now e) pd h (ls_status s) \<rparr>, [])"
| "UpdateStatus self qproc e (XQueueConfigUpdateEvent pd h d lv th bt) s =
     Some (s\<lparr> ls_status := on_config (env_now e) pd h d lv th bt (ls_status s) \<rparr>, [])"
| "UpdateStatus self qproc e (XQueueQueryEvent pd h qp) s =
     (case QueryData self pd qp of None \<Rightarrow> None
      | Some a \<Rightarrow> Some (s, [answer_query (qproc a) a h (ls_status s)]))"
| "UpdateStatus self qproc e (XQueueQueryAllEvent pd qp) s =
     (case QueryData self pd qp of None \<Rightarrow> None
      | Some a \<Rightarrow> Some (s, [answer_query_all (qproc a) a (ls_status s)]))"

section \<open>The worker\<close>

definition is_ready_event :: "event \<Rightarrow> bool" where
  "is_ready_event ev \<longleftrightarrow> event_type ev = kEventXQueueReady"

definition is_terminate_event :: "event \<Rightarrow> bool" where
  "is_terminate_event ev \<longleftrightarrow> event_type ev = kEventSchedulerTerminate"

text \<open>The wait: how many expired timers it removes, and whether it ends at all.\<close>

definition wait_ends :: "time_ns \<Rightarrow> lsched \<Rightarrow> bool" where
  "wait_ends now s \<longleftrightarrow> ls_events s \<noteq> [] \<or> (ls_timers s \<noteq> [] \<and> \<not> now < hd (ls_timers s))"

definition drop_expired :: "time_ns \<Rightarrow> lsched \<Rightarrow> lsched" where
  "drop_expired now s =
     (if ls_events s = [] then s\<lparr> ls_timers := dropWhile (\<lambda>t. \<not> now < t) (ls_timers s) \<rparr> else s)"

text \<open>The loop over a batch. \<open>env\<close> gives the environment of the n-th clock reading or policy
  run of the batch; the boolean is \<^verbatim>\<open>terminate\<close>.\<close>

fun process_events :: "pid \<Rightarrow> (64 word \<Rightarrow> bool) \<Rightarrow> (nat \<Rightarrow> sched_env) \<Rightarrow> event list \<Rightarrow> lsched
    \<Rightarrow> (lsched \<times> sched_output list \<times> bool) option" where
  "process_events self qproc env [] s = Some (s, [], False)"
| "process_events self qproc env (ev # evs) s =
     (if is_terminate_event ev
      then map_option (\<lambda>(s', out, _). (s', out, True)) (process_events self qproc env evs s)
      else (case UpdateStatus self qproc (env 0) ev s of None \<Rightarrow> None
            | Some (s1, out1) \<Rightarrow>
               (case (if is_ready_event ev then Reschedule (env 1) s1 else Some (s1, [])) of
                  None \<Rightarrow> None
                | Some (s2, out2) \<Rightarrow>
                    map_option (\<lambda>(s', out, term). (s', out1 @ out2 @ out, term))
                      (process_events self qproc (\<lambda>n. env (n + 2)) evs s2))))"

text \<open>One pass of \<^verbatim>\<open>while (true)\<close> after the wait has ended.\<close>

definition Worker :: "pid \<Rightarrow> (64 word \<Rightarrow> bool) \<Rightarrow> (nat \<Rightarrow> sched_env) \<Rightarrow> sched_env \<Rightarrow> time_ns \<Rightarrow> lsched
    \<Rightarrow> (lsched \<times> sched_output list \<times> bool) option" where
  "Worker self qproc env e now s =
     (let s0 = drop_expired now s; batch = ls_events s0 in
      case process_events self qproc env batch (s0\<lparr> ls_events := [] \<rparr>) of None \<Rightarrow> None
      | Some (s1, out1, term) \<Rightarrow>
         (case Reschedule e s1 of None \<Rightarrow> None
          | Some (s2, out2) \<Rightarrow>
             Some (s2\<lparr> ls_timers := sort (ls_timers s2) \<rparr>, out1 @ out2, term)))"

text \<open>\<^verbatim>\<open>Stop\<close> enqueues a terminate event and joins the worker; \<^verbatim>\<open>SetPolicy\<close> in between
  installs the new policy and resumes every XQueue.\<close>

definition Stop :: "pid \<Rightarrow> (64 word \<Rightarrow> bool) \<Rightarrow> (nat \<Rightarrow> sched_env) \<Rightarrow> sched_env \<Rightarrow> time_ns \<Rightarrow> lsched
    \<Rightarrow> (lsched \<times> sched_output list) option" where
  "Stop self qproc env e now s =
     map_option (\<lambda>(s', out, _). (s'\<lparr> ls_timers := [] \<rparr>, out))
       (Worker self qproc env e now (RecvEvent (SchedulerTerminateEvent self) s))"

definition resume_all :: "status \<Rightarrow> status" where
  "resume_all st = fold (\<lambda>(h, _). sched_resume h) (st_xqueues st) st"

definition SetPolicy :: "pid \<Rightarrow> (64 word \<Rightarrow> bool) \<Rightarrow> (nat \<Rightarrow> sched_env) \<Rightarrow> sched_env \<Rightarrow> time_ns
    \<Rightarrow> xpolicy_type \<Rightarrow> lsched \<Rightarrow> (lsched \<times> sched_output list) option" where
  "SetPolicy self qproc env e now t s =
     (if t = ls_type s then Some (s, [])
      else (case Stop self qproc env e now s of None \<Rightarrow> None
            | Some (s1, out) \<Rightarrow>
               (case CreatePolicy t of None \<Rightarrow> None
                | Some pol \<Rightarrow> Some (s1\<lparr> ls_type := t, ls_policy := pol,
                                       ls_status := resume_all (ls_status s1) \<rparr>, out))))"

end
