(* ===== verification/SchedCorrect.thy ===== *)
theory SchedCorrect
  imports LocalSched
begin

text \<open>
  Correctness of the local scheduler: the tables and the policy stay consistent under every
  event, the worker aborts only on the events that an assertion rejects, and what it sends
  is its table.
\<close>

section \<open>The tables under events\<close>

lemma wf_listed:
  "wf_status st \<Longrightarrow> proc_of st k = Some p \<Longrightarrow> h \<in> set (ps_running p) \<union> set (ps_suspended p)
    \<Longrightarrow> map_option xs_pid (xq_of st h) = Some k"
  by (drule wf_status_proc) (auto simp: wf_proc_def)

lemma wf_update_queue:
  assumes wf: "wf_status st" and same: "\<And>q. xs_handle (f q) = xs_handle q \<and> xs_pid (f q) = xs_pid q
      \<and> xs_suspended (f q) = xs_suspended q"
  shows "wf_status (upd_queue h f st)"
proof (rule wf_statusI)
  fix k q assume q: "xq_of (upd_queue h f st) k = Some q"
  then obtain r where r: "xq_of st k = Some r" "xs_handle q = xs_handle r" "xs_pid q = xs_pid r"
    "xs_suspended q = xs_suspended r"
    using same by (auto simp: upd_queue_def map_of_map_entry_upd split: if_splits)
  then show "wf_queue (upd_queue h f st) k q"
    using wf_status_queue [OF wf r(1)] by (auto simp: wf_queue_def upd_queue_def split: option.splits)
next
  fix pd p assume p: "proc_of (upd_queue h f st) pd = Some p"
  have "map_option xs_pid (xq_of (upd_queue h f st) k) = map_option xs_pid (xq_of st k)" for k
    using same by (simp add: upd_queue_def map_of_map_entry_upd option.map_comp comp_def)
  then show "wf_proc (upd_queue h f st) pd p"
    using wf_status_proc [OF wf, of pd p] p by (simp add: wf_proc_def upd_queue_def)
qed (use wf in \<open>simp_all add: wf_status_keys upd_queue_def\<close>)

text \<open>Lookups after the creation of an XQueue.\<close>

lemma CreateXQueueStatus_xqueues:
  "xq_of (CreateXQueueStatus pd c h d lv th bt rdy t st) k =
     (if k = h then Some \<lparr> xs_handle = h, xs_device = d, xs_level = lv, xs_pid = pd,
        xs_threshold = th, xs_batch_size = bt, xs_ready = rdy, xs_suspended = False,
        xs_ready_time = t \<rparr> else xq_of st k)"
  by (simp add: CreateXQueueStatus_def Let_def split: option.splits)

lemma CreateXQueueStatus_procs:
  "proc_of (CreateXQueueStatus pd c h d lv th bt rdy t st) k =
     (if k = pd
      then (case proc_of st pd of
              Some p \<Rightarrow> Some (p\<lparr> ps_running := oset_insert h (ps_running p) \<rparr>)
            | None \<Rightarrow> Some \<lparr> ps_info = \<lparr> pi_pid = pd, pi_cmdline = c \<rparr>, ps_running = [h],
                             ps_suspended = [] \<rparr>)
      else proc_of st k)"
  by (simp add: CreateXQueueStatus_def Let_def map_of_map_entry_upd oset_insert_def split: option.splits)

lemma CreateXQueueStatus_keys:
  assumes "wf_status st"
  shows "distinct (map fst (st_xqueues (CreateXQueueStatus pd c h d lv th bt rdy t st)))"
    "distinct (map fst (st_procs (CreateXQueueStatus pd c h d lv th bt rdy t st)))"
  using assms by (auto simp: CreateXQueueStatus_def Let_def wf_status_keys distinct_update
      split: option.splits)

lemma wf_CreateXQueueStatus:
  assumes wf: "wf_status st" and new: "xq_of st h = None"
  shows "wf_status (CreateXQueueStatus pd c h d lv th bt rdy t st)"
proof -
  let ?st = "CreateXQueueStatus pd c h d lv th bt rdy t st"
  have notin: "h \<notin> set (ps_running p)" "h \<notin> set (ps_suspended p)" if "proc_of st k = Some p" for k p
    using new wf_listed [OF wf that, of h] by auto
  show ?thesis
  proof (rule wf_statusI)
    fix k q assume q: "xq_of ?st k = Some q"
    show "wf_queue ?st k q"
    proof (cases "k = h")
      case True
      then show ?thesis using q notin
        by (auto simp: wf_queue_def CreateXQueueStatus_xqueues CreateXQueueStatus_procs
            split: option.splits)
    next
      case False
      then have "xq_of st k = Some q" using q by (simp add: CreateXQueueStatus_xqueues)
      then show ?thesis using wf_status_queue [OF wf, of k q] False
        by (auto simp: wf_queue_def CreateXQueueStatus_procs split: option.splits)
    qed
  next
    fix k p assume p: "proc_of ?st k = Some p"
    show "wf_proc ?st k p"
    proof (cases "proc_of st k")
      case None
      then have "k = pd" using p by (auto simp: CreateXQueueStatus_procs split: if_splits)
      then show ?thesis using p None
        by (auto simp: wf_proc_def CreateXQueueStatus_procs CreateXQueueStatus_xqueues)
    next
      case (Some p0)
      have w: "wf_proc st k p0" using wf_status_proc [OF wf Some] .
      have "p = (if k = pd then p0\<lparr> ps_running := oset_insert h (ps_running p0) \<rparr> else p0)"
        using p Some by (simp add: CreateXQueueStatus_procs split: if_splits)
      then show ?thesis using w notin [OF Some]
        by (auto simp: wf_proc_def CreateXQueueStatus_xqueues split: if_splits)
    qed
  qed (use CreateXQueueStatus_keys [OF wf] in simp_all)
qed

lemma wf_on_process_create: "wf_status st \<Longrightarrow> wf_status (on_process_create pd c st)"
proof -
  assume wf: "wf_status st"
  have P: "proc_of (on_process_create pd c st) k =
      (if k = pd then Some (case proc_of st pd of
           Some p \<Rightarrow> p\<lparr> ps_info := (ps_info p)\<lparr> pi_cmdline := c \<rparr> \<rparr>
         | None \<Rightarrow> \<lparr> ps_info = \<lparr> pi_pid = pd, pi_cmdline = c \<rparr>, ps_running = [], ps_suspended = [] \<rparr>)
       else proc_of st k)" for k
    by (simp add: on_process_create_def map_of_map_entry_upd split: option.splits)
  have X: "st_xqueues (on_process_create pd c st) = st_xqueues st"
    by (simp add: on_process_create_def split: option.splits)
  show ?thesis
  proof (rule wf_statusI)
    fix k q assume "xq_of (on_process_create pd c st) k = Some q"
    then have "xq_of st k = Some q" by (simp add: X)
    from wf_status_queue [OF wf this] show "wf_queue (on_process_create pd c st) k q"
      by (auto simp: wf_queue_def P split: option.splits)
  next
    fix k p assume p: "proc_of (on_process_create pd c st) k = Some p"
    show "wf_proc (on_process_create pd c st) k p"
      using p wf_status_proc [OF wf, of k] by (auto simp: wf_proc_def P X split: if_splits option.splits)
  qed (use wf in \<open>auto simp: on_process_create_def wf_status_keys distinct_update split: option.splits\<close>)
qed

text \<open>Destroying a process removes exactly its XQueues.\<close>

lemma on_process_destroy_lookup:
  assumes "wf_status st"
  shows "xq_of (on_process_destroy pd st) h =
      (case xq_of st h of Some q \<Rightarrow> if xs_pid q = pd then None else Some q | None \<Rightarrow> None)"
    and "proc_of (on_process_destroy pd st) k = (if k = pd then None else proc_of st k)"
proof -
  show "proc_of (on_process_destroy pd st) k = (if k = pd then None else proc_of st k)"
    by (auto simp: on_process_destroy_def Let_def split: option.splits)
  show "xq_of (on_process_destroy pd st) h =
      (case xq_of st h of Some q \<Rightarrow> if xs_pid q = pd then None else Some q | None \<Rightarrow> None)"
  proof (cases "proc_of st pd")
    case None
    then have "xs_pid q \<noteq> pd" if "xq_of st h = Some q" for q
      using wf_status_queue [OF assms that] by (auto simp: wf_queue_def)
    then show ?thesis using None by (simp add: on_process_destroy_def split: option.splits)
  next
    case (Some p)
    let ?hs = "set (ps_running p) \<union> set (ps_suspended p)"
    have "h \<in> ?hs \<longleftrightarrow> xs_pid q = pd" if q: "xq_of st h = Some q" for q
    proof
      assume "h \<in> ?hs"
      then show "xs_pid q = pd" using q wf_listed [OF assms Some] by fastforce
    next
      assume "xs_pid q = pd"
      then show "h \<in> ?hs" using wf_status_queue [OF assms q] Some by (auto simp: wf_queue_def)
    qed
    moreover have "xq_of (on_process_destroy pd st) h = (if h \<in> ?hs then None else xq_of st h)"
      using map_of_filter_key [of "\<lambda>h. h \<notin> ?hs" "st_xqueues st"]
      by (simp add: on_process_destroy_def Some Let_def restrict_map_def)
    ultimately show ?thesis by (auto split: option.splits)
  qed
qed

lemma distinct_keys_delete: "distinct (map fst xs) \<Longrightarrow> distinct (map fst (AList.delete k xs))"
  by (simp add: distinct_delete)

lemma wf_on_process_destroy: "wf_status st \<Longrightarrow> wf_status (on_process_destroy pd st)"
proof -
  assume wf: "wf_status st"
  note L = on_process_destroy_lookup [OF wf]
  show ?thesis
  proof (rule wf_statusI)
    fix k q assume q: "xq_of (on_process_destroy pd st) k = Some q"
    then have k: "xq_of st k = Some q" "xs_pid q \<noteq> pd"
      by (auto simp: L split: option.splits if_splits)
    then show "wf_queue (on_process_destroy pd st) k q"
      using wf_status_queue [OF wf k(1)] by (simp add: wf_queue_def L)
  next
    fix k p assume "proc_of (on_process_destroy pd st) k = Some p"
    then have p: "proc_of st k = Some p" "k \<noteq> pd" by (auto simp: L split: if_splits)
    then show "wf_proc (on_process_destroy pd st) k p"
      using wf_status_proc [OF wf p(1)] wf_listed [OF wf p(1)]
      by (fastforce simp: wf_proc_def L split: option.splits)
  qed (use wf in \<open>auto simp: on_process_destroy_def Let_def wf_status_keys distinct_keys_delete
         intro!: distinct_filter_keys split: option.splits\<close>)
qed

text \<open>Destroying an XQueue.\<close>

lemma on_xqueue_destroy_lookup:
  assumes "wf_status st" "on_xqueue_destroy pd h st = Some st'"
  shows "xq_of st' k = (if k = h then None else xq_of st k)"
    and "proc_of st' j = map_option (\<lambda>p. p\<lparr> ps_running := oset_erase h (ps_running p),
           ps_suspended := oset_erase h (ps_suspended p) \<rparr>) (proc_of st j)"
proof -
  have erase: "h \<notin> set xs \<Longrightarrow> oset_erase h xs = xs" for xs by (auto simp: oset_erase_def filter_id_conv)
  have notin: "h \<notin> set (ps_running p)" "h \<notin> set (ps_suspended p)"
    if "proc_of st j = Some p" "map_option xs_pid (xq_of st h) \<noteq> Some j" for p
    using that(2) wf_listed [OF assms(1) that(1), of h] by auto
  have id: "map_option (\<lambda>p. p\<lparr> ps_running := oset_erase h (ps_running p),
           ps_suspended := oset_erase h (ps_suspended p) \<rparr>) (proc_of st j) = proc_of st j"
    if "map_option xs_pid (xq_of st h) \<noteq> Some j"
    using notin that by (cases "proc_of st j") (auto simp: erase)
  show "xq_of st' k = (if k = h then None else xq_of st k)"
    using assms(2) wf_status_queue [OF assms(1), of h]
    by (auto simp: on_xqueue_destroy_def wf_queue_def split: option.splits if_splits)
  show "proc_of st' j = map_option (\<lambda>p. p\<lparr> ps_running := oset_erase h (ps_running p),
           ps_suspended := oset_erase h (ps_suspended p) \<rparr>) (proc_of st j)"
  proof (cases "map_option xs_pid (xq_of st h) = Some j")
    case True
    then show ?thesis using assms(2) wf_status_queue [OF assms(1), of h]
      by (auto simp: on_xqueue_destroy_def wf_queue_def map_of_map_entry_upd split: option.splits if_splits)
  next
    case False
    then show ?thesis using assms(2) id [OF False]
      by (auto simp: on_xqueue_destroy_def map_of_map_entry_upd split: option.splits if_splits)
  qed
qed

lemma wf_on_xqueue_destroy:
  assumes wf: "wf_status st" and d: "on_xqueue_destroy pd h st = Some st'"
  shows "wf_status st'"
proof -
  note L = on_xqueue_destroy_lookup [OF assms]
  show ?thesis
  proof (rule wf_statusI)
    fix k q assume "xq_of st' k = Some q"
    then have k: "xq_of st k = Some q" "k \<noteq> h" by (auto simp: L split: if_splits)
    then show "wf_queue st' k q"
      using wf_status_queue [OF wf k(1)] by (auto simp: wf_queue_def L split: option.splits)
  next
    fix j p assume "proc_of st' j = Some p"
    then obtain p0 where p0: "proc_of st j = Some p0" "p = p0\<lparr> ps_running := oset_erase h (ps_running p0),
           ps_suspended := oset_erase h (ps_suspended p0) \<rparr>" by (auto simp: L)
    then show "wf_proc st' j p"
      using wf_status_proc [OF wf p0(1)] by (auto simp: wf_proc_def L)
  qed (use wf d in \<open>auto simp: on_xqueue_destroy_def wf_status_keys distinct_keys_delete
         split: option.splits if_splits\<close>)
qed

section \<open>Which events are accepted\<close>

text \<open>The assertions of \<^verbatim>\<open>UpdateStatus\<close>: a hint of a known class, the destruction of an
  XQueue by its own process, a query of the scheduler's own process with an address.\<close>

fun accepts :: "pid \<Rightarrow> event \<Rightarrow> status \<Rightarrow> bool" where
  "accepts self (HintEvent pd hb) st = (case hint_copy hb of Inr _ \<Rightarrow> True | Inl _ \<Rightarrow> False)"
| "accepts self (XQueueDestroyEvent pd h) st =
     (case xq_of st h of Some q \<Rightarrow> xs_pid q = pd | None \<Rightarrow> True)"
| "accepts self (XQueueQueryEvent pd h qp) st = (qp \<noteq> 0 \<and> pd = self)"
| "accepts self (XQueueQueryAllEvent pd qp) st = (qp \<noteq> 0 \<and> pd = self)"
| "accepts self _ st = True"

lemma UpdateStatus_iff_accepts:
  "(\<exists>s' out. UpdateStatus self qproc e ev s = Some (s', out)) \<longleftrightarrow> accepts self ev (ls_status s)"
  by (cases ev) (auto simp: on_xqueue_destroy_def QueryData_def split: sum.splits option.splits)

section \<open>The invariant of the scheduler\<close>

definition ls_inv :: "lsched \<Rightarrow> bool" where
  "ls_inv s \<longleftrightarrow> wf_status (ls_status s) \<and> policy_inv (ls_policy s) (ls_status s)"

lemma suspends_lessI:
  assumes "\<And>h q'. xq_of st' h = Some q' \<Longrightarrow> xs_suspended q'
     \<Longrightarrow> \<exists>q. xq_of st h = Some q \<and> xs_suspended q \<and> xs_pid q = xs_pid q'"
  shows "suspends_less st st'"
  using assms by (auto simp: suspends_less_def)

lemma suspends_less_create: "suspends_less st (CreateXQueueStatus pd c h d lv th bt rdy t st)"
  by (rule suspends_lessI) (auto simp: CreateXQueueStatus_xqueues split: if_splits)

lemma suspends_less_update:
  assumes "\<And>q. xs_pid (f q) = xs_pid q \<and> xs_suspended (f q) = xs_suspended q"
  shows "suspends_less st (upd_queue h f st)"
  by (rule suspends_lessI)
     (use assms in \<open>auto simp: upd_queue_def map_of_map_entry_upd split: if_splits\<close>)

lemma suspends_less_same: "st_xqueues st' = st_xqueues st \<Longrightarrow> suspends_less st st'"
  by (rule suspends_lessI) simp

text \<open>What every event does to the tables: they stay consistent and no XQueue gets
  suspended.\<close>

lemma event_tables:
  assumes "wf_status st"
  shows "wf_status (on_config now pd h d lv th bt st) \<and> suspends_less st (on_config now pd h d lv th bt st)"
    "wf_status (on_xqueue_ready pd h t st) \<and> suspends_less st (on_xqueue_ready pd h t st)"
    "wf_status (on_xqueue_idle now pd h st) \<and> suspends_less st (on_xqueue_idle now pd h st)"
    "wf_status (on_process_create pd c st) \<and> suspends_less st (on_process_create pd c st)"
    "wf_status (on_process_destroy pd st) \<and> suspends_less st (on_process_destroy pd st)"
    "on_xqueue_destroy pd h st = Some st' \<Longrightarrow> wf_status st' \<and> suspends_less st st'"
proof -
  have f: "wf_status (upd_queue h f st) \<and> suspends_less st (upd_queue h f st)"
    if "\<And>q. xs_handle (f q) = xs_handle q \<and> xs_pid (f q) = xs_pid q \<and> xs_suspended (f q) = xs_suspended q"
    for f using that assms by (simp add: wf_update_queue suspends_less_update)
  have c: "wf_status (CreateXQueueStatus pd c h d lv th bt rdy t st)
      \<and> suspends_less st (CreateXQueueStatus pd c h d lv th bt rdy t st)" if "xq_of st h = None"
    for c d lv th bt rdy t using wf_CreateXQueueStatus [OF assms that] suspends_less_create by blast
  show "wf_status (on_config now pd h d lv th bt st) \<and> suspends_less st (on_config now pd h d lv th bt st)"
    using f [of "set_config d lv th bt"] c
    by (cases "xq_of st h") (simp_all add: on_config_def set_config_def)
  show "wf_status (on_xqueue_ready pd h t st) \<and> suspends_less st (on_xqueue_ready pd h t st)"
    using f [of "\<lambda>q. q\<lparr> xs_ready := True, xs_ready_time := t \<rparr>"] c
    by (cases "xq_of st h") (simp_all add: on_xqueue_ready_def)
  show "wf_status (on_xqueue_idle now pd h st) \<and> suspends_less st (on_xqueue_idle now pd h st)"
    using f [of "xs_ready_update (\<lambda>_. False)"] c
    by (cases "xq_of st h") (simp_all add: on_xqueue_idle_def)
  show "wf_status (on_process_create pd c st) \<and> suspends_less st (on_process_create pd c st)"
    using wf_on_process_create [OF assms]
    by (auto simp: on_process_create_def intro!: suspends_less_same split: option.splits)
  show "wf_status (on_process_destroy pd st) \<and> suspends_less st (on_process_destroy pd st)"
    using wf_on_process_destroy [OF assms]
    by (auto intro!: suspends_lessI simp: on_process_destroy_lookup [OF assms] split: option.splits if_splits)
  show "on_xqueue_destroy pd h st = Some st' \<Longrightarrow> wf_status st' \<and> suspends_less st st'"
    using wf_on_xqueue_destroy [OF assms]
    by (auto intro!: suspends_lessI simp: on_xqueue_destroy_lookup [OF assms] split: if_splits)
qed

lemma UpdateStatus_inv:
  assumes "env_ok e" "ls_inv s" "UpdateStatus self qproc e ev s = Some (s', out)"
  shows "ls_inv s'"
proof -
  have wf: "wf_status (ls_status s)" and inv: "policy_inv (ls_policy s) (ls_status s)"
    using assms(2) by (simp_all add: ls_inv_def)
  have tab: "ls_inv (s\<lparr> ls_status := st \<rparr>)" if "wf_status st \<and> suspends_less (ls_status s) st" for st
    using that any_pol.pinv_less [OF inv] by (simp add: ls_inv_def)
  note T = event_tables [OF wf]
  show ?thesis
  proof (cases ev)
    case (HintEvent pd hb)
    then obtain ht where "hint_copy hb = Inr ht" "s' = s\<lparr> ls_policy := policy_RecvHint e (ls_policy s) ht \<rparr>"
      using assms(3) by (auto split: sum.splits)
    then show ?thesis using wf any_pol.hint_inv [OF assms(1) inv hint_copy_wf] by (simp add: ls_inv_def)
  qed (use assms(2,3) tab T in \<open>auto split: option.splits\<close>)
qed

lemma Reschedule_total:
  assumes "env_ok e" "ls_inv s"
  obtains s' where "Reschedule e s = Some (s', ExecuteOperations (ls_status s'))" "ls_inv s'"
proof -
  have i: "wf_status (ls_status s)" "policy_inv (ls_policy s) (ls_status s)"
    using assms(2) by (simp_all add: ls_inv_def)
  obtain pol st ts where r: "policy_run policy_Sched e (ls_policy s) (ls_status s, ls_timers s) = Some (pol, st, ts)"
    "policy_inv pol st" "wf_status st"
    by (rule any_pol.run_total [OF assms(1) i])
  then show thesis using that by (simp add: Reschedule_def ls_inv_def)
qed

lemma Reschedule_inv:
  assumes "env_ok e" "ls_inv s" "Reschedule e s = Some (s', out)"
  shows "ls_inv s'" "out = ExecuteOperations (ls_status s')"
  using Reschedule_total [OF assms(1,2)] assms(3) by auto

lemma process_events_inv:
  assumes "\<And>n. env_ok (env n)" "ls_inv s" "process_events self qproc env evs s = Some (s', out, term)"
  shows "ls_inv s'"
  using assms
proof (induction evs arbitrary: env s s' out "term")
  case (Cons ev evs)
  show ?case
  proof (cases "is_terminate_event ev")
    case True
    then show ?thesis using Cons.IH [OF Cons.prems(1,2)] Cons.prems(3) by auto
  next
    case False
    then obtain s1 out1 where u: "UpdateStatus self qproc (env 0) ev s = Some (s1, out1)"
      using Cons.prems(3) by (auto split: option.splits)
    then obtain s2 out2 where r: "(if is_ready_event ev then Reschedule (env 1) s1 else Some (s1, [])) = Some (s2, out2)"
      using Cons.prems(3) False by (auto split: option.splits)
    then obtain out3 where p: "process_events self qproc (\<lambda>n. env (n + 2)) evs s2 = Some (s', out3, term)"
      using Cons.prems(3) False u by auto
    have i1: "ls_inv s1" using UpdateStatus_inv [OF Cons.prems(1,2) u] .
    have i2: "ls_inv s2"
      using r i1 Reschedule_inv(1) [OF Cons.prems(1) i1] by (auto split: if_splits)
    show ?thesis by (rule Cons.IH [OF _ i2 p]) (rule Cons.prems(1))
  qed
qed simp

lemma Worker_inv:
  assumes "\<And>n. env_ok (env n)" "env_ok e" "ls_inv s" "Worker self qproc env e now s = Some (s', out, term)"
  shows "ls_inv s'" "\<exists>out1. out = out1 @ ExecuteOperations (ls_status s')" "sorted (ls_timers s')"
proof -
  let ?s0 = "drop_expired now s"
  have i0: "ls_inv (?s0\<lparr> ls_events := [] \<rparr>)" using assms(3) by (simp add: ls_inv_def drop_expired_def)
  obtain s1 out1 s2 out2 where p: "process_events self qproc env (ls_events ?s0) (?s0\<lparr> ls_events := [] \<rparr>) = Some (s1, out1, term)"
    and r: "Reschedule e s1 = Some (s2, out2)" and s': "s' = s2\<lparr> ls_timers := sort (ls_timers s2) \<rparr>"
    and o: "out = out1 @ out2"
    using assms(4) by (auto simp: Worker_def Let_def split: option.splits)
  note i1 = process_events_inv [OF assms(1) i0 p]
  note i2 = Reschedule_inv [OF assms(2) i1 r]
  show "ls_inv s'" using i2(1) by (simp add: s' ls_inv_def)
  show "\<exists>out1. out = out1 @ ExecuteOperations (ls_status s')" using i2(2) by (auto simp: s' o)
  show "sorted (ls_timers s')" by (simp add: s')
qed

lemma UpdateStatus_events: "UpdateStatus self qproc e ev s = Some (s', out) \<Longrightarrow> ls_events s' = ls_events s"
  by (cases ev) (auto split: option.splits sum.splits)

lemma Reschedule_events: "Reschedule e s = Some (s', out) \<Longrightarrow> ls_events s' = ls_events s"
  by (auto simp: Reschedule_def split: option.splits)

lemma process_events_events:
  "process_events self qproc env evs s = Some (s', out, b) \<Longrightarrow> ls_events s' = ls_events s"
proof (induction evs arbitrary: env s s' out b)
  case (Cons ev evs)
  then show ?case
    by (auto simp: UpdateStatus_events Reschedule_events split: if_splits option.splits
        dest!: UpdateStatus_events Reschedule_events Cons.IH)
qed simp

lemma Worker_events: "Worker self qproc env e now s = Some (s', out, b) \<Longrightarrow> ls_events s' = []"
  using process_events_events Reschedule_events
  by (fastforce simp: Worker_def Let_def split: option.splits)

section \<open>Resuming all XQueues\<close>

lemma resume_all_aux:
  "xq_of (fold (\<lambda>(h, _). sched_resume h) qs st) k =
     (if k \<in> fst ` set qs then map_option (xs_suspended_update (\<lambda>_. False)) (xq_of st k) else xq_of st k)"
proof (induction qs arbitrary: st)
  case (Cons x qs)
  obtain h q where x: "x = (h, q)" by (cases x)
  show ?case
    by (auto simp: x Cons.IH sched_resume_xqueues option.map_comp comp_def)
qed simp

lemma resume_all_lookup:
  "xq_of (resume_all st) k = map_option (xs_suspended_update (\<lambda>_. False)) (xq_of st k)"
proof (cases "xq_of st k")
  case None
  then show ?thesis by (simp add: resume_all_def resume_all_aux)
next
  case (Some q)
  then have "k \<in> fst ` set (st_xqueues st)" by (rule xq_of_key)
  then show ?thesis by (simp add: resume_all_def resume_all_aux)
qed

lemma wf_resume_all: "wf_status st \<Longrightarrow> wf_status (resume_all st)"
  unfolding resume_all_def by (rule fold_invariant_list) (auto intro: wf_sched_resume)

lemma SetPolicy_cases:
  assumes "SetPolicy self qproc env e now t s = Some (s', out)" "t \<noteq> ls_type s"
  obtains s1 pol b where
    "Worker self qproc env e now (RecvEvent (SchedulerTerminateEvent self) s) = Some (s1, out, b)"
    "CreatePolicy t = Some pol"
    "s' = s1\<lparr> ls_timers := [], ls_type := t, ls_policy := pol, ls_status := resume_all (ls_status s1) \<rparr>"
  using assms by (auto simp: SetPolicy_def Stop_def split: option.splits)

lemma SetPolicy_inv:
  assumes "\<And>n. env_ok (env n)" "env_ok e" "ls_inv s" "SetPolicy self qproc env e now t s = Some (s', out)"
  shows "ls_inv s'"
proof (cases "t = ls_type s")
  case True
  then show ?thesis using assms(3,4) by (simp add: SetPolicy_def)
next
  case False
  obtain s1 pol b where w: "Worker self qproc env e now (RecvEvent (SchedulerTerminateEvent self) s) = Some (s1, out, b)"
    "CreatePolicy t = Some pol"
    "s' = s1\<lparr> ls_timers := [], ls_type := t, ls_policy := pol, ls_status := resume_all (ls_status s1) \<rparr>"
    using SetPolicy_cases [OF assms(4) False] .
  have "ls_inv (RecvEvent (SchedulerTerminateEvent self) s)"
    using assms(3) by (simp add: ls_inv_def RecvEvent_def)
  from Worker_inv(1) [OF assms(1,2) this w(1)] show ?thesis
    using CreatePolicy_inv [OF w(2)] by (simp add: w(3) ls_inv_def wf_resume_all)
qed

section \<open>Interleavings\<close>

text \<open>Events arrive at any time; the worker makes a pass when its wait is over; the policy
  may be replaced. \<open>self\<close> is the process of the scheduler.\<close>

inductive lstep :: "pid \<Rightarrow> lsched \<Rightarrow> sched_output list \<Rightarrow> lsched \<Rightarrow> bool" for self :: pid where
  recv: "lstep self s [] (RecvEvent ev s)"
| pass: "wait_ends now s \<Longrightarrow> (\<And>n. env_ok (env n)) \<Longrightarrow> env_ok e
    \<Longrightarrow> Worker self qproc env e now s = Some (s', out, b) \<Longrightarrow> lstep self s out s'"
| policy: "(\<And>n. env_ok (env n)) \<Longrightarrow> env_ok e
    \<Longrightarrow> SetPolicy self qproc env e now t s = Some (s', out) \<Longrightarrow> lstep self s out s'"

inductive reachable :: "pid \<Rightarrow> lsched \<Rightarrow> bool" for self :: pid where
  start: "LocalScheduler t = Some s \<Longrightarrow> reachable self s"
| step: "reachable self s \<Longrightarrow> lstep self s out s' \<Longrightarrow> reachable self s'"

inductive_cases lstepE: "lstep self s out s'"

lemma lstep_inv: "lstep self s out s' \<Longrightarrow> ls_inv s \<Longrightarrow> ls_inv s'"
proof (erule lstepE)
  fix ev assume "ls_inv s" "s' = RecvEvent ev s"
  then show ?thesis by (simp add: ls_inv_def RecvEvent_def)
qed (auto intro: Worker_inv(1) SetPolicy_inv)

lemma LocalScheduler_inv: "LocalScheduler t = Some s \<Longrightarrow> ls_inv s"
  using CreatePolicy_inv by (auto simp: ls_inv_def)

lemma reachable_inv: "reachable self s \<Longrightarrow> ls_inv s"
  by (induction rule: reachable.induct) (auto intro: LocalScheduler_inv lstep_inv simp del: LocalScheduler.simps)

section \<open>Which passes complete\<close>

text \<open>Who owns the XQueues that the table knows, as the events of a batch say: an XQueue that is not known
  belongs to the process of the event that names it first, and is forgotten when it or its
  process is destroyed.\<close>

type_synonym owners = "xhandle \<Rightarrow> pid option"

definition table_owners :: "status \<Rightarrow> owners" where
  "table_owners st h = map_option xs_pid (xq_of st h)"

definition owner_seen :: "pid \<Rightarrow> xhandle \<Rightarrow> owners \<Rightarrow> owners" where
  "owner_seen pd h o1 = (if o1 h = None then o1(h \<mapsto> pd) else o1)"

fun owners_after :: "event \<Rightarrow> owners \<Rightarrow> owners" where
  "owners_after (ProcessDestroyEvent pd) o1 = (\<lambda>h. if o1 h = Some pd then None else o1 h)"
| "owners_after (XQueueCreateEvent pd h d lv th bt) o1 = owner_seen pd h o1"
| "owners_after (XQueueConfigUpdateEvent pd h d lv th bt) o1 = owner_seen pd h o1"
| "owners_after (XQueueReadyEvent pd h us) o1 = owner_seen pd h o1"
| "owners_after (XQueueIdleEvent pd h) o1 = owner_seen pd h o1"
| "owners_after (XQueueDestroyEvent pd h) o1 = o1(h := None)"
| "owners_after _ o1 = o1"

text \<open>The events of a batch that the assertions let pass.\<close>

fun event_ok :: "pid \<Rightarrow> event \<Rightarrow> owners \<Rightarrow> bool" where
  "event_ok self (HintEvent pd hb) o1 = (case hint_copy hb of Inr _ \<Rightarrow> True | Inl _ \<Rightarrow> False)"
| "event_ok self (XQueueDestroyEvent pd h) o1 = (case o1 h of Some pd' \<Rightarrow> pd' = pd | None \<Rightarrow> True)"
| "event_ok self (XQueueQueryEvent pd h qp) o1 = (qp \<noteq> 0 \<and> pd = self)"
| "event_ok self (XQueueQueryAllEvent pd qp) o1 = (qp \<noteq> 0 \<and> pd = self)"
| "event_ok self _ o1 = True"

fun batch_ok :: "pid \<Rightarrow> event list \<Rightarrow> owners \<Rightarrow> bool" where
  "batch_ok self [] o1 = True"
| "batch_ok self (ev # evs) o1 = (event_ok self ev o1 \<and> batch_ok self evs (owners_after ev o1))"

lemma accepts_event_ok: "accepts self ev st = event_ok self ev (table_owners st)"
  by (cases ev) (simp_all add: table_owners_def split: option.split)

lemma table_owners_seen:
  "table_owners (CreateXQueueStatus pd c h d lv th bt rdy t st) = (table_owners st)(h \<mapsto> pd)"
  "(\<And>q. xs_pid (f q) = xs_pid q) \<Longrightarrow> table_owners (upd_queue h f st) = table_owners st"
  by (auto simp: table_owners_def fun_eq_iff CreateXQueueStatus_xqueues upd_queue_def map_of_map_entry_upd
      option.map_comp comp_def)

lemma table_owners_events:
  "table_owners (on_config now pd h d lv th bt st) = owner_seen pd h (table_owners st)"
  "table_owners (on_xqueue_ready pd h t st) = owner_seen pd h (table_owners st)"
  "table_owners (on_xqueue_idle now pd h st) = owner_seen pd h (table_owners st)"
  "table_owners (on_process_create pd c st) = table_owners st"
  using table_owners_def [of st h]
  by (auto simp: on_config_def on_xqueue_ready_def on_xqueue_idle_def on_process_create_def owner_seen_def
      table_owners_seen set_config_def split: option.splits) (auto simp: table_owners_def)

lemma table_owners_destroy:
  assumes "wf_status st"
  shows "table_owners (on_process_destroy pd st) = (\<lambda>h. if table_owners st h = Some pd then None else table_owners st h)"
    "on_xqueue_destroy pd h st = Some st' \<Longrightarrow> table_owners st' = (table_owners st)(h := None)"
  by (auto simp: table_owners_def fun_eq_iff on_process_destroy_lookup [OF assms]
      on_xqueue_destroy_lookup [OF assms] split: option.splits)

lemma UpdateStatus_owners:
  assumes "wf_status (ls_status s)" "UpdateStatus self qproc e ev s = Some (s', out)"
  shows "table_owners (ls_status s') = owners_after ev (table_owners (ls_status s))"
  using assms(2) table_owners_events table_owners_destroy [OF assms(1)]
  by (cases ev) (auto split: option.splits sum.splits)

lemma Reschedule_owners:
  assumes "Reschedule e s = Some (s', out)"
  shows "table_owners (ls_status s') = table_owners (ls_status s)"
proof -
  obtain pol acts where "ls_status s' = fst (run_actions acts (ls_status s, ls_timers s))"
    using assms by (auto simp: Reschedule_def split: option.splits elim!: policy_runE)
  then show ?thesis
    by (simp add: table_owners_def fun_eq_iff run_actions_xqueue option.map_comp comp_def)
qed

lemma process_events_owners:
  assumes "\<And>n. env_ok (env n)" "ls_inv s"
  shows "if batch_ok self evs (table_owners (ls_status s))
    then \<exists>s' out. process_events self qproc env evs s = Some (s', out, list_ex is_terminate_event evs)
      \<and> table_owners (ls_status s') = fold owners_after evs (table_owners (ls_status s))
    else process_events self qproc env evs s = None"
  using assms
proof (induction evs arbitrary: env s)
  case (Cons ev evs)
  note IH = Cons.IH [of env s, OF Cons.prems]
  show ?case
  proof (cases "is_terminate_event ev")
    case True
    then have "owners_after ev o1 = o1" "event_ok self ev o1" for o1
      by (cases ev; simp add: is_terminate_event_def)+
    then show ?thesis using True IH by (auto split: if_splits)
  next
    case False
    show ?thesis
    proof (cases "event_ok self ev (table_owners (ls_status s))")
      case no: False
      then have "UpdateStatus self qproc (env 0) ev s = None"
        using UpdateStatus_iff_accepts [of self qproc "env 0" ev s]
        by (cases "UpdateStatus self qproc (env 0) ev s") (auto simp: accepts_event_ok)
      then show ?thesis using no False by simp
    next
      case True
      then obtain s1 out1 where u: "UpdateStatus self qproc (env 0) ev s = Some (s1, out1)"
        using UpdateStatus_iff_accepts [of self qproc "env 0" ev s] by (auto simp: accepts_event_ok)
      have o1: "table_owners (ls_status s1) = owners_after ev (table_owners (ls_status s))"
        using UpdateStatus_owners [OF _ u] Cons.prems(2) by (simp add: ls_inv_def)
      have i1: "ls_inv s1" using UpdateStatus_inv [OF Cons.prems u] .
      obtain s2 out2 where r: "(if is_ready_event ev then Reschedule (env 1) s1 else Some (s1, [])) = Some (s2, out2)"
        and i2: "ls_inv s2" and o2: "table_owners (ls_status s2) = table_owners (ls_status s1)"
      proof (cases "is_ready_event ev")
        case True
        obtain s3 where "Reschedule (env 1) s1 = Some (s3, ExecuteOperations (ls_status s3))" "ls_inv s3"
          by (rule Reschedule_total [OF Cons.prems(1) i1])
        then show ?thesis using that True Reschedule_owners by simp
      qed (use that i1 in simp)
      show ?thesis
        using Cons.IH [of "\<lambda>n. env (n + 2)" s2, OF Cons.prems(1) i2] True u r False o1 o2 by (auto split: if_splits)
    qed
  qed
qed simp

section \<open>From the table to the client\<close>

text \<open>The suspension state a client's XQueues have after the calls of the executor.\<close>

fun apply_call :: "xq_call \<Rightarrow> (xhandle \<Rightarrow> bool) \<Rightarrow> xhandle \<Rightarrow> bool" where
  "apply_call (ResumeXQueue h _) c = c(h := False)"
| "apply_call (SuspendXQueue h _) c = c(h := True)"
| "apply_call _ c = c"

lemma apply_resumes:
  "fold apply_call (map (\<lambda>h. ResumeXQueue h f) hs) c h = (if h \<in> set hs then False else c h)"
  by (induction hs arbitrary: c) auto

lemma apply_suspends:
  "fold apply_call (map (\<lambda>h. SuspendXQueue h f) hs) c h = (if h \<in> set hs then True else c h)"
  by (induction hs arbitrary: c) auto

section \<open>Work conservation\<close>

text \<open>The policies that never leave all ready XQueues suspended.\<close>

fun work_conserving :: "policy \<Rightarrow> bool" where
  "work_conserving (PolicyUP _) = False"
| "work_conserving (PolicyKEDF _) = False"
| "work_conserving (PolicyLAX _) = False"
| "work_conserving (PolicySLO _) = False"
| "work_conserving _ = True"

lemmas policy_conserves_laws =
  hpf_pol.conserves hhpf_pol.conserves pup_pol.conserves awf_pol.conserves chpf_pol.conserves
  cfs_pol.conserves mlfq_pol.conserves iah_pol.conserves

lemma policy_conserves:
  assumes "work_conserving pol" "env_ok e" "wf_status st" "policy_inv pol st"
    "policy_Sched e pol st = Some (pol', acts)" "some_ready st"
  shows "\<exists>h q. xq_of st h = Some q \<and> xs_ready q \<and> \<not> left_suspended st acts h"
  using assms by (cases pol) (auto intro: policy_conserves_laws)

lemma policy_Sched_kind: "policy_Sched e pol st = Some (pol', acts) \<Longrightarrow> work_conserving pol' = work_conserving pol"
  by (cases pol) auto

lemma Reschedule_conserves:
  assumes "env_ok e" "ls_inv s" "Reschedule e s = Some (s', out)" "work_conserving (ls_policy s)"
    "xq_of (ls_status s') h0 = Some q0" "xs_ready q0"
  shows "\<exists>h q. xq_of (ls_status s') h = Some q \<and> xs_ready q \<and> \<not> xs_suspended q"
proof -
  obtain pol st ts where r: "policy_run policy_Sched e (ls_policy s) (ls_status s, ls_timers s) = Some (pol, st, ts)"
    "s' = s\<lparr> ls_policy := pol, ls_status := st, ls_timers := ts \<rparr>"
    using assms(3) by (auto simp: Reschedule_def split: option.splits)
  obtain acts where a: "policy_Sched e (ls_policy s) (ls_status s) = Some (pol, acts)"
    "st = fst (run_actions acts (ls_status s, ls_timers s))"
    using policy_runE [OF r(1)] by metis
  have "xq_of st h0 = Some q0" using assms(5) r(2) by simp
  then obtain q where "xq_of (ls_status s) h0 = Some q" "xs_ready q"
    unfolding a(2) using assms(6) by (elim run_actions_cases) simp
  then have "some_ready (ls_status s)" by (rule some_readyI)
  with policy_conserves [OF assms(4,1) _ _ a(1)] assms(2) obtain h q where
    h: "xq_of (ls_status s) h = Some q" "xs_ready q" "\<not> left_suspended (ls_status s) acts h"
    by (auto simp: ls_inv_def)
  then have "xq_of st h = Some (q\<lparr> xs_suspended := False \<rparr>)"
    unfolding a(2) by (simp add: run_actions_left_suspended)
  with h(2) show ?thesis using r(2) by (intro exI [of _ h] exI [of _ "q\<lparr> xs_suspended := False \<rparr>"]) simp
qed

lemma policy_RecvHint_kind: "work_conserving (policy_RecvHint e pol ht) = work_conserving pol"
  by (cases pol) auto

lemma UpdateStatus_kind:
  "UpdateStatus self qproc e ev s = Some (s', out) \<Longrightarrow> work_conserving (ls_policy s') = work_conserving (ls_policy s)"
  by (cases ev) (auto simp: policy_RecvHint_kind split: option.splits sum.splits)

lemma Reschedule_kind:
  "Reschedule e s = Some (s', out) \<Longrightarrow> work_conserving (ls_policy s') = work_conserving (ls_policy s)"
  using policy_Sched_kind by (auto simp: Reschedule_def policy_run_def split: option.splits)

lemma process_events_kind:
  "process_events self qproc env evs s = Some (s', out, b)
    \<Longrightarrow> work_conserving (ls_policy s') = work_conserving (ls_policy s)"
proof (induction evs arbitrary: env s s' out b)
  case (Cons ev evs)
  show ?case
  proof (cases "is_terminate_event ev")
    case True
    then show ?thesis using Cons by auto
  next
    case False
    then obtain s1 out1 s2 out2 out3 where u: "UpdateStatus self qproc (env 0) ev s = Some (s1, out1)"
      and r: "(if is_ready_event ev then Reschedule (env 1) s1 else Some (s1, [])) = Some (s2, out2)"
      and p: "process_events self qproc (\<lambda>n. env (n + 2)) evs s2 = Some (s', out3, b)"
      using Cons.prems by (auto split: option.splits)
    have "work_conserving (ls_policy s2) = work_conserving (ls_policy s1)"
      using r Reschedule_kind by (auto split: if_splits)
    then show ?thesis using UpdateStatus_kind [OF u] Cons.IH [OF p] by simp
  qed
qed simp

section \<open>Properties\<close>

text \<open>C1: Whatever events arrive, in whatever order, and whatever policies are set, the
  tables of the scheduler stay consistent: every XQueue is listed by its process exactly
  once, on the side its suspension flag says, and the policy's own invariant holds.\<close>

theorem scheduler_stays_consistent:
  assumes "reachable self s"
  shows "wf_status (ls_status s) \<and> policy_inv (ls_policy s) (ls_status s)"
  using reachable_inv [OF assms] by (simp add: ls_inv_def)

theorem scheduler_stays_consistent_witness:
  "\<exists>s. reachable 1 s \<and> ls_events s = [XQueueReadyEvent 10 7 5] \<and> wf_status (ls_status s)
     \<and> policy_inv (ls_policy s) (ls_status s)"
proof -
  obtain s0 where s0: "LocalScheduler kPolicySLOAdaptive = Some s0" "ls_events s0 = []" by simp
  let ?s = "RecvEvent (XQueueReadyEvent 10 7 5) s0"
  have r: "reachable 1 ?s"
    by (rule reachable.step [OF reachable.start [OF s0(1)] lstep.recv])
  show ?thesis
    using scheduler_stays_consistent [OF r] r s0(2) by (intro exI [of _ ?s]) (simp add: RecvEvent_def)
qed

text \<open>C4: An event is refused (the process aborts) exactly when its assertion fails: a hint of
  an unknown class, the destruction of an XQueue by a process that does not own it, a query
  without address or of another process.\<close>

theorem event_aborts_iff_rejected:
  "UpdateStatus self qproc e ev s = None \<longleftrightarrow> \<not> accepts self ev (ls_status s)"
  using UpdateStatus_iff_accepts [of self qproc e ev s] by (cases "UpdateStatus self qproc e ev s") auto

text \<open>C2: A pass of the worker aborts exactly if an assertion rejects one of the events that are queued:
  a hint of an unknown class, the destruction of an XQueue by a process that does not own it
  when its turn comes, or a query without address or of another process. Otherwise, whatever
  policy is installed, the pass ends by sending the table that results, which knows the
  XQueues that the events leave, each with its process; it leaves the timers sorted, and tells
  whether one of the events asks the worker to end.\<close>

theorem worker_pass_aborts_iff_rejected:
  assumes "\<forall>n. env_ok (env n)" "env_ok e" "wf_status (ls_status s)"
    "policy_inv (ls_policy s) (ls_status s)"
  shows "if batch_ok self (ls_events s) (table_owners (ls_status s))
    then \<exists>s' out1. Worker self qproc env e now s
        = Some (s', out1 @ ExecuteOperations (ls_status s'), list_ex is_terminate_event (ls_events s))
      \<and> table_owners (ls_status s') = fold owners_after (ls_events s) (table_owners (ls_status s))
      \<and> wf_status (ls_status s') \<and> sorted (ls_timers s')
    else Worker self qproc env e now s = None"
proof -
  let ?s0 = "(drop_expired now s)\<lparr> ls_events := [] \<rparr>"
  have same: "ls_events (drop_expired now s) = ls_events s" "ls_status (drop_expired now s) = ls_status s"
    by (simp_all add: drop_expired_def)
  have i: "ls_inv s" using assms(3,4) by (simp add: ls_inv_def)
  then have i0: "ls_inv ?s0" by (simp add: ls_inv_def drop_expired_def)
  note P = process_events_owners [of env ?s0 self "ls_events s" qproc, OF _ i0]
  show ?thesis
  proof (cases "batch_ok self (ls_events s) (table_owners (ls_status s))")
    case True
    then obtain s1 out where p: "process_events self qproc env (ls_events s) ?s0
        = Some (s1, out, list_ex is_terminate_event (ls_events s))"
      "table_owners (ls_status s1) = fold owners_after (ls_events s) (table_owners (ls_status s))"
      using P assms(1) same by auto
    obtain s2 where r: "Reschedule e s1 = Some (s2, ExecuteOperations (ls_status s2))" "ls_inv s2"
      by (rule Reschedule_total [OF assms(2) process_events_inv [OF _ i0 p(1)]]) (use assms(1) in simp)
    have "Worker self qproc env e now s = Some (s2\<lparr> ls_timers := sort (ls_timers s2) \<rparr>,
        out @ ExecuteOperations (ls_status s2), list_ex is_terminate_event (ls_events s))"
      using p(1) r(1) same by (simp add: Worker_def Let_def)
    then show ?thesis using True r p(2) Reschedule_owners [OF r(1)] by (auto simp: ls_inv_def)
  next
    case False
    then show ?thesis using P assms(1) same by (simp add: Worker_def Let_def)
  qed
qed

definition ex_sched :: "event list \<Rightarrow> lsched" where
  "ex_sched evs = \<lparr> ls_type = kPolicyHighestPriorityFirst,
     ls_policy = PolicyHPF \<lparr> hpf_priorities = [1 \<mapsto> 10] \<rparr>, ls_status = ex_status True True,
     ls_timers = [], ls_events = evs \<rparr>"

lemma ex_sched_inv: "wf_status (ls_status (ex_sched evs))"
  "policy_inv (ls_policy (ex_sched evs)) (ls_status (ex_sched evs))"
  by (simp_all add: ex_sched_def hpf_inv_def)

text \<open>The same destruction of an XQueue, by its process and by another.\<close>

theorem worker_pass_aborts_iff_rejected_witness:
  "(\<exists>s' out b. Worker 1 (\<lambda>_. False) (\<lambda>_. ex_env) ex_env 0
      (ex_sched [XQueueReadyEvent 30 5 17, XQueueDestroyEvent 30 5]) = Some (s', out, b)
     \<and> wf_status (ls_status s') \<and> xq_of (ls_status s') 5 = None \<and> \<not> b)
   \<and> Worker 1 (\<lambda>_. False) (\<lambda>_. ex_env) ex_env 0
      (ex_sched [XQueueReadyEvent 30 5 17, XQueueDestroyEvent 10 5]) = None"
proof -
  let ?s = "\<lambda>pd. ex_sched [XQueueReadyEvent 30 5 17, XQueueDestroyEvent pd 5]"
  have ev: "ls_events (?s pd) = [XQueueReadyEvent 30 5 17, XQueueDestroyEvent pd 5]" for pd
    by (simp add: ex_sched_def)
  have n: "table_owners (ls_status (?s pd)) 5 = None" for pd by (simp add: table_owners_def ex_sched_def ex_defs)
  have b: "batch_ok 1 (ls_events (?s pd)) (table_owners (ls_status (?s pd))) \<longleftrightarrow> pd = 30" for pd
    using n [of pd] by (auto simp: ev owner_seen_def)
  note A = worker_pass_aborts_iff_rejected [where env = "\<lambda>_. ex_env" and self = 1 and qproc = "\<lambda>_. False" and now = 0,
      OF _ env_ok_ex ex_sched_inv]
  have "\<exists>s' out b. Worker 1 (\<lambda>_. False) (\<lambda>_. ex_env) ex_env 0 (?s 30) = Some (s', out, b)
     \<and> wf_status (ls_status s') \<and> table_owners (ls_status s') 5 = None \<and> \<not> b"
    using A [of "[XQueueReadyEvent 30 5 17, XQueueDestroyEvent 30 5]"] env_ok_ex
    by (auto simp: b) (auto simp: ev is_terminate_event_def)
  moreover have "Worker 1 (\<lambda>_. False) (\<lambda>_. ex_env) ex_env 0 (?s 10) = None"
    using A [of "[XQueueReadyEvent 30 5 17, XQueueDestroyEvent 10 5]"] env_ok_ex by (simp add: b)
  ultimately show ?thesis by (auto simp: table_owners_def)
qed

text \<open>C3: What the table says of an XQueue is what happens to it: the operation sent for its
  process, laid out in bytes, read back by the client and executed, leaves the XQueue
  suspended or running as in the table.\<close>

theorem decision_reaches_client:
  assumes "wf_status st" "proc_of st pd = Some ps" "xq_of st h = Some q" "xs_pid q = pd"
    and "in_signed 4 pd" "length (ps_running ps) + length (ps_suspended ps) < 2 ^ 60" "known h"
  shows "Operation (SchedOperation_of ps) \<in> set (ExecuteOperations st)
     \<and> (\<exists>opn calls. operation_copy (operation_data pad (SchedOperation_of ps) @ junk) = Inr opn
          \<and> Execute True env known opn = Some calls
          \<and> fold apply_call calls c h = xs_suspended q)"
proof -
  have m: "h \<in> set (ps_running p) \<longleftrightarrow> \<not> xs_suspended q" "h \<in> set (ps_suspended p) \<longleftrightarrow> xs_suspended q"
    if "p = ps" for p
    using wf_status_queue [OF assms(1,3)] assms(2,4) that by (auto simp: wf_queue_def)
  have pid: "pi_pid (ps_info ps) = pd" using wf_status_proc [OF assms(1,2)] by (simp add: wf_proc_def)
  have "(pd, ps) \<in> set (st_procs st)" using assms(2) by (rule map_of_SomeD)
  then have sent: "Operation (SchedOperation_of ps) \<in> set (ExecuteOperations st)"
    using m by (force simp: ExecuteOperations_def)
  have "wf_operation (SchedOperation_of ps)"
    using assms(5,6) pid by (simp add: SchedOperation_of_def)
  note cp = operation_copy_data [OF this, of pad junk]
  have "fold apply_call (map (\<lambda>h. ResumeXQueue h 0) (filter known (ps_running ps))
         @ map (\<lambda>h. SuspendXQueue h (suspend_flags env)) (filter known (ps_suspended ps))) c h = xs_suspended q"
    using m assms(7) by (simp add: apply_resumes apply_suspends)
  with sent cp Execute_SchedOperation_of show ?thesis by blast
qed

theorem decision_reaches_client_witness:
  "\<exists>opn calls. operation_copy (operation_data 0 (SchedOperation_of (ex_proc 10 [1])) @ [3]) = Inr opn
     \<and> Execute True None (\<lambda>_. True) opn = Some calls \<and> \<not> fold apply_call calls (\<lambda>_. True) 1"
  using decision_reaches_client [OF wf_ex_status, of True True 10 "ex_proc 10 [1]" 1 "ex_queue 1 10 True 1000"
      "\<lambda>_. True" 0 "[3]" None "\<lambda>_. True"]
  by (simp add: ex_defs)

text \<open>Changing the policy resumes every XQueue in the table, but nothing is sent and no
  timer is left: the clients keep the old policy's decisions, and the worker sleeps, until
  some other event arrives.\<close>

theorem new_policy_waits_for_event:
  assumes "SetPolicy self qproc env e now t s = Some (s', out)" "t \<noteq> ls_type s"
    and "\<forall>n. env_ok (env n)" "env_ok e" "ls_inv s"
  shows "\<exists>st out1. out = out1 @ ExecuteOperations st
     \<and> (\<forall>h q. xq_of st h = Some q \<longrightarrow> xq_of (ls_status s') h = Some (q\<lparr> xs_suspended := False \<rparr>))
     \<and> (\<forall>now'. \<not> wait_ends now' s')"
proof -
  obtain s1 pol b where w: "Worker self qproc env e now (RecvEvent (SchedulerTerminateEvent self) s) = Some (s1, out, b)"
    "s' = s1\<lparr> ls_timers := [], ls_type := t, ls_policy := pol, ls_status := resume_all (ls_status s1) \<rparr>"
    using SetPolicy_cases [OF assms(1,2)] by metis
  have i: "ls_inv (RecvEvent (SchedulerTerminateEvent self) s)"
    using assms(5) by (simp add: ls_inv_def RecvEvent_def)
  obtain out1 where o: "out = out1 @ ExecuteOperations (ls_status s1)"
    using Worker_inv(2) [OF _ assms(4) i w(1)] assms(3) by blast
  have "ls_events s1 = []" using Worker_events [OF w(1)] .
  then show ?thesis using o by (intro exI) (auto simp: w(2) resume_all_lookup wait_ends_def)
qed

lemma ex_sched_pass:
  assumes evs: "evs \<in> {[], [SchedulerTerminateEvent 1]}"
  obtains s' out where
    "Worker 1 (\<lambda>_. False) (\<lambda>_. ex_env) ex_env 0 (ex_sched evs) = Some (s', out, evs \<noteq> [])"
    "xq_of (ls_status s') 1 = Some (ex_queue 1 10 True 1000)"
    "xq_of (ls_status s') 2 = Some ((ex_queue 2 20 True 2000)\<lparr> xs_suspended := True \<rparr>)"
proof -
  let ?st = "ex_status True True"
  let ?acts = "hpf_Sched \<lparr> hpf_priorities = [1 \<mapsto> 10] \<rparr> ?st"
  let ?st' = "fst (run_actions ?acts (?st, []))"
  have a: "?acts = [Resume 1, Suspend 2]"
    by (simp add: hpf_Sched_def device_prio_max_def hpf_GetPriority_def ex_defs)
  have q: "xq_of ?st' 1 = Some (ex_queue 1 10 True 1000)"
    "xq_of ?st' 2 = Some ((ex_queue 2 20 True 2000)\<lparr> xs_suspended := True \<rparr>)"
    unfolding run_actions_xqueue a by (simp_all add: ex_defs)
  have w: "Worker 1 (\<lambda>_. False) (\<lambda>_. ex_env) ex_env 0 (ex_sched evs) =
      Some ((ex_sched [])\<lparr> ls_status := ?st', ls_timers := sort (snd (run_actions ?acts (?st, []))) \<rparr>,
        ExecuteOperations ?st', evs \<noteq> [])"
    using evs
    by (auto simp: Worker_def Let_def drop_expired_def ex_sched_def Reschedule_def policy_run_def
        hpf_policy_def is_terminate_event_def split: prod.splits)
  show thesis by (rule that [OF w]) (use q in simp_all)
qed

theorem new_policy_waits_for_event_witness:
  "\<exists>s' st out1. SetPolicy 1 (\<lambda>_. False) (\<lambda>_. ex_env) ex_env 0 kPolicyUtilizationPartition (ex_sched [])
       = Some (s', out1 @ ExecuteOperations st) \<and> \<not> wait_ends 99 s'"
proof -
  have r: "RecvEvent (SchedulerTerminateEvent 1) (ex_sched []) = ex_sched [SchedulerTerminateEvent 1]"
    by (simp add: RecvEvent_def ex_sched_def)
  obtain s1 out where "Worker 1 (\<lambda>_. False) (\<lambda>_. ex_env) ex_env 0 (ex_sched [SchedulerTerminateEvent 1])
      = Some (s1, out, [SchedulerTerminateEvent 1] \<noteq> [])"
    by (rule ex_sched_pass [of "[SchedulerTerminateEvent 1]"]) simp_all
  moreover have "ls_type (ex_sched []) \<noteq> kPolicyUtilizationPartition" by (simp add: ex_sched_def)
  ultimately obtain s' where s: "SetPolicy 1 (\<lambda>_. False) (\<lambda>_. ex_env) ex_env 0 kPolicyUtilizationPartition (ex_sched [])
      = Some (s', out)"
    by (simp add: SetPolicy_def Stop_def r)
  from new_policy_waits_for_event [OF s] show ?thesis
    using s ex_sched_inv [of "[]"] by (auto simp: ex_sched_def ls_inv_def)
qed

text \<open>C5: With a work-conserving policy, after a pass of the worker some ready XQueue is
  running as soon as any XQueue is ready.\<close>

theorem scheduler_conserves_work:
  assumes "Worker self qproc env e now s = Some (s', out, b)" "work_conserving (ls_policy s)"
    and "\<forall>n. env_ok (env n)" "env_ok e" "ls_inv s"
    and "xq_of (ls_status s') h0 = Some q0" "xs_ready q0"
  shows "\<exists>h q. xq_of (ls_status s') h = Some q \<and> xs_ready q \<and> \<not> xs_suspended q"
proof -
  let ?s0 = "drop_expired now s"
  have i0: "ls_inv (?s0\<lparr> ls_events := [] \<rparr>)" and k0: "work_conserving (ls_policy (?s0\<lparr> ls_events := [] \<rparr>))"
    using assms(2,5) by (simp_all add: ls_inv_def drop_expired_def)
  obtain s1 out1 s2 out2 where p: "process_events self qproc env (ls_events ?s0) (?s0\<lparr> ls_events := [] \<rparr>) = Some (s1, out1, b)"
    and r: "Reschedule e s1 = Some (s2, out2)" and s': "s' = s2\<lparr> ls_timers := sort (ls_timers s2) \<rparr>"
    using assms(1) by (auto simp: Worker_def Let_def split: option.splits)
  have i1: "ls_inv s1" by (rule process_events_inv [OF _ i0 p]) (simp add: assms(3))
  have k1: "work_conserving (ls_policy s1)" using process_events_kind [OF p] k0 by simp
  show ?thesis using Reschedule_conserves [OF assms(4) i1 r k1, of h0 q0] assms(6,7) by (simp add: s')
qed

theorem scheduler_conserves_work_witness:
  "\<exists>s' out b h q. Worker 1 (\<lambda>_. False) (\<lambda>_. ex_env) ex_env 0 (ex_sched []) = Some (s', out, b)
     \<and> xq_of (ls_status s') h = Some q \<and> xs_ready q \<and> \<not> xs_suspended q"
proof -
  obtain s' out where w: "Worker 1 (\<lambda>_. False) (\<lambda>_. ex_env) ex_env 0 (ex_sched []) = Some (s', out, [] \<noteq> ([] :: event list))"
    "xq_of (ls_status s') 1 = Some (ex_queue 1 10 True 1000)"
    by (rule ex_sched_pass [of "[]"]) simp_all
  have k: "work_conserving (ls_policy (ex_sched []))" by (simp add: ex_sched_def)
  have i: "ls_inv (ex_sched [])" using ex_sched_inv [of "[]"] by (simp add: ls_inv_def)
  have "xs_ready (ex_queue 1 10 True 1000)" by (simp add: ex_queue_def)
  from scheduler_conserves_work [OF w(1) k _ env_ok_ex i w(2) this] w(1) show ?thesis by auto
qed

end
