(* ===== verification/XCommands.thy ===== *)
theory XCommands
  imports Prelude
begin

text \<open>
  Commands of an XQueue (\<^verbatim>\<open>preempt/include/xsched/preempt/xqueue/xcommand.h\<close>,
  \<^verbatim>\<open>preempt/src/xqueue/xcommand.cpp\<close>). A command is an object with a state that only moves
  forward; the objects are identified by \<open>xcmd\<close> (a hardware command by the index its
  XQueue gave it, the others by a serial number), and their states are a map \<open>cstates\<close>.
\<close>

datatype xcommand_type =
    kCommandTypeHardware | kCommandTypeHostFunction | kCommandTypeXQueueWaitAll
  | kCommandTypeBatchSynchronize | kCommandTypeXQueueDestroy

abbreviation (input) kCommandStateCreated :: int where "kCommandStateCreated \<equiv> 0"
abbreviation (input) kCommandStatePending :: int where "kCommandStatePending \<equiv> 1"
abbreviation (input) kCommandStateInFlight :: int where "kCommandStateInFlight \<equiv> 2"
abbreviation (input) kCommandStateCompleted :: int where "kCommandStateCompleted \<equiv> 3"

abbreviation (input) kCommandPropertyDeactivatable :: int where "kCommandPropertyDeactivatable \<equiv> 1"
abbreviation (input) kCommandPropertyIdempotent :: int where "kCommandPropertyIdempotent \<equiv> 2"
abbreviation (input) kCommandPropertyBlockingSubmit :: int where "kCommandPropertyBlockingSubmit \<equiv> 4"

datatype xcmd = HwCmd int | HostCmd nat | WaitAllCmd nat | BatchCmd nat | DestroyCmd nat

fun cmd_type :: "xcmd \<Rightarrow> xcommand_type" where
  "cmd_type (HwCmd _) = kCommandTypeHardware"
| "cmd_type (HostCmd _) = kCommandTypeHostFunction"
| "cmd_type (WaitAllCmd _) = kCommandTypeXQueueWaitAll"
| "cmd_type (BatchCmd _) = kCommandTypeBatchSynchronize"
| "cmd_type (DestroyCmd _) = kCommandTypeXQueueDestroy"

text \<open>\<^verbatim>\<open>SetState\<close>: the new state and the states its listeners are called with. Going back, or
  a number that is no state, fails an assertion.\<close>

definition SetState :: "int \<Rightarrow> int \<Rightarrow> (int \<times> int list) option" where
  "SetState new_state old_state =
     (if \<not> (kCommandStateCreated \<le> new_state \<and> new_state \<le> kCommandStateCompleted) then None
      else if \<not> new_state \<ge> old_state then None
      else Some (new_state, if new_state = old_state then [] else [old_state + 1..new_state]))"

text \<open>\<^verbatim>\<open>WaitUntil\<close> returns when the loop condition has become false.\<close>

definition WaitUntil_returns :: "int \<Rightarrow> int \<Rightarrow> bool" where
  "WaitUntil_returns target state \<longleftrightarrow> \<not> state < target"

type_synonym cstates = "xcmd \<Rightarrow> int"

definition set_cstate :: "xcmd \<Rightarrow> int \<Rightarrow> cstates \<Rightarrow> cstates option" where
  "set_cstate c s cs = map_option (\<lambda>(s', _). cs(c := s')) (SetState s (cs c))"

definition set_all :: "xcmd list \<Rightarrow> int \<Rightarrow> cstates \<Rightarrow> cstates option" where
  "set_all xs s cs =
     foldl (\<lambda>r c. case r of None \<Rightarrow> None | Some cs' \<Rightarrow> set_cstate c s cs') (Some cs) xs"

lemma set_cstate_Some:
  "set_cstate c s cs = Some cs' \<longleftrightarrow> 0 \<le> s \<and> s \<le> 3 \<and> cs c \<le> s \<and> cs' = cs(c := s)"
  by (auto simp: set_cstate_def SetState_def)

lemma set_all_Nil [simp]: "set_all [] s cs = Some cs"
  by (simp add: set_all_def)

lemma set_all_Cons:
  "set_all (c # xs) s cs = (case set_cstate c s cs of None \<Rightarrow> None | Some cs' \<Rightarrow> set_all xs s cs')"
proof -
  have "foldl (\<lambda>r c. case r of None \<Rightarrow> None | Some cs' \<Rightarrow> set_cstate c s cs') None xs = None" for xs
    by (induction xs) simp_all
  then show ?thesis by (simp add: set_all_def split: option.split)
qed

lemma set_all_Completed:
  "\<forall>c \<in> set xs. cs c \<le> 3 \<Longrightarrow> set_all xs 3 cs = Some (\<lambda>c. if c \<in> set xs then 3 else cs c)"
proof (induction xs arbitrary: cs)
  case (Cons c xs)
  have "set_cstate c 3 cs = Some (cs(c := 3))" using Cons.prems by (simp add: set_cstate_Some)
  moreover have "set_all xs 3 (cs(c := 3)) = Some (\<lambda>d. if d \<in> set xs then 3 else (cs(c := 3)) d)"
    by (rule Cons.IH) (use Cons.prems in simp)
  ultimately show ?case by (simp add: set_all_Cons fun_eq_iff)
qed simp

lemma set_all_le: "set_all xs 3 cs = Some cs' \<Longrightarrow> \<forall>c \<in> set xs. cs c \<le> 3"
proof (induction xs arbitrary: cs)
  case (Cons c xs)
  then obtain cs1 where 1: "set_cstate c 3 cs = Some cs1" "set_all xs 3 cs1 = Some cs'"
    by (auto simp: set_all_Cons split: option.splits)
  then show ?case using Cons.IH [OF 1(2)] by (auto simp: set_cstate_Some split: if_splits)
qed simp

section \<open>The history of one command\<close>

text \<open>A sequence of calls of \<^verbatim>\<open>SetState\<close>; the listener calls of all of them in order.\<close>

fun set_states :: "int list \<Rightarrow> int \<Rightarrow> (int \<times> int list) option" where
  "set_states [] s = Some (s, [])"
| "set_states (n # ns) s =
     (case SetState n s of None \<Rightarrow> None
      | Some (s1, calls1) \<Rightarrow>
          map_option (\<lambda>(s2, calls2). (s2, calls1 @ calls2)) (set_states ns s1))"

lemma SetState_Some:
  "SetState n s = Some (s', calls) \<longleftrightarrow> 0 \<le> n \<and> n \<le> 3 \<and> s \<le> n \<and> s' = n \<and> calls = [s + 1..n]"
  by (auto simp: SetState_def)

lemma upto_append: "a \<le> b \<Longrightarrow> b \<le> c \<Longrightarrow> [a + 1..b] @ [b + 1..c] = [a + 1..(c :: int)]"
  using upto_split2 [of "a + 1" b c] by (cases "a = b") simp_all

lemma set_states_announced:
  "set_states ns s = Some (s', calls) \<Longrightarrow> s \<le> s' \<and> calls = [s + 1..s']"
proof (induction ns arbitrary: s calls)
  case (Cons n ns)
  then obtain calls1 calls2 s1 where *: "SetState n s = Some (s1, calls1)"
    "set_states ns s1 = Some (s', calls2)" "calls = calls1 @ calls2"
    by (auto split: option.splits)
  then show ?case using Cons.IH [OF *(2)] upto_append [of s s1 s'] by (auto simp: SetState_Some)
qed simp

text \<open>However a command moves from creation to its current state, every state on the way
  is announced to its listeners exactly once and in order, also the ones that are skipped.\<close>

theorem every_state_announced_once:
  assumes "set_states ns kCommandStateCreated = Some (s, calls)"
  shows "calls = [1..s] \<and> distinct calls"
  using set_states_announced [OF assms] by simp

theorem every_state_announced_once_witness:
  "set_states [1, 3, 3] 0 = Some (3, [1, 2, 3]) \<and> distinct [1, 2, 3 :: int]"
proof -
  have r: "set_states [1, 3, 3] 0 = Some (3, [1, 2, 3])"
    by (simp add: SetState_def upto.simps)
  show ?thesis using every_state_announced_once [OF r] r by simp
qed

end
