(* ===== verification/CommandBuffer.thy ===== *)
theory CommandBuffer
  imports XCommands Events
begin

text \<open>
  The command buffer of an XQueue (\<^verbatim>\<open>preempt/src/xqueue/command_buffer.cpp\<close>): a queue
  between the application and the launch worker that also tells the scheduler when the
  XQueue becomes ready and when it has become idle. When it runs empty it makes up a batch
  synchronisation and then a wait-all command before it reports the XQueue idle. Every
  operation runs under the mutex of the buffer and is one step here; \<open>cs\<close> are the states of
  the commands. A failed assertion is \<open>None\<close>.
\<close>

record cmdbuf =
  cb_handle :: xhandle
  cb_state :: xqueue_state
  cb_last :: xcmd
  cb_cmds :: "xcmd list"
  cb_fresh :: nat
    \<comment> \<open>the serial number of the next command that is made up\<close>
  cb_waiting :: bool
    \<comment> \<open>the consumer is inside \<^verbatim>\<open>cv_.wait\<close>\<close>

section \<open>Operations\<close>

definition Enqueue :: "pid \<Rightarrow> time_ns \<Rightarrow> xcmd \<Rightarrow> cmdbuf \<Rightarrow> cstates
    \<Rightarrow> (cmdbuf \<times> cstates \<times> event list) option" where
  "Enqueue self ready_time c b cs =
     (case set_cstate c kCommandStatePending cs of None \<Rightarrow> None
      | Some cs' \<Rightarrow>
         (let wake = (cmd_type c = kCommandTypeHardware \<and> cb_state b = kQueueStateIdle) in
          Some (b\<lparr> cb_state := (if wake then kQueueStateReady else cb_state b), cb_last := c,
                  cb_cmds := cb_cmds b @ [c] \<rparr>,
                cs',
                if wake then [XQueueReadyEvent_new self (cb_handle b) ready_time] else [])))"

definition CommandBuffer_new :: "pid \<Rightarrow> xhandle \<Rightarrow> (cmdbuf \<times> cstates \<times> event list) option" where
  "CommandBuffer_new self h =
     Enqueue self 0 (WaitAllCmd 0)
       \<lparr> cb_handle = h, cb_state = kQueueStateIdle, cb_last = WaitAllCmd 0, cb_cmds = [],
         cb_fresh = 1, cb_waiting = False \<rparr> (\<lambda>_. kCommandStateCreated)"

text \<open>\<^verbatim>\<open>Dequeue\<close>: the command, or \<open>None\<close> when the caller is left waiting for one; a waiting
  caller that wakes up only looks for a command.\<close>

definition Dequeue :: "pid \<Rightarrow> cmdbuf \<Rightarrow> cstates
    \<Rightarrow> cmdbuf \<times> cstates \<times> event list \<times> xcmd option" where
  "Dequeue self b cs =
     (case cb_cmds b of
        c # rest \<Rightarrow> (b\<lparr> cb_cmds := rest, cb_waiting := False \<rparr>, cs, [], Some c)
      | [] \<Rightarrow>
         if cb_waiting b then (b, cs, [], None)
         else
         (case cmd_type (cb_last b) of
            kCommandTypeXQueueWaitAll \<Rightarrow>
              (if cb_state b = kQueueStateReady
               then (b\<lparr> cb_state := kQueueStateIdle, cb_waiting := True \<rparr>, cs,
                     [XQueueIdleEvent self (cb_handle b)], None)
               else (b\<lparr> cb_waiting := True \<rparr>, cs, [], None))
          | kCommandTypeBatchSynchronize \<Rightarrow>
              (let c = WaitAllCmd (cb_fresh b) in
               (b\<lparr> cb_last := c, cb_fresh := cb_fresh b + 1 \<rparr>, cs(c := kCommandStatePending), [], Some c))
          | _ \<Rightarrow>
              (let c = BatchCmd (cb_fresh b) in
               (b\<lparr> cb_last := c, cb_fresh := cb_fresh b + 1 \<rparr>, cs(c := kCommandStatePending), [], Some c))))"

definition DropAll :: "cmdbuf \<Rightarrow> cstates \<Rightarrow> (cmdbuf \<times> cstates) option" where
  "DropAll b cs =
     map_option (\<lambda>cs'. (b\<lparr> cb_cmds := [] \<rparr>, cs')) (set_all (cb_cmds b) kCommandStateCompleted cs)"

definition EnqueueXQueueWaitAllCommand :: "cmdbuf \<Rightarrow> cstates \<Rightarrow> (cmdbuf \<times> cstates \<times> xcmd) option" where
  "EnqueueXQueueWaitAllCommand b cs =
     (if cb_state b = kQueueStateIdle
      then (if cmd_type (cb_last b) = kCommandTypeXQueueWaitAll then Some (b, cs, cb_last b) else None)
      else if cmd_type (cb_last b) = kCommandTypeXQueueWaitAll then Some (b, cs, cb_last b)
      else (let c = WaitAllCmd (cb_fresh b) in
            Some (b\<lparr> cb_last := c, cb_cmds := cb_cmds b @ [c], cb_fresh := cb_fresh b + 1 \<rparr>,
                  cs(c := kCommandStatePending), c)))"

section \<open>Sequences of operations\<close>

datatype cb_op =
    EnqueueOp time_ns xcmd | DequeueOp | DropOp | WaitAllOp

text \<open>One operation: the buffer after it, the events sent and the command taken out.\<close>

fun cb_step :: "pid \<Rightarrow> cb_op \<Rightarrow> cmdbuf \<times> cstates
    \<Rightarrow> ((cmdbuf \<times> cstates) \<times> event list \<times> xcmd list) option" where
  "cb_step self (EnqueueOp t c) (b, cs) =
     map_option (\<lambda>(b', cs', evs). ((b', cs'), evs, [])) (Enqueue self t c b cs)"
| "cb_step self DequeueOp (b, cs) =
     (case Dequeue self b cs of (b', cs', evs, r) \<Rightarrow>
        Some ((b', cs'), evs, case r of Some c \<Rightarrow> [c] | None \<Rightarrow> []))"
| "cb_step self DropOp (b, cs) = map_option (\<lambda>(b', cs'). ((b', cs'), [], [])) (DropAll b cs)"
| "cb_step self WaitAllOp (b, cs) =
     map_option (\<lambda>(b', cs', _). ((b', cs'), [], [])) (EnqueueXQueueWaitAllCommand b cs)"

fun cb_run :: "pid \<Rightarrow> cb_op list \<Rightarrow> cmdbuf \<times> cstates
    \<Rightarrow> ((cmdbuf \<times> cstates) \<times> event list \<times> xcmd list) option" where
  "cb_run self [] s = Some (s, [], [])"
| "cb_run self (opn # ops) s =
     (case cb_step self opn s of None \<Rightarrow> None
      | Some (s1, evs1, out1) \<Rightarrow>
          map_option (\<lambda>(s2, evs2, out2). (s2, evs1 @ evs2, out1 @ out2)) (cb_run self ops s1))"

text \<open>Ready and idle events in alternation, from one state of the XQueue to another.\<close>

fun tells :: "xqueue_state \<Rightarrow> event list \<Rightarrow> xqueue_state \<Rightarrow> bool" where
  "tells s [] s' \<longleftrightarrow> s = s'"
| "tells s (ev # evs) s' \<longleftrightarrow>
     (if event_type ev = kEventXQueueReady then s = kQueueStateIdle \<and> tells kQueueStateReady evs s'
      else if event_type ev = kEventXQueueIdle then s = kQueueStateReady \<and> tells kQueueStateIdle evs s'
      else False)"

lemma tells_append: "tells a xs b \<Longrightarrow> tells b ys c \<Longrightarrow> tells a (xs @ ys) c"
  by (induction xs arbitrary: a) (auto split: if_splits)

lemma cb_step_tells:
  assumes "cb_step self opn (b, cs) = Some ((b', cs'), evs, out)"
  shows "tells (cb_state b) evs (cb_state b')"
proof (cases opn)
  case (EnqueueOp t c)
  then show ?thesis using assms
    by (auto simp: Enqueue_def Let_def XQueueReadyEvent_new_def split: option.splits if_splits)
next
  case DequeueOp
  then show ?thesis using assms
    by (auto simp: Dequeue_def Let_def split: list.splits xcommand_type.splits if_splits)
next
  case DropOp
  then show ?thesis using assms by (auto simp: DropAll_def)
next
  case WaitAllOp
  then show ?thesis using assms
    by (auto simp: EnqueueXQueueWaitAllCommand_def Let_def split: if_splits)
qed

lemma cb_run_tells:
  "cb_run self ops s = Some (s', evs, out) \<Longrightarrow> tells (cb_state (fst s)) evs (cb_state (fst s'))"
proof (induction ops arbitrary: s evs out)
  case (Cons opn ops)
  obtain b cs where s: "s = (b, cs)" by (cases s)
  from Cons.prems obtain s1 evs1 out1 evs2 out2 where
    1: "cb_step self opn s = Some (s1, evs1, out1)" and
    2: "cb_run self ops s1 = Some (s', evs2, out2)" and e: "evs = evs1 @ evs2"
    by (auto split: option.splits)
  obtain b1 cs1 where s1: "s1 = (b1, cs1)" by (cases s1)
  show ?case
    using cb_step_tells [of self opn b cs b1 cs1 evs1 out1] Cons.IH [OF 2] 1
    by (auto simp: s s1 e intro: tells_append)
qed simp

text \<open>The commands of the application, as opposed to the synchronisation commands.\<close>

definition is_app :: "xcmd \<Rightarrow> bool" where
  "is_app c \<longleftrightarrow> cmd_type c \<notin> {kCommandTypeXQueueWaitAll, kCommandTypeBatchSynchronize}"

fun enqueued :: "cb_op list \<Rightarrow> xcmd list" where
  "enqueued [] = []"
| "enqueued (EnqueueOp t c # ops) = c # enqueued ops"
| "enqueued (_ # ops) = enqueued ops"

lemma cb_step_fifo:
  assumes "cb_step self opn (b, cs) = Some ((b', cs'), evs, out)" "opn \<noteq> DropOp"
  shows "filter is_app (cb_cmds b @ enqueued [opn]) = filter is_app (out @ cb_cmds b')"
proof (cases opn)
  case (EnqueueOp t c)
  then show ?thesis using assms by (auto simp: Enqueue_def Let_def split: option.splits)
next
  case DequeueOp
  then show ?thesis using assms
    by (auto simp: Dequeue_def Let_def is_app_def split: list.splits xcommand_type.splits if_splits)
next
  case WaitAllOp
  then show ?thesis using assms
    by (auto simp: EnqueueXQueueWaitAllCommand_def Let_def is_app_def split: if_splits)
qed (use assms in simp)

lemma enqueued_Cons: "enqueued (opn # ops) = enqueued [opn] @ enqueued ops"
  by (cases opn) simp_all

lemma cb_run_fifo:
  "cb_run self ops s = Some (s', evs, out) \<Longrightarrow> DropOp \<notin> set ops
    \<Longrightarrow> filter is_app (cb_cmds (fst s) @ enqueued ops) = filter is_app (out @ cb_cmds (fst s'))"
proof (induction ops arbitrary: s evs out)
  case (Cons opn ops)
  obtain b cs where s: "s = (b, cs)" by (cases s)
  from Cons.prems obtain s1 evs1 out1 evs2 out2 where
    1: "cb_step self opn s = Some (s1, evs1, out1)" and
    2: "cb_run self ops s1 = Some (s', evs2, out2)" and o: "out = out1 @ out2"
    by (auto split: option.splits)
  obtain b1 cs1 where s1: "s1 = (b1, cs1)" by (cases s1)
  have "filter is_app (cb_cmds b @ enqueued [opn]) = filter is_app (out1 @ cb_cmds b1)"
    using cb_step_fifo [of self opn b cs b1 cs1 evs1 out1] 1 Cons.prems(2) by (auto simp: s s1)
  moreover have "filter is_app (cb_cmds b1 @ enqueued ops) = filter is_app (out2 @ cb_cmds (fst s'))"
    using Cons.IH [OF 2] Cons.prems(2) by (simp add: s1)
  ultimately show ?case unfolding enqueued_Cons [of opn ops]
    by (simp add: s o) (metis append_assoc)
qed simp

lemma CommandBuffer_new_eq:
  "CommandBuffer_new self h =
     Some (\<lparr> cb_handle = h, cb_state = kQueueStateIdle, cb_last = WaitAllCmd 0,
             cb_cmds = [WaitAllCmd 0], cb_fresh = 1, cb_waiting = False \<rparr>,
           (\<lambda>_. 0)(WaitAllCmd 0 := 1), [])"
  by (simp add: CommandBuffer_new_def Enqueue_def set_cstate_def SetState_def)

section \<open>Properties\<close>

text \<open>C26: Whatever is done with a buffer, the ready and idle events it sends alternate and
  the last one is its state: the scheduler's idea of the XQueue is never behind.\<close>

theorem scheduler_knows_buffer_state:
  assumes "CommandBuffer_new self h = Some (b0, cs0, evs0)"
    "cb_run self ops (b0, cs0) = Some ((b, cs), evs, out)"
  shows "tells kQueueStateIdle (evs0 @ evs) (cb_state b)"
proof -
  have "cb_state b0 = kQueueStateIdle" "evs0 = []" using assms(1) by (auto simp: CommandBuffer_new_eq)
  then show ?thesis using cb_run_tells [OF assms(2)] by simp
qed

definition ex_ops :: "cb_op list" where
  "ex_ops = [DequeueOp, EnqueueOp 5 (HwCmd 1), DequeueOp, DequeueOp, DequeueOp, DequeueOp]"

definition ex_buf :: cmdbuf where
  "ex_buf = \<lparr> cb_handle = 9, cb_state = kQueueStateIdle, cb_last = WaitAllCmd 0,
     cb_cmds = [WaitAllCmd 0], cb_fresh = 1, cb_waiting = False \<rparr>"

lemma ex_buf_new: "CommandBuffer_new self 9 = Some (ex_buf, (\<lambda>_. 0)(WaitAllCmd 0 := 1), [])"
  by (simp add: CommandBuffer_new_eq ex_buf_def)

lemma ex_ops_run:
  obtains b cs where "cb_run 3 ex_ops (ex_buf, (\<lambda>_. 0)(WaitAllCmd 0 := 1)) =
    Some ((b, cs), [XQueueReadyEvent 3 9 (ns_to_us 5), XQueueIdleEvent 3 9],
      [WaitAllCmd 0, HwCmd 1, BatchCmd 1, WaitAllCmd 2])"
    "cb_state b = kQueueStateIdle" "cb_cmds b = []"
  by (simp add: ex_ops_def ex_buf_def Dequeue_def Enqueue_def set_cstate_def SetState_def
      XQueueReadyEvent_new_def Let_def)

theorem scheduler_knows_buffer_state_witness:
  "\<exists>b cs out. cb_run 3 ex_ops (ex_buf, (\<lambda>_. 0)(WaitAllCmd 0 := 1)) =
     Some ((b, cs), [XQueueReadyEvent 3 9 (ns_to_us 5), XQueueIdleEvent 3 9], out)
     \<and> tells kQueueStateIdle [XQueueReadyEvent 3 9 (ns_to_us 5), XQueueIdleEvent 3 9] (cb_state b)"
proof -
  obtain b cs where r: "cb_run 3 ex_ops (ex_buf, (\<lambda>_. 0)(WaitAllCmd 0 := 1)) =
    Some ((b, cs), [XQueueReadyEvent 3 9 (ns_to_us 5), XQueueIdleEvent 3 9],
      [WaitAllCmd 0, HwCmd 1, BatchCmd 1, WaitAllCmd 2])" by (rule ex_ops_run)
  show ?thesis using scheduler_knows_buffer_state [OF ex_buf_new r] r by auto
qed

text \<open>C27: The buffer is a queue: unless it is told to drop its commands, the commands of the
  application come out in the order in which they went in, none lost and none doubled.\<close>

theorem buffer_is_fifo:
  assumes "CommandBuffer_new self h = Some (b0, cs0, evs0)"
    "cb_run self ops (b0, cs0) = Some ((b, cs), evs, out)" "DropOp \<notin> set ops"
  shows "filter is_app (enqueued ops) = filter is_app out @ filter is_app (cb_cmds b)"
proof -
  have "filter is_app (cb_cmds b0) = []" using assms(1) by (auto simp: CommandBuffer_new_eq is_app_def)
  then show ?thesis using cb_run_fifo [OF assms(2,3)] by simp
qed

theorem buffer_is_fifo_witness:
  "filter is_app (enqueued ex_ops) = [HwCmd 1]
     \<and> filter is_app [WaitAllCmd 0, HwCmd 1, BatchCmd 1, WaitAllCmd 2] = [HwCmd 1]"
proof -
  obtain b cs where r: "cb_run 3 ex_ops (ex_buf, (\<lambda>_. 0)(WaitAllCmd 0 := 1)) =
    Some ((b, cs), [XQueueReadyEvent 3 9 (ns_to_us 5), XQueueIdleEvent 3 9],
      [WaitAllCmd 0, HwCmd 1, BatchCmd 1, WaitAllCmd 2])" "cb_cmds b = []" by (rule ex_ops_run)
  have "DropOp \<notin> set ex_ops" by (simp add: ex_ops_def)
  from buffer_is_fifo [OF ex_buf_new r(1) this] show ?thesis using r(2) by (simp add: is_app_def)
qed

text \<open>A buffer that runs empty makes up at most a batch synchronisation and a wait-all
  command; at the third attempt at the latest its consumer waits and the XQueue is idle.\<close>

theorem empty_buffer_becomes_idle:
  assumes "cb_cmds b = []" "\<not> cb_waiting b"
  shows "\<exists>n \<le> 2. \<exists>b' cs' evs out.
     cb_run self (replicate (n + 1) DequeueOp) (b, cs) = Some ((b', cs'), evs, out)
     \<and> length out = n \<and> filter is_app out = [] \<and> cb_cmds b' = []
     \<and> cb_state b' \<noteq> kQueueStateReady \<and> cb_waiting b'"
proof (cases "cmd_type (cb_last b)")
  case kCommandTypeXQueueWaitAll
  then show ?thesis using assms by (intro exI [of _ 0]) (auto simp: Dequeue_def)
next
  case kCommandTypeBatchSynchronize
  then show ?thesis using assms
    by (intro exI [of _ 1]) (auto simp: Dequeue_def Let_def is_app_def)
next
  case kCommandTypeHardware
  then show ?thesis using assms
    by (intro exI [of _ 2]) (auto simp: Dequeue_def Let_def is_app_def eval_nat_numeral)
next
  case kCommandTypeHostFunction
  then show ?thesis using assms
    by (intro exI [of _ 2]) (auto simp: Dequeue_def Let_def is_app_def eval_nat_numeral)
next
  case kCommandTypeXQueueDestroy
  then show ?thesis using assms
    by (intro exI [of _ 2]) (auto simp: Dequeue_def Let_def is_app_def eval_nat_numeral)
qed

theorem empty_buffer_becomes_idle_witness:
  "\<exists>n \<le> 2. \<exists>b' cs' evs out.
     cb_run 3 (replicate (n + 1) DequeueOp) (ex_buf\<lparr> cb_cmds := [], cb_last := HwCmd 1 \<rparr>, \<lambda>_. 1)
       = Some ((b', cs'), evs, out) \<and> length out = n \<and> cb_state b' \<noteq> kQueueStateReady"
  using empty_buffer_becomes_idle [of "ex_buf\<lparr> cb_cmds := [], cb_last := HwCmd 1 \<rparr>" 3 "\<lambda>_. 1"]
  by (fastforce simp: ex_buf_def)

text \<open>Dropping the commands of a buffer whose consumer has not yet woken up for them leaves
  the XQueue ready, and its consumer waiting, until something else is enqueued.\<close>

theorem dropped_buffer_stays_ready:
  assumes "cb_waiting b" "cb_cmds b = []" "cb_state b = kQueueStateIdle" "cs (HwCmd i) = kCommandStateCreated"
  shows "\<exists>b' cs' evs. cb_run self (EnqueueOp t (HwCmd i) # DropOp # replicate n DequeueOp) (b, cs)
     = Some ((b', cs'), evs, []) \<and> cb_cmds b' = [] \<and> cb_state b' = kQueueStateReady"
proof -
  have w: "cb_run self (replicate n DequeueOp) (b1, cs1) = Some ((b1, cs1), [], [])"
    if "cb_cmds b1 = []" "cb_waiting b1" for b1 cs1
    using that by (induction n) (simp_all add: Dequeue_def)
  show ?thesis using assms
    by (simp add: Enqueue_def set_cstate_def SetState_def DropAll_def set_all_Cons w)
qed

theorem dropped_buffer_stays_ready_witness:
  "\<exists>b' cs' evs. cb_run 3 (EnqueueOp 5 (HwCmd 1) # DropOp # replicate 4 DequeueOp)
     (ex_buf\<lparr> cb_cmds := [], cb_waiting := True \<rparr>, \<lambda>_. 0)
     = Some ((b', cs'), evs, []) \<and> cb_cmds b' = [] \<and> cb_state b' = kQueueStateReady"
  by (rule dropped_buffer_stays_ready) (simp_all add: ex_buf_def)

text \<open>A host function enqueued on an idle XQueue leaves the XQueue idle with a last
  command that is no wait-all; waiting for the XQueue then fails an assertion.\<close>

theorem host_function_breaks_wait_all:
  assumes "CommandBuffer_new self h = Some (b0, cs0, evs0)"
  shows "cb_run self [EnqueueOp t (HostCmd n), WaitAllOp] (b0, cs0) = None"
  using assms
  by (auto simp: CommandBuffer_new_eq Enqueue_def set_cstate_def SetState_def
      EnqueueXQueueWaitAllCommand_def)

theorem host_function_breaks_wait_all_witness:
  "cb_run 3 [EnqueueOp 0 (HostCmd 4), WaitAllOp] (ex_buf, (\<lambda>_. 0)(WaitAllCmd 0 := 1)) = None"
  by (rule host_function_breaks_wait_all [OF ex_buf_new])

end
