(* ===== verification/LaunchWorker.thy ===== *)
theory LaunchWorker
  imports CommandBuffer
begin

text \<open>
  The launch worker of an XQueue (\<^verbatim>\<open>preempt/src/xqueue/launch_worker.cpp\<close>): the thread that
  takes commands from the command buffer and launches them on the hardware queue, with the
  logs of the commands in flight. It runs beside threads of the application that wait for a
  command (\<^verbatim>\<open>SyncCmd\<close>) and beside the one that pauses and resumes it.

  A step is the code between two points at which the mutex \<^verbatim>\<open>mtx_\<close> is taken and released: where
  a thread sleeps on the condition variable or is inside a call of the hardware its program
  counter says so, and any other step may come in between. Hardware commands are named by the
  index that their XQueue gave them; what the platform decides about them is \<open>hw_env\<close>.
\<close>

unbundle bit_operations_syntax

record hw_env =
  cmd_props :: "int \<Rightarrow> int"
  enables :: "int \<Rightarrow> bool"
    \<comment> \<open>\<^verbatim>\<open>EnableSynchronization\<close> succeeds\<close>
  callback :: "int \<Rightarrow> xresult option"
    \<comment> \<open>for a \<^verbatim>\<open>HwCallbackCommand\<close> what its function returns\<close>

datatype worker_state = kWorkerStateRunning | kWorkerStatePaused | kWorkerStateTerminated

text \<open>A launch, as it is recorded for the properties: the command, the state of the worker,
  the preemption level and the log at the time.\<close>

record launch =
  l_idx :: int
  l_state :: worker_state
  l_level :: int
  l_log :: "int list"

record lw =
  lw_level :: int
  threshold :: int
  batch_size :: int
  cmd_log :: "int list"
  sync_cmd_log :: "int list"
  last_synchronizable_idx :: int
  drop_idx :: int
  pause_count :: int
  wstate :: worker_state
  lw_cs :: cstates
  synchronizable :: "int \<Rightarrow> bool"
  launches :: "launch list"

section \<open>Pausing, resuming, configuring\<close>

definition Pause :: "lw \<Rightarrow> lw" where
  "Pause w = w\<lparr> wstate := kWorkerStatePaused, pause_count := pause_count w + 1 \<rparr>"

definition Resume :: "lw \<Rightarrow> lw" where
  "Resume w = w\<lparr> wstate := kWorkerStateRunning \<rparr>"

text \<open>All commands in flight become completed and leave the logs.\<close>

definition clear_logs :: "lw \<Rightarrow> lw option" where
  "clear_logs w =
     map_option (\<lambda>cs. w\<lparr> sync_cmd_log := [], cmd_log := [], lw_cs := cs \<rparr>)
       (set_all (map HwCmd (cmd_log w)) kCommandStateCompleted (lw_cs w))"

definition ResumeAndDrop :: "int \<Rightarrow> lw \<Rightarrow> lw option" where
  "ResumeAndDrop d w =
     map_option (\<lambda>w'. w'\<lparr> drop_idx := d, wstate := kWorkerStateRunning \<rparr>) (clear_logs w)"

definition lw_SetPreemptLevel :: "int \<Rightarrow> lw \<Rightarrow> lw" where
  "lw_SetPreemptLevel l w = w\<lparr> lw_level := l \<rparr>"

definition lw_SetLaunchConfig :: "int \<Rightarrow> int \<Rightarrow> lw \<Rightarrow> lw" where
  "lw_SetLaunchConfig t n w = w\<lparr> threshold := t, batch_size := n \<rparr>"

definition LaunchWorker_new :: "int \<Rightarrow> int \<Rightarrow> int \<Rightarrow> cstates \<Rightarrow> (int \<Rightarrow> bool) \<Rightarrow> lw option" where
  "LaunchWorker_new l t n cs sy =
     (if t \<ge> n
      then Some \<lparr> lw_level = l, threshold = t, batch_size = n, cmd_log = [], sync_cmd_log = [],
        last_synchronizable_idx = -1, drop_idx = -1, pause_count = 0,
        wstate = kWorkerStateRunning, lw_cs = cs, synchronizable = sy, launches = [] \<rparr>
      else None)"

section \<open>Synchronising with the hardware\<close>

text \<open>What a thread with the lock does next: it is through, it sleeps until the worker is
  resumed, it releases the lock and waits for the hardware (keeping the pause count of that
  moment), or an assertion fails.\<close>

datatype sync_result = SyncDone lw | SyncSleep | SyncHw int | SyncAbort

definition sync_done :: "lw option \<Rightarrow> sync_result" where
  "sync_done r = (case r of Some w \<Rightarrow> SyncDone w | None \<Rightarrow> SyncAbort)"

text \<open>\<^verbatim>\<open>SyncAllWithLock\<close> from the head of its loop, and from the return of the hardware call.\<close>

definition sync_all_try :: "lw \<Rightarrow> sync_result" where
  "sync_all_try w =
     (case wstate w of
        kWorkerStatePaused \<Rightarrow> SyncSleep
      | kWorkerStateTerminated \<Rightarrow> SyncDone w
      | kWorkerStateRunning \<Rightarrow>
          if cmd_log w = [] then SyncDone w else SyncHw (pause_count w))"

definition sync_all_back :: "int \<Rightarrow> lw \<Rightarrow> sync_result" where
  "sync_all_back n w =
     (if n = pause_count w then sync_done (clear_logs w) else sync_all_try w)"

text \<open>All commands up to an index become completed and leave the logs.\<close>

definition pop_to :: "int \<Rightarrow> lw \<Rightarrow> lw option" where
  "pop_to d w =
     map_option (\<lambda>cs. w\<lparr> sync_cmd_log := dropWhile (\<lambda>e. e \<le> d) (sync_cmd_log w),
                        cmd_log := dropWhile (\<lambda>e. e \<le> d) (cmd_log w), lw_cs := cs \<rparr>)
       (set_all (map HwCmd (takeWhile (\<lambda>e. e \<le> d) (cmd_log w))) kCommandStateCompleted (lw_cs w))"

text \<open>\<^verbatim>\<open>SyncCmdWithLock\<close> from its loop, from the return of the hardware call, and from its start.\<close>

definition sync_cmd_try :: "int \<Rightarrow> lw \<Rightarrow> sync_result" where
  "sync_cmd_try d w =
     (if lw_cs w (HwCmd d) \<ge> kCommandStateCompleted then SyncDone w
      else case wstate w of
        kWorkerStatePaused \<Rightarrow> SyncSleep
      | kWorkerStateTerminated \<Rightarrow> SyncDone w
      | kWorkerStateRunning \<Rightarrow>
          if \<not> lw_cs w (HwCmd d) \<ge> kCommandStateInFlight then SyncAbort
          else if lw_cs w (HwCmd d) = kCommandStateCompleted then sync_done (pop_to d w)
          else SyncHw (pause_count w))"

definition sync_cmd_back :: "int \<Rightarrow> int \<Rightarrow> lw \<Rightarrow> sync_result" where
  "sync_cmd_back d n w = (if n = pause_count w then sync_done (pop_to d w) else sync_cmd_try d w)"

definition sync_cmd :: "int \<Rightarrow> lw \<Rightarrow> sync_result" where
  "sync_cmd d w = (if synchronizable w d then sync_cmd_try d w else SyncAbort)"

section \<open>The worker thread\<close>

text \<open>What the worker does once its synchronisation is through: the code after the call of
  \<^verbatim>\<open>SyncAllWithLock\<close> or \<^verbatim>\<open>SyncCmdWithLock\<close>.\<close>

datatype cont =
    KHost xcmd | KWaitAll xcmd | KBatch xcmd | KDestroy xcmd
  | KFull int
    \<comment> \<open>in \<^verbatim>\<open>LaunchHwCommand\<close>, before the test for a full log\<close>
  | KFinal int
    \<comment> \<open>in \<^verbatim>\<open>LaunchHwCommand\<close>, before the test for a dropped command\<close>

datatype worker_pc =
    InLoop
    \<comment> \<open>before \<^verbatim>\<open>Dequeue\<close>\<close>
  | Taken xcmd
    \<comment> \<open>before the lock is taken\<close>
  | AllSleep cont | AllHw cont int | CmdSleep cont int | CmdHw cont int int
  | LaunchSleep int
  | Exited | Aborted

definition deactivatable :: "hw_env \<Rightarrow> int \<Rightarrow> bool" where
  "deactivatable env c \<longleftrightarrow> cmd_props env c AND kCommandPropertyDeactivatable \<noteq> 0"

definition wait_deactivatable :: "hw_env \<Rightarrow> lw \<Rightarrow> int \<Rightarrow> bool" where
  "wait_deactivatable env w c \<longleftrightarrow> lw_level w \<ge> kPreemptLevelDeactivate
     \<and> cmd_props env c AND (kCommandPropertyDeactivatable OR kCommandPropertyIdempotent) = 0"

definition enable_sync :: "hw_env \<Rightarrow> int \<Rightarrow> (int \<Rightarrow> bool) \<Rightarrow> (int \<Rightarrow> bool)" where
  "enable_sync env c sy = (if callback env c = None \<and> enables env c then sy(c := True) else sy)"

text \<open>The end of \<^verbatim>\<open>LaunchHwCommand\<close>, from the test for a dropped command.\<close>

definition launch_final :: "hw_env \<Rightarrow> int \<Rightarrow> lw \<Rightarrow> lw \<times> worker_pc" where
  "launch_final env c w =
     (if c \<le> drop_idx w
      then (case set_cstate (HwCmd c) kCommandStateCompleted (lw_cs w) of
              None \<Rightarrow> (w, Aborted) | Some cs \<Rightarrow> (w\<lparr> lw_cs := cs \<rparr>, InLoop))
      else
        (let sy = (if c - last_synchronizable_idx w \<ge> batch_size w
                   then enable_sync env c (synchronizable w) else synchronizable w) in
         if callback env c \<notin> {None, Some kXSchedSuccess} then (w, Aborted)
         else case set_cstate (HwCmd c) kCommandStateInFlight (lw_cs w) of
           None \<Rightarrow> (w, Aborted)
         | Some cs \<Rightarrow>
            (w\<lparr> synchronizable := sy, lw_cs := cs,
               launches := launches w @ [\<lparr> l_idx = c, l_state = wstate w, l_level = lw_level w,
                                           l_log = cmd_log w \<rparr>],
               cmd_log := cmd_log w @ [c],
               sync_cmd_log := (if sy c then sync_cmd_log w @ [c] else sync_cmd_log w),
               last_synchronizable_idx := (if sy c then c else last_synchronizable_idx w) \<rparr>,
             InLoop)))"

definition launch_wait :: "hw_env \<Rightarrow> int \<Rightarrow> lw \<Rightarrow> lw \<times> worker_pc" where
  "launch_wait env c w =
     (case wstate w of
        kWorkerStateRunning \<Rightarrow> launch_final env c w
      | kWorkerStatePaused \<Rightarrow> (w, LaunchSleep c)
      | kWorkerStateTerminated \<Rightarrow> (w, Aborted))"

text \<open>A synchronisation of the worker with what follows it.\<close>

definition then_all :: "(lw \<Rightarrow> lw \<times> worker_pc) \<Rightarrow> cont \<Rightarrow> lw \<Rightarrow> sync_result \<Rightarrow> lw \<times> worker_pc" where
  "then_all f k w r =
     (case r of SyncDone w' \<Rightarrow> f w' | SyncSleep \<Rightarrow> (w, AllSleep k)
      | SyncHw n \<Rightarrow> (w, AllHw k n) | SyncAbort \<Rightarrow> (w, Aborted))"

definition then_cmd :: "(lw \<Rightarrow> lw \<times> worker_pc) \<Rightarrow> cont \<Rightarrow> int \<Rightarrow> lw \<Rightarrow> sync_result \<Rightarrow> lw \<times> worker_pc" where
  "then_cmd f k d w r =
     (case r of SyncDone w' \<Rightarrow> f w' | SyncSleep \<Rightarrow> (w, CmdSleep k d)
      | SyncHw n \<Rightarrow> (w, CmdHw k d n) | SyncAbort \<Rightarrow> (w, Aborted))"

definition sync_one_or_all ::
  "(lw \<Rightarrow> lw \<times> worker_pc) \<Rightarrow> cont \<Rightarrow> int option \<Rightarrow> lw \<Rightarrow> lw \<times> worker_pc" where
  "sync_one_or_all f k r w =
     (case r of None \<Rightarrow> then_all f k w (sync_all_try w)
      | Some d \<Rightarrow> then_cmd f k d w (sync_cmd d w))"

text \<open>The test for a full log; \<open>front\<close> of an empty log is undefined, and counts as a failure.\<close>

definition size_t :: "int \<Rightarrow> int" where
  "size_t n = n mod 2 ^ 64"

definition launch_full :: "hw_env \<Rightarrow> int \<Rightarrow> lw \<Rightarrow> lw \<times> worker_pc" where
  "launch_full env c w =
     (if int (length (cmd_log w)) \<ge> size_t (threshold w)
      then (case cmd_log w of
              [] \<Rightarrow> (w, Aborted)
            | front # _ \<Rightarrow>
                sync_one_or_all (launch_final env c) (KFinal c)
                  (find (\<lambda>d. d \<ge> front) (sync_cmd_log w)) w)
      else launch_wait env c w)"

text \<open>The backward scan for the last deactivatable command, with the synchronizable command
  seen last.\<close>

fun scan_deactivatable ::
  "(int \<Rightarrow> bool) \<Rightarrow> (int \<Rightarrow> bool) \<Rightarrow> int option \<Rightarrow> int list \<Rightarrow> bool \<times> int option" where
  "scan_deactivatable sy de r [] = (False, r)"
| "scan_deactivatable sy de r (c # cs) =
     (let r' = (if sy c then Some c else r) in
      if de c then (True, r') else scan_deactivatable sy de r' cs)"

definition LaunchHwCommand :: "hw_env \<Rightarrow> int \<Rightarrow> lw \<Rightarrow> lw \<times> worker_pc" where
  "LaunchHwCommand env c w =
     (if wait_deactivatable env w c
      then (case scan_deactivatable (synchronizable w) (deactivatable env) None (rev (cmd_log w)) of
              (True, r) \<Rightarrow> sync_one_or_all (launch_full env c) (KFull c) r w
            | (False, _) \<Rightarrow> launch_full env c w)
      else launch_full env c w)"

text \<open>The other commands after their synchronisation: the command is completed, and a destroy
  command ends the thread.\<close>

definition finish :: "xcmd \<Rightarrow> worker_pc \<Rightarrow> lw \<Rightarrow> lw \<times> worker_pc" where
  "finish x next_pc w =
     (case set_cstate x kCommandStateCompleted (lw_cs w) of
        None \<Rightarrow> (w, Aborted) | Some cs \<Rightarrow> (w\<lparr> lw_cs := cs \<rparr>, next_pc))"

fun run_cont :: "hw_env \<Rightarrow> cont \<Rightarrow> lw \<Rightarrow> lw \<times> worker_pc" where
  "run_cont env (KHost x) w = finish x InLoop w"
| "run_cont env (KWaitAll x) w = finish x InLoop w"
| "run_cont env (KBatch x) w = finish x InLoop w"
| "run_cont env (KDestroy x) w = finish x Exited (w\<lparr> wstate := kWorkerStateTerminated \<rparr>)"
| "run_cont env (KFull c) w = launch_full env c w"
| "run_cont env (KFinal c) w = launch_final env c w"

text \<open>One turn of \<^verbatim>\<open>WorkerLoop\<close>: taking a command (a command that is not for the hardware is in
  flight at once), and the work on it under the lock.\<close>

definition worker_take :: "xcmd \<Rightarrow> lw \<Rightarrow> lw \<times> worker_pc" where
  "worker_take x w =
     (if cmd_type x = kCommandTypeHardware then (w, Taken x)
      else case set_cstate x kCommandStateInFlight (lw_cs w) of
        None \<Rightarrow> (w, Aborted) | Some cs \<Rightarrow> (w\<lparr> lw_cs := cs \<rparr>, Taken x))"

fun worker_work :: "hw_env \<Rightarrow> xcmd \<Rightarrow> lw \<Rightarrow> lw \<times> worker_pc" where
  "worker_work env (HwCmd c) w = LaunchHwCommand env c w"
| "worker_work env (HostCmd n) w =
     then_all (run_cont env (KHost (HostCmd n))) (KHost (HostCmd n)) w (sync_all_try w)"
| "worker_work env (WaitAllCmd n) w =
     then_all (run_cont env (KWaitAll (WaitAllCmd n))) (KWaitAll (WaitAllCmd n)) w (sync_all_try w)"
| "worker_work env (BatchCmd n) w =
     (case sync_cmd_log w of
        [] \<Rightarrow> (w, InLoop)
      | d # _ \<Rightarrow>
          then_cmd (run_cont env (KBatch (BatchCmd n))) (KBatch (BatchCmd n)) d w (sync_cmd d w))"
| "worker_work env (DestroyCmd n) w =
     then_all (run_cont env (KDestroy (DestroyCmd n))) (KDestroy (DestroyCmd n)) w (sync_all_try w)"

text \<open>The worker goes on from where it is: it takes the lock, wakes up, or returns from the
  hardware.\<close>

fun worker_go :: "hw_env \<Rightarrow> worker_pc \<Rightarrow> lw \<Rightarrow> (lw \<times> worker_pc) option" where
  "worker_go env (Taken x) w = Some (worker_work env x w)"
| "worker_go env (AllSleep k) w = Some (then_all (run_cont env k) k w (sync_all_try w))"
| "worker_go env (AllHw k n) w = Some (then_all (run_cont env k) k w (sync_all_back n w))"
| "worker_go env (CmdSleep k d) w = Some (then_cmd (run_cont env k) k d w (sync_cmd_try d w))"
| "worker_go env (CmdHw k d n) w = Some (then_cmd (run_cont env k) k d w (sync_cmd_back d n w))"
| "worker_go env (LaunchSleep c) w = Some (launch_wait env c w)"
| "worker_go env _ w = None"

section \<open>The worker among the other threads\<close>

text \<open>A thread of the application inside \<^verbatim>\<open>SyncCmd\<close>.\<close>

datatype app_pc = AppIdle | AppSleep int | AppHw int int | AppAborted

definition app_next :: "int \<Rightarrow> lw \<Rightarrow> sync_result \<Rightarrow> lw \<times> app_pc" where
  "app_next d w r =
     (case r of SyncDone w' \<Rightarrow> (w', AppIdle) | SyncSleep \<Rightarrow> (w, AppSleep d)
      | SyncHw n \<Rightarrow> (w, AppHw d n) | SyncAbort \<Rightarrow> (w, AppAborted))"

definition SyncCmd :: "int \<Rightarrow> lw \<Rightarrow> lw \<times> app_pc" where
  "SyncCmd d w = app_next d w (sync_cmd d w)"

fun app_go :: "app_pc \<Rightarrow> lw \<Rightarrow> (lw \<times> app_pc) option" where
  "app_go (AppSleep d) w = Some (app_next d w (sync_cmd_try d w))"
| "app_go (AppHw d n) w = Some (app_next d w (sync_cmd_back d n w))"
| "app_go _ w = None"

record lsys =
  ls_lw :: lw
  ls_pc :: worker_pc
  ls_apps :: "nat \<Rightarrow> app_pc"
  ls_taken :: int
    \<comment> \<open>the index of the last hardware command that the worker took\<close>

definition lsys_init :: "lw \<Rightarrow> lsys" where
  "lsys_init w = \<lparr> ls_lw = w, ls_pc = InLoop, ls_apps = (\<lambda>_. AppIdle), ls_taken = 0 \<rparr>"

datatype lw_act =
    Take xcmd | Go
  | AppSync nat int | AppGo nat
  | DoPause | DoResume | DoResumeAndDrop int
  | DoSetLevel int | DoSetConfig int int

text \<open>One step, where the thread that makes it is at a point to make it.\<close>

fun lw_step :: "hw_env \<Rightarrow> lw_act \<Rightarrow> lsys \<Rightarrow> lsys option" where
  "lw_step env (Take x) s =
     (if ls_pc s = InLoop
      then (case worker_take x (ls_lw s) of (w, pc) \<Rightarrow>
              Some (s\<lparr> ls_lw := w, ls_pc := pc,
                      ls_taken := (case x of HwCmd c \<Rightarrow> c | _ \<Rightarrow> ls_taken s) \<rparr>))
      else None)"
| "lw_step env Go s =
     (case worker_go env (ls_pc s) (ls_lw s) of None \<Rightarrow> None
      | Some (w, pc) \<Rightarrow> Some (s\<lparr> ls_lw := w, ls_pc := pc \<rparr>))"
| "lw_step env (AppSync i d) s =
     (if ls_apps s i = AppIdle
      then (case SyncCmd d (ls_lw s) of (w, pc) \<Rightarrow>
              Some (s\<lparr> ls_lw := w, ls_apps := (ls_apps s)(i := pc) \<rparr>))
      else None)"
| "lw_step env (AppGo i) s =
     (case app_go (ls_apps s i) (ls_lw s) of None \<Rightarrow> None
      | Some (w, pc) \<Rightarrow> Some (s\<lparr> ls_lw := w, ls_apps := (ls_apps s)(i := pc) \<rparr>))"
| "lw_step env DoPause s = Some (s\<lparr> ls_lw := Pause (ls_lw s) \<rparr>)"
| "lw_step env DoResume s = Some (s\<lparr> ls_lw := Resume (ls_lw s) \<rparr>)"
| "lw_step env (DoResumeAndDrop d) s =
     map_option (\<lambda>w. s\<lparr> ls_lw := w \<rparr>) (ResumeAndDrop d (ls_lw s))"
| "lw_step env (DoSetLevel l) s = Some (s\<lparr> ls_lw := lw_SetPreemptLevel l (ls_lw s) \<rparr>)"
| "lw_step env (DoSetConfig t n) s = Some (s\<lparr> ls_lw := lw_SetLaunchConfig t n (ls_lw s) \<rparr>)"

text \<open>How the worker is used. Commands come out of the buffer pending, and the hardware commands in
  the order of their indices; that is so as long as no two threads submit to the XQueue at
  the same time, since \<^verbatim>\<open>AsyncXQueue::Submit\<close> takes the index before it enqueues the command
  (\<^verbatim>\<open>AsyncXQueue\<close> shows what may happen otherwise). \<^verbatim>\<open>AsyncXQueue::Wait\<close> calls \<^verbatim>\<open>SyncCmd\<close> for
  launched synchronizable commands only, \<^verbatim>\<open>AsyncXQueue::Resume\<close> drops up to the last command
  submitted, the configuration is changed when nothing is in flight, and after its end the
  worker is not paused or resumed any more.\<close>

fun lw_may :: "lw_act \<Rightarrow> lsys \<Rightarrow> bool" where
  "lw_may (Take x) s \<longleftrightarrow> lw_cs (ls_lw s) x \<le> kCommandStatePending
     \<and> (case x of HwCmd c \<Rightarrow> ls_taken s < c | _ \<Rightarrow> True)"
| "lw_may (AppSync i d) s \<longleftrightarrow> synchronizable (ls_lw s) d
     \<and> lw_cs (ls_lw s) (HwCmd d) \<ge> kCommandStateInFlight"
| "lw_may DoPause s \<longleftrightarrow> wstate (ls_lw s) \<noteq> kWorkerStateTerminated"
| "lw_may DoResume s \<longleftrightarrow> wstate (ls_lw s) \<noteq> kWorkerStateTerminated"
| "lw_may (DoResumeAndDrop d) s \<longleftrightarrow> wstate (ls_lw s) \<noteq> kWorkerStateTerminated \<and> ls_taken s \<le> d"
| "lw_may (DoSetLevel l) s \<longleftrightarrow> cmd_log (ls_lw s) = []"
| "lw_may (DoSetConfig t n) s \<longleftrightarrow> cmd_log (ls_lw s) = [] \<and> n \<le> t \<and> 1 \<le> t \<and> t < 2 ^ 63"
| "lw_may _ s \<longleftrightarrow> True"

definition lw_exec :: "hw_env \<Rightarrow> lw_act \<Rightarrow> lsys \<Rightarrow> lsys option" where
  "lw_exec env a s = (if lw_may a s then lw_step env a s else None)"

lemma lw_exec_simps [simp]:
  "lw_exec env (Take x) s =
     (if ls_pc s = InLoop \<and> lw_cs (ls_lw s) x \<le> kCommandStatePending
         \<and> (case x of HwCmd c \<Rightarrow> ls_taken s < c | _ \<Rightarrow> True)
      then (case worker_take x (ls_lw s) of (w, pc) \<Rightarrow>
              Some (s\<lparr> ls_lw := w, ls_pc := pc,
                      ls_taken := (case x of HwCmd c \<Rightarrow> c | _ \<Rightarrow> ls_taken s) \<rparr>))
      else None)"
  "lw_exec env Go s =
     (case worker_go env (ls_pc s) (ls_lw s) of None \<Rightarrow> None
      | Some (w, pc) \<Rightarrow> Some (s\<lparr> ls_lw := w, ls_pc := pc \<rparr>))"
  "lw_exec env (AppSync i d) s =
     (if ls_apps s i = AppIdle \<and> synchronizable (ls_lw s) d
         \<and> lw_cs (ls_lw s) (HwCmd d) \<ge> kCommandStateInFlight
      then (case SyncCmd d (ls_lw s) of (w, pc) \<Rightarrow>
              Some (s\<lparr> ls_lw := w, ls_apps := (ls_apps s)(i := pc) \<rparr>))
      else None)"
  "lw_exec env (AppGo i) s =
     (case app_go (ls_apps s i) (ls_lw s) of None \<Rightarrow> None
      | Some (w, pc) \<Rightarrow> Some (s\<lparr> ls_lw := w, ls_apps := (ls_apps s)(i := pc) \<rparr>))"
  "lw_exec env DoPause s =
     (if wstate (ls_lw s) = kWorkerStateTerminated then None
      else Some (s\<lparr> ls_lw := Pause (ls_lw s) \<rparr>))"
  "lw_exec env DoResume s =
     (if wstate (ls_lw s) = kWorkerStateTerminated then None
      else Some (s\<lparr> ls_lw := Resume (ls_lw s) \<rparr>))"
  "lw_exec env (DoResumeAndDrop d) s =
     (if wstate (ls_lw s) = kWorkerStateTerminated \<or> d < ls_taken s then None
      else map_option (\<lambda>w. s\<lparr> ls_lw := w \<rparr>) (ResumeAndDrop d (ls_lw s)))"
  "lw_exec env (DoSetLevel l) s =
     (if cmd_log (ls_lw s) \<noteq> [] then None
      else Some (s\<lparr> ls_lw := lw_SetPreemptLevel l (ls_lw s) \<rparr>))"
  "lw_exec env (DoSetConfig t n) s =
     (if cmd_log (ls_lw s) \<noteq> [] \<or> t < n \<or> t < 1 \<or> t \<ge> 2 ^ 63 then None
      else Some (s\<lparr> ls_lw := lw_SetLaunchConfig t n (ls_lw s) \<rparr>))"
  by (auto simp: lw_exec_def)

end
