(* ===== verification/LaunchCorrect.thy ===== *)
theory LaunchCorrect
  imports LaunchWorker
begin

text \<open>
  Correctness of the launch worker: an invariant of the worker, its logs and the threads
  around it that every step of \<^verbatim>\<open>LaunchWorker\<close> keeps, and what follows from it for the number
  of commands in flight, the logs that preemption relies on, the order of launches, and the
  launches beside deactivatable commands and while the XQueue is paused.
\<close>

section \<open>The logs\<close>

text \<open>What completing all commands in flight up to \<open>d\<close> leaves.\<close>

definition popped :: "int \<Rightarrow> lw \<Rightarrow> lw" where
  "popped d w = w\<lparr> sync_cmd_log := filter (\<lambda>e. d < e) (sync_cmd_log w),
     cmd_log := filter (\<lambda>e. d < e) (cmd_log w),
     lw_cs := (\<lambda>x. if \<exists>c \<in> set (cmd_log w). c \<le> d \<and> x = HwCmd c then 3 else lw_cs w x) \<rparr>"

text \<open>The logs hold, in order, the commands in flight and the synchronizable ones among them.\<close>

definition log_ok :: "int \<Rightarrow> lw \<Rightarrow> bool" where
  "log_ok L w \<longleftrightarrow> sorted_wrt (<) (cmd_log w) \<and> (\<forall>c \<in> set (cmd_log w). c \<le> L)
     \<and> sync_cmd_log w = filter (synchronizable w) (cmd_log w)
     \<and> (\<forall>c. lw_cs w (HwCmd c) = kCommandStateInFlight \<longleftrightarrow> c \<in> set (cmd_log w))
     \<and> (\<forall>x. lw_cs w x \<le> kCommandStateCompleted)
     \<and> 1 \<le> threshold w \<and> threshold w < 2 ^ 63 \<and> int (length (cmd_log w)) \<le> threshold w"

text \<open>A normal command that must not be deactivated is launched beside no deactivatable one.\<close>

definition normal :: "hw_env \<Rightarrow> int \<Rightarrow> bool" where
  "normal env c \<longleftrightarrow> cmd_props env c AND (kCommandPropertyDeactivatable OR kCommandPropertyIdempotent) = 0"

definition launch_safe :: "hw_env \<Rightarrow> launch \<Rightarrow> bool" where
  "launch_safe env l \<longleftrightarrow>
     (l_level l \<ge> kPreemptLevelDeactivate \<and> normal env (l_idx l)
        \<longrightarrow> (\<forall>e \<in> set (l_log l). \<not> deactivatable env e))"

definition trace_ok :: "hw_env \<Rightarrow> int \<Rightarrow> lw \<Rightarrow> bool" where
  "trace_ok env L w \<longleftrightarrow> sorted_wrt (<) (map l_idx (launches w))
     \<and> (\<forall>l \<in> set (launches w). l_idx l \<le> L \<and> launch_safe env l)"

definition lw_ok :: "hw_env \<Rightarrow> int \<Rightarrow> lw \<Rightarrow> bool" where
  "lw_ok env L w \<longleftrightarrow> log_ok L w \<and> trace_ok env L w"

lemmas lw_ok_defs = lw_ok_def log_ok_def trace_ok_def

lemma dropWhile_sorted: "sorted_wrt (<) xs \<Longrightarrow> dropWhile (\<lambda>e. e \<le> d) xs = filter (\<lambda>e. d < e) (xs :: int list)"
  by (induction xs) (auto simp: filter_id_conv intro!: filter_True [symmetric])

lemma takeWhile_sorted: "sorted_wrt (<) xs \<Longrightarrow> takeWhile (\<lambda>e. e \<le> d) xs = filter (\<lambda>e. e \<le> d) (xs :: int list)"
proof (induction xs)
  case (Cons a xs)
  then show ?case by (auto simp: filter_empty_conv) (smt (verit) filter_False)
qed simp

lemma length_filter_bound: "int (length xs) \<le> t \<Longrightarrow> int (length (filter P xs)) \<le> t"
  using length_filter_le [of P xs] by linarith

lemma length_filter_bound_less: "int (length xs) < t \<Longrightarrow> int (length (filter P xs)) < t"
  using length_filter_le [of P xs] by linarith

lemma set_all_hw:
  "\<forall>x. cs x \<le> 3 \<Longrightarrow> set_all (map HwCmd xs) 3 cs = Some (\<lambda>x. if \<exists>c \<in> set xs. x = HwCmd c then 3 else cs x)"
  by (subst set_all_Completed) (auto simp: fun_eq_iff)

lemma log_okD:
  assumes "log_ok L w"
  shows "sorted_wrt (<) (cmd_log w)" "sorted_wrt (<) (sync_cmd_log w)"
    "set (sync_cmd_log w) \<subseteq> set (cmd_log w)" "\<forall>x. lw_cs w x \<le> 3" "\<forall>c \<in> set (cmd_log w). c \<le> L"
  using assms by (auto simp: log_ok_def sorted_wrt_filter)

lemma pop_to_eq:
  assumes "log_ok L w" shows "pop_to d w = Some (popped d w)"
proof -
  note ok = log_okD [OF assms]
  have "(\<lambda>x. if \<exists>c \<in> set (filter (\<lambda>e. e \<le> d) (cmd_log w)). x = HwCmd c then 3 else lw_cs w x)
      = (\<lambda>x. if \<exists>c \<in> set (cmd_log w). c \<le> d \<and> x = HwCmd c then 3 else lw_cs w x)"
    by (auto simp: fun_eq_iff)
  then show ?thesis
    unfolding pop_to_def popped_def dropWhile_sorted [OF ok(1)] dropWhile_sorted [OF ok(2)]
      takeWhile_sorted [OF ok(1)] set_all_hw [OF ok(4)] by simp
qed

lemma clear_logs_eq: "log_ok L w \<Longrightarrow> clear_logs w = Some (popped L w)"
proof -
  assume ok: "log_ok L w"
  then have "filter (\<lambda>e. L < e) (cmd_log w) = []" "filter (\<lambda>e. L < e) (sync_cmd_log w) = []"
    by (auto simp: log_ok_def filter_empty_conv)
  then show ?thesis using ok
    by (auto simp: clear_logs_def popped_def set_all_hw log_ok_def fun_eq_iff)
qed

lemma popped_simps [simp]:
  "wstate (popped d w) = wstate w" "pause_count (popped d w) = pause_count w"
  "threshold (popped d w) = threshold w" "lw_level (popped d w) = lw_level w"
  "drop_idx (popped d w) = drop_idx w" "launches (popped d w) = launches w"
  "synchronizable (popped d w) = synchronizable w" "batch_size (popped d w) = batch_size w"
  "last_synchronizable_idx (popped d w) = last_synchronizable_idx w"
  "cmd_log (popped d w) = filter (\<lambda>e. d < e) (cmd_log w)"
  by (simp_all add: popped_def)

lemma popped_cs:
  "lw_cs (popped d w) (HwCmd c) = (if c \<in> set (cmd_log w) \<and> c \<le> d then 3 else lw_cs w (HwCmd c))"
  by (auto simp: popped_def)

lemma popped_cs_other: "cmd_type x \<noteq> kCommandTypeHardware \<Longrightarrow> lw_cs (popped d w) x = lw_cs w x"
  by (auto simp: popped_def)

lemma popped_ok [intro]:
  assumes "lw_ok env L w" shows "lw_ok env L (popped d w)"
proof -
  have "int (length (filter (\<lambda>e. d < e) (cmd_log w))) \<le> threshold w"
    using assms by (intro length_filter_bound) (simp add: lw_ok_defs)
  moreover have "sync_cmd_log (popped d w) = filter (synchronizable w) (filter (\<lambda>e. d < e) (cmd_log w))"
    using assms by (simp add: lw_ok_defs popped_def conj_commute)
  moreover have "\<forall>x. lw_cs (popped d w) x \<le> 3" using assms by (simp add: lw_ok_defs popped_def)
  ultimately show ?thesis using assms
    by (simp add: lw_ok_defs sorted_wrt_filter popped_cs) auto
qed

lemma popped_id: "\<forall>e \<in> set (cmd_log w). d < e \<Longrightarrow> log_ok L w \<Longrightarrow> popped d w = w"
proof -
  assume a: "\<forall>e \<in> set (cmd_log w). d < e" "log_ok L w"
  have "filter (\<lambda>e. d < e) (cmd_log w) = cmd_log w"
    "filter (\<lambda>e. d < e) (sync_cmd_log w) = sync_cmd_log w"
    using a(1) log_okD(3) [OF a(2)] by (auto simp: filter_id_conv)
  moreover have "(\<lambda>x. if \<exists>c \<in> set (cmd_log w). c \<le> d \<and> x = HwCmd c then 3 else lw_cs w x) = lw_cs w"
    using a(1) by (auto simp: fun_eq_iff)
  ultimately show ?thesis unfolding popped_def by simp
qed

lemma popped_all: "log_ok L w \<Longrightarrow> cmd_log (popped L w) = []"
  by (auto simp: log_ok_def filter_empty_conv)

section \<open>The threads\<close>

text \<open>A command that is being synchronised is in flight, or it and all before it are completed.\<close>

definition cmd_ok :: "int \<Rightarrow> lw \<Rightarrow> int \<Rightarrow> bool" where
  "cmd_ok L w d \<longleftrightarrow> d \<le> L \<and>
     (d \<in> set (cmd_log w)
      \<or> lw_cs w (HwCmd d) = kCommandStateCompleted \<and> (\<forall>e \<in> set (cmd_log w). d < e))"

text \<open>A thread inside a hardware call has seen the worker running at its pause count.\<close>

definition hw_ok :: "lw \<Rightarrow> int \<Rightarrow> bool" where
  "hw_ok w n \<longleftrightarrow> n \<le> pause_count w \<and> (n = pause_count w \<longrightarrow> wstate w \<noteq> kWorkerStatePaused)"

text \<open>The command that the worker is about to launch.\<close>

definition cur :: "int \<Rightarrow> lw \<Rightarrow> int \<Rightarrow> bool" where
  "cur L w c \<longleftrightarrow> c = L \<and> L \<notin> set (cmd_log w) \<and> (\<forall>l \<in> set (launches w). l_idx l < L)
     \<and> lw_cs w (HwCmd L) \<le> kCommandStatePending"

definition alone :: "hw_env \<Rightarrow> lw \<Rightarrow> int \<Rightarrow> bool" where
  "alone env w c \<longleftrightarrow>
     (wait_deactivatable env w c \<longrightarrow> (\<forall>e \<in> set (cmd_log w). \<not> deactivatable env e))"

fun k_ok :: "hw_env \<Rightarrow> int \<Rightarrow> lw \<Rightarrow> cont \<Rightarrow> bool" where
  "k_ok env L w (KFull c) = cur L w c"
| "k_ok env L w (KFinal c) = (cur L w c \<and> alone env w c)"
| "k_ok env L w (KHost x) = (cmd_type x = kCommandTypeHostFunction)"
| "k_ok env L w (KWaitAll x) = (cmd_type x = kCommandTypeXQueueWaitAll)"
| "k_ok env L w (KBatch x) = (cmd_type x = kCommandTypeBatchSynchronize)"
| "k_ok env L w (KDestroy x) = (cmd_type x = kCommandTypeXQueueDestroy)"

fun kd_ok :: "hw_env \<Rightarrow> lw \<Rightarrow> cont \<Rightarrow> int \<Rightarrow> bool" where
  "kd_ok env w (KFull c) d =
     (wait_deactivatable env w c \<longrightarrow> (\<forall>e \<in> set (cmd_log w). deactivatable env e \<longrightarrow> e \<le> d))"
| "kd_ok env w (KFinal c) d = (d \<in> set (cmd_log w) \<or> int (length (cmd_log w)) < threshold w)"
| "kd_ok env w (KBatch x) d = True"
| "kd_ok env w _ d = False"

fun pc_ok :: "hw_env \<Rightarrow> int \<Rightarrow> lw \<Rightarrow> worker_pc \<Rightarrow> bool" where
  "pc_ok env L w InLoop = True"
| "pc_ok env L w (Taken x) = (case x of HwCmd c \<Rightarrow> cur L w c | _ \<Rightarrow> True)"
| "pc_ok env L w (AllSleep k) = k_ok env L w k"
| "pc_ok env L w (AllHw k n) = (k_ok env L w k \<and> hw_ok w n)"
| "pc_ok env L w (CmdSleep k d) = (k_ok env L w k \<and> kd_ok env w k d \<and> cmd_ok L w d)"
| "pc_ok env L w (CmdHw k d n) = (k_ok env L w k \<and> kd_ok env w k d \<and> cmd_ok L w d \<and> hw_ok w n)"
| "pc_ok env L w (LaunchSleep c) =
     (cur L w c \<and> alone env w c \<and> int (length (cmd_log w)) < threshold w)"
| "pc_ok env L w Exited = True"
| "pc_ok env L w Aborted = False"

fun app_ok :: "int \<Rightarrow> lw \<Rightarrow> app_pc \<Rightarrow> bool" where
  "app_ok L w AppIdle = True"
| "app_ok L w (AppSleep d) = cmd_ok L w d"
| "app_ok L w (AppHw d n) = (cmd_ok L w d \<and> hw_ok w n)"
| "app_ok L w AppAborted = False"

definition lsys_ok :: "hw_env \<Rightarrow> lsys \<Rightarrow> bool" where
  "lsys_ok env s \<longleftrightarrow> lw_ok env (ls_taken s) (ls_lw s) \<and> pc_ok env (ls_taken s) (ls_lw s) (ls_pc s)
     \<and> (\<forall>i. app_ok (ls_taken s) (ls_lw s) (ls_apps s i))
     \<and> (wstate (ls_lw s) = kWorkerStateTerminated \<longrightarrow> ls_pc s = Exited)"

text \<open>Completing commands disturbs no thread.\<close>

lemma cmd_ok_popped [intro]: "cmd_ok L w d \<Longrightarrow> cmd_ok L (popped e w) d"
  by (auto simp: cmd_ok_def popped_cs)

lemma hw_ok_popped [simp]: "hw_ok (popped d w) n = hw_ok w n"
  by (simp add: hw_ok_def)

lemma cur_popped [intro]: "cur L w c \<Longrightarrow> cur L (popped d w) c"
  by (auto simp: cur_def popped_cs)

lemma wait_deactivatable_popped [simp]: "wait_deactivatable env (popped d w) c = wait_deactivatable env w c"
  by (simp add: wait_deactivatable_def)

lemma alone_popped [intro]: "alone env w c \<Longrightarrow> alone env (popped d w) c"
  by (auto simp: alone_def)

lemma k_ok_popped [intro]: "k_ok env L w k \<Longrightarrow> k_ok env L (popped d w) k"
  by (cases k) auto

lemma length_filter_cases:
  "(\<forall>x \<in> set xs. P x) \<or> length (filter P xs) < length xs"
  by (induction xs) (auto simp: less_Suc_eq_le)

lemma kd_ok_popped:
  assumes "kd_ok env w k e" "log_ok L w" shows "kd_ok env (popped d w) k e"
proof (cases k)
  case (KFinal c)
  then show ?thesis using assms length_filter_cases [of "cmd_log w" "(<) d"]
      length_filter_le [of "(<) d" "cmd_log w"] by (auto simp: log_ok_def)
qed (use assms in auto)

lemma pc_ok_popped: "pc_ok env L w pc \<Longrightarrow> log_ok L w \<Longrightarrow> pc_ok env L (popped d w) pc"
proof (cases pc)
  case (LaunchSleep c)
  assume "pc_ok env L w pc"
  then show ?thesis using LaunchSleep by (auto intro: length_filter_bound_less)
qed (auto intro: kd_ok_popped split: xcmd.splits)

lemma app_ok_popped: "app_ok L w a \<Longrightarrow> app_ok L (popped d w) a"
  by (cases a) auto

section \<open>The outcome of a synchronisation\<close>

text \<open>Whatever way a synchronisation is through, it leaves the logs as if the commands up to the
  one synchronised had just been completed.\<close>

lemma sync_all_try_cases:
  assumes "log_ok L w" "wstate w \<noteq> kWorkerStateTerminated"
  shows "sync_all_try w = SyncDone (popped L w) \<or> sync_all_try w = SyncSleep
    \<or> (\<exists>n. sync_all_try w = SyncHw n \<and> hw_ok w n)"
proof -
  have "cmd_log w = [] \<Longrightarrow> popped L w = w" by (rule popped_id [OF _ assms(1)]) simp
  then show ?thesis using assms(2) by (auto simp: sync_all_try_def hw_ok_def split: worker_state.splits)
qed

lemma sync_all_back_cases:
  assumes "log_ok L w" "wstate w \<noteq> kWorkerStateTerminated"
  shows "sync_all_back n w = SyncDone (popped L w) \<or> sync_all_back n w = SyncSleep
    \<or> (\<exists>n'. sync_all_back n w = SyncHw n' \<and> hw_ok w n')"
  using sync_all_try_cases [OF assms] clear_logs_eq [OF assms(1)]
  by (simp add: sync_all_back_def sync_done_def)

lemma sync_cmd_try_cases:
  assumes "log_ok L w" "cmd_ok L w d"
  shows "sync_cmd_try d w = SyncDone (popped d w) \<or> sync_cmd_try d w = SyncSleep
    \<or> (\<exists>n. sync_cmd_try d w = SyncHw n \<and> hw_ok w n)
    \<or> wstate w = kWorkerStateTerminated \<and> sync_cmd_try d w = SyncDone w"
proof (cases "d \<in> set (cmd_log w)")
  case True
  then have "lw_cs w (HwCmd d) = 2" using assms(1) by (simp add: log_ok_def)
  then show ?thesis by (auto simp: sync_cmd_try_def hw_ok_def split: worker_state.splits)
next
  case False
  then have "lw_cs w (HwCmd d) = 3" "popped d w = w"
    using assms popped_id by (auto simp: cmd_ok_def)
  then show ?thesis by (simp add: sync_cmd_try_def)
qed

lemma sync_cmd_back_cases:
  assumes "log_ok L w" "cmd_ok L w d"
  shows "sync_cmd_back d n w = SyncDone (popped d w) \<or> sync_cmd_back d n w = SyncSleep
    \<or> (\<exists>n'. sync_cmd_back d n w = SyncHw n' \<and> hw_ok w n')
    \<or> wstate w = kWorkerStateTerminated \<and> sync_cmd_back d n w = SyncDone w"
  using sync_cmd_try_cases [OF assms] pop_to_eq [OF assms(1)]
  by (simp add: sync_cmd_back_def sync_done_def)

section \<open>The steps of the worker\<close>

text \<open>A step of the worker that leaves the state \<open>w\<close> and goes on at \<open>pc\<close> keeps what the other
  threads rely on in \<open>w0\<close>.\<close>

definition good :: "hw_env \<Rightarrow> int \<Rightarrow> lw \<Rightarrow> lw \<times> worker_pc \<Rightarrow> bool" where
  "good env L w0 r \<longleftrightarrow> (case r of (w, pc) \<Rightarrow>
     lw_ok env L w \<and> pc_ok env L w pc
     \<and> (\<forall>d. cmd_ok L w0 d \<longrightarrow> cmd_ok L w d) \<and> pause_count w = pause_count w0
     \<and> (wstate w = wstate w0 \<and> (wstate w = kWorkerStateTerminated \<longrightarrow> pc = Exited)
        \<or> wstate w = kWorkerStateTerminated \<and> pc = Exited))"

lemma good_popped: "good env L (popped d w) r \<Longrightarrow> good env L w r"
  unfolding good_def by (auto split: prod.splits)

lemma then_all_good:
  assumes "lw_ok env L w" "k_ok env L w k" "wstate w \<noteq> kWorkerStateTerminated"
    "r = sync_all_try w \<or> r = sync_all_back n w"
    "good env L (popped L w) (f (popped L w))"
  shows "good env L w (then_all f k w r)"
proof -
  have l: "log_ok L w" using assms(1) by (simp add: lw_ok_def)
  have "r = SyncDone (popped L w) \<or> r = SyncSleep \<or> (\<exists>n. r = SyncHw n \<and> hw_ok w n)"
    using sync_all_try_cases [OF l assms(3)] sync_all_back_cases [OF l assms(3)] assms(4) by blast
  then show ?thesis
    using assms(1-3) good_popped [OF assms(5)] by (auto simp: then_all_def good_def)
qed

lemma then_cmd_good:
  assumes "lw_ok env L w" "k_ok env L w k" "kd_ok env w k d" "cmd_ok L w d"
    "wstate w \<noteq> kWorkerStateTerminated"
    "r = sync_cmd_try d w \<or> r = sync_cmd_back d n w"
    "good env L (popped d w) (f (popped d w))"
  shows "good env L w (then_cmd f k d w r)"
proof -
  have l: "log_ok L w" using assms(1) by (simp add: lw_ok_def)
  have "r = SyncDone (popped d w) \<or> r = SyncSleep \<or> (\<exists>n. r = SyncHw n \<and> hw_ok w n)"
    using sync_cmd_try_cases [OF l assms(4)] sync_cmd_back_cases [OF l assms(4)] assms(5,6) by blast
  then show ?thesis
    using assms(1-5) good_popped [OF assms(7)] by (auto simp: then_cmd_def good_def)
qed

lemma cur_log: "cur L w c \<Longrightarrow> log_ok L w \<Longrightarrow> e \<in> set (cmd_log w) \<Longrightarrow> e < c"
  by (metis cur_def log_okD(5) order_le_less)

lemma drop_good:
  assumes "lw_ok env L w" "cur L w c" "wstate w \<noteq> kWorkerStateTerminated"
  shows "good env L w (w\<lparr> lw_cs := (lw_cs w)(HwCmd c := 3) \<rparr>, InLoop)"
  using assms by (auto simp: good_def lw_ok_defs cur_def cmd_ok_def)

lemma launch_good:
  assumes "lw_ok env L w" "cur L w c" "alone env w c" "int (length (cmd_log w)) < threshold w"
    "wstate w \<noteq> kWorkerStateTerminated" "\<forall>e. e \<noteq> c \<longrightarrow> sy e = synchronizable w e"
  shows "good env L w
    (w\<lparr> synchronizable := sy, lw_cs := (lw_cs w)(HwCmd c := 2),
        launches := launches w @ [\<lparr> l_idx = c, l_state = wstate w, l_level = lw_level w,
                                    l_log = cmd_log w \<rparr>],
        cmd_log := cmd_log w @ [c],
        sync_cmd_log := (if sy c then sync_cmd_log w @ [c] else sync_cmd_log w),
        last_synchronizable_idx := (if sy c then c else last_synchronizable_idx w) \<rparr>, InLoop)"
    (is "good env L w (?w, InLoop)")
proof -
  have l: "log_ok L w" and t: "trace_ok env L w" using assms(1) by (simp_all add: lw_ok_def)
  have c: "c = L" "c \<notin> set (cmd_log w)" "lw_cs w (HwCmd c) \<le> 1"
    "\<forall>l \<in> set (launches w). l_idx l < c" using assms(2) by (auto simp: cur_def)
  have below: "\<forall>e \<in> set (cmd_log w). e < c" using cur_log [OF assms(2) l] by blast
  have "filter sy (cmd_log w) = filter (synchronizable w) (cmd_log w)"
    by (rule filter_cong) (use c(2) assms(6) in auto)
  then have "log_ok L ?w" using l below c assms(4) by (auto simp: log_ok_def sorted_wrt_append)
  moreover have "launch_safe env \<lparr> l_idx = c, l_state = wstate w, l_level = lw_level w, l_log = cmd_log w \<rparr>"
    using assms(3) by (auto simp: launch_safe_def alone_def wait_deactivatable_def normal_def)
  then have "trace_ok env L ?w" using t c by (auto simp: trace_ok_def sorted_wrt_append)
  moreover have "cmd_ok L ?w d" if "cmd_ok L w d" for d using that c by (auto simp: cmd_ok_def)
  ultimately show ?thesis using assms(5) by (simp add: good_def lw_ok_def)
qed

lemma launch_final_good:
  assumes "lw_ok env L w" "cur L w c" "alone env w c"
    "c \<le> drop_idx w \<or> int (length (cmd_log w)) < threshold w"
    "wstate w \<noteq> kWorkerStateTerminated" "callback env c \<in> {None, Some kXSchedSuccess}"
  shows "good env L w (launch_final env c w)"
proof -
  have st: "set_cstate (HwCmd c) s (lw_cs w) = Some ((lw_cs w)(HwCmd c := s))" if "s \<in> {2, 3}" for s
    using assms(2) that by (auto simp: set_cstate_Some cur_def)
  show ?thesis
  proof (cases "c \<le> drop_idx w")
    case True
    then show ?thesis using drop_good [OF assms(1,2,5)] by (simp add: launch_final_def st)
  next
    case False
    then have "int (length (cmd_log w)) < threshold w" using assms(4) by simp
    moreover have "\<not> callback env c \<notin> {None, Some kXSchedSuccess}" using assms(6) by simp
    ultimately show ?thesis using False unfolding launch_final_def Let_def st [of 2, simplified]
      by (simp only: if_False option.case, intro launch_good [OF assms(1-3) _ assms(5)])
        (auto simp: enable_sync_def)
  qed
qed

lemma launch_wait_good:
  assumes "lw_ok env L w" "cur L w c" "alone env w c" "int (length (cmd_log w)) < threshold w"
    "wstate w \<noteq> kWorkerStateTerminated" "callback env c \<in> {None, Some kXSchedSuccess}"
  shows "good env L w (launch_wait env c w)"
  using assms launch_final_good [OF assms(1-3) _ assms(5,6)]
  by (cases "wstate w") (simp_all add: launch_wait_def, simp add: good_def)

lemma launch_full_good:
  assumes "lw_ok env L w" "cur L w c" "alone env w c"
    "wstate w \<noteq> kWorkerStateTerminated" "callback env c \<in> {None, Some kXSchedSuccess}"
  shows "good env L w (launch_full env c w)"
proof (cases "int (length (cmd_log w)) \<ge> threshold w")
  case False
  have "size_t (threshold w) = threshold w" using assms(1) by (simp add: size_t_def lw_ok_defs)
  then show ?thesis using False launch_wait_good [OF assms(1-3) _ assms(4,5)]
    by (simp add: launch_full_def)
next
  case True
  have l: "log_ok L w" using assms(1) by (simp add: lw_ok_def)
  have sz: "size_t (threshold w) = threshold w" and ne: "cmd_log w \<noteq> []"
    using assms(1) True by (auto simp: size_t_def lw_ok_defs)
  then obtain front rest where fr: "cmd_log w = front # rest" by (cases "cmd_log w") auto
  have eq: "launch_full env c w =
      sync_one_or_all (launch_final env c) (KFinal c) (find (\<lambda>d. d \<ge> front) (sync_cmd_log w)) w"
    using True by (simp add: launch_full_def sz fr)
  have small: "int (length (cmd_log (popped d w))) < threshold w" if "d \<in> set (cmd_log w)" for d
  proof -
    have "length (filter ((<) d) (cmd_log w)) < length (cmd_log w)"
      using length_filter_cases [of "cmd_log w" "(<) d"] that by auto
    then show ?thesis using l by (simp add: log_ok_def)
  qed
  show ?thesis
  proof (cases "find (\<lambda>d. d \<ge> front) (sync_cmd_log w)")
    case None
    have none: "int (length (cmd_log (popped L w))) < threshold w"
      unfolding popped_all [OF l] using l by (simp add: log_ok_def)
    have "good env L (popped L w) (launch_final env c (popped L w))"
      using launch_final_good [OF popped_ok [OF assms(1)] cur_popped [OF assms(2)]
          alone_popped [OF assms(3)] _ _ assms(5)] assms(4) none by simp
    then show ?thesis using assms unfolding eq None sync_one_or_all_def
      by simp (rule then_all_good; simp)
  next
    case (Some d)
    then have d: "d \<in> set (cmd_log w)" "synchronizable w d"
      using l nth_mem by (fastforce simp: find_Some_iff log_ok_def)+
    then have dL: "cmd_ok L w d" using log_okD(5) [OF l] by (auto simp: cmd_ok_def)
    have "good env L (popped d w) (launch_final env c (popped d w))"
      using launch_final_good [OF popped_ok [OF assms(1)] cur_popped [OF assms(2)]
          alone_popped [OF assms(3)] _ _ assms(5)] assms(4) small [OF d(1)] by simp
    then show ?thesis using assms d dL unfolding eq Some sync_one_or_all_def sync_cmd_def
      by simp (rule then_cmd_good; simp)
  qed
qed

lemma scan_none: "scan_deactivatable sy de r xs = (False, r') \<Longrightarrow> \<forall>e \<in> set xs. \<not> de e"
  by (induction xs arbitrary: r) (auto simp: Let_def split: if_splits)

lemma scan_some:
  "scan_deactivatable sy de r xs = (True, Some d) \<Longrightarrow> sorted_wrt (>) xs
    \<Longrightarrow> \<forall>d. r = Some d \<longrightarrow> (\<forall>x \<in> set xs. x < d)
    \<Longrightarrow> (\<forall>e \<in> set xs. de e \<longrightarrow> e \<le> d) \<and> (r = Some d \<or> d \<in> set xs \<and> sy d)"
proof (induction xs arbitrary: r)
  case (Cons c cs)
  show ?case
  proof (cases "de c")
    case True
    then show ?thesis using Cons.prems by (auto split: if_splits)
  next
    case False
    have "(\<forall>e \<in> set cs. de e \<longrightarrow> e \<le> d)
        \<and> ((if sy c then Some c else r) = Some d \<or> d \<in> set cs \<and> sy d)"
      using Cons.prems False by (intro Cons.IH) (auto split: if_splits)
    then show ?thesis using False by (auto split: if_splits)
  qed
qed simp

lemma LaunchHwCommand_good:
  assumes "lw_ok env L w" "cur L w c"
    "wstate w \<noteq> kWorkerStateTerminated" "callback env c \<in> {None, Some kXSchedSuccess}"
  shows "good env L w (LaunchHwCommand env c w)"
proof (cases "wait_deactivatable env w c")
  case False
  then show ?thesis using launch_full_good [OF assms(1,2) _ assms(3,4)]
    by (simp add: LaunchHwCommand_def alone_def)
next
  case wait: True
  have l: "log_ok L w" using assms(1) by (simp add: lw_ok_def)
  have full: "good env L (popped d w) (launch_full env c (popped d w))" if "alone env (popped d w) c" for d
    using launch_full_good [OF popped_ok [OF assms(1)] cur_popped [OF assms(2)] that _ assms(4)] assms(3)
    by simp
  obtain b r where scan:
    "scan_deactivatable (synchronizable w) (deactivatable env) None (rev (cmd_log w)) = (b, r)"
    by fastforce
  show ?thesis
  proof (cases b)
    case False
    then have "alone env w c" using scan_none scan by (fastforce simp: alone_def)
    then show ?thesis using launch_full_good [OF assms(1,2) _ assms(3,4)] scan wait False
      by (simp add: LaunchHwCommand_def)
  next
    case True
    then have eq: "LaunchHwCommand env c w = sync_one_or_all (launch_full env c) (KFull c) r w"
      using scan wait by (simp add: LaunchHwCommand_def)
    show ?thesis
    proof (cases r)
      case None
      have "alone env (popped L w) c" unfolding alone_def popped_all [OF l] by simp
      from full [OF this] show ?thesis using assms unfolding eq None sync_one_or_all_def
        by simp (rule then_all_good; simp)
    next
      case (Some d)
      have "sorted_wrt (>) (rev (cmd_log w))" using log_okD(1) [OF l] by (simp add: sorted_wrt_rev)
      with scan True Some have d: "\<forall>e \<in> set (cmd_log w). deactivatable env e \<longrightarrow> e \<le> d"
        "d \<in> set (cmd_log w)" "synchronizable w d"
        using scan_some [of "synchronizable w" "deactivatable env" None "rev (cmd_log w)" d] by auto
      have "alone env (popped d w) c" using d(1) by (auto simp: alone_def)
      moreover have "cmd_ok L w d" using d(2) log_okD(5) [OF l] by (auto simp: cmd_ok_def)
      ultimately show ?thesis using assms d full [of d] unfolding eq Some sync_one_or_all_def sync_cmd_def
        by simp (rule then_cmd_good; simp)
    qed
  qed
qed

text \<open>The other commands.\<close>

lemma set_other_good:
  assumes "lw_ok env L w" "cmd_type x \<noteq> kCommandTypeHardware" "s \<le> 3"
    "pc_ok env L (w\<lparr> lw_cs := (lw_cs w)(x := s) \<rparr>) pc"
    "wstate w = kWorkerStateTerminated \<longrightarrow> pc = Exited"
  shows "good env L w (w\<lparr> lw_cs := (lw_cs w)(x := s) \<rparr>, pc)"
proof -
  have "HwCmd c \<noteq> x" for c using assms(2) by auto
  then show ?thesis using assms by (auto simp: good_def lw_ok_defs cmd_ok_def)
qed

lemma finish_good:
  assumes "lw_ok env L w" "cmd_type x \<noteq> kCommandTypeHardware" "wstate w \<noteq> kWorkerStateTerminated"
  shows "good env L w (finish x InLoop w)"
proof -
  have "lw_cs w x \<le> 3" using assms(1) by (simp add: lw_ok_defs)
  then have "finish x InLoop w = (w\<lparr> lw_cs := (lw_cs w)(x := 3) \<rparr>, InLoop)"
    using set_cstate_Some [of x 3 "lw_cs w" "(lw_cs w)(x := 3)"] by (simp add: finish_def)
  then show ?thesis using set_other_good [OF assms(1,2), of 3 InLoop] assms(3) by simp
qed

lemma finish_destroy_good:
  assumes "lw_ok env L w" "cmd_type x \<noteq> kCommandTypeHardware"
  shows "good env L w (finish x Exited (w\<lparr> wstate := kWorkerStateTerminated \<rparr>))"
proof -
  have "lw_cs w x \<le> 3" using assms(1) by (simp add: lw_ok_defs)
  then have "finish x Exited (w\<lparr> wstate := kWorkerStateTerminated \<rparr>)
      = (w\<lparr> wstate := kWorkerStateTerminated, lw_cs := (lw_cs w)(x := 3) \<rparr>, Exited)"
    using set_cstate_Some [of x 3 "lw_cs w" "(lw_cs w)(x := 3)"] by (simp add: finish_def)
  moreover have "HwCmd c \<noteq> x" for c using assms(2) by auto
  ultimately show ?thesis using assms(1) by (auto simp: good_def lw_ok_defs cmd_ok_def)
qed

definition callbacks_succeed :: "hw_env \<Rightarrow> bool" where
  "callbacks_succeed env \<longleftrightarrow> (\<forall>c. callback env c \<in> {None, Some kXSchedSuccess})"

text \<open>What follows a synchronisation.\<close>

lemma run_cont_good:
  assumes "lw_ok env L w" "k_ok env L w k" "wstate w \<noteq> kWorkerStateTerminated" "callbacks_succeed env"
    "\<forall>c. k = KFinal c \<longrightarrow> int (length (cmd_log w)) < threshold w"
    "\<forall>c. k = KFull c \<longrightarrow> alone env w c"
  shows "good env L w (run_cont env k w)"
proof -
  have cb: "callback env c \<in> {None, Some kXSchedSuccess}" for c
    using assms(4) unfolding callbacks_succeed_def by blast
  show ?thesis
  proof (cases k)
    case (KFull c)
    then show ?thesis using launch_full_good [OF assms(1) _ _ assms(3) cb, of c] assms(2,6) by simp
  next
    case (KFinal c)
    then show ?thesis using launch_final_good [OF assms(1) _ _ _ assms(3) cb, of c] assms(2,5) by simp
  next
    case (KDestroy x)
    then show ?thesis using finish_destroy_good [OF assms(1)] assms(2) by simp
  qed (use finish_good [OF assms(1) _ assms(3)] assms(2) in simp_all)
qed

lemma run_cont_all_good:
  assumes "lw_ok env L w" "k_ok env L w k" "wstate w \<noteq> kWorkerStateTerminated" "callbacks_succeed env"
  shows "good env L (popped L w) (run_cont env k (popped L w))"
proof -
  have e: "cmd_log (popped L w) = []" using assms(1) by (intro popped_all) (simp add: lw_ok_def)
  have "1 \<le> threshold w" using assms(1) by (simp add: lw_ok_defs)
  then show ?thesis
    using assms e by (intro run_cont_good) (auto simp del: popped_simps(10) simp: alone_def)
qed

lemma run_cont_cmd_good:
  assumes "lw_ok env L w" "k_ok env L w k" "kd_ok env w k d"
    "wstate w \<noteq> kWorkerStateTerminated" "callbacks_succeed env"
  shows "good env L (popped d w) (run_cont env k (popped d w))"
proof -
  have "log_ok L w" using assms(1) by (simp add: lw_ok_def)
  then have "kd_ok env (popped d w) k d" by (rule kd_ok_popped [OF assms(3)])
  then show ?thesis using assms
    by (intro run_cont_good) (auto simp: alone_def)
qed

lemma worker_go_good:
  assumes "lw_ok env L w" "pc_ok env L w pc" "wstate w \<noteq> kWorkerStateTerminated"
    "callbacks_succeed env" "worker_go env pc w = Some r"
  shows "good env L w r"
proof -
  have cb: "callback env c \<in> {None, Some kXSchedSuccess}" for c
    using assms(4) unfolding callbacks_succeed_def by blast
  have l: "log_ok L w" using assms(1) by (simp add: lw_ok_def)
  have all: "good env L w (then_all (run_cont env k) k w r)"
    if "k_ok env L w k" "r = sync_all_try w \<or> r = sync_all_back n w" for k r n
    by (rule then_all_good [OF assms(1) that(1) assms(3) that(2)])
      (rule run_cont_all_good [OF assms(1) that(1) assms(3,4)])
  have cmd: "good env L w (then_cmd (run_cont env k) k d w r)"
    if "k_ok env L w k" "kd_ok env w k d" "cmd_ok L w d"
      "r = sync_cmd_try d w \<or> r = sync_cmd_back d n w" for k d r n
    by (rule then_cmd_good [OF assms(1) that(1-3) assms(3) that(4)])
      (rule run_cont_cmd_good [OF assms(1) that(1,2) assms(3,4)])
  show ?thesis
  proof (cases pc)
    case (Taken x)
    show ?thesis
    proof (cases x)
      case (HwCmd c)
      then show ?thesis using LaunchHwCommand_good [OF assms(1) _ assms(3) cb, of c] assms(2,5) Taken
        by simp
    next
      case (BatchCmd n)
      show ?thesis
      proof (cases "sync_cmd_log w")
        case Nil
        then show ?thesis using assms BatchCmd Taken by (auto simp: good_def)
      next
        case (Cons d ds)
        then have "d \<in> set (cmd_log w) \<and> synchronizable w d"
          using l by (metis (no_types, lifting) filter_eq_ConsD in_set_conv_decomp log_ok_def)
        then have d: "d \<in> set (cmd_log w)" "synchronizable w d" "cmd_ok L w d"
          using log_okD(5) [OF l] by (auto simp: cmd_ok_def)
        have "good env L w (then_cmd (run_cont env (KBatch x)) (KBatch x) d w (sync_cmd_try d w))"
          by (rule cmd [where n = 0]) (simp_all add: BatchCmd d)
        then show ?thesis using assms(5) Taken BatchCmd Cons d(2) by (simp add: sync_cmd_def)
      qed
    next
      case (HostCmd n)
      have "good env L w (then_all (run_cont env (KHost x)) (KHost x) w (sync_all_try w))"
        by (rule all [where n = 0]) (simp_all add: HostCmd)
      then show ?thesis using assms(5) Taken HostCmd by simp
    next
      case (WaitAllCmd n)
      have "good env L w (then_all (run_cont env (KWaitAll x)) (KWaitAll x) w (sync_all_try w))"
        by (rule all [where n = 0]) (simp_all add: WaitAllCmd)
      then show ?thesis using assms(5) Taken WaitAllCmd by simp
    next
      case (DestroyCmd n)
      have "good env L w (then_all (run_cont env (KDestroy x)) (KDestroy x) w (sync_all_try w))"
        by (rule all [where n = 0]) (simp_all add: DestroyCmd)
      then show ?thesis using assms(5) Taken DestroyCmd by simp
    qed
  next
    case (LaunchSleep c)
    then show ?thesis using launch_wait_good [OF assms(1) _ _ _ assms(3) cb, of c] assms(2,5) by simp
  next
    case (CmdHw k d n)
    then show ?thesis using assms(2,5) cmd [of k d "sync_cmd_back d n w" n] by auto
  qed (use assms(2,5) all cmd in auto)
qed

section \<open>All steps\<close>

text \<open>Changes that leave the logs and the states of the commands alone.\<close>

definition same_log :: "lw \<Rightarrow> lw \<Rightarrow> bool" where
  "same_log w w' \<longleftrightarrow> cmd_log w' = cmd_log w \<and> lw_cs w' = lw_cs w \<and> launches w' = launches w
     \<and> sync_cmd_log w' = sync_cmd_log w \<and> synchronizable w' = synchronizable w
     \<and> 1 \<le> threshold w' \<and> threshold w' < 2 ^ 63
     \<and> (cmd_log w = [] \<or> threshold w' = threshold w \<and> lw_level w' = lw_level w)
     \<and> (\<forall>n. hw_ok w n \<longrightarrow> hw_ok w' n)"

lemma same_log_cmd_ok: "same_log w w' \<Longrightarrow> cmd_ok L w d \<Longrightarrow> cmd_ok L w' d"
  by (simp add: same_log_def cmd_ok_def)

lemma same_log_cur: "same_log w w' \<Longrightarrow> cur L w c \<Longrightarrow> cur L w' c"
  by (simp add: same_log_def cur_def)

lemma same_log_alone: "same_log w w' \<Longrightarrow> alone env w c \<Longrightarrow> alone env w' c"
  by (auto simp: same_log_def alone_def wait_deactivatable_def)

lemma same_log_k_ok: "same_log w w' \<Longrightarrow> k_ok env L w k \<Longrightarrow> k_ok env L w' k"
  by (cases k) (auto simp: same_log_cur same_log_alone)

lemma same_log_kd_ok: "same_log w w' \<Longrightarrow> kd_ok env w k d \<Longrightarrow> kd_ok env w' k d"
  by (cases k) (auto simp: same_log_def wait_deactivatable_def)

lemma same_log_hw_ok: "same_log w w' \<Longrightarrow> hw_ok w n \<Longrightarrow> hw_ok w' n"
  by (simp add: same_log_def)

lemmas same_log_intros = same_log_cmd_ok same_log_cur same_log_alone same_log_k_ok same_log_kd_ok
  same_log_hw_ok

lemma same_log_pc_ok: "same_log w w' \<Longrightarrow> pc_ok env L w pc \<Longrightarrow> pc_ok env L w' pc"
proof (cases pc)
  case (LaunchSleep c)
  assume a: "same_log w w'" "pc_ok env L w pc"
  then have "int (length (cmd_log w')) < threshold w'" using LaunchSleep by (auto simp: same_log_def)
  then show ?thesis using LaunchSleep a by (auto intro: same_log_intros)
qed (auto intro: same_log_intros split: xcmd.splits)

lemma same_log_app_ok: "same_log w w' \<Longrightarrow> app_ok L w a \<Longrightarrow> app_ok L w' a"
  by (cases a) (auto intro: same_log_intros)

lemma same_log_lw_ok: "same_log w w' \<Longrightarrow> lw_ok env L w \<Longrightarrow> lw_ok env L w'"
  by (auto simp: same_log_def lw_ok_defs)

lemma lsys_ok_same_log:
  assumes "lsys_ok env s" "same_log (ls_lw s) w'"
    "wstate w' = kWorkerStateTerminated \<longrightarrow> ls_pc s = Exited"
  shows "lsys_ok env (s\<lparr> ls_lw := w' \<rparr>)"
  using assms same_log_pc_ok [OF assms(2)] same_log_app_ok [OF assms(2)] same_log_lw_ok [OF assms(2)]
  by (simp add: lsys_ok_def)

lemma lsys_ok_popped:
  assumes "lsys_ok env s" shows "lsys_ok env (s\<lparr> ls_lw := popped d (ls_lw s) \<rparr>)"
proof -
  have "log_ok (ls_taken s) (ls_lw s)" using assms by (simp add: lsys_ok_def lw_ok_def)
  then show ?thesis using assms by (auto simp: lsys_ok_def app_ok_popped pc_ok_popped)
qed

text \<open>The steps of the threads of the application.\<close>

lemma app_next_ok:
  assumes "lsys_ok env s" "cmd_ok (ls_taken s) (ls_lw s) d"
    "r = sync_cmd_try d (ls_lw s) \<or> r = sync_cmd_back d n (ls_lw s)"
    "app_next d (ls_lw s) r = (w', a)"
  shows "lsys_ok env (s\<lparr> ls_lw := w', ls_apps := (ls_apps s)(i := a) \<rparr>)"
proof -
  let ?L = "ls_taken s" and ?w = "ls_lw s"
  have l: "log_ok ?L ?w" using assms(1) by (simp add: lsys_ok_def lw_ok_def)
  have r: "r = SyncDone (popped d ?w) \<or> r = SyncSleep \<or> (\<exists>n. r = SyncHw n \<and> hw_ok ?w n)
      \<or> r = SyncDone ?w"
    using sync_cmd_try_cases [OF l assms(2)] sync_cmd_back_cases [OF l assms(2)] assms(3) by blast
  then have "(w' = popped d ?w \<or> w' = ?w) \<and> app_ok ?L w' a"
    using assms(2,4) by (auto simp: app_next_def)
  then show ?thesis using assms(1) lsys_ok_popped [OF assms(1), of d] by (auto simp: lsys_ok_def)
qed

lemma lsys_ok_worker:
  assumes "lsys_ok env s" "good env (ls_taken s) (ls_lw s) (w', pc')"
  shows "lsys_ok env (s\<lparr> ls_lw := w', ls_pc := pc' \<rparr>)"
proof -
  have "app_ok (ls_taken s) w' (ls_apps s i)" for i
    using assms by (cases "ls_apps s i") (auto simp: lsys_ok_def good_def hw_ok_def dest: spec [of _ i])
  then show ?thesis using assms by (auto simp: lsys_ok_def good_def)
qed

lemma lw_ok_mono: "lw_ok env L w \<Longrightarrow> L \<le> M \<Longrightarrow> lw_ok env M w"
  by (auto simp: lw_ok_defs)

lemma cmd_ok_mono: "cmd_ok L w d \<Longrightarrow> L \<le> M \<Longrightarrow> cmd_ok M w d"
  by (auto simp: cmd_ok_def)

lemma app_ok_mono: "app_ok L w a \<Longrightarrow> L \<le> M \<Longrightarrow> app_ok M w a"
  by (cases a) (auto intro: cmd_ok_mono)

lemma take_ok:
  assumes "lsys_ok env s" "lw_exec env (Take x) s = Some s'"
  shows "lsys_ok env s'"
proof -
  let ?w = "ls_lw s"
  have pc: "ls_pc s = InLoop" and cs: "lw_cs ?w x \<le> 1" and ok: "lw_ok env (ls_taken s) ?w"
    using assms by (auto simp: lsys_ok_def split: if_splits)
  have nt: "wstate ?w \<noteq> kWorkerStateTerminated" using assms(1) pc by (auto simp: lsys_ok_def)
  show ?thesis
  proof (cases "cmd_type x = kCommandTypeHardware")
    case True
    then obtain c where x: "x = HwCmd c" by (cases x) auto
    have c: "ls_taken s < c" and s': "s' = s\<lparr> ls_pc := Taken x, ls_taken := c \<rparr>"
      using assms(2) by (auto simp: x worker_take_def split: if_splits)
    have "cur c ?w c" using ok cs c by (fastforce simp: cur_def lw_ok_defs x)
    then show ?thesis using assms(1) c nt lw_ok_mono [OF ok, of c]
      by (auto simp: lsys_ok_def s' x intro: app_ok_mono)
  next
    case False
    have "worker_take x ?w = (?w\<lparr> lw_cs := (lw_cs ?w)(x := 2) \<rparr>, Taken x)"
      using False cs set_cstate_Some [of x 2 "lw_cs ?w" "(lw_cs ?w)(x := 2)"]
      by (simp add: worker_take_def)
    then have s': "s' = s\<lparr> ls_lw := ?w\<lparr> lw_cs := (lw_cs ?w)(x := 2) \<rparr>, ls_pc := Taken x \<rparr>"
      using assms(2) False by (auto split: if_splits xcmd.splits)
    have "good env (ls_taken s) ?w (?w\<lparr> lw_cs := (lw_cs ?w)(x := 2) \<rparr>, Taken x)"
      using False nt by (intro set_other_good [OF ok False]) (auto split: xcmd.splits)
    then show ?thesis unfolding s' by (rule lsys_ok_worker [OF assms(1)])
  qed
qed

lemma lw_exec_ok:
  assumes "lsys_ok env s" "callbacks_succeed env" "lw_exec env a s = Some s'"
  shows "lsys_ok env s'"
proof -
  let ?L = "ls_taken s" and ?w = "ls_lw s"
  have ok: "lw_ok env ?L ?w" "log_ok ?L ?w" and pc: "pc_ok env ?L ?w (ls_pc s)"
    and t: "wstate ?w = kWorkerStateTerminated \<longrightarrow> ls_pc s = Exited"
    and apps: "\<And>i. app_ok ?L ?w (ls_apps s i)"
    using assms(1) by (auto simp: lsys_ok_def lw_ok_def)
  show ?thesis
  proof (cases a)
    case (Take x)
    then show ?thesis using take_ok [OF assms(1)] assms(3) by blast
  next
    case Go
    then obtain w' pc' where 1: "worker_go env (ls_pc s) ?w = Some (w', pc')"
      and s': "s' = s\<lparr> ls_lw := w', ls_pc := pc' \<rparr>" using assms(3) by (auto split: option.splits)
    have "wstate ?w \<noteq> kWorkerStateTerminated" using t 1 by auto
    from worker_go_good [OF ok(1) pc this assms(2) 1] show ?thesis
      unfolding s' by (rule lsys_ok_worker [OF assms(1)])
  next
    case (AppSync i d)
    then have d: "synchronizable ?w d" "lw_cs ?w (HwCmd d) \<ge> 2"
      and s': "case SyncCmd d ?w of (w, pc) \<Rightarrow> s' = s\<lparr> ls_lw := w, ls_apps := (ls_apps s)(i := pc) \<rparr>"
      using assms(3) by (auto split: if_splits prod.splits)
    obtain w' p where 1: "SyncCmd d ?w = (w', p)" by fastforce
    show ?thesis
    proof (cases "lw_cs ?w (HwCmd d) = 2")
      case True
      then have "cmd_ok ?L ?w d" using ok(2) by (auto simp: log_ok_def cmd_ok_def)
      from app_next_ok [OF assms(1) this, of "sync_cmd_try d ?w" 0 w' p i] show ?thesis
        using s' 1 d(1) by (simp add: SyncCmd_def sync_cmd_def)
    next
      case False
      have "sync_cmd d ?w = SyncDone ?w" using False d by (simp add: sync_cmd_def sync_cmd_try_def)
      then have "s' = s\<lparr> ls_apps := (ls_apps s)(i := AppIdle) \<rparr>"
        using s' by (simp add: SyncCmd_def app_next_def)
      then show ?thesis using assms(1) by (auto simp: lsys_ok_def)
    qed
  next
    case (AppGo i)
    then obtain w' p where 1: "app_go (ls_apps s i) ?w = Some (w', p)"
      and s': "s' = s\<lparr> ls_lw := w', ls_apps := (ls_apps s)(i := p) \<rparr>"
      using assms(3) by (auto split: option.splits)
    show ?thesis
    proof (cases "ls_apps s i")
      case (AppSleep d)
      then show ?thesis using 1 apps [of i] app_next_ok [OF assms(1), of d "sync_cmd_try d ?w" 0 w' p i] unfolding s'
        by simp
    next
      case (AppHw d n)
      then show ?thesis using 1 apps [of i] app_next_ok [OF assms(1), of d "sync_cmd_back d n ?w" n w' p i] unfolding s'
        by simp
    qed (use 1 in simp_all)
  next
    case DoPause
    then show ?thesis using assms(1,3) ok(2)
      by (auto simp: same_log_def Pause_def hw_ok_def log_ok_def split: if_splits
          intro!: lsys_ok_same_log)
  next
    case DoResume
    then show ?thesis using assms(1,3) ok(2)
      by (auto simp: same_log_def Resume_def hw_ok_def log_ok_def split: if_splits
          intro!: lsys_ok_same_log)
  next
    case (DoResumeAndDrop d)
    let ?w1 = "popped ?L ?w"
    let ?w2 = "?w1\<lparr> drop_idx := d, wstate := kWorkerStateRunning \<rparr>"
    have s': "s' = s\<lparr> ls_lw := ?w2 \<rparr>" using DoResumeAndDrop assms(3) clear_logs_eq [OF ok(2)]
      by (auto simp: ResumeAndDrop_def split: if_splits)
    have "same_log ?w1 ?w2" using ok(2) by (auto simp: same_log_def hw_ok_def log_ok_def)
    then show ?thesis using lsys_ok_same_log [OF lsys_ok_popped [OF assms(1), of ?L], of ?w2]
      by (simp add: s')
  next
    case (DoSetLevel l)
    then show ?thesis using assms(1,3) ok(2) t
      by (auto simp: same_log_def lw_SetPreemptLevel_def hw_ok_def log_ok_def split: if_splits
          intro!: lsys_ok_same_log)
  next
    case (DoSetConfig th n)
    then show ?thesis using assms(1,3) ok(2) t
      by (auto simp: same_log_def lw_SetLaunchConfig_def hw_ok_def log_ok_def split: if_splits
          intro!: lsys_ok_same_log)
  qed
qed

section \<open>Runs\<close>

fun lw_run :: "hw_env \<Rightarrow> lw_act list \<Rightarrow> lsys \<Rightarrow> lsys option" where
  "lw_run env [] s = Some s"
| "lw_run env (a # acts) s =
     (case lw_exec env a s of None \<Rightarrow> None | Some s' \<Rightarrow> lw_run env acts s')"

lemma lw_run_ok:
  "lw_run env acts s = Some s' \<Longrightarrow> lsys_ok env s \<Longrightarrow> callbacks_succeed env \<Longrightarrow> lsys_ok env s'"
  by (induction acts arbitrary: s) (auto split: option.splits intro: lw_exec_ok)

text \<open>A worker as it is created, none of its commands launched yet.\<close>

definition fresh :: "lw \<Rightarrow> int \<Rightarrow> int \<Rightarrow> int \<Rightarrow> cstates \<Rightarrow> (int \<Rightarrow> bool) \<Rightarrow> bool" where
  "fresh w l t n cs sy \<longleftrightarrow> LaunchWorker_new l t n cs sy = Some w \<and> 1 \<le> t \<and> t < 2 ^ 63
     \<and> (\<forall>x. cs x \<le> kCommandStatePending)"

lemma lsys_init_ok: "fresh w l t n cs sy \<Longrightarrow> lsys_ok env (lsys_init w)"
proof -
  assume f: "fresh w l t n cs sy"
  then have "cs x \<noteq> 2 \<and> cs x \<le> 3" for x
  proof -
    have "cs x \<le> 1" using f by (simp add: fresh_def)
    then show ?thesis by linarith
  qed
  then show ?thesis using f
    by (auto simp: fresh_def LaunchWorker_new_def lsys_ok_def lsys_init_def lw_ok_defs split: if_splits)
qed

lemma fresh_run_ok:
  assumes "fresh w l t n cs sy" "callbacks_succeed env" "lw_run env acts (lsys_init w) = Some s"
  shows "lsys_ok env s"
  using lw_run_ok [OF assms(3) lsys_init_ok [OF assms(1)] assms(2)] .

section \<open>Barriers\<close>

text \<open>The states of other commands than those for the hardware, in the steps for the latter.\<close>

definition other_same :: "lw \<Rightarrow> lw \<times> worker_pc \<Rightarrow> bool" where
  "other_same w r \<longleftrightarrow> wstate (fst r) = wstate w
     \<and> (\<forall>x. cmd_type x \<noteq> kCommandTypeHardware \<longrightarrow> lw_cs (fst r) x = lw_cs w x)"

lemma other_same_refl [simp]: "other_same w (w, pc)"
  by (simp add: other_same_def)

lemma other_same_popped: "other_same (popped d w) r \<Longrightarrow> other_same w r"
  by (simp add: other_same_def popped_cs_other)

lemma launch_final_other: "other_same w (launch_final env c w)"
  by (auto simp: other_same_def launch_final_def Let_def set_cstate_Some split: option.splits)

lemma launch_wait_other: "other_same w (launch_wait env c w)"
  by (simp add: launch_wait_def launch_final_other split: worker_state.split)

lemma then_all_other:
  assumes "log_ok L w" "wstate w \<noteq> kWorkerStateTerminated"
    "r = sync_all_try w \<or> r = sync_all_back n w" "other_same (popped L w) (f (popped L w))"
  shows "other_same w (then_all f k w r)"
  using sync_all_try_cases [OF assms(1,2)] sync_all_back_cases [OF assms(1,2), of n] assms(3)
    other_same_popped [OF assms(4)] by (auto simp: then_all_def)

lemma then_cmd_other:
  assumes "log_ok L w" "wstate w \<noteq> kWorkerStateTerminated" "cmd_ok L w d"
    "r = sync_cmd_try d w \<or> r = sync_cmd_back d n w" "other_same (popped d w) (f (popped d w))"
  shows "other_same w (then_cmd f k d w r)"
  using sync_cmd_try_cases [OF assms(1,3)] sync_cmd_back_cases [OF assms(1,3), of n] assms(2,4)
    other_same_popped [OF assms(5)] by (auto simp: then_cmd_def)

text \<open>The ways through \<^verbatim>\<open>LaunchHwCommand\<close>.\<close>

lemma launch_full_cases:
  assumes "log_ok L w"
  obtains "launch_full env c w = launch_wait env c w"
  | "launch_full env c w = then_all (launch_final env c) (KFinal c) w (sync_all_try w)"
  | d where "d \<in> set (cmd_log w)" "cmd_ok L w d"
      "launch_full env c w = then_cmd (launch_final env c) (KFinal c) d w (sync_cmd_try d w)"
proof (cases "size_t (threshold w) \<le> int (length (cmd_log w))")
  case False
  then show ?thesis using that(1) by (simp add: launch_full_def)
next
  case True
  then have "cmd_log w \<noteq> []" using assms by (auto simp: size_t_def log_ok_def)
  then obtain front rest where fr: "cmd_log w = front # rest" by (cases "cmd_log w") auto
  show ?thesis
  proof (cases "find (\<lambda>d. d \<ge> front) (sync_cmd_log w)")
    case None
    then show ?thesis using True that(2) by (simp add: launch_full_def fr sync_one_or_all_def)
  next
    case (Some d)
    then have d: "d \<in> set (cmd_log w)" "synchronizable w d"
      using assms nth_mem by (fastforce simp: find_Some_iff log_ok_def)+
    moreover have "cmd_ok L w d" using d log_okD(5) [OF assms] by (auto simp: cmd_ok_def)
    ultimately show ?thesis using True Some that(3) [of d]
      by (simp add: launch_full_def fr sync_one_or_all_def sync_cmd_def)
  qed
qed

lemma LaunchHwCommand_cases:
  assumes "log_ok L w"
  obtains "LaunchHwCommand env c w = launch_full env c w"
  | "LaunchHwCommand env c w = then_all (launch_full env c) (KFull c) w (sync_all_try w)"
  | d where "d \<in> set (cmd_log w)" "cmd_ok L w d"
      "LaunchHwCommand env c w = then_cmd (launch_full env c) (KFull c) d w (sync_cmd_try d w)"
proof -
  obtain b r where scan:
    "scan_deactivatable (synchronizable w) (deactivatable env) None (rev (cmd_log w)) = (b, r)"
    by fastforce
  show ?thesis
  proof (cases "wait_deactivatable env w c \<and> b")
    case False
    then show ?thesis using that(1) scan by (cases b) (auto simp: LaunchHwCommand_def)
  next
    case True
    then have eq: "LaunchHwCommand env c w = sync_one_or_all (launch_full env c) (KFull c) r w"
      using scan by (simp add: LaunchHwCommand_def)
    show ?thesis
    proof (cases r)
      case None
      then show ?thesis using that(2) eq by (simp add: sync_one_or_all_def)
    next
      case (Some d)
      have "sorted_wrt (>) (rev (cmd_log w))" using log_okD(1) [OF assms] by (simp add: sorted_wrt_rev)
      with scan True Some have d: "d \<in> set (cmd_log w)" "synchronizable w d"
        using scan_some [of "synchronizable w" "deactivatable env" None "rev (cmd_log w)" d] by auto
      moreover have "cmd_ok L w d" using d log_okD(5) [OF assms] by (auto simp: cmd_ok_def)
      ultimately show ?thesis using that(3) [of d] eq Some by (simp add: sync_one_or_all_def sync_cmd_def)
    qed
  qed
qed

lemma log_ok_popped: "lw_ok env L w \<Longrightarrow> log_ok L (popped d w)"
  using popped_ok [of env L w d] by (simp add: lw_ok_def)

lemma launch_full_other:
  assumes "lw_ok env L w" "wstate w \<noteq> kWorkerStateTerminated"
  shows "other_same w (launch_full env c w)"
proof -
  have l: "log_ok L w" using assms(1) by (simp add: lw_ok_def)
  show ?thesis
    by (rule launch_full_cases [OF l, of env c]; simp only:)
      (auto intro: launch_wait_other then_all_other [OF l assms(2), where n = 0]
        then_cmd_other [OF l assms(2), where n = 0] launch_final_other)
qed

lemma LaunchHwCommand_other:
  assumes "lw_ok env L w" "wstate w \<noteq> kWorkerStateTerminated"
  shows "other_same w (LaunchHwCommand env c w)"
proof -
  have l: "log_ok L w" using assms(1) by (simp add: lw_ok_def)
  have f: "other_same (popped d w) (launch_full env c (popped d w))" for d
    using launch_full_other [OF popped_ok [OF assms(1)]] assms(2) by simp
  show ?thesis
    by (rule LaunchHwCommand_cases [OF l, of env c]; simp only:)
      (auto intro: launch_full_other [OF assms] then_all_other [OF l assms(2), where n = 0]
        then_cmd_other [OF l assms(2), where n = 0] f)
qed

lemma finish_all_other:
  "\<forall>y. y \<noteq> x \<longrightarrow> lw_cs (fst (finish x pc w)) y = lw_cs w y"
  "cmd_log (fst (finish x pc w)) = cmd_log w" "wstate (fst (finish x pc w)) = wstate w"
  by (auto simp: finish_def set_cstate_Some split: option.splits)

definition barrier :: "xcmd \<Rightarrow> bool" where
  "barrier x \<longleftrightarrow>
     cmd_type x \<in> {kCommandTypeHostFunction, kCommandTypeXQueueWaitAll, kCommandTypeXQueueDestroy}"

text \<open>When a synchronisation is through the worker is running.\<close>

lemma sync_all_done_running:
  assumes "wstate w \<noteq> kWorkerStateTerminated" "log_ok L w"
    "r = sync_all_try w \<or> hw_ok w n \<and> r = sync_all_back n w" "r = SyncDone w'"
  shows "w' = popped L w \<and> wstate w = kWorkerStateRunning"
proof -
  have "w' = popped L w"
    using sync_all_try_cases [OF assms(2,1)] sync_all_back_cases [OF assms(2,1), of n] assms(3,4) by auto
  moreover have "sync_all_try w = SyncDone w' \<Longrightarrow> wstate w = kWorkerStateRunning"
    using assms(1) by (simp add: sync_all_try_def split: worker_state.splits)
  moreover have "hw_ok w n \<Longrightarrow> n = pause_count w \<Longrightarrow> wstate w = kWorkerStateRunning"
    using assms(1) by (cases "wstate w") (simp_all add: hw_ok_def)
  ultimately show ?thesis using assms(3,4) by (auto simp: sync_all_back_def split: if_splits)
qed

definition waited :: "xcmd \<Rightarrow> lw \<Rightarrow> lw \<times> worker_pc \<Rightarrow> bool" where
  "waited x w r \<longleftrightarrow> lw_cs (fst r) x = lw_cs w x \<and> wstate (fst r) = wstate w
     \<or> cmd_log (fst r) = [] \<and> wstate w = kWorkerStateRunning"

lemma other_same_waited: "barrier x \<Longrightarrow> other_same w r \<Longrightarrow> waited x w r"
  by (auto simp: other_same_def waited_def barrier_def)

lemma then_all_waited:
  assumes "lw_ok env L w" "wstate w \<noteq> kWorkerStateTerminated" "barrier x"
    "r = sync_all_try w \<or> hw_ok w n \<and> r = sync_all_back n w"
  shows "waited x w (then_all (run_cont env k) k w r)"
proof -
  have l: "log_ok L w" using assms(1) by (simp add: lw_ok_def)
  have r: "r = sync_all_try w \<or> r = sync_all_back n w" using assms(4) by blast
  have e: "cmd_log (popped L w) = []" by (rule popped_all [OF l])
  have same: "other_same w (then_all (run_cont env k) k w r)"
    if "other_same (popped L w) (run_cont env k (popped L w))"
    by (rule then_all_other [where f = "run_cont env k", OF l assms(2) r that])
  have fin: "waited x w (then_all (run_cont env k) k w r)"
    if "cmd_log (fst (run_cont env k (popped L w))) = []"
  proof (cases r)
    case (SyncDone w')
    from sync_all_done_running [OF assms(2) l assms(4) this] show ?thesis
      using SyncDone that by (simp add: waited_def then_all_def)
  qed (simp_all add: waited_def then_all_def)
  show ?thesis
  proof (cases k)
    case (KFull c)
    have "other_same (popped L w) (run_cont env k (popped L w))"
      unfolding KFull run_cont.simps by (rule launch_full_other [OF popped_ok [OF assms(1)]]) (simp add: assms(2))
    from other_same_waited [OF assms(3) same [OF this]] show ?thesis .
  next
    case (KFinal c)
    have "other_same (popped L w) (run_cont env k (popped L w))"
      unfolding KFinal run_cont.simps by (rule launch_final_other)
    from other_same_waited [OF assms(3) same [OF this]] show ?thesis .
  qed (use fin e in \<open>simp_all add: finish_all_other del: popped_simps(10)\<close>)
qed

lemma then_cmd_waited:
  assumes "lw_ok env L w" "wstate w \<noteq> kWorkerStateTerminated" "barrier x" "cmd_ok L w d"
    "k_ok env L w k" "kd_ok env w k d" "r = sync_cmd_try d w \<or> r = sync_cmd_back d n w"
  shows "waited x w (then_cmd (run_cont env k) k d w r)"
proof -
  have l: "log_ok L w" using assms(1) by (simp add: lw_ok_def)
  have same: "other_same w (then_cmd (run_cont env k) k d w r)"
    if "other_same (popped d w) (run_cont env k (popped d w))"
    by (rule then_cmd_other [where f = "run_cont env k", OF l assms(2,4,7) that])
  show ?thesis
  proof (cases k)
    case (KFull c)
    have "other_same (popped d w) (run_cont env k (popped d w))"
      unfolding KFull run_cont.simps by (rule launch_full_other [OF popped_ok [OF assms(1)]]) (simp add: assms(2))
    from other_same_waited [OF assms(3) same [OF this]] show ?thesis .
  next
    case (KFinal c)
    have "other_same (popped d w) (run_cont env k (popped d w))"
      unfolding KFinal run_cont.simps by (rule launch_final_other)
    from other_same_waited [OF assms(3) same [OF this]] show ?thesis .
  next
    case (KBatch y)
    then have "y \<noteq> x" "cmd_type x \<noteq> kCommandTypeHardware" using assms(3,5) by (auto simp: barrier_def)
    then have "lw_cs (fst (run_cont env k (popped d w))) x = lw_cs w x
        \<and> wstate (fst (run_cont env k (popped d w))) = wstate w"
      by (simp add: KBatch finish_all_other popped_cs_other)
    then show ?thesis
      using sync_cmd_try_cases [OF l assms(4)] sync_cmd_back_cases [OF l assms(4), of n] assms(2,7)
      by (auto simp: waited_def then_cmd_def)
  qed (use assms(6) in simp_all)
qed

lemma worker_go_waited:
  assumes "lw_ok env L w" "pc_ok env L w pc" "wstate w \<noteq> kWorkerStateTerminated" "barrier x"
    "worker_go env pc w = Some r"
  shows "waited x w r"
proof -
  have l: "log_ok L w" using assms(1) by (simp add: lw_ok_def)
  note all = then_all_waited [OF assms(1,3,4)]
  note cmd = then_cmd_waited [OF assms(1,3,4)]
  show ?thesis
  proof (cases pc)
    case (Taken y)
    show ?thesis
    proof (cases y)
      case (HwCmd c)
      then have "r = LaunchHwCommand env c w" using assms(5) Taken by simp
      then show ?thesis using other_same_waited [OF assms(4) LaunchHwCommand_other [OF assms(1,3)]] by simp
    next
      case (BatchCmd n)
      show ?thesis
      proof (cases "sync_cmd_log w")
        case Nil
        then show ?thesis using assms(5) BatchCmd Taken by (auto simp: waited_def)
      next
        case (Cons d ds)
        then have "d \<in> set (cmd_log w) \<and> synchronizable w d"
          using l by (metis (no_types, lifting) filter_eq_ConsD in_set_conv_decomp log_ok_def)
        then have d: "synchronizable w d" "cmd_ok L w d"
          using log_okD(5) [OF l] by (auto simp: cmd_ok_def)
        have "waited x w (then_cmd (run_cont env (KBatch y)) (KBatch y) d w (sync_cmd_try d w))"
          by (rule cmd [where n = 0]) (simp_all add: BatchCmd d)
        then show ?thesis using assms(5) Taken BatchCmd Cons d(1) by (simp add: sync_cmd_def)
      qed
    qed (use assms(5) Taken in \<open>auto intro: all [where n = 0]\<close>)
  next
    case (CmdSleep k d)
    then show ?thesis using assms(2,5) cmd [of d k "sync_cmd_try d w" 0] by auto
  next
    case (CmdHw k d n)
    then show ?thesis using assms(2,5) cmd [of d k "sync_cmd_back d n w" n] by auto
  next
    case (LaunchSleep c)
    then have "r = launch_wait env c w" using assms(5) by simp
    then show ?thesis using other_same_waited [OF assms(4) launch_wait_other] by simp
  next
    case (AllHw k n)
    then show ?thesis using assms(2,5) all [of "sync_all_back n w" n k] by auto
  qed (use assms(5) in \<open>auto intro: all [where n = 0]\<close>)
qed

lemma app_next_waited:
  assumes "log_ok L w" "cmd_ok L w d" "r = sync_cmd_try d w \<or> r = sync_cmd_back d n w"
    "app_next d w r = (w', p)" "cmd_type x \<noteq> kCommandTypeHardware"
  shows "lw_cs w' x = lw_cs w x \<and> wstate w' = wstate w"
  using assms(3,4) sync_cmd_try_cases [OF assms(1,2)] sync_cmd_back_cases [OF assms(1,2), of n]
  by (auto simp: app_next_def popped_cs_other [OF assms(5)])

text \<open>A barrier is touched by no step but the one that takes it, and the one that completes it
  when the worker is running and nothing is in flight.\<close>

lemma lw_exec_waited:
  assumes "lsys_ok env s" "lw_exec env a s = Some s'" "barrier x"
  shows "lw_cs (ls_lw s') x = lw_cs (ls_lw s) x \<or> lw_cs (ls_lw s') x = kCommandStateInFlight
    \<or> cmd_log (ls_lw s') = [] \<and> wstate (ls_lw s) = kWorkerStateRunning"
    and "wstate (ls_lw s') = wstate (ls_lw s) \<or> wstate (ls_lw s) = kWorkerStateRunning
      \<or> a = DoPause \<or> a = DoResume \<or> (\<exists>d. a = DoResumeAndDrop d)"
proof -
  let ?L = "ls_taken s" and ?w = "ls_lw s"
  have ok: "lw_ok env ?L ?w" "log_ok ?L ?w" "pc_ok env ?L ?w (ls_pc s)"
    using assms(1) by (simp_all add: lsys_ok_def lw_ok_def)
  have x: "cmd_type x \<noteq> kCommandTypeHardware" using assms(3) by (auto simp: barrier_def)
  have "(lw_cs (ls_lw s') x = lw_cs ?w x \<or> lw_cs (ls_lw s') x = 2
      \<or> cmd_log (ls_lw s') = [] \<and> wstate ?w = kWorkerStateRunning)
    \<and> (wstate (ls_lw s') = wstate ?w \<or> wstate ?w = kWorkerStateRunning
      \<or> a = DoPause \<or> a = DoResume \<or> (\<exists>d. a = DoResumeAndDrop d))"
  proof (cases a)
    case Go
    then obtain w' pc' where 1: "worker_go env (ls_pc s) ?w = Some (w', pc')" and s': "ls_lw s' = w'"
      using assms(2) by (auto split: option.splits)
    have "wstate ?w \<noteq> kWorkerStateTerminated" using 1 assms(1) by (auto simp: lsys_ok_def)
    from worker_go_waited [OF ok(1,3) this assms(3) 1] show ?thesis
      using s' by (auto simp: waited_def)
  next
    case (Take y)
    then show ?thesis
      using assms(2) by (auto simp: worker_take_def set_cstate_Some split: if_splits option.splits)
  next
    case (AppSync i d)
    then have d: "synchronizable ?w d" "lw_cs ?w (HwCmd d) \<ge> 2"
      and s': "ls_lw s' = fst (SyncCmd d ?w)"
      using assms(2) by (auto split: if_splits prod.splits)
    show ?thesis
    proof (cases "lw_cs ?w (HwCmd d) = 2")
      case True
      then have "cmd_ok ?L ?w d" using ok(2) by (auto simp: log_ok_def cmd_ok_def)
      from app_next_waited [OF ok(2) this, of "sync_cmd_try d ?w" 0 _ _ x] show ?thesis
        using s' d(1) x by (cases "SyncCmd d ?w") (auto simp: SyncCmd_def sync_cmd_def)
    next
      case False
      then have "SyncCmd d ?w = (?w, AppIdle)"
        using d by (simp add: SyncCmd_def sync_cmd_def sync_cmd_try_def app_next_def)
      then show ?thesis using s' by simp
    qed
  next
    case (AppGo i)
    then obtain w' p where 1: "app_go (ls_apps s i) ?w = Some (w', p)" and s': "ls_lw s' = w'"
      using assms(2) by (auto split: option.splits)
    have a: "app_ok ?L ?w (ls_apps s i)" using assms(1) by (simp add: lsys_ok_def)
    have "lw_cs w' x = lw_cs ?w x \<and> wstate w' = wstate ?w"
    proof (cases "ls_apps s i")
      case (AppSleep d)
      then show ?thesis using 1 a app_next_waited [OF ok(2), of d "sync_cmd_try d ?w" 0 w' p x] x by simp
    next
      case (AppHw d n)
      then show ?thesis using 1 a app_next_waited [OF ok(2), of d "sync_cmd_back d n ?w" n w' p x] x
        by simp
    qed (use 1 in simp_all)
    then show ?thesis using s' by simp
  next
    case (DoResumeAndDrop d)
    then show ?thesis using assms(2) clear_logs_eq [OF ok(2)]
      by (auto simp: ResumeAndDrop_def popped_cs_other [OF x] split: if_splits)
  qed (use assms(2) in \<open>auto simp: Pause_def Resume_def lw_SetPreemptLevel_def
        lw_SetLaunchConfig_def split: if_splits\<close>)
  then show "lw_cs (ls_lw s') x = lw_cs (ls_lw s) x \<or> lw_cs (ls_lw s') x = kCommandStateInFlight
      \<or> cmd_log (ls_lw s') = [] \<and> wstate (ls_lw s) = kWorkerStateRunning"
    "wstate (ls_lw s') = wstate (ls_lw s) \<or> wstate (ls_lw s) = kWorkerStateRunning
      \<or> a = DoPause \<or> a = DoResume \<or> (\<exists>d. a = DoResumeAndDrop d)" by blast+
qed

end
