(* ===== verification/LaunchProperties.thy ===== *)
theory LaunchProperties
  imports LaunchCorrect
begin

text \<open>
  What the invariant of \<^verbatim>\<open>LaunchCorrect\<close> gives for runs of the launch worker from its creation,
  with the case in which a paused worker launches all the same.
\<close>

section \<open>Launching while paused\<close>

text \<open>Without application threads inside \<^verbatim>\<open>SyncCmd\<close>, a command for which a full log is being
  synchronised can only have been completed by someone else if the worker drops the current one.\<close>

fun pc_quiet :: "lw \<Rightarrow> worker_pc \<Rightarrow> bool" where
  "pc_quiet w (CmdSleep (KFinal c) d) = (d \<in> set (cmd_log w) \<or> c \<le> drop_idx w)"
| "pc_quiet w (CmdHw (KFinal c) d n) = (d \<in> set (cmd_log w) \<or> c \<le> drop_idx w)"
| "pc_quiet w _ = True"

definition launched_running :: "lw \<Rightarrow> bool" where
  "launched_running w \<longleftrightarrow> (\<forall>l \<in> set (launches w). l_state l = kWorkerStateRunning)"

definition quiet :: "lw \<times> worker_pc \<Rightarrow> bool" where
  "quiet r \<longleftrightarrow> launched_running (fst r) \<and> pc_quiet (fst r) (snd r)"

lemma launched_running_popped [simp]: "launched_running (popped d w) = launched_running w"
  by (simp add: launched_running_def)

lemma launch_final_quiet:
  assumes "launched_running w" "wstate w = kWorkerStateRunning \<or> c \<le> drop_idx w"
  shows "quiet (launch_final env c w)"
  using assms by (auto simp: quiet_def launch_final_def Let_def launched_running_def split: option.splits)

lemma launch_wait_quiet: "launched_running w \<Longrightarrow> quiet (launch_wait env c w)"
  using launch_final_quiet [of w c env]
  by (auto simp: launch_wait_def quiet_def split: worker_state.split)

text \<open>So it is when the synchronisation of one command is through, unless someone else has
  completed the command.\<close>

lemma sync_cmd_done_running:
  assumes "wstate w \<noteq> kWorkerStateTerminated" "log_ok L w" "cmd_ok L w d"
    "r = sync_cmd_try d w \<or> hw_ok w n \<and> r = sync_cmd_back d n w" "r = SyncDone w'"
  shows "w' = popped d w \<and> (wstate w = kWorkerStateRunning \<or> d \<notin> set (cmd_log w))"
proof -
  have "w' = popped d w"
    using sync_cmd_try_cases [OF assms(2,3)] sync_cmd_back_cases [OF assms(2,3), of n] assms(1,4,5) by auto
  moreover have "d \<in> set (cmd_log w) \<Longrightarrow> lw_cs w (HwCmd d) = 2" using assms(2) by (simp add: log_ok_def)
  then have "d \<in> set (cmd_log w) \<Longrightarrow> sync_cmd_try d w = SyncDone w' \<Longrightarrow> wstate w = kWorkerStateRunning"
    using assms(1) by (simp add: sync_cmd_try_def split: worker_state.splits)
  moreover have "hw_ok w n \<Longrightarrow> n = pause_count w \<Longrightarrow> wstate w = kWorkerStateRunning"
    using assms(1) by (cases "wstate w") (simp_all add: hw_ok_def)
  ultimately show ?thesis using assms(4,5) by (auto simp: sync_cmd_back_def split: if_splits)
qed

lemma finish_quiet: "launched_running w \<Longrightarrow> pc \<in> {InLoop, Exited} \<Longrightarrow> quiet (finish x pc w)"
  by (auto simp: quiet_def finish_def launched_running_def split: option.splits)

lemma finish_destroy_quiet:
  "launched_running w \<Longrightarrow> quiet (finish x Exited (w\<lparr> wstate := kWorkerStateTerminated \<rparr>))"
  by (rule finish_quiet) (simp_all add: launched_running_def)

lemma then_all_quiet:
  assumes "launched_running w" "\<And>w'. r = SyncDone w' \<Longrightarrow> quiet (f w')"
  shows "quiet (then_all f k w r)"
  using assms by (auto simp: then_all_def quiet_def split: sync_result.split)

lemma then_cmd_quiet:
  assumes "launched_running w" "\<And>w'. r = SyncDone w' \<Longrightarrow> quiet (f w')"
    "\<forall>c. k = KFinal c \<longrightarrow> d \<in> set (cmd_log w) \<or> c \<le> drop_idx w"
  shows "quiet (then_cmd f k d w r)"
  using assms by (cases k) (auto simp: then_cmd_def quiet_def split: sync_result.split)

lemma launch_full_quiet:
  assumes "lw_ok env L w" "wstate w \<noteq> kWorkerStateTerminated" "launched_running w"
  shows "quiet (launch_full env c w)"
proof -
  have l: "log_ok L w" using assms(1) by (simp add: lw_ok_def)
  show ?thesis
  proof (rule launch_full_cases [OF l, of env c])
    assume "launch_full env c w = launch_wait env c w"
    then show ?thesis using launch_wait_quiet [OF assms(3)] by simp
  next
    assume eq: "launch_full env c w = then_all (launch_final env c) (KFinal c) w (sync_all_try w)"
    show ?thesis unfolding eq
    proof (rule then_all_quiet [OF assms(3)])
      fix w' assume "sync_all_try w = SyncDone w'"
      then show "quiet (launch_final env c w')"
        using sync_all_done_running [OF assms(2) l disjI1 [OF refl]] assms(3)
        by (intro launch_final_quiet) auto
    qed
  next
    fix d assume d: "d \<in> set (cmd_log w)" "cmd_ok L w d"
    assume eq: "launch_full env c w = then_cmd (launch_final env c) (KFinal c) d w (sync_cmd_try d w)"
    show ?thesis unfolding eq
    proof (rule then_cmd_quiet [OF assms(3)])
      fix w' assume "sync_cmd_try d w = SyncDone w'"
      then show "quiet (launch_final env c w')"
        using sync_cmd_done_running [OF assms(2) l d(2) disjI1 [OF refl]] assms(3) d(1)
        by (intro launch_final_quiet) auto
    qed (use d(1) in simp)
  qed
qed

lemma LaunchHwCommand_quiet:
  assumes "lw_ok env L w" "wstate w \<noteq> kWorkerStateTerminated" "launched_running w"
  shows "quiet (LaunchHwCommand env c w)"
proof -
  have l: "log_ok L w" using assms(1) by (simp add: lw_ok_def)
  have p: "quiet (launch_full env c (popped d w))" for d
    using launch_full_quiet [OF popped_ok [OF assms(1)]] assms(2,3) by simp
  show ?thesis
  proof (rule LaunchHwCommand_cases [OF l, of env c])
    assume "LaunchHwCommand env c w = launch_full env c w"
    then show ?thesis using launch_full_quiet [OF assms] by simp
  next
    assume eq: "LaunchHwCommand env c w = then_all (launch_full env c) (KFull c) w (sync_all_try w)"
    show ?thesis unfolding eq
      using sync_all_done_running [OF assms(2) l disjI1 [OF refl]] p
      by (intro then_all_quiet [OF assms(3)]) auto
  next
    fix d assume d: "d \<in> set (cmd_log w)" "cmd_ok L w d"
    assume eq: "LaunchHwCommand env c w = then_cmd (launch_full env c) (KFull c) d w (sync_cmd_try d w)"
    show ?thesis unfolding eq
      using sync_cmd_done_running [OF assms(2) l d(2) disjI1 [OF refl]] p
      by (intro then_cmd_quiet [OF assms(3)]) auto
  qed
qed

lemma run_cont_quiet:
  assumes "lw_ok env L w" "wstate w \<noteq> kWorkerStateTerminated" "launched_running w"
    "\<forall>c. k = KFinal c \<longrightarrow> wstate w = kWorkerStateRunning \<or> c \<le> drop_idx w"
  shows "quiet (run_cont env k (popped d w))"
proof (cases k)
  case (KFull c)
  then show ?thesis using launch_full_quiet [OF popped_ok [OF assms(1)], of d c] assms(2,3) by simp
next
  case (KFinal c)
  then show ?thesis using assms(3,4) by (auto intro!: launch_final_quiet)
next
  case (KDestroy x)
  then show ?thesis using assms(3) by (simp add: finish_destroy_quiet)
qed (use assms(3) in \<open>auto intro: finish_quiet\<close>)

lemma all_quiet:
  assumes "lw_ok env L w" "wstate w \<noteq> kWorkerStateTerminated" "launched_running w"
    "r = sync_all_try w \<or> hw_ok w n \<and> r = sync_all_back n w"
  shows "quiet (then_all (run_cont env k) k w r)"
proof (rule then_all_quiet [OF assms(3)])
  have l: "log_ok L w" using assms(1) by (simp add: lw_ok_def)
  fix w' assume "r = SyncDone w'"
  from sync_all_done_running [OF assms(2) l assms(4) this] show "quiet (run_cont env k w')"
    using run_cont_quiet [OF assms(1-3), of k L] by auto
qed

lemma cmd_quiet:
  assumes "lw_ok env L w" "wstate w \<noteq> kWorkerStateTerminated" "launched_running w" "cmd_ok L w d"
    "r = sync_cmd_try d w \<or> hw_ok w n \<and> r = sync_cmd_back d n w"
    "\<forall>c. k = KFinal c \<longrightarrow> d \<in> set (cmd_log w) \<or> c \<le> drop_idx w"
  shows "quiet (then_cmd (run_cont env k) k d w r)"
proof (rule then_cmd_quiet [OF assms(3) _ assms(6)])
  have l: "log_ok L w" using assms(1) by (simp add: lw_ok_def)
  fix w' assume "r = SyncDone w'"
  from sync_cmd_done_running [OF assms(2) l assms(4,5) this] show "quiet (run_cont env k w')"
    using run_cont_quiet [OF assms(1-3), of k d] assms(6) by auto
qed

lemma worker_go_quiet:
  assumes "lw_ok env L w" "pc_ok env L w pc" "wstate w \<noteq> kWorkerStateTerminated" "quiet (w, pc)"
    "worker_go env pc w = Some r"
  shows "quiet r"
proof -
  have l: "log_ok L w" and q: "launched_running w"
    using assms(1,4) by (simp_all add: lw_ok_def quiet_def)
  have kq: "\<forall>c. k = KFinal c \<longrightarrow> d \<in> set (cmd_log w) \<or> c \<le> drop_idx w"
    if "pc = CmdSleep k d \<or> pc = CmdHw k d n" for k d n
    using that assms(4) by (cases k) (auto simp: quiet_def)
  note all = all_quiet [OF assms(1,3) q]
  note cmd = cmd_quiet [OF assms(1,3) q]
  show ?thesis
  proof (cases pc)
    case (Taken y)
    show ?thesis
    proof (cases y)
      case (HwCmd c)
      then show ?thesis using LaunchHwCommand_quiet [OF assms(1,3) q, of c] assms(5) Taken by simp
    next
      case (BatchCmd n)
      show ?thesis
      proof (cases "sync_cmd_log w")
        case Nil
        then show ?thesis using assms(4,5) BatchCmd Taken by (auto simp: quiet_def)
      next
        case (Cons d ds)
        then have "d \<in> set (cmd_log w) \<and> synchronizable w d"
          using l by (metis (no_types, lifting) filter_eq_ConsD in_set_conv_decomp log_ok_def)
        then have d: "synchronizable w d" "cmd_ok L w d"
          using log_okD(5) [OF l] by (auto simp: cmd_ok_def)
        have "quiet (then_cmd (run_cont env (KBatch y)) (KBatch y) d w (sync_cmd_try d w))"
          by (rule cmd [where n = 0]) (simp_all add: BatchCmd d)
        then show ?thesis using assms(5) Taken BatchCmd Cons d(1) by (simp add: sync_cmd_def)
      qed
    qed (use assms(5) Taken in \<open>auto intro: all [where n = 0]\<close>)
  next
    case (CmdSleep k d)
    then show ?thesis using assms(2,5) cmd [of d "sync_cmd_try d w" 0 k] kq [of k d] by auto
  next
    case (CmdHw k d n)
    then show ?thesis using assms(2,5) cmd [of d "sync_cmd_back d n w" n k] kq [of k d n] by auto
  next
    case (AllHw k n)
    then show ?thesis using assms(2,5) all [of "sync_all_back n w" n] by auto
  next
    case (LaunchSleep c)
    then show ?thesis using assms(5) launch_wait_quiet [OF q, of env c] by auto
  qed (use assms(5) in \<open>auto intro: all [where n = 0]\<close>)
qed

definition lsys_quiet :: "hw_env \<Rightarrow> lsys \<Rightarrow> bool" where
  "lsys_quiet env s \<longleftrightarrow> lsys_ok env s \<and> quiet (ls_lw s, ls_pc s) \<and> ls_apps s = (\<lambda>_. AppIdle)"

lemma pc_quiet_same:
  "pc_quiet w pc \<Longrightarrow> cmd_log w' = cmd_log w \<Longrightarrow> drop_idx w' = drop_idx w \<Longrightarrow> pc_quiet w' pc"
  by (induction w pc rule: pc_quiet.induct) auto

lemma pc_quiet_drop: "pc_ok env L w pc \<Longrightarrow> L \<le> drop_idx w' \<Longrightarrow> pc_quiet w' pc"
  by (induction w' pc rule: pc_quiet.induct) (auto simp: cur_def)

definition no_app :: "lw_act \<Rightarrow> bool" where
  "no_app a \<longleftrightarrow> (case a of AppSync i d \<Rightarrow> False | _ \<Rightarrow> True)"

lemma lw_exec_quiet:
  assumes "lsys_quiet env s" "callbacks_succeed env" "no_app a" "lw_exec env a s = Some s'"
  shows "lsys_quiet env s'"
proof -
  let ?w = "ls_lw s"
  have ok': "lsys_ok env s'" using assms lw_exec_ok by (auto simp: lsys_quiet_def)
  have ok: "lsys_ok env s" "lw_ok env (ls_taken s) ?w" "pc_ok env (ls_taken s) ?w (ls_pc s)"
    and q: "quiet (?w, ls_pc s)" and idle: "ls_apps s = (\<lambda>_. AppIdle)"
    using assms(1) by (simp_all add: lsys_quiet_def lsys_ok_def)
  have "quiet (ls_lw s', ls_pc s') \<and> ls_apps s' = (\<lambda>_. AppIdle)"
  proof (cases a)
    case (Take x)
    then show ?thesis using assms(4) q idle
      by (auto simp: worker_take_def quiet_def launched_running_def split: if_splits option.splits)
  next
    case Go
    then obtain w' pc' where 1: "worker_go env (ls_pc s) ?w = Some (w', pc')"
      and s': "s' = s\<lparr> ls_lw := w', ls_pc := pc' \<rparr>" using assms(4) by (auto split: option.splits)
    have "wstate ?w \<noteq> kWorkerStateTerminated" using 1 ok(1) by (auto simp: lsys_ok_def)
    from worker_go_quiet [OF ok(2,3) this q 1] show ?thesis using idle by (simp add: s')
  next
    case (AppSync i d)
    then show ?thesis using assms(3) by (simp add: no_app_def)
  next
    case (AppGo i)
    then show ?thesis using assms(4) idle by simp
  next
    case (DoResumeAndDrop d)
    then have "ls_taken s \<le> d" and s': "map_option (\<lambda>w. s\<lparr> ls_lw := w \<rparr>) (ResumeAndDrop d ?w) = Some s'"
      using assms(4) by (auto split: if_splits)
    then show ?thesis using clear_logs_eq [of "ls_taken s" ?w] ok(2) q idle
      by (auto simp: ResumeAndDrop_def lw_ok_def quiet_def launched_running_def
          intro!: pc_quiet_drop [OF ok(3)])
  qed (use assms(4) q idle in \<open>auto simp: quiet_def launched_running_def Pause_def Resume_def
        lw_SetPreemptLevel_def lw_SetLaunchConfig_def split: if_splits intro: pc_quiet_same\<close>)
  then show ?thesis using ok' by (simp add: lsys_quiet_def)
qed

lemma lw_run_quiet:
  "lw_run env acts s = Some s' \<Longrightarrow> lsys_quiet env s \<Longrightarrow> callbacks_succeed env
    \<Longrightarrow> \<forall>a \<in> set acts. no_app a \<Longrightarrow> lsys_quiet env s'"
  by (induction acts arbitrary: s) (auto split: option.splits intro: lw_exec_quiet)

section \<open>Failing callbacks\<close>

text \<open>The hardware command that the worker has in hand.\<close>

fun cont_hw :: "cont \<Rightarrow> int option" where
  "cont_hw (KFull c) = Some c"
| "cont_hw (KFinal c) = Some c"
| "cont_hw _ = None"

fun in_hand :: "worker_pc \<Rightarrow> int option" where
  "in_hand (Taken (HwCmd c)) = Some c"
| "in_hand (AllSleep k) = cont_hw k"
| "in_hand (AllHw k n) = cont_hw k"
| "in_hand (CmdSleep k d) = cont_hw k"
| "in_hand (CmdHw k d n) = cont_hw k"
| "in_hand (LaunchSleep c) = Some c"
| "in_hand _ = None"

text \<open>A step with callbacks that fail is the step in which they do not, or ends in their assertion.\<close>

definition no_errors :: "hw_env \<Rightarrow> hw_env" where
  "no_errors env = env\<lparr> callback := (\<lambda>c. map_option (\<lambda>_. kXSchedSuccess) (callback env c)) \<rparr>"

definition failed_callback :: "hw_env \<Rightarrow> int option \<Rightarrow> bool" where
  "failed_callback env o1 \<longleftrightarrow> (\<exists>c r. o1 = Some c \<and> callback env c = Some r \<and> r \<noteq> kXSchedSuccess)"

definition agree :: "hw_env \<Rightarrow> int option \<Rightarrow> lw \<times> worker_pc \<Rightarrow> lw \<times> worker_pc \<Rightarrow> bool" where
  "agree env o1 r r' \<longleftrightarrow> r = r' \<or> snd r = Aborted \<and> failed_callback env o1"

lemma agree_refl [simp, intro]: "agree env o1 r r"
  by (simp add: agree_def)

lemma no_errors_succeed: "callbacks_succeed (no_errors env)"
  unfolding callbacks_succeed_def no_errors_def by simp (metis option.exhaust)

lemma no_errors_same [simp]:
  "deactivatable (no_errors env) = deactivatable env" "wait_deactivatable (no_errors env) = wait_deactivatable env"
  "enable_sync (no_errors env) = enable_sync env"
  by (simp_all add: fun_eq_iff deactivatable_def wait_deactivatable_def enable_sync_def no_errors_def)

lemma launch_final_agree: "agree env (Some c) (launch_final env c w) (launch_final (no_errors env) c w)"
proof (cases "callback env c \<in> {None, Some kXSchedSuccess}")
  case True
  then have "callback (no_errors env) c = callback env c" by (auto simp: no_errors_def)
  then show ?thesis by (simp add: launch_final_def)
next
  case False
  then have "failed_callback env (Some c)" by (auto simp: failed_callback_def)
  moreover have "launch_final env c w = launch_final (no_errors env) c w" if "c \<le> drop_idx w"
    using that by (simp add: launch_final_def)
  moreover have "snd (launch_final env c w) = Aborted" if "\<not> c \<le> drop_idx w"
    using that False by (simp add: launch_final_def Let_def)
  ultimately show ?thesis by (auto simp: agree_def)
qed

lemma then_all_agree: "(\<And>w. agree env o1 (f w) (f' w)) \<Longrightarrow> agree env o1 (then_all f k w r) (then_all f' k w r)"
  by (simp add: then_all_def split: sync_result.split)

lemma then_cmd_agree: "(\<And>w. agree env o1 (f w) (f' w)) \<Longrightarrow> agree env o1 (then_cmd f k d w r) (then_cmd f' k d w r)"
  by (simp add: then_cmd_def split: sync_result.split)

lemma sync_one_or_all_agree:
  "(\<And>w. agree env o1 (f w) (f' w)) \<Longrightarrow> agree env o1 (sync_one_or_all f k r w) (sync_one_or_all f' k r w)"
  by (simp add: sync_one_or_all_def then_all_agree then_cmd_agree split: option.split)

lemma launch_wait_agree: "agree env (Some c) (launch_wait env c w) (launch_wait (no_errors env) c w)"
  by (simp add: launch_wait_def launch_final_agree split: worker_state.split)

lemma launch_full_agree: "agree env (Some c) (launch_full env c w) (launch_full (no_errors env) c w)"
  by (simp add: launch_full_def launch_wait_agree sync_one_or_all_agree launch_final_agree split: list.split)

lemma LaunchHwCommand_agree: "agree env (Some c) (LaunchHwCommand env c w) (LaunchHwCommand (no_errors env) c w)"
  by (simp add: LaunchHwCommand_def launch_full_agree sync_one_or_all_agree split: prod.split bool.split)

lemma run_cont_agree: "agree env (cont_hw k) (run_cont env k w) (run_cont (no_errors env) k w)"
  by (cases k) (simp_all add: launch_full_agree launch_final_agree)

lemma worker_go_agree:
  "worker_go env pc w = Some r \<Longrightarrow> \<exists>r'. worker_go (no_errors env) pc w = Some r' \<and> agree env (in_hand pc) r r'"
proof (cases pc)
  case (Taken x)
  then show "worker_go env pc w = Some r \<Longrightarrow> ?thesis"
    by (cases x) (auto simp: LaunchHwCommand_agree split: list.split intro!: then_all_agree then_cmd_agree)
qed (auto intro: then_all_agree then_cmd_agree run_cont_agree launch_wait_agree)

lemma lw_exec_no_errors:
  assumes "lw_exec env a s = Some s'"
  shows "lw_exec (no_errors env) a s = Some s'
    \<or> (a = Go \<and> ls_pc s' = Aborted \<and> ls_apps s' = ls_apps s \<and> failed_callback env (in_hand (ls_pc s)))"
proof (cases a)
  case Go
  then obtain w pc where g: "worker_go env (ls_pc s) (ls_lw s) = Some (w, pc)" "s' = s\<lparr> ls_lw := w, ls_pc := pc \<rparr>"
    using assms by (auto split: option.splits)
  from worker_go_agree [OF g(1)] show ?thesis using g(2) Go by (auto simp: agree_def)
qed (use assms in simp_all)

lemma aborted_stays: "lw_exec env a s = Some s' \<Longrightarrow> ls_pc s = Aborted \<Longrightarrow> ls_pc s' = Aborted"
  by (cases a) (auto split: if_splits option.splits prod.splits)

lemma lw_run_aborted: "lw_run env acts s = Some s' \<Longrightarrow> ls_pc s = Aborted \<Longrightarrow> ls_pc s' = Aborted"
  by (induction acts arbitrary: s) (auto split: option.splits dest: aborted_stays)

lemma lw_run_no_errors:
  "lw_run env acts s = Some s' \<Longrightarrow> ls_pc s' \<noteq> Aborted \<Longrightarrow> lw_run (no_errors env) acts s = Some s'"
proof (induction acts arbitrary: s)
  case (Cons a acts)
  then obtain s1 where 1: "lw_exec env a s = Some s1" "lw_run env acts s1 = Some s'" by (auto split: option.splits)
  then show ?case using lw_exec_no_errors [OF 1(1)] lw_run_aborted [OF 1(2)] Cons.prems(2) Cons.IH by auto
qed simp

lemma lsys_ok_no_errors: "lsys_ok (no_errors env) s = lsys_ok env s"
proof -
  have n: "normal (no_errors env) = normal env" by (simp add: fun_eq_iff normal_def no_errors_def)
  have a: "alone (no_errors env) = alone env" by (simp add: fun_eq_iff alone_def n)
  have k: "k_ok (no_errors env) L w k = k_ok env L w k" for L w k by (cases k) (simp_all add: a)
  have d: "kd_ok (no_errors env) w k d = kd_ok env w k d" for w k d by (cases k) simp_all
  have "pc_ok (no_errors env) L w pc = pc_ok env L w pc" for L w pc by (cases pc) (simp_all add: a k d)
  then show ?thesis by (simp add: lsys_ok_def lw_ok_defs n launch_safe_def)
qed

text \<open>What holds as long as no assertion has failed, whatever the callbacks return.\<close>

lemma unaborted_run_ok:
  assumes "fresh w l t n cs sy" "lw_run env acts (lsys_init w) = Some s" "ls_pc s \<noteq> Aborted"
  shows "lsys_ok env s"
  using fresh_run_ok [OF assms(1) no_errors_succeed lw_run_no_errors [OF assms(2,3)]] lsys_ok_no_errors by simp

section \<open>A worker with a threshold of one command\<close>

definition ex_hw :: hw_env where
  "ex_hw = \<lparr> cmd_props = (\<lambda>c. if c = 1 then kCommandPropertyDeactivatable else 0),
     enables = (\<lambda>_. True), callback = (\<lambda>_. None) \<rparr>"

definition ex_lw :: lw where
  "ex_lw = the (LaunchWorker_new kPreemptLevelDeactivate 1 1 (\<lambda>_. kCommandStatePending) (\<lambda>_. False))"

lemma ex_fresh: "fresh ex_lw kPreemptLevelDeactivate 1 1 (\<lambda>_. kCommandStatePending) (\<lambda>_. False)"
  by (simp add: fresh_def ex_lw_def LaunchWorker_new_def)

lemma ex_hw_succeeds: "callbacks_succeed ex_hw"
  by (simp add: callbacks_succeed_def ex_hw_def)

text \<open>Two commands and a wait-all command: the second waits for the first.\<close>

definition ex_acts :: "lw_act list" where
  "ex_acts = [Take (HwCmd 1), Go, Take (HwCmd 2), Go, DoPause, Go, DoResume, Go, Go,
     Take (WaitAllCmd 1), Go]"

definition summary :: "lsys \<Rightarrow> (int \<times> worker_state \<times> int list) list \<times> int list \<times> int list \<times> worker_pc" where
  "summary s = (map (\<lambda>la. (l_idx la, l_state la, l_log la)) (launches (ls_lw s)),
     cmd_log (ls_lw s), sync_cmd_log (ls_lw s), ls_pc s)"

lemma ex_run:
  "map_option summary (lw_run ex_hw ex_acts (lsys_init ex_lw)) =
     Some ([(1, kWorkerStateRunning, []), (2, kWorkerStateRunning, [])], [2], [2],
           AllHw (KWaitAll (WaitAllCmd 1)) 1)"
  by code_simp

lemma ex_run_obtain:
  obtains s where "lw_run ex_hw ex_acts (lsys_init ex_lw) = Some s"
    "map l_idx (launches (ls_lw s)) = [1, 2]" "cmd_log (ls_lw s) = [2]" "sync_cmd_log (ls_lw s) = [2]"
    "ls_pc s = AllHw (KWaitAll (WaitAllCmd 1)) 1"
proof -
  obtain s where s: "lw_run ex_hw ex_acts (lsys_init ex_lw) = Some s"
    "summary s = ([(1, kWorkerStateRunning, []), (2, kWorkerStateRunning, [])], [2], [2],
       AllHw (KWaitAll (WaitAllCmd 1)) 1)"
    using ex_run by blast
  have "map l_idx (launches (ls_lw s)) = map fst (fst (summary s))"
    by (simp add: summary_def o_def case_prod_beta)
  also have "\<dots> = [1, 2]" by (simp add: s(2))
  finally show ?thesis using that [OF s(1)] s(2) by (simp add: summary_def)
qed

text \<open>A thread of the application waits for the first command, too, and is the one that
  completes it; the worker is paused before it finds out.\<close>

definition ex_race :: "lw_act list" where
  "ex_race = [Take (HwCmd 2), Go, AppSync 0 2, Take (HwCmd 3), Go, AppGo 0, DoPause, Go]"

section \<open>Properties\<close>

text \<open>The commands are handed to the worker in the order of their indices, as \<open>lw_may\<close> says, which a program
  ensures that submits to an XQueue from one thread at a time; \<open>racing_submits_break_wait\<close> is about others.\<close>



text \<open>C14: When commands are handed out in the order of their indices, the log that a restored hardware queue
  is given holds, in that order, exactly the commands in flight, and the log of synchronizable
  commands those among them.\<close>

theorem log_is_what_is_in_flight:
  assumes "fresh w l t n cs sy" "lw_run env acts (lsys_init w) = Some s" "ls_pc s \<noteq> Aborted"
  shows "sorted_wrt (<) (cmd_log (ls_lw s))
     \<and> set (cmd_log (ls_lw s)) = {c. lw_cs (ls_lw s) (HwCmd c) = kCommandStateInFlight}
     \<and> sync_cmd_log (ls_lw s) = filter (synchronizable (ls_lw s)) (cmd_log (ls_lw s))"
  using unaborted_run_ok [OF assms] by (auto simp: lsys_ok_def lw_ok_defs)

theorem log_is_what_is_in_flight_witness:
  "\<exists>s. lw_run ex_hw ex_acts (lsys_init ex_lw) = Some s
     \<and> {c. lw_cs (ls_lw s) (HwCmd c) = kCommandStateInFlight} = {2}"
proof -
  obtain s where s: "lw_run ex_hw ex_acts (lsys_init ex_lw) = Some s" "cmd_log (ls_lw s) = [2]"
    "ls_pc s \<noteq> Aborted" by (rule ex_run_obtain) auto
  show ?thesis using log_is_what_is_in_flight [OF ex_fresh s(1,3)] s by auto
qed



text \<open>C16: However launching, waiting, pausing, resuming and dropping interleave, the only assertion that a
  step of the worker or of a thread that waits for a command can be the first to fail is the
  one on the result of a callback command: the worker is at work on that command and its
  function has returned an error.\<close>

theorem only_failed_callback_aborts:
  assumes "fresh w l t n cs sy" "lw_run env acts (lsys_init w) = Some s"
    "ls_pc s \<noteq> Aborted" "lw_exec env a s = Some s'"
  shows "(ls_apps s i \<noteq> AppAborted \<and> ls_apps s' i \<noteq> AppAborted)
     \<and> (ls_pc s' = Aborted \<longrightarrow>
          a = Go \<and> (\<exists>c r. in_hand (ls_pc s) = Some c \<and> callback env c = Some r \<and> r \<noteq> kXSchedSuccess))"
proof -
  let ?env = "no_errors env"
  have r: "lw_run ?env acts (lsys_init w) = Some s"
    by (rule lw_run_no_errors [OF assms(2,3)])
  have ok: "lsys_ok ?env s" by (rule fresh_run_ok [OF assms(1) no_errors_succeed r])
  have na: "ls_pc s1 \<noteq> Aborted \<and> ls_apps s1 i \<noteq> AppAborted" if "lsys_ok ?env s1" for s1
  proof -
    have "pc_ok ?env (ls_taken s1) (ls_lw s1) (ls_pc s1)" "app_ok (ls_taken s1) (ls_lw s1) (ls_apps s1 i)"
      using that by (simp_all add: lsys_ok_def)
    then show ?thesis by (cases "ls_pc s1"; cases "ls_apps s1 i") auto
  qed
  from lw_exec_no_errors [OF assms(4)] show ?thesis
  proof
    assume "lw_exec ?env a s = Some s'"
    then show ?thesis using na [OF ok] na [OF lw_exec_ok [OF ok no_errors_succeed]] by blast
  next
    assume "a = Go \<and> ls_pc s' = Aborted \<and> ls_apps s' = ls_apps s \<and> failed_callback env (in_hand (ls_pc s))"
    then show ?thesis using na [OF ok] by (auto simp: failed_callback_def)
  qed
qed

definition ex_hw_error :: hw_env where
  "ex_hw_error = ex_hw\<lparr> callback := (\<lambda>c. if c = 2 then Some kXSchedErrorUnknown else None) \<rparr>"

theorem only_failed_callback_aborts_witness:
  "\<exists>s s'. lw_run ex_hw_error [Take (HwCmd 1), Go, Take (HwCmd 2), Go, DoPause, Go, DoResume, Go] (lsys_init ex_lw) = Some s
     \<and> lw_exec ex_hw_error Go s = Some s' \<and> ls_pc s' = Aborted \<and> ls_apps s' 0 \<noteq> AppAborted
     \<and> in_hand (ls_pc s) = Some 2 \<and> callback ex_hw_error 2 = Some kXSchedErrorUnknown"
proof -
  let ?acts = "[Take (HwCmd 1), Go, Take (HwCmd 2), Go, DoPause, Go, DoResume, Go]"
  have "map_option (\<lambda>s. (ls_pc s = Aborted, in_hand (ls_pc s), map_option (\<lambda>s'. ls_pc s' = Aborted) (lw_exec ex_hw_error Go s)))
      (lw_run ex_hw_error ?acts (lsys_init ex_lw)) = Some (False, Some 2, Some True)" by code_simp
  then obtain s s' where s: "lw_run ex_hw_error ?acts (lsys_init ex_lw) = Some s" "ls_pc s \<noteq> Aborted"
    "in_hand (ls_pc s) = Some 2" "lw_exec ex_hw_error Go s = Some s'" "ls_pc s' = Aborted" by fastforce
  from only_failed_callback_aborts [OF ex_fresh s(1,2,4), of 0] s show ?thesis
    by (simp add: ex_hw_error_def)
qed

text \<open>C17: A host function, a wait-all command and the destruction of the XQueue are barriers, when
  commands are handed out in the order of their indices: they become completed only at a moment
  when nothing is in flight.\<close>

theorem barrier_completes_on_empty_log:
  assumes "fresh w l t n cs sy" "lw_run env acts (lsys_init w) = Some s" "ls_pc s \<noteq> Aborted"
    "lw_exec env a s = Some s'" "barrier x" "lw_cs (ls_lw s) x \<noteq> kCommandStateCompleted"
    "lw_cs (ls_lw s') x = kCommandStateCompleted"
  shows "cmd_log (ls_lw s') = []"
  using lw_exec_waited(1) [OF unaborted_run_ok [OF assms(1-3)] assms(4,5)] assms(6,7) by auto

theorem barrier_completes_on_empty_log_witness:
  "\<exists>s s'. lw_run ex_hw ex_acts (lsys_init ex_lw) = Some s \<and> cmd_log (ls_lw s) = [2]
     \<and> lw_exec ex_hw Go s = Some s' \<and> lw_cs (ls_lw s') (WaitAllCmd 1) = kCommandStateCompleted
     \<and> cmd_log (ls_lw s') = []"
proof -
  have "map_option (\<lambda>s. (lw_cs (ls_lw s) (WaitAllCmd 1), cmd_log (ls_lw s), ls_pc s = Aborted,
      map_option (\<lambda>s'. lw_cs (ls_lw s') (WaitAllCmd 1)) (lw_exec ex_hw Go s)))
      (lw_run ex_hw ex_acts (lsys_init ex_lw)) = Some (2, [2], False, Some 3)" by code_simp
  then obtain s s' where s: "lw_run ex_hw ex_acts (lsys_init ex_lw) = Some s"
    "lw_exec ex_hw Go s = Some s'" "lw_cs (ls_lw s) (WaitAllCmd 1) = 2"
    "lw_cs (ls_lw s') (WaitAllCmd 1) = 3" "cmd_log (ls_lw s) = [2]" "ls_pc s \<noteq> Aborted" by fastforce
  have "barrier (WaitAllCmd 1)" by (simp add: barrier_def)
  from barrier_completes_on_empty_log [OF ex_fresh s(1,6,2) this] s show ?thesis by simp
qed

text \<open>As long as no thread of the application waits for a single command, nothing is
  launched while the worker is paused.\<close>

theorem paused_worker_launches_nothing:
  assumes "fresh w l t n cs sy" "callbacks_succeed env" "lw_run env acts (lsys_init w) = Some s"
    "\<forall>a \<in> set acts. no_app a"
  shows "\<forall>la \<in> set (launches (ls_lw s)). l_state la = kWorkerStateRunning"
proof -
  have "launches w = []" using assms(1) by (auto simp: fresh_def LaunchWorker_new_def split: if_splits)
  then have "lsys_quiet env (lsys_init w)" using lsys_init_ok [OF assms(1)]
    by (simp add: lsys_quiet_def quiet_def launched_running_def lsys_init_def)
  from lw_run_quiet [OF assms(3) this assms(2,4)] show ?thesis
    by (simp add: lsys_quiet_def quiet_def launched_running_def)
qed

theorem paused_worker_launches_nothing_witness:
  "\<exists>s. lw_run ex_hw ex_acts (lsys_init ex_lw) = Some s \<and> map l_idx (launches (ls_lw s)) = [1, 2]
     \<and> (\<exists>la \<in> set (launches (ls_lw s)). l_state la = kWorkerStateRunning)"
proof -
  obtain s where s: "lw_run ex_hw ex_acts (lsys_init ex_lw) = Some s"
    "map l_idx (launches (ls_lw s)) = [1, 2]" by (rule ex_run_obtain)
  have "\<forall>a \<in> set ex_acts. no_app a" by (simp add: ex_acts_def no_app_def)
  from paused_worker_launches_nothing [OF ex_fresh ex_hw_succeeds s(1) this] s show ?thesis
    by (cases "launches (ls_lw s)") auto
qed

text \<open>With such a thread a paused worker may launch: with a threshold of one, a thread
  that waits for the command in flight completes it, the worker is paused, and the worker,
  which finds the command completed, launches the next one without looking at its state.\<close>

theorem paused_worker_launches_after_app_sync:
  "\<exists>s. lw_run ex_hw ex_race (lsys_init ex_lw) = Some s \<and> wstate (ls_lw s) = kWorkerStatePaused
     \<and> map l_idx (launches (ls_lw s)) = [2, 3] \<and> l_state (last (launches (ls_lw s))) = kWorkerStatePaused"
proof -
  have "map_option (\<lambda>s. (wstate (ls_lw s), map l_idx (launches (ls_lw s)), l_state (last (launches (ls_lw s)))))
      (lw_run ex_hw ex_race (lsys_init ex_lw))
      = Some (kWorkerStatePaused, [2, 3], kWorkerStatePaused)" by code_simp
  then show ?thesis by auto
qed

definition resumes :: "lw_act \<Rightarrow> bool" where
  "resumes a \<longleftrightarrow> (case a of DoResume \<Rightarrow> True | DoResumeAndDrop d \<Rightarrow> True | _ \<Rightarrow> False)"

lemma paused_run:
  "lw_run env acts s = Some s' \<Longrightarrow> lsys_ok env s \<Longrightarrow> callbacks_succeed env \<Longrightarrow> barrier x
    \<Longrightarrow> wstate (ls_lw s) = kWorkerStatePaused \<Longrightarrow> lw_cs (ls_lw s) x \<noteq> 3
    \<Longrightarrow> \<forall>a \<in> set acts. \<not> resumes a \<Longrightarrow> lw_cs (ls_lw s') x \<noteq> 3"
proof (induction acts arbitrary: s)
  case (Cons a acts)
  then obtain s1 where 1: "lw_exec env a s = Some s1" "lw_run env acts s1 = Some s'"
    by (auto split: option.splits)
  have ok: "lsys_ok env s1" using lw_exec_ok [OF Cons.prems(2,3) 1(1)] .
  have "lw_cs (ls_lw s1) x \<noteq> 3"
    using lw_exec_waited(1) [OF Cons.prems(2) 1(1) Cons.prems(4)] Cons.prems(5,6) by auto
  moreover have "wstate (ls_lw s1) = kWorkerStatePaused"
    using lw_exec_waited(2) [OF Cons.prems(2) 1(1) Cons.prems(4)] Cons.prems(5,7) 1(1)
    by (cases a) (auto simp: resumes_def Pause_def split: if_splits)
  ultimately show ?case using Cons.IH [OF 1(2) ok Cons.prems(3,4)] Cons.prems(7) by simp
qed simp

text \<open>While the worker is paused nothing it does completes a barrier: a wait for all
  commands does not return before somebody else resumes the XQueue.\<close>

theorem paused_worker_completes_no_barrier:
  assumes "fresh w l t n cs sy" "callbacks_succeed env" "lw_run env acts (lsys_init w) = Some s"
    "lw_run env acts' s = Some s'" "wstate (ls_lw s) = kWorkerStatePaused" "\<forall>a \<in> set acts'. \<not> resumes a"
    "barrier x" "lw_cs (ls_lw s) x \<noteq> kCommandStateCompleted"
  shows "lw_cs (ls_lw s') x \<noteq> kCommandStateCompleted"
  using paused_run [OF assms(4) fresh_run_ok [OF assms(1-3)] assms(2,7,5,8,6)] .

theorem paused_worker_completes_no_barrier_witness:
  "\<exists>s s'. lw_run ex_hw (ex_acts @ [DoPause]) (lsys_init ex_lw) = Some s
     \<and> lw_run ex_hw [Go, Go, Go] s = Some s' \<and> lw_cs (ls_lw s') (WaitAllCmd 1) \<noteq> kCommandStateCompleted"
proof -
  have "map_option (\<lambda>s. (wstate (ls_lw s), lw_cs (ls_lw s) (WaitAllCmd 1),
      map_option (\<lambda>s'. ls_pc s') (lw_run ex_hw [Go, Go, Go] s)))
      (lw_run ex_hw (ex_acts @ [DoPause]) (lsys_init ex_lw))
      = Some (kWorkerStatePaused, 2, Some (AllSleep (KWaitAll (WaitAllCmd 1))))" by code_simp
  then obtain s s' where s: "lw_run ex_hw (ex_acts @ [DoPause]) (lsys_init ex_lw) = Some s"
    "lw_run ex_hw [Go, Go, Go] s = Some s'" "wstate (ls_lw s) = kWorkerStatePaused"
    "lw_cs (ls_lw s) (WaitAllCmd 1) = 2" by fastforce
  have "barrier (WaitAllCmd 1)" "\<forall>a \<in> set [Go, Go, Go]. \<not> resumes a"
    by (simp_all add: barrier_def resumes_def)
  from paused_worker_completes_no_barrier [OF ex_fresh ex_hw_succeeds s(1,2,3) this(2,1)] s show ?thesis
    by auto
qed

text \<open>A batch synchronisation that finds no synchronizable command in flight is left behind in
  flight; it is never completed, as nothing else refers to it.\<close>

lemma batch_sync_left_in_flight:
  assumes "sync_cmd_log w = []" "lw_cs w (BatchCmd n) \<le> kCommandStatePending"
  shows "\<exists>w'. worker_take (BatchCmd n) w = (w', Taken (BatchCmd n))
     \<and> worker_go env (Taken (BatchCmd n)) w' = Some (w', InLoop)
     \<and> lw_cs w' (BatchCmd n) = kCommandStateInFlight"
  using assms set_cstate_Some [of "BatchCmd n" 2 "lw_cs w" "(lw_cs w)(BatchCmd n := 2)"]
  by (auto simp: worker_take_def)

end
