(* ===== verification/AsyncXQueue.thy ===== *)
theory AsyncXQueue
  imports LaunchProperties Operations
begin

text \<open>
  The XQueue (\<^verbatim>\<open>preempt/src/xqueue/async_xqueue.cpp\<close>): a command buffer and a launch worker
  with the operations of the application and of the scheduler on them. The hardware queue
  behind it belongs to a platform; the calls that an operation makes on it are part of its
  result. The states of the commands are those of the worker, \<open>lw_cs\<close>.

  An operation that waits for a command is given as its part before the wait, with the
  command, and its part after it.
\<close>

datatype hw_call =
    HwSynchronize | HwDeactivate | HwReactivate "int list" | HwInterrupt | HwRestore "int list"
  | HwOnPreemptLevelChange int | HwOnHwCommandSubmit int | HwOnXQueueSuspend | HwBeforeXQueueResume

record hwq_env =
  hq_device :: xdevice
  hq_dynamic_level :: bool
  hq_max_level :: int
  hq_accepts_level :: "int \<Rightarrow> bool"
    \<comment> \<open>whether the assertion of \<^verbatim>\<open>OnPreemptLevelChange\<close> holds\<close>

record axq =
  ax_hwq :: hwq_env
  ax_level :: int
  ax_buf :: cmdbuf
  ax_lw :: lw
  ax_suspended :: bool
  ax_terminated :: bool
  ax_next_idx :: int

abbreviation (input) kQueueFeatureAsyncSubmit :: int where "kQueueFeatureAsyncSubmit \<equiv> 1"
abbreviation (input) kQueueFeatureDynamicLevel :: int where "kQueueFeatureDynamicLevel \<equiv> 2"
abbreviation (input) kQueueFeatureDynamicThreshold :: int where "kQueueFeatureDynamicThreshold \<equiv> 4"
abbreviation (input) kQueueFeatureDynamicBatchSize :: int where "kQueueFeatureDynamicBatchSize \<equiv> 8"
abbreviation (input) kQueueFeatureSyncSuspend :: int where "kQueueFeatureSyncSuspend \<equiv> 16"
abbreviation (input) kQueueFeatureResumeDropCommands :: int where "kQueueFeatureResumeDropCommands \<equiv> 32"
abbreviation (input) kQueueResumeFlagDropCommands :: int where "kQueueResumeFlagDropCommands \<equiv> 1"

definition ax_features :: "hwq_env \<Rightarrow> int" where
  "ax_features hq =
     kQueueFeatureAsyncSubmit OR (if hq_dynamic_level hq then kQueueFeatureDynamicLevel else 0)
     OR kQueueFeatureDynamicThreshold OR kQueueFeatureDynamicBatchSize
     OR kQueueFeatureSyncSuspend OR kQueueFeatureResumeDropCommands"

definition GetFeatures :: "axq \<Rightarrow> int \<Rightarrow> int" where
  "GetFeatures x m = ax_features (ax_hwq x) AND m"

definition ax_handle :: "axq \<Rightarrow> xhandle" where
  "ax_handle x = cb_handle (ax_buf x)"

section \<open>Submitting and waiting\<close>

text \<open>\<^verbatim>\<open>Submit\<close> takes an index and enqueues the command, in two steps.\<close>

definition Submit_index :: "axq \<Rightarrow> axq \<times> int" where
  "Submit_index x = (x\<lparr> ax_next_idx := ax_next_idx x + 1 \<rparr>, ax_next_idx x)"

definition Submit_enqueue ::
  "pid \<Rightarrow> time_ns \<Rightarrow> int \<Rightarrow> axq \<Rightarrow> (axq \<times> hw_call list \<times> event list) option" where
  "Submit_enqueue self ready_time i x =
     map_option (\<lambda>(b, cs, evs). (x\<lparr> ax_buf := b, ax_lw := (ax_lw x)\<lparr> lw_cs := cs \<rparr> \<rparr>,
                                [HwOnHwCommandSubmit i], evs))
       (Enqueue self ready_time (HwCmd i) (ax_buf x) (lw_cs (ax_lw x)))"

definition Submit ::
  "pid \<Rightarrow> time_ns \<Rightarrow> axq \<Rightarrow> (axq \<times> int \<times> hw_call list \<times> event list) option" where
  "Submit self ready_time x =
     (case Submit_index x of (x', i) \<Rightarrow>
        map_option (\<lambda>(x'', calls, evs). (x'', i, calls, evs)) (Submit_enqueue self ready_time i x'))"

definition SubmitWaitAll :: "axq \<Rightarrow> (axq \<times> xcmd) option" where
  "SubmitWaitAll x =
     map_option (\<lambda>(b, cs, c). (x\<lparr> ax_buf := b, ax_lw := (ax_lw x)\<lparr> lw_cs := cs \<rparr> \<rparr>, c))
       (EnqueueXQueueWaitAllCommand (ax_buf x) (lw_cs (ax_lw x)))"

text \<open>\<^verbatim>\<open>WaitAll\<close> returns when the command is completed.\<close>

definition WaitAll_returns :: "axq \<Rightarrow> xcmd \<Rightarrow> bool" where
  "WaitAll_returns x c = WaitUntil_returns kCommandStateCompleted (lw_cs (ax_lw x) c)"

datatype wait_plan =
    WaitAborts | WaitReturns | WaitCompleted
  | WaitInFlightThenSyncCmd
  | WaitSynchronize
    \<comment> \<open>with the hardware, for a command of no XQueue\<close>

definition AsyncXQueue_Wait :: "bool \<Rightarrow> int \<Rightarrow> wait_plan" where
  "AsyncXQueue_Wait sync state =
     (if \<not> sync then WaitCompleted
      else if state \<ge> kCommandStateCompleted then WaitReturns
      else WaitInFlightThenSyncCmd)"

definition Query :: "axq \<Rightarrow> xqueue_state" where
  "Query x = cb_state (ax_buf x)"

definition GetHwCommandCount :: "axq \<Rightarrow> int" where
  "GetHwCommandCount x = ax_next_idx x - 1"

section \<open>Suspending and resuming\<close>

definition Suspend :: "int \<Rightarrow> axq \<Rightarrow> axq \<times> hw_call list" where
  "Suspend flags x =
     (if ax_terminated x \<or> ax_suspended x then (x, [])
      else (x\<lparr> ax_suspended := True, ax_lw := Pause (ax_lw x) \<rparr>,
            [HwOnXQueueSuspend]
            @ (if ax_level x \<ge> kPreemptLevelDeactivate then [HwDeactivate] else [])
            @ (if ax_level x \<ge> kPreemptLevelInterrupt then [HwInterrupt] else [])
            @ (if flags AND kQueueSuspendFlagSyncHwQueue \<noteq> 0 then [HwSynchronize] else [])))"

definition restore_calls :: "int \<Rightarrow> int list \<Rightarrow> hw_call list" where
  "restore_calls level lg =
     (if level \<ge> kPreemptLevelInterrupt then [HwRestore lg] else [])
     @ (if level \<ge> kPreemptLevelDeactivate then [HwReactivate lg] else [])"

definition AsyncXQueue_Resume :: "int \<Rightarrow> axq \<Rightarrow> (axq \<times> hw_call list) option" where
  "AsyncXQueue_Resume flags x =
     (if \<not> ax_suspended x then Some (x, [])
      else if ax_level x = kPreemptLevelBlock
      then Some (x\<lparr> ax_suspended := False, ax_lw := Resume (ax_lw x) \<rparr>, [HwBeforeXQueueResume])
      else if flags AND kQueueResumeFlagDropCommands = 0
      then Some (x\<lparr> ax_suspended := False, ax_lw := Resume (ax_lw x) \<rparr>,
                 HwBeforeXQueueResume # restore_calls (ax_level x) (cmd_log (ax_lw x)))
      else case DropAll (ax_buf x) (lw_cs (ax_lw x)) of None \<Rightarrow> None
        | Some (b, cs) \<Rightarrow>
           map_option (\<lambda>w. (x\<lparr> ax_suspended := False, ax_buf := b, ax_lw := w \<rparr>,
                           HwBeforeXQueueResume # restore_calls (ax_level x) []))
             (ResumeAndDrop (ax_next_idx x - 1) ((ax_lw x)\<lparr> lw_cs := cs \<rparr>)))"

section \<open>Configuration\<close>

text \<open>A setter fails an assertion (\<open>None\<close>), has nothing to do, or waits for a command.\<close>

definition SetPreemptLevel_begin :: "int \<Rightarrow> axq \<Rightarrow> (axq \<times> xcmd option) option" where
  "SetPreemptLevel_begin level x =
     (if \<not> (level > kPreemptLevelUnknown \<and> level < kPreemptLevelMax) then None
      else if GetFeatures x kQueueFeatureDynamicLevel = 0
      then (if level = ax_level x then Some (x, None) else None)
      else if level > hq_max_level (ax_hwq x) then Some (x, None)
      else map_option (\<lambda>(x', c). (x', Some c)) (SubmitWaitAll x))"

definition config_event :: "pid \<Rightarrow> axq \<Rightarrow> event" where
  "config_event self x = XQueueConfigUpdateEvent self (ax_handle x) (hq_device (ax_hwq x))
     (ax_level x) (threshold (ax_lw x)) (batch_size (ax_lw x))"

definition SetPreemptLevel_end :: "pid \<Rightarrow> int \<Rightarrow> axq \<Rightarrow> axq \<times> hw_call list \<times> event list" where
  "SetPreemptLevel_end self level x =
     (let x' = x\<lparr> ax_lw := lw_SetPreemptLevel level (ax_lw x), ax_level := level \<rparr> in
      (x', [HwOnPreemptLevelChange level], [config_event self x']))"

text \<open>The values that a call of \<^verbatim>\<open>SetLaunchConfig\<close> sets: a value below 1 means no change.\<close>

definition launch_config :: "int \<Rightarrow> int \<Rightarrow> axq \<Rightarrow> int \<times> int" where
  "launch_config t n x =
     (if t \<le> 0 then threshold (ax_lw x) else t, if n \<le> 0 then batch_size (ax_lw x) else n)"

definition AsyncXQueue_SetLaunchConfig_begin :: "int \<Rightarrow> int \<Rightarrow> axq \<Rightarrow> (axq \<times> xcmd option) option" where
  "AsyncXQueue_SetLaunchConfig_begin t n x =
     (if t \<le> 0 \<and> n \<le> 0 then Some (x, None)
      else if t > 0 \<and> GetFeatures x kQueueFeatureDynamicThreshold = 0 then None
      else if n > 0 \<and> GetFeatures x kQueueFeatureDynamicBatchSize = 0 then None
      else if \<not> fst (launch_config t n x) \<ge> snd (launch_config t n x) then None
      else map_option (\<lambda>(x', c). (x', Some c)) (SubmitWaitAll x))"

definition AsyncXQueue_SetLaunchConfig_end :: "pid \<Rightarrow> int \<Rightarrow> int \<Rightarrow> axq \<Rightarrow> axq \<times> event list" where
  "AsyncXQueue_SetLaunchConfig_end self t n x =
     (let x' = x\<lparr> ax_lw := lw_SetLaunchConfig t n (ax_lw x) \<rparr> in (x', [config_event self x']))"

section \<open>Construction and destruction\<close>

text \<open>The constructor waits for the wait-all command that the buffer holds from the start.\<close>

definition AsyncXQueue_begin ::
  "pid \<Rightarrow> hwq_env \<Rightarrow> int \<Rightarrow> int \<Rightarrow> int \<Rightarrow> xhandle \<Rightarrow> (int \<Rightarrow> bool) \<Rightarrow> (axq \<times> xcmd \<times> event list) option" where
  "AsyncXQueue_begin self hq level t n h sy =
     (case CommandBuffer_new self h of None \<Rightarrow> None
      | Some (b, cs, evs) \<Rightarrow>
         (case LaunchWorker_new level t n cs sy of None \<Rightarrow> None
          | Some w \<Rightarrow>
             if \<not> (level > kPreemptLevelUnknown \<and> level < kPreemptLevelMax) then None
             else map_option (\<lambda>(x, c). (x, c, evs))
               (SubmitWaitAll \<lparr> ax_hwq = hq, ax_level = level, ax_buf = b, ax_lw = w,
                  ax_suspended = False, ax_terminated = False, ax_next_idx = 1 \<rparr>)))"

definition AsyncXQueue_end :: "pid \<Rightarrow> axq \<Rightarrow> hw_call list \<times> event list" where
  "AsyncXQueue_end self x =
     ([HwOnPreemptLevelChange (ax_level x)],
      [XQueueCreateEvent self (ax_handle x) (hq_device (ax_hwq x)) (ax_level x)
         (threshold (ax_lw x)) (batch_size (ax_lw x))])"

text \<open>The destructor resumes with the flag \<^verbatim>\<open>true\<close>, which is \<^verbatim>\<open>kQueueResumeFlagDropCommands\<close>, and
  waits for a destroy command before it tells the scheduler.\<close>

definition AsyncXQueue_destroy_begin :: "pid \<Rightarrow> axq \<Rightarrow> (axq \<times> xcmd \<times> hw_call list \<times> event list) option" where
  "AsyncXQueue_destroy_begin self x =
     (case AsyncXQueue_Resume 1 (x\<lparr> ax_terminated := True \<rparr>) of None \<Rightarrow> None
      | Some (x', calls) \<Rightarrow>
          map_option (\<lambda>(b, cs, evs). (x'\<lparr> ax_buf := b, ax_lw := (ax_lw x')\<lparr> lw_cs := cs \<rparr> \<rparr>,
                                     DestroyCmd 0, calls, evs))
            (Enqueue self 0 (DestroyCmd 0) (ax_buf x') (lw_cs (ax_lw x'))))"

definition AsyncXQueue_destroy_end :: "pid \<Rightarrow> axq \<Rightarrow> event list" where
  "AsyncXQueue_destroy_end self x = [XQueueDestroyEvent self (ax_handle x)]"

section \<open>Hardware commands outside the worker\<close>

text \<open>\<^verbatim>\<open>HwCommand\<close> (\<^verbatim>\<open>preempt/src/hal/hw_command.cpp\<close>) holds on to its XQueue from its submission
  until it is completed; \<open>hc_held\<close> says that it does.\<close>

record hwcmd =
  hc_state :: int
  hc_xqueue_handle :: xhandle
  hc_held :: bool

definition HwCommand_new :: hwcmd where
  "HwCommand_new = \<lparr> hc_state = kCommandStateCreated, hc_xqueue_handle = 0, hc_held = False \<rparr>"

definition OnSubmit :: "xhandle \<Rightarrow> hwcmd \<Rightarrow> hwcmd" where
  "OnSubmit h c = c\<lparr> hc_xqueue_handle := h, hc_held := True \<rparr>"

text \<open>\<^verbatim>\<open>SetState\<close> with the listener that the constructor adds.\<close>

definition HwCommand_SetState :: "int \<Rightarrow> hwcmd \<Rightarrow> hwcmd option" where
  "HwCommand_SetState s c =
     map_option (\<lambda>(s', calls). c\<lparr> hc_state := s',
         hc_held := (hc_held c \<and> (\<forall>n \<in> set calls. n < kCommandStateCompleted)) \<rparr>)
       (SetState s (hc_state c))"

definition HwCommand_Wait :: "bool \<Rightarrow> hwcmd \<Rightarrow> wait_plan" where
  "HwCommand_Wait sync c =
     (if hc_xqueue_handle c = 0 then (if sync then WaitSynchronize else WaitAborts)
      else if \<not> hc_held c then (if hc_state c \<ge> kCommandStateCompleted then WaitReturns else WaitAborts)
      else AsyncXQueue_Wait sync (hc_state c))"

section \<open>The hardware queue under suspension\<close>

text \<open>A hardware queue that may be deactivated once and then interrupted once, and is restored and
  reactivated in the opposite order; any other order is a protocol error (\<open>None\<close>).\<close>

fun hw_track :: "bool \<times> bool \<Rightarrow> hw_call list \<Rightarrow> (bool \<times> bool) option" where
  "hw_track s [] = Some s"
| "hw_track (d, i) (HwDeactivate # cs) = (if d then None else hw_track (True, i) cs)"
| "hw_track (d, i) (HwInterrupt # cs) = (if i \<or> \<not> d then None else hw_track (d, True) cs)"
| "hw_track (d, i) (HwRestore lg # cs) = (if i then hw_track (d, False) cs else None)"
| "hw_track (d, i) (HwReactivate lg # cs) = (if d \<and> \<not> i then hw_track (False, i) cs else None)"
| "hw_track s (c # cs) = hw_track s cs"

lemma hw_track_append:
  "hw_track s (xs @ ys) = (case hw_track s xs of None \<Rightarrow> None | Some s' \<Rightarrow> hw_track s' ys)"
  by (induction s xs rule: hw_track.induct) auto

datatype susp_op = SuspendOp int | ResumeOp int

text \<open>A sequence of calls of \<^verbatim>\<open>Suspend\<close> and \<^verbatim>\<open>Resume\<close>, with whatever else the application and the
  worker do to the buffer and the worker in between (\<open>w\<close>, one for each call).\<close>

fun susp_run :: "(susp_op \<times> cmdbuf \<times> lw) list \<Rightarrow> axq \<Rightarrow> (axq \<times> hw_call list) option" where
  "susp_run [] x = Some (x, [])"
| "susp_run ((SuspendOp f, b, w) # ops) x =
     (case Suspend f (x\<lparr> ax_buf := b, ax_lw := w \<rparr>) of (x', calls) \<Rightarrow>
        map_option (\<lambda>(x'', calls'). (x'', calls @ calls')) (susp_run ops x'))"
| "susp_run ((ResumeOp f, b, w) # ops) x =
     (case AsyncXQueue_Resume f (x\<lparr> ax_buf := b, ax_lw := w \<rparr>) of None \<Rightarrow> None
      | Some (x', calls) \<Rightarrow>
          map_option (\<lambda>(x'', calls'). (x'', calls @ calls')) (susp_run ops x'))"

definition hw_expected :: "axq \<Rightarrow> bool \<times> bool" where
  "hw_expected x = (ax_suspended x \<and> ax_level x \<ge> kPreemptLevelDeactivate,
                    ax_suspended x \<and> ax_level x \<ge> kPreemptLevelInterrupt)"

lemma Suspend_track:
  "Suspend f x = (x', calls) \<Longrightarrow> ax_level x' = ax_level x \<and> hw_track (hw_expected x) calls = Some (hw_expected x')"
  by (auto simp: Suspend_def hw_expected_def hw_track_append split: if_splits)

lemma Resume_track:
  "AsyncXQueue_Resume f x = Some (x', calls) \<Longrightarrow> ax_level x \<ge> kPreemptLevelBlock
    \<Longrightarrow> ax_level x' = ax_level x \<and> hw_track (hw_expected x) calls = Some (hw_expected x')"
  by (auto simp: AsyncXQueue_Resume_def restore_calls_def hw_expected_def split: if_splits option.splits)

lemma hw_expected_upd [simp]: "hw_expected (x\<lparr> ax_buf := b, ax_lw := w \<rparr>) = hw_expected x"
  by (simp add: hw_expected_def)

lemma susp_run_track:
  "susp_run ops x = Some (x', calls) \<Longrightarrow> ax_level x \<ge> kPreemptLevelBlock
    \<Longrightarrow> hw_track (hw_expected x) calls = Some (hw_expected x')"
proof (induction ops x arbitrary: calls rule: susp_run.induct)
  case (2 f b w ops x)
  obtain x1 c1 where 1: "Suspend f (x\<lparr> ax_buf := b, ax_lw := w \<rparr>) = (x1, c1)" by fastforce
  with "2.prems" obtain c2 where c2: "susp_run ops x1 = Some (x', c2)" "calls = c1 @ c2" by auto
  have t: "ax_level x1 = ax_level x" "hw_track (hw_expected x) c1 = Some (hw_expected x1)"
    using Suspend_track [OF 1] by simp_all
  then show ?case using "2.IH" [OF 1 [symmetric] c2(1)] "2.prems"(2) c2(2) 1
    by (simp add: hw_track_append)
next
  case (3 f b w ops x)
  then obtain x1 c1 c2 where 1: "AsyncXQueue_Resume f (x\<lparr> ax_buf := b, ax_lw := w \<rparr>) = Some (x1, c1)"
    and c2: "susp_run ops x1 = Some (x', c2)" "calls = c1 @ c2" by (auto split: option.splits)
  have t: "ax_level x1 = ax_level x" "hw_track (hw_expected x) c1 = Some (hw_expected x1)"
    using Resume_track [OF 1] "3.prems"(2) by simp_all
  then show ?case using "3.IH" [OF 1 _ c2(1)] "3.prems"(2) c2(2)
    by (simp add: hw_track_append)
qed simp

section \<open>Properties\<close>

text \<open>C20: Whatever the sequence of suspensions and resumptions (repeated, out of order, dropping
  or not), the hardware queue is deactivated and interrupted exactly while the XQueue is
  suspended, as its level says, and undone in the opposite order.\<close>

theorem hardware_follows_suspension:
  assumes "susp_run ops x = Some (x', calls)" "ax_level x \<ge> kPreemptLevelBlock" "\<not> ax_suspended x"
  shows "hw_track (False, False) calls =
    Some (ax_suspended x' \<and> ax_level x' \<ge> kPreemptLevelDeactivate,
          ax_suspended x' \<and> ax_level x' \<ge> kPreemptLevelInterrupt)"
  using susp_run_track [OF assms(1,2)] assms(3) by (simp add: hw_expected_def)

definition ex_hwq :: hwq_env where
  "ex_hwq = \<lparr> hq_device = 0, hq_dynamic_level = True, hq_max_level = kPreemptLevelInterrupt,
     hq_accepts_level = (\<lambda>l. l \<le> kPreemptLevelInterrupt) \<rparr>"

lemma ex_hwq_accepts [simp]: "hq_accepts_level ex_hwq l \<longleftrightarrow> l \<le> kPreemptLevelInterrupt"
  by (simp add: ex_hwq_def)

definition ex_axq :: "int \<Rightarrow> axq" where
  "ex_axq l = \<lparr> ax_hwq = ex_hwq, ax_level = l,
     ax_buf = ex_buf\<lparr> cb_cmds := [], cb_waiting := True \<rparr>,
     ax_lw = ex_lw\<lparr> lw_level := l, lw_cs := (\<lambda>_. 0)(WaitAllCmd 0 := kCommandStateCompleted) \<rparr>,
     ax_suspended = False, ax_terminated = False, ax_next_idx = 1 \<rparr>"

lemmas ex_axq_defs = ex_axq_def ex_hwq_def ex_buf_def ex_lw_def LaunchWorker_new_def

definition ex_susp :: "(susp_op \<times> cmdbuf \<times> lw) list" where
  "ex_susp = map (\<lambda>opn. (opn, ax_buf (ex_axq 3), ax_lw (ex_axq 3)))
     [SuspendOp 0, SuspendOp 1, ResumeOp 0, ResumeOp 0, SuspendOp 1]"

lemma ex_susp_run:
  "map_option (\<lambda>(x, calls). (ax_level x, ax_suspended x, calls)) (susp_run ex_susp (ex_axq 3)) =
    Some (3, True, [HwOnXQueueSuspend, HwDeactivate, HwInterrupt, HwBeforeXQueueResume, HwRestore [],
      HwReactivate [], HwOnXQueueSuspend, HwDeactivate, HwInterrupt, HwSynchronize])"
  by (simp add: ex_susp_def Suspend_def AsyncXQueue_Resume_def restore_calls_def ex_axq_defs)

theorem hardware_follows_suspension_witness:
  "\<exists>x calls. susp_run ex_susp (ex_axq 3) = Some (x, calls) \<and> length calls = 10
     \<and> hw_track (False, False) calls = Some (True, True)"
proof -
  obtain x calls where r: "susp_run ex_susp (ex_axq 3) = Some (x, calls)" "ax_level x = 3"
    "ax_suspended x" "length calls = 10" using ex_susp_run by auto
  have "\<not> ax_suspended (ex_axq 3)" "ax_level (ex_axq 3) \<ge> 1" by (simp_all add: ex_axq_def)
  from hardware_follows_suspension [OF r(1) this(2,1)] r show ?thesis by auto
qed

text \<open>The level may be changed while the XQueue is suspended and idle, and then they no
  longer agree: lowered to blocking, the resumption does not reactivate the hardware queue;
  raised, it reactivates a hardware queue that was never deactivated.\<close>

theorem level_change_while_suspended_breaks_hardware:
  "(\<exists>x1 calls1 x2 c x3 calls3 evs x4 calls4.
     Suspend 0 (ex_axq kPreemptLevelDeactivate) = (x1, calls1)
     \<and> SetPreemptLevel_begin kPreemptLevelBlock x1 = Some (x2, Some c) \<and> WaitAll_returns x2 c
     \<and> SetPreemptLevel_end 7 kPreemptLevelBlock x2 = (x3, calls3, evs)
     \<and> AsyncXQueue_Resume 0 x3 = Some (x4, calls4) \<and> \<not> ax_suspended x4
     \<and> hw_track (False, False) (calls1 @ calls3 @ calls4) = Some (True, False))
   \<and> (\<exists>x1 calls1 x2 c x3 calls3 evs x4 calls4.
     Suspend 0 (ex_axq kPreemptLevelBlock) = (x1, calls1)
     \<and> SetPreemptLevel_begin kPreemptLevelDeactivate x1 = Some (x2, Some c) \<and> WaitAll_returns x2 c
     \<and> SetPreemptLevel_end 7 kPreemptLevelDeactivate x2 = (x3, calls3, evs)
     \<and> AsyncXQueue_Resume 0 x3 = Some (x4, calls4)
     \<and> hw_track (False, False) (calls1 @ calls3 @ calls4) = None)"
  by (simp_all add: Suspend_def SetPreemptLevel_begin_def SetPreemptLevel_end_def GetFeatures_def
      ax_features_def SubmitWaitAll_def EnqueueXQueueWaitAllCommand_def WaitAll_returns_def
      WaitUntil_returns_def AsyncXQueue_Resume_def restore_calls_def Pause_def Resume_def
      lw_SetPreemptLevel_def ex_axq_defs Let_def)

text \<open>A resumption that drops leaves nothing behind: the buffer and the logs are empty, every
  command that was in them is completed, the hardware queue is restored with an empty log, and
  whatever was submitted before but is still on its way to the worker will be dropped there.\<close>

theorem dropping_resume_leaves_nothing:
  assumes "ax_suspended x" "ax_level x \<ge> kPreemptLevelDeactivate"
    "f AND kQueueResumeFlagDropCommands \<noteq> 0" "\<forall>c. lw_cs (ax_lw x) c \<le> kCommandStateCompleted"
  shows "\<exists>x'. AsyncXQueue_Resume f x = Some (x', HwBeforeXQueueResume # restore_calls (ax_level x) [])
     \<and> cb_cmds (ax_buf x') = [] \<and> cmd_log (ax_lw x') = [] \<and> sync_cmd_log (ax_lw x') = []
     \<and> (\<forall>c \<in> set (cb_cmds (ax_buf x)) \<union> HwCmd ` set (cmd_log (ax_lw x)).
          lw_cs (ax_lw x') c = kCommandStateCompleted)
     \<and> drop_idx (ax_lw x') = GetHwCommandCount x \<and> wstate (ax_lw x') = kWorkerStateRunning
     \<and> \<not> ax_suspended x'"
proof -
  let ?b = "cb_cmds (ax_buf x)" and ?cs = "lw_cs (ax_lw x)" and ?l = "map HwCmd (cmd_log (ax_lw x))"
  let ?cs1 = "\<lambda>c. if c \<in> set ?b then 3 else ?cs c"
  have 1: "set_all ?b 3 ?cs = Some ?cs1" by (rule set_all_Completed) (use assms(4) in simp)
  have 2: "set_all ?l 3 ?cs1 = Some (\<lambda>c. if c \<in> set ?l then 3 else ?cs1 c)"
    by (rule set_all_Completed) (use assms(4) in simp)
  show ?thesis using assms(1-3) 1 2
    by (simp add: AsyncXQueue_Resume_def DropAll_def ResumeAndDrop_def clear_logs_def
        GetHwCommandCount_def) blast
qed

definition ex_drop :: axq where
  "ex_drop = (ex_axq 2)\<lparr> ax_suspended := True, ax_next_idx := 4,
     ax_buf := ex_buf\<lparr> cb_cmds := [HwCmd 2, HwCmd 3] \<rparr>,
     ax_lw := ex_lw\<lparr> cmd_log := [1], lw_cs := (\<lambda>_. 1)(HwCmd 1 := 2) \<rparr> \<rparr>"

theorem dropping_resume_leaves_nothing_witness:
  "\<exists>x'. AsyncXQueue_Resume 1 ex_drop = Some (x', [HwBeforeXQueueResume, HwReactivate []])
     \<and> cb_cmds (ax_buf x') = [] \<and> cmd_log (ax_lw x') = []
     \<and> lw_cs (ax_lw x') (HwCmd 1) = kCommandStateCompleted \<and> lw_cs (ax_lw x') (HwCmd 3) = kCommandStateCompleted
     \<and> drop_idx (ax_lw x') = 3"
proof -
  have h: "ax_suspended ex_drop" "ax_level ex_drop \<ge> 2" "(1 :: int) AND 1 \<noteq> 0"
    "\<forall>c. lw_cs (ax_lw ex_drop) c \<le> 3" by (simp_all add: ex_drop_def ex_axq_def)
  from dropping_resume_leaves_nothing [OF h] show ?thesis
    by (simp add: ex_drop_def ex_axq_def restore_calls_def GetHwCommandCount_def ex_buf_def) blast
qed

definition ex_race_buf :: "(axq \<times> int list) option" where
  "ex_race_buf =
     (case Submit_index (ex_axq 1) of (x1, i) \<Rightarrow>
      case Submit_index x1 of (x2, j) \<Rightarrow>
      case Submit_enqueue 7 0 j x2 of None \<Rightarrow> None
      | Some (x3, _, _) \<Rightarrow> map_option (\<lambda>(x4, _, _). (x4, [i, j])) (Submit_enqueue 7 0 i x3))"

definition ex_race_launch :: "lw \<times> app_pc" where
  "ex_race_launch =
     (case ex_race_buf of None \<Rightarrow> (ex_lw, AppAborted)
      | Some (x, _) \<Rightarrow>
         let w0 = (ax_lw x)\<lparr> threshold := 16, synchronizable := (\<lambda>_. True) \<rparr>;
             w1 = fst (LaunchHwCommand ex_hw 2 w0);
             w2 = fst (LaunchHwCommand ex_hw 1 w1) in
         (case SyncCmd 1 w2 of
            (w3, AppHw d n) \<Rightarrow> the (app_go (AppHw d n) w3)
          | r \<Rightarrow> r))"

text \<open>Two threads that submit at the same time may enqueue in the other order than they took
  their indices; the log is then out of order, and waiting for the command with the smaller
  index returns while it is still in flight.\<close>

theorem racing_submits_break_wait:
  "map_option (\<lambda>(x, is). (cb_cmds (ax_buf x), is)) ex_race_buf = Some ([HwCmd 2, HwCmd 1], [1, 2])
   \<and> cmd_log (fst ex_race_launch) = [2, 1] \<and> snd ex_race_launch = AppIdle
   \<and> lw_cs (fst ex_race_launch) (HwCmd 1) = kCommandStateInFlight"
proof -
  have "map_option (\<lambda>(x, is). (cb_cmds (ax_buf x), is)) ex_race_buf = Some ([HwCmd 2, HwCmd 1], [1, 2])"
    by code_simp
  moreover have "cmd_log (fst ex_race_launch) = [2, 1]" by code_simp
  moreover have "snd ex_race_launch = AppIdle" by code_simp
  moreover have "lw_cs (fst ex_race_launch) (HwCmd 1) = kCommandStateInFlight" by code_simp
  ultimately show ?thesis by blast
qed

fun hc_states :: "int list \<Rightarrow> hwcmd \<Rightarrow> hwcmd option" where
  "hc_states [] c = Some c"
| "hc_states (n # ns) c = (case HwCommand_SetState n c of None \<Rightarrow> None | Some c' \<Rightarrow> hc_states ns c')"

definition hc_ok :: "xhandle \<Rightarrow> hwcmd \<Rightarrow> bool" where
  "hc_ok h c \<longleftrightarrow> hc_xqueue_handle c = h \<and> (hc_held c \<or> hc_state c \<ge> kCommandStateCompleted)"

lemma hc_states_ok: "hc_states ns c = Some c' \<Longrightarrow> hc_ok h c \<Longrightarrow> hc_ok h c'"
proof (induction ns arbitrary: c)
  case (Cons n ns)
  then obtain c1 where 1: "HwCommand_SetState n c = Some c1" "hc_states ns c1 = Some c'"
    by (auto split: option.splits)
  have "hc_ok h c1" using 1(1) Cons.prems(2)
    by (auto simp: HwCommand_SetState_def SetState_Some hc_ok_def)
  then show ?case using Cons.IH [OF 1(2)] by simp
qed simp

text \<open>Once submitted to an XQueue, a command can be waited for at any moment of its life
  without failing an assertion, also after it has let go of the XQueue.\<close>

theorem submitted_command_can_be_waited_for:
  assumes "h \<noteq> 0" "hc_states ns (OnSubmit h HwCommand_new) = Some c"
  shows "HwCommand_Wait sync c \<noteq> WaitAborts"
proof -
  have "hc_ok h (OnSubmit h HwCommand_new)" by (simp add: hc_ok_def OnSubmit_def HwCommand_new_def)
  from hc_states_ok [OF assms(2) this] show ?thesis using assms(1)
    by (auto simp: HwCommand_Wait_def AsyncXQueue_Wait_def hc_ok_def)
qed

theorem submitted_command_can_be_waited_for_witness:
  "\<exists>c. hc_states [1, 2, 3] (OnSubmit 9 HwCommand_new) = Some c \<and> \<not> hc_held c
     \<and> HwCommand_Wait False c \<noteq> WaitAborts"
proof -
  obtain c where c: "hc_states [1, 2, 3] (OnSubmit 9 HwCommand_new) = Some c" "\<not> hc_held c"
    by (simp add: HwCommand_SetState_def SetState_def OnSubmit_def HwCommand_new_def upto.simps)
  have "(9 :: xhandle) \<noteq> 0" by simp
  from submitted_command_can_be_waited_for [OF this c(1)] c show ?thesis by blast
qed

end
