(* ===== verification/Numbers.thy ===== *)
theory Numbers
  imports ProcfsPolicy
begin

text \<open>
  The standard library's conversions between numbers and text that the program uses:
  \<^verbatim>\<open>strtol\<close>, \<^verbatim>\<open>std::stoi\<close>, \<^verbatim>\<open>std::stoll\<close>, \<^verbatim>\<open>std::stoull\<close> in base 16, \<^verbatim>\<open>std::to_string\<close> and the
  hexadecimal output of streams. A conversion that throws is \<open>None\<close>; the number of characters
  it has read is part of the result. The lemmas show that what is written is read back.
\<close>

section \<open>Digits\<close>

definition digit_char :: "nat \<Rightarrow> char" where
  "digit_char d = char_of (if d < 10 then 48 + d else 87 + d)"

definition digit_value :: "char \<Rightarrow> nat" where
  "digit_value c = (let n = (of_char c :: nat) in
     if n \<le> 57 then n - 48 else if n \<le> 70 then n - 55 else n - 87)"

definition is_hex :: "char \<Rightarrow> bool" where
  "is_hex c = (let n = (of_char c :: nat) in
     (48 \<le> n \<and> n \<le> 57) \<or> (65 \<le> n \<and> n \<le> 70) \<or> (97 \<le> n \<and> n \<le> 102))"

definition value_of :: "nat \<Rightarrow> string \<Rightarrow> nat" where
  "value_of b ds = foldl (\<lambda>n d. b * n + digit_value d) 0 ds"

text \<open>The digits of a number in base \<open>b\<close>, most significant first.\<close>

function digits :: "nat \<Rightarrow> nat \<Rightarrow> string" where
  "digits b n = (if b < 2 \<or> n < b then [digit_char n] else digits b (n div b) @ [digit_char (n mod b)])"
  by pat_completeness auto
termination by (relation "measure snd") auto

declare digits.simps [simp del]

section \<open>Reading\<close>

text \<open>The sign and the rest after leading white space.\<close>

definition sign_of :: "string \<Rightarrow> bool \<times> string" where
  "sign_of s =
     (case dropWhile is_space s of
        c # r \<Rightarrow> if c = CHR ''-'' then (True, r) else if c = CHR ''+'' then (False, r) else (False, c # r)
      | [] \<Rightarrow> (False, []))"

definition scan_dec :: "string \<Rightarrow> (int \<times> string) option" where
  "scan_dec s =
     (case sign_of s of (neg, u) \<Rightarrow>
        (let ds = takeWhile is_digit u; v = int (value_of 10 ds) in
         if ds = [] then None else Some (if neg then - v else v, dropWhile is_digit u)))"

text \<open>A prefix \<^verbatim>\<open>0x\<close> counts only before a digit.\<close>

definition skip_0x :: "string \<Rightarrow> string" where
  "skip_0x u =
     (case u of c # x # d # r \<Rightarrow>
        if c = CHR ''0'' \<and> (x = CHR ''x'' \<or> x = CHR ''X'') \<and> is_hex d then d # r else u
      | _ \<Rightarrow> u)"

definition scan_hex :: "string \<Rightarrow> (int \<times> string) option" where
  "scan_hex s =
     (case sign_of s of (neg, u) \<Rightarrow>
        (let w = skip_0x u; ds = takeWhile is_hex w; v = int (value_of 16 ds) in
         if ds = [] then None else Some (if neg then - v else v, dropWhile is_hex w)))"

definition strtol :: "string \<Rightarrow> (int \<times> string) option" where
  "strtol s = map_option (\<lambda>(v, r). (max (- (2 ^ 63)) (min (2 ^ 63 - 1) v), r)) (scan_dec s)"

definition stoll :: "string \<Rightarrow> (int \<times> nat) option" where
  "stoll s =
     (case scan_dec s of None \<Rightarrow> None
      | Some (v, r) \<Rightarrow> if - (2 ^ 63) \<le> v \<and> v < 2 ^ 63 then Some (v, length s - length r) else None)"

definition stoi :: "string \<Rightarrow> (int \<times> nat) option" where
  "stoi s =
     (case scan_dec s of None \<Rightarrow> None
      | Some (v, r) \<Rightarrow> if - (2 ^ 31) \<le> v \<and> v < 2 ^ 31 then Some (v, length s - length r) else None)"

text \<open>A negative number is accepted and wraps around.\<close>

definition stoull16 :: "string \<Rightarrow> (64 word \<times> nat) option" where
  "stoull16 s =
     (case scan_hex s of None \<Rightarrow> None
      | Some (v, r) \<Rightarrow> if \<bar>v\<bar> < 2 ^ 64 then Some (word_of_int v, length s - length r) else None)"

section \<open>Writing\<close>

definition to_string :: "int \<Rightarrow> string" where
  "to_string n = (if n < 0 then CHR ''-'' # digits 10 (nat (- n)) else digits 10 (nat n))"

definition ToHex :: "64 word \<Rightarrow> string" where
  "ToHex x = ''0x'' @ digits 16 (unat x)"

section \<open>What is written is read back\<close>

lemma of_char_digit_char: "d < 16 \<Longrightarrow> (of_char (digit_char d) :: nat) = (if d < 10 then 48 + d else 87 + d)"
  by (simp add: digit_char_def of_char_of)

lemma digit_value_char [simp]: "d < 16 \<Longrightarrow> digit_value (digit_char d) = d"
  by (simp add: digit_value_def of_char_digit_char Let_def)

lemma is_digit_char [simp]: "d < 10 \<Longrightarrow> is_digit (digit_char d)"
  by (simp add: is_digit_def of_char_digit_char)

lemma is_hex_char [simp]: "d < 16 \<Longrightarrow> is_hex (digit_char d)"
  by (simp add: is_hex_def of_char_digit_char Let_def)

lemma digits_not_Nil [simp]: "digits b n \<noteq> []"
  by (subst digits.simps) simp

lemma value_of_snoc: "value_of b (ds @ [d]) = b * value_of b ds + digit_value d"
  by (simp add: value_of_def)

lemma value_of_digits: "2 \<le> b \<Longrightarrow> b \<le> 16 \<Longrightarrow> value_of b (digits b n) = n"
proof (induction b n rule: digits.induct)
  case (1 b n)
  show ?case
  proof (cases "n < b")
    case True
    then have "digits b n = [digit_char n]" by (simp add: digits.simps [of b n])
    then show ?thesis using True 1(3) by (simp add: value_of_def)
  next
    case False
    have "digits b n = digits b (n div b) @ [digit_char (n mod b)]"
      using False 1(2) by (simp add: digits.simps [of b n])
    moreover have "n mod b < 16" using 1(2,3) by (meson less_le_trans mod_less_divisor not_less zero_less_numeral le_trans pos2)
    moreover have "value_of b (digits b (n div b)) = n div b" using 1 False by simp
    ultimately show ?thesis by (simp add: value_of_snoc)
  qed
qed

lemma digits_all:
  assumes "2 \<le> b" "\<And>d. d < b \<Longrightarrow> P (digit_char d)"
  shows "list_all P (digits b n)"
  using assms
proof (induction b n rule: digits.induct)
  case (1 b n)
  then show ?case by (subst digits.simps) simp
qed

lemma takeWhile_all: "list_all P xs \<Longrightarrow> takeWhile P xs = xs \<and> dropWhile P xs = []"
  by (induction xs) auto

lemma digit_not_special: "is_digit c \<Longrightarrow> \<not> is_space c \<and> c \<noteq> CHR ''-'' \<and> c \<noteq> CHR ''+''"
  by (auto simp: is_digit_def is_space_def)

lemma sign_of_digit: "is_digit c \<Longrightarrow> sign_of (c # r) = (False, c # r)"
  using digit_not_special [of c] by (simp add: sign_of_def)

lemma sign_of_minus: "sign_of (CHR ''-'' # r) = (True, r)"
  by (simp add: sign_of_def is_space_def)

lemma digits_dec: "list_all is_digit (digits 10 n)"
  by (rule digits_all) simp_all

lemma digits_hex: "list_all is_hex (digits 16 n)"
  by (rule digits_all) simp_all

lemma takeWhile_digits [simp]:
  "takeWhile is_digit (digits 10 n) = digits 10 n" "dropWhile is_digit (digits 10 n) = []"
  "takeWhile is_hex (digits 16 n) = digits 16 n" "dropWhile is_hex (digits 16 n) = []"
  using takeWhile_all [OF digits_dec] takeWhile_all [OF digits_hex] by blast+

lemma sign_of_digits: "sign_of (digits 10 n) = (False, digits 10 n)"
proof -
  obtain c r where c: "digits 10 n = c # r" by (cases "digits 10 n") simp_all
  then have "is_digit c" using digits_dec [of n] by simp
  then show ?thesis unfolding c by (rule sign_of_digit)
qed

lemma scan_to_string: "scan_dec (to_string n) = Some (n, [])"
  by (simp add: to_string_def scan_dec_def sign_of_minus sign_of_digits Let_def value_of_digits)

lemma stoll_to_string: "- (2 ^ 63) \<le> n \<Longrightarrow> n < 2 ^ 63 \<Longrightarrow> stoll (to_string n) = Some (n, length (to_string n))"
  by (simp add: stoll_def scan_to_string)

lemma stoi_to_string: "- (2 ^ 31) \<le> n \<Longrightarrow> n < 2 ^ 31 \<Longrightarrow> stoi (to_string n) = Some (n, length (to_string n))"
  by (simp add: stoi_def scan_to_string)

lemma skip_0x_ToHex: "skip_0x (ToHex x) = digits 16 (unat x)"
proof -
  obtain c r where c: "digits 16 (unat x) = c # r" by (cases "digits 16 (unat x)") simp_all
  then have "is_hex c" using digits_hex [of "unat x"] by simp
  then show ?thesis by (simp add: skip_0x_def ToHex_def c)
qed

lemma scan_hex_ToHex: "scan_hex (ToHex x) = Some (uint x, [])"
proof -
  have "sign_of (ToHex x) = (False, ToHex x)" by (simp add: ToHex_def sign_of_digit is_digit_def)
  then show ?thesis by (simp add: scan_hex_def skip_0x_ToHex Let_def value_of_digits)
qed

lemma stoull16_ToHex: "stoull16 (ToHex x) = Some (x, length (ToHex x))"
  using uint_lt2p [of x] by (simp add: stoull16_def scan_hex_ToHex)

end
