(* ===== verification/MemoryAdmission.thy ===== *)
theory MemoryAdmission
  imports Numbers
begin

text \<open>
  The admission of device memory (\<^verbatim>\<open>preempt/src/memory/admission.cpp\<close>): the regions that a
  backend manages, with the XQueue that uses each, are evicted to the host when an XQueue is
  suspended under memory pressure, and brought back, up to the share of the XQueue, before it
  is resumed. The tables are lists in the order in which the maps happen to be iterated.
  Quantities of type \<^verbatim>\<open>size_t\<close> are integers with the wrap-around written as \<open>wrap64\<close>; what the
  backend answers in one call is \<open>mem_backend\<close>.
\<close>

definition wrap64 :: "int \<Rightarrow> int" where
  "wrap64 n = n mod 2 ^ 64"

lemma wrap64_id: "0 \<le> n \<Longrightarrow> n < 2 ^ 64 \<Longrightarrow> wrap64 n = n"
  by (simp add: wrap64_def)

record mem_region =
  mr_backend :: nat
  mr_size :: int
  mr_context :: int
  mr_device :: int
  mr_owner :: xhandle
  mr_resident :: bool
  mr_touch :: int

record queue_mem =
  qm_backend :: "nat option"
  qm_context :: int
  qm_device :: int
  qm_priority :: int
  qm_active :: bool
  qm_last_active :: int

record mem =
  g_regions :: "(int \<times> mem_region) list"
  g_queues :: "(xhandle \<times> queue_mem) list"
  g_clock :: int

record mem_backend =
  mb_id :: nat
  mb_enabled :: bool
  mb_query_mem_info :: bool
  mb_async_prefetch :: bool
  mb_evict_to_host :: bool
  mb_query :: "(int \<times> int) option"
    \<comment> \<open>free and total bytes of the device\<close>
  mb_evict :: "int \<Rightarrow> bool"
  mb_prefetch :: "int \<Rightarrow> bool"

type_synonym getenv = "string \<Rightarrow> string option"

section \<open>Configuration\<close>

text \<open>\<^verbatim>\<open>strcasecmp\<close> on ASCII letters.\<close>

definition to_lower :: "char \<Rightarrow> char" where
  "to_lower c = (let n = (of_char c :: nat) in if 65 \<le> n \<and> n \<le> 90 then char_of (n + 32) else c)"

definition EnvTruthy :: "getenv \<Rightarrow> string \<Rightarrow> bool" where
  "EnvTruthy env name =
     (case env name of None \<Rightarrow> False
      | Some s \<Rightarrow> s \<noteq> [] \<and> s \<noteq> ''0'' \<and> map to_lower s \<noteq> ''off'' \<and> map to_lower s \<noteq> ''false'')"

definition GloballyEnabled :: "getenv \<Rightarrow> bool" where
  "GloballyEnabled env \<longleftrightarrow> EnvTruthy env ''XSCHED_XPU_MEM_OVERSUB'' \<or> EnvTruthy env ''XSCHED_CUDA_MEM_OVERSUB''"

definition EnvInt :: "getenv \<Rightarrow> string \<Rightarrow> int \<Rightarrow> int" where
  "EnvInt env name fallback =
     (case env name of None \<Rightarrow> fallback
      | Some s \<Rightarrow> (case strtol s of Some (v, []) \<Rightarrow> v | _ \<Rightarrow> fallback))"

definition EnvPercent :: "getenv \<Rightarrow> string \<Rightarrow> string \<Rightarrow> int \<Rightarrow> int" where
  "EnvPercent env name compat_name fallback =
     (let v = EnvInt env name (EnvInt env compat_name fallback) in
      if v \<le> 0 \<or> v \<ge> 100 then fallback else v)"

definition high_percent :: "getenv \<Rightarrow> int" where
  "high_percent env = EnvPercent env ''XSCHED_XPU_MEM_HIGH_WATERMARK'' ''XSCHED_CUDA_MEM_HIGH_WATERMARK'' 85"

definition HighWatermark :: "getenv \<Rightarrow> int \<Rightarrow> int" where
  "HighWatermark env tot = wrap64 (tot * high_percent env) div 100"

definition low_percent :: "getenv \<Rightarrow> int" where
  "low_percent env =
     (let high = high_percent env;
          low = EnvPercent env ''XSCHED_XPU_MEM_LOW_WATERMARK'' ''XSCHED_CUDA_MEM_LOW_WATERMARK'' 75 in
      if low \<ge> high then max 1 (high - 10) else low)"

definition LowWatermark :: "getenv \<Rightarrow> int \<Rightarrow> int" where
  "LowWatermark env tot = wrap64 (tot * low_percent env) div 100"

definition MbLimit :: "getenv \<Rightarrow> string \<Rightarrow> int \<Rightarrow> int" where
  "MbLimit env name fallback_mb =
     (let mb = EnvInt env name fallback_mb in if mb \<le> 0 then 0 else wrap64 (mb * 2 ^ 20))"

definition UsableBackend :: "getenv \<Rightarrow> mem_backend option \<Rightarrow> bool" where
  "UsableBackend env b = (case b of None \<Rightarrow> False | Some bk \<Rightarrow> GloballyEnabled env \<and> mb_enabled bk)"

section \<open>Regions\<close>

definition in_context :: "mem_backend \<Rightarrow> int \<Rightarrow> int \<Rightarrow> mem_region \<Rightarrow> bool" where
  "in_context b ctx dev r \<longleftrightarrow> mr_backend r = mb_id b \<and> mr_context r = ctx \<and> mr_device r = dev"

text \<open>\<^verbatim>\<open>AdoptContextRegions\<close>: regions without an owner become the queue's.\<close>

fun adopt :: "mem_backend \<Rightarrow> int \<Rightarrow> int \<Rightarrow> xhandle \<Rightarrow> (int \<times> mem_region) list \<Rightarrow> int
    \<Rightarrow> (int \<times> mem_region) list \<times> int" where
  "adopt b ctx dev q [] clk = ([], clk)"
| "adopt b ctx dev q ((p, r) # rs) clk =
     (if in_context b ctx dev r \<and> mr_owner r = 0
      then (case adopt b ctx dev q rs (wrap64 (clk + 1)) of (rs', clk') \<Rightarrow>
              ((p, r\<lparr> mr_owner := q, mr_touch := wrap64 (clk + 1) \<rparr>) # rs', clk'))
      else (case adopt b ctx dev q rs clk of (rs', clk') \<Rightarrow> ((p, r) # rs', clk')))"

definition AdoptContextRegions :: "mem_backend \<Rightarrow> int \<Rightarrow> int \<Rightarrow> xhandle \<Rightarrow> mem \<Rightarrow> mem" where
  "AdoptContextRegions b ctx dev q m =
     (if q = 0 then m
      else case adopt b ctx dev q (g_regions m) (g_clock m) of (rs, clk) \<Rightarrow>
        m\<lparr> g_regions := rs, g_clock := clk \<rparr>)"

definition sum_bytes :: "(mem_region \<Rightarrow> bool) \<Rightarrow> mem \<Rightarrow> int" where
  "sum_bytes P m = foldl (\<lambda>n (p, r). if P r then wrap64 (n + mr_size r) else n) 0 (g_regions m)"

definition TrackedResidentBytes :: "mem_backend \<Rightarrow> int \<Rightarrow> int \<Rightarrow> mem \<Rightarrow> int" where
  "TrackedResidentBytes b ctx dev m = sum_bytes (\<lambda>r. in_context b ctx dev r \<and> mr_resident r) m"

definition QueueResidentBytes :: "mem_backend \<Rightarrow> int \<Rightarrow> int \<Rightarrow> xhandle \<Rightarrow> mem \<Rightarrow> int" where
  "QueueResidentBytes b ctx dev q m =
     sum_bytes (\<lambda>r. in_context b ctx dev r \<and> mr_owner r = q \<and> mr_resident r) m"

definition QueueHotBytes :: "mem_backend \<Rightarrow> int \<Rightarrow> int \<Rightarrow> xhandle \<Rightarrow> mem \<Rightarrow> int" where
  "QueueHotBytes b ctx dev q m = sum_bytes (\<lambda>r. in_context b ctx dev r \<and> mr_owner r = q) m"

definition QueueWeight :: "queue_mem \<Rightarrow> int" where
  "QueueWeight q = max 1 (qm_priority q - PRIORITY_MIN + 1)"

definition competing :: "mem_backend \<Rightarrow> int \<Rightarrow> int \<Rightarrow> queue_mem \<Rightarrow> bool" where
  "competing b ctx dev q \<longleftrightarrow>
     qm_active q \<and> qm_backend q = Some (mb_id b) \<and> qm_context q = ctx \<and> qm_device q = dev"

text \<open>The loop of \<^verbatim>\<open>QueueBudget\<close>: the sum of the weights, the own weight, the number.\<close>

definition weigh :: "mem_backend \<Rightarrow> int \<Rightarrow> int \<Rightarrow> xhandle \<Rightarrow> mem \<Rightarrow> int \<times> int \<times> int" where
  "weigh b ctx dev q m =
     foldl (\<lambda>(wsum, this, cnt) (h, s).
        if competing b ctx dev s
        then (wrap64 (wsum + QueueWeight s), if h = q then QueueWeight s else this, cnt + 1)
        else (wsum, this, cnt)) (0, 1, 0) (g_queues m)"

definition QueueBudget :: "getenv \<Rightarrow> mem_backend \<Rightarrow> int \<Rightarrow> int \<Rightarrow> xhandle \<Rightarrow> int \<Rightarrow> mem \<Rightarrow> int" where
  "QueueBudget env b ctx dev q tot m =
     (let usable = LowWatermark env tot in
      case weigh b ctx dev q m of (wsum, this, cnt) \<Rightarrow>
        if cnt = 0 \<or> wsum = 0 then usable
        else (let budget = wrap64 (usable * this) div wsum; hot = QueueHotBytes b ctx dev q m in
              if hot \<noteq> 0 then min budget hot else budget))"

section \<open>Operations\<close>

definition tick :: "mem \<Rightarrow> mem" where
  "tick m = m\<lparr> g_clock := wrap64 (g_clock m + 1) \<rparr>"

definition RegisterRegion ::
  "getenv \<Rightarrow> mem_backend option \<Rightarrow> int \<Rightarrow> int \<Rightarrow> int \<Rightarrow> int \<Rightarrow> xhandle \<Rightarrow> mem \<Rightarrow> mem" where
  "RegisterRegion env b ptr sz ctx dev owner m =
     (if \<not> UsableBackend env b \<or> ptr = 0 \<or> sz = 0 \<or> ctx = 0 then m
      else (let m' = tick m in
            m'\<lparr> g_regions := AList.update ptr
              \<lparr> mr_backend = mb_id (the b), mr_size = sz, mr_context = ctx, mr_device = dev,
                mr_owner = owner, mr_resident = True, mr_touch = g_clock m' \<rparr> (g_regions m') \<rparr>))"

definition UnregisterRegion :: "getenv \<Rightarrow> mem_backend option \<Rightarrow> int \<Rightarrow> mem \<Rightarrow> mem" where
  "UnregisterRegion env b ptr m =
     (if \<not> UsableBackend env b \<or> ptr = 0 then m
      else case map_of (g_regions m) ptr of None \<Rightarrow> m
        | Some r \<Rightarrow> if mr_backend r \<noteq> mb_id (the b) then m
                   else m\<lparr> g_regions := AList.delete ptr (g_regions m) \<rparr>)"

text \<open>The first region that holds the address.\<close>

definition holds :: "mem_backend \<Rightarrow> int \<Rightarrow> int \<Rightarrow> int \<Rightarrow> int \<times> mem_region \<Rightarrow> bool" where
  "holds b ctx dev ptr e \<longleftrightarrow> in_context b ctx dev (snd e)
     \<and> \<not> (ptr < fst e \<or> ptr \<ge> wrap64 (fst e + mr_size (snd e)))"

definition TouchRegion ::
  "getenv \<Rightarrow> mem_backend option \<Rightarrow> int \<Rightarrow> int \<Rightarrow> int \<Rightarrow> xhandle \<Rightarrow> mem \<Rightarrow> mem" where
  "TouchRegion env b ctx dev ptr owner m =
     (if \<not> UsableBackend env b \<or> ptr = 0 \<or> owner = 0 then m
      else case find (holds (the b) ctx dev ptr) (g_regions m) of None \<Rightarrow> m
        | Some (p, r) \<Rightarrow>
            (let m' = tick m in
             m'\<lparr> g_regions := AList.update p (r\<lparr> mr_owner := owner, mr_touch := g_clock m' \<rparr>)
                               (g_regions m') \<rparr>))"

text \<open>\<^verbatim>\<open>g_queues[queue]\<close> makes an entry where there is none.\<close>

definition QueueState_new :: queue_mem where
  "QueueState_new = \<lparr> qm_backend = None, qm_context = 0, qm_device = 0, qm_priority = PRIORITY_DEFAULT,
     qm_active = False, qm_last_active = 0 \<rparr>"

definition upd_mem_queue :: "xhandle \<Rightarrow> (queue_mem \<Rightarrow> queue_mem) \<Rightarrow> mem \<Rightarrow> mem" where
  "upd_mem_queue q f m = m\<lparr> g_queues := AList.update q
     (f (case map_of (g_queues m) q of Some s \<Rightarrow> s | None \<Rightarrow> QueueState_new)) (g_queues m) \<rparr>"

definition SetQueuePriority :: "xhandle \<Rightarrow> int \<Rightarrow> mem \<Rightarrow> mem" where
  "SetQueuePriority q prio m =
     (if q = 0 then m
      else upd_mem_queue q (\<lambda>s. s\<lparr> qm_priority := min (max prio PRIORITY_MIN) PRIORITY_MAX \<rparr>) m)"

definition RemoveQueue :: "xhandle \<Rightarrow> mem \<Rightarrow> mem" where
  "RemoveQueue q m =
     (if q = 0 then m
      else m\<lparr> g_queues := AList.delete q (g_queues m),
              g_regions := map (\<lambda>(p, r). (p, if mr_owner r = q then r\<lparr> mr_owner := 0 \<rparr> else r)) (g_regions m) \<rparr>)"

section \<open>Eviction\<close>

definition owner_active :: "mem \<Rightarrow> mem_region \<Rightarrow> bool" where
  "owner_active m r = (case map_of (g_queues m) (mr_owner r) of Some s \<Rightarrow> qm_active s | None \<Rightarrow> False)"

definition owner_priority :: "mem \<Rightarrow> mem_region \<Rightarrow> int" where
  "owner_priority m r =
     (case map_of (g_queues m) (mr_owner r) of Some s \<Rightarrow> qm_priority s | None \<Rightarrow> PRIORITY_DEFAULT)"

text \<open>The comparison of the sort, as the source writes it.\<close>

definition victim_less :: "mem \<Rightarrow> mem_region \<Rightarrow> mem_region \<Rightarrow> bool" where
  "victim_less m a b =
     (if owner_active m a \<noteq> owner_active m b then \<not> owner_active m a
      else if owner_priority m a \<noteq> owner_priority m b then owner_priority m a < owner_priority m b
      else if mr_touch a \<noteq> mr_touch b then mr_touch a < mr_touch b
      else mr_size a > mr_size b)"

text \<open>Sorting by it, as nested stable sorts from the last criterion to the first; regions that are
  equal in all of them do not occur, since every touch has its own number.\<close>

definition sort_victims :: "mem \<Rightarrow> (int \<times> mem_region) list \<Rightarrow> (int \<times> mem_region) list" where
  "sort_victims m rs =
     sort_key (\<lambda>e. owner_active m (snd e)) (sort_key (\<lambda>e. owner_priority m (snd e))
       (sort_key (\<lambda>e. mr_touch (snd e)) (sort_key (\<lambda>e. - mr_size (snd e)) rs)))"

definition set_resident :: "int \<Rightarrow> bool \<Rightarrow> mem \<Rightarrow> mem" where
  "set_resident p v m = (let m' = tick m in
     m'\<lparr> g_regions := AList.map_entry p (\<lambda>r. r\<lparr> mr_resident := v, mr_touch := g_clock m' \<rparr>) (g_regions m') \<rparr>)"

text \<open>Moving regions, one way or the other, until enough is moved; the addresses of those moved
  are the second component.\<close>

fun move_regions :: "(int \<Rightarrow> bool) \<Rightarrow> bool \<Rightarrow> int \<Rightarrow> int \<Rightarrow> (int \<times> mem_region) list \<Rightarrow> mem \<Rightarrow> mem \<times> int list" where
  "move_regions try_move v need moved [] m = (m, [])"
| "move_regions try_move v need moved ((p, r) # rs) m =
     (if \<not> try_move p then move_regions try_move v need moved rs m
      else (let m' = set_resident p v m; moved' = wrap64 (moved + mr_size r) in
            if moved' \<ge> need then (m', [p])
            else (case move_regions try_move v need moved' rs m' of (m'', ps) \<Rightarrow> (m'', p # ps))))"

definition evict_need :: "getenv \<Rightarrow> int \<Rightarrow> int \<Rightarrow> int \<Rightarrow> int" where
  "evict_need env free tot tracked_used =
     (let driver_used = wrap64 (tot - free); used = max driver_used tracked_used in
      if used \<le> HighWatermark env tot then 0
      else (let low = LowWatermark env tot;
                need = (if used > low then used - low else 0);
                limit = MbLimit env ''XSCHED_XPU_MEM_EVICT_LIMIT_MB'' 4096 in
            if limit \<noteq> 0 then min need limit else need))"

definition victims :: "mem_backend \<Rightarrow> int \<Rightarrow> int \<Rightarrow> mem \<Rightarrow> (int \<times> mem_region) list" where
  "victims b ctx dev m =
     sort_victims m (filter (\<lambda>e. in_context b ctx dev (snd e) \<and> mr_resident (snd e)) (g_regions m))"

text \<open>The state of the queue when it is suspended, entered in the table.\<close>

definition mark_suspended :: "mem_backend \<Rightarrow> int \<Rightarrow> int \<Rightarrow> xhandle \<Rightarrow> mem \<Rightarrow> mem" where
  "mark_suspended b ctx dev q m = AdoptContextRegions b ctx dev q
     (upd_mem_queue q (\<lambda>s. s\<lparr> qm_backend := Some (mb_id b), qm_context := ctx, qm_device := dev,
        qm_active := False \<rparr>) m)"

definition OnQueueSuspend ::
  "getenv \<Rightarrow> mem_backend option \<Rightarrow> int \<Rightarrow> int \<Rightarrow> xhandle \<Rightarrow> mem \<Rightarrow> mem \<times> int list" where
  "OnQueueSuspend env bo ctx dev q m =
     (if \<not> UsableBackend env bo \<or> ctx = 0 then (m, [])
      else (let b = the bo in
        if \<not> mb_query_mem_info b \<or> \<not> mb_evict_to_host b then (m, [])
        else (let m1 = mark_suspended b ctx dev q m in
          case mb_query b of None \<Rightarrow> (m1, [])
          | Some (free, tot) \<Rightarrow>
             if tot = 0 then (m1, [])
             else (let need = evict_need env free tot (TrackedResidentBytes b ctx dev m1) in
                   if need = 0 then (m1, [])
                   else move_regions (mb_evict b) False need 0 (victims b ctx dev m1) m1))))"

section \<open>Prefetching\<close>

text \<open>Most recently touched first, then the largest.\<close>

definition sort_candidates :: "(int \<times> mem_region) list \<Rightarrow> (int \<times> mem_region) list" where
  "sort_candidates rs = sort_key (\<lambda>e. - mr_touch (snd e)) (sort_key (\<lambda>e. - mr_size (snd e)) rs)"

definition mark_resumed :: "mem_backend \<Rightarrow> int \<Rightarrow> int \<Rightarrow> xhandle \<Rightarrow> mem \<Rightarrow> mem" where
  "mark_resumed b ctx dev q m = AdoptContextRegions b ctx dev q
     (upd_mem_queue q (\<lambda>s. s\<lparr> qm_backend := Some (mb_id b), qm_context := ctx, qm_device := dev,
        qm_active := True, qm_last_active := g_clock (tick m) \<rparr>) (tick m))"

definition BeforeQueueResume ::
  "getenv \<Rightarrow> mem_backend option \<Rightarrow> int \<Rightarrow> int \<Rightarrow> xhandle \<Rightarrow> mem \<Rightarrow> mem \<times> int list" where
  "BeforeQueueResume env bo ctx dev q m =
     (if \<not> UsableBackend env bo \<or> ctx = 0 \<or> q = 0 then (m, [])
      else (let b = the bo in
        if \<not> mb_query_mem_info b \<or> \<not> mb_async_prefetch b then (m, [])
        else (let m1 = mark_resumed b ctx dev q m in
          case mb_query b of None \<Rightarrow> (m1, [])
          | Some (free, tot) \<Rightarrow>
             if tot = 0 then (m1, [])
             else (let budget = QueueBudget env b ctx dev q tot m1;
                       resident = QueueResidentBytes b ctx dev q m1 in
               if resident \<ge> budget then (m1, [])
               else (let limit = MbLimit env ''XSCHED_XPU_MEM_PREFETCH_LIMIT_MB'' 1024;
                         need = (if limit \<noteq> 0 then min (budget - resident) limit else budget - resident) in
                 move_regions (mb_prefetch b) True need 0
                   (sort_candidates (filter (\<lambda>e. in_context b ctx dev (snd e) \<and> mr_owner (snd e) = q
                      \<and> \<not> mr_resident (snd e)) (g_regions m1))) m1)))))"

section \<open>Budgets\<close>

lemma high_percent_range: "0 < high_percent env \<and> high_percent env < 100"
  by (auto simp: high_percent_def EnvPercent_def Let_def)

lemma low_percent_range: "0 < low_percent env \<and> low_percent env \<le> high_percent env"
  using high_percent_range [of env] by (auto simp: low_percent_def EnvPercent_def Let_def)

lemma LowWatermark_bounds:
  assumes "0 \<le> tot" "tot < 2 ^ 48"
  shows "0 \<le> LowWatermark env tot \<and> LowWatermark env tot \<le> tot"
proof -
  have l: "0 < low_percent env" "low_percent env \<le> 100"
    using low_percent_range [of env] high_percent_range [of env] by auto
  have "tot * low_percent env \<le> tot * 100" using l assms(1) by (intro mult_left_mono) auto
  moreover have "tot * 100 < 2 ^ 64" using assms(2) by simp
  moreover have "0 \<le> tot * low_percent env" using l assms(1) by simp
  ultimately show ?thesis
    by (simp add: LowWatermark_def wrap64_id zdiv_mono1 [of _ "tot * 100" 100, simplified]
        pos_imp_zdiv_nonneg_iff)
qed

text \<open>The sum of the weights of the competing queues.\<close>

definition weights :: "mem_backend \<Rightarrow> int \<Rightarrow> int \<Rightarrow> (xhandle \<times> queue_mem) list \<Rightarrow> int" where
  "weights b ctx dev qs =
     sum_list (map (\<lambda>(h, s). QueueWeight s) (filter (\<lambda>(h, s). competing b ctx dev s) qs))"

text \<open>What the operations keep: one entry for every address and queue, and priorities in range.\<close>

definition mem_ok :: "mem \<Rightarrow> bool" where
  "mem_ok m \<longleftrightarrow> distinct (map fst (g_regions m)) \<and> distinct (map fst (g_queues m))
     \<and> list_all (\<lambda>(h, s). PRIORITY_MIN \<le> qm_priority s \<and> qm_priority s \<le> PRIORITY_MAX) (g_queues m)"

definition mem_sane :: "mem \<Rightarrow> bool" where
  "mem_sane m \<longleftrightarrow> mem_ok m \<and> length (g_queues m) < 2 ^ 32"

lemma mem_saneD:
  assumes "mem_sane m"
  shows "distinct (map fst (g_queues m))" "length (g_queues m) < 2 ^ 32"
    "list_all (\<lambda>(h, s). qm_priority s \<le> PRIORITY_MAX) (g_queues m)"
  using assms by (auto simp: mem_sane_def mem_ok_def list_all_iff)

lemma QueueWeight_bounds: "qm_priority s \<le> PRIORITY_MAX \<Longrightarrow> 1 \<le> QueueWeight s \<and> QueueWeight s < 2 ^ 10"
  by (auto simp: QueueWeight_def)

lemma member_le_sum_list_int: "(x::int) \<in> set xs \<Longrightarrow> \<forall>y\<in>set xs. 0 \<le> y \<Longrightarrow> x \<le> sum_list xs"
proof (induction xs)
  case (Cons y ys)
  moreover have "0 \<le> sum_list ys" using Cons.prems by (intro sum_list_nonneg) auto
  ultimately show ?case by auto
qed simp

lemma sum_list_div:
  fixes u S :: int
  assumes "0 < S"
  shows "sum_list (map (\<lambda>w. (u * w) div S) ws) \<le> (u * sum_list ws) div S"
proof (induction ws)
  case (Cons w ws)
  have "(u * w) div S + (u * sum_list ws) div S \<le> (u * w + u * sum_list ws) div S"
    using assms by (simp add: div_add1_eq [of "u * w"] pos_imp_zdiv_nonneg_iff)
  then show ?case using Cons by (simp add: algebra_simps)
qed simp

lemma weights_bounds:
  "list_all (\<lambda>(h, s). qm_priority s \<le> PRIORITY_MAX) qs \<Longrightarrow>
   0 \<le> weights b ctx dev qs \<and> weights b ctx dev qs \<le> 2 ^ 10 * int (length qs)"
proof (induction qs)
  case (Cons e qs)
  then show ?case using QueueWeight_bounds [of "snd e"] by (auto simp: weights_def split: prod.splits)
qed (simp add: weights_def)

text \<open>The step of the loop, and what the loop has computed.\<close>

abbreviation weigh_step where
  "weigh_step b ctx dev q \<equiv> (\<lambda>(wsum, this, cnt) (h, s).
        if competing b ctx dev s
        then (wrap64 (wsum + QueueWeight s), if h = q then QueueWeight s else this, cnt + 1)
        else (wsum, this, cnt))"

lemma weigh_fold:
  assumes "0 \<le> a" "a + 2 ^ 10 * int (length qs) < 2 ^ 64"
    "list_all (\<lambda>(h, s). qm_priority s \<le> PRIORITY_MAX) qs" "distinct (map fst qs)"
  shows "foldl (weigh_step b ctx dev q) (a, t, n) qs
    = (a + weights b ctx dev qs,
       (case map_of (filter (\<lambda>(h, s). competing b ctx dev s) qs) q of Some s \<Rightarrow> QueueWeight s | None \<Rightarrow> t),
       n + int (length (filter (\<lambda>(h, s). competing b ctx dev s) qs)))"
  using assms
proof (induction qs arbitrary: a t n)
  case (Cons e qs)
  obtain h s where e: "e = (h, s)" by (cases e)
  have w: "1 \<le> QueueWeight s" "QueueWeight s < 2 ^ 10"
    using QueueWeight_bounds [of s] Cons.prems(3) by (simp_all add: e)
  have nh: "map_of (filter (\<lambda>(h, s). competing b ctx dev s) qs) h = None"
    using Cons.prems(4) by (force simp: e map_of_eq_None_iff image_iff)
  have id: "wrap64 (a + QueueWeight s) = a + QueueWeight s"
    using w Cons.prems(1,2) by (intro wrap64_id) auto
  have IH: "foldl (weigh_step b ctx dev q) (a', t', n') qs
    = (a' + weights b ctx dev qs,
       (case map_of (filter (\<lambda>(h, s). competing b ctx dev s) qs) q of Some s \<Rightarrow> QueueWeight s | None \<Rightarrow> t'),
       n' + int (length (filter (\<lambda>(h, s). competing b ctx dev s) qs)))"
    if "0 \<le> a'" "a' \<le> a + 2 ^ 10" for a' t' n'
    using that Cons.prems by (intro Cons.IH) auto
  show ?case
  proof (cases "competing b ctx dev s")
    case True
    have "foldl (weigh_step b ctx dev q) (a, t, n) (e # qs)
        = foldl (weigh_step b ctx dev q) (a + QueueWeight s, if h = q then QueueWeight s else t, n + 1) qs"
      by (simp add: e True id)
    also have "\<dots> = (a + QueueWeight s + weights b ctx dev qs,
       (case map_of (filter (\<lambda>(h, s). competing b ctx dev s) qs) q of Some s' \<Rightarrow> QueueWeight s'
         | None \<Rightarrow> if h = q then QueueWeight s else t),
       n + 1 + int (length (filter (\<lambda>(h, s). competing b ctx dev s) qs)))"
      using w Cons.prems(1) by (intro IH) auto
    finally show ?thesis using nh by (simp add: e True weights_def)
  next
    case False
    have "foldl (weigh_step b ctx dev q) (a, t, n) (e # qs) = foldl (weigh_step b ctx dev q) (a, t, n) qs"
      by (simp add: e False)
    also have "\<dots> = (a + weights b ctx dev qs,
       (case map_of (filter (\<lambda>(h, s). competing b ctx dev s) qs) q of Some s' \<Rightarrow> QueueWeight s' | None \<Rightarrow> t),
       n + int (length (filter (\<lambda>(h, s). competing b ctx dev s) qs)))"
      using Cons.prems(1) by (intro IH) auto
    finally show ?thesis by (simp add: e False weights_def)
  qed
qed (simp add: weights_def)

lemma weigh_sane:
  assumes sane: "mem_sane m" and h: "(h, s) \<in> set (g_queues m)" "competing b ctx dev s"
  obtains n where "weigh b ctx dev h m = (weights b ctx dev (g_queues m), QueueWeight s, n)"
    "0 < n" "QueueWeight s \<le> weights b ctx dev (g_queues m)"
proof -
  let ?f = "filter (\<lambda>(h, s). competing b ctx dev s) (g_queues m)"
  have d: "distinct (map fst (g_queues m))" and l: "length (g_queues m) < 2 ^ 32"
    and p: "list_all (\<lambda>(h, s). qm_priority s \<le> PRIORITY_MAX) (g_queues m)"
    using mem_saneD [OF sane] by simp_all
  have "weigh b ctx dev h m = (0 + weights b ctx dev (g_queues m),
      (case map_of ?f h of Some s \<Rightarrow> QueueWeight s | None \<Rightarrow> 1), 0 + int (length ?f))"
    unfolding weigh_def by (rule weigh_fold) (use l p d in auto)
  moreover have "map_of ?f h = Some s"
  proof (rule map_of_is_SomeI)
    show "distinct (map fst ?f)" using d by (rule distinct_map_filter)
    show "(h, s) \<in> set ?f" using h by simp
  qed
  moreover have "?f \<noteq> []" using h by (auto simp: filter_empty_conv)
  moreover have "QueueWeight s \<le> weights b ctx dev (g_queues m)"
  proof -
    have "QueueWeight s \<in> set (map (\<lambda>(h, s). QueueWeight s) ?f)" using h by force
    moreover have "\<forall>x\<in>set (map (\<lambda>(h, s). QueueWeight s) ?f). 0 \<le> x" by (auto simp: QueueWeight_def)
    ultimately show ?thesis
      unfolding weights_def by (rule member_le_sum_list_int)
  qed
  ultimately show ?thesis by (intro that) auto
qed

lemma QueueBudget_le:
  assumes sane: "mem_sane m" and tot: "0 \<le> tot" "tot < 2 ^ 48"
    and h: "(h, s) \<in> set (g_queues m)" "competing b ctx dev s"
  shows "QueueBudget env b ctx dev h tot m
    \<le> LowWatermark env tot * QueueWeight s div weights b ctx dev (g_queues m)"
proof -
  obtain n where w: "weigh b ctx dev h m = (weights b ctx dev (g_queues m), QueueWeight s, n)"
    "0 < n" "QueueWeight s \<le> weights b ctx dev (g_queues m)"
    using weigh_sane [OF sane h] by blast
  have q: "1 \<le> QueueWeight s" "QueueWeight s < 2 ^ 10"
    using QueueWeight_bounds [of s] mem_saneD(3) [OF sane] h by (auto simp: list_all_iff)
  have u: "0 \<le> LowWatermark env tot" "LowWatermark env tot < 2 ^ 48"
    using LowWatermark_bounds [OF tot, of env] tot by auto
  have "LowWatermark env tot * QueueWeight s \<le> 2 ^ 48 * 2 ^ 10"
    using u q by (intro mult_mono) auto
  then have "wrap64 (LowWatermark env tot * QueueWeight s) = LowWatermark env tot * QueueWeight s"
    using u q by (intro wrap64_id) auto
  then show ?thesis using w q by (auto simp: QueueBudget_def Let_def)
qed

text \<open>C30: The budgets of the queues that compete for a device, each computed when its queue is resumed,
  together stay below the low watermark, so honouring all of them leaves room on the device.\<close>

theorem budgets_fit_low_watermark:
  assumes sane: "mem_sane m" and tot: "0 \<le> tot" "tot < 2 ^ 48"
  shows "sum_list (map (\<lambda>(h, s). QueueBudget env b ctx dev h tot m)
             (filter (\<lambda>(h, s). competing b ctx dev s) (g_queues m)))
           \<le> LowWatermark env tot \<and> LowWatermark env tot \<le> tot"
proof -
  let ?c = "filter (\<lambda>(h, s). competing b ctx dev s) (g_queues m)"
  let ?S = "weights b ctx dev (g_queues m)"
  have u: "0 \<le> LowWatermark env tot" "LowWatermark env tot \<le> tot"
    using LowWatermark_bounds [OF tot, of env] by auto
  have "sum_list (map (\<lambda>(h, s). QueueBudget env b ctx dev h tot m) ?c) \<le> LowWatermark env tot"
  proof (cases "?c = []")
    case True
    show ?thesis unfolding True using u by simp
  next
    case False
    then obtain h s where hs: "(h, s) \<in> set (g_queues m)" "competing b ctx dev s"
      by (auto simp: filter_empty_conv)
    have "qm_priority s \<le> PRIORITY_MAX" using mem_saneD(3) [OF sane] hs(1) by (auto simp: list_all_iff)
    then have S: "0 < ?S"
      using weigh_sane [OF sane hs] QueueWeight_bounds [of s] by (metis less_le_trans zero_less_one)
    have "sum_list (map (\<lambda>(h, s). QueueBudget env b ctx dev h tot m) ?c)
        \<le> sum_list (map (\<lambda>(h, s). LowWatermark env tot * QueueWeight s div ?S) ?c)"
      by (rule sum_list_mono) (auto intro: QueueBudget_le [OF sane tot])
    also have "\<dots> = sum_list (map (\<lambda>w. LowWatermark env tot * w div ?S) (map (\<lambda>(h, s). QueueWeight s) ?c))"
      by (simp add: comp_def split_def)
    also have "\<dots> \<le> (LowWatermark env tot * sum_list (map (\<lambda>(h, s). QueueWeight s) ?c)) div ?S"
      by (rule sum_list_div [OF S])
    also have "\<dots> = LowWatermark env tot" using S by (simp add: weights_def)
    finally show ?thesis .
  qed
  with u show ?thesis by blast
qed

section \<open>Eviction takes the least valuable regions\<close>

lemma sorted_wrt_insort_key:
  "sorted_wrt (\<lambda>a b. f a < f b \<or> f a = f b \<and> R a b) ys \<Longrightarrow> \<forall>y\<in>set ys. R x y \<Longrightarrow>
   sorted_wrt (\<lambda>a b. f a < f b \<or> f a = f b \<and> R a b) (insort_key f x ys)"
proof (induction ys)
  case (Cons y ys)
  then show ?case by (auto simp: set_insort_key)
qed simp

lemma sorted_wrt_sort_key:
  "sorted_wrt R xs \<Longrightarrow> sorted_wrt (\<lambda>a b. f a < f b \<or> f a = f b \<and> R a b) (sort_key f xs)"
  by (induction xs) (simp_all add: sorted_wrt_insort_key)

lemma sort_victims_sorted:
  "sorted_wrt (\<lambda>x y. \<not> victim_less m (snd y) (snd x)) (sort_victims m rs)"
proof -
  have "sorted_wrt (\<lambda>a b. True) rs" by (induction rs) simp_all
  note s = sorted_wrt_sort_key [OF sorted_wrt_sort_key [OF sorted_wrt_sort_key [OF
    sorted_wrt_sort_key [OF this, where f = "\<lambda>e. - mr_size (snd e)"], where f = "\<lambda>e. mr_touch (snd e)"],
    where f = "\<lambda>e. owner_priority m (snd e)"], where f = "\<lambda>e. owner_active m (snd e)"]
  show ?thesis unfolding sort_victims_def
    by (rule sorted_wrt_mono_rel [OF _ s]) (auto simp: victim_less_def)
qed

lemma set_sort_victims: "set (sort_victims m rs) = set rs"
  by (simp add: sort_victims_def)

text \<open>Which regions a pass moves: among a prefix of the list, those whose call succeeds; the prefix
  is the whole list unless enough was moved.\<close>

lemma move_regions_moved:
  "move_regions t v need moved rs m = (m', ps) \<Longrightarrow>
   \<exists>k. ps = map fst (filter (\<lambda>e. t (fst e)) (take k rs))"
proof (induction t v need moved rs m arbitrary: m' ps rule: move_regions.induct)
  case (2 t v need moved p r rs m)
  show ?case
  proof (cases "t p")
    case False
    then obtain k where "ps = map fst (filter (\<lambda>e. t (fst e)) (take k rs))" using 2 by auto
    then show ?thesis using False by (intro exI [of _ "Suc k"]) simp
  next
    case t: True
    show ?thesis
    proof (cases "need \<le> wrap64 (moved + mr_size r)")
      case True
      then show ?thesis using t 2(3) by (intro exI [of _ 1]) (simp add: Let_def)
    next
      case False
      obtain m1 ps1 where m1: "move_regions t v need (wrap64 (moved + mr_size r)) rs (set_resident p v m) = (m1, ps1)"
        by fastforce
      then obtain k where "ps1 = map fst (filter (\<lambda>e. t (fst e)) (take k rs))"
        using 2(2) [OF _ refl refl False m1] t by auto
      moreover have "ps = p # ps1" using 2(3) t False m1 by (simp add: Let_def)
      ultimately show ?thesis using t by (intro exI [of _ "Suc k"]) simp
    qed
  qed
qed simp

section \<open>The tables stay well formed\<close>

lemma adopt_keys: "map fst (fst (adopt b ctx dev q rs clk)) = map fst rs"
  by (induction b ctx dev q rs clk rule: adopt.induct) (auto split: prod.splits)

lemma AdoptContextRegions_fields [simp]:
  "map fst (g_regions (AdoptContextRegions b ctx dev q m)) = map fst (g_regions m)"
  "g_queues (AdoptContextRegions b ctx dev q m) = g_queues m"
  using adopt_keys [of b ctx dev q "g_regions m" "g_clock m"]
  by (auto simp: AdoptContextRegions_def split: prod.splits)

lemma mem_okI_same:
  "mem_ok m \<Longrightarrow> map fst (g_regions m') = map fst (g_regions m) \<Longrightarrow> g_queues m' = g_queues m \<Longrightarrow> mem_ok m'"
  by (simp add: mem_ok_def)

lemma mem_ok_adopt [simp]: "mem_ok m \<Longrightarrow> mem_ok (AdoptContextRegions b ctx dev q m)"
  by (rule mem_okI_same) simp_all

lemma mem_ok_tick [simp]: "mem_ok (tick m) = mem_ok m"
  by (simp add: mem_ok_def tick_def)

lemma set_alist_update: "set (AList.update k v al) \<subseteq> insert (k, v) (set al)"
  by (induction al) auto

lemma mem_ok_upd_queue:
  assumes "mem_ok m"
    "\<And>s. PRIORITY_MIN \<le> qm_priority s \<Longrightarrow> qm_priority s \<le> PRIORITY_MAX \<Longrightarrow>
       PRIORITY_MIN \<le> qm_priority (f s) \<and> qm_priority (f s) \<le> PRIORITY_MAX"
  shows "mem_ok (upd_mem_queue q f m)"
proof -
  let ?s = "case map_of (g_queues m) q of Some s \<Rightarrow> s | None \<Rightarrow> QueueState_new"
  have s: "PRIORITY_MIN \<le> qm_priority ?s \<and> qm_priority ?s \<le> PRIORITY_MAX"
    using assms(1) by (auto simp: mem_ok_def list_all_iff QueueState_new_def dest!: map_of_SomeD split: option.split)
  then have "PRIORITY_MIN \<le> qm_priority (f ?s) \<and> qm_priority (f ?s) \<le> PRIORITY_MAX"
    using assms(2) by blast
  then show ?thesis
    using assms(1) set_alist_update [of q "f ?s" "g_queues m"] distinct_update [of "g_queues m" q "f ?s"]
    by (auto simp: mem_ok_def upd_mem_queue_def list_all_iff)
qed

lemma map_fst_map_entry: "map fst (AList.map_entry k f al) = map fst al"
  by (induction al) auto

lemma set_resident_keys [simp]:
  "map fst (g_regions (set_resident p v m)) = map fst (g_regions m)"
  "g_queues (set_resident p v m) = g_queues m"
  by (simp_all add: set_resident_def tick_def map_fst_map_entry Let_def)

lemma move_regions_keys:
  "move_regions t v need moved rs m = (m', ps) \<Longrightarrow>
   map fst (g_regions m') = map fst (g_regions m) \<and> g_queues m' = g_queues m"
proof (induction t v need moved rs m arbitrary: m' ps rule: move_regions.induct)
  case (2 t v need moved p r rs m)
  show ?case
  proof (cases "t p \<and> \<not> need \<le> wrap64 (moved + mr_size r)")
    case True
    obtain m1 ps1 where m1: "move_regions t v need (wrap64 (moved + mr_size r)) rs (set_resident p v m) = (m1, ps1)"
      by fastforce
    have "map fst (g_regions m1) = map fst (g_regions m) \<and> g_queues m1 = g_queues m"
      using 2(2) [OF _ refl refl _ m1] True by simp
    moreover have "m' = m1" using 2(3) True m1 by (simp add: Let_def)
    ultimately show ?thesis by simp
  next
    case False
    then consider "\<not> t p" | "t p" "need \<le> wrap64 (moved + mr_size r)" by blast
    then show ?thesis
    proof cases
      case 1
      then show ?thesis using 2(1) [OF 1] 2(3) by simp
    next
      case 2
      then have "m' = set_resident p v m" using \<open>move_regions t v need moved ((p, r) # rs) m = (m', ps)\<close>
        by (simp add: Let_def)
      then show ?thesis by simp
    qed
  qed
qed simp

lemma mem_ok_move: "move_regions t v need moved rs m = (m', ps) \<Longrightarrow> mem_ok m \<Longrightarrow> mem_ok m'"
  using move_regions_keys mem_okI_same by blast

lemma mem_ok_mark: "mem_ok m \<Longrightarrow> mem_ok (mark_suspended b ctx dev q m) \<and> mem_ok (mark_resumed b ctx dev q m)"
  unfolding mark_suspended_def mark_resumed_def by (intro conjI mem_ok_adopt mem_ok_upd_queue) simp_all

text \<open>The operations, as a client calls them.\<close>

datatype mem_call =
    CallRegister int int int int xhandle
  | CallUnregister int
  | CallTouch int int int xhandle
  | CallPriority xhandle int
  | CallRemove xhandle
  | CallSuspend int int xhandle
  | CallResume int int xhandle

definition mem_step :: "getenv \<Rightarrow> mem_backend option \<Rightarrow> mem_call \<Rightarrow> mem \<Rightarrow> mem" where
  "mem_step env b call m =
     (case call of
        CallRegister p sz ctx dev q \<Rightarrow> RegisterRegion env b p sz ctx dev q m
      | CallUnregister p \<Rightarrow> UnregisterRegion env b p m
      | CallTouch ctx dev p q \<Rightarrow> TouchRegion env b ctx dev p q m
      | CallPriority q prio \<Rightarrow> SetQueuePriority q prio m
      | CallRemove q \<Rightarrow> RemoveQueue q m
      | CallSuspend ctx dev q \<Rightarrow> fst (OnQueueSuspend env b ctx dev q m)
      | CallResume ctx dev q \<Rightarrow> fst (BeforeQueueResume env b ctx dev q m))"

lemma mem_ok_regions_update: "mem_ok m \<Longrightarrow> mem_ok (m\<lparr> g_regions := AList.update p r (g_regions m) \<rparr>)"
  by (simp add: mem_ok_def distinct_update)

lemma mem_ok_fst_move: "mem_ok m \<Longrightarrow> mem_ok (fst (move_regions t v need moved rs m))"
  using mem_ok_move [of t v need moved rs m] by (cases "move_regions t v need moved rs m") simp

lemma mem_ok_suspend: "mem_ok m \<Longrightarrow> mem_ok (fst (OnQueueSuspend env b ctx dev q m))"
  using mem_ok_mark [of m "the b" ctx dev q]
  by (simp add: OnQueueSuspend_def Let_def mem_ok_fst_move split: option.split prod.split)

lemma mem_ok_resume: "mem_ok m \<Longrightarrow> mem_ok (fst (BeforeQueueResume env b ctx dev q m))"
  using mem_ok_mark [of m "the b" ctx dev q]
  by (simp add: BeforeQueueResume_def Let_def mem_ok_fst_move split: option.split prod.split)

lemma mem_ok_remove: "mem_ok m \<Longrightarrow> mem_ok (RemoveQueue q m)"
  by (auto simp: mem_ok_def RemoveQueue_def comp_def split_def distinct_delete list_all_iff
      AList.delete_eq intro: distinct_map_filter)

lemma mem_ok_unregister: "mem_ok m \<Longrightarrow> mem_ok (UnregisterRegion env b p m)"
  by (auto simp: mem_ok_def UnregisterRegion_def distinct_delete split: option.split)

lemma mem_ok_step: "mem_ok m \<Longrightarrow> mem_ok (mem_step env b call m)"
proof (cases call)
  case (CallPriority q prio)
  then show "mem_ok m \<Longrightarrow> ?thesis"
    by (auto simp: mem_step_def SetQueuePriority_def intro: mem_ok_upd_queue)
qed (auto simp: mem_step_def RegisterRegion_def TouchRegion_def Let_def mem_ok_regions_update
    mem_ok_suspend mem_ok_resume mem_ok_remove mem_ok_unregister split: option.split)

section \<open>Eviction goes far enough\<close>

definition bytes :: "(int \<times> mem_region) list \<Rightarrow> int" where
  "bytes rs = sum_list (map (\<lambda>e. mr_size (snd e)) rs)"

lemma bytes_simps [simp]: "bytes [] = 0" "bytes (e # rs) = mr_size (snd e) + bytes rs"
  by (simp_all add: bytes_def)

lemma bytes_nonneg: "list_all (\<lambda>e. 0 \<le> mr_size (snd e)) rs \<Longrightarrow> 0 \<le> bytes rs"
  by (induction rs) auto

text \<open>A pass that did not try the whole list has moved enough.\<close>

lemma move_regions_enough:
  "move_regions t v need moved rs m = (m', ps) \<Longrightarrow> distinct (map fst rs) \<Longrightarrow> 0 \<le> moved \<Longrightarrow>
   list_all (\<lambda>e. 0 \<le> mr_size (snd e)) rs \<Longrightarrow> moved + bytes rs < 2 ^ 64 \<Longrightarrow>
   ps = map fst (filter (\<lambda>e. t (fst e)) rs)
   \<or> need \<le> moved + bytes (filter (\<lambda>e. fst e \<in> set ps) rs)"
proof (induction t v need moved rs m arbitrary: m' ps rule: move_regions.induct)
  case (2 t v need moved p r rs m)
  have nonneg: "0 \<le> bytes rs" using 2(6) by (simp add: bytes_nonneg)
  show ?case
  proof (cases "t p")
    case False
    have "p \<notin> set ps" using move_regions_moved [OF 2(3)] False by auto
    moreover have "ps = map fst (filter (\<lambda>e. t (fst e)) rs)
        \<or> need \<le> moved + bytes (filter (\<lambda>e. fst e \<in> set ps) rs)"
      using 2(3-7) False by (intro 2(1) [of m']) simp_all
    ultimately show ?thesis using False by simp
  next
    case t: True
    have w: "wrap64 (moved + mr_size r) = moved + mr_size r"
      using 2(5-7) nonneg by (intro wrap64_id) simp_all
    show ?thesis
    proof (cases "need \<le> moved + mr_size r")
      case True
      then have "ps = [p]" using 2(3) t by (simp add: Let_def w)
      moreover have "filter (\<lambda>e. fst e = p) rs = []" using 2(4) by (auto simp: filter_empty_conv)
      ultimately show ?thesis using True by simp
    next
      case False
      obtain m1 ps1 where m1: "move_regions t v need (moved + mr_size r) rs (set_resident p v m) = (m1, ps1)"
        by fastforce
      have ps: "ps = p # ps1" using 2(3) t False m1 by (simp add: Let_def w)
      have IH: "ps1 = map fst (filter (\<lambda>e. t (fst e)) rs)
          \<or> need \<le> (moved + mr_size r) + bytes (filter (\<lambda>e. fst e \<in> set ps1) rs)"
        using 2(4-7) t False m1 w by (intro 2(2) [of "set_resident p v m" "moved + mr_size r" m1, simplified w]) simp_all
      have "filter (\<lambda>e. fst e \<in> set ps) rs = filter (\<lambda>e. fst e \<in> set ps1) rs"
        using 2(4) ps by (intro filter_cong) auto
      with IH ps t show ?thesis by auto
    qed
  qed
qed simp

lemma bytes_filter_mset:
  "bytes (filter P xs) = sum_mset (image_mset (\<lambda>e. mr_size (snd e)) (filter_mset P (mset xs)))"
  by (induction xs) auto

lemma bytes_filter_perm:
  "mset xs = mset ys \<Longrightarrow> bytes (filter P xs) = bytes (filter P ys)"
  by (simp add: bytes_filter_mset)

lemma bytes_filter_le:
  "list_all (\<lambda>e. 0 \<le> mr_size (snd e)) rs \<Longrightarrow> bytes (filter P rs) \<le> bytes rs"
  by (induction rs) auto

text \<open>C31: When an XQueue is suspended and more memory is used than the high watermark, regions are evicted
  until the requested amount is reached or nothing evictable is left, and never a region that the
  order of the sort puts after one that stays although its eviction would succeed: regions of inactive
  queues go first, then those of lower priority, then those not touched for longest.\<close>

theorem eviction_takes_least_valuable:
  assumes call: "OnQueueSuspend env (Some b) ctx dev q m = (m', ps)" and ok: "mem_ok m"
    and m1: "m1 = mark_suspended b ctx dev q m"
    and gone: "(p, r) \<in> set (g_regions m1)" "p \<in> set ps"
    and stays: "(p', r') \<in> set (g_regions m1)" "p' \<notin> set ps"
      "in_context b ctx dev r'" "mr_resident r'" "mb_evict b p'"
  shows "\<not> victim_less m1 r' r"
proof -
  have ps: "ps \<noteq> []" using gone by auto
  obtain need where mv: "move_regions (mb_evict b) False need 0 (victims b ctx dev m1) m1 = (m', ps)"
    using call ps by (auto simp: OnQueueSuspend_def Let_def m1 split: if_splits option.splits)
  obtain k where k: "ps = map fst (filter (\<lambda>e. mb_evict b (fst e)) (take k (victims b ctx dev m1)))"
    using move_regions_moved [OF mv] by blast
  have d: "distinct (map fst (g_regions m1))"
    using mem_ok_mark [OF ok] by (simp add: mem_ok_def m1)
  have V: "set (victims b ctx dev m1)
      = {e \<in> set (g_regions m1). in_context b ctx dev (snd e) \<and> mr_resident (snd e)}"
    by (auto simp: victims_def set_sort_victims)
  obtain r0 where r0: "(p, r0) \<in> set (take k (victims b ctx dev m1))" using gone(2) by (auto simp: k)
  then have "(p, r0) \<in> set (g_regions m1)" using V by (auto dest: in_set_takeD)
  then have e: "(p, r) \<in> set (take k (victims b ctx dev m1))"
    using r0 gone(1) d by (metis eq_key_imp_eq_value)
  have "(p', r') \<in> set (victims b ctx dev m1)" using V stays by auto
  moreover have "(p', r') \<notin> set (take k (victims b ctx dev m1))" using stays by (force simp: k)
  ultimately have e': "(p', r') \<in> set (drop k (victims b ctx dev m1))"
    by (metis Un_iff append_take_drop_id set_append)
  have "sorted_wrt (\<lambda>x y. \<not> victim_less m1 (snd y) (snd x))
      (take k (victims b ctx dev m1) @ drop k (victims b ctx dev m1))"
    unfolding append_take_drop_id victims_def by (rule sort_victims_sorted)
  then have "\<not> victim_less m1 (snd (p', r')) (snd (p, r))"
    unfolding sorted_wrt_append using e e' by blast
  then show ?thesis by simp
qed

text \<open>A backend and an environment for the examples.\<close>

definition example_env :: getenv where
  "example_env = (\<lambda>n. if n = ''XSCHED_XPU_MEM_OVERSUB'' then Some ''1'' else None)"

definition example_backend :: mem_backend where
  "example_backend = \<lparr> mb_id = 0, mb_enabled = True, mb_query_mem_info = True, mb_async_prefetch = True,
     mb_evict_to_host = True, mb_query = Some (0, 100), mb_evict = (\<lambda>_. True), mb_prefetch = (\<lambda>_. True) \<rparr>"

definition example_region :: "xhandle \<Rightarrow> int \<Rightarrow> mem_region" where
  "example_region q t = \<lparr> mr_backend = 0, mr_size = 50, mr_context = 1, mr_device = 0, mr_owner = q,
     mr_resident = True, mr_touch = t \<rparr>"

definition example_mem :: mem where
  "example_mem = \<lparr> g_regions = [(1000, example_region 1 1), (2000, example_region 2 2)], g_queues = [],
     g_clock = 2 \<rparr>"

lemma example_suspend:
  "OnQueueSuspend example_env (Some example_backend) 1 0 1 example_mem
     = (fst (OnQueueSuspend example_env (Some example_backend) 1 0 1 example_mem), [1000])"
  "g_regions (mark_suspended example_backend 1 0 1 example_mem) = g_regions example_mem"
  "mem_ok example_mem"
  by code_simp+

text \<open>An XQueue that runs without ever having been suspended has no entry that says so: when another
  one is suspended, its memory goes before the memory of an XQueue that was suspended and resumed,
  whatever their priorities.\<close>

lemma never_suspended_queue_evicted_first:
  "let m = fold (mem_step example_env (Some example_backend))
       [CallPriority 1 (-5), CallPriority 2 5, CallRegister 1000 50 1 0 1, CallRegister 2000 50 1 0 2,
        CallSuspend 1 0 1, CallResume 1 0 1] \<lparr> g_regions = [], g_queues = [], g_clock = 0 \<rparr> in
   snd (OnQueueSuspend example_env (Some example_backend) 1 0 3 m) = [2000]"
  by code_simp

lemma eviction_takes_least_valuable_witness:
  "\<not> victim_less (mark_suspended example_backend 1 0 1 example_mem) (example_region 2 2) (example_region 1 1)"
proof (rule eviction_takes_least_valuable [OF example_suspend(1,3) refl, where p = 1000 and p' = 2000])
  show "(1000, example_region 1 1) \<in> set (g_regions (mark_suspended example_backend 1 0 1 example_mem))"
    "(2000, example_region 2 2) \<in> set (g_regions (mark_suspended example_backend 1 0 1 example_mem))"
    unfolding example_suspend(2) by (simp_all add: example_mem_def)
qed (simp_all add: in_context_def example_region_def example_backend_def)

text \<open>And it goes far enough: unless all that can be evicted has been, the evicted bytes reach the amount
  that brings the use down to the low watermark, or the limit of one call.\<close>

theorem eviction_goes_far_enough:
  assumes call: "OnQueueSuspend env (Some b) ctx dev q m = (m', ps)" and ok: "mem_ok m"
    and m1: "m1 = mark_suspended b ctx dev q m"
    and usable: "UsableBackend env (Some b)" "ctx \<noteq> 0" "mb_query_mem_info b" "mb_evict_to_host b"
      "mb_query b = Some (free, tot)" "tot \<noteq> 0"
    and sizes: "list_all (\<lambda>e. 0 \<le> mr_size (snd e)) (g_regions m1)" "bytes (g_regions m1) < 2 ^ 64"
  shows "evict_need env free tot (TrackedResidentBytes b ctx dev m1)
           \<le> bytes (filter (\<lambda>e. fst e \<in> set ps) (victims b ctx dev m1))
         \<or> set ps = {p. mb_evict b p \<and> p \<in> fst ` set (victims b ctx dev m1)}"
proof -
  let ?need = "evict_need env free tot (TrackedResidentBytes b ctx dev m1)"
  let ?f = "filter (\<lambda>e. in_context b ctx dev (snd e) \<and> mr_resident (snd e)) (g_regions m1)"
  have nn: "list_all (\<lambda>e. 0 \<le> mr_size (snd e)) (victims b ctx dev m1)"
    using sizes(1) by (auto simp: victims_def set_sort_victims list_all_iff)
  show ?thesis
  proof (cases "?need = 0")
    case True
    have "0 \<le> bytes (filter (\<lambda>e. fst e \<in> set ps) (victims b ctx dev m1))"
      using nn by (intro bytes_nonneg) (auto simp: list_all_iff)
    with True show ?thesis by simp
  next
    case False
    then have mv: "move_regions (mb_evict b) False ?need 0 (victims b ctx dev m1) m1 = (m', ps)"
      using call usable by (simp add: OnQueueSuspend_def Let_def m1)
    have mset: "mset (victims b ctx dev m1) = mset ?f" by (simp add: victims_def sort_victims_def)
    have "distinct (map fst ?f)"
      using mem_ok_mark [OF ok] by (simp add: mem_ok_def m1 distinct_map_filter)
    then have d: "distinct (map fst (victims b ctx dev m1))"
      using mset by (metis mset_eq_imp_distinct_iff mset_map)
    have "bytes (victims b ctx dev m1) = bytes ?f"
      using bytes_filter_perm [OF mset, of "\<lambda>_. True"] by simp
    also have "\<dots> \<le> bytes (g_regions m1)"
      using sizes(1) by (rule bytes_filter_le)
    finally have small: "0 + bytes (victims b ctx dev m1) < 2 ^ 64" using sizes(2) by simp
    have "ps = map fst (filter (\<lambda>e. mb_evict b (fst e)) (victims b ctx dev m1))
        \<or> ?need \<le> 0 + bytes (filter (\<lambda>e. fst e \<in> set ps) (victims b ctx dev m1))"
      by (rule move_regions_enough [OF mv d _ nn small]) simp
    then show ?thesis
    proof
      assume "ps = map fst (filter (\<lambda>e. mb_evict b (fst e)) (victims b ctx dev m1))"
      then show ?thesis by force
    qed simp
  qed
qed

lemma eviction_goes_far_enough_witness:
  "evict_need example_env 0 100 (TrackedResidentBytes example_backend 1 0
       (mark_suspended example_backend 1 0 1 example_mem))
     \<le> bytes (filter (\<lambda>e. fst e \<in> set [1000]) (victims example_backend 1 0
         (mark_suspended example_backend 1 0 1 example_mem)))
   \<or> set [1000] = {p. mb_evict example_backend p \<and> p \<in> fst ` set (victims example_backend 1 0
         (mark_suspended example_backend 1 0 1 example_mem))}"
proof -
  have "list_all (\<lambda>e. 0 \<le> mr_size (snd e)) (g_regions (mark_suspended example_backend 1 0 1 example_mem))"
    "bytes (g_regions (mark_suspended example_backend 1 0 1 example_mem)) < 2 ^ 64"
    "UsableBackend example_env (Some example_backend)" "mb_query_mem_info example_backend"
    "mb_evict_to_host example_backend" "mb_query example_backend = Some (0, 100)"
    by (unfold example_suspend(2), code_simp+)
  from eviction_goes_far_enough [OF example_suspend(1,3) refl this(3) _ this(4,5,6) _ this(1,2)]
  show ?thesis by simp
qed

lemma budgets_fit_low_watermark_witness:
  "sum_list (map (\<lambda>(h, s). QueueBudget example_env example_backend 1 0 h 1000
       \<lparr> g_regions = [], g_queues = [(1, QueueState_new\<lparr> qm_backend := Some 0, qm_context := 1, qm_active := True \<rparr>),
          (2, QueueState_new\<lparr> qm_backend := Some 0, qm_context := 1, qm_active := True, qm_priority := 9 \<rparr>)],
         g_clock = 0 \<rparr>)
     (filter (\<lambda>(h, s). competing example_backend 1 0 s)
       [(1, QueueState_new\<lparr> qm_backend := Some 0, qm_context := 1, qm_active := True \<rparr>),
        (2, QueueState_new\<lparr> qm_backend := Some 0, qm_context := 1, qm_active := True, qm_priority := 9 \<rparr>)]))
   \<le> LowWatermark example_env 1000"
  using budgets_fit_low_watermark [of "\<lparr> g_regions = [],
      g_queues = [(1, QueueState_new\<lparr> qm_backend := Some 0, qm_context := 1, qm_active := True \<rparr>),
          (2, QueueState_new\<lparr> qm_backend := Some 0, qm_context := 1, qm_active := True, qm_priority := 9 \<rparr>)],
      g_clock = 0 \<rparr>" 1000 example_env example_backend 1 0]
  by (simp add: mem_sane_def mem_ok_def QueueState_new_def)

end
