(* ===== verification/XQueues.thy ===== *)
theory XQueues
  imports AsyncXQueue MemoryAdmission
begin

text \<open>
  The registries of hardware queues, hardware commands and XQueues of a process and the C
  interface on them (\<^verbatim>\<open>preempt/src/hal/hw_queue.cpp\<close>, \<^verbatim>\<open>preempt/src/hal/hw_command.cpp\<close>,
  \<^verbatim>\<open>preempt/src/xqueue/xqueue.cpp\<close>). A hardware queue and its XQueue refer to each other; an
  object is named by its handle. What the worker of an XQueue does while a caller waits for a
  command is the argument \<open>wait\<close>. An operation yields a result code, or \<open>None\<close> where it ends
  the process by a failed assertion.
\<close>

type_synonym hwq_handle = "64 word"
type_synonym hwcmd_handle = "64 word"

record hwq =
  hq_env :: hwq_env
  hq_xq :: "xhandle option"

record xq_entry =
  xe_xq :: axq
  xe_hwq :: hwq_handle

record hw_command =
  hw_cmd :: hwcmd
  hw_sync :: bool
  hw_callback :: "xresult option"
    \<comment> \<open>for a callback command what its function returns\<close>

record xsys =
  hwqs :: "hwq_handle \<Rightarrow> hwq option"
  xqs :: "xhandle \<Rightarrow> xq_entry option"
  hw_cmds :: "hwcmd_handle \<Rightarrow> hw_command option"
  memory :: mem

section \<open>The registries of the hardware level\<close>

text \<open>\<^verbatim>\<open>create\<close> gives a queue with its handle, or nothing.\<close>

definition HwQueueManager_Add ::
  "hwq_handle \<Rightarrow> (hwq_handle \<times> hwq_env) option \<Rightarrow> xsys \<Rightarrow> (xresult \<times> xsys) option" where
  "HwQueueManager_Add h create s =
     (if hwqs s h \<noteq> None then Some (kXSchedSuccess, s)
      else case create of None \<Rightarrow> Some (kXSchedErrorUnknown, s)
        | Some (h', e) \<Rightarrow>
            if h' \<noteq> h then None
            else Some (kXSchedSuccess, s\<lparr> hwqs := (hwqs s)(h \<mapsto> \<lparr> hq_env = e, hq_xq = None \<rparr>) \<rparr>))"

definition HwQueueManager_Del :: "hwq_handle \<Rightarrow> xsys \<Rightarrow> xresult \<times> xsys" where
  "HwQueueManager_Del h s =
     (case hwqs s h of None \<Rightarrow> (kXSchedErrorNotFound, s)
      | Some q \<Rightarrow>
          if hq_xq q \<noteq> None then (kXSchedErrorNotAllowed, s)
          else (kXSchedSuccess, s\<lparr> hwqs := (hwqs s)(h := None) \<rparr>))"

definition HwQueueManager_GetXQueue :: "hwq_handle \<Rightarrow> xsys \<Rightarrow> xhandle option" where
  "HwQueueManager_GetXQueue h s = (case hwqs s h of None \<Rightarrow> None | Some q \<Rightarrow> hq_xq q)"

definition HwCommandManager_Add :: "hwcmd_handle \<Rightarrow> hw_command \<Rightarrow> xsys \<Rightarrow> xsys" where
  "HwCommandManager_Add h c s = s\<lparr> hw_cmds := (hw_cmds s)(h \<mapsto> c) \<rparr>"

definition HwCommandManager_Del :: "hwcmd_handle \<Rightarrow> xsys \<Rightarrow> hw_command option \<times> xsys" where
  "HwCommandManager_Del h s = (hw_cmds s h, s\<lparr> hw_cmds := (hw_cmds s)(h := None) \<rparr>)"

definition HwCommandCreateCallback ::
  "bool \<Rightarrow> hwcmd_handle \<Rightarrow> xresult \<Rightarrow> xsys \<Rightarrow> xresult \<times> hwcmd_handle option \<times> xsys" where
  "HwCommandCreateCallback out_given h launch s =
     (if \<not> out_given then (kXSchedErrorInvalidValue, None, s)
      else (kXSchedSuccess, Some h,
            HwCommandManager_Add h \<lparr> hw_cmd = HwCommand_new, hw_sync = False, hw_callback = Some launch \<rparr> s))"

definition HwCommandDestroy :: "hwcmd_handle \<Rightarrow> xsys \<Rightarrow> xresult \<times> xsys" where
  "HwCommandDestroy h s =
     (case HwCommandManager_Del h s of
        (None, s') \<Rightarrow> (kXSchedErrorNotFound, s') | (Some _, s') \<Rightarrow> (kXSchedSuccess, s'))"

text \<open>\<^verbatim>\<open>HwQueueLaunch\<close>: a callback command is called, another is given to the hardware queue
  (the third component).\<close>

definition HwQueueLaunch ::
  "hwq_handle \<Rightarrow> hwcmd_handle \<Rightarrow> xsys \<Rightarrow> xresult \<times> xsys \<times> hw_command option" where
  "HwQueueLaunch h c s =
     (case hwqs s h of None \<Rightarrow> (kXSchedErrorNotFound, s, None)
      | Some q \<Rightarrow>
         (case HwCommandManager_Del c s of
            (None, s') \<Rightarrow> (kXSchedErrorNotFound, s', None)
          | (Some hc, s') \<Rightarrow>
             (case hw_callback hc of Some r \<Rightarrow> (r, s', None) | None \<Rightarrow> (kXSchedSuccess, s', Some hc))))"

definition HwQueueSynchronize :: "hwq_handle \<Rightarrow> xsys \<Rightarrow> xresult \<times> hw_call list" where
  "HwQueueSynchronize h s =
     (case hwqs s h of None \<Rightarrow> (kXSchedErrorNotFound, []) | Some q \<Rightarrow> (kXSchedSuccess, [HwSynchronize]))"

section \<open>The registry of XQueues\<close>

abbreviation (input) kQueueCreateFlagBlockingSubmit :: int where "kQueueCreateFlagBlockingSubmit \<equiv> 1"

type_synonym waiting = "axq \<Rightarrow> xcmd \<Rightarrow> axq"

definition set_hq_xq :: "hwq_handle \<Rightarrow> xhandle option \<Rightarrow> xsys \<Rightarrow> xsys" where
  "set_hq_xq h x s = s\<lparr> hwqs := (hwqs s)(h := map_option (\<lambda>q. q\<lparr> hq_xq := x \<rparr>) (hwqs s h)) \<rparr>"

text \<open>\<^verbatim>\<open>Add\<close>: \<open>new_h\<close> is the handle of the object that is created. Its constructor, after the wait, gives
  its level to the hardware queue, whose assertion may fail; nothing has compared the level with
  what the hardware queue supports.\<close>

definition XQueueManager_Add ::
  "waiting \<Rightarrow> pid \<Rightarrow> xhandle \<Rightarrow> (int \<Rightarrow> bool) \<Rightarrow> bool \<Rightarrow> hwq_handle \<Rightarrow> int \<Rightarrow> int \<Rightarrow> xsys
    \<Rightarrow> (xresult \<times> xhandle option \<times> xsys \<times> event list) option" where
  "XQueueManager_Add wait self new_h sy out_given h level flags s =
     (if \<not> out_given then Some (kXSchedErrorInvalidValue, None, s, [])
      else if level \<le> kPreemptLevelUnknown \<or> level \<ge> kPreemptLevelMax
      then Some (kXSchedErrorInvalidValue, None, s, [])
      else if flags AND kQueueCreateFlagBlockingSubmit \<noteq> 0 then Some (kXSchedErrorNotSupported, None, s, [])
      else case hwqs s h of None \<Rightarrow> Some (kXSchedErrorNotFound, None, s, [])
      | Some q \<Rightarrow>
         (case hq_xq q of
            Some x \<Rightarrow>
              (case xqs s x of None \<Rightarrow> None
               | Some e \<Rightarrow> if xe_hwq e \<noteq> h then None else Some (kXSchedSuccess, Some x, s, []))
          | None \<Rightarrow>
              (case AsyncXQueue_begin self (hq_env q) level 16 8 new_h sy of None \<Rightarrow> None
               | Some (x, c, evs) \<Rightarrow>
                  (let x' = wait x c in
                   if \<not> hq_accepts_level (hq_env q) level then None
                   else Some (kXSchedSuccess, Some new_h,
                     (set_hq_xq h (Some new_h) s)
                       \<lparr> xqs := (xqs s)(new_h \<mapsto> \<lparr> xe_xq = x', xe_hwq = h \<rparr>) \<rparr>,
                     evs @ snd (AsyncXQueue_end self x'))))))"

text \<open>\<^verbatim>\<open>Del\<close>: the object leaves the registry first; it is resumed and waited for, and destroyed
  with its last reference.\<close>

definition XQueueManager_Del :: "waiting \<Rightarrow> xhandle \<Rightarrow> xsys \<Rightarrow> (xresult \<times> xsys \<times> axq option) option" where
  "XQueueManager_Del wait h s =
     (case xqs s h of None \<Rightarrow> Some (kXSchedErrorNotFound, s, None)
      | Some e \<Rightarrow>
         (let s' = (set_hq_xq (xe_hwq e) None s)\<lparr> xqs := (xqs s)(h := None), memory := RemoveQueue h (memory s) \<rparr> in
          case AsyncXQueue_Resume kQueueResumeFlagNone (xe_xq e) of None \<Rightarrow> None
          | Some (x, _) \<Rightarrow>
             (case SubmitWaitAll x of None \<Rightarrow> None
              | Some (x', c) \<Rightarrow> Some (kXSchedSuccess, s', Some (wait x' c)))))"

definition XQueueManager_Exists :: "xhandle \<Rightarrow> xsys \<Rightarrow> xresult" where
  "XQueueManager_Exists h s = (if xqs s h = None then kXSchedErrorNotFound else kXSchedSuccess)"

definition set_xq :: "xhandle \<Rightarrow> axq \<Rightarrow> xsys \<Rightarrow> xsys" where
  "set_xq h x s = s\<lparr> xqs := (xqs s)(h := map_option (\<lambda>e. e\<lparr> xe_xq := x \<rparr>) (xqs s h)) \<rparr>"

text \<open>\<^verbatim>\<open>ForEach\<close> over the XQueues in the order of iteration, up to the first failure.\<close>

fun XQueueManager_ForEach :: "(axq \<Rightarrow> xresult \<times> axq) \<Rightarrow> xhandle list \<Rightarrow> xsys \<Rightarrow> xresult \<times> xsys" where
  "XQueueManager_ForEach f [] s = (kXSchedSuccess, s)"
| "XQueueManager_ForEach f (h # hs) s =
     (case xqs s h of None \<Rightarrow> XQueueManager_ForEach f hs s
      | Some e \<Rightarrow>
         (case f (xe_xq e) of (r, x) \<Rightarrow>
            if r \<noteq> kXSchedSuccess then (r, set_xq h x s)
            else XQueueManager_ForEach f hs (set_xq h x s)))"

text \<open>\<^verbatim>\<open>ForEachWaitAll\<close>: a waiting command for every XQueue, then the waits in the same order.\<close>

fun submit_wait_alls :: "xhandle list \<Rightarrow> xsys \<Rightarrow> (xsys \<times> (xhandle \<times> xcmd) list) option" where
  "submit_wait_alls [] s = Some (s, [])"
| "submit_wait_alls (h # hs) s =
     (case xqs s h of None \<Rightarrow> submit_wait_alls hs s
      | Some e \<Rightarrow>
         (case SubmitWaitAll (xe_xq e) of None \<Rightarrow> None
          | Some (x, c) \<Rightarrow> map_option (\<lambda>(s', cs). (s', (h, c) # cs)) (submit_wait_alls hs (set_xq h x s))))"

fun wait_alls :: "waiting \<Rightarrow> (xhandle \<times> xcmd) list \<Rightarrow> xsys \<Rightarrow> xsys" where
  "wait_alls wait [] s = s"
| "wait_alls wait ((h, c) # cs) s =
     (case xqs s h of None \<Rightarrow> wait_alls wait cs s
      | Some e \<Rightarrow> wait_alls wait cs (set_xq h (wait (xe_xq e) c) s))"

definition XQueueManager_ForEachWaitAll :: "waiting \<Rightarrow> xhandle list \<Rightarrow> xsys \<Rightarrow> (xresult \<times> xsys) option" where
  "XQueueManager_ForEachWaitAll wait hs s =
     map_option (\<lambda>(s', cs). (kXSchedSuccess, wait_alls wait cs s')) (submit_wait_alls hs s)"

section \<open>The C interface of XQueues\<close>

definition XQueueSetPreemptLevel ::
  "waiting \<Rightarrow> pid \<Rightarrow> xhandle \<Rightarrow> int \<Rightarrow> xsys \<Rightarrow> (xresult \<times> xsys \<times> event list) option" where
  "XQueueSetPreemptLevel wait self h level s =
     (case xqs s h of None \<Rightarrow> Some (kXSchedErrorNotFound, s, [])
      | Some e \<Rightarrow>
         if GetFeatures (xe_xq e) kQueueFeatureDynamicLevel = 0 then Some (kXSchedErrorNotSupported, s, [])
         else (case SetPreemptLevel_begin level (xe_xq e) of None \<Rightarrow> None
           | Some (x, None) \<Rightarrow> Some (kXSchedSuccess, set_xq h x s, [])
           | Some (x, Some c) \<Rightarrow>
              (case SetPreemptLevel_end self level (wait x c) of (x', _, evs) \<Rightarrow>
                 if \<not> hq_accepts_level (ax_hwq (xe_xq e)) level then None
                 else Some (kXSchedSuccess, set_xq h x' s, evs))))"

definition XQueueSetLaunchConfig ::
  "waiting \<Rightarrow> pid \<Rightarrow> xhandle \<Rightarrow> int \<Rightarrow> int \<Rightarrow> xsys \<Rightarrow> (xresult \<times> xsys \<times> event list) option" where
  "XQueueSetLaunchConfig wait self h t n s =
     (case xqs s h of None \<Rightarrow> Some (kXSchedErrorNotFound, s, [])
      | Some e \<Rightarrow>
         if t \<le> 0 \<and> n \<le> 0 then Some (kXSchedSuccess, s, [])
         else if t > 0 \<and> GetFeatures (xe_xq e) kQueueFeatureDynamicThreshold = 0
         then Some (kXSchedErrorNotSupported, s, [])
         else if n > 0 \<and> GetFeatures (xe_xq e) kQueueFeatureDynamicBatchSize = 0
         then Some (kXSchedErrorNotSupported, s, [])
         else (case AsyncXQueue_SetLaunchConfig_begin t n (xe_xq e) of None \<Rightarrow> None
           | Some (x, None) \<Rightarrow> Some (kXSchedSuccess, set_xq h x s, [])
           | Some (x, Some c) \<Rightarrow>
              (case launch_config t n (xe_xq e) of (t', n') \<Rightarrow>
               case AsyncXQueue_SetLaunchConfig_end self t' n' (wait x c) of (x', evs) \<Rightarrow>
                 Some (kXSchedSuccess, set_xq h x' s, evs))))"

definition XQueueSubmit ::
  "pid \<Rightarrow> time_ns \<Rightarrow> xhandle \<Rightarrow> hwcmd_handle \<Rightarrow> xsys \<Rightarrow> (xresult \<times> xsys \<times> event list) option" where
  "XQueueSubmit self now h c s =
     (case xqs s h of None \<Rightarrow> Some (kXSchedErrorNotFound, s, [])
      | Some e \<Rightarrow>
         (case HwCommandManager_Del c s of
            (None, s') \<Rightarrow> Some (kXSchedErrorNotFound, s', [])
          | (Some hc, s') \<Rightarrow>
             map_option (\<lambda>(x, i, calls, evs). (kXSchedSuccess, set_xq h x s', evs))
               (Submit self now (xe_xq e))))"

text \<open>\<^verbatim>\<open>XQueueWait\<close>: the result, with what the caller waits for.\<close>

definition XQueueWait :: "xhandle \<Rightarrow> hwcmd_handle \<Rightarrow> xsys \<Rightarrow> xresult \<times> wait_plan option" where
  "XQueueWait h c s =
     (case xqs s h of None \<Rightarrow> (kXSchedErrorNotFound, None)
      | Some e \<Rightarrow>
         (case hw_cmds s c of None \<Rightarrow> (kXSchedErrorNotFound, None)
          | Some hc \<Rightarrow> (kXSchedSuccess, Some (AsyncXQueue_Wait (hw_sync hc) (hc_state (hw_cmd hc))))))"

definition XQueueWaitAll :: "waiting \<Rightarrow> xhandle \<Rightarrow> xsys \<Rightarrow> (xresult \<times> xsys) option" where
  "XQueueWaitAll wait h s =
     (case xqs s h of None \<Rightarrow> Some (kXSchedErrorNotFound, s)
      | Some e \<Rightarrow>
          map_option (\<lambda>(x, c). (kXSchedSuccess, set_xq h (wait x c) s)) (SubmitWaitAll (xe_xq e)))"

definition XQueueQuery :: "bool \<Rightarrow> xhandle \<Rightarrow> xsys \<Rightarrow> xresult \<times> xqueue_state option" where
  "XQueueQuery out_given h s =
     (if \<not> out_given then (kXSchedErrorInvalidValue, None)
      else case xqs s h of None \<Rightarrow> (kXSchedErrorNotFound, None)
        | Some e \<Rightarrow> (kXSchedSuccess, Some (Query (xe_xq e))))"

definition XQueueSuspend :: "xhandle \<Rightarrow> int \<Rightarrow> xsys \<Rightarrow> xresult \<times> xsys" where
  "XQueueSuspend h flags s =
     (case xqs s h of None \<Rightarrow> (kXSchedErrorNotFound, s)
      | Some e \<Rightarrow> (kXSchedSuccess, set_xq h (fst (Suspend flags (xe_xq e))) s))"

definition XQueueResume :: "xhandle \<Rightarrow> int \<Rightarrow> xsys \<Rightarrow> (xresult \<times> xsys) option" where
  "XQueueResume h flags s =
     (case xqs s h of None \<Rightarrow> Some (kXSchedErrorNotFound, s)
      | Some e \<Rightarrow>
          map_option (\<lambda>(x, _). (kXSchedSuccess, set_xq h x s)) (AsyncXQueue_Resume flags (xe_xq e)))"

definition XQueueProfileHwCommandCount :: "bool \<Rightarrow> xhandle \<Rightarrow> xsys \<Rightarrow> xresult \<times> int option" where
  "XQueueProfileHwCommandCount out_given h s =
     (if \<not> out_given then (kXSchedErrorInvalidValue, None)
      else case xqs s h of None \<Rightarrow> (kXSchedErrorNotFound, None)
        | Some e \<Rightarrow> (kXSchedSuccess, Some (GetHwCommandCount (xe_xq e))))"

section \<open>The registries agree\<close>

text \<open>An XQueue and its hardware queue refer to each other, and both are registered.\<close>

definition registered :: "xsys \<Rightarrow> bool" where
  "registered s \<longleftrightarrow>
     (\<forall>h e. xqs s h = Some e \<longrightarrow> (\<exists>q. hwqs s (xe_hwq e) = Some q \<and> hq_xq q = Some h))
     \<and> (\<forall>k q h. hwqs s k = Some q \<longrightarrow> hq_xq q = Some h \<longrightarrow> (\<exists>e. xqs s h = Some e \<and> xe_hwq e = k))"

datatype api_op =
    OpHwQueueAdd hwq_handle "(hwq_handle \<times> hwq_env) option" | OpHwQueueDestroy hwq_handle
  | OpHwQueueLaunch hwq_handle hwcmd_handle
  | OpCreateCallback bool hwcmd_handle xresult | OpHwCommandDestroy hwcmd_handle
  | OpCreate xhandle "int \<Rightarrow> bool" bool hwq_handle int int | OpDestroy xhandle
  | OpSetLevel xhandle int | OpSetConfig xhandle int int
  | OpSubmit time_ns xhandle hwcmd_handle | OpWaitAll xhandle
  | OpSuspend xhandle int | OpResume xhandle int

text \<open>A new object has an address of its own.\<close>

fun op_ok :: "api_op \<Rightarrow> xsys \<Rightarrow> bool" where
  "op_ok (OpCreate new_h sy out_given h level flags) s \<longleftrightarrow> xqs s new_h = None"
| "op_ok _ s \<longleftrightarrow> True"

fun api_exec :: "waiting \<Rightarrow> pid \<Rightarrow> api_op \<Rightarrow> xsys \<Rightarrow> (xresult \<times> xsys) option" where
  "api_exec wait self (OpHwQueueAdd h c) s = HwQueueManager_Add h c s"
| "api_exec wait self (OpHwQueueDestroy h) s = Some (HwQueueManager_Del h s)"
| "api_exec wait self (OpHwQueueLaunch h c) s = Some (case HwQueueLaunch h c s of (r, s', _) \<Rightarrow> (r, s'))"
| "api_exec wait self (OpCreateCallback g h r) s =
     Some (case HwCommandCreateCallback g h r s of (r, _, s') \<Rightarrow> (r, s'))"
| "api_exec wait self (OpHwCommandDestroy h) s = Some (HwCommandDestroy h s)"
| "api_exec wait self (OpCreate nh sy g h l f) s =
     map_option (\<lambda>(r, _, s', _). (r, s')) (XQueueManager_Add wait self nh sy g h l f s)"
| "api_exec wait self (OpDestroy h) s = map_option (\<lambda>(r, s', _). (r, s')) (XQueueManager_Del wait h s)"
| "api_exec wait self (OpSetLevel h l) s =
     map_option (\<lambda>(r, s', _). (r, s')) (XQueueSetPreemptLevel wait self h l s)"
| "api_exec wait self (OpSetConfig h t n) s =
     map_option (\<lambda>(r, s', _). (r, s')) (XQueueSetLaunchConfig wait self h t n s)"
| "api_exec wait self (OpSubmit now h c) s =
     map_option (\<lambda>(r, s', _). (r, s')) (XQueueSubmit self now h c s)"
| "api_exec wait self (OpWaitAll h) s = XQueueWaitAll wait h s"
| "api_exec wait self (OpSuspend h f) s = Some (XQueueSuspend h f s)"
| "api_exec wait self (OpResume h f) s = XQueueResume h f s"

fun api_run :: "waiting \<Rightarrow> pid \<Rightarrow> api_op list \<Rightarrow> xsys \<Rightarrow> xsys option" where
  "api_run wait self [] s = Some s"
| "api_run wait self (opn # ops) s =
     (if \<not> op_ok opn s then None
      else case api_exec wait self opn s of None \<Rightarrow> None
        | Some (r, s') \<Rightarrow> api_run wait self ops s')"

definition xsys_empty :: xsys where
  "xsys_empty = \<lparr> hwqs = (\<lambda>_. None), xqs = (\<lambda>_. None), hw_cmds = (\<lambda>_. None),
     memory = \<lparr> g_regions = [], g_queues = [], g_clock = 0 \<rparr> \<rparr>"

lemma registeredD1:
  "registered s \<Longrightarrow> xqs s h = Some e \<Longrightarrow> \<exists>q. hwqs s (xe_hwq e) = Some q \<and> hq_xq q = Some h"
  by (simp add: registered_def)

lemma registeredD2:
  "registered s \<Longrightarrow> hwqs s k = Some q \<Longrightarrow> hq_xq q = Some h \<Longrightarrow> \<exists>e. xqs s h = Some e \<and> xe_hwq e = k"
  by (simp add: registered_def)

lemma registeredI:
  assumes "\<And>h e. xqs s h = Some e \<Longrightarrow> \<exists>q. hwqs s (xe_hwq e) = Some q \<and> hq_xq q = Some h"
    "\<And>k q h. hwqs s k = Some q \<Longrightarrow> hq_xq q = Some h \<Longrightarrow> \<exists>e. xqs s h = Some e \<and> xe_hwq e = k"
  shows "registered s"
  using assms by (simp add: registered_def)

lemma set_xq_registered: assumes "registered s" shows "registered (set_xq h x s)"
proof (rule registeredI)
  fix k e assume "xqs (set_xq h x s) k = Some e"
  then obtain e' where "xqs s k = Some e'" "xe_hwq e = xe_hwq e'" by (auto simp: set_xq_def split: if_splits)
  then show "\<exists>q. hwqs (set_xq h x s) (xe_hwq e) = Some q \<and> hq_xq q = Some k"
    using registeredD1 [OF assms] by (simp add: set_xq_def)
next
  fix k q j assume "hwqs (set_xq h x s) k = Some q" "hq_xq q = Some j"
  then obtain e where "xqs s j = Some e" "xe_hwq e = k"
    using registeredD2 [OF assms, of k q j] by (auto simp: set_xq_def)
  then show "\<exists>e. xqs (set_xq h x s) j = Some e \<and> xe_hwq e = k" by (auto simp: set_xq_def)
qed

lemma hw_cmds_registered [simp]: "registered (s\<lparr> hw_cmds := c \<rparr>) = registered s"
  by (simp add: registered_def)

lemma HwQueueManager_Add_registered:
  assumes "registered s" "HwQueueManager_Add h c s = Some (r, s')" shows "registered s'"
proof (cases "s' = s")
  case False
  then obtain e where "hwqs s h = None" "s' = s\<lparr> hwqs := (hwqs s)(h \<mapsto> \<lparr> hq_env = e, hq_xq = None \<rparr>) \<rparr>"
    using assms(2) by (auto simp: HwQueueManager_Add_def split: if_splits option.splits)
  then show ?thesis using assms(1) by (fastforce simp: registered_def)
qed (use assms in simp)

lemma HwQueueManager_Del_registered:
  "registered s \<Longrightarrow> registered (snd (HwQueueManager_Del h s))"
  by (fastforce simp: registered_def HwQueueManager_Del_def split: option.split)

lemma XQueueManager_Add_registered:
  assumes "registered s" "xqs s nh = None" "XQueueManager_Add wait self nh sy g h l f s = Some (r, o', s', evs)"
  shows "registered s'"
proof (cases "s' = s")
  case False
  then obtain q x where q: "hwqs s h = Some q" "hq_xq q = None"
    "s' = (set_hq_xq h (Some nh) s)\<lparr> xqs := (xqs s)(nh \<mapsto> \<lparr> xe_xq = x, xe_hwq = h \<rparr>) \<rparr>"
    using assms(3) by (auto simp: XQueueManager_Add_def Let_def split: if_splits option.splits)
  have "\<exists>q'. hwqs s' (xe_hwq e) = Some q' \<and> hq_xq q' = Some k" if "xqs s' k = Some e" for k e
  proof (cases "k = nh")
    case True
    then show ?thesis using that q by (auto simp: set_hq_xq_def)
  next
    case False
    then have "xqs s k = Some e" using that q(3) by simp
    then obtain q' where "hwqs s (xe_hwq e) = Some q'" "hq_xq q' = Some k"
      using registeredD1 [OF assms(1)] by blast
    then show ?thesis using q by (auto simp: set_hq_xq_def)
  qed
  moreover have "\<exists>e. xqs s' k = Some e \<and> xe_hwq e = j" if "hwqs s' j = Some q'" and B: "hq_xq q' = Some k" for j q' k
  proof (cases "j = h")
    case True
    then show ?thesis using that q by (auto simp: set_hq_xq_def)
  next
    case False
    then have "hwqs s j = Some q'" using that(1) q(3) by (simp add: set_hq_xq_def)
    then obtain e where "xqs s k = Some e" "xe_hwq e = j"
      using registeredD2 [OF assms(1) _ B] by blast
    then show ?thesis using assms(2) q(3) by auto
  qed
  ultimately show ?thesis by (intro registeredI)
qed (use assms in simp)

lemma XQueueManager_Del_registered:
  assumes "registered s" "XQueueManager_Del wait h s = Some (r, s', x)"
  shows "registered s'"
proof (cases "xqs s h")
  case (Some e)
  then have s': "s' = (set_hq_xq (xe_hwq e) None s)\<lparr> xqs := (xqs s)(h := None), memory := RemoveQueue h (memory s) \<rparr>"
    using assms(2) by (auto simp: XQueueManager_Del_def Let_def split: option.splits)
  obtain q where q: "hwqs s (xe_hwq e) = Some q" "hq_xq q = Some h"
    using registeredD1 [OF assms(1) Some] by blast
  have "\<exists>q'. hwqs s' (xe_hwq d) = Some q' \<and> hq_xq q' = Some k" if "xqs s' k = Some d" for k d
  proof -
    have k: "k \<noteq> h" "xqs s k = Some d" using that s' by (auto split: if_splits)
    then obtain q' where q': "hwqs s (xe_hwq d) = Some q'" "hq_xq q' = Some k"
      using registeredD1 [OF assms(1)] by blast
    then have "xe_hwq d \<noteq> xe_hwq e" using q k(1) by auto
    then show ?thesis using q' s' by (simp add: set_hq_xq_def)
  qed
  moreover have "\<exists>d. xqs s' k = Some d \<and> xe_hwq d = j" if "hwqs s' j = Some q'" and B: "hq_xq q' = Some k" for j q' k
  proof -
    have j: "j \<noteq> xe_hwq e" using that s' q by (auto simp: set_hq_xq_def)
    then have "hwqs s j = Some q'" using that(1) s' by (simp add: set_hq_xq_def)
    then obtain d where d: "xqs s k = Some d" "xe_hwq d = j"
      using registeredD2 [OF assms(1) _ B] by blast
    then have "k \<noteq> h" using Some j by auto
    then show ?thesis using d s' by simp
  qed
  ultimately show ?thesis by (intro registeredI)
qed (use assms in \<open>simp add: XQueueManager_Del_def\<close>)

lemma api_exec_registered:
  assumes "registered s" "op_ok opn s" "api_exec wait self opn s = Some (r, s')"
  shows "registered s'"
proof (cases opn)
  case (OpHwQueueAdd h c)
  then show ?thesis using assms HwQueueManager_Add_registered [OF assms(1), of h c r s'] by simp
next
  case (OpHwQueueDestroy h)
  then show ?thesis using assms HwQueueManager_Del_registered [OF assms(1), of h] by simp
next
  case (OpHwQueueLaunch h c)
  then show ?thesis using assms
    by (auto simp: HwQueueLaunch_def HwCommandManager_Del_def split: option.splits)
next
  case (OpCreateCallback g h q)
  then show ?thesis using assms
    by (auto simp: HwCommandCreateCallback_def HwCommandManager_Add_def split: if_splits)
next
  case (OpHwCommandDestroy h)
  then show ?thesis using assms
    by (auto simp: HwCommandDestroy_def HwCommandManager_Del_def split: option.splits)
next
  case (OpCreate nh sy g h l f)
  then show ?thesis using assms XQueueManager_Add_registered [OF assms(1), of nh wait self sy g h l f r _ s']
    by auto
next
  case (OpDestroy h)
  then show ?thesis using assms XQueueManager_Del_registered [OF assms(1), of wait h r s'] by auto
next
  case (OpSetLevel h l)
  then show ?thesis using assms set_xq_registered
    by (auto simp: XQueueSetPreemptLevel_def split: option.splits if_splits prod.splits)
next
  case (OpSetConfig h t n)
  then show ?thesis using assms set_xq_registered
    by (auto simp: XQueueSetLaunchConfig_def split: option.splits if_splits prod.splits)
next
  case (OpSubmit now h c)
  then show ?thesis using assms set_xq_registered
    by (auto simp: XQueueSubmit_def HwCommandManager_Del_def split: option.splits)
next
  case (OpWaitAll h)
  then show ?thesis using assms set_xq_registered by (auto simp: XQueueWaitAll_def split: option.splits)
next
  case (OpSuspend h f)
  then show ?thesis using assms set_xq_registered by (auto simp: XQueueSuspend_def split: option.splits)
next
  case (OpResume h f)
  then show ?thesis using assms set_xq_registered by (auto simp: XQueueResume_def split: option.splits)
qed

lemma api_run_registered: "api_run wait self ops s = Some s' \<Longrightarrow> registered s \<Longrightarrow> registered s'"
  by (induction ops arbitrary: s) (auto split: if_splits option.splits intro: api_exec_registered)

lemma registered_empty: "registered xsys_empty"
  by (simp add: registered_def xsys_empty_def)

section \<open>Properties\<close>

lemma AsyncXQueue_begin_succeeds:
  assumes "kPreemptLevelUnknown < level" "level < kPreemptLevelMax" "n \<le> t"
  shows "AsyncXQueue_begin self hq level t n h sy \<noteq> None"
  using assms by (simp add: AsyncXQueue_begin_def CommandBuffer_new_eq LaunchWorker_new_def
      SubmitWaitAll_def EnqueueXQueueWaitAllCommand_def)

text \<open>C32: Whatever calls of the C interface came before, XQueues and hardware queues refer to each
  other, so that creating an XQueue fails an assertion in one case only: the call passes the
  checks of its arguments, the hardware queue has no XQueue yet, and it refuses the level in
  \<^verbatim>\<open>OnPreemptLevelChange\<close>, which no check has asked it before. In all other cases it yields a
  result code.\<close>

theorem create_aborts_iff_level_refused:
  assumes "api_run wait self ops xsys_empty = Some s"
  shows "registered s
    \<and> (XQueueManager_Add wait' self nh sy g h l f s = None \<longleftrightarrow>
         g \<and> kPreemptLevelUnknown < l \<and> l < kPreemptLevelMax \<and> f AND kQueueCreateFlagBlockingSubmit = 0
         \<and> (\<exists>q. hwqs s h = Some q \<and> hq_xq q = None \<and> \<not> hq_accepts_level (hq_env q) l))"
proof -
  have r: "registered s" using api_run_registered [OF assms registered_empty] .
  have "XQueueManager_Add wait' self nh sy g h l f s = None \<longleftrightarrow>
      g \<and> kPreemptLevelUnknown < l \<and> l < kPreemptLevelMax \<and> f AND kQueueCreateFlagBlockingSubmit = 0
      \<and> (\<exists>q. hwqs s h = Some q \<and> hq_xq q = None \<and> \<not> hq_accepts_level (hq_env q) l)"
  proof (cases "hwqs s h")
    case (Some q)
    show ?thesis
    proof (cases "hq_xq q")
      case None
      then show ?thesis using Some AsyncXQueue_begin_succeeds [of l 8 16 self "hq_env q" nh sy]
        by (auto simp: XQueueManager_Add_def Let_def split: option.splits)
    next
      case (Some x)
      then show ?thesis using registeredD2 [OF r \<open>hwqs s h = Some q\<close> Some] \<open>hwqs s h = Some q\<close>
        by (auto simp: XQueueManager_Add_def)
    qed
  qed (simp add: XQueueManager_Add_def)
  then show ?thesis using r by blast
qed

definition ex_wait :: waiting where
  "ex_wait x c = x\<lparr> ax_lw := (ax_lw x)\<lparr> lw_cs := (lw_cs (ax_lw x))(c := kCommandStateCompleted) \<rparr>,
     ax_buf := (ax_buf x)\<lparr> cb_cmds := [], cb_waiting := True \<rparr> \<rparr>"

definition ex_calls :: "api_op list" where
  "ex_calls = [OpHwQueueAdd 5 (Some (5, ex_hwq)), OpCreate 9 (\<lambda>_. False) True 5 2 0,
     OpCreateCallback True 4 kXSchedSuccess]"

lemma api_run_append:
  "api_run wait self (ops @ ops') s = (case api_run wait self ops s of None \<Rightarrow> None | Some s' \<Rightarrow> api_run wait self ops' s')"
  by (induction ops arbitrary: s) (auto split: option.split)

lemma ex_calls_run:
  obtains s e where "api_run ex_wait 7 ex_calls xsys_empty = Some s" "xqs s 9 = Some e" "xe_hwq e = 5"
    "hwqs s 6 = None" "hwqs s 5 \<noteq> None" "hq_xq (the (hwqs s 5)) \<noteq> None"
    "hw_cmds s 4 \<noteq> None" "ax_buf (xe_xq e) = ex_buf\<lparr> cb_cmds := [], cb_waiting := True \<rparr>"
    "batch_size (ax_lw (xe_xq e)) = 8" "ax_hwq (xe_xq e) = ex_hwq"
    "lw_cs (ax_lw (xe_xq e)) (HwCmd 1) = 0" "ax_next_idx (xe_xq e) = 1"
  by (simp add: ex_calls_def xsys_empty_def HwQueueManager_Add_def XQueueManager_Add_def Let_def
      AsyncXQueue_begin_def CommandBuffer_new_eq LaunchWorker_new_def SubmitWaitAll_def
      EnqueueXQueueWaitAllCommand_def AsyncXQueue_end_def ex_wait_def set_hq_xq_def
      HwCommandCreateCallback_def HwCommandManager_Add_def ex_buf_def)

text \<open>With a hardware queue that blocks only, registered beside the one of the example, a creation with level 2
  ends the process and one with level 1 does not.\<close>

theorem create_aborts_iff_level_refused_witness:
  "\<exists>s. api_run ex_wait 7 (ex_calls @ [OpHwQueueAdd 6 (Some (6, ex_hwq\<lparr> hq_accepts_level := \<lambda>l. l \<le> 1 \<rparr>))])
       xsys_empty = Some s \<and> xqs s 9 \<noteq> None \<and> registered s
     \<and> XQueueManager_Add ex_wait 7 11 (\<lambda>_. False) True 5 1 0 s \<noteq> None
     \<and> XQueueManager_Add ex_wait 7 11 (\<lambda>_. False) True 6 1 0 s \<noteq> None
     \<and> XQueueManager_Add ex_wait 7 11 (\<lambda>_. False) True 6 2 0 s = None"
proof -
  let ?e = "ex_hwq\<lparr> hq_accepts_level := \<lambda>l. l \<le> 1 \<rparr>"
  obtain s e where s: "api_run ex_wait 7 ex_calls xsys_empty = Some s" "xqs s 9 = Some e" "hwqs s 6 = None"
    "hwqs s 5 \<noteq> None" "hq_xq (the (hwqs s 5)) \<noteq> None" by (rule ex_calls_run)
  let ?s = "s\<lparr> hwqs := (hwqs s)(6 \<mapsto> \<lparr> hq_env = ?e, hq_xq = None \<rparr>) \<rparr>"
  have r: "api_run ex_wait 7 (ex_calls @ [OpHwQueueAdd 6 (Some (6, ?e))]) xsys_empty = Some ?s"
    using s(1,3) by (simp add: api_run_append HwQueueManager_Add_def)
  note a = create_aborts_iff_level_refused [OF r, of ex_wait 11 "\<lambda>_. False" True]
  show ?thesis using a [of 5 1 0] a [of 6 1 0] a [of 6 2 0] s(2,4,5) r by auto
qed

text \<open>A handle that names no XQueue is reported by every call on it, and nothing changes: a command
  given to a submission stays registered.\<close>

lemma unknown_xqueue_is_reported:
  assumes "xqs s h = None"
  shows "XQueueManager_Del wait h s = Some (kXSchedErrorNotFound, s, None)
     \<and> XQueueSetPreemptLevel wait self h l s = Some (kXSchedErrorNotFound, s, [])
     \<and> XQueueSetLaunchConfig wait self h t n s = Some (kXSchedErrorNotFound, s, [])
     \<and> XQueueSubmit self now h c s = Some (kXSchedErrorNotFound, s, [])
     \<and> XQueueWait h c s = (kXSchedErrorNotFound, None)
     \<and> XQueueWaitAll wait h s = Some (kXSchedErrorNotFound, s)
     \<and> XQueueQuery True h s = (kXSchedErrorNotFound, None)
     \<and> XQueueSuspend h f s = (kXSchedErrorNotFound, s)
     \<and> XQueueResume h f s = Some (kXSchedErrorNotFound, s)"
  using assms by (simp add: XQueueManager_Del_def XQueueSetPreemptLevel_def XQueueSetLaunchConfig_def
      XQueueSubmit_def XQueueWait_def XQueueWaitAll_def XQueueQuery_def XQueueSuspend_def XQueueResume_def)

text \<open>A command that was submitted can no longer be waited for by its handle: submitting
  takes it out of the registry in which the wait looks for it.\<close>

theorem submitted_handle_cannot_be_waited_for:
  assumes "XQueueSubmit self now h c s = Some (kXSchedSuccess, s', evs)"
  shows "XQueueWait h' c s' = (kXSchedErrorNotFound, None)"
  using assms by (auto simp: XQueueSubmit_def HwCommandManager_Del_def XQueueWait_def set_xq_def
      split: option.splits)

theorem submitted_handle_cannot_be_waited_for_witness:
  "\<exists>s s' evs. api_run ex_wait 7 ex_calls xsys_empty = Some s
     \<and> XQueueSubmit 7 0 9 4 s = Some (kXSchedSuccess, s', evs)
     \<and> xqs s' 9 \<noteq> None \<and> XQueueWait 9 4 s' = (kXSchedErrorNotFound, None)"
proof -
  obtain s e where s: "api_run ex_wait 7 ex_calls xsys_empty = Some s" "xqs s 9 = Some e"
    "hw_cmds s 4 \<noteq> None" "lw_cs (ax_lw (xe_xq e)) (HwCmd 1) = 0" "ax_next_idx (xe_xq e) = 1"
    by (rule ex_calls_run)
  have "\<exists>s' evs. XQueueSubmit 7 0 9 4 s = Some (kXSchedSuccess, s', evs) \<and> xqs s' 9 \<noteq> None"
    using s(2-5) by (auto simp: XQueueSubmit_def HwCommandManager_Del_def Submit_def Submit_index_def
        Submit_enqueue_def Enqueue_def set_cstate_def SetState_def set_xq_def Let_def)
  then show ?thesis using submitted_handle_cannot_be_waited_for s(1) by blast
qed

text \<open>Values that creating an XQueue reports as invalid end the process when they are set
  later: a level out of range, and a threshold below the batch size.\<close>

theorem invalid_settings_end_the_process:
  assumes "xqs s h = Some e" "hq_dynamic_level (ax_hwq (xe_xq e))"
    "level \<le> kPreemptLevelUnknown \<or> level \<ge> kPreemptLevelMax"
    "0 < t" "t < batch_size (ax_lw (xe_xq e))" "n \<le> 0"
  shows "XQueueManager_Add wait self nh sy True k level 0 s = Some (kXSchedErrorInvalidValue, None, s, [])
     \<and> XQueueSetPreemptLevel wait self h level s = None
     \<and> XQueueSetLaunchConfig wait self h t n s = None"
proof -
  have "GetFeatures (xe_xq e) 2 \<noteq> 0" "GetFeatures (xe_xq e) 4 \<noteq> 0"
    using assms(2) by (simp_all add: GetFeatures_def ax_features_def)
  then show ?thesis using assms
    by (auto simp: XQueueManager_Add_def XQueueSetPreemptLevel_def SetPreemptLevel_begin_def
        XQueueSetLaunchConfig_def AsyncXQueue_SetLaunchConfig_begin_def launch_config_def)
qed

theorem invalid_settings_end_the_process_witness:
  "\<exists>s. api_run ex_wait 7 ex_calls xsys_empty = Some s
     \<and> XQueueSetPreemptLevel ex_wait 7 9 4 s = None \<and> XQueueSetLaunchConfig ex_wait 7 9 4 (-1) s = None"
proof -
  obtain s e where s: "api_run ex_wait 7 ex_calls xsys_empty = Some s" "xqs s 9 = Some e"
    "batch_size (ax_lw (xe_xq e)) = 8" "ax_hwq (xe_xq e) = ex_hwq" by (rule ex_calls_run)
  have "hq_dynamic_level (ax_hwq (xe_xq e))" by (simp add: s(4) ex_hwq_def)
  from invalid_settings_end_the_process [OF s(2) this, of 4 4 "-1"] s show ?thesis by auto
qed

end
