(* ===== verification/SchedAgent.thy ===== *)
theory SchedAgent
  imports SchedCorrect XQueues
begin

text \<open>
  The scheduler of a process and its replacement (\<^verbatim>\<open>preempt/src/sched/agent.cpp\<close>,
  \<^verbatim>\<open>sched/src/scheduler/scheduler.cpp\<close>, \<^verbatim>\<open>sched/src/scheduler/global.cpp\<close>,
  \<^verbatim>\<open>sched/include/xsched/sched/scheduler/app_managed.h\<close>) and the hints of the C interface
  (\<^verbatim>\<open>preempt/src/sched/hint.cpp\<close>). The two enumerations are C enums that may hold any number,
  so they are integers here. A failed assertion is \<open>None\<close>.
\<close>

abbreviation (input) kSchedulerTypeUnknown :: int where "kSchedulerTypeUnknown \<equiv> 0"
abbreviation (input) kSchedulerTypeAppManaged :: int where "kSchedulerTypeAppManaged \<equiv> 1"
abbreviation (input) kSchedulerTypeLocal :: int where "kSchedulerTypeLocal \<equiv> 2"
abbreviation (input) kSchedulerTypeGlobal :: int where "kSchedulerTypeGlobal \<equiv> 3"
abbreviation (input) kSchedulerTypeMax :: int where "kSchedulerTypeMax \<equiv> 4"

definition policy_types :: "xpolicy_type list" where
  "policy_types = [kPolicyHighestPriorityFirst, kPolicyHeterogeneousHighestPriorityFirst,
     kPolicyUtilizationPartition, kPolicyProcessUtilizationPartition, kPolicyKEarliestDeadlineFirst,
     kPolicyLaxity, kPolicyActiveWindowFirst, kPolicyCPUHighestPriorityFirst,
     kPolicyCompletelyFairScheduler, kPolicyMultiLevelFeedbackQueue, kPolicySLOAdaptive,
     kPolicyInterferenceAwareHeterogeneous]"

definition valid_policy :: "int \<Rightarrow> bool" where
  "valid_policy p \<longleftrightarrow> xpolicy_code kPolicyUnknown < p \<and> p < xpolicy_code kPolicyMax"

definition policy_of :: "int \<Rightarrow> xpolicy_type" where
  "policy_of p = (case find (\<lambda>t. xpolicy_code t = p) policy_types of
                    Some t \<Rightarrow> t | None \<Rightarrow> kPolicyUnknown)"

section \<open>The kinds of scheduler\<close>

text \<open>The global scheduler hands every event to the server; its list is what was sent.\<close>

datatype scheduler =
    AppManaged
  | Local lsched
  | Global "event list"

fun GetType :: "scheduler \<Rightarrow> int" where
  "GetType AppManaged = kSchedulerTypeAppManaged"
| "GetType (Local _) = kSchedulerTypeLocal"
| "GetType (Global _) = kSchedulerTypeGlobal"

definition CreateScheduler :: "int \<Rightarrow> int \<Rightarrow> scheduler option" where
  "CreateScheduler st p =
     (if valid_policy p then map_option Local (LocalScheduler (policy_of p))
      else if st = kSchedulerTypeGlobal then Some (Global [])
      else Some AppManaged)"

text \<open>\<^verbatim>\<open>sent\<close>: the channel to the server takes the event.\<close>

fun Scheduler_RecvEvent :: "bool \<Rightarrow> event \<Rightarrow> scheduler \<Rightarrow> scheduler option" where
  "Scheduler_RecvEvent sent ev AppManaged = Some AppManaged"
| "Scheduler_RecvEvent sent ev (Local s) = Some (Local (RecvEvent ev s))"
| "Scheduler_RecvEvent sent ev (Global evs) = (if sent then Some (Global (evs @ [ev])) else None)"

text \<open>The worker of the global scheduler, on the messages it receives (\<open>None\<close> is a channel that
  is closed): what the executor does, until a terminate operation.\<close>

fun GlobalScheduler_Worker :: "(operation \<Rightarrow> 'c list option) \<Rightarrow> bytes option list \<Rightarrow> 'c list option" where
  "GlobalScheduler_Worker exec [] = Some []"
| "GlobalScheduler_Worker exec (None # ms) = Some []"
| "GlobalScheduler_Worker exec (Some bs # ms) =
     (case operation_copy bs of Inl _ \<Rightarrow> None
      | Inr opn \<Rightarrow>
          if operation_type opn = kOperationTerminate then Some []
          else (case exec opn of None \<Rightarrow> None
            | Some calls \<Rightarrow> map_option (\<lambda>cs. calls @ cs) (GlobalScheduler_Worker exec ms)))"

section \<open>The agent\<close>

definition ShrinkString :: "string \<Rightarrow> nat \<Rightarrow> string" where
  "ShrinkString s n =
     (if n = 0 then []
      else if length s \<le> n then s
      else if n \<le> 3 then take n ''...''
      else take ((n - 3 + 1) div 2) s @ ''...'' @ drop (length s - (n - (n - 3 + 1) div 2 - 3)) s)"

lemma ShrinkString_length: "length (ShrinkString s n) \<le> n"
  by (auto simp: ShrinkString_def)

record agent =
  ag_scheduler :: "scheduler option"

text \<open>\<open>args\<close> is the command line as \<^verbatim>\<open>/proc/self/cmdline\<close> gives it.\<close>

definition kCmdline :: "string list \<Rightarrow> string" where
  "kCmdline args = ShrinkString (concat (map (\<lambda>a. a @ '' '') (takeWhile (\<lambda>a. a \<noteq> []) args))) 255"

definition InitScheduler :: "pid \<Rightarrow> string list \<Rightarrow> bool \<Rightarrow> int \<Rightarrow> int \<Rightarrow> agent \<Rightarrow> agent option" where
  "InitScheduler self args sent st p a =
     (if ag_scheduler a \<noteq> None then Some a
      else case CreateScheduler st p of None \<Rightarrow> None
        | Some s \<Rightarrow>
            map_option (\<lambda>s'. a\<lparr> ag_scheduler := Some s' \<rparr>)
              (Scheduler_RecvEvent sent (ProcessCreateEvent_new self (kCmdline args)) s))"

text \<open>The old scheduler gets a destroy event and stops; what it still does is the result.\<close>

definition FiniScheduler :: "pid \<Rightarrow> bool \<Rightarrow> agent \<Rightarrow> (agent \<times> scheduler option) option" where
  "FiniScheduler self sent a =
     (case ag_scheduler a of None \<Rightarrow> Some (a, None)
      | Some s \<Rightarrow>
          map_option (\<lambda>s'. (a\<lparr> ag_scheduler := None \<rparr>, Some s'))
            (Scheduler_RecvEvent sent (ProcessDestroyEvent self) s))"

definition ReplaceScheduler ::
  "pid \<Rightarrow> string list \<Rightarrow> (lsched \<Rightarrow> xpolicy_type \<Rightarrow> lsched option) \<Rightarrow> bool \<Rightarrow> int \<Rightarrow> int \<Rightarrow> agent
    \<Rightarrow> (xresult \<times> agent) option" where
  "ReplaceScheduler self args set_policy sent st p a =
     (if st \<le> kSchedulerTypeUnknown \<or> st \<ge> kSchedulerTypeMax then Some (kXSchedErrorInvalidValue, a)
      else case ag_scheduler a of None \<Rightarrow> Some (kXSchedErrorUnknown, a)
      | Some s \<Rightarrow>
         if GetType s = st
         then (case s of
             Local l \<Rightarrow>
               (if \<not> valid_policy p then Some (kXSchedErrorInvalidValue, a)
                else map_option (\<lambda>l'. (kXSchedSuccess, a\<lparr> ag_scheduler := Some (Local l') \<rparr>))
                       (set_policy l (policy_of p)))
           | _ \<Rightarrow> Some (kXSchedSuccess, a))
         else (case FiniScheduler self sent a of None \<Rightarrow> None
           | Some (a1, _) \<Rightarrow>
               map_option (\<lambda>a2. (kXSchedSuccess, a2)) (InitScheduler self args sent st p a1)))"

text \<open>Events and hints go to the scheduler there is, or are dropped.\<close>

definition RelayEvent :: "bool \<Rightarrow> event \<Rightarrow> agent \<Rightarrow> agent option" where
  "RelayEvent sent ev a =
     (case ag_scheduler a of None \<Rightarrow> Some a
      | Some s \<Rightarrow> map_option (\<lambda>s'. a\<lparr> ag_scheduler := Some s' \<rparr>) (Scheduler_RecvEvent sent ev s))"

definition RelayHint :: "pid \<Rightarrow> bool \<Rightarrow> int \<Rightarrow> int \<Rightarrow> hint \<Rightarrow> agent \<Rightarrow> agent option" where
  "RelayHint self sent p1 p2 h a = RelayEvent sent (HintEvent_new self p1 p2 h) a"

section \<open>Hints of the C interface\<close>

text \<open>The result code, and the hint that is relayed.\<close>

definition for_xqueue :: "xhandle \<Rightarrow> hint \<Rightarrow> xsys \<Rightarrow> xresult \<times> hint option" where
  "for_xqueue xq h s =
     (if XQueueManager_Exists xq s \<noteq> kXSchedSuccess then (XQueueManager_Exists xq s, None)
      else (kXSchedSuccess, Some h))"

text \<open>A priority is also told to the admission of memory.\<close>

definition XHintPriority :: "xhandle \<Rightarrow> int \<Rightarrow> xsys \<Rightarrow> xresult \<times> hint option \<times> xsys" where
  "XHintPriority xq prio s =
     (case for_xqueue xq (PriorityHint xq prio) s of (r, h) \<Rightarrow>
        (r, h, if r \<noteq> kXSchedSuccess then s else s\<lparr> memory := SetQueuePriority xq prio (memory s) \<rparr>))"

definition XHintUtilization :: "pid \<Rightarrow> xhandle \<Rightarrow> int \<Rightarrow> xsys \<Rightarrow> xresult \<times> hint option" where
  "XHintUtilization self xq util s = for_xqueue xq (UtilizationHint self xq util) s"

definition XHintTimeslice :: "int \<Rightarrow> xresult \<times> hint option" where
  "XHintTimeslice ts = (kXSchedSuccess, Some (TimesliceHint ts))"

definition XHintLaxity :: "xhandle \<Rightarrow> int \<Rightarrow> int \<Rightarrow> int \<Rightarrow> xsys \<Rightarrow> xresult \<times> hint option" where
  "XHintLaxity xq lax lp cp s = for_xqueue xq (LaxityHint xq lax lp cp) s"

definition XHintDeadline :: "xhandle \<Rightarrow> int \<Rightarrow> xsys \<Rightarrow> xresult \<times> hint option" where
  "XHintDeadline xq ddl s = for_xqueue xq (DeadlineHint xq ddl) s"

definition XHintKDeadline :: "64 word \<Rightarrow> xresult \<times> hint option" where
  "XHintKDeadline k = (kXSchedSuccess, Some (KDeadlineHint k))"

definition XHintMemoryIntensity :: "xdevice \<Rightarrow> 64 word \<Rightarrow> xresult \<times> hint option" where
  "XHintMemoryIntensity d v = (kXSchedSuccess, Some (MemoryIntensityHint d v))"

section \<open>Creation and replacement\<close>

lemma policy_types_codes: "map xpolicy_code policy_types = [1..12]"
  by (simp add: policy_types_def upto.simps)

lemma policy_of_code: "t \<in> set policy_types \<Longrightarrow> policy_of (xpolicy_code t) = t"
  by (auto simp: policy_types_def policy_of_def)

lemma valid_policy_iff: "valid_policy p \<longleftrightarrow> p \<in> set (map xpolicy_code policy_types)"
  unfolding policy_types_codes by (auto simp: valid_policy_def)

lemma policy_of_valid: "valid_policy p \<Longrightarrow> policy_of p \<in> set policy_types \<and> xpolicy_code (policy_of p) = p"
  by (auto simp: valid_policy_iff policy_of_code)

lemma LocalScheduler_policy_of: "valid_policy p \<Longrightarrow> LocalScheduler (policy_of p) \<noteq> None"
  using policy_of_valid [of p] by (auto simp: policy_types_def)

lemma CreateScheduler_succeeds: "CreateScheduler st p \<noteq> None"
  using LocalScheduler_policy_of [of p] by (auto simp: CreateScheduler_def)

lemma CreateScheduler_type:
  "CreateScheduler st p = Some s \<Longrightarrow> GetType s =
    (if valid_policy p then kSchedulerTypeLocal
     else if st = kSchedulerTypeGlobal then kSchedulerTypeGlobal else kSchedulerTypeAppManaged)"
  by (auto simp: CreateScheduler_def split: if_splits)

lemma RecvEvent_type: "Scheduler_RecvEvent sent ev s = Some s' \<Longrightarrow> GetType s' = GetType s"
  by (cases s) (auto split: if_splits)

lemma RecvEvent_succeeds: "sent \<Longrightarrow> Scheduler_RecvEvent sent ev s \<noteq> None"
  by (cases s) auto

lemma ReplaceScheduler_success:
  assumes "ReplaceScheduler self args set_policy sent st p a = Some (kXSchedSuccess, a')"
  obtains s s' where "ag_scheduler a = Some s" "ag_scheduler a' = Some s'" "GetType s = st" "GetType s' = st"
  | s s0 s' where "ag_scheduler a = Some s" "ag_scheduler a' = Some s'" "GetType s \<noteq> st"
      "CreateScheduler st p = Some s0"
      "Scheduler_RecvEvent sent (ProcessCreateEvent_new self (kCmdline args)) s0 = Some s'"
proof -
  obtain s where s: "ag_scheduler a = Some s"
    using assms by (auto simp: ReplaceScheduler_def split: if_splits option.splits)
  show ?thesis
  proof (cases "GetType s = st")
    case True
    then have "\<exists>s'. ag_scheduler a' = Some s' \<and> GetType s' = st"
      using assms s by (cases s) (auto simp: ReplaceScheduler_def split: if_splits)
    then show ?thesis using that(1) s True by blast
  next
    case False
    then obtain a1 o' where f: "FiniScheduler self sent a = Some (a1, o')"
      "InitScheduler self args sent st p a1 = Some a'"
      using assms s by (auto simp: ReplaceScheduler_def split: if_splits option.splits)
    then have "ag_scheduler a1 = None" using s by (auto simp: FiniScheduler_def)
    then show ?thesis using that(2) f(2) s False by (auto simp: InitScheduler_def split: option.splits)
  qed
qed

section \<open>Properties\<close>

text \<open>A successful replacement leaves a scheduler, but the one that was asked for only if
  there already was one of its kind, or a policy was named exactly for a local one: a policy
  beside any other kind, and the lack of one beside the local kind, yield another scheduler.\<close>

theorem replacement_honours_request_iff:
  assumes "ReplaceScheduler self args set_policy sent st p a = Some (kXSchedSuccess, a')"
  shows "\<exists>s s'. ag_scheduler a = Some s \<and> ag_scheduler a' = Some s' \<and>
     (GetType s' = st \<longleftrightarrow> GetType s = st \<or> (valid_policy p \<longleftrightarrow> st = kSchedulerTypeLocal))"
  using assms
proof (cases rule: ReplaceScheduler_success)
  case (2 s s0 s')
  have "st \<noteq> kSchedulerTypeUnknown" "kSchedulerTypeUnknown < st \<and> st < kSchedulerTypeMax"
    using assms by (auto simp: ReplaceScheduler_def split: if_splits)
  moreover have "GetType s' = (if valid_policy p then 2 else if st = 3 then 3 else 1)"
    using CreateScheduler_type [OF 2(4)] RecvEvent_type [OF 2(5)] by simp
  ultimately show ?thesis using 2(1-3) by auto
qed auto

definition ex_agent :: agent where
  "ex_agent = \<lparr> ag_scheduler = Some AppManaged \<rparr>"

lemma ex_replace_global:
  "\<exists>a'. ReplaceScheduler 7 [] (\<lambda>l t. None) True kSchedulerTypeGlobal 1 ex_agent = Some (kXSchedSuccess, a')
     \<and> (\<exists>l. ag_scheduler a' = Some (Local l))"
  by (simp add: ReplaceScheduler_def ex_agent_def FiniScheduler_def InitScheduler_def CreateScheduler_def
      valid_policy_def policy_of_def policy_types_def)

theorem replacement_honours_request_iff_witness:
  "\<exists>a' s'. ReplaceScheduler 7 [] (\<lambda>l t. None) True kSchedulerTypeGlobal 1 ex_agent = Some (kXSchedSuccess, a')
     \<and> ag_scheduler a' = Some s' \<and> GetType s' \<noteq> kSchedulerTypeGlobal"
proof -
  obtain a' where a: "ReplaceScheduler 7 [] (\<lambda>l t. None) True kSchedulerTypeGlobal 1 ex_agent = Some (kXSchedSuccess, a')"
    using ex_replace_global by blast
  have "valid_policy 1" by (simp add: valid_policy_def)
  then show ?thesis using replacement_honours_request_iff [OF a] a by (auto simp: ex_agent_def)
qed

text \<open>A local scheduler that has just replaced another knows nothing of the XQueues that
  exist: one that becomes ready is entered with device 0 and an unknown level, whatever its
  device, so that the policies of a device see all of them on one.\<close>

theorem replacement_forgets_devices:
  assumes "ReplaceScheduler self args set_policy sent st p a = Some (kXSchedSuccess, a')"
    "ag_scheduler a = Some s" "GetType s \<noteq> st" "ag_scheduler a' = Some (Local l)"
  shows "\<exists>l1 l2 q. process_events self qproc env (ls_events l) (l\<lparr> ls_events := [] \<rparr>) = Some (l1, [], False)
     \<and> UpdateStatus self qproc e (XQueueReadyEvent self h us) l1 = Some (l2, [])
     \<and> xq_of (ls_status l2) h = Some q \<and> xs_ready q \<and> xs_device q = 0 \<and> xs_level q = kPreemptLevelUnknown"
  using assms(1)
proof (cases rule: ReplaceScheduler_success)
  case (2 s1 s0 s')
  then obtain pol where l: "l = RecvEvent (ProcessCreateEvent_new self (kCmdline args))
      \<lparr> ls_type = policy_of p, ls_policy = pol, ls_status = empty_status, ls_timers = [], ls_events = [] \<rparr>"
    using assms(4) by (auto simp: CreateScheduler_def split: if_splits)
  define l1 where "l1 = l\<lparr> ls_events := [], ls_status := on_process_create self
    (Cmdline (cmdline_array (kCmdline args))) empty_status \<rparr>"
  have p: "process_events self qproc env (ls_events l) (l\<lparr> ls_events := [] \<rparr>) = Some (l1, [], False)"
    by (simp add: l l1_def RecvEvent_def ProcessCreateEvent_new_def is_terminate_event_def is_ready_event_def)
  have "xq_of (ls_status l1) h = None"
    by (simp add: l1_def on_process_create_def empty_status_def split: option.split)
  then show ?thesis using p
    by (auto simp: on_xqueue_ready_def CreateXQueueStatus_xqueues)
qed (use assms(2,3) in simp)

theorem replacement_forgets_devices_witness:
  "\<exists>a' l l1 l2 q. ReplaceScheduler 7 [] (\<lambda>l t. None) True kSchedulerTypeLocal 1 ex_agent = Some (kXSchedSuccess, a')
     \<and> ag_scheduler a' = Some (Local l)
     \<and> process_events 7 (\<lambda>_. False) (\<lambda>_. ex_env) (ls_events l) (l\<lparr> ls_events := [] \<rparr>) = Some (l1, [], False)
     \<and> UpdateStatus 7 (\<lambda>_. False) ex_env (XQueueReadyEvent 7 9 5) l1 = Some (l2, [])
     \<and> xq_of (ls_status l2) 9 = Some q \<and> xs_device q = 0"
proof -
  obtain a' l where a: "ReplaceScheduler 7 [] (\<lambda>l t. None) True kSchedulerTypeLocal 1 ex_agent = Some (kXSchedSuccess, a')"
    "ag_scheduler a' = Some (Local l)"
    by (simp add: ReplaceScheduler_def ex_agent_def FiniScheduler_def InitScheduler_def CreateScheduler_def
        valid_policy_def policy_of_def policy_types_def)
  have "ag_scheduler ex_agent = Some AppManaged" "GetType AppManaged \<noteq> kSchedulerTypeLocal"
    by (simp_all add: ex_agent_def)
  from replacement_forgets_devices [OF a(1) this a(2), of "\<lambda>_. False" "\<lambda>_. ex_env" ex_env 9 5] a
  show ?thesis by blast
qed

end
