(* ===== verification/WireCorrect.thy ===== *)
theory WireCorrect
  imports Events Operations
begin

text \<open>
  The wire formats together: every hint, event and operation arrives as it was sent, whatever its
  padding was and whatever follows it in the receiver's buffer, and a receiver accepts nothing
  but what could have been sent.
\<close>

lemma wf_HintEvent_new: "in_signed 4 pd \<Longrightarrow> wf_event (HintEvent_new pd p1 p2 ht)"
proof -
  have "hint_size ht < 2 ^ 63" using hint_size_bounds(2) [of ht] by (rule le_less_trans) simp
  then show "in_signed 4 pd \<Longrightarrow> wf_event (HintEvent_new pd p1 p2 ht)" by (simp add: HintEvent_new_def)
qed

text \<open>C28: Messages survive the wire: a hint given by an application reaches the policy through the event
  that carries it, and every event and every operation is rebuilt by the receiver as it was.\<close>

theorem messages_survive_the_wire:
  assumes "wf_hint ht" "in_signed 4 pd" "wf_event ev" "wf_operation opn"
  shows "(\<exists>hb. event_copy (event_data pad (HintEvent_new pd p1 p2 ht) @ junk) = Inr (HintEvent pd hb)
             \<and> hint_copy hb = Inr ht)
       \<and> event_copy (event_data pad ev @ junk) = Inr ev
       \<and> operation_copy (operation_data pad opn @ junk) = Inr opn"
proof -
  have "hint_copy (hint_data p1 p2 ht) = Inr ht" using hint_copy_data [OF assms(1), of p1 p2 "[]"] by simp
  then show ?thesis
    using event_copy_data [OF wf_HintEvent_new [OF assms(2)]] event_copy_data [OF assms(3)]
      operation_copy_data [OF assms(4)] by (simp add: HintEvent_new_def)
qed

lemma messages_survive_the_wire_witness:
  "event_copy (event_data 7 (XQueueReadyEvent 3 5 (- 1)) @ [1, 2]) = Inr (XQueueReadyEvent 3 5 (- 1))"
  using messages_survive_the_wire [of "TimesliceHint 5" 3 "XQueueReadyEvent 3 5 (- 1)"
    "SchedOperation 3 1 1 [5, 6]" 7 0 0 "[1, 2]"] by simp

lemma event_copy_wf:
  assumes "event_copy bs = Inr ev" "length bs < 2 ^ 63"
  shows "wf_event ev"
  using assms
  by (auto simp: event_copy_def event_class_defs flds_Cons flds_Nil
      split: option.splits if_splits dest!: sx_range4 sx_range8)

text \<open>An event that is accepted is the one whose bytes are at the start of the buffer.\<close>

lemma HintEvent_bytes:
  assumes "HintEvent_read bs = Inr ev" "rd 0 4 bs = Some kEventHint"
  shows "\<exists>junk. bs = event_data pad ev @ junk"
proof -
  obtain pd sz where f: "rd 4 4 bs = Some pd" "rd 8 8 bs = Some sz" "sz \<le> int (length bs)" "16 \<le> sz"
    "ev = HintEvent (sx 4 pd) (drop 16 (take (nat sz) bs))"
    using assms(1) by (auto simp: HintEvent_read_def flds_Cons flds_Nil split: option.splits if_splits)
  then have l: "16 \<le> nat sz" "nat sz \<le> length bs" "16 + int (nat sz - 16) = sz" by auto
  have "bs = le_bytes 4 kEventHint @ le_bytes 4 pd @ le_bytes 8 sz @ drop 16 bs"
    using split_fields [of "[4, 4, 8]" bs] assms(2) f(1,2) l(1,2) by (simp add: rd_def)
  moreover have "drop 16 bs = drop 16 (take (nat sz) bs) @ drop (nat sz) bs"
    using l(1) by (metis append_take_drop_id drop_append le_add_diff_inverse drop_drop add.commute
        drop_take)
  moreover have "length (drop 16 (take (nat sz) bs)) = nat sz - 16" using l by simp
  ultimately show ?thesis using f(5) l(3)
    by (intro exI [of _ "drop (nat sz) bs"]) (simp add: HintEvent_data_def EventMeta_def)
qed

lemma ProcessCreateEvent_bytes:
  assumes "ProcessCreateEvent_read bs = Inr ev" "rd 0 4 bs = Some kEventProcessCreate"
  shows "\<exists>junk. bs = event_data pad ev @ junk"
proof -
  obtain pd where f: "rd 4 4 bs = Some pd" "264 \<le> length bs" "ev = ProcessCreateEvent (sx 4 pd) (take 256 (drop 8 bs))"
    using assms(1) by (auto simp: ProcessCreateEvent_read_def flds_Cons flds_Nil split: option.splits if_splits)
  have "bs = le_bytes 4 kEventProcessCreate @ le_bytes 4 pd @ drop 8 bs"
    using split_fields [of "[4, 4]" bs] assms(2) f(1) f(2) by (simp add: rd_def)
  moreover have "drop 8 bs = take 256 (drop 8 bs) @ drop 264 bs"
    using append_take_drop_id [of 256 "drop 8 bs"] by simp
  ultimately show ?thesis using f(3)
    by (intro exI [of _ "drop 264 bs"]) (simp add: ProcessCreateEvent_data_def EventMeta_def)
qed

lemma event_copy_bytes:
  assumes "event_copy bs = Inr ev"
  shows "\<exists>pad junk. bs = event_data pad ev @ junk"
proof -
  note S = split_fields [of "[4, 4]" bs] split_fields [of "[4, 4, 8]" bs] split_fields [of "[4, 4, 8, 8]" bs]
    split_fields [of "[4, 4, 8, 8, 4, 4, 8, 8]" bs]
  note D = event_class_defs flds_Cons flds_Nil rd_def
  from assms obtain t where t: "rd 0 4 bs = Some t" by (auto simp: event_copy_def split: option.splits)
  then have u: "t = le_uint (take 4 bs)" by (auto simp: rd_def split: if_splits)
  from assms t consider "t = 0" "HintEvent_read bs = Inr ev" | "t = 1" "SchedulerTerminateEvent_read bs = Inr ev"
    | "t = 2" "ProcessCreateEvent_read bs = Inr ev" | "t = 3" "ProcessDestroyEvent_read bs = Inr ev"
    | "t = 4" "XQueueCreateEvent_read bs = Inr ev" | "t = 5" "XQueueDestroyEvent_read bs = Inr ev"
    | "t = 6" "XQueueReadyEvent_read bs = Inr ev" | "t = 7" "XQueueIdleEvent_read bs = Inr ev"
    | "t = 8" "XQueueConfigUpdateEvent_read bs = Inr ev" | "t = 9" "XQueueQueryEvent_read bs = Inr ev"
    | "t = 10" "XQueueQueryAllEvent_read bs = Inr ev"
    by (auto simp: event_copy_def split: if_splits)
  then show ?thesis
  proof cases
    case 1 then show ?thesis using HintEvent_bytes t by blast
  next
    case 2 then show ?thesis using S(1) u by (auto simp: D split: if_splits; blast)
  next
    case 3 then show ?thesis using ProcessCreateEvent_bytes t by blast
  next
    case 4 then show ?thesis using S(1) u by (auto simp: D split: if_splits; blast)
  next
    case 5 then show ?thesis using S(4) u by (auto simp: D split: if_splits; blast)
  next
    case 6 then show ?thesis using S(2) u by (auto simp: D split: if_splits; blast)
  next
    case 7 then show ?thesis using S(3) u by (auto simp: D split: if_splits; blast)
  next
    case 8 then show ?thesis using S(2) u by (auto simp: D split: if_splits; blast)
  next
    case 9 then show ?thesis using S(4) u by (auto simp: D split: if_splits; blast)
  next
    case 10 then show ?thesis using S(3) u by (auto simp: D split: if_splits; blast)
  next
    case 11 then show ?thesis using S(2) u by (auto simp: D split: if_splits; blast)
  qed
qed

text \<open>C29: A receiver accepts a buffer as a hint or as an event exactly if the buffer starts with the bytes
  of that hint or event, with something in the padding, and its fields are in the ranges of
  their C types; what follows is not looked at. Whatever else arrives is rejected, or read
  beyond its end.\<close>

theorem accepted_iff_encoded:
  assumes "length bs < 2 ^ 63"
  shows "(hint_copy bs = Inr ht \<longleftrightarrow> wf_hint ht \<and> (\<exists>p1 p2 junk. bs = hint_data p1 p2 ht @ junk))
       \<and> (event_copy bs = Inr ev \<longleftrightarrow> wf_event ev \<and> (\<exists>pad junk. bs = event_data pad ev @ junk))"
  using hint_copy_wf [of bs ht] hint_copy_bytes [of bs ht] hint_copy_data [of ht]
    event_copy_wf [OF _ assms, of ev] event_copy_bytes [of bs ev] event_copy_data [of ev] by blast

text \<open>A priority of 5 for the XQueue 7, and the ready event of the XQueue 9 of process 3 at time 1.\<close>

lemma accepted_iff_encoded_witness:
  "(\<exists>p1 p2 junk. [1, 0, 0, 0, 8, 8, 8, 8, 7, 0, 0, 0, 0, 0, 0, 0, 5, 0, 0, 0, 6, 6, 6, 6, 2]
      = hint_data p1 p2 (PriorityHint 7 5) @ junk)
   \<and> (\<exists>pad junk. [6, 0, 0, 0, 3, 0, 0, 0, 9, 0, 0, 0, 0, 0, 0, 0, 1, 0, 0, 0, 0, 0, 0, 0]
      = event_data pad (XQueueReadyEvent 3 9 1) @ junk)"
proof -
  let ?h = "[1, 0, 0, 0, 8, 8, 8, 8, 7, 0, 0, 0, 0, 0, 0, 0, 5, 0, 0, 0, 6, 6, 6, 6, 2] :: bytes"
  let ?e = "[6, 0, 0, 0, 3, 0, 0, 0, 9, 0, 0, 0, 0, 0, 0, 0, 1, 0, 0, 0, 0, 0, 0, 0] :: bytes"
  have "hint_copy ?h = Inr (PriorityHint 7 5)" by code_simp
  moreover have "event_copy ?e = Inr (XQueueReadyEvent 3 9 1)" by code_simp
  moreover have "length ?h < 2 ^ 63" "length ?e < 2 ^ 63" by simp_all
  ultimately show ?thesis using accepted_iff_encoded [of ?h "PriorityHint 7 5"]
      accepted_iff_encoded [of ?e _ "XQueueReadyEvent 3 9 1"] by blast
qed

end
