(* ===== verification/AutoXQueue.thy ===== *)
theory AutoXQueue
  imports SchedAgent
begin

text \<open>
  The XQueues that are created with every hardware queue when the environment asks for it
  (\<^verbatim>\<open>AutoCreate\<close> and \<^verbatim>\<open>AutoDestroy\<close> in \<^verbatim>\<open>preempt/src/xqueue/xqueue.cpp\<close>). The call-back
  that creates the hardware queue is the argument \<open>create_hwq\<close>; the hints that are given on the
  way are a component of the result.
\<close>

section \<open>The environment\<close>

definition GetEnvInt64 :: "getenv \<Rightarrow> string \<Rightarrow> int option" where
  "GetEnvInt64 env name =
     (case env name of None \<Rightarrow> None | Some v \<Rightarrow> map_option fst (stoll v))"

definition auto_enabled :: "getenv \<Rightarrow> bool" where
  "auto_enabled env =
     (case env ''XSCHED_AUTO_XQUEUE'' of None \<Rightarrow> False
      | Some v \<Rightarrow> v \<noteq> [] \<and> v \<noteq> ''0'' \<and> map to_lower v \<noteq> ''off'')"

text \<open>The conversions to the enumeration, which has no negative constant, and to \<^verbatim>\<open>int32_t\<close>.\<close>

definition to_level :: "int \<Rightarrow> int" where
  "to_level v = v mod 2 ^ 32"

definition to_int32 :: "int \<Rightarrow> int" where
  "to_int32 v = sx 4 (v mod 2 ^ 32)"

definition auto_level :: "getenv \<Rightarrow> int" where
  "auto_level env = (case GetEnvInt64 env ''XSCHED_AUTO_XQUEUE_LEVEL'' of
     None \<Rightarrow> kPreemptLevelBlock | Some v \<Rightarrow> to_level v)"

definition auto_config :: "getenv \<Rightarrow> (int \<times> int) option" where
  "auto_config env =
     (case (GetEnvInt64 env ''XSCHED_AUTO_XQUEUE_THRESHOLD'', GetEnvInt64 env ''XSCHED_AUTO_XQUEUE_BATCH_SIZE'') of
        (None, None) \<Rightarrow> None
      | (t, n) \<Rightarrow> Some (case t of None \<Rightarrow> -1 | Some v \<Rightarrow> v, case n of None \<Rightarrow> -1 | Some v \<Rightarrow> v))"

section \<open>The hints\<close>

text \<open>One hint: the result code, the state and the hints given so far.\<close>

type_synonym hint_state = "xresult \<times> xsys \<times> hint list"

definition give :: "(xresult \<times> hint option) \<Rightarrow> hint_state \<Rightarrow> hint_state" where
  "give rh hs = (case rh of (r, h) \<Rightarrow> case hs of (_, s, l) \<Rightarrow>
     (r, s, l @ (case h of None \<Rightarrow> [] | Some x \<Rightarrow> [x])))"

definition auto_priority :: "getenv \<Rightarrow> int" where
  "auto_priority env = (case GetEnvInt64 env ''XSCHED_AUTO_XQUEUE_PRIORITY'' of
     None \<Rightarrow> PRIORITY_DEFAULT | Some v \<Rightarrow> v)"

definition auto_hint_priority :: "getenv \<Rightarrow> xhandle \<Rightarrow> hint_state \<Rightarrow> hint_state" where
  "auto_hint_priority env xq hs =
     (case GetEnvInt64 env ''XSCHED_AUTO_XQUEUE_PRIORITY'' of None \<Rightarrow> hs
      | Some v \<Rightarrow> (case hs of (_, s, l) \<Rightarrow>
          (case XHintPriority xq (to_int32 v) s of (r, h, s') \<Rightarrow> give (r, h) (r, s', l))))"

definition auto_hint :: "getenv \<Rightarrow> string \<Rightarrow> (int \<Rightarrow> xsys \<Rightarrow> xresult \<times> hint option) \<Rightarrow> hint_state \<Rightarrow> hint_state" where
  "auto_hint env name f hs =
     (case GetEnvInt64 env name of None \<Rightarrow> hs | Some v \<Rightarrow> give (f v (fst (snd hs))) hs)"

definition auto_hints :: "pid \<Rightarrow> getenv \<Rightarrow> xhandle \<Rightarrow> hint_state \<Rightarrow> hint_state" where
  "auto_hints self env xq hs =
     auto_hint env ''XSCHED_AUTO_XQUEUE_LAXITY''
       (\<lambda>v s. XHintLaxity xq v PRIORITY_DEFAULT (to_int32 (auto_priority env)) s)
     (auto_hint env ''XSCHED_AUTO_XQUEUE_KDEADLINE'' (\<lambda>v s. XHintKDeadline (word_of_int v))
     (auto_hint env ''XSCHED_AUTO_XQUEUE_DEADLINE'' (\<lambda>v s. XHintDeadline xq v s)
     (auto_hint env ''XSCHED_AUTO_XQUEUE_TIMESLICE'' (\<lambda>v s. XHintTimeslice v)
     (auto_hint env ''XSCHED_AUTO_XQUEUE_UTILIZATION'' (\<lambda>v s. XHintUtilization self xq (to_int32 v) s)
     (auto_hint_priority env xq hs)))))"

section \<open>The operations\<close>

definition XQueueManager_AutoCreate ::
  "waiting \<Rightarrow> pid \<Rightarrow> xhandle \<Rightarrow> (int \<Rightarrow> bool) \<Rightarrow> getenv \<Rightarrow> (xsys \<Rightarrow> (xresult \<times> hwq_handle \<times> xsys) option)
    \<Rightarrow> xsys \<Rightarrow> (xresult \<times> xsys \<times> hint list) option" where
  "XQueueManager_AutoCreate wait self new_h sy env create_hwq s =
     (if \<not> auto_enabled env then Some (kXSchedSuccess, s, [])
      else case create_hwq s of None \<Rightarrow> None
      | Some (r, hq, s1) \<Rightarrow>
         if r \<noteq> kXSchedSuccess then Some (r, s1, [])
         else (case XQueueManager_Add wait self new_h sy True hq (auto_level env) 0 s1 of None \<Rightarrow> None
           | Some (r1, xo, s2, _) \<Rightarrow>
              if r1 \<noteq> kXSchedSuccess then Some (r1, s2, [])
              else (let xq = (case xo of None \<Rightarrow> 0 | Some x \<Rightarrow> x) in
                case (case auto_config env of None \<Rightarrow> Some (r1, s2, [])
                      | Some (t, n) \<Rightarrow> XQueueSetLaunchConfig wait self xq t n s2) of None \<Rightarrow> None
                | Some (r2, s3, _) \<Rightarrow> Some (auto_hints self env xq (r2, s3, [])))))"

definition XQueueManager_AutoDestroy ::
  "waiting \<Rightarrow> getenv \<Rightarrow> hwq_handle \<Rightarrow> xsys \<Rightarrow> (xresult \<times> xsys) option" where
  "XQueueManager_AutoDestroy wait env h s =
     (if \<not> auto_enabled env then Some (kXSchedSuccess, s)
      else case HwQueueManager_GetXQueue h s of None \<Rightarrow> Some (kXSchedErrorNotFound, s)
      | Some x \<Rightarrow>
         (case XQueueManager_Del wait x s of None \<Rightarrow> None
          | Some (r, s1, _) \<Rightarrow>
             if r \<noteq> kXSchedSuccess then Some (r, s1) else Some (HwQueueManager_Del h s1)))"

section \<open>Creation keeps the registries consistent\<close>

lemma give_fields: "fst (snd (give rh hs)) = fst (snd hs)"
  by (simp add: give_def split: prod.split)

lemma memory_registered [simp]: "registered (s\<lparr> memory := m \<rparr>) = registered s"
  by (simp add: registered_def)

lemma XHintPriority_maps:
  "XHintPriority xq v s = (r, h, s') \<Longrightarrow> hwqs s' = hwqs s \<and> xqs s' = xqs s"
  by (auto simp: XHintPriority_def split: prod.splits)

lemma auto_hint_state: "fst (snd (auto_hint env name f hs)) = fst (snd hs)"
  by (simp add: auto_hint_def give_fields split: option.split)

lemma auto_hints_maps:
  "hwqs (fst (snd (auto_hints self env xq hs))) = hwqs (fst (snd hs))
   \<and> xqs (fst (snd (auto_hints self env xq hs))) = xqs (fst (snd hs))"
  by (auto simp: auto_hints_def auto_hint_state auto_hint_priority_def give_fields
      dest: XHintPriority_maps split: option.split prod.split)

lemma registered_cong:
  "hwqs s' = hwqs s \<Longrightarrow> xqs s' = xqs s \<Longrightarrow> registered s' = registered s"
  by (simp add: registered_def)

lemma XQueueSetLaunchConfig_maps:
  assumes "XQueueSetLaunchConfig wait self h t n s = Some (r, s', evs)"
  shows "hwqs s' = hwqs s \<and> (\<exists>f. xqs s' = (xqs s)(h := map_option (\<lambda>e. e\<lparr> xe_xq := f e \<rparr>) (xqs s h)))"
proof -
  have "(xqs s)(h := map_option (\<lambda>e. e\<lparr> xe_xq := xe_xq e \<rparr>) (xqs s h)) = xqs s"
    by (auto simp: fun_eq_iff option.map_id [unfolded id_def])
  then have "\<exists>f. xqs s = (xqs s)(h := map_option (\<lambda>e. e\<lparr> xe_xq := f e \<rparr>) (xqs s h))" by metis
  then show ?thesis using assms
    by (auto simp: XQueueSetLaunchConfig_def set_xq_def split: option.splits if_splits prod.splits)
qed

text \<open>A hardware queue that did not exist, with the handle and the environment it is created with.\<close>

definition create_new :: "hwq_handle \<Rightarrow> hwq_env \<Rightarrow> xsys \<Rightarrow> (xresult \<times> hwq_handle \<times> xsys) option" where
  "create_new h e s = map_option (\<lambda>(r, s'). (r, h, s')) (HwQueueManager_Add h (Some (h, e)) s)"

lemma AutoCreate_maps:
  assumes "XQueueManager_AutoCreate wait self nh sy env (create_new h e) s = Some (r, s', hs)"
    "auto_enabled env" "hwqs s h = None"
  obtains "hwqs s' = (hwqs s)(h \<mapsto> \<lparr> hq_env = e, hq_xq = None \<rparr>)" "xqs s' = xqs s" "r \<noteq> kXSchedSuccess"
  | x where "hwqs s' = (hwqs s)(h \<mapsto> \<lparr> hq_env = e, hq_xq = Some nh \<rparr>)"
      "xqs s' = (xqs s)(nh \<mapsto> \<lparr> xe_xq = x, xe_hwq = h \<rparr>)"
proof -
  define s1 where "s1 = s\<lparr> hwqs := (hwqs s)(h \<mapsto> \<lparr> hq_env = e, hq_xq = None \<rparr>) \<rparr>"
  have c: "create_new h e s = Some (kXSchedSuccess, h, s1)"
    using assms(3) by (simp add: create_new_def HwQueueManager_Add_def s1_def)
  obtain r1 xo s2 evs where add: "XQueueManager_Add wait self nh sy True h (auto_level env) 0 s1 = Some (r1, xo, s2, evs)"
    using assms(1,2) c by (auto simp: XQueueManager_AutoCreate_def split: option.splits)
  show ?thesis
  proof (cases "r1 = kXSchedSuccess")
    case False
    then have "s' = s2" "r = r1" "s2 = s1"
      using assms(1,2) c add
      by (auto simp: XQueueManager_AutoCreate_def XQueueManager_Add_def Let_def split: option.splits if_splits)
    then show ?thesis using that(1) False by (simp add: s1_def)
  next
    case True
    have "hwqs s1 h = Some \<lparr> hq_env = e, hq_xq = None \<rparr>" by (simp add: s1_def)
    then obtain x where s2: "xo = Some nh" "hwqs s2 = (hwqs s)(h \<mapsto> \<lparr> hq_env = e, hq_xq = Some nh \<rparr>)"
      "xqs s2 = (xqs s)(nh \<mapsto> \<lparr> xe_xq = x, xe_hwq = h \<rparr>)"
      using add True by (auto simp: XQueueManager_Add_def Let_def set_hq_xq_def s1_def split: option.splits if_splits)
    obtain r2 s3 evs2 where cfg: "(case auto_config env of None \<Rightarrow> Some (r1, s2, [])
        | Some (t, n) \<Rightarrow> XQueueSetLaunchConfig wait self nh t n s2) = Some (r2, s3, evs2)"
      and hints: "(r, s', hs) = auto_hints self env nh (r2, s3, [])"
      using assms(1,2) c add True s2(1)
      by (auto simp: XQueueManager_AutoCreate_def Let_def split: option.splits prod.splits)
    have "hwqs s3 = hwqs s2 \<and> (\<exists>x'. xqs s3 = (xqs s)(nh \<mapsto> \<lparr> xe_xq = x', xe_hwq = h \<rparr>))"
    proof (cases "auto_config env")
      case None
      then show ?thesis using cfg s2 by auto
    next
      case (Some tn)
      then obtain t n where "XQueueSetLaunchConfig wait self nh t n s2 = Some (r2, s3, evs2)"
        using cfg by (auto split: prod.splits)
      from XQueueSetLaunchConfig_maps [OF this] s2 show ?thesis by auto
    qed
    moreover have "hwqs s' = hwqs s3" "xqs s' = xqs s3"
      using auto_hints_maps [of self env nh "(r2, s3, [])"] hints by (metis fst_conv snd_conv)+
    ultimately show ?thesis using that(2) s2(2) by auto
  qed
qed

section \<open>Properties\<close>

text \<open>What is destroyed automatically is what was created: afterwards the registries of hardware
  queues and XQueues are as they were before the creation.\<close>

theorem auto_destroy_undoes_auto_create:
  assumes "XQueueManager_AutoCreate wait self nh sy env (create_new h e) s = Some (r, s1, hs)"
    "auto_enabled env" "hwqs s h = None" "xqs s nh = None"
    "XQueueManager_AutoDestroy wait' env h s1 = Some (kXSchedSuccess, s2)"
  shows "hwqs s2 = hwqs s \<and> xqs s2 = xqs s"
  using assms(1-3)
proof (cases rule: AutoCreate_maps)
  case 1
  then show ?thesis using assms(2,5)
    by (simp add: XQueueManager_AutoDestroy_def HwQueueManager_GetXQueue_def)
next
  case (2 x)
  have "HwQueueManager_GetXQueue h s1 = Some nh" using 2 by (simp add: HwQueueManager_GetXQueue_def)
  then obtain s3 y where d: "XQueueManager_Del wait' nh s1 = Some (kXSchedSuccess, s3, y)"
    "HwQueueManager_Del h s3 = (kXSchedSuccess, s2)"
    using assms(2,5) by (auto simp: XQueueManager_AutoDestroy_def split: option.splits if_splits)
  then have "hwqs s3 = (hwqs s)(h \<mapsto> \<lparr> hq_env = e, hq_xq = None \<rparr>)" "xqs s3 = (xqs s1)(nh := None)"
    using 2 by (auto simp: XQueueManager_Del_def Let_def set_hq_xq_def split: option.splits)
  moreover have "hwqs s2 = (hwqs s3)(h := None)" "xqs s2 = xqs s3"
    using d(2) by (auto simp: HwQueueManager_Del_def split: option.splits if_splits)
  ultimately show ?thesis using 2 assms(3,4) by (auto simp: fun_eq_iff)
qed

text \<open>A threshold below 8 ends the process if no batch size is set beside it, although every
  value from 1 is documented to be valid: the assertion compares it with the default batch size.\<close>

theorem small_auto_threshold_ends_process:
  assumes "auto_enabled env" "hwqs s h = None" "1 \<le> auto_level env" "auto_level env \<le> 3"
    "GetEnvInt64 env ''XSCHED_AUTO_XQUEUE_THRESHOLD'' = Some t" "0 < t" "t < 8"
    "GetEnvInt64 env ''XSCHED_AUTO_XQUEUE_BATCH_SIZE'' = None"
    and wait: "\<And>x c. batch_size (ax_lw (wait x c)) = batch_size (ax_lw x)"
  shows "XQueueManager_AutoCreate wait self nh sy env (create_new h e) s = None"
proof (rule ccontr)
  assume "XQueueManager_AutoCreate wait self nh sy env (create_new h e) s \<noteq> None"
  define s1 where "s1 = s\<lparr> hwqs := (hwqs s)(h \<mapsto> \<lparr> hq_env = e, hq_xq = None \<rparr>) \<rparr>"
  have c: "create_new h e s = Some (kXSchedSuccess, h, s1)"
    using assms(2) by (simp add: create_new_def HwQueueManager_Add_def s1_def)
  obtain x c' evs where b: "AsyncXQueue_begin self e (auto_level env) 16 8 nh sy = Some (x, c', evs)"
    "batch_size (ax_lw x) = 8"
    using assms(3,4)
    by (simp add: AsyncXQueue_begin_def CommandBuffer_new_eq LaunchWorker_new_def SubmitWaitAll_def
      EnqueueXQueueWaitAllCommand_def)
  have "auto_config env = Some (t, -1)" using assms(5,8) by (simp add: auto_config_def)
  moreover have "XQueueManager_Add wait self nh sy True h (auto_level env) 0 s1
    = (if \<not> hq_accepts_level e (auto_level env) then None
       else Some (kXSchedSuccess, Some nh, (set_hq_xq h (Some nh) s1)
        \<lparr> xqs := (xqs s1)(nh \<mapsto> \<lparr> xe_xq = wait x c', xe_hwq = h \<rparr>) \<rparr>,
        evs @ snd (AsyncXQueue_end self (wait x c'))))"
    using assms(3,4) b(1) by (simp add: XQueueManager_Add_def s1_def Let_def)
  moreover have "GetFeatures y 4 \<noteq> 0" for y by (simp add: GetFeatures_def ax_features_def)
  ultimately show False
    using \<open>XQueueManager_AutoCreate _ _ _ _ _ _ _ \<noteq> None\<close> assms(1,6,7) c b(2) wait [of x c']
    by (auto simp: XQueueManager_AutoCreate_def Let_def XQueueSetLaunchConfig_def
        AsyncXQueue_SetLaunchConfig_begin_def launch_config_def split: if_splits)
qed

definition ex_auto_env :: "string \<Rightarrow> getenv" where
  "ex_auto_env t = (\<lambda>n. if n = ''XSCHED_AUTO_XQUEUE'' then Some ''ON''
     else if n = ''XSCHED_AUTO_XQUEUE_THRESHOLD'' then Some t else None)"

lemma small_auto_threshold_ends_process_witness:
  "XQueueManager_AutoCreate ex_wait 7 9 (\<lambda>_. False) (ex_auto_env ''4'') (create_new 5 ex_hwq) xsys_empty = None"
proof (rule small_auto_threshold_ends_process)
  show "GetEnvInt64 (ex_auto_env ''4'') ''XSCHED_AUTO_XQUEUE_THRESHOLD'' = Some 4"
    "1 \<le> auto_level (ex_auto_env ''4'')" "auto_level (ex_auto_env ''4'') \<le> 3"
    "auto_enabled (ex_auto_env ''4'')" by code_simp+
qed (simp_all add: ex_auto_env_def GetEnvInt64_def ex_wait_def xsys_empty_def)

lemma auto_destroy_undoes_auto_create_witness:
  "\<exists>r s1 hs s2. XQueueManager_AutoCreate ex_wait 7 9 (\<lambda>_. False) (ex_auto_env ''20'') (create_new 5 ex_hwq)
       xsys_empty = Some (r, s1, hs) \<and> xqs s1 9 \<noteq> None
     \<and> XQueueManager_AutoDestroy ex_wait (ex_auto_env ''20'') 5 s1 = Some (kXSchedSuccess, s2)
     \<and> hwqs s2 = hwqs xsys_empty \<and> xqs s2 = xqs xsys_empty"
proof -
  let ?c = "XQueueManager_AutoCreate ex_wait 7 9 (\<lambda>_. False) (ex_auto_env ''20'') (create_new 5 ex_hwq) xsys_empty"
  have "map_option (\<lambda>(r, s1, hs). (xqs s1 9 = None,
      map_option fst (XQueueManager_AutoDestroy ex_wait (ex_auto_env ''20'') 5 s1))) ?c
    = Some (False, Some kXSchedSuccess)" by code_simp
  then obtain r s1 hs s2 where c: "?c = Some (r, s1, hs)" "xqs s1 9 \<noteq> None"
    "XQueueManager_AutoDestroy ex_wait (ex_auto_env ''20'') 5 s1 = Some (kXSchedSuccess, s2)"
    by auto
  have "auto_enabled (ex_auto_env ''20'')" by code_simp
  from auto_destroy_undoes_auto_create [OF c(1) this _ _ c(3)] c show ?thesis by (simp add: xsys_empty_def)
qed

end
