(* ===== verification/Server.thy ===== *)
theory Server
  imports SchedCorrect WireCorrect
begin

text \<open>
  The scheduling server (\<^verbatim>\<open>service/server/src/server.cpp\<close>) without its HTTP interface: it relays
  the events of the client processes to a local scheduler, keeps a channel to every client, and
  watches for their exit (\<^verbatim>\<open>PidWaiter\<close>, \<^verbatim>\<open>utils/src/waitpid.cpp\<close>). A run is a sequence of
  steps: a message received, the exit of a watched process, a pass of the scheduler's worker.
  Sending to a client is the list of what was sent, with whether it succeeds as a parameter;
  \<open>None\<close> is a failed assertion.
\<close>

record server =
  sv_sched :: lsched
  sv_chans :: "pid list"
    \<comment> \<open>the keys of \<^verbatim>\<open>client_chans_\<close>\<close>
  sv_pid_fds :: "(pid \<times> int) list"
    \<comment> \<open>the descriptors of the watched processes, \<^verbatim>\<open>pid_fds_\<close> of the waiter\<close>
  sv_epoll :: "(int \<times> pid) list"
    \<comment> \<open>the descriptors that are in its \<^verbatim>\<open>epoll_fd_\<close>, each with the data of its events\<close>
  sv_running :: bool

section \<open>Operations\<close>

definition Server_new :: "string \<Rightarrow> server option" where
  "Server_new policy_name =
     (let t = GetPolicyType policy_name in
      if t = kPolicyUnknown then None
      else map_option (\<lambda>l. \<lparr> sv_sched = l, sv_chans = [], sv_pid_fds = [], sv_epoll = [], sv_running = True \<rparr>)
             (LocalScheduler t))"

definition relay :: "event \<Rightarrow> server \<Rightarrow> server" where
  "relay ev s = s\<lparr> sv_sched := RecvEvent ev (sv_sched s) \<rparr>"

definition CleanUpProcess :: "pid \<Rightarrow> server \<Rightarrow> server" where
  "CleanUpProcess pd s = s\<lparr> sv_chans := removeAll pd (sv_chans s) \<rparr>"

definition ProcessTerminate :: "pid \<Rightarrow> server \<Rightarrow> server" where
  "ProcessTerminate pd s = CleanUpProcess pd (relay (ProcessDestroyEvent pd) s)"

text \<open>\<^verbatim>\<open>PidFdWaiter::AddWait\<close>: a process that has already exited (\<open>None\<close>) is reported at
  once; otherwise its new descriptor takes the place of an older one in the table, but both
  are in the epoll set.\<close>

definition AddWait :: "int option \<Rightarrow> pid \<Rightarrow> server \<Rightarrow> server" where
  "AddWait pid_fd pd s =
     (case pid_fd of None \<Rightarrow> ProcessTerminate pd s
      | Some fd \<Rightarrow> s\<lparr> sv_pid_fds := AList.update pd fd (sv_pid_fds s), sv_epoll := (fd, pd) # sv_epoll s \<rparr>)"

text \<open>\<^verbatim>\<open>PidFdWaiter::WaitWorker\<close>: a descriptor of process \<open>pd\<close> becomes readable, which means
  that it has exited. The descriptor that is removed and closed is the one of the table.\<close>

definition WaitWorker :: "pid \<Rightarrow> server \<Rightarrow> server option" where
  "WaitWorker pd s =
     (case map_of (sv_pid_fds s) pd of None \<Rightarrow> None
      | Some fd \<Rightarrow> Some (ProcessTerminate pd
          (s\<lparr> sv_pid_fds := AList.delete pd (sv_pid_fds s), sv_epoll := AList.delete fd (sv_epoll s) \<rparr>)))"

text \<open>The call-back for an operation, given whether \<^verbatim>\<open>Send\<close> over the client's channel succeeds.\<close>

definition Server_Execute :: "bool \<Rightarrow> pid list \<Rightarrow> operation \<Rightarrow> (pid \<times> operation) list option" where
  "Server_Execute sent chans opn =
     (if op_pid opn \<notin> set chans then Some []
      else if sent then Some [(op_pid opn, opn)] else None)"

text \<open>What the scheduler puts out in one pass, as far as it goes to clients; \<open>sends\<close> tells for every
  operation of the pass whether sending it succeeds.\<close>

fun sent_of :: "(nat \<Rightarrow> bool) \<Rightarrow> pid list \<Rightarrow> sched_output list \<Rightarrow> (pid \<times> operation) list option" where
  "sent_of sends chans [] = Some []"
| "sent_of sends chans (Operation opn # out) =
     (case Server_Execute (sends 0) chans opn of None \<Rightarrow> None
      | Some a \<Rightarrow> map_option ((@) a) (sent_of (\<lambda>i. sends (Suc i)) chans out))"
| "sent_of sends chans (Answer a qs ps # out) = sent_of sends chans out"

definition SendHint :: "pid \<Rightarrow> int \<Rightarrow> int \<Rightarrow> hint \<Rightarrow> server \<Rightarrow> server" where
  "SendHint self p1 p2 h s = relay (HintEvent_new self p1 p2 h) s"

text \<open>One turn of \<^verbatim>\<open>RecvWorker\<close>; a channel that is closed stands for a terminate event.\<close>

definition RecvWorker ::
  "(nat \<Rightarrow> bool) \<Rightarrow> pid \<Rightarrow> (64 word \<Rightarrow> bool) \<Rightarrow> (nat \<Rightarrow> sched_env) \<Rightarrow> sched_env \<Rightarrow> time_ns \<Rightarrow> int option \<Rightarrow> bytes option \<Rightarrow> server
    \<Rightarrow> (server \<times> (pid \<times> operation) list) option" where
  "RecvWorker sends self qproc env e now pid_fd data s =
     (case (case data of None \<Rightarrow> Inr (SchedulerTerminateEvent self) | Some bs \<Rightarrow> event_copy bs) of
        Inl _ \<Rightarrow> None
      | Inr ev \<Rightarrow>
          (case ev of
             SchedulerTerminateEvent _ \<Rightarrow>
               (case Stop self qproc env e now (sv_sched s) of None \<Rightarrow> None
                | Some (l, out) \<Rightarrow>
                    map_option (Pair (s\<lparr> sv_sched := l, sv_chans := [], sv_running := False \<rparr>))
                      (sent_of sends (sv_chans s) out))
           | ProcessCreateEvent pd _ \<Rightarrow>
               (let s1 = ProcessTerminate pd s;
                    s2 = s1\<lparr> sv_chans := List.insert pd (sv_chans s1) \<rparr>;
                    s3 = AddWait pid_fd pd s2 in
                Some (relay ev s3, []))
           | ProcessDestroyEvent pd \<Rightarrow> Some (CleanUpProcess pd (relay ev s), [])
           | _ \<Rightarrow> Some (relay ev s, [])))"

text \<open>A pass of the scheduler.\<close>

definition sched_pass ::
  "(nat \<Rightarrow> bool) \<Rightarrow> pid \<Rightarrow> (64 word \<Rightarrow> bool) \<Rightarrow> (nat \<Rightarrow> sched_env) \<Rightarrow> sched_env \<Rightarrow> time_ns \<Rightarrow> server
    \<Rightarrow> (server \<times> (pid \<times> operation) list) option" where
  "sched_pass sends self qproc env e now s =
     (case Worker self qproc env e now (sv_sched s) of None \<Rightarrow> None
      | Some (l, out, _) \<Rightarrow> map_option (Pair (s\<lparr> sv_sched := l \<rparr>)) (sent_of sends (sv_chans s) out))"

section \<open>The server as a transition system\<close>

definition fresh_fd :: "int option \<Rightarrow> server \<Rightarrow> bool" where
  "fresh_fd pid_fd s \<longleftrightarrow> (case pid_fd of None \<Rightarrow> True | Some fd \<Rightarrow> fd \<notin> fst ` set (sv_epoll s))"

inductive sv_step :: "pid \<Rightarrow> server \<Rightarrow> (pid \<times> operation) list \<Rightarrow> server \<Rightarrow> bool" for self :: pid where
  message: "sv_running s \<Longrightarrow> (\<And>n. env_ok (env n)) \<Longrightarrow> env_ok e
    \<Longrightarrow> fresh_fd pid_fd s \<Longrightarrow> RecvWorker sends self qproc env e now pid_fd data s = Some (s', out)
    \<Longrightarrow> sv_step self s out s'"
| exit: "sv_running s \<Longrightarrow> (fd, pd) \<in> set (sv_epoll s) \<Longrightarrow> WaitWorker pd s = Some s' \<Longrightarrow> sv_step self s [] s'"
| pass: "sv_running s \<Longrightarrow> wait_ends now (sv_sched s) \<Longrightarrow> (\<And>n. env_ok (env n)) \<Longrightarrow> env_ok e
    \<Longrightarrow> sched_pass sends self qproc env e now s = Some (s', out) \<Longrightarrow> sv_step self s out s'"
| posted: "sv_running s \<Longrightarrow> sv_step self s [] (SendHint self p1 p2 h s)"
| new_policy: "sv_running s \<Longrightarrow> (\<And>n. env_ok (env n)) \<Longrightarrow> env_ok e
    \<Longrightarrow> SetPolicy self qproc env e now t (sv_sched s) = Some (l, out) \<Longrightarrow> sent_of sends (sv_chans s) out = Some out'
    \<Longrightarrow> sv_step self s out' (s\<lparr> sv_sched := l \<rparr>)"

inductive_cases sv_stepE: "sv_step self s out s'"

inductive sv_reachable :: "pid \<Rightarrow> server \<Rightarrow> bool" for self :: pid where
  start: "Server_new name = Some s \<Longrightarrow> sv_reachable self s"
| step: "sv_reachable self s \<Longrightarrow> sv_step self s out s' \<Longrightarrow> sv_reachable self s'"

section \<open>Every open channel is watched\<close>

lemmas sv_defs = relay_def CleanUpProcess_def ProcessTerminate_def AddWait_def WaitWorker_def SendHint_def

definition sv_inv :: "server \<Rightarrow> bool" where
  "sv_inv s \<longleftrightarrow> set (sv_chans s) \<subseteq> dom (map_of (sv_pid_fds s)) \<and> distinct (map fst (sv_epoll s))
     \<and> (\<forall>pd fd. map_of (sv_pid_fds s) pd = Some fd \<longrightarrow> (fd, pd) \<in> set (sv_epoll s)) \<and> ls_inv (sv_sched s)"

lemma RecvEvent_inv [simp]: "ls_inv (RecvEvent ev s) = ls_inv s"
  by (simp add: ls_inv_def RecvEvent_def)

lemma Stop_inv:
  assumes "\<And>n. env_ok (env n)" "env_ok e" "ls_inv s" "Stop self qproc env e now s = Some (s', out)"
  shows "ls_inv s'"
proof -
  obtain s1 b where "Worker self qproc env e now (RecvEvent (SchedulerTerminateEvent self) s) = Some (s1, out, b)"
    "s' = s1\<lparr> ls_timers := [] \<rparr>"
    using assms(4) by (auto simp: Stop_def)
  moreover have "ls_inv (RecvEvent (SchedulerTerminateEvent self) s)" using assms(3) by simp
  ultimately have "ls_inv s1" "s' = s1\<lparr> ls_timers := [] \<rparr>"
    using Worker_inv(1) [where env = env, OF assms(1,2)] by blast+
  then show ?thesis by (simp add: ls_inv_def)
qed

lemma RecvWorker_inv:
  assumes "\<And>n. env_ok (env n)" "env_ok e" "sv_inv s"
    "RecvWorker sends self qproc env e now pid_fd data s = Some (s', out)" "fresh_fd pid_fd s"
  shows "sv_inv s'"
proof -
  have i: "set (sv_chans s) \<subseteq> dom (map_of (sv_pid_fds s))" "distinct (map fst (sv_epoll s))"
    "\<And>pd fd. map_of (sv_pid_fds s) pd = Some fd \<Longrightarrow> (fd, pd) \<in> set (sv_epoll s)" "ls_inv (sv_sched s)"
    using assms(3) by (simp_all add: sv_inv_def)
  obtain ev where ev: "(case data of None \<Rightarrow> Inr (SchedulerTerminateEvent self) | Some bs \<Rightarrow> event_copy bs) = Inr ev"
    using assms(4) by (auto simp: RecvWorker_def split: sum.splits)
  show ?thesis
  proof (cases ev)
    case (SchedulerTerminateEvent pd)
    then obtain l out1 where "Stop self qproc env e now (sv_sched s) = Some (l, out1)"
      "s' = s\<lparr> sv_sched := l, sv_chans := [], sv_running := False \<rparr>"
      using assms(4) ev by (auto simp: RecvWorker_def split: option.splits)
    moreover have "ls_inv l" by (rule Stop_inv [where env = env, OF assms(1,2) i(4)]) (rule calculation(1))
    ultimately show ?thesis using i by (simp add: sv_inv_def)
  next
    case (ProcessCreateEvent pd arr)
    then have "s' = relay ev (AddWait pid_fd pd ((ProcessTerminate pd s)\<lparr> sv_chans := List.insert pd (sv_chans (ProcessTerminate pd s)) \<rparr>))"
      using assms(4) ev by (simp add: RecvWorker_def Let_def)
    then show ?thesis using i assms(5) by (cases pid_fd) (auto simp: sv_inv_def sv_defs fresh_fd_def)
  qed (use assms(4) ev i in \<open>auto simp: RecvWorker_def sv_inv_def sv_defs\<close>)
qed

lemma mem_delete: "(k, v) \<in> set (AList.delete k' xs) \<longleftrightarrow> k \<noteq> k' \<and> (k, v) \<in> set xs"
  by (auto simp: AList.delete_eq)

lemma WaitWorker_inv:
  assumes "sv_inv s" "WaitWorker pd s = Some s'"
  shows "sv_inv s'"
proof -
  obtain fd where fd: "map_of (sv_pid_fds s) pd = Some fd" using assms(2) by (auto simp: WaitWorker_def split: option.splits)
  have i: "set (sv_chans s) \<subseteq> dom (map_of (sv_pid_fds s))" "distinct (map fst (sv_epoll s))"
    "\<And>pd fd. map_of (sv_pid_fds s) pd = Some fd \<Longrightarrow> (fd, pd) \<in> set (sv_epoll s)" "ls_inv (sv_sched s)"
    using assms(1) by (simp_all add: sv_inv_def)
  have other: "fd' \<noteq> fd" if H: "map_of (sv_pid_fds s) pd' = Some fd'" "pd' \<noteq> pd" for fd' pd'
    using i(2) i(3) [OF H(1)] i(3) [OF fd] H(2) by (metis eq_key_imp_eq_value)
  have "distinct (map fst (AList.delete fd (sv_epoll s)))" by (rule AList.distinct_delete [OF i(2)])
  then show ?thesis using assms(2) fd i other by (auto simp: sv_inv_def sv_defs mem_delete split: if_splits)
qed

lemma sv_step_inv: "sv_step self s out s' \<Longrightarrow> sv_inv s \<Longrightarrow> sv_inv s'"
proof (erule sv_stepE)
  fix sends env e qproc now pid_fd data
  assume "sv_inv s" "\<And>n. env_ok (env n)" "env_ok e" "RecvWorker sends self qproc env e now pid_fd data s = Some (s', out)" "fresh_fd pid_fd s"
  then show ?thesis using RecvWorker_inv by blast
next
  fix pd assume "sv_inv s" "WaitWorker pd s = Some s'"
  then show ?thesis by (rule WaitWorker_inv)
next
  fix sends now env e qproc
  assume "sv_inv s" "\<And>n. env_ok (env n)" "env_ok e" "sched_pass sends self qproc env e now s = Some (s', out)"
  then obtain l out1 b where "Worker self qproc env e now (sv_sched s) = Some (l, out1, b)" "s' = s\<lparr> sv_sched := l \<rparr>"
    "ls_inv (sv_sched s)" by (auto simp: sched_pass_def sv_inv_def split: option.splits)
  moreover from this have "ls_inv l"
    using Worker_inv(1) [where env = env] \<open>\<And>n. env_ok (env n)\<close> \<open>env_ok e\<close> by blast
  ultimately show ?thesis using \<open>sv_inv s\<close> by (simp add: sv_inv_def)
next
  fix p1 p2 h assume "sv_inv s" "s' = SendHint self p1 p2 h s"
  then show ?thesis by (auto simp: sv_inv_def sv_defs)
next
  fix sends env e qproc now t l out1 out2
  assume "sv_inv s" "\<And>n. env_ok (env n)" "env_ok e" "SetPolicy self qproc env e now t (sv_sched s) = Some (l, out1)"
    "s' = s\<lparr> sv_sched := l \<rparr>"
  moreover from this have "ls_inv l" using SetPolicy_inv [where env = env] by (auto simp: sv_inv_def)
  ultimately show ?thesis by (simp add: sv_inv_def)
qed

lemma Server_new_inv: "Server_new name = Some s \<Longrightarrow> sv_inv s"
  using LocalScheduler_inv by (auto simp: Server_new_def Let_def sv_inv_def split: if_splits simp del: LocalScheduler.simps)

lemma sv_reachable_inv: "sv_reachable self s \<Longrightarrow> sv_inv s"
  by (induction rule: sv_reachable.induct) (auto intro: Server_new_inv sv_step_inv)

section \<open>Exit of a client\<close>

text \<open>The last event of a batch is handled in the state that the others leave.\<close>

lemma process_events_snoc:
  assumes "process_events self qproc env (evs @ [ev]) s = Some (s', out, b)"
    "\<not> is_terminate_event ev" "\<not> is_ready_event ev" "\<And>n. env_ok (env n)" "ls_inv s"
  obtains e s1 out1 where "UpdateStatus self qproc e ev s1 = Some (s', out1)" "ls_inv s1"
proof -
  have "\<exists>e s1 out1. UpdateStatus self qproc e ev s1 = Some (s', out1) \<and> ls_inv s1"
    using assms
  proof (induction evs arbitrary: env s out b)
    case Nil
    then show ?case by (auto split: option.splits)
  next
    case (Cons ev0 evs)
    show ?case
    proof (cases "is_terminate_event ev0")
      case True
      then obtain out1 b1 where "process_events self qproc env (evs @ [ev]) s = Some (s', out1, b1)"
        using Cons.prems(1) by auto
      then show ?thesis using Cons.IH Cons.prems(2-5) by blast
    next
      case False
      then obtain s1 out1 s2 out2 out3 where u: "UpdateStatus self qproc (env 0) ev0 s = Some (s1, out1)"
        and r: "(if is_ready_event ev0 then Reschedule (env 1) s1 else Some (s1, [])) = Some (s2, out2)"
        and p: "process_events self qproc (\<lambda>n. env (n + 2)) (evs @ [ev]) s2 = Some (s', out3, b)"
        using Cons.prems(1) by (auto split: option.splits)
      have "ls_inv s1" using UpdateStatus_inv [OF Cons.prems(4,5) u] .
      then have "ls_inv s2" using r Reschedule_inv(1) [OF Cons.prems(4)] by (auto split: if_splits)
      then show ?thesis using Cons.IH [OF p] Cons.prems(2-4) by blast
    qed
  qed
  then show ?thesis using that by blast
qed

lemma Worker_snoc:
  assumes "Worker self qproc env e now (RecvEvent ev s) = Some (l, out, b)"
    "\<not> is_terminate_event ev" "\<not> is_ready_event ev" "\<And>n. env_ok (env n)" "ls_inv s"
  obtains e' s1 s2 out1 s3 out2 where "UpdateStatus self qproc e' ev s1 = Some (s2, out1)" "ls_inv s1"
    "ls_inv s2" "Reschedule e s2 = Some (s3, out2)" "ls_status l = ls_status s3"
proof -
  let ?s = "(RecvEvent ev s)\<lparr> ls_events := [] \<rparr>"
  have d: "drop_expired now (s\<lparr> ls_events := ls_events s @ [ev] \<rparr>) = s\<lparr> ls_events := ls_events s @ [ev] \<rparr>"
    by (simp add: drop_expired_def)
  obtain s2 out1 t s3 out2 where p: "process_events self qproc env (ls_events s @ [ev]) ?s = Some (s2, out1, t)"
    "Reschedule e s2 = Some (s3, out2)" "l = s3\<lparr> ls_timers := sort (ls_timers s3) \<rparr>"
    using assms(1) by (auto simp: Worker_def Let_def d RecvEvent_def split: option.splits)
  have i: "ls_inv ?s" using assms(5) by (simp add: ls_inv_def RecvEvent_def)
  obtain e' s1 out3 where u: "UpdateStatus self qproc e' ev s1 = Some (s2, out3)" "ls_inv s1"
    by (rule process_events_snoc [OF p(1) assms(2,3) assms(4) i])
  have "ls_inv s2" by (rule process_events_inv [where env = env, OF assms(4) i p(1)])
  then show ?thesis using that [OF u _ p(2)] p(3) by simp
qed

lemma Reschedule_lookup:
  assumes "Reschedule e s = Some (s', out)"
  shows "proc_of (ls_status s') k = None \<longleftrightarrow> proc_of (ls_status s) k = None"
    and "xq_of (ls_status s') h = Some q' \<Longrightarrow> \<exists>q. xq_of (ls_status s) h = Some q \<and> xs_pid q = xs_pid q'
      \<and> xs_ready q = xs_ready q' \<and> xs_device q = xs_device q'"
proof -
  obtain pol st ts where r: "policy_run policy_Sched e (ls_policy s) (ls_status s, ls_timers s) = Some (pol, st, ts)"
    "s' = s\<lparr> ls_policy := pol, ls_status := st, ls_timers := ts \<rparr>"
    using assms(1) by (auto simp: Reschedule_def split: option.splits)
  obtain acts where a: "st = fst (run_actions acts (ls_status s, ls_timers s))"
    using policy_runE [OF r(1)] by metis
  have "fst ` set (st_procs st) = fst ` set (st_procs (ls_status s))"
    unfolding a by (metis run_actions_keys(2) list.set_map)
  then show "proc_of (ls_status s') k = None \<longleftrightarrow> proc_of (ls_status s) k = None"
    using r(2) by (simp add: map_of_eq_None_iff)
  assume "xq_of (ls_status s') h = Some q'"
  then have "xq_of st h = Some q'" using r(2) by simp
  then show "\<exists>q. xq_of (ls_status s) h = Some q \<and> xs_pid q = xs_pid q' \<and> xs_ready q = xs_ready q'
      \<and> xs_device q = xs_device q'"
    unfolding a by (elim run_actions_cases) auto
qed

lemma sent_of_append:
  assumes "sent_of sends c (xs @ ys) = Some a"
  obtains sends' a2 a1 where "sent_of sends' c ys = Some a2" "a = a1 @ a2"
proof -
  have "\<exists>sends' a2 a1. sent_of sends' c ys = Some a2 \<and> a = a1 @ a2"
    using assms
  proof (induction sends c xs arbitrary: a rule: sent_of.induct)
    case (1 sends c)
    then show ?case by auto
  next
    case (2 sends c opn out)
    then obtain a0 a' where "Server_Execute (sends 0) c opn = Some a0" "a = a0 @ a'"
      "sent_of (\<lambda>i. sends (Suc i)) c (out @ ys) = Some a'" by (auto split: option.splits)
    then show ?case using "2.IH" by (metis append.assoc)
  qed auto
  then show ?thesis using that by blast
qed

lemma sent_of_mem:
  "sent_of sends c xs = Some a \<Longrightarrow> Operation opn \<in> set xs \<Longrightarrow> op_pid opn \<in> set c \<Longrightarrow> (op_pid opn, opn) \<in> set a"
  by (induction sends c xs arbitrary: a rule: sent_of.induct)
    (auto simp: Server_Execute_def split: option.splits if_splits)

section \<open>Properties\<close>

text \<open>In every reachable state each process with an open channel is watched through the descriptor
  of the table, so that its exit is noticed, and the tables of the scheduler are consistent.\<close>

theorem open_channels_are_watched:
  assumes "sv_reachable self s"
  shows "(\<forall>pd\<in>set (sv_chans s). \<exists>fd. map_of (sv_pid_fds s) pd = Some fd \<and> (fd, pd) \<in> set (sv_epoll s))
     \<and> wf_status (ls_status (sv_sched s))"
  using sv_reachable_inv [OF assms] by (auto simp: sv_inv_def ls_inv_def dom_def)

text \<open>C33: When a watched process exits, the next pass of the scheduler removes the process and all its
  XQueues, whatever events were still waiting, and its channel is closed.\<close>

theorem exit_removes_process:
  assumes "sv_reachable self s" "WaitWorker pd s = Some s'" "\<forall>n. env_ok (env n)" "env_ok e"
    "Worker self qproc env e now (sv_sched s') = Some (l, out, b)"
  shows "pd \<notin> set (sv_chans s') \<and> proc_of (ls_status l) pd = None
     \<and> (\<forall>h q. xq_of (ls_status l) h = Some q \<longrightarrow> xs_pid q \<noteq> pd)"
proof -
  have i: "ls_inv (sv_sched s)" using sv_reachable_inv [OF assms(1)] by (simp add: sv_inv_def)
  have "sv_sched s' = RecvEvent (ProcessDestroyEvent pd) (sv_sched s)"
    using assms(2) by (auto simp: sv_defs split: option.splits)
  then have w: "Worker self qproc env e now (RecvEvent (ProcessDestroyEvent pd) (sv_sched s)) = Some (l, out, b)"
    using assms(5) by simp
  obtain e' s1 s2 out1 s3 out2 where u: "UpdateStatus self qproc e' (ProcessDestroyEvent pd) s1 = Some (s2, out1)"
    "ls_inv s1" "ls_inv s2" "Reschedule e s2 = Some (s3, out2)" "ls_status l = ls_status s3"
    by (rule Worker_snoc [OF w]) (use assms(3) i in \<open>auto simp: is_terminate_event_def is_ready_event_def\<close>)
  have st: "ls_status s2 = on_process_destroy pd (ls_status s1)" using u(1) by auto
  note L = on_process_destroy_lookup [of "ls_status s1" pd]
  have wf: "wf_status (ls_status s1)" using u(2) by (simp add: ls_inv_def)
  have "proc_of (ls_status s2) pd = None" unfolding st by (simp add: L(2) [OF wf])
  then have "proc_of (ls_status l) pd = None" using Reschedule_lookup(1) [OF u(4)] u(5) by simp
  moreover have "xs_pid q \<noteq> pd" if H: "xq_of (ls_status l) h = Some q" for h q
  proof -
    obtain q0 where "xq_of (ls_status s2) h = Some q0" "xs_pid q0 = xs_pid q"
      using Reschedule_lookup(2) [OF u(4), of h q] u(5) H by auto
    then show ?thesis unfolding st L(1) [OF wf] by (auto split: option.splits if_splits)
  qed
  moreover have "pd \<notin> set (sv_chans s')" using assms(2) by (auto simp: sv_defs split: option.splits)
  ultimately show ?thesis by blast
qed

text \<open>A client that has exited before it is watched is never removed: the report of its exit is
  queued before the event that creates it, so the next pass enters it into the table, although
  it has no channel and nobody watches it.\<close>

theorem client_dead_on_arrival_stays:
  assumes "sv_reachable self s" "event_copy bs = Inr (ProcessCreateEvent pd arr)"
    "pd \<notin> fst ` set (sv_pid_fds s)" "RecvWorker sends self qproc env e now None (Some bs) s = Some (s', out)"
    "\<forall>n. env_ok (env' n)" "env_ok e'"
    "Worker self qproc env' e' now' (sv_sched s') = Some (l, out', b)"
  shows "proc_of (ls_status l) pd \<noteq> None \<and> pd \<notin> set (sv_chans s') \<and> pd \<notin> fst ` set (sv_pid_fds s')"
proof -
  define l0 where "l0 = RecvEvent (ProcessDestroyEvent pd) (RecvEvent (ProcessDestroyEvent pd) (sv_sched s))"
  have i: "ls_inv l0" using sv_reachable_inv [OF assms(1)] by (simp add: sv_inv_def l0_def)
  have s': "sv_sched s' = RecvEvent (ProcessCreateEvent pd arr) l0" "pd \<notin> set (sv_chans s')" "sv_pid_fds s' = sv_pid_fds s"
    using assms(2,4) by (auto simp: RecvWorker_def Let_def sv_defs l0_def)
  have w: "Worker self qproc env' e' now' (RecvEvent (ProcessCreateEvent pd arr) l0) = Some (l, out', b)"
    using assms(7) s'(1) by simp
  obtain e1 s1 s2 out1 s3 out2 where u: "UpdateStatus self qproc e1 (ProcessCreateEvent pd arr) s1 = Some (s2, out1)"
    "ls_inv s1" "ls_inv s2" "Reschedule e' s2 = Some (s3, out2)" "ls_status l = ls_status s3"
    by (rule Worker_snoc [OF w]) (use assms(5) i in \<open>auto simp: is_terminate_event_def is_ready_event_def\<close>)
  have st: "ls_status s2 = on_process_create pd (Cmdline arr) (ls_status s1)" using u(1) by auto
  have "proc_of (ls_status s2) pd \<noteq> None"
    unfolding st by (auto simp: on_process_create_def map_of_map_entry_upd split: option.split)
  then have "proc_of (ls_status l) pd \<noteq> None" using Reschedule_lookup(1) [OF u(4)] u(5) by simp
  then show ?thesis using s' assms(3) by simp
qed

text \<open>C34: Every connected process hears the outcome of a pass: the operation that holds the decision
  for all its XQueues goes over its channel, as the last one of the pass.\<close>

theorem connected_clients_hear_decision:
  assumes "sv_reachable self s" "\<forall>n. env_ok (env n)" "env_ok e"
    "sched_pass sends self qproc env e now s = Some (s', out)" "pd \<in> set (sv_chans s)"
    "proc_of (ls_status (sv_sched s')) pd = Some ps" "ps_running ps @ ps_suspended ps \<noteq> []"
  shows "\<exists>out1 out2 sends'. out = out1 @ out2
     \<and> sent_of sends' (sv_chans s) (ExecuteOperations (ls_status (sv_sched s'))) = Some out2
     \<and> (pd, SchedOperation_of ps) \<in> set out2"
proof -
  have i: "ls_inv (sv_sched s)" using sv_reachable_inv [OF assms(1)] by (simp add: sv_inv_def)
  obtain l out0 b where w: "Worker self qproc env e now (sv_sched s) = Some (l, out0, b)"
    "s' = s\<lparr> sv_sched := l \<rparr>" "sent_of sends (sv_chans s) out0 = Some out"
    using assms(4) by (auto simp: sched_pass_def split: option.splits)
  note W = Worker_inv [where env = env, OF _ assms(3) i w(1)]
  obtain out1 where o: "out0 = out1 @ ExecuteOperations (ls_status l)" using W(2) assms(2) by blast
  obtain sends' a2 a1 where a: "sent_of sends' (sv_chans s) (ExecuteOperations (ls_status l)) = Some a2" "out = a1 @ a2"
    by (rule sent_of_append [OF w(3) [unfolded o]])
  have "ls_inv l" using W(1) assms(2) by blast
  then have "pi_pid (ps_info ps) = pd"
    using wf_status_proc [of "ls_status l" pd ps] assms(6) w(2) by (simp add: ls_inv_def wf_proc_def)
  then have p: "op_pid (SchedOperation_of ps) = pd" by (simp add: SchedOperation_of_def)
  have "(pd, ps) \<in> set (st_procs (ls_status l))" using assms(6) w(2) by (auto dest: map_of_SomeD)
  then have "Operation (SchedOperation_of ps) \<in> set (ExecuteOperations (ls_status l))"
    using assms(7) by (force simp: ExecuteOperations_def)
  then have "(pd, SchedOperation_of ps) \<in> set a2"
    using sent_of_mem [OF a(1), of "SchedOperation_of ps"] assms(5) p by simp
  then show ?thesis using a w(2) by auto
qed

text \<open>A process that connects once more while it is watched, as a client does that replaces its
  scheduler and comes back, leaves its first descriptor in the epoll set. When it exits both
  become readable: the first turn of the waiter takes the entry out of the table, and for the
  second the assertion that there is one fails.\<close>

theorem reconnection_aborts_waiter:
  assumes "sv_reachable self s" "pd \<in> fst ` set (sv_pid_fds s)" "fresh_fd (Some fd) s"
    "event_copy bs = Inr (ProcessCreateEvent pd arr)"
    "RecvWorker sends self qproc env e now (Some fd) (Some bs) s = Some (s1, out)"
  shows "\<exists>s2 fd0. WaitWorker pd s1 = Some s2 \<and> (fd0, pd) \<in> set (sv_epoll s2) \<and> WaitWorker pd s2 = None"
proof -
  have i: "distinct (map fst (sv_epoll s))"
    "\<And>pd fd. map_of (sv_pid_fds s) pd = Some fd \<Longrightarrow> (fd, pd) \<in> set (sv_epoll s)"
    using sv_reachable_inv [OF assms(1)] by (simp_all add: sv_inv_def)
  obtain fd0 where fd0: "map_of (sv_pid_fds s) pd = Some fd0"
    using assms(2) by (metis domD dom_map_of_conv_image_fst)
  have e: "(fd0, pd) \<in> set (sv_epoll s)" using i(2) [OF fd0] .
  then have ne: "fd0 \<noteq> fd" using assms(3) by (force simp: fresh_fd_def)
  have s1: "sv_pid_fds s1 = AList.update pd fd (sv_pid_fds s)" "sv_epoll s1 = (fd, pd) # sv_epoll s"
    using assms(4,5) by (auto simp: RecvWorker_def Let_def sv_defs)
  obtain s2 where s2: "WaitWorker pd s1 = Some s2" "sv_epoll s2 = AList.delete fd (sv_epoll s1)"
    "sv_pid_fds s2 = AList.delete pd (sv_pid_fds s1)"
    using s1 by (simp add: sv_defs)
  have "(fd0, pd) \<in> set (sv_epoll s2)" using e ne by (simp add: s2(2) s1(2) mem_delete)
  moreover have "WaitWorker pd s2 = None" by (simp add: s2(3) WaitWorker_def)
  ultimately show ?thesis using s2(1) by blast
qed

text \<open>Without that every readable descriptor is the one of the table, and the waiter goes on.\<close>

definition watched_once :: "server \<Rightarrow> bool" where
  "watched_once s \<longleftrightarrow> (\<forall>(fd, pd) \<in> set (sv_epoll s). map_of (sv_pid_fds s) pd = Some fd)"

lemma watched_onceD: "watched_once s \<Longrightarrow> (fd, pd) \<in> set (sv_epoll s) \<Longrightarrow> map_of (sv_pid_fds s) pd = Some fd"
  by (auto simp: watched_once_def)

lemma watched_once_goes_on:
  assumes "watched_once s" "(fd, pd) \<in> set (sv_epoll s)"
  obtains s' where "WaitWorker pd s = Some s'" "watched_once s'"
proof -
  note t = watched_onceD [OF assms(1)]
  obtain s' where s': "WaitWorker pd s = Some s'" "sv_pid_fds s' = AList.delete pd (sv_pid_fds s)"
    "sv_epoll s' = AList.delete fd (sv_epoll s)"
    using t [OF assms(2)] by (simp add: sv_defs)
  have "map_of (sv_pid_fds s') pd' = Some fd'" if H: "(fd', pd') \<in> set (sv_epoll s')" for fd' pd'
    using t [OF assms(2)] t [of fd' pd'] H by (auto simp: s' mem_delete)
  then show ?thesis using that s'(1) by (auto simp: watched_once_def)
qed

lemma watched_once_AddWait:
  "watched_once s \<Longrightarrow> pd \<notin> snd ` set (sv_epoll s) \<Longrightarrow> watched_once (AddWait pid_fd pd s)"
  by (cases pid_fd) (auto simp: watched_once_def sv_defs, force)

section \<open>Examples\<close>

definition ex_message :: "event \<Rightarrow> bytes option" where
  "ex_message ev = Some (event_data 0 ev)"

definition ex_recv :: "int option \<Rightarrow> event \<Rightarrow> server \<Rightarrow> server" where
  "ex_recv pid_fd ev s =
     (case RecvWorker (\<lambda>_. True) 1 (\<lambda>_. False) (\<lambda>_. ex_env) ex_env 0 pid_fd (ex_message ev) s of
        Some (s', _) \<Rightarrow> s' | None \<Rightarrow> s)"

definition ex_pass :: "server \<Rightarrow> server" where
  "ex_pass s = (case sched_pass (\<lambda>_. True) 1 (\<lambda>_. False) (\<lambda>_. ex_env) ex_env 0 s of Some (s', _) \<Rightarrow> s' | None \<Rightarrow> s)"

definition ex_server :: server where
  "ex_server = the (Server_new ''HPF'')"

definition ex_created :: event where
  "ex_created = ProcessCreateEvent 10 (cmdline_array ''a'')"

text \<open>Its last events can outlive a client: an XQueue of process 10 becomes ready, the process is
  killed, its exit is handled at once and the event only then. The XQueue comes back ready,
  with nobody to remove it, and under HPF suspends that of process 20, whose priority is lower.\<close>

lemma late_event_revives_client:
  "let s0 = SendHint 1 0 0 (PriorityHint 8 (- 1))
        (ex_recv None (XQueueReadyEvent 20 8 5) (ex_recv None (XQueueCreateEvent 20 8 0 1 16 8)
        (ex_recv (Some 4) (ProcessCreateEvent 20 (cmdline_array ''b''))
        (ex_recv None (XQueueCreateEvent 10 7 0 1 16 8) (ex_recv (Some 3) ex_created ex_server)))));
      s = ex_pass (ex_recv None (XQueueReadyEvent 10 7 5) (the (WaitWorker 10 s0))) in
   map_option xs_ready (xq_of (ls_status (sv_sched s)) 7) = Some True
   \<and> map_option xs_suspended (xq_of (ls_status (sv_sched s)) 8) = Some True
   \<and> sv_chans s = [20] \<and> sv_pid_fds s = [(20, 4)]"
  by code_simp

lemma ex_server_reachable: "sv_reachable 1 ex_server" "sv_running ex_server"
proof -
  have "map_option sv_running (Server_new ''HPF'') = Some True" by code_simp
  then obtain s where s: "Server_new ''HPF'' = Some s" "sv_running s" by auto
  then show "sv_reachable 1 ex_server" "sv_running ex_server"
    using sv_reachable.start by (simp_all add: ex_server_def)
qed

lemma ex_recv_reachable:
  assumes "sv_reachable 1 s" "sv_running s" "fresh_fd pid_fd s"
  shows "sv_reachable 1 (ex_recv pid_fd ev s)"
proof (cases "RecvWorker (\<lambda>_. True) 1 (\<lambda>_. False) (\<lambda>_. ex_env) ex_env 0 pid_fd (ex_message ev) s")
  case None
  then show ?thesis using assms(1) by (simp add: ex_recv_def)
next
  case (Some p)
  then obtain s' out where r: "RecvWorker (\<lambda>_. True) 1 (\<lambda>_. False) (\<lambda>_. ex_env) ex_env 0 pid_fd (ex_message ev) s = Some (s', out)"
    by (cases p) auto
  have "sv_step 1 s out s'"
    by (rule sv_step.message [where env = "\<lambda>_. ex_env" and e = ex_env, OF assms(2) _ _ assms(3) r]) simp_all
  then show ?thesis using sv_reachable.step [OF assms(1)] r by (simp add: ex_recv_def)
qed

lemma ex_step:
  assumes "RecvWorker (\<lambda>_. True) 1 (\<lambda>_. False) (\<lambda>_. ex_env) ex_env 0 pid_fd (ex_message ev) ex_server \<noteq> None"
  shows "RecvWorker (\<lambda>_. True) 1 (\<lambda>_. False) (\<lambda>_. ex_env) ex_env 0 pid_fd (ex_message ev) ex_server
    = Some (ex_recv pid_fd ev ex_server,
        snd (the (RecvWorker (\<lambda>_. True) 1 (\<lambda>_. False) (\<lambda>_. ex_env) ex_env 0 pid_fd (ex_message ev) ex_server)))"
  using assms by (auto simp: ex_recv_def)

abbreviation ex_connected :: server where
  "ex_connected \<equiv> ex_recv (Some 3) ex_created ex_server"

lemma ex_connected_fields:
  "sv_reachable 1 ex_connected"
  "sv_chans ex_connected = [10] \<and> sv_pid_fds ex_connected = [(10, 3)] \<and> sv_epoll ex_connected = [(3, 10)]"
  "sv_running ex_connected"
proof -
  have "sv_epoll ex_server = []" by code_simp
  then show "sv_reachable 1 ex_connected"
    using ex_recv_reachable ex_server_reachable by (simp add: fresh_fd_def)
qed code_simp+

lemma open_channels_are_watched_witness:
  "sv_chans ex_connected = [10] \<and> (\<exists>fd. map_of (sv_pid_fds ex_connected) 10 = Some fd \<and> (fd, 10) \<in> set (sv_epoll ex_connected))"
  using open_channels_are_watched [OF ex_connected_fields(1)] ex_connected_fields(2) by auto

lemma exit_removes_process_witness:
  "\<exists>s' l out b. WaitWorker 10 ex_connected = Some s'
     \<and> Worker 1 (\<lambda>_. False) (\<lambda>_. ex_env) ex_env 0 (sv_sched s') = Some (l, out, b)
     \<and> proc_of (ls_status l) 10 = None"
proof -
  have "map_option (\<lambda>s'. Worker 1 (\<lambda>_. False) (\<lambda>_. ex_env) ex_env 0 (sv_sched s') = None) (WaitWorker 10 ex_connected)
    = Some False" by code_simp
  then obtain s' l out b where w: "WaitWorker 10 ex_connected = Some s'"
    "Worker 1 (\<lambda>_. False) (\<lambda>_. ex_env) ex_env 0 (sv_sched s') = Some (l, out, b)"
    by auto
  from exit_removes_process [OF ex_connected_fields(1) w(1) _ _ w(2)] w show ?thesis by auto
qed

lemma ex_created_copy: "event_copy (event_data 0 ex_created) = Inr (ProcessCreateEvent 10 (cmdline_array ''a''))"
  using event_copy_data [of ex_created 0 "[]"] by (simp add: ex_created_def)

lemma client_dead_on_arrival_stays_witness:
  "\<exists>l out b. Worker 1 (\<lambda>_. False) (\<lambda>_. ex_env) ex_env 0 (sv_sched (ex_recv None ex_created ex_server)) = Some (l, out, b)
     \<and> proc_of (ls_status l) 10 \<noteq> None"
proof -
  let ?s = "ex_recv None ex_created ex_server"
  have r: "RecvWorker (\<lambda>_. True) 1 (\<lambda>_. False) (\<lambda>_. ex_env) ex_env 0 None (Some (event_data 0 ex_created)) ex_server
    = Some (?s, snd (the (RecvWorker (\<lambda>_. True) 1 (\<lambda>_. False) (\<lambda>_. ex_env) ex_env 0 None (ex_message ex_created) ex_server)))"
    unfolding ex_message_def [symmetric] by (rule ex_step) code_simp
  have "Worker 1 (\<lambda>_. False) (\<lambda>_. ex_env) ex_env 0 (sv_sched ?s) \<noteq> None" by code_simp
  then obtain l out b where w: "Worker 1 (\<lambda>_. False) (\<lambda>_. ex_env) ex_env 0 (sv_sched ?s) = Some (l, out, b)" by auto
  moreover have "10 \<notin> fst ` set (sv_pid_fds ex_server)" by code_simp
  ultimately show ?thesis
    using client_dead_on_arrival_stays [OF ex_server_reachable(1) ex_created_copy _ r _ _ w] w by auto
qed

lemma reconnection_aborts_waiter_witness:
  "\<exists>s1 out s2 fd0. RecvWorker (\<lambda>_. True) 1 (\<lambda>_. False) (\<lambda>_. ex_env) ex_env 0 (Some 4) (ex_message ex_created) ex_connected = Some (s1, out)
     \<and> WaitWorker 10 s1 = Some s2 \<and> (fd0, 10) \<in> set (sv_epoll s2) \<and> WaitWorker 10 s2 = None"
proof -
  have "RecvWorker (\<lambda>_. True) 1 (\<lambda>_. False) (\<lambda>_. ex_env) ex_env 0 (Some 4) (ex_message ex_created) ex_connected \<noteq> None"
    by code_simp
  then obtain s1 out where r: "RecvWorker (\<lambda>_. True) 1 (\<lambda>_. False) (\<lambda>_. ex_env) ex_env 0 (Some 4) (ex_message ex_created) ex_connected = Some (s1, out)"
    by auto
  have "10 \<in> fst ` set (sv_pid_fds ex_connected)" "fresh_fd (Some 4) ex_connected"
    using ex_connected_fields(2) by (simp_all add: fresh_fd_def)
  then show ?thesis
    using reconnection_aborts_waiter [OF ex_connected_fields(1) _ _ ex_created_copy r [unfolded ex_message_def]] r by blast
qed

lemma connected_clients_hear_decision_witness:
  "\<exists>s' out ps. sched_pass (\<lambda>_. True) 1 (\<lambda>_. False) (\<lambda>_. ex_env) ex_env 0
       (ex_recv None (XQueueCreateEvent 10 7 0 1 16 8) ex_connected) = Some (s', out)
     \<and> (10, SchedOperation_of ps) \<in> set out \<and> ps_running ps = [7]"
proof -
  let ?s = "ex_recv None (XQueueCreateEvent 10 7 0 1 16 8) ex_connected"
  have "map_option (\<lambda>(s', out). map_option ps_running (proc_of (ls_status (sv_sched s')) 10))
      (sched_pass (\<lambda>_. True) 1 (\<lambda>_. False) (\<lambda>_. ex_env) ex_env 0 ?s) = Some (Some [7])" by code_simp
  then obtain s' out ps where p: "sched_pass (\<lambda>_. True) 1 (\<lambda>_. False) (\<lambda>_. ex_env) ex_env 0 ?s = Some (s', out)"
    "proc_of (ls_status (sv_sched s')) 10 = Some ps" "ps_running ps = [7]" by auto
  have "sv_reachable 1 ?s" using ex_recv_reachable ex_connected_fields by (simp add: fresh_fd_def)
  moreover have c: "sv_chans ?s = [10]" by code_simp
  moreover have "10 \<in> set (sv_chans ?s)" using c by simp
  ultimately show ?thesis
    using connected_clients_hear_decision [of 1 ?s "\<lambda>_. ex_env" ex_env "\<lambda>_. True" "\<lambda>_. False" 0 s' out 10 ps] p by auto
qed

end
