(* ===== verification/HttpServer.thy ===== *)
theory HttpServer
  imports Server Numbers
begin

text \<open>
  The HTTP interface of the scheduling server (\<^verbatim>\<open>service/server/src/server.cpp\<close>,
  \<^verbatim>\<open>service/common/src/convert.cpp\<close>). The JSON library is third-party code: a record of the
  functions that are called on it, with the laws of its documentation in \<open>json_ok\<close>. So is the
  HTTP library, which hands a handler the parts of the URL. A handler returns its reply and
  what it makes the server do; an exception of a conversion leaves it (\<open>Raised\<close>) and becomes an
  error of the HTTP library. A value of a C enum is an integer here.
\<close>

section \<open>JSON\<close>

text \<open>A conversion that throws is \<open>None\<close>.\<close>

record ('j, 't) json =
  js_object :: "(string \<times> 'j) list \<Rightarrow> 'j"
  js_array :: "'j list \<Rightarrow> 'j"
  js_int :: "int \<Rightarrow> 'j"
  js_int64 :: "int \<Rightarrow> 'j"
  js_uint64 :: "64 word \<Rightarrow> 'j"
  js_bool :: "bool \<Rightarrow> 'j"
  js_string :: "string \<Rightarrow> 'j"
  js_is_object :: "'j \<Rightarrow> bool"
  js_is_null :: "'j \<Rightarrow> bool"
  js_member :: "'j \<Rightarrow> string \<Rightarrow> 'j option"
  js_items :: "'j \<Rightarrow> 'j list"
  as_int :: "'j \<Rightarrow> int option"
  as_int64 :: "'j \<Rightarrow> int option"
  as_uint64 :: "'j \<Rightarrow> 64 word option"
  as_bool :: "'j \<Rightarrow> bool option"
  as_string :: "'j \<Rightarrow> string option"
  as_double :: "'j \<Rightarrow> 64 word option"
    \<comment> \<open>the bits of the double\<close>
  js_write :: "'j \<Rightarrow> 't"
  js_parse :: "'t \<Rightarrow> 'j option"
  js_text :: "string \<Rightarrow> 't"

definition json_ok :: "('j, 't) json \<Rightarrow> bool" where
  "json_ok J \<longleftrightarrow>
     (\<forall>ms. js_is_object J (js_object J ms)) \<and> (\<forall>ms k. js_member J (js_object J ms) k = map_of ms k)
     \<and> (\<forall>xs. js_items J (js_array J xs) = xs)
     \<and> (\<forall>n. in_signed 4 n \<longrightarrow> as_int J (js_int J n) = Some n)
     \<and> (\<forall>n. in_signed 8 n \<longrightarrow> as_int64 J (js_int64 J n) = Some n)
     \<and> (\<forall>n. 0 \<le> n \<and> n < 2 ^ 63 \<longrightarrow> as_uint64 J (js_int64 J n) = Some (word_of_int n))
     \<and> (\<forall>w. as_uint64 J (js_uint64 J w) = Some w) \<and> (\<forall>b. as_bool J (js_bool J b) = Some b)
     \<and> (\<forall>s. as_string J (js_string J s) = Some s) \<and> (\<forall>j. js_parse J (js_write J j) = Some j)"

lemma json_laws:
  assumes "json_ok J"
  shows "js_is_object J (js_object J ms)" "js_member J (js_object J ms) k = map_of ms k"
    "js_items J (js_array J xs) = xs" "in_signed 4 n \<Longrightarrow> as_int J (js_int J n) = Some n"
    "in_signed 8 n \<Longrightarrow> as_int64 J (js_int64 J n) = Some n"
    "0 \<le> n \<Longrightarrow> n < 2 ^ 63 \<Longrightarrow> as_uint64 J (js_int64 J n) = Some (word_of_int n)"
    "as_uint64 J (js_uint64 J w) = Some w" "as_bool J (js_bool J b) = Some b"
    "as_string J (js_string J s) = Some s" "js_parse J (js_write J j) = Some j"
  using assms by (simp_all add: json_ok_def)

text \<open>A member that may be missing, with the value it then has.\<close>

definition opt_member :: "('j, 't) json \<Rightarrow> 'j \<Rightarrow> string \<Rightarrow> ('j \<Rightarrow> 'a option) \<Rightarrow> 'a \<Rightarrow> 'a option" where
  "opt_member J j k conv d = (case js_member J j k of None \<Rightarrow> Some d | Some v \<Rightarrow> conv v)"

definition XQueueStatusToJson :: "('j, 't) json \<Rightarrow> xqueue_status \<Rightarrow> 'j" where
  "XQueueStatusToJson J q = js_object J
     [(''handle'', js_uint64 J (xs_handle q)), (''device'', js_uint64 J (xs_device q)),
      (''level'', js_int J (xs_level q)), (''pid'', js_int J (xs_pid q)),
      (''threshold'', js_int64 J (xs_threshold q)), (''batch_size'', js_int64 J (xs_batch_size q)),
      (''ready'', js_bool J (xs_ready q)), (''suspended'', js_bool J (xs_suspended q))]"

text \<open>Everything but \<^verbatim>\<open>ready_time\<close> is set; the members of what is not an object cannot be asked for.\<close>

definition JsonToXQueueStatus :: "('j, 't) json \<Rightarrow> xqueue_status \<Rightarrow> 'j \<Rightarrow> xqueue_status option" where
  "JsonToXQueueStatus J q j =
     (if \<not> js_is_object J j then None
      else case (opt_member J j ''handle'' (as_uint64 J) 0, opt_member J j ''device'' (as_uint64 J) 0,
                 opt_member J j ''level'' (as_int J) kPreemptLevelUnknown, opt_member J j ''pid'' (as_int J) 0) of
        (Some h, Some d, Some lv, Some pd) \<Rightarrow>
          (case (opt_member J j ''threshold'' (as_int64 J) (- 1), opt_member J j ''batch_size'' (as_int64 J) (- 1),
                 opt_member J j ''ready'' (as_bool J) False, opt_member J j ''suspended'' (as_bool J) False) of
             (Some t, Some n, Some r, Some su) \<Rightarrow>
               Some (q\<lparr> xs_handle := h, xs_device := d, xs_level := lv, xs_pid := pd, xs_threshold := t,
                       xs_batch_size := n, xs_ready := r, xs_suspended := su \<rparr>)
           | _ \<Rightarrow> None)
      | _ \<Rightarrow> None)"

section \<open>Requests and replies\<close>

record http_request =
  rq_handle :: string
    \<comment> \<open>the path parameter \<^verbatim>\<open>:handle\<close>\<close>
  rq_params :: "string \<Rightarrow> string option"

datatype 't reply = Reply (rp_status: int) (rp_body: 't) | Raised

abbreviation (input) OK_200 :: int where "OK_200 \<equiv> 200"
abbreviation (input) BadRequest_400 :: int where "BadRequest_400 \<equiv> 400"
abbreviation (input) NotFound_404 :: int where "NotFound_404 \<equiv> 404"

definition say :: "('j, 't) json \<Rightarrow> int \<Rightarrow> string \<Rightarrow> string \<Rightarrow> 't reply" where
  "say J code key msg = Reply code (js_text J (''{\"'' @ key @ ''\": \"'' @ msg @ ''\"}''))"

definition bad :: "('j, 't) json \<Rightarrow> string \<Rightarrow> 't reply" where
  "bad J msg = say J BadRequest_400 ''error'' msg"

definition success :: "('j, 't) json \<Rightarrow> 't reply" where
  "success J = say J OK_200 ''info'' ''success''"

definition bare :: "('j, 't) json \<Rightarrow> int \<Rightarrow> 't reply" where
  "bare J code = Reply code (js_text J [])"

text \<open>A parameter is a number and nothing else; \<open>ok\<close> is its range.\<close>

definition number :: "(string \<Rightarrow> (int \<times> nat) option) \<Rightarrow> (int \<Rightarrow> bool) \<Rightarrow> 't reply \<Rightarrow> string \<Rightarrow> 't reply + int" where
  "number conv ok err s =
     (case conv s of None \<Rightarrow> Inl Raised
      | Some (v, pos) \<Rightarrow> if pos \<noteq> length s \<or> \<not> ok v then Inl err else Inr v)"

definition opt_number ::
  "(string \<Rightarrow> (int \<times> nat) option) \<Rightarrow> (int \<Rightarrow> bool) \<Rightarrow> 't reply \<Rightarrow> int \<Rightarrow> string option \<Rightarrow> 't reply + int" where
  "opt_number conv ok err d p = (case p of None \<Rightarrow> Inr d | Some s \<Rightarrow> number conv ok err s)"

definition path_handle :: "('j, 't) json \<Rightarrow> http_request \<Rightarrow> 't reply + xhandle" where
  "path_handle J rq =
     (let s = rq_handle rq in
      if s = [] then Inl (bare J BadRequest_400)
      else case stoull16 s of None \<Rightarrow> Inl Raised
        | Some (h, pos) \<Rightarrow> if pos \<noteq> length s \<or> h = 0 then Inl (bare J BadRequest_400) else Inr h)"

section \<open>Queries\<close>

text \<open>\<open>st\<close> is the state of the scheduler when it answers.\<close>

definition answered :: "sched_output \<Rightarrow> xqueue_status list \<times> process_info list" where
  "answered ans = (case ans of Answer _ qs ps \<Rightarrow> (qs, ps) | _ \<Rightarrow> ([], []))"

definition process_json :: "('j, 't) json \<Rightarrow> process_info \<Rightarrow> 'j" where
  "process_json J p = js_object J [(''pid'', js_int J (pi_pid p)), (''cmdline'', js_string J (pi_cmdline p))]"

definition GetXQueueStatus :: "status \<Rightarrow> xhandle \<Rightarrow> xqueue_status option" where
  "GetXQueueStatus st h = (case fst (answered (answer_query False 0 h st)) of [] \<Rightarrow> None | q # _ \<Rightarrow> Some q)"

definition GetXQueue :: "('j, 't) json \<Rightarrow> status \<Rightarrow> http_request \<Rightarrow> 't reply" where
  "GetXQueue J st rq =
     (case path_handle J rq of Inl r \<Rightarrow> r
      | Inr h \<Rightarrow>
         (case answered (answer_query True 0 h st) of
            (q # _, p # _) \<Rightarrow> Reply OK_200 (js_write J (js_object J
              [(''xqueue'', XQueueStatusToJson J q), (''process'', process_json J p)]))
          | _ \<Rightarrow> bare J NotFound_404))"

definition GetXQueues :: "('j, 't) json \<Rightarrow> status \<Rightarrow> 't reply" where
  "GetXQueues J st =
     (case answered (answer_query_all True 0 st) of (qs, ps) \<Rightarrow>
        Reply OK_200 (js_write J (js_object J
          [(''xqueues'', js_array J (map (XQueueStatusToJson J) qs)),
           (''processes'', js_array J (map (process_json J) ps))])))"

section \<open>Configuration and policy\<close>

definition config_values :: "('j, 't) json \<Rightarrow> http_request \<Rightarrow> 't reply + int \<times> int \<times> int" where
  "config_values J rq =
     (case opt_number stoi (\<lambda>v. v > kPreemptLevelUnknown \<and> v < kPreemptLevelMax) (bad J ''invalid level'')
             kPreemptLevelUnknown (rq_params rq ''level'') of Inl r \<Rightarrow> Inl r
      | Inr lv \<Rightarrow>
         (case opt_number stoll (\<lambda>v. v > 0) (bad J ''invalid command threshold'') (- 1)
                 (rq_params rq ''threshold'') of Inl r \<Rightarrow> Inl r
          | Inr t \<Rightarrow>
             (case opt_number stoll (\<lambda>v. v > 0) (bad J ''invalid command batch size'') (- 1)
                     (rq_params rq ''batch_size'') of Inl r \<Rightarrow> Inl r
              | Inr n \<Rightarrow> Inr (lv, t, n))))"

text \<open>The reply, and the operations that are sent to the clients with an open channel; \<open>None\<close> if the
  assertion that sending one succeeds fails.\<close>

definition PostXQueueConfig ::
  "('j, 't) json \<Rightarrow> bool \<Rightarrow> pid list \<Rightarrow> status \<Rightarrow> http_request
    \<Rightarrow> ('t reply \<times> (pid \<times> operation) list) option" where
  "PostXQueueConfig J sent chans st rq =
     (case path_handle J rq of Inl r \<Rightarrow> Some (r, [])
      | Inr h \<Rightarrow>
         (case config_values J rq of Inl r \<Rightarrow> Some (r, [])
          | Inr (lv, t, n) \<Rightarrow>
             (case GetXQueueStatus st h of
                None \<Rightarrow> Some (say J NotFound_404 ''error'' ''XQueue not found'', [])
              | Some q \<Rightarrow>
                  if (if n > 0 then n else xs_batch_size q) \<ge> (if t > 0 then t else xs_threshold q)
                  then Some (bad J ''batch size must be less than threshold'', [])
                  else if lv = kPreemptLevelUnknown \<and> t = - 1 \<and> n = - 1
                  then Some (say J OK_200 ''warning'' ''no change'', [])
                  else map_option (Pair (success J))
                         (Server_Execute sent chans (ConfigOperation (xs_pid q) h lv t n)))))"

definition GetSchedulerPolicy :: "('j, 't) json \<Rightarrow> lsched \<Rightarrow> 't reply" where
  "GetSchedulerPolicy J l =
     Reply OK_200 (js_write J (js_object J [(''policy'', js_int J (xpolicy_code (ls_type l)))]))"

text \<open>The policy that the scheduler is set to, if any.\<close>

definition PostSchedulerPolicy :: "('j, 't) json \<Rightarrow> http_request \<Rightarrow> 't reply \<times> int option" where
  "PostSchedulerPolicy J rq =
     (case rq_params rq ''policy'' of None \<Rightarrow> (bare J BadRequest_400, None)
      | Some s \<Rightarrow>
          if s = [] then (bare J BadRequest_400, None)
          else case number stoi (\<lambda>v. v > xpolicy_code kPolicyUnknown \<and> v < xpolicy_code kPolicyMax)
                      (bare J BadRequest_400) s of
            Inl r \<Rightarrow> (r, None) | Inr v \<Rightarrow> (success J, Some v))"

section \<open>Hints\<close>

text \<open>A member that must be there; a conversion that throws.\<close>

definition need :: "('j, 't) json \<Rightarrow> 'j \<Rightarrow> string \<Rightarrow> string \<Rightarrow> ('j \<Rightarrow> 'a option) \<Rightarrow> 't reply + 'a" where
  "need J j k msg conv =
     (case js_member J j k of None \<Rightarrow> Inl (bad J msg)
      | Some v \<Rightarrow> (case conv v of None \<Rightarrow> Inl Raised | Some x \<Rightarrow> Inr x))"

definition GetXQueueHandle :: "('j, 't) json \<Rightarrow> 'j \<Rightarrow> xhandle option" where
  "GetXQueueHandle J j = opt_member J j ''handle'' (as_uint64 J) 0"

definition PostHint_priority :: "('j, 't) json \<Rightarrow> 'j \<Rightarrow> 't reply + hint" where
  "PostHint_priority J j =
     (case GetXQueueHandle J j of None \<Rightarrow> Inl Raised
      | Some h \<Rightarrow>
          if h = 0 then Inl (bad J ''invalid handle'')
          else (case need J j ''priority'' ''missing priority'' (as_int J) of Inl r \<Rightarrow> Inl r
            | Inr p \<Rightarrow> if p < PRIORITY_MIN \<or> p > PRIORITY_MAX then Inl (bad J ''invalid priority'')
                       else Inr (PriorityHint h p)))"

definition PostHint_utilization :: "('j, 't) json \<Rightarrow> 'j \<Rightarrow> 't reply + hint" where
  "PostHint_utilization J j =
     (case GetXQueueHandle J j of None \<Rightarrow> Inl Raised
      | Some h \<Rightarrow>
         (case opt_member J j ''pid'' (as_int J) 0 of None \<Rightarrow> Inl Raised
          | Some pd \<Rightarrow>
              if h = 0 \<and> pd = 0 then Inl (bad J ''handle or pid is required'')
              else (case need J j ''utilization'' ''missing utilization'' (as_int J) of Inl r \<Rightarrow> Inl r
                | Inr u \<Rightarrow> if u < UTILIZATION_MIN \<or> u > UTILIZATION_MAX then Inl (bad J ''invalid utilization'')
                           else Inr (UtilizationHint pd h u))))"

text \<open>The unsigned value becomes the signed time slice.\<close>

definition PostHint_timeslice :: "('j, 't) json \<Rightarrow> 'j \<Rightarrow> 't reply + hint" where
  "PostHint_timeslice J j =
     (case need J j ''timeslice'' ''missing timeslice'' (as_uint64 J) of Inl r \<Rightarrow> Inl r
      | Inr ts \<Rightarrow> if ts \<le> 0 then Inl (bad J ''invalid timeslice'') else Inr (TimesliceHint (sint ts)))"

definition PostHint_window :: "('j, 't) json \<Rightarrow> 'j \<Rightarrow> 't reply + hint" where
  "PostHint_window J j =
     (case js_member J j ''pid'' of None \<Rightarrow> Inl (bad J ''missing pid'')
      | Some p \<Rightarrow>
         (case js_member J j ''display'' of None \<Rightarrow> Inl (bad J ''missing display'')
          | Some d \<Rightarrow>
             (case (as_int J p, as_uint64 J d) of
                (Some pd, Some disp) \<Rightarrow> Inr (WindowActiveHint pd disp) | _ \<Rightarrow> Inl Raised)))"

definition PostHint_intensity :: "('j, 't) json \<Rightarrow> 'j \<Rightarrow> 't reply + hint" where
  "PostHint_intensity J j =
     (case js_member J j ''intensity'' of None \<Rightarrow> Inl (bad J ''missing intensity'')
      | Some v \<Rightarrow>
          if js_is_null J v then Inl (bad J ''missing intensity'')
          else (case as_double J v of None \<Rightarrow> Inl Raised
            | Some i \<Rightarrow>
                if f_lt (f_of_bits i) (Fin 0) \<or> f_lt (Fin 1) (f_of_bits i)
                then Inl (bad J ''intensity must be in [0.0, 1.0]'')
                else (case opt_member J j ''device'' (as_uint64 J) 0 of None \<Rightarrow> Inl Raised
                  | Some d \<Rightarrow> Inr (MemoryIntensityHint d i))))"

definition PostHint_of :: "('j, 't) json \<Rightarrow> int \<Rightarrow> 'j \<Rightarrow> 't reply + hint" where
  "PostHint_of J t j =
     (if t = kHintTypePriority then PostHint_priority J j
      else if t = kHintTypeUtilization then PostHint_utilization J j
      else if t = kHintTypeTimeslice then PostHint_timeslice J j
      else if t = kHintTypeWindowActive then PostHint_window J j
      else if t = kHintTypeMemoryIntensity then PostHint_intensity J j
      else Inl (bad J ''invalid hint type''))"

abbreviation (input) kHintTypeMax :: int where "kHintTypeMax \<equiv> 9"

text \<open>The reply, and the hint that goes to the scheduler.\<close>

definition PostHint :: "('j, 't) json \<Rightarrow> 't \<Rightarrow> 't reply \<times> hint option" where
  "PostHint J body =
     (case js_parse J body of None \<Rightarrow> (bare J BadRequest_400, None)
      | Some j \<Rightarrow>
          if \<not> js_is_object J j then (Raised, None)
          else (case need J j ''hint_type'' ''missing hint type'' (as_int J) of Inl r \<Rightarrow> (r, None)
            | Inr t \<Rightarrow>
                if t \<le> kHintTypeUnknown \<or> t \<ge> kHintTypeMax then (bad J ''invalid hint type'', None)
                else (case PostHint_of J t j of Inl r \<Rightarrow> (r, None) | Inr h \<Rightarrow> (success J, Some h))))"

end
