(* ===== verification/ServiceClient.thy ===== *)
theory ServiceClient
  imports HttpServer SchedAgent
begin

text \<open>
  The client of the server's HTTP interface (\<^verbatim>\<open>service/common/src/client.cpp\<close>), as the
  command-line tool uses it: the requests it makes and what it reads from the replies. The
  lemmas join both ends: what a client asks for is what the server does. \<open>route\<close> is the HTTP
  library's way from a URL to the handler's arguments, with its law \<open>route_ok\<close>.
\<close>

section \<open>Requests and responses\<close>

text \<open>A transport error is \<open>None\<close>; a handler left by an exception gives an error status.\<close>

definition GetResponse :: "('j, 't) json \<Rightarrow> 't reply option \<Rightarrow> xresult \<times> 'j option" where
  "GetResponse J res =
     (case res of None \<Rightarrow> (kXSchedErrorBadResponse, None)
      | Some Raised \<Rightarrow> (kXSchedErrorBadResponse, None)
      | Some (Reply code body) \<Rightarrow>
          if code \<noteq> OK_200 then (kXSchedErrorBadResponse, None)
          else (case js_parse J body of None \<Rightarrow> (kXSchedErrorBadResponse, None)
            | Some j \<Rightarrow> (kXSchedSuccess, Some j)))"

definition SetXQueueConfig_url :: "xhandle \<Rightarrow> int \<Rightarrow> int \<Rightarrow> int \<Rightarrow> string" where
  "SetXQueueConfig_url h lv t n =
     ''/config/'' @ ToHex h @ ''?level='' @ to_string lv @ ''&threshold='' @ to_string t
     @ ''&batch_size='' @ to_string n"

definition SetPolicy_url :: "int \<Rightarrow> string" where
  "SetPolicy_url p = ''/policy?policy='' @ to_string p"

definition SetPriority_request :: "('j, 't) json \<Rightarrow> xhandle \<Rightarrow> int \<Rightarrow> 't" where
  "SetPriority_request J h p = js_write J (js_object J
     [(''hint_type'', js_int J kHintTypePriority), (''handle'', js_uint64 J h), (''priority'', js_int J p)])"

definition SetUtilization_request :: "('j, 't) json \<Rightarrow> xhandle \<Rightarrow> int \<Rightarrow> 't" where
  "SetUtilization_request J h u = js_write J (js_object J
     [(''hint_type'', js_int J kHintTypeUtilization), (''pid'', js_int J 0),
      (''handle'', js_uint64 J h), (''utilization'', js_int J u)])"

definition SetProcessUtilization_request :: "('j, 't) json \<Rightarrow> pid \<Rightarrow> int \<Rightarrow> 't" where
  "SetProcessUtilization_request J pd u = js_write J (js_object J
     [(''hint_type'', js_int J kHintTypeUtilization), (''pid'', js_int J pd),
      (''handle'', js_uint64 J 0), (''utilization'', js_int J u)])"

definition SetTimeslice_request :: "('j, 't) json \<Rightarrow> int \<Rightarrow> 't" where
  "SetTimeslice_request J ts = js_write J (js_object J
     [(''hint_type'', js_int J kHintTypeTimeslice), (''timeslice'', js_int64 J ts)])"

definition SetActiveWindow_request :: "('j, 't) json \<Rightarrow> pid \<Rightarrow> 64 word \<Rightarrow> 't" where
  "SetActiveWindow_request J pd d = js_write J (js_object J
     [(''hint_type'', js_int J kHintTypeWindowActive), (''pid'', js_int J pd), (''display'', js_uint64 J d)])"

section \<open>Queries\<close>

text \<open>A query that throws is \<open>None\<close>. The members of what is not an object cannot be asked for;
  a missing one is null, which has no items.\<close>

definition zero_status :: xqueue_status where
  "zero_status = \<lparr> xs_handle = 0, xs_device = 0, xs_level = 0, xs_pid = 0, xs_threshold = 0,
     xs_batch_size = 0, xs_ready = False, xs_suspended = False, xs_ready_time = 0 \<rparr>"

definition items_of :: "('j, 't) json \<Rightarrow> 'j \<Rightarrow> string \<Rightarrow> 'j list" where
  "items_of J j k = (case js_member J j k of None \<Rightarrow> [] | Some v \<Rightarrow> js_items J v)"

definition process_entry :: "('j, 't) json \<Rightarrow> 'j \<Rightarrow> (pid \<times> string) option" where
  "process_entry J j =
     (case (js_member J j ''pid'', js_member J j ''cmdline'') of
        (Some p, Some c) \<Rightarrow>
          (case (as_int J p, as_string J c) of (Some pd, Some cmd) \<Rightarrow> Some (pd, cmd) | _ \<Rightarrow> None)
      | _ \<Rightarrow> None)"

definition QueryXQueues ::
  "('j, 't) json \<Rightarrow> 't reply option \<Rightarrow> (xresult \<times> xqueue_status list \<times> (pid \<times> string) list) option" where
  "QueryXQueues J res =
     (case snd (GetResponse J res) of None \<Rightarrow> Some (kXSchedSuccess, [], [])
      | Some j \<Rightarrow>
          if \<not> js_is_object J j then None
          else if items_of J j ''xqueues'' = [] then Some (kXSchedSuccess, [], [])
          else (case (those (map (JsonToXQueueStatus J zero_status) (items_of J j ''xqueues'')),
                      those (map (process_entry J) (items_of J j ''processes''))) of
            (Some qs, Some ps) \<Rightarrow> Some (kXSchedSuccess, qs, foldl (\<lambda>m (k, v). AList.update k v m) [] ps)
          | _ \<Rightarrow> None))"

definition QueryPolicy :: "('j, 't) json \<Rightarrow> 't reply option \<Rightarrow> (xresult \<times> int option) option" where
  "QueryPolicy J res =
     (case GetResponse J res of
        (r, Some j) \<Rightarrow>
          if \<not> js_is_object J j then None
          else map_option (\<lambda>v. (r, Some v)) (opt_member J j ''policy'' (as_int J) (xpolicy_code kPolicyUnknown))
      | (r, None) \<Rightarrow> Some (r, None))"

text \<open>The result, unless the loop is left by an exception, and the XQueues whose priority was
  posted; \<open>post\<close> is the server's answer to each.\<close>

fun post_priorities ::
  "('j, 't) json \<Rightarrow> (xhandle \<Rightarrow> 't reply option) \<Rightarrow> pid \<Rightarrow> 'j list \<Rightarrow> xresult option \<times> xhandle list" where
  "post_priorities J post pd [] = (Some kXSchedSuccess, [])"
| "post_priorities J post pd (j # js) =
     (case JsonToXQueueStatus J zero_status j of None \<Rightarrow> (None, [])
      | Some q \<Rightarrow>
          if xs_pid q \<noteq> pd then post_priorities J post pd js
          else let r = fst (GetResponse J (post (xs_handle q))) in
            if r \<noteq> kXSchedSuccess then (Some r, [xs_handle q])
            else (case post_priorities J post pd js of (r', hs) \<Rightarrow> (r', xs_handle q # hs)))"

definition SetProcessPriority ::
  "('j, 't) json \<Rightarrow> (xhandle \<Rightarrow> 't reply option) \<Rightarrow> 't reply option \<Rightarrow> pid \<Rightarrow> xresult option \<times> xhandle list" where
  "SetProcessPriority J post res pd =
     (case GetResponse J res of
        (r, Some j) \<Rightarrow>
          if \<not> js_is_object J j then (None, []) else post_priorities J post pd (items_of J j ''xqueues'')
      | (r, None) \<Rightarrow> (Some r, []))"

section \<open>URLs\<close>

definition plain :: "string \<Rightarrow> bool" where
  "plain s \<longleftrightarrow> s \<noteq> [] \<and> list_all (\<lambda>c. is_hex c \<or> c = CHR ''x'' \<or> c = CHR ''-'') s"

definition route_ok :: "(string \<Rightarrow> http_request) \<Rightarrow> bool" where
  "route_ok route \<longleftrightarrow>
     (\<forall>h a b c. plain h \<and> plain a \<and> plain b \<and> plain c \<longrightarrow>
        (let rq = route (''/config/'' @ h @ ''?level='' @ a @ ''&threshold='' @ b @ ''&batch_size='' @ c) in
         rq_handle rq = h \<and> rq_params rq ''level'' = Some a \<and> rq_params rq ''threshold'' = Some b
         \<and> rq_params rq ''batch_size'' = Some c))
     \<and> (\<forall>p. plain p \<longrightarrow> rq_params (route (''/policy?policy='' @ p)) ''policy'' = Some p)"

lemma is_digit_hex: "is_digit c \<Longrightarrow> is_hex c"
  by (simp add: is_digit_def is_hex_def Let_def)

lemma plain_to_string [simp]: "plain (to_string n)"
  using digits_dec by (auto simp: plain_def to_string_def is_digit_hex list_all_iff)

lemma plain_ToHex [simp]: "plain (ToHex h)"
  using digits_hex by (auto simp: plain_def ToHex_def list_all_iff is_hex_def Let_def)

lemma ToHex_not_Nil [simp]: "ToHex h \<noteq> []" and to_string_not_Nil [simp]: "to_string n \<noteq> []"
  using plain_ToHex [of h] plain_to_string [of n] by (simp_all add: plain_def)

lemma route_config:
  assumes "route_ok route"
  shows "rq_handle (route (SetXQueueConfig_url h lv t n)) = ToHex h"
    "rq_params (route (SetXQueueConfig_url h lv t n)) ''level'' = Some (to_string lv)"
    "rq_params (route (SetXQueueConfig_url h lv t n)) ''threshold'' = Some (to_string t)"
    "rq_params (route (SetXQueueConfig_url h lv t n)) ''batch_size'' = Some (to_string n)"
  using assms unfolding route_ok_def SetXQueueConfig_url_def Let_def
  by (metis plain_to_string plain_ToHex)+

lemma route_policy: "route_ok route \<Longrightarrow> rq_params (route (SetPolicy_url p)) ''policy'' = Some (to_string p)"
  unfolding route_ok_def SetPolicy_url_def by (metis plain_to_string)

lemma number_stoi: "in_signed 4 n \<Longrightarrow> number stoi ok err (to_string n) = (if ok n then Inr n else Inl err)"
  using stoi_to_string [of n] by (simp add: number_def)

lemma number_stoll: "in_signed 8 n \<Longrightarrow> number stoll ok err (to_string n) = (if ok n then Inr n else Inl err)"
  using stoll_to_string [of n] by (simp add: number_def)

section \<open>Configuration\<close>

lemma GetXQueueStatus_iff: "GetXQueueStatus st h = xq_of st h"
  by (simp add: GetXQueueStatus_def answer_query_def answered_def split: option.split)

lemma path_handle_config:
  "route_ok route \<Longrightarrow> h \<noteq> 0 \<Longrightarrow> path_handle J (route (SetXQueueConfig_url h lv t n)) = Inr h"
  by (simp add: path_handle_def route_config stoull16_ToHex)

text \<open>What the server does with the configuration that a client posts: it tells the XQueue's process
  exactly when level, threshold and batch size are all given and valid and the XQueue is known,
  and refuses everything else. The values that stand for "no change" in the client's interface,
  level 0 and threshold or batch size -1, are among what it refuses.\<close>

theorem config_accepted_iff:
  assumes "route_ok route" "h \<noteq> 0" "in_signed 4 lv" "in_signed 8 t" "in_signed 8 n"
    "PostXQueueConfig J ok chans st (route (SetXQueueConfig_url h lv t n)) = Some (r, sent)"
  shows "if 0 < lv \<and> lv < kPreemptLevelMax \<and> 0 < n \<and> n < t \<and> xq_of st h \<noteq> None
    then r = success J \<and> Server_Execute ok chans (ConfigOperation (xs_pid (the (xq_of st h))) h lv t n) = Some sent
    else sent = [] \<and> (\<exists>body. r = Reply BadRequest_400 body \<or> r = Reply NotFound_404 body)"
proof -
  have p: "config_values J (route (SetXQueueConfig_url h lv t n)) =
     (if \<not> (0 < lv \<and> lv < kPreemptLevelMax) then Inl (bad J ''invalid level'')
      else if \<not> 0 < t then Inl (bad J ''invalid command threshold'')
      else if \<not> 0 < n then Inl (bad J ''invalid command batch size'') else Inr (lv, t, n))"
    using assms(3-5) by (simp add: config_values_def opt_number_def route_config [OF assms(1)] number_stoi number_stoll)
  have refused: "\<exists>body. bad J m = Reply BadRequest_400 body \<or> bad J m = Reply NotFound_404 body"
    "\<exists>body. say J NotFound_404 k m = Reply BadRequest_400 body \<or> say J NotFound_404 k m = Reply NotFound_404 body" for k m
    by (simp_all add: bad_def say_def)
  have "Some (r, sent) =
     (if \<not> (0 < lv \<and> lv < kPreemptLevelMax) then Some (bad J ''invalid level'', [])
      else if \<not> 0 < t then Some (bad J ''invalid command threshold'', [])
      else if \<not> 0 < n then Some (bad J ''invalid command batch size'', [])
      else case xq_of st h of None \<Rightarrow> Some (say J NotFound_404 ''error'' ''XQueue not found'', [])
        | Some q \<Rightarrow> if n \<ge> t then Some (bad J ''batch size must be less than threshold'', [])
            else map_option (Pair (success J)) (Server_Execute ok chans (ConfigOperation (xs_pid q) h lv t n)))"
    unfolding assms(6) [symmetric]
    by (simp add: PostXQueueConfig_def p path_handle_config [OF assms(1,2)] GetXQueueStatus_iff split: option.split)
  then show ?thesis
    using refused by (cases "xq_of st h") (auto simp: Server_Execute_def split: if_splits)
qed

text \<open>The process that a configuration is sent to finds in it nothing that would end it, if its XQueue
  has the settings that the server knows of: the level is valid and the batch size below the
  threshold.\<close>

theorem accepted_config_is_harmless:
  assumes "PostXQueueConfig J ok chans st rq = Some (r, sent)" "(pd, opn) \<in> set sent"
    "opn = ConfigOperation pd' h lv t n" "xq_of st h = Some q"
    "threshold (ax_lw x) = xs_threshold q" "batch_size (ax_lw x) = xs_batch_size q"
  shows "pd' = pd \<and> pd = xs_pid q \<and> pd \<in> set chans \<and> 0 \<le> lv \<and> lv < kPreemptLevelMax
     \<and> snd (launch_config t n x) < fst (launch_config t n x)"
proof -
  have lv: "0 \<le> lv \<and> lv < kPreemptLevelMax \<and> (t = - 1 \<or> 0 < t) \<and> (n = - 1 \<or> 0 < n)"
    if "config_values J rq = Inr (lv, t, n)" for lv t n
    using that by (auto simp: config_values_def opt_number_def number_def split: option.splits sum.splits if_splits)
  obtain h' lv' t' n' q' where c: "config_values J rq = Inr (lv', t', n')" "xq_of st h' = Some q'"
    "Server_Execute ok chans (ConfigOperation (xs_pid q') h' lv' t' n') = Some sent"
    "\<not> (if n' > 0 then n' else xs_batch_size q') \<ge> (if t' > 0 then t' else xs_threshold q')"
    using assms(1,2) by (auto simp: PostXQueueConfig_def GetXQueueStatus_iff split: sum.splits option.splits if_splits)
  have e: "pd = xs_pid q'" "pd \<in> set chans" "pd' = pd" "h' = h" "lv' = lv" "t' = t" "n' = n"
    using c(3) assms(2,3) by (auto simp: Server_Execute_def split: if_splits)
  then have "q' = q" using c(2) assms(4) by simp
  then show ?thesis using e lv [OF c(1)] c(4) assms(5,6) by (auto simp: launch_config_def)
qed

text \<open>If the settings have changed and the event that says so is still on its way, it is not so: a
  batch size of 8 fits the threshold 16 of the server's table, is sent, and fails the assertion
  of \<^verbatim>\<open>SetLaunchConfig\<close> in a client whose threshold is 4 by now.\<close>

lemma stale_table_ends_client:
  assumes "xq_of st 7 = Some q" "xs_pid q \<in> set chans" "xs_threshold q = 16" "threshold (ax_lw x) = 4"
    "rq_handle rq = ''0x7''" "rq_params rq = [''batch_size'' \<mapsto> ''8'']"
  shows "PostXQueueConfig J True chans st rq = Some (success J, [(xs_pid q, ConfigOperation (xs_pid q) 7 0 (- 1) 8)])
     \<and> AsyncXQueue_SetLaunchConfig_begin (- 1) 8 x = None"
proof -
  have n: "stoull16 ''0x7'' = Some (7, 3)" "stoll ''8'' = Some (8, 1)" by code_simp+
  then have "path_handle J rq = Inr 7" "config_values J rq = Inr (0, - 1, 8)"
    using assms(5,6) by (simp_all add: path_handle_def config_values_def opt_number_def number_def)
  then show ?thesis
    using assms(1-4)
    by (simp add: PostXQueueConfig_def GetXQueueStatus_iff Server_Execute_def AsyncXQueue_SetLaunchConfig_begin_def
        launch_config_def)
qed

section \<open>Policy\<close>

text \<open>A policy that a client asks for is set exactly when there is one of that number, and a client
  that asks is told the policy in force.\<close>

theorem policy_of_client_is_set:
  assumes "json_ok J" "route_ok route" "in_signed 4 p"
    "PostSchedulerPolicy J (route (SetPolicy_url p)) = (r, po)"
  shows "po = (if valid_policy p then Some p else None) \<and> (valid_policy p \<longleftrightarrow> r = success J)
     \<and> QueryPolicy J (Some (GetSchedulerPolicy J l)) = Some (kXSchedSuccess, Some (xpolicy_code (ls_type l)))"
proof -
  have c: "in_signed 4 (xpolicy_code t)" for t by (cases t) simp_all
  have "QueryPolicy J (Some (GetSchedulerPolicy J l)) = Some (kXSchedSuccess, Some (xpolicy_code (ls_type l)))"
    using c [of "ls_type l"]
    by (simp add: QueryPolicy_def GetSchedulerPolicy_def GetResponse_def json_laws [OF assms(1)] opt_member_def)
  moreover have "bare J BadRequest_400 \<noteq> success J" by (simp add: bare_def success_def say_def)
  ultimately show ?thesis
    using assms(4)
    by (simp add: PostSchedulerPolicy_def route_policy [OF assms(2)] valid_policy_def number_stoi [OF assms(3)]
        split: if_splits)
qed

section \<open>Hints\<close>

text \<open>Whatever is posted, a hint that goes to the scheduler is one of five kinds and, the time slice
  apart, in its range.\<close>

theorem posted_hints_are_in_range:
  assumes "PostHint J body = (r, Some ht)"
  shows "r = success J \<and>
    (case ht of PriorityHint h p \<Rightarrow> h \<noteq> 0 \<and> PRIORITY_MIN \<le> p \<and> p \<le> PRIORITY_MAX
     | UtilizationHint pd h u \<Rightarrow> (h \<noteq> 0 \<or> pd \<noteq> 0) \<and> UTILIZATION_MIN \<le> u \<and> u \<le> UTILIZATION_MAX
     | TimesliceHint ts \<Rightarrow> ts \<noteq> 0
     | WindowActiveHint pd d \<Rightarrow> True
     | MemoryIntensityHint d i \<Rightarrow> \<not> f_lt (f_of_bits i) (Fin 0) \<and> \<not> f_lt (Fin 1) (f_of_bits i)
     | _ \<Rightarrow> False)"
proof -
  obtain t j where h: "PostHint_of J t j = Inr ht" and r: "r = success J"
    using assms by (auto simp: PostHint_def split: option.splits sum.splits if_splits)
  have z: "sint w = 0 \<Longrightarrow> w \<le> 0" for w :: "64 word" by (metis order_refl signed_eq_0_iff)
  show ?thesis
    using h r z unfolding PostHint_of_def
    by (auto simp: PostHint_priority_def PostHint_utilization_def PostHint_timeslice_def PostHint_window_def
        PostHint_intensity_def need_def split: option.splits sum.splits if_splits)
qed

text \<open>C35: Every hint that a client posts with a value in range arrives as that hint.\<close>

theorem client_hints_arrive:
  assumes "json_ok J" "in_signed 4 pd"
  shows "(h \<noteq> 0 \<and> PRIORITY_MIN \<le> p \<and> p \<le> PRIORITY_MAX \<longrightarrow>
       PostHint J (SetPriority_request J h p) = (success J, Some (PriorityHint h p)))
   \<and> (h \<noteq> 0 \<and> UTILIZATION_MIN \<le> u \<and> u \<le> UTILIZATION_MAX \<longrightarrow>
       PostHint J (SetUtilization_request J h u) = (success J, Some (UtilizationHint 0 h u)))
   \<and> (pd \<noteq> 0 \<and> UTILIZATION_MIN \<le> u \<and> u \<le> UTILIZATION_MAX \<longrightarrow>
       PostHint J (SetProcessUtilization_request J pd u) = (success J, Some (UtilizationHint pd 0 u)))
   \<and> (0 < ts \<and> ts < 2 ^ 63 \<longrightarrow> PostHint J (SetTimeslice_request J ts) = (success J, Some (TimesliceHint ts)))
   \<and> PostHint J (SetActiveWindow_request J pd d) = (success J, Some (WindowActiveHint pd d))"
proof -
  note L = json_laws [OF assms(1)]
  have w: "\<not> (word_of_int ts :: 64 word) \<le> 0 \<and> sint (word_of_int ts :: 64 word) = ts" if "0 < ts \<and> ts < 2 ^ 63"
  proof -
    have "sint (word_of_int ts :: 64 word) = ts" using that by (simp add: sint_uint uint_word_of_int_eq signed_take_bit_take_bit signed_take_bit_int_eq_self)
    moreover from this have "(word_of_int ts :: 64 word) \<noteq> 0" using that by auto
    ultimately show ?thesis by (simp add: word_le_0_iff)
  qed
  show ?thesis
    using assms(2) w
    by (auto simp: PostHint_def PostHint_of_def need_def L SetPriority_request_def PostHint_priority_def
        GetXQueueHandle_def opt_member_def SetUtilization_request_def SetProcessUtilization_request_def
        PostHint_utilization_def SetTimeslice_request_def PostHint_timeslice_def SetActiveWindow_request_def
        PostHint_window_def)
qed

text \<open>A time slice of \<open>2 ^ 63\<close> or more becomes negative.\<close>

lemma huge_timeslice_turns_negative:
  assumes "json_ok J"
  shows "PostHint J (js_write J (js_object J
      [(''hint_type'', js_int J kHintTypeTimeslice), (''timeslice'', js_uint64 J 0x8000000000000000)]))
    = (success J, Some (TimesliceHint (- (2 ^ 63))))"
  by (simp add: PostHint_def PostHint_of_def need_def json_laws [OF assms] PostHint_timeslice_def)

section \<open>Listings\<close>

text \<open>The fields of an entry have the widths of their C types.\<close>

definition typed_status :: "xqueue_status \<Rightarrow> bool" where
  "typed_status q \<longleftrightarrow> in_signed 4 (xs_level q) \<and> in_signed 4 (xs_pid q)
     \<and> in_signed 8 (xs_threshold q) \<and> in_signed 8 (xs_batch_size q)"

lemma XQueueStatus_json:
  assumes "json_ok J" "typed_status q"
  shows "JsonToXQueueStatus J q0 (XQueueStatusToJson J q) = Some (q\<lparr> xs_ready_time := xs_ready_time q0 \<rparr>)"
proof -
  note L = json_laws [OF assms(1)]
  have s: "in_signed 4 (xs_level q)" "in_signed 4 (xs_pid q)" "in_signed 8 (xs_threshold q)"
    "in_signed 8 (xs_batch_size q)" using assms(2) by (simp_all add: typed_status_def)
  show ?thesis
    unfolding JsonToXQueueStatus_def XQueueStatusToJson_def
    by (simp add: L opt_member_def L(4) [OF s(1)] L(4) [OF s(2)] L(5) [OF s(3)] L(5) [OF s(4)])
qed

lemma those_map: "(\<And>x. x \<in> set xs \<Longrightarrow> f x = Some (g x)) \<Longrightarrow> those (map f xs) = Some (map g xs)"
  by (induction xs) auto

lemma foldl_update: "map_of (foldl (\<lambda>m (k, v). AList.update k v m) m ps) k =
    (case map_of (rev ps) k of None \<Rightarrow> map_of m k | Some v \<Rightarrow> Some v)"
  by (induction ps arbitrary: m) (auto simp: map_add_def split: option.splits)

text \<open>A client that lists the XQueues sees the scheduler's table, the times apart, and the command
  lines of all its processes.\<close>

theorem listing_shows_table:
  assumes "json_ok J" "\<forall>q\<in>set (map snd (st_xqueues st)). typed_status q" "st_xqueues st \<noteq> []"
    "\<forall>p\<in>set (st_procs st). in_signed 4 (fst p) \<and> pi_pid (ps_info (snd p)) = fst p" "distinct (map fst (st_procs st))"
  shows "\<exists>ps. QueryXQueues J (Some (GetXQueues J st)) =
       Some (kXSchedSuccess, map (\<lambda>q. q\<lparr> xs_ready_time := 0 \<rparr>) (map snd (st_xqueues st)), ps)
     \<and> (\<forall>pd. map_of ps pd = map_option (\<lambda>p. pi_cmdline (ps_info p)) (proc_of st pd))"
proof -
  note L = json_laws [OF assms(1)]
  let ?qs = "map snd (st_xqueues st)" and ?ps = "map (\<lambda>(_, p). ps_info p) (st_procs st)"
  let ?es = "map (\<lambda>i. (pi_pid i, pi_cmdline i)) ?ps"
  have q: "those (map (JsonToXQueueStatus J zero_status) (map (XQueueStatusToJson J) ?qs))
      = Some (map (\<lambda>q. q\<lparr> xs_ready_time := 0 \<rparr>) ?qs)"
    unfolding map_map
    by (rule those_map) (use assms(2) in \<open>simp add: XQueueStatus_json [OF assms(1)] zero_status_def\<close>)
  have p: "those (map (process_entry J) (map (process_json J) ?ps)) = Some ?es"
    unfolding map_map
    by (rule those_map) (use assms(4) in \<open>auto simp: process_entry_def process_json_def L\<close>)
  have e: "?es = map (\<lambda>(k, p). (k, pi_cmdline (ps_info p))) (st_procs st)" using assms(4) by auto
  have "distinct (map fst ?es)" using assms(5) unfolding e by (simp add: comp_def case_prod_unfold)
  then have "map_of (rev ?es) = map_of ?es" by (metis map_of_inject_set set_rev distinct_rev rev_map)
  moreover have "map_of ?es pd = map_option (\<lambda>p. pi_cmdline (ps_info p)) (proc_of st pd)" for pd
    unfolding e by (simp add: map_of_map)
  ultimately show ?thesis
    using assms(3) q p
    by (simp add: QueryXQueues_def GetXQueues_def answer_query_all_def answered_def GetResponse_def L items_of_def
        foldl_update split: option.split)
qed

text \<open>The result of the request is not looked at: with no server there is success and an empty list.\<close>

lemma failed_listing_succeeds: "QueryXQueues J None = Some (kXSchedSuccess, [], [])"
  by (simp add: QueryXQueues_def GetResponse_def)

lemma post_priorities_all:
  assumes "json_ok J" "\<forall>q\<in>set qs. typed_status q" "\<forall>h. fst (GetResponse J (post h)) = kXSchedSuccess"
  shows "post_priorities J post pd (map (XQueueStatusToJson J) qs)
    = (Some kXSchedSuccess, map xs_handle (filter (\<lambda>q. xs_pid q = pd) qs))"
  using assms(2,3) by (induction qs) (auto simp: XQueueStatus_json [OF assms(1)])

text \<open>The priority of a process is posted for exactly its XQueues.\<close>

theorem process_priority_reaches_its_xqueues:
  assumes "json_ok J" "\<forall>q\<in>set (map snd (st_xqueues st)). typed_status q"
    "\<forall>h. fst (GetResponse J (post h)) = kXSchedSuccess"
  shows "SetProcessPriority J post (Some (GetXQueues J st)) pd =
     (Some kXSchedSuccess, map xs_handle (filter (\<lambda>q. xs_pid q = pd) (map snd (st_xqueues st))))"
  using post_priorities_all [OF assms, of pd]
  by (simp add: SetProcessPriority_def GetXQueues_def answer_query_all_def answered_def GetResponse_def items_of_def
      json_laws [OF assms(1)])

section \<open>Examples\<close>

text \<open>A JSON library and a way from URLs to arguments for which the laws hold.\<close>

datatype jval =
    JObject "(string \<times> jval) list"
  | JArray "jval list"
  | JInt int
  | JUInt "64 word"
  | JBool bool
  | JString string

definition ex_json :: "(jval, jval + string) json" where
  "ex_json =
     \<lparr> js_object = JObject, js_array = JArray, js_int = JInt, js_int64 = JInt, js_uint64 = JUInt,
       js_bool = JBool, js_string = JString,
       js_is_object = (\<lambda>j. case j of JObject _ \<Rightarrow> True | _ \<Rightarrow> False), js_is_null = (\<lambda>_. False),
       js_member = (\<lambda>j k. case j of JObject ms \<Rightarrow> map_of ms k | _ \<Rightarrow> None),
       js_items = (\<lambda>j. case j of JArray xs \<Rightarrow> xs | _ \<Rightarrow> []),
       as_int = (\<lambda>j. case j of JInt n \<Rightarrow> Some n | _ \<Rightarrow> None),
       as_int64 = (\<lambda>j. case j of JInt n \<Rightarrow> Some n | _ \<Rightarrow> None),
       as_uint64 = (\<lambda>j. case j of JUInt w \<Rightarrow> Some w | JInt n \<Rightarrow> if n < 0 then None else Some (word_of_int n) | _ \<Rightarrow> None),
       as_bool = (\<lambda>j. case j of JBool b \<Rightarrow> Some b | _ \<Rightarrow> None),
       as_string = (\<lambda>j. case j of JString s \<Rightarrow> Some s | _ \<Rightarrow> None), as_double = (\<lambda>_. None),
       js_write = Inl, js_parse = (\<lambda>t. case t of Inl j \<Rightarrow> Some j | Inr _ \<Rightarrow> None), js_text = Inr \<rparr>"

lemma ex_json_ok: "json_ok ex_json"
  by (simp add: json_ok_def ex_json_def)

fun split_on :: "char \<Rightarrow> string \<Rightarrow> string list" where
  "split_on c [] = [[]]"
| "split_on c (x # xs) =
     (if x = c then [] # split_on c xs
      else case split_on c xs of [] \<Rightarrow> [[x]] | w # ws \<Rightarrow> (x # w) # ws)"

definition ex_route :: "string \<Rightarrow> http_request" where
  "ex_route url =
     (case split_on CHR ''?'' url of
        [p, q] \<Rightarrow> \<lparr> rq_handle = drop 8 p,
          rq_params = map_of (map (\<lambda>kv. case split_on CHR ''='' kv of [k, v] \<Rightarrow> (k, v) | _ \<Rightarrow> ([], []))
                            (split_on CHR ''&'' q)) \<rparr>
      | _ \<Rightarrow> \<lparr> rq_handle = [], rq_params = Map.empty \<rparr>)"

lemma split_on_word: "c \<notin> set w \<Longrightarrow> split_on c (w @ c # r) = w # split_on c r" "c \<notin> set w \<Longrightarrow> split_on c w = [w]"
  by (induction w) auto

lemma plain_chars: "plain s \<Longrightarrow> CHR ''?'' \<notin> set s \<and> CHR ''='' \<notin> set s \<and> CHR ''&'' \<notin> set s"
  by (auto simp: plain_def list_all_iff is_hex_def Let_def)

lemma ex_route_ok: "route_ok ex_route"
proof -
  note S = split_on_word
  have "(let rq = ex_route (''/config/'' @ h @ ''?level='' @ a @ ''&threshold='' @ b @ ''&batch_size='' @ c) in
         rq_handle rq = h \<and> rq_params rq ''level'' = Some a \<and> rq_params rq ''threshold'' = Some b
         \<and> rq_params rq ''batch_size'' = Some c)" if "plain h" "plain a" "plain b" "plain c" for h a b c
  proof -
    note n = plain_chars [OF that(1)] plain_chars [OF that(2)] plain_chars [OF that(3)] plain_chars [OF that(4)]
    have "split_on CHR ''?'' ((''/config/'' @ h) @ CHR ''?'' # (''level='' @ a @ ''&threshold='' @ b @ ''&batch_size='' @ c))
        = [''/config/'' @ h, ''level='' @ a @ ''&threshold='' @ b @ ''&batch_size='' @ c]"
      using n by (subst S(1)) (simp_all add: S(2) del: split_on.simps append.simps)
    moreover have "split_on CHR ''&'' ((''level='' @ a) @ CHR ''&'' # (''threshold='' @ b) @ CHR ''&'' # (''batch_size='' @ c))
        = [''level='' @ a, ''threshold='' @ b, ''batch_size='' @ c]"
      using n by (subst S(1), simp)+ (simp add: S(2) del: split_on.simps append.simps)
    moreover have "split_on CHR ''='' (''level'' @ CHR ''='' # a) = [''level'', a]"
      "split_on CHR ''='' (''threshold'' @ CHR ''='' # b) = [''threshold'', b]"
      "split_on CHR ''='' (''batch_size'' @ CHR ''='' # c) = [''batch_size'', c]"
      using n by (simp_all add: S del: split_on.simps append.simps)
    ultimately show ?thesis by (simp add: ex_route_def)
  qed
  moreover have "rq_params (ex_route (''/policy?policy='' @ p)) ''policy'' = Some p" if "plain p" for p
  proof -
    note n = plain_chars [OF that]
    have "split_on CHR ''?'' (''/policy'' @ CHR ''?'' # (''policy='' @ p)) = [''/policy'', ''policy='' @ p]"
      using n by (subst S(1)) (simp_all add: S(2) del: split_on.simps append.simps)
    moreover have "split_on CHR ''&'' (''policy='' @ p) = [''policy='' @ p]" using n by (simp add: S(2) del: split_on.simps append.simps)
    moreover have "split_on CHR ''='' (''policy'' @ CHR ''='' # p) = [''policy'', p]"
      using n by (simp_all add: S del: split_on.simps append.simps)
    ultimately show ?thesis by (simp add: ex_route_def)
  qed
  ultimately show ?thesis by (simp add: route_ok_def)
qed

lemma config_accepted_iff_witness:
  "PostXQueueConfig ex_json True [10] (ex_status True True) (ex_route (SetXQueueConfig_url 1 2 16 4))
     = Some (success ex_json, [(10, ConfigOperation 10 1 2 16 4)])
   \<and> map_option snd (PostXQueueConfig ex_json True [10] (ex_status True True) (ex_route (SetXQueueConfig_url 1 0 16 4)))
     = Some []"
proof -
  have q: "xq_of (ex_status True True) 1 = Some (ex_queue 1 10 True 1000)" by (simp add: ex_status_def)
  have "\<exists>r sent. PostXQueueConfig ex_json True [10] (ex_status True True) rq = Some (r, sent)" for rq
    by (auto simp: PostXQueueConfig_def Server_Execute_def split: sum.splits option.splits)
  then obtain r1 s1 r2 s2 where
    p: "PostXQueueConfig ex_json True [10] (ex_status True True) (ex_route (SetXQueueConfig_url 1 2 16 4)) = Some (r1, s1)"
    "PostXQueueConfig ex_json True [10] (ex_status True True) (ex_route (SetXQueueConfig_url 1 0 16 4)) = Some (r2, s2)"
    by metis
  show ?thesis
    using config_accepted_iff [OF ex_route_ok _ _ _ _ p(1)] config_accepted_iff [OF ex_route_ok _ _ _ _ p(2)] p
    by (simp add: q Server_Execute_def) (simp add: ex_queue_def)
qed

definition ex_configured :: axq where
  "ex_configured = (ex_axq 3)\<lparr> ax_lw := lw_SetLaunchConfig 16 8 (ax_lw (ex_axq 3)) \<rparr>"

lemma accepted_config_is_harmless_witness:
  "snd (launch_config (- 1) 4 ex_configured) < fst (launch_config (- 1) 4 ex_configured)"
proof -
  let ?rq = "\<lparr> rq_handle = ''1'', rq_params = [''batch_size'' \<mapsto> ''4''] \<rparr>"
  have n: "stoull16 ''1'' = Some (1, 1)" "stoll ''4'' = Some (4, 1)" by code_simp+
  have q: "xq_of (ex_status True True) 1 = Some (ex_queue 1 10 True 1000)" by (simp add: ex_status_def)
  have "path_handle ex_json ?rq = Inr 1" "config_values ex_json ?rq = Inr (0, - 1, 4)"
    using n by (simp_all add: path_handle_def config_values_def opt_number_def number_def)
  then have "PostXQueueConfig ex_json True [10] (ex_status True True) ?rq
      = Some (success ex_json, [(10, ConfigOperation 10 1 0 (- 1) 4)])"
    by (simp add: PostXQueueConfig_def GetXQueueStatus_iff q Server_Execute_def ex_queue_def)
  from accepted_config_is_harmless [OF this _ refl q, where x = ex_configured and pd = 10] show ?thesis
    by (simp add: ex_queue_def ex_configured_def lw_SetLaunchConfig_def)
qed

lemma policy_of_client_is_set_witness:
  "snd (PostSchedulerPolicy ex_json (ex_route (SetPolicy_url 5))) = Some 5
   \<and> snd (PostSchedulerPolicy ex_json (ex_route (SetPolicy_url 13))) = None"
proof -
  have "snd (PostSchedulerPolicy ex_json (ex_route (SetPolicy_url p))) = (if valid_policy p then Some p else None)"
    if "in_signed 4 p" for p
    using policy_of_client_is_set [OF ex_json_ok ex_route_ok that, of "fst (PostSchedulerPolicy ex_json (ex_route (SetPolicy_url p)))"
        "snd (PostSchedulerPolicy ex_json (ex_route (SetPolicy_url p)))"] by simp
  from this [of 5] this [of 13] show ?thesis by (simp add: valid_policy_def)
qed

lemma posted_hints_are_in_range_witness:
  "fst (PostHint ex_json (SetPriority_request ex_json 7 9)) = success ex_json \<and> (7 :: xhandle) \<noteq> 0"
proof -
  have "PostHint ex_json (SetPriority_request ex_json 7 9)
    = (fst (PostHint ex_json (SetPriority_request ex_json 7 9)), Some (PriorityHint 7 9))" by code_simp
  from posted_hints_are_in_range [OF this] show ?thesis by simp
qed

lemma client_hints_arrive_witness:
  "PostHint ex_json (SetPriority_request ex_json 7 (- 255)) = (success ex_json, Some (PriorityHint 7 (- 255)))
   \<and> PostHint ex_json (SetTimeslice_request ex_json 100) = (success ex_json, Some (TimesliceHint 100))"
  using client_hints_arrive [OF ex_json_ok, of 10 7 "- 255" 50 100 0] by simp

lemma listing_shows_table_witness:
  "\<exists>ps. QueryXQueues ex_json (Some (GetXQueues ex_json (ex_status True False))) =
       Some (kXSchedSuccess, [ex_queue 1 10 True 0, ex_queue 2 20 False 0], ps)
     \<and> map_of ps 20 = Some ''app''"
proof -
  have "\<forall>q\<in>set (map snd (st_xqueues (ex_status True False))). typed_status q"
    "\<forall>p\<in>set (st_procs (ex_status True False)). in_signed 4 (fst p) \<and> pi_pid (ps_info (snd p)) = fst p"
    by (simp_all add: ex_defs typed_status_def)
  from listing_shows_table [OF ex_json_ok this(1) _ this(2)] show ?thesis by (auto simp: ex_defs)
qed

end
