(* ===== verification/PtxText.thy ===== *)
theory PtxText
  imports MemoryAdmission
begin

text \<open>
  The transformation of PTX text by the kernel splitter
  (\<^verbatim>\<open>platforms/cuda/hal/src/hb_split/backend.cpp\<close>, lines 220 to 600): it finds a kernel's entry,
  adds three offset parameters to it, and adds the offsets to the block indices that the body
  reads. Text is a string, a position in it a number; \<^verbatim>\<open>std::string::npos\<close> is \<open>None\<close>. The
  regular expression of \<^verbatim>\<open>RewriteAxisMov\<close> is written out as a scanner: none of its repetitions
  can be followed by what it repeats, so it matches in one way only.
\<close>

section \<open>Searching\<close>

definition find_from :: "string \<Rightarrow> string \<Rightarrow> nat \<Rightarrow> nat option" where
  "find_from w s pos =
     List.find (\<lambda>i. take (length w) (drop i s) = w) [pos ..< Suc (length s) - length w]"

definition has_text :: "string \<Rightarrow> string \<Rightarrow> bool" where
  "has_text w s \<longleftrightarrow> find_from w s 0 \<noteq> None"

definition IsSpace :: "char \<Rightarrow> bool" where
  "IsSpace c \<longleftrightarrow> c = CHR '' '' \<or> c = CHR 0x09 \<or> c = CHR 0x0D \<or> c = CHR 0x0A"

definition LooksLikePtxText :: "string \<Rightarrow> bool" where
  "LooksLikePtxText s =
     (if length s < 8 then False
      else let head = take 4096 s; r = dropWhile IsSpace head in
        take 8 r = ''.version'' \<or> take 2 r = ''//''
        \<or> (32 \<le> length s \<and> has_text ''.version'' (take 2048 s) \<and> has_text ''.address_size'' (take 2048 s)))"

definition FindEntryName :: "string \<Rightarrow> string \<Rightarrow> nat option" where
  "FindEntryName s name =
     (let w1 = ''.visible .entry '' @ name; w2 = ''.entry '' @ name in
      case find_from w1 s 0 of Some p \<Rightarrow> Some (p + length w1)
      | None \<Rightarrow> map_option (\<lambda>p. p + length w2) (find_from w2 s 0))"

text \<open>The position of the bracket that closes the first one, from position \<open>i\<close> on at depth \<open>d\<close>.\<close>

fun close_at :: "char \<Rightarrow> char \<Rightarrow> int \<Rightarrow> nat \<Rightarrow> string \<Rightarrow> nat option" where
  "close_at p q d i [] = None"
| "close_at p q d i (c # cs) =
     (if c = p then close_at p q (d + 1) (Suc i) cs
      else if c = q then (if d - 1 = 0 then Some i else close_at p q (d - 1) (Suc i) cs)
      else close_at p q d (Suc i) cs)"

definition FindEntryParamClose :: "string \<Rightarrow> string \<Rightarrow> (nat \<times> nat) option" where
  "FindEntryParamClose s name =
     Option.bind (FindEntryName s name) (\<lambda>e.
     Option.bind (find_from ''('' s e) (\<lambda>pos.
     map_option (\<lambda>c. (pos, c)) (close_at CHR ''('' CHR '')'' 0 pos (drop pos s))))"

definition between :: "string \<Rightarrow> nat \<Rightarrow> nat \<Rightarrow> string" where
  "between s a b = take (b - a - 1) (drop (a + 1) s)"

definition ParamListNonEmpty :: "string \<Rightarrow> nat \<Rightarrow> nat \<Rightarrow> bool" where
  "ParamListNonEmpty s a b \<longleftrightarrow> list_ex (\<lambda>c. \<not> IsSpace c) (between s a b)"

definition ParamListHasOffsets :: "string \<Rightarrow> nat \<Rightarrow> nat \<Rightarrow> bool" where
  "ParamListHasOffsets s a b \<longleftrightarrow>
     has_text ''__hb_off_x'' (between s a b) \<and> has_text ''__hb_off_y'' (between s a b)
     \<and> has_text ''__hb_off_z'' (between s a b)"

definition FindClosingBrace :: "string \<Rightarrow> nat \<Rightarrow> nat option" where
  "FindClosingBrace s open_brace = close_at CHR ''{'' CHR ''}'' 0 open_brace (drop open_brace s)"

section \<open>Rewriting\<close>

definition extra_params :: string where
  "extra_params = ''.param .u32 __hb_off_x, .param .u32 __hb_off_y, .param .u32 __hb_off_z''"

definition InjectOffsetParams :: "string \<Rightarrow> nat \<Rightarrow> nat \<Rightarrow> string" where
  "InjectOffsetParams s a b =
     take b s @ (if ParamListNonEmpty s a b then '', '' else '' '') @ extra_params @ drop b s"

definition ContainsCrossBlockSync :: "string \<Rightarrow> bool" where
  "ContainsCrossBlockSync body \<longleftrightarrow>
     has_text ''grid.sync'' body \<or> has_text ''griddepcontrol'' body \<or> has_text ''barrier.cluster'' body"

text \<open>What \<^verbatim>\<open>\s\<close> and \<^verbatim>\<open>[A-Za-z0-9_]\<close> match.\<close>

definition rx_space :: "char \<Rightarrow> bool" where
  "rx_space c \<longleftrightarrow> IsSpace c \<or> c = CHR 0x0B \<or> c = CHR 0x0C"

definition rx_word :: "char \<Rightarrow> bool" where
  "rx_word c = (let n = (of_char c :: nat) in
     (65 \<le> n \<and> n \<le> 90) \<or> (97 \<le> n \<and> n \<le> 122) \<or> (48 \<le> n \<and> n \<le> 57) \<or> n = 95)"

definition after :: "string \<Rightarrow> string \<Rightarrow> string option" where
  "after w s = (if take (length w) s = w then Some (drop (length w) s) else None)"

text \<open>\<^verbatim>\<open>([\t ]*)mov\.u32\s+(%[A-Za-z0-9_]+)\s*,\s*%ctaid\.x\s*;\<close> at the front of the text: the
  blanks, the register and the rest.\<close>

definition match_mov :: "char \<Rightarrow> string \<Rightarrow> (string \<times> string \<times> string) option" where
  "match_mov axis s =
     (let blank = takeWhile (\<lambda>c. c = CHR 0x09 \<or> c = CHR '' '') s in
      Option.bind (after ''mov.u32'' (drop (length blank) s)) (\<lambda>s1.
      if takeWhile rx_space s1 = [] then None
      else Option.bind (after ''%'' (dropWhile rx_space s1)) (\<lambda>s2.
      let w = takeWhile rx_word s2 in
      if w = [] then None
      else Option.bind (after '','' (dropWhile rx_space (dropWhile rx_word s2))) (\<lambda>s3.
      Option.bind (after (''%ctaid.'' @ [axis]) (dropWhile rx_space s3)) (\<lambda>s4.
      map_option (\<lambda>s5. (blank, CHR ''%'' # w, s5)) (after '';'' (dropWhile rx_space s4)))))))"

definition mov_text :: "char \<Rightarrow> string \<Rightarrow> string \<Rightarrow> string \<Rightarrow> string" where
  "mov_text axis offset_reg blank reg =
     blank @ ''mov.u32 '' @ reg @ '', %ctaid.'' @ [axis] @ '';'' @ [CHR 0x0A]
     @ blank @ ''add.s32 '' @ reg @ '', '' @ reg @ '', '' @ offset_reg @ '';''"

lemma after_iff: "after w s = Some r \<longleftrightarrow> s = w @ r"
  using append_take_drop_id [of "length w" s] by (auto simp: after_def simp del: append_take_drop_id)

lemma after_length: "after w s = Some r \<Longrightarrow> length r + length w = length s"
  by (simp add: after_iff)

lemma match_mov_length: "match_mov axis s = Some (b, r, rest) \<Longrightarrow> length rest < length s"
proof -
  assume "match_mov axis s = Some (b, r, rest)"
  then obtain s1 s2 s3 s4 where m:
    "after ''mov.u32'' (drop (length (takeWhile (\<lambda>c. c = CHR 0x09 \<or> c = CHR '' '') s)) s) = Some s1"
    "after ''%'' (dropWhile rx_space s1) = Some s2"
    "after '','' (dropWhile rx_space (dropWhile rx_word s2)) = Some s3"
    "after (''%ctaid.'' @ [axis]) (dropWhile rx_space s3) = Some s4"
    "after '';'' (dropWhile rx_space s4) = Some rest"
    by (auto simp: match_mov_def Let_def bind_eq_Some_conv split: if_splits)
  have d: "length (dropWhile P xs) \<le> length xs" for P and xs :: string by (induction xs) auto
  show ?thesis
    using m [THEN after_length] d [of rx_space s1] d [of rx_word s2] d [of rx_space "dropWhile rx_word s2"]
      d [of rx_space s3] d [of rx_space s4] by simp
qed

text \<open>All matches from left to right; one starts at the beginning of the text or with a newline.\<close>

function rewrite_lines :: "char \<Rightarrow> string \<Rightarrow> bool \<Rightarrow> string \<Rightarrow> string \<times> bool" where
  "rewrite_lines axis off start s =
     (case (if start then match_mov axis s else None) of
        Some (b, r, rest) \<Rightarrow>
          (case rewrite_lines axis off False rest of (t, _) \<Rightarrow> (mov_text axis off b r @ t, True))
      | None \<Rightarrow>
         (case s of [] \<Rightarrow> ([], False)
          | c # cs \<Rightarrow>
             (case (if c = CHR 0x0A then match_mov axis cs else None) of
                Some (b, r, rest) \<Rightarrow>
                  (case rewrite_lines axis off False rest of (t, _) \<Rightarrow> (c # mov_text axis off b r @ t, True))
              | None \<Rightarrow> (case rewrite_lines axis off False cs of (t, m) \<Rightarrow> (c # t, m)))))"
  by pat_completeness auto
termination
  by (relation "measure (\<lambda>(_, _, _, s). length s)")
    (auto dest: match_mov_length intro: less_SucI split: if_splits)

declare rewrite_lines.simps [simp del]

definition RewriteAxisMov :: "string \<Rightarrow> char \<Rightarrow> string \<Rightarrow> string \<times> bool" where
  "RewriteAxisMov s axis offset_reg = rewrite_lines axis offset_reg True s"

section \<open>A kernel\<close>

record ptx_result =
  pt_text :: string
  pt_modified :: bool
  pt_offset_x :: bool
  pt_offset_y :: bool
  pt_offset_z :: bool
  pt_cross_block_sync :: bool
  pt_diagnostic :: string

definition untouched :: "string \<Rightarrow> string \<Rightarrow> ptx_result" where
  "untouched ptx why =
     \<lparr> pt_text = ptx, pt_modified = False, pt_offset_x = False, pt_offset_y = False, pt_offset_z = False,
       pt_cross_block_sync = False, pt_diagnostic = why \<rparr>"

definition offset_header :: string where
  "offset_header =
     [CHR 0x0A, CHR 0x09] @ ''.reg .b32 %__hb_rx;'' @ [CHR 0x0A, CHR 0x09] @ ''.reg .b32 %__hb_ry;''
     @ [CHR 0x0A, CHR 0x09] @ ''.reg .b32 %__hb_rz;'' @ [CHR 0x0A, CHR 0x09]
     @ ''ld.param.u32 %__hb_rx, [__hb_off_x];'' @ [CHR 0x0A, CHR 0x09]
     @ ''ld.param.u32 %__hb_ry, [__hb_off_y];'' @ [CHR 0x0A, CHR 0x09]
     @ ''ld.param.u32 %__hb_rz, [__hb_off_z];'' @ [CHR 0x0A]"

definition TransformKernelPtx :: "string \<Rightarrow> string \<Rightarrow> ptx_result" where
  "TransformKernelPtx ptx name =
     (case FindEntryParamClose ptx name of None \<Rightarrow> untouched ptx ''ENTRY_NOT_FOUND''
      | Some (a, b) \<Rightarrow>
         if ParamListHasOffsets ptx a b then untouched ptx ''ALREADY_TRANSFORMED''
         else let s = InjectOffsetParams ptx a b in
          (case FindEntryParamClose s name of None \<Rightarrow> untouched ptx ''INTERNAL_ENTRY_LOST''
           | Some (_, b2) \<Rightarrow>
             (case find_from ''{'' s b2 of None \<Rightarrow> untouched ptx ''BODY_NOT_FOUND''
              | Some bo \<Rightarrow>
                (case FindClosingBrace s bo of None \<Rightarrow> untouched ptx ''UNBALANCED_BRACES''
                 | Some bc \<Rightarrow>
                    if ContainsCrossBlockSync (between s bo bc)
                    then (untouched ptx ''CROSS_BLOCK_SYNC'')\<lparr> pt_cross_block_sync := True \<rparr>
                    else let (t1, x) = RewriteAxisMov (between s bo bc) CHR ''x'' ''%__hb_rx'';
                             (t2, y) = RewriteAxisMov t1 CHR ''y'' ''%__hb_ry'';
                             (t3, z) = RewriteAxisMov t2 CHR ''z'' ''%__hb_rz'' in
                      \<lparr> pt_text = take (bo + 1) s @ offset_header @ t3 @ drop bc s, pt_modified = True,
                        pt_offset_x = x, pt_offset_y = y, pt_offset_z = z, pt_cross_block_sync = False,
                        pt_diagnostic = ''OK'' \<rparr>))))"

section \<open>A module\<close>

text \<open>The kernels of a module: every \<^verbatim>\<open>.entry \<close> that does not end a longer word is followed by a name.\<close>

definition word_char :: "char \<Rightarrow> bool" where
  "word_char c \<longleftrightarrow> rx_word c \<or> c = CHR ''.''"

lemma find_from_bounds: "find_from w s pos = Some p \<Longrightarrow> pos \<le> p \<and> p + length w \<le> length s"
  by (auto simp: find_from_def find_Some_iff)

function CollectEntryNames :: "string \<Rightarrow> nat \<Rightarrow> string list" where
  "CollectEntryNames ptx pos =
     (case find_from ''.entry '' ptx pos of None \<Rightarrow> []
      | Some p \<Rightarrow>
         if p < pos then []
         else if 0 < p \<and> word_char (ptx ! (p - 1)) then CollectEntryNames ptx (p + 7)
         else let r = drop (p + 7) ptx; sp = length (takeWhile IsSpace r);
                  name = takeWhile (\<lambda>c. \<not> IsSpace c \<and> c \<noteq> CHR ''('') (drop sp r) in
           (if name \<noteq> [] then [name] else []) @ CollectEntryNames ptx (p + 7 + sp + length name))"
  by pat_completeness auto
termination by (relation "measure (\<lambda>(ptx, pos). length ptx - pos)") (auto dest: find_from_bounds)

declare CollectEntryNames.simps [simp del]

text \<open>The list of verified kernels: names between commas, blanks apart. The flag is the wildcard.\<close>

fun split_names :: "string \<Rightarrow> string \<Rightarrow> string list" where
  "split_names cur [] = (if cur = [] then [] else [cur])"
| "split_names cur (c # cs) =
     (if c = CHR '','' then (if cur = [] then [] else [cur]) @ split_names [] cs
      else if \<not> rx_space c then split_names (cur @ [c]) cs
      else split_names cur cs)"

definition VerifiedKernelNames :: "getenv \<Rightarrow> string list \<times> bool" where
  "VerifiedKernelNames env =
     (let e = (case env ''UXSCHED_HB_VERIFIED_KERNELS'' of
                 Some v \<Rightarrow> if v = [] then env ''HB_SPLIT_KERNELS'' else Some v
               | None \<Rightarrow> env ''HB_SPLIT_KERNELS'') in
      case e of None \<Rightarrow> ([], False)
      | Some v \<Rightarrow> (let names = split_names [] v in if ''*'' \<in> set names then ([], True) else (names, False)))"

function count_from :: "string \<Rightarrow> string \<Rightarrow> nat \<Rightarrow> nat" where
  "count_from w s pos =
     (case find_from w s pos of None \<Rightarrow> 0
      | Some p \<Rightarrow> if w = [] then 0 else Suc (count_from w s (p + length w)))"
  by pat_completeness auto
termination by (relation "measure (\<lambda>(w, s, pos). Suc (length s) - pos)") (simp, drule find_from_bounds, case_tac w, simp, simp, arith)

declare count_from.simps [simp del]

definition CountParamsForKernel :: "string \<Rightarrow> string \<Rightarrow> nat option" where
  "CountParamsForKernel ptx name =
     map_option (\<lambda>(a, b). count_from ''.param'' (between ptx a b) 0) (FindEntryParamClose ptx name)"

end
