(* ===== verification/HbSplit.thy ===== *)
theory HbSplit
  imports PtxText
begin

text \<open>
  The splitting of CUDA kernels (\<^verbatim>\<open>platforms/cuda/hal/src/hb_split/backend.cpp\<close>): a kernel of
  low priority is replaced by several of a transformed function that each run a box of its
  grid, so that the scheduler can stop it between two of them; and the choice between that and
  a plain launch (\<^verbatim>\<open>platforms/cuda/hal/src/runtime/runtime_strategy.cpp\<close>). Environment
  variables are a function, the build flag \<^verbatim>\<open>UXSCHED_ENABLE_HB_SPLIT\<close> is a parameter, and what
  cuxtra says of the transformed function is an argument.
\<close>

section \<open>Decomposition of a grid\<close>

record grid3d =
  gx :: nat
  gy :: nat
  gz :: nat

record split_spec =
  sp_grid :: grid3d
  sp_offset :: "nat \<times> nat \<times> nat"

definition Volume :: "grid3d \<Rightarrow> nat" where
  "Volume g = gx g * gy g * gz g mod 2 ^ 64"

text \<open>The longest axis, and how far the first half goes along it.\<close>

definition split_axis :: "nat \<Rightarrow> nat \<Rightarrow> nat \<Rightarrow> nat" where
  "split_axis dx dy dz =
     (if dy \<ge> dx \<and> dy \<ge> dz then 1 else if dz \<ge> dx \<and> dz \<ge> dy then 2 else 0)"

definition left_len :: "nat \<Rightarrow> nat \<Rightarrow> nat \<Rightarrow> nat" where
  "left_len m len denom =
     (let l = max 1 (min len (m div max 1 denom)) in if l \<ge> len then max 1 (len div 2) else l)"

partial_function (option) DecomposeBox ::
    "nat \<Rightarrow> nat \<Rightarrow> nat \<Rightarrow> nat \<Rightarrow> nat \<Rightarrow> nat \<Rightarrow> nat \<Rightarrow> split_spec list option" where
  "DecomposeBox m x0 y0 z0 x1 y1 z1 =
     (let dx = x1 - x0; dy = y1 - y0; dz = z1 - z0; vol = dx * dy * dz mod 2 ^ 64 in
      if vol = 0 then Some []
      else if vol \<le> m then Some [\<lparr> sp_grid = \<lparr> gx = dx, gy = dy, gz = dz \<rparr>, sp_offset = (x0, y0, z0) \<rparr>]
      else if split_axis dx dy dz = 0 then
        (let x = x0 + left_len m dx (dy * dz) in
         Option.bind (DecomposeBox m x0 y0 z0 x y1 z1) (\<lambda>a.
         Option.bind (DecomposeBox m x y0 z0 x1 y1 z1) (\<lambda>b. Some (a @ b))))
      else if split_axis dx dy dz = 1 then
        (let y = y0 + left_len m dy (dx * dz) in
         Option.bind (DecomposeBox m x0 y0 z0 x1 y z1) (\<lambda>a.
         Option.bind (DecomposeBox m x0 y z0 x1 y1 z1) (\<lambda>b. Some (a @ b))))
      else
        (let z = z0 + left_len m dz (dx * dy) in
         Option.bind (DecomposeBox m x0 y0 z0 x1 y1 z) (\<lambda>a.
         Option.bind (DecomposeBox m x0 y0 z x1 y1 z1) (\<lambda>b. Some (a @ b)))))"

definition DecomposeGrid :: "grid3d \<Rightarrow> int \<Rightarrow> split_spec list option" where
  "DecomposeGrid g split_blocks =
     (if gx g = 0 \<or> gy g = 0 \<or> gz g = 0 \<or> split_blocks \<le> 0 then Some []
      else DecomposeBox (nat split_blocks) 0 0 0 (gx g) (gy g) (gz g))"

text \<open>The blocks of the original grid that a part runs.\<close>

definition covers :: "split_spec \<Rightarrow> nat \<times> nat \<times> nat \<Rightarrow> bool" where
  "covers s p =
     (case (sp_offset s, p) of ((ox, oy, oz), (x, y, z)) \<Rightarrow>
        ox \<le> x \<and> x < ox + gx (sp_grid s) \<and> oy \<le> y \<and> y < oy + gy (sp_grid s) \<and> oz \<le> z \<and> z < oz + gz (sp_grid s))"

definition times_run :: "split_spec list \<Rightarrow> nat \<times> nat \<times> nat \<Rightarrow> nat" where
  "times_run ss p = length (filter (\<lambda>s. covers s p) ss)"

definition good_parts :: "nat \<Rightarrow> split_spec list \<Rightarrow> bool" where
  "good_parts m ss \<longleftrightarrow>
     (\<forall>s\<in>set ss. 1 \<le> Volume (sp_grid s) \<and> Volume (sp_grid s) \<le> m)"

lemma times_run_append [simp]: "times_run (a @ b) p = times_run a p + times_run b p"
  by (simp add: times_run_def)

lemma good_parts_append [simp]: "good_parts m (a @ b) \<longleftrightarrow> good_parts m a \<and> good_parts m b"
  by (auto simp: good_parts_def)

lemma left_len_bounds: "2 \<le> len \<Longrightarrow> 1 \<le> left_len m len d \<and> left_len m len d < len"
  by (auto simp: left_len_def Let_def)

lemma split_axis_longest:
  assumes "1 < dx * dy * dz"
  shows "split_axis dx dy dz = 0 \<Longrightarrow> 2 \<le> dx" "split_axis dx dy dz = 1 \<Longrightarrow> 2 \<le> dy"
    "split_axis dx dy dz \<noteq> 0 \<Longrightarrow> split_axis dx dy dz \<noteq> 1 \<Longrightarrow> 2 \<le> dz"
proof -
  have nz: "dx \<noteq> 0" "dy \<noteq> 0" "dz \<noteq> 0" using assms by (metis mult_is_0 not_one_less_zero)+
  have "\<not> (dx = 1 \<and> dy = 1 \<and> dz = 1)" using assms by auto
  then show "split_axis dx dy dz = 0 \<Longrightarrow> 2 \<le> dx" "split_axis dx dy dz = 1 \<Longrightarrow> 2 \<le> dy"
    "split_axis dx dy dz \<noteq> 0 \<Longrightarrow> split_axis dx dy dz \<noteq> 1 \<Longrightarrow> 2 \<le> dz"
    using nz unfolding split_axis_def by (presburger | (simp split: if_splits, presburger))+
qed

text \<open>Halving a box along an axis, whatever the axis: what the two halves run is what it runs.\<close>

definition in_box :: "nat \<Rightarrow> nat \<Rightarrow> nat \<Rightarrow> nat \<Rightarrow> nat \<Rightarrow> nat \<Rightarrow> nat \<times> nat \<times> nat \<Rightarrow> bool" where
  "in_box x0 y0 z0 x1 y1 z1 p =
     (case p of (x, y, z) \<Rightarrow> x0 \<le> x \<and> x < x1 \<and> y0 \<le> y \<and> y < y1 \<and> z0 \<le> z \<and> z < z1)"

definition splits_box :: "nat \<Rightarrow> nat \<Rightarrow> nat \<Rightarrow> nat \<Rightarrow> nat \<Rightarrow> nat \<Rightarrow> nat \<Rightarrow> split_spec list \<Rightarrow> bool" where
  "splits_box m x0 y0 z0 x1 y1 z1 ss \<longleftrightarrow>
     good_parts m ss \<and> (\<forall>p. times_run ss p = (if in_box x0 y0 z0 x1 y1 z1 p then 1 else 0))"

lemma splits_box_append:
  "x0 \<le> x \<Longrightarrow> x \<le> x1 \<Longrightarrow> splits_box m x0 y0 z0 x y1 z1 a \<Longrightarrow> splits_box m x y0 z0 x1 y1 z1 b
    \<Longrightarrow> splits_box m x0 y0 z0 x1 y1 z1 (a @ b)"
  "y0 \<le> y \<Longrightarrow> y \<le> y1 \<Longrightarrow> splits_box m x0 y0 z0 x1 y z1 a \<Longrightarrow> splits_box m x0 y z0 x1 y1 z1 b
    \<Longrightarrow> splits_box m x0 y0 z0 x1 y1 z1 (a @ b)"
  "z0 \<le> z \<Longrightarrow> z \<le> z1 \<Longrightarrow> splits_box m x0 y0 z0 x1 y1 z a \<Longrightarrow> splits_box m x0 y0 z x1 y1 z1 b
    \<Longrightarrow> splits_box m x0 y0 z0 x1 y1 z1 (a @ b)"
  by (auto simp: splits_box_def in_box_def)

lemma DecomposeBox_spec:
  assumes "1 \<le> m" "x0 \<le> x1" "y0 \<le> y1" "z0 \<le> z1" "(x1 - x0) * (y1 - y0) * (z1 - z0) < 2 ^ 64"
  shows "\<exists>ss. DecomposeBox m x0 y0 z0 x1 y1 z1 = Some ss \<and> splits_box m x0 y0 z0 x1 y1 z1 ss"
  using assms
proof (induction "(x1 - x0) * (y1 - y0) * (z1 - z0)" arbitrary: x0 y0 z0 x1 y1 z1 rule: less_induct)
  case less
  let ?dx = "x1 - x0" and ?dy = "y1 - y0" and ?dz = "z1 - z0"
  let ?v = "?dx * ?dy * ?dz"
  have v: "?v mod 2 ^ 64 = ?v" using less.prems(5) by simp
  consider "?v = 0" | "0 < ?v" "?v \<le> m" | "m < ?v" by linarith
  then show ?case
  proof cases
    case 1
    then have "DecomposeBox m x0 y0 z0 x1 y1 z1 = Some []" by (subst DecomposeBox.simps) (simp only: Let_def 1 mod_0 simp_thms if_True)
    then show ?thesis using 1 by (auto simp: splits_box_def good_parts_def times_run_def in_box_def)
  next
    case 2
    let ?s = "\<lparr> sp_grid = \<lparr> gx = ?dx, gy = ?dy, gz = ?dz \<rparr>, sp_offset = (x0, y0, z0) \<rparr>"
    have "DecomposeBox m x0 y0 z0 x1 y1 z1 = Some [?s]"
      using 2 gr_implies_not0 [OF 2(1)] by (subst DecomposeBox.simps) (simp only: Let_def v if_True if_False)
    moreover have "splits_box m x0 y0 z0 x1 y1 z1 [?s]"
      using 2 v less.prems(2-4)
      by (auto simp: splits_box_def good_parts_def times_run_def in_box_def covers_def Volume_def Suc_le_eq)
    ultimately show ?thesis by blast
  next
    case 3
    then have big: "1 < ?v" using less.prems(1) by linarith
    then have pos: "0 < ?dx" "0 < ?dy" "0 < ?dz" by (metis mult_is_0 neq0_conv not_one_less_zero)+
    have cond: "?v \<noteq> 0" "\<not> ?v \<le> m" using 3 by linarith+
    note L = split_axis_longest [OF big]
    have sub: "a < b \<Longrightarrow> a * c * d < b * c * d" "a < b \<Longrightarrow> c * a * d < c * b * d" "a < b \<Longrightarrow> c * d * a < c * d * b"
      if "0 < c" "0 < d" for a b c d :: nat using that by simp_all
    consider (x) "split_axis ?dx ?dy ?dz = 0" | (y) "split_axis ?dx ?dy ?dz = 1"
      | (z) "split_axis ?dx ?dy ?dz \<noteq> 0" "split_axis ?dx ?dy ?dz \<noteq> 1" by blast
    then show ?thesis
    proof cases
      case x
      define l where "l = left_len m ?dx (?dy * ?dz)"
      have l: "1 \<le> l" "l < ?dx" using left_len_bounds [OF L(1) [OF x]] by (simp_all add: l_def)
      have lt: "(x0 + l - x0) * ?dy * ?dz < ?v" "(x1 - (x0 + l)) * ?dy * ?dz < ?v"
        by (rule sub(1) [OF pos(2,3)]; use l in simp)+
      have le: "x0 + l \<le> x1" using l(2) by simp
      obtain a where a: "DecomposeBox m x0 y0 z0 (x0 + l) y1 z1 = Some a" "splits_box m x0 y0 z0 (x0 + l) y1 z1 a"
        using less.hyps [OF lt(1) less.prems(1) le_add1 less.prems(3) less.prems(4) less_trans [OF lt(1) less.prems(5)]] by blast
      obtain b where b: "DecomposeBox m (x0 + l) y0 z0 x1 y1 z1 = Some b" "splits_box m (x0 + l) y0 z0 x1 y1 z1 b"
        using less.hyps [OF lt(2) less.prems(1) le less.prems(3) less.prems(4) less_trans [OF lt(2) less.prems(5)]] by blast
      have "DecomposeBox m x0 y0 z0 x1 y1 z1 = Some (a @ b)"
        by (subst DecomposeBox.simps) (simp only: Let_def v cond x l_def [symmetric] a(1) b(1) if_True if_False
            one_neq_zero simp_thms Option.bind.simps)
      then show ?thesis using splits_box_append(1) [OF le_add1 le a(2) b(2)] by blast
    next
      case y
      define l where "l = left_len m ?dy (?dx * ?dz)"
      have l: "1 \<le> l" "l < ?dy" using left_len_bounds [OF L(2) [OF y]] by (simp_all add: l_def)
      have lt: "?dx * (y0 + l - y0) * ?dz < ?v" "?dx * (y1 - (y0 + l)) * ?dz < ?v"
        by (rule sub(2) [OF pos(1,3)]; use l in simp)+
      have le: "y0 + l \<le> y1" using l(2) by simp
      obtain a where a: "DecomposeBox m x0 y0 z0 x1 (y0 + l) z1 = Some a" "splits_box m x0 y0 z0 x1 (y0 + l) z1 a"
        using less.hyps [OF lt(1) less.prems(1) less.prems(2) le_add1 less.prems(4) less_trans [OF lt(1) less.prems(5)]] by blast
      obtain b where b: "DecomposeBox m x0 (y0 + l) z0 x1 y1 z1 = Some b" "splits_box m x0 (y0 + l) z0 x1 y1 z1 b"
        using less.hyps [OF lt(2) less.prems(1) less.prems(2) le less.prems(4) less_trans [OF lt(2) less.prems(5)]] by blast
      have "DecomposeBox m x0 y0 z0 x1 y1 z1 = Some (a @ b)"
        by (subst DecomposeBox.simps) (simp only: Let_def v cond y l_def [symmetric] a(1) b(1) if_True if_False
            one_neq_zero simp_thms Option.bind.simps)
      then show ?thesis using splits_box_append(2) [OF le_add1 le a(2) b(2)] by blast
    next
      case z
      define l where "l = left_len m ?dz (?dx * ?dy)"
      have l: "1 \<le> l" "l < ?dz" using left_len_bounds [OF L(3) [OF z]] by (simp_all add: l_def)
      have lt: "?dx * ?dy * (z0 + l - z0) < ?v" "?dx * ?dy * (z1 - (z0 + l)) < ?v"
        by (rule sub(3) [OF pos(1,2)]; use l in simp)+
      have le: "z0 + l \<le> z1" using l(2) by simp
      obtain a where a: "DecomposeBox m x0 y0 z0 x1 y1 (z0 + l) = Some a" "splits_box m x0 y0 z0 x1 y1 (z0 + l) a"
        using less.hyps [OF lt(1) less.prems(1) less.prems(2) less.prems(3) le_add1 less_trans [OF lt(1) less.prems(5)]] by blast
      obtain b where b: "DecomposeBox m x0 y0 (z0 + l) x1 y1 z1 = Some b" "splits_box m x0 y0 (z0 + l) x1 y1 z1 b"
        using less.hyps [OF lt(2) less.prems(1) less.prems(2) less.prems(3) le less_trans [OF lt(2) less.prems(5)]] by blast
      have "DecomposeBox m x0 y0 z0 x1 y1 z1 = Some (a @ b)"
        by (subst DecomposeBox.simps) (simp only: Let_def v cond z l_def [symmetric] a(1) b(1) if_True if_False
            one_neq_zero simp_thms Option.bind.simps)
      then show ?thesis using splits_box_append(3) [OF le_add1 le a(2) b(2)] by blast
    qed
  qed
qed

section \<open>Settings\<close>

definition same_name :: "string \<Rightarrow> string \<Rightarrow> bool" where
  "same_name a b \<longleftrightarrow> map to_lower a = map to_lower b"

text \<open>A variable that is set and not empty.\<close>

definition env_value :: "getenv \<Rightarrow> string \<Rightarrow> string option" where
  "env_value env name = (case env name of Some [] \<Rightarrow> None | v \<Rightarrow> v)"

definition IsTruthyEnv :: "getenv \<Rightarrow> string \<Rightarrow> bool \<Rightarrow> bool" where
  "IsTruthyEnv env name fallback =
     (case env_value env name of None \<Rightarrow> fallback
      | Some v \<Rightarrow> \<not> (v = ''0'' \<or> same_name v ''off'' \<or> same_name v ''false'' \<or> same_name v ''no''))"

datatype backend_mode = BackendNative | BackendHbSplit | BackendAuto

definition BackendModeFromEnv :: "getenv \<Rightarrow> backend_mode" where
  "BackendModeFromEnv env =
     (case (case env_value env ''UXSCHED_CUDA_RUNTIME_STRATEGY'' of Some v \<Rightarrow> Some v
            | None \<Rightarrow> env_value env ''UXSCHED_CUDA_PREEMPT_BACKEND'') of
        None \<Rightarrow> BackendNative
      | Some v \<Rightarrow>
          if same_name v ''NATIVE'' then BackendNative
          else if same_name v ''HB_SPLIT'' \<or> same_name v ''HB_FIXED'' \<or> same_name v ''HB_RUNTIME''
          then BackendHbSplit
          else if same_name v ''AUTO'' then BackendAuto else BackendNative)"

definition EnvInt64 :: "getenv \<Rightarrow> string \<Rightarrow> int \<Rightarrow> int" where
  "EnvInt64 env name fallback =
     (case env_value env name of None \<Rightarrow> fallback
      | Some v \<Rightarrow> (case strtol v of None \<Rightarrow> fallback | Some (n, _) \<Rightarrow> n))"

definition SplitBlocks :: "getenv \<Rightarrow> int" where
  "SplitBlocks env =
     (let v = EnvInt64 env ''UXSCHED_HB_SPLIT_BLOCKS'' 512 in if v \<le> 0 \<or> v > 2 ^ 31 - 1 then 512 else v)"

definition StrictMode :: "getenv \<Rightarrow> bool" where
  "StrictMode env = IsTruthyEnv env ''UXSCHED_HB_STRICT'' False"

definition CurrentPriority :: "getenv \<Rightarrow> int" where
  "CurrentPriority env =
     (if env_value env ''UXSCHED_HB_PRIORITY'' \<noteq> None then EnvInt64 env ''UXSCHED_HB_PRIORITY'' 0
      else EnvInt64 env ''XSCHED_AUTO_XQUEUE_PRIORITY'' 0)"

definition IsLowPriority :: "getenv \<Rightarrow> bool" where
  "IsLowPriority env \<longleftrightarrow> CurrentPriority env < 0"

definition Lv1Compatible :: "getenv \<Rightarrow> bool" where
  "Lv1Compatible env \<longleftrightarrow> EnvInt64 env ''XSCHED_AUTO_XQUEUE_LEVEL'' 1 \<le> 1"

definition RuntimeEnabled :: "bool \<Rightarrow> getenv \<Rightarrow> bool" where
  "RuntimeEnabled build env =
     (if \<not> build then False
      else case env_value env ''UXSCHED_CUDA_RUNTIME_STRATEGY'' of
        Some v \<Rightarrow> same_name v ''HB_FIXED'' \<or> same_name v ''HB_SPLIT''
      | None \<Rightarrow> BackendModeFromEnv env \<noteq> BackendNative)"

section \<open>Modules and functions\<close>

text \<open>Handles of the CUDA driver; 0 is the null pointer.\<close>

type_synonym cuhandle = "64 word"

record kernel_capability =
  ptx_available :: bool
  transform_attempted :: bool
  transform_succeeded :: bool
  supports_offset_x :: bool
  supports_offset_y :: bool
  supports_offset_z :: bool
  cross_block_sync :: bool
  supports_kernel_params :: bool
  supports_extra :: bool
  splittable :: bool
  fallback_reason :: string

definition no_capability :: kernel_capability where
  "no_capability =
     \<lparr> ptx_available = False, transform_attempted = False, transform_succeeded = False,
       supports_offset_x = False, supports_offset_y = False, supports_offset_z = False,
       cross_block_sync = False, supports_kernel_params = False, supports_extra = False,
       splittable = False, fallback_reason = [] \<rparr>"

record transform_record =
  tr_capability :: kernel_capability
  tr_param_count :: nat

record module_info =
  mi_ptx_available :: bool
  mi_original_ptx :: string
  mi_ptx_bytes :: nat
  mi_transformed_module :: cuhandle
  mi_records :: "(string \<times> transform_record) list"

record function_info =
  fi_capability :: kernel_capability
  fi_param_count :: nat
  fi_kernel_name :: string
  fi_original_module :: cuhandle
  fi_original_function :: cuhandle
  fi_transformed_function :: cuhandle

text \<open>The registries, and the XQueues whose threshold has been set.\<close>

record split_state =
  hs_modules :: "(cuhandle \<times> module_info) list"
  hs_functions :: "(cuhandle \<times> function_info) list"
  hs_thresholds :: "xhandle list"

text \<open>One kernel of the module: the text so far and its record.\<close>

definition transform_entry :: "bool \<Rightarrow> string list \<Rightarrow> string \<Rightarrow> string \<Rightarrow> string \<Rightarrow> string \<times> transform_record" where
  "transform_entry wildcard verified ptx text name =
     (let cap = no_capability\<lparr> ptx_available := True, supports_kernel_params := True,
                  fallback_reason := ''KERNEL_NOT_VERIFIED'' \<rparr> in
      case CountParamsForKernel ptx name of
        None \<Rightarrow> (text, \<lparr> tr_capability = cap\<lparr> fallback_reason := ''PARAM_COUNT_UNAVAILABLE'' \<rparr>, tr_param_count = 0 \<rparr>)
      | Some n \<Rightarrow>
          if \<not> wildcard \<and> name \<notin> set verified
          then (text, \<lparr> tr_capability = cap, tr_param_count = n \<rparr>)
          else let tr = TransformKernelPtx text name;
                   cap1 = cap\<lparr> transform_attempted := True, transform_succeeded := pt_modified tr,
                     supports_offset_x := pt_offset_x tr, supports_offset_y := pt_offset_y tr,
                     supports_offset_z := pt_offset_z tr, cross_block_sync := pt_cross_block_sync tr \<rparr> in
            if pt_modified tr
            then (pt_text tr, \<lparr> tr_capability = cap1\<lparr> splittable := True, fallback_reason := [] \<rparr>, tr_param_count = n \<rparr>)
            else (text, \<lparr> tr_capability = cap1\<lparr> fallback_reason :=
                            if pt_diagnostic tr = [] then ''TRANSFORM_FAILED'' else pt_diagnostic tr \<rparr>,
                          tr_param_count = n \<rparr>))"

definition transform_entries ::
  "bool \<Rightarrow> string list \<Rightarrow> string \<Rightarrow> string list \<Rightarrow> string \<times> (string \<times> transform_record) list" where
  "transform_entries wildcard verified ptx names =
     foldl (\<lambda>(text, recs) name. case transform_entry wildcard verified ptx text name of
              (text', r) \<Rightarrow> (text', AList.update name r recs)) (ptx, []) names"

text \<open>\<open>load\<close> is the driver's answer to the request to load a text.\<close>

definition TransformModulePtx :: "getenv \<Rightarrow> (string \<Rightarrow> cuhandle) \<Rightarrow> string \<Rightarrow> module_info" where
  "TransformModulePtx env load ptx =
     (let info = \<lparr> mi_ptx_available = True, mi_original_ptx = ptx, mi_ptx_bytes = length ptx,
                   mi_transformed_module = 0, mi_records = [] \<rparr>;
          (verified, wildcard) = VerifiedKernelNames env in
      if \<not> wildcard \<and> verified = [] then info
      else let (text, recs) = transform_entries wildcard verified ptx (CollectEntryNames ptx 0) in
        if \<not> list_ex (\<lambda>(_, r). transform_succeeded (tr_capability r)) recs then info\<lparr> mi_records := recs \<rparr>
        else if load text = 0
        then info\<lparr> mi_records := map (\<lambda>(k, r). (k, r\<lparr> tr_capability := (tr_capability r)\<lparr> splittable := False,
                     fallback_reason := ''TRANSFORMED_MODULE_LOAD_FAILED'' \<rparr> \<rparr>)) recs \<rparr>
        else info\<lparr> mi_records := recs, mi_transformed_module := load text \<rparr>)"

definition RegisterModuleInfo :: "cuhandle \<Rightarrow> module_info \<Rightarrow> split_state \<Rightarrow> bool \<times> split_state" where
  "RegisterModuleInfo m info s =
     (if m = 0 then (False, s) else (True, s\<lparr> hs_modules := AList.update m info (hs_modules s) \<rparr>))"

definition FindModuleInfo :: "cuhandle \<Rightarrow> split_state \<Rightarrow> module_info option" where
  "FindModuleInfo m s = map_of (hs_modules s) m"

definition FindFunctionInfo :: "cuhandle \<Rightarrow> split_state \<Rightarrow> function_info option" where
  "FindFunctionInfo f s = map_of (hs_functions s) f"

text \<open>\<open>get_function\<close> is the driver's function of a name in a module, 0 if there is none.\<close>

definition RegisterFunctionInfo ::
  "(cuhandle \<Rightarrow> string \<Rightarrow> cuhandle) \<Rightarrow> cuhandle \<Rightarrow> cuhandle \<Rightarrow> string \<Rightarrow> split_state \<Rightarrow> bool \<times> split_state" where
  "RegisterFunctionInfo get_function f m name s =
     (if f = 0 \<or> m = 0 \<or> name = [] then (False, s)
      else case FindModuleInfo m s of None \<Rightarrow> (False, s)
      | Some mi \<Rightarrow>
         (let (cap, n) = (case map_of (mi_records mi) name of
                Some r \<Rightarrow> (tr_capability r, tr_param_count r)
              | None \<Rightarrow> (no_capability\<lparr> ptx_available := mi_ptx_available mi, supports_kernel_params := True,
                          fallback_reason := ''ENTRY_NOT_FOUND'' \<rparr>,
                         case CountParamsForKernel (mi_original_ptx mi) name of None \<Rightarrow> 0 | Some k \<Rightarrow> k));
              tf = (if transform_succeeded cap \<and> mi_transformed_module mi \<noteq> 0
                    then get_function (mi_transformed_module mi) name else 0);
              cap' = (if transform_succeeded cap \<and> tf = 0
                      then cap\<lparr> splittable := False, fallback_reason :=
                             if mi_transformed_module mi \<noteq> 0 then ''TRANSFORMED_FUNCTION_NOT_FOUND''
                             else ''TRANSFORMED_MODULE_UNAVAILABLE'' \<rparr>
                      else cap) in
          (True, s\<lparr> hs_functions := AList.update f
             \<lparr> fi_capability = cap', fi_param_count = n, fi_kernel_name = name, fi_original_module = m,
               fi_original_function = f, fi_transformed_function = tf \<rparr> (hs_functions s) \<rparr>)))"

definition RemoveModuleInfo :: "cuhandle \<Rightarrow> split_state \<Rightarrow> cuhandle \<times> split_state" where
  "RemoveModuleInfo m s =
     (case FindModuleInfo m s of None \<Rightarrow> 0 | Some mi \<Rightarrow> mi_transformed_module mi,
      s\<lparr> hs_modules := AList.delete m (hs_modules s),
         hs_functions := filter (\<lambda>(_, i). fi_original_module i \<noteq> m) (hs_functions s) \<rparr>)"

text \<open>Loading a module: the driver's result and module come first, and the text is registered when it is
  one that the splitter is to look at. \<open>file\<close> is what the file holds, \<open>None\<close> if it cannot be read.\<close>

definition register_loaded ::
  "getenv \<Rightarrow> (string \<Rightarrow> cuhandle) \<Rightarrow> int \<times> cuhandle \<Rightarrow> string \<Rightarrow> split_state \<Rightarrow> split_state" where
  "register_loaded env load drv ptx s =
     (if fst drv \<noteq> 0 \<or> snd drv = 0 \<or> ptx = [] then s
      else snd (RegisterModuleInfo (snd drv) (TransformModulePtx env load ptx) s))"

definition kImageScanLimit :: nat where
  "kImageScanLimit = 64 * 1024 * 1024"

definition XModuleLoad ::
  "bool \<Rightarrow> getenv \<Rightarrow> (string \<Rightarrow> cuhandle) \<Rightarrow> int \<times> cuhandle \<Rightarrow> string option \<Rightarrow> split_state
    \<Rightarrow> int \<times> split_state" where
  "XModuleLoad build env load drv file s =
     (if \<not> RuntimeEnabled build env \<or> \<not> IsLowPriority env \<or> \<not> Lv1Compatible env then (fst drv, s)
      else case file of None \<Rightarrow> (fst drv, s)
      | Some raw \<Rightarrow>
          if raw = [] \<or> length raw > kImageScanLimit \<or> \<not> LooksLikePtxText raw then (fst drv, s)
          else (fst drv, register_loaded env load drv raw s))"

text \<open>\<^verbatim>\<open>XModuleLoadData\<close> and \<^verbatim>\<open>XModuleLoadDataEx\<close> are given a pointer and no length: \<open>mem\<close> is what is
  found in memory from there on, of which the splitter looks at \<open>kImageScanLimit\<close> bytes.\<close>

definition XModuleLoadData ::
  "bool \<Rightarrow> getenv \<Rightarrow> (string \<Rightarrow> cuhandle) \<Rightarrow> int \<times> cuhandle \<Rightarrow> string option \<Rightarrow> split_state
    \<Rightarrow> int \<times> split_state" where
  "XModuleLoadData build env load drv mem s =
     (if \<not> RuntimeEnabled build env \<or> \<not> IsLowPriority env \<or> \<not> Lv1Compatible env then (fst drv, s)
      else case mem of None \<Rightarrow> (fst drv, s)
      | Some m \<Rightarrow>
          if \<not> LooksLikePtxText (take kImageScanLimit m) then (fst drv, s)
          else (fst drv, register_loaded env load drv
                  (takeWhile (\<lambda>c. c \<noteq> CHR 0x00) (take kImageScanLimit m)) s))"

datatype module_call = WaitForXQueues | UnloadModule cuhandle

text \<open>\<open>unload\<close> is the driver's result.\<close>

definition XModuleUnload ::
  "getenv \<Rightarrow> (cuhandle \<Rightarrow> int) \<Rightarrow> cuhandle \<Rightarrow> split_state \<Rightarrow> int \<times> module_call list \<times> split_state" where
  "XModuleUnload env unload m s =
     (case RemoveModuleInfo m s of (t, s') \<Rightarrow>
        if t \<noteq> 0 \<and> unload t \<noteq> 0 \<and> StrictMode env
        then (unload t, [WaitForXQueues, UnloadModule t], s')
        else (unload m, (if t \<noteq> 0 then [WaitForXQueues, UnloadModule t] else []) @ [UnloadModule m], s'))"

definition UnregisterModuleMetadata :: "cuhandle \<Rightarrow> split_state \<Rightarrow> module_call list \<times> split_state" where
  "UnregisterModuleMetadata m s =
     (case RemoveModuleInfo m s of (t, s') \<Rightarrow>
        (if t \<noteq> 0 then [WaitForXQueues, UnloadModule t] else [], s'))"

definition XModuleGetFunction ::
  "(cuhandle \<Rightarrow> string \<Rightarrow> cuhandle) \<Rightarrow> int \<times> cuhandle \<Rightarrow> cuhandle \<Rightarrow> string option \<Rightarrow> split_state
    \<Rightarrow> int \<times> split_state" where
  "XModuleGetFunction get_function drv m name s =
     (case name of None \<Rightarrow> (fst drv, s)
      | Some n \<Rightarrow>
          if fst drv \<noteq> 0 \<or> snd drv = 0 \<or> FindModuleInfo m s = None then (fst drv, s)
          else (fst drv, snd (RegisterFunctionInfo get_function (snd drv) m n s)))"

definition RegisterModuleMetadata ::
  "getenv \<Rightarrow> (string \<Rightarrow> cuhandle) \<Rightarrow> cuhandle \<Rightarrow> string \<Rightarrow> split_state \<Rightarrow> bool \<times> split_state" where
  "RegisterModuleMetadata env load m ptx s =
     (if m = 0 \<or> ptx = [] \<or> \<not> LooksLikePtxText ptx then (False, s)
      else RegisterModuleInfo m (TransformModulePtx env load ptx) s)"

definition LookupFunctionMetadata :: "cuhandle \<Rightarrow> split_state \<Rightarrow> (string \<times> string) option" where
  "LookupFunctionMetadata f s =
     map_option (\<lambda>i. (fi_kernel_name i, fallback_reason (fi_capability i))) (FindFunctionInfo f s)"

section \<open>Launching\<close>

abbreviation (input) CUDA_SUCCESS :: int where "CUDA_SUCCESS \<equiv> 0"
abbreviation (input) CUDA_ERROR_INVALID_VALUE :: int where "CUDA_ERROR_INVALID_VALUE \<equiv> 1"
abbreviation (input) CUDA_ERROR_NOT_SUPPORTED :: int where "CUDA_ERROR_NOT_SUPPORTED \<equiv> 801"

text \<open>A launch command has its own copy of the values of the parameters.\<close>

record launch_cmd =
  lc_function :: cuhandle
  lc_grid :: grid3d
  lc_block :: grid3d
  lc_shared :: nat
  lc_params :: "bytes list"

text \<open>A call of \<^verbatim>\<open>cuLaunchKernel\<close>: its parameters, whether there are extra ones, its XQueue.\<close>

record kernel_launch =
  kl_function :: cuhandle
  kl_grid :: grid3d
  kl_block :: grid3d
  kl_shared :: nat
  kl_params :: "bytes list option"
  kl_extra :: bool
  kl_xqueue :: "xhandle option"

text \<open>The backend leaves the launch alone, or has handled it: the result and the commands submitted.\<close>

datatype try_result = NotHandled | Handled int "launch_cmd list"

definition refuse :: "getenv \<Rightarrow> int \<Rightarrow> try_result" where
  "refuse env err = (if StrictMode env then Handled err [] else NotHandled)"

definition CapabilitySupportsGrid :: "kernel_capability \<Rightarrow> grid3d \<Rightarrow> bool" where
  "CapabilitySupportsGrid cap g \<longleftrightarrow>
     \<not> (gx g > 1 \<and> \<not> supports_offset_x cap) \<and> \<not> (gy g > 1 \<and> \<not> supports_offset_y cap)
     \<and> \<not> (gz g > 1 \<and> \<not> supports_offset_z cap)"

definition SetLpSplitThresholdOnce :: "xhandle \<Rightarrow> split_state \<Rightarrow> split_state \<times> (int \<times> int) option" where
  "SetLpSplitThresholdOnce xq s =
     (if xq \<in> set (hs_thresholds s) then (s, None)
      else (s\<lparr> hs_thresholds := xq # hs_thresholds s \<rparr>, Some (1, 1)))"

definition split_child :: "function_info \<Rightarrow> kernel_launch \<Rightarrow> bytes list \<Rightarrow> split_spec \<Rightarrow> launch_cmd" where
  "split_child info l params sp =
     (case sp_offset sp of (x, y, z) \<Rightarrow>
        \<lparr> lc_function = fi_transformed_function info, lc_grid = sp_grid sp, lc_block = kl_block l,
          lc_shared = kl_shared l,
          lc_params = take (fi_param_count info) params @ [le_bytes 4 (int x), le_bytes 4 (int y), le_bytes 4 (int z)] \<rparr>)"

text \<open>\<open>param_count\<close> is what the driver says of a function; the third result is the setting of the
  XQueue's threshold and batch size. \<open>None\<close> is a decomposition that does not end.\<close>

definition SubmitSplitCommands ::
  "getenv \<Rightarrow> (cuhandle \<Rightarrow> nat) \<Rightarrow> function_info \<Rightarrow> kernel_launch \<Rightarrow> bytes list \<Rightarrow> xhandle \<Rightarrow> split_state
    \<Rightarrow> (split_state \<times> try_result \<times> (int \<times> int) option) option" where
  "SubmitSplitCommands env param_count info l params xq s =
     (if \<not> CapabilitySupportsGrid (fi_capability info) (kl_grid l)
      then Some (s, refuse env CUDA_ERROR_NOT_SUPPORTED, None)
      else map_option (\<lambda>splits.
        if splits = [] then (s, Handled CUDA_ERROR_INVALID_VALUE [], None)
        else if length splits \<le> 1 then (s, NotHandled, None)
        else if param_count (fi_transformed_function info) \<noteq> fi_param_count info + 3
        then (s, refuse env CUDA_ERROR_INVALID_VALUE, None)
        else (case SetLpSplitThresholdOnce xq s of (s', cfg) \<Rightarrow>
          (s', Handled CUDA_SUCCESS (map (split_child info l params) splits), cfg)))
      (DecomposeGrid (kl_grid l) (SplitBlocks env)))"

definition TryLaunchKernelFixed ::
  "bool \<Rightarrow> getenv \<Rightarrow> (cuhandle \<Rightarrow> nat) \<Rightarrow> kernel_launch \<Rightarrow> split_state
    \<Rightarrow> (split_state \<times> try_result \<times> (int \<times> int) option) option" where
  "TryLaunchKernelFixed build env param_count l s =
     (if \<not> build then Some (s, NotHandled, None)
      else if \<not> Lv1Compatible env then Some (s, refuse env CUDA_ERROR_NOT_SUPPORTED, None)
      else if \<not> IsLowPriority env then Some (s, NotHandled, None)
      else case (FindFunctionInfo (kl_function l) s, kl_xqueue l) of
        (None, _) \<Rightarrow> Some (s, refuse env CUDA_ERROR_NOT_SUPPORTED, None)
      | (Some _, None) \<Rightarrow> Some (s, refuse env CUDA_ERROR_NOT_SUPPORTED, None)
      | (Some info, Some xq) \<Rightarrow>
          if \<not> splittable (fi_capability info) \<or> fi_transformed_function info = 0 \<or> kl_extra l
          then Some (s, refuse env CUDA_ERROR_NOT_SUPPORTED, None)
          else (case kl_params l of None \<Rightarrow> Some (s, refuse env CUDA_ERROR_INVALID_VALUE, None)
            | Some params \<Rightarrow>
                if int (Volume (kl_grid l)) \<le> SplitBlocks env then Some (s, NotHandled, None)
                else SubmitSplitCommands env param_count info l params xq s))"

definition TryLaunchKernel ::
  "bool \<Rightarrow> getenv \<Rightarrow> (cuhandle \<Rightarrow> nat) \<Rightarrow> kernel_launch \<Rightarrow> split_state
    \<Rightarrow> (split_state \<times> try_result \<times> (int \<times> int) option) option" where
  "TryLaunchKernel build env param_count l s =
     (if BackendModeFromEnv env = BackendNative then Some (s, NotHandled, None)
      else TryLaunchKernelFixed build env param_count l s)"

section \<open>The strategy\<close>

datatype strategy_mode = StrategyNative | StrategyHbFixed | StrategyHbRuntime | StrategyAuto

definition ParseModeName :: "string option \<Rightarrow> strategy_mode \<Rightarrow> strategy_mode" where
  "ParseModeName mode fallback =
     (case mode of None \<Rightarrow> fallback
      | Some v \<Rightarrow>
          if v = [] then fallback
          else if same_name v ''NATIVE'' then StrategyNative
          else if same_name v ''HB_FIXED'' \<or> same_name v ''HB_SPLIT'' then StrategyHbFixed
          else if same_name v ''HB_RUNTIME'' then StrategyHbRuntime
          else if same_name v ''AUTO'' then StrategyAuto else StrategyNative)"

definition CurrentRuntimeStrategyMode :: "getenv \<Rightarrow> strategy_mode" where
  "CurrentRuntimeStrategyMode env =
     (case env_value env ''UXSCHED_CUDA_RUNTIME_STRATEGY'' of
        Some v \<Rightarrow> ParseModeName (Some v) StrategyNative
      | None \<Rightarrow> ParseModeName (env_value env ''UXSCHED_CUDA_PREEMPT_BACKEND'') StrategyNative)"

text \<open>Where a command goes: straight to the driver, or into an XQueue.\<close>

datatype launch_effect = Direct launch_cmd | ToXQueue xhandle launch_cmd

fun effect_cmd :: "launch_effect \<Rightarrow> launch_cmd" where
  "effect_cmd (Direct c) = c"
| "effect_cmd (ToXQueue _ c) = c"

definition native_cmd :: "kernel_launch \<Rightarrow> launch_cmd" where
  "native_cmd l = \<lparr> lc_function = kl_function l, lc_grid = kl_grid l, lc_block = kl_block l,
     lc_shared = kl_shared l, lc_params = (case kl_params l of None \<Rightarrow> [] | Some ps \<Rightarrow> ps) \<rparr>"

text \<open>\<open>drv\<close> is what the driver says to a direct launch.\<close>

definition Native_SubmitKernel :: "(launch_cmd \<Rightarrow> int) \<Rightarrow> kernel_launch \<Rightarrow> int \<times> launch_effect list" where
  "Native_SubmitKernel drv l =
     (case kl_xqueue l of None \<Rightarrow> (drv (native_cmd l), [Direct (native_cmd l)])
      | Some xq \<Rightarrow> (CUDA_SUCCESS, [ToXQueue xq (native_cmd l)]))"

definition SubmitKernelWithRuntimeStrategy ::
  "bool \<Rightarrow> getenv \<Rightarrow> (cuhandle \<Rightarrow> nat) \<Rightarrow> (launch_cmd \<Rightarrow> int) \<Rightarrow> kernel_launch \<Rightarrow> split_state
    \<Rightarrow> (split_state \<times> int \<times> launch_effect list \<times> (int \<times> int) option) option" where
  "SubmitKernelWithRuntimeStrategy build env param_count drv l s =
     (let native = (\<lambda>s'. case Native_SubmitKernel drv l of (r, effs) \<Rightarrow> (s', r, effs, None)) in
      if CurrentRuntimeStrategyMode env \<noteq> StrategyHbFixed \<or> \<not> build then Some (native s)
      else map_option (\<lambda>(s', t, cfg).
             case t of NotHandled \<Rightarrow> native s'
             | Handled r cmds \<Rightarrow> (s', r, map (ToXQueue (the (kl_xqueue l))) cmds, cfg))
        (TryLaunchKernelFixed build env param_count l s))"

section \<open>Every block runs once\<close>

text \<open>A transformed function runs the blocks of its grid displaced by its last three parameters.\<close>

definition offset_of :: "bytes list \<Rightarrow> nat \<times> nat \<times> nat" where
  "offset_of ps = (let n = length ps in
     (nat (le_uint (ps ! (n - 3))), nat (le_uint (ps ! (n - 2))), nat (le_uint (ps ! (n - 1)))))"

definition part_of :: "cuhandle \<Rightarrow> launch_cmd \<Rightarrow> split_spec" where
  "part_of f c = \<lparr> sp_grid = lc_grid c,
     sp_offset = if lc_function c = f then (0, 0, 0) else offset_of (lc_params c) \<rparr>"

definition blocks_run :: "cuhandle \<Rightarrow> launch_effect list \<Rightarrow> nat \<times> nat \<times> nat \<Rightarrow> nat" where
  "blocks_run f effs p = times_run (map (\<lambda>e. part_of f (effect_cmd e)) effs) p"

definition in_grid :: "grid3d \<Rightarrow> nat \<times> nat \<times> nat \<Rightarrow> bool" where
  "in_grid g p = in_box 0 0 0 (gx g) (gy g) (gz g) p"

lemma SplitBlocks_pos: "0 < SplitBlocks env"
  by (simp add: SplitBlocks_def Let_def)

lemma DecomposeGrid_spec:
  assumes "gx g * gy g * gz g < 2 ^ 64" "0 < n"
  shows "\<exists>ss. DecomposeGrid g n = Some ss \<and> good_parts (nat n) ss
     \<and> (\<forall>p. times_run ss p = (if in_grid g p then 1 else 0))"
proof (cases "gx g = 0 \<or> gy g = 0 \<or> gz g = 0")
  case True
  then show ?thesis
    by (auto simp: DecomposeGrid_def good_parts_def times_run_def in_grid_def in_box_def)
next
  case False
  moreover have "1 \<le> nat n" using assms(2) by linarith
  ultimately show ?thesis
    using DecomposeBox_spec [of "nat n" 0 "gx g" 0 "gy g" 0 "gz g"] assms
    by (auto simp: DecomposeGrid_def splits_box_def in_grid_def)
qed

lemma part_offset:
  assumes "good_parts m ss" "\<forall>p. times_run ss p = (if in_grid g p then 1 else 0)" "sp \<in> set ss"
  shows "in_grid g (sp_offset sp)"
proof -
  obtain x y z where o: "sp_offset sp = (x, y, z)" by (cases "sp_offset sp") auto
  have "1 \<le> Volume (sp_grid sp)" using assms(1,3) by (auto simp: good_parts_def)
  then have "0 < gx (sp_grid sp)" "0 < gy (sp_grid sp)" "0 < gz (sp_grid sp)"
    by (auto simp: Volume_def intro!: Nat.gr0I)
  then have "covers sp (sp_offset sp)" by (simp add: covers_def o)
  then have "times_run ss (sp_offset sp) \<noteq> 0" using assms(3) by (auto simp: times_run_def filter_empty_conv)
  then show ?thesis using assms(2) by (metis (full_types))
qed

lemma part_of_child:
  assumes "in_grid (kl_grid l) (sp_offset sp)" "fi_transformed_function info \<noteq> f"
    "gx (kl_grid l) < 2 ^ 32" "gy (kl_grid l) < 2 ^ 32" "gz (kl_grid l) < 2 ^ 32"
  shows "part_of f (split_child info l params sp) = sp"
proof -
  obtain x y z where o: "sp_offset sp = (x, y, z)" by (cases "sp_offset sp") auto
  have b: "x < 2 ^ 32" "y < 2 ^ 32" "z < 2 ^ 32" using assms by (simp_all add: o in_grid_def in_box_def)
  have u: "nat (le_uint (le_bytes 4 (int k))) = k" if "k < 2 ^ 32" for k
    using that by (simp add: le_uint_le_bytes)
  have n: "offset_of (xs @ [a, b, c]) = (nat (le_uint a), nat (le_uint b), nat (le_uint c))" for xs and a b c :: bytes
    by (simp add: offset_of_def nth_append)
  show ?thesis
    using assms(2) u [OF b(1)] u [OF b(2)] u [OF b(3)]
    by (cases sp) (use o in \<open>simp add: part_of_def split_child_def n del: le_uint_le_bytes\<close>)
qed

text \<open>What the backend may do: leave the launch alone, fail without submitting anything, or submit the
  parts of the grid.\<close>

definition split_outcome :: "getenv \<Rightarrow> kernel_launch \<Rightarrow> split_state \<Rightarrow> try_result \<Rightarrow> bool" where
  "split_outcome env l s t \<longleftrightarrow>
     t = NotHandled \<or> (\<exists>e. t = Handled e [] \<and> e \<noteq> CUDA_SUCCESS)
     \<or> (\<exists>info params splits. FindFunctionInfo (kl_function l) s = Some info \<and> kl_xqueue l \<noteq> None
          \<and> t = Handled CUDA_SUCCESS (map (split_child info l params) splits)
          \<and> good_parts (nat (SplitBlocks env)) splits
          \<and> (\<forall>p. times_run splits p = (if in_grid (kl_grid l) p then 1 else 0)))"

lemma refuse_outcome: "e \<noteq> CUDA_SUCCESS \<Longrightarrow> split_outcome env l s (refuse env e)"
  by (simp add: split_outcome_def refuse_def)

lemma NotHandled_outcome: "split_outcome env l s NotHandled"
  by (simp add: split_outcome_def)

lemma SubmitSplitCommands_spec:
  assumes "gx (kl_grid l) * gy (kl_grid l) * gz (kl_grid l) < 2 ^ 64"
    "FindFunctionInfo (kl_function l) s = Some info" "kl_xqueue l = Some xq"
  shows "\<exists>s' t cfg. SubmitSplitCommands env pc info l params xq s = Some (s', t, cfg) \<and> split_outcome env l s t"
proof -
  obtain ss where ss: "DecomposeGrid (kl_grid l) (SplitBlocks env) = Some ss" "good_parts (nat (SplitBlocks env)) ss"
    "\<forall>p. times_run ss p = (if in_grid (kl_grid l) p then 1 else 0)"
    using DecomposeGrid_spec [OF assms(1) SplitBlocks_pos] by blast
  have "split_outcome env l s (Handled CUDA_SUCCESS (map (split_child info l params) ss))"
    using assms(2,3) ss(2,3) unfolding split_outcome_def by blast
  moreover have "split_outcome env l s (Handled CUDA_ERROR_INVALID_VALUE [])" by (simp add: split_outcome_def)
  ultimately show ?thesis
    by (simp add: SubmitSplitCommands_def ss(1) refuse_outcome NotHandled_outcome split: prod.split)
qed

lemma TryLaunchKernelFixed_spec:
  assumes "gx (kl_grid l) * gy (kl_grid l) * gz (kl_grid l) < 2 ^ 64"
  shows "\<exists>s' t cfg. TryLaunchKernelFixed build env pc l s = Some (s', t, cfg) \<and> split_outcome env l s t"
  using SubmitSplitCommands_spec [OF assms]
  by (simp add: TryLaunchKernelFixed_def refuse_outcome NotHandled_outcome split: option.split)

lemma native_runs: "blocks_run (kl_function l) [e] p = (if in_grid (kl_grid l) p then 1 else 0)"
  if "effect_cmd e = native_cmd l"
  using that by (auto simp: blocks_run_def times_run_def part_of_def native_cmd_def covers_def in_grid_def in_box_def
      split: prod.split)

lemma Native_SubmitKernel_effect:
  obtains e where "snd (Native_SubmitKernel drv l) = [e]" "effect_cmd e = native_cmd l"
  by (cases "kl_xqueue l") (auto simp: Native_SubmitKernel_def)

text \<open>C36: A launch of a kernel ends, and if it reports success, every block of its grid runs exactly once
  and no other, whether it is launched as it is or in parts; no part has more blocks than
  \<^verbatim>\<open>UXSCHED_HB_SPLIT_BLOCKS\<close> allows. The grid's dimensions and their product are those of unsigned
  32-bit and 64-bit integers.\<close>

theorem launch_runs_every_block_once:
  assumes "gx (kl_grid l) < 2 ^ 32" "gy (kl_grid l) < 2 ^ 32" "gz (kl_grid l) < 2 ^ 32"
    "gx (kl_grid l) * gy (kl_grid l) * gz (kl_grid l) < 2 ^ 64"
    "\<forall>info. FindFunctionInfo (kl_function l) s = Some info \<longrightarrow> fi_transformed_function info \<noteq> kl_function l"
  shows "\<exists>s' r effs cfg. SubmitKernelWithRuntimeStrategy build env pc drv l s = Some (s', r, effs, cfg)
     \<and> (r = CUDA_SUCCESS \<longrightarrow>
          (\<forall>p. blocks_run (kl_function l) effs p = (if in_grid (kl_grid l) p then 1 else 0))
          \<and> (\<forall>e\<in>set effs. lc_function (effect_cmd e) \<noteq> kl_function l
               \<longrightarrow> Volume (lc_grid (effect_cmd e)) \<le> nat (SplitBlocks env)))"
proof -
  let ?P = "\<lambda>r effs. r = CUDA_SUCCESS \<longrightarrow>
      (\<forall>p. blocks_run (kl_function l) effs p = (if in_grid (kl_grid l) p then 1 else 0))
      \<and> (\<forall>e\<in>set effs. lc_function (effect_cmd e) \<noteq> kl_function l
           \<longrightarrow> Volume (lc_grid (effect_cmd e)) \<le> nat (SplitBlocks env))"
  obtain e where e: "snd (Native_SubmitKernel drv l) = [e]" "effect_cmd e = native_cmd l"
    by (rule Native_SubmitKernel_effect)
  have native: "?P r (snd (Native_SubmitKernel drv l))" for r
    using native_runs [OF e(2)] e by (simp add: native_cmd_def)
  obtain s' t cfg where t: "TryLaunchKernelFixed build env pc l s = Some (s', t, cfg)" "split_outcome env l s t"
    using TryLaunchKernelFixed_spec [OF assms(4)] by blast
  have split: "?P r (map (ToXQueue xq) cmds)" if h: "t = Handled r cmds" for r cmds xq
  proof (intro impI)
    assume ok: "r = CUDA_SUCCESS"
    obtain info params splits where i: "FindFunctionInfo (kl_function l) s = Some info"
      "cmds = map (split_child info l params) splits" "good_parts (nat (SplitBlocks env)) splits"
      "\<forall>p. times_run splits p = (if in_grid (kl_grid l) p then 1 else 0)"
      using t(2) h ok by (auto simp: split_outcome_def)
    have ne: "fi_transformed_function info \<noteq> kl_function l" using assms(5) i(1) by blast
    have "part_of (kl_function l) (split_child info l params sp) = sp" if "sp \<in> set splits" for sp
      using part_of_child [OF part_offset [OF i(3,4) that] ne assms(1-3)] .
    then have m: "map (\<lambda>e. part_of (kl_function l) (effect_cmd e)) (map (ToXQueue xq) cmds) = splits"
      by (simp add: i(2) comp_def map_idI)
    have "Volume (lc_grid c) \<le> nat (SplitBlocks env)" if "c \<in> set cmds" for c
      using that i(2,3) by (auto simp: good_parts_def split_child_def split: prod.splits)
    then show "(\<forall>p. blocks_run (kl_function l) (map (ToXQueue xq) cmds) p = (if in_grid (kl_grid l) p then 1 else 0))
        \<and> (\<forall>e\<in>set (map (ToXQueue xq) cmds). lc_function (effect_cmd e) \<noteq> kl_function l
             \<longrightarrow> Volume (lc_grid (effect_cmd e)) \<le> nat (SplitBlocks env))"
      using i(4) by (simp only: blocks_run_def m) simp
  qed
  show ?thesis
    using native split t(1)
    by (cases t) (auto simp: SubmitKernelWithRuntimeStrategy_def Let_def case_prod_beta)
qed

section \<open>Modules that are unloaded\<close>

lemma lookup_filtered:
  "distinct (map fst xs) \<Longrightarrow> map_of (filter (\<lambda>(_, i). P i) xs) f
     = (case map_of xs f of None \<Rightarrow> None | Some i \<Rightarrow> if P i then Some i else None)"
  by (induction xs) (auto simp: map_of_eq_None_iff split: option.split)

text \<open>Once a module is unloaded none of its functions is split any more, and the other functions are
  registered as before.\<close>

theorem unloaded_functions_are_forgotten:
  assumes "distinct (map fst (hs_functions s))" "RemoveModuleInfo m s = (t, s')"
  shows "FindModuleInfo m s' = None
     \<and> FindFunctionInfo f s' = (case FindFunctionInfo f s of None \<Rightarrow> None
          | Some i \<Rightarrow> if fi_original_module i = m then None else Some i)"
  using assms
  by (auto simp: RemoveModuleInfo_def FindModuleInfo_def FindFunctionInfo_def lookup_filtered split: option.split)

section \<open>Examples\<close>

definition ex_env_split :: getenv where
  "ex_env_split = [''UXSCHED_CUDA_RUNTIME_STRATEGY'' \<mapsto> ''HB_FIXED'', ''UXSCHED_HB_PRIORITY'' \<mapsto> ''-1'',
     ''UXSCHED_HB_SPLIT_BLOCKS'' \<mapsto> ''4'']"

definition ex_function :: function_info where
  "ex_function = \<lparr> fi_capability = no_capability\<lparr> transform_succeeded := True, splittable := True,
       supports_offset_x := True, supports_offset_y := True \<rparr>,
     fi_param_count = 1, fi_kernel_name = ''scale'', fi_original_module = 1, fi_original_function = 2,
     fi_transformed_function = 3 \<rparr>"

definition ex_split_state :: split_state where
  "ex_split_state = \<lparr> hs_modules = [], hs_functions = [(2, ex_function)], hs_thresholds = [] \<rparr>"

definition ex_launch :: kernel_launch where
  "ex_launch = \<lparr> kl_function = 2, kl_grid = \<lparr> gx = 3, gy = 2, gz = 1 \<rparr>, kl_block = \<lparr> gx = 32, gy = 1, gz = 1 \<rparr>,
     kl_shared = 0, kl_params = Some [[7]], kl_extra = False, kl_xqueue = Some 9 \<rparr>"

text \<open>A grid of six blocks in parts of at most four.\<close>

lemma ex_split_settings:
  "CurrentRuntimeStrategyMode ex_env_split = StrategyHbFixed" "SplitBlocks ex_env_split = 4"
  "Lv1Compatible ex_env_split" "IsLowPriority ex_env_split"
  by code_simp+

definition ex_parts :: "split_spec list" where
  "ex_parts = [\<lparr> sp_grid = \<lparr> gx = 2, gy = 2, gz = 1 \<rparr>, sp_offset = (0, 0, 0) \<rparr>,
               \<lparr> sp_grid = \<lparr> gx = 1, gy = 2, gz = 1 \<rparr>, sp_offset = (2, 0, 0) \<rparr>]"

lemma ex_decomposition: "DecomposeGrid (kl_grid ex_launch) 4 = Some ex_parts"
proof -
  have "DecomposeBox 4 0 0 0 2 2 1 = Some [\<lparr> sp_grid = \<lparr> gx = 2, gy = 2, gz = 1 \<rparr>, sp_offset = (0, 0, 0) \<rparr>]"
    "DecomposeBox 4 2 0 0 3 2 1 = Some [\<lparr> sp_grid = \<lparr> gx = 1, gy = 2, gz = 1 \<rparr>, sp_offset = (2, 0, 0) \<rparr>]"
    by (subst DecomposeBox.simps, simp add: Let_def del: One_nat_def)+
  then have "DecomposeBox 4 0 0 0 3 2 1 = Some ex_parts"
    by (subst DecomposeBox.simps) (simp add: Let_def split_axis_def left_len_def ex_parts_def numeral_2_eq_2 [symmetric] del: One_nat_def)
  then show ?thesis by (simp add: ex_launch_def DecomposeGrid_def)
qed

lemma ex_split_run:
  "SubmitKernelWithRuntimeStrategy True ex_env_split (\<lambda>_. 4) (\<lambda>_. 0) ex_launch ex_split_state
     = Some (ex_split_state\<lparr> hs_thresholds := [9] \<rparr>, CUDA_SUCCESS,
         map (ToXQueue 9) (map (split_child ex_function ex_launch [[7]]) ex_parts), Some (1, 1))"
proof -
  have f: "FindFunctionInfo (kl_function ex_launch) ex_split_state = Some ex_function"
    by (simp add: FindFunctionInfo_def ex_launch_def ex_split_state_def)
  have l: "kl_xqueue ex_launch = Some 9" "\<not> kl_extra ex_launch" "kl_params ex_launch = Some [[7]]"
    "Volume (kl_grid ex_launch) = 6" by (simp_all add: ex_launch_def Volume_def)
  have c: "splittable (fi_capability ex_function)" "fi_transformed_function ex_function \<noteq> 0"
    "CapabilitySupportsGrid (fi_capability ex_function) (kl_grid ex_launch)" "fi_param_count ex_function = 1"
    by (simp_all add: ex_function_def CapabilitySupportsGrid_def ex_launch_def no_capability_def)
  have "SubmitSplitCommands ex_env_split (\<lambda>_. 4) ex_function ex_launch [[7]] 9 ex_split_state =
      Some (ex_split_state\<lparr> hs_thresholds := [9] \<rparr>,
        Handled CUDA_SUCCESS (map (split_child ex_function ex_launch [[7]]) ex_parts), Some (1, 1))"
    by (simp add: SubmitSplitCommands_def c ex_split_settings ex_decomposition SetLpSplitThresholdOnce_def)
      (simp add: ex_split_state_def ex_parts_def)
  then show ?thesis
    by (simp add: SubmitKernelWithRuntimeStrategy_def TryLaunchKernelFixed_def ex_split_settings f l c)
qed

lemma launch_runs_every_block_once_witness:
  "\<exists>s' effs cfg. SubmitKernelWithRuntimeStrategy True ex_env_split (\<lambda>_. 4) (\<lambda>_. 0) ex_launch ex_split_state
       = Some (s', 0, effs, cfg) \<and> blocks_run 2 effs (2, 1, 0) = 1 \<and> blocks_run 2 effs (3, 1, 0) = 0"
proof -
  have a: "gx (kl_grid ex_launch) < 2 ^ 32" "gy (kl_grid ex_launch) < 2 ^ 32" "gz (kl_grid ex_launch) < 2 ^ 32"
    "gx (kl_grid ex_launch) * gy (kl_grid ex_launch) * gz (kl_grid ex_launch) < 2 ^ 64"
    "\<forall>info. FindFunctionInfo (kl_function ex_launch) ex_split_state = Some info
       \<longrightarrow> fi_transformed_function info \<noteq> kl_function ex_launch"
    by (simp_all add: ex_launch_def ex_split_state_def ex_function_def FindFunctionInfo_def)
  have f: "kl_function ex_launch = 2" "in_grid (kl_grid ex_launch) (2, 1, 0)" "\<not> in_grid (kl_grid ex_launch) (3, 1, 0)"
    by (simp_all add: ex_launch_def in_grid_def in_box_def)
  obtain s' r effs cfg where r: "SubmitKernelWithRuntimeStrategy True ex_env_split (\<lambda>_. 4) (\<lambda>_. 0) ex_launch ex_split_state
      = Some (s', r, effs, cfg)" "r = CUDA_SUCCESS"
    using ex_split_run by simp
  then show ?thesis
    using launch_runs_every_block_once [OF a, of True ex_env_split "\<lambda>_. 4" "\<lambda>_. 0"] f by auto
qed

lemma unloaded_functions_are_forgotten_witness:
  "FindFunctionInfo 2 ex_split_state = Some ex_function \<and> FindFunctionInfo 2 (snd (RemoveModuleInfo 1 ex_split_state)) = None"
proof -
  have f: "FindFunctionInfo 2 ex_split_state = Some ex_function" by (simp add: ex_split_state_def FindFunctionInfo_def)
  have "distinct (map fst (hs_functions ex_split_state))" by (simp add: ex_split_state_def)
  from unloaded_functions_are_forgotten [OF this, of 1 "fst (RemoveModuleInfo 1 ex_split_state)"
      "snd (RemoveModuleInfo 1 ex_split_state)" 2] f
  show ?thesis by (simp add: ex_function_def)
qed

text \<open>\<^verbatim>\<open>FindEntryName\<close> does not look at what follows the name: the entry of the kernel \<^verbatim>\<open>scale2\<close> is
  taken for that of \<^verbatim>\<open>scale\<close>, and gets its parameters; \<^verbatim>\<open>scale2\<close> then counts as transformed already.\<close>

definition ex_ptx :: string where
  "ex_ptx = ''.version 7.0 .visible .entry scale2(.param .u64 a) { ret; } .visible .entry scale() { ret; }''"

lemma entry_prefix_confused:
  "CollectEntryNames ex_ptx 0 = [''scale2'', ''scale'']
   \<and> FindEntryName ex_ptx ''scale'' = Some 34 \<and> take 2 (drop 34 ex_ptx) = ''2(''
   \<and> CountParamsForKernel ex_ptx ''scale'' = Some 1
   \<and> (let t = TransformKernelPtx ex_ptx ''scale'' in
      pt_modified t \<and> pt_diagnostic (TransformKernelPtx (pt_text t) ''scale2'') = ''ALREADY_TRANSFORMED'')"
  by code_simp

end
