(* ===== verification/CudaQueue.thy ===== *)
theory CudaQueue
  imports AsyncXQueue HbSplit
begin

text \<open>
  The hardware queues of the CUDA platform (\<^verbatim>\<open>platforms/cuda/hal/src/level1\<close>, \<open>level2\<close>, \<open>level3\<close>,
  \<^verbatim>\<open>arch/arch.cpp\<close>, \<^verbatim>\<open>common/cuda_command.cpp\<close>): the memory for instrumented kernels, the
  instrumentation of a kernel, its launch with the arguments of the guardian code, and the queues
  of the three levels with the calls they make on the driver. Addresses and sizes are numbers;
  what the driver and cuxtra answer is an argument. A failed assertion is \<open>None\<close>.
\<close>

section \<open>Memory\<close>

text \<open>\<^verbatim>\<open>ROUND_UP\<close> is used for sizes above 0.\<close>

definition ROUND_UP :: "nat \<Rightarrow> nat \<Rightarrow> nat" where
  "ROUND_UP x align = ((x - 1) div align + 1) * align"

definition VM_DEFAULT_SIZE :: nat where
  "VM_DEFAULT_SIZE = 2 ^ 30"

definition BUFFER_DEFAULT_SIZE :: nat where
  "BUFFER_DEFAULT_SIZE = 16 * 2 ^ 20"

text \<open>A buffer that grows in place: physical memory is mapped behind what it has.\<close>

record res_buffer =
  rb_ptr :: nat
  rb_size :: nat
  rb_granularity :: nat
  rb_handles :: "nat list"
    \<comment> \<open>the sizes of the pieces of physical memory\<close>

definition ResizableBuffer_new :: "nat \<Rightarrow> nat \<Rightarrow> res_buffer" where
  "ResizableBuffer_new ptr gran =
     (let n = ROUND_UP BUFFER_DEFAULT_SIZE gran in
      \<lparr> rb_ptr = ptr, rb_size = n, rb_granularity = gran, rb_handles = [n] \<rparr>)"

text \<open>\<open>XERRO\<close> ends the process, and so does a refusal of the driver (\<open>ok\<close>).\<close>

definition ExpandTo :: "bool \<Rightarrow> nat \<Rightarrow> res_buffer \<Rightarrow> res_buffer option" where
  "ExpandTo ok new_size b =
     (if new_size \<le> rb_size b then Some b
      else if new_size > VM_DEFAULT_SIZE then None
      else let n = ROUND_UP new_size (rb_granularity b) in
        if ok then Some (b\<lparr> rb_size := n, rb_handles := rb_handles b @ [n - rb_size b] \<rparr>) else None)"

definition rb_ok :: "res_buffer \<Rightarrow> bool" where
  "rb_ok b \<longleftrightarrow> 0 < rb_granularity b \<and> sum_list (rb_handles b) = rb_size b
     \<and> (\<forall>n\<in>set (rb_handles b). rb_granularity b dvd n)"

lemma ROUND_UP_ge: "0 < a \<Longrightarrow> x \<le> ROUND_UP x a"
proof -
  assume "0 < a"
  then have "(x - 1) mod a < a" by simp
  moreover have "x - 1 = (x - 1) div a * a + (x - 1) mod a" by simp
  moreover have "((x - 1) div a + 1) * a = (x - 1) div a * a + a" by simp
  ultimately show ?thesis unfolding ROUND_UP_def by linarith
qed

lemma dvd_sum_list: "\<forall>n\<in>set ns. a dvd n \<Longrightarrow> a dvd sum_list (ns :: nat list)"
  by (induction ns) auto

lemma ROUND_UP_dvd: "a dvd ROUND_UP x a"
  by (simp add: ROUND_UP_def)

lemma ExpandTo_ok:
  assumes "rb_ok b" "ExpandTo ok n b = Some b'"
  shows "rb_ok b' \<and> rb_ptr b' = rb_ptr b \<and> rb_size b \<le> rb_size b' \<and> n \<le> rb_size b'"
proof (cases "n \<le> rb_size b")
  case True
  then show ?thesis using assms by (simp add: ExpandTo_def)
next
  case False
  let ?m = "ROUND_UP n (rb_granularity b)"
  have g: "0 < rb_granularity b" using assms(1) by (simp add: rb_ok_def)
  have ge: "n \<le> ?m" by (rule ROUND_UP_ge [OF g])
  have b': "b' = b\<lparr> rb_size := ?m, rb_handles := rb_handles b @ [?m - rb_size b] \<rparr>"
    using False assms(2) by (auto simp: ExpandTo_def Let_def split: if_splits)
  have "rb_granularity b dvd rb_size b"
    using assms(1) dvd_sum_list [of "rb_handles b" "rb_granularity b"] by (auto simp: rb_ok_def)
  then have "rb_granularity b dvd ?m - rb_size b" by (simp add: ROUND_UP_dvd dvd_diff_nat)
  then show ?thesis using assms(1) False ge b' by (auto simp: rb_ok_def)
qed

text \<open>Memory for instructions comes from blocks of a fixed size; \<open>block\<close> is a new one from cuxtra.\<close>

record instr_mem =
  im_blocks :: "nat list"
  im_used :: nat
  im_block_size :: nat

definition InstrMemAllocator_new :: "nat \<Rightarrow> nat \<Rightarrow> instr_mem" where
  "InstrMemAllocator_new block gran =
     \<lparr> im_blocks = [block], im_used = 0, im_block_size = ROUND_UP BUFFER_DEFAULT_SIZE gran \<rparr>"

definition Alloc :: "nat \<Rightarrow> nat \<Rightarrow> instr_mem \<Rightarrow> nat \<times> instr_mem" where
  "Alloc block n m =
     (let offset = im_used m; used = im_used m + n in
      if used \<le> im_block_size m then (last (im_blocks m) + offset, m\<lparr> im_used := used \<rparr>)
      else (block, m\<lparr> im_blocks := im_blocks m @ [block], im_used := n \<rparr>))"

section \<open>Kernels\<close>

text \<open>\<^verbatim>\<open>BlockCnt\<close> multiplies unsigned ints of 32 bits.\<close>

definition BlockCnt :: "grid3d \<Rightarrow> nat" where
  "BlockCnt g = gx g * gy g * gz g mod 2 ^ 32"

text \<open>A header of two 64 bit words, and two flags for each block.\<close>

definition preempt_buffer_size :: "nat \<Rightarrow> nat" where
  "preempt_buffer_size block_cnt = 2 * 8 + 2 * 4 * block_cnt"

record kernel_cmd =
  kc_func :: cuhandle
  kc_grid :: grid3d
  kc_idx :: int
  kc_killable :: bool
  kc_preempt_buffer :: nat
  kc_entry_original :: nat
  kc_entry_guardian :: nat

datatype launch_type = kKernelLaunchOriginal | kKernelLaunchGuardian | kKernelLaunchResume

text \<open>What the driver has for a function, and what its memory of instructions holds.\<close>

record cu_driver =
  fn_entry :: "cuhandle \<Rightarrow> nat"
  fn_regs :: "cuhandle \<Rightarrow> nat"
  fn_barriers :: "cuhandle \<Rightarrow> nat"
  dr_code :: "nat \<Rightarrow> int"

text \<open>What does not change: the instructions of the guardian and of the kernels.\<close>

record cu_code =
  guardian_code :: "int list"
  resume_code :: "int list"
  kernel_binary :: "cuhandle \<Rightarrow> int list"

definition copy_code :: "nat \<Rightarrow> int list \<Rightarrow> cu_driver \<Rightarrow> cu_driver" where
  "copy_code a bs d = d\<lparr> dr_code :=
     (\<lambda>x. if a \<le> x \<and> x < a + length bs then bs ! (x - a) else dr_code d x) \<rparr>"

record instr_ctx =
  ic_mem :: instr_mem
  ic_preempt_buf :: res_buffer
  ic_entry_resume :: nat
  ic_kernels :: "(cuhandle \<times> nat \<times> nat) list"
    \<comment> \<open>the original entry point and that of the guardian\<close>

definition InstrumentContext_new ::
  "cu_code \<Rightarrow> nat \<Rightarrow> nat \<Rightarrow> nat \<Rightarrow> nat \<Rightarrow> cu_driver \<Rightarrow> instr_ctx \<times> cu_driver" where
  "InstrumentContext_new code ptr first block gran d =
     (case Alloc block (length (resume_code code)) (InstrMemAllocator_new first gran) of
        (a, m) \<Rightarrow> (\<lparr> ic_mem = m, ic_preempt_buf = ResizableBuffer_new ptr gran, ic_entry_resume = a,
                     ic_kernels = [] \<rparr>, copy_code a (resume_code code) d))"

definition InstrumentContext_Instrument ::
  "cu_code \<Rightarrow> nat \<Rightarrow> kernel_cmd \<Rightarrow> instr_ctx \<Rightarrow> cu_driver \<Rightarrow> kernel_cmd \<times> instr_ctx \<times> cu_driver" where
  "InstrumentContext_Instrument code block k c d =
     (let f = kc_func k in
      case map_of (ic_kernels c) f of
        Some (orig, guard) \<Rightarrow> (k\<lparr> kc_entry_original := orig, kc_entry_guardian := guard \<rparr>, c, d)
      | None \<Rightarrow>
         (let orig = fn_entry d f; check = guardian_code code; bin = kernel_binary code f;
              (guard, m) = Alloc block (length bin + length check) (ic_mem c);
              d1 = copy_code (guard + length check) bin (copy_code guard check d) in
          (k\<lparr> kc_entry_original := orig, kc_entry_guardian := guard \<rparr>,
           c\<lparr> ic_mem := m, ic_kernels := AList.update f (orig, guard) (ic_kernels c) \<rparr>,
           d1\<lparr> fn_regs := (fn_regs d)(f := max (fn_regs d f) 32),
               fn_barriers := (fn_barriers d)(f := max (fn_barriers d f) 1) \<rparr>)))"

text \<open>A launch: the function, where it starts, and the bytes of its debugger parameters.\<close>

record kernel_start =
  ks_func :: cuhandle
  ks_entry :: nat
  ks_args :: bytes

definition guardian_args :: "kernel_cmd \<Rightarrow> bytes" where
  "guardian_args k = le_bytes 8 (int (kc_preempt_buffer k)) @ le_bytes 8 (int (kc_entry_guardian k))
     @ le_bytes 8 (kc_idx k) @ le_bytes 4 (if kc_killable k then 1 else 0)"

definition InstrumentContext_Launch ::
  "bool \<Rightarrow> kernel_cmd \<Rightarrow> launch_type \<Rightarrow> instr_ctx \<Rightarrow> cu_driver
    \<Rightarrow> (kernel_start \<times> instr_ctx \<times> cu_driver) option" where
  "InstrumentContext_Launch ok k type c d =
     (case type of
        kKernelLaunchOriginal \<Rightarrow>
          map_option (\<lambda>b. (\<lparr> ks_func = kc_func k, ks_entry = fn_entry d (kc_func k),
                             ks_args = le_bytes 8 (int (rb_ptr b)) @ replicate 20 0 \<rparr>,
                           c\<lparr> ic_preempt_buf := b \<rparr>, d))
            (ExpandTo ok (preempt_buffer_size (BlockCnt (kc_grid k))) (ic_preempt_buf c))
      | _ \<Rightarrow>
          let entry = (if type = kKernelLaunchResume then ic_entry_resume c else kc_entry_guardian k);
              d1 = d\<lparr> fn_entry := (fn_entry d)(kc_func k := entry) \<rparr> in
          Some (\<lparr> ks_func = kc_func k, ks_entry = fn_entry d1 (kc_func k), ks_args = guardian_args k \<rparr>, c,
                d1\<lparr> fn_entry := (fn_entry d1)(kc_func k := kc_entry_original k) \<rparr>))"

section \<open>The manager of a queue\<close>

record instr_mgr =
  mg_preempt_idx :: int
  mg_buf :: res_buffer

definition InstrumentManager_new :: "nat \<Rightarrow> nat \<Rightarrow> instr_mgr" where
  "InstrumentManager_new ptr gran = \<lparr> mg_preempt_idx = 0, mg_buf = ResizableBuffer_new ptr gran \<rparr>"

definition InstrumentManager_Instrument ::
  "cu_code \<Rightarrow> bool \<Rightarrow> nat \<Rightarrow> kernel_cmd \<Rightarrow> instr_mgr \<Rightarrow> instr_ctx \<Rightarrow> cu_driver
    \<Rightarrow> (kernel_cmd \<times> instr_mgr \<times> instr_ctx \<times> cu_driver) option" where
  "InstrumentManager_Instrument code ok block k g c d =
     map_option (\<lambda>b. case InstrumentContext_Instrument code block k c d of
         (k', c', d') \<Rightarrow> (k'\<lparr> kc_preempt_buffer := rb_ptr b \<rparr>, g\<lparr> mg_buf := b \<rparr>, c', d'))
       (ExpandTo ok (preempt_buffer_size (BlockCnt (kc_grid k))) (mg_buf g))"

definition launch_type_of :: "int \<Rightarrow> int \<Rightarrow> int \<Rightarrow> launch_type" where
  "launch_type_of level preempt_idx idx =
     (if level \<ge> kPreemptLevelDeactivate
      then if preempt_idx = idx then kKernelLaunchResume else kKernelLaunchGuardian
      else kKernelLaunchOriginal)"

definition InstrumentManager_Launch ::
  "bool \<Rightarrow> int \<Rightarrow> kernel_cmd \<Rightarrow> instr_mgr \<Rightarrow> instr_ctx \<Rightarrow> cu_driver
    \<Rightarrow> (kernel_start \<times> instr_ctx \<times> cu_driver) option" where
  "InstrumentManager_Launch ok level k g c d =
     InstrumentContext_Launch ok k (launch_type_of level (mg_preempt_idx g) (kc_idx k)) c d"

text \<open>\<open>idx\<close> is what is read from the preempt buffer.\<close>

definition InstrumentManager_Reactivate :: "int \<Rightarrow> instr_mgr \<Rightarrow> int \<times> instr_mgr" where
  "InstrumentManager_Reactivate idx g = (idx, g\<lparr> mg_preempt_idx := idx \<rparr>)"

section \<open>Queues\<close>

datatype cq_kind = CudaQueueLv1 | CudaQueueLv2 | CudaQueueLv3Trap | CudaQueueLv3Tsg

definition cq_SupportDynamicLevel :: "cq_kind \<Rightarrow> bool" where
  "cq_SupportDynamicLevel k \<longleftrightarrow> k \<noteq> CudaQueueLv1"

fun cq_GetMaxSupportedLevel :: "cq_kind \<Rightarrow> int" where
  "cq_GetMaxSupportedLevel CudaQueueLv1 = kPreemptLevelBlock"
| "cq_GetMaxSupportedLevel CudaQueueLv2 = kPreemptLevelDeactivate"
| "cq_GetMaxSupportedLevel CudaQueueLv3Trap = kPreemptLevelInterrupt"
| "cq_GetMaxSupportedLevel CudaQueueLv3Tsg = kPreemptLevelInterrupt"

text \<open>Architectures are named by their compute capability; the default stream is 0.\<close>

definition Guardian_Instance :: "int \<Rightarrow> bool" where
  "Guardian_Instance arch \<longleftrightarrow> arch = 35 \<or> arch = 70 \<or> arch = 86 \<or> arch = 89"

definition TrapHandler_Instance :: "int \<Rightarrow> bool" where
  "TrapHandler_Instance arch \<longleftrightarrow> arch = 70 \<or> arch = 86 \<or> arch = 89"

definition GetCudaLv3Implementation_is_tsg :: "getenv \<Rightarrow> bool" where
  "GetCudaLv3Implementation_is_tsg env \<longleftrightarrow> env ''XSCHED_CUDA_LV3_IMPL'' = Some ''TSG''"

definition CudaQueueCreate :: "bool \<Rightarrow> getenv \<Rightarrow> int \<Rightarrow> cuhandle \<Rightarrow> cq_kind" where
  "CudaQueueCreate windows env arch stream =
     (if windows then CudaQueueLv1
      else if stream = 0 then CudaQueueLv1
      else if GetCudaLv3Implementation_is_tsg env then CudaQueueLv3Tsg
      else if arch = 35 then CudaQueueLv2
      else if arch = 70 \<or> arch = 86 \<or> arch = 89 then CudaQueueLv3Trap
      else CudaQueueLv1)"

text \<open>A launch outside of all XQueues goes through the instrumentation context where a queue would,
  so that the preempt buffer in its arguments is an empty one.\<close>

definition DirectLaunch ::
  "bool \<Rightarrow> getenv \<Rightarrow> int \<Rightarrow> cuhandle \<Rightarrow> bool \<Rightarrow> kernel_cmd \<Rightarrow> instr_ctx \<Rightarrow> cu_driver
    \<Rightarrow> (kernel_start \<times> instr_ctx \<times> cu_driver) option" where
  "DirectLaunch windows env arch stream ok k c d =
     (if CudaQueueCreate windows env arch stream \<in> {CudaQueueLv2, CudaQueueLv3Trap}
      then InstrumentContext_Launch ok k kKernelLaunchOriginal c d
      else Some (\<lparr> ks_func = kc_func k, ks_entry = fn_entry d (kc_func k), ks_args = [] \<rparr>, c, d))"

text \<open>The handle of a queue is its stream; the default stream gets one from its context.\<close>

definition GetHwQueueHandle :: "64 word \<Rightarrow> 64 word \<Rightarrow> 64 word" where
  "GetHwQueueHandle stream context =
     (if stream \<noteq> 0 then stream
      else 0xd5f7000000000000 OR (context AND 0x0000FFFFFFFFFFFF))"

datatype cuda_cmd = KernelCmd kernel_cmd | OtherCmd int

fun cuda_idx :: "cuda_cmd \<Rightarrow> int" where
  "cuda_idx (KernelCmd k) = kc_idx k"
| "cuda_idx (OtherCmd i) = i"

datatype cu_call =
    LaunchKernel kernel_start | LaunchOther int | SyncStream | SyncOpStream
  | SetExitFlag nat | ReadPreemptIdx nat | ClearHeader nat
  | TriggerTrap | InstrumentTrapHandler | TsgInterrupt | TsgRestore
  | GetCurrentContext | SetOwnContext | SetOldContext | MemoryOnSuspend | MemoryBeforeResume

text \<open>\<^verbatim>\<open>CUDA_ASSERT\<close> ends the process when the driver refuses a call; \<open>drv\<close> tells which calls succeed.\<close>

definition cu_checked :: "(cu_call \<Rightarrow> bool) \<Rightarrow> cu_call list \<Rightarrow> cu_call list option" where
  "cu_checked drv calls = (if list_all drv calls then Some calls else None)"

lemma cu_checked_all [simp]: "cu_checked (\<lambda>_. True) calls = Some calls"
  by (simp add: cu_checked_def list.pred_True)

record cuda_queue =
  cq_kind :: cq_kind
  cq_level :: int
  cq_mgr :: instr_mgr

type_synonym cq_state = "cuda_queue \<times> instr_ctx \<times> cu_driver"

definition instrumenting :: "cuda_queue \<Rightarrow> bool" where
  "instrumenting q \<longleftrightarrow> cq_kind q = CudaQueueLv2 \<or> cq_kind q = CudaQueueLv3Trap"

text \<open>What a launch of an instrumented kernel returns is not looked at
  (\<^verbatim>\<open>InstrumentManager::Launch\<close>); every other launch is asserted.\<close>

definition cq_Launch ::
  "(cu_call \<Rightarrow> bool) \<Rightarrow> bool \<Rightarrow> cuda_cmd \<Rightarrow> cq_state \<Rightarrow> (cq_state \<times> cu_call list) option" where
  "cq_Launch drv ok cmd st =
     (case (st, cmd) of
        (_, OtherCmd i) \<Rightarrow> map_option (Pair st) (cu_checked drv [LaunchOther i])
      | ((q, c, d), KernelCmd k) \<Rightarrow>
          if instrumenting q
          then map_option (\<lambda>(ks, c', d'). ((q, c', d'), [LaunchKernel ks]))
                 (InstrumentManager_Launch ok (cq_level q) k (cq_mgr q) c d)
          else map_option (Pair st) (cu_checked drv
                 [LaunchKernel \<lparr> ks_func = kc_func k, ks_entry = fn_entry d (kc_func k), ks_args = [] \<rparr>]))"

fun cq_launch_all ::
  "(cu_call \<Rightarrow> bool) \<Rightarrow> bool \<Rightarrow> cuda_cmd list \<Rightarrow> cq_state \<Rightarrow> (cq_state \<times> cu_call list) option" where
  "cq_launch_all drv ok [] st = Some (st, [])"
| "cq_launch_all drv ok (cmd # cmds) st =
     (case cq_Launch drv ok cmd st of None \<Rightarrow> None
      | Some (st1, calls) \<Rightarrow> map_option (\<lambda>(st2, calls2). (st2, calls @ calls2)) (cq_launch_all drv ok cmds st1))"

definition cq_Deactivate :: "(cu_call \<Rightarrow> bool) \<Rightarrow> cuda_queue \<Rightarrow> cu_call list option" where
  "cq_Deactivate drv q =
     (if \<not> instrumenting q then Some []
      else if cq_level q \<ge> kPreemptLevelDeactivate
      then cu_checked drv [SetExitFlag (rb_ptr (mg_buf (cq_mgr q)))] else None)"

text \<open>\<open>idx\<close> is the index in the preempt buffer, 0 if no kernel has been preempted.\<close>

definition cq_Reactivate ::
  "(cu_call \<Rightarrow> bool) \<Rightarrow> bool \<Rightarrow> int \<Rightarrow> cuda_cmd list \<Rightarrow> cq_state \<Rightarrow> (cq_state \<times> cu_call list) option" where
  "cq_Reactivate drv ok idx lg st =
     (case st of (q, c, d) \<Rightarrow>
        if \<not> instrumenting q then Some (st, [])
        else if \<not> cq_level q \<ge> kPreemptLevelDeactivate then None
        else (case InstrumentManager_Reactivate idx (cq_mgr q) of (resume_idx, g) \<Rightarrow>
          (let ptr = rb_ptr (mg_buf g); st1 = (q\<lparr> cq_mgr := g \<rparr>, c, d);
               calls = [SyncStream, ReadPreemptIdx (ptr + 8), ClearHeader ptr, SyncOpStream] in
           if cu_checked drv calls = None then None
           else if resume_idx = 0 then Some (st1, calls)
           else map_option (\<lambda>(st2, calls2). (st2, calls @ calls2))
                  (cq_launch_all drv ok (filter (\<lambda>cmd. \<not> cuda_idx cmd < resume_idx) lg) st1))))"

definition cq_Interrupt :: "(cu_call \<Rightarrow> bool) \<Rightarrow> cuda_queue \<Rightarrow> cu_call list option" where
  "cq_Interrupt drv q =
     (if cq_kind q = CudaQueueLv3Trap
      then (if cq_level q \<ge> kPreemptLevelInterrupt
            then map_option (\<lambda>calls. calls @ [TriggerTrap]) (cu_checked drv [SyncOpStream]) else None)
      else if cq_kind q = CudaQueueLv3Tsg
      then (if cq_level q \<ge> kPreemptLevelInterrupt then Some [TsgInterrupt] else None)
      else Some [])"

definition cq_Restore :: "cuda_queue \<Rightarrow> cu_call list option" where
  "cq_Restore q =
     (if cq_kind q = CudaQueueLv3Trap
      then (if cq_level q \<ge> kPreemptLevelInterrupt then Some [] else None)
      else if cq_kind q = CudaQueueLv3Tsg
      then (if cq_level q \<ge> kPreemptLevelInterrupt then Some [TsgRestore] else None)
      else Some [])"

definition cq_OnPreemptLevelChange :: "int \<Rightarrow> cuda_queue \<Rightarrow> (cuda_queue \<times> cu_call list) option" where
  "cq_OnPreemptLevelChange l q =
     (if cq_kind q = CudaQueueLv1 then Some (q, [])
      else if \<not> l \<le> cq_GetMaxSupportedLevel (cq_kind q) then None
      else Some (q\<lparr> cq_level := l \<rparr>,
             if cq_kind q = CudaQueueLv3Trap \<and> l = kPreemptLevelInterrupt then [InstrumentTrapHandler] else []))"

definition cq_OnHwCommandSubmit ::
  "cu_code \<Rightarrow> bool \<Rightarrow> nat \<Rightarrow> cuda_cmd \<Rightarrow> cq_state \<Rightarrow> (cuda_cmd \<times> cq_state) option" where
  "cq_OnHwCommandSubmit code ok block cmd st =
     (case (st, cmd) of
        (_, OtherCmd _) \<Rightarrow> Some (cmd, st)
      | ((q, c, d), KernelCmd k) \<Rightarrow>
          if \<not> instrumenting q \<or> cq_level q < kPreemptLevelDeactivate then Some (cmd, st)
          else map_option (\<lambda>(k', g, c', d').
                 (KernelCmd (if cq_kind q = CudaQueueLv3Trap then k'\<lparr> kc_killable := True \<rparr> else k'),
                  (q\<lparr> cq_mgr := g \<rparr>, c', d')))
               (InstrumentManager_Instrument code ok block k (cq_mgr q) c d))"

text \<open>What an XQueue calls on it. \<open>idx\<close> is what a reactivation reads, \<open>cmds\<close> the commands by their
  index. The submission of a command is \<open>cq_OnHwCommandSubmit\<close>.\<close>

definition in_own_cuda_context :: "(cu_call \<Rightarrow> bool) \<Rightarrow> cu_call \<Rightarrow> cu_call list option" where
  "in_own_cuda_context drv call =
     (if cu_checked drv [GetCurrentContext, SetOwnContext, SetOldContext] = None then None
      else Some [GetCurrentContext, SetOwnContext, call, SetOldContext])"

fun cq_exec ::
  "(cu_call \<Rightarrow> bool) \<Rightarrow> bool \<Rightarrow> int \<Rightarrow> (int \<Rightarrow> cuda_cmd) \<Rightarrow> hw_call \<Rightarrow> cq_state
    \<Rightarrow> (cq_state \<times> cu_call list) option" where
  "cq_exec drv ok idx cmds HwSynchronize st = map_option (Pair st) (cu_checked drv [SyncStream])"
| "cq_exec drv ok idx cmds HwDeactivate st = map_option (Pair st) (cq_Deactivate drv (fst st))"
| "cq_exec drv ok idx cmds (HwReactivate lg) st = cq_Reactivate drv ok idx (map cmds lg) st"
| "cq_exec drv ok idx cmds HwInterrupt st = map_option (Pair st) (cq_Interrupt drv (fst st))"
| "cq_exec drv ok idx cmds (HwRestore lg) st = map_option (Pair st) (cq_Restore (fst st))"
| "cq_exec drv ok idx cmds (HwOnPreemptLevelChange l) st =
     map_option (\<lambda>(q, calls). ((q, snd st), calls)) (cq_OnPreemptLevelChange l (fst st))"
| "cq_exec drv ok idx cmds (HwOnHwCommandSubmit i) st = Some (st, [])"
| "cq_exec drv ok idx cmds HwOnXQueueSuspend st = map_option (Pair st) (in_own_cuda_context drv MemoryOnSuspend)"
| "cq_exec drv ok idx cmds HwBeforeXQueueResume st = map_option (Pair st) (in_own_cuda_context drv MemoryBeforeResume)"

fun hq_run ::
  "('i \<Rightarrow> hw_call \<Rightarrow> 's \<Rightarrow> ('s \<times> 'c list) option) \<Rightarrow> 'i \<Rightarrow> 'i list \<Rightarrow> hw_call list \<Rightarrow> 's \<Rightarrow> ('s \<times> 'c list) option" where
  "hq_run exec dflt is [] st = Some (st, [])"
| "hq_run exec dflt is (h # hs) st =
     (case exec (case is of [] \<Rightarrow> dflt | i # _ \<Rightarrow> i) h st of None \<Rightarrow> None
      | Some (st1, calls) \<Rightarrow>
          map_option (\<lambda>(st2, calls2). (st2, calls @ calls2)) (hq_run exec dflt (tl is) hs st1))"

definition cq_run ::
  "(cu_call \<Rightarrow> bool) \<Rightarrow> bool \<Rightarrow> int list \<Rightarrow> (int \<Rightarrow> cuda_cmd) \<Rightarrow> hw_call list \<Rightarrow> cq_state \<Rightarrow> (cq_state \<times> cu_call list) option" where
  "cq_run drv ok idxs cmds = hq_run (\<lambda>i. cq_exec drv ok i cmds) 0 idxs"

section \<open>No assertion fails\<close>

text \<open>Every call that suspends or resumes an XQueue is one its hardware queue accepts.\<close>

definition accepted :: "axq \<Rightarrow> hw_call \<Rightarrow> bool" where
  "accepted x h \<longleftrightarrow> (case h of
      HwDeactivate \<Rightarrow> ax_level x \<ge> kPreemptLevelDeactivate
    | HwReactivate _ \<Rightarrow> ax_level x \<ge> kPreemptLevelDeactivate
    | HwInterrupt \<Rightarrow> ax_level x \<ge> kPreemptLevelInterrupt
    | HwRestore _ \<Rightarrow> ax_level x \<ge> kPreemptLevelInterrupt
    | HwOnPreemptLevelChange _ \<Rightarrow> False
    | _ \<Rightarrow> True)"

lemma accepted_same_level: "ax_level x' = ax_level x \<Longrightarrow> accepted x' = accepted x"
  by (auto simp: accepted_def fun_eq_iff split: hw_call.split)

lemma Suspend_accepted: "Suspend f x = (x', calls) \<Longrightarrow> list_all (accepted x) calls"
  by (auto simp: Suspend_def accepted_def split: if_splits)

lemma Resume_accepted: "AsyncXQueue_Resume f x = Some (x', calls) \<Longrightarrow> list_all (accepted x) calls"
  by (auto simp: AsyncXQueue_Resume_def restore_calls_def accepted_def split: if_splits option.splits)

lemma susp_run_accepted:
  "susp_run ops x = Some (x', calls) \<Longrightarrow> ax_level x \<ge> kPreemptLevelBlock
    \<Longrightarrow> list_all (accepted x) calls \<and> ax_level x' = ax_level x"
proof (induction ops x arbitrary: calls rule: susp_run.induct)
  case (2 f b w ops x)
  obtain x1 c1 where 1: "Suspend f (x\<lparr> ax_buf := b, ax_lw := w \<rparr>) = (x1, c1)" by fastforce
  with "2.prems" obtain c2 where c2: "susp_run ops x1 = Some (x', c2)" "calls = c1 @ c2" by auto
  have l: "ax_level x1 = ax_level x" using Suspend_track [OF 1] by simp
  have "list_all (accepted x) c1"
    using Suspend_accepted [OF 1] accepted_same_level [of "x\<lparr> ax_buf := b, ax_lw := w \<rparr>" x] by simp
  moreover have "list_all (accepted x) c2 \<and> ax_level x' = ax_level x"
    using "2.IH" [OF 1 [symmetric] c2(1)] "2.prems"(2) l accepted_same_level [OF l] by simp
  ultimately show ?case using c2(2) by simp
next
  case (3 f b w ops x)
  then obtain x1 c1 c2 where 1: "AsyncXQueue_Resume f (x\<lparr> ax_buf := b, ax_lw := w \<rparr>) = Some (x1, c1)"
    and c2: "susp_run ops x1 = Some (x', c2)" "calls = c1 @ c2" by (auto split: option.splits)
  have l: "ax_level x1 = ax_level x" using Resume_track [OF 1] "3.prems"(2) by simp
  have "list_all (accepted x) c1"
    using Resume_accepted [OF 1] accepted_same_level [of "x\<lparr> ax_buf := b, ax_lw := w \<rparr>" x] by simp
  moreover have "list_all (accepted x) c2 \<and> ax_level x' = ax_level x"
    using "3.IH" [OF 1 _ c2(1)] "3.prems"(2) l accepted_same_level [OF l] by simp
  ultimately show ?case using c2(2) by simp
qed simp

text \<open>What an XQueue relies on: a hardware queue that was told of its level accepts these calls and stays
  one. Then it accepts all that suspensions and resumptions call, in whatever order they come.\<close>

locale hw_queue =
  fixes hq_exec :: "'i \<Rightarrow> hw_call \<Rightarrow> 's \<Rightarrow> ('s \<times> 'c list) option"
    and hq_fits :: "axq \<Rightarrow> 's \<Rightarrow> bool"
  assumes accepts: "hq_fits x st \<Longrightarrow> accepted x h \<Longrightarrow> \<exists>st' calls. hq_exec i h st = Some (st', calls) \<and> hq_fits x st'"
begin

lemma run_accepted:
  "hq_fits x st \<Longrightarrow> list_all (accepted x) hs \<Longrightarrow> \<exists>st' calls. hq_run hq_exec d is hs st = Some (st', calls) \<and> hq_fits x st'"
proof (induction hs arbitrary: "is" st)
  case (Cons h hs)
  obtain st1 c1 where 1: "hq_exec (case is of [] \<Rightarrow> d | i # _ \<Rightarrow> i) h st = Some (st1, c1)" "hq_fits x st1"
    using accepts [OF Cons.prems(1)] Cons.prems(2) by fastforce
  obtain st2 c2 where "hq_run hq_exec d (tl is) hs st1 = Some (st2, c2)" "hq_fits x st2"
    using Cons.IH [OF 1(2)] Cons.prems(2) by fastforce
  then show ?case using 1 by simp
qed simp

lemma suspensions_accepted:
  assumes "hq_fits x st" "ax_level x \<ge> kPreemptLevelBlock" "susp_run ops x = Some (x', hs)"
  shows "\<exists>st' calls. hq_run hq_exec d is hs st = Some (st', calls)"
  using run_accepted [OF assms(1)] susp_run_accepted [OF assms(3,2)] by blast

end

text \<open>The level that the queue was told of last is that of its XQueue.\<close>

definition fits :: "axq \<Rightarrow> cq_state \<Rightarrow> bool" where
  "fits x st \<longleftrightarrow> cq_kind (fst st) = CudaQueueLv1 \<or> cq_level (fst st) = ax_level x"

lemma launch_type_guarded: "level \<ge> kPreemptLevelDeactivate \<Longrightarrow> launch_type_of level p i \<noteq> kKernelLaunchOriginal"
  by (simp add: launch_type_of_def)

lemma cq_Launch_guarded:
  assumes "cq_level (fst st) \<ge> kPreemptLevelDeactivate"
  shows "\<exists>st' calls. cq_Launch (\<lambda>_. True) ok cmd st = Some (st', calls) \<and> fst st' = fst st"
proof -
  obtain q c d where st: "st = (q, c, d)" by (cases st) auto
  show ?thesis
    using launch_type_guarded [of "cq_level q"] assms
    by (cases cmd) (auto simp: st cq_Launch_def InstrumentManager_Launch_def InstrumentContext_Launch_def Let_def
        split: launch_type.split)
qed

lemma cq_launch_all_guarded:
  "cq_level (fst st) \<ge> kPreemptLevelDeactivate \<Longrightarrow>
    \<exists>st' calls. cq_launch_all (\<lambda>_. True) ok cmds st = Some (st', calls) \<and> fst st' = fst st"
proof (induction cmds arbitrary: st)
  case (Cons cmd cmds)
  obtain st1 c1 where 1: "cq_Launch (\<lambda>_. True) ok cmd st = Some (st1, c1)" "fst st1 = fst st"
    using cq_Launch_guarded [OF Cons.prems] by blast
  obtain st2 c2 where 2: "cq_launch_all (\<lambda>_. True) ok cmds st1 = Some (st2, c2)" "fst st2 = fst st1"
    using Cons.IH [of st1] Cons.prems 1(2) by auto
  show ?case using 1 2 by simp
qed simp

lemma cq_Reactivate_guarded:
  assumes "instrumenting (fst st) \<longrightarrow> cq_level (fst st) \<ge> kPreemptLevelDeactivate"
  shows "\<exists>st' calls. cq_Reactivate (\<lambda>_. True) ok idx lg st = Some (st', calls)
    \<and> cq_kind (fst st') = cq_kind (fst st) \<and> cq_level (fst st') = cq_level (fst st)"
proof -
  obtain q c d where st: "st = (q, c, d)" by (cases st) auto
  let ?g = "(cq_mgr q)\<lparr> mg_preempt_idx := idx \<rparr>"
  let ?cmds = "filter (\<lambda>cmd. \<not> cuda_idx cmd < idx) lg"
  have "\<exists>st' calls. cq_launch_all (\<lambda>_. True) ok ?cmds (q\<lparr> cq_mgr := ?g \<rparr>, c, d) = Some (st', calls)
      \<and> fst st' = q\<lparr> cq_mgr := ?g \<rparr>" if "cq_level q \<ge> kPreemptLevelDeactivate"
    using cq_launch_all_guarded [of "(q\<lparr> cq_mgr := ?g \<rparr>, c, d)" ok ?cmds] that by simp
  then show ?thesis using assms
    by (fastforce simp: st cq_Reactivate_def InstrumentManager_Reactivate_def Let_def)
qed

lemma cq_exec_accepted:
  assumes "fits x st" "accepted x h"
  shows "\<exists>st' calls. cq_exec (\<lambda>_. True) ok idx cmds h st = Some (st', calls) \<and> fits x st'"
proof (cases h)
  case (HwReactivate lg)
  have "instrumenting (fst st) \<longrightarrow> cq_level (fst st) \<ge> kPreemptLevelDeactivate"
    using assms HwReactivate by (auto simp: fits_def accepted_def instrumenting_def)
  from cq_Reactivate_guarded [OF this] show ?thesis
    using assms HwReactivate by (fastforce simp: fits_def)
next
  case HwDeactivate
  then show ?thesis using assms by (auto simp: fits_def accepted_def cq_Deactivate_def instrumenting_def)
next
  case HwInterrupt
  then show ?thesis using assms by (auto simp: fits_def accepted_def cq_Interrupt_def)
next
  case (HwRestore lg)
  then show ?thesis using assms by (auto simp: fits_def accepted_def cq_Restore_def)
qed (use assms in \<open>auto simp: fits_def accepted_def in_own_cuda_context_def\<close>)

interpretation cuda_hwq: hw_queue "\<lambda>i. cq_exec (\<lambda>_. True) ok i cmds" fits
  by unfold_locales (rule cq_exec_accepted)

text \<open>Which calls are asserted: all but those to cuxtra, the memory manager's, and launches of instrumented
  kernels. An operation ends the process for one of them exactly when the driver refuses it.\<close>

fun asserted :: "cuda_queue \<Rightarrow> cu_call \<Rightarrow> bool" where
  "asserted q (LaunchKernel ks) = (\<not> instrumenting q)"
| "asserted q TriggerTrap = False"
| "asserted q InstrumentTrapHandler = False"
| "asserted q TsgInterrupt = False"
| "asserted q TsgRestore = False"
| "asserted q MemoryOnSuspend = False"
| "asserted q MemoryBeforeResume = False"
| "asserted q _ = True"

definition unless_refused ::
  "(cu_call \<Rightarrow> bool) \<Rightarrow> cuda_queue \<Rightarrow> (cq_state \<times> cu_call list) option \<Rightarrow> (cq_state \<times> cu_call list) option" where
  "unless_refused drv q r =
     (case r of None \<Rightarrow> None
      | Some (st, calls) \<Rightarrow> if list_all drv (filter (asserted q) calls) then Some (st, calls) else None)"

lemma unless_refused_simps [simp]:
  "unless_refused drv q None = None"
  "unless_refused drv q (Some (st, calls)) =
     (if list_all drv (filter (asserted q) calls) then Some (st, calls) else None)"
  by (simp_all add: unless_refused_def)

lemma cq_Launch_refused:
  "cq_Launch drv ok cmd st = unless_refused drv (fst st) (cq_Launch (\<lambda>_. True) ok cmd st)"
  by (cases st; cases cmd; cases "InstrumentManager_Launch ok (cq_level (fst st)) (case cmd of KernelCmd k \<Rightarrow> k)
        (cq_mgr (fst st)) (fst (snd st)) (snd (snd st))")
    (auto simp: cq_Launch_def cu_checked_def)

lemma cq_Launch_queue: "cq_Launch drv ok cmd st = Some (st', calls) \<Longrightarrow> fst st' = fst st"
  by (auto simp: cq_Launch_def split: prod.splits cuda_cmd.splits if_splits)

lemma cq_launch_all_refused:
  "cq_launch_all drv ok cmds st = unless_refused drv (fst st) (cq_launch_all (\<lambda>_. True) ok cmds st)"
proof (induction cmds arbitrary: st)
  case (Cons cmd cmds)
  show ?case
  proof (cases "cq_Launch (\<lambda>_. True) ok cmd st")
    case None
    then show ?thesis using cq_Launch_refused [of drv ok cmd st] by simp
  next
    case (Some r)
    then obtain st1 c1 where 1: "cq_Launch (\<lambda>_. True) ok cmd st = Some (st1, c1)" by (cases r) auto
    show ?thesis
      using Cons.IH [of st1] cq_Launch_refused [of drv ok cmd st] cq_Launch_queue [OF 1] 1
      by (cases "cq_launch_all (\<lambda>_. True) ok cmds st1") auto
  qed
qed simp

lemma cq_exec_refused:
  "cq_exec drv ok idx cmds h st = unless_refused drv (fst st) (cq_exec (\<lambda>_. True) ok idx cmds h st)"
proof (cases h)
  case (HwReactivate lg)
  obtain q c d where st: "st = (q, c, d)" by (cases st) auto
  let ?g = "(cq_mgr q)\<lparr> mg_preempt_idx := idx \<rparr>"
  let ?cmds = "filter (\<lambda>cmd. \<not> cuda_idx cmd < idx) (map cmds lg)"
  have i: "asserted (q\<lparr> cq_mgr := ?g \<rparr>) = asserted q"
  proof
    fix call show "asserted (q\<lparr> cq_mgr := ?g \<rparr>) call = asserted q call"
      by (cases call) (simp_all add: instrumenting_def)
  qed
  show ?thesis
    using cq_launch_all_refused [of drv ok ?cmds "(q\<lparr> cq_mgr := ?g \<rparr>, c, d)"]
    by (cases "cq_launch_all (\<lambda>_. True) ok ?cmds (q\<lparr> cq_mgr := ?g \<rparr>, c, d)")
      (auto simp: HwReactivate st cq_Reactivate_def InstrumentManager_Reactivate_def Let_def cu_checked_def i
        list.pred_True unless_refused_def)
qed (auto simp: cq_Deactivate_def cq_Interrupt_def cq_Restore_def cq_OnPreemptLevelChange_def
    in_own_cuda_context_def cu_checked_def)

lemma cq_exec_instrumenting:
  assumes "cq_exec drv ok idx cmds h st = Some (st', calls)"
  shows "instrumenting (fst st') = instrumenting (fst st)"
proof -
  have l: "cq_launch_all drv ok cs st = Some (st', calls) \<Longrightarrow> fst st' = fst st" for cs st calls
  proof (induction cs arbitrary: st calls)
    case (Cons cmd cs)
    then obtain st1 c1 c2 where 1: "cq_Launch drv ok cmd st = Some (st1, c1)" "cq_launch_all drv ok cs st1 = Some (st', c2)"
      by (auto split: option.splits)
    show ?case using Cons.IH [OF 1(2)] cq_Launch_queue [OF 1(1)] by simp
  qed simp
  show ?thesis
  proof (cases h)
    case (HwReactivate lg)
    obtain q c d where st: "st = (q, c, d)" by (cases st) auto
    let ?g = "(cq_mgr q)\<lparr> mg_preempt_idx := idx \<rparr>"
    have "fst st' = q \<or> fst st' = q\<lparr> cq_mgr := ?g \<rparr>"
    proof (cases "\<exists>cs calls'. cq_launch_all drv ok cs (q\<lparr> cq_mgr := ?g \<rparr>, c, d) = Some (st', calls')")
      case True
      then show ?thesis using l by fastforce
    next
      case False
      then show ?thesis using assms
        by (auto simp: HwReactivate st cq_Reactivate_def InstrumentManager_Reactivate_def Let_def split: if_splits)
    qed
    then show ?thesis by (auto simp: st instrumenting_def)
  next
    case (HwOnPreemptLevelChange i)
    then show ?thesis using assms by (auto simp: cq_OnPreemptLevelChange_def instrumenting_def split: if_splits)
  qed (use assms in auto)
qed

lemma cq_run_refused:
  "cq_run drv ok idxs cmds hs st = unless_refused drv (fst st) (cq_run (\<lambda>_. True) ok idxs cmds hs st)"
  unfolding cq_run_def
proof (induction hs arbitrary: idxs st)
  case (Cons h hs)
  let ?i = "case idxs of [] \<Rightarrow> 0 | i # _ \<Rightarrow> i"
  show ?case
  proof (cases "cq_exec (\<lambda>_. True) ok ?i cmds h st")
    case None
    then show ?thesis using cq_exec_refused [of drv ok ?i cmds h st] by simp
  next
    case (Some r)
    then obtain st1 c1 where 1: "cq_exec (\<lambda>_. True) ok ?i cmds h st = Some (st1, c1)" by (cases r) auto
    have "asserted (fst st1) call = asserted (fst st) call" for call
      by (cases call) (simp_all add: cq_exec_instrumenting [OF 1])
    then have a: "asserted (fst st1) = asserted (fst st)" ..
    show ?thesis
      using Cons.IH [of "tl idxs" st1] cq_exec_refused [of drv ok ?i cmds h st] 1 a
      by (cases "hq_run (\<lambda>i. cq_exec (\<lambda>_. True) ok i cmds) 0 (tl idxs) hs st1")
        (auto simp: unless_refused_def)
  qed
qed simp

text \<open>C24: Whatever sequence of suspensions and resumptions, no assertion of a CUDA queue fails on what
  its XQueue calls, when the queue was told of a level that it supports, as long as the driver refuses none of
  the asserted calls that this comes down to; and one that it refuses ends the process.\<close>

theorem cuda_queue_accepts_calls:
  assumes "cq_OnPreemptLevelChange (ax_level x) q = Some (q', calls0)" "ax_level x \<ge> kPreemptLevelBlock"
    "susp_run ops x = Some (x', hs)"
  shows "\<exists>st' calls. cq_run (\<lambda>_. True) ok idxs cmds hs (q', c, d) = Some (st', calls)
    \<and> (\<forall>drv. cq_run drv ok idxs cmds hs (q', c, d)
         = (if list_all drv (filter (asserted q') calls) then Some (st', calls) else None))"
proof -
  have "fits x (q', c, d)"
    using assms(1) by (auto simp: fits_def cq_OnPreemptLevelChange_def split: if_splits)
  then have "\<exists>st' calls. cq_run (\<lambda>_. True) ok idxs cmds hs (q', c, d) = Some (st', calls)"
    unfolding cq_run_def by (rule cuda_hwq.suspensions_accepted [OF _ assms(2,3)])
  then obtain st' calls where r: "cq_run (\<lambda>_. True) ok idxs cmds hs (q', c, d) = Some (st', calls)" by blast
  have "cq_run drv ok idxs cmds hs (q', c, d)
      = (if list_all drv (filter (asserted q') calls) then Some (st', calls) else None)" for drv
    using cq_run_refused [of drv ok idxs cmds hs "(q', c, d)"] r by simp
  then show ?thesis using r by blast
qed

text \<open>A queue that its XQueue was created for with a level the hardware does not support ends the
  process: the level is not compared with what the queue supports.\<close>

lemma unsupported_level_ends_process:
  "cq_kind q \<noteq> CudaQueueLv1 \<Longrightarrow> l > cq_GetMaxSupportedLevel (cq_kind q) \<Longrightarrow>
     cq_exec (\<lambda>_. True) ok idx cmds (HwOnPreemptLevelChange l) (q, c, d) = None"
  by (simp add: cq_OnPreemptLevelChange_def)

text \<open>A queue that instruments kernels is only made for an architecture with a guardian, and one
  that uses the trap handler for one with a trap handler.\<close>

lemma created_queue_has_code:
  "(CudaQueueCreate w env arch stream \<in> {CudaQueueLv2, CudaQueueLv3Trap} \<longrightarrow> Guardian_Instance arch)
   \<and> (CudaQueueCreate w env arch stream = CudaQueueLv3Trap \<longrightarrow> TrapHandler_Instance arch)"
  by (auto simp: CudaQueueCreate_def Guardian_Instance_def TrapHandler_Instance_def)

section \<open>Instrumentation\<close>

definition ivl :: "nat \<Rightarrow> nat \<Rightarrow> nat set" where
  "ivl a n = {a..<a + n}"

text \<open>The allocated regions are apart from each other, within the blocks, and in the last block below
  what is used of it.\<close>

definition old_space :: "instr_mem \<Rightarrow> nat set" where
  "old_space m = (\<Union>b\<in>set (butlast (im_blocks m)). ivl b (im_block_size m))"

definition im_ok :: "instr_mem \<Rightarrow> (nat \<times> nat) list \<Rightarrow> bool" where
  "im_ok m regs \<longleftrightarrow> im_blocks m \<noteq> [] \<and> im_used m \<le> im_block_size m
     \<and> old_space m \<inter> ivl (last (im_blocks m)) (im_block_size m) = {}
     \<and> (\<forall>(a, n)\<in>set regs. ivl a n \<subseteq> old_space m \<union> ivl (last (im_blocks m)) (im_used m))
     \<and> sorted_wrt (\<lambda>(a, n) (b, k). ivl a n \<inter> ivl b k = {}) regs"

definition new_block :: "nat \<Rightarrow> instr_mem \<Rightarrow> bool" where
  "new_block b m \<longleftrightarrow> (\<forall>b'\<in>set (im_blocks m). ivl b (im_block_size m) \<inter> ivl b' (im_block_size m) = {})"

lemma Alloc_ok:
  assumes ok: "im_ok m regs" and n: "n \<le> im_block_size m" and new: "new_block b m" and a: "Alloc b n m = (a, m')"
  shows "im_ok m' ((a, n) # regs) \<and> im_block_size m' = im_block_size m"
proof -
  let ?bs = "im_block_size m" and ?l = "last (im_blocks m)"
  have regs: "ivl x k \<subseteq> old_space m \<union> ivl ?l (im_used m)" if "(x, k) \<in> set regs" for x k
    using ok that by (auto simp: im_ok_def)
  have ne: "im_blocks m \<noteq> []" "im_used m \<le> ?bs" and old: "old_space m \<inter> ivl ?l ?bs = {}"
    and srt: "sorted_wrt (\<lambda>(a, n) (b, k). ivl a n \<inter> ivl b k = {}) regs"
    using ok by (auto simp: im_ok_def)
  show ?thesis
  proof (cases "im_used m + n \<le> ?bs")
    case True
    then have m': "m' = m\<lparr> im_used := im_used m + n \<rparr>" "a = ?l + im_used m"
      using a by (auto simp: Alloc_def)
    have r: "ivl a n \<subseteq> ivl ?l (im_used m + n)" "ivl ?l (im_used m) \<subseteq> ivl ?l (im_used m + n)"
      "ivl a n \<inter> ivl ?l (im_used m) = {}" "ivl a n \<subseteq> ivl ?l ?bs"
      using True by (auto simp: ivl_def m')
    have "ivl a n \<inter> ivl x k = {}" if "(x, k) \<in> set regs" for x k
      using regs [OF that] r(3,4) old by blast
    moreover have "old_space m' = old_space m" by (simp add: old_space_def m')
    ultimately show ?thesis using ne old srt regs r True by (fastforce simp: im_ok_def m')
  next
    case False
    then have m': "m' = m\<lparr> im_blocks := im_blocks m @ [b], im_used := n \<rparr>" "a = b"
      using a by (auto simp: Alloc_def)
    have bl: "set (im_blocks m) = insert ?l (set (butlast (im_blocks m)))"
      using ne(1) by (metis append_butlast_last_id list.set(1,2) set_append Un_insert_right sup_bot_right)
    have o: "old_space m' = old_space m \<union> ivl ?l ?bs"
      by (auto simp: old_space_def m' bl)
    have d: "old_space m' \<inter> ivl b ?bs = {}"
      unfolding o using new by (auto simp: new_block_def bl old_space_def)
    have sub: "ivl b n \<subseteq> ivl b ?bs" "ivl ?l (im_used m) \<subseteq> ivl ?l ?bs" using n ne(2) by (auto simp: ivl_def)
    have "ivl x k \<subseteq> old_space m'" if "(x, k) \<in> set regs" for x k
      using regs [OF that] sub(2) by (auto simp: o)
    then show ?thesis using ne srt d sub n by (fastforce simp: im_ok_def m')
  qed
qed

definition code_at :: "cu_driver \<Rightarrow> nat \<Rightarrow> int list \<Rightarrow> bool" where
  "code_at d a bs \<longleftrightarrow> (\<forall>i<length bs. dr_code d (a + i) = bs ! i)"

lemma code_at_copy_same: "code_at (copy_code a bs d) a bs"
  by (simp add: code_at_def copy_code_def)

lemma code_at_copy_other:
  "ivl a (length bs) \<inter> ivl g (length cs) = {} \<Longrightarrow> code_at (copy_code a bs d) g cs = code_at d g cs"
  unfolding code_at_def copy_code_def ivl_def by (rule all_cong) (auto simp: disjoint_iff)

lemma code_at_append: "code_at d a (bs @ cs) \<longleftrightarrow> code_at d a bs \<and> code_at d (a + length bs) cs"
proof
  assume l: "code_at d a (bs @ cs)"
  have "dr_code d (a + i) = bs ! i" if "i < length bs" for i
    using l that by (auto simp: code_at_def nth_append dest: spec [of _ i])
  moreover have "dr_code d (a + length bs + i) = cs ! i" if "i < length cs" for i
    using l [unfolded code_at_def, rule_format, of "length bs + i"] that by (simp add: nth_append add.assoc)
  ultimately show "code_at d a bs \<and> code_at d (a + length bs) cs" by (simp add: code_at_def)
next
  assume r: "code_at d a bs \<and> code_at d (a + length bs) cs"
  have "dr_code d (a + i) = (bs @ cs) ! i" if "i < length (bs @ cs)" for i
  proof (cases "i < length bs")
    case False
    then have "i - length bs < length cs" using that by simp
    then have "dr_code d (a + length bs + (i - length bs)) = cs ! (i - length bs)"
      using r by (simp only: code_at_def)
    then show ?thesis using False by (simp add: nth_append)
  qed (use r in \<open>simp add: code_at_def nth_append\<close>)
  then show "code_at d a (bs @ cs)" by (simp add: code_at_def)
qed

text \<open>The instrumented code of a kernel, and everything that a context does to the driver's memory: its
  construction, instrumentations, and launches. \<open>room\<close> says that every piece of code that was given
  memory fits into a block; \<open>L\<close> are the functions that were launched under the guardian with other entry
  points than those that the context has for them, as happens to a kernel that was not instrumented when it
  was submitted. The blocks from the driver do not overlap.\<close>

definition instrumented_code :: "cu_code \<Rightarrow> cuhandle \<Rightarrow> int list" where
  "instrumented_code code f = guardian_code code @ kernel_binary code f"

inductive instr_reach ::
  "cu_code \<Rightarrow> cu_driver \<Rightarrow> instr_ctx \<Rightarrow> cu_driver \<Rightarrow> bool \<Rightarrow> cuhandle set \<Rightarrow> bool" for code d0 where
  init: "\<lbrakk> new_block block (InstrMemAllocator_new first gran);
           InstrumentContext_new code ptr first block gran d0 = (c, d) \<rbrakk>
         \<Longrightarrow> instr_reach code d0 c d (length (resume_code code) \<le> im_block_size (InstrMemAllocator_new first gran)) {}"
| instrument: "\<lbrakk> instr_reach code d0 c d room L; new_block block (ic_mem c);
           InstrumentContext_Instrument code block k c d = (k', c', d') \<rbrakk>
         \<Longrightarrow> instr_reach code d0 c' d'
               (room \<and> (map_of (ic_kernels c) (kc_func k) = None
                 \<longrightarrow> length (instrumented_code code (kc_func k)) \<le> im_block_size (ic_mem c))) L"
| launch: "\<lbrakk> instr_reach code d0 c d room L;
           InstrumentContext_Launch ok k type c d = Some (start, c', d') \<rbrakk>
         \<Longrightarrow> instr_reach code d0 c' d' room
               (if type \<noteq> kKernelLaunchOriginal
                   \<and> map_of (ic_kernels c) (kc_func k) \<noteq> Some (kc_entry_original k, kc_entry_guardian k)
                then insert (kc_func k) L else L)"

definition instr_inv :: "cu_code \<Rightarrow> instr_ctx \<Rightarrow> cu_driver \<Rightarrow> (nat \<times> nat) list \<Rightarrow> bool" where
  "instr_inv code c d regs \<longleftrightarrow>
     im_ok (ic_mem c) regs
     \<and> (ic_entry_resume c, length (resume_code code)) \<in> set regs
     \<and> code_at d (ic_entry_resume c) (resume_code code)
     \<and> (\<forall>f orig guard. map_of (ic_kernels c) f = Some (orig, guard) \<longrightarrow>
          (guard, length (instrumented_code code f)) \<in> set regs
          \<and> code_at d guard (instrumented_code code f))"

definition entries_ok :: "cu_driver \<Rightarrow> instr_ctx \<Rightarrow> cu_driver \<Rightarrow> cuhandle set \<Rightarrow> bool" where
  "entries_ok d0 c d L \<longleftrightarrow> (\<forall>f. f \<notin> L \<longrightarrow> fn_entry d f = fn_entry d0 f
     \<and> (\<forall>orig guard. map_of (ic_kernels c) f = Some (orig, guard) \<longrightarrow> orig = fn_entry d0 f))"

lemma entries_Instrument:
  assumes "entries_ok d0 c d L" "InstrumentContext_Instrument code block k c d = (k', c', d')"
  shows "entries_ok d0 c' d' L"
  using assms
  by (auto simp: entries_ok_def InstrumentContext_Instrument_def Let_def copy_code_def update_conv'
      split: option.splits prod.splits if_splits)

lemma entries_Launch:
  assumes "entries_ok d0 c d L" "InstrumentContext_Launch ok k type c d = Some (start, c', d')"
  shows "entries_ok d0 c' d' (if type \<noteq> kKernelLaunchOriginal
       \<and> map_of (ic_kernels c) (kc_func k) \<noteq> Some (kc_entry_original k, kc_entry_guardian k)
     then insert (kc_func k) L else L)"
proof (cases "type = kKernelLaunchOriginal")
  case True
  then show ?thesis using assms by (auto simp: entries_ok_def InstrumentContext_Launch_def)
next
  case False
  then have "c' = c" "fn_entry d' = (fn_entry d)(kc_func k := kc_entry_original k)"
    using assms(2) by (auto simp: InstrumentContext_Launch_def Let_def split: launch_type.splits)
  then show ?thesis using assms(1) False by (auto simp: entries_ok_def)
qed

lemma instr_inv_Instrument:
  assumes inv: "instr_inv code c d regs" and new: "new_block block (ic_mem c)"
    and n: "length (instrumented_code code (kc_func k)) \<le> im_block_size (ic_mem c)"
    and r: "InstrumentContext_Instrument code block k c d = (k', c', d')"
  shows "\<exists>regs'. instr_inv code c' d' regs'"
proof (cases "map_of (ic_kernels c) (kc_func k)")
  case None
  let ?f = "kc_func k"
  let ?n = "length (instrumented_code code ?f)"
  obtain a m where am: "Alloc block (length (kernel_binary code ?f) + length (guardian_code code)) (ic_mem c) = (a, m)"
    by fastforce
  have len: "length (kernel_binary code ?f) + length (guardian_code code) = ?n"
    by (simp add: instrumented_code_def)
  define d1 where "d1 = copy_code (a + length (guardian_code code)) (kernel_binary code ?f)
    (copy_code a (guardian_code code) d)"
  have c': "ic_mem c' = m" "ic_kernels c' = AList.update ?f (fn_entry d ?f, a) (ic_kernels c)"
    "ic_entry_resume c' = ic_entry_resume c" "dr_code d' = dr_code d1"
    using r None by (auto simp: InstrumentContext_Instrument_def Let_def am d1_def copy_code_def)
  have al: "im_ok m ((a, ?n) # regs)" using Alloc_ok [OF _ n new am [unfolded len]] inv
    by (simp add: instr_inv_def)
  have here: "code_at d' a (instrumented_code code ?f)"
  proof -
    have "code_at d1 a (guardian_code code)"
      unfolding d1_def
      by (subst code_at_copy_other) (auto simp: ivl_def code_at_copy_same)
    moreover have "code_at d1 (a + length (guardian_code code)) (kernel_binary code ?f)"
      by (simp add: d1_def code_at_copy_same)
    ultimately have "code_at d1 a (instrumented_code code ?f)" by (simp add: instrumented_code_def code_at_append)
    then show ?thesis by (simp add: code_at_def c')
  qed
  have other: "code_at d' g bs" if "(g, length bs) \<in> set regs" "code_at d g bs" for g bs
  proof -
    have dis: "ivl a ?n \<inter> ivl g (length bs) = {}" using al that(1) by (auto simp: im_ok_def)
    have sub: "ivl a (length (guardian_code code)) \<subseteq> ivl a ?n"
      "ivl (a + length (guardian_code code)) (length (kernel_binary code ?f)) \<subseteq> ivl a ?n"
      by (auto simp: ivl_def instrumented_code_def)
    have "ivl a (length (guardian_code code)) \<inter> ivl g (length bs) = {}"
      "ivl (a + length (guardian_code code)) (length (kernel_binary code ?f)) \<inter> ivl g (length bs) = {}"
      using dis sub by blast+
    then have "code_at d1 g bs" using that(2) by (simp add: d1_def code_at_copy_other)
    then show ?thesis by (simp add: code_at_def c')
  qed
  have "instr_inv code c' d' ((a, ?n) # regs)"
    using inv al here other by (auto simp: instr_inv_def c' update_conv' split: if_splits)
  then show ?thesis by blast
next
  case (Some p)
  then have "c' = c" "d' = d"
    using r by (auto simp: InstrumentContext_Instrument_def Let_def split: prod.splits)
  then show ?thesis using inv by blast
qed

lemma instr_inv_Launch:
  assumes "instr_inv code c d regs" "InstrumentContext_Launch ok k type c d = Some (start, c', d')"
  shows "instr_inv code c' d' regs"
proof -
  have "ic_mem c' = ic_mem c" "ic_kernels c' = ic_kernels c" "ic_entry_resume c' = ic_entry_resume c"
    "dr_code d' = dr_code d"
    using assms(2) by (auto simp: InstrumentContext_Launch_def Let_def split: launch_type.splits)
  then show ?thesis using assms(1) by (auto simp: instr_inv_def code_at_def)
qed

lemma instr_inv_new:
  assumes new: "new_block block (InstrMemAllocator_new first gran)"
    and n: "length (resume_code code) \<le> im_block_size (InstrMemAllocator_new first gran)"
    and r: "InstrumentContext_new code ptr first block gran d0 = (c, d)"
  shows "\<exists>regs. instr_inv code c d regs"
proof -
  obtain a m where am: "Alloc block (length (resume_code code)) (InstrMemAllocator_new first gran) = (a, m)"
    by fastforce
  have "im_ok (InstrMemAllocator_new first gran) []"
    by (simp add: im_ok_def InstrMemAllocator_new_def old_space_def)
  from Alloc_ok [OF this n new am] have al: "im_ok m [(a, length (resume_code code))]" by simp
  have c: "ic_mem c = m" "ic_entry_resume c = a" "ic_kernels c = []" "d = copy_code a (resume_code code) d0"
    using r by (auto simp: InstrumentContext_new_def am)
  then have "instr_inv code c d [(a, length (resume_code code))]"
    using al code_at_copy_same by (simp add: instr_inv_def copy_code_def code_at_def)
  then show ?thesis by blast
qed

lemma instr_reach_inv: "instr_reach code d0 c d room L \<Longrightarrow> room \<Longrightarrow> \<exists>regs. instr_inv code c d regs"
proof (induction rule: instr_reach.induct)
  case (init block first gran ptr c d)
  then show ?case using instr_inv_new by blast
next
  case (instrument c d room L block k k' c' d')
  then obtain regs where "instr_inv code c d regs" by blast
  moreover have "c' = c \<and> d' = d" if "map_of (ic_kernels c) (kc_func k) \<noteq> None"
    using instrument.hyps(3) that by (auto simp: InstrumentContext_Instrument_def Let_def split: prod.splits)
  ultimately show ?case
    using instr_inv_Instrument [OF _ instrument.hyps(2) _ instrument.hyps(3)] instrument.prems by blast
next
  case (launch c d room L ok k type start c' d')
  then show ?case using instr_inv_Launch by blast
qed

lemma instr_reach_entries: "instr_reach code d0 c d room L \<Longrightarrow> entries_ok d0 c d L"
proof (induction rule: instr_reach.induct)
  case (init block first gran ptr c d)
  then show ?case by (auto simp: entries_ok_def InstrumentContext_new_def copy_code_def split: prod.splits)
next
  case (instrument c d room L block k k' c' d')
  then show ?case using entries_Instrument by blast
next
  case (launch c d room L ok k type start c' d')
  then show ?case using entries_Launch by blast
qed

text \<open>C25: Whatever kernels are instrumented and launched, in whatever order, on blocks of the driver that do
  not overlap: as long as all code fits into a block, the memory at the entry point of an instrumented kernel
  holds the guardian code followed by the kernel, however many kernels were instrumented after it, and the
  code that resumes stays as it is; and a function of which no launch under the guardian had other entry
  points than the recorded ones starts, when launched outside of the guardian, where it always did. (What
  happens otherwise: \<open>oversized_kernel_overflows\<close> and \<open>level_change_during_submit\<close>.)\<close>

theorem instrumented_code_is_intact:
  assumes "instr_reach code d0 c d room L"
  shows "(room \<longrightarrow> code_at d (ic_entry_resume c) (resume_code code)
            \<and> (\<forall>f orig guard. map_of (ic_kernels c) f = Some (orig, guard)
                 \<longrightarrow> code_at d guard (guardian_code code @ kernel_binary code f)))
       \<and> (\<forall>f. f \<notin> L \<longrightarrow> fn_entry d f = fn_entry d0 f
            \<and> (\<forall>orig guard. map_of (ic_kernels c) f = Some (orig, guard) \<longrightarrow> orig = fn_entry d0 f))"
  using instr_reach_inv [OF assms] instr_reach_entries [OF assms]
  by (auto simp: instr_inv_def instrumented_code_def entries_ok_def)

text \<open>A kernel that does not fit into a block gets the start of one all the same.\<close>

lemma oversized_kernel_overflows:
  assumes "im_block_size m < n" "Alloc block n m = (a, m')"
  shows "a = block \<and> im_blocks m' = im_blocks m @ [block] \<and> im_block_size m' < n"
  using assms by (auto simp: Alloc_def Let_def)

text \<open>The preempt buffer of a queue has room for the flags of every block of a kernel that has been
  instrumented on it, also after others have been.\<close>

definition has_room :: "instr_mgr \<Rightarrow> grid3d \<Rightarrow> bool" where
  "has_room g grid \<longleftrightarrow> preempt_buffer_size (gx grid * gy grid * gz grid) \<le> rb_size (mg_buf g)"

theorem preempt_buffer_has_room:
  assumes "rb_ok (mg_buf g)" "gx (kc_grid k) * gy (kc_grid k) * gz (kc_grid k) < 2 ^ 32"
    "InstrumentManager_Instrument code ok block k g c d = Some (k', g', c', d')"
  shows "has_room g' (kc_grid k) \<and> kc_preempt_buffer k' = rb_ptr (mg_buf g) \<and> rb_ok (mg_buf g')
    \<and> rb_ptr (mg_buf g') = rb_ptr (mg_buf g) \<and> (has_room g other \<longrightarrow> has_room g' other)"
proof -
  obtain k1 c1 d1 where i: "InstrumentContext_Instrument code block k c d = (k1, c1, d1)" by (rule prod_cases3)
  obtain b where b: "ExpandTo ok (preempt_buffer_size (BlockCnt (kc_grid k))) (mg_buf g) = Some b"
    "mg_buf g' = b" "kc_preempt_buffer k' = rb_ptr b"
    using assms(3) by (auto simp: InstrumentManager_Instrument_def i)
  have "BlockCnt (kc_grid k) = gx (kc_grid k) * gy (kc_grid k) * gz (kc_grid k)"
    using assms(2) by (simp add: BlockCnt_def)
  then show ?thesis using ExpandTo_ok [OF assms(1) b(1)] b(2,3) by (auto simp: has_room_def)
qed

text \<open>From 2^32 blocks on the count wraps around, and the flags of the last blocks are outside.\<close>

lemma block_count_wraps:
  "BlockCnt \<lparr> gx = 65536, gy = 65536, gz = 1 \<rparr> = 0
   \<and> \<not> has_room (InstrumentManager_new 0 (2 ^ 21)) \<lparr> gx = 65536, gy = 65536, gz = 1 \<rparr>
   \<and> ExpandTo ok (preempt_buffer_size (BlockCnt \<lparr> gx = 65536, gy = 65536, gz = 1 \<rparr>))
       (mg_buf (InstrumentManager_new 0 (2 ^ 21))) = Some (mg_buf (InstrumentManager_new 0 (2 ^ 21)))"
  by (simp add: BlockCnt_def has_room_def preempt_buffer_size_def InstrumentManager_new_def ResizableBuffer_new_def
      ROUND_UP_def BUFFER_DEFAULT_SIZE_def ExpandTo_def)

text \<open>A kernel that is submitted just before the level of its XQueue rises to 2 is not instrumented;
  launched after that it starts at address 0, and its function keeps that entry point.\<close>

lemma level_change_during_submit:
  assumes "cq_kind q = CudaQueueLv2" "cq_level q = kPreemptLevelBlock" "kc_entry_guardian k = 0"
    "kc_entry_original k = 0" "mg_preempt_idx (cq_mgr q) \<noteq> kc_idx k"
  shows "cq_OnHwCommandSubmit code ok block (KernelCmd k) (q, c, d) = Some (KernelCmd k, (q, c, d))
    \<and> (\<exists>q' d' start. cq_OnPreemptLevelChange kPreemptLevelDeactivate q = Some (q', [])
         \<and> cq_Launch (\<lambda>_. True) ok (KernelCmd k) (q', c, d) = Some ((q', c, d'), [LaunchKernel start])
         \<and> ks_entry start = 0 \<and> fn_entry d' (kc_func k) = 0)"
  using assms
  by (simp add: cq_OnHwCommandSubmit_def instrumenting_def cq_OnPreemptLevelChange_def cq_Launch_def
      InstrumentManager_Launch_def InstrumentContext_Launch_def launch_type_of_def)

section \<open>Timeslices\<close>

text \<open>The other way to interrupt a context sets its time slice to 0 while any of its XQueues is
  interrupted. The counter of 64 bits is atomic, but setting the slice comes after it: \<open>tsg_pending\<close> are the
  calls that have been decided and not made.\<close>

record tsg =
  tsg_count :: "64 word"
  tsg_slice :: nat
  tsg_timeslice :: nat
  tsg_pending :: "nat list"

datatype tsg_act = TsgInterruptAct | TsgRestoreAct | TsgSet nat

definition TsgContext_new :: "nat \<Rightarrow> tsg" where
  "TsgContext_new ts = \<lparr> tsg_count = 0, tsg_slice = ts, tsg_timeslice = ts, tsg_pending = [] \<rparr>"

fun tsg_exec :: "tsg_act \<Rightarrow> tsg \<Rightarrow> tsg option" where
  "tsg_exec TsgInterruptAct t =
     Some (t\<lparr> tsg_count := tsg_count t + 1,
              tsg_pending := (if tsg_count t = 0 then tsg_pending t @ [0] else tsg_pending t) \<rparr>)"
| "tsg_exec TsgRestoreAct t =
     Some (t\<lparr> tsg_count := tsg_count t - 1,
              tsg_pending := (if tsg_count t = 1 then tsg_pending t @ [tsg_timeslice t] else tsg_pending t) \<rparr>)"
| "tsg_exec (TsgSet i) t =
     (if i < length (tsg_pending t)
      then Some (t\<lparr> tsg_slice := tsg_pending t ! i,
                    tsg_pending := take i (tsg_pending t) @ drop (Suc i) (tsg_pending t) \<rparr>)
      else None)"

fun tsg_run :: "tsg_act list \<Rightarrow> tsg \<Rightarrow> tsg option" where
  "tsg_run [] t = Some t"
| "tsg_run (a # as) t = (case tsg_exec a t of None \<Rightarrow> None | Some t' \<Rightarrow> tsg_run as t')"

text \<open>Threads that do not overlap: each makes its call before the next begins, and restores what was
  interrupted; and the counter does not overflow.\<close>

definition tsg_call :: "bool \<Rightarrow> tsg \<Rightarrow> tsg option" where
  "tsg_call interrupt t =
     (if interrupt \<and> tsg_count t = - 1 then None
      else if interrupt then tsg_run (TsgInterruptAct # (if tsg_count t = 0 then [TsgSet 0] else [])) t
      else if tsg_count t = 0 then None
      else tsg_run (TsgRestoreAct # (if tsg_count t = 1 then [TsgSet 0] else [])) t)"

fun tsg_calls :: "bool list \<Rightarrow> tsg \<Rightarrow> tsg option" where
  "tsg_calls [] t = Some t"
| "tsg_calls (b # bs) t = (case tsg_call b t of None \<Rightarrow> None | Some t' \<Rightarrow> tsg_calls bs t')"

lemma tsg_call_inv:
  assumes "tsg_call b t = Some t'" "tsg_pending t = []" "tsg_slice t = (if tsg_count t = 0 then tsg_timeslice t else 0)"
  shows "tsg_pending t' = [] \<and> tsg_slice t' = (if tsg_count t' = 0 then tsg_timeslice t' else 0)
    \<and> tsg_timeslice t' = tsg_timeslice t"
  using assms by (auto simp: tsg_call_def eq_neg_iff_add_eq_0 split: if_splits)

text \<open>Then the context has no time slice exactly while some XQueue is interrupted.\<close>

theorem tsg_stopped_iff_interrupted:
  assumes "tsg_calls bs (TsgContext_new ts) = Some t"
  shows "tsg_slice t = (if tsg_count t = 0 then ts else 0)"
proof -
  have "tsg_calls bs t0 = Some t \<Longrightarrow> tsg_pending t0 = [] \<Longrightarrow> tsg_timeslice t0 = ts
      \<Longrightarrow> tsg_slice t0 = (if tsg_count t0 = 0 then ts else 0)
      \<Longrightarrow> tsg_slice t = (if tsg_count t = 0 then ts else 0)" for t0
  proof (induction bs arbitrary: t0)
    case (Cons b bs)
    then obtain t1 where t1: "tsg_call b t0 = Some t1" "tsg_calls bs t1 = Some t" by (auto split: option.splits)
    show ?case using Cons.IH [OF t1(2)] tsg_call_inv [OF t1(1)] Cons.prems by simp
  qed simp
  from this [OF assms] show ?thesis by (simp add: TsgContext_new_def)
qed

text \<open>Overlapping ones can leave it running with an XQueue interrupted.\<close>

lemma overlapping_restore_undoes_interrupt:
  "map_option (\<lambda>t. (tsg_count t, tsg_slice t, tsg_pending t))
     (tsg_run [TsgInterruptAct, TsgSet 0, TsgRestoreAct, TsgInterruptAct, TsgSet 1, TsgSet 0] (TsgContext_new 2000))
   = Some (1, 2000, [])"
  by (simp add: TsgContext_new_def)

section \<open>At work\<close>

text \<open>Two kernels of three and of two words; the driver gives a block at 4096.\<close>

definition ex_code :: cu_code where
  "ex_code = \<lparr> guardian_code = [10, 11], resume_code = [20], kernel_binary = (\<lambda>f. if f = 7 then [1, 2, 3] else [4, 5]) \<rparr>"

definition ex_driver :: cu_driver where
  "ex_driver = \<lparr> fn_entry = (\<lambda>f. if f = 7 then 100 else 200), fn_regs = (\<lambda>_. 16), fn_barriers = (\<lambda>_. 0), dr_code = (\<lambda>_. 0) \<rparr>"

definition ex_kernel :: "cuhandle \<Rightarrow> int \<Rightarrow> kernel_cmd" where
  "ex_kernel f i = \<lparr> kc_func = f, kc_grid = \<lparr> gx = 3000000, gy = 1, gz = 1 \<rparr>, kc_idx = i, kc_killable = False,
     kc_preempt_buffer = 0, kc_entry_original = 0, kc_entry_guardian = 0 \<rparr>"

text \<open>Kernels 7 and 8 are instrumented, and function 9 is launched under the guardian without that.\<close>

lemma ex_instrumented:
  "\<exists>c d. instr_reach ex_code ex_driver c d True {9} \<and> map_of (ic_kernels c) 7 = Some (100, 4097)
     \<and> map_of (ic_kernels c) 8 = Some (200, 4102) \<and> fn_entry d 9 = 0"
proof -
  obtain c d where n: "InstrumentContext_new ex_code 0 4096 100000000 1 ex_driver = (c, d)" by fastforce
  have r: "instr_reach ex_code ex_driver c d True {}"
    using instr_reach.init [OF _ n]
    by (simp add: new_block_def InstrMemAllocator_new_def ivl_def ROUND_UP_def BUFFER_DEFAULT_SIZE_def ex_code_def)
  have c: "ic_mem c = \<lparr> im_blocks = [4096], im_used = 1, im_block_size = 16777216 \<rparr>" "ic_kernels c = []"
    "fn_entry d = fn_entry ex_driver"
    using n by (auto simp: InstrumentContext_new_def Alloc_def Let_def InstrMemAllocator_new_def ROUND_UP_def
      BUFFER_DEFAULT_SIZE_def ex_code_def copy_code_def)
  obtain k1 c1 d1 where i: "InstrumentContext_Instrument ex_code 100000000 (ex_kernel 7 1) c d = (k1, c1, d1)"
    by (rule prod_cases3)
  have r1: "instr_reach ex_code ex_driver c1 d1 True {}"
    using instr_reach.instrument [OF r _ i]
    by (simp add: c new_block_def ivl_def instrumented_code_def ex_code_def ex_kernel_def)
  have c1: "ic_mem c1 = \<lparr> im_blocks = [4096], im_used = 6, im_block_size = 16777216 \<rparr>"
    "ic_kernels c1 = [(7, 100, 4097)]" "fn_entry d1 = fn_entry ex_driver"
    using i by (auto simp: InstrumentContext_Instrument_def Let_def Alloc_def c ex_code_def ex_kernel_def ex_driver_def
      copy_code_def)
  obtain k2 c2 d2 where j: "InstrumentContext_Instrument ex_code 100000000 (ex_kernel 8 2) c1 d1 = (k2, c2, d2)"
    by (rule prod_cases3)
  have r2: "instr_reach ex_code ex_driver c2 d2 True {}"
    using instr_reach.instrument [OF r1 _ j]
    by (simp add: c1 new_block_def ivl_def instrumented_code_def ex_code_def ex_kernel_def)
  have c2: "ic_kernels c2 = [(7, 100, 4097), (8, 200, 4102)]"
    using j by (auto simp: InstrumentContext_Instrument_def Let_def Alloc_def c1 ex_code_def ex_kernel_def ex_driver_def
      copy_code_def)
  obtain start d3 where l: "InstrumentContext_Launch True (ex_kernel 9 3) kKernelLaunchGuardian c2 d2 = Some (start, c2, d3)"
    "fn_entry d3 9 = 0"
    by (simp add: InstrumentContext_Launch_def Let_def ex_kernel_def)
  have "instr_reach ex_code ex_driver c2 d3 True {9}"
    using instr_reach.launch [OF r2 l(1)] by (simp add: c2 ex_kernel_def)
  then show ?thesis using c2 l(2) by (intro exI [of _ c2] exI [of _ d3]) simp
qed

theorem instrumented_code_is_intact_witness:
  "\<exists>(c :: instr_ctx) d. map_of (ic_kernels c) 8 = Some (200, 4102) \<and> code_at d 4102 [10, 11, 4, 5]
     \<and> code_at d 4097 [10, 11, 1, 2, 3] \<and> fn_entry d 7 = 100 \<and> fn_entry d 8 = 200 \<and> fn_entry d 9 \<noteq> fn_entry ex_driver 9"
proof -
  obtain c d where r: "instr_reach ex_code ex_driver c d True {9}" and k: "map_of (ic_kernels c) 7 = Some (100, 4097)"
      "map_of (ic_kernels c) 8 = Some (200, 4102)" "fn_entry d 9 = 0"
    using ex_instrumented by blast
  have "code_at d 4097 [10, 11, 1, 2, 3]" "code_at d 4102 [10, 11, 4, 5]" "fn_entry d 7 = 100" "fn_entry d 8 = 200"
    using instrumented_code_is_intact [OF r] k by (force simp: ex_code_def ex_driver_def)+
  then show ?thesis using k(2,3) by (intro exI [of _ c] exI [of _ d]) (simp add: ex_driver_def)
qed

theorem preempt_buffer_has_room_witness:
  "\<exists>k' g' c' d'. InstrumentManager_Instrument ex_code True 0 (ex_kernel 7 1) (InstrumentManager_new 65536 2097152) c ex_driver
      = Some (k', g', c', d')
    \<and> \<not> has_room (InstrumentManager_new 65536 2097152) (kc_grid (ex_kernel 7 1)) \<and> has_room g' (kc_grid (ex_kernel 7 1))
    \<and> kc_preempt_buffer k' = 65536"
proof -
  let ?g = "InstrumentManager_new 65536 2097152"
  have m: "mg_buf ?g = \<lparr> rb_ptr = 65536, rb_size = 16777216, rb_granularity = 2097152, rb_handles = [16777216] \<rparr>"
    by (simp add: InstrumentManager_new_def ResizableBuffer_new_def ROUND_UP_def BUFFER_DEFAULT_SIZE_def)
  have n: "preempt_buffer_size (BlockCnt (kc_grid (ex_kernel 7 1))) = 24000016"
    by (simp add: ex_kernel_def BlockCnt_def preempt_buffer_size_def)
  have "\<exists>k' g' c' d'. InstrumentManager_Instrument ex_code True 0 (ex_kernel 7 1) ?g c ex_driver = Some (k', g', c', d')"
    by (simp add: InstrumentManager_Instrument_def n m ExpandTo_def VM_DEFAULT_SIZE_def Let_def split: prod.split)
  then obtain k' g' c' d' where
    i: "InstrumentManager_Instrument ex_code True 0 (ex_kernel 7 1) ?g c ex_driver = Some (k', g', c', d')" by blast
  have "rb_ok (mg_buf ?g)" by (simp add: m rb_ok_def)
  moreover have "gx (kc_grid (ex_kernel 7 1)) * gy (kc_grid (ex_kernel 7 1)) * gz (kc_grid (ex_kernel 7 1)) < 2 ^ 32"
    by (simp add: ex_kernel_def)
  ultimately have "has_room g' (kc_grid (ex_kernel 7 1)) \<and> kc_preempt_buffer k' = 65536"
    using preempt_buffer_has_room [OF _ _ i] by (simp add: m)
  moreover have "\<not> has_room ?g (kc_grid (ex_kernel 7 1))"
    by (simp add: has_room_def m ex_kernel_def preempt_buffer_size_def)
  ultimately show ?thesis using i by blast
qed

theorem cuda_queue_accepts_calls_witness:
  "\<exists>q' x calls. cq_OnPreemptLevelChange 3 \<lparr> cq_kind = CudaQueueLv3Trap, cq_level = 1, cq_mgr = InstrumentManager_new 0 1 \<rparr>
        = Some (q', [InstrumentTrapHandler])
     \<and> susp_run ex_susp (ex_axq 3) = Some (x, calls)
     \<and> (\<forall>c d. \<exists>st' cu. cq_run (\<lambda>_. True) True [] (\<lambda>i. OtherCmd i) calls (q', c, d) = Some (st', cu))"
proof -
  let ?q = "\<lparr> cq_kind = CudaQueueLv3Trap, cq_level = 1, cq_mgr = InstrumentManager_new 0 1 \<rparr>"
  obtain x calls where r: "susp_run ex_susp (ex_axq 3) = Some (x, calls)" using ex_susp_run by auto
  have l: "ax_level (ex_axq 3) = 3" by (simp add: ex_axq_def)
  have q: "cq_OnPreemptLevelChange 3 ?q = Some (?q\<lparr> cq_level := 3 \<rparr>, [InstrumentTrapHandler])"
    by (simp add: cq_OnPreemptLevelChange_def)
  have "\<exists>st' cu. cq_run (\<lambda>_. True) True [] (\<lambda>i. OtherCmd i) calls (?q\<lparr> cq_level := 3 \<rparr>, c, d) = Some (st', cu)" for c d
  proof -
    have "cq_OnPreemptLevelChange (ax_level (ex_axq 3)) ?q = Some (?q\<lparr> cq_level := 3 \<rparr>, [InstrumentTrapHandler])"
      "ax_level (ex_axq 3) \<ge> kPreemptLevelBlock" using q by (simp_all add: l)
    from cuda_queue_accepts_calls [OF this r, of True "[]" OtherCmd c d] show ?thesis by blast
  qed
  then show ?thesis using q r by blast
qed

end
