(* ===== verification/GpuPreempt.thy ===== *)
theory GpuPreempt
  imports CudaQueue
begin

text \<open>
  The device side of preemption: the guardian code in front of every instrumented kernel
  (\<^verbatim>\<open>platforms/cuda/hal/inject/inject.cu\<close>, \<open>check_preempt\<close> and \<open>restore_exec\<close>), run by the blocks of
  a kernel in any order and interleaving, beside the host that sets the exit flag and later
  launches the preempted kernels again (\<^verbatim>\<open>level2/cuda_queue.cpp\<close>, \<^verbatim>\<open>level2/instrument.cpp\<close>).

  Kernels of a stream run one after the other; a step of a block is one access to the preempt
  buffer. Thread 0 of a block runs the code. The other threads take part in two ways: they wait
  with it at the barriers, and in \<open>restore_exec\<close> each of them clears the restore flag as well, which
  it may do any time before the next barrier. \<open>blk_late\<close> counts those that still have to.
\<close>

section \<open>The state\<close>

datatype block_pc =
    RestoreCheck | RestoreClear
  | CheckFlag | ClearExit | SetExit | ReadIdx | SaveIdx | SaveRestore | AtBarrier
  | Finished

text \<open>The commands of a queue by their index, from 1: the number of blocks of a kernel, and of the threads
  of a block other than thread 0.\<close>

record gpu_env =
  is_kernel :: "nat \<Rightarrow> bool"
  blocks :: "nat \<Rightarrow> nat"
  others :: "nat \<Rightarrow> nat"

text \<open>The preempt buffer; the stream, the front of which runs; the blocks of the kernel at the front; the
  blocks whose kernel code has been run, the last one first (a command that is no kernel counts as one
  block); and of the host the log, the index of the next command, whether the queue is deactivated, and
  \<^verbatim>\<open>preempt_idx_\<close>.\<close>

record gpu =
  exit_flag :: bool
  preempt_idx :: nat
  block_exit :: "nat \<Rightarrow> bool"
  block_restore :: "nat \<Rightarrow> bool"
  stream :: "(launch_type \<times> nat) list"
  blk_pc :: "nat \<Rightarrow> block_pc"
  blk_late :: "nat \<Rightarrow> nat"
  executed :: "(nat \<times> nat) list"
  host_log :: "nat list"
  host_next :: nat
  deactivated :: bool
  host_preempt_idx :: nat

definition gpu_init :: gpu where
  "gpu_init = \<lparr> exit_flag = False, preempt_idx = 0, block_exit = (\<lambda>_. False), block_restore = (\<lambda>_. False),
     stream = [], blk_pc = (\<lambda>_. CheckFlag), blk_late = (\<lambda>_. 0), executed = [],
     host_log = [], host_next = 1, deactivated = False, host_preempt_idx = 0 \<rparr>"

text \<open>Where the blocks of a launch start: at the guardian code, or before it at the code that restores.\<close>

definition entry_pc :: "launch_type \<Rightarrow> block_pc" where
  "entry_pc type = (if type = kKernelLaunchResume then RestoreCheck else CheckFlag)"

definition start_front :: "gpu \<Rightarrow> gpu" where
  "start_front g =
     g\<lparr> blk_pc := (\<lambda>_. case stream g of [] \<Rightarrow> CheckFlag | (type, _) # _ \<Rightarrow> entry_pc type),
        blk_late := (\<lambda>_. 0) \<rparr>"

section \<open>A block\<close>

abbreviation (input) goto :: "nat \<Rightarrow> block_pc \<Rightarrow> gpu \<Rightarrow> gpu" where
  "goto b pc g \<equiv> g\<lparr> blk_pc := (blk_pc g)(b := pc) \<rparr>"

text \<open>One step of block \<open>b\<close> of kernel \<open>k\<close>. \<open>None\<close> is a block that has finished or waits.\<close>

definition block_step :: "gpu_env \<Rightarrow> nat \<Rightarrow> nat \<Rightarrow> gpu \<Rightarrow> gpu option" where
  "block_step env k b g =
     (case blk_pc g b of
        RestoreCheck \<Rightarrow>
          Some (if block_restore g b then goto b RestoreClear (g\<lparr> blk_late := (blk_late g)(b := others env k) \<rparr>)
                else goto b Finished g)
      | RestoreClear \<Rightarrow> Some (goto b CheckFlag (g\<lparr> block_restore := (block_restore g)(b := False) \<rparr>))
      | CheckFlag \<Rightarrow> Some (goto b (if exit_flag g then SetExit else ClearExit) g)
      | ClearExit \<Rightarrow> Some (goto b AtBarrier (g\<lparr> block_exit := (block_exit g)(b := False) \<rparr>))
      | SetExit \<Rightarrow> Some (goto b ReadIdx (g\<lparr> block_exit := (block_exit g)(b := True) \<rparr>))
      | ReadIdx \<Rightarrow>
          Some (goto b (if preempt_idx g = 0 then SaveIdx else if preempt_idx g = k then SaveRestore else AtBarrier) g)
      | SaveIdx \<Rightarrow> Some (goto b SaveRestore (g\<lparr> preempt_idx := k \<rparr>))
      | SaveRestore \<Rightarrow> Some (goto b AtBarrier (g\<lparr> block_restore := (block_restore g)(b := True) \<rparr>))
      | AtBarrier \<Rightarrow>
          if blk_late g b \<noteq> 0 then None
          else Some (goto b Finished (if block_exit g b then g else g\<lparr> executed := (k, b) # executed g \<rparr>))
      | Finished \<Rightarrow> None)"

section \<open>The host\<close>

definition host_launch :: "nat \<Rightarrow> gpu \<Rightarrow> launch_type \<times> nat" where
  "host_launch i g = (launch_type_of kPreemptLevelDeactivate (int (host_preempt_idx g)) (int i), i)"

datatype gpu_act =
    BlockStep nat
  | LateClear nat
    \<comment> \<open>another thread of the block clears the restore flag\<close>
  | NextLaunch
    \<comment> \<open>all blocks of the kernel at the front have finished\<close>
  | RunOther
    \<comment> \<open>the command at the front is no kernel\<close>
  | RaiseFlag
    \<comment> \<open>the asynchronous write of \<^verbatim>\<open>Deactivate\<close> takes effect\<close>
  | HostLaunch
  | HostComplete
    \<comment> \<open>the first command of the log is known to be completed\<close>
  | HostDeactivate
  | HostReactivate bool
    \<comment> \<open>with the log dropped, or not\<close>

definition reactivate :: "bool \<Rightarrow> gpu \<Rightarrow> gpu" where
  "reactivate drops g =
     (let p = preempt_idx g; lg = (if drops then [] else host_log g);
          g1 = g\<lparr> host_preempt_idx := p, preempt_idx := 0, exit_flag := False, deactivated := False,
                  host_log := lg \<rparr> in
      if p = 0 then g1
      else start_front (g1\<lparr> stream := map (\<lambda>i. host_launch i g1) (filter (\<lambda>i. p \<le> i) lg) \<rparr>))"

fun gpu_exec :: "gpu_env \<Rightarrow> gpu_act \<Rightarrow> gpu \<Rightarrow> gpu option" where
  "gpu_exec env (BlockStep b) g =
     (case stream g of [] \<Rightarrow> None
      | (_, k) # _ \<Rightarrow> if is_kernel env k \<and> b < blocks env k then block_step env k b g else None)"
| "gpu_exec env (LateClear b) g =
     (if blk_late g b = 0 then None
      else Some (g\<lparr> block_restore := (block_restore g)(b := False),
                    blk_late := (blk_late g)(b := blk_late g b - 1) \<rparr>))"
| "gpu_exec env NextLaunch g =
     (case stream g of [] \<Rightarrow> None
      | (_, k) # es \<Rightarrow>
          if is_kernel env k \<and> list_all (\<lambda>b. blk_pc g b = Finished) [0..<blocks env k]
          then Some (start_front (g\<lparr> stream := es \<rparr>)) else None)"
| "gpu_exec env RunOther g =
     (case stream g of [] \<Rightarrow> None
      | (_, k) # es \<Rightarrow>
          if is_kernel env k then None
          else Some (start_front (g\<lparr> stream := es, executed := (k, 0) # executed g \<rparr>)))"
| "gpu_exec env RaiseFlag g = (if deactivated g then Some (g\<lparr> exit_flag := True \<rparr>) else None)"
| "gpu_exec env HostLaunch g =
     (if deactivated g then None
      else let i = host_next g; g1 = g\<lparr> host_next := i + 1, host_log := host_log g @ [i],
                                        stream := stream g @ [host_launch i g] \<rparr> in
        Some (if stream g = [] then start_front g1 else g1))"
| "gpu_exec env HostComplete g =
     (case host_log g of [] \<Rightarrow> None
      | i # is \<Rightarrow> if deactivated g \<or> i \<in> snd ` set (stream g) then None else Some (g\<lparr> host_log := is \<rparr>))"
| "gpu_exec env HostDeactivate g = (if deactivated g then None else Some (g\<lparr> deactivated := True \<rparr>))"
| "gpu_exec env (HostReactivate drops) g =
     (if deactivated g \<and> stream g = [] then Some (reactivate drops g) else None)"

fun gpu_run :: "gpu_env \<Rightarrow> gpu_act list \<Rightarrow> gpu \<Rightarrow> gpu option" where
  "gpu_run env [] g = Some g"
| "gpu_run env (a # as) g = (case gpu_exec env a g of None \<Rightarrow> None | Some g' \<Rightarrow> gpu_run env as g')"

section \<open>Reachable states\<close>

text \<open>All states that runs lead to; if \<open>kept\<close>, by runs that drop no kernel that has been preempted: the log
  is dropped only at a reactivation that finds nothing preempted; and if \<open>calm\<close>, by runs in which
  the flag is raised only when no kernel that is being restored has threads beside thread 0 (it has
  none, or the restored kernel has left the stream).\<close>

definition calm_flag :: "gpu_env \<Rightarrow> gpu \<Rightarrow> bool" where
  "calm_flag env g \<longleftrightarrow> (\<forall>(type, k)\<in>set (stream g). type = kKernelLaunchResume \<longrightarrow> others env k = 0)"

inductive gpu_reach :: "gpu_env \<Rightarrow> bool \<Rightarrow> bool \<Rightarrow> gpu \<Rightarrow> bool" for env calm kept where
  init: "gpu_reach env calm kept gpu_init"
| step: "gpu_reach env calm kept g \<Longrightarrow> gpu_exec env a g = Some g'
    \<Longrightarrow> (kept \<Longrightarrow> a = HostReactivate True \<Longrightarrow> preempt_idx g = 0)
    \<Longrightarrow> (calm \<Longrightarrow> a = RaiseFlag \<Longrightarrow> calm_flag env g) \<Longrightarrow> gpu_reach env calm kept g'"

section \<open>The invariant\<close>

text \<open>The oldest kernel that has not been run completely as far as the queue knows: all commands before
  it have been run, none after it has.\<close>

definition frontier :: "gpu \<Rightarrow> nat" where
  "frontier g = (if preempt_idx g \<noteq> 0 then preempt_idx g
     else case stream g of [] \<Rightarrow> host_next g | (_, k) # _ \<Rightarrow> k)"

text \<open>The log and the stream are the last commands, without gaps; only the first of the stream can be a
  restored one; a kernel is recorded as preempted only while the flag is up.\<close>

definition host_ok :: "gpu_env \<Rightarrow> bool \<Rightarrow> gpu \<Rightarrow> bool" where
  "host_ok env calm g \<longleftrightarrow>
     (\<exists>a h. 1 \<le> a \<and> a \<le> h \<and> h \<le> host_next g \<and> host_log g = [a..<host_next g]
        \<and> map snd (stream g) = [h..<host_next g] \<and> (preempt_idx g \<noteq> 0 \<longrightarrow> a \<le> preempt_idx g \<and> preempt_idx g \<le> h))
     \<and> host_preempt_idx g < host_next g
     \<and> (\<forall>e\<in>set (tl (stream g)). fst e = kKernelLaunchGuardian)
     \<and> (\<forall>k es. stream g = (kKernelLaunchResume, k) # es \<longrightarrow> is_kernel env k \<and> (preempt_idx g = 0 \<or> preempt_idx g = k))
     \<and> (exit_flag g \<longrightarrow> deactivated g)
     \<and> (preempt_idx g \<noteq> 0 \<longrightarrow> exit_flag g \<and> is_kernel env (preempt_idx g) \<and> preempt_idx g < host_next g)
     \<and> (calm \<longrightarrow> exit_flag g \<longrightarrow> calm_flag env g)"

definition kernel_runs :: "gpu_env \<Rightarrow> gpu \<Rightarrow> (nat \<times> nat) list" where
  "kernel_runs env g = filter (\<lambda>e. is_kernel env (fst e)) (executed g)"

definition hist_ok :: "gpu_env \<Rightarrow> bool \<Rightarrow> gpu \<Rightarrow> bool" where
  "hist_ok env calm g \<longleftrightarrow>
     (\<forall>j b. (j, b) \<in> set (executed g) \<longrightarrow> is_kernel env j \<longrightarrow> j \<le> frontier g \<and> j < host_next g)
     \<and> distinct (kernel_runs env g)
     \<and> sorted_wrt (\<lambda>x y. fst y \<le> fst x) (kernel_runs env g)
     \<and> (calm \<longrightarrow> (\<forall>j b. 1 \<le> j \<and> j < frontier g \<and> is_kernel env j \<and> b < blocks env j \<longrightarrow> (j, b) \<in> set (executed g)))"

text \<open>Block \<open>b\<close> of the kernel at the front.\<close>

definition blk_ok :: "bool \<Rightarrow> launch_type \<Rightarrow> nat \<Rightarrow> gpu \<Rightarrow> nat \<Rightarrow> bool" where
  "blk_ok calm t k g b \<longleftrightarrow>
     (let ran = ((k, b) \<in> set (executed g)); mine = (preempt_idx g = 0 \<or> preempt_idx g = k); r = block_restore g b in
      case blk_pc g b of
        RestoreCheck \<Rightarrow> t = kKernelLaunchResume \<and> blk_late g b = 0 \<and> (r \<longrightarrow> \<not> ran) \<and> (calm \<and> \<not> ran \<longrightarrow> r)
      | RestoreClear \<Rightarrow> t = kKernelLaunchResume \<and> \<not> ran
      | CheckFlag \<Rightarrow> \<not> ran \<and> (mine \<longrightarrow> \<not> r)
      | ClearExit \<Rightarrow> \<not> ran \<and> mine \<and> \<not> r
      | SetExit \<Rightarrow> \<not> ran \<and> exit_flag g \<and> (mine \<longrightarrow> \<not> r)
      | ReadIdx \<Rightarrow> \<not> ran \<and> exit_flag g \<and> (mine \<longrightarrow> \<not> r) \<and> block_exit g b
      | SaveIdx \<Rightarrow> \<not> ran \<and> exit_flag g \<and> mine \<and> block_exit g b
      | SaveRestore \<Rightarrow> \<not> ran \<and> exit_flag g \<and> preempt_idx g = k \<and> block_exit g b
      | AtBarrier \<Rightarrow> \<not> ran \<and> (if block_exit g b
                       then exit_flag g \<and> preempt_idx g \<noteq> 0 \<and> (preempt_idx g = k \<longrightarrow> calm \<longrightarrow> r) else mine \<and> \<not> r)
      | Finished \<Rightarrow> blk_late g b = 0 \<and> (if mine then (r \<longrightarrow> \<not> ran \<and> preempt_idx g = k)
                      \<and> (calm \<and> \<not> ran \<longrightarrow> preempt_idx g = k \<and> r) else \<not> ran))"

text \<open>The restore flags: those of the preempted kernel once it has left the stream, and those of the
  kernel at the front.\<close>

definition left_ok :: "gpu_env \<Rightarrow> bool \<Rightarrow> gpu \<Rightarrow> bool" where
  "left_ok env calm g \<longleftrightarrow>
     (\<forall>b. (block_restore g b \<longrightarrow> b < blocks env (preempt_idx g) \<and> (preempt_idx g, b) \<notin> set (executed g))
        \<and> (calm \<longrightarrow> b < blocks env (preempt_idx g) \<longrightarrow> (preempt_idx g, b) \<notin> set (executed g) \<longrightarrow> block_restore g b))"

definition front_ok :: "gpu_env \<Rightarrow> bool \<Rightarrow> gpu \<Rightarrow> bool" where
  "front_ok env calm g \<longleftrightarrow>
     (case stream g of
        [] \<Rightarrow> (if preempt_idx g = 0 then \<forall>b. \<not> block_restore g b else left_ok env calm g)
      | (t, k) # _ \<Rightarrow>
          (preempt_idx g \<noteq> 0 \<and> preempt_idx g \<noteq> k \<longrightarrow> left_ok env calm g)
          \<and> (if is_kernel env k
             then (\<forall>b. b < blocks env k \<longrightarrow> blk_ok calm t k g b)
               \<and> (preempt_idx g = 0 \<or> preempt_idx g = k \<longrightarrow> (\<forall>b. blocks env k \<le> b \<longrightarrow> \<not> block_restore g b))
             else preempt_idx g = 0 \<longrightarrow> (\<forall>b. \<not> block_restore g b)))
     \<and> (\<forall>b. blk_late g b \<noteq> 0 \<longrightarrow> (\<exists>k es. stream g = (kKernelLaunchResume, k) # es \<and> b < blocks env k \<and> others env k \<noteq> 0))"

definition gpu_inv :: "gpu_env \<Rightarrow> bool \<Rightarrow> gpu \<Rightarrow> bool" where
  "gpu_inv env calm g \<longleftrightarrow> host_ok env calm g \<and> hist_ok env calm g \<and> front_ok env calm g"

lemma host_okD:
  assumes "host_ok env calm g"
  obtains a h where "1 \<le> a" "a \<le> h" "h \<le> host_next g" "host_log g = [a..<host_next g]"
    "map snd (stream g) = [h..<host_next g]" "preempt_idx g \<noteq> 0 \<longrightarrow> a \<le> preempt_idx g \<and> preempt_idx g \<le> h"
  using assms unfolding host_ok_def by blast

lemma front_idx:
  assumes "map snd ((t, k) # es) = [h..<n]"
  shows "h = k \<and> k < n \<and> map snd es = [Suc k..<n]"
proof -
  have "h < n" using assms by (metis Nil_is_map_conv list.discI not_le upt_conv_Nil)
  then show ?thesis using assms by (simp add: upt_conv_Cons)
qed

lemma kernel_runs_mem: "is_kernel env j \<Longrightarrow> (j, b) \<in> set (kernel_runs env g) \<longleftrightarrow> (j, b) \<in> set (executed g)"
  by (simp add: kernel_runs_def)

lemma gpu_inv_init: "gpu_inv env calm gpu_init"
proof -
  have "host_ok env calm gpu_init"
    unfolding host_ok_def by (intro conjI exI [of _ "1::nat"]) (simp_all add: gpu_init_def)
  then show ?thesis
    by (simp add: gpu_inv_def gpu_init_def hist_ok_def front_ok_def kernel_runs_def frontier_def)
qed

section \<open>Every step keeps it\<close>

text \<open>The condition of a block by where it is.\<close>

abbreviation (input) mine :: "nat \<Rightarrow> gpu \<Rightarrow> bool" where
  "mine k g \<equiv> preempt_idx g = 0 \<or> preempt_idx g = k"

lemma blk_ok_at:
  "blk_pc g b = RestoreCheck \<Longrightarrow> blk_ok calm t k g b \<longleftrightarrow> t = kKernelLaunchResume \<and> blk_late g b = 0
     \<and> (block_restore g b \<longrightarrow> (k, b) \<notin> set (executed g)) \<and> (calm \<and> (k, b) \<notin> set (executed g) \<longrightarrow> block_restore g b)"
  "blk_pc g b = RestoreClear \<Longrightarrow> blk_ok calm t k g b \<longleftrightarrow> t = kKernelLaunchResume \<and> (k, b) \<notin> set (executed g)"
  "blk_pc g b = CheckFlag \<Longrightarrow> blk_ok calm t k g b \<longleftrightarrow> (k, b) \<notin> set (executed g) \<and> (mine k g \<longrightarrow> \<not> block_restore g b)"
  "blk_pc g b = ClearExit \<Longrightarrow> blk_ok calm t k g b \<longleftrightarrow> (k, b) \<notin> set (executed g) \<and> mine k g \<and> \<not> block_restore g b"
  "blk_pc g b = SetExit \<Longrightarrow> blk_ok calm t k g b \<longleftrightarrow> (k, b) \<notin> set (executed g) \<and> exit_flag g \<and> (mine k g \<longrightarrow> \<not> block_restore g b)"
  "blk_pc g b = ReadIdx \<Longrightarrow> blk_ok calm t k g b \<longleftrightarrow> (k, b) \<notin> set (executed g) \<and> exit_flag g
     \<and> (mine k g \<longrightarrow> \<not> block_restore g b) \<and> block_exit g b"
  "blk_pc g b = SaveIdx \<Longrightarrow> blk_ok calm t k g b \<longleftrightarrow> (k, b) \<notin> set (executed g) \<and> exit_flag g \<and> mine k g \<and> block_exit g b"
  "blk_pc g b = SaveRestore \<Longrightarrow> blk_ok calm t k g b \<longleftrightarrow>
     (k, b) \<notin> set (executed g) \<and> exit_flag g \<and> preempt_idx g = k \<and> block_exit g b"
  "blk_pc g b = AtBarrier \<Longrightarrow> blk_ok calm t k g b \<longleftrightarrow> (k, b) \<notin> set (executed g)
     \<and> (if block_exit g b then exit_flag g \<and> preempt_idx g \<noteq> 0 \<and> (preempt_idx g = k \<longrightarrow> calm \<longrightarrow> block_restore g b)
        else mine k g \<and> \<not> block_restore g b)"
  "blk_pc g b = Finished \<Longrightarrow> blk_ok calm t k g b \<longleftrightarrow> blk_late g b = 0
     \<and> (if mine k g then (block_restore g b \<longrightarrow> (k, b) \<notin> set (executed g) \<and> preempt_idx g = k)
          \<and> (calm \<and> (k, b) \<notin> set (executed g) \<longrightarrow> preempt_idx g = k \<and> block_restore g b)
        else (k, b) \<notin> set (executed g))"
  by (simp_all add: blk_ok_def Let_def)

text \<open>A step of the block \<open>b\<close> leaves the others alone.\<close>

lemma blk_ok_other:
  assumes "blk_ok calm t k g b'" "blk_pc g' b' = blk_pc g b'" "blk_late g' b' = blk_late g b'"
    "block_restore g' b' = block_restore g b'" "block_exit g' b' = block_exit g b'"
    "(k, b') \<in> set (executed g') \<longleftrightarrow> (k, b') \<in> set (executed g)" "exit_flag g' = exit_flag g"
    "preempt_idx g' = preempt_idx g \<or> mine k g \<and> preempt_idx g' = k" "k \<noteq> 0"
  shows "blk_ok calm t k g' b'"
proof (cases "preempt_idx g' = preempt_idx g")
  case True
  have "blk_ok calm t k g' b' = blk_ok calm t k g b'"
    unfolding blk_ok_def Let_def by (simp only: assms(2-7) True)
  then show ?thesis using assms(1) by simp
next
  case False
  then have p: "preempt_idx g = 0" "preempt_idx g' = k" using assms(8) by auto
  note same = assms(3-7)
  show ?thesis
  proof (cases "blk_pc g b'")
    case RestoreCheck
    note pcs = RestoreCheck RestoreCheck [folded assms(2)]
    show ?thesis using assms(1) p assms(9) unfolding pcs [THEN blk_ok_at(1)] same by auto
  next
    case RestoreClear
    note pcs = RestoreClear RestoreClear [folded assms(2)]
    show ?thesis using assms(1) p assms(9) unfolding pcs [THEN blk_ok_at(2)] same by auto
  next
    case CheckFlag
    note pcs = CheckFlag CheckFlag [folded assms(2)]
    show ?thesis using assms(1) p assms(9) unfolding pcs [THEN blk_ok_at(3)] same by auto
  next
    case ClearExit
    note pcs = ClearExit ClearExit [folded assms(2)]
    show ?thesis using assms(1) p assms(9) unfolding pcs [THEN blk_ok_at(4)] same by auto
  next
    case SetExit
    note pcs = SetExit SetExit [folded assms(2)]
    show ?thesis using assms(1) p assms(9) unfolding pcs [THEN blk_ok_at(5)] same by auto
  next
    case ReadIdx
    note pcs = ReadIdx ReadIdx [folded assms(2)]
    show ?thesis using assms(1) p assms(9) unfolding pcs [THEN blk_ok_at(6)] same by auto
  next
    case SaveIdx
    note pcs = SaveIdx SaveIdx [folded assms(2)]
    show ?thesis using assms(1) p assms(9) unfolding pcs [THEN blk_ok_at(7)] same by auto
  next
    case SaveRestore
    note pcs = SaveRestore SaveRestore [folded assms(2)]
    show ?thesis using assms(1) p assms(9) unfolding pcs [THEN blk_ok_at(8)] same by auto
  next
    case AtBarrier
    note pcs = AtBarrier AtBarrier [folded assms(2)]
    show ?thesis using assms(1) p assms(9) unfolding pcs [THEN blk_ok_at(9)] same by auto
  next
    case Finished
    note pcs = Finished Finished [folded assms(2)]
    show ?thesis using assms(1) p assms(9) unfolding pcs [THEN blk_ok_at(10)] same by auto
  qed
qed

lemma calm_late:
  assumes "host_ok env True g" "front_ok env True g" "exit_flag g"
  shows "blk_late g b = 0"
  using assms by (fastforce simp: host_ok_def front_ok_def calm_flag_def)

text \<open>And it keeps its own part.\<close>

lemma block_step_own:
  assumes "blk_ok calm t k g b" "block_step env k b g = Some g'" "k \<noteq> 0"
    "t = kKernelLaunchResume \<longrightarrow> mine k g" "preempt_idx g \<noteq> 0 \<longrightarrow> exit_flag g"
  shows "blk_ok calm t k g' b"
proof (cases "blk_pc g b")
  case RestoreCheck
  note pre = assms(1) [unfolded blk_ok_at(1) [OF RestoreCheck]]
  show ?thesis using pre assms(2-5) unfolding block_step_def RestoreCheck block_pc.case
    by (elim option.inject [THEN iffD1, elim_format]) (auto simp: blk_ok_at split: if_splits)
next
  case RestoreClear
  note pre = assms(1) [unfolded blk_ok_at(2) [OF RestoreClear]]
  show ?thesis using pre assms(2-5) unfolding block_step_def RestoreClear block_pc.case
    by (elim option.inject [THEN iffD1, elim_format]) (auto simp: blk_ok_at)
next
  case CheckFlag
  note pre = assms(1) [unfolded blk_ok_at(3) [OF CheckFlag]]
  show ?thesis using pre assms(2-5) unfolding block_step_def CheckFlag block_pc.case
    by (elim option.inject [THEN iffD1, elim_format]) (auto simp: blk_ok_at split: if_splits)
next
  case ClearExit
  note pre = assms(1) [unfolded blk_ok_at(4) [OF ClearExit]]
  show ?thesis using pre assms(2-5) unfolding block_step_def ClearExit block_pc.case
    by (elim option.inject [THEN iffD1, elim_format]) (auto simp: blk_ok_at)
next
  case SetExit
  note pre = assms(1) [unfolded blk_ok_at(5) [OF SetExit]]
  show ?thesis using pre assms(2-5) unfolding block_step_def SetExit block_pc.case
    by (elim option.inject [THEN iffD1, elim_format]) (auto simp: blk_ok_at)
next
  case ReadIdx
  note pre = assms(1) [unfolded blk_ok_at(6) [OF ReadIdx]]
  show ?thesis using pre assms(2-5) unfolding block_step_def ReadIdx block_pc.case
    by (elim option.inject [THEN iffD1, elim_format]) (auto simp: blk_ok_at split: if_splits)
next
  case SaveIdx
  note pre = assms(1) [unfolded blk_ok_at(7) [OF SaveIdx]]
  show ?thesis using pre assms(2-5) unfolding block_step_def SaveIdx block_pc.case
    by (elim option.inject [THEN iffD1, elim_format]) (auto simp: blk_ok_at)
next
  case SaveRestore
  note pre = assms(1) [unfolded blk_ok_at(8) [OF SaveRestore]]
  show ?thesis using pre assms(2-5) unfolding block_step_def SaveRestore block_pc.case
    by (elim option.inject [THEN iffD1, elim_format]) (auto simp: blk_ok_at)
next
  case AtBarrier
  note pre = assms(1) [unfolded blk_ok_at(9) [OF AtBarrier]]
  show ?thesis using pre assms(2-5) unfolding block_step_def AtBarrier block_pc.case
    by (auto simp: blk_ok_at split: if_splits)
next
  case Finished
  then show ?thesis using assms(2) by (simp add: block_step_def)
qed

text \<open>What a step of a block changes.\<close>

lemma block_step_host:
  assumes "block_step env k b g = Some g'"
  shows "stream g' = stream g" "host_log g' = host_log g" "host_next g' = host_next g"
    "deactivated g' = deactivated g" "host_preempt_idx g' = host_preempt_idx g" "exit_flag g' = exit_flag g"
  using assms by (auto simp: block_step_def split: block_pc.splits if_splits)

lemma block_step_others:
  assumes "block_step env k b g = Some g'" "b' \<noteq> b"
  shows "blk_pc g' b' = blk_pc g b'" "blk_late g' b' = blk_late g b'"
    "block_restore g' b' = block_restore g b'" "block_exit g' b' = block_exit g b'"
    "(k, b') \<in> set (executed g') \<longleftrightarrow> (k, b') \<in> set (executed g)"
  using assms by (auto simp: block_step_def split: block_pc.splits if_splits)

lemma block_step_idx:
  assumes "block_step env k b g = Some g'"
  shows "preempt_idx g' = preempt_idx g \<or> blk_pc g b = SaveIdx \<and> preempt_idx g' = k"
    "executed g' = executed g \<or> blk_pc g b = AtBarrier \<and> \<not> block_exit g b \<and> executed g' = (k, b) # executed g"
    "block_restore g' = block_restore g \<or> blk_pc g b = RestoreClear \<or> blk_pc g b = SaveRestore"
    "blk_late g' b \<noteq> 0 \<Longrightarrow> blk_late g b \<noteq> 0 \<or> blk_pc g b = RestoreCheck \<and> others env k \<noteq> 0"
  using assms by (auto simp: block_step_def split: block_pc.splits if_splits)

lemma inv_BlockStep:
  assumes inv: "gpu_inv env calm g" and str: "stream g = (t, k) # es" and ker: "is_kernel env k" "b < blocks env k"
    and step: "block_step env k b g = Some g'"
  shows "gpu_inv env calm g'"
proof -
  have H: "host_ok env calm g" and T: "hist_ok env calm g" and F: "front_ok env calm g"
    using inv by (simp_all add: gpu_inv_def)
  obtain a h where ah: "1 \<le> a" "a \<le> h" "h \<le> host_next g" "host_log g = [a..<host_next g]"
    "map snd (stream g) = [h..<host_next g]" "preempt_idx g \<noteq> 0 \<longrightarrow> a \<le> preempt_idx g \<and> preempt_idx g \<le> h"
    by (rule host_okD [OF H])
  have k: "h = k" "k < host_next g" using front_idx ah(5) unfolding str by auto
  then have k0: "k \<noteq> 0" "a \<le> k" using ah by auto
  have ok: "blk_ok calm t k g b'" if "b' < blocks env k" for b' using F that ker(1) by (simp add: front_ok_def str)
  have res: "t = kKernelLaunchResume \<longrightarrow> mine k g" using H by (auto simp: host_ok_def str)
  have pf: "preempt_idx g \<noteq> 0 \<longrightarrow> exit_flag g" using H by (simp add: host_ok_def)
  note host = block_step_host [OF step] and idx = block_step_idx [OF step]
  have p: "preempt_idx g' = preempt_idx g \<or> mine k g \<and> exit_flag g \<and> preempt_idx g' = k"
    using idx(1) ok [OF ker(2)] by (auto simp: blk_ok_at)
  have fr: "frontier g' = frontier g" using p k0 by (auto simp: frontier_def host str)
  have "host_ok env calm g'"
  proof -
    have "preempt_idx g' \<noteq> 0 \<longrightarrow> a \<le> preempt_idx g' \<and> preempt_idx g' \<le> h" using p ah(6) k k0(2) by auto
    then have "\<exists>a h. 1 \<le> a \<and> a \<le> h \<and> h \<le> host_next g' \<and> host_log g' = [a..<host_next g']
        \<and> map snd (stream g') = [h..<host_next g'] \<and> (preempt_idx g' \<noteq> 0 \<longrightarrow> a \<le> preempt_idx g' \<and> preempt_idx g' \<le> h)"
      using ah(1-5) unfolding host by blast
    then show ?thesis using H p k(2) ker(1) unfolding host_ok_def host calm_flag_def str by auto
  qed
  moreover have "hist_ok env calm g'"
  proof (cases "executed g' = executed g")
    case True
    then show ?thesis using T by (simp add: hist_ok_def fr host kernel_runs_def)
  next
    case False
    then have x: "blk_pc g b = AtBarrier" "\<not> block_exit g b" "executed g' = (k, b) # executed g" using idx(2) by auto
    then have m: "mine k g" "(k, b) \<notin> set (executed g)" using ok [OF ker(2)] by (auto simp: blk_ok_at)
    then have f: "frontier g = k" by (auto simp: frontier_def str)
    have "kernel_runs env g' = (k, b) # kernel_runs env g" using ker(1) by (simp add: kernel_runs_def x(3))
    moreover have "(k, b) \<notin> set (kernel_runs env g)" using m(2) by (simp add: kernel_runs_def)
    moreover have "\<forall>y\<in>set (kernel_runs env g). fst y \<le> k"
      using T f by (auto simp: hist_ok_def kernel_runs_def)
    ultimately show ?thesis using T k(2) k0(1) ker(2) unfolding hist_ok_def fr host x(3) f by auto
  qed
  moreover have "front_ok env calm g'"
  proof -
    have "blk_ok calm t k g' b'" if "b' < blocks env k" for b'
    proof (cases "b' = b")
      case True
      then show ?thesis using block_step_own [OF ok [OF ker(2)] step k0(1) res pf] by simp
    next
      case False
      show ?thesis
        by (rule blk_ok_other [OF ok [OF that] block_step_others [OF step False] host(6)]) (use p k0 in auto)
    qed
    moreover have "left_ok env calm g'" if "preempt_idx g' \<noteq> 0" "preempt_idx g' \<noteq> k"
    proof -
      have q: "preempt_idx g' = preempt_idx g" using p that by blast
      then have nm: "\<not> mine k g" using that by simp
      then have "blk_pc g b \<noteq> RestoreClear" "blk_pc g b \<noteq> SaveRestore"
        using ok [OF ker(2)] res by (auto simp: blk_ok_at)
      then have r: "block_restore g' = block_restore g" using idx(3) by blast
      have "left_ok env calm g" using F nm by (simp add: front_ok_def str)
      moreover have "executed g' = executed g \<or> executed g' = (k, b) # executed g" using idx(2) by blast
      ultimately show ?thesis using nm by (auto simp: left_ok_def q r)
    qed
    moreover have "\<not> block_restore g' b'" if "mine k g'" "blocks env k \<le> b'" for b'
    proof -
      have "mine k g" using that(1) p by auto
      moreover have "b' \<noteq> b" using that(2) ker(2) by simp
      ultimately show ?thesis using F ker(1) that(2) block_step_others(3) [OF step] by (simp add: front_ok_def str)
    qed
    moreover have "\<exists>k es. stream g' = (kKernelLaunchResume, k) # es \<and> b' < blocks env k \<and> others env k \<noteq> 0"
      if "blk_late g' b' \<noteq> 0" for b'
    proof (cases "b' = b \<and> blk_late g b = 0")
      case True
      then have "blk_pc g b = RestoreCheck" "others env k \<noteq> 0" using idx(4) that by auto
      then show ?thesis using ok [OF ker(2)] True ker(2) by (auto simp: host str blk_ok_at)
    next
      case False
      then have "blk_late g b' \<noteq> 0" using that block_step_others(2) [OF step] by (cases "b' = b") auto
      then show ?thesis using F unfolding front_ok_def host by blast
    qed
    ultimately show ?thesis using ker(1) unfolding front_ok_def host str by simp
  qed
  ultimately show ?thesis by (simp add: gpu_inv_def)
qed

lemma frontier_le_next:
  assumes "host_ok env calm g"
  shows "frontier g \<le> host_next g"
proof (cases "stream g")
  case (Cons e es)
  obtain t k where "e = (t, k)" by fastforce
  then show ?thesis using assms front_idx Cons by (fastforce simp: host_ok_def frontier_def)
qed (use assms in \<open>auto simp: host_ok_def frontier_def\<close>)

lemma frontier_same:
  "preempt_idx g' = preempt_idx g \<Longrightarrow> stream g' = stream g \<Longrightarrow> host_next g' = host_next g \<Longrightarrow> frontier g' = frontier g"
  by (simp only: frontier_def)

lemma hist_ok_same:
  assumes "hist_ok env calm g" "preempt_idx g' = preempt_idx g" "stream g' = stream g" "host_next g' = host_next g"
    "executed g' = executed g"
  shows "hist_ok env calm g'"
  using assms(1) frontier_same [OF assms(2-4)] assms(4,5) by (simp add: hist_ok_def kernel_runs_def)

lemma inv_LateClear:
  assumes inv: "gpu_inv env calm g" and late: "blk_late g b \<noteq> 0"
  shows "gpu_inv env calm (g\<lparr> block_restore := (block_restore g)(b := False),
                              blk_late := (blk_late g)(b := blk_late g b - 1) \<rparr>)" (is "gpu_inv env calm ?g")
proof -
  have H: "host_ok env calm g" and T: "hist_ok env calm g" and F: "front_ok env calm g"
    using inv by (simp_all add: gpu_inv_def)
  obtain k es where str: "stream g = (kKernelLaunchResume, k) # es" "b < blocks env k"
    using F late unfolding front_ok_def by blast
  have ker: "is_kernel env k" and m: "mine k g" using H by (auto simp: host_ok_def str)
  have k0: "k \<noteq> 0" using H front_idx [of kKernelLaunchResume k es] by (fastforce simp: host_ok_def str)
  have ok: "blk_ok calm kKernelLaunchResume k g b'" if "b' < blocks env k" for b'
    using F that ker by (simp add: front_ok_def str)
  have "blk_ok calm kKernelLaunchResume k ?g b"
  proof (cases "blk_pc g b")
    case AtBarrier
    have "\<not> (calm \<and> exit_flag g)" using calm_late H F late by (cases calm) auto
    then show ?thesis using ok [OF str(2)] AtBarrier m by (auto simp: blk_ok_at split: if_splits)
  qed (use ok [OF str(2)] late m in \<open>auto simp: blk_ok_at\<close>)
  moreover have "blk_ok calm kKernelLaunchResume k ?g b'" if "b' < blocks env k" "b' \<noteq> b" for b'
    by (rule blk_ok_other [OF ok [OF that(1)]]) (use that(2) k0 in auto)
  ultimately have blk: "\<forall>b'. b' < blocks env k \<longrightarrow> blk_ok calm kKernelLaunchResume k ?g b'" by blast
  have late': "\<exists>k es. stream g = (kKernelLaunchResume, k) # es \<and> b' < blocks env k \<and> others env k \<noteq> 0"
    if "blk_late g b' \<noteq> 0" for b'
    using F that unfolding front_ok_def by blast
  have "front_ok env calm ?g" using F blk late' late m ker by (auto simp: front_ok_def str)
  moreover have "hist_ok env calm ?g" by (rule hist_ok_same [OF T]) simp_all
  moreover have "host_ok env calm ?g" using H by (simp add: host_ok_def calm_flag_def)
  ultimately show ?thesis by (simp add: gpu_inv_def)
qed

text \<open>The front of the stream is done: nothing but the stream, the frontier and the blocks change.\<close>

lemma start_front_simps [simp]:
  "stream (start_front g) = stream g" "host_log (start_front g) = host_log g" "host_next (start_front g) = host_next g"
  "deactivated (start_front g) = deactivated g" "host_preempt_idx (start_front g) = host_preempt_idx g"
  "exit_flag (start_front g) = exit_flag g" "preempt_idx (start_front g) = preempt_idx g"
  "block_restore (start_front g) = block_restore g" "block_exit (start_front g) = block_exit g"
  "executed (start_front g) = executed g" "blk_late (start_front g) b = 0"
  by (simp_all add: start_front_def)

lemma start_front_pc: "stream g = (t, k) # es \<Longrightarrow> blk_pc (start_front g) b = entry_pc t"
  by (simp add: start_front_def)

lemma host_ok_tl:
  assumes H: "host_ok env calm g" and str: "stream g = (t, k) # es"
    and g': "stream g' = es" "host_log g' = host_log g" "host_next g' = host_next g" "deactivated g' = deactivated g"
      "host_preempt_idx g' = host_preempt_idx g" "exit_flag g' = exit_flag g" "preempt_idx g' = preempt_idx g"
  shows "host_ok env calm g'"
proof -
  obtain a h where ah: "1 \<le> a" "a \<le> h" "h \<le> host_next g" "host_log g = [a..<host_next g]"
    "map snd (stream g) = [h..<host_next g]" "preempt_idx g \<noteq> 0 \<longrightarrow> a \<le> preempt_idx g \<and> preempt_idx g \<le> h"
    by (rule host_okD [OF H])
  have k: "h = k" "k < host_next g" "map snd es = [Suc k..<host_next g]" using front_idx ah(5) unfolding str by auto
  have "\<exists>a h. 1 \<le> a \<and> a \<le> h \<and> h \<le> host_next g' \<and> host_log g' = [a..<host_next g']
        \<and> map snd (stream g') = [h..<host_next g'] \<and> (preempt_idx g' \<noteq> 0 \<longrightarrow> a \<le> preempt_idx g' \<and> preempt_idx g' \<le> h)"
    using ah k unfolding g' by (intro exI [of _ a] exI [of _ "Suc k"]) auto
  moreover have "\<forall>e\<in>set es. fst e = kKernelLaunchGuardian" using H by (simp add: host_ok_def str)
  moreover then have "\<forall>e\<in>set (tl es). fst e = kKernelLaunchGuardian" "\<And>j fs. es \<noteq> (kKernelLaunchResume, j) # fs"
    by (cases es; auto)+
  moreover have "calm \<longrightarrow> exit_flag g \<longrightarrow> calm_flag env g'" using H by (auto simp: host_ok_def calm_flag_def str g')
  ultimately show ?thesis using H unfolding host_ok_def g' by blast
qed

text \<open>A guardian launch at the front, none of whose blocks has started.\<close>

lemma fresh_blk_ok:
  assumes "stream g = (kKernelLaunchGuardian, j) # fs" "(j, b) \<notin> set (executed g)" "mine j g \<longrightarrow> \<not> block_restore g b"
  shows "blk_ok calm kKernelLaunchGuardian j (start_front g) b"
  using assms start_front_pc [OF assms(1)] by (simp add: blk_ok_at entry_pc_def)

lemma front_ok_fresh:
  assumes guard: "\<forall>e\<in>set (stream g). fst e = kKernelLaunchGuardian"
    and new: "\<And>j b fs. stream g = (kKernelLaunchGuardian, j) # fs \<Longrightarrow> is_kernel env j \<Longrightarrow>
       (j, b) \<notin> set (executed g) \<and> preempt_idx g \<noteq> j"
    and r: "if preempt_idx g = 0 then \<forall>b. \<not> block_restore g b else left_ok env calm g"
  shows "front_ok env calm (start_front g)"
proof (cases "stream g")
  case Nil
  then show ?thesis using r by (auto simp: front_ok_def left_ok_def)
next
  case (Cons e fs)
  obtain t j where e: "e = (t, j)" by fastforce
  then have str: "stream g = (kKernelLaunchGuardian, j) # fs" using guard Cons by auto
  have l: "left_ok env calm (start_front g) = left_ok env calm g" by (simp add: left_ok_def)
  have "blk_ok calm kKernelLaunchGuardian j (start_front g) b" if "is_kernel env j" for b
    by (rule fresh_blk_ok [OF str]) (use new [OF str that] r in \<open>auto split: if_splits\<close>)
  then show ?thesis using r new [OF str] unfolding front_ok_def start_front_simps str l by (auto split: if_splits)
qed

lemma frontier_from:
  assumes "map snd (stream g) = [n..<host_next g]" "n \<le> host_next g" "preempt_idx g = 0"
  shows "frontier g = n"
proof (cases "stream g")
  case Nil
  then show ?thesis using arg_cong [OF assms(1), of length] assms(2,3) by (simp add: frontier_def)
next
  case (Cons e es)
  obtain t k where "e = (t, k)" by fastforce
  then show ?thesis using front_idx [of t k es] assms Cons by (simp add: frontier_def)
qed

lemma inv_NextLaunch:
  assumes inv: "gpu_inv env calm g" and str: "stream g = (t, k) # es" and ker: "is_kernel env k"
    and fin: "\<forall>b<blocks env k. blk_pc g b = Finished"
  shows "gpu_inv env calm (start_front (g\<lparr> stream := es \<rparr>))" (is "gpu_inv env calm (start_front ?g)")
proof -
  have H: "host_ok env calm g" and T: "hist_ok env calm g" and F: "front_ok env calm g"
    using inv by (simp_all add: gpu_inv_def)
  obtain a h where ah: "1 \<le> a" "a \<le> h" "map snd (stream g) = [h..<host_next g]"
    "preempt_idx g \<noteq> 0 \<longrightarrow> preempt_idx g \<le> h"
    by (rule host_okD [OF H]) blast
  have k: "h = k" "k < host_next g" "map snd es = [Suc k..<host_next g]" using front_idx ah(3) unfolding str by auto
  have k0: "k \<noteq> 0" using ah k by auto
  have ok: "blk_ok calm t k g b" if "b < blocks env k" for b using F that ker by (simp add: front_ok_def str)
  have out: "\<not> block_restore g b" if "mine k g" "blocks env k \<le> b" for b using F ker that by (simp add: front_ok_def str)
  have H': "host_ok env calm ?g" by (rule host_ok_tl [OF H str]) simp_all
  then have "host_ok env calm (start_front ?g)" by (simp add: host_ok_def calm_flag_def)
  moreover have fr: "frontier (start_front ?g) = (if preempt_idx g = 0 then Suc k else frontier g)"
    using frontier_from [of "start_front ?g" "Suc k"] k by (auto simp: frontier_def str)
  moreover have "hist_ok env calm (start_front ?g)"
  proof -
    have "frontier g = k" if "preempt_idx g = 0" using that by (simp add: frontier_def str)
    moreover have "(k, b) \<in> set (executed g)" if "calm" "preempt_idx g = 0" "b < blocks env k" for b
      using ok [OF that(3)] fin that k0 by (auto simp: blk_ok_at)
    moreover have "kernel_runs env (start_front ?g) = kernel_runs env g" by (simp add: kernel_runs_def)
    ultimately show ?thesis using T unfolding hist_ok_def fr start_front_simps
      by (auto simp: less_Suc_eq le_Suc_eq split: if_splits)
  qed
  moreover have "front_ok env calm (start_front ?g)"
  proof (rule front_ok_fresh)
    show "\<forall>e\<in>set (stream ?g). fst e = kKernelLaunchGuardian" using H by (simp add: host_ok_def str)
  next
    fix j b fs assume s: "stream ?g = (kKernelLaunchGuardian, j) # fs" and j: "is_kernel env j"
    have jk: "j = Suc k" using front_idx [of kKernelLaunchGuardian j fs] k(3) s by simp
    have "frontier g \<le> k" using ah(4) k(1) by (simp add: frontier_def str)
    then show "(j, b) \<notin> set (executed ?g) \<and> preempt_idx ?g \<noteq> j"
      using T j jk ah(4) k(1) k0 by (auto simp: hist_ok_def)
  next
    show "if preempt_idx ?g = 0 then \<forall>b. \<not> block_restore ?g b else left_ok env calm ?g"
    proof (cases "mine k g")
      case True
      have "block_restore g b \<longrightarrow> b < blocks env k \<and> (k, b) \<notin> set (executed g) \<and> preempt_idx g = k" for b
        using ok [of b] out [OF True, of b] fin True by (cases "b < blocks env k") (auto simp: blk_ok_at)
      moreover have "calm \<longrightarrow> b < blocks env k \<longrightarrow> (k, b) \<notin> set (executed g) \<longrightarrow> block_restore g b" for b
        using ok [of b] fin True by (auto simp: blk_ok_at)
      ultimately show ?thesis using True k0 by (auto simp: left_ok_def)
    next
      case False
      then show ?thesis using F by (simp add: front_ok_def str left_ok_def)
    qed
  qed
  ultimately show ?thesis by (simp add: gpu_inv_def)
qed

lemma inv_RunOther:
  assumes inv: "gpu_inv env calm g" and str: "stream g = (t, k) # es" and nk: "\<not> is_kernel env k"
  shows "gpu_inv env calm (start_front (g\<lparr> stream := es, executed := (k, 0) # executed g \<rparr>))"
    (is "gpu_inv env calm (start_front ?g)")
proof -
  have H: "host_ok env calm g" and T: "hist_ok env calm g" and F: "front_ok env calm g"
    using inv by (simp_all add: gpu_inv_def)
  obtain a h where ah: "1 \<le> a" "a \<le> h" "map snd (stream g) = [h..<host_next g]"
    "preempt_idx g \<noteq> 0 \<longrightarrow> preempt_idx g \<le> h"
    by (rule host_okD [OF H]) blast
  have k: "h = k" "k < host_next g" "map snd es = [Suc k..<host_next g]" using front_idx ah(3) unfolding str by auto
  have pk: "preempt_idx g \<noteq> k" using H nk ah k by (auto simp: host_ok_def)
  have H': "host_ok env calm ?g" by (rule host_ok_tl [OF H str]) simp_all
  then have "host_ok env calm (start_front ?g)" by (simp add: host_ok_def calm_flag_def)
  moreover have fr: "frontier (start_front ?g) = (if preempt_idx g = 0 then Suc k else frontier g)"
    using frontier_from [of "start_front ?g" "Suc k"] k by (auto simp: frontier_def str)
  moreover have "hist_ok env calm (start_front ?g)"
  proof -
    have "frontier g = k" if "preempt_idx g = 0" using that by (simp add: frontier_def str)
    moreover have "kernel_runs env (start_front ?g) = kernel_runs env g" using nk by (simp add: kernel_runs_def)
    ultimately show ?thesis using T nk unfolding hist_ok_def fr start_front_simps
      by (auto simp: less_Suc_eq le_Suc_eq split: if_splits)
  qed
  moreover have "front_ok env calm (start_front ?g)"
  proof (rule front_ok_fresh)
    show "\<forall>e\<in>set (stream ?g). fst e = kKernelLaunchGuardian" using H by (simp add: host_ok_def str)
  next
    fix j b fs assume s: "stream ?g = (kKernelLaunchGuardian, j) # fs" and j: "is_kernel env j"
    have jk: "j = Suc k" using front_idx [of kKernelLaunchGuardian j fs] k(3) s by simp
    have "frontier g \<le> k" using ah(4) k(1) by (simp add: frontier_def str)
    then show "(j, b) \<notin> set (executed ?g) \<and> preempt_idx ?g \<noteq> j"
      using T j jk ah(4) k(1) by (auto simp: hist_ok_def)
  next
    have "left_ok env calm g" if "preempt_idx g \<noteq> 0" using F that pk by (simp add: front_ok_def str)
    moreover have "\<not> block_restore g b" if "preempt_idx g = 0" for b using F that nk by (simp add: front_ok_def str)
    moreover have "left_ok env calm ?g = left_ok env calm g" using pk by (auto simp: left_ok_def)
    ultimately show "if preempt_idx ?g = 0 then \<forall>b. \<not> block_restore ?g b else left_ok env calm ?g" by simp
  qed
  ultimately show ?thesis by (simp add: gpu_inv_def)
qed

text \<open>The host.\<close>

lemma blk_ok_same:
  assumes "blk_ok calm t k g b" "preempt_idx g' = preempt_idx g" "blk_pc g' = blk_pc g"
    "blk_late g' = blk_late g" "block_restore g' = block_restore g" "block_exit g' = block_exit g"
    "executed g' = executed g" "exit_flag g' = exit_flag g"
  shows "blk_ok calm t k g' b"
  using assms(1) unfolding blk_ok_def Let_def by (simp only: assms(2-8))

lemma blk_ok_raised:
  assumes "blk_ok calm t k g b"
  shows "blk_ok calm t k (g\<lparr> exit_flag := True \<rparr>) b" (is "blk_ok calm t k ?g b")
proof (cases "blk_pc g b")
  case Finished
  have pc: "blk_pc ?g b = Finished" using Finished by simp
  have same: "blk_late ?g = blk_late g" "preempt_idx ?g = preempt_idx g" "block_restore ?g = block_restore g"
    "executed ?g = executed g" by simp_all
  show ?thesis using assms unfolding Finished [THEN blk_ok_at(10)] pc [THEN blk_ok_at(10)] same .
qed (use assms in \<open>auto simp: blk_ok_at\<close>)

lemma front_ok_same:
  assumes "front_ok env calm g" "stream g' = stream g" "preempt_idx g' = preempt_idx g" "blk_pc g' = blk_pc g"
    "blk_late g' = blk_late g" "block_restore g' = block_restore g" "block_exit g' = block_exit g"
    "executed g' = executed g" "\<And>t k b. blk_ok calm t k g b \<Longrightarrow> blk_ok calm t k g' b"
  shows "front_ok env calm g'"
proof -
  have l: "left_ok env calm g' = left_ok env calm g" by (simp add: left_ok_def assms)
  note b = assms(9)
  have late: "\<forall>b. blk_late g b \<noteq> 0 \<longrightarrow> (\<exists>k es. stream g = (kKernelLaunchResume, k) # es \<and> b < blocks env k \<and> others env k \<noteq> 0)"
    using assms(1) by (simp add: front_ok_def)
  show ?thesis
  proof (cases "stream g")
    case Nil
    then show ?thesis using assms(1) late unfolding front_ok_def assms(2-8) l by simp
  next
    case (Cons e es)
    obtain t k where e: "e = (t, k)" by fastforce
    show ?thesis using assms(1) late b unfolding front_ok_def assms(2-8) l unfolding Cons e by (auto split: if_splits)
  qed
qed

lemma inv_RaiseFlag:
  assumes inv: "gpu_inv env calm g" and d: "deactivated g" and c: "calm \<Longrightarrow> calm_flag env g"
  shows "gpu_inv env calm (g\<lparr> exit_flag := True \<rparr>)"
proof -
  have "host_ok env calm (g\<lparr> exit_flag := True \<rparr>)"
    using inv d c by (auto simp: gpu_inv_def host_ok_def calm_flag_def)
  moreover have "hist_ok env calm (g\<lparr> exit_flag := True \<rparr>)"
    by (rule hist_ok_same [of env calm g]) (use inv in \<open>simp_all add: gpu_inv_def\<close>)
  moreover have "front_ok env calm (g\<lparr> exit_flag := True \<rparr>)"
  proof (rule front_ok_same [of env calm g])
    show "blk_ok calm t k g b \<Longrightarrow> blk_ok calm t k (g\<lparr> exit_flag := True \<rparr>) b" for t k b by (rule blk_ok_raised)
  qed (use inv in \<open>simp_all add: gpu_inv_def\<close>)
  ultimately show ?thesis by (simp add: gpu_inv_def)
qed

lemma inv_HostDeactivate:
  assumes inv: "gpu_inv env calm g"
  shows "gpu_inv env calm (g\<lparr> deactivated := True \<rparr>)"
proof -
  have "host_ok env calm (g\<lparr> deactivated := True \<rparr>)"
    using inv by (simp add: gpu_inv_def host_ok_def calm_flag_def)
  moreover have "hist_ok env calm (g\<lparr> deactivated := True \<rparr>)"
    by (rule hist_ok_same [of env calm g]) (use inv in \<open>simp_all add: gpu_inv_def\<close>)
  moreover have "front_ok env calm (g\<lparr> deactivated := True \<rparr>)"
  proof (rule front_ok_same [of env calm g])
    show "blk_ok calm t k g b \<Longrightarrow> blk_ok calm t k (g\<lparr> deactivated := True \<rparr>) b" for t k b
      by (erule blk_ok_same) simp_all
  qed (use inv in \<open>simp_all add: gpu_inv_def\<close>)
  ultimately show ?thesis by (simp add: gpu_inv_def)
qed

lemma inv_HostComplete:
  assumes inv: "gpu_inv env calm g" and lg: "host_log g = i # is" and d: "\<not> deactivated g"
    and i: "i \<notin> snd ` set (stream g)"
  shows "gpu_inv env calm (g\<lparr> host_log := is \<rparr>)"
proof -
  have H: "host_ok env calm g" using inv by (simp add: gpu_inv_def)
  then have p: "preempt_idx g = 0" using d by (auto simp: host_ok_def)
  obtain a h where ah: "1 \<le> a" "a \<le> h" "h \<le> host_next g" "host_log g = [a..<host_next g]"
    "map snd (stream g) = [h..<host_next g]"
    by (rule host_okD [OF H]) blast
  have a: "i = a" "a < host_next g" "is = [Suc a..<host_next g]"
    using ah(4) lg front_idx [of undefined i "map (\<lambda>j. (undefined, j)) is"] by (auto simp: o_def)
  have "i \<notin> {h..<host_next g}" using i arg_cong [OF ah(5), of set] by auto
  then have "Suc a \<le> h" using a ah(2) by auto
  then have "\<exists>a h. 1 \<le> a \<and> a \<le> h \<and> h \<le> host_next g \<and> is = [a..<host_next g] \<and> map snd (stream g) = [h..<host_next g]"
    using ah a by (intro exI [of _ "Suc a"] exI [of _ h]) auto
  then have "host_ok env calm (g\<lparr> host_log := is \<rparr>)"
    using H p by (auto simp: host_ok_def calm_flag_def)
  moreover have "hist_ok env calm (g\<lparr> host_log := is \<rparr>)"
    by (rule hist_ok_same [of env calm g]) (use inv in \<open>simp_all add: gpu_inv_def\<close>)
  moreover have "front_ok env calm (g\<lparr> host_log := is \<rparr>)"
  proof (rule front_ok_same [of env calm g])
    show "blk_ok calm t k g b \<Longrightarrow> blk_ok calm t k (g\<lparr> host_log := is \<rparr>) b" for t k b
      by (erule blk_ok_same) simp_all
  qed (use inv in \<open>simp_all add: gpu_inv_def\<close>)
  ultimately show ?thesis by (simp add: gpu_inv_def)
qed

lemma host_launch_guardian: "host_preempt_idx g \<noteq> i \<Longrightarrow> host_launch i g = (kKernelLaunchGuardian, i)"
  by (simp add: host_launch_def launch_type_of_def)

lemma host_launch_resume: "host_preempt_idx g = i \<Longrightarrow> host_launch i g = (kKernelLaunchResume, i)"
  by (simp add: host_launch_def launch_type_of_def)

lemma inv_HostLaunch:
  assumes inv: "gpu_inv env calm g" and d: "\<not> deactivated g"
  defines "g1 \<equiv> g\<lparr> host_next := host_next g + 1, host_log := host_log g @ [host_next g],
                    stream := stream g @ [host_launch (host_next g) g] \<rparr>"
  shows "gpu_inv env calm (if stream g = [] then start_front g1 else g1)"
proof -
  have H: "host_ok env calm g" and T: "hist_ok env calm g" and F: "front_ok env calm g"
    using inv by (simp_all add: gpu_inv_def)
  have p: "preempt_idx g = 0" "\<not> exit_flag g" using d H by (auto simp: host_ok_def)
  let ?n = "host_next g"
  have hl: "host_launch ?n g = (kKernelLaunchGuardian, ?n)"
    by (rule host_launch_guardian) (use H in \<open>simp add: host_ok_def\<close>)
  obtain a h where ah: "1 \<le> a" "a \<le> h" "h \<le> ?n" "host_log g = [a..<?n]" "map snd (stream g) = [h..<?n]"
    by (rule host_okD [OF H]) blast
  have "\<exists>a h. 1 \<le> a \<and> a \<le> h \<and> h \<le> host_next g1 \<and> host_log g1 = [a..<host_next g1]
      \<and> map snd (stream g1) = [h..<host_next g1]"
    using ah unfolding g1_def by (intro exI [of _ a] exI [of _ h]) (simp add: hl)
  moreover have "\<forall>e\<in>set (tl (stream g1)). fst e = kKernelLaunchGuardian"
    using H by (cases "stream g") (auto simp: host_ok_def g1_def hl)
  moreover have "\<forall>k es. stream g1 = (kKernelLaunchResume, k) # es \<longrightarrow> is_kernel env k"
    using H by (cases "stream g") (auto simp: host_ok_def g1_def hl)
  ultimately have H1: "host_ok env calm g1" using H p by (simp add: host_ok_def g1_def)
  have fr: "frontier g1 = frontier g" using p by (cases "stream g") (auto simp: frontier_def g1_def hl)
  have T1: "hist_ok env calm g1"
    using T frontier_le_next [OF H1] unfolding hist_ok_def fr by (auto simp: g1_def kernel_runs_def)
  show ?thesis
  proof (cases "stream g = []")
    case True
    have "front_ok env calm (start_front g1)"
    proof (rule front_ok_fresh)
      show "\<forall>e\<in>set (stream g1). fst e = kKernelLaunchGuardian" by (simp add: g1_def True hl)
      show "(j, b) \<notin> set (executed g1) \<and> preempt_idx g1 \<noteq> j"
        if "stream g1 = (kKernelLaunchGuardian, j) # fs" "is_kernel env j" for j b fs
        using that T p H by (auto simp: g1_def True hl hist_ok_def host_ok_def)
      show "if preempt_idx g1 = 0 then \<forall>b. \<not> block_restore g1 b else left_ok env calm g1"
        using F p True by (simp add: g1_def front_ok_def)
    qed
    moreover have "hist_ok env calm (start_front g1)" by (rule hist_ok_same [OF T1]) simp_all
    moreover have "host_ok env calm (start_front g1)" using H1 by (simp add: host_ok_def calm_flag_def)
    ultimately show ?thesis using True by (simp add: gpu_inv_def)
  next
    case False
    then obtain t k es where str: "stream g = (t, k) # es" by (metis neq_Nil_conv surj_pair)
    have b: "blk_ok calm t k g b \<Longrightarrow> blk_ok calm t k g1 b" for b
      by (erule blk_ok_same) (simp_all add: g1_def)
    have f: "stream g1 = (t, k) # es @ [host_launch ?n g]" "preempt_idx g1 = 0" "block_restore g1 = block_restore g"
      "blk_late g1 = blk_late g" by (simp_all add: g1_def str p)
    have "front_ok env calm g1" using F p b unfolding front_ok_def f str by (auto split: if_splits)
    then show ?thesis using False H1 T1 by (simp add: gpu_inv_def)
  qed
qed

lemma filter_upt: "a \<le> p \<Longrightarrow> filter (\<lambda>i. p \<le> i) [a..<n] = [p..<n]"
  by (induction n) (auto simp: upt_conv_Nil)

lemma inv_reactivate:
  assumes inv: "gpu_inv env calm g" and e: "stream g = []" and drop: "drops \<Longrightarrow> preempt_idx g = 0"
  shows "gpu_inv env calm (reactivate drops g)"
proof -
  have H: "host_ok env calm g" and T: "hist_ok env calm g" and F: "front_ok env calm g"
    using inv by (simp_all add: gpu_inv_def)
  let ?n = "host_next g" and ?p = "preempt_idx g"
  obtain a h where ah: "1 \<le> a" "a \<le> h" "h \<le> ?n" "host_log g = [a..<?n]" "map snd (stream g) = [h..<?n]"
    "?p \<noteq> 0 \<longrightarrow> a \<le> ?p \<and> ?p \<le> h"
    by (rule host_okD [OF H])
  let ?lg = "if drops then [] else host_log g"
  let ?g1 = "g\<lparr> host_preempt_idx := ?p, preempt_idx := 0, exit_flag := False, deactivated := False,
                host_log := ?lg \<rparr>"
  show ?thesis
  proof (cases "?p = 0")
    case True
    then have r: "reactivate drops g = ?g1" by (simp add: reactivate_def Let_def)
    have "h = ?n" using ah(3,5) e by (cases "h < ?n") (simp_all add: upt_conv_Cons)
    then have "\<exists>a h. 1 \<le> a \<and> a \<le> h \<and> h \<le> ?n \<and> ?lg = [a..<?n] \<and> map snd (stream g) = [h..<?n]"
      using ah(1-5) by (intro exI [of _ "if drops then ?n else a"] exI [of _ h]) simp
    then have "host_ok env calm ?g1" using H e True by (auto simp: host_ok_def)
    moreover have "hist_ok env calm ?g1" by (rule hist_ok_same [OF T]) (simp_all add: True)
    moreover have "front_ok env calm ?g1" using F e True by (simp add: front_ok_def)
    ultimately show ?thesis by (simp add: r gpu_inv_def)
  next
    case False
    then have p: "a \<le> ?p" "?p < ?n" "is_kernel env ?p" and nd: "\<not> drops"
      using H ah drop by (auto simp: host_ok_def)
    define es where "es = map (\<lambda>i. (kKernelLaunchGuardian, i)) [Suc ?p..<?n]"
    have "map (\<lambda>i. host_launch i ?g1) (filter (\<lambda>i. ?p \<le> i) ?lg) = (kKernelLaunchResume, ?p) # es"
      using p nd by (simp add: ah(4) filter_upt upt_conv_Cons [of ?p] host_launch_resume es_def host_launch_guardian)
    then have r: "reactivate drops g = start_front (?g1\<lparr> stream := (kKernelLaunchResume, ?p) # es \<rparr>)"
      using False nd by (simp add: reactivate_def Let_def)
    let ?g = "start_front (?g1\<lparr> stream := (kKernelLaunchResume, ?p) # es \<rparr>)"
    have s: "map snd (stream ?g) = [?p..<?n]" using p by (simp add: es_def o_def upt_conv_Cons [of ?p])
    have "\<exists>a h. 1 \<le> a \<and> a \<le> h \<and> h \<le> ?n \<and> ?lg = [a..<?n] \<and> map snd (stream ?g) = [h..<?n]"
      using ah p s nd by (intro exI [of _ a] exI [of _ ?p]) auto
    then have "host_ok env calm ?g" using p nd by (auto simp: host_ok_def es_def)
    moreover have "hist_ok env calm ?g"
    proof -
      have "frontier ?g = frontier g" using False by (simp add: frontier_def)
      then show ?thesis using T by (simp add: hist_ok_def kernel_runs_def)
    qed
    moreover have "front_ok env calm ?g"
    proof -
      have l: "left_ok env calm g" using F e False by (simp add: front_ok_def)
      have "blk_pc ?g b = RestoreCheck" for b by (simp add: start_front_def entry_pc_def)
      then have "blk_ok calm kKernelLaunchResume ?p ?g b" if "b < blocks env ?p" for b
        using l that by (auto simp: blk_ok_at left_ok_def)
      moreover have "\<not> block_restore g b" if "blocks env ?p \<le> b" for b using l that by (auto simp: left_ok_def)
      ultimately show ?thesis using p(3) by (simp add: front_ok_def)
    qed
    ultimately show ?thesis by (simp add: r gpu_inv_def)
  qed
qed

lemma gpu_inv_step:
  assumes inv: "gpu_inv env calm g" and step: "gpu_exec env a g = Some g'"
    and a: "a = HostReactivate True \<Longrightarrow> preempt_idx g = 0" "calm \<Longrightarrow> a = RaiseFlag \<Longrightarrow> calm_flag env g"
  shows "gpu_inv env calm g'"
proof (cases a)
  case (BlockStep b)
  then show ?thesis using step inv_BlockStep [OF inv] by (auto split: list.splits if_splits)
next
  case (LateClear b)
  then show ?thesis using step inv_LateClear [OF inv] by (auto split: if_splits)
next
  case NextLaunch
  then show ?thesis using step inv_NextLaunch [OF inv] by (auto simp: list_all_iff split: list.splits if_splits)
next
  case RunOther
  then show ?thesis using step inv_RunOther [OF inv] by (auto split: list.splits if_splits)
next
  case RaiseFlag
  then show ?thesis using step a(2) inv_RaiseFlag [OF inv] by (auto split: if_splits)
next
  case HostLaunch
  then show ?thesis using step inv_HostLaunch [OF inv] by (auto simp: Let_def split: if_splits)
next
  case HostComplete
  then show ?thesis using step inv_HostComplete [OF inv] by (auto split: list.splits if_splits)
next
  case HostDeactivate
  then show ?thesis using step inv_HostDeactivate [OF inv] by (auto split: if_splits)
next
  case (HostReactivate drops)
  then show ?thesis using step a(1) inv_reactivate [OF inv, of drops] by (auto split: if_splits)
qed

lemma gpu_reach_inv: "gpu_reach env calm True g \<Longrightarrow> gpu_inv env calm g"
  by (induction rule: gpu_reach.induct) (auto intro: gpu_inv_init gpu_inv_step)

section \<open>Only blocks of launched kernels\<close>

lemma block_step_executed:
  assumes "block_step env k b g = Some g'"
  shows "set (executed g') \<subseteq> insert (k, b) (set (executed g))"
  using assms by (auto simp: block_step_def split: block_pc.splits if_splits)

lemma reactivate_executed [simp]: "executed (reactivate drops g) = executed g"
  by (simp add: reactivate_def Let_def)

lemma gpu_exec_executed:
  assumes "gpu_exec env a g = Some g'" "is_kernel env k" "(k, b) \<in> set (executed g')"
  shows "(k, b) \<in> set (executed g) \<or> b < blocks env k"
proof (cases a)
  case (BlockStep c)
  then obtain t j es where "stream g = (t, j) # es" "c < blocks env j" "block_step env j c g = Some g'"
    using assms(1) by (auto split: list.splits if_splits)
  then show ?thesis using block_step_executed assms(3) by blast
qed (use assms in \<open>auto simp: Let_def split: list.splits if_splits\<close>)

lemma executed_real:
  "gpu_reach env calm True g \<Longrightarrow> is_kernel env k \<Longrightarrow> (k, b) \<in> set (executed g) \<Longrightarrow> b < blocks env k"
proof (induction rule: gpu_reach.induct)
  case init
  then show ?case by (simp add: gpu_init_def)
next
  case (step g a g')
  then show ?case using gpu_exec_executed by blast
qed

lemma gpu_reach_positive: "gpu_reach env calm True g \<Longrightarrow> (0, b) \<notin> set (executed g)"
proof (induction rule: gpu_reach.induct)
  case init
  then show ?case by (simp add: gpu_init_def)
next
  case (step g a g')
  have H: "host_ok env calm g" using gpu_reach_inv [OF step(1)] by (simp add: gpu_inv_def)
  obtain h s where "1 \<le> h" "h \<le> s" "map snd (stream g) = [s..<host_next g]" by (rule host_okD [OF H]) blast
  then have "j \<noteq> 0" if "stream g = (t, j) # es" for t j es using that front_idx [of t j es] by auto
  then show ?case using step(2) step.IH block_step_executed
    by (cases a) (auto simp: Let_def split: list.splits if_splits, blast+)
qed

lemma count_list_filter: "P x \<Longrightarrow> count_list (filter P xs) x = count_list xs x"
  by (induction xs) auto

lemma count_list_distinct: "distinct xs \<Longrightarrow> count_list xs x = (if x \<in> set xs then 1 else 0)"
  by (induction xs) auto

end
