(* ===== verification/GpuProperties.thy ===== *)
theory GpuProperties
  imports GpuPreempt
begin

text \<open>
  What the guardian code and the host together guarantee for the blocks of the preempted kernels, over
  the runs of \<open>GpuPreempt\<close>: no block runs twice and no kernel overtakes another, no block is lost in a
  calm run, every schedule of the device ends; and the two runs that show where the guarantees stop.
\<close>

section \<open>Runs\<close>

text \<open>A run that is checked to be calm on the way, and never drops the log.\<close>

fun calm_run :: "gpu_env \<Rightarrow> gpu_act list \<Rightarrow> gpu \<Rightarrow> gpu option" where
  "calm_run env [] g = Some g"
| "calm_run env (a # as) g =
     (if a = HostReactivate True \<or> (a = RaiseFlag \<and> \<not> calm_flag env g) then None
      else case gpu_exec env a g of None \<Rightarrow> None | Some g' \<Rightarrow> calm_run env as g')"

lemma calm_run_reach: "gpu_reach env calm True g \<Longrightarrow> calm_run env as g = Some g' \<Longrightarrow> gpu_reach env calm True g'"
proof (induction as arbitrary: g)
  case (Cons a as)
  then obtain g1 where "gpu_exec env a g = Some g1" "calm_run env as g1 = Some g'" "a \<noteq> HostReactivate True"
    "a = RaiseFlag \<Longrightarrow> calm_flag env g" by (auto split: if_splits option.splits)
  then show ?case using Cons gpu_reach.step by blast
qed simp

section \<open>The device always gets through\<close>

text \<open>In every run, late threads belong to a block of the kernel at the front.\<close>

definition late_front :: "gpu_env \<Rightarrow> gpu \<Rightarrow> bool" where
  "late_front env g \<longleftrightarrow> (\<forall>b. blk_late g b \<noteq> 0 \<longrightarrow>
     (\<exists>t k es. stream g = (t, k) # es \<and> b < blocks env k))"

lemma block_step_late: "block_step env k b g = Some g' \<Longrightarrow> stream g' = stream g \<and> (\<forall>c. c \<noteq> b \<longrightarrow> blk_late g' c = blk_late g c)"
  by (auto simp: block_step_def split: block_pc.splits if_splits)

lemma late_front_start [simp]: "late_front env (start_front g)"
  by (simp add: late_front_def)

lemma late_front_step:
  assumes L: "late_front env g" and step: "gpu_exec env a g = Some g'"
  shows "late_front env g'"
proof (cases a)
  case (BlockStep b)
  then obtain t k es where s: "stream g = (t, k) # es" "b < blocks env k" "block_step env k b g = Some g'"
    using step by (auto split: list.splits if_splits)
  show ?thesis unfolding late_front_def
  proof (intro allI impI)
    fix c assume "blk_late g' c \<noteq> 0"
    then show "\<exists>t k es. stream g' = (t, k) # es \<and> c < blocks env k"
      using s block_step_late [OF s(3)] L by (cases "c = b") (auto simp: late_front_def)
  qed
next
  case (HostReactivate drops)
  then have s: "stream g = []" "g' = reactivate drops g" using step by (auto split: if_splits)
  then have "blk_late g b = 0" for b using L by (auto simp: late_front_def)
  then show ?thesis using s by (simp add: reactivate_def Let_def) (simp add: late_front_def)
next
  case HostLaunch
  show ?thesis
  proof (cases "stream g")
    case Nil
    then show ?thesis using step HostLaunch by (auto simp: Let_def split: if_splits)
  next
    case (Cons e es)
    then show ?thesis using L step HostLaunch by (auto simp: Let_def late_front_def split: if_splits)
  qed
qed (use L step in \<open>auto simp: late_front_def split: list.splits if_splits\<close>)

lemma gpu_reach_late: "gpu_reach env calm kept g \<Longrightarrow> late_front env g"
  by (induction rule: gpu_reach.induct) (simp add: late_front_def gpu_init_def, erule (1) late_front_step)

definition device_act :: "gpu_act \<Rightarrow> bool" where
  "device_act a \<longleftrightarrow> (case a of BlockStep _ \<Rightarrow> True | LateClear _ \<Rightarrow> True | NextLaunch \<Rightarrow> True | RunOther \<Rightarrow> True | _ \<Rightarrow> False)"

text \<open>How many steps a block can still make, its late threads apart.\<close>

fun pc_work :: "nat \<Rightarrow> block_pc \<Rightarrow> nat" where
  "pc_work n RestoreCheck = 9 + n"
| "pc_work n RestoreClear = 8"
| "pc_work n CheckFlag = 7"
| "pc_work n SetExit = 6"
| "pc_work n ReadIdx = 5"
| "pc_work n SaveIdx = 4"
| "pc_work n SaveRestore = 3"
| "pc_work n ClearExit = 2"
| "pc_work n AtBarrier = 1"
| "pc_work n Finished = 0"

definition blk_work :: "gpu_env \<Rightarrow> nat \<Rightarrow> gpu \<Rightarrow> nat \<Rightarrow> nat" where
  "blk_work env k g b = pc_work (others env k) (blk_pc g b) + blk_late g b"

definition entry_work :: "gpu_env \<Rightarrow> nat \<Rightarrow> nat" where
  "entry_work env k = 1 + blocks env k * (9 + others env k)"

definition device_work :: "gpu_env \<Rightarrow> gpu \<Rightarrow> nat" where
  "device_work env g =
     (case stream g of [] \<Rightarrow> 0
      | (_, k) # es \<Rightarrow> 1 + sum_list (map (blk_work env k g) [0..<blocks env k]) + sum_list (map (entry_work env) (map snd es)))"

lemma sum_list_less:
  fixes f g :: "nat \<Rightarrow> nat"
  assumes "b < n" "f b < g b" "\<And>c. c \<noteq> b \<Longrightarrow> f c = g c"
  shows "sum_list (map f [0..<n]) < sum_list (map g [0..<n])"
proof -
  have "(\<Sum>c\<in>{0..<n}. f c) < (\<Sum>c\<in>{0..<n}. g c)"
    by (rule sum_strict_mono_ex1) (use assms in \<open>auto intro: less_imp_le\<close>, metis le_less)
  then show ?thesis by (simp add: interv_sum_list_conv_sum_set_nat)
qed

lemma pc_work_entry: "pc_work n (entry_pc t) \<le> 9 + n"
  by (simp add: entry_pc_def)

lemma device_work_start:
  "device_work env (start_front g) \<le> sum_list (map (entry_work env) (map snd (stream g)))"
proof (cases "stream g")
  case (Cons e es)
  then obtain t k where e: "stream g = (t, k) # es" by (metis surj_pair)
  have "blk_work env k (start_front g) b \<le> 9 + others env k" for b
    using pc_work_entry [of "others env k" t] start_front_pc [OF e] by (simp add: blk_work_def start_front_def)
  then have "sum_list (map (blk_work env k (start_front g)) [0..<n]) \<le> n * (9 + others env k)" for n
    by (induction n) (auto intro: add_le_mono simp: add.commute)
  then show ?thesis by (simp add: device_work_def e entry_work_def)
qed (simp add: device_work_def)

lemma block_step_work:
  assumes "block_step env k b g = Some g'"
  shows "blk_work env k g' b < blk_work env k g b" "c \<noteq> b \<Longrightarrow> blk_work env k g' c = blk_work env k g c"
  using assms by (auto simp: block_step_def blk_work_def split: block_pc.splits if_splits)

lemma device_step_work:
  assumes L: "late_front env g" and a: "device_act a" and step: "gpu_exec env a g = Some g'"
  shows "device_work env g' < device_work env g"
proof (cases a)
  case (BlockStep b)
  then obtain t k es where s: "stream g = (t, k) # es" "b < blocks env k" "block_step env k b g = Some g'"
    using step by (auto split: list.splits if_splits)
  then have "stream g' = stream g" using block_step_host by simp
  then show ?thesis
    using s sum_list_less [of b "blocks env k" "blk_work env k g'" "blk_work env k g"] block_step_work [OF s(3)]
    by (simp add: device_work_def)
next
  case (LateClear b)
  then have l: "blk_late g b \<noteq> 0" "g' = g\<lparr> block_restore := (block_restore g)(b := False),
      blk_late := (blk_late g)(b := blk_late g b - 1) \<rparr>" using step by (auto split: if_splits)
  moreover have "\<exists>t k es. stream g = (t, k) # es \<and> b < blocks env k"
    using L l(1) unfolding late_front_def by blast
  ultimately obtain t k es where s: "stream g = (t, k) # es" "b < blocks env k" by blast
  have "blk_work env k g' b < blk_work env k g b" "\<And>c. c \<noteq> b \<Longrightarrow> blk_work env k g' c = blk_work env k g c"
    using l by (auto simp: blk_work_def)
  then show ?thesis
    using s l(2) sum_list_less [of b "blocks env k" "blk_work env k g'" "blk_work env k g"]
    by (simp add: device_work_def)
next
  case NextLaunch
  then obtain t k es where s: "stream g = (t, k) # es" "g' = start_front (g\<lparr> stream := es \<rparr>)"
    using step by (auto split: list.splits if_splits)
  then show ?thesis using device_work_start [of env "g\<lparr> stream := es \<rparr>"] by (simp add: device_work_def)
next
  case RunOther
  then obtain t k es where s: "stream g = (t, k) # es"
      "g' = start_front (g\<lparr> stream := es, executed := (k, 0) # executed g \<rparr>)"
    using step by (auto split: list.splits if_splits)
  then show ?thesis using device_work_start [of env "g\<lparr> stream := es, executed := (k, 0) # executed g \<rparr>"]
    by (simp add: device_work_def)
qed (use a in \<open>simp_all add: device_act_def\<close>)

lemma device_step_enabled:
  assumes "stream g \<noteq> []"
  shows "\<exists>a g'. device_act a \<and> gpu_exec env a g = Some g'"
proof -
  obtain t k es where s: "stream g = (t, k) # es" using assms by (metis neq_Nil_conv surj_pair)
  show ?thesis
  proof (cases "is_kernel env k")
    case False
    then show ?thesis using s by (intro exI [of _ RunOther]) (simp add: device_act_def)
  next
    case k: True
    show ?thesis
    proof (cases "list_all (\<lambda>b. blk_pc g b = Finished) [0..<blocks env k]")
      case True
      then show ?thesis using s k by (intro exI [of _ NextLaunch]) (simp add: device_act_def)
    next
      case False
      then obtain b where b: "b < blocks env k" "blk_pc g b \<noteq> Finished" by (auto simp: list_all_iff)
      show ?thesis
      proof (cases "blk_late g b = 0")
        case False
        then show ?thesis by (intro exI [of _ "LateClear b"]) (simp add: device_act_def)
      next
        case True
        then have "\<exists>g'. block_step env k b g = Some g'"
          using b(2) by (cases "blk_pc g b") (simp_all add: block_step_def)
        then show ?thesis using s k b(1) by (intro exI [of _ "BlockStep b"]) (simp add: device_act_def)
      qed
    qed
  qed
qed

lemma device_run_bounded:
  "gpu_reach env calm kept g \<Longrightarrow> list_all device_act as \<Longrightarrow> gpu_run env as g = Some g' \<Longrightarrow> length as \<le> device_work env g"
proof (induction as arbitrary: g)
  case (Cons a as)
  then obtain g1 where g1: "gpu_exec env a g = Some g1" "gpu_run env as g1 = Some g'" "device_act a" "list_all device_act as"
    by (auto split: option.splits)
  have "gpu_reach env calm kept g1" by (rule gpu_reach.step [OF Cons.prems(1) g1(1)]) (use g1(3) in \<open>auto simp: device_act_def\<close>)
  then have "length as \<le> device_work env g1" using Cons.IH g1 by blast
  then show ?case using device_step_work [OF gpu_reach_late [OF Cons.prems(1)] g1(3,1)] by simp
qed simp

section \<open>Properties\<close>

text \<open>C23: Whatever order the device schedules the blocks and their threads in, it makes at most
  \<open>device_work\<close> steps before the host has to act again; and it only stops when the stream is empty. So
  the host that waits for the stream before it reactivates a queue does not wait for ever.\<close>

theorem device_gets_through:
  assumes "gpu_reach env calm kept g"
  shows "(\<forall>as g'. list_all device_act as \<and> gpu_run env as g = Some g' \<longrightarrow> length as \<le> device_work env g)
    \<and> (stream g \<noteq> [] \<longrightarrow> (\<exists>a g'. device_act a \<and> gpu_exec env a g = Some g'))"
  using device_run_bounded [OF assms] device_step_enabled by blast

text \<open>C22: In every run that drops no preempted kernel, however the device interleaves the blocks, and
  whenever the host deactivates the queue and reactivates it, no block of a kernel is run twice, and
  all blocks of a kernel are run before those of a later one. (Where a reactivation drops a kernel
  that has been preempted, its restore flags stay and blocks may run twice:
  \<open>stale_flag_runs_block_twice\<close>.)\<close>

theorem preemption_keeps_order:
  assumes "gpu_reach env calm True g"
  shows "distinct (kernel_runs env g) \<and> sorted_wrt (\<lambda>later earlier. fst earlier \<le> fst later) (kernel_runs env g)"
  using gpu_reach_inv [OF assms] by (simp add: gpu_inv_def hist_ok_def)

text \<open>Nothing is left to do: the stream is empty, and no kernel waits to be restored.\<close>

definition settled :: "gpu \<Rightarrow> bool" where
  "settled g \<longleftrightarrow> stream g = [] \<and> preempt_idx g = 0"

lemma completed_before_frontier:
  assumes H: "host_ok env calm g" and k: "1 \<le> k" "k < host_next g" "k \<notin> set (host_log g)"
  shows "k < frontier g"
proof -
  obtain a h where ah: "a \<le> h" "host_log g = [a..<host_next g]" "map snd (stream g) = [h..<host_next g]"
    "h \<le> host_next g" "preempt_idx g \<noteq> 0 \<longrightarrow> a \<le> preempt_idx g" by (rule host_okD [OF H]) blast
  then have "k < a" using k by auto
  moreover have "a \<le> frontier g"
  proof (cases "preempt_idx g = 0")
    case True
    then show ?thesis using frontier_from [OF ah(3,4)] ah(1) by simp
  next
    case False
    then show ?thesis using ah(5) by (simp add: frontier_def)
  qed
  ultimately show ?thesis by simp
qed

text \<open>C21: When the queue is not deactivated again before the restored kernel is through (or its blocks have
  one thread each), and no preempted kernel is dropped, preemption loses nothing: once the device is settled every block of every launched
  kernel has been run exactly once, and a kernel that has left the log has been run completely.\<close>

theorem preemption_runs_every_block_once:
  assumes "gpu_reach env True True g"
  shows "(settled g \<longrightarrow> (\<forall>k b. is_kernel env k \<longrightarrow> count_list (executed g) (k, b) =
            (if 1 \<le> k \<and> k < host_next g \<and> b < blocks env k then 1 else 0)))
    \<and> (\<forall>k b. 1 \<le> k \<and> k < host_next g \<and> k \<notin> set (host_log g) \<and> is_kernel env k \<and> b < blocks env k
         \<longrightarrow> (k, b) \<in> set (executed g))"
proof -
  have H: "host_ok env True g" and T: "hist_ok env True g"
    using gpu_reach_inv [OF assms] by (simp_all add: gpu_inv_def)
  have ran: "(k, b) \<in> set (executed g)" if "1 \<le> k" "k < frontier g" "is_kernel env k" "b < blocks env k" for k b
    using T that by (simp add: hist_ok_def)
  have real: "1 \<le> k \<and> k < host_next g \<and> b < blocks env k"
    if m: "(k, b) \<in> set (executed g)" and k: "is_kernel env k" for k b
  proof -
    have "k < host_next g" using T m k unfolding hist_ok_def by blast
    moreover have "k \<noteq> 0" using gpu_reach_positive [OF assms, of b] m by (metis)
    ultimately show ?thesis using executed_real [OF assms k m] by simp
  qed
  have once: "count_list (executed g) (k, b) = (if (k, b) \<in> set (executed g) then 1 else 0)" if "is_kernel env k" for k b
    using T that count_list_filter [of "\<lambda>e. is_kernel env (fst e)" "(k, b)" "executed g"]
      count_list_distinct [of "kernel_runs env g" "(k, b)"]
    by (simp add: hist_ok_def kernel_runs_def)
  have "count_list (executed g) (k, b) = (if 1 \<le> k \<and> k < host_next g \<and> b < blocks env k then 1 else 0)"
    if s: "settled g" and k: "is_kernel env k" for k b
  proof -
    have "frontier g = host_next g" using s by (simp add: settled_def frontier_def)
    then have "(k, b) \<in> set (executed g) \<longleftrightarrow> 1 \<le> k \<and> k < host_next g \<and> b < blocks env k"
      using ran [of k b] real [of k b] k by metis
    then show ?thesis by (simp only: once [OF k])
  qed
  then show ?thesis using completed_before_frontier [OF H] ran by blast
qed

section \<open>At work\<close>

text \<open>Kernel 1 of two blocks, each of two threads, and kernel 3 of one; command 2 is no kernel, but one that
  may be repeated, an event record (the launch worker lets no other command follow a kernel that is in
  flight). Block 0 of kernel 1 is through when the flag is raised, block 1 is preempted and so is the whole of kernel 3. After the
  reactivation all of it is run.\<close>

definition two_kernels :: gpu_env where
  "two_kernels = \<lparr> is_kernel = (\<lambda>k. k \<noteq> 2), blocks = (\<lambda>k. if k = 1 then 2 else 1), others = (\<lambda>_. 1) \<rparr>"

definition preempted_run :: "gpu_act list" where
  "preempted_run =
     [HostLaunch, HostLaunch, HostLaunch] @ replicate 3 (BlockStep 0) @ [HostDeactivate, RaiseFlag]
     @ replicate 6 (BlockStep 1) @ [NextLaunch, RunOther] @ replicate 4 (BlockStep 0) @ [NextLaunch]"

definition resumed_run :: "gpu_act list" where
  "resumed_run =
     [HostReactivate False, BlockStep 0, BlockStep 1, BlockStep 1, LateClear 1] @ replicate 3 (BlockStep 1)
     @ [NextLaunch, RunOther] @ replicate 3 (BlockStep 0) @ [NextLaunch, HostComplete]"

text \<open>Where the guarantees stop. The kernel is deactivated again while the second thread of its block has
  not yet cleared the restore flag; the block sets the flag again, the late thread clears it, and the
  kernel never runs although everything is settled.\<close>

definition one_block_kernels :: gpu_env where
  "one_block_kernels = \<lparr> is_kernel = (\<lambda>_. True), blocks = (\<lambda>_. 1), others = (\<lambda>_. 1) \<rparr>"

definition late_run :: "gpu_act list" where
  "late_run =
     [HostLaunch, HostDeactivate, RaiseFlag] @ replicate 6 (BlockStep 0) @ [NextLaunch, HostReactivate False]
     @ replicate 2 (BlockStep 0) @ [HostDeactivate, RaiseFlag] @ replicate 5 (BlockStep 0)
     @ [LateClear 0, BlockStep 0, NextLaunch, HostReactivate False, BlockStep 0, NextLaunch]"

text \<open>The log is dropped when the queue is reactivated, the restore flag of block 0 of kernel 1 stays; when
  kernel 2 is preempted after its block 0 is through, the flag makes that block run again.\<close>

definition two_block_kernels :: gpu_env where
  "two_block_kernels = \<lparr> is_kernel = (\<lambda>_. True), blocks = (\<lambda>k. k), others = (\<lambda>_. 0) \<rparr>"

definition dropping_run :: "gpu_act list" where
  "dropping_run =
     [HostLaunch, HostDeactivate, RaiseFlag] @ replicate 6 (BlockStep 0) @ [NextLaunch, HostReactivate True, HostLaunch]
     @ replicate 3 (BlockStep 0) @ [HostDeactivate, RaiseFlag] @ replicate 6 (BlockStep 1)
     @ [NextLaunch, HostReactivate False] @ replicate 5 (BlockStep 0)"

lemma late_thread_loses_block:
  "map_option (\<lambda>g. (executed g, settled g, host_log g)) (gpu_run one_block_kernels late_run gpu_init) = Some ([], True, [1])"
  by code_simp

lemma stale_flag_runs_block_twice:
  "map_option executed (gpu_run two_block_kernels dropping_run gpu_init) = Some [(2, 0), (2, 0)]"
  by code_simp

lemma resumed_run_result:
  "map_option (\<lambda>g. (settled g, host_next g, executed g)) (calm_run two_kernels (preempted_run @ resumed_run) gpu_init)
     = Some (True, 4, [(3, 0), (2, 0), (1, 1), (2, 0), (1, 0)])"
  by code_simp

lemma resumed_run_reach:
  "\<exists>g. gpu_reach two_kernels True True g \<and> settled g \<and> host_next g = 4
     \<and> executed g = [(3, 0), (2, 0), (1, 1), (2, 0), (1, 0)]"
proof -
  obtain g where g: "calm_run two_kernels (preempted_run @ resumed_run) gpu_init = Some g"
    "(settled g, host_next g, executed g) = (True, 4, [(3, 0), (2, 0), (1, 1), (2, 0), (1, 0)])"
    using resumed_run_result unfolding map_option_eq_Some by blast
  then show ?thesis using calm_run_reach [OF gpu_reach.init g(1)] by blast
qed

lemma preempted_run_result:
  "map_option (\<lambda>g. (stream g, preempt_idx g, executed g)) (calm_run two_kernels preempted_run gpu_init)
     = Some ([], 1, [(2, 0), (1, 0)])"
  by code_simp

theorem preemption_keeps_order_witness:
  "\<exists>g. kernel_runs two_kernels g = [(3, 0), (1, 1), (1, 0)]
     \<and> sorted_wrt (\<lambda>later earlier. fst earlier \<le> fst later) (kernel_runs two_kernels g)"
proof -
  obtain g where g: "gpu_reach two_kernels True True g" "executed g = [(3, 0), (2, 0), (1, 1), (2, 0), (1, 0)]"
    using resumed_run_reach by blast
  have "kernel_runs two_kernels g = [(3, 0), (1, 1), (1, 0)]" by (simp add: kernel_runs_def two_kernels_def g(2))
  then show ?thesis using preemption_keeps_order [OF g(1)] by blast
qed

theorem preemption_runs_every_block_once_witness:
  "\<exists>g :: gpu. executed g ! 2 = (1, 1) \<and> count_list (executed g) (1, 1) = 1 \<and> count_list (executed g) (3, 0) = 1"
proof -
  obtain g where g: "gpu_reach two_kernels True True g" "settled g" "host_next g = 4"
      "executed g = [(3, 0), (2, 0), (1, 1), (2, 0), (1, 0)]"
    using resumed_run_reach by blast
  have c: "count_list (executed g) (k, b) = (if 1 \<le> k \<and> k < 4 \<and> b < blocks two_kernels k then 1 else 0)"
    if "is_kernel two_kernels k" for k b
    using preemption_runs_every_block_once [OF g(1)] g(2,3) that by simp
  have "count_list (executed g) (1, 1) = 1" by (subst c) (simp_all add: two_kernels_def)
  moreover have "count_list (executed g) (3, 0) = 1" by (subst c) (simp_all add: two_kernels_def)
  moreover have "executed g ! 2 = (1, 1)" by (simp add: g(4))
  ultimately show ?thesis by blast
qed

theorem device_gets_through_witness:
  "\<exists>g. stream g \<noteq> [] \<and> device_work two_kernels g = 15 \<and> (\<exists>a g'. device_act a \<and> gpu_exec two_kernels a g = Some g')
     \<and> gpu_run two_kernels (replicate 3 (BlockStep 0) @ replicate 3 (BlockStep 1) @ [NextLaunch]) g \<noteq> None"
proof -
  let ?as = "replicate 3 (BlockStep 0) @ replicate 3 (BlockStep 1) @ [NextLaunch]"
  have "map_option (\<lambda>g. (stream g \<noteq> [], device_work two_kernels g, gpu_run two_kernels ?as g \<noteq> None))
      (gpu_exec two_kernels HostLaunch gpu_init) = Some (True, 15, True)" by code_simp
  then obtain g where g: "gpu_exec two_kernels HostLaunch gpu_init = Some g" "stream g \<noteq> []"
      "device_work two_kernels g = 15" "gpu_run two_kernels ?as g \<noteq> None"
    unfolding map_option_eq_Some by blast
  have "gpu_reach two_kernels True True g" by (rule gpu_reach.step [OF gpu_reach.init g(1)]) simp_all
  from device_gets_through [OF this] g show ?thesis by blast
qed

end
