(* ===== verification/McsLock.thy ===== *)
theory McsLock
  imports Prelude
begin

text \<open>
  The lock of a launch worker (\<^verbatim>\<open>MCSLock\<close> in \<^verbatim>\<open>utils/src/lock.cpp\<close> and
  \<^verbatim>\<open>utils/include/xsched/utils/lock.h\<close>), in steps of one access to shared memory. Threads and
  locks are numbers; a thread that waits for a condition makes no step until it holds. The node that
  a thread queues with is one for all locks (\<^verbatim>\<open>thread_local me\<close>).
\<close>

section \<open>The lock\<close>

type_synonym tid = nat
type_synonym lock_id = nat

datatype lock_pc =
    Running
  | LockFlag lock_id | LockNext lock_id | LockSwap lock_id | LockLink lock_id tid | LockSpin lock_id
  | UnlockRead lock_id | UnlockCas lock_id | UnlockWait lock_id | UnlockGrant lock_id

text \<open>The nodes of the threads, the tails of the locks; and for every thread where it is and which locks it
  holds.\<close>

record mcs =
  me_granted :: "tid \<Rightarrow> bool"
  me_next :: "tid \<Rightarrow> tid option"
  lock_tail :: "lock_id \<Rightarrow> tid option"
  at_pc :: "tid \<Rightarrow> lock_pc"
  holding :: "tid \<Rightarrow> lock_id list"

definition mcs_init :: mcs where
  "mcs_init = \<lparr> me_granted = (\<lambda>_. False), me_next = (\<lambda>_. None), lock_tail = (\<lambda>_. None), at_pc = (\<lambda>_. Running),
     holding = (\<lambda>_. []) \<rparr>"

text \<open>What can be observed of a lock: a thread takes its place, is let in, and gives the lock up.\<close>

datatype lock_event = Arrive tid lock_id | Enter tid lock_id | Leave tid lock_id

abbreviation (input) goto_pc :: "tid \<Rightarrow> lock_pc \<Rightarrow> mcs \<Rightarrow> mcs" where
  "goto_pc t pc s \<equiv> s\<lparr> at_pc := (at_pc s)(t := pc) \<rparr>"

abbreviation (input) enter :: "tid \<Rightarrow> lock_id \<Rightarrow> mcs \<Rightarrow> mcs" where
  "enter t l s \<equiv> s\<lparr> at_pc := (at_pc s)(t := Running), holding := (holding s)(t := l # holding s t) \<rparr>"

fun mcs_step :: "tid \<Rightarrow> lock_pc \<Rightarrow> mcs \<Rightarrow> (mcs \<times> lock_event list) option" where
  "mcs_step t Running s = None"
| "mcs_step t (LockFlag l) s = Some (goto_pc t (LockNext l) (s\<lparr> me_granted := (me_granted s)(t := False) \<rparr>), [])"
| "mcs_step t (LockNext l) s = Some (goto_pc t (LockSwap l) (s\<lparr> me_next := (me_next s)(t := None) \<rparr>), [])"
| "mcs_step t (LockSwap l) s =
     (let s1 = s\<lparr> lock_tail := (lock_tail s)(l := Some t) \<rparr> in
      case lock_tail s l of
        None \<Rightarrow> Some (enter t l s1, [Arrive t l, Enter t l])
      | Some p \<Rightarrow> Some (goto_pc t (LockLink l p) s1, [Arrive t l]))"
| "mcs_step t (LockLink l p) s = Some (goto_pc t (LockSpin l) (s\<lparr> me_next := (me_next s)(p := Some t) \<rparr>), [])"
| "mcs_step t (LockSpin l) s = (if me_granted s t then Some (enter t l s, [Enter t l]) else None)"
| "mcs_step t (UnlockRead l) s =
     Some (goto_pc t (if me_next s t = None then UnlockCas l else UnlockGrant l) s, [])"
| "mcs_step t (UnlockCas l) s =
     (if lock_tail s l = Some t then Some (goto_pc t Running (s\<lparr> lock_tail := (lock_tail s)(l := None) \<rparr>), [Leave t l])
      else Some (goto_pc t (UnlockWait l) s, []))"
| "mcs_step t (UnlockWait l) s = (if me_next s t = None then None else Some (goto_pc t (UnlockGrant l) s, []))"
| "mcs_step t (UnlockGrant l) s =
     (case me_next s t of None \<Rightarrow> None
      | Some n \<Rightarrow> Some (goto_pc t Running (s\<lparr> me_granted := (me_granted s)(n := True) \<rparr>), [Leave t l]))"

text \<open>A thread that runs calls \<^verbatim>\<open>lock\<close>, or \<^verbatim>\<open>unlock\<close> for a lock that it holds.\<close>

datatype mcs_act = Lock tid lock_id | Unlock tid lock_id | Step tid

fun mcs_exec :: "mcs_act \<Rightarrow> mcs \<Rightarrow> (mcs \<times> lock_event list) option" where
  "mcs_exec (Lock t l) s = (if at_pc s t = Running then Some (goto_pc t (LockFlag l) s, []) else None)"
| "mcs_exec (Unlock t l) s =
     (if at_pc s t = Running \<and> l \<in> set (holding s t)
      then Some (s\<lparr> at_pc := (at_pc s)(t := UnlockRead l), holding := (holding s)(t := remove1 l (holding s t)) \<rparr>, [])
      else None)"
| "mcs_exec (Step t) s = mcs_step t (at_pc s t) s"

text \<open>No thread takes a second lock while it holds one.\<close>

fun single :: "mcs_act \<Rightarrow> mcs \<Rightarrow> bool" where
  "single (Lock t l) s \<longleftrightarrow> holding s t = []"
| "single _ s \<longleftrightarrow> True"

fun mcs_run :: "bool \<Rightarrow> mcs_act list \<Rightarrow> mcs \<Rightarrow> (mcs \<times> lock_event list) option" where
  "mcs_run nesting [] s = Some (s, [])"
| "mcs_run nesting (a # as) s =
     (if \<not> nesting \<and> \<not> single a s then None
      else case mcs_exec a s of None \<Rightarrow> None
      | Some (s1, es) \<Rightarrow> map_option (\<lambda>(s2, es'). (s2, es @ es')) (mcs_run nesting as s1))"

section \<open>A queue lock\<close>

text \<open>What is expected of a fair lock: threads queue up, only the first is let in, and it leaves
  before the next. The second component: the first is inside.\<close>

type_synonym qlocks = "lock_id \<Rightarrow> tid list \<times> bool"

fun qlock :: "lock_event \<Rightarrow> qlocks \<Rightarrow> qlocks option" where
  "qlock (Arrive t l) Q = (if t \<in> set (fst (Q l)) then None else Some (Q(l := (fst (Q l) @ [t], snd (Q l)))))"
| "qlock (Enter t l) Q =
     (case Q l of (p # ts, False) \<Rightarrow> if p = t then Some (Q(l := (p # ts, True))) else None | _ \<Rightarrow> None)"
| "qlock (Leave t l) Q =
     (case Q l of (p # ts, True) \<Rightarrow> if p = t then Some (Q(l := (ts, False))) else None | _ \<Rightarrow> None)"

fun qlock_run :: "lock_event list \<Rightarrow> qlocks \<Rightarrow> qlocks option" where
  "qlock_run [] Q = Some Q"
| "qlock_run (e # es) Q = (case qlock e Q of None \<Rightarrow> None | Some Q1 \<Rightarrow> qlock_run es Q1)"

definition no_queue :: qlocks where
  "no_queue = (\<lambda>_. ([], False))"

text \<open>The threads in the order in which they took their places, and in which they were let in.\<close>

definition arrivals :: "lock_id \<Rightarrow> lock_event list \<Rightarrow> tid list" where
  "arrivals l es = concat (map (\<lambda>e. case e of Arrive t k \<Rightarrow> if k = l then [t] else [] | _ \<Rightarrow> []) es)"

definition entries :: "lock_id \<Rightarrow> lock_event list \<Rightarrow> tid list" where
  "entries l es = concat (map (\<lambda>e. case e of Enter t k \<Rightarrow> if k = l then [t] else [] | _ \<Rightarrow> []) es)"

definition pending :: "lock_id \<Rightarrow> qlocks \<Rightarrow> tid list" where
  "pending l Q = (if snd (Q l) then tl (fst (Q l)) else fst (Q l))"

lemma qlock_order:
  "qlock_run es Q = Some Q' \<Longrightarrow> \<forall>k. snd (Q k) \<longrightarrow> fst (Q k) \<noteq> []
    \<Longrightarrow> pending l Q @ arrivals l es = entries l es @ pending l Q'"
proof (induction es arbitrary: Q)
  case (Cons e es)
  then obtain Q1 where Q1: "qlock e Q = Some Q1" "qlock_run es Q1 = Some Q'" by (auto split: option.splits)
  have ne: "\<forall>k. snd (Q1 k) \<longrightarrow> fst (Q1 k) \<noteq> []"
    using Q1(1) Cons.prems(2) by (cases e) (auto split: if_splits prod.splits list.splits bool.splits)
  have "pending l Q @ arrivals l [e] = entries l [e] @ pending l Q1"
    using Q1(1) Cons.prems(2)
    by (cases e) (auto simp: pending_def arrivals_def entries_def split: if_splits prod.splits list.splits bool.splits)
  then have "pending l Q @ arrivals l (e # es) = entries l [e] @ pending l Q1 @ arrivals l es"
    by (simp add: arrivals_def)
  then show ?case using Cons.IH [OF Q1(2) ne] by (simp add: entries_def)
qed (simp add: arrivals_def entries_def)

text \<open>A lock whose runs are those of a queue lock. Its clients may rely on mutual exclusion and on the order.\<close>

locale fair_lock =
  fixes runs :: "'s \<Rightarrow> lock_event list \<Rightarrow> bool"
    and inside :: "'s \<Rightarrow> tid \<Rightarrow> lock_id \<Rightarrow> bool"
  assumes queues: "runs s es \<Longrightarrow>
    \<exists>Q. qlock_run es no_queue = Some Q \<and> (\<forall>t l. inside s t l \<longrightarrow> (\<exists>ts. Q l = (t # ts, True)))"
begin

lemma exclusive:
  assumes "runs s es" "inside s t l" "inside s u l"
  shows "t = u"
proof -
  obtain Q where Q: "\<forall>t l. inside s t l \<longrightarrow> (\<exists>ts. Q l = (t # ts, True))" using queues [OF assms(1)] by blast
  then obtain ts us where "Q l = (t # ts, True)" "Q l = (u # us, True)" using assms(2,3) by metis
  then show ?thesis by simp
qed

lemma in_order: "runs s es \<Longrightarrow> \<exists>rest. arrivals l es = entries l es @ rest"
  using queues [of s es] qlock_order [of es no_queue _ l] by (auto simp: no_queue_def pending_def)

end

section \<open>The invariant\<close>

text \<open>The lock that a thread is queued at.\<close>

fun at_lock :: "lock_pc \<Rightarrow> lock_id option" where
  "at_lock (LockLink l _) = Some l"
| "at_lock (LockSpin l) = Some l"
| "at_lock (UnlockRead l) = Some l"
| "at_lock (UnlockCas l) = Some l"
| "at_lock (UnlockWait l) = Some l"
| "at_lock (UnlockGrant l) = Some l"
| "at_lock _ = None"

definition queued :: "mcs \<Rightarrow> tid \<Rightarrow> lock_id \<Rightarrow> bool" where
  "queued s t l \<longleftrightarrow> l \<in> set (holding s t) \<or> at_lock (at_pc s t) = Some l"

definition thread_ok :: "mcs \<Rightarrow> tid \<Rightarrow> bool" where
  "thread_ok s t \<longleftrightarrow>
     (holding s t = [] \<or> at_pc s t = Running \<and> (\<exists>l. holding s t = [l]))
     \<and> (\<forall>l. at_pc s t = LockNext l \<longrightarrow> \<not> me_granted s t)
     \<and> (\<forall>l. at_pc s t = LockSwap l \<longrightarrow> \<not> me_granted s t \<and> me_next s t = None)"

definition linked :: "mcs \<Rightarrow> lock_id \<Rightarrow> tid \<Rightarrow> tid \<Rightarrow> bool" where
  "linked s l p t \<longleftrightarrow> \<not> me_granted s t
     \<and> (at_pc s t = LockSpin l \<and> me_next s p = Some t \<or> at_pc s t = LockLink l p \<and> me_next s p = None)"

definition first_ok :: "mcs \<Rightarrow> lock_id \<Rightarrow> tid \<Rightarrow> tid list \<Rightarrow> bool \<Rightarrow> bool" where
  "first_ok s l t ts inside \<longleftrightarrow>
     (if inside
      then l \<in> set (holding s t) \<or> at_pc s t = UnlockRead l \<or> at_pc s t = UnlockCas l
         \<or> at_pc s t = UnlockWait l \<and> ts \<noteq> [] \<or> at_pc s t = UnlockGrant l \<and> me_next s t \<noteq> None
      else at_pc s t = LockSpin l \<and> me_granted s t)"

fun chain :: "mcs \<Rightarrow> lock_id \<Rightarrow> tid list \<Rightarrow> bool" where
  "chain s l [] \<longleftrightarrow> True"
| "chain s l [t] \<longleftrightarrow> me_next s t = None"
| "chain s l (p # t # ts) \<longleftrightarrow> linked s l p t \<and> chain s l (t # ts)"

definition lock_ok :: "mcs \<Rightarrow> lock_id \<Rightarrow> tid list \<Rightarrow> bool \<Rightarrow> bool" where
  "lock_ok s l q inside \<longleftrightarrow>
     distinct q \<and> (\<forall>t. t \<in> set q \<longleftrightarrow> queued s t l) \<and> lock_tail s l = (if q = [] then None else Some (last q))
     \<and> chain s l q \<and> (case q of [] \<Rightarrow> \<not> inside | t # ts \<Rightarrow> first_ok s l t ts inside)"

definition mcs_inv :: "mcs \<Rightarrow> qlocks \<Rightarrow> bool" where
  "mcs_inv s Q \<longleftrightarrow> (\<forall>t. thread_ok s t) \<and> (\<forall>l. lock_ok s l (fst (Q l)) (snd (Q l)))"

lemma mcs_inv_init: "mcs_inv mcs_init no_queue"
  by (simp add: mcs_inv_def thread_ok_def lock_ok_def mcs_init_def no_queue_def queued_def)

lemma lock_okD:
  assumes "lock_ok s l q i"
  shows "distinct q" "t \<in> set q \<longleftrightarrow> queued s t l" "lock_tail s l = (if q = [] then None else Some (last q))"
    "chain s l q" "q = t # ts \<Longrightarrow> first_ok s l t ts i" "q = [] \<Longrightarrow> \<not> i"
  using assms by (auto simp: lock_ok_def)

lemma queued_once: "thread_ok s t \<Longrightarrow> queued s t l \<Longrightarrow> queued s t l' \<Longrightarrow> l = l'"
  by (auto simp: thread_ok_def queued_def)

text \<open>Of the first thread of a queue only \<open>next\<close> matters for the links.\<close>

lemma chain_same:
  "chain s l q \<Longrightarrow> \<forall>t\<in>set q. me_next s' t = me_next s t
    \<Longrightarrow> \<forall>t\<in>set (tl q). me_granted s' t = me_granted s t \<and> at_pc s' t = at_pc s t \<Longrightarrow> chain s' l q"
  by (induction s l q rule: chain.induct) (auto simp: linked_def)

text \<open>The other locks: no node of their queues changes.\<close>

lemma lock_ok_same:
  assumes "lock_ok s l q i" "lock_tail s' l = lock_tail s l" "\<And>t. queued s' t l = queued s t l"
    "\<And>t. queued s t l \<Longrightarrow> me_next s' t = me_next s t \<and> me_granted s' t = me_granted s t
       \<and> at_pc s' t = at_pc s t \<and> holding s' t = holding s t"
  shows "lock_ok s' l q i"
proof -
  have "\<forall>t\<in>set q. me_next s' t = me_next s t \<and> me_granted s' t = me_granted s t \<and> at_pc s' t = at_pc s t
      \<and> holding s' t = holding s t"
    using assms(1,4) by (simp add: lock_ok_def)
  moreover from this have "chain s' l q" using assms(1) by (auto simp: lock_ok_def intro!: chain_same [of s] dest: in_set_tlD)
  ultimately show ?thesis using assms(1-3) by (cases q) (auto simp: lock_ok_def first_ok_def)
qed

text \<open>Threads behind the first wait.\<close>

lemma chain_waits: "chain s l (p # ts) \<Longrightarrow> t \<in> set ts \<Longrightarrow>
    \<not> me_granted s t \<and> (at_pc s t = LockSpin l \<or> (\<exists>p'. at_pc s t = LockLink l p'))"
  by (induction ts arbitrary: p) (auto simp: linked_def)

lemma lock_ok_first:
  assumes ok: "lock_ok s l q i" and t: "queued s t l" "thread_ok s t"
    and here: "at_pc s t \<noteq> LockSpin l \<or> me_granted s t" "\<And>p. at_pc s t \<noteq> LockLink l p"
  shows "\<exists>ts. q = t # ts"
proof -
  have "t \<in> set q" using ok t by (simp add: lock_ok_def)
  then obtain p ts where q: "q = p # ts" by (cases q) auto
  have "t \<notin> set ts" using chain_waits [of s l p ts t] ok here by (auto simp: lock_ok_def q)
  then show ?thesis using q \<open>t \<in> set q\<close> by auto
qed

lemma mcs_inv_update:
  assumes inv: "mcs_inv s Q" and th: "\<And>u. thread_ok s' u"
    and tails: "\<And>k. k \<noteq> l \<Longrightarrow> lock_tail s' k = lock_tail s k"
    and same: "\<And>u. u \<notin> M \<Longrightarrow> me_next s' u = me_next s u \<and> me_granted s' u = me_granted s u
       \<and> at_pc s' u = at_pc s u \<and> holding s' u = holding s u"
    and M: "\<And>u k. u \<in> M \<Longrightarrow> k \<noteq> l \<Longrightarrow> \<not> queued s u k \<and> \<not> queued s' u k"
    and here: "lock_ok s' l q i"
  shows "mcs_inv s' (Q(l := (q, i)))"
proof -
  have "lock_ok s' k (fst (Q k)) (snd (Q k))" if "k \<noteq> l" for k
  proof (rule lock_ok_same [of s])
    show "lock_ok s k (fst (Q k)) (snd (Q k))" using inv by (simp add: mcs_inv_def)
    show "lock_tail s' k = lock_tail s k" by (rule tails [OF that])
    show "queued s' t k = queued s t k" for t
      using same [of t] M [of t k] that by (cases "t \<in> M") (auto simp: queued_def)
    show "me_next s' t = me_next s t \<and> me_granted s' t = me_granted s t \<and> at_pc s' t = at_pc s t \<and> holding s' t = holding s t"
      if "queued s t k" for t
      using same [of t] M [of t k] that \<open>k \<noteq> l\<close> by blast
  qed
  then show ?thesis using here th by (simp add: mcs_inv_def)
qed

text \<open>A step that leaves the queue of its lock alone.\<close>

lemma mcs_inv_same_queue:
  assumes "mcs_inv s Q" "mcs_inv s' (Q(l := (fst (Q l), snd (Q l))))"
  shows "mcs_inv s' Q"
  using assms(2) by simp

lemma chain_append:
  assumes "chain s l q" "q \<noteq> []" "t \<notin> set q" "me_next s t = None" "\<not> me_granted s t"
    and s': "\<forall>u\<in>set q. at_pc s' u = at_pc s u" "at_pc s' t = LockLink l (last q)"
      "me_next s' = me_next s" "me_granted s' = me_granted s"
  shows "chain s' l (q @ [t])"
  using assms
proof (induction q)
  case (Cons p q)
  show ?case
  proof (cases q)
    case Nil
    then show ?thesis using Cons.prems by (simp add: linked_def)
  next
    case (Cons p' q')
    then have "chain s' l (q @ [t])" using Cons.IH Cons.prems by simp
    then show ?thesis using Cons.prems Cons by (simp add: linked_def)
  qed
qed simp

lemma chain_link:
  assumes "distinct q" "chain s l q" "t \<in> set (tl q)" "at_pc s t = LockLink l p"
  defines "s' \<equiv> s\<lparr> me_next := (me_next s)(p := Some t), at_pc := (at_pc s)(t := LockSpin l) \<rparr>"
  shows "p \<in> set q \<and> p \<noteq> last q \<and> chain s' l q"
  using assms(1-3)
proof (induction q rule: induct_list012)
  case (3 a b ts)
  have tl: "chain s' l (b # ts)" if "p \<notin> set (b # ts)"  "t \<notin> set ts"
    by (rule chain_same [of s]) (use 3 that in \<open>auto simp: s'_def\<close>)
  show ?case
  proof (cases "t = b")
    case True
    then have a: "p = a" "\<not> me_granted s b" using 3 assms(4) by (auto simp: linked_def)
    then have "chain s' l (b # ts)" using tl 3 True by auto
    then show ?thesis using a 3 True by (auto simp: linked_def s'_def)
  next
    case False
    then have I: "p \<in> set (b # ts) \<and> p \<noteq> last (b # ts) \<and> chain s' l (b # ts)" using 3 by auto
    moreover have "p \<noteq> a" using I 3 by auto
    ultimately show ?thesis using 3 False by (auto simp: linked_def s'_def)
  qed
qed simp_all

section \<open>Every step keeps it\<close>

lemma mcs_inv_thread: "mcs_inv s Q \<Longrightarrow> thread_ok s t"
  by (simp add: mcs_inv_def)

lemma mcs_inv_lock: "mcs_inv s Q \<Longrightarrow> lock_ok s l (fst (Q l)) (snd (Q l))"
  by (simp add: mcs_inv_def)

lemma queued_pc: "thread_ok s t \<Longrightarrow> at_lock (at_pc s t) = Some l \<Longrightarrow> holding s t = [] \<and> (queued s t k \<longleftrightarrow> k = l)"
  by (auto simp: thread_ok_def queued_def)

lemma not_queued: "thread_ok s t \<Longrightarrow> at_lock (at_pc s t) = None \<Longrightarrow> at_pc s t \<noteq> Running \<Longrightarrow> holding s t = [] \<and> \<not> queued s t k"
  by (auto simp: thread_ok_def queued_def)

text \<open>Before a thread is queued its node belongs to no queue.\<close>

lemma inv_outside:
  assumes inv: "mcs_inv s Q" and t: "\<And>k. \<not> queued s t k" "\<And>k. \<not> queued s' t k" "thread_ok s' t"
    and same: "\<And>u. u \<noteq> t \<Longrightarrow> me_next s' u = me_next s u \<and> me_granted s' u = me_granted s u
       \<and> at_pc s' u = at_pc s u \<and> holding s' u = holding s u" "lock_tail s' = lock_tail s"
  shows "mcs_inv s' Q"
proof -
  have "thread_ok s' u" for u
    using t(3) mcs_inv_thread [OF inv, of u] same(1) [of u] by (cases "u = t") (auto simp: thread_ok_def)
  moreover have "lock_ok s' k (fst (Q k)) (snd (Q k))" for k
  proof (rule lock_ok_same [OF mcs_inv_lock [OF inv]])
    show "queued s' u k = queued s u k" for u
      using t(1,2) same(1) [of u] by (cases "u = t") (auto simp: queued_def)
    show "me_next s' u = me_next s u \<and> me_granted s' u = me_granted s u \<and> at_pc s' u = at_pc s u \<and> holding s' u = holding s u"
      if "queued s u k" for u using same(1) [of u] t(1) that by blast
  qed (simp add: same)
  ultimately show ?thesis by (simp add: mcs_inv_def)
qed

lemma inv_Lock:
  assumes "mcs_inv s Q" "at_pc s t = Running" "holding s t = []"
  shows "mcs_inv (s\<lparr> at_pc := (at_pc s)(t := LockFlag l) \<rparr>) Q"
  by (rule inv_outside [OF assms(1), of t]) (use assms in \<open>auto simp: queued_def thread_ok_def\<close>)

lemma inv_LockFlag:
  assumes inv: "mcs_inv s Q" and pc: "at_pc s t = LockFlag l"
  shows "mcs_inv (s\<lparr> me_granted := (me_granted s)(t := False), at_pc := (at_pc s)(t := LockNext l) \<rparr>) Q"
  by (rule inv_outside [OF inv, of t]) (use not_queued [OF mcs_inv_thread [OF inv], of t] pc in \<open>auto simp: queued_def thread_ok_def\<close>)

lemma inv_LockNext:
  assumes inv: "mcs_inv s Q" and pc: "at_pc s t = LockNext l"
  shows "mcs_inv (s\<lparr> me_next := (me_next s)(t := None), at_pc := (at_pc s)(t := LockSwap l) \<rparr>) Q"
  by (rule inv_outside [OF inv, of t])
    (use not_queued [OF mcs_inv_thread [OF inv], of t] mcs_inv_thread [OF inv, of t] pc in \<open>auto simp: queued_def thread_ok_def\<close>)

lemma inv_LockSwap:
  assumes inv: "mcs_inv s Q" and pc: "at_pc s t = LockSwap l" and step: "mcs_step t (LockSwap l) s = Some (s', es)"
  shows "\<exists>Q'. qlock_run es Q = Some Q' \<and> mcs_inv s' Q'"
proof -
  obtain q i where Q: "Q l = (q, i)" by fastforce
  have L: "lock_ok s l q i" using mcs_inv_lock [OF inv, of l] by (simp add: Q)
  have T: "holding s t = []" "\<And>k. \<not> queued s t k" "\<not> me_granted s t" "me_next s t = None"
    using not_queued [OF mcs_inv_thread [OF inv], of t] mcs_inv_thread [OF inv, of t] pc by (auto simp: thread_ok_def)
  have q: "t \<notin> set q" using L T(2) by (simp add: lock_ok_def)
  show ?thesis
  proof (cases "lock_tail s l")
    case None
    then have e: "q = []" "\<not> i" using L by (auto simp: lock_ok_def split: if_splits)
    let ?s = "s\<lparr> lock_tail := (lock_tail s)(l := Some t), at_pc := (at_pc s)(t := Running), holding := (holding s)(t := [l]) \<rparr>"
    have s': "s' = ?s" "es = [Arrive t l, Enter t l]" using step None T(1) by auto
    have "mcs_inv ?s (Q(l := ([t], True)))"
    proof (rule mcs_inv_update [OF inv, where M = "{t}"])
      show "thread_ok ?s u" for u using mcs_inv_thread [OF inv, of u] by (auto simp: thread_ok_def)
      have "queued ?s u l \<longleftrightarrow> u = t" for u using L T(2) e by (auto simp: lock_ok_def queued_def)
      then show "lock_ok ?s l [t] True" using T(4) by (simp add: lock_ok_def first_ok_def)
    qed (use T(2) in \<open>auto simp: queued_def\<close>)
    then show ?thesis using e by (simp add: s' Q)
  next
    case (Some p)
    then have p: "q \<noteq> []" "p = last q" using L by (auto simp: lock_ok_def split: if_splits)
    let ?s = "s\<lparr> lock_tail := (lock_tail s)(l := Some t), at_pc := (at_pc s)(t := LockLink l p) \<rparr>"
    have s': "s' = ?s" "es = [Arrive t l]" using step Some by auto
    have "mcs_inv ?s (Q(l := (q @ [t], i)))"
    proof (rule mcs_inv_update [OF inv, where M = "{t}"])
      show "thread_ok ?s u" for u using mcs_inv_thread [OF inv, of u] T(1) by (auto simp: thread_ok_def)
      have "chain ?s l (q @ [t])"
        by (rule chain_append [of s]) (use L p q T in \<open>auto simp: lock_ok_def\<close>)
      moreover have "u \<in> set (q @ [t]) \<longleftrightarrow> queued ?s u l" for u
        using lock_okD(2) [OF L, of u] by (auto simp: queued_def)
      moreover have "case q @ [t] of [] \<Rightarrow> \<not> i | u # ts \<Rightarrow> first_ok ?s l u ts i"
        using lock_okD(5) [OF L] p(1) q by (cases q) (auto simp: first_ok_def)
      ultimately show "lock_ok ?s l (q @ [t]) i" using L q by (simp add: lock_ok_def)
    qed (use T(1,2) in \<open>auto simp: queued_def\<close>)
    then show ?thesis using q by (simp add: s' Q)
  qed
qed

lemma inv_LockLink:
  assumes inv: "mcs_inv s Q" and pc: "at_pc s t = LockLink l p"
  shows "mcs_inv (s\<lparr> me_next := (me_next s)(p := Some t), at_pc := (at_pc s)(t := LockSpin l) \<rparr>) Q"
proof -
  let ?s = "s\<lparr> me_next := (me_next s)(p := Some t), at_pc := (at_pc s)(t := LockSpin l) \<rparr>"
  obtain q i where Q: "Q l = (q, i)" by fastforce
  have L: "lock_ok s l q i" using mcs_inv_lock [OF inv, of l] by (simp add: Q)
  have T: "holding s t = []" "\<And>k. queued s t k \<longleftrightarrow> k = l" using queued_pc [OF mcs_inv_thread [OF inv], of t] pc by auto
  have "t \<in> set q" using L T(2) by (simp add: lock_ok_def)
  moreover have f: "q \<noteq> t # ts" for ts using L pc T(1) by (auto simp: lock_ok_def first_ok_def split: if_splits)
  ultimately have "t \<in> set (tl q)" by (cases q) auto
  then have C: "p \<in> set q" "p \<noteq> last q" "chain ?s l q"
    using chain_link [of q s l t p] L pc by (auto simp: lock_ok_def)
  have P: "queued s p l" using C(1) L by (simp add: lock_ok_def)
  have "mcs_inv ?s (Q(l := (q, i)))"
  proof (rule mcs_inv_update [OF inv, where M = "{t, p}"])
    show "thread_ok ?s u" for u
      using mcs_inv_thread [OF inv, of u] T(1) P by (auto simp: thread_ok_def queued_def)
    have "u \<in> set q \<longleftrightarrow> queued ?s u l" for u using L pc by (auto simp: lock_ok_def queued_def)
    moreover have "case q of [] \<Rightarrow> \<not> i | u # ts \<Rightarrow> first_ok ?s l u ts i"
      using L f by (cases q) (auto simp: lock_ok_def first_ok_def)
    ultimately show "lock_ok ?s l q i" using L C by (simp add: lock_ok_def)
    show "\<not> queued s u k \<and> \<not> queued ?s u k" if "u \<in> {t, p}" "k \<noteq> l" for u k
      using that T queued_once [OF mcs_inv_thread [OF inv] P] by (auto simp: queued_def)
  qed auto
  then show ?thesis by (metis Q fun_upd_triv)
qed

text \<open>A step of the first thread that leaves the nodes alone.\<close>

lemma inv_first:
  assumes inv: "mcs_inv s Q" and Q: "Q l = (t # ts, i)" and t: "queued s t l" "queued s' t l"
    and same: "\<And>u. u \<noteq> t \<Longrightarrow> at_pc s' u = at_pc s u \<and> holding s' u = holding s u"
      "me_next s' = me_next s" "me_granted s' = me_granted s" "lock_tail s' = lock_tail s"
    and new: "first_ok s' l t ts j" "thread_ok s' t"
  shows "mcs_inv s' (Q(l := (t # ts, j)))"
proof (rule mcs_inv_update [OF inv, where M = "{t}"])
  have L: "lock_ok s l (t # ts) i" using mcs_inv_lock [OF inv, of l] by (simp add: Q)
  show "thread_ok s' u" for u
    using mcs_inv_thread [OF inv, of u] same(1) [of u] new(2) same(2,3) by (cases "u = t") (auto simp: thread_ok_def)
  have "at_pc s' u = at_pc s u" if "u \<in> set ts" for u
    using same(1) [of u] L that by (auto simp: lock_ok_def)
  then have "chain s' l (t # ts)"
    by (intro chain_same [OF lock_okD(4) [OF L]]) (simp_all add: same(2,3))
  moreover have "u \<in> set (t # ts) \<longleftrightarrow> queued s' u l" for u
    using lock_okD(2) [OF L, of u] same(1) [of u] t by (cases "u = t") (simp_all add: queued_def)
  ultimately show "lock_ok s' l (t # ts) j" using L new(1) by (simp add: lock_ok_def same)
  show "\<not> queued s u k \<and> \<not> queued s' u k" if "u \<in> {t}" "k \<noteq> l" for u k
    using that t queued_once [OF mcs_inv_thread [OF inv]] queued_once [OF new(2)] by blast
qed (use same in auto)

lemma first_thread:
  assumes inv: "mcs_inv s Q" and t: "queued s t l"
    and here: "at_pc s t \<noteq> LockSpin l \<or> me_granted s t" "\<And>p. at_pc s t \<noteq> LockLink l p"
  obtains ts where "Q l = (t # ts, at_pc s t \<noteq> LockSpin l)"
proof -
  obtain q i where Q: "Q l = (q, i)" by fastforce
  have L: "lock_ok s l q i" using mcs_inv_lock [OF inv, of l] by (simp add: Q)
  obtain ts where q: "q = t # ts" using lock_ok_first [OF L t mcs_inv_thread [OF inv] here] by blast
  have "i = (at_pc s t \<noteq> LockSpin l)"
    using L mcs_inv_thread [OF inv, of t] by (auto simp: lock_ok_def q first_ok_def thread_ok_def split: if_splits)
  then show ?thesis using that Q q by simp
qed

lemma inv_LockSpin:
  assumes inv: "mcs_inv s Q" and pc: "at_pc s t = LockSpin l" and step: "mcs_step t (LockSpin l) s = Some (s', es)"
  shows "\<exists>Q'. qlock_run es Q = Some Q' \<and> mcs_inv s' Q'"
proof -
  have g: "me_granted s t" "es = [Enter t l]" using step by (auto split: if_splits)
  have T: "holding s t = []" "\<And>k. queued s t k \<longleftrightarrow> k = l" using queued_pc [OF mcs_inv_thread [OF inv], of t] pc by auto
  obtain ts where Q: "Q l = (t # ts, False)" using first_thread [OF inv, of t l] T g pc by auto
  let ?s = "s\<lparr> at_pc := (at_pc s)(t := Running), holding := (holding s)(t := [l]) \<rparr>"
  have s': "s' = ?s" using step g(1) T(1) by auto
  have "mcs_inv ?s (Q(l := (t # ts, True)))"
    by (rule inv_first [OF inv Q]) (use T in \<open>auto simp: queued_def first_ok_def thread_ok_def\<close>)
  then show ?thesis by (simp add: g(2) Q s')
qed

lemma inv_Unlock:
  assumes inv: "mcs_inv s Q" and pc: "at_pc s t = Running" "l \<in> set (holding s t)"
  shows "mcs_inv (s\<lparr> at_pc := (at_pc s)(t := UnlockRead l), holding := (holding s)(t := remove1 l (holding s t)) \<rparr>) Q"
proof -
  let ?s = "s\<lparr> at_pc := (at_pc s)(t := UnlockRead l), holding := (holding s)(t := remove1 l (holding s t)) \<rparr>"
  have T: "holding s t = [l]" "queued s t l" using mcs_inv_thread [OF inv, of t] pc by (auto simp: thread_ok_def queued_def)
  obtain ts where Q: "Q l = (t # ts, True)" using first_thread [OF inv T(2)] pc by auto
  have "mcs_inv ?s (Q(l := (t # ts, True)))"
    by (rule inv_first [OF inv Q]) (use T in \<open>auto simp: queued_def first_ok_def thread_ok_def\<close>)
  then show ?thesis by (metis Q fun_upd_triv)
qed

text \<open>The steps within \<^verbatim>\<open>unlock\<close>.\<close>

lemma inv_goto_pc:
  assumes inv: "mcs_inv s Q" and Q: "Q l = (t # ts, True)" and pc: "at_lock (at_pc s t) = Some l"
    and new: "at_lock pc = Some l" "first_ok (goto_pc t pc s) l t ts True"
  shows "mcs_inv (goto_pc t pc s) Q"
proof -
  have T: "holding s t = []" "queued s t l" using queued_pc [OF mcs_inv_thread [OF inv] pc] by auto
  have "mcs_inv (goto_pc t pc s) (Q(l := (t # ts, True)))"
    by (rule inv_first [OF inv Q]) (use T new in \<open>auto simp: queued_def thread_ok_def\<close>)
  then show ?thesis by (metis Q fun_upd_triv)
qed

lemma inv_UnlockCas:
  assumes inv: "mcs_inv s Q" and pc: "at_pc s t = UnlockCas l" and tl: "lock_tail s l = Some t"
  shows "\<exists>Q'. qlock_run [Leave t l] Q = Some Q'
    \<and> mcs_inv (s\<lparr> lock_tail := (lock_tail s)(l := None), at_pc := (at_pc s)(t := Running) \<rparr>) Q'"
proof -
  let ?s = "s\<lparr> lock_tail := (lock_tail s)(l := None), at_pc := (at_pc s)(t := Running) \<rparr>"
  have T: "holding s t = []" "\<And>k. queued s t k \<longleftrightarrow> k = l" using queued_pc [OF mcs_inv_thread [OF inv], of t] pc by auto
  obtain ts where Q: "Q l = (t # ts, True)" using first_thread [OF inv, of t l] T pc by auto
  have L: "lock_ok s l (t # ts) True" using mcs_inv_lock [OF inv, of l] by (simp add: Q)
  then have e: "ts = []" using tl by (cases ts rule: rev_cases) (auto simp: lock_ok_def split: if_splits)
  have "mcs_inv ?s (Q(l := ([], False)))"
  proof (rule mcs_inv_update [OF inv, where M = "{t}"])
    show "thread_ok ?s u" for u using mcs_inv_thread [OF inv, of u] by (auto simp: thread_ok_def)
    have "\<not> queued ?s u l" for u using lock_okD(2) [OF L, of u] T(1) e by (cases "u = t") (simp_all add: queued_def)
    then show "lock_ok ?s l [] False" by (simp add: lock_ok_def)
  qed (use T in \<open>auto simp: queued_def\<close>)
  then show ?thesis by (simp add: Q e)
qed

lemma inv_UnlockGrant:
  assumes inv: "mcs_inv s Q" and pc: "at_pc s t = UnlockGrant l" and n: "me_next s t = Some n"
  shows "\<exists>Q'. qlock_run [Leave t l] Q = Some Q'
    \<and> mcs_inv (s\<lparr> me_granted := (me_granted s)(n := True), at_pc := (at_pc s)(t := Running) \<rparr>) Q'"
proof -
  let ?s = "s\<lparr> me_granted := (me_granted s)(n := True), at_pc := (at_pc s)(t := Running) \<rparr>"
  have T: "holding s t = []" "\<And>k. queued s t k \<longleftrightarrow> k = l" using queued_pc [OF mcs_inv_thread [OF inv], of t] pc by auto
  obtain ts where Q: "Q l = (t # ts, True)" using first_thread [OF inv, of t l] T pc by auto
  have L: "lock_ok s l (t # ts) True" using mcs_inv_lock [OF inv, of l] by (simp add: Q)
  then obtain ts' where ts: "ts = n # ts'" "linked s l t n" using n by (cases ts) (auto simp: lock_ok_def linked_def)
  then have N: "at_pc s n = LockSpin l" "n \<noteq> t" "\<And>k. queued s n k \<longleftrightarrow> k = l"
    using n L queued_pc [OF mcs_inv_thread [OF inv], of n l] by (auto simp: linked_def lock_ok_def)
  have "mcs_inv ?s (Q(l := (ts, False)))"
  proof (rule mcs_inv_update [OF inv, where M = "{t, n}"])
    show "thread_ok ?s u" for u using mcs_inv_thread [OF inv, of u] N(1) T(1) by (auto simp: thread_ok_def)
    have "chain ?s l ts" by (rule chain_same [of s]) (use L in \<open>auto simp: lock_ok_def ts(1)\<close>)
    moreover have "u \<in> set ts \<longleftrightarrow> queued ?s u l" for u using L T by (auto simp: lock_ok_def queued_def)
    ultimately show "lock_ok ?s l ts False" using L N by (auto simp: lock_ok_def ts(1) first_ok_def)
    show "\<not> queued s u k \<and> \<not> queued ?s u k" if "u \<in> {t, n}" "k \<noteq> l" for u k
      using that T N(3) by (auto simp: queued_def)
  qed auto
  then show ?thesis by (simp add: Q)
qed

lemma inv_step:
  assumes inv: "mcs_inv s Q" and step: "mcs_step t (at_pc s t) s = Some (s', es)"
  shows "\<exists>Q'. qlock_run es Q = Some Q' \<and> mcs_inv s' Q'"
proof (cases "at_pc s t")
  case (LockFlag l)
  then show ?thesis using step inv_LockFlag [OF inv] by auto
next
  case (LockNext l)
  then show ?thesis using step inv_LockNext [OF inv] by auto
next
  case (LockSwap l)
  then show ?thesis using step inv_LockSwap [OF inv LockSwap] by simp
next
  case (LockLink l p)
  then show ?thesis using step inv_LockLink [OF inv LockLink] by auto
next
  case (LockSpin l)
  then show ?thesis using step inv_LockSpin [OF inv LockSpin] by simp
next
  case (UnlockRead l)
  then have "queued s t l" by (simp add: queued_def)
  then obtain ts where "Q l = (t # ts, True)" using first_thread [OF inv, of t l] UnlockRead by auto
  then show ?thesis using step UnlockRead inv_goto_pc [OF inv] by (auto simp: first_ok_def)
next
  case (UnlockCas l)
  show ?thesis
  proof (cases "lock_tail s l = Some t")
    case True
    then show ?thesis using step UnlockCas inv_UnlockCas [OF inv UnlockCas] by auto
  next
    case False
    have "queued s t l" using UnlockCas by (simp add: queued_def)
    then obtain ts where Q: "Q l = (t # ts, True)" using first_thread [OF inv, of t l] UnlockCas by auto
    then have "ts \<noteq> []" using False mcs_inv_lock [OF inv, of l] by (auto simp: lock_ok_def)
    then show ?thesis using step UnlockCas False Q inv_goto_pc [OF inv Q] by (auto simp: first_ok_def)
  qed
next
  case (UnlockWait l)
  then have "queued s t l" by (simp add: queued_def)
  then obtain ts where "Q l = (t # ts, True)" using first_thread [OF inv, of t l] UnlockWait by auto
  then show ?thesis using step UnlockWait inv_goto_pc [OF inv] by (auto simp: first_ok_def split: if_splits)
next
  case (UnlockGrant l)
  then show ?thesis using step inv_UnlockGrant [OF inv UnlockGrant] by (auto split: option.splits)
qed (use step in simp)

lemma inv_exec:
  assumes inv: "mcs_inv s Q" and step: "mcs_exec a s = Some (s', es)" and single: "single a s"
  shows "\<exists>Q'. qlock_run es Q = Some Q' \<and> mcs_inv s' Q'"
proof (cases a)
  case (Lock t l)
  then show ?thesis using step single inv_Lock [OF inv] by (auto split: if_splits)
next
  case (Unlock t l)
  then show ?thesis using step inv_Unlock [OF inv] by (auto split: if_splits)
next
  case (Step t)
  then show ?thesis using step inv_step [OF inv] by simp
qed

lemma qlock_run_append: "qlock_run (es @ es') Q = (case qlock_run es Q of None \<Rightarrow> None | Some Q' \<Rightarrow> qlock_run es' Q')"
  by (induction es arbitrary: Q) (auto split: option.split)

lemma inv_run:
  "mcs_inv s Q \<Longrightarrow> mcs_run False as s = Some (s', es) \<Longrightarrow> \<exists>Q'. qlock_run es Q = Some Q' \<and> mcs_inv s' Q'"
proof (induction as arbitrary: s Q es)
  case (Cons a as)
  then obtain s1 es1 es2 where 1: "mcs_exec a s = Some (s1, es1)" "single a s"
    and 2: "mcs_run False as s1 = Some (s', es2)" "es = es1 @ es2"
    by (auto split: if_splits option.splits)
  obtain Q1 where Q1: "qlock_run es1 Q = Some Q1" "mcs_inv s1 Q1" using inv_exec [OF Cons.prems(1) 1] by blast
  show ?case using Cons.IH [OF Q1(2) 2(1)] Q1(1) by (simp add: 2(2) qlock_run_append)
qed auto

section \<open>Steps\<close>

fun lock_rank :: "lock_pc \<Rightarrow> nat" where
  "lock_rank Running = 0"
| "lock_rank (LockFlag _) = 5"
| "lock_rank (LockNext _) = 4"
| "lock_rank (LockSwap _) = 3"
| "lock_rank (LockLink _ _) = 2"
| "lock_rank (LockSpin _) = 1"
| "lock_rank (UnlockRead _) = 4"
| "lock_rank (UnlockCas _) = 3"
| "lock_rank (UnlockWait _) = 2"
| "lock_rank (UnlockGrant _) = 1"

definition busy :: "mcs \<Rightarrow> tid set" where
  "busy s = {t. at_pc s t \<noteq> Running}"

definition lock_work :: "mcs \<Rightarrow> nat" where
  "lock_work s = (\<Sum>t\<in>busy s. lock_rank (at_pc s t))"

definition is_step :: "mcs_act \<Rightarrow> bool" where
  "is_step a \<longleftrightarrow> (case a of Step _ \<Rightarrow> True | _ \<Rightarrow> False)"

lemma step_rank:
  assumes "mcs_step t (at_pc s t) s = Some (s', es)"
  shows "lock_rank (at_pc s' t) < lock_rank (at_pc s t) \<and> (\<forall>u. u \<noteq> t \<longrightarrow> at_pc s' u = at_pc s u)"
  using assms by (cases "at_pc s t") (auto simp: Let_def split: option.splits if_splits)

lemma lock_rank_0: "lock_rank pc = 0 \<longleftrightarrow> pc = Running"
  by (cases pc) simp_all

lemma step_work:
  assumes fin: "finite (busy s)" and step: "mcs_step t (at_pc s t) s = Some (s', es)"
  shows "finite (busy s') \<and> lock_work s' < lock_work s"
proof -
  have t: "t \<in> busy s" using step by (auto simp: busy_def)
  have "u \<in> busy s" if "u \<in> busy s'" for u
    using step_rank [OF step] t that by (cases "u = t") (auto simp: busy_def)
  then have sub: "busy s' \<subseteq> busy s" by blast
  have "lock_work s' = (\<Sum>u\<in>busy s. lock_rank (at_pc s' u))"
    unfolding lock_work_def by (rule sum.mono_neutral_left [OF fin sub]) (simp add: busy_def)
  also have "\<dots> < lock_work s"
    unfolding lock_work_def
  proof (rule sum_strict_mono_ex1 [OF fin])
    show "\<forall>u\<in>busy s. lock_rank (at_pc s' u) \<le> lock_rank (at_pc s u)"
      using step_rank [OF step] by (metis less_imp_le order_refl)
    show "\<exists>u\<in>busy s. lock_rank (at_pc s' u) < lock_rank (at_pc s u)" using step_rank [OF step] t by blast
  qed
  finally show ?thesis using finite_subset [OF sub fin] by blast
qed

lemma exec_finite: "finite (busy s) \<Longrightarrow> mcs_exec a s = Some (s', es) \<Longrightarrow> finite (busy s')"
proof (cases a)
  case (Step t)
  then show "finite (busy s) \<Longrightarrow> mcs_exec a s = Some (s', es) \<Longrightarrow> finite (busy s')" using step_work by auto
qed (auto simp: busy_def Collect_conv_if split: if_splits elim!: rev_finite_subset [of "insert _ _", OF finite.insertI])

lemma run_finite: "finite (busy s) \<Longrightarrow> mcs_run n as s = Some (s', es) \<Longrightarrow> finite (busy s')"
proof (induction as arbitrary: s es)
  case (Cons a as)
  then obtain s1 es1 es2 where 1: "mcs_exec a s = Some (s1, es1)" "mcs_run n as s1 = Some (s', es2)"
    by (auto split: if_splits option.splits)
  show ?case using Cons.IH [OF exec_finite [OF Cons.prems(1) 1(1)] 1(2)] .
qed simp

lemma steps_bounded:
  "finite (busy s) \<Longrightarrow> list_all is_step bs \<Longrightarrow> mcs_run False bs s = Some (s', es) \<Longrightarrow> length bs \<le> lock_work s"
proof (induction bs arbitrary: s es)
  case (Cons a bs)
  then obtain t s1 es1 es2 where 1: "mcs_step t (at_pc s t) s = Some (s1, es1)" "mcs_run False bs s1 = Some (s', es2)"
    by (auto simp: is_step_def split: mcs_act.splits if_splits option.splits)
  show ?case using step_work [OF Cons.prems(1) 1(1)] Cons.IH [OF _ _ 1(2)] Cons.prems(2) by auto
qed simp

definition wants :: "mcs \<Rightarrow> tid \<Rightarrow> lock_id \<Rightarrow> bool" where
  "wants s t l \<longleftrightarrow> at_pc s t = LockFlag l \<or> at_pc s t = LockNext l \<or> at_pc s t = LockSwap l
     \<or> (\<exists>p. at_pc s t = LockLink l p) \<or> at_pc s t = LockSpin l"

lemma wanted_moves:
  assumes inv: "mcs_inv s Q" and w: "wants s t l" and free: "\<And>u. l \<notin> set (holding s u)"
  shows "\<exists>u. mcs_exec (Step u) s \<noteq> None"
proof (cases "at_pc s t = LockSpin l")
  case False
  then have "mcs_exec (Step t) s \<noteq> None" using w by (auto simp: wants_def Let_def split: option.split)
  then show ?thesis by blast
next
  case True
  obtain q i where Q: "Q l = (q, i)" by fastforce
  have L: "lock_ok s l q i" using mcs_inv_lock [OF inv, of l] by (simp add: Q)
  have "t \<in> set q" using True lock_okD(2) [OF L, of t] by (simp add: queued_def)
  then obtain f ts where q: "q = f # ts" by (cases q) auto
  have F: "first_ok s l f ts i" by (rule lock_okD(5) [OF L q])
  show ?thesis
  proof (cases "at_pc s f = UnlockWait l \<and> me_next s f = None")
    case True
    then obtain b r where "ts = b # r" using F free [of f] by (cases ts) (auto simp: first_ok_def split: if_splits)
    then have "linked s l f b" using lock_okD(4) [OF L] by (simp add: q)
    then have "mcs_exec (Step b) s \<noteq> None" using True by (auto simp: linked_def)
    then show ?thesis by blast
  next
    case False
    then have "mcs_exec (Step f) s \<noteq> None"
      using F free [of f] by (auto simp: first_ok_def split: if_splits option.split)
    then show ?thesis by blast
  qed
qed

section \<open>Properties\<close>

lemma mcs_run_queues:
  assumes "\<exists>as. mcs_run False as mcs_init = Some (s, es)"
  shows "\<exists>Q. qlock_run es no_queue = Some Q \<and> (\<forall>t l. l \<in> set (holding s t) \<longrightarrow> (\<exists>ts. Q l = (t # ts, True)))"
proof -
  obtain Q where Q: "qlock_run es no_queue = Some Q" "mcs_inv s Q" using inv_run [OF mcs_inv_init] assms by blast
  have "\<exists>ts. Q l = (t # ts, True)" if h: "l \<in> set (holding s t)" for t l
  proof -
    have "at_pc s t = Running" using mcs_inv_thread [OF Q(2), of t] h by (auto simp: thread_ok_def)
    then show ?thesis using first_thread [OF Q(2), of t l] h by (auto simp: queued_def)
  qed
  then show ?thesis using Q(1) by blast
qed

interpretation mcs_lock: fair_lock "\<lambda>s es. \<exists>as. mcs_run False as mcs_init = Some (s, es)" "\<lambda>s t l. l \<in> set (holding s t)"
  by unfold_locales (rule mcs_run_queues)

text \<open>C18: Whatever threads do in whatever order, as long as none takes a second lock while it holds one, each
  lock is a fair queue: what can be observed of it is what can be observed of a queue lock. So no
  two threads hold a lock at a time, and they are let in in the order in which they arrived.\<close>

theorem mcs_lock_is_fair_queue:
  assumes "mcs_run False as mcs_init = Some (s, es)"
  shows "qlock_run es no_queue \<noteq> None
    \<and> (\<forall>t u l. l \<in> set (holding s t) \<and> l \<in> set (holding s u) \<longrightarrow> t = u)
    \<and> (\<forall>l. \<exists>rest. arrivals l es = entries l es @ rest)"
proof -
  have r: "\<exists>as. mcs_run False as mcs_init = Some (s, es)" using assms by blast
  show ?thesis using mcs_lock.queues [OF r] mcs_lock.exclusive [OF r] mcs_lock.in_order [OF r] by blast
qed

text \<open>C19: And, again as long as no thread takes a second lock while it holds one, no waiting thread is
  forgotten: when threads only make the steps of the calls they are in, there are at most \<open>lock_work\<close> of
  them, and one is always possible while some thread wants a lock that no thread holds. (With one lock
  inside another a waiting thread can be forgotten: \<open>nested_locks_hang\<close>.)\<close>

theorem mcs_lock_is_handed_over:
  assumes "mcs_run False as mcs_init = Some (s, es)"
  shows "(\<forall>bs s' es'. list_all is_step bs \<and> mcs_run False bs s = Some (s', es') \<longrightarrow> length bs \<le> lock_work s)
    \<and> (\<forall>t l. wants s t l \<and> (\<forall>u. l \<notin> set (holding s u)) \<longrightarrow> (\<exists>u. mcs_exec (Step u) s \<noteq> None))"
proof -
  have "finite (busy mcs_init)" by (simp add: busy_def mcs_init_def)
  then have "finite (busy s)" using run_finite assms by blast
  moreover obtain Q where "mcs_inv s Q" using inv_run [OF mcs_inv_init assms] by blast
  ultimately show ?thesis using steps_bounded wanted_moves by blast
qed

section \<open>At work\<close>

text \<open>Thread 1 arrives while thread 0 is inside, and is let in after it.\<close>

definition two_threads :: "mcs_act list" where
  "two_threads = [Lock 0 7, Step 0, Step 0, Step 0, Lock 1 7, Step 1, Step 1, Step 1, Unlock 0 7, Step 0, Step 0, Step 1,
     Step 0, Step 0]"

lemma two_threads_run:
  "\<exists>s. mcs_run False two_threads mcs_init = Some (s, [Arrive 0 7, Enter 0 7, Arrive 1 7, Leave 0 7])
     \<and> wants s 1 7 \<and> holding s = (\<lambda>_. [])"
  by (simp add: two_threads_def mcs_init_def Let_def wants_def fun_eq_iff)

theorem mcs_lock_is_fair_queue_witness:
  "\<exists>s es. mcs_run False (two_threads @ [Step 1]) mcs_init = Some (s, es) \<and> holding s 1 = [7]
     \<and> arrivals 7 es = [0, 1] \<and> qlock_run es no_queue \<noteq> None \<and> (\<forall>u. 7 \<in> set (holding s u) \<longrightarrow> u = 1)"
proof -
  have "\<exists>s es. mcs_run False (two_threads @ [Step 1]) mcs_init = Some (s, es) \<and> holding s 1 = [7] \<and> arrivals 7 es = [0, 1]"
    by (simp add: two_threads_def mcs_init_def Let_def arrivals_def)
  then obtain s es where r: "mcs_run False (two_threads @ [Step 1]) mcs_init = Some (s, es)" "holding s 1 = [7]"
    "arrivals 7 es = [0, 1]" by blast
  have "7 \<in> set (holding s 1)" unfolding r(2) by simp
  then show ?thesis using mcs_lock_is_fair_queue [OF r(1)] r by blast
qed

theorem mcs_lock_is_handed_over_witness:
  "\<exists>s es. mcs_run False two_threads mcs_init = Some (s, es) \<and> wants s 1 7 \<and> (\<exists>u. mcs_exec (Step u) s \<noteq> None)"
proof -
  obtain s es where r: "mcs_run False two_threads mcs_init = Some (s, es)" "wants s 1 7" "holding s = (\<lambda>_. [])"
    using two_threads_run by blast
  have "\<forall>u. 7 \<notin> set (holding s u)" by (simp add: r(3))
  then show ?thesis using mcs_lock_is_handed_over [OF r(1)] r by blast
qed

text \<open>With one lock inside another it is different, as both use the node of the thread: thread 0 takes and
  gives back lock 8 while thread 1 waits for lock 7, and forgets it. It waits for ever when it gives
  back lock 7, and so does thread 1.\<close>

definition nested_locks :: "mcs_act list" where
  "nested_locks = [Lock 0 7, Step 0, Step 0, Step 0, Lock 1 7, Step 1, Step 1, Step 1, Step 1,
     Lock 0 8, Step 0, Step 0, Step 0, Unlock 0 8, Step 0, Step 0, Unlock 0 7, Step 0, Step 0]"

lemma nested_locks_hang:
  "\<exists>s es. mcs_run True nested_locks mcs_init = Some (s, es) \<and> at_pc s 0 = UnlockWait 7 \<and> at_pc s 1 = LockSpin 7
     \<and> holding s = (\<lambda>_. []) \<and> (\<forall>u. mcs_exec (Step u) s = None)"
  by (simp add: nested_locks_def mcs_init_def Let_def fun_eq_iff)

end
