(* ===== verification/CudaShim.thy ===== *)
theory CudaShim
  imports CudaQueue AutoXQueue
begin

text \<open>
  What stands between a CUDA program and the driver (\<^verbatim>\<open>platforms/cuda/shim/src/shim.cpp\<close>): streams are
  mapped to XQueues, launches and events become commands of them, and what is not on an XQueue is left
  to the driver. The calls an operation makes on the driver, on XQueues and on commands are part of its
  result; the default stream and a null event are 0.
\<close>

section \<open>Streams and XQueues\<close>

definition AutoXQueueEnabled :: "getenv \<Rightarrow> bool" where
  "AutoXQueueEnabled env =
     (case env ''XSCHED_AUTO_XQUEUE'' of None \<Rightarrow> False
      | Some v \<Rightarrow> v \<noteq> [] \<and> v \<noteq> ''0'' \<and> map to_lower v \<notin> {''off'', ''false'', ''no''})"

definition LookupHwQueueHandle :: "cuhandle \<Rightarrow> cuhandle option \<Rightarrow> hwq_handle" where
  "LookupHwQueueHandle stream ctx =
     (if stream = 0 then (case ctx of None \<Rightarrow> 0 | Some c \<Rightarrow> GetHwQueueHandle 0 c) else stream)"

text \<open>\<open>create\<close> is \<^verbatim>\<open>AutoCreate\<close> with a new CUDA queue for the stream.\<close>

definition ResolveXQueueForStream ::
  "getenv \<Rightarrow> (xsys \<Rightarrow> (xresult \<times> xsys \<times> hint list) option) \<Rightarrow> cuhandle \<Rightarrow> cuhandle option \<Rightarrow> bool \<Rightarrow> xsys
    \<Rightarrow> (xhandle option \<times> xsys) option" where
  "ResolveXQueueForStream env create stream ctx auto_create s =
     (let h = LookupHwQueueHandle stream ctx in
      case HwQueueManager_GetXQueue h s of
        Some x \<Rightarrow> Some (Some x, s)
      | None \<Rightarrow>
          if \<not> auto_create \<or> \<not> AutoXQueueEnabled env then Some (None, s)
          else (case create s of None \<Rightarrow> None
            | Some (_, s', _) \<Rightarrow> Some (HwQueueManager_GetXQueue h s', s')))"

text \<open>The XQueues in the order of iteration, each with the flags of its stream if it is a CUDA queue. An
  operation of the default stream waits for those of the blocking streams; \<open>None\<close> is a failed
  assertion.\<close>

fun WaitBlockingXQueues :: "(xhandle \<times> nat option) list \<Rightarrow> xhandle list option" where
  "WaitBlockingXQueues [] = Some []"
| "WaitBlockingXQueues ((x, None) # qs) = None"
| "WaitBlockingXQueues ((x, Some flags) # qs) =
     map_option (\<lambda>xs. if odd flags then xs else x # xs) (WaitBlockingXQueues qs)"

section \<open>The intensity of kernels\<close>

definition has_word :: "string list \<Rightarrow> string \<Rightarrow> bool" where
  "has_word ws name \<longleftrightarrow> list_ex (\<lambda>w. list_ex (\<lambda>i. take (length w) (drop i name) = w) [0..<Suc (length name)]) ws"

text \<open>In tenths.\<close>

definition EstimateKernelIntensity :: "string \<Rightarrow> int" where
  "EstimateKernelIntensity name =
     (if has_word [''conv'', ''Conv'', ''gemm'', ''Gemm'', ''fft'', ''FFT'', ''mma'', ''warp'', ''wmma''] name then 3
      else if has_word [''copy'', ''Copy'', ''memcpy'', ''Memcpy'', ''broadcast'', ''Broadcast'', ''relu'', ''Relu'',
        ''elementwise'', ''add_kernel'', ''mul_kernel''] name then 8
      else if has_word [''embed'', ''Embed'', ''gather'', ''Gather'', ''scatter''] name then 9
      else if has_word [''softmax'', ''Softmax'', ''norm'', ''Norm''] name then 6
      else 5)"

section \<open>Events\<close>

text \<open>A command that records an event: the driver's event, with which flags, the command as its XQueue sees
  it, and whether its destructor destroys the event.\<close>

record event_cmd =
  ec_event :: cuhandle
  ec_flags :: "int option"
  ec_cmd :: hwcmd
  ec_destroy :: bool

text \<open>The last command of every event, the commands by their address, the next address; the names of the
  functions and the intensity that was last told of each device.\<close>

record shim =
  g_events :: "cuhandle \<Rightarrow> nat option"
  event_cmds :: "nat \<Rightarrow> event_cmd"
  next_cmd :: nat
  g_func_names :: "cuhandle \<Rightarrow> string option"
  g_device_intensity :: "xdevice \<Rightarrow> int option"

definition shim_init :: shim where
  "shim_init = \<lparr> g_events = (\<lambda>_. None),
     event_cmds = (\<lambda>_. \<lparr> ec_event = 0, ec_flags = None, ec_cmd = HwCommand_new, ec_destroy = False \<rparr>),
     next_cmd = 0, g_func_names = (\<lambda>_. None), g_device_intensity = (\<lambda>_. None) \<rparr>"

datatype shim_call =
    DrvEventQuery cuhandle | DrvEventRecord cuhandle cuhandle "int option" | DrvEventSynchronize cuhandle
  | DrvStreamWaitEvent cuhandle cuhandle int | DrvEventDestroy cuhandle | DrvLaunchHostFunc cuhandle
  | DrvLaunchKernelEx | DrvStreamSynchronize cuhandle | DrvStreamQuery cuhandle | DrvCtxSynchronize
  | DrvStreamDestroy cuhandle | DirectLaunchOn cuhandle
  | WaitXQueues "xhandle list" | WaitAllOf xhandle | WaitCmd nat wait_plan
  | SubmitRecord xhandle nat | SubmitWaitFor xhandle nat int | SubmitHostFunc xhandle | SubmitKernelEx xhandle
  | HintIntensity xdevice int

text \<open>What the program gets: a code of the shim, or what the driver answered to the last call.\<close>

datatype shim_result = CuSuccess | CuNotReady | FromDriver

definition UpdateDeviceIntensity :: "(cuhandle \<Rightarrow> string option) \<Rightarrow> cuhandle \<Rightarrow> xdevice \<Rightarrow> shim \<Rightarrow> shim \<times> shim_call list" where
  "UpdateDeviceIntensity func_name f dev sh =
     (let sh1 = (if g_func_names sh f = None then sh\<lparr> g_func_names := (g_func_names sh)(f := func_name f) \<rparr> else sh) in
      case g_func_names sh1 f of None \<Rightarrow> (sh1, [])
      | Some name \<Rightarrow>
          (let v = EstimateKernelIntensity name in
           if g_device_intensity sh1 dev = Some v then (sh1, [])
           else (sh1\<lparr> g_device_intensity := (g_device_intensity sh1)(dev \<mapsto> v) \<rparr>, [HintIntensity dev v])))"

definition default_stream_waits :: "cuhandle \<Rightarrow> (xhandle \<times> nat option) list \<Rightarrow> shim_call list option" where
  "default_stream_waits stream qs =
     (if stream = 0 then map_option (\<lambda>xs. [WaitXQueues xs]) (WaitBlockingXQueues qs) else Some [])"

definition XLaunchKernelEx ::
  "bool \<Rightarrow> cuhandle \<Rightarrow> (xhandle \<times> nat option) list \<Rightarrow> (xhandle \<times> xdevice) option \<Rightarrow> (cuhandle \<Rightarrow> string option) \<Rightarrow> cuhandle
    \<Rightarrow> shim \<Rightarrow> (shim_result \<times> shim \<times> shim_call list) option" where
  "XLaunchKernelEx config_given stream qs xq func_name f sh =
     (if \<not> config_given then Some (FromDriver, sh, [DrvLaunchKernelEx])
      else case default_stream_waits stream qs of None \<Rightarrow> None
      | Some ws \<Rightarrow>
          (case xq of None \<Rightarrow> Some (FromDriver, sh, ws @ [DirectLaunchOn stream])
           | Some (x, dev) \<Rightarrow>
               (case UpdateDeviceIntensity func_name f dev sh of (sh', hs) \<Rightarrow>
                  Some (CuSuccess, sh', ws @ hs @ [SubmitKernelEx x]))))"

text \<open>\<^verbatim>\<open>XLaunchKernel\<close> hands the launch to the runtime strategy: the result, and the launches that come of it.\<close>

definition XLaunchKernel ::
  "bool \<Rightarrow> getenv \<Rightarrow> (cuhandle \<Rightarrow> nat) \<Rightarrow> (launch_cmd \<Rightarrow> int) \<Rightarrow> cuhandle \<Rightarrow> (xhandle \<times> nat option) list \<Rightarrow> xdevice
    \<Rightarrow> (cuhandle \<Rightarrow> string option) \<Rightarrow> kernel_launch \<Rightarrow> split_state \<Rightarrow> shim
    \<Rightarrow> (int \<times> launch_effect list \<times> split_state \<times> shim \<times> shim_call list) option" where
  "XLaunchKernel build env param_count drv stream qs dev func_name l st sh =
     (case default_stream_waits stream qs of None \<Rightarrow> None
      | Some ws \<Rightarrow>
          (case (if kl_xqueue l = None then (sh, []) else UpdateDeviceIntensity func_name (kl_function l) dev sh) of
             (sh', hs) \<Rightarrow>
               map_option (\<lambda>(st', r, effs, cfg). (r, effs, st', sh', ws @ hs))
                 (SubmitKernelWithRuntimeStrategy build env param_count drv l st)))"

definition XLaunchHostFunc ::
  "cuhandle \<Rightarrow> (xhandle \<times> nat option) list \<Rightarrow> xhandle option \<Rightarrow> (shim_result \<times> shim_call list) option" where
  "XLaunchHostFunc stream qs xq =
     map_option (\<lambda>ws. case xq of None \<Rightarrow> (FromDriver, ws @ [DrvLaunchHostFunc stream])
                      | Some x \<Rightarrow> (CuSuccess, ws @ [SubmitHostFunc x]))
       (default_stream_waits stream qs)"

text \<open>\<^verbatim>\<open>XEventRecord\<close> and \<^verbatim>\<open>XEventRecordWithFlags\<close>.\<close>

definition XEventRecord ::
  "cuhandle \<Rightarrow> cuhandle \<Rightarrow> int option \<Rightarrow> (xhandle \<times> nat option) list \<Rightarrow> xhandle option \<Rightarrow> shim
    \<Rightarrow> (shim_result \<times> shim \<times> shim_call list) option" where
  "XEventRecord event stream flags qs xq sh =
     (if event = 0 then Some (FromDriver, sh, [DrvEventRecord event stream flags])
      else map_option (\<lambda>ws.
        let i = next_cmd sh;
            hc = (case xq of None \<Rightarrow> HwCommand_new
                  | Some x \<Rightarrow> (OnSubmit x HwCommand_new)\<lparr> hc_state := kCommandStatePending \<rparr>);
            c = \<lparr> ec_event = event, ec_flags = flags, ec_cmd = hc, ec_destroy = False \<rparr>;
            sh' = sh\<lparr> g_events := (g_events sh)(event \<mapsto> i), event_cmds := (event_cmds sh)(i := c), next_cmd := i + 1 \<rparr> in
        case xq of None \<Rightarrow> (FromDriver, sh', ws @ [DrvEventRecord event stream flags])
        | Some x \<Rightarrow> (CuSuccess, sh', ws @ [SubmitRecord x i]))
       (default_stream_waits stream qs))"

definition XEventQuery :: "cuhandle \<Rightarrow> shim \<Rightarrow> shim_result \<times> shim_call list" where
  "XEventQuery event sh =
     (case g_events sh event of
        None \<Rightarrow> (FromDriver, [DrvEventQuery event])
      | Some i \<Rightarrow>
          if event = 0 then (FromDriver, [DrvEventQuery event])
          else if hc_state (ec_cmd (event_cmds sh i)) \<ge> kCommandStateCompleted then (CuSuccess, [])
          else (CuNotReady, []))"

text \<open>A command that records an event can always be synchronized with.\<close>

definition cmd_wait :: "nat \<Rightarrow> shim \<Rightarrow> shim_call" where
  "cmd_wait i sh = WaitCmd i (HwCommand_Wait True (ec_cmd (event_cmds sh i)))"

definition XEventSynchronize :: "cuhandle \<Rightarrow> shim \<Rightarrow> shim_result \<times> shim_call list" where
  "XEventSynchronize event sh =
     (case (if event = 0 then None else g_events sh event) of
        None \<Rightarrow> (FromDriver, [DrvEventSynchronize event])
      | Some i \<Rightarrow> (CuSuccess, [cmd_wait i sh]))"

definition XStreamWaitEvent ::
  "cuhandle \<Rightarrow> cuhandle \<Rightarrow> int \<Rightarrow> (xhandle \<times> nat option) list \<Rightarrow> xhandle option \<Rightarrow> shim
    \<Rightarrow> (shim_result \<times> shim_call list) option" where
  "XStreamWaitEvent stream event flags qs xq sh =
     (case (if event = 0 then None else g_events sh event) of
        None \<Rightarrow> Some (FromDriver, [DrvStreamWaitEvent stream event flags])
      | Some i \<Rightarrow>
          map_option (\<lambda>ws. case xq of
              Some x \<Rightarrow> (CuSuccess, ws @ [SubmitWaitFor x i flags])
            | None \<Rightarrow>
                if hc_xqueue_handle (ec_cmd (event_cmds sh i)) = 0
                then (FromDriver, ws @ [DrvStreamWaitEvent stream event flags])
                else (CuSuccess, ws @ [cmd_wait i sh]))
            (default_stream_waits stream qs))"

text \<open>\<^verbatim>\<open>XEventDestroy\<close>: the driver's event goes with the last reference to its command.\<close>

definition XEventDestroy :: "cuhandle \<Rightarrow> shim \<Rightarrow> shim_result \<times> shim \<times> shim_call list" where
  "XEventDestroy event sh =
     (case (if event = 0 then None else g_events sh event) of
        None \<Rightarrow> (FromDriver, sh, [DrvEventDestroy event])
      | Some i \<Rightarrow>
          (CuSuccess, sh\<lparr> g_events := (g_events sh)(event := None),
             event_cmds := (event_cmds sh)(i := (event_cmds sh i)\<lparr> ec_destroy := True \<rparr>) \<rparr>, []))"

text \<open>What the worker of an XQueue does to a command, and what a command that waits for another does before
  it is launched.\<close>

definition record_progress :: "nat \<Rightarrow> int \<Rightarrow> shim \<Rightarrow> shim option" where
  "record_progress i st sh =
     map_option (\<lambda>hc. sh\<lparr> event_cmds := (event_cmds sh)(i := (event_cmds sh i)\<lparr> ec_cmd := hc \<rparr>) \<rparr>)
       (HwCommand_SetState st (ec_cmd (event_cmds sh i)))"

definition EventWait_BeforeLaunch :: "nat \<Rightarrow> shim \<Rightarrow> shim_call" where
  "EventWait_BeforeLaunch i sh = cmd_wait i sh"

section \<open>Streams\<close>

definition XStreamSynchronize :: "cuhandle \<Rightarrow> xhandle option \<Rightarrow> shim_result \<times> shim_call list" where
  "XStreamSynchronize stream xq =
     (case xq of None \<Rightarrow> (FromDriver, [DrvStreamSynchronize stream]) | Some x \<Rightarrow> (CuSuccess, [WaitAllOf x]))"

definition XStreamQuery :: "cuhandle \<Rightarrow> xqueue_state option \<Rightarrow> shim_result \<times> shim_call list" where
  "XStreamQuery stream st =
     (case st of Some kQueueStateIdle \<Rightarrow> (CuSuccess, []) | Some kQueueStateReady \<Rightarrow> (CuNotReady, [])
      | _ \<Rightarrow> (FromDriver, [DrvStreamQuery stream]))"

definition XCtxSynchronize :: "xhandle list \<Rightarrow> shim_result \<times> shim_call list" where
  "XCtxSynchronize xs = (FromDriver, map WaitAllOf xs @ [DrvCtxSynchronize])"

text \<open>A new stream gets its XQueue at once; \<open>resolve\<close> is \<open>ResolveXQueueForStream\<close> for it.\<close>

definition XStreamCreate :: "bool \<Rightarrow> (xsys \<Rightarrow> (xhandle option \<times> xsys) option) \<Rightarrow> xsys \<Rightarrow> xsys option" where
  "XStreamCreate created resolve s = (if created then map_option snd (resolve s) else Some s)"

definition XStreamDestroy ::
  "waiting \<Rightarrow> getenv \<Rightarrow> cuhandle \<Rightarrow> xsys \<Rightarrow> (shim_result \<times> xsys \<times> shim_call list) option" where
  "XStreamDestroy wait env stream s =
     map_option (\<lambda>(_, s'). (FromDriver, s', [DrvStreamDestroy stream])) (XQueueManager_AutoDestroy wait env stream s)"

section \<open>Memory\<close>

text \<open>A managed allocation is registered after the driver made it, and forgotten after the driver freed it.\<close>

definition XMemAllocManaged ::
  "getenv \<Rightarrow> mem_backend option \<Rightarrow> int option \<Rightarrow> int \<Rightarrow> (int \<times> int) option \<Rightarrow> mem \<Rightarrow> mem" where
  "XMemAllocManaged env b ptr bytesize ctx_dev m =
     (case (ptr, ctx_dev) of
        (Some p, Some (ctx, dev)) \<Rightarrow> if p = 0 \<or> ctx = 0 then m else RegisterRegion env b p bytesize ctx dev 0 m
      | _ \<Rightarrow> m)"

definition XMemFree_v2 :: "getenv \<Rightarrow> mem_backend option \<Rightarrow> bool \<Rightarrow> int \<Rightarrow> mem \<Rightarrow> mem" where
  "XMemFree_v2 env b freed ptr m = (if freed then UnregisterRegion env b ptr m else m)"

text \<open>Between the two halves of \<^verbatim>\<open>XMemFree_v2\<close> another thread may get the address again: its region is
  then the one that is forgotten.\<close>

lemma late_unregister_forgets_region:
  assumes "UsableBackend env b" "p \<noteq> 0" "ctx \<noteq> 0" "sz \<noteq> 0"
  shows "map_of (g_regions (XMemAllocManaged env b (Some p) sz (Some (ctx, dev)) m)) p \<noteq> None
    \<and> map_of (g_regions (XMemFree_v2 env b True p (XMemAllocManaged env b (Some p) sz (Some (ctx, dev)) m))) p = None"
  using assms
  by (simp add: XMemAllocManaged_def XMemFree_v2_def RegisterRegion_def UnregisterRegion_def tick_def Let_def
      update_conv' delete_conv')

section \<open>Events over time\<close>

text \<open>No XQueue has the handle 0.\<close>

datatype event_op =
    OpRecord cuhandle cuhandle "int option" "(xhandle \<times> nat option) list" "xhandle option"
  | OpEventDestroy cuhandle
  | OpProgress nat int
    \<comment> \<open>only for a command that an XQueue has\<close>

fun event_exec :: "event_op \<Rightarrow> shim \<Rightarrow> shim option" where
  "event_exec (OpRecord e st flags qs xq) sh =
     (if xq = Some 0 then None else map_option (\<lambda>(_, sh', _). sh') (XEventRecord e st flags qs xq sh))"
| "event_exec (OpEventDestroy e) sh = Some (fst (snd (XEventDestroy e sh)))"
| "event_exec (OpProgress i state) sh =
     (if hc_xqueue_handle (ec_cmd (event_cmds sh i)) = 0 then None else record_progress i state sh)"

fun event_run :: "event_op list \<Rightarrow> shim \<Rightarrow> shim option" where
  "event_run [] sh = Some sh"
| "event_run (a # as) sh = (case event_exec a sh of None \<Rightarrow> None | Some sh' \<Rightarrow> event_run as sh')"

definition event_cmd_ok :: "hwcmd \<Rightarrow> bool" where
  "event_cmd_ok c \<longleftrightarrow> (if hc_xqueue_handle c = 0 then c = HwCommand_new
     else 0 \<le> hc_state c \<and> hc_state c \<le> 3 \<and> (hc_held c \<longleftrightarrow> hc_state c < 3))"

lemma HwCommand_SetState_ok:
  assumes "event_cmd_ok c" "hc_xqueue_handle c \<noteq> 0" "HwCommand_SetState s c = Some c'"
  shows "event_cmd_ok c'"
proof -
  obtain calls where s: "0 \<le> s" "s \<le> 3" "hc_state c \<le> s" "calls = [hc_state c + 1..s]"
    "c' = c\<lparr> hc_state := s, hc_held := (hc_held c \<and> (\<forall>n\<in>set calls. n < 3)) \<rparr>"
    using assms(3) by (auto simp: HwCommand_SetState_def SetState_Some)
  have "(\<forall>n\<in>set calls. n < 3) \<longleftrightarrow> s < 3 \<or> hc_state c = s"
    using s(2-4) by fastforce
  then show ?thesis using assms(1,2) s(1-3,5) by (auto simp: event_cmd_ok_def)
qed

lemma event_exec_ok:
  assumes "\<forall>i. event_cmd_ok (ec_cmd (event_cmds sh i))" "event_exec a sh = Some sh'"
  shows "event_cmd_ok (ec_cmd (event_cmds sh' i))"
proof (cases a)
  case (OpRecord e st flags qs xq)
  define hc where "hc = (case xq of None \<Rightarrow> HwCommand_new
    | Some x \<Rightarrow> (OnSubmit x HwCommand_new)\<lparr> hc_state := kCommandStatePending \<rparr>)"
  have "xq \<noteq> Some 0" using assms(2) OpRecord by (auto split: if_splits)
  then have "event_cmd_ok hc" by (auto simp: hc_def event_cmd_ok_def OnSubmit_def HwCommand_new_def split: option.split)
  moreover have "event_cmds sh' = event_cmds sh \<or> (\<exists>c. event_cmds sh' = (event_cmds sh)(next_cmd sh := c) \<and> ec_cmd c = hc)"
    using assms(2) OpRecord by (auto simp: XEventRecord_def Let_def hc_def split: if_splits option.splits)
  ultimately show ?thesis using assms(1) by auto
next
  case (OpEventDestroy e)
  then show ?thesis using assms by (auto simp: XEventDestroy_def split: option.splits if_splits)
next
  case (OpProgress j state)
  then obtain hc where hc: "hc_xqueue_handle (ec_cmd (event_cmds sh j)) \<noteq> 0"
    "HwCommand_SetState state (ec_cmd (event_cmds sh j)) = Some hc"
    "sh' = sh\<lparr> event_cmds := (event_cmds sh)(j := (event_cmds sh j)\<lparr> ec_cmd := hc \<rparr>) \<rparr>"
    using assms(2) by (auto simp: record_progress_def split: if_splits)
  then show ?thesis using assms(1) HwCommand_SetState_ok [OF _ hc(1,2)] by simp
qed

lemma event_run_ok:
  "\<forall>i. event_cmd_ok (ec_cmd (event_cmds sh i)) \<Longrightarrow> event_run as sh = Some sh'
    \<Longrightarrow> event_cmd_ok (ec_cmd (event_cmds sh' i))"
proof (induction as arbitrary: sh)
  case (Cons a as)
  then obtain sh1 where "event_exec a sh = Some sh1" "event_run as sh1 = Some sh'" by (auto split: option.splits)
  then show ?case using Cons.IH [of sh1] event_exec_ok [OF Cons.prems(1)] by blast
qed simp

text \<open>Whatever is recorded, destroyed and completed, waiting for an event fails no assertion; and for one that
  was last recorded on an XQueue a query succeeds exactly when a wait returns at once.\<close>

theorem event_query_agrees_with_wait:
  assumes "event_run as shim_init = Some sh" "g_events sh e = Some i" "e \<noteq> 0"
  shows "XEventSynchronize e sh \<noteq> (CuSuccess, [WaitCmd i WaitAborts])
    \<and> (hc_xqueue_handle (ec_cmd (event_cmds sh i)) \<noteq> 0 \<longrightarrow>
         (XEventQuery e sh = (CuSuccess, []) \<longleftrightarrow> XEventSynchronize e sh = (CuSuccess, [WaitCmd i WaitReturns])))"
proof -
  have "event_cmd_ok (ec_cmd (event_cmds sh i))"
    by (rule event_run_ok [OF _ assms(1)]) (simp add: shim_init_def event_cmd_ok_def HwCommand_new_def)
  then show ?thesis using assms(2,3)
    by (auto simp: XEventSynchronize_def XEventQuery_def cmd_wait_def HwCommand_Wait_def AsyncXQueue_Wait_def
        event_cmd_ok_def split: if_splits)
qed

text \<open>But a query of an event that was last recorded on a stream without an XQueue never succeeds, while the
  driver has long completed it.\<close>

theorem plain_event_never_ready:
  assumes "event_run as shim_init = Some sh" "g_events sh e = Some i" "e \<noteq> 0"
    "hc_xqueue_handle (ec_cmd (event_cmds sh i)) = 0"
  shows "XEventQuery e sh = (CuNotReady, [])"
proof -
  have "event_cmd_ok (ec_cmd (event_cmds sh i))"
    by (rule event_run_ok [OF _ assms(1)]) (simp add: shim_init_def event_cmd_ok_def HwCommand_new_def)
  then show ?thesis using assms(2-4) by (simp add: XEventQuery_def event_cmd_ok_def HwCommand_new_def)
qed

text \<open>\<^verbatim>\<open>XSCHED_AUTO_XQUEUE=false\<close> stops the creation of XQueues and not their destruction: a stream that
  is destroyed takes the XQueue with it that the program created for it.\<close>

lemma false_disables_creation_only:
  "\<not> AutoXQueueEnabled (\<lambda>_. Some ''false'') \<and> auto_enabled (\<lambda>_. Some ''false'')"
  by code_simp

section \<open>At work\<close>

lemma ex_event_run:
  "\<exists>sh. event_run [OpRecord 5 1 None [] (Some 9), OpRecord 6 2 None [] None, OpProgress 0 2, OpProgress 0 3] shim_init = Some sh
     \<and> g_events sh 5 = Some 0 \<and> g_events sh 6 = Some 1 \<and> hc_xqueue_handle (ec_cmd (event_cmds sh 0)) = 9
     \<and> hc_xqueue_handle (ec_cmd (event_cmds sh 1)) = 0 \<and> hc_state (ec_cmd (event_cmds sh 0)) = 3"
  by (simp add: shim_init_def XEventRecord_def default_stream_waits_def OnSubmit_def HwCommand_new_def
      record_progress_def HwCommand_SetState_def SetState_def Let_def)

theorem event_query_agrees_with_wait_witness:
  "\<exists>sh. hc_xqueue_handle (ec_cmd (event_cmds sh 0)) = 9 \<and> XEventQuery 5 sh = (CuSuccess, [])
     \<and> XEventSynchronize 5 sh = (CuSuccess, [WaitCmd 0 WaitReturns])"
proof -
  obtain sh as where r: "event_run as shim_init = Some sh" "g_events sh 5 = Some 0"
      "hc_xqueue_handle (ec_cmd (event_cmds sh 0)) = 9" "hc_state (ec_cmd (event_cmds sh 0)) = 3"
    using ex_event_run by blast
  have "XEventQuery 5 sh = (CuSuccess, [])" using r by (simp add: XEventQuery_def)
  then show ?thesis using event_query_agrees_with_wait [OF r(1,2)] r(3) by auto
qed

theorem plain_event_never_ready_witness:
  "\<exists>sh i. g_events sh 6 = Some i \<and> XEventQuery 6 sh = (CuNotReady, [])"
proof -
  obtain sh as where r: "event_run as shim_init = Some sh" "g_events sh 6 = Some 1"
      "hc_xqueue_handle (ec_cmd (event_cmds sh 1)) = 0"
    using ex_event_run by blast
  show ?thesis using plain_event_never_ready [OF r(1,2) _ r(3)] r(2) by auto
qed

end
