(* ===== verification/DeferredArgs.thy ===== *)
theory DeferredArgs
  imports Prelude "HOL-Library.Word"
begin

text \<open>
  Kernel arguments of the OpenCL and the Level Zero platform. There a program sets the arguments of a
  kernel object one by one and then submits it; what the kernel runs with are the arguments at that
  time. With an XQueue the kernel is launched later, so setting an argument is deferred until then:
  the OpenCL shim (\<^verbatim>\<open>platforms/opencl/shim/src/shim.cpp\<close>, \<^verbatim>\<open>platforms/opencl/hal/src/ocl_command.cpp\<close>)
  moves what was set since the last submission into the command, the Level Zero platform
  (\<^verbatim>\<open>platforms/levelzero/hal/src/ze_kernel_arg.cpp\<close>) into a queue of the kernel. The contract of
  both is the locale \<open>deferral\<close>: the kernels run with the same arguments as if they had been launched
  at once.
\<close>

section \<open>Launching at once\<close>

text \<open>The actions of the program and of the launch workers. A program sets an argument of a kernel and
  submits a kernel to a queue; the launch worker of a queue launches the next command.\<close>

type_synonym kernel = nat
type_synonym cmdq = nat

datatype 'a act = SetArg kernel 'a | Submit cmdq kernel | Launch cmdq

text \<open>What a device is given: the queue, the kernel and its arguments. \<open>eff\<close> is what the driver makes of
  the arguments of a kernel when one of them is set, \<open>has_xq\<close> tells the queues that have an XQueue.\<close>

type_synonym ('d) run = "cmdq \<times> kernel \<times> 'd"

record 'd eager =
  eg_args :: "kernel \<Rightarrow> 'd"
  eg_queue :: "cmdq \<Rightarrow> (kernel \<times> 'd) list"

text \<open>The reference: a submitted kernel takes its arguments with it.\<close>

fun eager_step :: "('a \<Rightarrow> 'd \<Rightarrow> 'd) \<Rightarrow> (cmdq \<Rightarrow> bool) \<Rightarrow> 'a act \<Rightarrow> 'd eager \<Rightarrow> ('d eager \<times> 'd run list) option" where
  "eager_step eff has_xq (SetArg k a) e = Some (e\<lparr> eg_args := (eg_args e)(k := eff a (eg_args e k)) \<rparr>, [])"
| "eager_step eff has_xq (Submit q k) e =
     (if has_xq q then Some (e\<lparr> eg_queue := (eg_queue e)(q := eg_queue e q @ [(k, eg_args e k)]) \<rparr>, [])
      else Some (e, [(q, k, eg_args e k)]))"
| "eager_step eff has_xq (Launch q) e =
     (case eg_queue e q of [] \<Rightarrow> None
      | (k, d) # cs \<Rightarrow> Some (e\<lparr> eg_queue := (eg_queue e)(q := cs) \<rparr>, [(q, k, d)]))"

fun acts_run :: "('a act \<Rightarrow> 's \<Rightarrow> ('s \<times> 'd run list) option) \<Rightarrow> 'a act list \<Rightarrow> 's \<Rightarrow> ('s \<times> 'd run list) option" where
  "acts_run step [] s = Some (s, [])"
| "acts_run step (a # as) s =
     (case step a s of None \<Rightarrow> None
      | Some (s', rs) \<Rightarrow> map_option (\<lambda>(s'', rs'). (s'', rs @ rs')) (acts_run step as s'))"

definition eager_init :: "(kernel \<Rightarrow> 'd) \<Rightarrow> 'd eager" where
  "eager_init D = \<lparr> eg_args = D, eg_queue = (\<lambda>_. []) \<rparr>"

text \<open>A kernel is submitted to one queue only.\<close>

fun at_home :: "(kernel \<Rightarrow> cmdq) \<Rightarrow> 'a act \<Rightarrow> bool" where
  "at_home home (Submit q k) \<longleftrightarrow> q = home k"
| "at_home home _ \<longleftrightarrow> True"

section \<open>The contract of deferral\<close>

text \<open>The arguments that the waiting commands of a queue will be launched with, when each first makes its
  own changes to the driver's arguments of its kernel.\<close>

fun snaps :: "(kernel \<Rightarrow> 'd) \<Rightarrow> (kernel \<times> ('d \<Rightarrow> 'd)) list \<Rightarrow> (kernel \<times> 'd) list" where
  "snaps D [] = []"
| "snaps D ((k, f) # cs) = (k, f (D k)) # snaps (D(k := f (D k))) cs"

fun args_after :: "(kernel \<Rightarrow> 'd) \<Rightarrow> (kernel \<times> ('d \<Rightarrow> 'd)) list \<Rightarrow> kernel \<Rightarrow> 'd" where
  "args_after D [] = D"
| "args_after D ((k, f) # cs) = args_after (D(k := f (D k))) cs"

lemma snaps_append: "snaps D (cs @ ds) = snaps D cs @ snaps (args_after D cs) ds"
  by (induction cs arbitrary: D) auto

lemma args_after_append: "args_after D (cs @ ds) = args_after (args_after D cs) ds"
  by (induction cs arbitrary: D) auto

lemma snaps_cong: "(\<And>c. c \<in> set cs \<Longrightarrow> D (fst c) = D' (fst c)) \<Longrightarrow> snaps D cs = snaps D' cs"
proof (induction cs arbitrary: D D')
  case (Cons c cs)
  have "snaps (D(fst c := d)) cs = snaps (D'(fst c := d)) cs" for d
    by (rule Cons.IH) (use Cons.prems in auto)
  moreover have "D (fst c) = D' (fst c)" using Cons.prems by simp
  ultimately show ?case by (cases c) simp
qed simp

lemma args_after_cong:
  "(\<And>c. c \<in> set cs \<Longrightarrow> D (fst c) = D' (fst c)) \<Longrightarrow> D k = D' k \<Longrightarrow> args_after D cs k = args_after D' cs k"
proof (induction cs arbitrary: D D')
  case (Cons c cs)
  have "args_after (D(fst c := d)) cs k = args_after (D'(fst c := d)) cs k" for d
    by (rule Cons.IH) (use Cons.prems in auto)
  moreover have "D (fst c) = D' (fst c)" using Cons.prems by simp
  ultimately show ?case by (cases c) simp
qed simp

text \<open>What a platform promises: \<open>opened\<close> is the change that was made to the arguments of a kernel since it
  was submitted last, \<open>waits\<close> the change that every waiting command will make, \<open>driver\<close> the arguments
  as the driver has them. A kernel that is not at its home queue may break the promise.\<close>

locale deferral =
  fixes step :: "'a act \<Rightarrow> 's \<Rightarrow> ('s \<times> 'd run list) option"
    and eff :: "'a \<Rightarrow> 'd \<Rightarrow> 'd"
    and has_xq :: "cmdq \<Rightarrow> bool"
    and inv :: "(kernel \<Rightarrow> cmdq) \<Rightarrow> 's \<Rightarrow> bool"
    and opened :: "'s \<Rightarrow> kernel \<Rightarrow> 'd \<Rightarrow> 'd"
    and waits :: "'s \<Rightarrow> cmdq \<Rightarrow> (kernel \<times> ('d \<Rightarrow> 'd)) list"
    and driver :: "'s \<Rightarrow> kernel \<Rightarrow> 'd"
  assumes waits_home: "inv home s \<Longrightarrow> (k, f) \<in> set (waits s q) \<Longrightarrow> q = home k \<and> has_xq q"
    and set_arg: "inv home s \<Longrightarrow> \<exists>s'. step (SetArg k a) s = Some (s', []) \<and> inv home s'
      \<and> opened s' = (opened s)(k := eff a \<circ> opened s k) \<and> waits s' = waits s \<and> driver s' = driver s"
    and submit: "inv home s \<Longrightarrow> home k = q \<Longrightarrow> has_xq q \<Longrightarrow>
      \<exists>s'. step (Submit q k) s = Some (s', []) \<and> inv home s' \<and> opened s' = (opened s)(k := id)
      \<and> waits s' = (waits s)(q := waits s q @ [(k, opened s k)]) \<and> driver s' = driver s"
    and submit_direct: "inv home s \<Longrightarrow> home k = q \<Longrightarrow> \<not> has_xq q \<Longrightarrow>
      \<exists>s'. step (Submit q k) s = Some (s', [(q, k, opened s k (driver s k))]) \<and> inv home s'
      \<and> opened s' = (opened s)(k := id) \<and> waits s' = waits s
      \<and> driver s' = (driver s)(k := opened s k (driver s k))"
    and launch: "inv home s \<Longrightarrow> waits s q = (k, f) # cs \<Longrightarrow>
      \<exists>s'. step (Launch q) s = Some (s', [(q, k, f (driver s k))]) \<and> inv home s' \<and> opened s' = opened s
      \<and> waits s' = (waits s)(q := cs) \<and> driver s' = (driver s)(k := f (driver s k))"
    and no_launch: "inv home s \<Longrightarrow> waits s q = [] \<Longrightarrow> step (Launch q) s = None"
begin

text \<open>The state of the reference that corresponds to a state of the platform.\<close>

definition eager_of :: "(kernel \<Rightarrow> cmdq) \<Rightarrow> 's \<Rightarrow> 'd eager" where
  "eager_of home s = \<lparr> eg_args = (\<lambda>k. opened s k (args_after (driver s) (waits s (home k)) k)),
     eg_queue = (\<lambda>q. snaps (driver s) (waits s q)) \<rparr>"

lemma not_waiting_elsewhere: "inv home s \<Longrightarrow> q \<noteq> home k \<Longrightarrow> c \<in> set (waits s q) \<Longrightarrow> fst c \<noteq> k"
  using waits_home [of home s "fst c" "snd c" q] by auto

lemma snaps_other_queue:
  "inv home s \<Longrightarrow> q \<noteq> home k \<Longrightarrow> snaps ((driver s)(k := d)) (waits s q) = snaps (driver s) (waits s q)"
  by (rule snaps_cong) (auto dest: not_waiting_elsewhere)

lemma args_after_other_kernel:
  assumes "inv home s" "home j \<noteq> home k"
  shows "args_after ((driver s)(k := d)) (waits s (home j)) j = args_after (driver s) (waits s (home j)) j"
  by (rule args_after_cong) (use assms(2) in \<open>auto dest: not_waiting_elsewhere [OF assms(1)]\<close>)

lemma step_eager:
  assumes "inv home s" "at_home home a"
  shows "case step a s of None \<Rightarrow> eager_step eff has_xq a (eager_of home s) = None
    | Some (s', rs) \<Rightarrow> inv home s' \<and> eager_step eff has_xq a (eager_of home s) = Some (eager_of home s', rs)"
proof (cases a)
  case (SetArg k x)
  obtain s' where "step (SetArg k x) s = Some (s', [])" "inv home s'"
    "opened s' = (opened s)(k := eff x \<circ> opened s k)" "waits s' = waits s" "driver s' = driver s"
    using set_arg [OF assms(1), of k x] by blast
  then show ?thesis by (auto simp: SetArg eager_of_def intro!: ext)
next
  case (Submit q k)
  then have q: "home k = q" using assms(2) by simp
  show ?thesis
  proof (cases "has_xq q")
    case True
    obtain s' where "step (Submit q k) s = Some (s', [])" "inv home s'" "opened s' = (opened s)(k := id)"
      "waits s' = (waits s)(q := waits s q @ [(k, opened s k)])" "driver s' = driver s"
      using submit [OF assms(1) q True] by blast
    then show ?thesis
      using q True by (auto simp: Submit eager_of_def snaps_append args_after_append intro!: ext)
  next
    case False
    have empty: "waits s q = []"
    proof (rule ccontr)
      assume "waits s q \<noteq> []"
      then obtain j f cs where "waits s q = (j, f) # cs" by (metis neq_Nil_conv surj_pair)
      then show False using waits_home [OF assms(1), of j f q] False by simp
    qed
    obtain s' where s': "step (Submit q k) s = Some (s', [(q, k, opened s k (driver s k))])" "inv home s'"
      "opened s' = (opened s)(k := id)" "waits s' = waits s"
      "driver s' = (driver s)(k := opened s k (driver s k))"
      using submit_direct [OF assms(1) q False] by blast
    have "snaps (driver s') (waits s' p) = snaps (driver s) (waits s p)" for p
      using s' snaps_other_queue [OF assms(1), of p k] q empty by (cases "p = q") auto
    moreover have "args_after (driver s') (waits s' (home j)) j = args_after (driver s) (waits s (home j)) j" if "j \<noteq> k" for j
      using s' args_after_other_kernel [OF assms(1), of j k] that q empty by (cases "home j = q") auto
    ultimately show ?thesis
      using s' q False empty by (auto simp: Submit eager_of_def intro!: ext)
  qed
next
  case (Launch q)
  show ?thesis
  proof (cases "waits s q")
    case Nil
    then show ?thesis using no_launch [OF assms(1) Nil] by (simp add: Launch eager_of_def)
  next
    case (Cons c cs)
    obtain k f where c: "waits s q = (k, f) # cs" using Cons by (cases c) auto
    obtain s' where s': "step (Launch q) s = Some (s', [(q, k, f (driver s k))])" "inv home s'"
      "opened s' = opened s" "waits s' = (waits s)(q := cs)" "driver s' = (driver s)(k := f (driver s k))"
      using launch [OF assms(1) c] by blast
    have k: "q = home k" using waits_home [OF assms(1), of k f q] c by simp
    have "snaps (driver s') (waits s' p) = (if p = q then snaps (driver s') cs else snaps (driver s) (waits s p))" for p
      using s' snaps_other_queue [OF assms(1), of p k] k by simp
    moreover have "args_after (driver s') (waits s' (home j)) j = args_after (driver s) (waits s (home j)) j" for j
      using s' c args_after_other_kernel [OF assms(1), of j k "f (driver s k)"] k by (cases "home j = q") auto
    ultimately show ?thesis
      using s' c by (auto simp: Launch eager_of_def intro!: ext)
  qed
qed

text \<open>The kernels run with the arguments they were submitted with.\<close>

lemma runs_eager:
  assumes "inv home s" "list_all (at_home home) as"
  shows "map_option snd (acts_run step as s) = map_option snd (acts_run (eager_step eff has_xq) as (eager_of home s))"
  using assms
proof (induction as arbitrary: s)
  case (Cons a as)
  have 1: "case step a s of None \<Rightarrow> eager_step eff has_xq a (eager_of home s) = None
    | Some (s', rs) \<Rightarrow> inv home s' \<and> eager_step eff has_xq a (eager_of home s) = Some (eager_of home s', rs)"
    using step_eager [OF Cons.prems(1)] Cons.prems(2) by simp
  show ?case
  proof (cases "step a s")
    case (Some p)
    obtain s' rs where p: "step a s = Some (s', rs)" using Some by (cases p) auto
    then have e: "inv home s'" "eager_step eff has_xq a (eager_of home s) = Some (eager_of home s', rs)" using 1 by simp_all
    have "map_option snd (acts_run step as s') =
        map_option snd (acts_run (eager_step eff has_xq) as (eager_of home s'))"
      using Cons.IH [OF e(1)] Cons.prems(2) by simp
    then show ?thesis
      by (cases "acts_run step as s'"; cases "acts_run (eager_step eff has_xq) as (eager_of home s')") (auto simp: p e(2))
  qed (use 1 in simp)
qed simp

end

fun listed :: "'a list option \<Rightarrow> 'a list" where
  "listed None = []"
| "listed (Some xs) = xs"

section \<open>OpenCL\<close>

datatype KernelArgumentType = kArgOpenCL | kArgSVMPointer | kArgMemPointerINTEL

text \<open>A value is the program's pointer, or a copy of the bytes it points to.\<close>

datatype arg_value = Pointer nat | Copy "8 word list"

record kernel_argument =
  ka_type :: KernelArgumentType
  ka_index :: "32 word"
  ka_size :: nat
  ka_value :: arg_value

text \<open>What the program passes, with the bytes at \<open>val\<close> at that time.\<close>

datatype ocl_set = OclSet KernelArgumentType "32 word" nat nat "8 word list"

fun KernelArgument :: "ocl_set \<Rightarrow> kernel_argument" where
  "KernelArgument (OclSet t idx sz val bytes) =
     \<lparr> ka_type = t, ka_index = idx, ka_size = sz,
       ka_value = (if sz = 0 \<or> val = 0 then Pointer val else Copy (take sz bytes)) \<rparr>"

datatype ocl_call =
    DrvSetKernelArg "32 word" nat arg_value
  | DrvSetKernelArgSVMPointer "32 word" arg_value
  | DrvSetKernelArgMemPointerINTEL "32 word" arg_value

definition KernelArgument_Set :: "kernel_argument \<Rightarrow> ocl_call" where
  "KernelArgument_Set a =
     (case ka_type a of
        kArgOpenCL \<Rightarrow> DrvSetKernelArg (ka_index a) (ka_size a) (ka_value a)
      | kArgSVMPointer \<Rightarrow> DrvSetKernelArgSVMPointer (ka_index a) (ka_value a)
      | kArgMemPointerINTEL \<Rightarrow> DrvSetKernelArgMemPointerINTEL (ka_index a) (ka_value a))"

text \<open>The arguments set since the last submission of each kernel, the commands that wait in the XQueue of
  a queue, and the arguments as the driver has them.\<close>

record 'd ocl =
  g_args :: "kernel \<Rightarrow> kernel_argument list option"
  ocl_cmds :: "cmdq \<Rightarrow> (kernel \<times> kernel_argument list option) list"
  ocl_driver :: "kernel \<Rightarrow> 'd"

definition SetKernelArg :: "kernel \<Rightarrow> ocl_set \<Rightarrow> 'd ocl \<Rightarrow> 'd ocl" where
  "SetKernelArg k x s =
     s\<lparr> g_args := (g_args s)(k \<mapsto> listed (g_args s k) @ [KernelArgument x]) \<rparr>"

definition XSetKernelArg :: "kernel \<Rightarrow> 32 word \<Rightarrow> nat \<Rightarrow> nat \<Rightarrow> 8 word list \<Rightarrow> 'd ocl \<Rightarrow> 'd ocl" where
  "XSetKernelArg k idx sz val bytes = SetKernelArg k (OclSet kArgOpenCL idx sz val bytes)"

definition XSetKernelArgSVMPointer :: "kernel \<Rightarrow> 32 word \<Rightarrow> nat \<Rightarrow> 'd ocl \<Rightarrow> 'd ocl" where
  "XSetKernelArgSVMPointer k idx val = SetKernelArg k (OclSet kArgSVMPointer idx 0 val [])"

definition XSetKernelArgMemPointerINTEL :: "kernel \<Rightarrow> 32 word \<Rightarrow> nat \<Rightarrow> 'd ocl \<Rightarrow> 'd ocl" where
  "XSetKernelArgMemPointerINTEL k idx val = SetKernelArg k (OclSet kArgMemPointerINTEL idx 0 val [])"

text \<open>\<open>drv\<close> is what a call makes of the arguments that the driver has for the kernel.\<close>

definition set_all_args :: "(ocl_call \<Rightarrow> 'd \<Rightarrow> 'd) \<Rightarrow> kernel_argument list option \<Rightarrow> 'd \<Rightarrow> 'd" where
  "set_all_args drv args = fold (\<lambda>a. drv (KernelArgument_Set a)) (listed args)"

fun OclKernelCommand_Launch ::
  "(ocl_call \<Rightarrow> 'd \<Rightarrow> 'd) \<Rightarrow> cmdq \<Rightarrow> kernel \<times> kernel_argument list option \<Rightarrow> 'd ocl \<Rightarrow> 'd ocl \<times> 'd run list" where
  "OclKernelCommand_Launch drv q (k, args) s =
     (let d = set_all_args drv args (ocl_driver s k) in (s\<lparr> ocl_driver := (ocl_driver s)(k := d) \<rparr>, [(q, k, d)]))"

definition XEnqueueNDRangeKernel ::
  "(ocl_call \<Rightarrow> 'd \<Rightarrow> 'd) \<Rightarrow> (cmdq \<Rightarrow> bool) \<Rightarrow> cmdq \<Rightarrow> kernel \<Rightarrow> 'd ocl \<Rightarrow> 'd ocl \<times> 'd run list" where
  "XEnqueueNDRangeKernel drv has_xq q k s =
     (let cmd = (k, g_args s k); s1 = s\<lparr> g_args := (g_args s)(k := None) \<rparr> in
      if \<not> has_xq q then OclKernelCommand_Launch drv q cmd s1
      else (s1\<lparr> ocl_cmds := (ocl_cmds s1)(q := ocl_cmds s1 q @ [cmd]) \<rparr>, []))"

fun ocl_step :: "(ocl_call \<Rightarrow> 'd \<Rightarrow> 'd) \<Rightarrow> (cmdq \<Rightarrow> bool) \<Rightarrow> ocl_set act \<Rightarrow> 'd ocl \<Rightarrow> ('d ocl \<times> 'd run list) option" where
  "ocl_step drv has_xq (SetArg k x) s = Some (SetKernelArg k x s, [])"
| "ocl_step drv has_xq (Submit q k) s = Some (XEnqueueNDRangeKernel drv has_xq q k s)"
| "ocl_step drv has_xq (Launch q) s =
     (case ocl_cmds s q of [] \<Rightarrow> None
      | cmd # cs \<Rightarrow> Some (OclKernelCommand_Launch drv q cmd (s\<lparr> ocl_cmds := (ocl_cmds s)(q := cs) \<rparr>)))"

definition ocl_init :: "(kernel \<Rightarrow> 'd) \<Rightarrow> 'd ocl" where
  "ocl_init D = \<lparr> g_args = (\<lambda>_. None), ocl_cmds = (\<lambda>_. []), ocl_driver = D \<rparr>"

definition ocl_eff :: "(ocl_call \<Rightarrow> 'd \<Rightarrow> 'd) \<Rightarrow> ocl_set \<Rightarrow> 'd \<Rightarrow> 'd" where
  "ocl_eff drv x = drv (KernelArgument_Set (KernelArgument x))"

definition ocl_opened :: "(ocl_call \<Rightarrow> 'd \<Rightarrow> 'd) \<Rightarrow> 'd ocl \<Rightarrow> kernel \<Rightarrow> 'd \<Rightarrow> 'd" where
  "ocl_opened drv s k = set_all_args drv (g_args s k)"

definition ocl_waits :: "(ocl_call \<Rightarrow> 'd \<Rightarrow> 'd) \<Rightarrow> 'd ocl \<Rightarrow> cmdq \<Rightarrow> (kernel \<times> ('d \<Rightarrow> 'd)) list" where
  "ocl_waits drv s q = map (\<lambda>(k, args). (k, set_all_args drv args)) (ocl_cmds s q)"

definition ocl_inv :: "(cmdq \<Rightarrow> bool) \<Rightarrow> (kernel \<Rightarrow> cmdq) \<Rightarrow> 'd ocl \<Rightarrow> bool" where
  "ocl_inv has_xq home s \<longleftrightarrow> (\<forall>q. \<forall>c \<in> set (ocl_cmds s q). q = home (fst c) \<and> has_xq q)"

lemma set_all_args_None [simp]: "set_all_args drv None = id"
  by (simp add: set_all_args_def)

lemma set_all_args_snoc:
  "set_all_args drv (Some (listed args @ [a])) = drv (KernelArgument_Set a) \<circ> set_all_args drv args"
  by (simp add: set_all_args_def)

lemmas ocl_defs = ocl_opened_def ocl_waits_def ocl_inv_def SetKernelArg_def XEnqueueNDRangeKernel_def ocl_eff_def Let_def

interpretation ocl_args: deferral "ocl_step drv has_xq" "ocl_eff drv" has_xq "ocl_inv has_xq" "ocl_opened drv"
  "ocl_waits drv" ocl_driver for drv has_xq
proof
  fix home s q k f cs
  assume "ocl_inv has_xq home s" "ocl_waits drv s q = (k, f) # cs"
  then obtain args rest where "ocl_cmds s q = (k, args) # rest" "f = set_all_args drv args"
    "cs = map (\<lambda>(k, args). (k, set_all_args drv args)) rest"
    by (auto simp: ocl_waits_def map_eq_Cons_conv)
  then show "\<exists>s'. ocl_step drv has_xq (Launch q) s = Some (s', [(q, k, f (ocl_driver s k))]) \<and> ocl_inv has_xq home s'
      \<and> ocl_opened drv s' = ocl_opened drv s \<and> ocl_waits drv s' = (ocl_waits drv s)(q := cs)
      \<and> ocl_driver s' = (ocl_driver s)(k := f (ocl_driver s k))"
    using \<open>ocl_inv has_xq home s\<close> by (fastforce simp: ocl_defs fun_eq_iff)
next
  fix home s k f q
  assume "ocl_inv has_xq home s" "(k, f) \<in> set (ocl_waits drv s q)"
  then show "q = home k \<and> has_xq q" by (fastforce simp: ocl_waits_def ocl_inv_def)
qed (auto simp: ocl_defs fun_eq_iff set_all_args_snoc split: if_splits)

section \<open>Level Zero\<close>

datatype ZeKernelArgType = kGroupSize | kArgumentValue | kIndirectAccessFlags | kCacheConfigFlags | kGlobalOffset

text \<open>The value of an argument is copied, unless the program passes a null pointer.\<close>

datatype ze_arg =
    ZeKernelGroupSize "32 word" "32 word" "32 word"
  | ZeKernelArgumentValue "32 word" nat "8 word list option"
  | ZeKernelIndirectAccessFlags "32 word"
  | ZeKernelCacheConfigFlags "32 word"
  | ZeKernelGlobalOffset "32 word" "32 word" "32 word"

fun ze_type :: "ze_arg \<Rightarrow> ZeKernelArgType" where
  "ze_type (ZeKernelGroupSize _ _ _) = kGroupSize"
| "ze_type (ZeKernelArgumentValue _ _ _) = kArgumentValue"
| "ze_type (ZeKernelIndirectAccessFlags _) = kIndirectAccessFlags"
| "ze_type (ZeKernelCacheConfigFlags _) = kCacheConfigFlags"
| "ze_type (ZeKernelGlobalOffset _ _ _) = kGlobalOffset"

text \<open>The manager of kernel arguments: for each type of argument what was set of each kernel since it was
  submitted last (one map of the code for each type), and for each kernel the arguments of its
  submissions that were not launched.\<close>

type_synonym frozen_args = "ZeKernelArgType \<Rightarrow> ze_arg list option"

record 'd ze =
  ze_added :: "ZeKernelArgType \<Rightarrow> kernel \<Rightarrow> ze_arg list option"
  frozen_args :: "kernel \<Rightarrow> frozen_args list option"
  ze_cmds :: "cmdq \<Rightarrow> kernel list"
  ze_driver :: "kernel \<Rightarrow> ZeKernelArgType \<Rightarrow> 'd"

definition add_arg :: "kernel \<Rightarrow> ze_arg \<Rightarrow> 'd ze \<Rightarrow> 'd ze" where
  "add_arg k a s =
     (let m = ze_added s (ze_type a); m1 = (if m k = None then m(k \<mapsto> []) else m) in
      s\<lparr> ze_added := (ze_added s)(ze_type a := m1(k \<mapsto> the (m1 k) @ [a])) \<rparr>)"

definition AddGroupSize :: "kernel \<Rightarrow> 32 word \<Rightarrow> 32 word \<Rightarrow> 32 word \<Rightarrow> 'd ze \<Rightarrow> 'd ze" where
  "AddGroupSize k x y z = add_arg k (ZeKernelGroupSize x y z)"

definition AddArgumentValue :: "kernel \<Rightarrow> 32 word \<Rightarrow> nat \<Rightarrow> 8 word list option \<Rightarrow> 'd ze \<Rightarrow> 'd ze" where
  "AddArgumentValue k idx sz val = add_arg k (ZeKernelArgumentValue idx sz val)"

definition AddIndirectAccess :: "kernel \<Rightarrow> 32 word \<Rightarrow> 'd ze \<Rightarrow> 'd ze" where
  "AddIndirectAccess k fl = add_arg k (ZeKernelIndirectAccessFlags fl)"

definition AddCacheConfig :: "kernel \<Rightarrow> 32 word \<Rightarrow> 'd ze \<Rightarrow> 'd ze" where
  "AddCacheConfig k fl = add_arg k (ZeKernelCacheConfigFlags fl)"

definition AddGlobalOffsetExp :: "kernel \<Rightarrow> 32 word \<Rightarrow> 32 word \<Rightarrow> 32 word \<Rightarrow> 'd ze \<Rightarrow> 'd ze" where
  "AddGlobalOffsetExp k x y z = add_arg k (ZeKernelGlobalOffset x y z)"

definition Freeze :: "kernel \<Rightarrow> 'd ze \<Rightarrow> 'd ze" where
  "Freeze k s =
     s\<lparr> ze_added := (\<lambda>ty. (ze_added s ty)(k := None)),
        frozen_args := (frozen_args s)(k \<mapsto>
          listed (frozen_args s k) @ [\<lambda>ty. ze_added s ty k]) \<rparr>"

text \<open>What the driver has for a kernel is kept by the type of argument: the calls for arguments of one type
  do not change those of another. \<open>drv\<close> is what a call makes of those of its own type.\<close>

definition ze_eff :: "(ze_arg \<Rightarrow> 'd \<Rightarrow> 'd) \<Rightarrow> ze_arg \<Rightarrow> (ZeKernelArgType \<Rightarrow> 'd) \<Rightarrow> ZeKernelArgType \<Rightarrow> 'd" where
  "ze_eff drv a d = d(ze_type a := drv a (d (ze_type a)))"

definition args_in_order :: "frozen_args \<Rightarrow> ze_arg list" where
  "args_in_order fa = concat (map (\<lambda>ty. listed (fa ty))
     [kGroupSize, kArgumentValue, kIndirectAccessFlags, kCacheConfigFlags, kGlobalOffset])"

definition KernelArgsManager_Set :: "(ze_arg \<Rightarrow> 'd \<Rightarrow> 'd) \<Rightarrow> kernel \<Rightarrow> 'd ze \<Rightarrow> 'd ze" where
  "KernelArgsManager_Set drv k s =
     (case frozen_args s k of None \<Rightarrow> s
      | Some fs \<Rightarrow>
          s\<lparr> ze_driver := (ze_driver s)(k := fold (ze_eff drv) (args_in_order (hd fs)) (ze_driver s k)),
             frozen_args := (frozen_args s)(k := (if tl fs = [] then None else Some (tl fs))) \<rparr>)"

text \<open>\<^verbatim>\<open>ZeKernelCommand::Launch\<close>, and the same two calls without an XQueue.\<close>

definition set_and_launch :: "(ze_arg \<Rightarrow> 'd \<Rightarrow> 'd) \<Rightarrow> cmdq \<Rightarrow> kernel \<Rightarrow> 'd ze \<Rightarrow> 'd ze \<times> (ZeKernelArgType \<Rightarrow> 'd) run list" where
  "set_and_launch drv l k s = (let s1 = KernelArgsManager_Set drv k s in (s1, [(l, k, ze_driver s1 k)]))"

definition XCommandListAppendLaunchKernel ::
  "(ze_arg \<Rightarrow> 'd \<Rightarrow> 'd) \<Rightarrow> (cmdq \<Rightarrow> bool) \<Rightarrow> (cmdq \<Rightarrow> bool) \<Rightarrow> cmdq \<Rightarrow> kernel \<Rightarrow> 'd ze
    \<Rightarrow> 'd ze \<times> (ZeKernelArgType \<Rightarrow> 'd) run list" where
  "XCommandListAppendLaunchKernel drv immediate xq l k s =
     (let s1 = Freeze k s in
      if immediate l then
        if \<not> xq l then set_and_launch drv l k s1
        else (s1\<lparr> ze_cmds := (ze_cmds s1)(l := ze_cmds s1 l @ [k]) \<rparr>, [])
      else set_and_launch drv l k s1)"

fun ze_step ::
  "(ze_arg \<Rightarrow> 'd \<Rightarrow> 'd) \<Rightarrow> (cmdq \<Rightarrow> bool) \<Rightarrow> (cmdq \<Rightarrow> bool) \<Rightarrow> ze_arg act \<Rightarrow> 'd ze
    \<Rightarrow> ('d ze \<times> (ZeKernelArgType \<Rightarrow> 'd) run list) option" where
  "ze_step drv immediate xq (SetArg k a) s = Some (add_arg k a s, [])"
| "ze_step drv immediate xq (Submit l k) s = Some (XCommandListAppendLaunchKernel drv immediate xq l k s)"
| "ze_step drv immediate xq (Launch l) s =
     (case ze_cmds s l of [] \<Rightarrow> None
      | k # ks \<Rightarrow> Some (set_and_launch drv l k (s\<lparr> ze_cmds := (ze_cmds s)(l := ks) \<rparr>)))"

definition ze_init :: "(kernel \<Rightarrow> ZeKernelArgType \<Rightarrow> 'd) \<Rightarrow> 'd ze" where
  "ze_init D = \<lparr> ze_added = (\<lambda>_ _. None), frozen_args = (\<lambda>_. None), ze_cmds = (\<lambda>_. []), ze_driver = D \<rparr>"

definition ze_opened :: "(ze_arg \<Rightarrow> 'd \<Rightarrow> 'd) \<Rightarrow> 'd ze \<Rightarrow> kernel \<Rightarrow> (ZeKernelArgType \<Rightarrow> 'd) \<Rightarrow> ZeKernelArgType \<Rightarrow> 'd" where
  "ze_opened drv s k = fold (ze_eff drv) (args_in_order (\<lambda>ty. ze_added s ty k))"

text \<open>The commands of an immediate list that wait, each with the arguments that it will find in front of
  the queue of its kernel: those are taken from \<open>frozen\<close> as it is now.\<close>

fun ze_waiting ::
  "(ze_arg \<Rightarrow> 'd \<Rightarrow> 'd) \<Rightarrow> (kernel \<Rightarrow> frozen_args list) \<Rightarrow> kernel list
    \<Rightarrow> (kernel \<times> ((ZeKernelArgType \<Rightarrow> 'd) \<Rightarrow> ZeKernelArgType \<Rightarrow> 'd)) list" where
  "ze_waiting drv fr [] = []"
| "ze_waiting drv fr (k # ks) =
     (k, fold (ze_eff drv) (args_in_order (hd (fr k)))) # ze_waiting drv (fr(k := tl (fr k))) ks"

definition frozen :: "'d ze \<Rightarrow> kernel \<Rightarrow> frozen_args list" where
  "frozen s k = listed (frozen_args s k)"

definition ze_waits where
  "ze_waits drv s l = ze_waiting drv (frozen s) (ze_cmds s l)"

text \<open>Every list of arguments holds those of its type; a kernel waits at its home list only, as often as it
  has frozen arguments; no queue of frozen arguments is empty.\<close>

definition typed :: "frozen_args \<Rightarrow> bool" where
  "typed fa \<longleftrightarrow> (\<forall>ty as. fa ty = Some as \<longrightarrow> (\<forall>a \<in> set as. ze_type a = ty))"

definition ze_inv :: "(cmdq \<Rightarrow> bool) \<Rightarrow> (kernel \<Rightarrow> cmdq) \<Rightarrow> 'd ze \<Rightarrow> bool" where
  "ze_inv has_xq home s \<longleftrightarrow>
     (\<forall>k. typed (\<lambda>ty. ze_added s ty k)) \<and> (\<forall>k. frozen_args s k \<noteq> Some [])
     \<and> (\<forall>l k. k \<in> set (ze_cmds s l) \<longrightarrow> l = home k \<and> has_xq l)
     \<and> (\<forall>k. length (frozen s k) = count_list (ze_cmds s (home k)) k)"

text \<open>The arguments of one type, in the order in which the program set them, have their effect whatever is
  set between them.\<close>

lemma ze_eff_apply: "ze_eff drv a d ty = (if ty = ze_type a then drv a (d ty) else d ty)"
  by (simp add: ze_eff_def)

lemma fold_ze_eff: "fold (ze_eff drv) as d ty = fold drv (filter (\<lambda>a. ze_type a = ty) as) (d ty)"
  by (induction as arbitrary: d) (auto simp: ze_eff_def)

lemma filter_typed:
  assumes "typed fa"
  shows "filter (\<lambda>a. ze_type a = ty) (args_in_order fa) = listed (fa ty)"
proof -
  have t: "a \<in> set as \<Longrightarrow> ze_type a = ty'" if "fa ty' = Some as" for ty' as a
    using assms that by (auto simp: typed_def)
  have "filter (\<lambda>a. ze_type a = ty) (listed (fa ty'))
      = (if ty' = ty then listed (fa ty) else [])" for ty'
    using t [of ty'] by (cases "fa ty'") (auto simp: filter_empty_conv filter_id_conv)
  then show ?thesis by (cases ty) (simp_all add: args_in_order_def)
qed

lemma opened_typed:
  "typed fa \<Longrightarrow> fold (ze_eff drv) (args_in_order fa) d ty = fold drv (listed (fa ty)) (d ty)"
  by (simp add: fold_ze_eff filter_typed)

lemma typed_upd: "typed fa \<Longrightarrow> (\<And>x. x \<in> set xs \<Longrightarrow> ze_type x = t) \<Longrightarrow> typed (fa(t \<mapsto> xs))"
  unfolding typed_def by (simp split: if_split)

lemma add_arg_opened:
  assumes "typed (\<lambda>ty. ze_added s ty k)"
  shows "ze_opened drv (add_arg k a s) k = ze_eff drv a \<circ> ze_opened drv s k"
    and "typed (\<lambda>ty. ze_added (add_arg k a s) ty k)"
proof -
  have ty: "(\<lambda>ty. ze_added (add_arg k a s) ty k) =
      (\<lambda>ty. ze_added s ty k)(ze_type a \<mapsto> listed (ze_added s (ze_type a) k) @ [a])"
    by (auto simp: add_arg_def Let_def fun_eq_iff split: option.splits)
  have old: "x \<in> set (listed (ze_added s (ze_type a) k)) \<Longrightarrow> ze_type x = ze_type a" for x
    using assms by (cases "ze_added s (ze_type a) k") (auto simp: typed_def)
  show t: "typed (\<lambda>ty. ze_added (add_arg k a s) ty k)"
    unfolding ty by (rule typed_upd [OF assms]) (use old in auto)
  have new: "listed (ze_added (add_arg k a s) ty k) =
      listed (ze_added s ty k) @ (if ty = ze_type a then [a] else [])" for ty
    using fun_cong [OF ty, of ty] by simp
  have "ze_opened drv (add_arg k a s) k d ty = ze_eff drv a (ze_opened drv s k d) ty" for d ty
    unfolding ze_opened_def opened_typed [OF t] new
    by (simp add: ze_eff_apply opened_typed [OF assms])
  then show "ze_opened drv (add_arg k a s) k = ze_eff drv a \<circ> ze_opened drv s k"
    by (simp add: fun_eq_iff)
qed

lemma ze_waiting_cong:
  "(\<And>k. k \<in> set ks \<Longrightarrow> fr k = fr' k) \<Longrightarrow> ze_waiting drv fr ks = ze_waiting drv fr' ks"
proof (induction ks arbitrary: fr fr')
  case (Cons j ks)
  have "ze_waiting drv (fr(j := tl (fr' j))) ks = ze_waiting drv (fr'(j := tl (fr' j))) ks"
    by (rule Cons.IH) (use Cons.prems in auto)
  moreover have "fr j = fr' j" using Cons.prems by simp
  ultimately show ?case by simp
qed simp

lemma ze_waiting_snoc:
  assumes "length (fr k) = count_list ks k"
  shows "ze_waiting drv (fr(k := fr k @ [fa])) (ks @ [k]) =
    ze_waiting drv fr ks @ [(k, fold (ze_eff drv) (args_in_order fa))]"
  using assms
proof (induction ks arbitrary: fr)
  case (Cons j ks)
  have IH: "ze_waiting drv (fr'(k := fr' k @ [fa])) (ks @ [k]) =
      ze_waiting drv fr' ks @ [(k, fold (ze_eff drv) (args_in_order fa))]"
    if "length (fr' k) = count_list ks k" for fr'
    using that by (rule Cons.IH)
  show ?case
  proof (cases "j = k")
    case True
    then obtain f fs where f: "fr k = f # fs" using Cons.prems by (cases "fr k") auto
    have "ze_waiting drv (fr(k := fs @ [fa])) (ks @ [k]) =
        ze_waiting drv (fr(k := fs)) ks @ [(k, fold (ze_eff drv) (args_in_order fa))]"
      using IH [of "fr(k := fs)"] Cons.prems True f unfolding fun_upd_same fun_upd_upd by simp
    then show ?thesis by (simp only: True f append_Cons ze_waiting.simps fun_upd_same fun_upd_upd list.sel)
  next
    case False
    have "ze_waiting drv ((fr(j := tl (fr j)))(k := fr k @ [fa])) (ks @ [k]) =
        ze_waiting drv (fr(j := tl (fr j))) ks @ [(k, fold (ze_eff drv) (args_in_order fa))]"
      using IH [of "fr(j := tl (fr j))"] Cons.prems False unfolding fun_upd_other [OF False [symmetric]] by simp
    then show ?thesis
      unfolding append_Cons ze_waiting.simps fun_upd_other [OF False] fun_upd_twist [OF False] by simp
  qed
qed simp

lemma ze_waiting_fst: "map fst (ze_waiting drv fr ks) = ks"
  by (induction ks arbitrary: fr) auto


lemma frozen_Freeze: "frozen (Freeze k s) = (frozen s)(k := frozen s k @ [\<lambda>ty. ze_added s ty k])"
  by (auto simp: frozen_def Freeze_def fun_eq_iff split: option.splits)

lemma frozen_Set:
  "frozen s k = fa # fs \<Longrightarrow> frozen (KernelArgsManager_Set drv k s) = (frozen s)(k := fs)"
  by (auto simp: frozen_def KernelArgsManager_Set_def fun_eq_iff split: option.splits)

lemma driver_Set:
  "frozen s k = fa # fs \<Longrightarrow>
    ze_driver (KernelArgsManager_Set drv k s) = (ze_driver s)(k := fold (ze_eff drv) (args_in_order fa) (ze_driver s k))"
  by (auto simp: frozen_def KernelArgsManager_Set_def split: option.splits)

lemma Set_frame [simp]:
  "ze_added (KernelArgsManager_Set drv k s) = ze_added s" "ze_cmds (KernelArgsManager_Set drv k s) = ze_cmds s"
  by (simp_all add: KernelArgsManager_Set_def split: option.splits)

lemma Freeze_frame [simp]:
  "ze_cmds (Freeze k s) = ze_cmds s" "ze_driver (Freeze k s) = ze_driver s"
  "ze_added (Freeze k s) = (\<lambda>ty. (ze_added s ty)(k := None))"
  by (simp_all add: Freeze_def)

lemma Set_nonempty: "\<forall>j. frozen_args s j \<noteq> Some [] \<Longrightarrow> frozen_args (KernelArgsManager_Set drv k s) j \<noteq> Some []"
  by (auto simp: KernelArgsManager_Set_def split: option.splits)

lemma Freeze_nonempty: "\<forall>j. frozen_args s j \<noteq> Some [] \<Longrightarrow> frozen_args (Freeze k s) j \<noteq> Some []"
  by (auto simp: Freeze_def)

lemma typed_None [simp]: "typed (\<lambda>_. None)"
  by (simp add: typed_def)

lemma Freeze_typed: "typed (\<lambda>ty. ze_added s ty j) \<Longrightarrow> typed (\<lambda>ty. ze_added (Freeze k s) ty j)"
  by (cases "j = k") simp_all

lemma ze_opened_Freeze: "ze_opened drv (Freeze k s) = (ze_opened drv s)(k := id)"
  by (auto simp: ze_opened_def fun_eq_iff args_in_order_def)

lemma ze_inv_home: "ze_inv has_xq home s \<Longrightarrow> k \<in> set (ze_cmds s l) \<Longrightarrow> l = home k \<and> has_xq l"
  by (auto simp: ze_inv_def)

lemma ze_inv_count: "ze_inv has_xq home s \<Longrightarrow> length (frozen s k) = count_list (ze_cmds s (home k)) k"
  by (simp add: ze_inv_def)

lemma ze_waits_other:
  assumes "ze_inv has_xq home s" "l \<noteq> home k" "frozen s' = (frozen s)(k := fs)" "ze_cmds s' l = ze_cmds s l"
  shows "ze_waits drv s' l = ze_waits drv s l"
  unfolding ze_waits_def assms(3,4)
  by (rule ze_waiting_cong) (use ze_inv_home [OF assms(1)] assms(2) in auto)

lemma ze_set_arg:
  fixes s :: "'d ze" and k :: kernel and a :: ze_arg and drv :: "ze_arg \<Rightarrow> 'd \<Rightarrow> 'd"
  assumes i: "ze_inv has_xq home s"
  defines "s' \<equiv> add_arg k a s"
  shows "ze_inv has_xq home s' \<and> ze_opened drv s' = (ze_opened drv s)(k := ze_eff drv a \<circ> ze_opened drv s k)
    \<and> ze_waits drv s' = ze_waits drv s \<and> ze_driver s' = ze_driver s"
proof -
  have t: "typed (\<lambda>ty. ze_added s ty k)" using i by (simp add: ze_inv_def)
  have other: "(\<lambda>ty. ze_added s' ty j) = (\<lambda>ty. ze_added s ty j)" if "j \<noteq> k" for j
    using that by (auto simp: s'_def add_arg_def Let_def fun_eq_iff)
  have fr: "frozen_args s' = frozen_args s" "ze_cmds s' = ze_cmds s" "ze_driver s' = ze_driver s"
    by (simp_all add: s'_def add_arg_def Let_def)
  then have f: "frozen s' = frozen s" by (simp add: frozen_def fun_eq_iff)
  have "typed (\<lambda>ty. ze_added s' ty j)" for j
  proof (cases "j = k")
    case True
    then show ?thesis using add_arg_opened(2) [OF t, of a] by (simp add: s'_def)
  next
    case False
    then show ?thesis using other [OF False] i by (simp add: ze_inv_def)
  qed
  then have "ze_inv has_xq home s'" using i fr f by (simp add: ze_inv_def)
  moreover have "ze_opened drv s' j = ((ze_opened drv s)(k := ze_eff drv a \<circ> ze_opened drv s k)) j" for j
    using add_arg_opened(1) [OF t, of drv a] other [of j] by (cases "j = k") (simp_all add: s'_def ze_opened_def)
  ultimately show ?thesis using fr f by (auto simp: ze_waits_def)
qed

lemma ze_submit:
  fixes s :: "'d ze"
  assumes i: "ze_inv has_xq home s" and q: "home k = q" "has_xq q"
  defines "s' \<equiv> Freeze k s\<lparr> ze_cmds := (ze_cmds s)(q := ze_cmds s q @ [k]) \<rparr>"
  shows "ze_inv has_xq home s' \<and> ze_opened drv s' = (ze_opened drv s)(k := id)
    \<and> ze_waits drv s' = (ze_waits drv s)(q := ze_waits drv s q @ [(k, ze_opened drv s k)])"
proof -
  have f: "frozen s' = (frozen s)(k := frozen s k @ [\<lambda>ty. ze_added s ty k])"
    using frozen_Freeze [of k s] by (simp add: s'_def frozen_def fun_eq_iff)
  have "ze_waits drv s' p = ((ze_waits drv s)(q := ze_waits drv s q @ [(k, ze_opened drv s k)])) p" for p
  proof (cases "p = q")
    case True
    have "length (frozen s k) = count_list (ze_cmds s q) k" using ze_inv_count [OF i] q by auto
    then show ?thesis
      using ze_waiting_snoc [of "frozen s" k "ze_cmds s q" drv] True f by (simp add: ze_waits_def ze_opened_def s'_def)
  next
    case False
    then show ?thesis using ze_waits_other [OF i _ f, of p drv] q by (simp add: s'_def)
  qed
  moreover have "ze_opened drv s' = (ze_opened drv s)(k := id)"
    using ze_opened_Freeze [of drv k s] by (simp add: s'_def ze_opened_def fun_eq_iff)
  moreover have "ze_inv has_xq home s'"
  proof -
    have "frozen_args s' j \<noteq> Some []" for j
      using i Freeze_nonempty [of s k j] by (simp add: s'_def ze_inv_def)
    moreover have "length (frozen s' j) = count_list (ze_cmds s' (home j)) j" for j
      unfolding f using ze_inv_count [OF i, of j] q by (auto simp: s'_def)
    moreover have "typed (\<lambda>ty. ze_added s' ty j)" for j
      using i Freeze_typed [of s j k] by (simp add: ze_inv_def s'_def)
    ultimately show ?thesis using i q by (auto simp: ze_inv_def s'_def)
  qed
  ultimately show ?thesis by (simp add: fun_eq_iff)
qed

lemma ze_set:
  fixes s :: "'d ze" and drv :: "ze_arg \<Rightarrow> 'd \<Rightarrow> 'd"
  assumes i: "ze_inv has_xq home s" and c: "ze_cmds s q = k # ks"
  defines "s' \<equiv> KernelArgsManager_Set drv k (s\<lparr> ze_cmds := (ze_cmds s)(q := ks) \<rparr>)"
  shows "ze_inv has_xq home s' \<and> ze_opened drv s' = ze_opened drv s
    \<and> ze_waits drv s' = (ze_waits drv s)(q := tl (ze_waits drv s q))
    \<and> ze_driver s' = (ze_driver s)(k := snd (hd (ze_waits drv s q)) (ze_driver s k))"
proof -
  let ?s = "s\<lparr> ze_cmds := (ze_cmds s)(q := ks) \<rparr>"
  have k: "q = home k" "has_xq q" using ze_inv_home [OF i, of k q] c by auto
  obtain fa fs where fr: "frozen s k = fa # fs"
    using ze_inv_count [OF i, of k] c k by (cases "frozen s k") auto
  then have fr': "frozen ?s k = fa # fs" by (simp add: frozen_def)
  have f: "frozen s' = (frozen s)(k := fs)"
    using frozen_Set [OF fr', of drv] by (simp add: s'_def frozen_def fun_eq_iff)
  have "ze_waits drv s' p = ((ze_waits drv s)(q := tl (ze_waits drv s q))) p" for p
  proof (cases "p = q")
    case True
    then show ?thesis using fr c f by (simp add: ze_waits_def s'_def)
  next
    case False
    then show ?thesis using ze_waits_other [OF i _ f, of p drv] k by (simp add: s'_def)
  qed
  moreover have "ze_inv has_xq home s'"
  proof -
    have "frozen_args s' j \<noteq> Some []" for j
      using i Set_nonempty [of ?s drv k j] by (simp add: s'_def ze_inv_def)
    moreover have "length (frozen s' j) = count_list (ze_cmds s' (home j)) j" for j
      unfolding f using ze_inv_count [OF i, of j] k c fr by (auto simp: s'_def)
    moreover have "j \<in> set (ze_cmds s' l) \<Longrightarrow> l = home j \<and> has_xq l" for j l
      using ze_inv_home [OF i, of j l] c by (auto simp: s'_def split: if_splits)
    ultimately show ?thesis using i by (auto simp: ze_inv_def s'_def)
  qed
  moreover have "ze_driver s' = (ze_driver s)(k := snd (hd (ze_waits drv s q)) (ze_driver s k))"
    using driver_Set [OF fr', of drv] fr c by (simp add: s'_def ze_waits_def)
  ultimately show ?thesis by (simp add: fun_eq_iff s'_def ze_opened_def)
qed

lemma ze_direct:
  fixes s :: "'d ze" and drv :: "ze_arg \<Rightarrow> 'd \<Rightarrow> 'd"
  assumes i: "ze_inv has_xq home s" and q: "home k = q" "\<not> has_xq q"
  defines "s' \<equiv> KernelArgsManager_Set drv k (Freeze k s)"
  shows "ze_inv has_xq home s' \<and> ze_opened drv s' = (ze_opened drv s)(k := id) \<and> ze_waits drv s' = ze_waits drv s
    \<and> ze_driver s' = (ze_driver s)(k := ze_opened drv s k (ze_driver s k))"
proof -
  have "k \<notin> set (ze_cmds s (home k))" using ze_inv_home [OF i, of k "home k"] q by auto
  then have "frozen s k = []" using ze_inv_count [OF i, of k] by simp
  then have fr: "frozen (Freeze k s) k = [\<lambda>ty. ze_added s ty k]" by (simp add: frozen_Freeze)
  have f: "frozen s' = frozen s"
    using frozen_Set [OF fr, of drv] \<open>frozen s k = []\<close> by (simp add: s'_def frozen_Freeze fun_eq_iff)
  have "ze_inv has_xq home s'"
    using i Set_nonempty [of "Freeze k s" drv k] Freeze_nonempty [of s k] Freeze_typed [of s _ k] f
    unfolding ze_inv_def s'_def by (simp only: Set_frame Freeze_frame(1)) blast
  moreover have "ze_opened drv s' = (ze_opened drv s)(k := id)"
    using ze_opened_Freeze [of drv k s] by (simp add: s'_def ze_opened_def fun_eq_iff)
  moreover have "ze_waits drv s' = ze_waits drv s"
    by (simp add: ze_waits_def f fun_eq_iff) (simp add: s'_def)
  ultimately show ?thesis
    using driver_Set [OF fr, of drv] by (simp add: s'_def ze_opened_def)
qed

interpretation ze_args: deferral "ze_step drv immediate xq" "ze_eff drv" "\<lambda>l. immediate l \<and> xq l"
  "ze_inv (\<lambda>l. immediate l \<and> xq l)" "ze_opened drv" "ze_waits drv" ze_driver for drv :: "ze_arg \<Rightarrow> 'd \<Rightarrow> 'd" and immediate xq
proof
  fix home and s :: "'d ze" and k f q
  assume i: "ze_inv (\<lambda>l. immediate l \<and> xq l) home s" and "(k, f) \<in> set (ze_waits drv s q)"
  then have "k \<in> set (map fst (ze_waits drv s q))" by force
  then show "q = home k \<and> (immediate q \<and> xq q)"
    using ze_inv_home [OF i, of k q] by (simp only: ze_waits_def ze_waiting_fst) blast
next
  fix home and s :: "'d ze" and k a
  assume "ze_inv (\<lambda>l. immediate l \<and> xq l) home s"
  from ze_set_arg [OF this, of k a drv] show "\<exists>s'. ze_step drv immediate xq (SetArg k a) s = Some (s', [])
      \<and> ze_inv (\<lambda>l. immediate l \<and> xq l) home s' \<and> ze_opened drv s' = (ze_opened drv s)(k := ze_eff drv a \<circ> ze_opened drv s k)
      \<and> ze_waits drv s' = ze_waits drv s \<and> ze_driver s' = ze_driver s"
    by simp
next
  fix home and s :: "'d ze" and k q
  assume "ze_inv (\<lambda>l. immediate l \<and> xq l) home s" "home k = q" "immediate q \<and> xq q"
  from ze_submit [OF this, of drv] this show "\<exists>s'. ze_step drv immediate xq (Submit q k) s = Some (s', [])
      \<and> ze_inv (\<lambda>l. immediate l \<and> xq l) home s' \<and> ze_opened drv s' = (ze_opened drv s)(k := id)
      \<and> ze_waits drv s' = (ze_waits drv s)(q := ze_waits drv s q @ [(k, ze_opened drv s k)]) \<and> ze_driver s' = ze_driver s"
    by (simp add: XCommandListAppendLaunchKernel_def Let_def)
next
  fix home and s :: "'d ze" and k q
  assume "ze_inv (\<lambda>l. immediate l \<and> xq l) home s" "home k = q" "\<not> (immediate q \<and> xq q)"
  from ze_direct [OF this, of drv] this show "\<exists>s'. ze_step drv immediate xq (Submit q k) s
        = Some (s', [(q, k, ze_opened drv s k (ze_driver s k))])
      \<and> ze_inv (\<lambda>l. immediate l \<and> xq l) home s' \<and> ze_opened drv s' = (ze_opened drv s)(k := id)
      \<and> ze_waits drv s' = ze_waits drv s \<and> ze_driver s' = (ze_driver s)(k := ze_opened drv s k (ze_driver s k))"
    by (auto simp: XCommandListAppendLaunchKernel_def set_and_launch_def Let_def)
next
  fix home and s :: "'d ze" and q k f cs
  assume i: "ze_inv (\<lambda>l. immediate l \<and> xq l) home s" and w: "ze_waits drv s q = (k, f) # cs"
  then obtain ks where c: "ze_cmds s q = k # ks" by (cases "ze_cmds s q") (auto simp: ze_waits_def)
  from ze_set [OF i c, of drv] w c show "\<exists>s'. ze_step drv immediate xq (Launch q) s = Some (s', [(q, k, f (ze_driver s k))])
      \<and> ze_inv (\<lambda>l. immediate l \<and> xq l) home s' \<and> ze_opened drv s' = ze_opened drv s
      \<and> ze_waits drv s' = (ze_waits drv s)(q := cs) \<and> ze_driver s' = (ze_driver s)(k := f (ze_driver s k))"
    by (simp add: set_and_launch_def Let_def)
next
  fix home and s :: "'d ze" and q
  assume "ze_waits drv s q = []"
  then show "ze_step drv immediate xq (Launch q) s = None"
    by (cases "ze_cmds s q") (auto simp: ze_waits_def)
qed

section \<open>Kernels run with the arguments they were submitted with\<close>

text \<open>C37: However the program and the launch workers interleave, the kernels that OpenCL devices are given
  have the arguments they would have been given with if every kernel had been launched at its submission,
  as long as a kernel object is used with one command queue only.\<close>

theorem opencl_kernels_see_their_arguments:
  assumes "list_all (at_home home) acts"
  shows "map_option snd (acts_run (ocl_step drv has_xq) acts (ocl_init D))
    = map_option snd (acts_run (eager_step (ocl_eff drv) has_xq) acts (eager_init D))"
proof -
  have "ocl_inv has_xq home (ocl_init D)" by (simp add: ocl_inv_def ocl_init_def)
  from ocl_args.runs_eager [OF this assms, of drv]
  show ?thesis by (simp add: ocl_args.eager_of_def eager_init_def ocl_opened_def ocl_waits_def ocl_init_def)
qed

text \<open>C38: The same of Level Zero, for immediate command lists with an XQueue, without one and for regular
  command lists, as long as a kernel object is used with one of them only.\<close>

theorem levelzero_kernels_see_their_arguments:
  assumes "list_all (at_home home) acts"
  shows "map_option snd (acts_run (ze_step drv immediate xq) acts (ze_init D))
    = map_option snd (acts_run (eager_step (ze_eff drv) (\<lambda>l. immediate l \<and> xq l)) acts (eager_init D))"
proof -
  have "ze_inv (\<lambda>l. immediate l \<and> xq l) home (ze_init D)" by (simp add: ze_inv_def ze_init_def frozen_def)
  moreover have "ze_args.eager_of drv home (ze_init D) = eager_init D"
    by (simp add: ze_args.eager_of_def eager_init_def ze_opened_def ze_waits_def ze_init_def args_in_order_def)
  ultimately show ?thesis using ze_args.runs_eager [OF _ assms, of immediate xq "ze_init D" drv] by simp
qed

text \<open>A kernel that is submitted twice to one queue, with another argument the second time.\<close>

definition ex_ocl_acts :: "cmdq \<Rightarrow> ocl_set act list" where
  "ex_ocl_acts q =
     [SetArg 5 (OclSet kArgOpenCL 0 1 100 [1]), SetArg 5 (OclSet kArgOpenCL 1 1 101 [2]), Submit 1 5,
      SetArg 5 (OclSet kArgOpenCL 1 1 101 [3]), Submit q 5]"

theorem opencl_kernels_see_their_arguments_witness:
  "\<exists>runs. map_option snd (acts_run (ocl_step (#) (\<lambda>_. True)) (ex_ocl_acts 1 @ [Launch 1, Launch 1]) (ocl_init (\<lambda>_. [])))
      = Some runs
    \<and> map (\<lambda>(q, k, d). d) runs = [[DrvSetKernelArg 1 1 (Copy [2]), DrvSetKernelArg 0 1 (Copy [1])],
        [DrvSetKernelArg 1 1 (Copy [3]), DrvSetKernelArg 1 1 (Copy [2]), DrvSetKernelArg 0 1 (Copy [1])]]"
proof -
  have h: "list_all (at_home (\<lambda>_. 1)) (ex_ocl_acts 1 @ [Launch 1, Launch 1])" by (simp add: ex_ocl_acts_def)
  show ?thesis
    unfolding opencl_kernels_see_their_arguments [OF h]
    by (simp add: ex_ocl_acts_def eager_init_def ocl_eff_def KernelArgument_Set_def)
qed

definition ex_ze_acts :: "cmdq \<Rightarrow> ze_arg act list" where
  "ex_ze_acts l =
     [SetArg 5 (ZeKernelArgumentValue 0 1 (Some [1])), SetArg 5 (ZeKernelGroupSize 8 8 1), Submit 1 5,
      SetArg 5 (ZeKernelArgumentValue 0 1 (Some [2])), Submit l 5]"

section \<open>A kernel that is used with two queues\<close>

text \<open>With OpenCL the second queue may launch first: its kernel lacks the argument that only the first
  command sets.\<close>

lemma opencl_shared_kernel_misses_argument:
  "map_option snd (acts_run (ocl_step (#) (\<lambda>_. True)) (ex_ocl_acts 2 @ [Launch 2]) (ocl_init (\<lambda>_. [])))
    = Some [(2, 5, [DrvSetKernelArg 1 1 (Copy [3])])]"
  by (simp add: ex_ocl_acts_def ocl_init_def SetKernelArg_def XEnqueueNDRangeKernel_def set_all_args_def KernelArgument_Set_def Let_def)

text \<open>With Level Zero it takes the arguments that were meant for the first one. A regular command list does
  so at once, and the waiting command will run with those of the regular list.\<close>

lemma levelzero_shared_kernel_swaps_arguments:
  "map_option (map (\<lambda>(l, k, d). (l, d kArgumentValue)) \<circ> snd)
      (acts_run (ze_step (#) (\<lambda>_. True) (\<lambda>_. True)) (ex_ze_acts 2 @ [Launch 2, Launch 1]) (ze_init (\<lambda>_ _. [])))
    = Some [(2, [ZeKernelArgumentValue 0 1 (Some [1])]),
        (1, [ZeKernelArgumentValue 0 1 (Some [2]), ZeKernelArgumentValue 0 1 (Some [1])])]"
  by code_simp

lemma levelzero_regular_list_steals_arguments:
  "map_option (map (\<lambda>(l, k, d). (l, d kArgumentValue)) \<circ> snd)
      (acts_run (ze_step (#) (\<lambda>l. l = 1) (\<lambda>_. True)) (ex_ze_acts 2 @ [Launch 1]) (ze_init (\<lambda>_ _. [])))
    = Some [(2, [ZeKernelArgumentValue 0 1 (Some [1])]),
        (1, [ZeKernelArgumentValue 0 1 (Some [2]), ZeKernelArgumentValue 0 1 (Some [1])])]"
  by code_simp

theorem levelzero_kernels_see_their_arguments_witness:
  "\<exists>runs. map_option snd (acts_run (ze_step (#) (\<lambda>_. True) (\<lambda>_. True)) (ex_ze_acts 1 @ [Launch 1, Launch 1]) (ze_init (\<lambda>_ _. [])))
      = Some runs
    \<and> map (\<lambda>(l, k, d). d kArgumentValue) runs = [[ZeKernelArgumentValue 0 1 (Some [1])],
        [ZeKernelArgumentValue 0 1 (Some [2]), ZeKernelArgumentValue 0 1 (Some [1])]]"
proof -
  have h: "list_all (at_home (\<lambda>_. 1)) (ex_ze_acts 1 @ [Launch 1, Launch 1])" by (simp add: ex_ze_acts_def)
  show ?thesis
    unfolding levelzero_kernels_see_their_arguments [OF h]
    by (simp add: ex_ze_acts_def eager_init_def ze_eff_def)
qed

end
