(* ===== verification/ObjectPools.thy ===== *)
theory ObjectPools
  imports Prelude "HOL-Library.Word"
begin

text \<open>
  Pools of driver objects (\<^verbatim>\<open>utils/include/xsched/utils/pool.h\<close>): events, fences and command lists that
  commands take when they need them and give back when they are destroyed. A platform says how an object
  is created; the contract it has to keep, that a created object is a new one, is the locale
  \<open>object_pool\<close>. The pools of events of most platforms keep it; the pool of Level Zero
  (\<^verbatim>\<open>platforms/levelzero/hal/src/pool.cpp\<close>) creates all its events in one place.
\<close>

section \<open>The pool\<close>

text \<open>The objects, the last one at the end, and the state of what creates them; \<open>None\<close> ends the program.\<close>

type_synonym ('o, 's) pool = "'o list \<times> 's"

fun create_all :: "('s \<Rightarrow> ('o \<times> 's) option) \<Rightarrow> nat \<Rightarrow> 's \<Rightarrow> ('o list \<times> 's) option" where
  "create_all create 0 s = Some ([], s)"
| "create_all create (Suc n) s =
     (case create s of None \<Rightarrow> None
      | Some (x, s1) \<Rightarrow> map_option (\<lambda>(xs, s2). (x # xs, s2)) (create_all create n s1))"

definition Pop :: "('s \<Rightarrow> ('o \<times> 's) option) \<Rightarrow> nat \<Rightarrow> ('o, 's) pool \<Rightarrow> ('o \<times> ('o, 's) pool) option" where
  "Pop create kPoolSize p =
     (case p of (pool, s) \<Rightarrow>
        if pool = [] then
          (case create_all create kPoolSize s of None \<Rightarrow> None
           | Some (xs, s1) \<Rightarrow> map_option (\<lambda>(x, s2). (x, xs, s2)) (create s1))
        else Some (last pool, butlast pool, s))"

definition Push :: "'o \<Rightarrow> ('o, 's) pool \<Rightarrow> ('o, 's) pool" where
  "Push x p = (case p of (pool, s) \<Rightarrow> (pool @ [x], s))"

text \<open>Commands take objects and give back what they have taken.\<close>

datatype 'o pool_op = Take | GiveBack 'o

fun pool_run ::
  "('s \<Rightarrow> ('o \<times> 's) option) \<Rightarrow> nat \<Rightarrow> 'o pool_op list \<Rightarrow> ('o, 's) pool \<times> 'o list \<Rightarrow> (('o, 's) pool \<times> 'o list) option" where
  "pool_run create n [] st = Some st"
| "pool_run create n (Take # ops) (p, taken) =
     (case Pop create n p of None \<Rightarrow> None | Some (x, p') \<Rightarrow> pool_run create n ops (p', x # taken))"
| "pool_run create n (GiveBack x # ops) (p, taken) =
     (if x \<in> set taken then pool_run create n ops (Push x p, remove1 x taken) else None)"

section \<open>No object is given out twice\<close>

locale object_pool =
  fixes create :: "'s \<Rightarrow> ('o \<times> 's) option"
    and made :: "'s \<Rightarrow> 'o set"
  assumes new: "create s = Some (x, s') \<Longrightarrow> x \<notin> made s \<and> made s' = insert x (made s)"
begin

lemma create_all_new:
  "create_all create n s = Some (xs, s') \<Longrightarrow> distinct xs \<and> set xs \<inter> made s = {} \<and> made s' = made s \<union> set xs"
proof (induction n arbitrary: s xs)
  case (Suc n)
  then obtain x s1 ys where 1: "create s = Some (x, s1)" "create_all create n s1 = Some (ys, s')" "xs = x # ys"
    by (auto split: option.splits)
  show ?case using Suc.IH [OF 1(2)] new [OF 1(1)] 1(3) by auto
qed simp

definition pool_ok :: "('o, 's) pool \<times> 'o list \<Rightarrow> bool" where
  "pool_ok st \<longleftrightarrow> (case st of ((pool, s), taken) \<Rightarrow> distinct (pool @ taken) \<and> set (pool @ taken) \<subseteq> made s)"

lemma Pop_ok:
  assumes "pool_ok (p, taken)" "Pop create n p = Some (x, p')"
  shows "pool_ok (p', x # taken)"
proof (cases p)
  case (Pair pool s)
  show ?thesis
  proof (cases "pool = []")
    case True
    obtain xs s1 where 1: "create_all create n s = Some (xs, s1)" "map_option (\<lambda>(x, s2). (x, xs, s2)) (create s1) = Some (x, p')"
      using assms(2) Pair True by (auto simp: Pop_def split: option.splits)
    then obtain s2 where 2: "create s1 = Some (x, s2)" "p' = (xs, s2)" by auto
    show ?thesis using create_all_new [OF 1(1)] new [OF 2(1)] assms(1) Pair True 2(2) by (auto simp: pool_ok_def)
  next
    case False
    then obtain ps y where "pool = ps @ [y]" by (metis rev_exhaust)
    then show ?thesis using assms Pair by (auto simp: pool_ok_def Pop_def)
  qed
qed

lemma Push_ok: "pool_ok (p, taken) \<Longrightarrow> x \<in> set taken \<Longrightarrow> pool_ok (Push x p, remove1 x taken)"
  by (cases p) (auto simp: pool_ok_def Push_def distinct_remove1 dest: notin_set_remove1)

lemma run_ok: "pool_ok st \<Longrightarrow> pool_run create n ops st = Some st' \<Longrightarrow> pool_ok st'"
proof (induction ops arbitrary: st)
  case (Cons op ops)
  obtain p taken where st: "st = (p, taken)" by fastforce
  show ?case
  proof (cases op)
    case Take
    then obtain x p' where "Pop create n p = Some (x, p')" "pool_run create n ops (p', x # taken) = Some st'"
      using Cons.prems(2) st by (auto split: option.splits)
    then show ?thesis using Cons.IH Pop_ok Cons.prems(1) st by blast
  next
    case (GiveBack x)
    then show ?thesis using Cons.IH [OF Push_ok [of p taken x]] Cons.prems st by (auto split: if_splits)
  qed
qed simp

text \<open>What commands have taken is distinct, and nothing of it is in the pool.\<close>

lemma taken_once:
  assumes "pool_run create n ops (([], s), []) = Some ((pool, s'), taken)"
  shows "distinct taken \<and> set taken \<inter> set pool = {}"
  using run_ok [OF _ assms] by (auto simp: pool_ok_def)

end

section \<open>The pools of the platforms\<close>

text \<open>The drivers' events (\<^verbatim>\<open>EventPool::Create\<close> of CUDA, HIP, cuDLA, VPI and Ascend): a handle that was not
  returned before; handles are numbered in the order of their creation. A call that fails ends the
  program.\<close>

definition event_create :: "(nat \<Rightarrow> bool) \<Rightarrow> nat \<Rightarrow> (nat \<times> nat) option" where
  "event_create ok next = (if ok next then Some (next, Suc next) else None)"

interpretation event_pool: object_pool "event_create ok" "\<lambda>next. {..<next}" for ok
  by unfold_locales (auto simp: event_create_def split: if_splits)

text \<open>The events of Level Zero lie in a pool of the driver, each at an index of its own. The index is part
  of a descriptor that is a static variable, so it is computed once.\<close>

record ze_event =
  ze_handle :: nat
  ze_index :: "32 word"

record ze_events =
  event_count :: "32 word"
  event_desc :: "32 word option"
  next_event :: nat

definition POOL_SIZE :: "32 word" where "POOL_SIZE = 16384"

definition EventPool_Create :: "(nat \<Rightarrow> bool) \<Rightarrow> ze_events \<Rightarrow> (ze_event \<times> ze_events) option" where
  "EventPool_Create ok s =
     (if event_count s \<ge> POOL_SIZE then None
      else let s1 = (case event_desc s of
            None \<Rightarrow> s\<lparr> event_desc := Some (event_count s), event_count := event_count s + 1 \<rparr>
          | Some _ \<Rightarrow> s) in
        if \<not> ok (next_event s1) then None
        else Some (\<lparr> ze_handle = next_event s1, ze_index = the (event_desc s1) \<rparr>,
          s1\<lparr> next_event := Suc (next_event s1) \<rparr>))"

definition ze_events_init :: ze_events where
  "ze_events_init = \<lparr> event_count = 0, event_desc = None, next_event = 0 \<rparr>"

definition one_index :: "ze_events \<Rightarrow> bool" where
  "one_index s \<longleftrightarrow> s = ze_events_init \<or> (event_count s = 1 \<and> event_desc s = Some 0)"

lemma EventPool_Create_index:
  assumes "one_index s" "EventPool_Create ok s = Some (e, s')"
  shows "ze_index e = 0 \<and> one_index s'"
  using assms
  by (auto simp: one_index_def EventPool_Create_def ze_events_init_def Let_def split: if_splits option.splits)

lemma create_all_index:
  "one_index s \<Longrightarrow> create_all (EventPool_Create ok) n s = Some (es, s') \<Longrightarrow> (\<forall>e \<in> set es. ze_index e = 0) \<and> one_index s'"
proof (induction n arbitrary: s es)
  case (Suc n)
  then obtain e s1 es' where "EventPool_Create ok s = Some (e, s1)" "create_all (EventPool_Create ok) n s1 = Some (es', s')"
    "es = e # es'" by (auto split: option.splits)
  then show ?case using Suc.IH [of s1 es'] EventPool_Create_index [OF Suc.prems(1)] by auto
qed auto

text \<open>Every event has the index 0, however many there are, and the check of their number never fails: the
  driver forbids two events at one index (\<^verbatim>\<open>zeEventCreate\<close> in \<^verbatim>\<open>ze_api.h\<close>).\<close>

lemma ze_events_share_index:
  assumes "create_all (EventPool_Create ok) n ze_events_init = Some (es, s)"
  shows "\<forall>e \<in> set es. ze_index e = 0" "event_count s \<le> 1"
  using create_all_index [OF _ assms] by (auto simp: one_index_def ze_events_init_def)

lemma two_ze_events:
  "map_option (\<lambda>(es, s). map (\<lambda>e. (ze_handle e, ze_index e)) es) (create_all (EventPool_Create (\<lambda>_. True)) 2 ze_events_init)
    = Some [(0, 0), (1, 0)]"
  by code_simp

end
