(* ===== verification/ZeLists.thy ===== *)
theory ZeLists
  imports ObjectPools AutoXQueue
begin

text \<open>
  Command lists of Level Zero (\<^verbatim>\<open>platforms/levelzero/shim/src/cmd_list.cpp\<close>, \<open>CommandListPool\<close> in
  \<^verbatim>\<open>platforms/levelzero/hal/src/pool.cpp\<close> and \<open>XCommandQueueExecuteCommandLists\<close> in
  \<^verbatim>\<open>platforms/levelzero/shim/src/shim.cpp\<close>). A driver executes a command list as a whole, so that an
  XQueue could not be suspended in the middle of it. When the environment gives a slice length, the
  kernels that a program appends to a list go to other lists instead, each with that many kernels at
  most, and these slices are submitted in the place of the list. The slices come from a pool.
\<close>

section \<open>Lists and the driver\<close>

text \<open>A list of the program, and a list that was created for a pool. Lists of a pool are never destroyed,
  so that their number tells them apart.\<close>

datatype clist = Own nat | Pooled nat

type_synonym ctx_dev = "nat \<times> nat"
type_synonym ze_result = nat

definition ZE_RESULT_SUCCESS :: ze_result where "ZE_RESULT_SUCCESS = 0"

record SlicedCommandList =
  cmd_cnt :: "64 word"
  sl_ctx_dev :: ctx_dev
  cmd_lists :: "clist list"

text \<open>The slices of each list, the pools by context and device, and of the driver: the commands in each list,
  the context and device that a list was created for, and the number of the next list of a pool.\<close>

record ze_lists =
  slices :: "clist \<Rightarrow> SlicedCommandList option"
  list_pools :: "ctx_dev \<Rightarrow> clist list"
  contents :: "clist \<Rightarrow> nat list"
  created_for :: "clist \<Rightarrow> ctx_dev"
  next_pooled :: nat

definition ze_lists_init :: ze_lists where
  "ze_lists_init = \<lparr> slices = (\<lambda>_. None), list_pools = (\<lambda>_. []), contents = (\<lambda>_. []),
     created_for = (\<lambda>_. (0, 0)), next_pooled = 0 \<rparr>"

definition CommandListPool_Create ::
  "(nat \<Rightarrow> bool) \<Rightarrow> ctx_dev \<Rightarrow> nat \<times> (clist \<Rightarrow> ctx_dev) \<Rightarrow> (clist \<times> nat \<times> (clist \<Rightarrow> ctx_dev)) option" where
  "CommandListPool_Create ok cd d =
     (case d of (next, home) \<Rightarrow>
        if ok next then Some (Pooled next, Suc next, home(Pooled next := cd)) else None)"

definition pool_pop :: "(nat \<Rightarrow> bool) \<Rightarrow> ctx_dev \<Rightarrow> ze_lists \<Rightarrow> (clist \<times> ze_lists) option" where
  "pool_pop ok cd s =
     map_option (\<lambda>(cl, pool, next, home).
         (cl, s\<lparr> list_pools := (list_pools s)(cd := pool), next_pooled := next, created_for := home \<rparr>))
       (Pop (CommandListPool_Create ok cd) 64 (list_pools s cd, next_pooled s, created_for s))"

definition pool_push :: "ctx_dev \<Rightarrow> clist \<Rightarrow> ze_lists \<Rightarrow> ze_lists" where
  "pool_push cd cl s = s\<lparr> list_pools := (list_pools s)(cd := list_pools s cd @ [cl]) \<rparr>"

definition driver_reset :: "clist \<Rightarrow> ze_lists \<Rightarrow> ze_lists" where
  "driver_reset cl s = s\<lparr> contents := (contents s)(cl := []) \<rparr>"

definition driver_append :: "ze_result \<Rightarrow> clist \<Rightarrow> nat \<Rightarrow> ze_lists \<Rightarrow> ze_result \<times> ze_lists" where
  "driver_append r cl c s =
     (r, if r = ZE_RESULT_SUCCESS then s\<lparr> contents := (contents s)(cl := contents s cl @ [c]) \<rparr> else s)"

section \<open>The manager\<close>

text \<open>The number of commands in a slice, 0 when lists are not sliced. It is computed once.\<close>

definition GetSliceCmdCnt :: "getenv \<Rightarrow> 64 word" where
  "GetSliceCmdCnt env =
     (case env ''XSCHED_AUTO_XQUEUE'' of None \<Rightarrow> 0
      | Some v \<Rightarrow>
          if v = [] \<or> v = ''0'' \<or> map to_lower v = ''off'' then 0
          else (case env ''XSCHED_LEVELZERO_SLICE_CNT'' of None \<Rightarrow> 0
            | Some str \<Rightarrow> (case stoll str of None \<Rightarrow> 0 | Some (val, _) \<Rightarrow> word_of_int val)))"

text \<open>In the operations \<open>n\<close> is that number, \<open>r\<close> the driver's answer to the call on the list itself, \<open>rs\<close> its
  answers to the calls on slices; \<open>None\<close> is a failed assertion.\<close>

definition CommandListManager_Get :: "64 word \<Rightarrow> clist \<Rightarrow> ze_lists \<Rightarrow> SlicedCommandList option" where
  "CommandListManager_Get n l s = (if n = 0 then None else slices s l)"

definition CommandListManager_Create ::
  "64 word \<Rightarrow> ze_result \<Rightarrow> ctx_dev \<Rightarrow> clist \<Rightarrow> ze_lists \<Rightarrow> (ze_result \<times> ze_lists) option" where
  "CommandListManager_Create n r cd l s =
     (if r \<noteq> ZE_RESULT_SUCCESS then Some (r, s)
      else let s1 = s\<lparr> contents := (contents s)(l := []), created_for := (created_for s)(l := cd) \<rparr> in
        if n = 0 then Some (r, s1)
        else if slices s1 l \<noteq> None then None
        else Some (r, s1\<lparr> slices := (slices s1)(l \<mapsto> \<lparr> cmd_cnt = 0, sl_ctx_dev = cd, cmd_lists = [] \<rparr>) \<rparr>))"

fun release_all :: "(clist \<Rightarrow> ze_result) \<Rightarrow> ctx_dev \<Rightarrow> clist list \<Rightarrow> ze_lists \<Rightarrow> ze_lists option" where
  "release_all rs cd [] s = Some s"
| "release_all rs cd (cl # cls) s =
     (if rs cl \<noteq> ZE_RESULT_SUCCESS then None else release_all rs cd cls (pool_push cd cl (driver_reset cl s)))"

definition CommandListManager_Destroy ::
  "64 word \<Rightarrow> ze_result \<Rightarrow> (clist \<Rightarrow> ze_result) \<Rightarrow> clist \<Rightarrow> ze_lists \<Rightarrow> (ze_result \<times> ze_lists) option" where
  "CommandListManager_Destroy n r rs l s =
     (if r \<noteq> ZE_RESULT_SUCCESS \<or> n = 0 then Some (r, s)
      else case slices s l of None \<Rightarrow> None
        | Some sl \<Rightarrow>
            map_option (\<lambda>s'. (r, s'\<lparr> slices := (slices s')(l := None) \<rparr>)) (release_all rs (sl_ctx_dev sl) (cmd_lists sl) s))"

fun close_all :: "(clist \<Rightarrow> ze_result) \<Rightarrow> clist list \<Rightarrow> ze_result" where
  "close_all rs [] = ZE_RESULT_SUCCESS"
| "close_all rs (cl # cls) = (if rs cl \<noteq> ZE_RESULT_SUCCESS then rs cl else close_all rs cls)"

definition CommandListManager_Close ::
  "64 word \<Rightarrow> ze_result \<Rightarrow> (clist \<Rightarrow> ze_result) \<Rightarrow> clist \<Rightarrow> ze_lists \<Rightarrow> (ze_result \<times> ze_lists) option" where
  "CommandListManager_Close n r rs l s =
     (if r \<noteq> ZE_RESULT_SUCCESS \<or> n = 0 then Some (r, s)
      else case slices s l of None \<Rightarrow> None | Some sl \<Rightarrow> Some (close_all rs (cmd_lists sl), s))"

text \<open>A slice goes back to the pool of the context and the device that it was created for.\<close>

fun reset_all :: "(clist \<Rightarrow> ze_result) \<Rightarrow> clist list \<Rightarrow> ze_lists \<Rightarrow> ze_result \<times> ze_lists" where
  "reset_all rs [] s = (ZE_RESULT_SUCCESS, s)"
| "reset_all rs (cl # cls) s =
     (if rs cl \<noteq> ZE_RESULT_SUCCESS then (rs cl, s)
      else reset_all rs cls (pool_push (created_for s cl) cl (driver_reset cl s)))"

definition CommandListManager_Reset ::
  "64 word \<Rightarrow> ze_result \<Rightarrow> (clist \<Rightarrow> ze_result) \<Rightarrow> clist \<Rightarrow> ze_lists \<Rightarrow> (ze_result \<times> ze_lists) option" where
  "CommandListManager_Reset n r rs l s =
     (if r \<noteq> ZE_RESULT_SUCCESS then Some (r, s)
      else let s1 = driver_reset l s in
        if n = 0 then Some (r, s1)
        else case slices s1 l of None \<Rightarrow> None
          | Some sl \<Rightarrow>
              (case reset_all rs (cmd_lists sl) s1 of (res, s2) \<Rightarrow>
                 if res \<noteq> ZE_RESULT_SUCCESS then Some (res, s2)
                 else Some (res, s2\<lparr> slices := (slices s2)(l \<mapsto> sl\<lparr> cmd_lists := [], cmd_cnt := 0 \<rparr>) \<rparr>)))"

text \<open>The driver's answer \<open>ok\<close> is to the creation of lists for a pool.\<close>

definition CommandListManager_Append ::
  "64 word \<Rightarrow> (nat \<Rightarrow> bool) \<Rightarrow> ze_result \<Rightarrow> clist \<Rightarrow> nat \<Rightarrow> ze_lists \<Rightarrow> (ze_result \<times> ze_lists) option" where
  "CommandListManager_Append n ok r l c s =
     (if n = 0 then Some (driver_append r l c s)
      else case slices s l of None \<Rightarrow> None
        | Some sl \<Rightarrow>
            let sl1 = sl\<lparr> cmd_cnt := cmd_cnt sl + 1 \<rparr> in
            (case (if cmd_cnt sl mod n = 0 then
                     map_option (\<lambda>(cl, s1). (sl1\<lparr> cmd_lists := cmd_lists sl @ [cl] \<rparr>, s1)) (pool_pop ok (sl_ctx_dev sl) s)
                   else Some (sl1, s)) of
               None \<Rightarrow> None
             | Some (sl2, s2) \<Rightarrow>
                 Some (driver_append r (last (cmd_lists sl2)) c (s2\<lparr> slices := (slices s2)(l \<mapsto> sl2) \<rparr>))))"

section \<open>Execution\<close>

text \<open>What the shim does with the lists that a program executes on a queue: without an XQueue they go to
  the driver, otherwise every list or its slices are commands of the XQueue; the last command stands for
  the fence, which has to be one that the worker can wait for.\<close>

datatype ze_exec =
    DrvExecute "clist list" bool
  | SubmitList clist bool

definition lists_of :: "64 word \<Rightarrow> ze_lists \<Rightarrow> clist \<Rightarrow> clist list" where
  "lists_of n s l =
     (case CommandListManager_Get n l s of None \<Rightarrow> [l]
      | Some sl \<Rightarrow> if cmd_lists sl = [] then [l] else cmd_lists sl)"

fun with_fence :: "bool \<Rightarrow> clist list \<Rightarrow> ze_exec list" where
  "with_fence fence [] = []"
| "with_fence fence [cl] = [SubmitList cl fence]"
| "with_fence fence (cl # cls) = SubmitList cl False # with_fence fence cls"

definition XCommandQueueExecuteCommandLists :: "64 word \<Rightarrow> bool \<Rightarrow> clist list \<Rightarrow> bool \<Rightarrow> ze_lists \<Rightarrow> ze_exec list" where
  "XCommandQueueExecuteCommandLists n has_xq ls fence s =
     (if \<not> has_xq then [DrvExecute ls fence] else with_fence fence (concat (map (lists_of n s) ls)))"

text \<open>The commands that the device gets to execute.\<close>

fun exec_lists :: "ze_exec \<Rightarrow> clist list" where
  "exec_lists (DrvExecute ls _) = ls"
| "exec_lists (SubmitList cl _) = [cl]"

definition executed :: "ze_lists \<Rightarrow> ze_exec list \<Rightarrow> nat list" where
  "executed s es = concat (map (contents s) (concat (map exec_lists es)))"

section \<open>What a program means\<close>

text \<open>The operations of a program on its lists, all calls of the driver successful; a list that is created
  gets a handle that is not in use.\<close>

datatype list_op =
    CreateList nat ctx_dev | DestroyList nat | ResetList nat | CloseList nat | AppendLaunch nat nat

fun spec_step :: "list_op \<Rightarrow> (nat \<Rightarrow> nat list option) \<Rightarrow> (nat \<Rightarrow> nat list option) option" where
  "spec_step (CreateList i cd) A = (case A i of None \<Rightarrow> Some (A(i \<mapsto> [])) | Some _ \<Rightarrow> None)"
| "spec_step (DestroyList i) A = (case A i of None \<Rightarrow> None | Some _ \<Rightarrow> Some (A(i := None)))"
| "spec_step (ResetList i) A = (case A i of None \<Rightarrow> None | Some _ \<Rightarrow> Some (A(i \<mapsto> [])))"
| "spec_step (CloseList i) A = (case A i of None \<Rightarrow> None | Some _ \<Rightarrow> Some A)"
| "spec_step (AppendLaunch i c) A = (case A i of None \<Rightarrow> None | Some cs \<Rightarrow> Some (A(i \<mapsto> cs @ [c])))"

fun spec_run :: "list_op list \<Rightarrow> (nat \<Rightarrow> nat list option) \<Rightarrow> (nat \<Rightarrow> nat list option) option" where
  "spec_run [] A = Some A"
| "spec_run (op # ops) A = (case spec_step op A of None \<Rightarrow> None | Some A' \<Rightarrow> spec_run ops A')"

fun zl_step :: "64 word \<Rightarrow> list_op \<Rightarrow> ze_lists \<Rightarrow> (ze_result \<times> ze_lists) option" where
  "zl_step n (CreateList i cd) s = CommandListManager_Create n 0 cd (Own i) s"
| "zl_step n (DestroyList i) s = CommandListManager_Destroy n 0 (\<lambda>_. 0) (Own i) s"
| "zl_step n (ResetList i) s = CommandListManager_Reset n 0 (\<lambda>_. 0) (Own i) s"
| "zl_step n (CloseList i) s = CommandListManager_Close n 0 (\<lambda>_. 0) (Own i) s"
| "zl_step n (AppendLaunch i c) s = CommandListManager_Append n (\<lambda>_. True) 0 (Own i) c s"

fun zl_run :: "64 word \<Rightarrow> list_op list \<Rightarrow> ze_lists \<Rightarrow> ze_lists option" where
  "zl_run n [] s = Some s"
| "zl_run n (op # ops) s =
     (case zl_step n op s of None \<Rightarrow> None
      | Some (r, s') \<Rightarrow> if r \<noteq> ZE_RESULT_SUCCESS then None else zl_run n ops s')"

section \<open>Every list of a pool has one place\<close>

datatype place = InSlices clist | InPool ctx_dev

definition below :: "nat \<Rightarrow> clist \<Rightarrow> bool" where
  "below m cl \<longleftrightarrow> (\<exists>j < m. cl = Pooled j)"

text \<open>The slices of a list: of the length \<open>n\<close> at most, and the last one as long as the counter says, which
  wraps around.\<close>

definition slices_ok :: "64 word \<Rightarrow> (clist \<Rightarrow> nat list) \<Rightarrow> SlicedCommandList \<Rightarrow> bool" where
  "slices_ok n con sl \<longleftrightarrow>
     (\<forall>cl \<in> set (cmd_lists sl). length (con cl) \<le> unat n)
     \<and> (unat (cmd_cnt sl) mod unat n \<noteq> 0 \<longrightarrow> cmd_lists sl \<noteq> []
          \<and> length (con (last (cmd_lists sl))) = unat (cmd_cnt sl) mod unat n)"

definition placed :: "ze_lists \<Rightarrow> (clist \<Rightarrow> place) \<Rightarrow> bool" where
  "placed s ow \<longleftrightarrow>
     (\<forall>l sl. slices s l = Some sl \<longrightarrow> distinct (cmd_lists sl)
        \<and> (\<forall>cl \<in> set (cmd_lists sl). below (next_pooled s) cl \<and> ow cl = InSlices l))
     \<and> (\<forall>cd. distinct (list_pools s cd)
        \<and> (\<forall>cl \<in> set (list_pools s cd). below (next_pooled s) cl \<and> ow cl = InPool cd \<and> contents s cl = []))
     \<and> (\<forall>j. next_pooled s \<le> j \<longrightarrow> contents s (Pooled j) = [])"

text \<open>What is known of a list that holds the commands \<open>co\<close> of the program.\<close>

definition entry_ok ::
  "64 word \<Rightarrow> (clist \<Rightarrow> nat list) \<Rightarrow> nat \<Rightarrow> SlicedCommandList option \<Rightarrow> nat list option \<Rightarrow> bool" where
  "entry_ok n con i so co \<longleftrightarrow>
     (case co of None \<Rightarrow> so = None
      | Some cs \<Rightarrow> con (Own i) = [] \<and> (\<exists>sl. so = Some sl \<and> slices_ok n con sl \<and> concat (map con (cmd_lists sl)) = cs))"

definition lists_inv :: "64 word \<Rightarrow> ze_lists \<Rightarrow> (nat \<Rightarrow> nat list option) \<Rightarrow> bool" where
  "lists_inv n s A \<longleftrightarrow>
     (\<forall>j. slices s (Pooled j) = None) \<and> (\<exists>ow. placed s ow)
     \<and> (\<forall>i. entry_ok n (contents s) i (slices s (Own i)) (A i))"

lemma create_list:
  "CommandListPool_Create (\<lambda>_. True) cd (j, home) = Some (Pooled j, Suc j, home(Pooled j := cd))"
  by (simp add: CommandListPool_Create_def)

lemma create_lists:
  "create_all (CommandListPool_Create (\<lambda>_. True) cd) m (j, home) =
    Some (map Pooled [j..<j + m], j + m, \<lambda>cl. if cl \<in> Pooled ` {j..<j + m} then cd else home cl)"
proof (induction m arbitrary: j home)
  case (Suc m)
  have r: "[j..<j + Suc m] = j # [Suc j..<Suc j + m]" by (simp add: upt_conv_Cons)
  have "{j..<j + Suc m} = insert j {Suc j..<Suc j + m}" by auto
  then have p: "Pooled ` {j..<j + Suc m} = insert (Pooled j) (Pooled ` {Suc j..<Suc j + m})" by simp
  show ?case unfolding r p by (auto simp: create_list Suc.IH fun_eq_iff)
qed simp

lemma pool_pop_some:
  obtains cl s' where "pool_pop (\<lambda>_. True) cd s = Some (cl, s')" "slices s' = slices s" "contents s' = contents s"
    "(\<exists>pool. list_pools s cd = pool @ [cl] \<and> list_pools s' = (list_pools s)(cd := pool) \<and> next_pooled s' = next_pooled s)
     \<or> (list_pools s cd = [] \<and> cl = Pooled (next_pooled s + 64) \<and> next_pooled s' = next_pooled s + 65
        \<and> list_pools s' = (list_pools s)(cd := map Pooled [next_pooled s..<next_pooled s + 64]))"
proof (cases "list_pools s cd" rule: rev_cases)
  case Nil
  then obtain cl s' where e: "pool_pop (\<lambda>_. True) cd s = Some (cl, s')"
    by (auto simp: pool_pop_def Pop_def create_lists create_list)
  then show ?thesis
    using Nil by (intro that [OF e]) (auto simp: pool_pop_def Pop_def create_lists create_list)
next
  case (snoc pool cl)
  then obtain s' where e: "pool_pop (\<lambda>_. True) cd s = Some (cl, s')" by (auto simp: pool_pop_def Pop_def)
  then show ?thesis using snoc by (intro that [OF e]) (auto simp: pool_pop_def Pop_def)
qed

lemma placed_slices:
  assumes "placed s ow" "slices s l = Some sl"
  shows "distinct (cmd_lists sl)" "cl \<in> set (cmd_lists sl) \<Longrightarrow> below (next_pooled s) cl \<and> ow cl = InSlices l"
  using assms by (auto simp: placed_def)

lemma placed_pool:
  assumes "placed s ow"
  shows "distinct (list_pools s cd)"
    "cl \<in> set (list_pools s cd) \<Longrightarrow> below (next_pooled s) cl \<and> ow cl = InPool cd \<and> contents s cl = []"
  using assms unfolding placed_def by blast+

lemma placed_new: "placed s ow \<Longrightarrow> next_pooled s \<le> j \<Longrightarrow> contents s (Pooled j) = []"
  by (auto simp: placed_def)

text \<open>A list that comes out of a pool is empty and was nowhere else.\<close>

lemma placed_pop:
  assumes p: "placed s ow" and pop: "pool_pop (\<lambda>_. True) cd s = Some (cl, s')"
    and sl: "slices s l = Some sl" "cmd_lists sl' = cmd_lists sl @ [cl]"
  shows "\<exists>ow'. placed (s'\<lparr> slices := (slices s')(l \<mapsto> sl'), contents := (contents s')(cl := c) \<rparr>) ow'"
    "contents s cl = []" "cl \<notin> range Own" "\<And>l sl. slices s l = Some sl \<Longrightarrow> cl \<notin> set (cmd_lists sl)"
    "slices s' = slices s" "contents s' = contents s"
proof -
  obtain cl0 s0 where s0: "pool_pop (\<lambda>_. True) cd s = Some (cl0, s0)" "slices s0 = slices s" "contents s0 = contents s"
    "(\<exists>pool. list_pools s cd = pool @ [cl0] \<and> list_pools s0 = (list_pools s)(cd := pool) \<and> next_pooled s0 = next_pooled s)
     \<or> (list_pools s cd = [] \<and> cl0 = Pooled (next_pooled s + 64) \<and> next_pooled s0 = next_pooled s + 65
        \<and> list_pools s0 = (list_pools s)(cd := map Pooled [next_pooled s..<next_pooled s + 64]))"
    by (rule pool_pop_some [of cd s]) blast
  then have eq: "cl0 = cl" "s0 = s'" using pop by simp_all
  note s' = s0(2,3,4) [unfolded eq]
  show "slices s' = slices s" "contents s' = contents s" using s' by simp_all
  consider (old) pool where "list_pools s cd = pool @ [cl]" "list_pools s' = (list_pools s)(cd := pool)"
      "next_pooled s' = next_pooled s"
    | (new) "list_pools s cd = []" "cl = Pooled (next_pooled s + 64)" "next_pooled s' = next_pooled s + 65"
      "list_pools s' = (list_pools s)(cd := map Pooled [next_pooled s..<next_pooled s + 64])"
    using s'(3) by blast
  note cases = this
  have cl: "contents s cl = [] \<and> below (next_pooled s') cl \<and> (ow cl = InPool cd \<or> \<not> below (next_pooled s) cl)"
  proof (cases rule: cases)
    case old
    then show ?thesis using placed_pool(2) [OF p, of cl cd] by simp
  next
    case new
    then show ?thesis using placed_new [OF p, of "next_pooled s + 64"] by (simp add: below_def)
  qed
  then show "contents s cl = []" "cl \<notin> range Own" by (auto simp: below_def)
  have old: "x \<noteq> cl" if "slices s l0 = Some sl0" "x \<in> set (cmd_lists sl0)" for l0 sl0 x
    using placed_slices(2) [OF p that] cl by auto
  then show "cl \<notin> set (cmd_lists sl)" if "slices s l = Some sl" for l sl using that by blast
  have m: "below (next_pooled s) x \<Longrightarrow> below (next_pooled s') x" for x
    by (cases rule: cases) (auto simp: below_def)
  let ?ow = "\<lambda>x. if x = cl then InSlices l else if below (next_pooled s) x then ow x else InPool cd"
  let ?s = "s'\<lparr> slices := (slices s')(l \<mapsto> sl'), contents := (contents s')(cl := c) \<rparr>"
  have keep: "below (next_pooled s') x \<and> ?ow x = InSlices l0" if "slices s l0 = Some sl0" "x \<in> set (cmd_lists sl0)" for l0 sl0 x
    using placed_slices(2) [OF p that] old [OF that] m by simp
  have "distinct (cmd_lists sl1) \<and> (\<forall>x \<in> set (cmd_lists sl1). below (next_pooled s') x \<and> ?ow x = InSlices l1)"
    if "slices ?s l1 = Some sl1" for l1 sl1
  proof (cases "l1 = l")
    case True
    then have "sl1 = sl'" using that by simp
    then show ?thesis
      using sl(2) keep [OF sl(1)] old [OF sl(1)] placed_slices(1) [OF p sl(1)] cl True by auto
  next
    case False
    then have "slices s l1 = Some sl1" using that s'(1) by simp
    then show ?thesis using keep placed_slices(1) [OF p] by blast
  qed
  moreover have "distinct (list_pools ?s cd1)
    \<and> (\<forall>x \<in> set (list_pools ?s cd1). below (next_pooled s') x \<and> ?ow x = InPool cd1 \<and> contents ?s x = [])" for cd1
  proof -
    have pool: "distinct xs \<Longrightarrow> cl \<notin> set xs \<Longrightarrow> set xs \<subseteq> set (list_pools s cd1) \<Longrightarrow> distinct xs
      \<and> (\<forall>x \<in> set xs. below (next_pooled s') x \<and> ?ow x = InPool cd1 \<and> contents ?s x = [])" for xs
      using placed_pool(2) [OF p, of _ cd1] m s'(2) by auto
    show ?thesis
    proof (cases "cd1 = cd")
      case False
      then have "cl \<notin> set (list_pools s cd1)" using placed_pool(2) [OF p, of cl cd1] cl by auto
      then have "distinct (list_pools s cd1)
        \<and> (\<forall>x \<in> set (list_pools s cd1). below (next_pooled s') x \<and> ?ow x = InPool cd1 \<and> contents ?s x = [])"
        using pool [OF placed_pool(1) [OF p]] by simp
      moreover have "list_pools ?s cd1 = list_pools s cd1" using False by (cases rule: cases) simp_all
      ultimately show ?thesis by simp
    next
      case True
      show ?thesis
      proof (cases rule: cases)
        case (old xs)
        have "distinct xs" "cl \<notin> set xs" "set xs \<subseteq> set (list_pools s cd1)"
          using old(1) placed_pool(1) [OF p, of cd] True by auto
        from pool [OF this] show ?thesis using old(2) True by simp
      next
        case new
        then show ?thesis using placed_new [OF p] s'(2) True by (auto simp: below_def distinct_map inj_on_def)
      qed
    qed
  qed
  moreover have "contents ?s (Pooled j) = []" if "next_pooled s' \<le> j" for j
  proof -
    have "cl \<noteq> Pooled j" using cl that by (auto simp: below_def)
    moreover have "next_pooled s \<le> j" using that by (cases rule: cases) simp_all
    ultimately show ?thesis using placed_new [OF p] s'(2) by simp
  qed
  ultimately show "\<exists>ow'. placed ?s ow'" unfolding placed_def by (intro exI [of _ ?ow]) auto
qed

section \<open>Slices keep the commands\<close>

lemma placed_append:
  assumes p: "placed s ow" and l: "slices s l = Some sl" "cmd_lists sl' = cmd_lists sl" "cl \<in> set (cmd_lists sl)"
  shows "placed (s\<lparr> slices := (slices s)(l \<mapsto> sl'), contents := (contents s)(cl := c) \<rparr>) ow"
proof -
  have cl: "below (next_pooled s) cl" "ow cl = InSlices l" using placed_slices(2) [OF p l(1,3)] by auto
  have "x \<noteq> cl" if "x \<in> set (list_pools s cd)" for x cd using placed_pool(2) [OF p that] cl by auto
  moreover have "Pooled j \<noteq> cl" if "next_pooled s \<le> j" for j using cl that by (auto simp: below_def)
  ultimately show ?thesis
    using placed_slices [OF p] placed_pool [OF p] placed_new [OF p] l unfolding placed_def by auto
qed

lemma placed_push:
  assumes p: "placed s ow" and cl: "below (next_pooled s) cl" "ow cl = InSlices l" "slices s l = None"
  shows "placed (pool_push cd cl (driver_reset cl s)) (ow(cl := InPool cd))"
proof -
  have "x \<noteq> cl" if "x \<in> set (list_pools s cd1)" for x cd1 using placed_pool(2) [OF p that] cl by auto
  moreover have "x \<noteq> cl" if "slices s l1 = Some sl1" "x \<in> set (cmd_lists sl1)" for x l1 sl1
    using placed_slices(2) [OF p that] cl that(1) by auto
  moreover have "Pooled j \<noteq> cl" if "next_pooled s \<le> j" for j using cl that by (auto simp: below_def)
  ultimately show ?thesis
    using placed_slices [OF p] placed_pool [OF p] placed_new [OF p] cl(1)
    unfolding placed_def pool_push_def driver_reset_def by auto
qed

text \<open>The slices of a list that go back to their pools.\<close>

definition give_back :: "(clist \<Rightarrow> ctx_dev) \<Rightarrow> clist list \<Rightarrow> ze_lists \<Rightarrow> ze_lists" where
  "give_back home cls = fold (\<lambda>cl s. pool_push (home cl) cl (driver_reset cl s)) cls"

lemma give_back_frame:
  "slices (give_back home cls s) = slices s" "next_pooled (give_back home cls s) = next_pooled s"
  "contents (give_back home cls s) = (\<lambda>cl. if cl \<in> set cls then [] else contents s cl)"
  by (induction cls arbitrary: s) (auto simp: give_back_def pool_push_def driver_reset_def)

lemma give_back_slices: "give_back home cls (s\<lparr> slices := m \<rparr>) = give_back home cls s\<lparr> slices := m \<rparr>"
proof (induction cls arbitrary: s)
  case (Cons cl cls)
  have "pool_push cd cl (driver_reset cl (s\<lparr> slices := m \<rparr>)) = pool_push cd cl (driver_reset cl s)\<lparr> slices := m \<rparr>" for cd
    by (simp add: pool_push_def driver_reset_def)
  then show ?case using Cons.IH by (simp add: give_back_def)
qed (simp add: give_back_def)

lemma release_all_give_back: "release_all (\<lambda>_. 0) cd cls s = Some (give_back (\<lambda>_. cd) cls s)"
  by (induction cls arbitrary: s) (simp_all add: give_back_def ZE_RESULT_SUCCESS_def)

lemma reset_all_give_back: "reset_all (\<lambda>_. 0) cls s = (0, give_back (created_for s) cls s)"
proof (induction cls arbitrary: s)
  case (Cons cl cls)
  have "created_for (pool_push cd cl (driver_reset cl s)) = created_for s" for cd
    by (simp add: pool_push_def driver_reset_def)
  then show ?case by (simp add: Cons.IH give_back_def ZE_RESULT_SUCCESS_def)
qed (simp add: give_back_def ZE_RESULT_SUCCESS_def)

lemma placed_give_back:
  assumes "placed s ow" "slices s l = None" "distinct cls"
    "\<And>cl. cl \<in> set cls \<Longrightarrow> below (next_pooled s) cl \<and> ow cl = InSlices l"
  shows "\<exists>ow'. placed (give_back home cls s) ow'"
  using assms
proof (induction cls arbitrary: s ow)
  case (Cons cl cls)
  let ?s = "pool_push (home cl) cl (driver_reset cl s)"
  have "placed ?s (ow(cl := InPool (home cl)))" using placed_push [OF Cons.prems(1) _ _ Cons.prems(2)] Cons.prems(4) by simp
  moreover have "slices ?s l = None" "next_pooled ?s = next_pooled s"
    using Cons.prems(2) by (simp_all add: pool_push_def driver_reset_def)
  moreover have "below (next_pooled s) x \<and> (ow(cl := InPool (home cl))) x = InSlices l" if "x \<in> set cls" for x
    using Cons.prems(3,4) that by auto
  ultimately have "\<exists>ow'. placed (give_back home cls ?s) ow'"
    using Cons.IH [of ?s "ow(cl := InPool (home cl))"] Cons.prems(3) by (simp only: distinct.simps simp_thms)
  then show ?case by (simp add: give_back_def)
qed (auto simp: give_back_def)

lemma placed_drop: "placed s ow \<Longrightarrow> placed (s\<lparr> slices := (slices s)(l := None) \<rparr>) ow"
  unfolding placed_def by auto

lemma placed_empty: "placed s ow \<Longrightarrow> cmd_lists sl = [] \<Longrightarrow> placed (s\<lparr> slices := (slices s)(l \<mapsto> sl) \<rparr>) ow"
  unfolding placed_def by auto

lemma placed_contents:
  assumes "placed s ow" "\<And>j. con (Pooled j) = contents s (Pooled j)" "list_pools s' = list_pools s"
    "slices s' = slices s" "next_pooled s' = next_pooled s" "contents s' = con"
  shows "placed s' ow"
proof -
  note p = assms(1)
  have c: "contents s' x = contents s x" if "below m x" for m x using that assms(2,6) by (auto simp: below_def)
  have "distinct (list_pools s' cd)
      \<and> (\<forall>x \<in> set (list_pools s' cd). below (next_pooled s') x \<and> ow x = InPool cd \<and> contents s' x = [])" for cd
    using placed_pool [OF p, where cd = cd] c unfolding assms(3,5) by metis
  moreover have "contents s' (Pooled j) = []" if "next_pooled s' \<le> j" for j
    using placed_new [OF p, of j] that unfolding assms(5,6) by (simp add: assms(2))
  ultimately show ?thesis
    using placed_slices [OF p] unfolding placed_def assms(4,5) by blast
qed

lemma entry_ok_cong:
  assumes "entry_ok n con i so co" "con' (Own i) = con (Own i)"
    "\<And>sl cl. so = Some sl \<Longrightarrow> cl \<in> set (cmd_lists sl) \<Longrightarrow> con' cl = con cl"
  shows "entry_ok n con' i so co"
proof (cases co)
  case (Some cs)
  obtain sl where sl: "so = Some sl" "slices_ok n con sl" "concat (map con (cmd_lists sl)) = cs" "con (Own i) = []"
    using assms(1) Some by (auto simp: entry_ok_def)
  have "map con' (cmd_lists sl) = map con (cmd_lists sl)" using assms(3) sl(1) by simp
  then have "concat (map con' (cmd_lists sl)) = cs" by (simp only: sl(3))
  moreover have "slices_ok n con' sl" using sl(2) assms(3) sl(1) by (auto simp: slices_ok_def)
  ultimately show ?thesis using sl Some assms(2) by (simp add: entry_ok_def)
qed (use assms(1) in \<open>simp add: entry_ok_def\<close>)

lemma lists_invE:
  assumes "lists_inv n s A" "A i = Some cs"
  obtains sl ow where "slices s (Own i) = Some sl" "slices_ok n (contents s) sl" "concat (map (contents s) (cmd_lists sl)) = cs"
    "contents s (Own i) = []" "placed s ow"
proof -
  obtain ow where "placed s ow" using assms(1) by (auto simp: lists_inv_def)
  moreover have "entry_ok n (contents s) i (slices s (Own i)) (Some cs)" using assms unfolding lists_inv_def by metis
  ultimately show thesis using that by (auto simp: entry_ok_def)
qed

lemma lists_inv_None: "lists_inv n s A \<Longrightarrow> A i = None \<Longrightarrow> slices s (Own i) = None"
  unfolding lists_inv_def by (elim conjE allE [of _ i]) (simp add: entry_ok_def)

text \<open>An operation on list \<open>i\<close> that changes the contents of its own slices only.\<close>

lemma lists_inv_step:
  assumes inv: "lists_inv n s A" and p: "placed s' ow"
    and s: "\<And>l. l \<noteq> Own i \<Longrightarrow> slices s' l = slices s l"
    and c: "\<And>j. j \<noteq> i \<Longrightarrow> contents s' (Own j) = contents s (Own j)"
      "\<And>j sl cl. j \<noteq> i \<Longrightarrow> slices s (Own j) = Some sl \<Longrightarrow> cl \<in> set (cmd_lists sl) \<Longrightarrow> contents s' cl = contents s cl"
    and i: "entry_ok n (contents s') i (slices s' (Own i)) co"
  shows "lists_inv n s' (A(i := co))"
proof -
  have "entry_ok n (contents s') j (slices s' (Own j)) ((A(i := co)) j)" for j
  proof (cases "j = i")
    case False
    have "entry_ok n (contents s) j (slices s (Own j)) (A j)" using inv by (simp add: lists_inv_def)
    then have "entry_ok n (contents s') j (slices s (Own j)) (A j)"
      by (rule entry_ok_cong) (use c False in auto)
    then show ?thesis using s False by simp
  qed (use i in simp)
  then show ?thesis using inv p s unfolding lists_inv_def by auto
qed

text \<open>The slices of another list are none of these.\<close>

lemma other_slices:
  "placed s ow \<Longrightarrow> slices s (Own i) = Some sl \<Longrightarrow> slices s (Own j) = Some sl' \<Longrightarrow> j \<noteq> i \<Longrightarrow> cl \<in> set (cmd_lists sl) \<Longrightarrow>
    cl \<notin> set (cmd_lists sl')"
  using placed_slices(2) [of s ow "Own i" sl cl] placed_slices(2) [of s ow "Own j" sl' cl] by auto

lemma not_own: "placed s ow \<Longrightarrow> slices s l = Some sl \<Longrightarrow> cl \<in> set (cmd_lists sl) \<Longrightarrow> cl \<noteq> Own j"
  using placed_slices(2) [of s ow l sl cl] by (auto simp: below_def)

lemma unat_Suc: "unat (c + 1 :: 64 word) = (unat c + 1) mod 2 ^ 64"
  by (simp add: unat_word_ariths)

lemma next_count:
  fixes c n :: "64 word"
  assumes "n \<noteq> 0"
  shows "unat (c + 1) mod unat n = 0 \<or> unat (c + 1) mod unat n = unat c mod unat n + 1"
proof (cases "unat c + 1 = 2 ^ 64")
  case True
  then show ?thesis by (simp add: unat_Suc)
next
  case False
  have "unat c < 2 ^ 64" using unsigned_less [of c] by simp
  then have "unat (c + 1) = Suc (unat c)" using False by (simp add: unat_Suc)
  then show ?thesis by (simp add: mod_Suc)
qed

lemma create_inv:
  assumes inv: "lists_inv n s A" and "n \<noteq> 0" "A i = None"
  shows "\<exists>s'. CommandListManager_Create n 0 cd (Own i) s = Some (0, s') \<and> lists_inv n s' (A(i \<mapsto> []))"
proof -
  let ?sl = "\<lparr> cmd_cnt = 0, sl_ctx_dev = cd, cmd_lists = [] \<rparr>"
  let ?s = "s\<lparr> contents := (contents s)(Own i := []), created_for := (created_for s)(Own i := cd),
    slices := (slices s)(Own i \<mapsto> ?sl) \<rparr>"
  have none: "slices s (Own i) = None" using inv assms(3) lists_inv_None by blast
  then have "CommandListManager_Create n 0 cd (Own i) s = Some (0, ?s)"
    using assms(2) by (simp add: CommandListManager_Create_def ZE_RESULT_SUCCESS_def)
  moreover have "lists_inv n ?s (A(i \<mapsto> []))"
  proof -
    obtain ow where p: "placed s ow" using inv by (auto simp: lists_inv_def)
    have "placed (s\<lparr> contents := (contents s)(Own i := []), created_for := (created_for s)(Own i := cd) \<rparr>) ow"
      by (rule placed_contents [OF p]) auto
    from placed_empty [OF this, of ?sl "Own i"] have p': "placed ?s ow" by simp
    show ?thesis
      by (rule lists_inv_step [OF inv p']) (use p in \<open>auto simp: entry_ok_def slices_ok_def dest: not_own\<close>)
  qed
  ultimately show ?thesis by blast
qed

lemma given_back:
  fixes home :: "clist \<Rightarrow> ctx_dev"
  assumes inv: "lists_inv n s A" and i: "A i = Some cs" and sl: "slices s (Own i) = Some sl"
  defines "s' \<equiv> give_back home (cmd_lists sl) (s\<lparr> contents := (contents s)(Own i := []) \<rparr>)"
  shows "\<exists>ow. placed (s'\<lparr> slices := (slices s')(Own i := None) \<rparr>) ow"
    "slices s' = slices s" "contents s' (Own j) = (if j = i then [] else contents s (Own j))"
    "j \<noteq> i \<Longrightarrow> slices s (Own j) = Some sl1 \<Longrightarrow> cl \<in> set (cmd_lists sl1) \<Longrightarrow> contents s' cl = contents s cl"
proof -
  obtain ow where p: "placed s ow" using inv by (auto simp: lists_inv_def)
  let ?s = "s\<lparr> contents := (contents s)(Own i := []) \<rparr>"
  have "placed ?s ow" by (rule placed_contents [OF p]) auto
  from placed_drop [OF this] have d: "placed (?s\<lparr> slices := (slices s)(Own i := None) \<rparr>) ow" by simp
  have "\<exists>ow'. placed (give_back home (cmd_lists sl) (?s\<lparr> slices := (slices s)(Own i := None) \<rparr>)) ow'"
    by (rule placed_give_back [OF d, of "Own i"]) (use placed_slices [OF p sl] in auto)
  then show "\<exists>ow. placed (s'\<lparr> slices := (slices s')(Own i := None) \<rparr>) ow"
    by (simp add: give_back_slices s'_def give_back_frame(1))
  show "slices s' = slices s" by (simp add: s'_def give_back_frame)
  show "contents s' (Own j) = (if j = i then [] else contents s (Own j))"
    using not_own [OF p sl, of "Own j" j] by (auto simp: s'_def give_back_frame)
  show "contents s' cl = contents s cl" if "j \<noteq> i" "slices s (Own j) = Some sl1" "cl \<in> set (cmd_lists sl1)"
    using other_slices [OF p sl that(2,1), of cl] not_own [OF p that(2,3), of i] that(3)
    by (auto simp: s'_def give_back_frame)
qed

lemma reset_inv:
  assumes inv: "lists_inv n s A" and n: "n \<noteq> 0" and i: "A i = Some cs"
  shows "\<exists>s'. CommandListManager_Reset n 0 (\<lambda>_. 0) (Own i) s = Some (0, s') \<and> lists_inv n s' (A(i \<mapsto> []))"
proof -
  obtain sl where sl: "slices s (Own i) = Some sl" using lists_invE [OF inv i] by metis
  let ?s = "s\<lparr> contents := (contents s)(Own i := []) \<rparr>"
  let ?g = "give_back (created_for s) (cmd_lists sl) ?s"
  let ?sl = "sl\<lparr> cmd_lists := [], cmd_cnt := 0 \<rparr>"
  let ?s' = "?g\<lparr> slices := (slices ?g)(Own i \<mapsto> ?sl) \<rparr>"
  note g = given_back [OF inv i sl, where home = "created_for s"]
  have "CommandListManager_Reset n 0 (\<lambda>_. 0) (Own i) s = Some (0, ?s')"
    using n sl by (simp add: CommandListManager_Reset_def reset_all_give_back driver_reset_def ZE_RESULT_SUCCESS_def Let_def)
  moreover have "lists_inv n ?s' (A(i \<mapsto> []))"
  proof -
    obtain ow where "placed (?g\<lparr> slices := (slices ?g)(Own i := None) \<rparr>) ow" using g(1) by blast
    from placed_empty [OF this, of ?sl "Own i"] have p: "placed ?s' ow" by simp
    show ?thesis by (rule lists_inv_step [OF inv p]) (use g in \<open>auto simp: entry_ok_def slices_ok_def\<close>)
  qed
  ultimately show ?thesis by blast
qed

lemma destroy_inv:
  assumes inv: "lists_inv n s A" and n: "n \<noteq> 0" and i: "A i = Some cs"
  shows "\<exists>s'. CommandListManager_Destroy n 0 (\<lambda>_. 0) (Own i) s = Some (0, s') \<and> lists_inv n s' (A(i := None))"
proof -
  obtain sl where sl: "slices s (Own i) = Some sl" and own: "contents s (Own i) = []" using lists_invE [OF inv i] by metis
  let ?g = "give_back (\<lambda>_. sl_ctx_dev sl) (cmd_lists sl) s"
  let ?s' = "?g\<lparr> slices := (slices ?g)(Own i := None) \<rparr>"
  have eq: "s\<lparr> contents := (contents s)(Own i := []) \<rparr> = s" using own by (simp add: fun_upd_idem)
  note g = given_back [OF inv i sl, where home = "\<lambda>_. sl_ctx_dev sl", unfolded eq]
  have "CommandListManager_Destroy n 0 (\<lambda>_. 0) (Own i) s = Some (0, ?s')"
    using n sl by (simp add: CommandListManager_Destroy_def release_all_give_back ZE_RESULT_SUCCESS_def)
  moreover have "lists_inv n ?s' (A(i := None))"
  proof -
    obtain ow where p: "placed ?s' ow" using g(1) by blast
    show ?thesis by (rule lists_inv_step [OF inv p]) (use g in \<open>auto simp: entry_ok_def\<close>)
  qed
  ultimately show ?thesis by blast
qed

lemma close_all_ok: "close_all (\<lambda>_. 0) cls = 0"
  by (induction cls) (simp_all add: ZE_RESULT_SUCCESS_def)

lemma append_inv:
  assumes inv: "lists_inv n s A" and n: "n \<noteq> 0" and i: "A i = Some cs"
  shows "\<exists>s'. CommandListManager_Append n (\<lambda>_. True) 0 (Own i) c s = Some (0, s') \<and> lists_inv n s' (A(i \<mapsto> cs @ [c]))"
proof -
  obtain sl ow where sl: "slices s (Own i) = Some sl" "slices_ok n (contents s) sl"
    "concat (map (contents s) (cmd_lists sl)) = cs" "contents s (Own i) = []" and p: "placed s ow"
    using lists_invE [OF inv i] by metis
  have n': "0 < unat n" using n by (simp add: unat_gt_0)
  have z: "cmd_cnt sl mod n = 0 \<longleftrightarrow> unat (cmd_cnt sl) mod unat n = 0"
    by (metis unat_eq_zero unat_mod)
  show ?thesis
  proof (cases "cmd_cnt sl mod n = 0")
    case True
    obtain cl s1 where pop: "pool_pop (\<lambda>_. True) (sl_ctx_dev sl) s = Some (cl, s1)" by (rule pool_pop_some)
    let ?sl = "sl\<lparr> cmd_cnt := cmd_cnt sl + 1, cmd_lists := cmd_lists sl @ [cl] \<rparr>"
    let ?s = "s1\<lparr> slices := (slices s1)(Own i \<mapsto> ?sl), contents := (contents s1)(cl := [c]) \<rparr>"
    note new = placed_pop [OF p pop sl(1), of ?sl, simplified]
    have a: "CommandListManager_Append n (\<lambda>_. True) 0 (Own i) c s = Some (0, ?s)"
      using n sl(1) True pop new(2,6) by (simp add: CommandListManager_Append_def driver_append_def ZE_RESULT_SUCCESS_def Let_def)
    have "slices_ok n (contents ?s) ?sl"
      using sl(2) next_count [OF n, of "cmd_cnt sl"] True z n' new(4) [OF sl(1)] new(6)
      by (auto simp: slices_ok_def Suc_le_eq)
    moreover have "map (contents ?s) (cmd_lists sl) = map (contents s) (cmd_lists sl)"
      using new(4) [OF sl(1)] new(6) by auto
    then have "concat (map (contents ?s) (cmd_lists ?sl)) = cs @ [c]" using sl(3) by (simp del: map_eq_conv)
    ultimately have e: "entry_ok n (contents ?s) i (slices ?s (Own i)) (Some (cs @ [c]))"
      using sl(4) new(3,6) by (auto simp: entry_ok_def)
    obtain ow' where p': "placed ?s ow'" using new(1) by blast
    have "lists_inv n ?s (A(i \<mapsto> cs @ [c]))"
      by (rule lists_inv_step [OF inv p' _ _ _ e]) (use new(3,4,5,6) in auto)
    then show ?thesis using a by blast
  next
    case False
    then have ne: "cmd_lists sl \<noteq> []" "length (contents s (last (cmd_lists sl))) = unat (cmd_cnt sl) mod unat n"
      using sl(2) z by (auto simp: slices_ok_def)
    then obtain xs cl where xs: "cmd_lists sl = xs @ [cl]" by (metis rev_exhaust)
    let ?sl = "sl\<lparr> cmd_cnt := cmd_cnt sl + 1 \<rparr>"
    let ?s = "s\<lparr> slices := (slices s)(Own i \<mapsto> ?sl), contents := (contents s)(cl := contents s cl @ [c]) \<rparr>"
    have a: "CommandListManager_Append n (\<lambda>_. True) 0 (Own i) c s = Some (0, ?s)"
      using n sl(1) False xs by (simp add: CommandListManager_Append_def driver_append_def ZE_RESULT_SUCCESS_def Let_def)
    have cl: "cl \<in> set (cmd_lists sl)" "cl \<notin> set xs" using xs placed_slices(1) [OF p sl(1)] by auto
    have p': "placed ?s ow" by (rule placed_append [OF p sl(1) _ cl(1)]) simp
    have "unat (cmd_cnt sl) mod unat n + 1 \<le> unat n" using n' by (simp add: Suc_le_eq)
    then have "slices_ok n (contents ?s) ?sl"
      using sl(2) next_count [OF n, of "cmd_cnt sl"] ne(2) xs by (auto simp: slices_ok_def)
    moreover have "map (contents ?s) xs = map (contents s) xs" using cl(2) by auto
    then have "concat (map (contents ?s) (cmd_lists ?sl)) = cs @ [c]" using sl(3) xs by (simp del: map_eq_conv) 
    ultimately have e: "entry_ok n (contents ?s) i (slices ?s (Own i)) (Some (cs @ [c]))"
      using sl(4) not_own [OF p sl(1) cl(1)] by (auto simp: entry_ok_def)
    have "lists_inv n ?s (A(i \<mapsto> cs @ [c]))"
      by (rule lists_inv_step [OF inv p' _ _ _ e])
        (use not_own [OF p sl(1) cl(1)] other_slices [OF p sl(1) _ _ cl(1)] in auto)
    then show ?thesis using a by blast
  qed
qed

section \<open>Execution of sliced lists\<close>

lemma exec_with_fence: "concat (map exec_lists (with_fence fence cls)) = cls"
  by (induction fence cls rule: with_fence.induct) simp_all

lemma fence_on_last: "cls \<noteq> [] \<Longrightarrow> last (with_fence fence cls) = SubmitList (last cls) fence"
proof (induction fence cls rule: with_fence.induct)
  case (3 fence cl c cls)
  have "with_fence fence (c # cls) \<noteq> []" by (cases cls) simp_all
  then show ?case using 3 by simp
qed simp_all

lemma executed_lists:
  "executed s (XCommandQueueExecuteCommandLists n True (map Own ls) fence s) =
    concat (map (\<lambda>i. concat (map (contents s) (lists_of n s (Own i)))) ls)"
  by (induction ls) (simp_all add: executed_def XCommandQueueExecuteCommandLists_def exec_with_fence)

text \<open>What a list holds when the slice length is 0, and otherwise.\<close>

definition keeps :: "64 word \<Rightarrow> ze_lists \<Rightarrow> (nat \<Rightarrow> nat list option) \<Rightarrow> bool" where
  "keeps n s A \<longleftrightarrow> (if n = 0 then \<forall>i cs. A i = Some cs \<longrightarrow> contents s (Own i) = cs else lists_inv n s A)"

lemma keeps_step:
  assumes k: "keeps n s A" and st: "spec_step op A = Some A'"
  shows "\<exists>s'. zl_step n op s = Some (0, s') \<and> keeps n s' A'"
proof (cases "n = 0")
  case True
  then show ?thesis
    using k st by (cases op) (auto simp: keeps_def CommandListManager_Create_def CommandListManager_Destroy_def
        CommandListManager_Reset_def CommandListManager_Close_def CommandListManager_Append_def driver_append_def
        driver_reset_def ZE_RESULT_SUCCESS_def Let_def split: option.splits if_splits)
next
  case False
  then have inv: "lists_inv n s A" using k by (simp add: keeps_def)
  note steps = create_inv [OF inv False] destroy_inv [OF inv False] reset_inv [OF inv False] append_inv [OF inv False]
  show ?thesis
  proof (cases op)
    case (CloseList i)
    then obtain cs where i: "A i = Some cs" "A' = A" using st by (auto split: option.splits)
    obtain sl where "slices s (Own i) = Some sl" using lists_invE [OF inv i(1)] by metis
    then show ?thesis
      using CloseList False inv i(2) by (simp add: CommandListManager_Close_def close_all_ok keeps_def)
  qed (use st False steps in \<open>auto simp: keeps_def split: option.splits\<close>)
qed

lemma keeps_run: "keeps n s A \<Longrightarrow> spec_run ops A = Some A' \<Longrightarrow> \<exists>s'. zl_run n ops s = Some s' \<and> keeps n s' A'"
proof (induction ops arbitrary: s A)
  case (Cons op ops)
  then obtain A1 where 1: "spec_step op A = Some A1" "spec_run ops A1 = Some A'" by (auto split: option.splits)
  obtain s1 where "zl_step n op s = Some (0, s1)" "keeps n s1 A1" using keeps_step [OF Cons.prems(1) 1(1)] by blast
  then show ?case using Cons.IH 1(2) by (simp add: ZE_RESULT_SUCCESS_def)
qed simp

lemma keeps_init: "keeps n ze_lists_init (\<lambda>_. None)"
  by (auto simp: keeps_def lists_inv_def placed_def entry_ok_def ze_lists_init_def)

lemma keeps_lists_of:
  assumes "keeps n s A" "A i = Some cs"
  shows "concat (map (contents s) (lists_of n s (Own i))) = cs"
    "n \<noteq> 0 \<Longrightarrow> cl \<in> set (lists_of n s (Own i)) \<Longrightarrow> length (contents s cl) \<le> unat n"
proof -
  have "concat (map (contents s) (lists_of n s (Own i))) = cs
    \<and> (n \<noteq> 0 \<longrightarrow> (\<forall>cl \<in> set (lists_of n s (Own i)). length (contents s cl) \<le> unat n))"
  proof (cases "n = 0")
    case False
    then obtain sl where "slices s (Own i) = Some sl" "slices_ok n (contents s) sl"
      "concat (map (contents s) (cmd_lists sl)) = cs" "contents s (Own i) = []"
      using assms lists_invE [of n s A i cs] by (auto simp: keeps_def)
    then show ?thesis using False by (auto simp: lists_of_def CommandListManager_Get_def slices_ok_def)
  qed (use assms in \<open>simp add: keeps_def lists_of_def CommandListManager_Get_def\<close>)
  then show "concat (map (contents s) (lists_of n s (Own i))) = cs"
    "n \<noteq> 0 \<Longrightarrow> cl \<in> set (lists_of n s (Own i)) \<Longrightarrow> length (contents s cl) \<le> unat n" by blast+
qed

text \<open>C39: Whatever a program does with its lists, what a queue with an XQueue executes for them are the
  kernels that the program appended, in this order and nothing else, although slices are taken from and
  given back to pools; no slice is longer than the environment allows.\<close>

theorem sliced_lists_keep_commands:
  assumes "spec_run ops (\<lambda>_. None) = Some A" "\<forall>i \<in> set ls. A i \<noteq> None"
  shows "\<exists>s. zl_run n ops ze_lists_init = Some s
    \<and> executed s (XCommandQueueExecuteCommandLists n True (map Own ls) fence s) = concat (map (\<lambda>i. the (A i)) ls)
    \<and> (n \<noteq> 0 \<longrightarrow> (\<forall>i \<in> set ls. \<forall>cl \<in> set (lists_of n s (Own i)). length (contents s cl) \<le> unat n))"
proof -
  obtain s where s: "zl_run n ops ze_lists_init = Some s" "keeps n s A" using keeps_run [OF keeps_init assms(1)] by blast
  have "concat (map (contents s) (lists_of n s (Own i))) = the (A i)" if "i \<in> set ls" for i
    using keeps_lists_of(1) [OF s(2), of i] assms(2) that by auto
  then have "map (\<lambda>i. concat (map (contents s) (lists_of n s (Own i)))) ls = map (\<lambda>i. the (A i)) ls" by simp
  moreover have "length (contents s cl) \<le> unat n" if "n \<noteq> 0" "i \<in> set ls" "cl \<in> set (lists_of n s (Own i))" for i cl
    using keeps_lists_of(2) [OF s(2) _ that(1,3)] assms(2) that(2) by auto
  ultimately show ?thesis using s(1) by (auto simp: executed_lists simp del: map_eq_conv)
qed

definition ex_list_ops :: "list_op list" where
  "ex_list_ops = [CreateList 0 (7, 7), AppendLaunch 0 1, CreateList 1 (7, 7), AppendLaunch 0 2, AppendLaunch 1 5,
     AppendLaunch 0 3, CloseList 0, ResetList 1, AppendLaunch 1 6]"

theorem sliced_lists_keep_commands_witness:
  "\<exists>s. zl_run 2 ex_list_ops ze_lists_init = Some s
    \<and> executed s (XCommandQueueExecuteCommandLists 2 True (map Own [0, 1]) True s) = [1, 2, 3, 6]"
proof -
  obtain A where "spec_run ex_list_ops (\<lambda>_. None) = Some A" "A 0 = Some [1, 2, 3]" "A 1 = Some [6]"
    by (simp add: ex_list_ops_def)
  then show ?thesis using sliced_lists_keep_commands [of ex_list_ops A "[0, 1]" 2 True] by auto
qed

section \<open>Where slices lose commands\<close>

text \<open>Only launches of kernels go to the slices: what else a program appends, copies and barriers, stays in
  the list itself, which is not executed.\<close>

lemma sliced_list_loses_copies:
  "map_option (\<lambda>s. case driver_append 0 (Own 0) 9 s of (_, s') \<Rightarrow>
      executed s' (XCommandQueueExecuteCommandLists 2 True [Own 0] False s'))
    (zl_run 2 [CreateList 0 (7, 7), AppendLaunch 0 1] ze_lists_init) = Some [1]"
  by code_simp

text \<open>Without an XQueue the driver gets the lists, and the slices are not executed.\<close>

lemma sliced_lists_need_xqueue:
  "map_option (\<lambda>s. executed s (XCommandQueueExecuteCommandLists 2 False [Own 0] False s))
    (zl_run 2 [CreateList 0 (7, 7), AppendLaunch 0 1] ze_lists_init) = Some []"
  by code_simp

text \<open>When the driver fails to reset a slice, those before it are in the pool already and still slices of the
  list. The next reset puts them into the pool again, which will give them to two lists of the program.\<close>

lemma failed_reset_gives_slice_twice:
  assumes "slices s l = Some sl" "cmd_lists sl = [a, b]" "created_for s a = cd" "created_for s b = cd"
    "n \<noteq> 0" "rs a = 0" "rs b \<noteq> 0"
  shows "\<exists>s1 s2. CommandListManager_Reset n 0 rs l s = Some (rs b, s1)
    \<and> CommandListManager_Reset n 0 (\<lambda>_. 0) l s1 = Some (0, s2) \<and> list_pools s2 cd = list_pools s cd @ [a, a, b]"
  using assms by (simp add: CommandListManager_Reset_def driver_reset_def pool_push_def ZE_RESULT_SUCCESS_def Let_def)

end
