(* ===== verification/HipKernels.thy ===== *)
theory HipKernels
  imports Prelude Numbers
begin

text \<open>
  Kernels of the HIP platform (\<^verbatim>\<open>platforms/hip/hal/src/kernel_param.cpp\<close>,
  \<^verbatim>\<open>platforms/hip/hal/src/hip_command.cpp\<close>): where the parameters of a kernel lie is read from the
  metadata of its code object when that is registered; a launch copies the parameters when it is
  submitted, because the program may use their memory for something else before the kernel is launched.
  The library that reads metadata is not part of the repository: here it is the metadata.
\<close>

section \<open>The parameters of kernels\<close>

record KernelParamInfo =
  kp_size :: nat
  kp_offset :: nat

text \<open>The arguments of a kernel in the metadata: what is not a map of strings is \<open>None\<close>. A kernel may have no
  list of arguments. In the functions \<open>None\<close> ends the program.\<close>

type_synonym arg_meta = "(string \<times> string) list option"
type_synonym kernel_meta = "string \<times> arg_meta list option"
type_synonym names_params = "string \<Rightarrow> KernelParamInfo list option"

definition stoul :: "string \<Rightarrow> nat option" where
  "stoul s =
     (case scan_dec s of None \<Rightarrow> None
      | Some (v, r) \<Rightarrow> if - (2 ^ 64) < v \<and> v < 2 ^ 64 then Some (nat (v mod 2 ^ 64)) else None)"

text \<open>A callback for every entry of the map: what is known of the parameter, and whether it is one that the
  program passes.\<close>

fun kernelParamCallback :: "string \<times> string \<Rightarrow> KernelParamInfo \<times> bool \<Rightarrow> (KernelParamInfo \<times> bool) option" where
  "kernelParamCallback (key, val) (info, valid) =
     (if key = ''.size'' then map_option (\<lambda>v. (info\<lparr> kp_size := v \<rparr>, valid)) (stoul val)
      else if key = ''.offset'' then map_option (\<lambda>v. (info\<lparr> kp_offset := v \<rparr>, valid)) (stoul val)
      else if key = ''.value_kind'' then Some (info, val = ''global_buffer'' \<or> val = ''by_value'')
      else Some (info, valid))"

fun iterate_map :: "(string \<times> string) list \<Rightarrow> KernelParamInfo \<times> bool \<Rightarrow> (KernelParamInfo \<times> bool) option" where
  "iterate_map [] d = Some d"
| "iterate_map (e # es) d = (case kernelParamCallback e d of None \<Rightarrow> None | Some d' \<Rightarrow> iterate_map es d')"

text \<open>\<open>junk\<close> is what the callback's data holds before: the code does not initialise it.\<close>

fun read_args :: "KernelParamInfo \<Rightarrow> arg_meta list \<Rightarrow> KernelParamInfo list \<Rightarrow> KernelParamInfo list option" where
  "read_args junk [] acc = Some acc"
| "read_args junk (None # as) acc = read_args junk as acc"
| "read_args junk (Some entries # as) acc =
     (case iterate_map entries (junk, False) of None \<Rightarrow> None
      | Some (info, valid) \<Rightarrow> read_args junk as (if valid then acc @ [info] else acc))"

fun registerForOneISA :: "KernelParamInfo \<Rightarrow> kernel_meta list \<Rightarrow> names_params \<Rightarrow> names_params option" where
  "registerForOneISA junk [] m = Some m"
| "registerForOneISA junk ((name, args) # ks) m =
     (case args of None \<Rightarrow> None
      | Some as \<Rightarrow>
          (case read_args junk as [] of None \<Rightarrow> None
           | Some infos \<Rightarrow> registerForOneISA junk ks (m(name \<mapsto> infos))))"

text \<open>The registries of a process; a function is its address, a module its handle.\<close>

record kernel_params =
  static_names :: names_params
  static_ptrs :: "nat \<Rightarrow> KernelParamInfo list option"
  static_ptr_names :: "nat \<Rightarrow> string option"
  module_kernels :: "nat \<Rightarrow> names_params option"
  dynamic_ptrs :: "nat \<Rightarrow> KernelParamInfo list option"
  dynamic_ptr_names :: "nat \<Rightarrow> string option"

text \<open>A name that is not known becomes known, as the name of a kernel without parameters.\<close>

definition RegisterStaticFunction :: "nat \<Rightarrow> string \<Rightarrow> kernel_params \<Rightarrow> kernel_params" where
  "RegisterStaticFunction func name s =
     (let infos = (case static_names s name of None \<Rightarrow> [] | Some ps \<Rightarrow> ps) in
      s\<lparr> static_names := (static_names s)(name \<mapsto> infos), static_ptrs := (static_ptrs s)(func \<mapsto> infos),
         static_ptr_names := (static_ptr_names s)(func \<mapsto> name) \<rparr>)"

definition RegisterDynamicFunction :: "nat \<Rightarrow> nat \<Rightarrow> string \<Rightarrow> kernel_params \<Rightarrow> kernel_params option" where
  "RegisterDynamicFunction m func name s =
     (case module_kernels s m of None \<Rightarrow> None
      | Some km \<Rightarrow>
          (case km name of None \<Rightarrow> None
           | Some infos \<Rightarrow>
               Some (s\<lparr> dynamic_ptrs := (dynamic_ptrs s)(func \<mapsto> infos),
                 dynamic_ptr_names := (dynamic_ptr_names s)(func \<mapsto> name) \<rparr>)))"

text \<open>The number of parameters and the size of all of them, both with 32 bits; nothing is written for a
  function that is not registered.\<close>

definition max_offset :: "KernelParamInfo \<Rightarrow> nat \<Rightarrow> nat" where
  "max_offset p mx =
     (let e = (kp_offset p + kp_size p) mod 2 ^ 64 in if e > mx then e mod 2 ^ 32 else mx)"

definition GetStaticKernelParams :: "nat \<Rightarrow> kernel_params \<Rightarrow> (nat \<times> nat) option" where
  "GetStaticKernelParams func s =
     map_option (\<lambda>infos. (length infos mod 2 ^ 32, fold max_offset infos 0)) (static_ptrs s func)"

section \<open>Commands\<close>

text \<open>Memory by address. A parameter is given by the address of its value.\<close>

type_synonym pmem = "nat \<Rightarrow> 8 word"

definition bytes_at :: "pmem \<Rightarrow> nat \<Rightarrow> nat \<Rightarrow> 8 word list" where
  "bytes_at m p n = map (\<lambda>i. m (p + i)) [0..<n]"

text \<open>The block that the command allocates for its copies, by offset; a copy outside of it is \<open>None\<close>.\<close>

definition memcpy_into :: "nat \<Rightarrow> pmem \<Rightarrow> nat \<times> nat \<times> nat \<Rightarrow> pmem \<Rightarrow> pmem option" where
  "memcpy_into sz mem c data =
     (case c of (off, n, src) \<Rightarrow>
        if off + n > sz then None
        else Some (\<lambda>i. if off \<le> i \<and> i < off + n then mem (src + (i - off)) else data i))"

fun copy_params :: "nat \<Rightarrow> pmem \<Rightarrow> (nat \<times> nat \<times> nat) list \<Rightarrow> pmem \<Rightarrow> pmem option" where
  "copy_params sz mem [] data = Some data"
| "copy_params sz mem (c # cs) data =
     (case memcpy_into sz mem c data of None \<Rightarrow> None | Some data' \<Rightarrow> copy_params sz mem cs data')"

text \<open>A command has the program's array of addresses and its own one, whose entries are offsets in the block
  \<open>hk_data\<close>, or the copy of a buffer with all parameters.\<close>

record hip_kernel =
  hk_original :: "nat list option"
  hk_extra :: "nat option"
  hk_params :: "nat list option"
  hk_data :: pmem
  hk_buffer :: "8 word list option"

definition copies_of :: "KernelParamInfo list \<Rightarrow> nat list \<Rightarrow> (nat \<times> nat \<times> nat) list" where
  "copies_of infos srcs = map (\<lambda>(p, src). (kp_offset p, kp_size p, src)) (zip infos srcs)"

text \<open>\<open>mem\<close> is the program's memory at the submission, \<open>params\<close> its array. For a function that is not
  registered the number of parameters is not set, and an array with fewer entries than the kernel has
  parameters is read beyond its end (\<open>None\<close>).\<close>

definition HipStaticKernelLaunchCommand ::
  "kernel_params \<Rightarrow> nat \<Rightarrow> nat list \<Rightarrow> bool \<Rightarrow> pmem \<Rightarrow> hip_kernel option" where
  "HipStaticKernelLaunchCommand s func params copy mem =
     (let cmd = \<lparr> hk_original = Some params, hk_extra = None, hk_params = None, hk_data = (\<lambda>_. 0), hk_buffer = None \<rparr> in
      if \<not> copy then Some cmd
      else case (GetStaticKernelParams func s, static_ptrs s func) of
          (Some (cnt, sz), Some infos) \<Rightarrow>
            if cnt = 0 then Some cmd
            else if length params < cnt then None
            else map_option (\<lambda>data. cmd\<lparr> hk_params := Some (map kp_offset (take cnt infos)), hk_data := data \<rparr>)
              (copy_params sz mem (copies_of (take cnt infos) params) (\<lambda>_. 0))
        | _ \<Rightarrow> None)"

text \<open>The parameters of a function of a module, as the driver knows them: \<open>infos\<close>. The size of all is taken
  from the last one; when there is none, the entry \<open>2 ^ 32 - 1\<close> is read, which does not exist. With \<open>extra\<close>
  all parameters are in one buffer, given by its address and size.\<close>

definition HipDynamicKernelLaunchCommand ::
  "KernelParamInfo list \<Rightarrow> nat list option \<Rightarrow> (nat \<times> nat) option \<Rightarrow> bool \<Rightarrow> pmem \<Rightarrow> hip_kernel option" where
  "HipDynamicKernelLaunchCommand infos params extra copy mem =
     (let cmd = \<lparr> hk_original = params, hk_extra = map_option fst extra, hk_params = None, hk_data = (\<lambda>_. 0), hk_buffer = None \<rparr> in
      if \<not> copy then Some cmd
      else if infos = [] then None
      else case (params, extra) of
          (None, Some (buf, n)) \<Rightarrow> Some (cmd\<lparr> hk_buffer := Some (bytes_at mem buf n) \<rparr>)
        | (None, None) \<Rightarrow> None
        | (Some srcs, _) \<Rightarrow>
            if length srcs < length infos then None
            else map_option (\<lambda>data. cmd\<lparr> hk_params := Some (map kp_offset infos), hk_data := data \<rparr>)
              (copy_params ((kp_offset (last infos) + kp_size (last infos)) mod 2 ^ 32) mem (copies_of infos srcs) (\<lambda>_. 0)))"

text \<open>What the driver reads at the launch, when the program's memory is \<open>mem\<close>: the values of the parameters
  or the buffer. \<open>NoArgs\<close> is a launch with neither, or with both at once, which the driver refuses.\<close>

datatype kernel_args = ArgValues "8 word list list" | ArgBuffer "8 word list" | NoArgs

definition HipKernelLaunchCommand_Launch :: "KernelParamInfo list \<Rightarrow> hip_kernel \<Rightarrow> pmem \<Rightarrow> kernel_args" where
  "HipKernelLaunchCommand_Launch infos cmd mem =
     (case hk_params cmd of None \<Rightarrow> NoArgs
      | Some offs \<Rightarrow> ArgValues (map (\<lambda>(p, off). bytes_at (hk_data cmd) off (kp_size p)) (zip infos offs)))"

definition HipModuleKernelLaunchCommand_Launch :: "KernelParamInfo list \<Rightarrow> hip_kernel \<Rightarrow> pmem \<Rightarrow> kernel_args" where
  "HipModuleKernelLaunchCommand_Launch infos cmd mem =
     (case (hk_original cmd, hk_extra cmd) of
        (Some _, Some _) \<Rightarrow> NoArgs
      | (None, Some _) \<Rightarrow> (case hk_buffer cmd of None \<Rightarrow> NoArgs | Some b \<Rightarrow> ArgBuffer b)
      | (Some srcs, None) \<Rightarrow> ArgValues (map (\<lambda>(p, src). bytes_at mem src (kp_size p)) (zip infos srcs))
      | (None, None) \<Rightarrow> NoArgs)"

section \<open>A copied parameter is the one that was submitted\<close>

definition apart :: "KernelParamInfo \<Rightarrow> KernelParamInfo \<Rightarrow> bool" where
  "apart p q \<longleftrightarrow> kp_offset p + kp_size p \<le> kp_offset q \<or> kp_offset q + kp_size q \<le> kp_offset p"

text \<open>The size that is computed covers every parameter, as long as no sum exceeds 32 bits.\<close>

lemma fold_max_ge:
  assumes "\<forall>p \<in> set infos. kp_offset p + kp_size p < 2 ^ 32"
  shows "mx \<le> fold max_offset infos mx \<and> (\<forall>p \<in> set infos. kp_offset p + kp_size p \<le> fold max_offset infos mx)"
  using assms
proof (induction infos arbitrary: mx)
  case (Cons p infos)
  have "mx \<le> max_offset p mx" "kp_offset p + kp_size p \<le> max_offset p mx"
    using Cons.prems by (auto simp: max_offset_def Let_def)
  then show ?case using Cons.IH [of "max_offset p mx"] Cons.prems by auto
qed simp

lemma bytes_at_cong: "(\<And>i. p \<le> i \<Longrightarrow> i < p + n \<Longrightarrow> m i = m' i) \<Longrightarrow> bytes_at m p n = bytes_at m' p n"
  by (simp add: bytes_at_def)

text \<open>A sequence of copies into ranges of the block, of which no two overlap, leaves each value in its range.\<close>

lemma copy_params_values:
  assumes "length srcs = length infos" "\<forall>p \<in> set infos. kp_offset p + kp_size p \<le> sz" "sorted_wrt apart infos"
  shows "\<exists>data'. copy_params sz mem (copies_of infos srcs) data = Some data'
    \<and> (\<forall>i. (\<forall>p \<in> set infos. i < kp_offset p \<or> kp_offset p + kp_size p \<le> i) \<longrightarrow> data' i = data i)
    \<and> (\<forall>(p, src) \<in> set (zip infos srcs). bytes_at data' (kp_offset p) (kp_size p) = bytes_at mem src (kp_size p))"
  using assms
proof (induction infos srcs arbitrary: data rule: list_induct2')
  case (4 p infos src srcs)
  let ?d = "\<lambda>i. if kp_offset p \<le> i \<and> i < kp_offset p + kp_size p then mem (src + (i - kp_offset p)) else data i"
  obtain data' where d: "copy_params sz mem (copies_of infos srcs) ?d = Some data'"
    "\<And>i. \<forall>q \<in> set infos. i < kp_offset q \<or> kp_offset q + kp_size q \<le> i \<Longrightarrow> data' i = ?d i"
    "\<forall>(q, src) \<in> set (zip infos srcs). bytes_at data' (kp_offset q) (kp_size q) = bytes_at mem src (kp_size q)"
    using "4.IH" [of ?d] "4.prems" by auto
  have "bytes_at data' (kp_offset p) (kp_size p) = bytes_at ?d (kp_offset p) (kp_size p)"
    by (rule bytes_at_cong, rule d(2)) (use "4.prems"(3) in \<open>fastforce simp: apart_def\<close>)
  also have "\<dots> = bytes_at mem src (kp_size p)" by (simp add: bytes_at_def)
  finally show ?case
    using d "4.prems"(2) by (auto simp: copies_of_def memcpy_into_def)
qed (simp_all add: copies_of_def)

text \<open>A kernel of the program itself is launched with the values that its parameters had when it was
  submitted, whatever the program has made of their memory since, and no copy leaves its block.\<close>

theorem hip_kernel_keeps_parameters:
  assumes "static_ptrs s func = Some infos" "length params = length infos" "sorted_wrt apart infos"
    "length infos < 2 ^ 32" "\<forall>p \<in> set infos. kp_offset p + kp_size p < 2 ^ 32"
  shows "\<exists>cmd. HipStaticKernelLaunchCommand s func params True mem = Some cmd
    \<and> HipKernelLaunchCommand_Launch infos cmd mem' =
      (if infos = [] then NoArgs else ArgValues (map (\<lambda>(p, src). bytes_at mem src (kp_size p)) (zip infos params)))"
proof (cases "infos = []")
  case True
  then show ?thesis
    using assms(1) by (simp add: HipStaticKernelLaunchCommand_def HipKernelLaunchCommand_Launch_def GetStaticKernelParams_def)
next
  case False
  obtain sz where sz: "GetStaticKernelParams func s = Some (length infos, sz)" "\<forall>p \<in> set infos. kp_offset p + kp_size p \<le> sz"
    using fold_max_ge [OF assms(5), of 0] assms(1,4) by (auto simp: GetStaticKernelParams_def)
  obtain data where d: "copy_params sz mem (copies_of infos params) (\<lambda>_. 0) = Some data"
    "\<forall>(p, src) \<in> set (zip infos params). bytes_at data (kp_offset p) (kp_size p) = bytes_at mem src (kp_size p)"
    using copy_params_values [OF assms(2) sz(2) assms(3)] by blast
  have "map (\<lambda>(p, off). bytes_at data off (kp_size p)) (zip infos (map kp_offset infos)) =
      map (\<lambda>(p, src). bytes_at mem src (kp_size p)) (zip infos params)"
    using d(2) assms(2) by (auto simp: list_eq_iff_nth_eq [of "map _ _"] set_zip)
  then show ?thesis
    using False sz(1) d(1) assms(1,2) by (simp add: HipStaticKernelLaunchCommand_def HipKernelLaunchCommand_Launch_def Let_def)
qed

text \<open>The parameters that the metadata lists are the ones that a launch copies.\<close>

lemma registered_function:
  "static_names s name = Some infos \<Longrightarrow> static_ptrs (RegisterStaticFunction func name s) func = Some infos"
  by (simp add: RegisterStaticFunction_def Let_def)

definition ex_meta :: "kernel_meta list" where
  "ex_meta = [(''add'',
     Some [Some [(''.offset'', ''0''), (''.size'', ''1''), (''.value_kind'', ''by_value'')],
       Some [(''.offset'', ''4''), (''.size'', ''2''), (''.value_kind'', ''global_buffer'')],
       Some [(''.offset'', ''8''), (''.size'', ''8''), (''.value_kind'', ''hidden_none'')]])]"

definition ex_infos :: "KernelParamInfo list" where
  "ex_infos = [\<lparr> kp_size = 1, kp_offset = 0 \<rparr>, \<lparr> kp_size = 2, kp_offset = 4 \<rparr>]"

lemma ex_meta_infos:
  "map_option (\<lambda>m. m ''add'') (registerForOneISA \<lparr> kp_size = 7, kp_offset = 7 \<rparr> ex_meta (\<lambda>_. None)) = Some (Some ex_infos)"
  by code_simp

definition ex_kernels :: kernel_params where
  "ex_kernels = \<lparr> static_names = [''add'' \<mapsto> ex_infos], static_ptrs = (\<lambda>_. None), static_ptr_names = (\<lambda>_. None),
     module_kernels = (\<lambda>_. None), dynamic_ptrs = (\<lambda>_. None), dynamic_ptr_names = (\<lambda>_. None) \<rparr>"

theorem hip_kernel_keeps_parameters_witness:
  "\<exists>cmd. HipStaticKernelLaunchCommand (RegisterStaticFunction 64 ''add'' ex_kernels) 64 [100, 200] True (\<lambda>a. of_nat a) = Some cmd
    \<and> HipKernelLaunchCommand_Launch ex_infos cmd (\<lambda>_. 0) = ArgValues [[100], [200, 201]]"
proof -
  have "static_ptrs (RegisterStaticFunction 64 ''add'' ex_kernels) 64 = Some ex_infos"
    by (rule registered_function) (simp add: ex_kernels_def)
  from hip_kernel_keeps_parameters [OF this, of "[100, 200]" "\<lambda>a. of_nat a" "\<lambda>_. 0"]
  show ?thesis by (simp add: ex_infos_def apart_def bytes_at_def upt_rec)
qed

section \<open>Where the copies are not used\<close>

text \<open>A function of a module is launched with the program's own array: what the program has written there
  since is what the kernel gets.\<close>

lemma hip_module_kernel_reads_program_memory:
  assumes "HipDynamicKernelLaunchCommand infos (Some srcs) None copy mem = Some cmd"
  shows "HipModuleKernelLaunchCommand_Launch infos cmd mem' =
    ArgValues (map (\<lambda>(p, src). bytes_at mem' src (kp_size p)) (zip infos srcs))"
  using assms
  by (auto simp: HipDynamicKernelLaunchCommand_def HipModuleKernelLaunchCommand_Launch_def Let_def split: if_splits)

text \<open>A buffer with all parameters is copied, and the copy is used.\<close>

lemma hip_module_kernel_keeps_buffer:
  "infos \<noteq> [] \<Longrightarrow> map_option (\<lambda>cmd. HipModuleKernelLaunchCommand_Launch infos cmd mem')
      (HipDynamicKernelLaunchCommand infos None (Some (buf, n)) True mem) = Some (ArgBuffer (bytes_at mem buf n))"
  by (simp add: HipDynamicKernelLaunchCommand_def HipModuleKernelLaunchCommand_Launch_def Let_def)

text \<open>A kernel without a list of arguments ends the program when its code object is registered; the launch
  of a module's function without parameters reads an entry that does not exist.\<close>

lemma kernel_without_args_aborts: "registerForOneISA junk ((name, None) # ks) m = None"
  by simp

lemma module_function_without_params_fails: "HipDynamicKernelLaunchCommand [] params extra True mem = None"
  by (simp add: HipDynamicKernelLaunchCommand_def)

end
