(* ===== verification/AclObjects.thy ===== *)
theory AclObjects
  imports Prelude "HOL-Library.Multiset"
begin

text \<open>
  Operands of the Ascend platform (\<^verbatim>\<open>platforms/ascend/hal/src/acl_command.cpp\<close> and \<open>XopCompileAndExecute\<close>
  in \<^verbatim>\<open>platforms/ascend/shim/src/shim.cpp\<close>). The descriptors of tensors, the buffers and the attributes
  that a program passes to an operator are objects of the driver, which the program may destroy as soon
  as the call has returned. An operator on an XQueue is launched later, so each object gets a wrapper that
  its commands share, and is destroyed with the wrapper.
\<close>

section \<open>Wrappers\<close>

text \<open>The three classes of wrappers have the same code and a map each; an object of the driver is its class
  and its address.\<close>

datatype acl_class = TensorDesc | DataBuffer | OpAttr

type_synonym acl_object = "acl_class \<times> nat"

text \<open>The maps, what each wrapper holds, and its number of references; the commands that wait or run, by the
  wrappers they refer to; the objects that exist in the driver.\<close>

record acl =
  acl_wrappers :: "acl_object \<Rightarrow> nat option"
  holds :: "nat \<Rightarrow> acl_object"
  use_count :: "nat \<Rightarrow> nat"
  next_wrapper :: nat
  acl_cmds :: "nat list list"
  alive :: "acl_object set"

definition acl_init :: acl where
  "acl_init = \<lparr> acl_wrappers = (\<lambda>_. None), holds = (\<lambda>_. (TensorDesc, 0)), use_count = (\<lambda>_. 0),
     next_wrapper = 0, acl_cmds = [], alive = {} \<rparr>"

text \<open>The driver; to destroy what does not exist is \<open>None\<close>.\<close>

definition driver_destroy :: "acl_object \<Rightarrow> acl \<Rightarrow> acl option" where
  "driver_destroy p s = (if p \<in> alive s then Some (s\<lparr> alive := alive s - {p} \<rparr>) else None)"

text \<open>The map has a reference to a wrapper, and so has the caller. The wrapper of a null pointer destroys
  nothing.\<close>

definition wrapper_Create :: "acl_object \<Rightarrow> acl \<Rightarrow> nat \<times> acl" where
  "wrapper_Create p s =
     (case acl_wrappers s p of
        Some w \<Rightarrow> (w, s\<lparr> use_count := (use_count s)(w := use_count s w + 1) \<rparr>)
      | None \<Rightarrow>
          (let w = next_wrapper s in
           (w, s\<lparr> acl_wrappers := (acl_wrappers s)(p \<mapsto> w), holds := (holds s)(w := p),
                use_count := (use_count s)(w := 2), next_wrapper := w + 1 \<rparr>)))"

definition drop_reference :: "nat \<Rightarrow> acl \<Rightarrow> acl option" where
  "drop_reference w s =
     (let s1 = s\<lparr> use_count := (use_count s)(w := use_count s w - 1) \<rparr> in
      if use_count s1 w = 0 \<and> snd (holds s1 w) \<noteq> 0 then driver_destroy (holds s1 w) s1 else Some s1)"

fun drop_references :: "nat list \<Rightarrow> acl \<Rightarrow> acl option" where
  "drop_references [] s = Some s"
| "drop_references (w # ws) s = (case drop_reference w s of None \<Rightarrow> None | Some s' \<Rightarrow> drop_references ws s')"

text \<open>Whether there was a wrapper.\<close>

definition wrapper_Destroy :: "acl_object \<Rightarrow> acl \<Rightarrow> (bool \<times> acl) option" where
  "wrapper_Destroy p s =
     (case acl_wrappers s p of
        None \<Rightarrow> Some (False, s)
      | Some w \<Rightarrow> map_option (Pair True) (drop_reference w (s\<lparr> acl_wrappers := (acl_wrappers s)(p := None) \<rparr>)))"

section \<open>Operators\<close>

record acl_operator =
  op_inputs :: "(nat \<times> nat) list"
  op_outputs :: "(nat \<times> nat) list"
  op_attr :: nat

definition operands :: "acl_operator \<Rightarrow> acl_object list" where
  "operands x =
     concat (map (\<lambda>(d, b). [(TensorDesc, d), (DataBuffer, b)]) (op_inputs x))
     @ concat (map (\<lambda>(d, b). [(TensorDesc, d), (DataBuffer, b)]) (op_outputs x)) @ [(OpAttr, op_attr x)]"

fun wrap_all :: "acl_object list \<Rightarrow> acl \<Rightarrow> nat list \<times> acl" where
  "wrap_all [] s = ([], s)"
| "wrap_all (p # ps) s =
     (case wrapper_Create p s of (w, s1) \<Rightarrow> (case wrap_all ps s1 of (ws, s2) \<Rightarrow> (w # ws, s2)))"

text \<open>Without an XQueue the driver executes the operator at once, with \<open>used\<close>: the objects have to exist.\<close>

definition used :: "acl_object list \<Rightarrow> acl \<Rightarrow> acl option" where
  "used ps s = (if set ps \<subseteq> alive s then Some s else None)"

definition XopCompileAndExecute :: "bool \<Rightarrow> acl_operator \<Rightarrow> acl \<Rightarrow> acl option" where
  "XopCompileAndExecute has_xq x s =
     (if \<not> has_xq then used (operands x) s
      else (case wrap_all (operands x) s of (ws, s1) \<Rightarrow> Some (s1\<lparr> acl_cmds := acl_cmds s1 @ [ws] \<rparr>)))"

definition AclOpCompileAndExecuteCommand_Launch :: "nat \<Rightarrow> acl \<Rightarrow> acl option" where
  "AclOpCompileAndExecuteCommand_Launch i s =
     (if i < length (acl_cmds s) then used (map (holds s) (acl_cmds s ! i)) s else None)"

text \<open>The last reference to a command goes: so do its references.\<close>

definition remove_nth :: "nat \<Rightarrow> 'a list \<Rightarrow> 'a list" where
  "remove_nth i xs = take i xs @ drop (Suc i) xs"

definition AclOpCompileAndExecuteCommand_destroy :: "nat \<Rightarrow> acl \<Rightarrow> acl option" where
  "AclOpCompileAndExecuteCommand_destroy i s =
     (if i < length (acl_cmds s)
      then drop_references (acl_cmds s ! i) (s\<lparr> acl_cmds := remove_nth i (acl_cmds s) \<rparr>) else None)"

text \<open>\<^verbatim>\<open>XDestroyTensorDesc\<close>, \<^verbatim>\<open>XDestroyDataBuffer\<close> and \<^verbatim>\<open>XopDestroyAttr\<close>.\<close>

definition XDestroy :: "acl_object \<Rightarrow> acl \<Rightarrow> acl option" where
  "XDestroy p s =
     (case wrapper_Destroy p s of None \<Rightarrow> None
      | Some (wrapped, s1) \<Rightarrow> if wrapped then Some s1 else driver_destroy p s1)"

text \<open>What happens: the driver creates an object for the program, at an address that is not in use nor null; the program
  destroys one or executes an operator; a launch worker launches the command \<open>i\<close>, or its last reference
  goes.\<close>

datatype acl_op =
    NewObject acl_object | DestroyObject acl_object | ExecuteOp bool acl_operator | LaunchOp nat | FinishOp nat

fun acl_exec :: "acl_op \<Rightarrow> acl \<Rightarrow> acl option" where
  "acl_exec (NewObject p) s = (if p \<in> alive s \<or> snd p = 0 then None else Some (s\<lparr> alive := insert p (alive s) \<rparr>))"
| "acl_exec (DestroyObject p) s = XDestroy p s"
| "acl_exec (ExecuteOp has_xq x) s = XopCompileAndExecute has_xq x s"
| "acl_exec (LaunchOp i) s = AclOpCompileAndExecuteCommand_Launch i s"
| "acl_exec (FinishOp i) s = AclOpCompileAndExecuteCommand_destroy i s"

fun acl_run :: "acl_op list \<Rightarrow> acl \<Rightarrow> acl option" where
  "acl_run [] s = Some s"
| "acl_run (a # as) s = (case acl_exec a s of None \<Rightarrow> None | Some s' \<Rightarrow> acl_run as s')"

section \<open>What a program may rely on\<close>

text \<open>The objects that the program has, and the operators that wait or run with the objects they were given. A
  program destroys only what it has, and passes only what it has; the driver does not give out the address of
  an object that exists.\<close>

fun use_step :: "acl_op \<Rightarrow> acl_object set \<times> acl_object list list \<Rightarrow> (acl_object set \<times> acl_object list list) option" where
  "use_step (NewObject p) (own, cs) = (if p \<in> own \<union> set (concat cs) \<or> snd p = 0 then None else Some (insert p own, cs))"
| "use_step (DestroyObject p) (own, cs) = (if p \<in> own then Some (own - {p}, cs) else None)"
| "use_step (ExecuteOp has_xq x) (own, cs) =
     (if set (operands x) \<subseteq> own then Some (own, if has_xq then cs @ [operands x] else cs) else None)"
| "use_step (LaunchOp i) (own, cs) = (if i < length cs then Some (own, cs) else None)"
| "use_step (FinishOp i) (own, cs) = (if i < length cs then Some (own, remove_nth i cs) else None)"

fun use_run :: "acl_op list \<Rightarrow> acl_object set \<times> acl_object list list \<Rightarrow> (acl_object set \<times> acl_object list list) option" where
  "use_run [] u = Some u"
| "use_run (a # as) u = (case use_step a u of None \<Rightarrow> None | Some u' \<Rightarrow> use_run as u')"

section \<open>References are counted right\<close>

text \<open>\<open>M\<close> are the references to wrappers apart from those of the maps, \<open>own\<close> the objects of the program. Every
  wrapper has as many references as are counted; two wrappers that are referred to hold different objects; an
  object of the program that a command refers to has its wrapper in the map; what exists is what the program has
  or a command refers to, and has an address.\<close>

definition refs_ok :: "nat multiset \<Rightarrow> acl_object set \<Rightarrow> acl \<Rightarrow> bool" where
  "refs_ok M own s \<longleftrightarrow>
     (\<forall>p w. acl_wrappers s p = Some w \<longrightarrow> holds s w = p \<and> w < next_wrapper s \<and> p \<in> own)
     \<and> (\<forall>w \<in># M. w < next_wrapper s \<and> (holds s w \<in> own \<longrightarrow> acl_wrappers s (holds s w) = Some w))
     \<and> inj_on (holds s) (set_mset M)
     \<and> (\<forall>w. use_count s w = count M w + (if acl_wrappers s (holds s w) = Some w then 1 else 0))
     \<and> alive s = own \<union> holds s ` set_mset M \<and> (\<forall>p \<in> alive s. snd p \<noteq> 0)"

lemma refs_okD:
  assumes "refs_ok M own s"
  shows "acl_wrappers s p = Some w \<Longrightarrow> holds s w = p \<and> w < next_wrapper s \<and> p \<in> own"
    "w \<in># M \<Longrightarrow> w < next_wrapper s" "w \<in># M \<Longrightarrow> holds s w \<in> own \<Longrightarrow> acl_wrappers s (holds s w) = Some w"
    "inj_on (holds s) (set_mset M)"
    "use_count s w = count M w + (if acl_wrappers s (holds s w) = Some w then 1 else 0)"
    "alive s = own \<union> holds s ` set_mset M" "p \<in> alive s \<Longrightarrow> snd p \<noteq> 0"
  using assms unfolding refs_ok_def by blast+

lemma refs_okI:
  assumes "\<And>p w. acl_wrappers s p = Some w \<Longrightarrow> holds s w = p \<and> w < next_wrapper s \<and> p \<in> own"
    "\<And>w. w \<in># M \<Longrightarrow> w < next_wrapper s" "\<And>w. w \<in># M \<Longrightarrow> holds s w \<in> own \<Longrightarrow> acl_wrappers s (holds s w) = Some w"
    "inj_on (holds s) (set_mset M)"
    "\<And>w. use_count s w = count M w + (if acl_wrappers s (holds s w) = Some w then 1 else 0)"
    "alive s = own \<union> holds s ` set_mset M" "\<And>p. p \<in> alive s \<Longrightarrow> snd p \<noteq> 0"
  shows "refs_ok M own s"
  using assms unfolding refs_ok_def by blast

lemma drop_reference_ok:
  assumes r: "refs_ok (add_mset w M) own s"
  shows "\<exists>s'. drop_reference w s = Some s' \<and> refs_ok M own s' \<and> holds s' = holds s
    \<and> acl_cmds s' = acl_cmds s \<and> acl_wrappers s' = acl_wrappers s"
proof (cases "w \<in># M \<or> acl_wrappers s (holds s w) = Some w")
  case True
  let ?s = "s\<lparr> use_count := (use_count s)(w := use_count s w - 1) \<rparr>"
  have h: "holds s w \<in> own \<union> holds s ` set_mset M"
    using True refs_okD(1) [OF r, of "holds s w" w] by auto
  have "refs_ok M own ?s"
  proof (rule refs_okI)
    show "alive ?s = own \<union> holds ?s ` set_mset M" using h refs_okD(6) [OF r] by auto
    show "inj_on (holds ?s) (set_mset M)" using refs_okD(4) [OF r] by (simp add: inj_on_def)
    fix v
    show "use_count ?s v = count M v + (if acl_wrappers ?s (holds ?s v) = Some v then 1 else 0)"
      using refs_okD(5) [OF r, of v] by (cases "v = w") auto
  qed (use refs_okD(1) [OF r] refs_okD(2,3,7) [OF r] in simp_all)
  moreover have "use_count ?s w \<noteq> 0" using True refs_okD(5) [OF r, of w] by auto
  ultimately show ?thesis by (simp add: drop_reference_def)
next
  case False
  let ?s = "s\<lparr> use_count := (use_count s)(w := use_count s w - 1), alive := alive s - {holds s w} \<rparr>"
  have n: "holds s w \<notin> own" "holds s w \<notin> holds s ` set_mset M"
    using False refs_okD(3) [OF r, of w] refs_okD(4) [OF r] by auto
  have "refs_ok M own ?s"
  proof (rule refs_okI)
    show "alive ?s = own \<union> holds ?s ` set_mset M" using n refs_okD(6) [OF r] by auto
    show "inj_on (holds ?s) (set_mset M)" using refs_okD(4) [OF r] by (simp add: inj_on_def)
    fix v
    show "use_count ?s v = count M v + (if acl_wrappers ?s (holds ?s v) = Some v then 1 else 0)"
      using refs_okD(5) [OF r, of v] by (cases "v = w") auto
  qed (use refs_okD(1) [OF r] refs_okD(2,3,7) [OF r] in simp_all)
  moreover have "holds s w \<in> alive s" "use_count s w = 1"
    using False refs_okD(5,6) [OF r] by (auto simp: not_in_iff)
  moreover have "snd (holds s w) \<noteq> 0" using refs_okD(6,7) [OF r] by simp
  ultimately show ?thesis by (simp add: drop_reference_def driver_destroy_def)
qed

lemma drop_references_ok:
  "refs_ok (mset ws + M) own s \<Longrightarrow>
    \<exists>s'. drop_references ws s = Some s' \<and> refs_ok M own s' \<and> holds s' = holds s \<and> acl_cmds s' = acl_cmds s"
proof (induction ws arbitrary: s)
  case (Cons w ws)
  obtain s1 where s1: "drop_reference w s = Some s1" "refs_ok (mset ws + M) own s1" "holds s1 = holds s" "acl_cmds s1 = acl_cmds s"
    using drop_reference_ok [of w "mset ws + M" own s] Cons.prems by auto
  then show ?case using Cons.IH [OF s1(2)] by auto
qed simp

lemma wrapper_Create_ok:
  assumes r: "refs_ok M own s" and p: "p \<in> own" and c: "wrapper_Create p s = (w, s')"
  shows "refs_ok (add_mset w M) own s' \<and> holds s' w = p \<and> (\<forall>v < next_wrapper s. holds s' v = holds s v)
    \<and> next_wrapper s \<le> next_wrapper s' \<and> w < next_wrapper s' \<and> acl_cmds s' = acl_cmds s"
proof (cases "acl_wrappers s p")
  case (Some v)
  then have s': "w = v" "s' = s\<lparr> use_count := (use_count s)(w := use_count s w + 1) \<rparr>"
    using c by (auto simp: wrapper_Create_def)
  have w: "acl_wrappers s p = Some w" "holds s w = p" "w < next_wrapper s" using Some s'(1) refs_okD(1) [OF r Some] by auto
  have one: "v = w" if "v \<in># M" "holds s v = p" for v using refs_okD(3) [OF r that(1)] that(2) p w(1) by simp
  have "refs_ok (add_mset w M) own s'"
  proof (rule refs_okI)
    show "inj_on (holds s') (set_mset (add_mset w M))"
      using refs_okD(4) [OF r] one w(2) s'(2) by (auto simp: inj_on_def)
    show "alive s' = own \<union> holds s' ` set_mset (add_mset w M)" using refs_okD(6) [OF r] w(2) p s'(2) by auto
    fix v
    show "use_count s' v = count (add_mset w M) v + (if acl_wrappers s' (holds s' v) = Some v then 1 else 0)"
      using refs_okD(5) [OF r, of v] s'(2) by (cases "v = w") auto
  next
    fix v
    assume v: "v \<in># add_mset w M"
    show "v < next_wrapper s'" using v refs_okD(2) [OF r, of v] w(3) s'(2) by auto
    show "holds s' v \<in> own \<Longrightarrow> acl_wrappers s' (holds s' v) = Some v"
      using v refs_okD(3) [OF r, of v] w(1,2) s'(2) by auto
  qed (use refs_okD(1,7) [OF r] s'(2) in simp_all)
  then show ?thesis using w s'(2) by simp
next
  case None
  then have w: "w = next_wrapper s" "s' = s\<lparr> acl_wrappers := (acl_wrappers s)(p \<mapsto> w), holds := (holds s)(w := p),
      use_count := (use_count s)(w := 2), next_wrapper := w + 1 \<rparr>"
    using c by (auto simp: wrapper_Create_def Let_def)
  have new: "w \<notin># M" "\<And>q v. acl_wrappers s q = Some v \<Longrightarrow> v \<noteq> w" "\<And>v. v \<in># M \<Longrightarrow> holds s v \<noteq> p"
    using refs_okD(1) [OF r] refs_okD(2,3) [OF r] w(1) None p by (auto simp: nat_neq_iff)
  have img: "holds s' ` set_mset M = holds s ` set_mset M" using new(1) w(2) by (auto simp: image_iff)
  have "refs_ok (add_mset w M) own s'"
  proof (rule refs_okI)
    show "inj_on (holds s') (set_mset (add_mset w M))"
      using refs_okD(4) [OF r] new(1,3) w(2) by (auto simp: inj_on_def)
    show "alive s' = own \<union> holds s' ` set_mset (add_mset w M)" using refs_okD(6) [OF r] img p w(2) by auto
    fix v
    show "use_count s' v = count (add_mset w M) v + (if acl_wrappers s' (holds s' v) = Some v then 1 else 0)"
    proof (cases "v = w")
      case True
      then show ?thesis using new(1) w(2) by (simp add: not_in_iff)
    next
      case False
      then show ?thesis using refs_okD(5) [OF r, of v] w(2) None by (cases "holds s v = p") simp_all
    qed
  next
    fix v
    assume v: "v \<in># add_mset w M"
    show "v < next_wrapper s'" using v refs_okD(2) [OF r, of v] w by auto
    show "holds s' v \<in> own \<Longrightarrow> acl_wrappers s' (holds s' v) = Some v"
      using v refs_okD(3) [OF r, of v] new(1,3) w(2) by auto
  next
    fix q v
    show "acl_wrappers s' q = Some v \<Longrightarrow> holds s' v = q \<and> v < next_wrapper s' \<and> q \<in> own"
      using refs_okD(1) [OF r, of q v] new(2) [of q v] w p by (auto split: if_splits)
    show "q \<in> alive s' \<Longrightarrow> snd q \<noteq> 0" using refs_okD(7) [OF r, of q] w by simp
  qed
  then show ?thesis using w by simp
qed

lemma wrap_all_ok:
  assumes "refs_ok M own s" "set ps \<subseteq> own" "wrap_all ps s = (ws, s')"
  shows "refs_ok (mset ws + M) own s' \<and> map (holds s') ws = ps \<and> (\<forall>v < next_wrapper s. holds s' v = holds s v)
    \<and> next_wrapper s \<le> next_wrapper s' \<and> acl_cmds s' = acl_cmds s"
  using assms
proof (induction ps arbitrary: M s ws)
  case (Cons p ps)
  obtain w s1 ws1 where 1: "wrapper_Create p s = (w, s1)" "wrap_all ps s1 = (ws1, s')" "ws = w # ws1"
    using Cons.prems(3) by (auto split: prod.splits)
  have c: "refs_ok (add_mset w M) own s1" "holds s1 w = p" "\<forall>v < next_wrapper s. holds s1 v = holds s v"
    "next_wrapper s \<le> next_wrapper s1" "w < next_wrapper s1" "acl_cmds s1 = acl_cmds s"
    using wrapper_Create_ok [OF Cons.prems(1) _ 1(1)] Cons.prems(2) by auto
  have i: "refs_ok (mset ws1 + add_mset w M) own s'" "map (holds s') ws1 = ps"
    "\<forall>v < next_wrapper s1. holds s' v = holds s1 v" "next_wrapper s1 \<le> next_wrapper s'" "acl_cmds s' = acl_cmds s1"
    using Cons.IH [OF c(1) _ 1(2)] Cons.prems(2) by auto
  show ?case using c(2-6) i 1(3) by auto
qed simp

text \<open>An object of the program is destroyed: its wrapper stays with the commands that refer to it.\<close>

lemma XDestroy_ok:
  assumes r: "refs_ok M own s" and p: "p \<in> own"
  shows "\<exists>s'. XDestroy p s = Some s' \<and> refs_ok M (own - {p}) s' \<and> holds s' = holds s \<and> acl_cmds s' = acl_cmds s"
proof (cases "acl_wrappers s p")
  case None
  have n: "p \<notin> holds s ` set_mset M" using refs_okD(3) [OF r] p None by auto
  have "refs_ok M (own - {p}) (s\<lparr> alive := alive s - {p} \<rparr>)"
  proof (rule refs_okI)
    fix q w
    assume "acl_wrappers (s\<lparr> alive := alive s - {p} \<rparr>) q = Some w"
    then show "holds (s\<lparr> alive := alive s - {p} \<rparr>) w = q \<and> w < next_wrapper (s\<lparr> alive := alive s - {p} \<rparr>) \<and> q \<in> own - {p}"
      using refs_okD(1) [OF r, of q w] None by auto
  next
    show "q \<in> alive (s\<lparr> alive := alive s - {p} \<rparr>) \<Longrightarrow> snd q \<noteq> 0" for q using refs_okD(7) [OF r, of q] by simp
  qed (use refs_okD(2-6) [OF r] n in \<open>auto simp: inj_on_def\<close>)
  then show ?thesis using p refs_okD(6) [OF r] None by (auto simp: XDestroy_def wrapper_Destroy_def driver_destroy_def)
next
  case (Some w)
  let ?s = "s\<lparr> acl_wrappers := (acl_wrappers s)(p := None) \<rparr>"
  have w: "holds s w = p" "w < next_wrapper s" using refs_okD(1) [OF r Some] by auto
  have one: "v = w" if "v \<in># M" "holds s v = p" for v using refs_okD(3) [OF r that(1)] that(2) p Some by simp
  have "refs_ok (add_mset w M) (own - {p}) ?s"
  proof (rule refs_okI)
    show "inj_on (holds ?s) (set_mset (add_mset w M))" using refs_okD(4) [OF r] one w(1) by (auto simp: inj_on_def)
    show "alive ?s = (own - {p}) \<union> holds ?s ` set_mset (add_mset w M)" using refs_okD(6) [OF r] w(1) p by auto
    fix v
    show "use_count ?s v = count (add_mset w M) v + (if acl_wrappers ?s (holds ?s v) = Some v then 1 else 0)"
    proof (cases "v = w")
      case True
      then show ?thesis using refs_okD(5) [OF r, of w] w(1) Some by simp
    next
      case False
      then show ?thesis using refs_okD(5) [OF r, of v] Some by (cases "holds s v = p") auto
    qed
  next
    fix q v
    show "acl_wrappers ?s q = Some v \<Longrightarrow> holds ?s v = q \<and> v < next_wrapper ?s \<and> q \<in> own - {p}"
      using refs_okD(1) [OF r, of q v] by (auto split: if_splits)
    show "q \<in> alive ?s \<Longrightarrow> snd q \<noteq> 0" using refs_okD(7) [OF r, of q] by simp
  next
    fix v
    assume v: "v \<in># add_mset w M"
    show "v < next_wrapper ?s" using v refs_okD(2) [OF r, of v] w(2) by auto
    show "holds ?s v \<in> own - {p} \<Longrightarrow> acl_wrappers ?s (holds ?s v) = Some v"
      using v refs_okD(3) [OF r, of v] w(1) by auto
  qed
  then obtain s' where "drop_reference w ?s = Some s'" "refs_ok M (own - {p}) s'" "holds s' = holds s" "acl_cmds s' = acl_cmds s"
    using drop_reference_ok [of w M "own - {p}" ?s] by auto
  then show ?thesis using Some by (simp add: XDestroy_def wrapper_Destroy_def)
qed

section \<open>Objects live as long as they are needed\<close>

text \<open>The state after a program has done \<open>u\<close>.\<close>

definition matches :: "acl_object set \<times> acl_object list list \<Rightarrow> acl \<Rightarrow> bool" where
  "matches u s \<longleftrightarrow> refs_ok (mset (concat (acl_cmds s))) (fst u) s \<and> map (map (holds s)) (acl_cmds s) = snd u"

lemma mset_concat_remove_nth:
  "i < length xs \<Longrightarrow> mset (concat xs) = mset (xs ! i) + mset (concat (remove_nth i xs))"
  by (subst (1) id_take_nth_drop [of i xs]) (simp_all add: remove_nth_def)

lemma map_remove_nth: "map f (remove_nth i xs) = remove_nth i (map f xs)"
  by (simp add: remove_nth_def take_map drop_map)

lemma set_concat_map_map: "set (concat (map (map f) xs)) = f ` set (concat xs)"
  by (induction xs) auto

lemma refs_ok_cmds [simp]: "refs_ok M own (s\<lparr> acl_cmds := cs \<rparr>) = refs_ok M own s"
  by (simp add: refs_ok_def)

lemma matches_alive: "matches (own, cs) s \<Longrightarrow> alive s = own \<union> set (concat cs)"
  using refs_okD(6) [of "mset (concat (acl_cmds s))" own s] set_concat_map_map [of "holds s" "acl_cmds s"]
  by (simp add: matches_def del: set_concat)

lemma acl_exec_ok:
  assumes m: "matches u s" and st: "use_step a u = Some u'"
  shows "\<exists>s'. acl_exec a s = Some s' \<and> matches u' s'"
proof -
  obtain own cs where u: "u = (own, cs)" by fastforce
  let ?M = "mset (concat (acl_cmds s))"
  have r: "refs_ok ?M own s" and cs: "map (map (holds s)) (acl_cmds s) = cs" using m u by (auto simp: matches_def)
  have al: "alive s = own \<union> set (concat cs)" using matches_alive m u by blast
  show ?thesis
  proof (cases a)
    case (NewObject p)
    then have p: "p \<notin> alive s" "snd p \<noteq> 0" "u' = (insert p own, cs)" using st u al by (auto split: if_splits)
    have "refs_ok ?M (insert p own) (s\<lparr> alive := insert p (alive s) \<rparr>)"
    proof (rule refs_okI)
      fix w
      assume w: "w \<in># ?M"
      then show "holds (s\<lparr> alive := insert p (alive s) \<rparr>) w \<in> insert p own \<Longrightarrow>
          acl_wrappers (s\<lparr> alive := insert p (alive s) \<rparr>) (holds (s\<lparr> alive := insert p (alive s) \<rparr>) w) = Some w"
        using refs_okD(3,6) [OF r] p(1) by auto
    next
      show "q \<in> alive (s\<lparr> alive := insert p (alive s) \<rparr>) \<Longrightarrow> snd q \<noteq> 0" for q
        using refs_okD(7) [OF r, of q] p(2) by auto
    qed (use refs_okD(1) [OF r] refs_okD(2,4,5,6) [OF r] in \<open>auto simp: inj_on_def\<close>)
    then show ?thesis using NewObject p cs by (simp add: matches_def)
  next
    case (DestroyObject p)
    then have p: "p \<in> own" "u' = (own - {p}, cs)" using st u by (auto split: if_splits)
    obtain s' where "XDestroy p s = Some s'" "refs_ok ?M (own - {p}) s'" "holds s' = holds s" "acl_cmds s' = acl_cmds s"
      using XDestroy_ok [OF r p(1)] by blast
    then show ?thesis using DestroyObject p cs by (simp add: matches_def)
  next
    case (ExecuteOp has_xq x)
    then have x: "set (operands x) \<subseteq> own" "u' = (own, if has_xq then cs @ [operands x] else cs)"
      using st u by (auto split: if_splits)
    show ?thesis
    proof (cases has_xq)
      case True
      obtain ws s1 where 1: "wrap_all (operands x) s = (ws, s1)" by fastforce
      have s1: "refs_ok (mset ws + ?M) own s1" "map (holds s1) ws = operands x"
        "\<forall>v < next_wrapper s. holds s1 v = holds s v" "acl_cmds s1 = acl_cmds s"
        using wrap_all_ok [OF r x(1) 1] by auto
      have "map (map (holds s1)) (acl_cmds s) = cs" using s1(3) refs_okD(2) [OF r] cs by fastforce
      then show ?thesis
        using True ExecuteOp x(2) 1 s1 by (simp add: XopCompileAndExecute_def matches_def add.commute)
    next
      case False
      have "set (operands x) \<subseteq> alive s" using x(1) al by auto
      then show ?thesis using False ExecuteOp x(2) m u by (simp add: XopCompileAndExecute_def used_def)
    qed
  next
    case (LaunchOp i)
    then have i: "i < length cs" "u' = u" using st u by (auto split: if_splits)
    then have "map (holds s) (acl_cmds s ! i) = cs ! i" "i < length (acl_cmds s)" using cs by auto
    moreover have "set (cs ! i) \<subseteq> alive s" using al i(1) by (auto dest: nth_mem)
    ultimately show ?thesis
      using LaunchOp i(2) m by (auto simp: AclOpCompileAndExecuteCommand_Launch_def used_def)
  next
    case (FinishOp i)
    then have i: "i < length (acl_cmds s)" "u' = (own, remove_nth i cs)" using st u cs by (auto split: if_splits)
    let ?s = "s\<lparr> acl_cmds := remove_nth i (acl_cmds s) \<rparr>"
    have "refs_ok ?M own ?s" using r by simp
    then have "refs_ok (mset (acl_cmds s ! i) + mset (concat (acl_cmds ?s))) own ?s"
      using mset_concat_remove_nth [OF i(1)] by simp
    then obtain s' where "drop_references (acl_cmds s ! i) ?s = Some s'" "refs_ok (mset (concat (acl_cmds ?s))) own s'"
      "holds s' = holds s" "acl_cmds s' = acl_cmds ?s"
      using drop_references_ok [of "acl_cmds s ! i" _ own ?s] by auto
    then show ?thesis
      using FinishOp i cs by (auto simp: AclOpCompileAndExecuteCommand_destroy_def matches_def map_remove_nth)
  qed
qed

lemma acl_run_ok: "matches u s \<Longrightarrow> use_run as u = Some u' \<Longrightarrow> \<exists>s'. acl_run as s = Some s' \<and> matches u' s'"
proof (induction as arbitrary: u s)
  case (Cons a as)
  then obtain u1 where 1: "use_step a u = Some u1" "use_run as u1 = Some u'" by (auto split: option.splits)
  obtain s1 where "acl_exec a s = Some s1" "matches u1 s1" using acl_exec_ok [OF Cons.prems(1) 1(1)] by blast
  then show ?case using Cons.IH 1(2) by simp
qed simp

text \<open>C40: However a program creates, uses and destroys its objects while operators wait for their launch, no
  operator is executed with an object that was destroyed, none is destroyed twice, and what exists in the
  driver is exactly what the program has and what operators that are not finished refer to.\<close>

theorem acl_objects_live_while_needed:
  assumes "use_run as ({}, []) = Some (own, cs)"
  shows "\<exists>s. acl_run as acl_init = Some s \<and> alive s = own \<union> set (concat cs)"
proof -
  have "matches ({}, []) acl_init" by (simp add: matches_def refs_ok_def acl_init_def)
  from acl_run_ok [OF this assms] show ?thesis using matches_alive by blast
qed

text \<open>The program destroys the operands of an operator before it is launched, and one of them is an operand
  of another operator.\<close>

definition ex_operator :: "nat \<Rightarrow> acl_operator" where
  "ex_operator d = \<lparr> op_inputs = [(1, 1)], op_outputs = [(d, 2)], op_attr = 1 \<rparr>"

definition ex_acl_ops :: "acl_op list" where
  "ex_acl_ops =
     [NewObject (TensorDesc, 1), NewObject (TensorDesc, 2), NewObject (DataBuffer, 1), NewObject (DataBuffer, 2),
      NewObject (OpAttr, 1), ExecuteOp True (ex_operator 2), ExecuteOp True (ex_operator 1),
      DestroyObject (TensorDesc, 1), DestroyObject (TensorDesc, 2), DestroyObject (OpAttr, 1),
      LaunchOp 0, FinishOp 0, LaunchOp 0]"

theorem acl_objects_live_while_needed_witness:
  "\<exists>s. acl_run ex_acl_ops acl_init = Some s \<and> (TensorDesc, 1) \<in> alive s \<and> (TensorDesc, 2) \<notin> alive s \<and> (OpAttr, 1) \<in> alive s"
proof -
  have "use_run ex_acl_ops ({}, []) = Some ({(DataBuffer, 1), (DataBuffer, 2)}, [operands (ex_operator 1)])"
    by (auto simp: ex_acl_ops_def ex_operator_def operands_def remove_nth_def)
  from acl_objects_live_while_needed [OF this] show ?thesis by (auto simp: operands_def ex_operator_def)
qed

end
