(* ===== verification/PlatformQueues.thy ===== *)
theory PlatformQueues
  imports CudaQueue XQueues ObjectPools
begin

text \<open>
  The hardware queues of VPI, cuDLA, HIP, Ascend, OpenCL and Level Zero (\<^verbatim>\<open>platforms/*/hal/src/*_queue.cpp\<close>)
  and how their commands are waited for (\<^verbatim>\<open>platforms/*/hal/src/*_command.cpp\<close>). A queue launches each command
  by a call of its driver and waits for its stream; the functions of a level that it does not have are those
  of the base class, which do nothing. All are queues in the sense of the locale \<open>hw_queue\<close>.
\<close>

section \<open>Devices\<close>

text \<open>\<^verbatim>\<open>utils/include/xsched/utils/pci.h\<close>\<close>

definition MakePciId :: "32 word \<Rightarrow> 32 word \<Rightarrow> 32 word \<Rightarrow> 32 word \<Rightarrow> 32 word" where
  "MakePciId domain bus device function = push_bit 16 domain OR push_bit 8 bus OR push_bit 3 device OR function"

text \<open>The numbers of the types of devices are those of \<^verbatim>\<open>cl.h\<close> and \<^verbatim>\<open>ze_api.h\<close>.\<close>

definition ocl_GetXDeviceType :: "64 word \<Rightarrow> xdevice_type" where
  "ocl_GetXDeviceType t =
     (if t = 2 then kDeviceTypeCPU else if t = 4 then kDeviceTypeGPU else if t = 8 then kDeviceTypeFPGA
      else kDeviceTypeUnknown)"

definition ze_GetXDeviceType :: "32 word \<Rightarrow> xdevice_type" where
  "ze_GetXDeviceType t =
     (if t = 1 then kDeviceTypeGPU else if t = 2 then kDeviceTypeCPU else if t = 3 then kDeviceTypeFPGA
      else if t = 4 then kDeviceTypeMCA else if t = 5 then kDeviceTypeNPU else kDeviceTypeUnknown)"

definition ZE_DEVICE_TYPE_VPU :: "32 word" where "ZE_DEVICE_TYPE_VPU = 5"

text \<open>What the driver answers to the questions of a constructor: the type of the device and its address, if it
  has one, or its number.\<close>

datatype pci_address = PciAddress "32 word" "32 word" "32 word" "32 word"

record device_info =
  di_cl_type :: "64 word"
  di_ze_type :: "32 word"
  di_number :: "32 word"
  di_pci :: "pci_address option"

section \<open>Queues\<close>

datatype pq_kind = VpiQueue | CudlaQueue | HipQueue | AclQueue | OclQueue | ZeQueue | ZeIntelNpuQueue | ZeList

record platform_queue =
  pq_kind :: pq_kind
  pq_device :: xdevice
  pq_context :: nat

text \<open>A device without an address has the id 0 with OpenCL; the other drivers always give one.\<close>

definition queue_device :: "pq_kind \<Rightarrow> device_info \<Rightarrow> xdevice" where
  "queue_device k i =
     (let pci = (case di_pci i of None \<Rightarrow> 0 | Some (PciAddress domain bus dev f) \<Rightarrow> MakePciId domain bus dev f) in
      case k of
        VpiQueue \<Rightarrow> MakeDevice (xdevice_type_code kDeviceTypeASIC) 0
      | CudlaQueue \<Rightarrow> MakeDevice (xdevice_type_code kDeviceTypeNPU) 0
      | HipQueue \<Rightarrow> MakeDevice (xdevice_type_code kDeviceTypeGPU)
          (case di_pci i of None \<Rightarrow> 0 | Some (PciAddress domain bus dev _) \<Rightarrow> MakePciId domain bus dev 0)
      | AclQueue \<Rightarrow> MakeDevice (xdevice_type_code kDeviceTypeNPU) (di_number i)
      | OclQueue \<Rightarrow> MakeDevice (xdevice_type_code (ocl_GetXDeviceType (di_cl_type i))) pci
      | _ \<Rightarrow> MakeDevice (xdevice_type_code (ze_GetXDeviceType (di_ze_type i))) pci)"

definition pq_GetMaxSupportedLevel :: "pq_kind \<Rightarrow> int" where
  "pq_GetMaxSupportedLevel k = (if k = ZeIntelNpuQueue then kPreemptLevelDeactivate else kPreemptLevelBlock)"

definition pq_SupportDynamicLevel :: "pq_kind \<Rightarrow> bool" where
  "pq_SupportDynamicLevel k \<longleftrightarrow> k = ZeIntelNpuQueue"

text \<open>The constructors wait until nothing runs on the stream, except the one of Ascend.\<close>

datatype pq_call =
    PqSynchronize | PqFlush | PqFinish | PqSetContext nat | PqLaunch nat | PqRecord nat
  | PqSuspendCmdq | PqResumeCmdq | PqMemorySuspend nat | PqMemoryResume nat

definition new_queue :: "pq_kind \<Rightarrow> device_info \<Rightarrow> nat \<Rightarrow> platform_queue \<times> pq_call list" where
  "new_queue k i ctx =
     (\<lparr> pq_kind = k, pq_device = queue_device k i, pq_context = ctx \<rparr>,
      case k of AclQueue \<Rightarrow> [] | OclQueue \<Rightarrow> [PqFlush, PqFinish] | _ \<Rightarrow> [PqSynchronize])"

text \<open>\<open>VpiQueueCreate\<close> and the others. The handle of a queue is its stream; \<open>None\<close> is the end of the program, for
  a command list of an NPU.\<close>

definition ze_queue_kind :: "pq_kind \<Rightarrow> bool" where
  "ze_queue_kind k \<longleftrightarrow> k = ZeQueue \<or> k = ZeIntelNpuQueue \<or> k = ZeList"

definition created_kind :: "pq_kind \<Rightarrow> device_info \<Rightarrow> pq_kind" where
  "created_kind k i =
     (if k = ZeQueue \<and> di_ze_type i = ZE_DEVICE_TYPE_VPU then ZeIntelNpuQueue else k)"

definition QueueCreate ::
  "pq_kind \<Rightarrow> bool \<Rightarrow> hwq_handle \<Rightarrow> bool \<Rightarrow> device_info \<Rightarrow> nat \<Rightarrow> xsys \<Rightarrow> (xresult \<times> hwq_handle option \<times> xsys) option" where
  "QueueCreate k hwq_given h dev_given i ctx s =
     (if \<not> hwq_given then Some (kXSchedErrorInvalidValue, None, s)
      else if h = 0 \<or> (ze_queue_kind k \<and> \<not> dev_given)
      then Some (if k = HipQueue then kXSchedErrorNotSupported else kXSchedErrorInvalidValue, None, s)
      else if hwqs s h = None \<and> k = ZeList \<and> di_ze_type i = ZE_DEVICE_TYPE_VPU then None
      else
        (let q = fst (new_queue (created_kind k i) i ctx);
             env = \<lparr> hq_device = pq_device q, hq_dynamic_level = pq_SupportDynamicLevel (pq_kind q),
               hq_max_level = pq_GetMaxSupportedLevel (pq_kind q), hq_accepts_level = (\<lambda>_. True) \<rparr> in
         map_option (\<lambda>(r, s'). (r, if r = kXSchedSuccess then Some h else None, s'))
           (HwQueueManager_Add h (Some (h, env)) s)))"

text \<open>What an XQueue calls, on a thread whose current context is \<open>here\<close>; \<open>ok\<close> tells whether a call of the
  driver succeeds, \<open>None\<close> is an assertion that fails. The NPU queue does not look at the answer.\<close>

fun checked :: "(pq_call \<Rightarrow> bool) \<Rightarrow> pq_call list \<Rightarrow> pq_call list option" where
  "checked ok cs = (if list_all ok cs then Some cs else None)"

definition pq_Synchronize :: "nat \<Rightarrow> platform_queue \<Rightarrow> pq_call list" where
  "pq_Synchronize here q =
     (case pq_kind q of
        OclQueue \<Rightarrow> [PqFlush, PqFinish]
      | AclQueue \<Rightarrow> (if here \<noteq> pq_context q then [PqSetContext (pq_context q)] else []) @ [PqSynchronize]
      | _ \<Rightarrow> [PqSynchronize])"

definition pq_OnXQueueCreate :: "platform_queue \<Rightarrow> pq_call list" where
  "pq_OnXQueueCreate q = (if pq_kind q \<in> {HipQueue, AclQueue} then [PqSetContext (pq_context q)] else [])"

text \<open>\<open>xq\<close> is the XQueue of the queue, 0 if it has none.\<close>

definition in_own_context :: "nat \<Rightarrow> platform_queue \<Rightarrow> pq_call \<Rightarrow> pq_call list" where
  "in_own_context here q c =
     (if pq_kind q \<noteq> AclQueue then []
      else if here \<noteq> pq_context q then [PqSetContext (pq_context q), c, PqSetContext here] else [c])"

fun pq_exec ::
  "(pq_call \<Rightarrow> bool) \<Rightarrow> nat \<Rightarrow> nat \<Rightarrow> hw_call \<Rightarrow> platform_queue \<Rightarrow> (platform_queue \<times> pq_call list) option" where
  "pq_exec ok xq here HwSynchronize q = map_option (Pair q) (checked ok (pq_Synchronize here q))"
| "pq_exec ok xq here HwDeactivate q = Some (q, if pq_kind q = ZeIntelNpuQueue then [PqSuspendCmdq] else [])"
| "pq_exec ok xq here (HwReactivate lg) q = Some (q, if pq_kind q = ZeIntelNpuQueue then [PqResumeCmdq] else [])"
| "pq_exec ok xq here HwInterrupt q = Some (q, [])"
| "pq_exec ok xq here (HwRestore lg) q = Some (q, [])"
| "pq_exec ok xq here (HwOnPreemptLevelChange l) q = Some (q, [])"
| "pq_exec ok xq here (HwOnHwCommandSubmit i) q = Some (q, [])"
| "pq_exec ok xq here HwOnXQueueSuspend q = map_option (Pair q) (checked ok (in_own_context here q (PqMemorySuspend xq)))"
| "pq_exec ok xq here HwBeforeXQueueResume q = map_option (Pair q) (checked ok (in_own_context here q (PqMemoryResume xq)))"

interpretation other_hwq: hw_queue "pq_exec (\<lambda>_. True) xq" "\<lambda>x q. True" for xq
proof
  fix x :: axq and st :: platform_queue and h and i :: nat
  show "\<exists>st' calls. pq_exec (\<lambda>_. True) xq i h st = Some (st', calls) \<and> True" by (cases h) (auto simp: list.pred_True)
qed

text \<open>The context of a thread after calls.\<close>

fun context_after :: "pq_call list \<Rightarrow> nat \<Rightarrow> nat" where
  "context_after [] here = here"
| "context_after (PqSetContext c # cs) here = context_after cs c"
| "context_after (_ # cs) here = context_after cs here"

section \<open>What holds of the queues\<close>

text \<open>An address in the ranges of the bus can be read off its id, so that different devices have different
  ids.\<close>

lemma pci_address_from_id:
  assumes "domain = take_bit 16 domain" "bus = take_bit 8 bus" "device = take_bit 5 device" "f = take_bit 3 f"
  shows "drop_bit 16 (MakePciId domain bus device f) = domain"
    "take_bit 8 (drop_bit 8 (MakePciId domain bus device f)) = bus"
    "take_bit 5 (drop_bit 3 (MakePciId domain bus device f)) = device"
    "take_bit 3 (MakePciId domain bus device f) = f"
proof -
  have b: "bit domain n \<Longrightarrow> n < 16" "bit bus n \<Longrightarrow> n < 8" "bit device n \<Longrightarrow> n < 5" "bit f n \<Longrightarrow> n < 3" for n
    using assms by (metis bit_take_bit_iff)+
  show "drop_bit 16 (MakePciId domain bus device f) = domain"
    by (rule bit_word_eqI) (auto simp: MakePciId_def bit_simps dest: b)
  show "take_bit 8 (drop_bit 8 (MakePciId domain bus device f)) = bus"
    by (rule bit_word_eqI) (auto simp: MakePciId_def bit_simps dest: b)
  show "take_bit 5 (drop_bit 3 (MakePciId domain bus device f)) = device"
    by (rule bit_word_eqI) (auto simp: MakePciId_def bit_simps dest: b)
  show "take_bit 3 (MakePciId domain bus device f) = f"
    by (rule bit_word_eqI) (auto simp: MakePciId_def bit_simps dest: b)
qed

text \<open>A second queue for the same stream is the first one.\<close>

lemma second_queue_is_first:
  assumes "QueueCreate k True h True i ctx s = Some (r, ho, s1)" "h \<noteq> 0" "k \<noteq> ZeList"
  shows "r = kXSchedSuccess \<and> ho = Some h \<and> hwqs s1 h \<noteq> None
    \<and> QueueCreate k' True h True i' ctx' s1 = Some (kXSchedSuccess, Some h, s1)"
  using assms by (auto simp: QueueCreate_def HwQueueManager_Add_def Let_def split: if_splits)

text \<open>Whatever sequence of suspensions and resumptions, no assertion of these queues fails as long as the
  driver does not fail, and a suspension or resumption that does not wait leaves the thread that calls it
  the context it had.\<close>

theorem other_queues_accept_calls:
  assumes "susp_run ops x = Some (x', hs)" "ax_level x \<ge> kPreemptLevelBlock"
  shows "\<exists>calls. hq_run (pq_exec (\<lambda>_. True) xq) here ctxs hs q = Some (q, calls)"
proof -
  have "\<exists>q' calls. hq_run (pq_exec (\<lambda>_. True) xq) here ctxs hs q = Some (q', calls)"
    using other_hwq.suspensions_accepted [OF _ assms(2,1)] by blast
  moreover have "fst r = q" if "pq_exec ok xq i h q = Some r" for ok i h r using that by (cases h) auto
  then have "fst r = q" if "hq_run (pq_exec (\<lambda>_. True) xq) here ctxs hs q = Some r" for r
    using that by (induction hs arbitrary: ctxs r) (fastforce split: option.splits)+
  ultimately show ?thesis by fastforce
qed

lemma callbacks_keep_context:
  "h = HwOnXQueueSuspend \<or> h = HwBeforeXQueueResume \<Longrightarrow> pq_exec ok xq here h q = Some (q', calls) \<Longrightarrow>
     context_after calls here = here"
  by (auto simp: in_own_context_def split: if_splits)

text \<open>To wait for an Ascend queue changes the context of the thread, which may be one of the program when a
  suspension waits for the hardware.\<close>

lemma ascend_wait_changes_context:
  "pq_kind q = AclQueue \<Longrightarrow> context_after (pq_Synchronize here q) here = pq_context q"
  by (simp add: pq_Synchronize_def)

text \<open>The NPU queue of Level Zero takes a refused suspension for a success.\<close>

lemma npu_suspension_is_not_checked:
  "pq_kind q = ZeIntelNpuQueue \<Longrightarrow> pq_exec (\<lambda>c. c \<noteq> PqSuspendCmdq) xq here HwDeactivate q = Some (q, [PqSuspendCmdq])"
  by simp

text \<open>Devices that the platform does not tell apart are one device for the scheduler.\<close>

lemma vpi_devices_are_one: "queue_device VpiQueue i = queue_device VpiQueue i'"
  by (simp add: queue_device_def)

section \<open>Commands that are waited for\<close>

text \<open>The commands of VPI, cuDLA, HIP and Ascend, and those of CUDA: a command that will be waited for takes an
  event from the pool, which is recorded after the command was launched and goes back when the command is
  destroyed. \<open>follow\<close> has the commands, each with its event if it has one.\<close>

record ev_cmds =
  ev_pool :: "(nat, nat) pool"
  follow :: "nat \<Rightarrow> nat option option"

definition ev_init :: ev_cmds where
  "ev_init = \<lparr> ev_pool = ([], 0), follow = (\<lambda>_. None) \<rparr>"

text \<open>\<open>kPoolSize\<close> of these pools is 512.\<close>

definition EventCmd_EnableSynchronization :: "(nat \<Rightarrow> bool) \<Rightarrow> nat \<Rightarrow> ev_cmds \<Rightarrow> (bool \<times> ev_cmds) option" where
  "EventCmd_EnableSynchronization ok c s =
     map_option (\<lambda>(e, p). (True, s\<lparr> ev_pool := p, follow := (follow s)(c \<mapsto> Some e) \<rparr>)) (Pop (event_create ok) 512 (ev_pool s))"

definition EventCmd_Synchronizable :: "nat option \<Rightarrow> bool" where
  "EventCmd_Synchronizable f \<longleftrightarrow> f \<noteq> None"

definition EventCmd_destroy :: "nat \<Rightarrow> ev_cmds \<Rightarrow> ev_cmds" where
  "EventCmd_destroy c s =
     (case follow s c of
        Some (Some e) \<Rightarrow> s\<lparr> ev_pool := Push e (ev_pool s), follow := (follow s)(c := None) \<rparr>
      | _ \<Rightarrow> s\<lparr> follow := (follow s)(c := None) \<rparr>)"

text \<open>The launch of the command \<open>c\<close> with the answers of the driver to the launch and to the recording; whether
  it was a success, and the calls. To wait for a command without an event is an assertion that fails.\<close>

definition EventCmd_LaunchWrapper :: "bool \<Rightarrow> bool \<Rightarrow> nat \<Rightarrow> nat option \<Rightarrow> bool \<times> pq_call list" where
  "EventCmd_LaunchWrapper launched recorded c f =
     (if \<not> launched then (False, [PqLaunch c])
      else case f of None \<Rightarrow> (True, [PqLaunch c]) | Some e \<Rightarrow> (recorded, [PqLaunch c, PqRecord e]))"

definition EventCmd_Synchronize :: "nat option \<Rightarrow> nat option" where
  "EventCmd_Synchronize f = f"

definition pq_Launch :: "bool \<Rightarrow> bool \<Rightarrow> nat \<Rightarrow> nat option \<Rightarrow> pq_call list option" where
  "pq_Launch launched recorded c f =
     (case EventCmd_LaunchWrapper launched recorded c f of (ok, calls) \<Rightarrow> if ok then Some calls else None)"

datatype ev_op = NewCmd nat | EnableCmd nat | DestroyCmd nat

fun ev_exec :: "(nat \<Rightarrow> bool) \<Rightarrow> ev_op \<Rightarrow> ev_cmds \<Rightarrow> ev_cmds option" where
  "ev_exec ok (NewCmd c) s = (if follow s c = None then Some (s\<lparr> follow := (follow s)(c \<mapsto> None) \<rparr>) else None)"
| "ev_exec ok (EnableCmd c) s =
     (if follow s c = None then None else map_option snd (EventCmd_EnableSynchronization ok c s))"
| "ev_exec ok (DestroyCmd c) s = Some (EventCmd_destroy c s)"

fun ev_run :: "(nat \<Rightarrow> bool) \<Rightarrow> ev_op list \<Rightarrow> ev_cmds \<Rightarrow> ev_cmds option" where
  "ev_run ok [] s = Some s"
| "ev_run ok (a # as) s = (case ev_exec ok a s of None \<Rightarrow> None | Some s' \<Rightarrow> ev_run ok as s')"

text \<open>The events of commands are among those that were taken from the pool. A command that is enabled twice
  loses its first event, which nothing gives back.\<close>

definition ev_inv :: "ev_cmds \<Rightarrow> nat list \<Rightarrow> bool" where
  "ev_inv s taken \<longleftrightarrow>
     event_pool.pool_ok (ev_pool s, taken)
     \<and> (\<forall>c e. follow s c = Some (Some e) \<longrightarrow> e \<in> set taken)
     \<and> (\<forall>c d e. follow s c = Some (Some e) \<longrightarrow> follow s d = Some (Some e) \<longrightarrow> c = d)"

lemma taken_not_in_pool: "event_pool.pool_ok (p, taken) \<Longrightarrow> distinct taken \<and> set taken \<inter> set (fst p) = {}"
  by (cases p) (auto simp: event_pool.pool_ok_def)

lemma popped_is_new: "event_pool.pool_ok (p, taken) \<Longrightarrow> Pop (event_create ok) n p = Some (e, p') \<Longrightarrow> e \<notin> set taken"
  using event_pool.Pop_ok [of p taken ok n e p'] taken_not_in_pool [of p' "e # taken"] by simp

lemma ev_exec_inv:
  assumes inv: "ev_inv s taken" and st: "ev_exec ok a s = Some s'"
  shows "\<exists>taken'. ev_inv s' taken'"
proof (cases a)
  case (NewCmd c)
  then have "ev_inv s' taken" using inv st by (auto simp: ev_inv_def split: if_splits)
  then show ?thesis by blast
next
  case (EnableCmd c)
  then obtain e p where e: "Pop (event_create ok) 512 (ev_pool s) = Some (e, p)"
    "s' = s\<lparr> ev_pool := p, follow := (follow s)(c \<mapsto> Some e) \<rparr>"
    using st by (auto simp: EventCmd_EnableSynchronization_def split: if_splits)
  have "event_pool.pool_ok (p, e # taken)" "e \<notin> set taken"
    using inv event_pool.Pop_ok [OF _ e(1)] popped_is_new [OF _ e(1)] by (auto simp: ev_inv_def)
  then have "ev_inv s' (e # taken)" using inv e(2) by (auto simp: ev_inv_def)
  then show ?thesis by blast
next
  case (DestroyCmd c)
  show ?thesis
  proof (cases "\<exists>e. follow s c = Some (Some e)")
    case True
    then obtain e where e: "follow s c = Some (Some e)" by blast
    have s': "s' = s\<lparr> ev_pool := Push e (ev_pool s), follow := (follow s)(c := None) \<rparr>"
      using st DestroyCmd e by (simp add: EventCmd_destroy_def)
    have "distinct taken" using inv taken_not_in_pool [of "ev_pool s" taken] by (simp add: ev_inv_def)
    then have "ev_inv s' (remove1 e taken)"
      using inv e s' event_pool.Push_ok [of "ev_pool s" taken e] by (auto simp: ev_inv_def)
    then show ?thesis by blast
  next
    case False
    then have "s' = s\<lparr> follow := (follow s)(c := None) \<rparr>"
      using st DestroyCmd by (auto simp: EventCmd_destroy_def split: option.splits)
    then have "ev_inv s' taken" using inv by (auto simp: ev_inv_def)
    then show ?thesis by blast
  qed
qed

lemma ev_run_inv: "ev_inv s taken \<Longrightarrow> ev_run ok as s = Some s' \<Longrightarrow> \<exists>taken'. ev_inv s' taken'"
proof (induction as arbitrary: s taken)
  case (Cons a as)
  then obtain s1 where "ev_exec ok a s = Some s1" "ev_run ok as s1 = Some s'" by (auto split: option.splits)
  then show ?case using Cons.IH ev_exec_inv [OF Cons.prems(1)] by blast
qed auto

text \<open>However commands are created, enabled and destroyed, no two of them wait for the same event of the
  driver, and none waits for one that the pool will give to another.\<close>

theorem commands_have_their_own_events:
  assumes "ev_run ok as ev_init = Some s" "follow s c = Some (Some e)"
  shows "e \<notin> set (fst (ev_pool s)) \<and> (\<forall>d. follow s d = Some (Some e) \<longrightarrow> d = c)"
proof -
  have "ev_inv ev_init []" by (simp add: ev_inv_def ev_init_def event_pool.pool_ok_def)
  then obtain taken where i: "ev_inv s taken" using ev_run_inv assms(1) by blast
  then have "e \<in> set taken" "event_pool.pool_ok (ev_pool s, taken)" using assms(2) by (auto simp: ev_inv_def)
  moreover have "d = c" if "follow s d = Some (Some e)" for d
    using i that assms(2) unfolding ev_inv_def by blast
  ultimately show ?thesis using taken_not_in_pool by blast
qed

lemma create_all_events: "create_all (event_create (\<lambda>_. True)) n i = Some ([i..<i + n], i + n)"
proof (induction n arbitrary: i)
  case (Suc n)
  have "[i..<i + Suc n] = i # [Suc i..<Suc i + n]" using upt_conv_Cons [of i "i + Suc n"] by simp
  then show ?case using Suc by (simp add: event_create_def)
qed simp

lemma first_event: "Pop (event_create (\<lambda>_. True)) n ([], 0) = Some (n, [0..<n], Suc n)"
  by (simp add: Pop_def create_all_events) (simp add: event_create_def)

lemma two_events:
  "0 < n \<Longrightarrow> \<exists>p e p'. Pop (event_create (\<lambda>_. True)) n ([], 0) = Some (n, p) \<and> Pop (event_create (\<lambda>_. True)) n p = Some (e, p')"
  by (simp add: first_event) (simp add: Pop_def)

theorem commands_have_their_own_events_witness:
  "\<exists>s e. ev_run (\<lambda>_. True) [NewCmd 7, EnableCmd 7, NewCmd 8, EnableCmd 8] ev_init = Some s
    \<and> follow s 7 = Some (Some e) \<and> e \<notin> set (fst (ev_pool s)) \<and> follow s 8 \<noteq> Some (Some e)"
proof -
  obtain p e p' where "Pop (event_create (\<lambda>_. True)) 512 ([], 0) = Some (512, p)"
    "Pop (event_create (\<lambda>_. True)) 512 p = Some (e, p')"
    using two_events [of 512] by auto
  then have s: "ev_run (\<lambda>_. True) [NewCmd 7, EnableCmd 7, NewCmd 8, EnableCmd 8] ev_init =
      Some \<lparr> ev_pool = p', follow = (\<lambda>_. None)(7 \<mapsto> Some 512, 8 \<mapsto> Some e) \<rparr>"
    by (simp add: ev_init_def EventCmd_EnableSynchronization_def fun_upd_twist)
  have "512 \<notin> set (fst p') \<and> e \<noteq> 512"
    using commands_have_their_own_events [OF s, of 7 512] by (auto dest: spec [of _ 8])
  then show ?thesis using s by simp
qed

section \<open>Commands of OpenCL\<close>

text \<open>An OpenCL command gets its event from the driver when it is launched. The program may want it too:
  \<open>oc_user\<close>. An event has a number of references.\<close>

record ocl_cmd =
  sync_enabled :: bool
  oc_user :: bool
  following_event :: "nat option"

datatype ocl_event_call = OclLaunch "nat option" | OclFlush | OclRetain nat | OclRelease nat | OclGiveToUser nat | OclWaitFor nat

text \<open>Whether the submission waits for the launch.\<close>

definition OclCommand_new :: "bool \<Rightarrow> ocl_cmd \<times> bool" where
  "OclCommand_new user = (\<lparr> sync_enabled = user, oc_user = user, following_event = None \<rparr>, user)"

definition OclCommand_EnableSynchronization :: "ocl_cmd \<Rightarrow> bool \<times> ocl_cmd" where
  "OclCommand_EnableSynchronization c = (True, c\<lparr> sync_enabled := True \<rparr>)"

text \<open>\<open>e\<close> is the event that the driver makes of the launch.\<close>

definition OclCommand_LaunchWrapper :: "nat \<Rightarrow> ocl_cmd \<Rightarrow> ocl_cmd \<times> ocl_event_call list" where
  "OclCommand_LaunchWrapper e c =
     (let c1 = (if sync_enabled c then c\<lparr> following_event := Some e \<rparr> else c) in
      (c1, [OclLaunch (if sync_enabled c then Some e else None)] @ (if sync_enabled c then [OclFlush] else [])
         @ (case following_event c1 of Some f \<Rightarrow> if oc_user c then [OclRetain f, OclGiveToUser f] else [] | None \<Rightarrow> [])))"

definition OclCommand_Synchronize :: "ocl_cmd \<Rightarrow> ocl_event_call list option" where
  "OclCommand_Synchronize c =
     (if \<not> sync_enabled c then None
      else case following_event c of None \<Rightarrow> None | Some e \<Rightarrow> Some [OclWaitFor e])"

definition OclCommand_destroy :: "ocl_cmd \<Rightarrow> ocl_event_call list" where
  "OclCommand_destroy c = (case following_event c of None \<Rightarrow> [] | Some e \<Rightarrow> [OclRelease e])"

text \<open>A launched command that is synchronizable can be waited for, the program gets the event that it asked
  for, and after the destruction the references to it are those that the program has.\<close>

fun references :: "ocl_event_call list \<Rightarrow> nat \<Rightarrow> int" where
  "references [] e = 0"
| "references (OclLaunch f # cs) e = (if f = Some e then 1 else 0) + references cs e"
| "references (OclRetain f # cs) e = (if f = e then 1 else 0) + references cs e"
| "references (OclRelease f # cs) e = (if f = e then - 1 else 0) + references cs e"
| "references (_ # cs) e = references cs e"

lemma ocl_command_keeps_event_for_user:
  assumes "OclCommand_LaunchWrapper e (if enabled then snd (OclCommand_EnableSynchronization c) else c) = (c', calls)"
    "fst (OclCommand_new user) = c"
  shows "sync_enabled c' \<Longrightarrow> OclCommand_Synchronize c' = Some [OclWaitFor e]"
    "OclGiveToUser e \<in> set calls \<longleftrightarrow> user"
    "references (calls @ OclCommand_destroy c') e = (if user then 1 else 0)"
  using assms
  by (auto simp: OclCommand_LaunchWrapper_def OclCommand_EnableSynchronization_def OclCommand_new_def
      OclCommand_Synchronize_def OclCommand_destroy_def Let_def split: if_splits)

text \<open>Of a command that another thread enables after its launch the assertion of the wait fails.\<close>

lemma late_enabled_command_aborts:
  "\<not> sync_enabled c \<Longrightarrow> following_event c = None \<Longrightarrow>
    OclCommand_Synchronize (snd (OclCommand_EnableSynchronization (fst (OclCommand_LaunchWrapper e c)))) = None"
  by (simp add: OclCommand_Synchronize_def OclCommand_EnableSynchronization_def OclCommand_LaunchWrapper_def Let_def)

end
