(* ===== verification/EventShims.thy ===== *)
theory EventShims
  imports CudaShim
begin

text \<open>
  Events in the shims of VPI, cuDLA, Ascend, HIP and Level Zero (\<^verbatim>\<open>platforms/*/shim/src/shim.cpp\<close>). The shims
  but the last one have the shape of the CUDA shim, and its state and calls are used for them; what differs
  is written out here: when a record becomes a command, what a wait waits for, and when the driver's event
  is destroyed.
\<close>

section \<open>VPI, cuDLA and Ascend\<close>

text \<open>A new command that records an event becomes the command of the event.\<close>

definition add_record :: "cuhandle \<Rightarrow> int option \<Rightarrow> xhandle option \<Rightarrow> shim \<Rightarrow> shim" where
  "add_record event flags xq sh =
     (let i = next_cmd sh;
          hc = (case xq of None \<Rightarrow> HwCommand_new | Some x \<Rightarrow> (OnSubmit x HwCommand_new)\<lparr> hc_state := kCommandStatePending \<rparr>);
          c = \<lparr> ec_event = event, ec_flags = flags, ec_cmd = hc, ec_destroy = False \<rparr> in
      sh\<lparr> g_events := (g_events sh)(event \<mapsto> i), event_cmds := (event_cmds sh)(i := c), next_cmd := i + 1 \<rparr>)"

text \<open>The default stream has no XQueue on any of the three platforms.\<close>

definition vpi_EventRecord :: "cuhandle \<Rightarrow> cuhandle \<Rightarrow> xhandle option \<Rightarrow> shim \<Rightarrow> shim_result \<times> shim \<times> shim_call list" where
  "vpi_EventRecord event stream xq sh =
     (case (if event = 0 \<or> stream = 0 then None else xq) of
        None \<Rightarrow> (FromDriver, sh, [DrvEventRecord event stream None])
      | Some x \<Rightarrow> (CuSuccess, add_record event None (Some x) sh, [SubmitRecord x (next_cmd sh)]))"

definition vpi_EventSync :: "cuhandle \<Rightarrow> shim \<Rightarrow> shim_result \<times> shim_call list" where
  "vpi_EventSync event sh =
     (case g_events sh event of
        None \<Rightarrow> (FromDriver, [DrvEventSynchronize event])
      | Some i \<Rightarrow> (CuSuccess, [cmd_wait i sh]))"

definition vpi_EventDestroy :: "cuhandle \<Rightarrow> shim \<Rightarrow> shim_result \<times> shim \<times> shim_call list" where
  "vpi_EventDestroy event sh =
     (FromDriver, if event = 0 then sh else sh\<lparr> g_events := (g_events sh)(event := None) \<rparr>, [DrvEventDestroy event])"

section \<open>HIP\<close>

text \<open>The XQueues of blocking streams: the map is declared, and nothing enters an XQueue.\<close>

definition blocking_xqueues :: "xhandle list" where "blocking_xqueues = []"

definition HipSyncBlockingXQueues :: "shim_call list" where
  "HipSyncBlockingXQueues = map WaitAllOf blocking_xqueues"

text \<open>\<^verbatim>\<open>XEventRecord\<close> and \<^verbatim>\<open>XEventRecordWithFlags\<close>; the driver never gets the flags.\<close>

definition hip_EventRecord ::
  "cuhandle \<Rightarrow> cuhandle \<Rightarrow> int option \<Rightarrow> xhandle option \<Rightarrow> shim \<Rightarrow> shim_result \<times> shim \<times> shim_call list" where
  "hip_EventRecord event stream flags xq sh =
     (if event = 0 then (FromDriver, sh, [DrvEventRecord event stream None])
      else if stream = 0
      then (FromDriver, add_record event flags None sh, HipSyncBlockingXQueues @ [DrvEventRecord event stream None])
      else case xq of
        None \<Rightarrow> (FromDriver, add_record event flags None sh, [DrvEventRecord event stream None])
      | Some x \<Rightarrow> (CuSuccess, add_record event flags (Some x) sh, [SubmitRecord x (next_cmd sh)]))"

definition HipEventRecordWithFlagsCommand_Launch :: "cuhandle \<Rightarrow> event_cmd \<Rightarrow> shim_call" where
  "HipEventRecordWithFlagsCommand_Launch stream c = DrvEventRecord (ec_event c) stream None"

text \<open>To synchronize with a command that records an event is to wait for the event in the driver.\<close>

definition HipEventRecordCommand_Synchronize :: "event_cmd \<Rightarrow> shim_call" where
  "HipEventRecordCommand_Synchronize c = DrvEventSynchronize (ec_event c)"

definition hip_StreamWaitEvent ::
  "cuhandle \<Rightarrow> cuhandle \<Rightarrow> int \<Rightarrow> xhandle option \<Rightarrow> shim \<Rightarrow> shim_result \<times> shim_call list" where
  "hip_StreamWaitEvent stream event flags xq sh =
     (case (if event = 0 then None else g_events sh event) of
        None \<Rightarrow> (FromDriver, [DrvStreamWaitEvent stream event flags])
      | Some i \<Rightarrow>
          (let c = event_cmds sh i in
           if stream = 0
           then (FromDriver, HipSyncBlockingXQueues
             @ [HipEventRecordCommand_Synchronize c, DrvStreamWaitEvent stream event flags])
           else case xq of
             Some x \<Rightarrow> (CuSuccess, [SubmitWaitFor x i flags])
           | None \<Rightarrow>
               if hc_xqueue_handle (ec_cmd c) = 0 then (FromDriver, [DrvStreamWaitEvent stream event flags])
               else (CuSuccess, [HipEventRecordCommand_Synchronize c])))"

definition HipEventWaitCommand_BeforeLaunch :: "nat \<Rightarrow> shim \<Rightarrow> shim_call" where
  "HipEventWaitCommand_BeforeLaunch i sh = HipEventRecordCommand_Synchronize (event_cmds sh i)"

section \<open>Events over time\<close>

text \<open>A program records and destroys events, and XQueues make progress. The other functions of HIP are those of
  the CUDA shim.\<close>

fun vpi_exec :: "event_op \<Rightarrow> shim \<Rightarrow> shim option" where
  "vpi_exec (OpRecord e st flags qs xq) sh =
     (if xq = Some 0 then None else case vpi_EventRecord e st xq sh of (_, sh', _) \<Rightarrow> Some sh')"
| "vpi_exec (OpEventDestroy e) sh = (case vpi_EventDestroy e sh of (_, sh', _) \<Rightarrow> Some sh')"
| "vpi_exec (OpProgress i state) sh = record_progress i state sh"

fun hip_exec :: "event_op \<Rightarrow> shim \<Rightarrow> shim option" where
  "hip_exec (OpRecord e st flags qs xq) sh =
     (if xq = Some 0 then None else case hip_EventRecord e st flags xq sh of (_, sh', _) \<Rightarrow> Some sh')"
| "hip_exec (OpEventDestroy e) sh = (case XEventDestroy e sh of (_, sh', _) \<Rightarrow> Some sh')"
| "hip_exec (OpProgress i state) sh = record_progress i state sh"

fun shim_run :: "(event_op \<Rightarrow> shim \<Rightarrow> shim option) \<Rightarrow> event_op list \<Rightarrow> shim \<Rightarrow> shim option" where
  "shim_run exec [] sh = Some sh"
| "shim_run exec (a # as) sh = (case exec a sh of None \<Rightarrow> None | Some sh' \<Rightarrow> shim_run exec as sh')"

text \<open>The command of an event is the newest one that records it.\<close>

definition newest :: "shim \<Rightarrow> cuhandle \<Rightarrow> nat \<Rightarrow> bool" where
  "newest sh e i \<longleftrightarrow>
     i < next_cmd sh \<and> ec_event (event_cmds sh i) = e \<and> (\<forall>j. i < j \<and> j < next_cmd sh \<longrightarrow> ec_event (event_cmds sh j) \<noteq> e)"

definition newest_inv :: "shim \<Rightarrow> bool" where
  "newest_inv sh \<longleftrightarrow> (\<forall>e i. g_events sh e = Some i \<longrightarrow> newest sh e i)"

lemma newest_add_record: "newest_inv sh \<Longrightarrow> newest_inv (add_record e flags xq sh)"
  by (auto simp: newest_inv_def newest_def add_record_def Let_def less_Suc_eq)

lemma newest_record_progress:
  assumes "newest_inv sh" "record_progress i st sh = Some sh'"
  shows "newest_inv sh'"
proof -
  have "ec_event (event_cmds sh' j) = ec_event (event_cmds sh j)" for j
    using assms(2) by (auto simp: record_progress_def)
  moreover have "g_events sh' = g_events sh" "next_cmd sh' = next_cmd sh" using assms(2) by (auto simp: record_progress_def)
  ultimately show ?thesis using assms(1) by (simp add: newest_inv_def newest_def)
qed

lemma newest_forget: "newest_inv sh \<Longrightarrow> newest_inv (sh\<lparr> g_events := (g_events sh)(e := None) \<rparr>)"
  by (auto simp: newest_inv_def newest_def)

lemma newest_vpi_exec: "newest_inv sh \<Longrightarrow> vpi_exec a sh = Some sh' \<Longrightarrow> newest_inv sh'"
  by (cases a)
    (auto simp: vpi_EventRecord_def vpi_EventDestroy_def newest_add_record newest_forget
      intro: newest_record_progress split: if_splits option.splits)

lemma newest_hip_destroy: "newest_inv sh \<Longrightarrow> newest_inv (fst (snd (XEventDestroy e sh)))"
  by (auto simp: XEventDestroy_def newest_inv_def newest_def split: option.split)

lemma newest_hip_exec: "newest_inv sh \<Longrightarrow> hip_exec a sh = Some sh' \<Longrightarrow> newest_inv sh'"
proof (cases a)
  case (OpEventDestroy e)
  then show "newest_inv sh \<Longrightarrow> hip_exec a sh = Some sh' \<Longrightarrow> newest_inv sh'"
    using newest_hip_destroy [of sh e] by (auto split: prod.splits)
qed (auto simp: hip_EventRecord_def newest_add_record intro: newest_record_progress split: if_splits option.splits)

lemma newest_run:
  assumes "\<And>sh sh' a. newest_inv sh \<Longrightarrow> exec a sh = Some sh' \<Longrightarrow> newest_inv sh'"
  shows "newest_inv sh \<Longrightarrow> shim_run exec as sh = Some sh' \<Longrightarrow> newest_inv sh'"
proof (induction as arbitrary: sh)
  case (Cons a as)
  then obtain sh1 where "exec a sh = Some sh1" "shim_run exec as sh1 = Some sh'" by (auto split: option.splits)
  then show ?case using Cons.IH [of sh1] assms [OF Cons.prems(1)] by blast
qed simp

lemma newest_init: "newest_inv shim_init"
  by (simp add: newest_inv_def shim_init_def)

text \<open>Whatever was recorded and destroyed, to wait for an event that has a command is to wait for the newest
  command that records it.\<close>

lemma wait_is_for_newest_record:
  assumes "shim_run vpi_exec as shim_init = Some sh" "vpi_EventSync e sh = (CuSuccess, calls)"
  shows "\<exists>i. newest sh e i \<and> calls = [cmd_wait i sh]"
proof -
  have "newest_inv sh" by (rule newest_run [OF newest_vpi_exec newest_init assms(1)])
  then show ?thesis using assms(2) by (auto simp: vpi_EventSync_def newest_inv_def split: option.splits)
qed

lemma hip_wait_is_for_newest_record:
  assumes "shim_run hip_exec as shim_init = Some sh" "XEventSynchronize e sh = (CuSuccess, calls)"
  shows "\<exists>i. newest sh e i \<and> calls = [cmd_wait i sh]"
proof -
  have "newest_inv sh" by (rule newest_run [OF newest_hip_exec newest_init assms(1)])
  then show ?thesis using assms(2) by (auto simp: XEventSynchronize_def newest_inv_def split: option.splits if_splits)
qed

text \<open>But a record on a stream without an XQueue is none of a command: with VPI, cuDLA and Ascend the event keeps
  the command of an earlier record, and a wait for the event is a wait for that.\<close>

lemma plain_record_keeps_old_command:
  assumes "g_events sh e = Some i" "vpi_EventRecord e stream None sh = (r, sh', calls)"
  shows "calls = [DrvEventRecord e stream None] \<and> vpi_EventSync e sh' = (CuSuccess, [cmd_wait i sh])"
  using assms by (auto simp: vpi_EventRecord_def vpi_EventSync_def split: if_splits)

text \<open>They also destroy the driver's event at once, when a command that will record it may still wait in an
  XQueue.\<close>

lemma pending_record_of_destroyed_event:
  assumes "e \<noteq> 0" "stream \<noteq> 0" "x \<noteq> 0"
  shows "\<exists>sh1 sh2. vpi_EventRecord e stream (Some x) sh = (CuSuccess, sh1, [SubmitRecord x (next_cmd sh)])
    \<and> vpi_EventDestroy e sh1 = (FromDriver, sh2, [DrvEventDestroy e])
    \<and> ec_event (event_cmds sh2 (next_cmd sh)) = e
    \<and> hc_state (ec_cmd (event_cmds sh2 (next_cmd sh))) = kCommandStatePending"
  using assms by (simp add: vpi_EventRecord_def vpi_EventDestroy_def add_record_def Let_def)

text \<open>A stream of HIP waits for an event in the driver, even when the command that records the event is not
  launched, in which case the driver waits for the record before it or for nothing; the CUDA shim waits until
  the command is launched.\<close>

lemma hip_wait_misses_pending_record:
  assumes "e \<noteq> 0" "stream \<noteq> 0" "x \<noteq> 0" "hip_EventRecord e stream flags (Some x) sh = (r, sh', calls)"
  shows "HipEventWaitCommand_BeforeLaunch (next_cmd sh) sh' = DrvEventSynchronize e"
    "other \<noteq> 0 \<Longrightarrow> hip_StreamWaitEvent other e f None sh' = (CuSuccess, [DrvEventSynchronize e])"
    "EventWait_BeforeLaunch (next_cmd sh) sh' = WaitCmd (next_cmd sh) WaitInFlightThenSyncCmd"
  using assms
  by (auto simp: hip_EventRecord_def hip_StreamWaitEvent_def HipEventWaitCommand_BeforeLaunch_def add_record_def
      HipEventRecordCommand_Synchronize_def EventWait_BeforeLaunch_def cmd_wait_def HwCommand_Wait_def OnSubmit_def
      HwCommand_new_def AsyncXQueue_Wait_def Let_def)

section \<open>Events and fences of Level Zero\<close>

text \<open>The maps of the shim: an event is signalled by a regular list or by a command on an immediate list; a list
  (or slice) and a fence belong to the command that executed the list last. Commands are numbered.\<close>

record ze_shim =
  g_event_to_cmdlist :: "nat \<Rightarrow> nat option"
  g_cmdlist_to_cmd :: "nat \<Rightarrow> nat option"
  g_event_to_cmd :: "nat \<Rightarrow> nat option"
  g_fence_to_cmd :: "nat \<Rightarrow> nat option"
  ze_next_cmd :: nat

datatype ze_event_call =
    ZeWait nat | ZeWaitInFlight nat | ZeSubmitCmd nat | ZeEnableSync nat
  | ZeEventHostSynchronize nat nat | ZeEventHostSignal nat | ZeEventQueryStatus nat | ZeEventHostReset nat
  | ZeEventDestroy nat | ZeFenceHostSynchronize nat nat | ZeFenceQueryStatus nat | ZeFenceReset nat | ZeFenceDestroy nat
  | ZeCmdSignal nat | ZeCmdQuery nat | ZeFollowingFenceQuery nat

text \<open>The lists or slices \<open>ls\<close> that are executed, in order: the last one enables the synchronization for the
  fence, 0 if there is none (an assertion that it can).\<close>

fun ze_execute :: "nat list \<Rightarrow> nat \<Rightarrow> ze_shim \<Rightarrow> ze_shim \<times> ze_event_call list" where
  "ze_execute [] fence s = (s, [])"
| "ze_execute (l # ls) fence s =
     (let c = ze_next_cmd s;
          s1 = s\<lparr> g_cmdlist_to_cmd := (g_cmdlist_to_cmd s)(l \<mapsto> c), ze_next_cmd := c + 1 \<rparr>;
          has = (fence \<noteq> 0 \<and> ls = []);
          s2 = (if has then s1\<lparr> g_fence_to_cmd := (g_fence_to_cmd s1)(fence \<mapsto> c) \<rparr> else s1) in
      case ze_execute ls fence s2 of (s', calls) \<Rightarrow> (s', (if has then [ZeEnableSync c] else []) @ ZeSubmitCmd c # calls))"

text \<open>A launch that is appended with an event: on an immediate list with an XQueue, and on a regular list whose
  current slice is \<open>l\<close>.\<close>

definition ze_append_immediate :: "nat \<Rightarrow> ze_shim \<Rightarrow> ze_shim \<times> ze_event_call list" where
  "ze_append_immediate e s =
     (let c = ze_next_cmd s in
      (s\<lparr> g_event_to_cmd := (g_event_to_cmd s)(e \<mapsto> c), ze_next_cmd := c + 1 \<rparr>, [ZeSubmitCmd c]))"

definition ze_append_regular :: "nat \<Rightarrow> nat \<Rightarrow> ze_shim \<Rightarrow> ze_shim" where
  "ze_append_regular e l s = (if e = 0 then s else s\<lparr> g_event_to_cmdlist := (g_event_to_cmdlist s)(e \<mapsto> l) \<rparr>)"

text \<open>A list (with its slices) is reset or destroyed.\<close>

definition ze_forget_lists :: "nat list \<Rightarrow> ze_shim \<Rightarrow> ze_shim" where
  "ze_forget_lists ls s = s\<lparr> g_cmdlist_to_cmd := (\<lambda>l. if l \<in> set ls then None else g_cmdlist_to_cmd s l) \<rparr>"

definition forget_event :: "nat \<Rightarrow> ze_shim \<Rightarrow> ze_shim" where
  "forget_event e s =
     s\<lparr> g_event_to_cmdlist := (g_event_to_cmdlist s)(e := None), g_event_to_cmd := (g_event_to_cmd s)(e := None) \<rparr>"

definition ze_XEventDestroy :: "nat \<Rightarrow> ze_shim \<Rightarrow> ze_shim \<times> ze_event_call list" where
  "ze_XEventDestroy e s = (forget_event e s, [ZeEventDestroy e])"

definition ze_XEventHostReset :: "nat \<Rightarrow> ze_shim \<Rightarrow> ze_shim \<times> ze_event_call list" where
  "ze_XEventHostReset e s = (forget_event e s, [ZeEventHostReset e])"

definition ze_XEventHostSignal :: "nat \<Rightarrow> ze_shim \<Rightarrow> ze_event_call list" where
  "ze_XEventHostSignal e s =
     (case g_event_to_cmdlist s e of
        None \<Rightarrow> (case g_event_to_cmd s e of None \<Rightarrow> [ZeEventHostSignal e] | Some c \<Rightarrow> [ZeWaitInFlight c, ZeCmdSignal c])
      | Some l \<Rightarrow>
          (case g_cmdlist_to_cmd s l of None \<Rightarrow> [ZeEventHostSignal e] | Some c \<Rightarrow> [ZeWaitInFlight c, ZeEventHostSignal e]))"

definition ze_command_of :: "nat \<Rightarrow> ze_shim \<Rightarrow> nat option" where
  "ze_command_of e s =
     (case g_event_to_cmdlist s e of None \<Rightarrow> g_event_to_cmd s e | Some l \<Rightarrow> g_cmdlist_to_cmd s l)"

definition ze_XEventHostSynchronize :: "nat \<Rightarrow> nat \<Rightarrow> ze_shim \<Rightarrow> ze_event_call list" where
  "ze_XEventHostSynchronize e timeout s =
     (case ze_command_of e s of None \<Rightarrow> [ZeEventHostSynchronize e timeout] | Some c \<Rightarrow> [ZeWait c])"

definition ze_XEventQueryStatus :: "nat \<Rightarrow> ze_shim \<Rightarrow> ze_event_call list" where
  "ze_XEventQueryStatus e s =
     (case g_event_to_cmdlist s e of
        None \<Rightarrow> (case g_event_to_cmd s e of None \<Rightarrow> [ZeEventQueryStatus e] | Some c \<Rightarrow> [ZeWaitInFlight c, ZeCmdQuery c])
      | Some l \<Rightarrow>
          (case g_cmdlist_to_cmd s l of None \<Rightarrow> [ZeEventQueryStatus e] | Some c \<Rightarrow> [ZeWaitInFlight c, ZeEventQueryStatus e]))"

definition forget_fence :: "nat \<Rightarrow> ze_shim \<Rightarrow> ze_shim" where
  "forget_fence f s = s\<lparr> g_fence_to_cmd := (g_fence_to_cmd s)(f := None) \<rparr>"

definition ze_XFenceDestroy :: "nat \<Rightarrow> ze_shim \<Rightarrow> ze_shim \<times> ze_event_call list" where
  "ze_XFenceDestroy f s = (forget_fence f s, [ZeFenceDestroy f])"

definition ze_XFenceReset :: "nat \<Rightarrow> ze_shim \<Rightarrow> ze_shim \<times> ze_event_call list" where
  "ze_XFenceReset f s = (forget_fence f s, [ZeFenceReset f])"

definition ze_XFenceHostSynchronize :: "nat \<Rightarrow> nat \<Rightarrow> ze_shim \<Rightarrow> ze_event_call list" where
  "ze_XFenceHostSynchronize f timeout s =
     (case g_fence_to_cmd s f of None \<Rightarrow> [ZeFenceHostSynchronize f timeout] | Some c \<Rightarrow> [ZeWait c])"

definition ze_XFenceQueryStatus :: "nat \<Rightarrow> ze_shim \<Rightarrow> ze_event_call list" where
  "ze_XFenceQueryStatus f s =
     (case g_fence_to_cmd s f of None \<Rightarrow> [ZeFenceQueryStatus f] | Some c \<Rightarrow> [ZeFollowingFenceQuery c])"

text \<open>A fence belongs to the last command of the execution it was passed to, which is a command that can be
  waited for.\<close>

lemma fence_belongs_to_last_command:
  assumes "ze_execute ls f s = (s', calls)" "ls \<noteq> []" "f \<noteq> 0"
  shows "ze_XFenceHostSynchronize f t s' = [ZeWait (ze_next_cmd s + length ls - 1)]
    \<and> ZeEnableSync (ze_next_cmd s + length ls - 1) \<in> set calls \<and> ze_next_cmd s' = ze_next_cmd s + length ls"
  using assms
proof (induction ls arbitrary: s s' calls)
  case (Cons l ls)
  show ?case
  proof (cases "ls = []")
    case True
    then show ?thesis using Cons.prems by (auto simp: ze_XFenceHostSynchronize_def Let_def)
  next
    case False
    let ?s = "s\<lparr> g_cmdlist_to_cmd := (g_cmdlist_to_cmd s)(l \<mapsto> ze_next_cmd s), ze_next_cmd := ze_next_cmd s + 1 \<rparr>"
    obtain calls1 where 1: "ze_execute ls f ?s = (s', calls1)" "calls = ZeSubmitCmd (ze_next_cmd s) # calls1"
      using Cons.prems(1) False by (auto simp: Let_def split: prod.splits)
    show ?thesis using Cons.IH [OF 1(1) False Cons.prems(3)] 1(2) by simp
  qed
qed simp

text \<open>An event that was reset has no command until a launch is appended with it again.\<close>

lemma reset_event_waits_in_driver:
  "ze_XEventHostReset e s = (s', calls) \<Longrightarrow>
     ze_XEventHostSynchronize e t s' = [ZeEventHostSynchronize e t] \<and> ze_XEventQueryStatus e s' = [ZeEventQueryStatus e]"
  by (auto simp: ze_XEventHostReset_def forget_event_def ze_XEventHostSynchronize_def ze_command_of_def ze_XEventQueryStatus_def)

text \<open>The timeout of a wait for a command is lost: a program that polls with timeout 0 is blocked until the
  command is complete, and one that queries is blocked until it is launched, which may be long when its XQueue
  is suspended.\<close>

lemma polling_blocks:
  assumes "ze_append_immediate e s = (s', calls)" "g_event_to_cmdlist s e = None"
  shows "ze_XEventHostSynchronize e 0 s' = [ZeWait (ze_next_cmd s)]"
    "hd (ze_XEventQueryStatus e s') = ZeWaitInFlight (ze_next_cmd s)"
  using assms
  by (auto simp: ze_append_immediate_def ze_XEventHostSynchronize_def ze_command_of_def ze_XEventQueryStatus_def Let_def)

text \<open>An event that was used with a regular list is taken for one of that list until it is reset, also when a
  command on an immediate list signals it.\<close>

lemma event_of_list_hides_command:
  "g_event_to_cmdlist s e = Some l \<Longrightarrow> ze_append_immediate e s = (s', calls) \<Longrightarrow>
     ze_XEventHostSynchronize e t s' = ze_XEventHostSynchronize e t s"
  by (auto simp: ze_append_immediate_def ze_XEventHostSynchronize_def ze_command_of_def Let_def)

end
