(* ===== verification/Spec2Isabelle.thy ===== *)
theory Spec2Isabelle
  imports SchedCorrect SchedAgent LaunchProperties WireCorrect AutoXQueue ServiceClient HbSplit GpuProperties McsLock CudaShim DeferredArgs ZeLists HipKernels AclObjects PlatformQueues EventShims
begin

text \<open>
  Verification of XSched, a preemptive scheduler for accelerators (GPUs, NPUs and the like). All file
  names below are relative to \<^verbatim>\<open>src/\<close>, the root of the repository.

  \<^bold>\<open>The program.\<close> An application sends work to an accelerator through the driver of its vendor. XSched
  puts itself between the two: a \<^emph>\<open>shim\<close> intercepts the driver's functions, and every stream of the
  application gets an \<^emph>\<open>XQueue\<close>. Commands submitted to an XQueue wait in its \<^emph>\<open>command buffer\<close>; a
  \<^emph>\<open>launch worker\<close> thread takes them out in order and launches them on the \<^emph>\<open>hardware queue\<close>, never
  more than a threshold at once. Suspending an XQueue stops its launch worker (level 1), stops the
  hardware queue from starting what it has been given (level 2), or also interrupts what is running
  (level 3). Who is suspended is decided by a \<^emph>\<open>scheduler\<close>, one in each process or one for all of them in
  a \<^emph>\<open>server\<close>: XQueues tell it by \<^emph>\<open>events\<close> when they have work and when they are empty, a \<^emph>\<open>policy\<close>
  chooses the XQueues that may run, and the decision comes back as \<^emph>\<open>operations\<close> that suspend and resume
  XQueues. \<^emph>\<open>Hints\<close> carry the parameters of the policies (priorities, time slices, deadlines).

  \<^bold>\<open>Theories and code.\<close> Each theory names the functions it translates; a definition has the name of
  the function it is the translation of, with a prefix where functions of several classes have the
  same name.

  \<^item> Vocabulary. \<open>Prelude\<close>: ordered maps and sets, the arithmetic of times. \<open>XTypes\<close>: the
    enumerations, device ids and name tables of \<^verbatim>\<open>include/xsched/types.h\<close> and \<^verbatim>\<open>protocol/\<close>. \<open>Numbers\<close>:
    the conversions between numbers and text of the C++ library. \<open>Float64\<close>: IEEE 754 doubles.
  \<^item> Protocol (\<^verbatim>\<open>sched/include/xsched/sched/protocol\<close>, \<^verbatim>\<open>sched/src/protocol\<close>). \<open>Wire\<close>: bytes of
    structs. \<open>Hints\<close>, \<open>Events\<close>, \<open>Operations\<close>: one datatype each, with the functions that pack and
    unpack it. \<open>Status\<close>: what the scheduler knows of an XQueue and of a process. \<open>WireCorrect\<close>: the
    three formats together.
  \<^item> Policies (\<^verbatim>\<open>sched/src/policy\<close>). \<open>Policy\<close>: the interface. \<open>PriorityPolicies\<close> (HPF, HHPF),
    \<open>ProcfsPolicy\<close> (CHPF), \<open>WindowPolicy\<close> (AWF), \<open>DeadlinePolicies\<close> (KEDF, LAX), \<open>UtilizationPolicy\<close>
    (UP), \<open>ProcessPolicy\<close> (PUP), \<open>FairPolicy\<close> (CFS), \<open>FeedbackPolicy\<close> (MLFQ), \<open>InterferencePolicy\<close>
    (IAH), \<open>SloPolicy\<close> (SLO). \<open>PolicySum\<close>: the object that holds one of the twelve.
  \<^item> Scheduler. \<open>LocalSched\<close>: the worker thread of \<^verbatim>\<open>sched/src/scheduler/local.cpp\<close>. \<open>SchedCorrect\<close>: its
    invariants and the meaning of its decisions. \<open>SchedAgent\<close>: the scheduler of a process and its
    replacement by another (\<^verbatim>\<open>preempt/src/sched\<close>, \<^verbatim>\<open>sched/src/scheduler\<close>).
  \<^item> XQueues (\<^verbatim>\<open>preempt/src/xqueue\<close>). \<open>XCommands\<close>: the states of a command. \<open>CommandBuffer\<close>,
    \<open>LaunchWorker\<close>, \<open>AsyncXQueue\<close>: one class each. \<open>McsLock\<close>: the lock of the launch worker
    (\<^verbatim>\<open>utils/src/lock.cpp\<close>). \<open>LaunchCorrect\<close>, \<open>LaunchProperties\<close>: the invariant of the launch worker
    under every interleaving of its threads, and what follows. \<open>XQueues\<close>, \<open>AutoXQueue\<close>: the
    registries of a process, the C interface on them, and the XQueues that the environment creates.
    \<open>MemoryAdmission\<close>: which XQueue's memory is on the device (\<^verbatim>\<open>preempt/src/memory/admission.cpp\<close>).
  \<^item> Platforms (\<^verbatim>\<open>platforms\<close>). \<open>CudaQueue\<close>: the CUDA queues of the three levels, the instrumented
    code and the preemption buffers. \<open>GpuPreempt\<close>, \<open>GpuProperties\<close>: the guardian code in front of
    every instrumented kernel, as it runs on the device, and what it guarantees with the host.
    \<open>PtxText\<close>, \<open>HbSplit\<close>: kernels split into several launches. \<open>CudaShim\<close>: the functions that CUDA
    programs call instead of the driver's. \<open>DeferredArgs\<close>: the kernel arguments of
    OpenCL and Level Zero, which are set when a kernel is launched. \<open>ObjectPools\<close>: the pools of events and
    other objects. \<open>ZeLists\<close>: command lists of Level Zero that are cut into slices. \<open>HipKernels\<close>: the
    parameters of HIP kernels, which a launch copies. \<open>AclObjects\<close>: the operands of Ascend operators.
    \<open>PlatformQueues\<close>: the queues of VPI, cuDLA, HIP, Ascend, OpenCL and Level Zero and how their commands are
    waited for. \<open>EventShims\<close>: the events of their shims.
  \<^item> Service (\<^verbatim>\<open>service\<close>). \<open>Server\<close>: the server's tables of channels and the clients that connect
    and exit. \<open>HttpServer\<close>: its HTTP interface. \<open>ServiceClient\<close>: the client of that interface,
    through which the command line tools talk to the server.

  \<^bold>\<open>State and steps.\<close> A class is a record with its fields, a method a function from the record (and its
  arguments) to a result and the new record. An assertion that fails, an uncaught exception and every
  other way to abort is a value of its own, so that ``never aborts'' is provable. What runs in one
  lock region is one step; threads are interleaved at steps. The launch worker and the MCS lock, whose
  code spans several lock regions, have a program counter per thread and a function from the action
  of a thread to the next state; the device side of preemption has a program counter per block of a
  kernel. The scheduler and the server are step relations over the arrival of events and passes of
  their worker.

  \<^bold>\<open>Interfaces.\<close> Six locales state what one part promises another:

  \<^item> \<open>policy_iface\<close>: on consistent tables a policy never aborts, keeps its own invariant and decides
    about known XQueues only. \<open>SchedCorrect\<close> rests on it. It is interpreted by KEDF, LAX, UP, SLO and by
    \<open>any_pol\<close>, the sum of all policies that the scheduler really holds.
  \<^item> \<open>wc_policy\<close> extends it by conservation of work, which HPF, HHPF, CHPF, AWF, PUP, CFS, MLFQ and IAH
    have: some XQueue with work runs if there is one.
  \<^item> \<open>hw_queue\<close>: the calls of an XQueue on its hardware queue break no assertion, when the queue was told
    of a level that it supports and the driver refuses no call. \<open>cuda_hwq\<close> shows it for the CUDA queues.
    \<open>other_hwq\<close> shows it for the queues of the other platforms.
  \<^item> \<open>fair_lock\<close>: mutual exclusion, and threads are let in in the order in which they have come.
    \<open>mcs_lock\<close> shows it for the MCS lock.
  \<^item> \<open>deferral\<close>: a platform that sets the arguments of a kernel when the kernel is launched runs it with
    those it was submitted with. \<open>ocl_args\<close> and \<open>ze_args\<close> show it for OpenCL and Level Zero.
  \<^item> \<open>object_pool\<close>: what creates the objects of a pool creates a new one every time, so that the pool gives
    out none twice. \<open>event_pool\<close> shows it for the events of the drivers.

  \<^bold>\<open>What the lemmas show.\<close> The properties are marked \<open>C1\<close> to \<open>C40\<close> in the theories.

  \<^item> Scheduler: its tables and its policy agree after every event; it aborts exactly on the events an
    assertion rejects, and so does a pass of the worker on a batch that contains one (\<open>batch_ok\<close>); any
    other pass sends the table that the events lead to, and each process
    exactly the operation that makes the state of its XQueues the decision; with a work-conserving
    policy some XQueue with work runs. \<open>SchedAgent\<close> says which replacements of a scheduler do what was asked for.
  \<^item> Policies: for each of HPF, CFS, MLFQ, PUP, SLO, IAH which XQueues run, stated on priorities, virtual
    run times, levels, run queue, classes and interference; in which case a run of PUP leaves everything
    as it is (then XQueues of a new process may run beside those of the current one:
    \<open>pup_newcomer_runs_beside_current\<close>); the search of PUP ends. The theories hold the
    same for the others as lemmas, for instance that HHPF is HPF when there is one device.
  \<^item> XQueues: at most the threshold in flight, the log of launched commands is what is in flight,
    commands are launched in the order of their indices, the only assertion that may fail is the one on
    the result of a callback command, and a barrier completes on an empty log. These hold when commands
    are handed to the worker in the order of their indices (\<open>lw_may\<close> is all that its callers observe), as
    they are when one thread submits at a time (\<open>racing_submits_break_wait\<close>). The lock is a fair
    queue and is handed over, unless a thread nests two locks; the state of the hardware
    queue follows the suspension; the scheduler's view of the buffer is right; the buffer is first-in,
    first-out; creating an XQueue aborts exactly if the hardware queue refuses its level.
  \<^item> Other platforms: OpenCL and Level Zero kernels run with the arguments they were submitted with,
    however launches are delayed; sliced command lists execute what the program appended; operands of Ascend
    operators live as long as an operator needs them. Lemmas: two commands never wait for the same event, and
    to wait for an event is to wait for the newest command that records it.
  \<^item> CUDA: in runs that drop no preempted kernel no block runs twice and kernels stay in order, and every
    block of every kernel runs exactly once if a queue is not deactivated while it restores a kernel;
    the device always gets through; a queue that was told of a level it supports accepts what XQueues
    do unless the driver refuses a call; the instrumented copy of a kernel is the guardian followed by
    the kernel, if it fits into a block of memory; a split kernel runs every block once.
  \<^item> Memory: the budgets fit below the low watermark; eviction takes the least valuable region.
  \<^item> Server, client and wire: an exited process leaves all tables; connected clients hear the decisions;
    hints survive the way from the client to the server; all messages survive encoding, and nothing is
    accepted that is not the encoding of the message it is taken for. Lemmas: which configurations are accepted, and that listings show the table.

  Beside the properties, lemmas show where the code does something other than what it means to
  (counterexamples by evaluation of the model), for instance \<open>nested_locks_hang\<close>,
  \<open>late_thread_loses_block\<close>, \<open>stale_flag_runs_block_twice\<close>, \<open>plain_event_never_ready\<close>,
  \<open>opencl_shared_kernel_misses_argument\<close>, \<open>ze_events_share_index\<close>, \<open>sliced_list_loses_copies\<close>,
  \<open>hip_module_kernel_reads_program_memory\<close>, \<open>hip_wait_misses_pending_record\<close>, \<open>plain_record_keeps_old_command\<close>.

  \<^bold>\<open>Bounds and fuel.\<close> Nothing runs on fuel except runs of a step relation given by their list of
  actions. The loops that need not end are \<open>partial_function\<close>s, with a proof that they end where they
  do: the rotation of PUP always, \<open>DecomposeBox\<close> for the boxes it is called with. All other recursions
  are structural or have a measure. Machine integers wrap around: the fields of hints, events and
  operations, device ids and preemption flags are words, and times are integers with the wrap-around of
  the code written out where it matters. Doubles are rationals rounded to 53 bits after every
  operation, with the special values where the code can meet them; \<^verbatim>\<open>std::pow\<close> is an input.

  \<^bold>\<open>Parameters.\<close> Code that is not part of the repository is an argument of the definitions: the JSON and
  HTTP libraries and the channels between processes (submodules), the vendors' drivers and
  \<^verbatim>\<open>cuxtra\<close> (what a call answers, whether it fails), the contents of \<^verbatim>\<open>/proc\<close>, the clock, and the order
  in which a hash table is traversed or equal elements are sorted. The launch worker takes the
  platform as the record \<open>hw_env\<close>. Theorems that rest on documented behaviour of such code have it as a
  premise, and a witness where it holds.

  \<^bold>\<open>Not modelled.\<close>

  \<^item> The declarations of the vendors' interfaces (most lines of the repository) and the tables and
    stubs that redirect a program's calls to the shims: they contain no logic.
  \<^item> The trap handler of CUDA and the arrays of machine code: they patch the code of the driver
    through a library that is not part of the repository. The source of the injected code is modelled,
    except for what needs the trap handler.
  \<^item> Commands that are one call of a driver (copies, fills), the functions of the shims that do no more than the
    ones of CUDA, and the memory backends, whose answers are an input of \<open>MemoryAdmission\<close>.
  \<^item> The start and end of threads, the memory model (memory is sequentially consistent, a lock region
    is atomic), logging, timing, the loading of libraries, and shared memory of test programs.
  \<^item> The command line tools, the X11 watcher, examples, benchmarks and tests.
\<close>

end
